(* ===== verification/Prelude.thy ===== *)
theory Prelude
  imports Main "HOL-Library.Word" "HOL-Library.Monad_Syntax"
begin

text \<open>
  Shared vocabulary of the development: machine integers as words, C memory
  blocks as byte lists, the return codes of the firmware, and the generic
  lemmas on lists, words and modular arithmetic the components use.

  A C function that may touch memory outside the object it works on returns an
  \<open>option\<close>: \<open>None\<close> is an out-of-bounds access (undefined behaviour),
  \<open>Some\<close> is a normal return. Functions whose accesses are in bounds by
  construction return their result directly.
\<close>

unbundle bit_operations_syntax

type_synonym u8 = "8 word"
type_synonym u16 = "16 word"
type_synonym u32 = "32 word"
type_synonym bytes = "8 word list"

text \<open>Return codes: the firmware returns \<open>0\<close> or a negated errno value.\<close>

abbreviation EIO :: int where "EIO \<equiv> 5"
abbreviation EBUSY :: int where "EBUSY \<equiv> 16"
abbreviation ENODEV :: int where "ENODEV \<equiv> 19"
abbreviation EINVAL :: int where "EINVAL \<equiv> 22"
abbreviation EFBIG :: int where "EFBIG \<equiv> 27"
abbreviation EOVERFLOW :: int where "EOVERFLOW \<equiv> 139"

section \<open>Memory blocks\<close>

text \<open>\<open>memcpy(buf + off, src, len)\<close> with the bounds of \<open>buf\<close> checked.\<close>

definition mem_write :: "'a list \<Rightarrow> nat \<Rightarrow> 'a list \<Rightarrow> 'a list option" where
  "mem_write buf off src =
     (if off + length src \<le> length buf
      then Some (take off buf @ src @ drop (off + length src) buf) else None)"

text \<open>A read of \<open>n\<close> elements from \<open>buf + off\<close> with the bounds of \<open>buf\<close> checked.\<close>

definition mem_read :: "'a list \<Rightarrow> nat \<Rightarrow> nat \<Rightarrow> 'a list option" where
  "mem_read buf off n = (if off + n \<le> length buf then Some (take n (drop off buf)) else None)"

text \<open>Store past the end is dropped: the total form used where the bound is proved.\<close>

definition mem_put :: "'a list \<Rightarrow> nat \<Rightarrow> 'a list \<Rightarrow> 'a list" where
  "mem_put buf off src = take (length buf) (take off buf @ src @ drop (off + length src) buf)"

named_theorems mem_simps

lemma mem_write_Some_iff [mem_simps]:
  "mem_write buf off src = Some b \<longleftrightarrow>
     off + length src \<le> length buf \<and> b = take off buf @ src @ drop (off + length src) buf"
  by (auto simp: mem_write_def)

lemma mem_write_None_iff [mem_simps]:
  "mem_write buf off src = None \<longleftrightarrow> length buf < off + length src"
  by (auto simp: mem_write_def)

lemma mem_write_length: "mem_write buf off src = Some b \<Longrightarrow> length b = length buf"
  by (auto simp: mem_simps)

lemma mem_read_Some_iff [mem_simps]:
  "mem_read buf off n = Some b \<longleftrightarrow> off + n \<le> length buf \<and> b = take n (drop off buf)"
  by (auto simp: mem_read_def)

lemma mem_read_None_iff [mem_simps]: "mem_read buf off n = None \<longleftrightarrow> length buf < off + n"
  by (auto simp: mem_read_def)

lemma mem_read_write_same:
  "mem_write buf off src = Some b \<Longrightarrow> mem_read b off (length src) = Some src"
  by (auto simp: mem_simps)

lemma length_mem_put [simp]: "length (mem_put buf off src) = length buf"
  by (auto simp: mem_put_def)

lemma nth_mem_put:
  "i < length buf \<Longrightarrow> mem_put buf off src ! i = (if off \<le> i \<and> i < off + length src then src ! (i - off) else buf ! i)"
  by (cases "off \<le> length buf") (auto simp: mem_put_def nth_append min_def)

lemma mem_put_comm:
  assumes "i + length xs \<le> j"
  shows "mem_put (mem_put r j ys) i xs = mem_put (mem_put r i xs) j ys"
  using assms by (intro nth_equalityI) (simp_all add: nth_mem_put)

lemma list_all_update: "list_all P xs \<Longrightarrow> P v \<Longrightarrow> list_all P (xs[i := v])"
  unfolding list_all_iff using set_update_subset_insert [of xs i v] by blast

lemma mem_put_slice_same: "off + length src \<le> length buf \<Longrightarrow> take (length src) (drop off (mem_put buf off src)) = src"
  by (simp add: mem_put_def)

lemma mem_put_slice_other:
  "a + n \<le> off \<or> off + length src \<le> a \<Longrightarrow> take n (drop a (mem_put buf off src)) = take n (drop a buf)"
  by (rule nth_equalityI) (auto simp: nth_mem_put)

lemma mem_put_take_other: "n \<le> off \<Longrightarrow> take n (mem_put buf off src) = take n buf"
  using mem_put_slice_other [of 0 n off src buf] by simp

lemma mem_put_write:
  "off + length src \<le> length buf \<Longrightarrow>
     mem_put buf off src = take off buf @ src @ drop (off + length src) buf"
  by (simp add: mem_put_def)

section \<open>Lists\<close>

lemma take_append_drop_add: "take n xs @ take m (drop n xs) = take (n + m) xs"
  by (simp add: take_add)

lemma map_nth_upt_add: "n + m \<le> length xs \<Longrightarrow> map (\<lambda>i. xs ! (n + i)) [0..<m] = take m (drop n xs)"
  by (rule nth_equalityI) auto

lemma map_upt_shift: "map f [a..<a + n] = map (\<lambda>i. f (a + i)) [0..<n]"
  by (rule nth_equalityI) auto

lemma map_upt_offset: "map (\<lambda>k. f (c + k)) [a..<b] = map f [c + a..<c + b]" for a b c :: nat
  by (rule nth_equalityI) (auto simp: add.assoc)

section \<open>Words\<close>

named_theorems word_nat

lemma unat_u32_lt: "unat (w :: u32) < 4294967296"
  using unsigned_less [of w] by simp

lemma unat_u16_lt: "unat (w :: u16) < 65536"
  using unsigned_less [of w] by simp

lemma unat_u8_lt: "unat (w :: u8) < 256"
  using unsigned_less [of w] by simp

lemma unat_add_small:
  fixes a b :: "'a::len word"
  shows "unat a + unat b < 2 ^ LENGTH('a) \<Longrightarrow> unat (a + b) = unat a + unat b"
  by (simp add: unat_word_ariths)

lemma unat_sub_le:
  fixes a b :: "'a::len word"
  shows "unat b \<le> unat a \<Longrightarrow> unat (a - b) = unat a - unat b"
  by (simp add: unat_sub word_le_nat_alt)

lemma unat_ucast_16_32 [simp]: "unat (ucast (w :: u16) :: u32) = unat w"
  by (simp add: unsigned_ucast_eq take_bit_nat_eq_self [OF less_trans [OF unat_u16_lt]])

lemma unat_ucast_32_16: "unat (w :: u32) < 65536 \<Longrightarrow> unat (ucast w :: u16) = unat w"
  by (simp add: unsigned_ucast_eq take_bit_nat_eq_self)

section \<open>Modular arithmetic of ring indices\<close>

lemma mod_Suc_ring: "(i::nat) < n \<Longrightarrow> Suc i mod n = (if Suc i = n then 0 else Suc i)"
  by auto

lemma ring_index_eq_iff:
  fixes a i j n :: nat
  assumes "a < n" "i < n" "j < n"
  shows "(a + i) mod n = (a + j) mod n \<longleftrightarrow> i = j"
proof -
  have *: "(a + k) mod n = (if a + k < n then a + k else a + k - n)" if "k < n" for k
    using that assms(1) by (simp add: le_mod_geq)
  show ?thesis
    using assms by (auto simp: * split: if_splits)
qed

section \<open>Little-endian fields\<close>

definition le16 :: "u16 \<Rightarrow> bytes" where
  "le16 w = [ucast w, ucast (drop_bit 8 w)]"

definition le32 :: "u32 \<Rightarrow> bytes" where
  "le32 w = [ucast w, ucast (drop_bit 8 w), ucast (drop_bit 16 w), ucast (drop_bit 24 w)]"

definition of_le16 :: "u8 \<Rightarrow> u8 \<Rightarrow> u16" where
  "of_le16 b0 b1 = ucast b0 OR push_bit 8 (ucast b1)"

definition of_le32 :: "u8 \<Rightarrow> u8 \<Rightarrow> u8 \<Rightarrow> u8 \<Rightarrow> u32" where
  "of_le32 b0 b1 b2 b3 =
     ucast b0 OR push_bit 8 (ucast b1) OR push_bit 16 (ucast b2) OR push_bit 24 (ucast b3)"

lemma length_le16 [simp]: "length (le16 w) = 2"
  by (simp add: le16_def)

lemma length_le32 [simp]: "length (le32 w) = 4"
  by (simp add: le32_def)

lemma of_le16_ucast [simp]: "of_le16 (ucast w) (ucast (drop_bit 8 w)) = w"
  by (rule bit_word_eqI) (auto simp: of_le16_def bit_simps)

lemma of_le32_ucast [simp]:
  "of_le32 (ucast w) (ucast (drop_bit 8 w)) (ucast (drop_bit 16 w)) (ucast (drop_bit 24 w)) = w"
proof (rule bit_word_eqI)
  fix n assume "n < LENGTH(32)"
  then consider "n < 8" | "8 \<le> n" "n < 16" | "16 \<le> n" "n < 24" | "24 \<le> n" "n < 32" by fastforce
  then show "bit (of_le32 (ucast w) (ucast (drop_bit 8 w)) (ucast (drop_bit 16 w)) (ucast (drop_bit 24 w))) n \<longleftrightarrow> bit w n"
    by cases (auto simp: of_le32_def bit_simps)
qed

section \<open>Text\<close>

text \<open>A string literal as the bytes of its characters.\<close>

definition ascii :: "string \<Rightarrow> bytes" where
  "ascii cs = map of_char cs"

lemma length_ascii [simp]: "length (ascii cs) = length cs"
  by (simp add: ascii_def)

text \<open>\<open>"%u"\<close> and \<open>"%d"\<close> of the C library.\<close>

fun decimal_digits :: "nat \<Rightarrow> bytes" where
  "decimal_digits n = (if n < 10 then [of_nat (48 + n)] else decimal_digits (n div 10) @ [of_nat (48 + n mod 10)])"

declare decimal_digits.simps [simp del]

definition print_int :: "int \<Rightarrow> bytes" where
  "print_int n = (if n < 0 then 45 # decimal_digits (nat (- n)) else decimal_digits (nat n))"

lemma decimal_digits_ne: "decimal_digits n \<noteq> []"
  by (subst decimal_digits.simps) simp

lemma length_decimal_digits: "n < 10 ^ k \<Longrightarrow> 0 < k \<Longrightarrow> length (decimal_digits n) \<le> k"
proof (induction n arbitrary: k rule: decimal_digits.induct)
  case (1 n)
  show ?case
  proof (cases "n < 10")
    case True
    then show ?thesis using 1(3) by (subst decimal_digits.simps) simp
  next
    case False
    then obtain j where k: "k = Suc j" "0 < j" using 1(2) by (cases k; cases "k - 1") auto
    then have "n div 10 < 10 ^ j" using 1(2) by (simp add: less_mult_imp_div_less mult.commute)
    then have "length (decimal_digits (n div 10)) \<le> j" using 1(1) False k(2) by blast
    then show ?thesis using False k(1) by (subst decimal_digits.simps) simp
  qed
qed

lemma length_decimal_u16: "length (decimal_digits (unat (w :: u16))) \<le> 5"
  using unsigned_less [of w, where ?'a = nat] by (intro length_decimal_digits) simp_all

lemma length_decimal_u32: "length (decimal_digits (unat (w :: u32))) \<le> 10"
  using unsigned_less [of w, where ?'a = nat] by (intro length_decimal_digits) simp_all

lemma length_print_i16: "length (print_int (sint (w :: u16))) \<le> 6"
proof -
  have "- (2 ^ 15) \<le> sint w" "sint w < 2 ^ 15" using sint_ge [of w] sint_lt [of w] by simp_all
  then have "nat (- sint w) < 10 ^ 5" "nat (sint w) < 10 ^ 5" by simp_all
  then have "length (decimal_digits (nat (- sint w))) \<le> 5" "length (decimal_digits (nat (sint w))) \<le> 5"
    using length_decimal_digits by (metis zero_less_numeral)+
  then show ?thesis by (simp add: print_int_def)
qed

end
