(* ===== verification/Ring_Buf.thy ===== *)
theory Ring_Buf
  imports Prelude
begin

text \<open>
  Model of \<^verbatim>\<open>src/my_ring_buf.c\<close>: the single-producer single-consumer byte
  ring that carries UART input from the receive callback to the threads. One slot is
  kept free to tell a full ring from an empty one. The state is the C structure with
  its 32-bit indices; the index arithmetic is the wrapping arithmetic of the source.

  The ring refines a bounded FIFO of bytes. The contract is the locale
  \<open>bounded_fifo\<close>, its client lemma is that any sequence of writes and reads
  delivers the accepted bytes in order, and it is interpreted on \<open>my_rb_write\<close> and
  \<open>my_rb_read\<close>. A second part splits the two bodies into their single accesses
  to the structure, shows that the steps of an undisturbed call compute \<open>my_rb_write\<close> and
  \<open>my_rb_read\<close>, and interleaves one producer and one consumer without a lock.
\<close>

section \<open>The structure and its operations\<close>

record ring_buffer =
  rb_head :: u32
  rb_tail :: u32
  rb_buf :: bytes
  rb_size :: u32

text \<open>
  Pointers that the code compares with \<open>NULL\<close> are options. The array passed to
  \<open>my_rb_init\<close> is the whole block, \<open>size\<close> the length the caller declares.
\<close>

definition my_rb_init :: "ring_buffer option \<Rightarrow> bytes option \<Rightarrow> u32 \<Rightarrow> int \<times> ring_buffer option" where
  "my_rb_init rb buf sz =
     (case (rb, buf) of
        (Some r, Some b) \<Rightarrow>
          if sz < 2 then (-1, rb)
          else (0, Some (r\<lparr>rb_head := 0, rb_tail := 0, rb_buf := b, rb_size := sz\<rparr>))
      | _ \<Rightarrow> (-1, rb))"

definition my_rb_clear :: "ring_buffer option \<Rightarrow> ring_buffer option" where
  "my_rb_clear rb = map_option (\<lambda>r. r\<lparr>rb_head := 0, rb_tail := 0\<rparr>) rb"

fun rb_write_loop :: "ring_buffer \<Rightarrow> u32 \<Rightarrow> bytes \<Rightarrow> u32 \<times> ring_buffer" where
  "rb_write_loop rb written [] = (written, rb)"
| "rb_write_loop rb written (d # ds) =
     (let next_head = (rb_head rb + 1) mod rb_size rb in
      if next_head = rb_tail rb then (written, rb)
      else rb_write_loop
             (rb\<lparr>rb_buf := (rb_buf rb)[unat (rb_head rb) := d], rb_head := next_head\<rparr>)
             (written + 1) ds)"

definition my_rb_write :: "ring_buffer \<Rightarrow> bytes \<Rightarrow> u32 \<times> ring_buffer" where
  "my_rb_write rb data = rb_write_loop rb 0 data"

fun rb_read_loop :: "ring_buffer \<Rightarrow> nat \<Rightarrow> bytes \<Rightarrow> bytes \<times> ring_buffer" where
  "rb_read_loop rb 0 out = (out, rb)"
| "rb_read_loop rb (Suc len) out =
     (if rb_head rb = rb_tail rb then (out, rb)
      else rb_read_loop (rb\<lparr>rb_tail := (rb_tail rb + 1) mod rb_size rb\<rparr>) len
             (out @ [rb_buf rb ! unat (rb_tail rb)]))"

text \<open>The bytes stored to \<open>data\<close>; the C return value is their number.\<close>

definition my_rb_read :: "ring_buffer \<Rightarrow> u32 \<Rightarrow> bytes \<times> ring_buffer" where
  "my_rb_read rb len = rb_read_loop rb (unat len) []"

definition my_rb_get_used_size :: "ring_buffer option \<Rightarrow> u32" where
  "my_rb_get_used_size rb =
     (case rb of None \<Rightarrow> 0 | Some r \<Rightarrow> (rb_head r - rb_tail r + rb_size r) mod rb_size r)"

definition my_rb_get_free_size :: "ring_buffer option \<Rightarrow> u32" where
  "my_rb_get_free_size rb =
     (case rb of None \<Rightarrow> 0 | Some r \<Rightarrow> (rb_size r - 1) - my_rb_get_used_size (Some r))"

section \<open>Invariant and abstraction to a list\<close>

definition rb_inv :: "ring_buffer \<Rightarrow> bool" where
  "rb_inv rb \<longleftrightarrow> 2 \<le> unat (rb_size rb) \<and> length (rb_buf rb) = unat (rb_size rb) \<and>
     unat (rb_head rb) < unat (rb_size rb) \<and> unat (rb_tail rb) < unat (rb_size rb)"

definition rb_used :: "ring_buffer \<Rightarrow> nat" where
  "rb_used rb = (unat (rb_head rb) + unat (rb_size rb) - unat (rb_tail rb)) mod unat (rb_size rb)"

definition rb_capacity :: "ring_buffer \<Rightarrow> nat" where
  "rb_capacity rb = unat (rb_size rb) - 1"

definition rb_content :: "ring_buffer \<Rightarrow> bytes" where
  "rb_content rb =
     map (\<lambda>i. rb_buf rb ! ((unat (rb_tail rb) + i) mod unat (rb_size rb))) [0..<rb_used rb]"

section \<open>One producer and one consumer, interleaved\<close>

text \<open>
  The bodies of \<open>my_rb_write\<close> and \<open>my_rb_read\<close> as small steps, one access to
  the shared structure each. A frame holds the arguments, the local variables and the place
  in the body; \<open>my_rb_write_step\<close> and \<open>my_rb_read_step\<close> execute the statement at
  that place. The writer computes the next index, compares it with \<open>tail\<close>, stores the byte and
  publishes \<open>head\<close>; the reader compares the indices, fetches the byte and publishes
  \<open>tail\<close>.
\<close>

datatype write_pc = W_Loop | W_Check | W_Store | W_Publish | W_Return

record write_frame =
  w_pc :: write_pc
  w_data :: bytes
  w_len :: u32
  w_written :: u32
  w_next_head :: u32

definition write_frame_enter :: "bytes \<Rightarrow> u32 \<Rightarrow> write_frame" where
  "write_frame_enter data len = \<lparr>w_pc = W_Loop, w_data = data, w_len = len, w_written = 0, w_next_head = 0\<rparr>"

definition my_rb_write_step :: "write_frame \<Rightarrow> ring_buffer \<Rightarrow> write_frame \<times> ring_buffer" where
  "my_rb_write_step f rb =
     (case w_pc f of
        W_Loop \<Rightarrow>
          if w_written f < w_len f
          then (f\<lparr>w_pc := W_Check, w_next_head := (rb_head rb + 1) mod rb_size rb\<rparr>, rb)
          else (f\<lparr>w_pc := W_Return\<rparr>, rb)
      | W_Check \<Rightarrow>
          if w_next_head f = rb_tail rb then (f\<lparr>w_pc := W_Return\<rparr>, rb) else (f\<lparr>w_pc := W_Store\<rparr>, rb)
      | W_Store \<Rightarrow>
          (f\<lparr>w_pc := W_Publish\<rparr>,
           rb\<lparr>rb_buf := (rb_buf rb)[unat (rb_head rb) := w_data f ! unat (w_written f)]\<rparr>)
      | W_Publish \<Rightarrow> (f\<lparr>w_pc := W_Loop, w_written := w_written f + 1\<rparr>, rb\<lparr>rb_head := w_next_head f\<rparr>)
      | W_Return \<Rightarrow> (f, rb))"

datatype read_pc = R_Loop | R_Check | R_Fetch | R_Publish | R_Return

record read_frame =
  r_pc :: read_pc
  r_data :: bytes
  r_len :: u32
  r_read :: u32

definition read_frame_enter :: "bytes \<Rightarrow> u32 \<Rightarrow> read_frame" where
  "read_frame_enter data len = \<lparr>r_pc = R_Loop, r_data = data, r_len = len, r_read = 0\<rparr>"

definition my_rb_read_step :: "read_frame \<Rightarrow> ring_buffer \<Rightarrow> read_frame \<times> ring_buffer" where
  "my_rb_read_step f rb =
     (case r_pc f of
        R_Loop \<Rightarrow> (f\<lparr>r_pc := (if r_read f < r_len f then R_Check else R_Return)\<rparr>, rb)
      | R_Check \<Rightarrow> (f\<lparr>r_pc := (if rb_head rb = rb_tail rb then R_Return else R_Fetch)\<rparr>, rb)
      | R_Fetch \<Rightarrow>
          (f\<lparr>r_pc := R_Publish, r_data := (r_data f)[unat (r_read f) := rb_buf rb ! unat (rb_tail rb)]\<rparr>, rb)
      | R_Publish \<Rightarrow>
          (f\<lparr>r_pc := R_Loop, r_read := r_read f + 1\<rparr>, rb\<lparr>rb_tail := (rb_tail rb + 1) mod rb_size rb\<rparr>)
      | R_Return \<Rightarrow> (f, rb))"

text \<open>
  The producer context runs one \<open>my_rb_write\<close> after the other, the consumer thread one
  \<open>my_rb_read\<close> after the other, and their steps interleave in any order. \<open>sent_done\<close>
  and \<open>received_done\<close> collect what the calls that have returned have accepted and delivered.
\<close>

record spsc =
  ring :: ring_buffer
  writer :: "write_frame option"
  reader :: "read_frame option"
  sent_done :: bytes
  received_done :: bytes

inductive spsc_step :: "spsc \<Rightarrow> spsc \<Rightarrow> bool" where
  write_call: "writer s = None \<Longrightarrow> length data = unat len \<Longrightarrow>
     spsc_step s (s\<lparr>writer := Some (write_frame_enter data len)\<rparr>)"
| write_step: "writer s = Some f \<Longrightarrow> w_pc f \<noteq> W_Return \<Longrightarrow> my_rb_write_step f (ring s) = (f', rb') \<Longrightarrow>
     spsc_step s (s\<lparr>writer := Some f', ring := rb'\<rparr>)"
| write_return: "writer s = Some f \<Longrightarrow> w_pc f = W_Return \<Longrightarrow>
     spsc_step s (s\<lparr>writer := None, sent_done := sent_done s @ take (unat (w_written f)) (w_data f)\<rparr>)"
| read_call: "reader s = None \<Longrightarrow> unat len \<le> length data \<Longrightarrow>
     spsc_step s (s\<lparr>reader := Some (read_frame_enter data len)\<rparr>)"
| read_step: "reader s = Some g \<Longrightarrow> r_pc g \<noteq> R_Return \<Longrightarrow> my_rb_read_step g (ring s) = (g', rb') \<Longrightarrow>
     spsc_step s (s\<lparr>reader := Some g', ring := rb'\<rparr>)"
| read_return: "reader s = Some g \<Longrightarrow> r_pc g = R_Return \<Longrightarrow>
     spsc_step s (s\<lparr>reader := None, received_done := received_done s @ take (unat (r_read g)) (r_data g)\<rparr>)"

definition spsc_init :: "ring_buffer \<Rightarrow> spsc" where
  "spsc_init rb = \<lparr>ring = rb, writer = None, reader = None, sent_done = rb_content rb, received_done = []\<rparr>"

inductive spsc_reachable :: "ring_buffer \<Rightarrow> spsc \<Rightarrow> bool" for rb where
  start: "spsc_reachable rb (spsc_init rb)"
| step: "spsc_reachable rb s \<Longrightarrow> spsc_step s t \<Longrightarrow> spsc_reachable rb t"

text \<open>What was accepted and delivered so far, the calls under way included.\<close>

definition sent :: "spsc \<Rightarrow> bytes" where
  "sent s = sent_done s @ (case writer s of None \<Rightarrow> [] | Some f \<Rightarrow> take (unat (w_written f)) (w_data f))"

definition received :: "spsc \<Rightarrow> bytes" where
  "received s = received_done s @ (case reader s of None \<Rightarrow> [] | Some g \<Rightarrow> take (unat (r_read g)) (r_data g))"

text \<open>A call that is not interrupted.\<close>

fun write_alone :: "nat \<Rightarrow> write_frame \<Rightarrow> ring_buffer \<Rightarrow> write_frame \<times> ring_buffer" where
  "write_alone 0 f rb = (f, rb)"
| "write_alone (Suc n) f rb = (case my_rb_write_step f rb of (f', rb') \<Rightarrow> write_alone n f' rb')"

fun read_alone :: "nat \<Rightarrow> read_frame \<Rightarrow> ring_buffer \<Rightarrow> read_frame \<times> ring_buffer" where
  "read_alone 0 f rb = (f, rb)"
| "read_alone (Suc n) f rb = (case my_rb_read_step f rb of (f', rb') \<Rightarrow> read_alone n f' rb')"

lemma length_rb_content [simp]: "length (rb_content rb) = rb_used rb"
  by (simp add: rb_content_def)

lemma unat_ring_next:
  fixes i n :: u32
  assumes "unat i < unat n"
  shows "unat ((i + 1) mod n) = Suc (unat i) mod unat n"
proof -
  have "unat i + 1 < 2 ^ LENGTH(32)"
    using assms unat_u32_lt [of n] by simp
  then have "unat (i + 1) = Suc (unat i)"
    by (simp add: unat_word_ariths)
  then show ?thesis
    by (simp add: unat_mod_distrib)
qed

lemma rb_used_cases:
  "rb_inv rb \<Longrightarrow> rb_used rb =
     (if unat (rb_tail rb) \<le> unat (rb_head rb) then unat (rb_head rb) - unat (rb_tail rb)
      else unat (rb_head rb) + unat (rb_size rb) - unat (rb_tail rb))"
  by (auto simp: rb_inv_def rb_used_def mod_if)

lemma rb_used_le: "rb_inv rb \<Longrightarrow> rb_used rb \<le> rb_capacity rb"
  by (auto simp: rb_used_cases rb_capacity_def rb_inv_def)

lemma rb_head_index: "rb_inv rb \<Longrightarrow> (unat (rb_tail rb) + rb_used rb) mod unat (rb_size rb) = unat (rb_head rb)"
  by (auto simp: rb_used_cases rb_inv_def)

lemma rb_empty_iff: "rb_inv rb \<Longrightarrow> rb_head rb = rb_tail rb \<longleftrightarrow> rb_used rb = 0"
  by (auto simp: rb_used_cases rb_inv_def word_unat_eq_iff split: if_splits)

lemma rb_full_iff:
  assumes "rb_inv rb"
  shows "(rb_head rb + 1) mod rb_size rb = rb_tail rb \<longleftrightarrow> rb_used rb = rb_capacity rb"
  using assms unat_ring_next [of "rb_head rb" "rb_size rb"]
  by (auto simp: rb_inv_def word_unat_eq_iff rb_used_cases rb_capacity_def mod_Suc_ring
      split: if_splits)

text \<open>One byte in, one byte out.\<close>

definition rb_push1 :: "ring_buffer \<Rightarrow> u8 \<Rightarrow> ring_buffer" where
  "rb_push1 rb d = rb\<lparr>rb_buf := (rb_buf rb)[unat (rb_head rb) := d],
     rb_head := (rb_head rb + 1) mod rb_size rb\<rparr>"

definition rb_pop1 :: "ring_buffer \<Rightarrow> ring_buffer" where
  "rb_pop1 rb = rb\<lparr>rb_tail := (rb_tail rb + 1) mod rb_size rb\<rparr>"

lemma rb_push1_inv: "rb_inv rb \<Longrightarrow> rb_inv (rb_push1 rb d)"
  using unat_ring_next [of "rb_head rb" "rb_size rb"] by (auto simp: rb_inv_def rb_push1_def)

lemma rb_pop1_inv: "rb_inv rb \<Longrightarrow> rb_inv (rb_pop1 rb)"
  using unat_ring_next [of "rb_tail rb" "rb_size rb"] by (auto simp: rb_inv_def rb_pop1_def)

lemma rb_push1_used:
  "rb_inv rb \<Longrightarrow> rb_used rb < rb_capacity rb \<Longrightarrow> rb_used (rb_push1 rb d) = Suc (rb_used rb)"
  using unat_ring_next [of "rb_head rb" "rb_size rb"] rb_push1_inv [of rb d]
  by (auto simp: rb_used_cases rb_capacity_def rb_push1_def rb_inv_def mod_Suc_ring split: if_splits)

lemma rb_pop1_used:
  "rb_inv rb \<Longrightarrow> rb_used rb \<noteq> 0 \<Longrightarrow> rb_used (rb_pop1 rb) = rb_used rb - 1"
  using unat_ring_next [of "rb_tail rb" "rb_size rb"] rb_pop1_inv [of rb]
  by (auto simp: rb_used_cases rb_capacity_def rb_pop1_def rb_inv_def mod_Suc_ring split: if_splits)

lemma rb_push1_content:
  assumes inv: "rb_inv rb" and room: "rb_used rb < rb_capacity rb"
  shows "rb_content (rb_push1 rb d) = rb_content rb @ [d]"
proof (rule nth_equalityI)
  let ?t = "unat (rb_tail rb)" and ?n = "unat (rb_size rb)"
  show "length (rb_content (rb_push1 rb d)) = length (rb_content rb @ [d])"
    using assms by (simp add: rb_push1_used)
  fix i assume "i < length (rb_content (rb_push1 rb d))"
  then have i: "i \<le> rb_used rb" using assms by (simp add: rb_push1_used)
  have lt: "i < ?n" "rb_used rb < ?n" "?t < ?n"
    using i room inv by (auto simp: rb_capacity_def rb_inv_def)
  have "(?t + i) mod ?n = unat (rb_head rb) \<longleftrightarrow> i = rb_used rb"
    using ring_index_eq_iff [OF lt(3,1,2)] rb_head_index [OF inv] by simp
  moreover have "unat (rb_head rb) < length (rb_buf rb)" using inv by (simp add: rb_inv_def)
  ultimately show "rb_content (rb_push1 rb d) ! i = (rb_content rb @ [d]) ! i"
    using i assms by (auto simp: rb_content_def rb_push1_used nth_append nth_list_update)
      (auto simp: rb_push1_def nth_list_update)
qed

lemma rb_pop1_content:
  assumes inv: "rb_inv rb" and ne: "rb_used rb \<noteq> 0"
  shows "rb_content rb = (rb_buf rb ! unat (rb_tail rb)) # rb_content (rb_pop1 rb)"
proof (rule nth_equalityI)
  let ?t = "unat (rb_tail rb)" and ?n = "unat (rb_size rb)"
  show "length (rb_content rb) = length ((rb_buf rb ! ?t) # rb_content (rb_pop1 rb))"
    using assms by (simp add: rb_pop1_used)
  fix i assume i: "i < length (rb_content rb)"
  have tn: "?t < ?n" using inv by (simp add: rb_inv_def)
  have nxt: "unat (rb_tail (rb_pop1 rb)) = Suc ?t mod ?n" "rb_size (rb_pop1 rb) = rb_size rb"
    "rb_buf (rb_pop1 rb) = rb_buf rb"
    using unat_ring_next [OF tn] by (simp_all add: rb_pop1_def)
  show "rb_content rb ! i = ((rb_buf rb ! ?t) # rb_content (rb_pop1 rb)) ! i"
  proof (cases i)
    case 0
    then show ?thesis using i tn by (simp add: rb_content_def)
  next
    case (Suc j)
    have "(Suc ?t mod ?n + j) mod ?n = (?t + i) mod ?n"
      using Suc by (simp add: mod_simps)
    then show ?thesis using Suc i assms
      by (simp add: rb_content_def rb_pop1_used nxt)
  qed
qed

section \<open>The FIFO contract\<close>

datatype 'a fifo_op = Put "'a list" | Get nat

text \<open>Run a sequence of operations; collect the accepted and the delivered elements.\<close>

fun fifo_run :: "('q \<Rightarrow> 'a list \<Rightarrow> nat \<times> 'q) \<Rightarrow> ('q \<Rightarrow> nat \<Rightarrow> 'a list \<times> 'q) \<Rightarrow> 'q \<Rightarrow> 'a fifo_op list
     \<Rightarrow> 'a list \<times> 'a list \<times> 'q" where
  "fifo_run wr rd q [] = ([], [], q)"
| "fifo_run wr rd q (Put xs # ops) =
     (let (n, q') = wr q xs; (acc, del, q'') = fifo_run wr rd q' ops in (take n xs @ acc, del, q''))"
| "fifo_run wr rd q (Get k # ops) =
     (let (ys, q') = rd q k; (acc, del, q'') = fifo_run wr rd q' ops in (acc, ys @ del, q''))"

locale bounded_fifo =
  fixes wr :: "'q \<Rightarrow> 'a list \<Rightarrow> nat \<times> 'q"
    and rd :: "'q \<Rightarrow> nat \<Rightarrow> 'a list \<times> 'q"
    and content :: "'q \<Rightarrow> 'a list"
    and capacity :: "'q \<Rightarrow> nat"
    and invar :: "'q \<Rightarrow> bool"
  assumes wr_spec: "invar q \<Longrightarrow> wr q xs = (n, q') \<Longrightarrow>
      n = min (length xs) (capacity q - length (content q)) \<and>
      content q' = content q @ take n xs \<and> capacity q' = capacity q \<and> invar q'"
    and rd_spec: "invar q \<Longrightarrow> rd q k = (ys, q') \<Longrightarrow>
      ys = take k (content q) \<and> content q' = drop k (content q) \<and>
      capacity q' = capacity q \<and> invar q'"
    and bounded: "invar q \<Longrightarrow> length (content q) \<le> capacity q"
begin

lemma run_fifo:
  "invar q \<Longrightarrow> fifo_run wr rd q ops = (acc, del, q') \<Longrightarrow>
     content q @ acc = del @ content q' \<and> invar q' \<and> capacity q' = capacity q"
proof (induction ops arbitrary: q acc del q')
  case Nil
  then show ?case by simp
next
  case (Cons op ops)
  show ?case
  proof (cases op)
    case (Put xs)
    obtain n q1 where w: "wr q xs = (n, q1)" by fastforce
    obtain a d q2 where r: "fifo_run wr rd q1 ops = (a, d, q2)" by (metis prod_cases3)
    show ?thesis using Cons.prems Cons.IH [OF _ r] wr_spec [OF Cons.prems(1) w] w r Put
      by (auto split: prod.splits)
  next
    case (Get k)
    obtain ys q1 where w: "rd q k = (ys, q1)" by fastforce
    obtain a d q2 where r: "fifo_run wr rd q1 ops = (a, d, q2)" by (metis prod_cases3)
    show ?thesis using Cons.prems Cons.IH [OF _ r] rd_spec [OF Cons.prems(1) w] w r Get
      by (auto split: prod.splits) (metis append.assoc append_take_drop_id)
  qed
qed

lemma wr_rd_all:
  assumes "invar q" "content q = []" "length xs \<le> capacity q"
  shows "\<exists>q1 q2. wr q xs = (length xs, q1) \<and> rd q1 (length xs) = (xs, q2) \<and> content q2 = []"
proof -
  obtain n q1 where w: "wr q xs = (n, q1)" by fastforce
  obtain ys q2 where r: "rd q1 (length xs) = (ys, q2)" by fastforce
  from wr_spec [OF assms(1) w] assms have 1: "n = length xs" "content q1 = xs" "invar q1" by auto
  from rd_spec [OF 1(3) r] 1 show ?thesis using w r by auto
qed

end

text \<open>The model's operations at the types of the contract.\<close>

abbreviation rb_wr :: "ring_buffer \<Rightarrow> bytes \<Rightarrow> nat \<times> ring_buffer" where
  "rb_wr rb xs \<equiv> (let (n, rb') = my_rb_write rb xs in (unat n, rb'))"

abbreviation rb_rd :: "ring_buffer \<Rightarrow> nat \<Rightarrow> bytes \<times> ring_buffer" where
  "rb_rd rb k \<equiv> rb_read_loop rb k []"

lemma rb_push1_size [simp]: "rb_size (rb_push1 rb d) = rb_size rb" "rb_tail (rb_push1 rb d) = rb_tail rb"
  by (simp_all add: rb_push1_def)

lemma rb_pop1_size [simp]: "rb_size (rb_pop1 rb) = rb_size rb" "rb_buf (rb_pop1 rb) = rb_buf rb"
  "rb_head (rb_pop1 rb) = rb_head rb"
  by (simp_all add: rb_pop1_def)

lemma rb_write_loop_spec:
  "rb_inv rb \<Longrightarrow> rb_write_loop rb w xs = (n, rb') \<Longrightarrow>
     \<exists>k. k = min (length xs) (rb_capacity rb - rb_used rb) \<and> n = w + of_nat k \<and>
       rb_content rb' = rb_content rb @ take k xs \<and> rb_capacity rb' = rb_capacity rb \<and> rb_inv rb'"
proof (induction xs arbitrary: rb w)
  case Nil
  then show ?case by simp
next
  case (Cons x xs)
  show ?case
  proof (cases "rb_used rb = rb_capacity rb")
    case True
    with Cons.prems show ?thesis by (simp add: rb_full_iff Let_def)
  next
    case False
    with Cons.prems(1) have room: "rb_used rb < rb_capacity rb" using rb_used_le by fastforce
    have loop: "rb_write_loop (rb_push1 rb x) (w + 1) xs = (n, rb')"
      using Cons.prems False by (simp add: rb_full_iff Let_def rb_push1_def)
    have cap: "rb_capacity (rb_push1 rb x) = rb_capacity rb" by (simp add: rb_capacity_def)
    from Cons.IH [OF rb_push1_inv [OF Cons.prems(1)] loop] obtain k where
      k: "k = min (length xs) (rb_capacity rb - Suc (rb_used rb))" "n = w + 1 + of_nat k"
        "rb_content rb' = rb_content rb @ x # take k xs" "rb_capacity rb' = rb_capacity rb" "rb_inv rb'"
      using Cons.prems(1) room by (auto simp: cap rb_push1_used rb_push1_content)
    show ?thesis
      by (rule exI [of _ "Suc k"]) (use k room in \<open>auto simp: algebra_simps\<close>)
  qed
qed

lemma rb_read_loop_spec:
  "rb_inv rb \<Longrightarrow> rb_read_loop rb k out = (ys, rb') \<Longrightarrow>
     ys = out @ take k (rb_content rb) \<and> rb_content rb' = drop k (rb_content rb) \<and>
     rb_capacity rb' = rb_capacity rb \<and> rb_inv rb'"
proof (induction k arbitrary: rb out)
  case 0
  then show ?case by simp
next
  case (Suc k)
  show ?case
  proof (cases "rb_used rb = 0")
    case True
    then have "rb_content rb = []" by (simp add: rb_content_def)
    with True Suc.prems show ?thesis by (simp add: rb_empty_iff)
  next
    case False
    have loop: "rb_read_loop (rb_pop1 rb) k (out @ [rb_buf rb ! unat (rb_tail rb)]) = (ys, rb')"
      using Suc.prems False by (simp add: rb_empty_iff rb_pop1_def)
    have cap: "rb_capacity (rb_pop1 rb) = rb_capacity rb" by (simp add: rb_capacity_def)
    from Suc.IH [OF rb_pop1_inv [OF Suc.prems(1)] loop] rb_pop1_content [OF Suc.prems(1) False]
    show ?thesis by (simp add: cap)
  qed
qed

interpretation rbq: bounded_fifo rb_wr rb_rd rb_content rb_capacity rb_inv
proof unfold_locales
  fix q xs n q' assume inv: "rb_inv q" and w: "rb_wr q xs = (n, q')"
  obtain m where m: "rb_write_loop q 0 xs = (m, q')" "n = unat m"
    using w by (auto simp: my_rb_write_def Let_def split: prod.splits)
  have small: "min (length xs) (rb_capacity q - rb_used q) < 2 ^ LENGTH(32)"
    using unat_u32_lt [of "rb_size q"] by (auto simp: rb_capacity_def)
  from rb_write_loop_spec [OF inv m(1)] m(2) small
  show "n = min (length xs) (rb_capacity q - length (rb_content q)) \<and>
      rb_content q' = rb_content q @ take n xs \<and> rb_capacity q' = rb_capacity q \<and> rb_inv q'"
    by (auto simp: unat_of_nat)
qed (auto simp: rb_used_le dest: rb_read_loop_spec)

section \<open>Properties\<close>

text \<open>
  C18: any sequence of writes and reads of the ring delivers exactly the accepted bytes,
  in order: what was stored before, followed by what the writes accepted, is what the
  reads returned followed by what is stored now.
\<close>

theorem my_rb_run_fifo:
  assumes "rb_inv rb" and "fifo_run rb_wr rb_rd rb ops = (acc, del, rb')"
  shows "rb_content rb @ acc = del @ rb_content rb' \<and> rb_inv rb'"
  using rbq.run_fifo [OF assms] by simp

text \<open>The ring of four cells used by the witnesses.\<close>

definition ring4 :: ring_buffer where
  "ring4 = \<lparr>rb_head = 0, rb_tail = 0, rb_buf = [0, 0, 0, 0], rb_size = 4\<rparr>"

lemma ring4_inv: "rb_inv ring4"
  by (simp add: rb_inv_def ring4_def)

lemma my_rb_run_fifo_witness:
  "fifo_run rb_wr rb_rd ring4 [Put [1, 2, 3, 4], Get 2, Put [5, 6], Get 9] =
     ([1, 2, 3, 5, 6], [1, 2, 3, 5, 6], ring4\<lparr>rb_head := 1, rb_tail := 1, rb_buf := [6, 2, 3, 5]\<rparr>) \<and>
   rb_content ring4 @ [1, 2, 3, 5, 6] =
     [1, 2, 3, 5, 6] @ rb_content (ring4\<lparr>rb_head := 1, rb_tail := 1, rb_buf := [6, 2, 3, 5]\<rparr>)"
proof -
  have run: "fifo_run rb_wr rb_rd ring4 [Put [1, 2, 3, 4], Get 2, Put [5, 6], Get 9] =
     ([1, 2, 3, 5, 6], [1, 2, 3, 5, 6], ring4\<lparr>rb_head := 1, rb_tail := 1, rb_buf := [6, 2, 3, 5]\<rparr>)"
    by code_simp
  show ?thesis using run my_rb_run_fifo [OF ring4_inv run] by simp
qed

text \<open>
  A write accepts as many bytes as fit, never more than the capacity
  \<open>size - 1\<close>, appends exactly that prefix and keeps the invariant; the reported
  count is the number of bytes stored.
\<close>

lemma my_rb_write_spec:
  assumes "rb_inv rb" and "my_rb_write rb xs = (n, rb')"
  shows "unat n = min (length xs) (rb_capacity rb - length (rb_content rb)) \<and>
         rb_content rb' = rb_content rb @ take (unat n) xs \<and> rb_inv rb'"
  using rbq.wr_spec [OF assms(1), of xs "unat n" rb'] assms(2) by simp

lemma rb_used_size:
  assumes "rb_inv rb" and "unat (rb_size rb) \<le> 2 ^ 31"
  shows "unat (my_rb_get_used_size (Some rb)) = rb_used rb"
proof -
  let ?h = "unat (rb_head rb)" and ?t = "unat (rb_tail rb)" and ?n = "unat (rb_size rb)"
  have lt: "?h < ?n" "?t < ?n" "2 \<le> ?n" using assms(1) by (auto simp: rb_inv_def)
  have "unat (rb_head rb - rb_tail rb + rb_size rb) = ?h + ?n - ?t"
  proof (cases "?t \<le> ?h")
    case True
    then have "unat (rb_head rb - rb_tail rb) = ?h - ?t" by (rule unat_sub_le)
    then show ?thesis using True lt assms(2) by (simp add: unat_word_ariths)
  next
    case False
    have eq: "rb_head rb - rb_tail rb + rb_size rb = rb_head rb + (rb_size rb - rb_tail rb)" by simp
    have d: "unat (rb_size rb - rb_tail rb) = ?n - ?t" using lt by (simp add: unat_sub_le)
    show ?thesis unfolding eq
      by (subst unat_add_small) (use False lt unat_u32_lt [of "rb_size rb"] d in auto)
  qed
  then show ?thesis
    by (simp add: my_rb_get_used_size_def rb_used_def unat_mod_distrib)
qed

text \<open>
  The size queries agree with the contents as long as the declared size is at most
  \<open>2^31\<close> (beyond that \<open>head - tail + size\<close> wraps): used bytes is the length of the
  contents, used plus free is the capacity.
\<close>

lemma my_rb_sizes:
  assumes "rb_inv rb" and "unat (rb_size rb) \<le> 2 ^ 31"
  shows "unat (my_rb_get_used_size (Some rb)) = length (rb_content rb) \<and>
         unat (my_rb_get_free_size (Some rb)) = rb_capacity rb - length (rb_content rb)"
proof -
  let ?n = "unat (rb_size rb)"
  have lt: "2 \<le> ?n" using assms(1) by (auto simp: rb_inv_def)
  note used = rb_used_size [OF assms]
  have "unat (rb_size rb - 1) = ?n - 1" using lt by (simp add: unat_sub_le)
  then have "unat (my_rb_get_free_size (Some rb)) = ?n - 1 - rb_used rb"
    using used rb_used_le [OF assms(1)]
    by (simp add: my_rb_get_free_size_def unat_sub_le rb_capacity_def)
  with used show ?thesis by (simp add: rb_capacity_def)
qed

subsection \<open>Lock-free interleaving\<close>

lemma rb_store_free:
  assumes "rb_inv rb" "rb_used rb < rb_capacity rb"
  shows "rb_content (rb\<lparr>rb_buf := (rb_buf rb)[unat (rb_head rb) := d]\<rparr>) = rb_content rb"
    and "rb_inv (rb\<lparr>rb_buf := (rb_buf rb)[unat (rb_head rb) := d]\<rparr>)"
    and "rb_used (rb\<lparr>rb_buf := (rb_buf rb)[unat (rb_head rb) := d]\<rparr>) = rb_used rb"
    and "rb_capacity (rb\<lparr>rb_buf := (rb_buf rb)[unat (rb_head rb) := d]\<rparr>) = rb_capacity rb"
proof -
  have "unat (rb_head rb) \<noteq> (unat (rb_tail rb) + i) mod unat (rb_size rb)" if "i < rb_used rb" for i
  proof -
    have lt: "unat (rb_tail rb) < unat (rb_size rb)" "i < unat (rb_size rb)" "rb_used rb < unat (rb_size rb)"
      using that assms by (auto simp: rb_inv_def rb_capacity_def)
    show ?thesis using ring_index_eq_iff [OF lt] rb_head_index [OF assms(1)] that by auto
  qed
  then show "rb_content (rb\<lparr>rb_buf := (rb_buf rb)[unat (rb_head rb) := d]\<rparr>) = rb_content rb"
    by (auto simp: rb_content_def rb_used_def)
qed (use assms in \<open>auto simp: rb_inv_def rb_used_def rb_capacity_def\<close>)

lemma rb_push1_stored:
  assumes "rb_inv rb" "rb_buf rb ! unat (rb_head rb) = d"
  shows "rb\<lparr>rb_head := (rb_head rb + 1) mod rb_size rb\<rparr> = rb_push1 rb d"
proof -
  have "unat (rb_head rb) < length (rb_buf rb)" using assms(1) by (simp add: rb_inv_def)
  then have "(rb_buf rb)[unat (rb_head rb) := d] = rb_buf rb" using assms(2) list_update_id by metis
  then show ?thesis by (simp add: rb_push1_def)
qed

lemma rb_store_tail:
  assumes "rb_inv rb" "rb_used rb \<noteq> 0"
  shows "(rb_buf rb)[unat (rb_head rb) := d] ! unat (rb_tail rb) = rb_buf rb ! unat (rb_tail rb)"
  using assms rb_empty_iff [OF assms(1)] by (auto simp: nth_list_update word_unat_eq_iff)

text \<open>
  What the writer relies on at each place of its body, and what the reader relies on. Each
  step of one keeps the assertion of the other.
\<close>

definition write_ok :: "ring_buffer \<Rightarrow> write_frame \<Rightarrow> bool" where
  "write_ok rb f \<longleftrightarrow> length (w_data f) = unat (w_len f) \<and> w_written f \<le> w_len f \<and>
     (w_pc f \<in> {W_Check, W_Store, W_Publish} \<longrightarrow>
        w_written f < w_len f \<and> w_next_head f = (rb_head rb + 1) mod rb_size rb) \<and>
     (w_pc f \<in> {W_Store, W_Publish} \<longrightarrow> rb_used rb < rb_capacity rb) \<and>
     (w_pc f = W_Publish \<longrightarrow> rb_buf rb ! unat (rb_head rb) = w_data f ! unat (w_written f))"

definition read_ok :: "ring_buffer \<Rightarrow> read_frame \<Rightarrow> bool" where
  "read_ok rb g \<longleftrightarrow> unat (r_len g) \<le> length (r_data g) \<and> r_read g \<le> r_len g \<and>
     (r_pc g \<in> {R_Check, R_Fetch, R_Publish} \<longrightarrow> r_read g < r_len g) \<and>
     (r_pc g \<in> {R_Fetch, R_Publish} \<longrightarrow> rb_used rb \<noteq> 0) \<and>
     (r_pc g = R_Publish \<longrightarrow> r_data g ! unat (r_read g) = rb_buf rb ! unat (rb_tail rb))"

lemma u32_Suc:
  fixes i n :: u32
  assumes "i < n"
  shows "unat (i + 1) = Suc (unat i)" "i + 1 \<le> n" "unat i < unat n"
proof -
  show lt: "unat i < unat n" using assms by (simp add: word_less_nat_alt)
  show s: "unat (i + 1) = Suc (unat i)" using lt unat_u32_lt [of n] by (simp add: unat_word_ariths)
  show "i + 1 \<le> n" using lt s by (simp add: word_le_nat_alt)
qed

lemma write_step_ok:
  assumes inv: "rb_inv rb" and ok: "write_ok rb f" and st: "my_rb_write_step f rb = (f', rb')"
  shows "rb_inv rb' \<and> write_ok rb' f' \<and> (read_ok rb g \<longrightarrow> read_ok rb' g) \<and>
    (\<exists>new. take (unat (w_written f')) (w_data f') = take (unat (w_written f)) (w_data f) @ new \<and>
       rb_content rb' = rb_content rb @ new)"
proof (cases "w_pc f")
  case W_Loop
  then show ?thesis using assms by (auto simp: my_rb_write_step_def write_ok_def split: if_splits)
next
  case W_Check
  then show ?thesis using assms rb_full_iff [OF inv] rb_used_le [OF inv]
    by (auto simp: my_rb_write_step_def write_ok_def split: if_splits)
next
  case W_Store
  then have lt: "rb_used rb < rb_capacity rb" "unat (rb_head rb) < length (rb_buf rb)"
    using ok inv by (auto simp: write_ok_def rb_inv_def)
  then show ?thesis using W_Store assms rb_store_free [OF inv lt(1)] rb_store_tail [OF inv]
    by (auto simp: my_rb_write_step_def write_ok_def read_ok_def)
next
  case W_Publish
  let ?d = "w_data f ! unat (w_written f)"
  have lt: "rb_used rb < rb_capacity rb" "w_written f < w_len f" "rb_buf rb ! unat (rb_head rb) = ?d"
    "length (w_data f) = unat (w_len f)" "w_next_head f = (rb_head rb + 1) mod rb_size rb"
    using ok W_Publish by (auto simp: write_ok_def)
  have rb': "rb' = rb_push1 rb ?d" using st W_Publish lt(5) rb_push1_stored [OF inv lt(3)] by (auto simp: my_rb_write_step_def)
  have buf: "rb_buf rb' = rb_buf rb" "rb_tail rb' = rb_tail rb" using st W_Publish by (auto simp: my_rb_write_step_def)
  have f': "f' = f\<lparr>w_pc := W_Loop, w_written := w_written f + 1\<rparr>" using st W_Publish by (auto simp: my_rb_write_step_def)
  have "write_ok rb' f'" using lt u32_Suc [OF lt(2)] by (simp add: write_ok_def f')
  moreover have "take (unat (w_written f')) (w_data f') = take (unat (w_written f)) (w_data f) @ [?d]"
    using u32_Suc [OF lt(2)] lt(4) by (simp add: f' take_Suc_conv_app_nth)
  moreover have "read_ok rb g \<longrightarrow> read_ok rb' g" using buf rb_push1_used [OF inv lt(1)] by (auto simp: read_ok_def rb')
  ultimately show ?thesis using rb_push1_inv [OF inv] rb_push1_content [OF inv lt(1)] rb' by auto
next
  case W_Return
  then show ?thesis using assms by (auto simp: my_rb_write_step_def write_ok_def)
qed

lemma read_step_ok:
  assumes inv: "rb_inv rb" and ok: "read_ok rb g" and st: "my_rb_read_step g rb = (g', rb')"
  shows "rb_inv rb' \<and> read_ok rb' g' \<and> (write_ok rb f \<longrightarrow> write_ok rb' f) \<and>
    (\<exists>new. take (unat (r_read g')) (r_data g') = take (unat (r_read g)) (r_data g) @ new \<and>
       rb_content rb = new @ rb_content rb')"
proof (cases "r_pc g")
  case R_Fetch
  then have "unat (r_read g) < length (r_data g)" using ok u32_Suc(3) [of "r_read g" "r_len g"] by (auto simp: read_ok_def)
  then show ?thesis using R_Fetch assms by (auto simp: my_rb_read_step_def read_ok_def)
next
  case R_Publish
  let ?d = "rb_buf rb ! unat (rb_tail rb)"
  have lt: "rb_used rb \<noteq> 0" "r_read g < r_len g" "r_data g ! unat (r_read g) = ?d" "unat (r_len g) \<le> length (r_data g)"
    using ok R_Publish by (auto simp: read_ok_def)
  have rb': "rb' = rb_pop1 rb" and g': "g' = g\<lparr>r_pc := R_Loop, r_read := r_read g + 1\<rparr>"
    using st R_Publish by (auto simp: my_rb_read_step_def rb_pop1_def)
  have "read_ok rb' g'" using lt u32_Suc [OF lt(2)] by (simp add: read_ok_def g')
  moreover have "take (unat (r_read g')) (r_data g') = take (unat (r_read g)) (r_data g) @ [?d]"
    using u32_Suc [OF lt(2)] lt(3,4) by (simp add: g' take_Suc_conv_app_nth)
  moreover have "write_ok rb f \<longrightarrow> write_ok rb' f"
    using rb_pop1_used [OF inv lt(1)] by (auto simp: write_ok_def rb' rb_capacity_def)
  ultimately show ?thesis using rb_pop1_inv [OF inv] rb_pop1_content [OF inv lt(1)] rb' by auto
qed (use assms rb_empty_iff [OF inv] in \<open>auto simp: my_rb_read_step_def read_ok_def split: if_splits\<close>)

definition spsc_inv :: "spsc \<Rightarrow> bool" where
  "spsc_inv s \<longleftrightarrow> rb_inv (ring s) \<and> sent s = received s @ rb_content (ring s) \<and>
     (\<forall>f. writer s = Some f \<longrightarrow> write_ok (ring s) f) \<and> (\<forall>g. reader s = Some g \<longrightarrow> read_ok (ring s) g)"

lemma spsc_step_inv: "spsc_step s t \<Longrightarrow> spsc_inv s \<Longrightarrow> spsc_inv t"
proof (induction rule: spsc_step.induct)
  case (write_step s f f' rb')
  then have "rb_inv (ring s)" "write_ok (ring s) f" by (simp_all add: spsc_inv_def)
  note w = write_step_ok [OF this write_step.hyps(3)]
  then obtain new where "take (unat (w_written f')) (w_data f') = take (unat (w_written f)) (w_data f) @ new"
    "rb_content rb' = rb_content (ring s) @ new" by blast
  with w write_step.prems write_step.hyps show ?case by (auto simp: spsc_inv_def sent_def received_def)
next
  case (read_step s g g' rb')
  then have "rb_inv (ring s)" "read_ok (ring s) g" by (simp_all add: spsc_inv_def)
  note r = read_step_ok [OF this read_step.hyps(3)]
  then obtain new where "take (unat (r_read g')) (r_data g') = take (unat (r_read g)) (r_data g) @ new"
    "rb_content (ring s) = new @ rb_content rb'" by blast
  with r read_step.prems read_step.hyps show ?case by (auto simp: spsc_inv_def sent_def received_def)
qed (auto simp: spsc_inv_def sent_def received_def write_ok_def read_ok_def write_frame_enter_def read_frame_enter_def)

lemma spsc_reachable_inv: "spsc_reachable rb s \<Longrightarrow> rb_inv rb \<Longrightarrow> spsc_inv s"
proof (induction rule: spsc_reachable.induct)
  case start
  then show ?case by (simp add: spsc_inv_def spsc_init_def sent_def received_def)
next
  case (step s t)
  then show ?case by (blast intro: spsc_step_inv)
qed

text \<open>The steps of a call that is not interrupted compute \<open>my_rb_write\<close> and \<open>my_rb_read\<close>.\<close>

lemma write_alone_returned [simp]: "w_pc f = W_Return \<Longrightarrow> write_alone n f rb = (f, rb)"
  by (induction n) (simp_all add: my_rb_write_step_def)

lemma read_alone_returned [simp]: "r_pc g = R_Return \<Longrightarrow> read_alone n g rb = (g, rb)"
  by (induction n) (simp_all add: my_rb_read_step_def)

lemma write_iteration:
  assumes "w_pc f = W_Loop" "w_written f < w_len f"
  shows "(rb_head rb + 1) mod rb_size rb = rb_tail rb \<Longrightarrow>
      write_alone (Suc (Suc n)) f rb = (f\<lparr>w_pc := W_Return, w_next_head := (rb_head rb + 1) mod rb_size rb\<rparr>, rb)"
    and "(rb_head rb + 1) mod rb_size rb \<noteq> rb_tail rb \<Longrightarrow>
      write_alone (Suc (Suc (Suc (Suc n)))) f rb =
      write_alone n (f\<lparr>w_next_head := (rb_head rb + 1) mod rb_size rb, w_pc := W_Loop, w_written := w_written f + 1\<rparr>)
        (rb_push1 rb (w_data f ! unat (w_written f)))"
  using assms by (simp_all add: my_rb_write_step_def rb_push1_def)

lemma read_iteration:
  assumes "r_pc g = R_Loop" "r_read g < r_len g"
  shows "rb_head rb = rb_tail rb \<Longrightarrow> read_alone (Suc (Suc n)) g rb = (g\<lparr>r_pc := R_Return\<rparr>, rb)"
    and "rb_head rb \<noteq> rb_tail rb \<Longrightarrow> read_alone (Suc (Suc (Suc (Suc n)))) g rb =
      read_alone n (g\<lparr>r_data := (r_data g)[unat (r_read g) := rb_buf rb ! unat (rb_tail rb)], r_pc := R_Loop, r_read := r_read g + 1\<rparr>)
        (rb_pop1 rb)"
  using assms by (simp_all add: my_rb_read_step_def rb_pop1_def)

lemma write_alone_loop:
  assumes "w_pc f = W_Loop" "length (w_data f) = unat (w_len f)" "unat (w_len f) - unat (w_written f) = n"
  shows "\<exists>f'. write_alone (4 * n + 2) f rb =
      (f', snd (rb_write_loop rb (w_written f) (drop (unat (w_written f)) (w_data f)))) \<and> w_pc f' = W_Return \<and>
      w_written f' = fst (rb_write_loop rb (w_written f) (drop (unat (w_written f)) (w_data f)))"
  using assms
proof (induction n arbitrary: f rb)
  case 0
  then have "\<not> w_written f < w_len f" "drop (unat (w_written f)) (w_data f) = []" by (simp_all add: word_less_nat_alt)
  then show ?case using 0 by (simp add: my_rb_write_step_def numeral_2_eq_2)
next
  case (Suc n)
  then have lt: "w_written f < w_len f" by (simp add: word_less_nat_alt)
  note s = u32_Suc [OF lt]
  let ?d = "w_data f ! unat (w_written f)"
  have dr: "drop (unat (w_written f)) (w_data f) = ?d # drop (unat (w_written f + 1)) (w_data f)"
    using s Suc.prems(2) by (simp add: Cons_nth_drop_Suc)
  have cnt: "4 * Suc n + 2 = Suc (Suc (Suc (Suc (4 * n + 2))))" by simp
  show ?case
  proof (cases "(rb_head rb + 1) mod rb_size rb = rb_tail rb")
    case True
    show ?thesis unfolding cnt dr write_iteration(1) [OF Suc.prems(1) lt True] using True by simp
  next
    case False
    let ?f = "f\<lparr>w_next_head := (rb_head rb + 1) mod rb_size rb, w_pc := W_Loop, w_written := w_written f + 1\<rparr>"
    have "unat (w_len ?f) - unat (w_written ?f) = n" using Suc.prems(3) s(1) by simp
    from Suc.IH [OF _ _ this, of "rb_push1 rb ?d"] Suc.prems(2) False
    show ?thesis unfolding cnt dr write_iteration(2) [OF Suc.prems(1) lt False] by (simp add: Let_def rb_push1_def)
  qed
qed

lemma read_alone_loop:
  assumes "r_pc g = R_Loop" "unat (r_len g) \<le> length (r_data g)" "unat (r_len g) - unat (r_read g) = n"
  shows "\<exists>g'. read_alone (4 * n + 2) g rb = (g', snd (rb_read_loop rb n (take (unat (r_read g)) (r_data g)))) \<and>
      r_pc g' = R_Return \<and> take (unat (r_read g')) (r_data g') = fst (rb_read_loop rb n (take (unat (r_read g)) (r_data g)))"
  using assms
proof (induction n arbitrary: g rb)
  case 0
  then have "\<not> r_read g < r_len g" by (simp add: word_less_nat_alt)
  then show ?case using 0 by (simp add: my_rb_read_step_def numeral_2_eq_2)
next
  case (Suc n)
  then have lt: "r_read g < r_len g" by (simp add: word_less_nat_alt)
  note s = u32_Suc [OF lt]
  have cnt: "4 * Suc n + 2 = Suc (Suc (Suc (Suc (4 * n + 2))))" by simp
  show ?case
  proof (cases "rb_head rb = rb_tail rb")
    case True
    show ?thesis unfolding cnt read_iteration(1) [OF Suc.prems(1) lt True] using True by simp
  next
    case False
    let ?d = "rb_buf rb ! unat (rb_tail rb)"
    let ?g = "g\<lparr>r_data := (r_data g)[unat (r_read g) := ?d], r_pc := R_Loop, r_read := r_read g + 1\<rparr>"
    have n: "unat (r_len ?g) - unat (r_read ?g) = n" using Suc.prems(3) s(1) by simp
    have tk: "take (unat (r_read ?g)) (r_data ?g) = take (unat (r_read g)) (r_data g) @ [?d]"
      using s Suc.prems(2) by (simp add: take_Suc_conv_app_nth)
    from Suc.IH [OF _ _ n, of "rb_pop1 rb"] Suc.prems(2) False
    show ?thesis unfolding cnt read_iteration(2) [OF Suc.prems(1) lt False] tk by (simp add: rb_pop1_def)
  qed
qed

text \<open>
  C19: one producer and one consumer may interleave without a lock. The bodies of
  \<open>my_rb_write\<close> and \<open>my_rb_read\<close> are split into single accesses to the shared structure; run without
  interruption, these steps return what \<open>my_rb_write\<close> and \<open>my_rb_read\<close> return and leave the same ring,
  after at most four steps a byte. Interleaved in any order, over any number of calls on both sides, at every
  moment the bytes accepted so far are the bytes delivered so far followed by the contents of the ring:
  no byte is lost, duplicated, reordered or read before it is stored, and the indices stay inside
  the array.
\<close>

theorem spsc_no_loss:
  assumes "rb_inv rb" and "length data = unat len" and "unat len \<le> length out" and "spsc_reachable rb s"
  shows "sent s = received s @ rb_content (ring s) \<and> rb_inv (ring s) \<and>
    (\<exists>f. write_alone (4 * unat len + 2) (write_frame_enter data len) rb = (f, snd (my_rb_write rb data)) \<and>
       w_pc f = W_Return \<and> w_written f = fst (my_rb_write rb data)) \<and>
    (\<exists>g. read_alone (4 * unat len + 2) (read_frame_enter out len) rb = (g, snd (my_rb_read rb len)) \<and>
       r_pc g = R_Return \<and> take (unat (r_read g)) (r_data g) = fst (my_rb_read rb len))"
proof -
  have "spsc_inv s" by (rule spsc_reachable_inv [OF assms(4,1)])
  moreover note write_alone_loop [of "write_frame_enter data len" "unat len" rb]
  moreover note read_alone_loop [of "read_frame_enter out len" "unat len" rb]
  ultimately show ?thesis using assms(2,3)
    by (auto simp: spsc_inv_def write_frame_enter_def read_frame_enter_def my_rb_write_def my_rb_read_def)
qed

text \<open>A byte is stored while the reader has already entered its call.\<close>

lemma spsc_no_loss_witness:
  "\<exists>s. spsc_reachable ring4 s \<and> sent s = [9] \<and> writer s = None \<and> sent s = received s @ rb_content (ring s)"
proof -
  let ?f = "write_frame_enter [9] 1" and ?g = "read_frame_enter [0] 1"
  let ?f1 = "fst (my_rb_write_step ?f ring4)" and ?r1 = "snd (my_rb_write_step ?f ring4)"
  let ?f2 = "fst (my_rb_write_step ?f1 ?r1)" and ?r2 = "snd (my_rb_write_step ?f1 ?r1)"
  let ?f3 = "fst (my_rb_write_step ?f2 ?r2)" and ?r3 = "snd (my_rb_write_step ?f2 ?r2)"
  let ?f4 = "fst (my_rb_write_step ?f3 ?r3)" and ?r4 = "snd (my_rb_write_step ?f3 ?r3)"
  let ?f5 = "fst (my_rb_write_step ?f4 ?r4)" and ?r5 = "snd (my_rb_write_step ?f4 ?r4)"
  note d = my_rb_write_step_def write_frame_enter_def ring4_def
  have 1: "spsc_reachable ring4 (spsc_init ring4)" by (rule spsc_reachable.start)
  have 2: "spsc_reachable ring4 ((spsc_init ring4)\<lparr>reader := Some ?g\<rparr>)"
    by (rule spsc_reachable.step [OF 1 spsc_step.read_call]) (simp_all add: spsc_init_def)
  have 3: "spsc_reachable ring4 ((spsc_init ring4)\<lparr>reader := Some ?g, writer := Some ?f\<rparr>)"
    using spsc_reachable.step [OF 2 spsc_step.write_call, of "[9]" 1] by (simp add: spsc_init_def)
  have 4: "spsc_reachable ring4 ((spsc_init ring4)\<lparr>reader := Some ?g, writer := Some ?f1, ring := ?r1\<rparr>)"
    using spsc_reachable.step [OF 3 spsc_step.write_step, of ?f ?f1 ?r1] by (simp add: spsc_init_def d)
  have 5: "spsc_reachable ring4 ((spsc_init ring4)\<lparr>reader := Some ?g, writer := Some ?f2, ring := ?r2\<rparr>)"
    using spsc_reachable.step [OF 4 spsc_step.write_step, of ?f1 ?f2 ?r2] by (simp add: spsc_init_def d)
  have 6: "spsc_reachable ring4 ((spsc_init ring4)\<lparr>reader := Some ?g, writer := Some ?f3, ring := ?r3\<rparr>)"
    using spsc_reachable.step [OF 5 spsc_step.write_step, of ?f2 ?f3 ?r3] by (simp add: spsc_init_def d)
  have 7: "spsc_reachable ring4 ((spsc_init ring4)\<lparr>reader := Some ?g, writer := Some ?f4, ring := ?r4\<rparr>)"
    using spsc_reachable.step [OF 6 spsc_step.write_step, of ?f3 ?f4 ?r4] by (simp add: spsc_init_def d)
  have 8: "spsc_reachable ring4 ((spsc_init ring4)\<lparr>reader := Some ?g, writer := Some ?f5, ring := ?r5\<rparr>)"
    using spsc_reachable.step [OF 7 spsc_step.write_step, of ?f4 ?f5 ?r5] by (simp add: spsc_init_def d)
  let ?s = "(spsc_init ring4)\<lparr>reader := Some ?g, writer := None, ring := ?r5, sent_done := [9]\<rparr>"
  have 9: "spsc_reachable ring4 ?s"
    using spsc_reachable.step [OF 8 spsc_step.write_return, of ?f5]
    by (simp add: spsc_init_def d rb_content_def rb_used_def)
  have "sent ?s = [9]" by (simp add: sent_def spsc_init_def)
  with 9 spsc_no_loss [OF ring4_inv _ _ 9, of "[9]" 1 "[0]"] show ?thesis by (intro exI [of _ ?s]) (simp add: spsc_init_def)
qed

end
