(* ===== verification/Crc.thy ===== *)
theory Crc
  imports Prelude
begin

text \<open>
  Model of the checksums of the firmware: \<open>my_crc16_calc\<close> and the streaming
  \<open>my_crc32_init\<close>, \<open>my_crc32_update\<close>, \<open>my_crc32_final\<close> of
  \<^verbatim>\<open>src/my_tool.c\<close>, and \<open>calc_crc16\<close> (both the bitwise and the table
  driven variant) and \<open>calc_checksum\<close> of \<^verbatim>\<open>src/my_ymodem.c\<close>.

  Every checksum is a byte stream: a state updated byte by byte. The locale
  \<open>byte_stream\<close> gives chunk independence, its extension
  \<open>detecting_stream\<close> that two messages that differ in one byte never collide; both
  are interpreted on all four checksums.
\<close>

section \<open>Definitions\<close>

text \<open>One step of a reflected CRC: shift right, fold the polynomial in on a one bit.\<close>

definition crc_reflected_bit :: "'a::len word \<Rightarrow> 'a word \<Rightarrow> 'a word" where
  "crc_reflected_bit poly crc =
     (if crc AND 1 = 0 then drop_bit 1 crc else drop_bit 1 crc XOR poly)"

definition crc16_byte :: "u16 \<Rightarrow> u16 \<Rightarrow> u8 \<Rightarrow> u16" where
  "crc16_byte poly crc b = (crc_reflected_bit poly ^^ 8) (crc XOR ucast b)"

fun crc16_update :: "u16 \<Rightarrow> u16 \<Rightarrow> bytes \<Rightarrow> u16" where
  "crc16_update poly crc [] = crc"
| "crc16_update poly crc (b # bs) = crc16_update poly (crc16_byte poly crc b) bs"

definition my_crc16_calc :: "bytes \<Rightarrow> u16 \<Rightarrow> u16" where
  "my_crc16_calc data polynomial = crc16_update polynomial 0 data"

definition my_crc32_init :: u32 where
  "my_crc32_init = 0xFFFFFFFF"

definition crc32_byte :: "u32 \<Rightarrow> u8 \<Rightarrow> u32" where
  "crc32_byte crc b = (crc_reflected_bit 0xEDB88320 ^^ 8) (crc XOR ucast b)"

fun my_crc32_update :: "u32 \<Rightarrow> bytes \<Rightarrow> u32" where
  "my_crc32_update crc [] = crc"
| "my_crc32_update crc (b # bs) = my_crc32_update (crc32_byte crc b) bs"

definition my_crc32_final :: "u32 \<Rightarrow> u32" where
  "my_crc32_final crc = NOT crc"

text \<open>CRC16-CCITT of the YModem stack: the bitwise variant ...\<close>

definition crc16_ccitt_bit :: "u16 \<Rightarrow> u16" where
  "crc16_ccitt_bit crc =
     (if crc AND 0x8000 \<noteq> 0 then push_bit 1 crc XOR 0x1021 else push_bit 1 crc)"

definition crc16_ccitt_byte :: "u16 \<Rightarrow> u8 \<Rightarrow> u16" where
  "crc16_ccitt_byte crc b = (crc16_ccitt_bit ^^ 8) (crc XOR push_bit 8 (ucast b))"

fun crc16_ccitt_update :: "u16 \<Rightarrow> bytes \<Rightarrow> u16" where
  "crc16_ccitt_update crc [] = crc"
| "crc16_ccitt_update crc (b # bs) = crc16_ccitt_update (crc16_ccitt_byte crc b) bs"

definition calc_crc16 :: "bytes \<Rightarrow> u16" where
  "calc_crc16 buf = crc16_ccitt_update 0 buf"

text \<open>... and the variant compiled with \<^verbatim>\<open>MY_YMODEM_USE_CRC_TABLE\<close>.\<close>

definition crc16_table :: "u16 list" where
  "crc16_table =
    [0x0000, 0x1021, 0x2042, 0x3063, 0x4084, 0x50A5, 0x60C6, 0x70E7,
     0x8108, 0x9129, 0xA14A, 0xB16B, 0xC18C, 0xD1AD, 0xE1CE, 0xF1EF,
     0x1231, 0x0210, 0x3273, 0x2252, 0x52B5, 0x4294, 0x72F7, 0x62D6,
     0x9339, 0x8318, 0xB37B, 0xA35A, 0xD3BD, 0xC39C, 0xF3FF, 0xE3DE,
     0x2462, 0x3443, 0x0420, 0x1401, 0x64E6, 0x74C7, 0x44A4, 0x5485,
     0xA56A, 0xB54B, 0x8528, 0x9509, 0xE5EE, 0xF5CF, 0xC5AC, 0xD58D,
     0x3653, 0x2672, 0x1611, 0x0630, 0x76D7, 0x66F6, 0x5695, 0x46B4,
     0xB75B, 0xA77A, 0x9719, 0x8738, 0xF7DF, 0xE7FE, 0xD79D, 0xC7BC,
     0x48C4, 0x58E5, 0x6886, 0x78A7, 0x0840, 0x1861, 0x2802, 0x3823,
     0xC9CC, 0xD9ED, 0xE98E, 0xF9AF, 0x8948, 0x9969, 0xA90A, 0xB92B,
     0x5AF5, 0x4AD4, 0x7AB7, 0x6A96, 0x1A71, 0x0A50, 0x3A33, 0x2A12,
     0xDBFD, 0xCBDC, 0xFBBF, 0xEB9E, 0x9B79, 0x8B58, 0xBB3B, 0xAB1A,
     0x6CA6, 0x7C87, 0x4CE4, 0x5CC5, 0x2C22, 0x3C03, 0x0C60, 0x1C41,
     0xEDAE, 0xFD8F, 0xCDEC, 0xDDCD, 0xAD2A, 0xBD0B, 0x8D68, 0x9D49,
     0x7E97, 0x6EB6, 0x5ED5, 0x4EF4, 0x3E13, 0x2E32, 0x1E51, 0x0E70,
     0xFF9F, 0xEFBE, 0xDFDD, 0xCFFC, 0xBF1B, 0xAF3A, 0x9F59, 0x8F78,
     0x9188, 0x81A9, 0xB1CA, 0xA1EB, 0xD10C, 0xC12D, 0xF14E, 0xE16F,
     0x1080, 0x00A1, 0x30C2, 0x20E3, 0x5004, 0x4025, 0x7046, 0x6067,
     0x83B9, 0x9398, 0xA3FB, 0xB3DA, 0xC33D, 0xD31C, 0xE37F, 0xF35E,
     0x02B1, 0x1290, 0x22F3, 0x32D2, 0x4235, 0x5214, 0x6277, 0x7256,
     0xB5EA, 0xA5CB, 0x95A8, 0x8589, 0xF56E, 0xE54F, 0xD52C, 0xC50D,
     0x34E2, 0x24C3, 0x14A0, 0x0481, 0x7466, 0x6447, 0x5424, 0x4405,
     0xA7DB, 0xB7FA, 0x8799, 0x97B8, 0xE75F, 0xF77E, 0xC71D, 0xD73C,
     0x26D3, 0x36F2, 0x0691, 0x16B0, 0x6657, 0x7676, 0x4615, 0x5634,
     0xD94C, 0xC96D, 0xF90E, 0xE92F, 0x99C8, 0x89E9, 0xB98A, 0xA9AB,
     0x5844, 0x4865, 0x7806, 0x6827, 0x18C0, 0x08E1, 0x3882, 0x28A3,
     0xCB7D, 0xDB5C, 0xEB3F, 0xFB1E, 0x8BF9, 0x9BD8, 0xABBB, 0xBB9A,
     0x4A75, 0x5A54, 0x6A37, 0x7A16, 0x0AF1, 0x1AD0, 0x2AB3, 0x3A92,
     0xFD2E, 0xED0F, 0xDD6C, 0xCD4D, 0xBDAA, 0xAD8B, 0x9DE8, 0x8DC9,
     0x7C26, 0x6C07, 0x5C64, 0x4C45, 0x3CA2, 0x2C83, 0x1CE0, 0x0CC1,
     0xEF1F, 0xFF3E, 0xCF5D, 0xDF7C, 0xAF9B, 0xBFBA, 0x8FD9, 0x9FF8,
     0x6E17, 0x7E36, 0x4E55, 0x5E74, 0x2E93, 0x3EB2, 0x0ED1, 0x1EF0]"

definition crc16_table_byte :: "u16 \<Rightarrow> u8 \<Rightarrow> u16" where
  "crc16_table_byte crc b =
     push_bit 8 crc XOR crc16_table ! unat ((drop_bit 8 crc XOR ucast b) AND 0xFF)"

fun crc16_table_update :: "u16 \<Rightarrow> bytes \<Rightarrow> u16" where
  "crc16_table_update crc [] = crc"
| "crc16_table_update crc (b # bs) = crc16_table_update (crc16_table_byte crc b) bs"

definition calc_crc16_table :: "bytes \<Rightarrow> u16" where
  "calc_crc16_table buf = crc16_table_update 0 buf"

fun checksum_update :: "u8 \<Rightarrow> bytes \<Rightarrow> u8" where
  "checksum_update s [] = s"
| "checksum_update s (b # bs) = checksum_update (s + b) bs"

definition calc_checksum :: "bytes \<Rightarrow> u8" where
  "calc_checksum buf = checksum_update 0 buf"

section \<open>Byte streams\<close>

locale byte_stream =
  fixes step :: "'c \<Rightarrow> u8 \<Rightarrow> 'c"
    and upd :: "'c \<Rightarrow> bytes \<Rightarrow> 'c"
  assumes upd_Nil: "upd c [] = c"
    and upd_Cons: "upd c (b # bs) = upd (step c b) bs"
begin

lemma upd_foldl: "upd c bs = foldl step c bs"
  by (induction bs arbitrary: c) (simp_all add: upd_Nil upd_Cons)

lemma upd_append: "upd c (xs @ ys) = upd (upd c xs) ys"
  by (simp add: upd_foldl)

lemma upd_concat: "upd c (concat xss) = foldl upd c xss"
  by (induction xss arbitrary: c) (simp_all add: upd_Nil upd_append)

end

locale detecting_stream = byte_stream step upd
  for step :: "'c \<Rightarrow> u8 \<Rightarrow> 'c" and upd :: "'c \<Rightarrow> bytes \<Rightarrow> 'c" +
  assumes inj_state: "step c b = step c' b \<Longrightarrow> c = c'"
    and inj_byte: "step c b = step c b' \<Longrightarrow> b = b'"
begin

lemma upd_inj_state: "upd c bs = upd c' bs \<Longrightarrow> c = c'"
  by (induction bs arbitrary: c c') (auto simp: upd_Nil upd_Cons dest: inj_state)

lemma detects_byte_error:
  assumes "b \<noteq> b'"
  shows "upd c (xs @ b # ys) \<noteq> upd c (xs @ b' # ys)"
  using assms upd_inj_state inj_byte by (metis upd_append upd_Cons)

end

section \<open>The step functions are invertible\<close>

lemma xor_right_cancel [simp]:
  fixes a b p :: "'a::len word"
  shows "a XOR p = b XOR p \<longleftrightarrow> a = b"
  by (metis xor.assoc xor.right_neutral xor_self_eq)

lemma xor_left_cancel [simp]:
  fixes a b p :: "'a::len word"
  shows "p XOR a = p XOR b \<longleftrightarrow> a = b"
  by (metis xor.commute xor_right_cancel)

lemma and_1_zero_iff: "(x :: 'a::len word) AND 1 = 0 \<longleftrightarrow> \<not> bit x 0"
  by (simp add: and_one_eq bit_0 even_iff_mod_2_eq_zero)

lemma crc_reflected_bit_alt:
  "crc_reflected_bit poly x = drop_bit 1 x XOR (if bit x 0 then poly else 0)"
  by (simp add: crc_reflected_bit_def and_1_zero_iff)

lemma inj_crc_reflected_bit:
  fixes poly :: "'a::len word"
  assumes top: "bit poly (LENGTH('a) - 1)"
  shows "inj (crc_reflected_bit poly)"
proof (rule injI)
  fix x y assume eq: "crc_reflected_bit poly x = crc_reflected_bit poly y"
  have "bit (crc_reflected_bit poly z) (LENGTH('a) - 1) \<longleftrightarrow> bit z 0" for z
    using top by (auto simp: crc_reflected_bit_alt bit_simps dest: bit_imp_le_length)
  with eq have low: "bit x 0 \<longleftrightarrow> bit y 0" by metis
  with eq have hi: "drop_bit 1 x = drop_bit 1 y"
    by (auto simp: crc_reflected_bit_alt split: if_splits)
  show "x = y"
  proof (rule bit_word_eqI)
    fix n assume "n < LENGTH('a)"
    show "bit x n \<longleftrightarrow> bit y n"
    proof (cases n)
      case 0
      with low show ?thesis by simp
    next
      case (Suc k)
      have "bit (drop_bit 1 x) k \<longleftrightarrow> bit (drop_bit 1 y) k" using hi by simp
      with Suc show ?thesis by (simp add: bit_simps)
    qed
  qed
qed

lemma crc16_ccitt_bit_alt:
  "crc16_ccitt_bit x = push_bit 1 x XOR (if bit x 15 then 0x1021 else 0)"
proof -
  have "x AND 0x8000 = 0 \<longleftrightarrow> \<not> bit x 15"
    using bit_iff_and_push_bit_not_eq_0 [of x 15] by simp
  then show ?thesis by (simp add: crc16_ccitt_bit_def)
qed

lemma inj_crc16_ccitt_bit: "inj crc16_ccitt_bit"
proof (rule injI)
  fix x y assume eq: "crc16_ccitt_bit x = crc16_ccitt_bit y"
  have "bit (crc16_ccitt_bit z) 0 \<longleftrightarrow> bit z 15" for z
    by (auto simp: crc16_ccitt_bit_alt bit_xor_iff bit_0 even_xor_iff)
  with eq have top: "bit x 15 \<longleftrightarrow> bit y 15" by metis
  with eq have lo: "push_bit 1 x = push_bit 1 y"
    by (auto simp: crc16_ccitt_bit_alt split: if_splits)
  show "x = y"
  proof (rule bit_word_eqI)
    fix n assume n: "n < LENGTH(16)"
    show "bit x n \<longleftrightarrow> bit y n"
    proof (cases "n = 15")
      case True
      with top show ?thesis by simp
    next
      case False
      with n have "Suc n < 16" by simp
      moreover have "bit (push_bit 1 x) (Suc n) \<longleftrightarrow> bit (push_bit 1 y) (Suc n)" using lo by simp
      ultimately show ?thesis
        using bit_push_bit_iff [of 1 x "Suc n"] bit_push_bit_iff [of 1 y "Suc n"] by simp
    qed
  qed
qed

lemma inj_ucast_u8:
  assumes "LENGTH(8) \<le> LENGTH('a)"
  shows "inj (ucast :: u8 \<Rightarrow> 'a::len word)"
proof (rule injI)
  fix x y :: u8 assume eq: "(ucast x :: 'a word) = ucast y"
  show "x = y"
  proof (rule bit_word_eqI)
    fix n assume "n < LENGTH(8)"
    then show "bit x n \<longleftrightarrow> bit y n"
      using assms arg_cong [OF eq, of "\<lambda>w. bit w n"] by (simp add: bit_ucast_iff)
  qed
qed

lemma crc16_byte_inj:
  assumes "bit poly 15"
  shows "crc16_byte poly c b = crc16_byte poly c' b \<Longrightarrow> c = c'"
    and "crc16_byte poly c b = crc16_byte poly c b' \<Longrightarrow> b = b'"
proof -
  have inj: "inj (crc_reflected_bit poly ^^ 8)"
    using assms by (intro inj_fn inj_crc_reflected_bit) simp
  show "crc16_byte poly c b = crc16_byte poly c' b \<Longrightarrow> c = c'"
    using injD [OF inj] by (force simp: crc16_byte_def)
  show "crc16_byte poly c b = crc16_byte poly c b' \<Longrightarrow> b = b'"
    using injD [OF inj] injD [OF inj_ucast_u8 [where 'a = 16]] by (force simp: crc16_byte_def)
qed

lemma crc32_byte_inj:
  shows "crc32_byte c b = crc32_byte c' b \<Longrightarrow> c = c'"
    and "crc32_byte c b = crc32_byte c b' \<Longrightarrow> b = b'"
proof -
  have inj: "inj (crc_reflected_bit (0xEDB88320 :: u32) ^^ 8)"
    by (intro inj_fn inj_crc_reflected_bit) code_simp
  show "crc32_byte c b = crc32_byte c' b \<Longrightarrow> c = c'"
    using injD [OF inj] by (force simp: crc32_byte_def)
  show "crc32_byte c b = crc32_byte c b' \<Longrightarrow> b = b'"
    using injD [OF inj] injD [OF inj_ucast_u8 [where 'a = 32]] by (force simp: crc32_byte_def)
qed

lemma inj_push_ucast: "(push_bit 8 (ucast b) :: u16) = push_bit 8 (ucast b') \<Longrightarrow> b = (b' :: u8)"
proof (rule bit_word_eqI)
  fix n assume eq: "(push_bit 8 (ucast b) :: u16) = push_bit 8 (ucast b')" and n: "n < LENGTH(8)"
  from n show "bit b n \<longleftrightarrow> bit b' n"
    using arg_cong [OF eq, of "\<lambda>w. bit w (8 + n)"] by (simp add: bit_simps)
qed

lemma crc16_ccitt_byte_inj:
  shows "crc16_ccitt_byte c b = crc16_ccitt_byte c' b \<Longrightarrow> c = c'"
    and "crc16_ccitt_byte c b = crc16_ccitt_byte c b' \<Longrightarrow> b = b'"
proof -
  have inj: "inj (crc16_ccitt_bit ^^ 8)" by (intro inj_fn inj_crc16_ccitt_bit)
  show "crc16_ccitt_byte c b = crc16_ccitt_byte c' b \<Longrightarrow> c = c'"
    using injD [OF inj] by (force simp: crc16_ccitt_byte_def)
  show "crc16_ccitt_byte c b = crc16_ccitt_byte c b' \<Longrightarrow> b = b'"
    using injD [OF inj] inj_push_ucast by (force simp: crc16_ccitt_byte_def)
qed

interpretation crc16: byte_stream "crc16_byte poly" "crc16_update poly" for poly
  by unfold_locales simp_all

interpretation crc16_a001: detecting_stream "crc16_byte 0xA001" "crc16_update 0xA001"
proof unfold_locales
  have "bit (0xA001 :: u16) 15" by code_simp
  then show "crc16_byte 0xA001 c b = crc16_byte 0xA001 c' b \<Longrightarrow> c = c'"
    and "crc16_byte 0xA001 c b = crc16_byte 0xA001 c b' \<Longrightarrow> b = b'" for c c' b b'
    by (blast dest: crc16_byte_inj)+
qed

interpretation crc32: detecting_stream crc32_byte my_crc32_update
  by unfold_locales (auto dest: crc32_byte_inj)

interpretation ccitt: detecting_stream crc16_ccitt_byte crc16_ccitt_update
  by unfold_locales (auto dest: crc16_ccitt_byte_inj)

interpretation chksum: detecting_stream "(+)" checksum_update
  by unfold_locales auto

section \<open>The table variant equals the bitwise variant\<close>

lemma crc16_ccitt_bit_xor: "crc16_ccitt_bit (x XOR y) = crc16_ccitt_bit x XOR crc16_ccitt_bit y"
  by (rule bit_word_eqI) (auto simp: crc16_ccitt_bit_alt bit_simps)

lemma crc16_ccitt_bits_xor:
  "(crc16_ccitt_bit ^^ n) (x XOR y) = (crc16_ccitt_bit ^^ n) x XOR (crc16_ccitt_bit ^^ n) y"
  by (induction n) (simp_all add: crc16_ccitt_bit_xor)

lemma crc16_ccitt_bits_low:
  assumes "\<And>i. 16 - n \<le> i \<Longrightarrow> \<not> bit x i" and "n \<le> 16"
  shows "(crc16_ccitt_bit ^^ n) x = push_bit n x"
  using assms
proof (induction n)
  case 0
  then show ?case by simp
next
  case (Suc n)
  have IH: "(crc16_ccitt_bit ^^ n) x = push_bit n x"
    using Suc.prems by (intro Suc.IH) auto
  have "\<not> bit (push_bit n x) 15" using Suc.prems(1) [of "15 - n"] Suc.prems(2) by (simp add: bit_simps)
  then have "crc16_ccitt_bit (push_bit n x) = push_bit 1 (push_bit n x)"
    by (simp add: crc16_ccitt_bit_alt [of "push_bit n x"])
  then show ?case using IH by (simp add: push_bit_push_bit)
qed

text \<open>
  The table satisfies a doubling recurrence, which is checked entry by entry; the
  closed form follows by induction on the index.
\<close>

lemma crc16_table_doubling:
  "crc16_table = concat (map (\<lambda>t. [crc16_ccitt_bit t, crc16_ccitt_bit t XOR 0x1021]) (take 128 crc16_table))"
  by code_simp

lemma nth_concat_pairs:
  "i < length ts \<Longrightarrow> concat (map (\<lambda>t. [f t, g t]) ts) ! (2 * i) = f (ts ! i)"
  "i < length ts \<Longrightarrow> concat (map (\<lambda>t. [f t, g t]) ts) ! (2 * i + 1) = g (ts ! i)"
  by (induction ts arbitrary: i) (auto simp: nth_Cons split: nat.splits)

lemma crc16_table_rec:
  assumes "i < 128"
  shows "crc16_table ! (2 * i) = crc16_ccitt_bit (crc16_table ! i)"
    and "crc16_table ! (2 * i + 1) = crc16_ccitt_bit (crc16_table ! i) XOR 0x1021"
proof -
  have len: "i < length (take 128 crc16_table)" using assms by (simp add: crc16_table_def)
  have nth: "take 128 crc16_table ! i = crc16_table ! i" using assms by simp
  show "crc16_table ! (2 * i) = crc16_ccitt_bit (crc16_table ! i)"
    by (subst crc16_table_doubling) (simp only: nth_concat_pairs(1) [OF len] nth)
  show "crc16_table ! (2 * i + 1) = crc16_ccitt_bit (crc16_table ! i) XOR 0x1021"
    by (subst crc16_table_doubling) (simp only: nth_concat_pairs(2) [OF len] nth)
qed

definition crc16_shifted :: "nat \<Rightarrow> u16" where
  "crc16_shifted i = (crc16_ccitt_bit ^^ 8) (push_bit 8 (of_nat i))"

lemma crc16_shifted_rec:
  assumes "i < 128"
  shows "crc16_shifted (2 * i) = crc16_ccitt_bit (crc16_shifted i)"
    and "crc16_shifted (2 * i + 1) = crc16_ccitt_bit (crc16_shifted i) XOR 0x1021"
proof -
  have nb: "\<not> bit (push_bit 8 (of_nat i :: u16)) 15"
  proof -
    have "bit (push_bit 8 (of_nat i :: u16)) 15 \<longleftrightarrow> bit i 7"
      by (simp add: bit_push_bit_iff bit_of_nat_iff)
    then show ?thesis using assms by (simp add: bit_iff_odd)
  qed
  have dbl: "push_bit 8 (of_nat (2 * i) :: u16) = crc16_ccitt_bit (push_bit 8 (of_nat i))"
  proof -
    have "crc16_ccitt_bit (push_bit 8 (of_nat i)) = push_bit 1 (push_bit 8 (of_nat i))"
      by (simp only: crc16_ccitt_bit_alt nb if_False xor.right_neutral)
    then show ?thesis by (simp add: push_bit_eq_mult)
  qed
  show even: "crc16_shifted (2 * i) = crc16_ccitt_bit (crc16_shifted i)"
    unfolding crc16_shifted_def dbl by (simp add: funpow_swap1)
  have odd: "push_bit 8 (of_nat (2 * i + 1) :: u16) = push_bit 8 (of_nat (2 * i)) XOR push_bit 8 1"
  proof -
    have "(of_nat (2 * i + 1) :: u16) = of_nat (2 * i) XOR 1" by (simp add: xor_one_eq)
    then show ?thesis by (simp only: push_bit_xor)
  qed
  have one: "(crc16_ccitt_bit ^^ 8) (push_bit 8 1) = 0x1021" by code_simp
  show "crc16_shifted (2 * i + 1) = crc16_ccitt_bit (crc16_shifted i) XOR 0x1021"
    unfolding even [symmetric] unfolding crc16_shifted_def odd crc16_ccitt_bits_xor one ..
qed

lemma crc16_table_correct: "i < 256 \<Longrightarrow> crc16_table ! i = crc16_shifted i"
proof (induction i rule: less_induct)
  case (less i)
  show ?case
  proof (cases "i = 0")
    case True
    have "crc16_shifted 0 = 0" by code_simp
    with True show ?thesis by (simp add: crc16_table_def)
  next
    case False
    with less have IH: "crc16_table ! (i div 2) = crc16_shifted (i div 2)" by simp
    have h: "i div 2 < 128" using less.prems by simp
    consider "i = 2 * (i div 2)" | "i = 2 * (i div 2) + 1" by fastforce
    then show ?thesis
    proof cases
      case 1
      then show ?thesis using crc16_table_rec(1) [OF h] crc16_shifted_rec(1) [OF h] IH by simp
    next
      case 2
      then show ?thesis using crc16_table_rec(2) [OF h] crc16_shifted_rec(2) [OF h] IH by simp
    qed
  qed
qed

lemma crc16_table_byte_eq: "crc16_table_byte crc b = crc16_ccitt_byte crc b"
proof -
  let ?i = "(drop_bit 8 crc XOR ucast b) AND 0xFF :: u16"
  have i: "unat ?i < 256"
  proof -
    have "unat ?i \<le> unat (0xFF :: u16)"
      by (rule word_and_le1 [THEN word_le_nat_alt [THEN iffD1]])
    then show ?thesis by simp
  qed
  have tb: "?i = take_bit 8 (drop_bit 8 crc XOR ucast b)" by (simp add: take_bit_eq_mask mask_numeral)
  have split: "crc XOR push_bit 8 (ucast b) = push_bit 8 ?i XOR take_bit 8 crc"
    unfolding tb by (rule bit_word_eqI) (auto simp: bit_simps)
  have "(crc16_ccitt_bit ^^ 8) (take_bit 8 crc) = push_bit 8 (take_bit 8 crc)"
    by (rule crc16_ccitt_bits_low) (auto simp: bit_simps)
  also have "\<dots> = push_bit 8 crc"
    by (rule bit_word_eqI) (auto simp: bit_simps)
  finally have low: "(crc16_ccitt_bit ^^ 8) (take_bit 8 crc) = push_bit 8 crc" .
  have "crc16_ccitt_byte crc b = (crc16_ccitt_bit ^^ 8) (push_bit 8 ?i) XOR push_bit 8 crc"
    unfolding crc16_ccitt_byte_def split crc16_ccitt_bits_xor low ..
  also have "(crc16_ccitt_bit ^^ 8) (push_bit 8 ?i) = crc16_table ! unat ?i"
    using crc16_table_correct [OF i] by (simp add: crc16_shifted_def)
  finally show ?thesis by (simp add: crc16_table_byte_def xor.commute)
qed

section \<open>Properties\<close>

text \<open>
  The table-driven and the bitwise build of the YModem checksum compute the same
  CRC16 for every message, so the two build options interoperate.
\<close>

lemma calc_crc16_table_eq: "calc_crc16_table buf = calc_crc16 buf"
proof -
  have "crc16_table_update c buf = crc16_ccitt_update c buf" for c
    by (induction buf arbitrary: c) (simp_all add: crc16_table_byte_eq)
  then show ?thesis by (simp add: calc_crc16_table_def calc_crc16_def)
qed

text \<open>
  The streaming CRC32 is independent of how the firmware is cut into blocks: feeding
  the blocks one after the other gives the value of the whole image.
\<close>

lemma my_crc32_chunks:
  "my_crc32_final (foldl my_crc32_update my_crc32_init chunks) =
   my_crc32_final (my_crc32_update my_crc32_init (concat chunks))"
  by (simp add: crc32.upd_concat)

text \<open>
  No checksum of the firmware misses a corruption confined to one byte: the block
  CRC16 (polynomial A001), the image CRC32, the YModem CRC16 and the YModem checksum of
  two messages that differ in exactly one byte are different.
\<close>

lemma checksums_detect_byte_error:
  assumes "b \<noteq> b'"
  shows "my_crc16_calc (xs @ b # ys) 0xA001 \<noteq> my_crc16_calc (xs @ b' # ys) 0xA001 \<and>
         my_crc32_final (my_crc32_update c (xs @ b # ys)) \<noteq> my_crc32_final (my_crc32_update c (xs @ b' # ys)) \<and>
         calc_crc16 (xs @ b # ys) \<noteq> calc_crc16 (xs @ b' # ys) \<and>
         calc_checksum (xs @ b # ys) \<noteq> calc_checksum (xs @ b' # ys)"
  using assms crc16_a001.detects_byte_error crc32.detects_byte_error ccitt.detects_byte_error
    chksum.detects_byte_error
  by (simp add: my_crc16_calc_def my_crc32_final_def calc_crc16_def calc_checksum_def)

end
