(* ===== verification/Flash_Device.thy ===== *)
theory Flash_Device
  imports Prelude
begin

text \<open>
  The flash and storage drivers are not part of the repository (they belong to the RTOS):
  they are parameters of the model. \<open>flash_ops\<close> is the table of driver calls the
  firmware makes, over an arbitrary device state. What the firmware relies on is the
  predicate \<open>flash_ok\<close>, relative to the byte contents \<open>mem\<close> of the device:
  a successful read returns the contents, a successful write stores exactly its bytes, a
  successful erase sets its range to \<open>0xFF\<close>, and no operation, failed or not, touches a
  byte outside its range. \<open>ram_flash\<close> is a device that satisfies it.
\<close>

section \<open>Definitions\<close>

record 'd flash_ops =
  fl_erase :: "'d \<Rightarrow> nat \<Rightarrow> nat \<Rightarrow> int \<times> 'd"
  fl_write :: "'d \<Rightarrow> nat \<Rightarrow> bytes \<Rightarrow> int \<times> 'd"
  fl_read :: "'d \<Rightarrow> nat \<Rightarrow> nat \<Rightarrow> int \<times> bytes"

definition flash_ok :: "('d, 'm) flash_ops_scheme \<Rightarrow> ('d \<Rightarrow> nat \<Rightarrow> u8) \<Rightarrow> bool" where
  "flash_ok ops mem \<longleftrightarrow>
     (\<forall>d a n bs. fl_read ops d a n = (0, bs) \<longrightarrow> bs = map (mem d) [a..<a + n]) \<and>
     (\<forall>d a bs d'. fl_write ops d a bs = (0, d') \<longrightarrow>
        (\<forall>x. a \<le> x \<and> x < a + length bs \<longrightarrow> mem d' x = bs ! (x - a))) \<and>
     (\<forall>d a bs r d'. fl_write ops d a bs = (r, d') \<longrightarrow>
        (\<forall>x. \<not> (a \<le> x \<and> x < a + length bs) \<longrightarrow> mem d' x = mem d x)) \<and>
     (\<forall>d a n d'. fl_erase ops d a n = (0, d') \<longrightarrow>
        (\<forall>x. a \<le> x \<and> x < a + n \<longrightarrow> mem d' x = 0xFF)) \<and>
     (\<forall>d a n r d'. fl_erase ops d a n = (r, d') \<longrightarrow>
        (\<forall>x. \<not> (a \<le> x \<and> x < a + n) \<longrightarrow> mem d' x = mem d x))"

text \<open>The contents of the \<open>n\<close> bytes from address \<open>a\<close>.\<close>

definition mem_range :: "(nat \<Rightarrow> u8) \<Rightarrow> nat \<Rightarrow> nat \<Rightarrow> bytes" where
  "mem_range m a n = map m [a..<a + n]"

text \<open>A device whose state is its contents and whose operations always succeed.\<close>

definition ram_flash :: "(nat \<Rightarrow> u8) flash_ops" where
  "ram_flash =
     \<lparr>fl_erase = (\<lambda>d a n. (0, \<lambda>x. if a \<le> x \<and> x < a + n then 0xFF else d x)),
      fl_write = (\<lambda>d a bs. (0, \<lambda>x. if a \<le> x \<and> x < a + length bs then bs ! (x - a) else d x)),
      fl_read = (\<lambda>d a n. (0, map d [a..<a + n]))\<rparr>"

section \<open>Lemmas\<close>

lemma length_mem_range [simp]: "length (mem_range m a n) = n"
  by (simp add: mem_range_def)

lemma nth_mem_range [simp]: "i < n \<Longrightarrow> mem_range m a n ! i = m (a + i)"
  by (simp add: mem_range_def)

lemma take_drop_mem_range: "i + k \<le> n \<Longrightarrow> take k (drop i (mem_range m a n)) = mem_range m (a + i) k"
  by (rule nth_equalityI) (auto simp: add.assoc)

lemma mem_range_append: "mem_range m a (n + k) = mem_range m a n @ mem_range m (a + n) k"
  by (rule nth_equalityI) (auto simp: nth_append)

lemma mem_range_cong: "(\<And>x. a \<le> x \<Longrightarrow> x < a + n \<Longrightarrow> m x = m' x) \<Longrightarrow> mem_range m a n = mem_range m' a n"
  by (rule nth_equalityI) auto

lemma flash_ok_read: "flash_ok ops mem \<Longrightarrow> fl_read ops d a n = (0, bs) \<Longrightarrow> bs = mem_range (mem d) a n"
  by (simp add: flash_ok_def mem_range_def)

lemma flash_ok_write_same:
  "flash_ok ops mem \<Longrightarrow> fl_write ops d a bs = (0, d') \<Longrightarrow> mem_range (mem d') a (length bs) = bs"
  by (rule nth_equalityI) (auto simp: flash_ok_def)

lemma flash_ok_write_other:
  "flash_ok ops mem \<Longrightarrow> fl_write ops d a bs = (r, d') \<Longrightarrow> b + n \<le> a \<or> a + length bs \<le> b \<Longrightarrow>
     mem_range (mem d') b n = mem_range (mem d) b n"
  unfolding flash_ok_def by (intro mem_range_cong) (metis add_le_cancel_left not_le le_trans less_le_trans)

lemma flash_ok_erase_same:
  "flash_ok ops mem \<Longrightarrow> fl_erase ops d a n = (0, d') \<Longrightarrow> mem_range (mem d') a n = replicate n 0xFF"
  by (rule nth_equalityI) (auto simp: flash_ok_def)

lemma flash_ok_erase_other:
  "flash_ok ops mem \<Longrightarrow> fl_erase ops d a k = (r, d') \<Longrightarrow> b + n \<le> a \<or> a + k \<le> b \<Longrightarrow>
     mem_range (mem d') b n = mem_range (mem d) b n"
  unfolding flash_ok_def by (intro mem_range_cong) (metis add_le_cancel_left not_le le_trans less_le_trans)

lemma ram_flash_ok: "flash_ok ram_flash (\<lambda>d. d)"
  by (auto simp: flash_ok_def ram_flash_def)

end
