(* ===== verification/Flash_Store.thy ===== *)
theory Flash_Store
  imports Flash_Device
begin

text \<open>
  Model of \<^verbatim>\<open>src/my_flash_store.c\<close>: the circular store that keeps scan and
  sensor records until they are uploaded. Four regions (TAG, MAC, temperature/humidity,
  pressure) share one flash partition; each stages records in RAM, writes a whole 4096
  byte sector when the staging buffer is full, overwrites the oldest sector when the
  region is full, reads records back without removing them, and removes them when the
  upload is confirmed. The ring pointers are saved in the key-value storage with a magic
  number and a CRC and restored after a reset.

  The 16-bit counters are natural numbers here; \<open>fs_wf\<close> bounds every one of them, so
  they never reach \<open>2^16\<close>. \<open>seq_counter\<close> keeps its 32-bit wrap-around. Functions
  that could leave a buffer return \<open>None\<close> for the out-of-bounds access.
\<close>

section \<open>Layout constants\<close>

abbreviation (input) FS_SECTOR_SIZE :: nat where "FS_SECTOR_SIZE \<equiv> 4096"
abbreviation (input) FS_TOTAL_SECTORS :: nat where "FS_TOTAL_SECTORS \<equiv> 50"
abbreviation (input) FS_SECTOR_HEADER_SIZE :: nat where "FS_SECTOR_HEADER_SIZE \<equiv> 16"
abbreviation (input) FS_SECTOR_MAGIC :: u32 where "FS_SECTOR_MAGIC \<equiv> 0x424C4453"
abbreviation (input) FS_REC_MAGIC :: u8 where "FS_REC_MAGIC \<equiv> 0xA5"
abbreviation (input) FS_META_MAGIC :: u32 where "FS_META_MAGIC \<equiv> 0x46535431"
abbreviation (input) FS_META_SIZE :: nat where "FS_META_SIZE \<equiv> 20"

abbreviation (input) FS_TYPE_TAG :: nat where "FS_TYPE_TAG \<equiv> 0"
abbreviation (input) FS_TYPE_MAC :: nat where "FS_TYPE_MAC \<equiv> 1"
abbreviation (input) FS_TYPE_TH :: nat where "FS_TYPE_TH \<equiv> 2"
abbreviation (input) FS_TYPE_BP :: nat where "FS_TYPE_BP \<equiv> 3"
abbreviation (input) FS_TYPE_MAX :: nat where "FS_TYPE_MAX \<equiv> 4"

section \<open>State\<close>

text \<open>
  The drivers the module calls: the flash area, the key-value storage behind
  \<open>my_user_data_write\<close> and \<open>my_user_data_read\<close>, and the RTOS checksum
  \<open>crc32_ieee\<close>. They are parameters.
\<close>

record 'd store_env = "'d flash_ops" +
  fa_open :: "'d \<Rightarrow> int"
  fa_ready :: "'d \<Rightarrow> bool"
  zms_write :: "'d \<Rightarrow> u32 \<Rightarrow> bytes \<Rightarrow> int \<times> 'd"
  zms_read :: "'d \<Rightarrow> u32 \<Rightarrow> nat \<Rightarrow> int \<times> bytes"
  crc32_ieee :: "bytes \<Rightarrow> u32"

record fs_region =
  wr_sector :: nat
  rd_sector :: nat
  valid_sectors :: nat
  rd_rec_idx :: nat
  seq_counter :: u32
  read_offset :: nat
  staging_read_idx :: nat
  upload_staging_snap :: nat
  upload_active :: bool
  sector_base :: nat
  rec_size :: nat
  rec_per_sector :: nat
  region_sectors :: nat
  zms_id :: u32
  staging_buf :: bytes
  staging_count :: nat

record fs_meta =
  meta_magic :: u32
  meta_wr :: u16
  meta_rd :: u16
  meta_valid :: u16
  meta_rec_idx :: u16
  meta_seq :: u32

record 'd fs_store =
  s_inited :: bool
  s_region :: "fs_region list"
  dev :: 'd

section \<open>Storage access\<close>

definition my_user_data_write :: "'d store_env \<Rightarrow> 'd \<Rightarrow> u32 \<Rightarrow> bytes \<Rightarrow> int \<times> 'd" where
  "my_user_data_write env d key data =
     (if data = [] then (-EINVAL, d) else zms_write env d key data)"

definition my_user_data_read :: "'d store_env \<Rightarrow> 'd \<Rightarrow> u32 \<Rightarrow> nat \<Rightarrow> int \<times> bytes" where
  "my_user_data_read env d key len = (if len = 0 then (-EINVAL, []) else zms_read env d key len)"

text \<open>The stored image of the metadata structure: its fields in order, little-endian.\<close>

definition fs_meta_fields :: "fs_meta \<Rightarrow> bytes" where
  "fs_meta_fields m = le32 (meta_magic m) @ le16 (meta_wr m) @ le16 (meta_rd m) @
     le16 (meta_valid m) @ le16 (meta_rec_idx m) @ le32 (meta_seq m)"

definition fs_meta_calc_crc :: "'d store_env \<Rightarrow> fs_meta \<Rightarrow> u32" where
  "fs_meta_calc_crc env m = crc32_ieee env (fs_meta_fields m)"

definition fs_meta_encode :: "'d store_env \<Rightarrow> fs_meta \<Rightarrow> bytes" where
  "fs_meta_encode env m = fs_meta_fields m @ le32 (fs_meta_calc_crc env m)"

text \<open>Reading the structure back: the fields and the stored CRC.\<close>

definition fs_meta_decode :: "bytes \<Rightarrow> fs_meta \<times> u32" where
  "fs_meta_decode b =
     (\<lparr>meta_magic = of_le32 (b ! 0) (b ! 1) (b ! 2) (b ! 3),
       meta_wr = of_le16 (b ! 4) (b ! 5), meta_rd = of_le16 (b ! 6) (b ! 7),
       meta_valid = of_le16 (b ! 8) (b ! 9), meta_rec_idx = of_le16 (b ! 10) (b ! 11),
       meta_seq = of_le32 (b ! 12) (b ! 13) (b ! 14) (b ! 15)\<rparr>,
      of_le32 (b ! 16) (b ! 17) (b ! 18) (b ! 19))"

definition region_meta :: "fs_region \<Rightarrow> fs_meta" where
  "region_meta rg = \<lparr>meta_magic = FS_META_MAGIC, meta_wr = of_nat (wr_sector rg),
     meta_rd = of_nat (rd_sector rg), meta_valid = of_nat (valid_sectors rg),
     meta_rec_idx = of_nat (rd_rec_idx rg), meta_seq = seq_counter rg\<rparr>"

definition fs_meta_save :: "'d store_env \<Rightarrow> fs_region \<Rightarrow> 'd \<Rightarrow> int \<times> 'd" where
  "fs_meta_save env rg d =
     (let (ret, d') = my_user_data_write env d (zms_id rg) (fs_meta_encode env (region_meta rg))
      in (if ret \<noteq> int FS_META_SIZE then -EIO else 0, d'))"

definition fs_region_reset :: "fs_region \<Rightarrow> fs_region" where
  "fs_region_reset rg = rg\<lparr>wr_sector := 0, rd_sector := 0, valid_sectors := 0, rd_rec_idx := 0,
     seq_counter := 0, read_offset := 0, staging_read_idx := 0, upload_staging_snap := 0,
     upload_active := False, staging_count := 0\<rparr>"

definition fs_region_load :: "'d store_env \<Rightarrow> 'd \<Rightarrow> fs_region \<Rightarrow> fs_region" where
  "fs_region_load env d rg =
     (let (ret, b) = my_user_data_read env d (zms_id rg) FS_META_SIZE; (m, crc) = fs_meta_decode b in
      if ret \<noteq> int FS_META_SIZE \<or> meta_magic m \<noteq> FS_META_MAGIC \<or> crc \<noteq> fs_meta_calc_crc env m
      then fs_region_reset rg
      else if unat (meta_wr m) \<ge> region_sectors rg \<or> unat (meta_rd m) \<ge> region_sectors rg \<or>
              unat (meta_valid m) > region_sectors rg \<or> unat (meta_rec_idx m) > rec_per_sector rg
      then fs_region_reset rg
      else rg\<lparr>wr_sector := unat (meta_wr m), rd_sector := unat (meta_rd m),
              valid_sectors := unat (meta_valid m), rd_rec_idx := unat (meta_rec_idx m),
              seq_counter := meta_seq m, staging_count := 0\<rparr>)"

section \<open>Sectors and records\<close>

definition fs_sector_offset :: "fs_region \<Rightarrow> nat \<Rightarrow> nat" where
  "fs_sector_offset rg sector_idx = (sector_base rg + sector_idx) * FS_SECTOR_SIZE"

definition fs_sector_header :: "fs_region \<Rightarrow> bytes" where
  "fs_sector_header rg = le32 FS_SECTOR_MAGIC @ le32 (seq_counter rg) @
     le16 (of_nat (staging_count rg)) @ le16 (of_nat (rec_size rg)) @ le32 0"

text \<open>The static sector buffer after assembly: filled with FF, header, staged records.\<close>

definition fs_sector_image :: "fs_region \<Rightarrow> bytes option" where
  "fs_sector_image rg = do {
     recs \<leftarrow> mem_read (staging_buf rg) 0 (staging_count rg * rec_size rg);
     buf \<leftarrow> mem_write (replicate FS_SECTOR_SIZE 0xFF) 0 (fs_sector_header rg);
     mem_write buf FS_SECTOR_HEADER_SIZE recs }"

definition fs_flush_staging :: "'d store_env \<Rightarrow> fs_region \<Rightarrow> 'd \<Rightarrow> (int \<times> fs_region \<times> 'd) option" where
  "fs_flush_staging env rg d =
     (if staging_count rg = 0 then Some (0, rg, d)
      else do {
        buf \<leftarrow> fs_sector_image rg;
        let rg1 = rg\<lparr>seq_counter := seq_counter rg + 1\<rparr>;
        let (ret, d1) = fl_write env d (fs_sector_offset rg (wr_sector rg)) buf;
        if ret \<noteq> 0
        then Some (ret, rg1\<lparr>seq_counter := seq_counter rg1 - 1,
                            staging_count := staging_count rg1 - 1\<rparr>, d1)
        else
          let rg2 = (if valid_sectors rg1 < region_sectors rg1
                     then rg1\<lparr>valid_sectors := valid_sectors rg1 + 1\<rparr>
                     else rg1\<lparr>rd_sector := (rd_sector rg1 + 1) mod region_sectors rg1,
                              rd_rec_idx := 0\<rparr>);
              rg3 = rg2\<lparr>wr_sector := (wr_sector rg2 + 1) mod region_sectors rg2, staging_count := 0\<rparr>;
              (r, d2) = fs_meta_save env rg3 d1
          in Some (r, rg3, d2) })"

text \<open>A record slot: validity mark, padding, data at the end of the slot.\<close>

definition fs_make_slot :: "fs_region \<Rightarrow> bytes \<Rightarrow> bytes option" where
  "fs_make_slot rg data =
     (if length data > rec_size rg then None
      else mem_write ((replicate (rec_size rg) 0)[0 := FS_REC_MAGIC]) (rec_size rg - length data) data)"

definition fs_region_push :: "'d store_env \<Rightarrow> fs_region \<Rightarrow> bytes \<Rightarrow> 'd \<Rightarrow> (int \<times> fs_region \<times> 'd) option" where
  "fs_region_push env rg data d =
     (if upload_active rg \<and> staging_count rg \<ge> rec_per_sector rg then Some (-EBUSY, rg, d)
      else do {
        slot \<leftarrow> fs_make_slot rg data;
        buf \<leftarrow> mem_write (staging_buf rg) (staging_count rg * rec_size rg) slot;
        let rg1 = rg\<lparr>staging_buf := buf, staging_count := staging_count rg + 1\<rparr>;
        if staging_count rg1 \<ge> rec_per_sector rg1 \<and> \<not> upload_active rg1
        then fs_flush_staging env rg1 d
        else Some (0, rg1, d) })"

text \<open>Result code 1 with the data, 0 for an unmarked slot, or the driver's error.\<close>

definition fs_read_flash_record :: "'d store_env \<Rightarrow> 'd \<Rightarrow> fs_region \<Rightarrow> nat \<Rightarrow> nat \<Rightarrow> nat \<Rightarrow> int \<times> bytes" where
  "fs_read_flash_record env d rg sector_idx rec_idx data_len =
     (let offset = fs_sector_offset rg sector_idx + FS_SECTOR_HEADER_SIZE + rec_idx * rec_size rg;
          (ret, slot) = fl_read env d offset (rec_size rg)
      in if ret \<noteq> 0 then (ret, [])
         else if slot ! 0 \<noteq> FS_REC_MAGIC then (0, [])
         else (1, take data_len (drop (rec_size rg - data_len) slot)))"

section \<open>The module interface\<close>

definition fs_get_region :: "'d fs_store \<Rightarrow> nat \<Rightarrow> fs_region option" where
  "fs_get_region st type = (if type \<ge> FS_TYPE_MAX then None else Some (s_region st ! type))"

definition fs_region_consts :: "nat \<Rightarrow> nat \<Rightarrow> nat \<Rightarrow> nat \<Rightarrow> u32 \<Rightarrow> fs_region" where
  "fs_region_consts base rsize per secs key =
     \<lparr>wr_sector = 0, rd_sector = 0, valid_sectors = 0, rd_rec_idx = 0, seq_counter = 0,
      read_offset = 0, staging_read_idx = 0, upload_staging_snap = 0, upload_active = False,
      sector_base = base, rec_size = rsize, rec_per_sector = per, region_sectors = secs,
      zms_id = key, staging_buf = replicate (per * rsize) 0, staging_count = 0\<rparr>"

text \<open>
  Sector bases 0, 12, 25, 37 of 12, 13, 12, 13 sectors; record sizes 96, 48, 12, 12, hence
  42, 85, 340, 340 records per sector; metadata keys 27, 28, 33, 34.
\<close>

definition fs_initial_regions :: "fs_region list" where
  "fs_initial_regions =
     [fs_region_consts 0 96 ((FS_SECTOR_SIZE - FS_SECTOR_HEADER_SIZE) div 96) 12 27,
      fs_region_consts 12 48 ((FS_SECTOR_SIZE - FS_SECTOR_HEADER_SIZE) div 48) 13 28,
      fs_region_consts 25 12 ((FS_SECTOR_SIZE - FS_SECTOR_HEADER_SIZE) div 12) 12 33,
      fs_region_consts 37 12 ((FS_SECTOR_SIZE - FS_SECTOR_HEADER_SIZE) div 12) 13 34]"

definition my_flash_store_init :: "'d store_env \<Rightarrow> 'd fs_store \<Rightarrow> int \<times> 'd fs_store" where
  "my_flash_store_init env st =
     (if s_inited st then (0, st)
      else if fa_open env (dev st) \<noteq> 0 then (fa_open env (dev st), st)
      else if \<not> fa_ready env (dev st) then (-ENODEV, st)
      else (0, st\<lparr>s_region := map (fs_region_load env (dev st)) fs_initial_regions, s_inited := True\<rparr>))"

definition store_put :: "'d fs_store \<Rightarrow> nat \<Rightarrow> fs_region \<Rightarrow> 'd \<Rightarrow> 'd fs_store" where
  "store_put st type rg d = st\<lparr>s_region := (s_region st)[type := rg], dev := d\<rparr>"

text \<open>Sizes of the four record structures (the argument types of the push functions).\<close>

definition fs_data_len :: "nat \<Rightarrow> nat option" where
  "fs_data_len type = (if type = FS_TYPE_TAG then Some 92 else if type = FS_TYPE_MAC then Some 44
     else if type = FS_TYPE_TH then Some 8 else if type = FS_TYPE_BP then Some 8 else None)"

definition fs_push_type :: "'d store_env \<Rightarrow> nat \<Rightarrow> 'd fs_store \<Rightarrow> bytes option \<Rightarrow> (int \<times> 'd fs_store) option" where
  "fs_push_type env type st rec =
     (case rec of
        None \<Rightarrow> Some (-EINVAL, st)
      | Some data \<Rightarrow>
          if \<not> s_inited st then Some (-EINVAL, st)
          else map_option (\<lambda>(r, rg, d). (r, store_put st type rg d))
                 (fs_region_push env (s_region st ! type) data (dev st)))"

definition my_flash_store_push_tag :: "'d store_env \<Rightarrow> 'd fs_store \<Rightarrow> bytes option \<Rightarrow> (int \<times> 'd fs_store) option" where
  "my_flash_store_push_tag env = fs_push_type env FS_TYPE_TAG"

definition my_flash_store_push_mac :: "'d store_env \<Rightarrow> 'd fs_store \<Rightarrow> bytes option \<Rightarrow> (int \<times> 'd fs_store) option" where
  "my_flash_store_push_mac env = fs_push_type env FS_TYPE_MAC"

definition my_flash_store_push_th :: "'d store_env \<Rightarrow> 'd fs_store \<Rightarrow> bytes option \<Rightarrow> (int \<times> 'd fs_store) option" where
  "my_flash_store_push_th env = fs_push_type env FS_TYPE_TH"

definition my_flash_store_push_bp :: "'d store_env \<Rightarrow> 'd fs_store \<Rightarrow> bytes option \<Rightarrow> (int \<times> 'd fs_store) option" where
  "my_flash_store_push_bp env = fs_push_type env FS_TYPE_BP"

text \<open>Records in flash not yet confirmed, with the clamp of the source.\<close>

definition fs_flash_total :: "fs_region \<Rightarrow> nat" where
  "fs_flash_total rg =
     (let recs = valid_sectors rg * rec_per_sector rg
      in if recs \<ge> rd_rec_idx rg then recs - rd_rec_idx rg else 0)"

definition my_flash_store_pending_count :: "'d fs_store \<Rightarrow> nat \<Rightarrow> nat" where
  "my_flash_store_pending_count st type =
     (case fs_get_region st type of
        None \<Rightarrow> 0
      | Some rg \<Rightarrow> if \<not> s_inited st then 0 else fs_flash_total rg + staging_count rg)"

text \<open>
  The scan over the flash part: stops at the first marked record or at a read error,
  skips unmarked slots. \<open>None\<close> in the result means the scan reached the end.
\<close>

function fs_scan_flash :: "'d store_env \<Rightarrow> 'd \<Rightarrow> fs_region \<Rightarrow> nat \<Rightarrow> (int \<times> bytes) option \<times> fs_region" where
  "fs_scan_flash env d rg data_len =
     (if read_offset rg < fs_flash_total rg then
        let abs_rec = rd_rec_idx rg + read_offset rg;
            sector_idx = (rd_sector rg + abs_rec div rec_per_sector rg) mod region_sectors rg;
            rec_idx = abs_rec mod rec_per_sector rg;
            (ret, data) = fs_read_flash_record env d rg sector_idx rec_idx data_len
        in if ret < 0 then (Some (ret, []), rg)
           else let rg' = rg\<lparr>read_offset := read_offset rg + 1\<rparr>
                in if ret = 1 then (Some (1, data), rg') else fs_scan_flash env d rg' data_len
      else (None, rg))"
  by pat_completeness auto
termination
  by (relation "measure (\<lambda>(env, d, rg, n). fs_flash_total rg - read_offset rg)")
    (auto simp: fs_flash_total_def Let_def split: if_splits)

declare fs_scan_flash.simps [simp del]

definition fs_region_read_next :: "'d store_env \<Rightarrow> 'd \<Rightarrow> fs_region \<Rightarrow> nat \<Rightarrow> int \<times> bytes \<times> fs_region" where
  "fs_region_read_next env d rg data_len =
     (let rg0 = (if upload_active rg then rg
                 else rg\<lparr>upload_active := True, upload_staging_snap := staging_count rg\<rparr>)
      in case fs_scan_flash env d rg0 data_len of
           (Some (ret, data), rg1) \<Rightarrow> (ret, data, rg1)
         | (None, rg1) \<Rightarrow>
             if staging_read_idx rg1 < upload_staging_snap rg1 then
               let slot = take (rec_size rg1) (drop (staging_read_idx rg1 * rec_size rg1) (staging_buf rg1))
               in (1, take data_len (drop (rec_size rg1 - data_len) slot),
                   rg1\<lparr>staging_read_idx := staging_read_idx rg1 + 1\<rparr>)
             else (0, [], rg1))"

definition my_flash_store_read_next :: "'d store_env \<Rightarrow> 'd fs_store \<Rightarrow> nat \<Rightarrow> int \<times> bytes \<times> 'd fs_store" where
  "my_flash_store_read_next env st type =
     (case fs_get_region st type of
        None \<Rightarrow> (-EINVAL, [], st)
      | Some rg \<Rightarrow>
          if \<not> s_inited st then (-EINVAL, [], st)
          else (case fs_data_len type of
                  None \<Rightarrow> (-EINVAL, [], st)
                | Some n \<Rightarrow> let (ret, data, rg') = fs_region_read_next env (dev st) rg n
                            in (ret, data, store_put st type rg' (dev st))))"

definition fs_region_rewind :: "fs_region \<Rightarrow> fs_region" where
  "fs_region_rewind rg = rg\<lparr>read_offset := 0, staging_read_idx := 0, upload_active := False,
     upload_staging_snap := 0\<rparr>"

definition fs_region_upload_begin :: "fs_region \<Rightarrow> fs_region" where
  "fs_region_upload_begin rg = rg\<lparr>read_offset := 0, staging_read_idx := 0, upload_active := True,
     upload_staging_snap := staging_count rg\<rparr>"

definition fs_store_update :: "'d fs_store \<Rightarrow> nat \<Rightarrow> (fs_region \<Rightarrow> fs_region) \<Rightarrow> 'd fs_store" where
  "fs_store_update st type f =
     (case fs_get_region st type of
        None \<Rightarrow> st
      | Some rg \<Rightarrow> if \<not> s_inited st then st else store_put st type (f rg) (dev st))"

definition my_flash_store_rewind :: "'d fs_store \<Rightarrow> nat \<Rightarrow> 'd fs_store" where
  "my_flash_store_rewind st type = fs_store_update st type fs_region_rewind"

definition my_flash_store_upload_begin :: "'d fs_store \<Rightarrow> nat \<Rightarrow> 'd fs_store" where
  "my_flash_store_upload_begin st type = fs_store_update st type fs_region_upload_begin"

text \<open>The in-memory part of a commit: advance the read position, compact the staging buffer.\<close>

definition fs_region_commit :: "fs_region \<Rightarrow> fs_region" where
  "fs_region_commit rg =
     (let abs_consumed = rd_rec_idx rg + read_offset rg;
          consumed = abs_consumed div rec_per_sector rg;
          rg1 = (if consumed > 0
                 then rg\<lparr>rd_sector := (rd_sector rg + consumed) mod region_sectors rg,
                         valid_sectors := (if valid_sectors rg \<ge> consumed
                                           then valid_sectors rg - consumed else 0)\<rparr>
                 else rg);
          rg2 = rg1\<lparr>rd_rec_idx := abs_consumed mod rec_per_sector rg\<rparr>;
          remain = (if staging_count rg2 \<ge> staging_read_idx rg2
                    then staging_count rg2 - staging_read_idx rg2 else 0);
          rg3 = (if staging_read_idx rg2 > 0
                 then rg2\<lparr>staging_buf :=
                            (if remain > 0
                             then mem_put (staging_buf rg2) 0
                                    (take (remain * rec_size rg2)
                                      (drop (staging_read_idx rg2 * rec_size rg2) (staging_buf rg2)))
                             else staging_buf rg2),
                          staging_count := remain\<rparr>
                 else rg2)
      in rg3\<lparr>read_offset := 0, staging_read_idx := 0, upload_staging_snap := 0,
             upload_active := False\<rparr>)"

definition my_flash_store_commit :: "'d store_env \<Rightarrow> 'd fs_store \<Rightarrow> nat \<Rightarrow> int \<times> 'd fs_store" where
  "my_flash_store_commit env st type =
     (case fs_get_region st type of
        None \<Rightarrow> (-EINVAL, st)
      | Some rg \<Rightarrow>
          if \<not> s_inited st then (-EINVAL, st)
          else let rg' = fs_region_commit rg; (ret, d') = fs_meta_save env rg' (dev st)
               in (ret, store_put st type rg' d'))"

definition my_flash_store_clear :: "'d store_env \<Rightarrow> 'd fs_store \<Rightarrow> nat \<Rightarrow> 'd fs_store" where
  "my_flash_store_clear env st type =
     (case fs_get_region st type of
        None \<Rightarrow> st
      | Some rg \<Rightarrow>
          if \<not> s_inited st then st
          else let rg' = fs_region_reset rg; (_, d') = fs_meta_save env rg' (dev st)
               in store_put st type rg' d')"

section \<open>Well-formedness and the abstract queue of records\<close>

text \<open>Geometry of a region: it does not change while the firmware runs.\<close>

definition fs_geometry :: "fs_region \<Rightarrow> bool" where
  "fs_geometry rg \<longleftrightarrow> 0 < rec_size rg \<and> 0 < rec_per_sector rg \<and> 0 < region_sectors rg \<and>
     FS_SECTOR_HEADER_SIZE + rec_per_sector rg * rec_size rg \<le> FS_SECTOR_SIZE \<and>
     length (staging_buf rg) = rec_per_sector rg * rec_size rg \<and>
     sector_base rg + region_sectors rg \<le> FS_TOTAL_SECTORS"

definition fs_geom :: "fs_region \<Rightarrow> nat \<times> nat \<times> nat \<times> nat \<times> u32" where
  "fs_geom rg = (sector_base rg, rec_size rg, rec_per_sector rg, region_sectors rg, zms_id rg)"

text \<open>
  Ring pointers: the write sector follows the valid ones, the read offset lies in the
  oldest sector. Upload session: nothing is read outside a session, staged records are read
  only after the flash part, and never beyond the snapshot.
\<close>

definition fs_wf :: "fs_region \<Rightarrow> bool" where
  "fs_wf rg \<longleftrightarrow> fs_geometry rg \<and>
     rd_sector rg < region_sectors rg \<and> valid_sectors rg \<le> region_sectors rg \<and>
     wr_sector rg = (rd_sector rg + valid_sectors rg) mod region_sectors rg \<and>
     rd_rec_idx rg < rec_per_sector rg \<and> (valid_sectors rg = 0 \<longrightarrow> rd_rec_idx rg = 0) \<and>
     staging_count rg \<le> rec_per_sector rg \<and>
     read_offset rg \<le> fs_flash_total rg \<and>
     staging_read_idx rg \<le> upload_staging_snap rg \<and> upload_staging_snap rg \<le> staging_count rg \<and>
     (0 < staging_read_idx rg \<longrightarrow> read_offset rg = fs_flash_total rg) \<and>
     (\<not> upload_active rg \<longrightarrow> read_offset rg = 0 \<and> upload_staging_snap rg = 0)"

definition fs_slot :: "(nat \<Rightarrow> u8) \<Rightarrow> fs_region \<Rightarrow> nat \<Rightarrow> nat \<Rightarrow> bytes" where
  "fs_slot m rg sec i =
     mem_range m (fs_sector_offset rg sec + (FS_SECTOR_HEADER_SIZE + i * rec_size rg)) (rec_size rg)"

definition flash_slot :: "(nat \<Rightarrow> u8) \<Rightarrow> fs_region \<Rightarrow> nat \<Rightarrow> bytes" where
  "flash_slot m rg k = fs_slot m rg ((rd_sector rg + k div rec_per_sector rg) mod region_sectors rg)
     (k mod rec_per_sector rg)"

definition fs_flash_part :: "(nat \<Rightarrow> u8) \<Rightarrow> fs_region \<Rightarrow> bytes list" where
  "fs_flash_part m rg = map (flash_slot m rg) [rd_rec_idx rg..<valid_sectors rg * rec_per_sector rg]"

definition staged_slot :: "fs_region \<Rightarrow> nat \<Rightarrow> bytes" where
  "staged_slot rg i = take (rec_size rg) (drop (i * rec_size rg) (staging_buf rg))"

definition fs_staged :: "fs_region \<Rightarrow> bytes list" where
  "fs_staged rg = map (staged_slot rg) [0..<staging_count rg]"

text \<open>The pending records, oldest first: the slots in flash, then the staged ones.\<close>

definition fs_pending :: "(nat \<Rightarrow> u8) \<Rightarrow> fs_region \<Rightarrow> bytes list" where
  "fs_pending m rg = fs_flash_part m rg @ fs_staged rg"

definition fs_marked :: "(nat \<Rightarrow> u8) \<Rightarrow> fs_region \<Rightarrow> bool" where
  "fs_marked m rg \<longleftrightarrow> (\<forall>sl \<in> set (fs_pending m rg). sl ! 0 = FS_REC_MAGIC)"

text \<open>The data part of a slot.\<close>

definition slot_data :: "fs_region \<Rightarrow> nat \<Rightarrow> bytes \<Rightarrow> bytes" where
  "slot_data rg n sl = take n (drop (rec_size rg - n) sl)"

text \<open>The key-value storage is a different partition: writing it leaves the records alone.\<close>

definition zms_ok :: "'d store_env \<Rightarrow> ('d \<Rightarrow> nat \<Rightarrow> u8) \<Rightarrow> bool" where
  "zms_ok env mem \<longleftrightarrow> (\<forall>d k b. mem (snd (zms_write env d k b)) = mem d)"

section \<open>Sector lemmas\<close>

lemma fs_flash_total_eq: "fs_wf rg \<Longrightarrow> fs_flash_total rg = valid_sectors rg * rec_per_sector rg - rd_rec_idx rg"
  by (auto simp: fs_flash_total_def Let_def)

lemma length_fs_flash_part: "fs_wf rg \<Longrightarrow> length (fs_flash_part m rg) = fs_flash_total rg"
  by (simp add: fs_flash_part_def fs_flash_total_eq)

lemma length_fs_staged [simp]: "length (fs_staged rg) = staging_count rg"
  by (simp add: fs_staged_def)

lemma rd_idx_le_total: "fs_wf rg \<Longrightarrow> rd_rec_idx rg \<le> valid_sectors rg * rec_per_sector rg"
  by (cases "valid_sectors rg") (auto simp: fs_wf_def)

lemma slot_end_le:
  assumes "fs_geometry rg" "i < rec_per_sector rg"
  shows "FS_SECTOR_HEADER_SIZE + i * rec_size rg + rec_size rg \<le> FS_SECTOR_SIZE"
proof -
  have "Suc i * rec_size rg \<le> rec_per_sector rg * rec_size rg" using assms(2) by (intro mult_le_mono1) simp
  then show ?thesis using assms(1) by (simp add: fs_geometry_def)
qed

lemma fs_slot_write_other:
  assumes "flash_ok env mem" and w: "fl_write env d (fs_sector_offset rg t) buf = (r, d')"
    and "length buf = FS_SECTOR_SIZE" "fs_geometry rg'" "i < rec_per_sector rg'"
    and ne: "sector_base rg' + sec \<noteq> sector_base rg + t"
  shows "fs_slot (mem d') rg' sec i = fs_slot (mem d) rg' sec i"
proof -
  let ?b = "fs_sector_offset rg' sec + (FS_SECTOR_HEADER_SIZE + i * rec_size rg')"
  have "sector_base rg' + sec + 1 \<le> sector_base rg + t \<or> sector_base rg + t + 1 \<le> sector_base rg' + sec"
    using ne by linarith
  then have "(sector_base rg' + sec + 1) * FS_SECTOR_SIZE \<le> (sector_base rg + t) * FS_SECTOR_SIZE \<or>
      (sector_base rg + t + 1) * FS_SECTOR_SIZE \<le> (sector_base rg' + sec) * FS_SECTOR_SIZE"
    by (meson mult_le_mono1)
  then have "?b + rec_size rg' \<le> fs_sector_offset rg t \<or> fs_sector_offset rg t + length buf \<le> ?b"
    using slot_end_le [OF assms(4,5)] assms(3) by (auto simp: fs_sector_offset_def algebra_simps)
  then show ?thesis unfolding fs_slot_def using assms(1) w by (blast intro: flash_ok_write_other)
qed

lemma fs_slot_write_same:
  assumes "flash_ok env mem" and w: "fl_write env d (fs_sector_offset rg t) buf = (0, d')"
    and len: "length buf = FS_SECTOR_SIZE" and "fs_geometry rg" "i < rec_per_sector rg"
  shows "fs_slot (mem d') rg t i = take (rec_size rg) (drop (FS_SECTOR_HEADER_SIZE + i * rec_size rg) buf)"
proof -
  have "mem_range (mem d') (fs_sector_offset rg t) FS_SECTOR_SIZE = buf"
    using flash_ok_write_same [OF assms(1) w] len by simp
  then show ?thesis
    using take_drop_mem_range [OF slot_end_le [OF assms(4,5)], of "mem d'" "fs_sector_offset rg t"]
    by (simp add: fs_slot_def)
qed

lemma length_fs_sector_header [simp]: "length (fs_sector_header rg) = FS_SECTOR_HEADER_SIZE"
  by (simp add: fs_sector_header_def)

lemma staged_extent:
  assumes "fs_geometry rg" "n \<le> rec_per_sector rg"
  shows "n * rec_size rg \<le> length (staging_buf rg)"
  using assms by (simp add: fs_geometry_def)

lemma fs_sector_image_Some:
  assumes "fs_geometry rg" "staging_count rg \<le> rec_per_sector rg"
  shows "\<exists>buf. fs_sector_image rg = Some buf \<and> length buf = FS_SECTOR_SIZE \<and>
     (\<forall>i < staging_count rg. take (rec_size rg) (drop (FS_SECTOR_HEADER_SIZE + i * rec_size rg) buf) = staged_slot rg i)"
proof -
  let ?n = "staging_count rg * rec_size rg"
  have n: "?n \<le> length (staging_buf rg)" by (rule staged_extent [OF assms])
  have fit: "FS_SECTOR_HEADER_SIZE + ?n \<le> FS_SECTOR_SIZE"
    using n assms(1) unfolding fs_geometry_def by linarith
  let ?b = "fs_sector_header rg @ take ?n (staging_buf rg) @ replicate (FS_SECTOR_SIZE - (FS_SECTOR_HEADER_SIZE + ?n)) 0xFF"
  have img: "fs_sector_image rg = Some ?b"
    using n fit by (simp add: fs_sector_image_def mem_read_def mem_write_def)
  have "take (rec_size rg) (drop (FS_SECTOR_HEADER_SIZE + i * rec_size rg) ?b) = staged_slot rg i"
    if "i < staging_count rg" for i
  proof -
    have "Suc i * rec_size rg \<le> ?n" using that by (intro mult_le_mono1) simp
    then have e: "i * rec_size rg + rec_size rg \<le> ?n" by (simp add: add.commute)
    then have "take (rec_size rg) (drop (i * rec_size rg) (take ?n (staging_buf rg))) = staged_slot rg i"
      using n by (simp add: staged_slot_def take_drop min_def)
    then show ?thesis using e n by simp
  qed
  then show ?thesis using img fit n by auto
qed

section \<open>Pushing a record\<close>

lemma fs_make_slot_spec:
  assumes "length data < rec_size rg"
  shows "\<exists>sl. fs_make_slot rg data = Some sl \<and> length sl = rec_size rg \<and> sl ! 0 = FS_REC_MAGIC \<and>
     slot_data rg (length data) sl = data"
proof -
  let ?sl = "take (rec_size rg - length data) ((replicate (rec_size rg) 0)[0 := FS_REC_MAGIC]) @ data"
  have "fs_make_slot rg data = Some ?sl"
    using assms by (simp add: fs_make_slot_def mem_write_def)
  moreover have "?sl ! 0 = FS_REC_MAGIC" using assms by (simp add: nth_append)
  ultimately show ?thesis using assms by (auto simp: slot_data_def)
qed

lemma fs_staged_write:
  assumes "fs_geometry rg" "staging_count rg < rec_per_sector rg" "length sl = rec_size rg"
  shows "\<exists>buf. mem_write (staging_buf rg) (staging_count rg * rec_size rg) sl = Some buf \<and>
     length buf = length (staging_buf rg) \<and>
     fs_staged (rg\<lparr>staging_buf := buf, staging_count := staging_count rg + 1\<rparr>) = fs_staged rg @ [sl]"
proof -
  let ?o = "staging_count rg * rec_size rg"
  let ?buf = "take ?o (staging_buf rg) @ sl @ drop (?o + length sl) (staging_buf rg)"
  have "Suc (staging_count rg) * rec_size rg \<le> length (staging_buf rg)"
    using assms(1,2) by (intro staged_extent) auto
  then have fit: "?o + length sl \<le> length (staging_buf rg)" using assms(3) by (simp add: add.commute)
  have wr: "mem_write (staging_buf rg) ?o sl = Some ?buf" using fit by (simp add: mem_write_def)
  have old: "take (rec_size rg) (drop (i * rec_size rg) ?buf) = staged_slot rg i" if "i < staging_count rg" for i
  proof -
    have "Suc i * rec_size rg \<le> ?o" using that by (intro mult_le_mono1) simp
    then have e: "i * rec_size rg + rec_size rg \<le> ?o" by (simp add: add.commute)
    then show ?thesis using fit by (simp add: staged_slot_def take_drop min_def)
  qed
  have new: "take (rec_size rg) (drop ?o ?buf) = sl" using fit assms(3) by simp
  have "fs_staged (rg\<lparr>staging_buf := ?buf, staging_count := staging_count rg + 1\<rparr>) = fs_staged rg @ [sl]"
    using old new by (simp add: fs_staged_def staged_slot_def)
  then show ?thesis using wr fit by auto
qed

text \<open>The flash part depends on the geometry and the ring pointers only.\<close>

lemma fs_flash_part_cong:
  assumes "rd_sector rg' = rd_sector rg" "valid_sectors rg' = valid_sectors rg" "rd_rec_idx rg' = rd_rec_idx rg"
    "sector_base rg' = sector_base rg" "rec_size rg' = rec_size rg" "rec_per_sector rg' = rec_per_sector rg"
    "region_sectors rg' = region_sectors rg"
  shows "fs_flash_part m rg' = fs_flash_part m rg"
  using assms by (simp add: fs_flash_part_def flash_slot_def fs_slot_def fs_sector_offset_def)

lemma fs_staged_cong:
  assumes "staging_count rg' = staging_count rg" "staging_buf rg' = staging_buf rg" "rec_size rg' = rec_size rg"
  shows "fs_staged rg' = fs_staged rg"
  using assms by (simp add: fs_staged_def staged_slot_def)

text \<open>The region after a successful sector write, before the metadata is saved.\<close>

definition fs_advance :: "fs_region \<Rightarrow> fs_region" where
  "fs_advance rg =
     (let rg1 = rg\<lparr>seq_counter := seq_counter rg + 1\<rparr>;
          rg2 = (if valid_sectors rg1 < region_sectors rg1
                 then rg1\<lparr>valid_sectors := valid_sectors rg1 + 1\<rparr>
                 else rg1\<lparr>rd_sector := (rd_sector rg1 + 1) mod region_sectors rg1, rd_rec_idx := 0\<rparr>)
      in rg2\<lparr>wr_sector := (wr_sector rg2 + 1) mod region_sectors rg2, staging_count := 0\<rparr>)"

lemma fs_advance_wf:
  assumes "fs_wf rg" "\<not> upload_active rg"
  shows "fs_wf (fs_advance rg)"
  using assms
  by (auto simp: fs_wf_def fs_advance_def fs_geometry_def fs_flash_total_def Let_def mod_simps)

lemma fs_ring_sector_ne:
  fixes rd v j n :: nat
  assumes "rd < n" "v < n" "j < n" "j \<noteq> v"
  shows "(rd + j) mod n \<noteq> (rd + v) mod n"
  using assms ring_index_eq_iff by blast

lemma fs_advance_flash_part:
  assumes wf: "fs_wf rg" and ok: "flash_ok env mem"
    and w: "fl_write env d (fs_sector_offset rg (wr_sector rg)) buf = (0, d')"
    and len: "length buf = FS_SECTOR_SIZE"
    and img: "\<forall>i < rec_per_sector rg. take (rec_size rg) (drop (FS_SECTOR_HEADER_SIZE + i * rec_size rg) buf) = staged_slot rg i"
  shows "fs_flash_part (mem d') (fs_advance rg) =
     (if valid_sectors rg < region_sectors rg then fs_flash_part (mem d) rg
      else drop (rec_per_sector rg - rd_rec_idx rg) (fs_flash_part (mem d) rg)) @
     map (staged_slot rg) [0..<rec_per_sector rg]"
proof -
  let ?rg = "fs_advance rg" and ?n = "region_sectors rg" and ?p = "rec_per_sector rg"
    and ?v = "valid_sectors rg" and ?rd = "rd_sector rg"
  have g: "fs_geometry rg" and p: "0 < ?p" and rd: "?rd < ?n" and v: "?v \<le> ?n"
    using wf by (auto simp: fs_wf_def fs_geometry_def)
  have wrs: "wr_sector rg = (?rd + ?v) mod ?n" using wf by (simp add: fs_wf_def)
  have geo: "fs_slot m ?rg sec i = fs_slot m rg sec i" for m sec i
    by (simp add: fs_slot_def fs_sector_offset_def fs_advance_def Let_def)
  have same: "fs_slot (mem d') rg (wr_sector rg) i = staged_slot rg i" if "i < ?p" for i
    using fs_slot_write_same [OF ok w len g that] img that by simp
  have other: "fs_slot (mem d') rg sec i = fs_slot (mem d) rg sec i" if "sec \<noteq> wr_sector rg" "i < ?p" for sec i
    using fs_slot_write_other [OF ok w len g that(2)] that(1) by simp
  have tail: "map f [j * ?p..<j * ?p + ?p] = map (staged_slot rg) [0..<?p]"
    if "\<And>i. i < ?p \<Longrightarrow> f (j * ?p + i) = staged_slot rg i" for f j
    using that by (subst map_upt_shift) simp
  show ?thesis
  proof (cases "?v < ?n")
    case True
    have adv: "rd_sector ?rg = ?rd" "rd_rec_idx ?rg = rd_rec_idx rg" "valid_sectors ?rg = ?v + 1"
      "rec_per_sector ?rg = ?p" "region_sectors ?rg = ?n"
      using True by (simp_all add: fs_advance_def Let_def)
    have "flash_slot (mem d') ?rg k = flash_slot (mem d) rg k" if "k < ?v * ?p" for k
    proof -
      have "k div ?p < ?v" using that p by (simp add: less_mult_imp_div_less)
      then have "(?rd + k div ?p) mod ?n \<noteq> wr_sector rg"
        unfolding wrs using fs_ring_sector_ne [OF rd True, of "k div ?p"] True by simp
      then show ?thesis using p by (simp add: flash_slot_def adv geo other)
    qed
    moreover have "flash_slot (mem d') ?rg (?v * ?p + i) = staged_slot rg i" if "i < ?p" for i
      using that same [OF that] wrs by (simp add: flash_slot_def adv geo)
    moreover have "[rd_rec_idx rg..<(?v + 1) * ?p] = [rd_rec_idx rg..<?v * ?p] @ [?v * ?p..<?v * ?p + ?p]"
      using upt_add_eq_append [OF rd_idx_le_total [OF wf], of ?p] by (simp add: add.commute)
    ultimately show ?thesis using True tail [of "flash_slot (mem d') ?rg" ?v]
      by (simp add: fs_flash_part_def adv)
  next
    case False
    then have vn: "?v = ?n" using v by simp
    then have wr0: "wr_sector rg = ?rd" using wrs rd by simp
    have adv: "rd_sector ?rg = (?rd + 1) mod ?n" "rd_rec_idx ?rg = 0" "valid_sectors ?rg = ?n"
      "rec_per_sector ?rg = ?p" "region_sectors ?rg = ?n"
      using vn by (simp_all add: fs_advance_def Let_def)
    have np: "(?n - 1) * ?p + ?p = ?n * ?p" "?p + (?n - 1) * ?p = ?n * ?p" using rd by (cases ?n; simp)+
    have "flash_slot (mem d') ?rg k = flash_slot (mem d) rg (?p + k)" if "k < (?n - 1) * ?p" for k
    proof -
      have kd: "k div ?p < ?n - 1" using that p by (simp add: less_mult_imp_div_less)
      have pk: "(?p + k) div ?p = k div ?p + 1" using p div_add_self1 [of ?p k] by simp
      have sec: "((?rd + 1) mod ?n + k div ?p) mod ?n = (?rd + (?p + k) div ?p) mod ?n"
        unfolding pk by (simp add: mod_simps)
      have "(?rd + (?p + k) div ?p) mod ?n \<noteq> (?rd + 0) mod ?n"
        unfolding pk using kd rd by (intro fs_ring_sector_ne) auto
      then have "(?rd + (?p + k) div ?p) mod ?n \<noteq> wr_sector rg" using wr0 rd by simp
      then show ?thesis using p unfolding flash_slot_def adv geo sec by (subst other) auto
    qed
    then have old: "map (flash_slot (mem d') ?rg) [0..<(?n - 1) * ?p] = map (flash_slot (mem d) rg) [?p..<?p + (?n - 1) * ?p]"
      by (subst map_upt_shift) simp
    have new: "flash_slot (mem d') ?rg ((?n - 1) * ?p + i) = staged_slot rg i" if "i < ?p" for i
    proof -
      have "((?rd + 1) mod ?n + (?n - 1)) mod ?n = ?rd"
        using rd by (cases "Suc ?rd = ?n") auto
      then show ?thesis using that same [OF that] wr0 by (simp add: flash_slot_def adv geo)
    qed
    have dr: "drop (?p - rd_rec_idx rg) (fs_flash_part (mem d) rg) = map (flash_slot (mem d) rg) [?p..<?p + (?n - 1) * ?p]"
      unfolding np using wf by (simp add: fs_flash_part_def fs_wf_def drop_map vn)
    have "fs_flash_part (mem d') ?rg = map (flash_slot (mem d') ?rg) [0..<(?n - 1) * ?p + ?p]"
      unfolding np by (simp add: fs_flash_part_def adv)
    also have "\<dots> = map (flash_slot (mem d') ?rg) [0..<(?n - 1) * ?p] @
        map (flash_slot (mem d') ?rg) [(?n - 1) * ?p..<(?n - 1) * ?p + ?p]"
      by (simp only: upt_add_eq_append [OF le0, of "(?n - 1) * ?p" ?p] map_append)
    also have "\<dots> = drop (?p - rd_rec_idx rg) (fs_flash_part (mem d) rg) @ map (staged_slot rg) [0..<?p]"
      using old tail [of "flash_slot (mem d') ?rg" "?n - 1", OF new] dr by simp
    finally show ?thesis using False by simp
  qed
qed

lemma zms_okD: "zms_ok env mem \<Longrightarrow> zms_write env d k b = (r, d') \<Longrightarrow> mem d' = mem d"
  unfolding zms_ok_def by (metis snd_conv)

lemma fs_meta_save_mem: "zms_ok env mem \<Longrightarrow> fs_meta_save env rg d = (r, d') \<Longrightarrow> mem d' = mem d"
  by (auto simp: fs_meta_save_def my_user_data_write_def split: prod.splits if_splits dest: zms_okD)

text \<open>A full staging buffer is flushed: the sector write either succeeds or fails as a whole.\<close>

lemma fs_flush_full:
  assumes wf: "fs_wf rg" and act: "\<not> upload_active rg" and full: "staging_count rg = rec_per_sector rg"
    and ok: "flash_ok env mem" "zms_ok env mem"
  obtains (written) r d' where "fs_flush_staging env rg d = Some (r, fs_advance rg, d')"
      "fs_wf (fs_advance rg)"
      "fs_pending (mem d') (fs_advance rg) =
         (if valid_sectors rg < region_sectors rg then fs_flash_part (mem d) rg
          else drop (rec_per_sector rg - rd_rec_idx rg) (fs_flash_part (mem d) rg)) @ fs_staged rg"
      "r = 0 \<or> r = -EIO"
  | (failed) r d' where "r \<noteq> 0" "fs_flush_staging env rg d = Some (r, rg\<lparr>staging_count := staging_count rg - 1\<rparr>, d')"
      "\<exists>bs. length bs = FS_SECTOR_SIZE \<and> fl_write env d (fs_sector_offset rg (wr_sector rg)) bs = (r, d')"
proof -
  have g: "fs_geometry rg" and pos: "0 < rec_per_sector rg" using wf by (auto simp: fs_wf_def fs_geometry_def)
  obtain buf where buf: "fs_sector_image rg = Some buf" "length buf = FS_SECTOR_SIZE"
    "\<forall>i < rec_per_sector rg. take (rec_size rg) (drop (FS_SECTOR_HEADER_SIZE + i * rec_size rg) buf) = staged_slot rg i"
    using fs_sector_image_Some [OF g] full by auto
  obtain ret d1 where w: "fl_write env d (fs_sector_offset rg (wr_sector rg)) buf = (ret, d1)" by fastforce
  show ?thesis
  proof (cases "ret = 0")
    case True
    obtain r d2 where sv: "fs_meta_save env (fs_advance rg) d1 = (r, d2)" by fastforce
    have mem: "mem d2 = mem d1" by (rule fs_meta_save_mem [OF ok(2) sv])
    have "staging_count (fs_advance rg) = 0" by (simp add: fs_advance_def Let_def)
    then have st: "fs_staged (fs_advance rg) = []" by (simp add: fs_staged_def)
    have fl: "fs_flush_staging env rg d = Some (r, fs_advance rg, d2)"
      using full pos buf(1) w True sv by (simp add: fs_flush_staging_def fs_advance_def Let_def)
    have "fs_pending (mem d2) (fs_advance rg) =
         (if valid_sectors rg < region_sectors rg then fs_flash_part (mem d) rg
          else drop (rec_per_sector rg - rd_rec_idx rg) (fs_flash_part (mem d) rg)) @ fs_staged rg"
      using fs_advance_flash_part [OF wf ok(1) w [unfolded True] buf(2,3)]
      by (simp add: fs_pending_def st mem) (simp add: fs_staged_def full)
    moreover have "r = 0 \<or> r = -EIO" using sv by (auto simp: fs_meta_save_def split: prod.splits if_splits)
    ultimately show ?thesis using written fl fs_advance_wf [OF wf act] by blast
  next
    case False
    then have "fs_flush_staging env rg d = Some (ret, rg\<lparr>staging_count := staging_count rg - 1\<rparr>, d1)"
      using full pos buf(1) w by (simp add: fs_flush_staging_def)
    then show ?thesis using failed False w buf(2) by blast
  qed
qed

text \<open>A failed sector write leaves every stored record in place unless the ring was full.\<close>

lemma fs_failed_write_flash_part:
  assumes wf: "fs_wf rg" and ok: "flash_ok env mem" and notfull: "valid_sectors rg < region_sectors rg"
    and w: "fl_write env d (fs_sector_offset rg (wr_sector rg)) buf = (r, d')" "length buf = FS_SECTOR_SIZE"
  shows "fs_flash_part (mem d') rg = fs_flash_part (mem d) rg"
proof -
  have g: "fs_geometry rg" and p: "0 < rec_per_sector rg" and rd: "rd_sector rg < region_sectors rg"
    using wf by (auto simp: fs_wf_def fs_geometry_def)
  have "flash_slot (mem d') rg k = flash_slot (mem d) rg k" if "k < valid_sectors rg * rec_per_sector rg" for k
  proof -
    have "k div rec_per_sector rg < valid_sectors rg" using that p by (simp add: less_mult_imp_div_less)
    then have "(rd_sector rg + k div rec_per_sector rg) mod region_sectors rg \<noteq> wr_sector rg"
      using fs_ring_sector_ne [OF rd notfull, of "k div rec_per_sector rg"] notfull wf by (simp add: fs_wf_def)
    then show ?thesis
      unfolding flash_slot_def using p by (intro fs_slot_write_other [OF ok w g]) auto
  qed
  then show ?thesis by (simp add: fs_flash_part_def)
qed

text \<open>The pending records as data of \<open>n\<close> bytes each.\<close>

definition fs_records :: "(nat \<Rightarrow> u8) \<Rightarrow> fs_region \<Rightarrow> nat \<Rightarrow> bytes list" where
  "fs_records m rg n = map (slot_data rg n) (fs_pending m rg)"

lemma length_fs_pending: "fs_wf rg \<Longrightarrow> length (fs_pending m rg) = fs_flash_total rg + staging_count rg"
  by (simp add: fs_pending_def length_fs_flash_part)

definition fs_stage :: "fs_region \<Rightarrow> bytes \<Rightarrow> fs_region" where
  "fs_stage rg buf = rg\<lparr>staging_buf := buf, staging_count := staging_count rg + 1\<rparr>"

lemma fs_stage_spec:
  assumes wf: "fs_wf rg" and len: "length data < rec_size rg" and room: "staging_count rg < rec_per_sector rg"
  obtains sl buf where "fs_make_slot rg data = Some sl" "slot_data rg (length data) sl = data"
    "sl ! 0 = FS_REC_MAGIC" "mem_write (staging_buf rg) (staging_count rg * rec_size rg) sl = Some buf"
    "fs_wf (fs_stage rg buf)" "fs_staged (fs_stage rg buf) = fs_staged rg @ [sl]"
    "fs_flash_part m (fs_stage rg buf) = fs_flash_part m rg" "fs_staged (rg\<lparr>staging_buf := buf\<rparr>) = fs_staged rg"
    "fs_wf (rg\<lparr>staging_buf := buf\<rparr>)"
proof -
  have g: "fs_geometry rg" using wf by (simp add: fs_wf_def)
  obtain sl where sl: "fs_make_slot rg data = Some sl" "length sl = rec_size rg" "sl ! 0 = FS_REC_MAGIC"
    "slot_data rg (length data) sl = data" using fs_make_slot_spec [OF len] by blast
  obtain buf where b: "mem_write (staging_buf rg) (staging_count rg * rec_size rg) sl = Some buf"
    "length buf = length (staging_buf rg)" "fs_staged (fs_stage rg buf) = fs_staged rg @ [sl]"
    using fs_staged_write [OF g room sl(2)] by (auto simp: fs_stage_def)
  have "fs_wf (fs_stage rg buf)" "fs_wf (rg\<lparr>staging_buf := buf\<rparr>)" using wf room b(2)
    by (auto simp: fs_wf_def fs_stage_def fs_geometry_def fs_flash_total_def Let_def)
  moreover have "fs_flash_part m (fs_stage rg buf) = fs_flash_part m rg"
    by (rule fs_flash_part_cong) (simp_all add: fs_stage_def)
  moreover have "fs_staged (rg\<lparr>staging_buf := buf\<rparr>) = fs_staged rg"
  proof -
    have "fs_staged (rg\<lparr>staging_buf := buf\<rparr>) = butlast (fs_staged (fs_stage rg buf))"
      by (simp add: fs_staged_def fs_stage_def staged_slot_def)
    then show ?thesis by (simp add: b(3))
  qed
  ultimately show ?thesis using that sl b by blast
qed

lemma slot_data_cong: "rec_size rg' = rec_size rg \<Longrightarrow> slot_data rg' = slot_data rg"
  by (simp add: slot_data_def fun_eq_iff)

text \<open>The progress of an upload session.\<close>

definition fs_session :: "fs_region \<Rightarrow> bool \<times> nat \<times> nat \<times> nat \<times> nat" where
  "fs_session rg = (upload_active rg, read_offset rg, staging_read_idx rg, upload_staging_snap rg, fs_flash_total rg)"

lemma fs_push_stage:
  assumes wf: "fs_wf rg" and len: "length data < rec_size rg" and room: "staging_count rg < rec_per_sector rg"
    and act: "upload_active rg \<or> staging_count rg + 1 < rec_per_sector rg"
  shows "\<exists>rg'. fs_region_push env rg data d = Some (0, rg', d) \<and> fs_wf rg' \<and>
     fs_records m rg' (length data) = fs_records m rg (length data) @ [data] \<and>
     (fs_marked m rg \<longrightarrow> fs_marked m rg') \<and> fs_session rg' = fs_session rg \<and> rec_size rg' = rec_size rg"
proof -
  obtain sl buf where b: "fs_make_slot rg data = Some sl" "slot_data rg (length data) sl = data"
    "mem_write (staging_buf rg) (staging_count rg * rec_size rg) sl = Some buf"
    "fs_wf (fs_stage rg buf)" "fs_staged (fs_stage rg buf) = fs_staged rg @ [sl]"
    "fs_flash_part m (fs_stage rg buf) = fs_flash_part m rg" "sl ! 0 = FS_REC_MAGIC"
    using fs_stage_spec [OF wf len room, where m = m] by blast
  have rs: "slot_data (fs_stage rg buf) = slot_data rg" by (rule slot_data_cong) (simp add: fs_stage_def)
  have "fs_region_push env rg data d = Some (0, fs_stage rg buf, d)"
    using b(1,3) room act by (auto simp: fs_region_push_def fs_stage_def)
  moreover have "fs_records m (fs_stage rg buf) (length data) = fs_records m rg (length data) @ [data]"
    using b by (simp add: fs_records_def fs_pending_def rs)
  moreover have "fs_marked m rg \<longrightarrow> fs_marked m (fs_stage rg buf)"
    using b(5-7) by (auto simp: fs_marked_def fs_pending_def)
  moreover have "fs_session (fs_stage rg buf) = fs_session rg" "rec_size (fs_stage rg buf) = rec_size rg"
    by (simp_all add: fs_session_def fs_stage_def fs_flash_total_def Let_def)
  ultimately show ?thesis using b(4) by blast
qed

lemma fs_push_flush:
  assumes wf: "fs_wf rg" and len: "length data < rec_size rg" and act: "\<not> upload_active rg"
    and full: "staging_count rg + 1 = rec_per_sector rg"
    and ok: "flash_ok env mem" "zms_ok env mem"
  obtains (written) r rg' d' where "fs_region_push env rg data d = Some (r, rg', d')" "fs_wf rg'" "r = 0 \<or> r = -EIO"
    "fs_records (mem d') rg' (length data) =
       (if valid_sectors rg < region_sectors rg then fs_records (mem d) rg (length data)
        else drop (rec_per_sector rg - rd_rec_idx rg) (fs_records (mem d) rg (length data))) @ [data]"
    "fs_marked (mem d) rg \<Longrightarrow> fs_marked (mem d') rg'"
  | (failed) r rg' d' where "fs_region_push env rg data d = Some (r, rg', d')" "fs_wf rg'" "r \<noteq> 0"
    "valid_sectors rg < region_sectors rg \<Longrightarrow> fs_records (mem d') rg' (length data) = fs_records (mem d) rg (length data)"
    "valid_sectors rg < region_sectors rg \<Longrightarrow> fs_marked (mem d) rg \<Longrightarrow> fs_marked (mem d') rg'"
proof -
  have room: "staging_count rg < rec_per_sector rg" using full by simp
  obtain sl buf where b: "fs_make_slot rg data = Some sl" "slot_data rg (length data) sl = data"
    "mem_write (staging_buf rg) (staging_count rg * rec_size rg) sl = Some buf"
    "fs_wf (fs_stage rg buf)" "fs_staged (fs_stage rg buf) = fs_staged rg @ [sl]"
    "fs_flash_part (mem d) (fs_stage rg buf) = fs_flash_part (mem d) rg"
    "fs_staged (rg\<lparr>staging_buf := buf\<rparr>) = fs_staged rg" "fs_wf (rg\<lparr>staging_buf := buf\<rparr>)"
    "sl ! 0 = FS_REC_MAGIC"
    using fs_stage_spec [OF wf len room, where m = "mem d"] by blast
  let ?s = "fs_stage rg buf" and ?c = "rg\<lparr>staging_buf := buf\<rparr>"
  have sel: "\<not> upload_active ?s" "staging_count ?s = rec_per_sector ?s" "valid_sectors ?s = valid_sectors rg"
    "region_sectors ?s = region_sectors rg" "rec_per_sector ?s = rec_per_sector rg" "rd_rec_idx ?s = rd_rec_idx rg"
    "fs_sector_offset ?s = fs_sector_offset rg" "wr_sector ?s = wr_sector rg"
    using act full by (simp_all add: fs_stage_def fs_sector_offset_def fun_eq_iff)
  have undo: "?s\<lparr>staging_count := staging_count ?s - 1\<rparr> = ?c" by (simp add: fs_stage_def)
  have push: "fs_region_push env rg data d = fs_flush_staging env ?s d"
    using b(1,3) act full by (simp add: fs_region_push_def fs_stage_def)
  have sd: "slot_data (fs_advance ?s) = slot_data rg" "slot_data ?c = slot_data rg"
    by (rule slot_data_cong, simp add: fs_stage_def fs_advance_def Let_def)+
  show ?thesis
  proof (rule fs_flush_full [OF b(4) sel(1,2) ok, of d])
    fix r d' assume f: "fs_flush_staging env ?s d = Some (r, fs_advance ?s, d')" "fs_wf (fs_advance ?s)"
      "fs_pending (mem d') (fs_advance ?s) =
         (if valid_sectors ?s < region_sectors ?s then fs_flash_part (mem d) ?s
          else drop (rec_per_sector ?s - rd_rec_idx ?s) (fs_flash_part (mem d) ?s)) @ fs_staged ?s"
      "r = 0 \<or> r = -EIO"
    have "rec_per_sector rg - rd_rec_idx rg \<le> length (fs_flash_part (mem d) rg)" if "\<not> valid_sectors rg < region_sectors rg"
    proof -
      have "1 * rec_per_sector rg \<le> valid_sectors rg * rec_per_sector rg"
        using that wf by (intro mult_le_mono1) (auto simp: fs_wf_def fs_geometry_def)
      then show ?thesis by (simp add: length_fs_flash_part [OF wf] fs_flash_total_eq [OF wf] diff_le_mono)
    qed
    then have "fs_records (mem d') (fs_advance ?s) (length data) =
       (if valid_sectors rg < region_sectors rg then fs_records (mem d) rg (length data)
        else drop (rec_per_sector rg - rd_rec_idx rg) (fs_records (mem d) rg (length data))) @ [data]"
      using f(3) b(2,5,6) by (auto simp: fs_records_def sd sel fs_pending_def drop_map)
    moreover have "fs_marked (mem d') (fs_advance ?s)" if "fs_marked (mem d) rg"
      using that f(3) b(5,6,9) unfolding fs_marked_def fs_pending_def
      by (auto split: if_splits dest: in_set_dropD)
    ultimately show ?thesis using written f(1,2,4) push by metis
  next
    fix r d' assume f: "r \<noteq> 0" "fs_flush_staging env ?s d = Some (r, ?s\<lparr>staging_count := staging_count ?s - 1\<rparr>, d')"
      "\<exists>bs. length bs = FS_SECTOR_SIZE \<and> fl_write env d (fs_sector_offset ?s (wr_sector ?s)) bs = (r, d')"
    have pd: "fs_pending (mem d') ?c = fs_pending (mem d) rg" if "valid_sectors rg < region_sectors rg"
    proof -
      have "fs_flash_part (mem d') ?c = fs_flash_part (mem d') rg" by (rule fs_flash_part_cong) simp_all
      also have "\<dots> = fs_flash_part (mem d) rg"
        using f(3) that fs_failed_write_flash_part [OF wf ok(1) that] by (auto simp: sel)
      finally show ?thesis using b(7) by (simp add: fs_pending_def)
    qed
    have "fs_region_push env rg data d = Some (r, ?c, d')" using f(2) push undo by simp
    then show ?thesis by (rule failed [OF _ b(8) f(1)]) (simp_all add: fs_records_def fs_marked_def pd sd(2))
  qed
qed

section \<open>Reading, confirming and rewinding\<close>

text \<open>Reads inside the partition succeed.\<close>

definition flash_reads_ok :: "('d, 'm) flash_ops_scheme \<Rightarrow> 'd \<Rightarrow> bool" where
  "flash_reads_ok env d \<longleftrightarrow> (\<forall>a n. a + n \<le> FS_TOTAL_SECTORS * FS_SECTOR_SIZE \<longrightarrow> fst (fl_read env d a n) = 0)"

text \<open>The number of records already delivered in the session, and the number announced.\<close>

definition fs_position :: "fs_region \<Rightarrow> nat" where
  "fs_position rg = read_offset rg + staging_read_idx rg"

definition fs_limit :: "fs_region \<Rightarrow> nat" where
  "fs_limit rg = fs_flash_total rg + upload_staging_snap rg"

lemma fs_read_flash_record_marked:
  assumes "flash_ok env mem" "flash_reads_ok env d" "fs_slot (mem d) rg sec i ! 0 = FS_REC_MAGIC"
    and g: "fs_geometry rg" "sec < region_sectors rg" "i < rec_per_sector rg"
  shows "fs_read_flash_record env d rg sec i n = (1, slot_data rg n (fs_slot (mem d) rg sec i))"
proof -
  let ?o = "fs_sector_offset rg sec + FS_SECTOR_HEADER_SIZE + i * rec_size rg"
  have "(sector_base rg + sec + 1) * FS_SECTOR_SIZE \<le> FS_TOTAL_SECTORS * FS_SECTOR_SIZE"
    using g(1,2) by (intro mult_le_mono1) (auto simp: fs_geometry_def)
  then have "?o + rec_size rg \<le> FS_TOTAL_SECTORS * FS_SECTOR_SIZE"
    using slot_end_le [OF g(1,3)] by (simp add: fs_sector_offset_def)
  then obtain bs where r: "fl_read env d ?o (rec_size rg) = (0, bs)"
    using assms(2) unfolding flash_reads_ok_def by (metis prod.collapse)
  have "bs = fs_slot (mem d) rg sec i"
    using flash_ok_read [OF assms(1) r] by (simp add: fs_slot_def add.assoc)
  then show ?thesis using r assms(3) by (simp add: fs_read_flash_record_def slot_data_def)
qed

lemma fs_scan_flash_next:
  assumes wf: "fs_wf rg" and mk: "fs_marked (mem d) rg" and ok: "flash_ok env mem" "flash_reads_ok env d"
  shows "fs_scan_flash env d rg n =
     (if read_offset rg < fs_flash_total rg
      then (Some (1, slot_data rg n (fs_pending (mem d) rg ! read_offset rg)), rg\<lparr>read_offset := read_offset rg + 1\<rparr>)
      else (None, rg))"
proof (cases "read_offset rg < fs_flash_total rg")
  case True
  let ?k = "rd_rec_idx rg + read_offset rg"
  have nth: "fs_pending (mem d) rg ! read_offset rg = flash_slot (mem d) rg ?k"
    using True by (simp add: fs_pending_def nth_append length_fs_flash_part wf)
      (simp add: fs_flash_part_def fs_flash_total_eq [OF wf])
  have "fs_pending (mem d) rg ! read_offset rg \<in> set (fs_pending (mem d) rg)"
    using True by (simp add: length_fs_pending [OF wf])
  then have "flash_slot (mem d) rg ?k ! 0 = FS_REC_MAGIC" using mk nth by (auto simp: fs_marked_def)
  moreover have "fs_geometry rg" "0 < region_sectors rg" "0 < rec_per_sector rg"
    using wf by (auto simp: fs_wf_def fs_geometry_def)
  ultimately show ?thesis
    using True nth fs_read_flash_record_marked [OF ok, of rg _ _ n]
    by (subst fs_scan_flash.simps) (simp add: flash_slot_def Let_def)
next
  case False
  then show ?thesis by (subst fs_scan_flash.simps) simp
qed

lemma fs_pending_staged_nth:
  "fs_wf rg \<Longrightarrow> i < staging_count rg \<Longrightarrow> fs_pending m rg ! (fs_flash_total rg + i) = staged_slot rg i"
  by (simp add: fs_pending_def nth_append length_fs_flash_part fs_staged_def)

lemma fs_flash_total_session [simp]:
  "fs_flash_total (rg\<lparr>read_offset := x\<rparr>) = fs_flash_total rg"
  "fs_flash_total (rg\<lparr>staging_read_idx := x\<rparr>) = fs_flash_total rg"
  "fs_flash_total (rg\<lparr>upload_active := b\<rparr>) = fs_flash_total rg"
  "fs_flash_total (rg\<lparr>upload_staging_snap := x\<rparr>) = fs_flash_total rg"
  "fs_flash_total (rg\<lparr>staging_buf := bs\<rparr>) = fs_flash_total rg"
  "fs_flash_total (rg\<lparr>staging_count := x\<rparr>) = fs_flash_total rg"
  by (simp_all add: fs_flash_total_def Let_def)

text \<open>One read in an open session delivers the record at the session's position.\<close>

lemma fs_read_next_spec:
  assumes wf: "fs_wf rg" and act: "upload_active rg"
    and mk: "fs_marked (mem d) rg" and ok: "flash_ok env mem" "flash_reads_ok env d"
  shows "\<exists>rg'. (if fs_position rg < fs_limit rg
      then fs_region_read_next env d rg n = (1, fs_records (mem d) rg n ! fs_position rg, rg') \<and>
           fs_position rg' = fs_position rg + 1
      else fs_region_read_next env d rg n = (0, [], rg') \<and> rg' = rg) \<and>
     fs_wf rg' \<and> upload_active rg' \<and> fs_limit rg' = fs_limit rg \<and> fs_records m rg' = fs_records m rg \<and>
     fs_pending m rg' = fs_pending m rg \<and> fs_geom rg' = fs_geom rg"
proof -
  have st: "staging_read_idx rg \<le> upload_staging_snap rg" "upload_staging_snap rg \<le> staging_count rg"
    "read_offset rg \<le> fs_flash_total rg" "0 < staging_read_idx rg \<longrightarrow> read_offset rg = fs_flash_total rg"
    using wf by (auto simp: fs_wf_def)
  consider (flash) "read_offset rg < fs_flash_total rg" | (staged) "read_offset rg = fs_flash_total rg" "staging_read_idx rg < upload_staging_snap rg"
    | (finished) "read_offset rg = fs_flash_total rg" "staging_read_idx rg = upload_staging_snap rg"
    using st by linarith
  then show ?thesis
  proof cases
    case flash
    let ?rg = "rg\<lparr>read_offset := read_offset rg + 1\<rparr>"
    have sri: "staging_read_idx rg = 0" using flash st by auto
    have "fs_region_read_next env d rg n = (1, slot_data rg n (fs_pending (mem d) rg ! read_offset rg), ?rg)"
      using act flash fs_scan_flash_next [OF wf mk ok, of n] by (simp add: fs_region_read_next_def)
    moreover have "fs_wf ?rg" using wf act flash sri by (auto simp: fs_wf_def fs_geometry_def)
    moreover have "fs_pending m ?rg = fs_pending m rg"
      unfolding fs_pending_def by (intro arg_cong2 [where f = append] fs_flash_part_cong fs_staged_cong) simp_all
    moreover have "slot_data ?rg = slot_data rg" by (rule slot_data_cong) simp
    moreover have "read_offset rg < length (fs_pending (mem d) rg)" using flash by (simp add: length_fs_pending [OF wf])
    ultimately show ?thesis using flash act sri
      by (intro exI [of _ ?rg]) (simp add: fs_position_def fs_limit_def fs_records_def fs_geom_def fun_eq_iff)
  next
    case staged
    let ?rg = "rg\<lparr>staging_read_idx := staging_read_idx rg + 1\<rparr>"
    have i: "staging_read_idx rg < staging_count rg" using staged st by linarith
    have "fs_region_read_next env d rg n = (1, slot_data rg n (staged_slot rg (staging_read_idx rg)), ?rg)"
      using act staged fs_scan_flash_next [OF wf mk ok, of n]
      by (simp add: fs_region_read_next_def slot_data_def staged_slot_def Let_def)
    moreover have "fs_wf ?rg" using wf act staged by (auto simp: fs_wf_def fs_geometry_def)
    moreover have "fs_pending m ?rg = fs_pending m rg"
      unfolding fs_pending_def by (intro arg_cong2 [where f = append] fs_flash_part_cong fs_staged_cong) simp_all
    moreover have "slot_data ?rg = slot_data rg" by (rule slot_data_cong) simp
    moreover have "fs_flash_total rg + staging_read_idx rg < length (fs_pending (mem d) rg)"
      using i by (simp add: length_fs_pending [OF wf])
    ultimately show ?thesis using staged act fs_pending_staged_nth [OF wf i, of "mem d"]
      by (intro exI [of _ ?rg]) (simp add: fs_position_def fs_limit_def fs_records_def fs_geom_def fun_eq_iff)
  next
    case finished
    then show ?thesis using wf act fs_scan_flash_next [OF wf mk ok, of n]
      by (intro exI [of _ rg]) (simp add: fs_position_def fs_limit_def fs_region_read_next_def)
  qed
qed

lemma fs_commit_fields:
  assumes wf: "fs_wf rg"
  defines "c \<equiv> (rd_rec_idx rg + read_offset rg) div rec_per_sector rg"
  shows "c \<le> valid_sectors rg"
    and "rd_sector (fs_region_commit rg) = (rd_sector rg + c) mod region_sectors rg"
    and "valid_sectors (fs_region_commit rg) = valid_sectors rg - c"
    and "rd_rec_idx (fs_region_commit rg) = (rd_rec_idx rg + read_offset rg) mod rec_per_sector rg"
    and "staging_count (fs_region_commit rg) = staging_count rg - staging_read_idx rg"
    and "sector_base (fs_region_commit rg) = sector_base rg" "rec_size (fs_region_commit rg) = rec_size rg"
      "rec_per_sector (fs_region_commit rg) = rec_per_sector rg" "region_sectors (fs_region_commit rg) = region_sectors rg"
      "wr_sector (fs_region_commit rg) = wr_sector rg" "length (staging_buf (fs_region_commit rg)) = length (staging_buf rg)"
      "read_offset (fs_region_commit rg) = 0" "staging_read_idx (fs_region_commit rg) = 0"
      "upload_staging_snap (fs_region_commit rg) = 0" "\<not> upload_active (fs_region_commit rg)"
proof -
  have le: "rd_rec_idx rg + read_offset rg \<le> valid_sectors rg * rec_per_sector rg"
    using wf rd_idx_le_total [OF wf] fs_flash_total_eq [OF wf] by (auto simp: fs_wf_def)
  have p: "0 < rec_per_sector rg" and rd: "rd_sector rg < region_sectors rg"
    and sri: "staging_read_idx rg \<le> staging_count rg" using wf by (auto simp: fs_wf_def fs_geometry_def)
  show c: "c \<le> valid_sectors rg" unfolding c_def using div_le_mono [OF le, of "rec_per_sector rg"] p by simp
  show "rd_sector (fs_region_commit rg) = (rd_sector rg + c) mod region_sectors rg"
    using rd by (simp add: fs_region_commit_def Let_def c_def)
  show "valid_sectors (fs_region_commit rg) = valid_sectors rg - c"
    using c by (simp add: fs_region_commit_def Let_def c_def)
  show "staging_count (fs_region_commit rg) = staging_count rg - staging_read_idx rg"
    using sri by (simp add: fs_region_commit_def Let_def)
qed (simp_all add: fs_region_commit_def Let_def)

lemma fs_commit_wf:
  assumes wf: "fs_wf rg"
  shows "fs_wf (fs_region_commit rg)"
proof -
  let ?c = "(rd_rec_idx rg + read_offset rg) div rec_per_sector rg"
  note f = fs_commit_fields [OF wf]
  have le: "rd_rec_idx rg + read_offset rg \<le> valid_sectors rg * rec_per_sector rg"
    using wf rd_idx_le_total [OF wf] fs_flash_total_eq [OF wf] by (auto simp: fs_wf_def)
  have p: "0 < rec_per_sector rg" using wf by (auto simp: fs_wf_def fs_geometry_def)
  have "(rd_rec_idx rg + read_offset rg) mod rec_per_sector rg = 0" if "valid_sectors rg \<le> ?c"
  proof -
    have "valid_sectors rg * rec_per_sector rg \<le> ?c * rec_per_sector rg" using that by (rule mult_le_mono1)
    also have "\<dots> \<le> rd_rec_idx rg + read_offset rg" by (rule div_times_less_eq_dividend)
    finally have "rd_rec_idx rg + read_offset rg = valid_sectors rg * rec_per_sector rg" using le by simp
    then show ?thesis by simp
  qed
  moreover have "wr_sector rg = ((rd_sector rg + ?c) mod region_sectors rg + (valid_sectors rg - ?c)) mod region_sectors rg"
  proof -
    have "((rd_sector rg + ?c) mod region_sectors rg + (valid_sectors rg - ?c)) mod region_sectors rg =
        (rd_sector rg + ?c + (valid_sectors rg - ?c)) mod region_sectors rg" by (rule mod_add_left_eq)
    also have "rd_sector rg + ?c + (valid_sectors rg - ?c) = rd_sector rg + valid_sectors rg" using f(1) by linarith
    finally show ?thesis using wf by (simp add: fs_wf_def)
  qed
  moreover have "fs_geometry (fs_region_commit rg)" using wf by (simp add: fs_wf_def fs_geometry_def f)
  ultimately show ?thesis using wf p by (auto simp: fs_wf_def f)
qed

lemma fs_commit_flash_part:
  assumes wf: "fs_wf rg"
  shows "fs_flash_part m (fs_region_commit rg) = drop (read_offset rg) (fs_flash_part m rg)"
proof -
  let ?p = "rec_per_sector rg" and ?a = "rd_rec_idx rg + read_offset rg" and ?v = "valid_sectors rg"
  let ?c = "?a div ?p"
  note f = fs_commit_fields [OF wf]
  have p: "0 < ?p" using wf by (auto simp: fs_wf_def fs_geometry_def)
  have slot: "flash_slot m (fs_region_commit rg) k = flash_slot m rg (?c * ?p + k)" for k
    using p by (simp add: flash_slot_def f fs_slot_def fs_sector_offset_def mod_simps add.assoc)
  have le: "?c * ?p + (?v - ?c) * ?p = ?v * ?p" using f(1) by (simp add: diff_mult_distrib)
  have "fs_flash_part m (fs_region_commit rg) = map (\<lambda>k. flash_slot m rg (?c * ?p + k)) [?a mod ?p..<(?v - ?c) * ?p]"
    by (simp add: fs_flash_part_def f slot)
  also have "\<dots> = map (flash_slot m rg) [?c * ?p + ?a mod ?p..<?c * ?p + (?v - ?c) * ?p]"
    by (rule map_upt_offset)
  also have "\<dots> = map (flash_slot m rg) [?a..<?v * ?p]" unfolding le by simp
  also have "\<dots> = drop (read_offset rg) (fs_flash_part m rg)" by (simp add: fs_flash_part_def drop_map)
  finally show ?thesis .
qed

lemma fs_commit_staged:
  assumes wf: "fs_wf rg"
  shows "fs_staged (fs_region_commit rg) = drop (staging_read_idx rg) (fs_staged rg)"
proof (rule nth_equalityI)
  note f = fs_commit_fields [OF wf]
  show "length (fs_staged (fs_region_commit rg)) = length (drop (staging_read_idx rg) (fs_staged rg))"
    by (simp add: f)
  fix i assume "i < length (fs_staged (fs_region_commit rg))"
  then have i: "i < staging_count rg - staging_read_idx rg" by (simp add: f)
  let ?s = "rec_size rg" and ?j = "staging_read_idx rg" and ?r = "staging_count rg - staging_read_idx rg"
  let ?src = "take (?r * ?s) (drop (?j * ?s) (staging_buf rg))"
  have ext: "staging_count rg * ?s \<le> length (staging_buf rg)" using wf by (intro staged_extent) (auto simp: fs_wf_def)
  have le: "?j * ?s + ?r * ?s = staging_count rg * ?s" using i by (simp flip: add_mult_distrib)
  then have len: "length ?src = ?r * ?s" using ext by simp
  have buf: "take (?r * ?s) (staging_buf (fs_region_commit rg)) = ?src"
  proof (cases "?j = 0")
    case True
    then show ?thesis by (simp add: fs_region_commit_def Let_def)
  next
    case False
    have "staging_buf (fs_region_commit rg) = mem_put (staging_buf rg) 0 ?src"
      using False i by (auto simp: fs_region_commit_def Let_def)
    also have "\<dots> = ?src @ drop (?r * ?s) (staging_buf rg)" using len le ext by (subst mem_put_write) auto
    finally show ?thesis using len by simp
  qed
  have "Suc i * ?s \<le> ?r * ?s" using i by (intro mult_le_mono1) simp
  then have e: "i * ?s + ?s \<le> ?r * ?s" by (simp add: add.commute)
  have "take ?s (drop (i * ?s) (staging_buf (fs_region_commit rg))) = take ?s (drop (i * ?s) (take (?r * ?s) (staging_buf (fs_region_commit rg))))"
    using e by (simp add: take_drop min_def)
  also have "\<dots> = take ?s (drop ((?j + i) * ?s) (staging_buf rg))"
    unfolding buf using e by (simp add: take_drop min_def add_mult_distrib add.commute)
  finally show "fs_staged (fs_region_commit rg) ! i = drop (staging_read_idx rg) (fs_staged rg) ! i"
    using i by (simp add: fs_staged_def f staged_slot_def)
qed

lemma fs_commit_pending:
  assumes wf: "fs_wf rg"
  shows "fs_pending m (fs_region_commit rg) = drop (fs_position rg) (fs_pending m rg)"
proof -
  have "drop (fs_position rg) (fs_pending m rg) = drop (read_offset rg) (fs_flash_part m rg) @ drop (staging_read_idx rg) (fs_staged rg)"
    using wf by (cases "staging_read_idx rg") (auto simp: fs_position_def fs_pending_def length_fs_flash_part fs_wf_def)
  also have "\<dots> = fs_pending m (fs_region_commit rg)"
    by (simp only: fs_pending_def fs_commit_flash_part [OF wf] fs_commit_staged [OF wf])
  finally show ?thesis by (rule sym)
qed

lemma fs_commit_records:
  assumes wf: "fs_wf rg"
  shows "fs_records m (fs_region_commit rg) n = drop (fs_position rg) (fs_records m rg n)"
proof -
  have sd: "slot_data (fs_region_commit rg) = slot_data rg" by (rule slot_data_cong) (rule fs_commit_fields(7) [OF wf])
  show ?thesis by (simp only: fs_records_def sd drop_map fs_commit_pending [OF wf])
qed

text \<open>Opening and abandoning a session changes the session fields only.\<close>

lemma fs_session_records:
  "fs_pending m (fs_region_upload_begin rg) = fs_pending m rg" "fs_pending m (fs_region_rewind rg) = fs_pending m rg"
  "fs_records m (fs_region_upload_begin rg) = fs_records m rg" "fs_records m (fs_region_rewind rg) = fs_records m rg"
proof -
  show b: "fs_pending m (fs_region_upload_begin rg) = fs_pending m rg"
    unfolding fs_pending_def by (intro arg_cong2 [where f = append] fs_flash_part_cong fs_staged_cong)
      (simp_all add: fs_region_upload_begin_def)
  show r: "fs_pending m (fs_region_rewind rg) = fs_pending m rg"
    unfolding fs_pending_def by (intro arg_cong2 [where f = append] fs_flash_part_cong fs_staged_cong)
      (simp_all add: fs_region_rewind_def)
  have "slot_data (fs_region_upload_begin rg) = slot_data rg" "slot_data (fs_region_rewind rg) = slot_data rg"
    by (rule slot_data_cong, simp add: fs_region_upload_begin_def fs_region_rewind_def)+
  then show "fs_records m (fs_region_upload_begin rg) = fs_records m rg" "fs_records m (fs_region_rewind rg) = fs_records m rg"
    by (simp_all add: fs_records_def fun_eq_iff b r)
qed

lemma fs_session_wf:
  assumes "fs_wf rg"
  shows "fs_wf (fs_region_upload_begin rg)" "fs_wf (fs_region_rewind rg)"
  using assms by (auto simp: fs_wf_def fs_region_upload_begin_def fs_region_rewind_def fs_geometry_def)

section \<open>Isolation of the regions\<close>

text \<open>Two regions that own disjoint ranges of sectors.\<close>

definition fs_disjoint :: "fs_region \<Rightarrow> fs_region \<Rightarrow> bool" where
  "fs_disjoint rg rg2 \<longleftrightarrow> sector_base rg + region_sectors rg \<le> sector_base rg2 \<or>
     sector_base rg2 + region_sectors rg2 \<le> sector_base rg"

lemma fs_sector_write_frame:
  assumes wf: "fs_wf rg" "fs_wf rg2" and ok: "flash_ok env mem" and dj: "fs_disjoint rg rg2"
    and w: "fl_write env d (fs_sector_offset rg (wr_sector rg)) buf = (r, d')" "length buf = FS_SECTOR_SIZE"
  shows "fs_pending (mem d') rg2 = fs_pending (mem d) rg2"
proof -
  have wr: "wr_sector rg < region_sectors rg" using wf(1) by (simp add: fs_wf_def fs_geometry_def)
  have g: "fs_geometry rg2" "0 < region_sectors rg2" "0 < rec_per_sector rg2" using wf(2) by (auto simp: fs_wf_def fs_geometry_def)
  have "fs_slot (mem d') rg2 sec i = fs_slot (mem d) rg2 sec i"
    if "sec < region_sectors rg2" "i < rec_per_sector rg2" for sec i
    using dj that wr by (intro fs_slot_write_other [OF ok w g(1) that(2)]) (auto simp: fs_disjoint_def)
  then show ?thesis using g(2,3) by (simp add: fs_pending_def fs_flash_part_def flash_slot_def)
qed

lemma fs_flush_frame:
  assumes wf: "fs_wf rg" "fs_wf rg2" and ok: "flash_ok env mem" "zms_ok env mem" and dj: "fs_disjoint rg rg2"
    and fl: "fs_flush_staging env rg d = Some (r, rg', d')"
  shows "fs_pending (mem d') rg2 = fs_pending (mem d) rg2"
proof (cases "staging_count rg = 0")
  case True
  then show ?thesis using fl by (simp add: fs_flush_staging_def)
next
  case False
  obtain buf where buf: "fs_sector_image rg = Some buf" "length buf = FS_SECTOR_SIZE"
    using fs_sector_image_Some [of rg] wf(1) by (auto simp: fs_wf_def)
  obtain ret d1 where w: "fl_write env d (fs_sector_offset rg (wr_sector rg)) buf = (ret, d1)" by fastforce
  have "mem d' = mem d1"
    using fl False buf(1) w fs_meta_save_mem [OF ok(2)]
    by (auto simp: fs_flush_staging_def Let_def split: if_splits prod.splits)
  then show ?thesis using fs_sector_write_frame [OF wf ok(1) dj w buf(2)] by simp
qed

lemma fs_push_frame:
  assumes wf: "fs_wf rg" "fs_wf rg2" and ok: "flash_ok env mem" "zms_ok env mem" and dj: "fs_disjoint rg rg2"
    and len: "length data < rec_size rg" and room: "upload_active rg \<or> staging_count rg < rec_per_sector rg"
    and push: "fs_region_push env rg data d = Some (r, rg', d')"
  shows "fs_pending (mem d') rg2 = fs_pending (mem d) rg2"
proof (cases "staging_count rg < rec_per_sector rg")
  case False
  then show ?thesis using push room by (simp add: fs_region_push_def)
next
  case True
  obtain sl buf where b: "fs_make_slot rg data = Some sl"
    "mem_write (staging_buf rg) (staging_count rg * rec_size rg) sl = Some buf" "fs_wf (fs_stage rg buf)"
    using fs_stage_spec [OF wf(1) len True] by blast
  have dj': "fs_disjoint (fs_stage rg buf) rg2" using dj by (simp add: fs_disjoint_def fs_stage_def)
  have "d' = d \<or> fs_flush_staging env (fs_stage rg buf) d = Some (r, rg', d')"
    using push b(1,2) True by (auto simp: fs_region_push_def fs_stage_def Let_def split: if_splits)
  then show ?thesis using fs_flush_frame [OF b(3) wf(2) ok dj'] by auto
qed

text \<open>A region a push cannot overflow: there is room, or the full buffer is recognised.\<close>

definition region_safe :: "fs_region \<Rightarrow> bool" where
  "region_safe rg \<longleftrightarrow> upload_active rg \<or> staging_count rg < rec_per_sector rg"

lemma fs_flush_fields:
  assumes "fs_flush_staging env rg d = Some (r, rg', d')" "staging_count rg \<le> rec_per_sector rg" "0 < staging_count rg"
  shows "region_safe rg'" "fs_geom rg' = fs_geom rg" "upload_active rg' = upload_active rg"
proof -
  have "rg' = fs_advance rg \<or> rg' = rg\<lparr>staging_count := staging_count rg - 1\<rparr>"
    using assms(1,3) by (auto simp: fs_flush_staging_def fs_advance_def Let_def bind_eq_Some_conv case_prod_beta split: if_splits)
  then show "region_safe rg'" "fs_geom rg' = fs_geom rg" "upload_active rg' = upload_active rg"
    using assms(2,3) by (auto simp: fs_advance_def region_safe_def fs_geom_def Let_def split: if_splits)
qed

lemma fs_push_fields:
  assumes push: "fs_region_push env rg data d = Some (r, rg', d')" and "region_safe rg"
  shows "region_safe rg'" "fs_geom rg' = fs_geom rg" "upload_active rg' = upload_active rg"
proof -
  have "region_safe rg' \<and> fs_geom rg' = fs_geom rg \<and> upload_active rg' = upload_active rg"
  proof (cases "upload_active rg \<and> staging_count rg \<ge> rec_per_sector rg")
    case True
    then show ?thesis using assms by (simp add: fs_region_push_def)
  next
    case False
    then obtain buf where "(let s = rg\<lparr>staging_buf := buf, staging_count := staging_count rg + 1\<rparr> in
        if staging_count s \<ge> rec_per_sector s \<and> \<not> upload_active s then fs_flush_staging env s d
        else Some (0, s, d)) = Some (r, rg', d')"
      using push by (auto simp: fs_region_push_def bind_eq_Some_conv simp del: not_le)
    then show ?thesis
      using assms(2) False fs_flush_fields [of env "rg\<lparr>staging_buf := buf, staging_count := staging_count rg + 1\<rparr>" d r rg' d']
      by (auto simp: Let_def region_safe_def fs_geom_def split: if_splits)
  qed
  then show "region_safe rg'" "fs_geom rg' = fs_geom rg" "upload_active rg' = upload_active rg" by simp_all
qed

text \<open>A push into a well-formed safe region returns and keeps the region well-formed.\<close>

lemma fs_push_total:
  assumes wf: "fs_wf rg" and len: "length data < rec_size rg" and safe: "region_safe rg"
    and ok: "flash_ok env mem" "zms_ok env mem"
  shows "\<exists>r rg' d'. fs_region_push env rg data d = Some (r, rg', d') \<and> fs_wf rg'"
proof -
  have le: "staging_count rg \<le> rec_per_sector rg" using wf by (simp add: fs_wf_def)
  consider "upload_active rg" "staging_count rg = rec_per_sector rg"
    | "staging_count rg < rec_per_sector rg" "upload_active rg \<or> staging_count rg + 1 < rec_per_sector rg"
    | "\<not> upload_active rg" "staging_count rg + 1 = rec_per_sector rg"
    using safe le unfolding region_safe_def by linarith
  then show ?thesis
  proof cases
    case 1
    then show ?thesis using wf by (simp add: fs_region_push_def)
  next
    case 2
    show ?thesis using fs_push_stage [OF wf len 2, where m = undefined and d = d and env = env] by blast
  next
    case 3
    then show ?thesis using fs_push_flush [OF wf len 3 ok, of d] by metis
  qed
qed

end
