(* ===== verification/Upload.thy ===== *)
theory Upload
  imports Flash_Store
begin

text \<open>
  The contract of the record store as its client, the uploader, sees it. A session on one
  data type is opened, records are fetched one by one while new records of any type keep
  arriving, and the session ends with a commit (the fetched records are removed) or a
  rewind (they stay). The locale \<open>upload_source\<close> states the laws of these five
  operations and derives what a whole session does; the interpretation discharges the laws
  for the store of \<^verbatim>\<open>src/my_flash_store.c\<close>.
\<close>

section \<open>Sessions\<close>

text \<open>Steps of a session: \<open>None\<close> fetches the next record, \<open>Some (j, r)\<close> stores \<open>r\<close> as type \<open>j\<close>.\<close>

primrec session_run ::
  "('k \<Rightarrow> 's \<Rightarrow> 'r option \<times> 's) \<Rightarrow> ('k \<Rightarrow> 'r \<Rightarrow> 's \<Rightarrow> (bool \<times> 's) option) \<Rightarrow> 'k \<Rightarrow>
   ('k \<times> 'r) option list \<Rightarrow> 's \<Rightarrow> ('r list \<times> 'r list \<times> 's) option" where
  "session_run nxt psh k [] s = Some ([], [], s)"
| "session_run nxt psh k (e # es) s =
     (case e of
        None \<Rightarrow>
          (case nxt k s of (rd, s1) \<Rightarrow>
             map_option (\<lambda>(out, acc, s2). (case_option [] (\<lambda>r. [r]) rd @ out, acc, s2)) (session_run nxt psh k es s1))
      | Some (j, r) \<Rightarrow>
          (case psh j r s of
             None \<Rightarrow> None
           | Some (ok, s1) \<Rightarrow>
               map_option (\<lambda>(out, acc, s2). (out, (if j = k \<and> ok then [r] else []) @ acc, s2))
                 (session_run nxt psh k es s1)))"

definition fetches :: "('k \<times> 'r) option list \<Rightarrow> nat" where
  "fetches es = length (filter (\<lambda>e. e = None) es)"

section \<open>The contract\<close>

locale upload_source =
  fixes ready :: "'k \<Rightarrow> 's \<Rightarrow> bool" and active :: "'k \<Rightarrow> 's \<Rightarrow> bool"
    and pending :: "'k \<Rightarrow> 's \<Rightarrow> 'r list" and position :: "'k \<Rightarrow> 's \<Rightarrow> nat" and limit :: "'k \<Rightarrow> 's \<Rightarrow> nat"
    and fits :: "'k \<Rightarrow> 'r \<Rightarrow> bool"
    and start :: "'k \<Rightarrow> 's \<Rightarrow> 's" and nxt :: "'k \<Rightarrow> 's \<Rightarrow> 'r option \<times> 's"
    and psh :: "'k \<Rightarrow> 'r \<Rightarrow> 's \<Rightarrow> (bool \<times> 's) option"
    and cmt :: "'k \<Rightarrow> 's \<Rightarrow> 's" and rew :: "'k \<Rightarrow> 's \<Rightarrow> 's"
  assumes start_law: "ready k s \<Longrightarrow> active k (start k s) \<and> pending k (start k s) = pending k s \<and>
        position k (start k s) = 0 \<and> limit k (start k s) = length (pending k s)"
    and active_bound: "active k s \<Longrightarrow> limit k s \<le> length (pending k s)"
    and nxt_law: "active k s \<Longrightarrow> nxt k s = (rd, s') \<Longrightarrow>
        active k s' \<and> pending k s' = pending k s \<and> limit k s' = limit k s \<and>
        (if position k s < limit k s then rd = Some (pending k s ! position k s) \<and> position k s' = Suc (position k s)
         else rd = None \<and> position k s' = position k s)"
    and psh_law: "active k s \<Longrightarrow> fits j r \<Longrightarrow> \<exists>ok s'. psh j r s = Some (ok, s') \<and> active k s' \<and>
        position k s' = position k s \<and> limit k s' = limit k s \<and>
        pending k s' = pending k s @ (if j = k \<and> ok then [r] else [])"
    and cmt_law: "active k s \<Longrightarrow> pending k (cmt k s) = drop (position k s) (pending k s)"
    and rew_law: "active k s \<Longrightarrow> pending k (rew k s) = pending k s"
begin

lemma session_run_spec:
  assumes "active k s" "\<forall>j r. Some (j, r) \<in> set es \<longrightarrow> fits j r"
  shows "\<exists>out acc s'. session_run nxt psh k es s = Some (out, acc, s') \<and> active k s' \<and>
     out = take (fetches es) (drop (position k s) (take (limit k s) (pending k s))) \<and>
     position k s' = position k s + length out \<and> limit k s' = limit k s \<and> pending k s' = pending k s @ acc"
  using assms
proof (induction es arbitrary: s)
  case Nil
  then show ?case by (simp add: fetches_def)
next
  case (Cons e es)
  note bd = active_bound [OF Cons.prems(1)]
  show ?case
  proof (cases e)
    case None
    obtain rd s1 where n: "nxt k s = (rd, s1)" by fastforce
    note law = nxt_law [OF Cons.prems(1) n]
    obtain out acc s2 where run: "session_run nxt psh k es s1 = Some (out, acc, s2)" "active k s2"
        "out = take (fetches es) (drop (position k s1) (take (limit k s1) (pending k s1)))"
        "position k s2 = position k s1 + length out" "limit k s2 = limit k s1" "pending k s2 = pending k s1 @ acc"
      using Cons.IH [OF conjunct1 [OF law]] Cons.prems(2) by (simp del: session_run.simps) blast
    show ?thesis
    proof (cases "position k s < limit k s")
      case True
      then have "drop (position k s) (take (limit k s) (pending k s)) =
          pending k s ! position k s # drop (Suc (position k s)) (take (limit k s) (pending k s))"
        using bd by (subst Cons_nth_drop_Suc [symmetric]) auto
      then show ?thesis using None n law run True by (simp add: fetches_def)
    next
      case False
      then show ?thesis using None n law run by (simp add: fetches_def)
    qed
  next
    case (Some jr)
    obtain j r where jr: "jr = (j, r)" by fastforce
    obtain ok s1 where p: "psh j r s = Some (ok, s1)" "active k s1" "position k s1 = position k s"
        "limit k s1 = limit k s" "pending k s1 = pending k s @ (if j = k \<and> ok then [r] else [])"
      using psh_law [OF Cons.prems(1), of j r] Cons.prems(2) Some jr by auto
    obtain out acc s2 where run: "session_run nxt psh k es s1 = Some (out, acc, s2)" "active k s2"
        "out = take (fetches es) (drop (position k s1) (take (limit k s1) (pending k s1)))"
        "position k s2 = position k s1 + length out" "limit k s2 = limit k s1" "pending k s2 = pending k s1 @ acc"
      using Cons.IH [OF p(2)] Cons.prems(2) by (simp del: session_run.simps) blast
    let ?new = "if j = k \<and> ok then [r] else []"
    have "out = take (fetches es) (drop (position k s) (take (limit k s) (pending k s)))"
      unfolding run(3) p(3-5) using bd by simp
    moreover have "fetches (e # es) = fetches es" using Some by (simp add: fetches_def)
    moreover have "session_run nxt psh k (e # es) s = Some (out, ?new @ acc, s2)"
      using Some jr p(1) run(1) by simp
    ultimately show ?thesis using run(2,4-6) p(3-5) by (intro exI [of _ out] exI [of _ "?new @ acc"] exI [of _ s2]) simp
  qed
qed

text \<open>A whole session: what was fetched and what is pending afterwards make up what was there and what arrived.\<close>

lemma session_spec:
  assumes "ready k s" "\<forall>j r. Some (j, r) \<in> set es \<longrightarrow> fits j r"
  shows "\<exists>out acc s'. session_run nxt psh k es (start k s) = Some (out, acc, s') \<and>
     out = take (fetches es) (pending k s) \<and>
     pending k s @ acc = out @ pending k (cmt k s') \<and> pending k (rew k s') = pending k s @ acc"
proof -
  note st = start_law [OF assms(1)]
  obtain out acc s' where run: "session_run nxt psh k es (start k s) = Some (out, acc, s')" "active k s'"
    "out = take (fetches es) (pending k s)" "position k s' = length out" "pending k s' = pending k s @ acc"
    using session_run_spec [of k "start k s" es] st assms(2) by fastforce
  have "drop (length out) (pending k s @ acc) = drop (length out) (pending k s) @ acc" using run(3) by simp
  moreover have "pending k s = out @ drop (length out) (pending k s)" using run(3)
    by (metis append_take_drop_id length_take min.cobounded1 min_def take_all_iff drop_all append_Nil2 nat_le_linear)
  ultimately show ?thesis using run cmt_law [OF run(2)] rew_law [OF run(2)] by auto
qed

end

section \<open>The record store as an upload source\<close>

text \<open>The store between calls: initialised, with the four regions of the layout, all well-formed.\<close>

definition store_wf :: "'d fs_store \<Rightarrow> bool" where
  "store_wf st \<longleftrightarrow> s_inited st \<and> map fs_geom (s_region st) = map fs_geom fs_initial_regions \<and>
     (\<forall>i < FS_TYPE_MAX. fs_wf (s_region st ! i))"

definition store_safe :: "'d fs_store \<Rightarrow> bool" where
  "store_safe st \<longleftrightarrow> (\<forall>i < FS_TYPE_MAX. region_safe (s_region st ! i))"

text \<open>What the store relies on: a healthy flash whose contents are \<open>mem\<close>, and separate key-value storage.\<close>

definition store_env_ok :: "'d store_env \<Rightarrow> ('d \<Rightarrow> nat \<Rightarrow> u8) \<Rightarrow> bool" where
  "store_env_ok env mem \<longleftrightarrow> flash_ok env mem \<and> zms_ok env mem \<and> (\<forall>d. flash_reads_ok env d)"

definition store_records :: "('d \<Rightarrow> nat \<Rightarrow> u8) \<Rightarrow> 'd fs_store \<Rightarrow> nat \<Rightarrow> bytes list" where
  "store_records mem st t = fs_records (mem (dev st)) (s_region st ! t) (the (fs_data_len t))"

definition store_marked :: "('d \<Rightarrow> nat \<Rightarrow> u8) \<Rightarrow> 'd fs_store \<Rightarrow> nat \<Rightarrow> bool" where
  "store_marked mem st t \<longleftrightarrow> fs_marked (mem (dev st)) (s_region st ! t)"

type_synonym 'd us_state = "'d store_env \<times> ('d \<Rightarrow> nat \<Rightarrow> u8) \<times> 'd fs_store"

definition us_ready :: "nat \<Rightarrow> 'd us_state \<Rightarrow> bool" where
  "us_ready t = (\<lambda>(env, mem, st). t < FS_TYPE_MAX \<and> store_env_ok env mem \<and> store_wf st \<and> store_safe st \<and> store_marked mem st t)"

definition us_active :: "nat \<Rightarrow> 'd us_state \<Rightarrow> bool" where
  "us_active t s \<longleftrightarrow> us_ready t s \<and> upload_active (s_region (snd (snd s)) ! t)"

definition us_pending :: "nat \<Rightarrow> 'd us_state \<Rightarrow> bytes list" where
  "us_pending t = (\<lambda>(env, mem, st). store_records mem st t)"

definition us_position :: "nat \<Rightarrow> 'd us_state \<Rightarrow> nat" where
  "us_position t = (\<lambda>(env, mem, st). fs_position (s_region st ! t))"

definition us_limit :: "nat \<Rightarrow> 'd us_state \<Rightarrow> nat" where
  "us_limit t = (\<lambda>(env, mem, st). fs_limit (s_region st ! t))"

definition us_fits :: "nat \<Rightarrow> bytes \<Rightarrow> bool" where
  "us_fits t r \<longleftrightarrow> fs_data_len t = Some (length r)"

definition us_begin :: "nat \<Rightarrow> 'd us_state \<Rightarrow> 'd us_state" where
  "us_begin t = (\<lambda>(env, mem, st). (env, mem, my_flash_store_upload_begin st t))"

definition us_next :: "nat \<Rightarrow> 'd us_state \<Rightarrow> bytes option \<times> 'd us_state" where
  "us_next t = (\<lambda>(env, mem, st). case my_flash_store_read_next env st t of
     (ret, data, st') \<Rightarrow> (if ret = 1 then Some data else None, (env, mem, st')))"

definition us_push :: "nat \<Rightarrow> bytes \<Rightarrow> 'd us_state \<Rightarrow> (bool \<times> 'd us_state) option" where
  "us_push t r = (\<lambda>(env, mem, st).
     map_option (\<lambda>(ret, st'). (ret = 0, (env, mem, st'))) (fs_push_type env t st (Some r)))"

definition us_commit :: "nat \<Rightarrow> 'd us_state \<Rightarrow> 'd us_state" where
  "us_commit t = (\<lambda>(env, mem, st). (env, mem, snd (my_flash_store_commit env st t)))"

definition us_rewind :: "nat \<Rightarrow> 'd us_state \<Rightarrow> 'd us_state" where
  "us_rewind t = (\<lambda>(env, mem, st). (env, mem, my_flash_store_rewind st t))"

lemma store_region_geom:
  assumes "store_wf st" "t < FS_TYPE_MAX"
  shows "fs_geom (s_region st ! t) = fs_geom (fs_initial_regions ! t)"
proof -
  have len: "length (s_region st) = length fs_initial_regions" "map fs_geom (s_region st) = map fs_geom fs_initial_regions"
    using assms(1) by (auto simp: store_wf_def dest: map_eq_imp_length_eq)
  moreover have "t < length fs_initial_regions" using assms(2) by (simp add: fs_initial_regions_def)
  ultimately show ?thesis by (metis nth_map)
qed

lemma store_length: "store_wf st \<Longrightarrow> length (s_region st) = FS_TYPE_MAX"
  by (auto simp: store_wf_def fs_initial_regions_def dest: map_eq_imp_length_eq)

lemma type_cases:
  fixes t :: nat
  assumes "t < FS_TYPE_MAX" obtains "t = 0" | "t = 1" | "t = 2" | "t = 3"
  using assms by linarith

lemma store_layout:
  assumes "store_wf st" "t < FS_TYPE_MAX"
  shows "fs_data_len t = Some n \<Longrightarrow> n < rec_size (s_region st ! t)"
    and "u < FS_TYPE_MAX \<Longrightarrow> u \<noteq> t \<Longrightarrow> fs_disjoint (s_region st ! t) (s_region st ! u)"
    and "\<exists>n. fs_data_len t = Some n"
  using store_region_geom [OF assms] store_region_geom [OF assms(1), of u] assms(2)
  by (auto elim!: type_cases simp: fs_geom_def fs_initial_regions_def fs_region_consts_def fs_data_len_def fs_disjoint_def)

lemma store_put_nth [simp]:
  "t < length (s_region st) \<Longrightarrow> s_region (store_put st t rg d) ! i = (if i = t then rg else s_region st ! i)"
  "dev (store_put st t rg d) = d" "s_inited (store_put st t rg d) = s_inited st"
  by (auto simp: store_put_def nth_list_update)

lemma store_wf_put:
  assumes "store_wf st" "t < FS_TYPE_MAX" "fs_wf rg" "fs_geom rg = fs_geom (s_region st ! t)"
  shows "store_wf (store_put st t rg d)"
proof -
  have "map fs_geom (s_region (store_put st t rg d)) = map fs_geom (s_region st)"
    using assms(2,4) store_length [OF assms(1)] by (intro nth_equalityI) (auto simp: store_put_def nth_list_update)
  then show ?thesis using assms(1-3) store_length [OF assms(1)] by (auto simp: store_wf_def)
qed

lemma us_readyD:
  assumes "us_ready t (env, mem, st)"
  shows "t < FS_TYPE_MAX" "store_env_ok env mem" "store_wf st" "store_safe st" "store_marked mem st t"
    "s_inited st" "fs_get_region st t = Some (s_region st ! t)" "fs_wf (s_region st ! t)" "t < length (s_region st)"
    "flash_ok env mem" "zms_ok env mem" "flash_reads_ok env d" "fs_data_len t = Some (the (fs_data_len t))"
  using assms store_length [of st] store_layout(3) [of st t]
  by (auto simp: us_ready_def store_wf_def fs_get_region_def store_env_ok_def)

lemma length_fs_records: "length (fs_records m rg n) = length (fs_pending m rg)"
  by (simp add: fs_records_def)

lemma us_active_bound: "us_active t s \<Longrightarrow> us_limit t s \<le> length (us_pending t s)"
proof (cases s)
  case (fields env mem st)
  assume "us_active t s"
  then have wf: "fs_wf (s_region st ! t)" using us_readyD(8) fields by (auto simp: us_active_def)
  then show ?thesis
    by (simp add: fields us_limit_def us_pending_def fs_limit_def store_records_def fs_records_def length_fs_pending [OF wf])
      (simp add: fs_wf_def)
qed

lemma us_begin_law:
  assumes r: "us_ready t s"
  shows "us_active t (us_begin t s) \<and> us_pending t (us_begin t s) = us_pending t s \<and>
     us_position t (us_begin t s) = 0 \<and> us_limit t (us_begin t s) = length (us_pending t s)"
proof (cases s)
  case (fields env mem st)
  note r' = us_readyD [OF r [unfolded fields]]
  let ?rg = "s_region st ! t" and ?st = "store_put st t (fs_region_upload_begin (s_region st ! t)) (dev st)"
  have b: "us_begin t s = (env, mem, ?st)"
    using r' by (simp add: fields us_begin_def my_flash_store_upload_begin_def fs_store_update_def)
  have "fs_geom (fs_region_upload_begin ?rg) = fs_geom ?rg" by (simp add: fs_geom_def fs_region_upload_begin_def)
  then have "store_wf ?st" using r' fs_session_wf(1) by (intro store_wf_put) auto
  moreover have "store_safe ?st" using r'(4,9)
    by (auto simp: store_safe_def region_safe_def fs_region_upload_begin_def)
  moreover have "store_marked mem ?st t" using r'(5,9) by (simp add: store_marked_def fs_marked_def fs_session_records)
  moreover have "fs_limit (fs_region_upload_begin ?rg) = length (fs_pending (mem (dev st)) ?rg)"
    by (simp add: fs_limit_def length_fs_pending [OF r'(8)] fs_region_upload_begin_def)
  ultimately show ?thesis using r'(1,2,9) unfolding b
    by (simp add: fields us_active_def us_ready_def us_pending_def us_position_def us_limit_def store_records_def
        fs_session_records fs_position_def length_fs_records) (simp add: fs_region_upload_begin_def)
qed

lemma us_next_law:
  assumes a: "us_active t s" and n: "us_next t s = (rd, s')"
  shows "us_active t s' \<and> us_pending t s' = us_pending t s \<and> us_limit t s' = us_limit t s \<and>
     (if us_position t s < us_limit t s
      then rd = Some (us_pending t s ! us_position t s) \<and> us_position t s' = Suc (us_position t s)
      else rd = None \<and> us_position t s' = us_position t s)"
proof (cases s)
  case (fields env mem st)
  have r: "us_ready t (env, mem, st)" and act: "upload_active (s_region st ! t)" using a by (simp_all add: fields us_active_def)
  note r' = us_readyD [OF r]
  obtain n where len: "fs_data_len t = Some n" using r'(13) by blast
  let ?rg = "s_region st ! t" and ?n = n and ?m = "mem (dev st)"
  have mk: "fs_marked ?m ?rg" using r'(5) by (simp add: store_marked_def)
  obtain rg' where nx: "if fs_position ?rg < fs_limit ?rg
      then fs_region_read_next env (dev st) ?rg ?n = (1, fs_records ?m ?rg ?n ! fs_position ?rg, rg') \<and>
           fs_position rg' = fs_position ?rg + 1
      else fs_region_read_next env (dev st) ?rg ?n = (0, [], rg') \<and> rg' = ?rg"
    "fs_wf rg'" "upload_active rg'" "fs_limit rg' = fs_limit ?rg" "fs_records ?m rg' = fs_records ?m ?rg"
    "fs_pending ?m rg' = fs_pending ?m ?rg" "fs_geom rg' = fs_geom ?rg"
    using fs_read_next_spec [OF r'(8) act mk r'(10,12), of ?n ?m] by blast
  let ?st = "store_put st t rg' (dev st)"
  have s': "s' = (env, mem, ?st)" "rd = (if fs_position ?rg < fs_limit ?rg then Some (fs_records ?m ?rg ?n ! fs_position ?rg) else None)"
    using n nx(1) r'(6,7) len by (auto simp: fields us_next_def my_flash_store_read_next_def split: if_splits)
  have "store_wf ?st" using r' nx(2,7) by (intro store_wf_put) auto
  moreover have "store_safe ?st" using r'(4,9) nx(3) by (auto simp: store_safe_def region_safe_def)
  moreover have "store_marked mem ?st t" using mk r'(9) nx(6) by (simp add: store_marked_def fs_marked_def)
  ultimately show ?thesis using r'(1,2,9) len nx(1,3-5) unfolding s'
    by (auto simp: fields us_active_def us_ready_def us_pending_def us_position_def us_limit_def store_records_def split: if_splits)
qed

lemma us_end_laws:
  assumes a: "us_active t s"
  shows "us_pending t (us_commit t s) = drop (us_position t s) (us_pending t s)"
    and "us_pending t (us_rewind t s) = us_pending t s"
proof -
  obtain env mem st where s: "s = (env, mem, st)" using prod_cases3 by blast
  have r: "us_ready t (env, mem, st)" using a by (simp add: s us_active_def)
  note r' = us_readyD [OF r]
  have "mem (snd (fs_meta_save env rg (dev st))) = mem (dev st)" for rg
    using fs_meta_save_mem [OF r'(11)] by (metis prod.collapse)
  then show "us_pending t (us_commit t s) = drop (us_position t s) (us_pending t s)"
    using r' by (simp add: s us_commit_def us_pending_def us_position_def my_flash_store_commit_def Let_def
        case_prod_beta store_records_def fs_commit_records)
  show "us_pending t (us_rewind t s) = us_pending t s"
    using r' by (simp add: s us_rewind_def us_pending_def my_flash_store_rewind_def fs_store_update_def
        store_records_def fs_session_records)
qed

text \<open>A push of any type: the region of the session gains the record or stays as it is.\<close>

lemma us_push_own:
  assumes a: "us_active t (env, mem, st)" and f: "us_fits t r"
  shows "\<exists>ok rg'. us_push t r (env, mem, st) = Some (ok, (env, mem, store_put st t rg' (dev st))) \<and>
     fs_wf rg' \<and> upload_active rg' \<and> fs_geom rg' = fs_geom (s_region st ! t) \<and> fs_marked (mem (dev st)) rg' \<and>
     fs_position rg' = fs_position (s_region st ! t) \<and> fs_limit rg' = fs_limit (s_region st ! t) \<and>
     fs_records (mem (dev st)) rg' (length r) = fs_records (mem (dev st)) (s_region st ! t) (length r) @ (if ok then [r] else [])"
proof -
  let ?rg = "s_region st ! t" and ?m = "mem (dev st)"
  have r: "us_ready t (env, mem, st)" and act: "upload_active ?rg" using a by (simp_all add: us_active_def)
  note r' = us_readyD [OF r]
  have len: "length r < rec_size ?rg" using store_layout(1) [OF r'(3,1)] f by (simp add: us_fits_def)
  have mk: "fs_marked ?m ?rg" using r'(5) by (simp add: store_marked_def)
  show ?thesis
  proof (cases "staging_count ?rg < rec_per_sector ?rg")
    case True
    obtain rg' where p: "fs_region_push env ?rg r (dev st) = Some (0, rg', dev st)" "fs_wf rg'"
      "fs_records ?m rg' (length r) = fs_records ?m ?rg (length r) @ [r]" "fs_marked ?m rg'" "fs_session rg' = fs_session ?rg"
      using fs_push_stage [OF r'(8) len True, where m = ?m and env = env and d = "dev st"] act mk by blast
    have "region_safe ?rg" using act by (simp add: region_safe_def)
    then have "upload_active rg'" "fs_geom rg' = fs_geom ?rg" using fs_push_fields [OF p(1)] act by simp_all
    then show ?thesis using p r'(6)
      by (intro exI [of _ True] exI [of _ rg']) (simp add: us_push_def fs_push_type_def fs_session_def fs_position_def fs_limit_def)
  next
    case False
    then show ?thesis using act r' mk
      by (intro exI [of _ False] exI [of _ ?rg]) (simp add: us_push_def fs_push_type_def fs_region_push_def)
  qed
qed

lemma us_push_other:
  assumes a: "us_active t (env, mem, st)" and f: "us_fits u r" and ne: "u \<noteq> t"
  shows "\<exists>ok rg' d'. us_push u r (env, mem, st) = Some (ok, (env, mem, store_put st u rg' d')) \<and> u < FS_TYPE_MAX \<and>
     fs_wf rg' \<and> region_safe rg' \<and> fs_geom rg' = fs_geom (s_region st ! u) \<and>
     fs_pending (mem d') (s_region st ! t) = fs_pending (mem (dev st)) (s_region st ! t)"
proof -
  let ?rg = "s_region st ! u"
  have r: "us_ready t (env, mem, st)" using a by (simp add: us_active_def)
  note r' = us_readyD [OF r]
  have u: "u < FS_TYPE_MAX" using f by (auto simp: us_fits_def fs_data_len_def split: if_splits)
  have len: "length r < rec_size ?rg" using store_layout(1) [OF r'(3) u] f by (simp add: us_fits_def)
  have wf: "fs_wf ?rg" and safe: "region_safe ?rg" using r'(3,4) u by (simp_all add: store_wf_def store_safe_def)
  obtain ret rg' d' where p: "fs_region_push env ?rg r (dev st) = Some (ret, rg', d')" "fs_wf rg'"
    using fs_push_total [OF wf len safe r'(10,11)] by blast
  have "fs_pending (mem d') (s_region st ! t) = fs_pending (mem (dev st)) (s_region st ! t)"
    using fs_push_frame [OF wf r'(8) r'(10,11) store_layout(2) [OF r'(3) u r'(1)] len _ p(1)] ne safe
    by (auto simp: region_safe_def)
  then show ?thesis using p r'(6) u fs_push_fields [OF p(1) safe]
    by (intro exI [of _ "ret = 0"] exI [of _ rg'] exI [of _ d']) (simp add: us_push_def fs_push_type_def)
qed

lemma us_push_law:
  assumes a: "us_active t s" and f: "us_fits u r"
  shows "\<exists>ok s'. us_push u r s = Some (ok, s') \<and> us_active t s' \<and> us_position t s' = us_position t s \<and>
     us_limit t s' = us_limit t s \<and> us_pending t s' = us_pending t s @ (if u = t \<and> ok then [r] else [])"
proof -
  obtain env mem st where s: "s = (env, mem, st)" using prod_cases3 by blast
  have r: "us_ready t (env, mem, st)" and act: "upload_active (s_region st ! t)" using a by (simp_all add: s us_active_def)
  note r' = us_readyD [OF r]
  show ?thesis
  proof (cases "u = t")
    case True
    obtain ok rg' where p: "us_push t r (env, mem, st) = Some (ok, (env, mem, store_put st t rg' (dev st)))"
       "fs_wf rg'" "upload_active rg'" "fs_geom rg' = fs_geom (s_region st ! t)" "fs_marked (mem (dev st)) rg'"
       "fs_position rg' = fs_position (s_region st ! t)" "fs_limit rg' = fs_limit (s_region st ! t)"
       "fs_records (mem (dev st)) rg' (length r) = fs_records (mem (dev st)) (s_region st ! t) (length r) @ (if ok then [r] else [])"
      using us_push_own [OF a [unfolded s]] f True by blast
    have "store_wf (store_put st t rg' (dev st))" using r' p(2,4) by (intro store_wf_put) auto
    moreover have "store_safe (store_put st t rg' (dev st))" using r'(4,9) p(3) by (auto simp: store_safe_def region_safe_def)
    ultimately show ?thesis using r'(1,2,9) p f True
      by (auto simp: s us_active_def us_ready_def us_pending_def us_position_def us_limit_def us_fits_def
          store_records_def store_marked_def)
  next
    case False
    obtain ok rg' d' where p: "us_push u r (env, mem, st) = Some (ok, (env, mem, store_put st u rg' d'))"
      "u < FS_TYPE_MAX" "fs_wf rg'" "region_safe rg'" "fs_geom rg' = fs_geom (s_region st ! u)"
      "fs_pending (mem d') (s_region st ! t) = fs_pending (mem (dev st)) (s_region st ! t)"
      using us_push_other [OF a [unfolded s] f False] by blast
    have u: "u < length (s_region st)" using p(2) store_length [OF r'(3)] by simp
    have "store_wf (store_put st u rg' d')" using r' p(2,3,5) by (intro store_wf_put) auto
    moreover have "store_safe (store_put st u rg' d')" using r'(4) u p(4) by (auto simp: store_safe_def)
    moreover have "store_marked mem (store_put st u rg' d') t" using r'(5) u False p(6)
      by (auto simp: store_marked_def fs_marked_def)
    moreover have "s_region (store_put st u rg' d') ! t = s_region st ! t" using u False by simp
    ultimately show ?thesis using r'(1,2) p(1,6) act False
      by (auto simp: s us_active_def us_ready_def us_pending_def us_position_def us_limit_def
          store_records_def fs_records_def)
  qed
qed

interpretation store: upload_source us_ready us_active us_pending us_position us_limit us_fits
  us_begin us_next us_push us_commit us_rewind
  by unfold_locales (use us_begin_law us_active_bound us_next_law us_push_law us_end_laws in blast)+

section \<open>A store on a healthy device\<close>

text \<open>
  Contents of the flash and of the key-value storage; every operation succeeds. The
  checksum is a stand-in for the RTOS's.
\<close>

type_synonym ram_dev = "(nat \<Rightarrow> u8) \<times> (u32 \<Rightarrow> bytes option)"

definition ram_store :: "ram_dev store_env" where
  "ram_store =
     \<lparr>fl_erase = (\<lambda>(f, z) a n. (0, (\<lambda>x. if a \<le> x \<and> x < a + n then 0xFF else f x, z))),
      fl_write = (\<lambda>(f, z) a bs. (0, (\<lambda>x. if a \<le> x \<and> x < a + length bs then bs ! (x - a) else f x, z))),
      fl_read = (\<lambda>(f, z) a n. (0, map f [a..<a + n])),
      fa_open = (\<lambda>_. 0), fa_ready = (\<lambda>_. True),
      zms_write = (\<lambda>(f, z) k b. (int (length b), (f, z(k \<mapsto> b)))),
      zms_read = (\<lambda>(f, z) k n. case z k of None \<Rightarrow> (-EIO, []) | Some b \<Rightarrow> (int (length (take n b)), take n b)),
      crc32_ieee = (\<lambda>b. sum_list (map ucast b))\<rparr>"

definition ram_blank :: "ram_dev fs_store" where
  "ram_blank = \<lparr>s_inited = False, s_region = [], dev = (\<lambda>_. 0xFF, \<lambda>_. None)\<rparr>"

definition ram_start :: "ram_dev fs_store" where
  "ram_start = \<lparr>s_inited = True, s_region = fs_initial_regions, dev = (\<lambda>_. 0xFF, \<lambda>_. None)\<rparr>"

lemma ram_store_ok: "store_env_ok ram_store fst"
  by (auto simp: store_env_ok_def flash_ok_def zms_ok_def flash_reads_ok_def ram_store_def)

lemma fs_initial_regions_wf: "rg \<in> set fs_initial_regions \<Longrightarrow> fs_wf rg \<and> region_safe rg \<and> fs_pending m rg = []"
  by (auto simp: fs_initial_regions_def fs_region_consts_def fs_wf_def fs_geometry_def fs_flash_total_def region_safe_def
      fs_pending_def fs_flash_part_def fs_staged_def)

lemma ram_start_ready: "t < FS_TYPE_MAX \<Longrightarrow> us_ready t (ram_store, fst, ram_start)"
proof -
  assume t: "t < FS_TYPE_MAX"
  have "fs_initial_regions ! i \<in> set fs_initial_regions" if "i < FS_TYPE_MAX" for i
    using that by (intro nth_mem) (simp add: fs_initial_regions_def)
  then show ?thesis using t fs_initial_regions_wf
    by (simp add: us_ready_def store_wf_def store_safe_def store_marked_def fs_marked_def ram_start_def ram_store_ok)
qed

section \<open>Properties of the record store\<close>

text \<open>
  C1: an upload session neither loses nor duplicates a record. Whatever records of whatever
  types are stored while the session on type \<open>t\<close> is open, the records fetched are the
  oldest pending ones in order; after the commit, the fetched records followed by the
  pending ones are the records pending at the start followed by those accepted meanwhile;
  after a rewind all of them are still pending. No step accesses memory out of bounds.
\<close>

theorem upload_session_exactly_once:
  assumes "us_ready t (env, mem, st)" "\<forall>j r. Some (j, r) \<in> set es \<longrightarrow> us_fits j r"
  shows "\<exists>out acc s'. session_run us_next us_push t es (us_begin t (env, mem, st)) = Some (out, acc, s') \<and>
     out = take (fetches es) (store_records mem st t) \<and>
     store_records mem st t @ acc = out @ us_pending t (us_commit t s') \<and>
     us_pending t (us_rewind t s') = store_records mem st t @ acc"
  using store.session_spec [OF assms] by (simp add: us_pending_def)

theorem upload_session_exactly_once_witness:
  "\<exists>out acc s'. session_run us_next us_push 2 [Some (2, replicate 8 7), None, Some (0, replicate 92 1)]
       (us_begin 2 (ram_store, fst, ram_start)) = Some (out, acc, s') \<and>
     store_records fst ram_start 2 @ acc = out @ us_pending 2 (us_commit 2 s')"
  using upload_session_exactly_once [OF ram_start_ready,
      where es = "[Some (2, replicate 8 7), None, Some (0, replicate 92 1)]" and t = 2]
  by (auto simp: us_fits_def fs_data_len_def)

text \<open>
  Storing a record, on every branch. In a well-formed store a push of type \<open>t\<close>
  returns, leaves the store well-formed and the records of every other type unchanged.
  During a session with a full staging buffer it answers \<open>-EBUSY\<close> and changes nothing.
  With room in the staging buffer the record becomes the newest pending one. When it fills
  the buffer, the sector is written: the record becomes the newest one, and if the ring was
  full the unread rest of the oldest sector is dropped; or the write fails, and if
  the ring was not full the pending records are unchanged.
\<close>

lemma fs_push_type_spec:
  assumes env: "store_env_ok env mem" and wf: "store_wf st" "store_safe st" and f: "us_fits t data"
  defines "rg \<equiv> s_region st ! t"
  shows "\<exists>ret st'. fs_push_type env t st (Some data) = Some (ret, st') \<and> store_wf st' \<and> store_safe st' \<and>
     (\<forall>u < FS_TYPE_MAX. u \<noteq> t \<longrightarrow> store_records mem st' u = store_records mem st u) \<and>
     (if upload_active rg \<and> staging_count rg = rec_per_sector rg
      then ret = -EBUSY \<and> store_records mem st' t = store_records mem st t
      else if upload_active rg \<or> staging_count rg + 1 < rec_per_sector rg
      then ret = 0 \<and> store_records mem st' t = store_records mem st t @ [data]
      else (ret = 0 \<or> ret = -EIO) \<and> store_records mem st' t =
             (if valid_sectors rg < region_sectors rg then store_records mem st t
              else drop (rec_per_sector rg - rd_rec_idx rg) (store_records mem st t)) @ [data] \<or>
           ret \<noteq> 0 \<and> (valid_sectors rg < region_sectors rg \<longrightarrow> store_records mem st' t = store_records mem st t))"
proof -
  have t: "t < FS_TYPE_MAX" using f by (auto simp: us_fits_def fs_data_len_def split: if_splits)
  have tl: "t < length (s_region st)" using store_length [OF wf(1)] t by simp
  have len: "length data < rec_size rg" using store_layout(1) [OF wf(1) t] f by (simp add: us_fits_def rg_def)
  have wfr: "fs_wf rg" and safe: "region_safe rg" and le: "staging_count rg \<le> rec_per_sector rg"
    using wf t by (auto simp: store_wf_def store_safe_def rg_def fs_wf_def)
  have ok: "flash_ok env mem" "zms_ok env mem" using env by (simp_all add: store_env_ok_def)
  have recs: "store_records mem (store_put st t rg' d') t = fs_records (mem d') rg' (length data)"
    "store_records mem st t = fs_records (mem (dev st)) rg (length data)" for rg' d'
    using f tl by (simp_all add: store_records_def us_fits_def rg_def)
  obtain ret rg' d' where p: "fs_region_push env rg data (dev st) = Some (ret, rg', d')" "fs_wf rg'"
    using fs_push_total [OF wfr len safe ok] by blast
  note fl = fs_push_fields [OF p(1) safe]
  have push: "fs_push_type env t st (Some data) = Some (ret, store_put st t rg' d')"
    using p(1) wf(1) by (simp add: fs_push_type_def rg_def store_wf_def)
  have wf': "store_wf (store_put st t rg' d')" using wf(1) t p(2) fl(2) by (intro store_wf_put) (auto simp: rg_def)
  have safe': "store_safe (store_put st t rg' d')" using wf(2) tl fl(1) by (auto simp: store_safe_def)
  have other: "store_records mem (store_put st t rg' d') u = store_records mem st u" if "u < FS_TYPE_MAX" "u \<noteq> t" for u
    using fs_push_frame [OF wfr _ ok _ len _ p(1), of "s_region st ! u"] wf(1) that t tl safe store_layout(2) [OF wf(1) t that]
    by (simp add: store_records_def fs_records_def store_wf_def rg_def region_safe_def)
  consider (busy) "upload_active rg" "staging_count rg = rec_per_sector rg"
    | (stage) "staging_count rg < rec_per_sector rg" "upload_active rg \<or> staging_count rg + 1 < rec_per_sector rg"
    | (flush) "\<not> upload_active rg" "staging_count rg + 1 = rec_per_sector rg"
    using safe le unfolding region_safe_def by linarith
  then show ?thesis
  proof cases
    case busy
    then have "ret = -EBUSY" "rg' = rg" "d' = dev st" using p(1) by (simp_all add: fs_region_push_def)
    then show ?thesis using push wf' safe' other busy by (simp add: recs)
  next
    case stage
    then show ?thesis using push wf' safe' other p(1)
        fs_push_stage [OF wfr len stage, where env = env and d = "dev st" and m = "mem (dev st)"] by (auto simp: recs)
  next
    case flush
    show ?thesis
    proof (rule fs_push_flush [OF wfr len flush ok, of "dev st"])
    qed (use push wf' safe' other p(1) flush in \<open>auto simp: recs\<close>)
  qed
qed

lemma pending_count_length:
  assumes "store_wf st" "t < FS_TYPE_MAX"
  shows "my_flash_store_pending_count st t = length (store_records mem st t)"
proof -
  have wf: "fs_wf (s_region st ! t)" "s_inited st" using assms by (auto simp: store_wf_def)
  then show ?thesis using assms(2)
    by (simp add: my_flash_store_pending_count_def fs_get_region_def store_records_def length_fs_records length_fs_pending)
qed

text \<open>
  The number the module announces as pending is the number of records a client can
  fetch, for every data type of a well-formed store.
\<close>

lemma pending_count_correct:
  assumes "store_wf st" "t < FS_TYPE_MAX"
  shows "my_flash_store_pending_count st t = length (store_records mem st t)"
  using assms by (rule pending_count_length)

text \<open>Pushes in a session fill the staging buffer one slot at a time.\<close>

lemma session_fill:
  assumes "us_active t s" "us_fits t r" "snd (snd s) = st" "staging_count (s_region st ! t) + n \<le> rec_per_sector (s_region st ! t)"
  shows "\<exists>st'. session_run us_next us_push t (replicate n (Some (t, r))) s = Some ([], replicate n r, (fst s, fst (snd s), st')) \<and>
     us_active t (fst s, fst (snd s), st') \<and>
     staging_count (s_region st' ! t) = staging_count (s_region st ! t) + n \<and>
     rec_per_sector (s_region st' ! t) = rec_per_sector (s_region st ! t)"
  using assms
proof (induction n arbitrary: s st)
  case 0
  then show ?case by (cases s) simp
next
  case (Suc n)
  obtain env mem where s: "s = (env, mem, st)" using Suc.prems(3) by (cases s) auto
  let ?rg = "s_region st ! t"
  note r' = us_readyD [OF conjunct1 [OF Suc.prems(1) [unfolded us_active_def s]]]
  have act: "upload_active ?rg" using Suc.prems(1) by (simp add: s us_active_def)
  have len: "length r < rec_size ?rg" using store_layout(1) [OF r'(3,1)] Suc.prems(2) by (simp add: us_fits_def)
  have room: "staging_count ?rg < rec_per_sector ?rg" using Suc.prems(4) by simp
  obtain sl buf where b: "fs_make_slot ?rg r = Some sl"
    "mem_write (staging_buf ?rg) (staging_count ?rg * rec_size ?rg) sl = Some buf"
    using fs_stage_spec [OF r'(8) len room] by blast
  let ?st = "store_put st t (fs_stage ?rg buf) (dev st)"
  have p: "us_push t r s = Some (True, (env, mem, ?st))"
    using b act room r'(6) by (simp add: s us_push_def fs_push_type_def fs_region_push_def fs_stage_def)
  then have "us_active t (env, mem, ?st)" using us_push_law [OF Suc.prems(1,2)] by auto
  moreover have "staging_count (s_region ?st ! t) = staging_count ?rg + 1" "rec_per_sector (s_region ?st ! t) = rec_per_sector ?rg"
    using r'(9) by (simp_all add: fs_stage_def)
  ultimately show ?case using Suc.IH [of "(env, mem, ?st)" ?st] Suc.prems(2,4) p by (auto simp: s)
qed

text \<open>
  C20: the staging buffer can be overrun. From every state in which the store may be
  used, open a session on any type, store records until the staging buffer is full and
  abandon the session: the next push writes past the end of the staging buffer. (The guard
  for a full buffer is only taken while a session is active, and the flush only when the
  counter reaches the limit, so the full buffer left behind is never written out.)
\<close>

theorem staging_overflow_after_rewind:
  assumes "us_ready t (env, mem, st)" "us_fits t r"
  defines "n \<equiv> rec_per_sector (s_region st ! t) - staging_count (s_region st ! t)"
  shows "\<exists>s'. session_run us_next us_push t (replicate n (Some (t, r))) (us_begin t (env, mem, st)) = Some ([], replicate n r, s') \<and>
     us_push t r (us_rewind t s') = None"
proof -
  note r' = us_readyD [OF assms(1)]
  let ?st = "store_put st t (fs_region_upload_begin (s_region st ! t)) (dev st)"
  have b: "us_begin t (env, mem, st) = (env, mem, ?st)"
    using r' by (simp add: us_begin_def my_flash_store_upload_begin_def fs_store_update_def)
  have le: "staging_count (s_region st ! t) \<le> rec_per_sector (s_region st ! t)" using r'(8) by (simp add: fs_wf_def)
  obtain st' where run: "session_run us_next us_push t (replicate n (Some (t, r))) (env, mem, ?st) = Some ([], replicate n r, (env, mem, st'))"
    "us_active t (env, mem, st')" "staging_count (s_region st' ! t) = rec_per_sector (s_region st' ! t)"
    using session_fill [of t "(env, mem, ?st)" r ?st n] us_begin_law [OF assms(1)] assms(2) le r'(9)
    by (auto simp: b n_def fs_region_upload_begin_def)
  note r2 = us_readyD [OF conjunct1 [OF run(2) [unfolded us_active_def]]]
  let ?rg = "fs_region_rewind (s_region st' ! t)"
  have rw: "us_rewind t (env, mem, st') = (env, mem, store_put st' t ?rg (dev st'))"
    using r2 by (simp add: us_rewind_def my_flash_store_rewind_def fs_store_update_def)
  have len: "length r < rec_size (s_region st' ! t)" using store_layout(1) [OF r2(3,1)] assms(2) by (simp add: us_fits_def)
  obtain sl where sl: "fs_make_slot ?rg r = Some sl" "length sl = rec_size ?rg"
    using fs_make_slot_spec [of r ?rg] len by (auto simp: fs_region_rewind_def)
  have full: "staging_count ?rg = rec_per_sector ?rg" "length (staging_buf ?rg) = rec_per_sector ?rg * rec_size ?rg"
    "0 < rec_size ?rg" "\<not> upload_active ?rg"
    using r2(8) run(3) by (simp_all add: fs_wf_def fs_geometry_def fs_region_rewind_def)
  have "mem_write (staging_buf ?rg) (staging_count ?rg * rec_size ?rg) sl = None"
    using full sl(2) by (simp add: mem_write_def)
  then have "fs_region_push env ?rg r (dev st') = None" using sl(1) full(4) by (simp add: fs_region_push_def)
  then have "us_push t r (us_rewind t (env, mem, st')) = None"
    unfolding rw using r2(6,9) by (simp add: us_push_def fs_push_type_def)
  then show ?thesis using run(1) b by auto
qed

theorem staging_overflow_after_rewind_witness:
  "\<exists>s'. session_run us_next us_push 0 (replicate 42 (Some (0, replicate 92 1))) (us_begin 0 (ram_store, fst, ram_start)) =
        Some ([], replicate 42 (replicate 92 1), s') \<and> us_push 0 (replicate 92 1) (us_rewind 0 s') = None"
  using staging_overflow_after_rewind [OF ram_start_ready [of 0], of "replicate 92 1"]
  by (simp add: us_fits_def fs_data_len_def ram_start_def fs_initial_regions_def fs_region_consts_def)

section \<open>Metadata and restart\<close>

text \<open>The key-value storage returns what was stored last under a key.\<close>

definition zms_rw_ok :: "'d store_env \<Rightarrow> bool" where
  "zms_rw_ok env \<longleftrightarrow> (\<forall>d k b d'. zms_write env d k b = (int (length b), d') \<longrightarrow>
     zms_read env d' k (length b) = (int (length b), b))"

lemma length_fs_meta_encode: "length (fs_meta_encode env m) = FS_META_SIZE"
  by (simp add: fs_meta_encode_def fs_meta_fields_def)

lemma fs_meta_decode_encode: "fs_meta_decode (fs_meta_encode env m) = (m, fs_meta_calc_crc env m)"
proof -
  have "fs_meta_encode env m = le32 (meta_magic m) @ le16 (meta_wr m) @ le16 (meta_rd m) @
     le16 (meta_valid m) @ le16 (meta_rec_idx m) @ le32 (meta_seq m) @ le32 (fs_meta_calc_crc env m)"
    by (simp add: fs_meta_encode_def fs_meta_fields_def)
  then show ?thesis by (simp only:) (simp add: fs_meta_decode_def le16_def le32_def)
qed

lemma region_u16:
  assumes "fs_wf rg"
  shows "wr_sector rg < 65536" "rd_sector rg < 65536" "valid_sectors rg < 65536" "rd_rec_idx rg < 65536"
proof -
  have g: "region_sectors rg \<le> FS_TOTAL_SECTORS" "FS_SECTOR_HEADER_SIZE + rec_per_sector rg * rec_size rg \<le> FS_SECTOR_SIZE" "0 < rec_size rg"
    "wr_sector rg < region_sectors rg" "rd_sector rg < region_sectors rg" "valid_sectors rg \<le> region_sectors rg"
    "rd_rec_idx rg < rec_per_sector rg"
    using assms by (auto simp: fs_wf_def fs_geometry_def)
  moreover have "rec_per_sector rg * 1 \<le> rec_per_sector rg * rec_size rg" using g(3) by (intro mult_le_mono2) simp
  ultimately show "wr_sector rg < 65536" "rd_sector rg < 65536" "valid_sectors rg < 65536" "rd_rec_idx rg < 65536"
    by linarith+
qed

lemma fs_region_load_saved:
  assumes rw: "zms_rw_ok env" and wf: "fs_wf rg" and sv: "fs_meta_save env rg d = (0, d')"
    and g: "fs_geom rg0 = fs_geom rg"
  shows "fs_region_load env d' rg0 = rg0\<lparr>wr_sector := wr_sector rg, rd_sector := rd_sector rg,
     valid_sectors := valid_sectors rg, rd_rec_idx := rd_rec_idx rg, seq_counter := seq_counter rg, staging_count := 0\<rparr>"
proof -
  let ?m = "region_meta rg" and ?b = "fs_meta_encode env (region_meta rg)"
  have ne: "?b \<noteq> []" by (simp add: fs_meta_encode_def fs_meta_fields_def le32_def)
  have "zms_write env d (zms_id rg) ?b = (int (length ?b), d')"
    using sv ne by (auto simp: fs_meta_save_def my_user_data_write_def length_fs_meta_encode case_prod_beta prod_eq_iff split: if_splits)
  then have "zms_read env d' (zms_id rg) FS_META_SIZE = (int FS_META_SIZE, ?b)"
    using rw unfolding zms_rw_ok_def by (metis length_fs_meta_encode)
  then have rd: "my_user_data_read env d' (zms_id rg0) FS_META_SIZE = (int FS_META_SIZE, ?b)"
    using g by (simp add: my_user_data_read_def fs_geom_def)
  have w: "unat (meta_wr ?m) = wr_sector rg" "unat (meta_rd ?m) = rd_sector rg"
    "unat (meta_valid ?m) = valid_sectors rg" "unat (meta_rec_idx ?m) = rd_rec_idx rg" "meta_seq ?m = seq_counter rg"
    "meta_magic ?m = FS_META_MAGIC"
    using region_u16 [OF wf] by (simp_all add: region_meta_def unat_of_nat)
  have "wr_sector rg < region_sectors rg0" "rd_sector rg < region_sectors rg0" "valid_sectors rg \<le> region_sectors rg0"
    "rd_rec_idx rg \<le> rec_per_sector rg0"
    using wf g by (auto simp: fs_wf_def fs_geom_def fs_geometry_def)
  then show ?thesis by (simp add: fs_region_load_def rd fs_meta_decode_encode w)
qed

text \<open>
  C21: what survives a restart. If the metadata of a well-formed region was saved, loading
  it into the freshly initialised region gives a well-formed region whose pending records
  are exactly the records that were in flash: only the staged ones are lost.
\<close>

theorem fs_reload_records:
  assumes "zms_rw_ok env" "fs_wf rg" "fs_meta_save env rg d = (0, d')"
    and "rg0 \<in> set fs_initial_regions" "fs_geom rg0 = fs_geom rg"
  shows "fs_wf (fs_region_load env d' rg0) \<and>
     fs_records m (fs_region_load env d' rg0) n = take (fs_flash_total rg) (fs_records m rg n)"
proof -
  let ?rg = "fs_region_load env d' rg0"
  note eq = fs_region_load_saved [OF assms(1-3,5)]
  have z: "read_offset rg0 = 0" "staging_read_idx rg0 = 0" "upload_staging_snap rg0 = 0" "\<not> upload_active rg0" "fs_geometry rg0"
    using assms(4) fs_initial_regions_wf [OF assms(4)] by (auto simp: fs_initial_regions_def fs_region_consts_def fs_wf_def)
  have geo: "sector_base rg0 = sector_base rg" "rec_size rg0 = rec_size rg" "rec_per_sector rg0 = rec_per_sector rg"
    "region_sectors rg0 = region_sectors rg" using assms(5) by (auto simp: fs_geom_def)
  have "fs_geometry ?rg" using z(5) by (simp add: eq fs_geometry_def)
  then have "fs_wf ?rg" using assms(2) z(1-4) by (simp add: fs_wf_def eq geo)
  moreover have "fs_flash_part m ?rg = fs_flash_part m rg" by (rule fs_flash_part_cong) (simp_all add: eq geo)
  moreover have "fs_staged ?rg = []" by (simp add: fs_staged_def eq)
  moreover have "slot_data ?rg = slot_data rg" by (rule slot_data_cong) (simp add: eq geo)
  ultimately show ?thesis using length_fs_flash_part [OF assms(2), of m]
    by (simp add: fs_records_def fs_pending_def take_map)
qed

theorem fs_reload_records_witness:
  "let rg = fs_initial_regions ! 1; d' = snd (fs_meta_save ram_store rg (dev ram_start))
   in fs_wf (fs_region_load ram_store d' rg) \<and>
      fs_records (fst d') (fs_region_load ram_store d' rg) 44 = take (fs_flash_total rg) (fs_records (fst d') rg 44)"
proof -
  let ?rg = "fs_initial_regions ! 1" and ?s = "fs_meta_save ram_store (fs_initial_regions ! 1) (dev ram_start)"
  have rw: "zms_rw_ok ram_store" by (auto simp: zms_rw_ok_def ram_store_def)
  have i: "?rg \<in> set fs_initial_regions" by (simp add: fs_initial_regions_def)
  have "fst ?s = 0"
    by (simp add: fs_meta_save_def my_user_data_write_def ram_store_def ram_start_def fs_meta_encode_def fs_meta_fields_def le32_def le16_def)
  then have "?s = (0, snd ?s)" by (simp add: prod_eq_iff)
  then show ?thesis using fs_reload_records [OF rw _ _ i refl] fs_initial_regions_wf [OF i] by (simp add: Let_def)
qed

text \<open>
  Initialisation on every branch, whatever the storage holds. A second call changes
  nothing; a failing open or device check is reported and leaves the module uninitialised;
  otherwise every region has the layout's geometry, an empty staging buffer, no session, and
  ring pointers within its own sectors, even when the stored metadata is corrupt.
\<close>

lemma my_flash_store_init_spec:
  "case my_flash_store_init env st of (ret, st') \<Rightarrow>
     if s_inited st then ret = 0 \<and> st' = st
     else if fa_open env (dev st) \<noteq> 0 then ret = fa_open env (dev st) \<and> st' = st
     else if \<not> fa_ready env (dev st) then ret = -ENODEV \<and> st' = st
     else ret = 0 \<and> s_inited st' \<and> dev st' = dev st \<and> map fs_geom (s_region st') = map fs_geom fs_initial_regions \<and>
       list_all (\<lambda>rg. wr_sector rg < region_sectors rg \<and> rd_sector rg < region_sectors rg \<and>
         valid_sectors rg \<le> region_sectors rg \<and> rd_rec_idx rg \<le> rec_per_sector rg \<and> staging_count rg = 0 \<and>
         \<not> upload_active rg \<and> fs_sector_offset rg (wr_sector rg) + FS_SECTOR_SIZE \<le> FS_TOTAL_SECTORS * FS_SECTOR_SIZE) (s_region st')"
proof -
  let ?P = "\<lambda>rg. wr_sector rg < region_sectors rg \<and> rd_sector rg < region_sectors rg \<and>
         valid_sectors rg \<le> region_sectors rg \<and> rd_rec_idx rg \<le> rec_per_sector rg \<and> staging_count rg = 0 \<and>
         \<not> upload_active rg \<and> fs_sector_offset rg (wr_sector rg) + FS_SECTOR_SIZE \<le> FS_TOTAL_SECTORS * FS_SECTOR_SIZE"
  have "fs_geom (fs_region_load env d rg) = fs_geom rg" for d rg
    by (simp add: fs_region_load_def fs_region_reset_def fs_geom_def Let_def case_prod_beta)
  then have g: "map fs_geom (map (fs_region_load env d) fs_initial_regions) = map fs_geom fs_initial_regions" for d by simp
  have ld: "?P (fs_region_load env d rg)" if "fs_wf rg" "\<not> upload_active rg" for d rg
  proof -
    let ?l = "fs_region_load env d rg"
    have b: "wr_sector ?l < region_sectors ?l" "rd_sector ?l < region_sectors ?l" "valid_sectors ?l \<le> region_sectors ?l"
      "rd_rec_idx ?l \<le> rec_per_sector ?l" "staging_count ?l = 0" "\<not> upload_active ?l"
      "sector_base ?l + region_sectors ?l \<le> FS_TOTAL_SECTORS"
      using that by (auto simp: fs_region_load_def fs_region_reset_def Let_def case_prod_beta fs_wf_def fs_geometry_def)
    then have "(sector_base ?l + wr_sector ?l + 1) * FS_SECTOR_SIZE \<le> FS_TOTAL_SECTORS * FS_SECTOR_SIZE"
      by (intro mult_le_mono1) linarith
    then show ?thesis using b by (simp add: fs_sector_offset_def)
  qed
  have "\<not> upload_active rg" if "rg \<in> set fs_initial_regions" for rg
    using that by (auto simp: fs_initial_regions_def fs_region_consts_def)
  then have "list_all ?P (map (fs_region_load env d) fs_initial_regions)" for d
    using ld fs_initial_regions_wf unfolding list_all_iff by auto
  then show ?thesis using g by (simp add: my_flash_store_init_def del: list.map)
qed

end
