(* ===== verification/Ota_Flash.thy ===== *)
theory Ota_Flash
  imports Crc Flash_Device
begin

text \<open>
  Model of \<^verbatim>\<open>src/my_ota_flash.c\<close>: the firmware image sink shared by the BLE
  and the LTE update. One session at a time (a compare-and-swap on the busy flag) collects
  the image in a 1024 byte buffer and writes it block by block to the second image slot,
  reading each block back and comparing CRC16 values. The static variables are one record;
  the flash driver is a parameter. The slot is at \<open>0x9c000\<close>, \<open>0x8e000\<close> bytes
  long (\<^verbatim>\<open>pm_static.yml\<close>). Byte counts keep the width they have in the source.
\<close>

section \<open>Constants and state\<close>

abbreviation (input) FLASH_SECTOR_SIZE :: u32 where "FLASH_SECTOR_SIZE \<equiv> 4096"
abbreviation (input) MY_OTA_BUFFER_SIZE :: nat where "MY_OTA_BUFFER_SIZE \<equiv> 1024"
abbreviation (input) MY_OTA_CRC16_POLYNOMIAL :: u16 where "MY_OTA_CRC16_POLYNOMIAL \<equiv> 0xA001"
abbreviation (input) PARTITION_OFFSET :: u32 where "PARTITION_OFFSET \<equiv> 0x9c000"
abbreviation (input) PARTITION_SIZE :: u32 where "PARTITION_SIZE \<equiv> 0x8e000"

record 'd ota_env = "'d flash_ops" +
  flash_dev :: bool

record 'd ota =
  s_ota_busy :: bool
  s_ota_buf :: bytes
  s_ota_buf_offset :: u16
  s_ota_block_addr :: u32
  s_ota_total_written :: u32
  s_ota_file_size :: u32
  s_ota_reset_timer :: "u32 option"
  ota_dev :: 'd

section \<open>Flash access\<close>

function erase_loop :: "'d ota_env \<Rightarrow> 'd \<Rightarrow> u32 \<Rightarrow> u32 \<Rightarrow> int \<times> 'd" where
  "erase_loop env d erase_addr erase_size =
     (if erase_size > 0 then
        case fl_erase env d (unat erase_addr) 4096 of (ret, d') \<Rightarrow>
          if ret \<noteq> 0 then (ret, d')
          else if erase_size > FLASH_SECTOR_SIZE
          then erase_loop env d' (erase_addr + FLASH_SECTOR_SIZE) (erase_size - FLASH_SECTOR_SIZE)
          else (0, d')
      else (0, d))"
  by pat_completeness auto
termination
  by (relation "measure (\<lambda>(env, d, a, n). unat n)") (auto simp: word_less_nat_alt unat_sub_le)

declare erase_loop.simps [simp del]

definition my_ota_flash_erase :: "'d ota_env \<Rightarrow> 'd \<Rightarrow> u32 \<Rightarrow> u32 \<Rightarrow> int \<times> 'd" where
  "my_ota_flash_erase env d off_set n =
     (if \<not> flash_dev env then (-ENODEV, d) else erase_loop env d (PARTITION_OFFSET + off_set) n)"

definition my_ota_flash_write :: "'d ota_env \<Rightarrow> 'd \<Rightarrow> u32 \<Rightarrow> bytes \<Rightarrow> int \<times> 'd" where
  "my_ota_flash_write env d wrt_addr in_buf =
     (if \<not> flash_dev env then (-ENODEV, d) else fl_write env d (unat (PARTITION_OFFSET + wrt_addr)) in_buf)"

text \<open>Return code, the bytes the driver stored in the caller's buffer, the new offset.\<close>

definition my_ota_flash_read :: "'d ota_env \<Rightarrow> 'd \<Rightarrow> u32 \<Rightarrow> nat \<Rightarrow> int \<times> bytes \<times> u32" where
  "my_ota_flash_read env d off_addr n =
     (if \<not> flash_dev env then (-ENODEV, [], off_addr)
      else case fl_read env d (unat (PARTITION_OFFSET + off_addr)) n of (ret, bs) \<Rightarrow>
        if ret \<noteq> 0 then (ret, bs, off_addr) else (0, bs, off_addr + of_nat n))"

section \<open>The session\<close>

definition my_ota_flash_flush :: "'d ota_env \<Rightarrow> 'd ota \<Rightarrow> bool \<Rightarrow> int \<times> 'd ota" where
  "my_ota_flash_flush env s is_last =
     (if s_ota_buf_offset s = 0 \<and> \<not> is_last then (0, s)
      else
        let off = unat (s_ota_buf_offset s);
            buf = (if off < MY_OTA_BUFFER_SIZE
                   then mem_put (s_ota_buf s) off (replicate (MY_OTA_BUFFER_SIZE - off) 0xFF) else s_ota_buf s);
            write_crc = my_crc16_calc buf MY_OTA_CRC16_POLYNOMIAL;
            (ret, d1) = my_ota_flash_write env (ota_dev s) (s_ota_block_addr s) buf;
            s1 = s\<lparr>s_ota_buf := buf, ota_dev := d1\<rparr>
        in if ret \<noteq> 0 then (ret, s1)
           else
             let (ret2, bs, _) = my_ota_flash_read env d1 (s_ota_block_addr s) MY_OTA_BUFFER_SIZE;
                 s2 = s1\<lparr>s_ota_buf := mem_put buf 0 bs\<rparr>
             in if ret2 \<noteq> 0 then (ret2, s2)
                else if write_crc \<noteq> my_crc16_calc (s_ota_buf s2) MY_OTA_CRC16_POLYNOMIAL then (-EIO, s2)
                else (0, s2\<lparr>s_ota_block_addr := s_ota_block_addr s2 + of_nat MY_OTA_BUFFER_SIZE,
                            s_ota_buf_offset := 0, s_ota_buf := replicate MY_OTA_BUFFER_SIZE 0xFF\<rparr>))"

definition my_ota_flash_occupy :: "'d ota \<Rightarrow> bool \<times> 'd ota" where
  "my_ota_flash_occupy s = (if s_ota_busy s then (False, s) else (True, s\<lparr>s_ota_busy := True\<rparr>))"

definition my_ota_flash_open :: "'d ota_env \<Rightarrow> 'd ota \<Rightarrow> u32 \<Rightarrow> int \<times> 'd ota" where
  "my_ota_flash_open env s file_size =
     (if \<not> s_ota_busy s then (-EBUSY, s)
      else if file_size = 0 then (-EINVAL, s)
      else if file_size > PARTITION_SIZE then (-EFBIG, s)
      else case my_ota_flash_erase env (ota_dev s) 0 file_size of (ret, d') \<Rightarrow>
        if ret \<noteq> 0 then (-EIO, s\<lparr>ota_dev := d'\<rparr>)
        else (0, s\<lparr>ota_dev := d', s_ota_buf_offset := 0, s_ota_block_addr := 0, s_ota_total_written := 0,
                   s_ota_file_size := file_size, s_ota_buf := replicate MY_OTA_BUFFER_SIZE 0xFF\<rparr>))"

text \<open>
  The result is the return code and the value stored through \<open>is_last\<close>, \<open>None\<close> when
  nothing is stored. \<open>data = None\<close> is a null pointer; otherwise the bytes it points to.
\<close>

definition my_ota_flash_write_block ::
  "'d ota_env \<Rightarrow> 'd ota \<Rightarrow> bytes option \<Rightarrow> u32 \<Rightarrow> (int \<times> bool option \<times> 'd ota) option" where
  "my_ota_flash_write_block env s data len =
     (if \<not> s_ota_busy s then Some (-EIO, None, s)
      else case data of
        None \<Rightarrow> Some (-EINVAL, None, s)
      | Some bs \<Rightarrow>
          if len = 0 then Some (0, Some (s_ota_total_written s \<ge> s_ota_file_size s), s)
          else if ucast (s_ota_buf_offset s) + len > (1024 :: u32) then Some (-EOVERFLOW, None, s)
          else do {
            src \<leftarrow> mem_read bs 0 (unat len);
            buf \<leftarrow> mem_write (s_ota_buf s) (unat (s_ota_buf_offset s)) src;
            let s1 = s\<lparr>s_ota_buf := buf, s_ota_buf_offset := s_ota_buf_offset s + ucast len,
                       s_ota_total_written := s_ota_total_written s + len\<rparr>;
            let last = (s_ota_total_written s1 \<ge> s_ota_file_size s1);
            if s_ota_buf_offset s1 \<ge> 1024 \<or> last
            then let (ret, s2) = my_ota_flash_flush env s1 last in Some (ret, Some last, s2)
            else Some (0, Some last, s1) })"

definition my_ota_flash_close :: "'d ota_env \<Rightarrow> 'd ota \<Rightarrow> bool \<Rightarrow> int \<times> 'd ota" where
  "my_ota_flash_close env s result_ok =
     (if \<not> s_ota_busy s then (0, s)
      else
        let (ret, s1) = (if result_ok \<and> s_ota_buf_offset s > 0 then my_ota_flash_flush env s True else (0, s))
        in (ret, s1\<lparr>s_ota_buf_offset := 0, s_ota_block_addr := 0, s_ota_total_written := 0, s_ota_busy := False\<rparr>))"

definition my_ota_flash_cache_remain :: "'d ota \<Rightarrow> u16" where
  "my_ota_flash_cache_remain s = 1024 - s_ota_buf_offset s"

definition my_ota_flash_is_busy :: "'d ota \<Rightarrow> bool" where
  "my_ota_flash_is_busy s = s_ota_busy s"

definition my_ota_flash_schedule_reset :: "'d ota \<Rightarrow> u32 \<Rightarrow> 'd ota" where
  "my_ota_flash_schedule_reset s delay_ms = s\<lparr>s_ota_reset_timer := Some delay_ms\<rparr>"

section \<open>Erasing and flushing\<close>

lemma flash_ok_erase_at:
  assumes "flash_ok env mem" "fl_erase env d a k = (r, d')"
  shows "r = 0 \<Longrightarrow> a \<le> x \<Longrightarrow> x < a + k \<Longrightarrow> mem d' x = 0xFF" "x < a \<or> a + k \<le> x \<Longrightarrow> mem d' x = mem d x"
  using assms unfolding flash_ok_def by (metis not_less)+

lemma erase_loop_spec:
  assumes ok: "flash_ok env mem" and "erase_loop env d a n = (r, d')" "unat a + unat n + 4096 < 2 ^ 32"
  shows "(r = 0 \<longrightarrow> (\<forall>x. unat a \<le> x \<and> x < unat a + unat n \<longrightarrow> mem d' x = 0xFF)) \<and>
     (\<forall>x. x < unat a \<or> unat a + (unat n + 4095) div 4096 * 4096 \<le> x \<longrightarrow> mem d' x = mem d x)"
  using assms(2,3)
proof (induction "unat n" arbitrary: d a n rule: less_induct)
  case less
  show ?case
  proof (cases "n = 0")
    case True
    then show ?thesis using less.prems(1) by (auto simp: erase_loop.simps)
  next
    case False
    then have n0: "0 < n" "1 \<le> unat n" by (auto simp: word_gt_0 Suc_le_eq unat_gt_0)
    obtain ret d1 where e: "fl_erase env d (unat a) 4096 = (ret, d1)" by fastforce
    note at = flash_ok_erase_at [OF ok e]
    show ?thesis
    proof (cases "ret = 0 \<and> 4096 < n")
      case True
      then have big: "4096 < unat n" by (simp add: word_less_nat_alt)
      have sub: "unat (n - 4096) = unat n - 4096" using big by (subst unat_sub_le) simp_all
      have add: "unat (a + 4096) = unat a + 4096" using less.prems(2) by (subst unat_add_small) simp_all
      have dv: "(unat n + 4095) div 4096 = (unat n - 4096 + 4095) div 4096 + 1" using big by linarith
      have "erase_loop env d1 (a + 4096) (n - 4096) = (r, d')"
        using less.prems(1) True e n0 by (subst (asm) erase_loop.simps) simp
      then have ih: "(r = 0 \<longrightarrow> (\<forall>x. unat a + 4096 \<le> x \<and> x < unat a + unat n \<longrightarrow> mem d' x = 0xFF)) \<and>
          (\<forall>x. x < unat a + 4096 \<or> unat a + (unat n + 4095) div 4096 * 4096 \<le> x \<longrightarrow> mem d' x = mem d1 x)"
        using less.hyps [of "n - 4096" d1 "a + 4096"] less.prems(2) sub add big dv by simp
      show ?thesis
      proof (intro conjI impI allI)
        fix x assume "r = 0" "unat a \<le> x \<and> x < unat a + unat n"
        then show "mem d' x = 0xFF" using ih at(1) [of x] True by (cases "x < unat a + 4096") auto
      next
        fix x assume "x < unat a \<or> unat a + (unat n + 4095) div 4096 * 4096 \<le> x"
        then show "mem d' x = mem d x" using ih at(2) [of x] dv by auto
      qed
    next
      case False
      then have "d' = d1 \<and> r = ret \<and> (ret = 0 \<longrightarrow> \<not> 4096 < n)"
        using less.prems(1) e n0(1) by (auto simp: erase_loop.simps split: if_splits)
      then have "d' = d1" "r = ret" "ret = 0 \<Longrightarrow> unat n \<le> 4096" by (auto simp: word_less_nat_alt)
      moreover have "1 \<le> (unat n + 4095) div 4096" using n0(2) by linarith
      ultimately show ?thesis using at by auto
    qed
  qed
qed

text \<open>A flush that writes: on success the padded block is in flash, in any case nothing else changes.\<close>

lemma flush_spec:
  assumes ok: "flash_ok env mem" and len: "length (s_ota_buf s) = MY_OTA_BUFFER_SIZE"
    and off: "unat (s_ota_buf_offset s) \<le> MY_OTA_BUFFER_SIZE" and addr: "unat (s_ota_block_addr s) \<le> 0x8e000"
    and act: "s_ota_buf_offset s \<noteq> 0 \<or> is_last" and f: "my_ota_flash_flush env s is_last = (r, s')"
  defines "a \<equiv> 0x9c000 + unat (s_ota_block_addr s)"
  shows "x < a \<or> a + MY_OTA_BUFFER_SIZE \<le> x \<Longrightarrow> mem (ota_dev s') x = mem (ota_dev s) x"
    and "s_ota_busy s' = s_ota_busy s" "s_ota_file_size s' = s_ota_file_size s"
      "s_ota_total_written s' = s_ota_total_written s" "length (s_ota_buf s') = MY_OTA_BUFFER_SIZE"
    and "r = 0 \<Longrightarrow> mem_range (mem (ota_dev s')) a MY_OTA_BUFFER_SIZE =
        take (unat (s_ota_buf_offset s)) (s_ota_buf s) @ replicate (MY_OTA_BUFFER_SIZE - unat (s_ota_buf_offset s)) 0xFF"
    and "r = 0 \<Longrightarrow> s_ota_block_addr s' = s_ota_block_addr s + 1024 \<and> s_ota_buf_offset s' = 0"
proof -
  let ?o = "unat (s_ota_buf_offset s)"
  let ?buf = "take ?o (s_ota_buf s) @ replicate (MY_OTA_BUFFER_SIZE - ?o) 0xFF"
  have buf: "(if ?o < MY_OTA_BUFFER_SIZE then mem_put (s_ota_buf s) ?o (replicate (MY_OTA_BUFFER_SIZE - ?o) 0xFF) else s_ota_buf s) = ?buf"
    using len off by (auto simp: mem_put_write)
  have lb: "length ?buf = MY_OTA_BUFFER_SIZE" using len off by simp
  have a: "unat (PARTITION_OFFSET + s_ota_block_addr s) = a"
    using addr by (subst unat_add_small) (simp_all add: a_def)
  obtain ret d1 where w: "my_ota_flash_write env (ota_dev s) (s_ota_block_addr s) ?buf = (ret, d1)" by fastforce
  have noop: "\<not> (s_ota_buf_offset s = 0 \<and> \<not> is_last)" using act by auto
  have other: "mem d1 x = mem (ota_dev s) x" if "x < a \<or> a + MY_OTA_BUFFER_SIZE \<le> x" for x
    using w that flash_ok_write_other [OF ok, of "ota_dev s" a ?buf ret d1 x 1] lb
    by (auto simp: my_ota_flash_write_def a mem_range_def split: if_splits)
  have same: "mem_range (mem d1) a MY_OTA_BUFFER_SIZE = ?buf" if "ret = 0"
    using w that flash_ok_write_same [OF ok, of "ota_dev s" a ?buf d1] lb
    by (auto simp: my_ota_flash_write_def a split: if_splits)
  note flush = f [unfolded my_ota_flash_flush_def if_not_P [OF noop] buf Let_def w]
  have dv: "ota_dev s' = d1" "r = 0 \<Longrightarrow> ret = 0"
    using flush by (auto simp: case_prod_beta split: if_splits)
  show "x < a \<or> a + MY_OTA_BUFFER_SIZE \<le> x \<Longrightarrow> mem (ota_dev s') x = mem (ota_dev s) x"
    using other dv(1) by simp
  show "r = 0 \<Longrightarrow> mem_range (mem (ota_dev s')) a MY_OTA_BUFFER_SIZE = ?buf" using same dv by simp
  show "s_ota_busy s' = s_ota_busy s" "s_ota_file_size s' = s_ota_file_size s"
      "s_ota_total_written s' = s_ota_total_written s" "length (s_ota_buf s') = MY_OTA_BUFFER_SIZE"
      "r = 0 \<Longrightarrow> s_ota_block_addr s' = s_ota_block_addr s + 1024 \<and> s_ota_buf_offset s' = 0"
    using flush lb by (auto simp: case_prod_beta split: if_splits)
qed

section \<open>The contract of the image sink\<close>

text \<open>The blocks handed to the sink: none empty, none crossing a buffer boundary, the image not yet complete.\<close>

fun chunks_fit :: "nat \<Rightarrow> nat \<Rightarrow> bytes list \<Rightarrow> bool" where
  "chunks_fit n k [] = True"
| "chunks_fit n k (c # cs) \<longleftrightarrow> c \<noteq> [] \<and> k < n \<and> k mod MY_OTA_BUFFER_SIZE + length c \<le> MY_OTA_BUFFER_SIZE \<and>
     chunks_fit n (k + length c) cs"

fun sink_write_all :: "(bytes \<Rightarrow> 's \<Rightarrow> (int \<times> bool option \<times> 's) option) \<Rightarrow> bytes list \<Rightarrow> 's \<Rightarrow> (int \<times> bool option \<times> 's) option" where
  "sink_write_all wr [] s = Some (0, None, s)"
| "sink_write_all wr [c] s = wr c s"
| "sink_write_all wr (c # cs) s =
     (case wr c s of None \<Rightarrow> None | Some (r, l, s') \<Rightarrow> if r \<noteq> 0 then Some (r, l, s') else sink_write_all wr cs s')"

locale image_sink =
  fixes idle :: "'m \<Rightarrow> 's \<Rightarrow> bool" and receiving :: "'m \<Rightarrow> nat \<Rightarrow> bytes \<Rightarrow> 's \<Rightarrow> bool"
    and stored :: "'m \<Rightarrow> bytes \<Rightarrow> 's \<Rightarrow> bool" and aborted :: "'m \<Rightarrow> 's \<Rightarrow> bool"
    and opn :: "u32 \<Rightarrow> 's \<Rightarrow> int \<times> 's" and wr :: "bytes \<Rightarrow> 's \<Rightarrow> (int \<times> bool option \<times> 's) option"
  assumes opn_law: "idle m s \<Longrightarrow> opn w s = (r, s') \<Longrightarrow> if r = 0 then receiving m (unat w) [] s' else aborted m s'"
    and wr_law: "receiving m n data s \<Longrightarrow> c \<noteq> [] \<Longrightarrow> length data mod MY_OTA_BUFFER_SIZE + length c \<le> MY_OTA_BUFFER_SIZE \<Longrightarrow>
       \<exists>r l s'. wr c s = Some (r, l, s') \<and>
         (if r = 0 then l = Some (n \<le> length (data @ c)) \<and>
            (if n \<le> length (data @ c) then stored m (data @ c) s' else receiving m n (data @ c) s')
          else aborted m s')"
    and receiving_short: "receiving m n data s \<Longrightarrow> length data < n"
begin

lemma sink_write_all_spec:
  assumes "receiving m n data s" "chunks_fit n (length data) cs" "cs \<noteq> []"
  shows "\<exists>r l s'. sink_write_all wr cs s = Some (r, l, s') \<and>
     (if r = 0 then l = Some (n \<le> length (data @ concat cs)) \<and>
        (if n \<le> length (data @ concat cs) then stored m (data @ concat cs) s' else receiving m n (data @ concat cs) s')
      else aborted m s')"
  using assms
proof (induction cs arbitrary: data s)
  case Nil
  then show ?case by simp
next
  case (Cons c cs)
  have c: "c \<noteq> []" "length data mod MY_OTA_BUFFER_SIZE + length c \<le> MY_OTA_BUFFER_SIZE" "chunks_fit n (length (data @ c)) cs"
    using Cons.prems(2) by simp_all
  obtain r l s1 where w: "wr c s = Some (r, l, s1)"
    "if r = 0 then l = Some (n \<le> length (data @ c)) \<and>
       (if n \<le> length (data @ c) then stored m (data @ c) s1 else receiving m n (data @ c) s1) else aborted m s1"
    using wr_law [OF Cons.prems(1) c(1,2)] by blast
  show ?case
  proof (cases "cs = [] \<or> r \<noteq> 0")
    case True
    then show ?thesis using w by (cases cs) auto
  next
    case False
    then have "length (data @ c) < n" using c(3) by (cases cs) auto
    then have "receiving m n (data @ c) s1" using w(2) False by auto
    then obtain r2 l2 s2 where ih: "sink_write_all wr cs s1 = Some (r2, l2, s2)"
      "if r2 = 0 then l2 = Some (n \<le> length ((data @ c) @ concat cs)) \<and>
        (if n \<le> length ((data @ c) @ concat cs) then stored m ((data @ c) @ concat cs) s2
         else receiving m n ((data @ c) @ concat cs) s2) else aborted m s2"
      using Cons.IH [OF _ c(3)] False by blast
    have "sink_write_all wr (c # cs) s = Some (r2, l2, s2)" using w(1) ih(1) False by (cases cs) auto
    moreover have eq: "(data @ c) @ concat cs = data @ concat (c # cs)" by simp
    ultimately show ?thesis using ih(2) unfolding eq by blast
  qed
qed

text \<open>A complete session: open, then all blocks of an image whose size was announced.\<close>

lemma sink_session_spec:
  assumes "idle m s" "opn w s = (0, s1)" "chunks_fit (unat w) 0 cs" "length (concat cs) = unat w" "cs \<noteq> []"
  shows "\<exists>r l s'. sink_write_all wr cs s1 = Some (r, l, s') \<and>
     (if r = 0 then l = Some True \<and> stored m (concat cs) s' else aborted m s')"
proof -
  have rc: "receiving m (unat w) [] s1" using opn_law [OF assms(1,2)] by simp
  have cf: "chunks_fit (unat w) (length ([] :: bytes)) cs" using assms(3) by simp
  from sink_write_all_spec [OF rc cf assms(5), unfolded append_Nil] obtain r l s' where
    "sink_write_all wr cs s1 = Some (r, l, s')"
    "if r = 0 then l = Some (unat w \<le> length (concat cs)) \<and>
        (if unat w \<le> length (concat cs) then stored m (concat cs) s' else receiving m (unat w) (concat cs) s') else aborted m s'"
    by blast
  then show ?thesis using assms(4) by (intro exI [of _ r] exI [of _ l] exI [of _ s']) (simp split: if_splits)
qed

end

section \<open>The model implements the contract\<close>

type_synonym 'd ota_state = "'d ota_env \<times> ('d \<Rightarrow> nat \<Rightarrow> u8) \<times> 'd ota"

text \<open>Everything outside the image slot is as in \<open>m0\<close>.\<close>

definition outside_slot :: "(nat \<Rightarrow> u8) \<Rightarrow> (nat \<Rightarrow> u8) \<Rightarrow> bool" where
  "outside_slot m0 m \<longleftrightarrow> (\<forall>x. x < 0x9c000 \<or> 0x9c000 + 0x8e000 \<le> x \<longrightarrow> m x = m0 x)"

definition sink_base :: "(nat \<Rightarrow> u8) \<Rightarrow> 'd ota_state \<Rightarrow> bool" where
  "sink_base m0 = (\<lambda>(env, mem, s). flash_ok env mem \<and> s_ota_busy s \<and> length (s_ota_buf s) = MY_OTA_BUFFER_SIZE \<and>
     outside_slot m0 (mem (ota_dev s)))"

definition sink_receiving :: "(nat \<Rightarrow> u8) \<Rightarrow> nat \<Rightarrow> bytes \<Rightarrow> 'd ota_state \<Rightarrow> bool" where
  "sink_receiving m0 n data = (\<lambda>(env, mem, s). sink_base m0 (env, mem, s) \<and> unat (s_ota_file_size s) = n \<and> n \<le> 0x8e000 \<and>
     length data < n \<and> unat (s_ota_total_written s) = length data \<and>
     unat (s_ota_buf_offset s) = length data mod MY_OTA_BUFFER_SIZE \<and>
     unat (s_ota_block_addr s) = length data div MY_OTA_BUFFER_SIZE * MY_OTA_BUFFER_SIZE \<and>
     take (unat (s_ota_buf_offset s)) (s_ota_buf s) = drop (unat (s_ota_block_addr s)) data \<and>
     mem_range (mem (ota_dev s)) 0x9c000 (unat (s_ota_block_addr s)) = take (unat (s_ota_block_addr s)) data)"

text \<open>The image, padded with FF to whole blocks, is at the start of the slot.\<close>

definition sink_stored :: "(nat \<Rightarrow> u8) \<Rightarrow> bytes \<Rightarrow> 'd ota_state \<Rightarrow> bool" where
  "sink_stored m0 data = (\<lambda>(env, mem, s). sink_base m0 (env, mem, s) \<and> s_ota_buf_offset s = 0 \<and>
     (\<exists>k. length data + k = (length data + 1023) div MY_OTA_BUFFER_SIZE * MY_OTA_BUFFER_SIZE \<and>
        mem_range (mem (ota_dev s)) 0x9c000 (length data + k) = data @ replicate k 0xFF))"

definition sink_open :: "u32 \<Rightarrow> 'd ota_state \<Rightarrow> int \<times> 'd ota_state" where
  "sink_open w = (\<lambda>(env, mem, s). case my_ota_flash_open env s w of (r, s') \<Rightarrow> (r, (env, mem, s')))"

definition sink_write :: "bytes \<Rightarrow> 'd ota_state \<Rightarrow> (int \<times> bool option \<times> 'd ota_state) option" where
  "sink_write c = (\<lambda>(env, mem, s). map_option (\<lambda>(r, l, s'). (r, l, (env, mem, s')))
     (my_ota_flash_write_block env s (Some c) (of_nat (length c))))"

lemma my_ota_flash_erase_outside:
  assumes ok: "flash_ok env mem" and n: "unat n \<le> 0x8e000" and e: "my_ota_flash_erase env d 0 n = (r, d')"
  shows "outside_slot (mem d) (mem d')" "r = 0 \<Longrightarrow> mem_range (mem d') 0x9c000 (unat n) = replicate (unat n) 0xFF"
proof -
  have r: "flash_dev env \<Longrightarrow> erase_loop env d 0x9c000 n = (r, d')" using e by (simp add: my_ota_flash_erase_def)
  have "(unat n + 4095) div 4096 * 4096 \<le> (0x8e000 + 4095) div 4096 * (4096 :: nat)"
    using n by (intro mult_le_mono1 div_le_mono) simp
  then show "outside_slot (mem d) (mem d')"
    using erase_loop_spec [OF ok r] n e by (cases "flash_dev env") (auto simp: outside_slot_def my_ota_flash_erase_def)
  show "mem_range (mem d') 0x9c000 (unat n) = replicate (unat n) 0xFF" if "r = 0"
    using erase_loop_spec [OF ok r] n e that
    by (cases "flash_dev env") (auto simp: my_ota_flash_erase_def intro!: nth_equalityI)
qed

lemma sink_open_law:
  assumes "sink_base m0 t" "sink_open w t = (r, t')"
  shows "if r = 0 then sink_receiving m0 (unat w) [] t' else sink_base m0 t'"
proof -
  obtain env mem s where t: "t = (env, mem, s)" using prod_cases3 by blast
  have b: "flash_ok env mem" "s_ota_busy s" "length (s_ota_buf s) = MY_OTA_BUFFER_SIZE" "outside_slot m0 (mem (ota_dev s))"
    using assms(1) by (auto simp: t sink_base_def)
  show ?thesis
  proof (cases "w = 0 \<or> w > 0x8e000")
    case True
    then show ?thesis using assms b(2) by (auto simp: t sink_open_def my_ota_flash_open_def split: if_splits)
  next
    case False
    then have n: "0 < unat w" "unat w \<le> 0x8e000" by (auto simp: word_less_nat_alt unat_gt_0)
    obtain ret d' where e: "my_ota_flash_erase env (ota_dev s) 0 w = (ret, d')" by fastforce
    have os: "outside_slot m0 (mem d')" using my_ota_flash_erase_outside(1) [OF b(1) n(2) e] b(4) by (simp add: outside_slot_def)
    show ?thesis using assms(2) False e b os n
      by (auto simp: t sink_open_def my_ota_flash_open_def sink_base_def sink_receiving_def mem_range_def split: if_splits)
  qed
qed

lemma block_arith:
  fixes L k :: nat
  assumes "0 < k" "L mod MY_OTA_BUFFER_SIZE + k \<le> MY_OTA_BUFFER_SIZE"
  shows "(L + k + 1023) div MY_OTA_BUFFER_SIZE * MY_OTA_BUFFER_SIZE = L div MY_OTA_BUFFER_SIZE * MY_OTA_BUFFER_SIZE + MY_OTA_BUFFER_SIZE"
    and "L mod MY_OTA_BUFFER_SIZE + k = MY_OTA_BUFFER_SIZE \<Longrightarrow> L + k = L div MY_OTA_BUFFER_SIZE * MY_OTA_BUFFER_SIZE + MY_OTA_BUFFER_SIZE"
    and "L mod MY_OTA_BUFFER_SIZE + k < MY_OTA_BUFFER_SIZE \<Longrightarrow>
      (L + k) mod MY_OTA_BUFFER_SIZE = L mod MY_OTA_BUFFER_SIZE + k \<and> (L + k) div MY_OTA_BUFFER_SIZE = L div MY_OTA_BUFFER_SIZE"
proof -
  define q r where "q = L div 1024" and "r = L mod 1024"
  have L: "L = q * 1024 + r" "r < 1024" "r + k \<le> 1024" using assms(2) by (simp_all add: q_def r_def)
  have "(L + k + 1023) div 1024 = q + 1" using L assms(1) by (intro div_nat_eqI) simp_all
  then show "(L + k + 1023) div 1024 * 1024 = L div 1024 * 1024 + 1024" by (simp add: q_def)
  show "L + k = L div 1024 * 1024 + 1024" if "L mod 1024 + k = 1024"
    using L(1) that unfolding q_def [symmetric] r_def [symmetric] by linarith
  assume "L mod 1024 + k < 1024"
  then have rk: "r + k < 1024" by (simp add: r_def)
  have e: "L + k = (r + k) + q * 1024" using L(1) by linarith
  have "(L + k) div 1024 = q" "(L + k) mod 1024 = r + k" unfolding e using rk by simp_all
  then show "(L + k) mod 1024 = L mod 1024 + k \<and> (L + k) div 1024 = L div 1024" by (simp add: q_def r_def)
qed

text \<open>What a block write does to the record before a flush.\<close>

lemma write_block_copy:
  assumes r: "sink_receiving m0 n data (env, mem, s)" and c: "c \<noteq> []" "length data mod MY_OTA_BUFFER_SIZE + length c \<le> MY_OTA_BUFFER_SIZE"
  obtains s1 where "my_ota_flash_write_block env s (Some c) (of_nat (length c)) =
      (if length data mod MY_OTA_BUFFER_SIZE + length c = MY_OTA_BUFFER_SIZE \<or> n \<le> length (data @ c)
       then case my_ota_flash_flush env s1 (n \<le> length (data @ c)) of (r, s2) \<Rightarrow> Some (r, Some (n \<le> length (data @ c)), s2)
       else Some (0, Some False, s1))"
    "length (s_ota_buf s1) = MY_OTA_BUFFER_SIZE" "unat (s_ota_buf_offset s1) = length data mod MY_OTA_BUFFER_SIZE + length c"
    "s_ota_block_addr s1 = s_ota_block_addr s" "unat (s_ota_total_written s1) = length (data @ c)"
    "s_ota_file_size s1 = s_ota_file_size s" "s_ota_busy s1" "ota_dev s1 = ota_dev s"
    "take (unat (s_ota_buf_offset s1)) (s_ota_buf s1) = drop (unat (s_ota_block_addr s)) (data @ c)"
proof -
  let ?k = "length c" and ?off = "length data mod MY_OTA_BUFFER_SIZE"
  have f: "s_ota_busy s" "length (s_ota_buf s) = MY_OTA_BUFFER_SIZE" "unat (s_ota_file_size s) = n" "n \<le> 0x8e000" "length data < n"
    "unat (s_ota_total_written s) = length data" "unat (s_ota_buf_offset s) = ?off"
    "take (unat (s_ota_buf_offset s)) (s_ota_buf s) = drop (unat (s_ota_block_addr s)) data"
    "unat (s_ota_block_addr s) = length data div MY_OTA_BUFFER_SIZE * MY_OTA_BUFFER_SIZE"
    using r by (auto simp: sink_receiving_def sink_base_def)
  have k: "?k \<le> 1024" "unat (of_nat ?k :: u32) = ?k" "unat (ucast (of_nat ?k :: u32) :: u16) = ?k" "(of_nat ?k :: u32) \<noteq> 0"
    using c by (auto simp: unat_of_nat unat_ucast_32_16 simp flip: unat_eq_0)
  define s1 where "s1 = s\<lparr>s_ota_buf := take ?off (s_ota_buf s) @ c @ drop (?off + ?k) (s_ota_buf s),
      s_ota_buf_offset := s_ota_buf_offset s + ucast (of_nat ?k :: u32), s_ota_total_written := s_ota_total_written s + of_nat ?k\<rparr>"
  have o1: "unat (s_ota_buf_offset s + ucast (of_nat ?k :: u32)) = ?off + ?k"
    using f(7) k c(2) by (subst unat_add_small) simp_all
  have t1: "unat (s_ota_total_written s + of_nat ?k) = length (data @ c)"
    using f(4-6) k c(2) by (subst unat_add_small) simp_all
  have sum32: "unat (ucast (s_ota_buf_offset s) + of_nat ?k :: u32) = ?off + ?k"
    using f(7) k c(2) by (subst unat_add_small) simp_all
  have cp: "mem_read c 0 ?k = Some c" "mem_write (s_ota_buf s) ?off c = Some (take ?off (s_ota_buf s) @ c @ drop (?off + ?k) (s_ota_buf s))"
    using f(2) c(2) by (simp_all add: mem_read_def mem_write_def)
  have guard: "\<not> ucast (s_ota_buf_offset s) + of_nat ?k > (1024 :: u32)" using sum32 c(2) by (simp add: word_less_nat_alt)
  have last: "s_ota_file_size s \<le> s_ota_total_written s1 \<longleftrightarrow> n \<le> length (data @ c)"
    using t1 f(3) by (simp add: s1_def word_le_nat_alt)
  have full: "1024 \<le> s_ota_buf_offset s1 \<longleftrightarrow> ?off + ?k = MY_OTA_BUFFER_SIZE"
    using o1 c(2) by (auto simp: s1_def word_le_nat_alt)
  have "my_ota_flash_write_block env s (Some c) (of_nat ?k) =
      (if 1024 \<le> s_ota_buf_offset s1 \<or> s_ota_file_size s1 \<le> s_ota_total_written s1
       then let (ret, s2) = my_ota_flash_flush env s1 (s_ota_file_size s1 \<le> s_ota_total_written s1)
            in Some (ret, Some (s_ota_file_size s1 \<le> s_ota_total_written s1), s2)
       else Some (0, Some (s_ota_file_size s1 \<le> s_ota_total_written s1), s1))"
    using f(1,7) k guard cp unfolding my_ota_flash_write_block_def by (simp add: s1_def Let_def)
  moreover have fs: "s_ota_file_size s1 = s_ota_file_size s" by (simp add: s1_def)
  ultimately have wb: "my_ota_flash_write_block env s (Some c) (of_nat ?k) =
      (if ?off + ?k = MY_OTA_BUFFER_SIZE \<or> n \<le> length (data @ c)
       then case my_ota_flash_flush env s1 (n \<le> length (data @ c)) of (r, s2) \<Rightarrow> Some (r, Some (n \<le> length (data @ c)), s2)
       else Some (0, Some False, s1))"
    by (simp only: full last Let_def) simp
  have "length (take ?off (s_ota_buf s)) = ?off" using f(2) c(2) by simp
  then have "take (?off + ?k) (s_ota_buf s1) = take ?off (s_ota_buf s) @ c" by (simp add: s1_def del: length_take)
  then have "take (?off + ?k) (s_ota_buf s1) = drop (unat (s_ota_block_addr s)) data @ c" using f(7,8) by simp
  moreover have "unat (s_ota_block_addr s) \<le> length data" using f(9) by simp
  ultimately have tk: "take (unat (s_ota_buf_offset s1)) (s_ota_buf s1) = drop (unat (s_ota_block_addr s)) (data @ c)"
    using o1 by (simp add: s1_def)
  have "length (s_ota_buf s1) = MY_OTA_BUFFER_SIZE" using f(2) c(2) cp(2) mem_write_length by (fastforce simp: s1_def)
  then show ?thesis using o1 t1 fs f(1) tk by (intro that [OF wb]) (simp_all add: s1_def)
qed

lemma sink_flush_law:
  assumes r: "sink_receiving m0 n data (env, mem, s)" and c: "c \<noteq> []" "length data mod MY_OTA_BUFFER_SIZE + length c \<le> MY_OTA_BUFFER_SIZE"
    and s1: "length (s_ota_buf s1) = MY_OTA_BUFFER_SIZE" "unat (s_ota_buf_offset s1) = length data mod MY_OTA_BUFFER_SIZE + length c"
      "s_ota_block_addr s1 = s_ota_block_addr s" "s_ota_busy s1" "ota_dev s1 = ota_dev s"
      "take (unat (s_ota_buf_offset s1)) (s_ota_buf s1) = drop (unat (s_ota_block_addr s)) (data @ c)"
    and fl: "my_ota_flash_flush env s1 l = (ret, s2)"
  shows "sink_base m0 (env, mem, s2)"
    and "ret = 0 \<Longrightarrow> \<exists>k. length (data @ c) + k = (length (data @ c) + 1023) div MY_OTA_BUFFER_SIZE * MY_OTA_BUFFER_SIZE \<and>
      mem_range (mem (ota_dev s2)) 0x9c000 (length (data @ c) + k) = (data @ c) @ replicate k 0xFF"
    and "ret = 0 \<Longrightarrow> unat (s_ota_block_addr s2) = length data div MY_OTA_BUFFER_SIZE * MY_OTA_BUFFER_SIZE + MY_OTA_BUFFER_SIZE \<and> s_ota_buf_offset s2 = 0"
proof -
  let ?L = "length data" and ?B = "length data div MY_OTA_BUFFER_SIZE * MY_OTA_BUFFER_SIZE" and ?off = "length data mod MY_OTA_BUFFER_SIZE + length c"
  have f: "flash_ok env mem" "outside_slot m0 (mem (ota_dev s))" "n \<le> 0x8e000" "?L < n" "unat (s_ota_block_addr s) = ?B"
    "mem_range (mem (ota_dev s)) 0x9c000 ?B = take ?B data"
    using r by (auto simp: sink_receiving_def sink_base_def)
  have "?L div MY_OTA_BUFFER_SIZE \<le> 567" using f(3,4) by linarith
  then have B: "?B + MY_OTA_BUFFER_SIZE \<le> 0x8e000" by linarith
  have pos: "0 < length c" using c(1) by simp
  have pre: "unat (s_ota_buf_offset s1) \<le> MY_OTA_BUFFER_SIZE" "unat (s_ota_block_addr s1) \<le> 0x8e000"
      "s_ota_buf_offset s1 \<noteq> 0 \<or> l"
    using s1(2,3) c f(5) B pos by (auto simp flip: unat_eq_0)
  note fs = flush_spec [OF f(1) s1(1) pre fl]
  note fr = fs(1) [unfolded s1(3,5) f(5)] fs(6) [unfolded s1(3,5) f(5)]
  show base: "sink_base m0 (env, mem, s2)"
    using f(1,2) fs(2,5) s1(4) fr(1) B by (auto simp: sink_base_def outside_slot_def)
  show "unat (s_ota_block_addr s2) = ?B + MY_OTA_BUFFER_SIZE \<and> s_ota_buf_offset s2 = 0" if "ret = 0"
    using fs(7) [OF that] s1(3) f(5) B by (simp add: unat_add_small)
  show "\<exists>k. length (data @ c) + k = (length (data @ c) + 1023) div MY_OTA_BUFFER_SIZE * MY_OTA_BUFFER_SIZE \<and>
      mem_range (mem (ota_dev s2)) 0x9c000 (length (data @ c) + k) = (data @ c) @ replicate k 0xFF" if z: "ret = 0"
  proof (intro exI [of _ "MY_OTA_BUFFER_SIZE - ?off"] conjI)
    have len: "length (data @ c) + (MY_OTA_BUFFER_SIZE - ?off) = ?B + MY_OTA_BUFFER_SIZE"
    proof -
      define q r where "q = ?L div 1024" and "r = ?L mod 1024"
      have "?L = q * 1024 + r" by (simp add: q_def r_def)
      then show ?thesis using c(2) unfolding q_def [symmetric] r_def [symmetric] length_append by linarith
    qed
    then show "length (data @ c) + (MY_OTA_BUFFER_SIZE - ?off) = (length (data @ c) + 1023) div MY_OTA_BUFFER_SIZE * MY_OTA_BUFFER_SIZE"
      using block_arith(1) [OF pos c(2)] by simp
    have "mem_range (mem (ota_dev s2)) 0x9c000 ?B = take ?B data"
      using f(6) fr(1) by (subst mem_range_cong [of _ _ _ "mem (ota_dev s)"]) auto
    moreover have "mem_range (mem (ota_dev s2)) (0x9c000 + ?B) MY_OTA_BUFFER_SIZE = drop ?B (data @ c) @ replicate (MY_OTA_BUFFER_SIZE - ?off) 0xFF"
      using fr(2) [OF z] s1(2,6) f(5) by simp
    ultimately have "mem_range (mem (ota_dev s2)) 0x9c000 (?B + MY_OTA_BUFFER_SIZE) =
        take ?B data @ drop ?B (data @ c) @ replicate (MY_OTA_BUFFER_SIZE - ?off) 0xFF" by (simp only: mem_range_append)
    then show "mem_range (mem (ota_dev s2)) 0x9c000 (length (data @ c) + (MY_OTA_BUFFER_SIZE - ?off)) =
        (data @ c) @ replicate (MY_OTA_BUFFER_SIZE - ?off) 0xFF"
      unfolding len by simp
  qed
qed

lemma sink_write_law:
  assumes r: "sink_receiving m0 n data t" and c: "c \<noteq> []" "length data mod MY_OTA_BUFFER_SIZE + length c \<le> MY_OTA_BUFFER_SIZE"
  shows "\<exists>r l t'. sink_write c t = Some (r, l, t') \<and>
     (if r = 0 then l = Some (n \<le> length (data @ c)) \<and>
        (if n \<le> length (data @ c) then sink_stored m0 (data @ c) t' else sink_receiving m0 n (data @ c) t')
      else sink_base m0 t')"
proof -
  obtain env mem s where t: "t = (env, mem, s)" using prod_cases3 by blast
  note r = r [unfolded t]
  let ?full = "length data mod MY_OTA_BUFFER_SIZE + length c = MY_OTA_BUFFER_SIZE" and ?last = "n \<le> length (data @ c)"
  obtain s1 where w: "my_ota_flash_write_block env s (Some c) (of_nat (length c)) =
      (if ?full \<or> ?last then case my_ota_flash_flush env s1 ?last of (r, s2) \<Rightarrow> Some (r, Some ?last, s2) else Some (0, Some False, s1))"
    and s1: "length (s_ota_buf s1) = MY_OTA_BUFFER_SIZE" "unat (s_ota_buf_offset s1) = length data mod MY_OTA_BUFFER_SIZE + length c"
      "s_ota_block_addr s1 = s_ota_block_addr s" "s_ota_busy s1" "ota_dev s1 = ota_dev s"
      "take (unat (s_ota_buf_offset s1)) (s_ota_buf s1) = drop (unat (s_ota_block_addr s)) (data @ c)"
    and s1': "unat (s_ota_total_written s1) = length (data @ c)" "s_ota_file_size s1 = s_ota_file_size s"
    using write_block_copy [OF r c] by metis
  have f: "flash_ok env mem" "outside_slot m0 (mem (ota_dev s))" "unat (s_ota_file_size s) = n" "n \<le> 0x8e000"
    "unat (s_ota_block_addr s) = length data div MY_OTA_BUFFER_SIZE * MY_OTA_BUFFER_SIZE"
    "mem_range (mem (ota_dev s)) 0x9c000 (unat (s_ota_block_addr s)) = take (unat (s_ota_block_addr s)) data"
    using r by (auto simp: sink_receiving_def sink_base_def)
  have pos: "0 < length c" using c(1) by simp
  note ar = block_arith [OF pos c(2)]
  show ?thesis
  proof (cases "?full \<or> ?last")
    case False
    then have "sink_receiving m0 n (data @ c) (env, mem, s1)"
      using s1 s1' f ar(3) c(2) by (simp add: sink_receiving_def sink_base_def)
    then show ?thesis using w False by (auto simp: t sink_write_def)
  next
    case True
    obtain ret s2 where fl: "my_ota_flash_flush env s1 ?last = (ret, s2)" by fastforce
    have wr: "sink_write c t = Some (ret, Some ?last, (env, mem, s2))" using w True fl by (simp add: t sink_write_def)
    note law = sink_flush_law [OF r c s1 fl]
    have pre: "unat (s_ota_buf_offset s1) \<le> MY_OTA_BUFFER_SIZE" "unat (s_ota_block_addr s1) \<le> 0x8e000" "s_ota_buf_offset s1 \<noteq> 0 \<or> ?last"
      using s1(2,3) c f pos r by (auto simp: sink_receiving_def simp flip: unat_eq_0)
    note fs = flush_spec(3,4) [OF f(1) s1(1) pre fl]
    have "sink_receiving m0 n (data @ c) (env, mem, s2)" if z: "ret = 0" "\<not> ?last"
    proof -
      have L: "length (data @ c) = length data div MY_OTA_BUFFER_SIZE * MY_OTA_BUFFER_SIZE + MY_OTA_BUFFER_SIZE"
        using ar(2) True z by simp
      then have "mem_range (mem (ota_dev s2)) 0x9c000 (length (data @ c)) = data @ c"
        using law(2) [OF z(1)] ar(1) by auto
      then show ?thesis using law(1) law(3) [OF z(1)] z(2) L fs s1' f(3,4)
        by (simp add: sink_receiving_def)
    qed
    moreover have "sink_stored m0 (data @ c) (env, mem, s2)" if "ret = 0"
      using law(1) law(2) [OF that] law(3) [OF that] by (simp add: sink_stored_def)
    ultimately show ?thesis using wr law(1) by auto
  qed
qed

interpretation slot: image_sink sink_base sink_receiving sink_stored sink_base sink_open sink_write
proof unfold_locales
  show "length data < n" if "sink_receiving m n data s" for m n data and s :: "'d ota_state"
    using that by (cases s) (simp add: sink_receiving_def)
qed (rule sink_open_law sink_write_law; assumption)+

section \<open>A healthy device\<close>

text \<open>The device is present and every access inside the image slot succeeds.\<close>

definition flash_healthy :: "'d ota_env \<Rightarrow> bool" where
  "flash_healthy env \<longleftrightarrow> flash_dev env \<and>
     (\<forall>d a bs. 0x9c000 \<le> a \<and> a + length bs \<le> 0x9c000 + 0x8e000 \<longrightarrow> fst (fl_write env d a bs) = 0) \<and>
     (\<forall>d a n. 0x9c000 \<le> a \<and> a + n \<le> 0x9c000 + 0x8e000 \<longrightarrow> fst (fl_read env d a n) = 0) \<and>
     (\<forall>d a n. 0x9c000 \<le> a \<and> a + n \<le> 0x9c000 + 0x8e000 \<longrightarrow> fst (fl_erase env d a n) = 0)"

lemma fst_eq_ex: "fst p = x \<Longrightarrow> \<exists>y. p = (x, y)"
  by (cases p) simp

lemma flash_healthyD:
  assumes "flash_healthy env" "0x9c000 \<le> a"
  shows "a + length bs \<le> 0x12a000 \<Longrightarrow> \<exists>d'. fl_write env d a bs = (0, d')"
    and "a + n \<le> 0x12a000 \<Longrightarrow> \<exists>bs. fl_read env d a n = (0, bs)"
    and "a + n \<le> 0x12a000 \<Longrightarrow> \<exists>d'. fl_erase env d a n = (0, d')"
  using assms by (auto simp: flash_healthy_def intro!: fst_eq_ex)

lemma flush_healthy:
  assumes ok: "flash_ok env mem" "flash_healthy env" and len: "length (s_ota_buf s) = MY_OTA_BUFFER_SIZE"
    and off: "unat (s_ota_buf_offset s) \<le> MY_OTA_BUFFER_SIZE" and addr: "unat (s_ota_block_addr s) + MY_OTA_BUFFER_SIZE \<le> 0x8e000"
  shows "fst (my_ota_flash_flush env s is_last) = 0"
proof (cases "s_ota_buf_offset s = 0 \<and> \<not> is_last")
  case True
  then show ?thesis by (simp add: my_ota_flash_flush_def)
next
  case False
  let ?o = "unat (s_ota_buf_offset s)" and ?a = "0x9c000 + unat (s_ota_block_addr s)"
  define buf where "buf = (if ?o < MY_OTA_BUFFER_SIZE then mem_put (s_ota_buf s) ?o (replicate (MY_OTA_BUFFER_SIZE - ?o) 0xFF) else s_ota_buf s)"
  have lb: "length buf = MY_OTA_BUFFER_SIZE" using len by (simp add: buf_def)
  have a: "unat (PARTITION_OFFSET + s_ota_block_addr s) = ?a" using addr by (subst unat_add_small) simp_all
  obtain d1 where w: "fl_write env (ota_dev s) ?a buf = (0, d1)"
    using flash_healthyD(1) [OF ok(2), of ?a buf "ota_dev s"] addr lb by auto
  obtain bs where r: "fl_read env d1 ?a MY_OTA_BUFFER_SIZE = (0, bs)"
    using flash_healthyD(2) [OF ok(2), of ?a "1024" d1] addr by auto
  have "bs = buf" using flash_ok_read [OF ok(1) r] flash_ok_write_same [OF ok(1) w] lb by simp
  then have "mem_put buf 0 bs = buf" by (simp add: mem_put_def)
  moreover have "flash_dev env" using ok(2) by (simp add: flash_healthy_def)
  ultimately show ?thesis using w r a unfolding my_ota_flash_flush_def if_not_P [OF False] Let_def buf_def [symmetric]
    by (simp add: my_ota_flash_write_def my_ota_flash_read_def)
qed

lemma sink_write_healthy:
  assumes h: "flash_healthy env" and r: "sink_receiving m0 n data (env, mem, s)"
    and c: "c \<noteq> []" "length data mod MY_OTA_BUFFER_SIZE + length c \<le> MY_OTA_BUFFER_SIZE"
  shows "\<exists>l s'. sink_write c (env, mem, s) = Some (0, l, (env, mem, s'))"
proof -
  let ?full = "length data mod MY_OTA_BUFFER_SIZE + length c = MY_OTA_BUFFER_SIZE" and ?last = "n \<le> length (data @ c)"
  obtain s1 where w: "my_ota_flash_write_block env s (Some c) (of_nat (length c)) =
      (if ?full \<or> ?last then case my_ota_flash_flush env s1 ?last of (r, s2) \<Rightarrow> Some (r, Some ?last, s2) else Some (0, Some False, s1))"
    and s1: "length (s_ota_buf s1) = MY_OTA_BUFFER_SIZE" "unat (s_ota_buf_offset s1) = length data mod MY_OTA_BUFFER_SIZE + length c"
      "s_ota_block_addr s1 = s_ota_block_addr s"
    using write_block_copy [OF r c] by metis
  have f: "flash_ok env mem" "n \<le> 0x8e000" "length data < n" "unat (s_ota_block_addr s) = length data div MY_OTA_BUFFER_SIZE * MY_OTA_BUFFER_SIZE"
    using r by (auto simp: sink_receiving_def sink_base_def)
  have "length data div MY_OTA_BUFFER_SIZE \<le> 567" using f(2,3) by linarith
  then have "fst (my_ota_flash_flush env s1 ?last) = 0" using s1 c(2) f(4) by (intro flush_healthy [OF f(1) h]) auto
  then show ?thesis using w by (cases "my_ota_flash_flush env s1 ?last") (auto simp: sink_write_def)
qed

lemma erase_loop_healthy:
  assumes "flash_healthy env" "0x9c000 \<le> unat a" "unat a + (unat n + 4095) div 4096 * 4096 \<le> 0x9c000 + 0x8e000"
  shows "fst (erase_loop env d a n) = 0"
  using assms(2,3)
proof (induction "unat n" arbitrary: d a n rule: less_induct)
  case less
  show ?case
  proof (cases "n = 0")
    case True
    then show ?thesis by (simp add: erase_loop.simps)
  next
    case False
    then have n0: "0 < n" "1 \<le> unat n" by (auto simp: word_gt_0 Suc_le_eq unat_gt_0)
    then have "1 \<le> (unat n + 4095) div 4096" by linarith
    then have "unat a + 4096 \<le> 0x9c000 + 0x8e000" using less.prems(2) by linarith
    then obtain d1 where e: "fl_erase env d (unat a) 4096 = (0, d1)"
      using flash_healthyD(3) [OF assms(1) less.prems(1), of 4096 d] by auto
    show ?thesis
    proof (cases "4096 < n")
      case True
      then have big: "4096 < unat n" by (simp add: word_less_nat_alt)
      have sub: "unat (n - 4096) = unat n - 4096" using big by (subst unat_sub_le) simp_all
      have dv: "(unat n + 4095) div 4096 = (unat n - 4096 + 4095) div 4096 + 1" using big by linarith
      have add: "unat (a + 4096) = unat a + 4096" using less.prems(2) by (subst unat_add_small) simp_all
      have "fst (erase_loop env d1 (a + 4096) (n - 4096)) = 0"
        using less.hyps [of "n - 4096" "a + 4096" d1] less.prems sub add big dv by simp
      then show ?thesis using True e n0 by (subst erase_loop.simps) simp
    next
      case False
      then show ?thesis using e n0 by (subst erase_loop.simps) simp
    qed
  qed
qed

lemma open_healthy:
  assumes "flash_healthy env" "s_ota_busy s" "0 < unat w" "unat w \<le> 0x8e000"
  shows "fst (my_ota_flash_open env s w) = 0"
proof -
  have "(unat w + 4095) div 4096 * 4096 \<le> (0x8e000 + 4095) div 4096 * (4096 :: nat)"
    using assms(4) by (intro mult_le_mono1 div_le_mono) simp
  then have "fst (erase_loop env (ota_dev s) 0x9c000 w) = 0" by (intro erase_loop_healthy [OF assms(1)]) simp_all
  moreover have "w \<noteq> 0" "\<not> 0x8e000 < w" using assms(3,4) by (auto simp: word_less_nat_alt)
  ultimately show ?thesis using assms(1,2)
    by (simp add: my_ota_flash_open_def my_ota_flash_erase_def flash_healthy_def case_prod_beta)
qed

definition ram_ota_env :: "(nat \<Rightarrow> u8) ota_env" where
  "ram_ota_env = flash_ops.extend ram_flash \<lparr>flash_dev = True\<rparr>"

definition ram_ota :: "(nat \<Rightarrow> u8) ota" where
  "ram_ota = \<lparr>s_ota_busy = True, s_ota_buf = replicate MY_OTA_BUFFER_SIZE 0, s_ota_buf_offset = 0, s_ota_block_addr = 0,
     s_ota_total_written = 0, s_ota_file_size = 0, s_ota_reset_timer = None, ota_dev = \<lambda>_. 0\<rparr>"

lemma ram_ota_ok: "flash_ok ram_ota_env (\<lambda>d. d)"
  by (auto simp: flash_ok_def ram_ota_env_def ram_flash_def flash_ops.defs)

lemma ram_ota_healthy: "flash_healthy ram_ota_env"
  by (simp add: flash_healthy_def ram_ota_env_def ram_flash_def flash_ops.defs)

section \<open>Properties of the image sink\<close>

lemma sink_write_all_env:
  "sink_write_all sink_write cs (env, mem, s) = Some (r, l, t) \<Longrightarrow> \<exists>s'. t = (env, mem, s')"
proof (induction cs arbitrary: s)
  case (Cons c cs)
  then show ?case
    by (cases cs) (auto simp: sink_write_def split: option.splits if_splits)
qed auto

text \<open>
  C7: an image that was announced with its size and handed over block by block is stored
  exactly. For every splitting into non-empty blocks that do not cross a 1024 byte boundary,
  if every call succeeds then the last one reports the end of the file, and the slot holds
  the image byte for byte; whether or not a call fails, no byte of the flash outside
  the slot is changed and no access leaves the buffer.
\<close>

theorem ota_image_stored:
  assumes "flash_ok env mem" "s_ota_busy s" "length (s_ota_buf s) = MY_OTA_BUFFER_SIZE"
    and "my_ota_flash_open env s w = (0, s1)"
    and "chunks_fit (unat w) 0 cs" "length (concat cs) = unat w" "cs \<noteq> []"
  shows "\<exists>r l s'. sink_write_all sink_write cs (env, mem, s1) = Some (r, l, (env, mem, s')) \<and>
     outside_slot (mem (ota_dev s)) (mem (ota_dev s')) \<and>
     (r = 0 \<longrightarrow> l = Some True \<and> mem_range (mem (ota_dev s')) 0x9c000 (unat w) = concat cs)"
proof -
  have base: "sink_base (mem (ota_dev s)) (env, mem, s)" using assms(1-3) by (simp add: sink_base_def outside_slot_def)
  have opn: "sink_open w (env, mem, s) = (0, (env, mem, s1))" using assms(4) by (simp add: sink_open_def)
  obtain r l t where run: "sink_write_all sink_write cs (env, mem, s1) = Some (r, l, t)"
    "if r = 0 then l = Some True \<and> sink_stored (mem (ota_dev s)) (concat cs) t else sink_base (mem (ota_dev s)) t"
    using slot.sink_session_spec [OF base opn assms(5-7)] by blast
  obtain s' where t: "t = (env, mem, s')" using sink_write_all_env [OF run(1)] by blast
  have "mem_range (mem (ota_dev s')) 0x9c000 (unat w) = concat cs" if z: "r = 0"
  proof -
    obtain k where "mem_range (mem (ota_dev s')) 0x9c000 (unat w + k) = concat cs @ replicate k 0xFF"
      using run(2) z assms(6) by (auto simp: t sink_stored_def)
    then show ?thesis using assms(6) by (simp add: mem_range_append)
  qed
  moreover have "outside_slot (mem (ota_dev s)) (mem (ota_dev s'))"
    using run(2) by (auto simp: t sink_stored_def sink_base_def split: if_splits)
  ultimately show ?thesis using run t by (auto split: if_splits)
qed

theorem ota_image_stored_witness:
  "\<exists>s1. my_ota_flash_open ram_ota_env ram_ota 3 = (0, s1) \<and>
     (\<exists>r l s'. sink_write_all sink_write [[1, 2], [3]] (ram_ota_env, \<lambda>d. d, s1) = Some (r, l, (ram_ota_env, \<lambda>d. d, s')) \<and>
        (r = 0 \<longrightarrow> l = Some True \<and> mem_range (ota_dev s') 0x9c000 3 = [1, 2, 3]))"
proof -
  have e: "\<exists>s1. my_ota_flash_open ram_ota_env ram_ota 3 = (0, s1)"
    by (simp add: my_ota_flash_open_def ram_ota_def my_ota_flash_erase_def erase_loop.simps ram_ota_env_def ram_flash_def
        flash_ops.defs)
  then obtain s1 where s1: "my_ota_flash_open ram_ota_env ram_ota 3 = (0, s1)" by blast
  then show ?thesis
    using ota_image_stored [OF ram_ota_ok _ _ s1, of "[[1, 2], [3]]"] by (fastforce simp: ram_ota_def)
qed

text \<open>
  Opening a session, on every branch. Without the session lock, for an empty
  image and for one larger than the slot it returns the documented code and changes
  nothing; an erase error is reported as \<open>-EIO\<close> and keeps the lock; on
  success the whole range of the image is erased, nothing outside the slot changes, and the
  buffer is empty.
\<close>

lemma my_ota_flash_open_spec:
  assumes "flash_ok env mem" "my_ota_flash_open env s w = (r, s')"
  shows "if \<not> s_ota_busy s then r = -EBUSY \<and> s' = s
     else if w = 0 then r = -EINVAL \<and> s' = s
     else if 0x8e000 < unat w then r = -EFBIG \<and> s' = s
     else s_ota_busy s' \<and> outside_slot (mem (ota_dev s)) (mem (ota_dev s')) \<and>
       (if r = 0 then mem_range (mem (ota_dev s')) 0x9c000 (unat w) = replicate (unat w) 0xFF \<and>
          my_ota_flash_cache_remain s' = 1024 \<and> s_ota_total_written s' = 0 \<and> s_ota_file_size s' = w
        else r = -EIO)"
proof (cases "s_ota_busy s \<and> w \<noteq> 0 \<and> unat w \<le> 0x8e000")
  case False
  then show ?thesis using assms(2) by (auto simp: my_ota_flash_open_def word_less_nat_alt split: if_splits)
next
  case True
  obtain ret d' where e: "my_ota_flash_erase env (ota_dev s) 0 w = (ret, d')" by fastforce
  have "\<not> 0x8e000 < w" using True by (simp add: word_less_nat_alt)
  then show ?thesis
    using True assms(2) e my_ota_flash_erase_outside [OF assms(1) _ e]
    by (auto simp: my_ota_flash_open_def my_ota_flash_cache_remain_def split: if_splits)
qed

text \<open>
  The read-back check catches a block that differs from what was written in exactly one
  byte, whatever the device does: the flush fails with \<open>-EIO\<close> and the block address
  is not advanced.
\<close>

lemma flush_detects_corruption:
  assumes "flash_dev env" "s_ota_buf_offset s \<noteq> 0 \<or> is_last"
    and "take (unat (s_ota_buf_offset s)) (s_ota_buf s) @ replicate (MY_OTA_BUFFER_SIZE - unat (s_ota_buf_offset s)) 0xFF = xs @ b # ys"
    and "length (s_ota_buf s) = MY_OTA_BUFFER_SIZE" "unat (s_ota_buf_offset s) \<le> MY_OTA_BUFFER_SIZE"
    and "fl_write env (ota_dev s) (unat (0x9c000 + s_ota_block_addr s)) (xs @ b # ys) = (0, d1)"
    and "fl_read env d1 (unat (0x9c000 + s_ota_block_addr s)) MY_OTA_BUFFER_SIZE = (0, xs @ b' # ys)" "b \<noteq> b'"
  shows "\<exists>s'. my_ota_flash_flush env s is_last = (-EIO, s') \<and> s_ota_block_addr s' = s_ota_block_addr s"
proof -
  let ?o = "unat (s_ota_buf_offset s)"
  have buf: "(if ?o < MY_OTA_BUFFER_SIZE then mem_put (s_ota_buf s) ?o (replicate (MY_OTA_BUFFER_SIZE - ?o) 0xFF) else s_ota_buf s) = xs @ b # ys"
    using assms(3-5) by (auto simp: mem_put_write)
  have "length (xs @ b # ys) = MY_OTA_BUFFER_SIZE" using assms(3-5) by (metis buf length_mem_put)
  then have put: "mem_put (xs @ b # ys) 0 (xs @ b' # ys) = xs @ b' # ys" by (simp add: mem_put_def)
  have ne: "my_crc16_calc (xs @ b # ys) MY_OTA_CRC16_POLYNOMIAL \<noteq> my_crc16_calc (xs @ b' # ys) MY_OTA_CRC16_POLYNOMIAL"
    using crc16_a001.detects_byte_error [OF assms(8)] by (simp add: my_crc16_calc_def)
  have noop: "\<not> (s_ota_buf_offset s = 0 \<and> \<not> is_last)" using assms(2) by auto
  show ?thesis unfolding my_ota_flash_flush_def if_not_P [OF noop] buf Let_def
    using assms(1,6,7) ne by (simp add: my_ota_flash_write_def my_ota_flash_read_def put)
qed

section \<open>The session lock\<close>

text \<open>The calls of the two update clients, in any order.\<close>

datatype ota_op = Occupy | Open u32 | Write "bytes option" u32 | Close bool | Reset u32

definition ota_step :: "'d ota_env \<Rightarrow> ota_op \<Rightarrow> 'd ota \<Rightarrow> (bool \<times> 'd ota) option" where
  "ota_step env op s =
     (case op of
        Occupy \<Rightarrow> Some (my_ota_flash_occupy s)
      | Open w \<Rightarrow> Some (False, snd (my_ota_flash_open env s w))
      | Write data len \<Rightarrow> map_option (\<lambda>(_, _, s'). (False, s')) (my_ota_flash_write_block env s data len)
      | Close ok \<Rightarrow> Some (False, snd (my_ota_flash_close env s ok))
      | Reset ms \<Rightarrow> Some (False, my_ota_flash_schedule_reset s ms))"

text \<open>The list of results: which calls obtained the session.\<close>

primrec ota_run :: "'d ota_env \<Rightarrow> ota_op list \<Rightarrow> 'd ota \<Rightarrow> (bool list \<times> 'd ota) option" where
  "ota_run env [] s = Some ([], s)"
| "ota_run env (op # ops) s =
     (case ota_step env op s of
        None \<Rightarrow> None
      | Some (got, s1) \<Rightarrow> map_option (\<lambda>(gs, s2). (got # gs, s2)) (ota_run env ops s1))"

lemma flush_busy: "s_ota_busy (snd (my_ota_flash_flush env s l)) = s_ota_busy s"
  by (simp add: my_ota_flash_flush_def Let_def case_prod_beta)

lemma ota_step_busy:
  assumes "ota_step env op s = Some (got, s')" "s_ota_busy s" "\<forall>ok. op \<noteq> Close ok"
  shows "\<not> got \<and> s_ota_busy s'"
proof (cases op)
  case (Write data len)
  then show ?thesis using assms flush_busy [of env]
    by (auto simp: ota_step_def my_ota_flash_write_block_def Let_def bind_eq_Some_conv case_prod_beta
        split: option.splits if_splits)
qed (use assms in \<open>auto simp: ota_step_def my_ota_flash_occupy_def my_ota_flash_open_def my_ota_flash_schedule_reset_def
      case_prod_beta split: if_splits\<close>)

lemma ota_run_length: "ota_run env ops s = Some (gs, s') \<Longrightarrow> length gs = length ops"
  by (induction ops arbitrary: s gs s') (auto split: option.splits)

lemma ota_run_busy:
  assumes "ota_run env ops s = Some (gs, s')" "s_ota_busy s" "j < length gs" "gs ! j"
  shows "\<exists>k < j. \<exists>ok. ops ! k = Close ok"
  using assms
proof (induction ops arbitrary: s gs j)
  case (Cons op ops)
  obtain got s1 gs1 where run: "ota_step env op s = Some (got, s1)" "ota_run env ops s1 = Some (gs1, s')" "gs = got # gs1"
    using Cons.prems(1) by (auto split: option.splits)
  show ?case
  proof (cases "\<exists>ok. op = Close ok")
    case True
    then obtain ok where "op = Close ok" by blast
    moreover have "j \<noteq> 0" using Cons.prems(4) run calculation by (cases j) (auto simp: ota_step_def)
    ultimately show ?thesis by (intro exI [of _ 0]) auto
  next
    case False
    then have b: "\<not> got" "s_ota_busy s1" using ota_step_busy [OF run(1) Cons.prems(2)] by auto
    then obtain i where "j = Suc i" using Cons.prems(4) run(3) by (cases j) auto
    then show ?thesis using Cons.IH [OF run(2) b(2), of i] Cons.prems(3,4) run(3) by (auto intro: exI [of _ "Suc _"])
  qed
qed simp

text \<open>
  Mutual exclusion of the update sources. In every sequence of calls of the module
  by any number of clients, between two successful requests for the session there is
  a close: at no time do two clients hold the session.
\<close>

lemma ota_session_exclusive:
  assumes "ota_run env ops s = Some (gs, s')" "i < j" "j < length ops" "gs ! i" "gs ! j"
  shows "\<exists>k ok. i < k \<and> k < j \<and> ops ! k = Close ok"
  using assms
proof (induction ops arbitrary: s gs i j)
  case (Cons op ops)
  obtain got s1 gs1 where run: "ota_step env op s = Some (got, s1)" "ota_run env ops s1 = Some (gs1, s')" "gs = got # gs1"
    using Cons.prems(1) by (auto split: option.splits)
  obtain j1 where j: "j = Suc j1" using Cons.prems(2) by (cases j) auto
  show ?case
  proof (cases i)
    case 0
    then have "op = Occupy" "s_ota_busy s1" using Cons.prems(4) run
      by (auto simp: ota_step_def my_ota_flash_occupy_def split: ota_op.splits if_splits)
    then show ?thesis using ota_run_busy [OF run(2), of j1] Cons.prems(3,5) run(3) j 0 ota_run_length [OF run(2)]
      by (auto intro: exI [of _ "Suc _"])
  next
    case (Suc i1)
    then show ?thesis using Cons.IH [OF run(2), of i1 j1] Cons.prems(2-5) run(3) j by (auto intro: exI [of _ "Suc _"])
  qed
qed simp

end
