(* ===== verification/Dfu_Jimi.thy ===== *)
theory Dfu_Jimi
  imports Ota_Flash
begin

text \<open>
  Model of \<^verbatim>\<open>src/my_dfu_jimi.c\<close>: the firmware update over BLE. The device asks the phone for the
  image piece by piece, choosing the size of each piece from the MTU and the room in the
  sink's buffer; each piece carries its address, length and a CRC16. The static variables
  are one record that contains the sink's state; responses, messages to the main thread
  and the request to the boot loader are appended to an output trace. The MTU
  and the battery level are inputs. A handler's data pointer is the list of bytes readable from
  it, which may be longer than the frame; \<open>None\<close> is a read outside it.
\<close>

section \<open>State\<close>

abbreviation (input) JIMI_DFU_START :: u8 where "JIMI_DFU_START \<equiv> 1"
abbreviation (input) JIMI_DFU_FILE_SIZE :: u8 where "JIMI_DFU_FILE_SIZE \<equiv> 2"
abbreviation (input) JIMI_DFU_FILE_IMAGE :: u8 where "JIMI_DFU_FILE_IMAGE \<equiv> 3"
abbreviation (input) JIMI_DFU_FILE_END :: u8 where "JIMI_DFU_FILE_END \<equiv> 4"
abbreviation (input) JIMI_DFU_END_RESP_OK :: u8 where "JIMI_DFU_END_RESP_OK \<equiv> 0"
abbreviation (input) JIMI_DFU_END_RESP_ERROR :: u8 where "JIMI_DFU_END_RESP_ERROR \<equiv> 1"
abbreviation (input) JIMI_DFU_END_RESP_SIZE :: u8 where "JIMI_DFU_END_RESP_SIZE \<equiv> 3"
abbreviation (input) JIMI_DFU_END_RESP_TIME_OUT :: u8 where "JIMI_DFU_END_RESP_TIME_OUT \<equiv> 4"

datatype dfu_msg = MY_MSG_DFU_START | MY_MSG_DFU_FAIL | MY_MSG_DFU_COMPLETE | MY_MSG_DFU_TIMEOUT

datatype dfu_out =
    Response u8 bytes
  | Packet string
  | Message dfu_msg
  | Boot_Request_Upgrade

datatype dfu_work = Retry_Work | Timeout_Work

record jimi_dfu_image_info =
  fw_copy_src_addr :: u32
  fw_copy_dst_addr :: u32
  fw_copy_size :: u32

record 'd dfu =
  s_dfu_image :: jimi_dfu_image_info
  s_req_file_addr :: u32
  s_repeat_req_count :: u8
  s_dfu_end_flag :: bool
  s_file_trans_wait_timer :: "nat option"
  s_work :: "dfu_work list"
  dfu_ota :: "'d ota"
  dfu_trace :: "dfu_out list"

record dfu_in =
  g_ble_server_mtu :: u16
  show_percent :: int

definition emit :: "dfu_out \<Rightarrow> 'd dfu \<Rightarrow> 'd dfu" where
  "emit x st = st\<lparr>dfu_trace := dfu_trace st @ [x]\<rparr>"

text \<open>The ten byte response buffer whose first byte is a result code.\<close>

definition end_response :: "u8 \<Rightarrow> dfu_out" where
  "end_response code = Response JIMI_DFU_FILE_END (code # replicate 9 0)"

section \<open>Requests\<close>

definition jimi_dfu_calc_pkt_size :: "u16 \<Rightarrow> u32 \<Rightarrow> u16 \<Rightarrow> u16" where
  "jimi_dfu_calc_pkt_size mtu remain_size buf_remain =
     (let max_data = (if mtu > 23 then mtu - 3 - 20 else 128);
          p0 = (if mtu \<ge> 384
                then let p = (max_data div 128) * 128
                     in if p \<ge> 384 then 384 else if p \<ge> 256 then 256 else if p < 128 then 128 else p
                else 128);
          p1 = (if p0 > buf_remain
                then let p = (buf_remain div 128) * 128 in if p < 128 then 128 else p
                else p0);
          p2 = (if ucast p1 > remain_size then ucast remain_size else p1)
      in if p2 mod 16 \<noteq> 0 then ((p2 + 15) div 16) * 16 else p2)"

definition jimi_dfu_image_down_req :: "u32 \<Rightarrow> u32 \<Rightarrow> 'd dfu \<Rightarrow> 'd dfu" where
  "jimi_dfu_image_down_req addr len = emit (Response JIMI_DFU_FILE_IMAGE (le32 addr @ le32 len @ [0, 0]))"

definition ota_close :: "'d ota_env \<Rightarrow> bool \<Rightarrow> 'd dfu \<Rightarrow> 'd dfu" where
  "ota_close env ok st = st\<lparr>dfu_ota := snd (my_ota_flash_close env (dfu_ota st) ok)\<rparr>"

section \<open>Timers\<close>

definition dfu_timeout_work_handler :: "'d ota_env \<Rightarrow> 'd dfu \<Rightarrow> 'd dfu" where
  "dfu_timeout_work_handler env st =
     emit (Message MY_MSG_DFU_TIMEOUT) (ota_close env False (emit (end_response JIMI_DFU_END_RESP_TIME_OUT) st))"

definition dfu_retry_work_handler :: "dfu_in \<Rightarrow> 'd dfu \<Rightarrow> 'd dfu" where
  "dfu_retry_work_handler inp st =
     (let remain = fw_copy_size (s_dfu_image st) - s_req_file_addr st;
          buf_remain = my_ota_flash_cache_remain (dfu_ota st);
          retry_pkt_size = jimi_dfu_calc_pkt_size (g_ble_server_mtu inp) remain buf_remain
      in (jimi_dfu_image_down_req (s_req_file_addr st) (ucast retry_pkt_size) st)\<lparr>s_file_trans_wait_timer := Some 1000\<rparr>)"

definition dfu_timer_wait_callback :: "'d dfu \<Rightarrow> 'd dfu" where
  "dfu_timer_wait_callback st0 =
     (let st = st0\<lparr>s_file_trans_wait_timer := None, s_repeat_req_count := s_repeat_req_count st0 + 1\<rparr>
      in if s_repeat_req_count st \<le> 10 then st\<lparr>s_work := s_work st @ [Retry_Work]\<rparr>
         else st\<lparr>s_repeat_req_count := 0, s_work := s_work st @ [Timeout_Work]\<rparr>)"

text \<open>The work queue runs the oldest item.\<close>

definition dfu_run_work :: "'d ota_env \<Rightarrow> dfu_in \<Rightarrow> 'd dfu \<Rightarrow> 'd dfu" where
  "dfu_run_work env inp st =
     (case s_work st of
        [] \<Rightarrow> st
      | Retry_Work # ws \<Rightarrow> dfu_retry_work_handler inp (st\<lparr>s_work := ws\<rparr>)
      | Timeout_Work # ws \<Rightarrow> dfu_timeout_work_handler env (st\<lparr>s_work := ws\<rparr>))"

section \<open>Commands\<close>

definition jimi_dfu_start :: "dfu_in \<Rightarrow> 'd dfu \<Rightarrow> 'd dfu" where
  "jimi_dfu_start inp st =
     (if show_percent inp < 10 then emit (Packet ''DFU start, battery low'') st
      else case my_ota_flash_occupy (dfu_ota st) of (got, ota) \<Rightarrow>
        if \<not> got then st\<lparr>dfu_ota := ota\<rparr>
        else emit (Message MY_MSG_DFU_START)
               (emit (Response JIMI_DFU_START (replicate 10 0)) (st\<lparr>dfu_ota := ota, s_dfu_end_flag := False\<rparr>)))"

definition jimi_dfu_rx_file_size :: "'d ota_env \<Rightarrow> dfu_in \<Rightarrow> bytes \<Rightarrow> u16 \<Rightarrow> 'd dfu \<Rightarrow> 'd dfu option" where
  "jimi_dfu_rx_file_size env inp data len st = do {
     hd \<leftarrow> mem_read data 0 4;
     let file_size = of_le32 (hd ! 0) (hd ! 1) (hd ! 2) (hd ! 3);
     let st1 = st\<lparr>s_dfu_image := \<lparr>fw_copy_src_addr = 0x9c000, fw_copy_dst_addr = 0xe000, fw_copy_size = file_size\<rparr>\<rparr>;
     if file_size > PARTITION_SIZE
     then Some (ota_close env False (emit (end_response JIMI_DFU_END_RESP_SIZE) st1))
     else case my_ota_flash_open env (dfu_ota st1) file_size of (ret, ota) \<Rightarrow>
       let st2 = st1\<lparr>dfu_ota := ota\<rparr>
       in if ret \<noteq> 0
          then Some (ota_close env False (emit (end_response JIMI_DFU_END_RESP_ERROR) st2))
          else
            let first_pkt_size = jimi_dfu_calc_pkt_size (g_ble_server_mtu inp) file_size (my_ota_flash_cache_remain ota)
            in Some ((jimi_dfu_image_down_req 0 (ucast first_pkt_size) st2)
                 \<lparr>s_req_file_addr := 0, s_repeat_req_count := 0, s_file_trans_wait_timer := Some 3000\<rparr>) }"

definition jimi_dfu_write_image :: "'d ota_env \<Rightarrow> dfu_in \<Rightarrow> bytes \<Rightarrow> u16 \<Rightarrow> 'd dfu \<Rightarrow> 'd dfu option" where
  "jimi_dfu_write_image env inp data len st = do {
     hd \<leftarrow> mem_read data 0 8;
     let wrt_addr = of_le32 (hd ! 0) (hd ! 1) (hd ! 2) (hd ! 3);
     let wrt_len = of_le32 (hd ! 4) (hd ! 5) (hd ! 6) (hd ! 7);
     c1 \<leftarrow> mem_read data (unat (8 + wrt_len)) 1;
     c2 \<leftarrow> mem_read data (unat (9 + wrt_len)) 1;
     let rx_crc = push_bit 8 (ucast (c1 ! 0)) OR ucast (c2 ! 0);
     body \<leftarrow> mem_read data 8 (unat (ucast wrt_len :: u16));
     let calc_crc = my_crc16_calc body 0xA001;
     if ucast len \<noteq> wrt_len + 10 then Some st
     else if calc_crc \<noteq> rx_crc then Some st
     else if wrt_addr \<noteq> s_req_file_addr st then Some st
     else do {
       let st1 = st\<lparr>s_file_trans_wait_timer := None\<rparr>;
       (ret, l, ota) \<leftarrow> my_ota_flash_write_block env (dfu_ota st1) (Some (drop 8 data)) wrt_len;
       let st2 = st1\<lparr>dfu_ota := ota\<rparr>;
       if ret \<noteq> 0
       then Some (emit (Message MY_MSG_DFU_FAIL) (ota_close env False (emit (end_response JIMI_DFU_END_RESP_ERROR) st2)))
       else if l = Some True
       then let st3 = emit Boot_Request_Upgrade
                  (ota_close env True (emit (end_response JIMI_DFU_END_RESP_OK) (st2\<lparr>s_dfu_end_flag := True\<rparr>)));
                st4 = emit (Message MY_MSG_DFU_COMPLETE) st3
            in Some (st4\<lparr>dfu_ota := my_ota_flash_schedule_reset (dfu_ota st4) 6500\<rparr>)
       else let addr = wrt_addr + wrt_len;
                remain = fw_copy_size (s_dfu_image st2) - addr;
                next_pkt_size = jimi_dfu_calc_pkt_size (g_ble_server_mtu inp) remain (my_ota_flash_cache_remain (dfu_ota st2))
            in Some ((jimi_dfu_image_down_req addr (ucast next_pkt_size) (st2\<lparr>s_repeat_req_count := 0, s_req_file_addr := addr\<rparr>))
                 \<lparr>s_file_trans_wait_timer := Some 3000\<rparr>) } }"

definition jimi_dfu_end_image :: "'d ota_env \<Rightarrow> 'd dfu \<Rightarrow> 'd dfu" where
  "jimi_dfu_end_image env st =
     (let st1 = ota_close env False (st\<lparr>s_file_trans_wait_timer := None\<rparr>)
      in st1\<lparr>dfu_ota := my_ota_flash_schedule_reset (dfu_ota st1) 1000\<rparr>)"

text \<open>The handler table, ended by opcode 0, and its linear search.\<close>

datatype dfu_handler = H_Start | H_File_Size | H_Image | H_End

definition g_jimi_dfu_handler_tbl :: "(u8 \<times> dfu_handler option) list" where
  "g_jimi_dfu_handler_tbl = [(JIMI_DFU_START, Some H_Start), (JIMI_DFU_FILE_SIZE, Some H_File_Size),
     (JIMI_DFU_FILE_IMAGE, Some H_Image), (JIMI_DFU_FILE_END, Some H_End), (0, None)]"

fun dfu_lookup :: "(u8 \<times> dfu_handler option) list \<Rightarrow> u8 \<Rightarrow> dfu_handler option" where
  "dfu_lookup [] cmd = None"
| "dfu_lookup ((opcode, h) # tbl) cmd =
     (if opcode = 0 then None else if opcode = cmd then h else dfu_lookup tbl cmd)"

definition jimi_dfu_cmd_handler :: "'d ota_env \<Rightarrow> dfu_in \<Rightarrow> u8 \<Rightarrow> bytes \<Rightarrow> u16 \<Rightarrow> 'd dfu \<Rightarrow> 'd dfu option" where
  "jimi_dfu_cmd_handler env inp cmd data len st =
     (case dfu_lookup g_jimi_dfu_handler_tbl cmd of
        None \<Rightarrow> Some st
      | Some H_Start \<Rightarrow> Some (jimi_dfu_start inp st)
      | Some H_File_Size \<Rightarrow> jimi_dfu_rx_file_size env inp data len st
      | Some H_Image \<Rightarrow> jimi_dfu_write_image env inp data len st
      | Some H_End \<Rightarrow> Some (jimi_dfu_end_image env st))"

section \<open>The size of a request\<close>

lemma unat_round_down:
  fixes x :: u16
  shows "unat ((x div 128) * 128) = unat x div 128 * 128"
proof -
  have "unat x div 128 * 128 < 65536" using unat_u16_lt [of x] by (rule le_less_trans [OF div_times_less_eq_dividend])
  then show ?thesis by (simp add: unat_word_ariths unat_div)
qed

text \<open>The size in natural numbers.\<close>

definition pkt_size :: "nat \<Rightarrow> nat \<Rightarrow> nat \<Rightarrow> nat" where
  "pkt_size mtu remain room =
     (let p0 = (if mtu \<ge> 407 then 384 else if mtu \<ge> 384 then 256 else 128);
          p1 = (if p0 > room then (if room < 256 then 128 else 256) else p0)
      in if p1 > remain then (remain + 15) div 16 * 16 else p1)"

lemma pkt_base_size:
  fixes mtu :: u16
  defines "m \<equiv> (if mtu > 23 then mtu - 3 - 20 else 128)"
  shows "(if mtu \<ge> 384
     then let p = (m div 128) * 128 in if p \<ge> 384 then 384 else if p \<ge> 256 then 256 else if p < 128 then 128 else p
     else 128) = (if unat mtu \<ge> 407 then 384 else if unat mtu \<ge> 384 then 256 else (128 :: u16))"
proof (cases "mtu \<ge> 384")
  case True
  then have u: "384 \<le> unat mtu" by (simp add: word_le_nat_alt)
  have "m = mtu - 23" using True u by (simp add: m_def word_less_nat_alt)
  then have m: "unat m = unat mtu - 23" using u by (simp add: unat_sub_le)
  have r: "unat ((m div 128) * 128) = (unat mtu - 23) div 128 * 128" by (simp add: unat_round_down m)
  have "2 \<le> (unat mtu - 23) div 128" using u by linarith
  moreover have "3 \<le> (unat mtu - 23) div 128 \<longleftrightarrow> 407 \<le> unat mtu" using u by linarith
  ultimately show ?thesis using True u r unfolding Let_def by (auto simp: word_le_nat_alt)
next
  case False
  then show ?thesis by (simp add: word_le_nat_alt)
qed

lemma calc_pkt_size_eq:
  "unat (jimi_dfu_calc_pkt_size mtu remain room) = pkt_size (unat mtu) (unat remain) (unat room)"
proof -
  let ?p0 = "if unat mtu \<ge> 407 then 384 else if unat mtu \<ge> 384 then 256 else (128 :: u16)"
  let ?p1 = "if ?p0 > room then let p = (room div 128) * 128 in if p < 128 then 128 else p else ?p0"
  let ?q1 = "if unat ?p0 > unat room then (if unat room < 256 then 128 else 256) else unat ?p0"
  have p1: "unat ?p1 = ?q1"
  proof (cases "?p0 > room")
    case True
    have le: "unat ?p0 \<le> 384" by simp
    have lt: "unat room < unat ?p0" using True by (simp only: word_less_nat_alt)
    then have "unat room < 384" using le by linarith
    then have "unat room div 128 = 0 \<or> unat room div 128 = 1 \<or> unat room div 128 = 2" by linarith
    moreover have "unat room div 128 = 2 \<longleftrightarrow> \<not> unat room < 256" using \<open>unat room < 384\<close> by linarith
    ultimately have "unat (let p = (room div 128) * 128 in if p < 128 then 128 else p) = (if unat room < 256 then 128 else 256)"
      using unat_round_down [of room] unfolding Let_def by (auto simp: word_less_nat_alt)
    then show ?thesis using True lt by (simp only: if_True)
  next
    case False
    then show ?thesis by (simp only: word_less_nat_alt) simp
  qed
  have q1: "?q1 mod 16 = 0" "?q1 \<le> 384" by auto
  define P where "P = ?p1"
  have P: "unat P = ?q1" unfolding P_def by (rule p1)
  let ?p2 = "if ucast P > remain then ucast remain else P"
  have p2: "unat ?p2 = (if ?q1 > unat remain then unat remain else ?q1)"
  proof -
    have c: "ucast P > remain \<longleftrightarrow> ?q1 > unat remain" by (simp only: word_less_nat_alt unat_ucast_16_32 P)
    show ?thesis
    proof (cases "?q1 > unat remain")
      case True
      then have "unat remain < 65536" using q1(2) by linarith
      then show ?thesis using True by (simp only: c if_True unat_ucast_32_16)
    next
      case False
      then show ?thesis by (simp only: c if_False P)
    qed
  qed
  define w where "w = ?p2"
  have w: "unat w \<le> 384" using p2 q1(2) unfolding w_def by (auto split: if_splits)
  have "unat (((w + 15) div 16) * 16) = (unat w + 15) div 16 * 16"
  proof -
    have a: "unat (w + 15) = unat w + 15" using w by (subst unat_add_small) simp_all
    have "(unat w + 15) div 16 * 16 < 65536" using w by (intro le_less_trans [OF div_times_less_eq_dividend]) simp
    then show ?thesis using a by (simp add: unat_word_ariths unat_div)
  qed
  moreover have "w mod 16 \<noteq> 0 \<longleftrightarrow> unat w mod 16 \<noteq> 0"
    by (simp add: unat_mod flip: unat_eq_0)
  ultimately have "unat (if w mod 16 \<noteq> 0 then ((w + 15) div 16) * 16 else w) = (unat w + 15) div 16 * 16"
    by auto
  moreover have "jimi_dfu_calc_pkt_size mtu remain room = (if w mod 16 \<noteq> 0 then ((w + 15) div 16) * 16 else w)"
    unfolding jimi_dfu_calc_pkt_size_def Let_def pkt_base_size [unfolded Let_def] w_def P_def ..
  moreover have "pkt_size (unat mtu) (unat remain) (unat room) = (if ?q1 > unat remain then (unat remain + 15) div 16 * 16 else ?q1)"
    unfolding pkt_size_def Let_def by simp
  moreover have "(?q1 + 15) div 16 * 16 = ?q1" by auto
  ultimately show ?thesis using p2 unfolding w_def by (auto split: if_splits)
qed

lemma pkt_size_bounds:
  shows "16 dvd pkt_size mtu remain room" "pkt_size mtu remain room \<le> 384"
    and "128 \<le> room \<Longrightarrow> pkt_size mtu remain room \<le> room"
    and "0 < remain \<Longrightarrow> 0 < pkt_size mtu remain room"
    and "remain < pkt_size mtu remain room \<Longrightarrow> pkt_size mtu remain room < remain + 16"
    and "pkt_size mtu remain room < remain \<Longrightarrow> 128 dvd pkt_size mtu remain room"
    and "151 \<le> mtu \<Longrightarrow> pkt_size mtu remain room \<le> mtu - 23"
proof -
  define p1 :: nat where "p1 = (let p0 = (if mtu \<ge> 407 then 384 else if mtu \<ge> 384 then 256 else 128)
      in if p0 > room then (if room < 256 then 128 else 256) else p0)"
  have p1: "p1 = 128 \<or> p1 = 256 \<or> p1 = 384" "128 \<le> room \<Longrightarrow> p1 \<le> room" "151 \<le> mtu \<Longrightarrow> p1 \<le> mtu - 23"
    unfolding p1_def Let_def by auto
  have eq: "pkt_size mtu remain room = (if p1 > remain then (remain + 15) div 16 * 16 else p1)"
    unfolding pkt_size_def p1_def Let_def by simp
  have le: "(remain + 15) div 16 * 16 \<le> p1" if "remain < p1"
  proof -
    have "remain + 15 < p1 + 16" using that by linarith
    then have "(remain + 15) div 16 < (p1 + 16) div 16" using p1(1) by auto
    then show ?thesis using p1(1) by auto
  qed
  have up: "remain \<le> (remain + 15) div 16 * 16" "(remain + 15) div 16 * 16 < remain + 16" by linarith+
  show "16 dvd pkt_size mtu remain room" "pkt_size mtu remain room \<le> 384"
    "128 \<le> room \<Longrightarrow> pkt_size mtu remain room \<le> room" "151 \<le> mtu \<Longrightarrow> pkt_size mtu remain room \<le> mtu - 23"
    using p1 le unfolding eq by (auto intro: order_trans)
  show "0 < remain \<Longrightarrow> 0 < pkt_size mtu remain room" using p1(1) up(1) unfolding eq by auto
  show "remain < pkt_size mtu remain room \<Longrightarrow> pkt_size mtu remain room < remain + 16"
    using up(2) unfolding eq by (auto split: if_splits)
  show "pkt_size mtu remain room < remain \<Longrightarrow> 128 dvd pkt_size mtu remain room"
    using p1(1) up(1) unfolding eq by (auto split: if_splits)
qed

text \<open>
  The size of a request. It is a multiple of 16 (the cipher block), never above
  384, never above the room in the sink's buffer as long as that is at least 128,
  positive while data remain, at most the remaining data rounded up to 16, a multiple of
  128 unless it ends the file, and it fits the MTU if the MTU leaves at least 128 bytes.
\<close>

lemma calc_pkt_size_spec:
  "let p = unat (jimi_dfu_calc_pkt_size mtu remain room) in
     16 dvd p \<and> p \<le> 384 \<and> (128 \<le> unat room \<longrightarrow> p \<le> unat room) \<and> (0 < unat remain \<longrightarrow> 0 < p) \<and>
     (unat remain < p \<longrightarrow> p < unat remain + 16) \<and> (p < unat remain \<longrightarrow> 128 dvd p) \<and>
     (151 \<le> unat mtu \<longrightarrow> p \<le> unat mtu - 23)"
  unfolding Let_def calc_pkt_size_eq by (intro conjI impI pkt_size_bounds)

section \<open>A complete transfer\<close>

text \<open>The phone: it answers the last request with the bytes asked for, padded with zeros past the end of the file.\<close>

definition piece :: "bytes \<Rightarrow> nat \<Rightarrow> nat \<Rightarrow> bytes" where
  "piece f a n = take n (drop a (f @ replicate n 0))"

definition phone_frame :: "bytes \<Rightarrow> u32 \<Rightarrow> u32 \<Rightarrow> bytes" where
  "phone_frame f a n =
     (let c = piece f (unat a) (unat n); crc = my_crc16_calc c 0xA001
      in le32 a @ le32 n @ c @ [ucast (drop_bit 8 crc), ucast crc])"

definition last_request :: "dfu_out list \<Rightarrow> (u32 \<times> u32) option" where
  "last_request tr =
     (case rev tr of
        Response cmd b # _ \<Rightarrow>
          if cmd = JIMI_DFU_FILE_IMAGE
          then Some (of_le32 (b ! 0) (b ! 1) (b ! 2) (b ! 3), of_le32 (b ! 4) (b ! 5) (b ! 6) (b ! 7)) else None
      | _ \<Rightarrow> None)"

definition phone_step :: "'d ota_env \<Rightarrow> dfu_in \<Rightarrow> bytes \<Rightarrow> 'd dfu \<Rightarrow> 'd dfu option" where
  "phone_step env inp f st =
     (case last_request (dfu_trace st) of
        None \<Rightarrow> None
      | Some (a, n) \<Rightarrow> jimi_dfu_cmd_handler env inp JIMI_DFU_FILE_IMAGE (phone_frame f a n) (ucast n + 10) st)"

primrec phone_run :: "nat \<Rightarrow> 'd ota_env \<Rightarrow> dfu_in \<Rightarrow> bytes \<Rightarrow> 'd dfu \<Rightarrow> 'd dfu option" where
  "phone_run 0 env inp f st = Some st"
| "phone_run (Suc k) env inp f st = (case phone_step env inp f st of None \<Rightarrow> None | Some st' \<Rightarrow> phone_run k env inp f st')"

lemma last_request_down_req [simp]:
  "last_request (dfu_trace (jimi_dfu_image_down_req a n st)) = Some (a, n)"
  by (simp add: jimi_dfu_image_down_req_def emit_def last_request_def le32_def)

lemma of_le32_0: "of_le32 0 0 0 0 = 0"
  by (simp add: of_le32_def)

lemma crc_bytes: "push_bit 8 (ucast (ucast (drop_bit 8 w) :: u8)) OR ucast (ucast w :: u8) = (w :: u16)"
  by (rule bit_word_eqI) (auto simp: bit_simps)

text \<open>A correct frame at the expected address reaches the sink.\<close>

lemma write_image_frame:
  assumes c: "length c = unat n" "unat n \<le> 384" and a: "s_req_file_addr st = a"
    and data: "data = le32 a @ le32 n @ c @ [ucast (drop_bit 8 (my_crc16_calc c 0xA001)), ucast (my_crc16_calc c 0xA001)]"
  shows "jimi_dfu_write_image env inp data (ucast n + 10) st =
     (let st1 = st\<lparr>s_file_trans_wait_timer := None\<rparr> in
      case my_ota_flash_write_block env (dfu_ota st) (Some (drop 8 data)) n of
        None \<Rightarrow> None
      | Some (ret, l, ota) \<Rightarrow>
          let st2 = st1\<lparr>dfu_ota := ota\<rparr> in
          if ret \<noteq> 0
          then Some (emit (Message MY_MSG_DFU_FAIL) (ota_close env False (emit (end_response JIMI_DFU_END_RESP_ERROR) st2)))
          else if l = Some True
          then let st3 = emit Boot_Request_Upgrade
                     (ota_close env True (emit (end_response JIMI_DFU_END_RESP_OK) (st2\<lparr>s_dfu_end_flag := True\<rparr>)));
                   st4 = emit (Message MY_MSG_DFU_COMPLETE) st3
               in Some (st4\<lparr>dfu_ota := my_ota_flash_schedule_reset (dfu_ota st4) 6500\<rparr>)
          else let remain = fw_copy_size (s_dfu_image st2) - (a + n);
                   next_pkt_size = jimi_dfu_calc_pkt_size (g_ble_server_mtu inp) remain (my_ota_flash_cache_remain (dfu_ota st2))
               in Some ((jimi_dfu_image_down_req (a + n) (ucast next_pkt_size) (st2\<lparr>s_repeat_req_count := 0, s_req_file_addr := a + n\<rparr>))
                    \<lparr>s_file_trans_wait_timer := Some 3000\<rparr>))"
proof -
  let ?crc = "my_crc16_calc c 0xA001"
  have len: "length data = 10 + unat n" using c(1) by (simp add: data)
  have h: "mem_read data 0 8 = Some (le32 a @ le32 n)" by (simp add: mem_read_def data)
  have dec: "of_le32 ((le32 a @ le32 n) ! 0) ((le32 a @ le32 n) ! 1) ((le32 a @ le32 n) ! 2) ((le32 a @ le32 n) ! 3) = a"
    "of_le32 ((le32 a @ le32 n) ! 4) ((le32 a @ le32 n) ! 5) ((le32 a @ le32 n) ! 6) ((le32 a @ le32 n) ! 7) = n"
    by (simp_all add: le32_def)
  have ix: "unat (8 + n) = 8 + unat n" "unat (9 + n) = 9 + unat n" "unat (ucast n :: u16) = unat n"
    using c(2) by (simp_all add: unat_add_small unat_ucast_32_16)
  have c1: "mem_read data (8 + unat n) (Suc 0) = Some [ucast (drop_bit 8 ?crc)]" "mem_read data (9 + unat n) (Suc 0) = Some [ucast ?crc]"
    using c(1) by (simp_all add: mem_read_def data)
  have body: "mem_read data 8 (unat n) = Some c" using c(1) by (simp add: mem_read_def data)
  have "unat (ucast n + 10 :: u16) = unat n + 10" using ix(3) c(2) by (subst unat_add_small) simp_all
  then have l: "ucast (ucast n + 10 :: u16) = n + 10"
    using c(2) by (simp add: word_unat_eq_iff unat_add_small)
  show ?thesis
    unfolding jimi_dfu_write_image_def h bind.bind_lunit dec ix c1 body
    by (simp add: a l crc_bytes Let_def dec ix c1 body split: option.splits)
qed

text \<open>
  The state between two pieces: \<open>k\<close> bytes of the file have been handed to the sink, \<open>k\<close> is a
  multiple of 128, and the request for the next piece is on its way.
\<close>

definition dfu_waiting :: "(nat \<Rightarrow> u8) \<Rightarrow> 'd ota_env \<Rightarrow> ('d \<Rightarrow> nat \<Rightarrow> u8) \<Rightarrow> dfu_in \<Rightarrow> bytes \<Rightarrow> nat \<Rightarrow> 'd dfu \<Rightarrow> bool" where
  "dfu_waiting m0 env mem inp f k st \<longleftrightarrow>
     sink_receiving m0 (length f) (take k f) (env, mem, dfu_ota st) \<and> 128 dvd k \<and>
     unat (fw_copy_size (s_dfu_image st)) = length f \<and> unat (s_req_file_addr st) = k \<and>
     last_request (dfu_trace st) = Some (s_req_file_addr st,
       ucast (jimi_dfu_calc_pkt_size (g_ble_server_mtu inp) (fw_copy_size (s_dfu_image st) - s_req_file_addr st)
         (my_ota_flash_cache_remain (dfu_ota st))))"

text \<open>The end of a transfer: image in place, success reported, upgrade requested, lock free, reset due.\<close>

definition dfu_complete :: "(nat \<Rightarrow> u8) \<Rightarrow> ('d \<Rightarrow> nat \<Rightarrow> u8) \<Rightarrow> bytes \<Rightarrow> 'd dfu \<Rightarrow> bool" where
  "dfu_complete m0 mem f st \<longleftrightarrow>
     mem_range (mem (ota_dev (dfu_ota st))) 0x9c000 (length f) = f \<and> outside_slot m0 (mem (ota_dev (dfu_ota st))) \<and>
     \<not> my_ota_flash_is_busy (dfu_ota st) \<and> s_ota_reset_timer (dfu_ota st) = Some 6500 \<and>
     s_dfu_end_flag st \<and> s_file_trans_wait_timer st = None \<and>
     (\<exists>tr. dfu_trace st = tr @ [end_response JIMI_DFU_END_RESP_OK, Boot_Request_Upgrade, Message MY_MSG_DFU_COMPLETE])"

lemma write_block_prefix:
  "length c = unat n \<Longrightarrow> my_ota_flash_write_block env s (Some (c @ r)) n = my_ota_flash_write_block env s (Some c) n"
  by (simp add: my_ota_flash_write_block_def mem_read_def)

lemma receiving_room:
  assumes "sink_receiving m0 n data (env, mem, s)"
  shows "unat (my_ota_flash_cache_remain s) = MY_OTA_BUFFER_SIZE - length data mod MY_OTA_BUFFER_SIZE"
proof -
  have o: "unat (s_ota_buf_offset s) = length data mod MY_OTA_BUFFER_SIZE" using assms by (simp add: sink_receiving_def)
  then show ?thesis unfolding my_ota_flash_cache_remain_def by (subst unat_sub_le) simp_all
qed

lemma room_128:
  fixes k :: nat
  assumes "128 dvd k"
  shows "128 \<le> MY_OTA_BUFFER_SIZE - k mod MY_OTA_BUFFER_SIZE"
proof -
  have "128 dvd k mod MY_OTA_BUFFER_SIZE" using assms by (intro dvd_mod) simp_all
  moreover have "k mod MY_OTA_BUFFER_SIZE < MY_OTA_BUFFER_SIZE" by simp
  ultimately obtain q where "k mod MY_OTA_BUFFER_SIZE = 128 * q" "q < 8" by (auto elim: dvdE)
  then show ?thesis by simp
qed

lemma piece_prefix: "a \<le> length f \<Longrightarrow> take a f @ piece f a n = take (a + n) (f @ replicate n 0)"
  by (simp add: piece_def take_add)

lemma length_piece: "a \<le> length f \<Longrightarrow> length (piece f a n) = n"
  by (simp add: piece_def)

lemma phone_step_progress:
  assumes h: "flash_healthy env" and w: "dfu_waiting m0 env mem inp f k st"
  shows "\<exists>st'. phone_step env inp f st = Some st' \<and>
     (dfu_complete m0 mem f st' \<or> (\<exists>k'. k < k' \<and> dfu_waiting m0 env mem inp f k' st'))"
proof -
  let ?a = "s_req_file_addr st" and ?s = "dfu_ota st" and ?size = "fw_copy_size (s_dfu_image st)"
  define p where "p = jimi_dfu_calc_pkt_size (g_ble_server_mtu inp) (?size - ?a) (my_ota_flash_cache_remain ?s)"
  define n where "n = unat p"
  have f: "sink_receiving m0 (length f) (take k f) (env, mem, ?s)" "128 dvd k" "unat ?size = length f" "unat ?a = k"
    "last_request (dfu_trace st) = Some (?a, ucast p)"
    using w by (auto simp: dfu_waiting_def p_def)
  have "length (take k f) < length f" using f(1) by (simp add: sink_receiving_def)
  then have k: "k < length f" by simp
  have len: "length f \<le> 0x8e000" using f(1) by (simp add: sink_receiving_def)
  have room: "unat (my_ota_flash_cache_remain ?s) = MY_OTA_BUFFER_SIZE - k mod MY_OTA_BUFFER_SIZE"
    using receiving_room [OF f(1)] k by simp
  have rem: "unat (?size - ?a) = length f - k" using f(3,4) k by (simp add: unat_sub_le)
  have n: "n = pkt_size (unat (g_ble_server_mtu inp)) (length f - k) (MY_OTA_BUFFER_SIZE - k mod MY_OTA_BUFFER_SIZE)"
    unfolding n_def p_def calc_pkt_size_eq rem room ..
  note nb = pkt_size_bounds [where mtu = "unat (g_ble_server_mtu inp)" and remain = "length f - k"
      and room = "MY_OTA_BUFFER_SIZE - k mod MY_OTA_BUFFER_SIZE", folded n]
  have n1: "n \<le> 384" "n \<le> MY_OTA_BUFFER_SIZE - k mod MY_OTA_BUFFER_SIZE" "0 < n"
    using nb(2) nb(3) [OF room_128 [OF f(2)]] nb(4) k by simp_all
  let ?c = "piece f k n"
  have c: "length ?c = n" "?c \<noteq> []" "length (take k f) mod MY_OTA_BUFFER_SIZE + length ?c \<le> MY_OTA_BUFFER_SIZE"
    using length_piece [of k f n] k n1 by (auto simp: min_def)
  have un: "unat (ucast p :: u32) = n" by (simp add: n_def)
  have wlen: "of_nat (length ?c) = (ucast p :: u32)" using c(1) un n1(1) by (simp add: word_unat_eq_iff unat_of_nat)
  obtain l s' where sw: "sink_write ?c (env, mem, ?s) = Some (0, l, (env, mem, s'))"
    using sink_write_healthy [OF h f(1) c(2,3)] by blast
  then have law: "l = Some (length f \<le> length (take k f @ ?c))"
    "if length f \<le> length (take k f @ ?c) then sink_stored m0 (take k f @ ?c) (env, mem, s')
     else sink_receiving m0 (length f) (take k f @ ?c) (env, mem, s')"
    using sink_write_law [OF f(1) c(2,3)] by auto
  have total: "length (take k f @ ?c) = k + n" using c(1) k by simp
  have wb: "my_ota_flash_write_block env ?s (Some ?c) (ucast p) = Some (0, l, s')"
    using sw by (auto simp: sink_write_def wlen)
  let ?data = "le32 ?a @ le32 (ucast p) @ ?c @ [ucast (drop_bit 8 (my_crc16_calc ?c 0xA001)), ucast (my_crc16_calc ?c 0xA001)]"
  have fr: "phone_frame f ?a (ucast p) = ?data" by (simp add: phone_frame_def Let_def f(4) n_def)
  have wb': "my_ota_flash_write_block env ?s (Some (drop 8 ?data)) (ucast p) = Some (0, l, s')"
    using wb write_block_prefix [of ?c "ucast p" env ?s] c(1) un by simp
  have step: "phone_step env inp f st = jimi_dfu_write_image env inp ?data (ucast (ucast p :: u32) + 10) st"
    by (simp add: phone_step_def f(5) jimi_dfu_cmd_handler_def g_jimi_dfu_handler_tbl_def fr)
  note wi = write_image_frame [OF c(1) [folded un] _ refl refl, where st = st and env = env and inp = inp, unfolded un, OF n1(1), unfolded wb' Let_def option.case prod.case]
  show ?thesis
  proof (cases "length f \<le> k + n")
    case True
    have st: "sink_stored m0 (take k f @ ?c) (env, mem, s')" and l: "l = Some True" using law True total by auto
    have pre: "take (length f) (take k f @ ?c) = f" using True k by (simp add: piece_prefix)
    obtain j where "mem_range (mem (ota_dev s')) 0x9c000 (length (take k f @ ?c) + j) = (take k f @ ?c) @ replicate j 0xFF"
      using st by (auto simp: sink_stored_def)
    then have "take (length f) (mem_range (mem (ota_dev s')) 0x9c000 (k + n + j)) = f"
      using pre True total by (metis take_append diff_is_0_eq' take_0 append_Nil2)
    then have img: "mem_range (mem (ota_dev s')) 0x9c000 (length f) = f"
      using take_drop_mem_range [of 0 "length f" "k + n + j" "mem (ota_dev s')" "0x9c000"] True by simp
    have s0: "s_ota_buf_offset s' = 0" "outside_slot m0 (mem (ota_dev s'))" "s_ota_busy s'"
      using st by (auto simp: sink_stored_def sink_base_def)
    show ?thesis unfolding step wi using l img s0
      by (auto simp: dfu_complete_def emit_def ota_close_def my_ota_flash_close_def my_ota_flash_schedule_reset_def my_ota_flash_is_busy_def)
  next
    case False
    have l: "l = Some False" and rc: "sink_receiving m0 (length f) (take k f @ ?c) (env, mem, s')" using law False total by auto
    have "take k f @ ?c = take (k + n) f" using False k by (simp add: piece_prefix)
    moreover have "128 dvd k + n" using nb(6) f(2) False by simp
    moreover have "unat (?a + ucast p) = k + n" using f(4) un False len by (subst unat_add_small) simp_all
    ultimately have "dfu_waiting m0 env mem inp f (k + n)
        ((jimi_dfu_image_down_req (?a + ucast p) (ucast (jimi_dfu_calc_pkt_size (g_ble_server_mtu inp) (?size - (?a + ucast p)) (my_ota_flash_cache_remain s')))
           (st\<lparr>s_file_trans_wait_timer := None, dfu_ota := s', s_repeat_req_count := 0, s_req_file_addr := ?a + ucast p\<rparr>))
           \<lparr>s_file_trans_wait_timer := Some 3000\<rparr>)"
      using rc f(3) by (simp add: dfu_waiting_def jimi_dfu_image_down_req_def emit_def last_request_def le32_def)
    then show ?thesis unfolding step wi using l n1(3) by (auto intro!: exI [of _ "k + n"])
  qed
qed

lemma phone_run_completes:
  assumes h: "flash_healthy env" and "dfu_waiting m0 env mem inp f k st"
  shows "\<exists>r st'. phone_run r env inp f st = Some st' \<and> dfu_complete m0 mem f st'"
  using assms(2)
proof (induction "length f - k" arbitrary: k st rule: less_induct)
  case less
  have k: "k < length f" using less.prems by (auto simp: dfu_waiting_def sink_receiving_def)
  obtain st1 where s1: "phone_step env inp f st = Some st1"
    "dfu_complete m0 mem f st1 \<or> (\<exists>k'. k < k' \<and> dfu_waiting m0 env mem inp f k' st1)"
    using phone_step_progress [OF h less.prems] by blast
  show ?case
  proof (cases "dfu_complete m0 mem f st1")
    case True
    then show ?thesis using s1(1) by (intro exI [of _ "Suc 0"]) simp
  next
    case False
    then obtain k' where k': "k < k'" "dfu_waiting m0 env mem inp f k' st1" using s1(2) by blast
    then have "length f - k' < length f - k" using k by linarith
    then obtain r st' where "phone_run r env inp f st1 = Some st'" "dfu_complete m0 mem f st'"
      using less.hyps [OF _ k'(2)] by blast
    then show ?thesis using s1(1) by (intro exI [of _ "Suc r"] exI [of _ st']) simp
  qed
qed

text \<open>
  C4: an update over BLE completes. On a healthy flash, with the battery at ten percent or
  more and no other session open, for every firmware image that fits the slot and every MTU: after the start
  command, the size announcement and finitely many pieces sent by a phone that answers each
  request, the image is in the slot byte for byte, success has been reported, the upgrade
  requested from the boot loader, the session released, the reset scheduled, and no byte
  outside the slot has changed.
\<close>

theorem ble_update_completes:
  assumes "flash_ok env mem" "flash_healthy env" "10 \<le> show_percent inp"
    and "\<not> my_ota_flash_is_busy (dfu_ota st)" "length (s_ota_buf (dfu_ota st)) = MY_OTA_BUFFER_SIZE"
    and "0 < length f" "length f \<le> 0x8e000"
  shows "\<exists>st1 st2 st3 r.
     jimi_dfu_cmd_handler env inp JIMI_DFU_START [] 0 st = Some st1 \<and>
     jimi_dfu_cmd_handler env inp JIMI_DFU_FILE_SIZE (le32 (of_nat (length f))) 4 st1 = Some st2 \<and>
     phone_run r env inp f st2 = Some st3 \<and> dfu_complete (mem (ota_dev (dfu_ota st))) mem f st3"
proof -
  let ?m0 = "mem (ota_dev (dfu_ota st))" and ?n = "of_nat (length f) :: u32"
  define st1 where "st1 = jimi_dfu_start inp st"
  have h1: "jimi_dfu_cmd_handler env inp JIMI_DFU_START [] 0 st = Some st1"
    by (simp add: jimi_dfu_cmd_handler_def g_jimi_dfu_handler_tbl_def st1_def)
  have o1: "dfu_ota st1 = (dfu_ota st)\<lparr>s_ota_busy := True\<rparr>"
    using assms(3,4) by (simp add: st1_def jimi_dfu_start_def my_ota_flash_occupy_def my_ota_flash_is_busy_def emit_def)
  have n: "unat ?n = length f" using assms(7) by (simp add: unat_of_nat)
  obtain s2 where opn: "my_ota_flash_open env (dfu_ota st1) ?n = (0, s2)"
    using fst_eq_ex [OF open_healthy [OF assms(2), of "dfu_ota st1" ?n]] n o1 assms(6,7) by auto
  have "sink_base ?m0 (env, mem, dfu_ota st1)" using assms(1,5) o1 by (simp add: sink_base_def outside_slot_def)
  then have rc: "sink_receiving ?m0 (length f) [] (env, mem, s2)"
    using sink_open_law [of ?m0 "(env, mem, dfu_ota st1)" ?n 0 "(env, mem, s2)"] opn n by (simp add: sink_open_def)
  have big: "\<not> ?n > 0x8e000" using n assms(7) by (simp add: word_less_nat_alt)
  have rd: "mem_read (le32 ?n) 0 4 = Some (le32 ?n)" by (simp add: mem_read_def)
  have dec: "of_le32 (le32 ?n ! 0) (le32 ?n ! Suc 0) (le32 ?n ! 2) (le32 ?n ! 3) = ?n" by (simp add: le32_def)
  let ?st2 = "(jimi_dfu_image_down_req 0 (ucast (jimi_dfu_calc_pkt_size (g_ble_server_mtu inp) ?n (my_ota_flash_cache_remain s2)))
      (st1\<lparr>s_dfu_image := \<lparr>fw_copy_src_addr = 0x9c000, fw_copy_dst_addr = 0xe000, fw_copy_size = ?n\<rparr>, dfu_ota := s2\<rparr>))
      \<lparr>s_req_file_addr := 0, s_repeat_req_count := 0, s_file_trans_wait_timer := Some 3000\<rparr>"
  have h2: "jimi_dfu_cmd_handler env inp JIMI_DFU_FILE_SIZE (le32 ?n) 4 st1 = Some ?st2"
    using opn big by (simp add: jimi_dfu_cmd_handler_def g_jimi_dfu_handler_tbl_def jimi_dfu_rx_file_size_def rd dec Let_def)
  have "dfu_waiting ?m0 env mem inp f 0 ?st2"
    using rc n by (simp add: dfu_waiting_def jimi_dfu_image_down_req_def emit_def last_request_def le32_def of_le32_0)
  then show ?thesis using h1 h2 phone_run_completes [OF assms(2)] by blast
qed

definition ram_dfu :: "(nat \<Rightarrow> u8) dfu" where
  "ram_dfu = \<lparr>s_dfu_image = \<lparr>fw_copy_src_addr = 0, fw_copy_dst_addr = 0, fw_copy_size = 0\<rparr>, s_req_file_addr = 0,
     s_repeat_req_count = 0, s_dfu_end_flag = False, s_file_trans_wait_timer = None, s_work = [],
     dfu_ota = ram_ota\<lparr>s_ota_busy := False\<rparr>, dfu_trace = []\<rparr>"

theorem ble_update_completes_witness:
  "\<exists>st1 st2 st3 r.
     jimi_dfu_cmd_handler ram_ota_env \<lparr>g_ble_server_mtu = 247, show_percent = 80\<rparr> 1 [] 0 ram_dfu = Some st1 \<and>
     jimi_dfu_cmd_handler ram_ota_env \<lparr>g_ble_server_mtu = 247, show_percent = 80\<rparr> 2 (le32 200) 4 st1 = Some st2 \<and>
     phone_run r ram_ota_env \<lparr>g_ble_server_mtu = 247, show_percent = 80\<rparr> (replicate 200 7) st2 = Some st3 \<and>
     dfu_complete (\<lambda>_. 0) (\<lambda>d. d) (replicate 200 7) st3"
  using ble_update_completes [OF ram_ota_ok ram_ota_healthy, of "\<lparr>g_ble_server_mtu = 247, show_percent = 80\<rparr>" ram_dfu "replicate 200 7"]
  by (simp add: ram_dfu_def ram_ota_def my_ota_flash_is_busy_def)

section \<open>Timeouts\<close>

text \<open>
  Silence, as pairs of the time that has passed, in milliseconds, and the state. The next event is the expiry of
  the wait timer, if it is running: its callback is called and the work item it submits is run. A timer that is
  not running never expires and nothing happens any more.
\<close>

definition expire_round :: "'d ota_env \<Rightarrow> dfu_in \<Rightarrow> nat \<times> 'd dfu \<Rightarrow> nat \<times> 'd dfu" where
  "expire_round env inp x =
     (case s_file_trans_wait_timer (snd x) of
        None \<Rightarrow> x
      | Some ms \<Rightarrow> (fst x + ms, dfu_run_work env inp (dfu_timer_wait_callback (snd x))))"

definition current_request :: "dfu_in \<Rightarrow> 'd dfu \<Rightarrow> dfu_out" where
  "current_request inp st = Response JIMI_DFU_FILE_IMAGE
     (le32 (s_req_file_addr st) @
      le32 (ucast (jimi_dfu_calc_pkt_size (g_ble_server_mtu inp) (fw_copy_size (s_dfu_image st) - s_req_file_addr st)
        (my_ota_flash_cache_remain (dfu_ota st)))) @ [0, 0])"

lemma expire_retry:
  assumes "unat (s_repeat_req_count st) < 10" "s_work st = []" "s_file_trans_wait_timer st = Some ms"
  shows "expire_round env inp (now, st) = (now + ms, st\<lparr>s_repeat_req_count := s_repeat_req_count st + 1,
     dfu_trace := dfu_trace st @ [current_request inp st], s_file_trans_wait_timer := Some 1000, s_work := []\<rparr>)"
proof -
  have "unat (s_repeat_req_count st + 1) = unat (s_repeat_req_count st) + 1" using assms(1) by (subst unat_add_small) simp_all
  then have "s_repeat_req_count st + 1 \<le> 10" using assms(1) by (simp add: word_le_nat_alt)
  then show ?thesis using assms(2,3)
    by (simp add: expire_round_def dfu_timer_wait_callback_def dfu_run_work_def dfu_retry_work_handler_def Let_def
        jimi_dfu_image_down_req_def emit_def current_request_def)
qed

lemma expire_rounds:
  assumes "s_repeat_req_count st = 0" "s_work st = []" "s_file_trans_wait_timer st = Some ms" "k < 10"
  shows "((expire_round env inp) ^^ Suc k) (0, st) = (ms + 1000 * k, st\<lparr>s_repeat_req_count := of_nat (Suc k),
     dfu_trace := dfu_trace st @ replicate (Suc k) (current_request inp st),
     s_file_trans_wait_timer := Some 1000, s_work := []\<rparr>)"
  using assms(4)
proof (induction k)
  case 0
  then show ?case using assms(1-3) expire_retry [of st ms env inp 0] by simp
next
  case (Suc k)
  let ?st = "st\<lparr>s_repeat_req_count := of_nat (Suc k), dfu_trace := dfu_trace st @ replicate (Suc k) (current_request inp st),
     s_file_trans_wait_timer := Some 1000, s_work := []\<rparr>"
  have ih: "((expire_round env inp) ^^ Suc k) (0, st) = (ms + 1000 * k, ?st)" using Suc by simp
  have "current_request inp ?st = current_request inp st" by (simp add: current_request_def)
  moreover have "unat (s_repeat_req_count ?st) < 10" "s_work ?st = []" "s_file_trans_wait_timer ?st = Some 1000"
    using Suc.prems by (simp_all add: unat_of_nat del: of_nat_Suc)
  moreover have "replicate (Suc k) (current_request inp st) @ [current_request inp st] = replicate (Suc (Suc k)) (current_request inp st)"
    using replicate_append_same [of "Suc k"] by simp
  ultimately show ?case using expire_retry [of ?st 1000 env inp "ms + 1000 * k"] ih
    by (simp only: funpow.simps(2) o_apply) (simp add: add.commute)
qed

lemma expire_last:
  assumes "s_repeat_req_count st = 10" "s_work st = []" "s_file_trans_wait_timer st = Some ms"
  shows "expire_round env inp (now, st) = (now + ms, dfu_timeout_work_handler env (st\<lparr>s_file_trans_wait_timer := None,
     s_repeat_req_count := 0, s_work := []\<rparr>))"
  using assms by (simp add: expire_round_def dfu_timer_wait_callback_def dfu_run_work_def Let_def)

lemma expire_stopped: "s_file_trans_wait_timer (snd x) = None \<Longrightarrow> ((expire_round env inp) ^^ k) x = x"
  by (induction k) (simp_all add: expire_round_def)

text \<open>
  C22: a silent phone ends the session. If the wait timer runs for the last request and
  nothing arrives, the same request is repeated exactly ten times, the first time when the timer expires and then
  one second apart, without touching the data received; one second after the tenth repetition the timeout is
  reported to the phone and to the main thread, the session is released, and with the timer stopped
  nothing more is sent. The timer expires only when it was started: without the restart in
  \<open>dfu_retry_work_handler\<close> the timeout would never come.
\<close>

theorem silent_phone_times_out:
  assumes "s_repeat_req_count st = 0" "s_work st = []" "s_file_trans_wait_timer st = Some ms"
  shows "(\<forall>k < 10. \<exists>st'. ((expire_round env inp) ^^ Suc k) (0, st) = (ms + 1000 * k, st') \<and>
       dfu_trace st' = dfu_trace st @ replicate (Suc k) (current_request inp st) \<and> dfu_ota st' = dfu_ota st) \<and>
     (\<exists>st'. (\<forall>k \<ge> 11. ((expire_round env inp) ^^ k) (0, st) = (ms + 10000, st')) \<and>
       dfu_trace st' = dfu_trace st @ replicate 10 (current_request inp st) @
         [end_response JIMI_DFU_END_RESP_TIME_OUT, Message MY_MSG_DFU_TIMEOUT] \<and>
       \<not> my_ota_flash_is_busy (dfu_ota st') \<and> s_file_trans_wait_timer st' = None \<and>
       s_repeat_req_count st' = 0 \<and> s_work st' = [])"
proof (rule conjI)
  show "\<forall>k < 10. \<exists>st'. ((expire_round env inp) ^^ Suc k) (0, st) = (ms + 1000 * k, st') \<and>
       dfu_trace st' = dfu_trace st @ replicate (Suc k) (current_request inp st) \<and> dfu_ota st' = dfu_ota st"
    using expire_rounds [OF assms] by simp
  let ?st10 = "st\<lparr>s_repeat_req_count := 10, dfu_trace := dfu_trace st @ replicate 10 (current_request inp st),
     s_file_trans_wait_timer := Some 1000, s_work := []\<rparr>"
  let ?st' = "dfu_timeout_work_handler env (?st10\<lparr>s_file_trans_wait_timer := None, s_repeat_req_count := 0, s_work := []\<rparr>)"
  have "((expire_round env inp) ^^ 10) (0, st) = (ms + 9000, ?st10)"
    using expire_rounds [OF assms, of 9 env inp] by simp
  then have e: "((expire_round env inp) ^^ 11) (0, st) = (ms + 10000, ?st')"
    using funpow.simps(2) [of 10 "expire_round env inp"] expire_last [of ?st10 1000 env inp "ms + 9000"] by simp
  have stop: "s_file_trans_wait_timer ?st' = None" by (simp add: dfu_timeout_work_handler_def emit_def ota_close_def)
  have "((expire_round env inp) ^^ k) (0, st) = (ms + 10000, ?st')" if "11 \<le> k" for k
    using that e expire_stopped [of "(ms + 10000, ?st')" "k - 11" env inp] stop funpow_add [of "k - 11" 11 "expire_round env inp"]
    by simp
  moreover have "dfu_trace ?st' = dfu_trace st @ replicate 10 (current_request inp st) @
      [end_response JIMI_DFU_END_RESP_TIME_OUT, Message MY_MSG_DFU_TIMEOUT]"
    "\<not> my_ota_flash_is_busy (dfu_ota ?st')" "s_repeat_req_count ?st' = 0" "s_work ?st' = []"
    by (simp_all add: dfu_timeout_work_handler_def emit_def ota_close_def my_ota_flash_is_busy_def my_ota_flash_close_def)
  ultimately show "\<exists>st'. (\<forall>k \<ge> 11. ((expire_round env inp) ^^ k) (0, st) = (ms + 10000, st')) \<and>
       dfu_trace st' = dfu_trace st @ replicate 10 (current_request inp st) @
         [end_response JIMI_DFU_END_RESP_TIME_OUT, Message MY_MSG_DFU_TIMEOUT] \<and>
       \<not> my_ota_flash_is_busy (dfu_ota st') \<and> s_file_trans_wait_timer st' = None \<and>
       s_repeat_req_count st' = 0 \<and> s_work st' = []" using stop by blast
qed

theorem silent_phone_times_out_witness:
  "\<exists>st'. ((expire_round ram_ota_env \<lparr>g_ble_server_mtu = 247, show_percent = 80\<rparr>) ^^ 11)
     (0, ram_dfu\<lparr>s_file_trans_wait_timer := Some 3000\<rparr>) = (13000, st') \<and> \<not> my_ota_flash_is_busy (dfu_ota st')"
proof -
  let ?x = "((expire_round ram_ota_env \<lparr>g_ble_server_mtu = 247, show_percent = 80\<rparr>) ^^ 11)
     (0, ram_dfu\<lparr>s_file_trans_wait_timer := Some 3000\<rparr>)"
  from silent_phone_times_out [of "ram_dfu\<lparr>s_file_trans_wait_timer := Some 3000\<rparr>" 3000 ram_ota_env
      "\<lparr>g_ble_server_mtu = 247, show_percent = 80\<rparr>"]
  obtain st' where "?x = (3000 + 10000, st')" "\<not> my_ota_flash_is_busy (dfu_ota st')"
    by (auto simp: ram_dfu_def simp del: funpow.simps)
  then show ?thesis by simp
qed

section \<open>Safety of the handlers\<close>

text \<open>The part of the sink's state the handlers rely on.\<close>

definition ota_buf_ok :: "'d ota \<Rightarrow> bool" where
  "ota_buf_ok s \<longleftrightarrow> length (s_ota_buf s) = MY_OTA_BUFFER_SIZE \<and> unat (s_ota_buf_offset s) \<le> MY_OTA_BUFFER_SIZE"

lemma write_block_total:
  assumes "ota_buf_ok s" "unat n \<le> length bs" "unat n < 65536"
  shows "\<exists>r l s'. my_ota_flash_write_block env s (Some bs) n = Some (r, l, s')"
proof -
  have sum: "unat (ucast (s_ota_buf_offset s) + n) = unat (s_ota_buf_offset s) + unat n"
    using assms by (subst unat_add_small) (simp_all add: ota_buf_ok_def)
  then have "\<not> ucast (s_ota_buf_offset s) + n > (1024 :: u32) \<Longrightarrow> unat (s_ota_buf_offset s) + unat n \<le> length (s_ota_buf s)"
    using assms(1) by (simp add: word_less_nat_alt ota_buf_ok_def)
  then show ?thesis using assms(2)
    by (auto simp: my_ota_flash_write_block_def mem_read_def mem_write_def Let_def case_prod_beta)
qed

text \<open>
  C23: exactly which image frames make the handler read outside its buffer. For a frame
  whose length field does not wrap, the handler runs without an out-of-bounds access if and only if the buffer
  holds ten bytes more than the length field says: the field is used as an index before it is
  compared with the length of the frame, so a frame that claims more data than the buffer
  holds is read past its end.
\<close>

theorem write_image_out_of_bounds_iff:
  fixes data :: bytes
  defines "wrt_len \<equiv> of_le32 (data ! 4) (data ! 5) (data ! 6) (data ! 7)"
  assumes "8 \<le> length data" "unat wrt_len < 2 ^ 32 - 10" "ota_buf_ok (dfu_ota st)"
  shows "jimi_dfu_write_image env inp data len st = None \<longleftrightarrow> length data < unat wrt_len + 10"
proof -
  have h: "mem_read data 0 8 = Some (take 8 data)" using assms(2) by (simp add: mem_read_def)
  have n: "of_le32 (take 8 data ! 4) (take 8 data ! 5) (take 8 data ! 6) (take 8 data ! 7) = wrt_len"
    using assms(2) by (simp add: wrt_len_def)
  have ix: "unat (8 + wrt_len) = 8 + unat wrt_len" "unat (9 + wrt_len) = 9 + unat wrt_len" "unat (wrt_len + 10) = unat wrt_len + 10"
    using assms(3) by (simp_all add: unat_add_small)
  show ?thesis
  proof (cases "length data < unat wrt_len + 10")
    case True
    then have "mem_read data (unat (9 + wrt_len)) 1 = None" by (simp add: ix mem_read_def)
    then show ?thesis using True unfolding jimi_dfu_write_image_def h bind.bind_lunit Let_def n
      by (cases "mem_read data (unat (8 + wrt_len)) 1") simp_all
  next
    case False
    have c: "mem_read data (unat (8 + wrt_len)) 1 \<noteq> None" "mem_read data (unat (9 + wrt_len)) 1 \<noteq> None"
      using False by (simp_all add: ix mem_simps)
    have "unat (ucast wrt_len :: u16) \<le> unat wrt_len" by (simp add: unsigned_ucast_eq)
    then have b: "mem_read data 8 (unat (ucast wrt_len :: u16)) \<noteq> None" using False by (simp add: mem_simps)
    have "unat wrt_len < 65536" if "ucast len = wrt_len + 10"
      using that ix(3) unat_ucast_16_32 [of len] unat_u16_lt [of len] by (simp add: word_unat_eq_iff)
    then have wb: "\<exists>r l s'. my_ota_flash_write_block env (dfu_ota st) (Some (drop 8 data)) wrt_len = Some (r, l, s')"
      if "ucast len = wrt_len + 10" using that False by (intro write_block_total [OF assms(4)]) auto
    show ?thesis using False c b wb unfolding jimi_dfu_write_image_def h bind.bind_lunit Let_def n
      by (auto simp: bind_eq_None_conv)
  qed
qed

theorem write_image_out_of_bounds_iff_witness:
  "jimi_dfu_write_image ram_ota_env \<lparr>g_ble_server_mtu = 247, show_percent = 80\<rparr> [0, 0, 0, 0, 0, 4, 0, 0, 1, 2] 10 ram_dfu = None"
  using write_image_out_of_bounds_iff [of "[0, 0, 0, 0, 0, 4, 0, 0, 1, 2]" ram_dfu]
  by (simp add: of_le32_def ota_buf_ok_def ram_dfu_def ram_ota_def)

lemma close_idle: "\<not> s_ota_busy (snd (my_ota_flash_close env s ok))"
  by (simp add: my_ota_flash_close_def case_prod_beta)

lemma close_emit:
  "dfu_trace (emit x st) = dfu_trace st @ [x]" "dfu_trace (ota_close env ok st) = dfu_trace st"
  "s_ota_busy (dfu_ota (emit x st)) = s_ota_busy (dfu_ota st)" "\<not> s_ota_busy (dfu_ota (ota_close env ok st))"
  "dfu_trace (jimi_dfu_image_down_req a n st) = dfu_trace st @ [Response JIMI_DFU_FILE_IMAGE (le32 a @ le32 n @ [0, 0])]"
  by (simp_all add: emit_def ota_close_def close_idle jimi_dfu_image_down_req_def)

text \<open>
  Whenever the device tells the phone that the transfer has ended, for whatever reason,
  the update session is free again, so a later attempt is not locked out.
\<close>

lemma end_response_releases_session:
  assumes "jimi_dfu_cmd_handler env inp cmd data len st = Some st'" "dfu_trace st' = dfu_trace st @ out" "end_response code \<in> set out"
  shows "\<not> my_ota_flash_is_busy (dfu_ota st')"
proof -
  consider "st' = st" | "st' = jimi_dfu_start inp st" | "jimi_dfu_rx_file_size env inp data len st = Some st'"
    | "jimi_dfu_write_image env inp data len st = Some st'" | "st' = jimi_dfu_end_image env st"
  proof (cases "dfu_lookup g_jimi_dfu_handler_tbl cmd")
    case None
    then show ?thesis using assms(1) that(1) by (simp add: jimi_dfu_cmd_handler_def)
  next
    case (Some h)
    then show ?thesis using assms(1) that(2-5) by (cases h) (simp_all add: jimi_dfu_cmd_handler_def)
  qed
  then show ?thesis
  proof cases
    case 1
    then show ?thesis using assms(2,3) by simp
  next
    case 2
    then show ?thesis using assms(2,3)
      by (auto simp: jimi_dfu_start_def end_response_def close_emit split: if_splits prod.splits)
  next
    case 3
    then show ?thesis using assms(2,3)
      by (auto simp: jimi_dfu_rx_file_size_def end_response_def close_emit my_ota_flash_is_busy_def bind_eq_Some_conv Let_def case_prod_beta split: if_splits)
  next
    case 4
    then show ?thesis using assms(2,3)
      by (auto simp: jimi_dfu_write_image_def end_response_def close_emit my_ota_flash_is_busy_def my_ota_flash_schedule_reset_def
          bind_eq_Some_conv Let_def case_prod_beta split: if_splits)
  next
    case 5
    then show ?thesis
      by (simp add: jimi_dfu_end_image_def close_emit my_ota_flash_is_busy_def my_ota_flash_schedule_reset_def Let_def)
  qed
qed

text \<open>
  The session lock is only respected by the start command. While another
  source holds the session the start command is refused and changes nothing, but
  an end command from the phone still closes the session that is not its own and schedules
  a reset, and a size announcement that is too large closes it as well.
\<close>

lemma ble_commands_ignore_owner:
  assumes "my_ota_flash_is_busy (dfu_ota st)" "10 \<le> show_percent inp" "0x8e000 < unat w"
  shows "jimi_dfu_cmd_handler env inp JIMI_DFU_START data len st = Some st \<and>
     (\<exists>st'. jimi_dfu_cmd_handler env inp JIMI_DFU_FILE_END data len st = Some st' \<and>
        \<not> my_ota_flash_is_busy (dfu_ota st') \<and> s_ota_reset_timer (dfu_ota st') = Some 1000) \<and>
     (\<exists>st'. jimi_dfu_cmd_handler env inp JIMI_DFU_FILE_SIZE (le32 w) 4 st = Some st' \<and> \<not> my_ota_flash_is_busy (dfu_ota st'))"
proof (intro conjI)
  show "jimi_dfu_cmd_handler env inp JIMI_DFU_START data len st = Some st"
    using assms(1,2) by (simp add: jimi_dfu_cmd_handler_def g_jimi_dfu_handler_tbl_def jimi_dfu_start_def
        my_ota_flash_occupy_def my_ota_flash_is_busy_def)
  show "\<exists>st'. jimi_dfu_cmd_handler env inp JIMI_DFU_FILE_END data len st = Some st' \<and>
        \<not> my_ota_flash_is_busy (dfu_ota st') \<and> s_ota_reset_timer (dfu_ota st') = Some 1000"
    by (simp add: jimi_dfu_cmd_handler_def g_jimi_dfu_handler_tbl_def jimi_dfu_end_image_def Let_def close_emit
        my_ota_flash_is_busy_def my_ota_flash_schedule_reset_def)
  have "mem_read (le32 w) 0 4 = Some (le32 w)" "of_le32 (le32 w ! 0) (le32 w ! Suc 0) (le32 w ! 2) (le32 w ! 3) = w"
    by (simp_all add: mem_read_def) (simp add: le32_def)
  moreover have "0x8e000 < w" using assms(3) by (simp add: word_less_nat_alt)
  ultimately show "\<exists>st'. jimi_dfu_cmd_handler env inp JIMI_DFU_FILE_SIZE (le32 w) 4 st = Some st' \<and> \<not> my_ota_flash_is_busy (dfu_ota st')"
    by (simp add: jimi_dfu_cmd_handler_def g_jimi_dfu_handler_tbl_def jimi_dfu_rx_file_size_def close_emit my_ota_flash_is_busy_def Let_def)
qed

end
