(* ===== verification/Pm.thy ===== *)
theory Pm
  imports Prelude
begin

text \<open>
  Model of \<^verbatim>\<open>src/my_pm.c\<close>: the power manager that keeps, per device, a state
  (not initialised, suspended, resumed) and a table of callbacks, and that resumes and
  suspends the bus of the device through the runtime power management of the operating system.

  The callbacks of a device and the runtime power management act on a state \<open>'w\<close> of the
  outside world. \<open>pm_device_runtime_get\<close> and \<open>pm_device_runtime_put\<close> are
  parameters; their documented usage counting is the predicate \<open>runtime_pm\<close>. Both may
  fail at any time.
\<close>

section \<open>Data\<close>

abbreviation ENOTSUP :: int where "ENOTSUP \<equiv> 134"

datatype my_pm_dev_id = MY_PM_DEV_GSENSOR | MY_PM_DEV_LTE | MY_PM_DEV_MAGNETIC_UART | MY_PM_DEV_BATTERY
  | MY_PM_DEV_BLE | MY_PM_DEV_PWM | MY_PM_DEV_MAX

datatype my_pm_state = MY_PM_STATE_NOT_INIT | MY_PM_STATE_SUSPENDED | MY_PM_STATE_RESUME

text \<open>The device nodes of the buses.\<close>

datatype pm_bus = I2C21_NODE | LTE_UART_NODE | MAGNETIC_UART_NODE | BATTERY_ADC_NODE | BUZZER_PWM_NODE

record 'w pm_device_ops =
  op_suspend :: "('w \<Rightarrow> int \<times> 'w) option"
  op_resume :: "('w \<Rightarrow> int \<times> 'w) option"
  op_init :: "('w \<Rightarrow> int \<times> 'w) option"

record 'w pm_device_ctx =
  ctx_state :: my_pm_state
  ctx_ops :: "'w pm_device_ops option"

record 'w pm_env =
  bus_present :: "pm_bus \<Rightarrow> bool"
  pm_device_runtime_get :: "pm_bus \<Rightarrow> 'w \<Rightarrow> int \<times> 'w"
  pm_device_runtime_put :: "pm_bus \<Rightarrow> 'w \<Rightarrow> int \<times> 'w"

type_synonym 'w pm = "my_pm_dev_id \<Rightarrow> 'w pm_device_ctx"

section \<open>Buses\<close>

definition bus_get :: "'w pm_env \<Rightarrow> pm_bus \<Rightarrow> 'w \<Rightarrow> int \<times> 'w" where
  "bus_get env b w =
     (if \<not> bus_present env b then (-ENODEV, w)
      else case pm_device_runtime_get env b w of (ret, w') \<Rightarrow> if ret < 0 then (ret, w') else (0, w'))"

definition bus_put :: "'w pm_env \<Rightarrow> pm_bus \<Rightarrow> 'w \<Rightarrow> int \<times> 'w" where
  "bus_put env b w =
     (if \<not> bus_present env b then (-ENODEV, w)
      else case pm_device_runtime_put env b w of (ret, w') \<Rightarrow> if ret < 0 then (ret, w') else (0, w'))"

definition my_pm_i2c21_resume :: "'w pm_env \<Rightarrow> 'w \<Rightarrow> int \<times> 'w" where
  "my_pm_i2c21_resume env = bus_get env I2C21_NODE"

definition my_pm_i2c21_suspend :: "'w pm_env \<Rightarrow> 'w \<Rightarrow> int \<times> 'w" where
  "my_pm_i2c21_suspend env = bus_put env I2C21_NODE"

definition my_pm_lte_uart_resume :: "'w pm_env \<Rightarrow> 'w \<Rightarrow> int \<times> 'w" where
  "my_pm_lte_uart_resume env = bus_get env LTE_UART_NODE"

definition my_pm_lte_uart_suspend :: "'w pm_env \<Rightarrow> 'w \<Rightarrow> int \<times> 'w" where
  "my_pm_lte_uart_suspend env = bus_put env LTE_UART_NODE"

definition my_pm_magnetic_uart_resume :: "'w pm_env \<Rightarrow> 'w \<Rightarrow> int \<times> 'w" where
  "my_pm_magnetic_uart_resume env = bus_get env MAGNETIC_UART_NODE"

definition my_pm_magnetic_uart_suspend :: "'w pm_env \<Rightarrow> 'w \<Rightarrow> int \<times> 'w" where
  "my_pm_magnetic_uart_suspend env = bus_put env MAGNETIC_UART_NODE"

definition my_pm_battery_adc_resume :: "'w pm_env \<Rightarrow> 'w \<Rightarrow> int \<times> 'w" where
  "my_pm_battery_adc_resume env = bus_get env BATTERY_ADC_NODE"

definition my_pm_battery_adc_suspend :: "'w pm_env \<Rightarrow> 'w \<Rightarrow> int \<times> 'w" where
  "my_pm_battery_adc_suspend env = bus_put env BATTERY_ADC_NODE"

definition my_pm_buzzer_pwm_resume :: "'w pm_env \<Rightarrow> 'w \<Rightarrow> int \<times> 'w" where
  "my_pm_buzzer_pwm_resume env = bus_get env BUZZER_PWM_NODE"

definition my_pm_buzzer_pwm_suspend :: "'w pm_env \<Rightarrow> 'w \<Rightarrow> int \<times> 'w" where
  "my_pm_buzzer_pwm_suspend env = bus_put env BUZZER_PWM_NODE"

text \<open>The switches over the device; a device without a case is not supported.\<close>

definition bus_resume :: "'w pm_env \<Rightarrow> my_pm_dev_id \<Rightarrow> 'w \<Rightarrow> int \<times> 'w" where
  "bus_resume env d w =
     (case d of
        MY_PM_DEV_GSENSOR \<Rightarrow> my_pm_i2c21_resume env w
      | MY_PM_DEV_LTE \<Rightarrow> my_pm_lte_uart_resume env w
      | MY_PM_DEV_MAGNETIC_UART \<Rightarrow> my_pm_magnetic_uart_resume env w
      | MY_PM_DEV_BATTERY \<Rightarrow> my_pm_battery_adc_resume env w
      | MY_PM_DEV_PWM \<Rightarrow> my_pm_buzzer_pwm_resume env w
      | _ \<Rightarrow> (-ENOTSUP, w))"

definition bus_suspend :: "'w pm_env \<Rightarrow> my_pm_dev_id \<Rightarrow> 'w \<Rightarrow> int \<times> 'w" where
  "bus_suspend env d w =
     (case d of
        MY_PM_DEV_GSENSOR \<Rightarrow> my_pm_i2c21_suspend env w
      | MY_PM_DEV_LTE \<Rightarrow> my_pm_lte_uart_suspend env w
      | MY_PM_DEV_MAGNETIC_UART \<Rightarrow> my_pm_magnetic_uart_suspend env w
      | MY_PM_DEV_BATTERY \<Rightarrow> my_pm_battery_adc_suspend env w
      | MY_PM_DEV_PWM \<Rightarrow> my_pm_buzzer_pwm_suspend env w
      | _ \<Rightarrow> (-ENOTSUP, w))"

text \<open>The switch of the rollback in \<open>my_pm_device_resume\<close>, which has no case for the battery.\<close>

definition bus_rollback :: "'w pm_env \<Rightarrow> my_pm_dev_id \<Rightarrow> 'w \<Rightarrow> int \<times> 'w" where
  "bus_rollback env d w =
     (case d of
        MY_PM_DEV_GSENSOR \<Rightarrow> my_pm_i2c21_suspend env w
      | MY_PM_DEV_LTE \<Rightarrow> my_pm_lte_uart_suspend env w
      | MY_PM_DEV_MAGNETIC_UART \<Rightarrow> my_pm_magnetic_uart_suspend env w
      | MY_PM_DEV_PWM \<Rightarrow> my_pm_buzzer_pwm_suspend env w
      | _ \<Rightarrow> (-ENOTSUP, w))"

section \<open>Operations\<close>

definition pm_set_state :: "my_pm_dev_id \<Rightarrow> my_pm_state \<Rightarrow> 'w pm \<Rightarrow> 'w pm" where
  "pm_set_state d st pm = pm(d := (pm d)\<lparr>ctx_state := st\<rparr>)"

definition pm_drop_ops :: "my_pm_dev_id \<Rightarrow> 'w pm \<Rightarrow> 'w pm" where
  "pm_drop_ops d pm = pm(d := (pm d)\<lparr>ctx_ops := None\<rparr>)"

definition my_pm_init :: "'w pm" where
  "my_pm_init = (\<lambda>_. \<lparr>ctx_state = MY_PM_STATE_NOT_INIT, ctx_ops = None\<rparr>)"

definition my_pm_device_register ::
  "'w pm_env \<Rightarrow> my_pm_dev_id \<Rightarrow> 'w pm_device_ops option \<Rightarrow> 'w pm \<Rightarrow> 'w \<Rightarrow> int \<times> 'w pm \<times> 'w" where
  "my_pm_device_register env d ops pm w =
     (if d = MY_PM_DEV_MAX then (-EINVAL, pm, w)
      else case ops of
        None \<Rightarrow> (-EINVAL, pm, w)
      | Some os \<Rightarrow>
          let pm1 = pm(d := (pm d)\<lparr>ctx_state := MY_PM_STATE_NOT_INIT, ctx_ops := Some os\<rparr>)
          in case op_init os of
            None \<Rightarrow> (0, pm_set_state d MY_PM_STATE_SUSPENDED pm1, w)
          | Some init \<Rightarrow>
              (case init w of (ret, w1) \<Rightarrow>
                 if ret < 0 then (ret, pm_drop_ops d pm1, w1)
                 else case bus_resume env d w1 of (ret, w2) \<Rightarrow>
                   if ret < 0 then (ret, pm_drop_ops d pm1, w2)
                   else case bus_suspend env d w2 of (ret, w3) \<Rightarrow>
                     if ret < 0 then (ret, pm_drop_ops d (pm_set_state d MY_PM_STATE_NOT_INIT pm1), w3)
                     else (0, pm_set_state d MY_PM_STATE_SUSPENDED pm1, w3)))"

definition my_pm_device_resume :: "'w pm_env \<Rightarrow> my_pm_dev_id \<Rightarrow> 'w pm \<Rightarrow> 'w \<Rightarrow> int \<times> 'w pm \<times> 'w" where
  "my_pm_device_resume env d pm w =
     (if d = MY_PM_DEV_MAX then (-EINVAL, pm, w)
      else case ctx_ops (pm d) of
        None \<Rightarrow> (-ENODEV, pm, w)
      | Some os \<Rightarrow>
          if ctx_state (pm d) = MY_PM_STATE_RESUME then (0, pm, w)
          else if ctx_state (pm d) \<noteq> MY_PM_STATE_SUSPENDED then (-EINVAL, pm, w)
          else case bus_resume env d w of (ret, w1) \<Rightarrow>
            if ret < 0 then (ret, pm, w1)
            else case op_resume os of
              None \<Rightarrow> (0, pm_set_state d MY_PM_STATE_RESUME pm, w1)
            | Some resume \<Rightarrow>
                (case resume w1 of (ret, w2) \<Rightarrow>
                   if ret < 0 then (case bus_rollback env d w2 of (ret, w3) \<Rightarrow> (ret, pm, w3))
                   else (0, pm_set_state d MY_PM_STATE_RESUME pm, w2)))"

definition my_pm_device_suspend :: "'w pm_env \<Rightarrow> my_pm_dev_id \<Rightarrow> 'w pm \<Rightarrow> 'w \<Rightarrow> int \<times> 'w pm \<times> 'w" where
  "my_pm_device_suspend env d pm w =
     (if d = MY_PM_DEV_MAX then (-EINVAL, pm, w)
      else case ctx_ops (pm d) of
        None \<Rightarrow> (-ENODEV, pm, w)
      | Some os \<Rightarrow>
          if ctx_state (pm d) = MY_PM_STATE_SUSPENDED then (0, pm, w)
          else case (case op_suspend os of None \<Rightarrow> (0, w) | Some suspend \<Rightarrow> suspend w) of (ret, w1) \<Rightarrow>
            if ret < 0 then (ret, pm, w1)
            else case (if d = MY_PM_DEV_BLE then (ret, w1) else bus_suspend env d w1) of (ret, w2) \<Rightarrow>
              if ret < 0
              then (case op_resume os of None \<Rightarrow> (ret, pm, w2) | Some resume \<Rightarrow> (ret, pm, snd (resume w2)))
              else (0, pm_set_state d MY_PM_STATE_SUSPENDED pm, w2))"

definition my_pm_device_get_state :: "my_pm_dev_id \<Rightarrow> 'w pm \<Rightarrow> my_pm_state" where
  "my_pm_device_get_state d pm = (if d = MY_PM_DEV_MAX then MY_PM_STATE_NOT_INIT else ctx_state (pm d))"

section \<open>Sequences of calls\<close>

text \<open>
  A sequence of calls of the interface, the results ignored. A call can lose a user of a bus, that is leave the bus
  with a user for which no device is resumed, in three ways: a device is registered again while it runs; a bus that was
  taken cannot be released, by the registration or by the rollback of a failed resume; the resume of the
  battery fails, for which the rollback has no case.
\<close>

datatype 'w pm_call = Register my_pm_dev_id "'w pm_device_ops option" | Resume my_pm_dev_id | Suspend my_pm_dev_id

datatype pm_loss = Registered_While_Running | Release_Failed | Battery_Not_Rolled_Back

fun pm_call_dev :: "'w pm_call \<Rightarrow> my_pm_dev_id" where
  "pm_call_dev (Register d os) = d"
| "pm_call_dev (Resume d) = d"
| "pm_call_dev (Suspend d) = d"

fun pm_exec :: "'w pm_env \<Rightarrow> 'w pm_call \<Rightarrow> 'w pm \<Rightarrow> 'w \<Rightarrow> int \<times> 'w pm \<times> 'w" where
  "pm_exec env (Register d os) pm w = my_pm_device_register env d os pm w"
| "pm_exec env (Resume d) pm w = my_pm_device_resume env d pm w"
| "pm_exec env (Suspend d) pm w = my_pm_device_suspend env d pm w"

fun pm_losses :: "'w pm_env \<Rightarrow> 'w pm_call \<Rightarrow> 'w pm \<Rightarrow> 'w \<Rightarrow> pm_loss list" where
  "pm_losses env (Register d ops) pm w =
     (case ops of
        None \<Rightarrow> []
      | Some os \<Rightarrow>
          if d = MY_PM_DEV_MAX then []
          else (if ctx_state (pm d) = MY_PM_STATE_RESUME then [Registered_While_Running] else []) @
            (case op_init os of
               None \<Rightarrow> []
             | Some init \<Rightarrow>
                 (case init w of (r1, w1) \<Rightarrow>
                  case bus_resume env d w1 of (r2, w2) \<Rightarrow>
                    if \<not> r1 < 0 \<and> \<not> r2 < 0 \<and> fst (bus_suspend env d w2) < 0 then [Release_Failed] else [])))"
| "pm_losses env (Resume d) pm w =
     (case ctx_ops (pm d) of
        None \<Rightarrow> []
      | Some os \<Rightarrow>
          (case op_resume os of
             None \<Rightarrow> []
           | Some resume \<Rightarrow>
               (case bus_resume env d w of (r1, w1) \<Rightarrow>
                case resume w1 of (r2, w2) \<Rightarrow>
                  if d \<noteq> MY_PM_DEV_MAX \<and> ctx_state (pm d) = MY_PM_STATE_SUSPENDED \<and> \<not> r1 < 0 \<and> r2 < 0 \<and> fst (bus_rollback env d w2) < 0
                  then [if d = MY_PM_DEV_BATTERY then Battery_Not_Rolled_Back else Release_Failed]
                  else [])))"
| "pm_losses env (Suspend d) pm w = []"

fun pm_run :: "'w pm_env \<Rightarrow> 'w pm_call list \<Rightarrow> 'w pm \<Rightarrow> 'w \<Rightarrow> (my_pm_dev_id \<Rightarrow> pm_loss list)
    \<Rightarrow> 'w pm \<times> 'w \<times> (my_pm_dev_id \<Rightarrow> pm_loss list)" where
  "pm_run env [] pm w ls = (pm, w, ls)"
| "pm_run env (c # cs) pm w ls =
     (case pm_exec env c pm w of (r, pm', w') \<Rightarrow>
        pm_run env cs pm' w' (ls(pm_call_dev c := ls (pm_call_dev c) @ pm_losses env c pm w)))"

section \<open>Usage counting\<close>

text \<open>
  What the documentation of the runtime power management promises: a successful get adds one
  user to the bus, a successful put removes one, and a failed call changes no count.
\<close>

definition runtime_pm :: "'w pm_env \<Rightarrow> (pm_bus \<Rightarrow> 'w \<Rightarrow> int) \<Rightarrow> bool" where
  "runtime_pm env users \<longleftrightarrow>
     (\<forall>b w r w'. pm_device_runtime_get env b w = (r, w') \<longrightarrow>
        (\<forall>b'. users b' w' = users b' w + (if b' = b \<and> 0 \<le> r then 1 else 0))) \<and>
     (\<forall>b w r w'. pm_device_runtime_put env b w = (r, w') \<longrightarrow>
        (\<forall>b'. users b' w' = users b' w - (if b' = b \<and> 0 \<le> r then 1 else 0)))"

definition dev_bus :: "my_pm_dev_id \<Rightarrow> pm_bus option" where
  "dev_bus d =
     (case d of
        MY_PM_DEV_GSENSOR \<Rightarrow> Some I2C21_NODE
      | MY_PM_DEV_LTE \<Rightarrow> Some LTE_UART_NODE
      | MY_PM_DEV_MAGNETIC_UART \<Rightarrow> Some MAGNETIC_UART_NODE
      | MY_PM_DEV_BATTERY \<Rightarrow> Some BATTERY_ADC_NODE
      | MY_PM_DEV_PWM \<Rightarrow> Some BUZZER_PWM_NODE
      | _ \<Rightarrow> None)"

text \<open>Callbacks that leave the buses alone; they may fail.\<close>

definition neutral :: "(pm_bus \<Rightarrow> 'w \<Rightarrow> int) \<Rightarrow> ('w \<Rightarrow> int \<times> 'w) option \<Rightarrow> bool" where
  "neutral users f \<longleftrightarrow> (\<forall>g w b. f = Some g \<longrightarrow> users b (snd (g w)) = users b w)"

definition ops_ok :: "(pm_bus \<Rightarrow> 'w \<Rightarrow> int) \<Rightarrow> 'w pm_device_ops \<Rightarrow> bool" where
  "ops_ok users os \<longleftrightarrow> neutral users (op_suspend os) \<and> neutral users (op_resume os) \<and> neutral users (op_init os)"

fun call_ok :: "(pm_bus \<Rightarrow> 'w \<Rightarrow> int) \<Rightarrow> 'w pm_call \<Rightarrow> bool" where
  "call_ok users (Register d ops) = (case ops of None \<Rightarrow> True | Some os \<Rightarrow> ops_ok users os)"
| "call_ok users (Resume d) = True"
| "call_ok users (Suspend d) = True"

text \<open>What has happened when a user was lost: a release can only have failed on a bus that had a user.\<close>

definition loss_cause :: "'w pm_env \<Rightarrow> (pm_bus \<Rightarrow> 'w \<Rightarrow> int) \<Rightarrow> my_pm_dev_id \<Rightarrow> pm_loss \<Rightarrow> bool" where
  "loss_cause env users d x \<longleftrightarrow>
     (case x of
        Registered_While_Running \<Rightarrow> True
      | Release_Failed \<Rightarrow> \<exists>b w. dev_bus d = Some b \<and> 0 < users b w \<and> fst (pm_device_runtime_put env b w) < 0
      | Battery_Not_Rolled_Back \<Rightarrow> d = MY_PM_DEV_BATTERY)"

definition pm_inv :: "'w pm_env \<Rightarrow> (pm_bus \<Rightarrow> 'w \<Rightarrow> int) \<Rightarrow> (my_pm_dev_id \<Rightarrow> pm_loss list) \<Rightarrow> 'w pm \<Rightarrow> 'w \<Rightarrow> bool" where
  "pm_inv env users ls pm w \<longleftrightarrow>
     (\<forall>d b. dev_bus d = Some b \<longrightarrow>
        users b w = (if ctx_state (pm d) = MY_PM_STATE_RESUME then 1 else 0) + int (length (ls d))) \<and>
     (\<forall>d os. ctx_ops (pm d) = Some os \<longrightarrow> ops_ok users os \<and> ctx_state (pm d) \<noteq> MY_PM_STATE_NOT_INIT) \<and>
     (\<forall>d. list_all (loss_cause env users d) (ls d))"

lemma dev_bus_inj: "dev_bus d = Some b \<Longrightarrow> dev_bus d' = Some b \<Longrightarrow> d = d'"
  by (auto simp: dev_bus_def split: my_pm_dev_id.splits)

lemmas bus_defs = my_pm_i2c21_resume_def my_pm_i2c21_suspend_def my_pm_lte_uart_resume_def my_pm_lte_uart_suspend_def
  my_pm_magnetic_uart_resume_def my_pm_magnetic_uart_suspend_def my_pm_battery_adc_resume_def my_pm_battery_adc_suspend_def
  my_pm_buzzer_pwm_resume_def my_pm_buzzer_pwm_suspend_def

lemma bus_resume_eq: "bus_resume env d w = (case dev_bus d of None \<Rightarrow> (-ENOTSUP, w) | Some b \<Rightarrow> bus_get env b w)"
  by (cases d) (simp_all add: bus_resume_def dev_bus_def bus_defs)

lemma bus_suspend_eq: "bus_suspend env d w = (case dev_bus d of None \<Rightarrow> (-ENOTSUP, w) | Some b \<Rightarrow> bus_put env b w)"
  by (cases d) (simp_all add: bus_suspend_def dev_bus_def bus_defs)

lemma bus_rollback_eq:
  "bus_rollback env d w = (if d = MY_PM_DEV_BATTERY then (-ENOTSUP, w) else bus_suspend env d w)"
  by (cases d) (simp_all add: bus_suspend_def bus_rollback_def)

lemma runtime_pm_get:
  assumes "runtime_pm env users" "pm_device_runtime_get env b w = (r, w')"
  shows "users b' w' = users b' w + (if b' = b \<and> 0 \<le> r then 1 else 0)"
  using assms unfolding runtime_pm_def by blast

lemma runtime_pm_put:
  assumes "runtime_pm env users" "pm_device_runtime_put env b w = (r, w')"
  shows "users b' w' = users b' w - (if b' = b \<and> 0 \<le> r then 1 else 0)"
  using assms unfolding runtime_pm_def by blast

lemma bus_resume_count:
  assumes "runtime_pm env users" "bus_resume env d w = (r, w')"
  shows "users b w' = users b w + (if dev_bus d = Some b \<and> 0 \<le> r then 1 else 0)"
    and "0 \<le> r \<Longrightarrow> r = 0 \<and> (\<exists>b. dev_bus d = Some b \<and> bus_present env b)"
  using assms(2) by (auto simp: bus_resume_eq bus_get_def dest!: runtime_pm_get [OF assms(1), where b' = b] split: option.splits if_splits prod.splits)

lemma bus_suspend_count:
  assumes "runtime_pm env users" "bus_suspend env d w = (r, w')"
  shows "users b w' = users b w - (if dev_bus d = Some b \<and> 0 \<le> r then 1 else 0)" and "0 \<le> r \<Longrightarrow> r = 0"
  using assms(2) by (auto simp: bus_suspend_eq bus_put_def dest!: runtime_pm_put [OF assms(1), where b' = b]
      split: option.splits if_splits prod.splits)

lemma bus_suspend_failed:
  assumes "bus_suspend env d w = (r, w')" "r < 0" "dev_bus d = Some b" "bus_present env b" "0 < users b w"
  shows "loss_cause env users d Release_Failed"
  using assms by (auto simp: bus_suspend_eq bus_put_def loss_cause_def split: prod.splits if_splits)

text \<open>One device changes: the invariant of the others is not affected.\<close>

lemma pm_inv_update:
  assumes "pm_inv env users ls pm w" "\<And>d'. d' \<noteq> d \<Longrightarrow> pm' d' = pm d'" "\<And>b. dev_bus d \<noteq> Some b \<Longrightarrow> users b w' = users b w"
    "\<And>b. dev_bus d = Some b \<Longrightarrow>
       users b w' = (if ctx_state (pm' d) = MY_PM_STATE_RESUME then 1 else 0) + int (length (ls d)) + int (length l)"
    "\<And>os. ctx_ops (pm' d) = Some os \<Longrightarrow> ops_ok users os \<and> ctx_state (pm' d) \<noteq> MY_PM_STATE_NOT_INIT"
    "list_all (loss_cause env users d) l"
  shows "pm_inv env users (ls(d := ls d @ l)) pm' w'"
  unfolding pm_inv_def
proof (intro conjI allI impI)
  fix d' b assume b: "dev_bus d' = Some b"
  show "users b w' = (if ctx_state (pm' d') = MY_PM_STATE_RESUME then 1 else 0) + int (length ((ls(d := ls d @ l)) d'))"
  proof (cases "d' = d")
    case True
    then show ?thesis using assms(4) b by simp
  next
    case False
    then have "dev_bus d \<noteq> Some b" using dev_bus_inj b by blast
    then show ?thesis using assms(1) assms(2) [OF False] assms(3) b False by (simp add: pm_inv_def)
  qed
next
  fix d' os assume "ctx_ops (pm' d') = Some os"
  then show "ops_ok users os" "ctx_state (pm' d') \<noteq> MY_PM_STATE_NOT_INIT"
    using assms(1,2,5) by (cases "d' = d"; force simp: pm_inv_def)+
next
  fix d'
  show "list_all (loss_cause env users d') ((ls(d := ls d @ l)) d')" using assms(1,6) by (simp add: pm_inv_def)
qed

lemma neutralD: "neutral users f \<Longrightarrow> f = Some g \<Longrightarrow> g w = (r, w') \<Longrightarrow> users b w' = users b w"
  unfolding neutral_def by (metis snd_conv)

lemma pm_inv_bus: "pm_inv env users ls pm w \<Longrightarrow> dev_bus d = Some b \<Longrightarrow>
    users b w = (if ctx_state (pm d) = MY_PM_STATE_RESUME then 1 else 0) + int (length (ls d))"
  by (simp add: pm_inv_def)

lemma pm_inv_ops: "pm_inv env users ls pm w \<Longrightarrow> ctx_ops (pm d) = Some os \<Longrightarrow> ops_ok users os \<and> ctx_state (pm d) \<noteq> MY_PM_STATE_NOT_INIT"
  by (simp add: pm_inv_def)

lemma pm_inv_same:
  assumes "pm_inv env users ls pm w" "\<And>b. users b w' = users b w"
  shows "pm_inv env users (ls(d := ls d @ [])) pm w'"
  using assms by (simp add: pm_inv_def)

lemma resume_inv:
  assumes rt: "runtime_pm env users" and inv: "pm_inv env users ls pm w" and r: "my_pm_device_resume env d pm w = (r, pm', w')"
  shows "pm_inv env users (ls(d := ls d @ pm_losses env (Resume d) pm w)) pm' w'"
proof (cases "\<exists>os. d \<noteq> MY_PM_DEV_MAX \<and> ctx_ops (pm d) = Some os \<and> ctx_state (pm d) = MY_PM_STATE_SUSPENDED")
  case False
  then have "pm' = pm \<and> w' = w" using r by (auto simp: my_pm_device_resume_def split: if_splits option.splits)
  moreover have "pm_losses env (Resume d) pm w = []" using False by (auto split: option.splits prod.splits)
  ultimately show ?thesis using inv by simp
next
  case True
  then obtain os where os: "d \<noteq> MY_PM_DEV_MAX" "ctx_ops (pm d) = Some os" "ctx_state (pm d) = MY_PM_STATE_SUSPENDED" by blast
  note ok = pm_inv_ops [OF inv os(2), THEN conjunct1]
  obtain ret w1 where b: "bus_resume env d w = (ret, w1)" by fastforce
  note cnt = bus_resume_count [OF rt b]
  have bus: "users b w = int (length (ls d))" if "dev_bus d = Some b" for b using pm_inv_bus [OF inv that] os(3) by simp
  have l: "pm_losses env (Resume d) pm w = (case op_resume os of None \<Rightarrow> [] | Some resume \<Rightarrow>
      if \<not> ret < 0 \<and> fst (resume w1) < 0 \<and> fst (bus_rollback env d (snd (resume w1))) < 0
      then [if d = MY_PM_DEV_BATTERY then Battery_Not_Rolled_Back else Release_Failed] else [])"
    using os b by (auto split: option.split prod.split)
  consider (fail) "ret < 0" "pm' = pm" "w' = w1" "pm_losses env (Resume d) pm w = []"
    | (fin) "ret = 0" "pm' = pm_set_state d MY_PM_STATE_RESUME pm" "\<And>b. users b w' = users b w1" "pm_losses env (Resume d) pm w = []"
    | (roll) resume r2 w2 ret3 where "ret = 0" "op_resume os = Some resume" "resume w1 = (r2, w2)" "r2 < 0"
        "bus_rollback env d w2 = (ret3, w')" "pm' = pm"
        "pm_losses env (Resume d) pm w = (if ret3 < 0 then [if d = MY_PM_DEV_BATTERY then Battery_Not_Rolled_Back else Release_Failed] else [])"
    using r os b cnt(2) neutralD [of users "op_resume os"] ok unfolding l
    by (auto simp: my_pm_device_resume_def ops_ok_def split: if_splits option.splits prod.splits)
  then show ?thesis
  proof cases
    case fail
    then have "users b w' = users b w" for b using cnt(1) [of b] by simp
    then show ?thesis unfolding fail(2,4) by (rule pm_inv_same [OF inv])
  next
    case fin
    then show ?thesis unfolding fin(4) using bus cnt ok os(2)
      by (intro pm_inv_update [OF inv, of d]) (auto simp: pm_set_state_def)
  next
    case roll
    have u2: "users b w2 = users b w1" for b using neutralD [OF _ roll(2,3)] ok by (simp add: ops_ok_def)
    obtain b where b: "dev_bus d = Some b" "bus_present env b" using cnt(2) roll(1) by auto
    have "0 < users b w2" using u2 cnt(1) [of b] bus [OF b(1)] b(1) roll(1) by simp
    then have cause: "list_all (loss_cause env users d) (pm_losses env (Resume d) pm w)"
      using roll(5,7) bus_suspend_failed [OF _ _ b, of w2 ret3 w' users] by (auto simp: bus_rollback_eq loss_cause_def [of _ _ _ Battery_Not_Rolled_Back])
    have "users b' w' = users b' w + (if dev_bus d = Some b' \<and> ret3 < 0 then 1 else 0)" for b'
      using roll(1,5) u2 [of b'] cnt(1) [of b'] bus_suspend_count(1) [OF rt, of d w2 ret3 w' b'] by (auto simp: bus_rollback_eq split: if_splits)
    then show ?thesis using cause roll(6,7) bus os by (intro pm_inv_update [OF inv, of d]) (auto simp: ok)
  qed
qed

lemma suspend_inv:
  assumes rt: "runtime_pm env users" and inv: "pm_inv env users ls pm w" and r: "my_pm_device_suspend env d pm w = (r, pm', w')"
  shows "pm_inv env users (ls(d := ls d @ pm_losses env (Suspend d) pm w)) pm' w'"
proof (cases "\<exists>os. d \<noteq> MY_PM_DEV_MAX \<and> ctx_ops (pm d) = Some os \<and> ctx_state (pm d) = MY_PM_STATE_RESUME")
  case False
  then have "pm' = pm \<and> w' = w" using r pm_inv_ops [OF inv, of d]
    by (cases "ctx_state (pm d)") (auto simp: my_pm_device_suspend_def split: if_splits option.splits)
  then show ?thesis using inv by simp
next
  case True
  then obtain os where os: "d \<noteq> MY_PM_DEV_MAX" "ctx_ops (pm d) = Some os" "ctx_state (pm d) = MY_PM_STATE_RESUME" by blast
  note ok = pm_inv_ops [OF inv os(2), THEN conjunct1]
  obtain r1 w1 where c: "(case op_suspend os of None \<Rightarrow> (0, w) | Some suspend \<Rightarrow> suspend w) = (r1, w1)" by fastforce
  have u1: "users b w1 = users b w" for b
    using c ok neutralD [of users "op_suspend os"] by (auto simp: ops_ok_def split: option.splits)
  show ?thesis
  proof (cases "r1 < 0")
    case True
    then have "pm' = pm \<and> w' = w1" using r os c by (simp add: my_pm_device_suspend_def)
    then show ?thesis using pm_inv_same [OF inv, of w1 d] u1 by simp
  next
    case False
    obtain r2 w2 where b: "(if d = MY_PM_DEV_BLE then (r1, w1) else bus_suspend env d w1) = (r2, w2)" by fastforce
    have u2: "users b w2 = users b w - (if dev_bus d = Some b \<and> 0 \<le> r2 then 1 else 0)" for b
      using b u1 bus_suspend_count(1) [OF rt, of d w1 r2 w2 b] by (auto simp: dev_bus_def split: if_splits)
    consider (fail) "r2 < 0" "pm' = pm" "\<And>b. users b w' = users b w2"
      | (fin) "0 \<le> r2" "pm' = pm_set_state d MY_PM_STATE_SUSPENDED pm" "w' = w2"
      using r os c b False ok neutralD [of users "op_resume os"]
      by (auto simp: my_pm_device_suspend_def ops_ok_def prod_eq_iff split: if_splits option.splits)
    then show ?thesis
    proof cases
      case fail
      then show ?thesis using pm_inv_same [OF inv, of w' d] u2 by simp
    next
      case fin
      then show ?thesis using u2 ok os pm_inv_bus [OF inv, of d]
        by (intro pm_inv_update [OF inv, of d]) (auto simp: pm_set_state_def)
    qed
  qed
qed

lemma register_inv:
  assumes rt: "runtime_pm env users" and inv: "pm_inv env users ls pm w" and ok: "\<And>os. ops = Some os \<Longrightarrow> ops_ok users os"
    and r: "my_pm_device_register env d ops pm w = (r, pm', w')"
  shows "pm_inv env users (ls(d := ls d @ pm_losses env (Register d ops) pm w)) pm' w'"
proof (cases "d = MY_PM_DEV_MAX \<or> ops = None")
  case True
  then have "pm' = pm \<and> w' = w \<and> pm_losses env (Register d ops) pm w = []"
    using r by (auto simp: my_pm_device_register_def split: option.splits)
  then show ?thesis using inv by simp
next
  case False
  then obtain os where os: "ops = Some os" "d \<noteq> MY_PM_DEV_MAX" by blast
  have s: "ctx_state (pm' d) \<noteq> MY_PM_STATE_RESUME" and pres: "\<And>d'. d' \<noteq> d \<Longrightarrow> pm' d' = pm d'"
    and o: "\<And>os'. ctx_ops (pm' d) = Some os' \<Longrightarrow> ops_ok users os' \<and> ctx_state (pm' d) \<noteq> MY_PM_STATE_NOT_INIT"
    using r ok os by (auto simp: my_pm_device_register_def pm_set_state_def pm_drop_ops_def Let_def split: if_splits option.splits prod.splits)
  let ?run = "if ctx_state (pm d) = MY_PM_STATE_RESUME then [Registered_While_Running] else []"
  obtain rel where l: "pm_losses env (Register d ops) pm w = ?run @ rel" and u: "\<And>b. users b w' = users b w + (if dev_bus d = Some b then int (length rel) else 0)"
    and c: "list_all (loss_cause env users d) rel"
  proof (cases "op_init os")
    case None
    then show ?thesis using that [of "[]"] r os by (auto simp: my_pm_device_register_def Let_def)
  next
    case (Some init)
    obtain r1 w1 r2 w2 r3 w3 where i: "init w = (r1, w1)" "bus_resume env d w1 = (r2, w2)" "bus_suspend env d w2 = (r3, w3)" by fastforce
    have u1: "users b w1 = users b w" for b using neutralD [OF _ Some i(1)] ok os by (simp add: ops_ok_def)
    note c2 = bus_resume_count [OF rt i(2)] and c3 = bus_suspend_count(1) [OF rt i(3)]
    let ?rel = "if \<not> r1 < 0 \<and> \<not> r2 < 0 \<and> r3 < 0 then [Release_Failed] else []"
    have w': "w' = (if r1 < 0 then w1 else if r2 < 0 then w2 else w3)"
      using r i os Some by (auto simp: my_pm_device_register_def Let_def split: if_splits)
    have "loss_cause env users d Release_Failed" if "\<not> r2 < 0" "r3 < 0"
    proof -
      have "0 \<le> r2" using that(1) by simp
      from c2(2) [OF this] obtain b where b: "dev_bus d = Some b" "bus_present env b" by blast
      have "0 < users b w2" using c2(1) [of b] u1 [of b] pm_inv_bus [OF inv b(1)] b(1) that(1) by simp
      then show ?thesis by (rule bus_suspend_failed [where users = users, OF i(3) that(2) b])
    qed
    then have "list_all (loss_cause env users d) ?rel" by simp
    moreover have "pm_losses env (Register d ops) pm w = ?run @ ?rel" using i os Some by simp
    moreover have "users b w' = users b w + (if dev_bus d = Some b then int (length ?rel) else 0)" for b
      using w' u1 [of b] c2(1) [of b] c3 [of b] by (simp split: if_split)
    ultimately show ?thesis using that [of ?rel] by blast
  qed
  show ?thesis unfolding l using u c s o pres pm_inv_bus [OF inv, of d]
    by (intro pm_inv_update [OF inv, of d]) (auto simp: loss_cause_def)
qed

lemma pm_exec_inv:
  assumes "runtime_pm env users" "pm_inv env users ls pm w" "pm_exec env c pm w = (r, pm', w')"
    "call_ok users c"
  shows "pm_inv env users (ls(pm_call_dev c := ls (pm_call_dev c) @ pm_losses env c pm w)) pm' w'"
proof (cases c)
  case (Register d ops)
  then have "ops_ok users os" if "ops = Some os" for os using assms(4) that by simp
  then show ?thesis using register_inv [OF assms(1,2)] assms(3) Register by simp
next
  case (Resume d)
  then show ?thesis using resume_inv [OF assms(1,2)] assms(3) by simp
next
  case (Suspend d)
  then show ?thesis using suspend_inv [OF assms(1,2)] assms(3) by simp
qed

lemma pm_run_inv:
  assumes "runtime_pm env users" "list_all (call_ok users) cs"
    "pm_inv env users ls pm w" "pm_run env cs pm w ls = (pm', w', ls')"
  shows "pm_inv env users ls' pm' w'"
  using assms(2-4)
proof (induction cs arbitrary: pm w ls)
  case (Cons c cs)
  obtain r pm1 w1 where e: "pm_exec env c pm w = (r, pm1, w1)" using prod_cases3 by blast
  have "pm_inv env users (ls(pm_call_dev c := ls (pm_call_dev c) @ pm_losses env c pm w)) pm1 w1"
    by (rule pm_exec_inv [OF assms(1) Cons.prems(2) e]) (use Cons.prems(1) in simp)
  then show ?case using Cons.IH Cons.prems(1,3) e by simp
qed simp

section \<open>Properties\<close>

text \<open>
  C37: the power manager keeps account of the buses. After any sequence of registrations,
  resumes and suspends, of any devices in any order, with callbacks that leave the buses alone and may fail, and with a runtime
  power management that may fail to take or to release a bus at any time, the bus of a device has one user
  if the device is resumed, none otherwise, and one more for each user that was lost. A user is lost only in the three
  ways that are recorded: the device was registered again while it ran; the system refused to release a bus that had
  a user, in a registration or in the rollback of a failed resume; the resume callback of the battery failed, which the
  rollback forgets. A suspend never loses a user. So the bus of a resumed device is never switched off, and
  if no release fails and the device is neither registered while it runs nor the battery, its bus is in use exactly while it is
  resumed.
\<close>

theorem pm_bus_accounting:
  assumes "runtime_pm env users" "\<And>b. users b w0 = 0" "list_all (call_ok users) cs"
    and "pm_run env cs my_pm_init w0 (\<lambda>_. []) = (pm, w, losses)" "dev_bus d = Some b"
  shows "users b w = (if my_pm_device_get_state d pm = MY_PM_STATE_RESUME then 1 else 0) + int (length (losses d)) \<and>
    (Release_Failed \<in> set (losses d) \<longrightarrow> (\<exists>v. 0 < users b v \<and> fst (pm_device_runtime_put env b v) < 0)) \<and>
    (Battery_Not_Rolled_Back \<in> set (losses d) \<longrightarrow> d = MY_PM_DEV_BATTERY)"
proof -
  have "d \<noteq> MY_PM_DEV_MAX" using assms(5) by (auto simp: dev_bus_def)
  moreover have "pm_inv env users (\<lambda>_. []) my_pm_init w0" using assms(2) by (simp add: pm_inv_def my_pm_init_def)
  then have inv: "pm_inv env users losses pm w" using pm_run_inv [OF assms(1,3) _ assms(4)] by blast
  then have "list_all (loss_cause env users d) (losses d)" by (simp add: pm_inv_def)
  ultimately show ?thesis using pm_inv_bus [OF inv assms(5)] assms(5)
    by (auto simp: my_pm_device_get_state_def list_all_iff loss_cause_def)
qed

text \<open>A runtime power management that only counts.\<close>

definition counting_pm :: "(pm_bus \<Rightarrow> int) pm_env" where
  "counting_pm = \<lparr>bus_present = (\<lambda>_. True), pm_device_runtime_get = (\<lambda>b w. (0, w(b := w b + 1))),
     pm_device_runtime_put = (\<lambda>b w. if 0 < w b then (0, w(b := w b - 1)) else (-120, w))\<rparr>"

text \<open>One whose UART cannot be released.\<close>

definition stuck_pm :: "(pm_bus \<Rightarrow> int) pm_env" where
  "stuck_pm = counting_pm\<lparr>pm_device_runtime_put := (\<lambda>b w. if 0 < w b \<and> b \<noteq> LTE_UART_NODE then (0, w(b := w b - 1)) else (-5, w))\<rparr>"

definition counting_ops :: "(pm_bus \<Rightarrow> int) pm_device_ops" where
  "counting_ops = \<lparr>op_suspend = None, op_resume = Some (\<lambda>w. (0, w)), op_init = Some (\<lambda>w. (0, w))\<rparr>"

definition failing_ops :: "(pm_bus \<Rightarrow> int) pm_device_ops" where
  "failing_ops = \<lparr>op_suspend = None, op_resume = Some (\<lambda>w. (-5, w)), op_init = None\<rparr>"

lemma counting_pm_ok: "runtime_pm counting_pm (\<lambda>b w. w b)" "runtime_pm stuck_pm (\<lambda>b w. w b)"
  by (simp_all add: runtime_pm_def counting_pm_def stuck_pm_def)

lemma demo_ops_ok: "ops_ok (\<lambda>b w. w b) counting_ops" "ops_ok (\<lambda>b w. w b) failing_ops"
  by (simp_all add: ops_ok_def neutral_def counting_ops_def failing_ops_def)

text \<open>The UART is resumed and keeps its user although its suspend fails; the battery, whose resume fails, loses one.\<close>

lemma pm_bus_accounting_witness:
  "\<exists>pm w losses. pm_run stuck_pm [Register MY_PM_DEV_LTE (Some (counting_ops\<lparr>op_init := None\<rparr>)), Register MY_PM_DEV_BATTERY (Some failing_ops),
      Resume MY_PM_DEV_LTE, Resume MY_PM_DEV_BATTERY, Suspend MY_PM_DEV_LTE] my_pm_init (\<lambda>_. 0) (\<lambda>_. []) = (pm, w, losses) \<and>
    my_pm_device_get_state MY_PM_DEV_LTE pm = MY_PM_STATE_RESUME \<and> my_pm_device_get_state MY_PM_DEV_BATTERY pm = MY_PM_STATE_SUSPENDED \<and>
    w LTE_UART_NODE = 1 \<and> w BATTERY_ADC_NODE = 1 \<and> losses MY_PM_DEV_BATTERY = [Battery_Not_Rolled_Back]"
proof -
  let ?cs = "[Register MY_PM_DEV_LTE (Some (counting_ops\<lparr>op_init := None\<rparr>)), Register MY_PM_DEV_BATTERY (Some failing_ops),
      Resume MY_PM_DEV_LTE, Resume MY_PM_DEV_BATTERY, Suspend MY_PM_DEV_LTE]"
  obtain pm w losses where r: "pm_run stuck_pm ?cs my_pm_init (\<lambda>_. 0) (\<lambda>_. []) = (pm, w, losses)" using prod_cases3 by blast
  have st: "my_pm_device_get_state MY_PM_DEV_LTE pm = MY_PM_STATE_RESUME" "my_pm_device_get_state MY_PM_DEV_BATTERY pm = MY_PM_STATE_SUSPENDED"
    "losses MY_PM_DEV_BATTERY = [Battery_Not_Rolled_Back]" "losses MY_PM_DEV_LTE = []"
    using r by (auto simp: my_pm_device_register_def my_pm_device_resume_def my_pm_device_suspend_def counting_ops_def failing_ops_def stuck_pm_def counting_pm_def
        bus_resume_def bus_suspend_def bus_rollback_def bus_defs bus_get_def bus_put_def my_pm_init_def pm_set_state_def my_pm_device_get_state_def Let_def)
  have ok: "list_all (call_ok (\<lambda>b w. w b)) ?cs" using demo_ops_ok by (simp add: ops_ok_def neutral_def)
  note acc = pm_bus_accounting [OF counting_pm_ok(2) _ ok r]
  show ?thesis using r st acc [of MY_PM_DEV_LTE LTE_UART_NODE] acc [of MY_PM_DEV_BATTERY BATTERY_ADC_NODE]
    by (auto simp: dev_bus_def)
qed

text \<open>
  A device that fails to resume can be reported as resumed. When the bus comes up, the
  resume callback fails and the bus can be released again, \<open>my_pm_device_resume\<close> returns
  the result of the release, that is success, for a device that is still suspended. For the battery, whose case
  is missing from the rollback, the error is reported but the bus keeps its user.
\<close>

lemma resume_failure_masked:
  assumes "runtime_pm env users" "ctx_ops (pm d) = Some os" "ctx_state (pm d) = MY_PM_STATE_SUSPENDED" "neutral users (op_resume os)"
    and "bus_resume env d w = (0, wa)" "op_resume os = Some resume" "resume wa = (r, wb)" "r < 0" "dev_bus d = Some b"
    and "bus_suspend env d wb = (r3, w3)" "0 \<le> r3"
  shows "if d = MY_PM_DEV_BATTERY
    then my_pm_device_resume env d pm w = (-ENOTSUP, pm, wb) \<and> users b wb = users b w + 1
    else my_pm_device_resume env d pm w = (0, pm, w3) \<and> users b w3 = users b w \<and>
      my_pm_device_get_state d pm = MY_PM_STATE_SUSPENDED"
proof -
  have d: "d \<noteq> MY_PM_DEV_MAX" using assms(9) by (auto simp: dev_bus_def)
  have u1: "users b wa = users b w + 1" using bus_resume_count(1) [OF assms(1,5), of b] assms(9) by simp
  have u2: "users b wb = users b w + 1" using neutralD [OF assms(4,6,7)] u1 by simp
  have "r3 = 0" "users b w3 = users b w" using bus_suspend_count [OF assms(1,10)] assms(9,11) u2 by auto
  moreover have "my_pm_device_resume env d pm w = (case bus_rollback env d wb of (ret, w3) \<Rightarrow> (ret, pm, w3))"
    using assms(2,3,5-8) d by (simp add: my_pm_device_resume_def)
  ultimately show ?thesis using assms(3,10) d u2
    by (cases "d = MY_PM_DEV_BATTERY") (simp_all add: my_pm_device_get_state_def bus_rollback_eq)
qed

end
