(* ===== verification/Lte_Queue.thy ===== *)
theory Lte_Queue
  imports Prelude
begin

text \<open>
  Model of two small structures of \<^verbatim>\<open>src/my_lte.c\<close>: the queue that keeps messages for the LTE module
  while it is not ready (a ring of ten, the oldest dropped when full), and the
  assembly of received bytes into command lines.

  The queue owns the copies of its messages: a slot holds \<open>Some\<close> message or \<open>None\<close>, a null
  pointer. \<open>malloc_ok\<close> says whether the allocation succeeds.
\<close>

section \<open>The message queue\<close>

abbreviation ENOMEM :: int where "ENOMEM \<equiv> 12"
abbreviation (input) LTE_MSG_QUEUE_SIZE :: nat where "LTE_MSG_QUEUE_SIZE \<equiv> 10"

record lte_msg_queue =
  mq_queue :: "bytes option list"
  mq_head :: nat
  mq_tail :: nat
  mq_count :: nat

definition my_lte_msg_queue_init :: "lte_msg_queue \<Rightarrow> int \<times> lte_msg_queue" where
  "my_lte_msg_queue_init q = (0, q\<lparr>mq_head := 0, mq_tail := 0, mq_count := 0\<rparr>)"

definition mq_drop_head :: "lte_msg_queue \<Rightarrow> lte_msg_queue" where
  "mq_drop_head q = q\<lparr>mq_queue := (mq_queue q)[mq_head q := None],
     mq_head := (mq_head q + 1) mod LTE_MSG_QUEUE_SIZE, mq_count := mq_count q - 1\<rparr>"

definition my_lte_enqueue_msg :: "bool \<Rightarrow> bytes option \<Rightarrow> nat \<Rightarrow> lte_msg_queue \<Rightarrow> int \<times> lte_msg_queue" where
  "my_lte_enqueue_msg malloc_ok msg_content msg_len q =
     (case msg_content of
        None \<Rightarrow> (-EINVAL, q)
      | Some m \<Rightarrow>
          if msg_len = 0 then (-EINVAL, q)
          else
            let q1 = (if mq_count q \<ge> LTE_MSG_QUEUE_SIZE then mq_drop_head q else q)
            in if \<not> malloc_ok then (-ENOMEM, q1)
               else (0, q1\<lparr>mq_queue := (mq_queue q1)[mq_tail q1 := Some (take msg_len m)],
                           mq_tail := (mq_tail q1 + 1) mod LTE_MSG_QUEUE_SIZE, mq_count := mq_count q1 + 1\<rparr>))"

text \<open>
  Send everything that waits with \<open>send\<close>, whose result the loop ignores; at most \<open>mq_count\<close> rounds.
\<close>

function my_lte_process_queued_msgs :: "(bytes \<Rightarrow> 's \<Rightarrow> 's) \<Rightarrow> lte_msg_queue \<Rightarrow> 's \<Rightarrow> lte_msg_queue \<times> 's" where
  "my_lte_process_queued_msgs send q s =
     (if mq_count q > 0
      then my_lte_process_queued_msgs send (mq_drop_head q)
             (case mq_queue q ! mq_head q of None \<Rightarrow> s | Some m \<Rightarrow> send m s)
      else (q, s))"
  by pat_completeness auto
termination
  by (relation "measure (\<lambda>(send, q, s). mq_count q)") (auto simp: mq_drop_head_def)

declare my_lte_process_queued_msgs.simps [simp del]

definition my_lte_msg_queue_clear :: "lte_msg_queue \<Rightarrow> lte_msg_queue" where
  "my_lte_msg_queue_clear q = q\<lparr>mq_queue := replicate LTE_MSG_QUEUE_SIZE None, mq_head := 0, mq_tail := 0, mq_count := 0\<rparr>"

section \<open>Line assembly\<close>

abbreviation (input) MAX_CMD_LEN :: nat where "MAX_CMD_LEN \<equiv> 128"

text \<open>
  The static line buffer, and the lines handed to the command parser so far. \<open>buf\<close>
  is the whole array the data lies in: after a line end, the byte behind it is
  looked at even when it lies behind the received bytes, and \<open>None\<close> is the read behind the array.
\<close>

record lte_line =
  line_command :: bytes
  line_out :: "bytes list"

definition line_end :: "u8 \<Rightarrow> bool" where
  "line_end c \<longleftrightarrow> c = 13 \<or> c = 10"

definition line_flush :: "lte_line \<Rightarrow> lte_line" where
  "line_flush l = \<lparr>line_command = [], line_out = line_out l @ [line_command l]\<rparr>"

definition line_char :: "u8 \<Rightarrow> lte_line \<Rightarrow> lte_line" where
  "line_char c l = (if length (line_command l) < MAX_CMD_LEN - 1 then l\<lparr>line_command := line_command l @ [c]\<rparr> else l)"

function recv_loop :: "bytes \<Rightarrow> nat \<Rightarrow> nat \<Rightarrow> lte_line \<Rightarrow> lte_line option" where
  "recv_loop buf iLen i l =
     (if i < iLen then
        if line_end (buf ! i)
        then if i + 1 < length buf
             then recv_loop buf iLen (if buf ! (i + 1) = 10 then i + 2 else i + 1) (line_flush l)
             else None
        else recv_loop buf iLen (i + 1) (line_char (buf ! i) l)
      else Some l)"
  by pat_completeness auto
termination
  by (relation "measure (\<lambda>(buf, n, i, l). n - i)") auto

declare recv_loop.simps [simp del]

definition my_lte_handle_recv :: "bytes \<Rightarrow> nat \<Rightarrow> lte_line \<Rightarrow> lte_line option" where
  "my_lte_handle_recv pData iLen l = recv_loop pData iLen 0 l"

section \<open>The queue is a bounded FIFO that drops the oldest\<close>

definition mq_inv :: "lte_msg_queue \<Rightarrow> bool" where
  "mq_inv q \<longleftrightarrow> length (mq_queue q) = LTE_MSG_QUEUE_SIZE \<and> mq_head q < LTE_MSG_QUEUE_SIZE \<and> mq_count q \<le> LTE_MSG_QUEUE_SIZE \<and>
     mq_tail q = (mq_head q + mq_count q) mod LTE_MSG_QUEUE_SIZE \<and>
     (\<forall>i < mq_count q. mq_queue q ! ((mq_head q + i) mod LTE_MSG_QUEUE_SIZE) \<noteq> None)"

definition mq_content :: "lte_msg_queue \<Rightarrow> bytes list" where
  "mq_content q = map (\<lambda>i. the (mq_queue q ! ((mq_head q + i) mod LTE_MSG_QUEUE_SIZE))) [0..<mq_count q]"

lemma length_mq_content [simp]: "length (mq_content q) = mq_count q"
  by (simp add: mq_content_def)

lemma mq_init_inv: "length (mq_queue q) = LTE_MSG_QUEUE_SIZE \<Longrightarrow> mq_inv (snd (my_lte_msg_queue_init q)) \<and> mq_content (snd (my_lte_msg_queue_init q)) = []"
  by (simp add: my_lte_msg_queue_init_def mq_inv_def mq_content_def)

lemma mq_clear_inv: "mq_inv (my_lte_msg_queue_clear q) \<and> mq_content (my_lte_msg_queue_clear q) = []"
  by (simp add: my_lte_msg_queue_clear_def mq_inv_def mq_content_def)

lemma mq_drop_head_spec:
  assumes inv: "mq_inv q" and c: "0 < mq_count q"
  shows "mq_inv (mq_drop_head q)" "mq_content (mq_drop_head q) = tl (mq_content q)" "hd (mq_content q) = the (mq_queue q ! mq_head q)"
    "mq_queue q ! mq_head q \<noteq> None" "mq_count (mq_drop_head q) = mq_count q - 1"
proof -
  have b: "mq_head q < 10" "mq_count q \<le> 10" using inv by (auto simp: mq_inv_def)
  have slot: "(mq_queue q)[mq_head q := None] ! ((Suc (mq_head q) mod 10 + i) mod 10) = mq_queue q ! ((mq_head q + Suc i) mod 10)"
    if "i < mq_count q - 1" for i
  proof -
    have "(Suc (mq_head q) mod 10 + i) mod 10 = (mq_head q + Suc i) mod 10" by (simp add: mod_simps)
    moreover have "(mq_head q + Suc i) mod 10 \<noteq> mq_head q"
      using ring_index_eq_iff [OF b(1), of "Suc i" 0] b that by simp
    ultimately show ?thesis by simp
  qed
  have t: "mq_tail q = (Suc (mq_head q) mod 10 + (mq_count q - 1)) mod 10"
  proof -
    have "(Suc (mq_head q) mod 10 + (mq_count q - 1)) mod 10 = (Suc (mq_head q) + (mq_count q - 1)) mod 10" by (rule mod_add_left_eq)
    then show ?thesis using inv c by (simp add: mq_inv_def)
  qed
  show "mq_inv (mq_drop_head q)"
  proof -
    have "mq_queue q ! ((mq_head q + Suc i) mod 10) \<noteq> None" if "i < mq_count q - 1" for i
      using inv that unfolding mq_inv_def by (metis less_diff_conv Suc_eq_plus1)
    then show ?thesis using inv slot t by (auto simp: mq_inv_def mq_drop_head_def)
  qed
  show "mq_count (mq_drop_head q) = mq_count q - 1" by (simp add: mq_drop_head_def)
  show "mq_queue q ! mq_head q \<noteq> None" using inv c by (auto simp: mq_inv_def dest: spec [of _ 0])
  have "[0..<mq_count q] = 0 # map Suc [0..<mq_count q - 1]" using c by (simp add: map_Suc_upt upt_conv_Cons)
  then have cons: "mq_content q = the (mq_queue q ! (mq_head q mod 10)) #
      map (\<lambda>i. the (mq_queue q ! ((mq_head q + Suc i) mod 10))) [0..<mq_count q - 1]"
    by (simp add: mq_content_def)
  have "mq_content (mq_drop_head q) = map (\<lambda>i. the (mq_queue q ! ((mq_head q + Suc i) mod 10))) [0..<mq_count q - 1]"
    using slot by (auto simp: mq_content_def mq_drop_head_def)
  then show "mq_content (mq_drop_head q) = tl (mq_content q)" using cons by simp
  show "hd (mq_content q) = the (mq_queue q ! mq_head q)" using cons b by simp
qed

lemma mq_put_spec:
  fixes m :: bytes
  assumes inv: "mq_inv q" and room: "mq_count q < LTE_MSG_QUEUE_SIZE"
  defines "q' \<equiv> q\<lparr>mq_queue := (mq_queue q)[mq_tail q := Some m], mq_tail := (mq_tail q + 1) mod LTE_MSG_QUEUE_SIZE, mq_count := mq_count q + 1\<rparr>"
  shows "mq_inv q'" "mq_content q' = mq_content q @ [m]"
proof -
  have b: "mq_head q < 10" "mq_tail q = (mq_head q + mq_count q) mod 10" "length (mq_queue q) = 10" using inv by (auto simp: mq_inv_def)
  have slot: "(mq_queue q)[mq_tail q := Some m] ! ((mq_head q + i) mod 10) = (if i = mq_count q then Some m else mq_queue q ! ((mq_head q + i) mod 10))"
    if "i \<le> mq_count q" for i
    using ring_index_eq_iff [OF b(1), of i "mq_count q"] that room b by (auto simp: nth_list_update)
  have "(mq_tail q + 1) mod 10 = (mq_head q + (mq_count q + 1)) mod 10" using b(2) by (simp add: mod_simps)
  then show "mq_inv q'" using inv slot room by (auto simp: mq_inv_def q'_def less_Suc_eq)
  show "mq_content q' = mq_content q @ [m]" using slot by (auto simp: mq_content_def q'_def)
qed

lemma mq_process_spec:
  assumes "mq_inv q"
  shows "\<exists>q'. my_lte_process_queued_msgs send q s = (q', fold send (mq_content q) s) \<and> mq_inv q' \<and> mq_content q' = []"
  using assms
proof (induction "mq_count q" arbitrary: q s)
  case 0
  then have "mq_content q = []" by (simp flip: length_0_conv)
  then show ?case using 0 by (subst my_lte_process_queued_msgs.simps) simp
next
  case (Suc n)
  note d = mq_drop_head_spec [OF Suc.prems]
  have c: "0 < mq_count q" using Suc.hyps(2) by simp
  obtain m where m: "mq_queue q ! mq_head q = Some m" using d(4) [OF c] by blast
  have "mq_content q = m # mq_content (mq_drop_head q)"
    using d(2,3) [OF c] m c by (metis length_mq_content length_greater_0_conv list.exhaust_sel option.sel)
  then show ?case
    using Suc.hyps(1) [of "mq_drop_head q" "send m s"] d(1,5) [OF c] Suc.hyps(2) c m
    by (subst my_lte_process_queued_msgs.simps) simp
qed

text \<open>
  C38: messages for the LTE module that cannot be sent yet wait in a first-in first-out queue of
  ten. A message is appended; when the queue is full the oldest is dropped for it (even if
  the allocation then fails); a null or empty message changes nothing; and once the
  module is ready all waiting messages are sent, in order, and the queue is empty.
\<close>

theorem lte_msg_queue_fifo:
  assumes "mq_inv q"
  shows "(\<forall>ok msg len. \<exists>r q'. my_lte_enqueue_msg ok msg len q = (r, q') \<and> mq_inv q' \<and>
       (case msg of
          None \<Rightarrow> r = -EINVAL \<and> q' = q
        | Some m \<Rightarrow>
            if len = 0 then r = -EINVAL \<and> q' = q
            else let kept = (if length (mq_content q) = LTE_MSG_QUEUE_SIZE then tl (mq_content q) else mq_content q)
                 in if ok then r = 0 \<and> mq_content q' = kept @ [take len m] else r = -ENOMEM \<and> mq_content q' = kept)) \<and>
     (\<forall>send (s :: 's). \<exists>q'. my_lte_process_queued_msgs send q s = (q', fold send (mq_content q) s) \<and> mq_inv q' \<and> mq_content q' = [])"
proof (intro conjI allI)
  fix send :: "bytes \<Rightarrow> 's \<Rightarrow> 's" and s
  show "\<exists>q'. my_lte_process_queued_msgs send q s = (q', fold send (mq_content q) s) \<and> mq_inv q' \<and> mq_content q' = []"
    by (rule mq_process_spec [OF assms])
next
  fix ok msg len
  define q1 where "q1 = (if mq_count q \<ge> LTE_MSG_QUEUE_SIZE then mq_drop_head q else q)"
  have full: "mq_count q = LTE_MSG_QUEUE_SIZE \<longleftrightarrow> mq_count q \<ge> LTE_MSG_QUEUE_SIZE" using assms by (auto simp: mq_inv_def)
  have q1: "mq_inv q1" "mq_content q1 = (if length (mq_content q) = LTE_MSG_QUEUE_SIZE then tl (mq_content q) else mq_content q)"
      "mq_count q1 < LTE_MSG_QUEUE_SIZE"
    using mq_drop_head_spec [OF assms] assms full by (auto simp: q1_def mq_inv_def)
  note put = mq_put_spec [OF q1(1,3)]
  show "\<exists>r q'. my_lte_enqueue_msg ok msg len q = (r, q') \<and> mq_inv q' \<and>
       (case msg of
          None \<Rightarrow> r = -EINVAL \<and> q' = q
        | Some m \<Rightarrow>
            if len = 0 then r = -EINVAL \<and> q' = q
            else let kept = (if length (mq_content q) = LTE_MSG_QUEUE_SIZE then tl (mq_content q) else mq_content q)
                 in if ok then r = 0 \<and> mq_content q' = kept @ [take len m] else r = -ENOMEM \<and> mq_content q' = kept)"
    unfolding my_lte_enqueue_msg_def q1_def [symmetric] q1(2) [symmetric] Let_def
    using assms q1(1) put by (auto split: option.splits)
qed

lemma lte_msg_queue_fifo_witness:
  "\<forall>q0. mq_content (snd (my_lte_enqueue_msg True (Some [1, 2, 3]) 2 (my_lte_msg_queue_clear q0))) = [[1, 2]]"
proof
  fix q0
  have "mq_inv (my_lte_msg_queue_clear q0)" "mq_content (my_lte_msg_queue_clear q0) = []" using mq_clear_inv by auto
  then show "mq_content (snd (my_lte_enqueue_msg True (Some [1, 2, 3]) 2 (my_lte_msg_queue_clear q0))) = [[1, 2]]"
    using lte_msg_queue_fifo [of "my_lte_msg_queue_clear q0", where 's = unit, THEN conjunct1, rule_format, of True "Some [1, 2, 3]" 2]
    by auto
qed

section \<open>Line assembly does not depend on the chunks\<close>

text \<open>The reference: one byte at a time.\<close>

definition line_step :: "u8 \<Rightarrow> lte_line \<Rightarrow> lte_line" where
  "line_step c l = (if line_end c then line_flush l else line_char c l)"

text \<open>The same lines, up to empty ones.\<close>

definition same_lines :: "lte_line \<Rightarrow> lte_line \<Rightarrow> bool" where
  "same_lines l l' \<longleftrightarrow> line_command l = line_command l' \<and> filter (\<lambda>x. x \<noteq> []) (line_out l) = filter (\<lambda>x. x \<noteq> []) (line_out l')"

lemma same_lines_step: "same_lines l l' \<Longrightarrow> same_lines (line_step c l) (line_step c l')"
  by (auto simp: same_lines_def line_step_def line_flush_def line_char_def)

lemma same_lines_flush_twice: "same_lines l l' \<Longrightarrow> same_lines (line_flush l) (line_step 10 (line_flush l'))"
  by (auto simp: same_lines_def line_step_def line_flush_def line_end_def)

lemma recv_loop_same_lines:
  assumes "n \<le> length buf" "n < length buf \<or> \<not> line_end (last buf)" "\<And>j. n \<le> j \<Longrightarrow> j < length buf \<Longrightarrow> buf ! j \<noteq> 10"
    "same_lines l l0"
  shows "\<exists>l'. recv_loop buf n i l = Some l' \<and> same_lines l' (fold line_step (drop i (take n buf)) l0)"
  using assms(4)
proof (induction "n - i" arbitrary: i l l0 rule: less_induct)
  case less
  show ?case
  proof (cases "i < n")
    case False
    then show ?thesis using less.prems by (subst recv_loop.simps) simp
  next
    case True
    have d: "drop i (take n buf) = buf ! i # drop (Suc i) (take n buf)"
      using True assms(1) by (subst Cons_nth_drop_Suc [symmetric]) simp_all
    show ?thesis
    proof (cases "line_end (buf ! i)")
      case False
      have "same_lines (line_char (buf ! i) l) (line_step (buf ! i) l0)"
        using same_lines_step [OF less.prems, of "buf ! i"] False by (simp add: line_step_def)
      then show ?thesis using less.hyps [of "i + 1"] True False d by (subst recv_loop.simps) simp
    next
      case le: True
      have len: "i + 1 < length buf"
      proof (rule ccontr)
        assume "\<not> i + 1 < length buf"
        then have "i + 1 = n" "n = length buf" using True assms(1) by simp_all
        then show False using assms(2) le by (simp add: last_conv_nth) (metis Suc_eq_plus1 diff_Suc_1 last_conv_nth list.size(3) nat.distinct(1))
      qed
      have fl: "same_lines (line_flush l) (line_step (buf ! i) l0)"
        using same_lines_step [OF less.prems, of "buf ! i"] le by (simp add: line_step_def)
      show ?thesis
      proof (cases "buf ! (i + 1) = 10")
        case False
        then show ?thesis using less.hyps [of "i + 1"] fl True le len d by (subst recv_loop.simps) simp
      next
        case nl: True
        then have lt: "i + 1 < n" using assms(3) [of "i + 1"] len by (meson not_less)
        then have d2: "drop (Suc i) (take n buf) = 10 # drop (i + 2) (take n buf)"
          using nl assms(1) by (subst Cons_nth_drop_Suc [symmetric]) simp_all
        have "same_lines (line_flush l) (line_step 10 (line_step (buf ! i) l0))"
          using same_lines_flush_twice [OF less.prems] le by (simp add: line_step_def)
        then show ?thesis using less.hyps [of "i + 2"] True le len nl d d2 by (subst recv_loop.simps) simp
      qed
    qed
  qed
qed

text \<open>The chunks as the LTE thread reads them: into an array of 128 bytes, zeroed before each read.\<close>

abbreviation (input) READ_BUF_SIZE :: nat where "READ_BUF_SIZE \<equiv> 128"

definition lte_recv_chunk :: "bytes \<Rightarrow> lte_line \<Rightarrow> lte_line option" where
  "lte_recv_chunk bs l = my_lte_handle_recv (mem_put (replicate READ_BUF_SIZE 0) 0 bs) (length bs) l"

fun lte_recv_chunks :: "bytes list \<Rightarrow> lte_line \<Rightarrow> lte_line option" where
  "lte_recv_chunks [] l = Some l"
| "lte_recv_chunks (c # cs) l = (case lte_recv_chunk c l of None \<Rightarrow> None | Some l' \<Rightarrow> lte_recv_chunks cs l')"

definition chunk_ok :: "bytes \<Rightarrow> bool" where
  "chunk_ok c \<longleftrightarrow> length c \<le> READ_BUF_SIZE \<and> (length c = READ_BUF_SIZE \<longrightarrow> \<not> line_end (last c))"

lemma chunk_buf: "length c \<le> READ_BUF_SIZE \<Longrightarrow> mem_put (replicate READ_BUF_SIZE 0) 0 c = c @ replicate (READ_BUF_SIZE - length c) 0"
  by (subst mem_put_write) simp_all

lemma lte_recv_chunk_same_lines:
  assumes "chunk_ok c" "same_lines l l0"
  shows "\<exists>l'. lte_recv_chunk c l = Some l' \<and> same_lines l' (fold line_step c l0)"
proof -
  have len: "length c \<le> READ_BUF_SIZE" using assms(1) by (simp add: chunk_ok_def)
  define buf where "buf = c @ replicate (READ_BUF_SIZE - length c) (0 :: u8)"
  have lb: "length buf = READ_BUF_SIZE" using len by (simp add: buf_def)
  have 1: "length c \<le> length buf" using lb len by simp
  have 2: "length c < length buf \<or> \<not> line_end (last buf)" using assms(1) lb len by (auto simp: chunk_ok_def buf_def)
  have 3: "buf ! j \<noteq> 10" if "length c \<le> j" "j < length buf" for j using that lb by (simp add: buf_def nth_append)
  have "take (length c) buf = c" by (simp add: buf_def)
  then show ?thesis
    using recv_loop_same_lines [OF 1 2 3 assms(2), of 0] len
    by (simp add: lte_recv_chunk_def my_lte_handle_recv_def chunk_buf buf_def [symmetric])
qed

text \<open>
  C39: the command lines the LTE thread hands to its parser do not depend on how the bytes of
  the line are cut into reads. For every sequence of reads of at most 128 bytes, as long as
  a read of the full 128 bytes does not end in a line end, the lines (empty ones apart) and the
  unfinished rest are those of the byte stream, taken one byte at a time.
\<close>

theorem lte_lines_chunk_independent:
  assumes "\<forall>c \<in> set cs. chunk_ok c"
  shows "\<exists>l'. lte_recv_chunks cs l = Some l' \<and> same_lines l' (fold line_step (concat cs) l)"
proof -
  have "\<exists>l'. lte_recv_chunks cs l = Some l' \<and> same_lines l' (fold line_step (concat cs) l0)" if "same_lines l l0" for l0
    using assms that
  proof (induction cs arbitrary: l l0)
    case Nil
    then show ?case by simp
  next
    case (Cons c cs)
    then obtain l1 where "lte_recv_chunk c l = Some l1" "same_lines l1 (fold line_step c l0)"
      using lte_recv_chunk_same_lines [of c l l0] by auto
    then show ?case using Cons.IH [of l1 "fold line_step c l0"] Cons.prems(1) by simp
  qed
  then show ?thesis by (simp add: same_lines_def)
qed

lemma lte_lines_chunk_independent_witness:
  "\<exists>l'. lte_recv_chunks [[65, 66, 13], [10, 67], [13, 10]] \<lparr>line_command = [], line_out = []\<rparr> = Some l' \<and>
     filter (\<lambda>x. x \<noteq> []) (line_out l') = [[65, 66], [67]]"
  using lte_lines_chunk_independent [of "[[65, 66, 13], [10, 67], [13, 10]]" "\<lparr>line_command = [], line_out = []\<rparr>"]
  by (auto simp: chunk_ok_def same_lines_def line_step_def line_end_def line_flush_def line_char_def)

text \<open>
  The excluded case is real. A read that fills the 128 byte array and ends in a carriage
  return (or line feed) makes the line assembly look at the byte behind the array.
\<close>

lemma lte_line_overread:
  assumes "length bs = READ_BUF_SIZE - 1" "\<forall>c \<in> set bs. \<not> line_end c" "line_end e"
  shows "lte_recv_chunk (bs @ [e]) l = None"
proof -
  define buf where "buf = bs @ [e]"
  have "recv_loop buf READ_BUF_SIZE i l = None" if "i \<le> READ_BUF_SIZE - 1" for i l
    using that
  proof (induction "READ_BUF_SIZE - 1 - i" arbitrary: i l)
    case 0
    then have "i = 127" by simp
    then have "buf ! i = e" "length buf = 128" using assms(1) by (auto simp: buf_def nth_append)
    then show ?case using \<open>i = 127\<close> assms(3) by (subst recv_loop.simps) simp
  next
    case (Suc n)
    then have i: "i < 127" by simp
    then have "buf ! i \<in> set bs" using assms(1) by (simp add: buf_def nth_append)
    then have "\<not> line_end (buf ! i)" using assms(2) by blast
    then show ?case using Suc.hyps(1) [of "i + 1"] Suc.hyps(2) i by (subst recv_loop.simps) simp
  qed
  from this [of 0] show ?thesis
    using assms(1) by (simp add: lte_recv_chunk_def my_lte_handle_recv_def chunk_buf buf_def)
qed

end
