(* ===== verification/Lte_Uart.thy ===== *)
theory Lte_Uart
  imports Ring_Buf Pm Lte_Queue
begin

text \<open>
  Model of the serial line to the LTE module, the part of \<^verbatim>\<open>src/my_lte.c\<close> between the driver and
  the message handlers: power management of the UART, the receive ring
  filled by the driver callback, sending with and without the wake-up bytes, and the messages of the LTE
  thread that concern the line. The build has \<^verbatim>\<open>LTE_UART_DEBUG_ENABLE = 0\<close> and
  \<^verbatim>\<open>RETRANSMIT_CHECK_ENABLED = 0\<close>.

  The driver is a parameter, a record of functions on a hardware state \<open>'h\<close>.
  \<open>tx_done_in_time\<close> says whether the transmission under way ends before a wait of 200 ms does.
  What arrives on the line is a script: one entry per sleep of the reading thread, the
  milliseconds the sleep takes and the bytes the callback stores meanwhile.
\<close>

section \<open>State\<close>

abbreviation EAGAIN :: int where "EAGAIN \<equiv> 11"
abbreviation EFAULT :: int where "EFAULT \<equiv> 14"
abbreviation (input) LTE_UART_RB_SIZE :: nat where "LTE_UART_RB_SIZE \<equiv> 2048"
abbreviation (input) UART_TX_BUFFER_SIZE :: nat where "UART_TX_BUFFER_SIZE \<equiv> 1024"
abbreviation (input) YMODEM_SEND_BUF_SIZE :: nat where "YMODEM_SEND_BUF_SIZE \<equiv> 64"
abbreviation (input) LTE_UART_SEND_WAKEUP_WINDOW_MS :: int where "LTE_UART_SEND_WAKEUP_WINDOW_MS \<equiv> 2500"
abbreviation (input) LTE_UART_IDLE_TIMEOUT_MS :: int where "LTE_UART_IDLE_TIMEOUT_MS \<equiv> 3000"

datatype lte_msg = MY_MSG_LTE_TX_DONE | MY_MSG_LTE_TX_ABORTED | MY_MSG_LTE_REV | MY_MSG_LTE_UART_IDLE | MY_MSG_LTE_WAKEUP
  | MY_MSG_LTE_PWRON | MY_MSG_LTE_PWROFF | MY_MSG_LTE_BLE_DATA "bytes option" nat

record 'h uart_driver =
  uart_rx_enable :: "'h \<Rightarrow> int \<times> 'h"
  uart_rx_disable :: "'h \<Rightarrow> int \<times> 'h"
  uart_tx :: "bytes \<Rightarrow> 'h \<Rightarrow> int \<times> 'h"
  tx_done_in_time :: "'h \<Rightarrow> bool \<times> 'h"
  gpio_pin_set :: "bool \<Rightarrow> 'h \<Rightarrow> int \<times> 'h"
  malloc_succeeds :: "'h \<Rightarrow> bool"
  hw_bus_present :: "pm_bus \<Rightarrow> bool"
  hw_runtime_get :: "pm_bus \<Rightarrow> 'h \<Rightarrow> int \<times> 'h"
  hw_runtime_put :: "pm_bus \<Rightarrow> 'h \<Rightarrow> int \<times> 'h"

text \<open>\<^verbatim>\<open>s_lte_uart_ctx\<close> and the other statics; the driver's next buffer is the second one or not.\<close>

record 'h lte =
  idle_timer :: "int option"
  send_wakeup_expire_timestamp_ms :: int
  uart_active :: bool
  tx_busy :: bool
  wakeup_pending :: bool
  s_TxDoneSem :: nat
  s_lte_power_state :: bool
  g_bLteReady :: bool
  g_lte_ota_in_progress :: bool
  s_lte_factory :: bool
  s_lte_msg_queue :: lte_msg_queue
  lte_command :: lte_line
  next_buf_is_2 :: bool
  s_lte_rb :: ring_buffer
  lte_msgq :: "lte_msg list"
  lte_now :: int
  lte_arrivals :: "(nat \<times> bytes) list"
  lte_hw :: 'h

type_synonym 'h lte_sys = "'h lte pm \<times> 'h lte"

section \<open>Power management callbacks\<close>

definition lte_pm_init :: "'h lte \<Rightarrow> int \<times> 'h lte" where
  "lte_pm_init s = (0, s\<lparr>uart_active := False, tx_busy := False, wakeup_pending := False,
     send_wakeup_expire_timestamp_ms := 0, idle_timer := None\<rparr>)"

definition lte_pm_suspend :: "'h uart_driver \<Rightarrow> 'h lte \<Rightarrow> int \<times> 'h lte" where
  "lte_pm_suspend drv s =
     (case uart_rx_disable drv (lte_hw s) of (ret, h) \<Rightarrow>
        if ret \<noteq> 0 \<and> ret \<noteq> -EFAULT \<and> ret \<noteq> -EINVAL \<and> ret \<noteq> -EBUSY then (ret, s\<lparr>uart_active := True, lte_hw := h\<rparr>)
        else (0, s\<lparr>uart_active := False, lte_hw := h\<rparr>))"

definition lte_pm_resume :: "'h uart_driver \<Rightarrow> 'h lte \<Rightarrow> int \<times> 'h lte" where
  "lte_pm_resume drv s =
     (case uart_rx_enable drv (lte_hw s) of (ret, h) \<Rightarrow>
        if ret \<noteq> 0 \<and> ret \<noteq> -EBUSY then (ret, s\<lparr>next_buf_is_2 := True, lte_hw := h\<rparr>)
        else (0, s\<lparr>next_buf_is_2 := True, uart_active := True, lte_hw := h\<rparr>))"

definition lte_pm_ops :: "'h uart_driver \<Rightarrow> 'h lte pm_device_ops" where
  "lte_pm_ops drv = \<lparr>op_suspend = Some (lte_pm_suspend drv), op_resume = Some (lte_pm_resume drv), op_init = Some lte_pm_init\<rparr>"

text \<open>The runtime power management, acting on the hardware only.\<close>

definition lte_pm_env :: "'h uart_driver \<Rightarrow> 'h lte pm_env" where
  "lte_pm_env drv = \<lparr>bus_present = hw_bus_present drv,
     pm_device_runtime_get = (\<lambda>b s. case hw_runtime_get drv b (lte_hw s) of (r, h) \<Rightarrow> (r, s\<lparr>lte_hw := h\<rparr>)),
     pm_device_runtime_put = (\<lambda>b s. case hw_runtime_put drv b (lte_hw s) of (r, h) \<Rightarrow> (r, s\<lparr>lte_hw := h\<rparr>))\<rparr>"

section \<open>Line control\<close>

definition lte_post :: "lte_msg \<Rightarrow> 'h lte \<Rightarrow> 'h lte" where
  "lte_post m s = s\<lparr>lte_msgq := lte_msgq s @ [m]\<rparr>"

definition lte_uart_idle_timer_handler :: "'h lte \<Rightarrow> 'h lte" where
  "lte_uart_idle_timer_handler s = lte_post MY_MSG_LTE_UART_IDLE s"

definition lte_wake_pin_isr :: "'h lte \<Rightarrow> 'h lte" where
  "lte_wake_pin_isr s =
     (if \<not> wakeup_pending s then lte_post MY_MSG_LTE_WAKEUP (s\<lparr>wakeup_pending := True\<rparr>) else s)"

definition lte_uart_ensure_active :: "'h uart_driver \<Rightarrow> 'h lte_sys \<Rightarrow> int \<times> 'h lte_sys" where
  "lte_uart_ensure_active drv = (\<lambda>(pm, s).
     if \<not> s_lte_power_state s then (-ENODEV, (pm, s))
     else if \<not> uart_active s
     then (case my_pm_device_resume (lte_pm_env drv) MY_PM_DEV_LTE pm s of (ret, sys) \<Rightarrow> if ret < 0 then (ret, sys) else (0, sys))
     else (0, (pm, s)))"

definition lte_uart_can_suspend :: "bool \<Rightarrow> 'h lte \<Rightarrow> bool" where
  "lte_uart_can_suspend ota_busy s \<longleftrightarrow>
     \<not> (g_lte_ota_in_progress s \<or> ota_busy) \<and> mq_count (s_lte_msg_queue s) = 0 \<and>
     \<not> my_rb_get_used_size (Some (s_lte_rb s)) > 0 \<and> \<not> tx_busy s"

definition lte_uart_activity_kick :: "'h lte \<Rightarrow> 'h lte" where
  "lte_uart_activity_kick s = (if \<not> uart_active s then s else s\<lparr>idle_timer := Some LTE_UART_IDLE_TIMEOUT_MS\<rparr>)"

definition lte_uart_send_wakeup_window_kick :: "'h lte \<Rightarrow> 'h lte" where
  "lte_uart_send_wakeup_window_kick s = s\<lparr>send_wakeup_expire_timestamp_ms := lte_now s + LTE_UART_SEND_WAKEUP_WINDOW_MS\<rparr>"

definition lte_uart_need_send_wakeup :: "'h lte \<Rightarrow> bool" where
  "lte_uart_need_send_wakeup s \<longleftrightarrow> lte_now s \<ge> send_wakeup_expire_timestamp_ms s"

text \<open>The events of the UART driver.\<close>

datatype uart_event = UART_TX_DONE | UART_RX_RDY bytes | UART_RX_BUF_REQUEST | UART_RX_BUF_RELEASED bool | UART_RX_DISABLED | UART_TX_ABORTED

text \<open>\<open>k_sem_give\<close> on a semaphore with limit 1.\<close>

definition sem_give :: "'h lte \<Rightarrow> 'h lte" where
  "sem_give s = s\<lparr>s_TxDoneSem := 1\<rparr>"

definition lte_uart_cb :: "'h uart_driver \<Rightarrow> uart_event \<Rightarrow> 'h lte \<Rightarrow> 'h lte" where
  "lte_uart_cb drv evt s =
     (case evt of
        UART_TX_DONE \<Rightarrow> sem_give (lte_post MY_MSG_LTE_TX_DONE s)
      | UART_RX_RDY data \<Rightarrow> lte_post MY_MSG_LTE_REV (s\<lparr>s_lte_rb := snd (my_rb_write (s_lte_rb s) data)\<rparr>)
      | UART_RX_BUF_REQUEST \<Rightarrow> s
      | UART_RX_BUF_RELEASED is_2 \<Rightarrow> s\<lparr>next_buf_is_2 := is_2\<rparr>
      | UART_RX_DISABLED \<Rightarrow>
          if uart_active s then s\<lparr>next_buf_is_2 := True, lte_hw := snd (uart_rx_enable drv (lte_hw s))\<rparr> else s
      | UART_TX_ABORTED \<Rightarrow> sem_give (lte_post MY_MSG_LTE_TX_ABORTED s))"

text \<open>
  \<open>k_sem_take\<close> with a timeout of 200 ms: take the unit that is there, or the one the
  end of the transmission brings in time.
\<close>

definition sem_take :: "'h uart_driver \<Rightarrow> 'h lte \<Rightarrow> int \<times> 'h lte" where
  "sem_take drv s =
     (if s_TxDoneSem s > 0 then (0, s\<lparr>s_TxDoneSem := s_TxDoneSem s - 1\<rparr>)
      else case tx_done_in_time drv (lte_hw s) of (done_now, h) \<Rightarrow>
        if done_now then (0, (lte_uart_cb drv UART_TX_DONE (s\<lparr>lte_hw := h\<rparr>))\<lparr>s_TxDoneSem := 0\<rparr>)
        else (-EAGAIN, s\<lparr>lte_hw := h\<rparr>))"

section \<open>Sending\<close>

definition tx_failed :: "'h lte \<Rightarrow> 'h lte" where
  "tx_failed s = sem_give (s\<lparr>tx_busy := False\<rparr>)"

definition lte_uart_tx :: "'h uart_driver \<Rightarrow> bytes \<Rightarrow> 'h lte \<Rightarrow> int \<times> 'h lte" where
  "lte_uart_tx drv data s = (case uart_tx drv data (lte_hw s) of (ret, h) \<Rightarrow> (ret, s\<lparr>lte_hw := h\<rparr>))"

definition wake_byte :: bytes where
  "wake_byte = [0xAA, 0x0D, 0x0A]"

definition k_sleep_lte :: "int \<Rightarrow> 'h lte \<Rightarrow> 'h lte" where
  "k_sleep_lte ms s = s\<lparr>lte_now := lte_now s + ms\<rparr>"

definition send_data_bytes :: "'h uart_driver \<Rightarrow> bytes \<Rightarrow> 'h lte \<Rightarrow> int \<times> 'h lte" where
  "send_data_bytes drv data s =
     (case lte_uart_tx drv data (lte_uart_send_wakeup_window_kick s) of (ret, s') \<Rightarrow>
        if ret \<noteq> 0 then (ret, tx_failed s') else (0, s'))"

definition my_lte_uart_send :: "'h uart_driver \<Rightarrow> bytes \<Rightarrow> 'h lte_sys \<Rightarrow> int \<times> 'h lte_sys" where
  "my_lte_uart_send drv data = (\<lambda>(pm, s).
     if \<not> g_bLteReady s then (-1, (pm, s))
     else if length data > UART_TX_BUFFER_SIZE then (-1, (pm, s))
     else case lte_uart_ensure_active drv (pm, s) of (r0, (pm1, s1)) \<Rightarrow>
       if r0 < 0 then (-1, (pm1, s1))
       else case sem_take drv (lte_uart_activity_kick s1) of (r1, s2) \<Rightarrow>
         if r1 \<noteq> 0 then (r1, (pm1, s2))
         else
           let s3 = s2\<lparr>tx_busy := True\<rparr>
           in if \<not> lte_uart_need_send_wakeup s3
              then (case send_data_bytes drv data s3 of (r, s') \<Rightarrow> (r, (pm1, s')))
              else case lte_uart_tx drv wake_byte s3 of (r2, s4) \<Rightarrow>
                if r2 \<noteq> 0 then (r2, (pm1, tx_failed s4))
                else case sem_take drv s4 of (r3, s5) \<Rightarrow>
                  if r3 \<noteq> 0 then (r3, (pm1, tx_failed s5))
                  else case send_data_bytes drv data (k_sleep_lte 10 s5) of (r, s') \<Rightarrow> (r, (pm1, s')))"

definition my_lte_uart_send_ymodem :: "'h uart_driver \<Rightarrow> bytes option \<Rightarrow> nat \<Rightarrow> 'h lte_sys \<Rightarrow> int \<times> 'h lte_sys" where
  "my_lte_uart_send_ymodem drv data len = (\<lambda>(pm, s).
     case data of
       None \<Rightarrow> (-EINVAL, (pm, s))
     | Some d \<Rightarrow>
         if len = 0 \<or> len > YMODEM_SEND_BUF_SIZE then (-EINVAL, (pm, s))
         else case lte_uart_ensure_active drv (pm, s) of (r0, (pm1, s1)) \<Rightarrow>
           if r0 < 0 then (-1, (pm1, s1))
           else case sem_take drv (lte_uart_activity_kick s1) of (r1, s2) \<Rightarrow>
             if r1 \<noteq> 0 then (r1, (pm1, s2))
             else case send_data_bytes drv (take len d) (s2\<lparr>tx_busy := True\<rparr>) of (r, s') \<Rightarrow> (r, (pm1, s')))"

section \<open>Receiving\<close>

text \<open>The return value (\<open>None\<close> for an error) carries the bytes stored in the buffer.\<close>

definition my_lte_uart_read :: "u32 \<Rightarrow> 'h lte \<Rightarrow> bytes option \<times> 'h lte" where
  "my_lte_uart_read len s =
     (if len = 0 then (None, s) else case my_rb_read (s_lte_rb s) len of (bs, rb) \<Rightarrow> (Some bs, s\<lparr>s_lte_rb := rb\<rparr>))"

definition my_lte_uart_flush :: "'h lte \<Rightarrow> 'h lte" where
  "my_lte_uart_flush s = s\<lparr>s_lte_rb := the (my_rb_clear (Some (s_lte_rb s)))\<rparr>"

definition my_lte_purge_dfu_queues :: "'h lte \<Rightarrow> 'h lte" where
  "my_lte_purge_dfu_queues s = my_lte_uart_flush (s\<lparr>lte_msgq := [], s_lte_msg_queue := my_lte_msg_queue_clear (s_lte_msg_queue s)\<rparr>)"

section \<open>Messages to the module\<close>

definition my_lte_send_msg :: "'h uart_driver \<Rightarrow> bytes option \<Rightarrow> nat \<Rightarrow> 'h lte_sys \<Rightarrow> int \<times> 'h lte_sys" where
  "my_lte_send_msg drv msg_content msg_len = (\<lambda>(pm, s).
     case msg_content of
       None \<Rightarrow> (-EINVAL, (pm, s))
     | Some m \<Rightarrow>
         if msg_len = 0 then (-EINVAL, (pm, s))
         else if g_bLteReady s then my_lte_uart_send drv (take msg_len m) (pm, s)
         else case my_lte_enqueue_msg (malloc_succeeds drv (lte_hw s)) (Some m) msg_len (s_lte_msg_queue s) of
                (r, q) \<Rightarrow> (r, (pm, s\<lparr>s_lte_msg_queue := q\<rparr>)))"

text \<open>The queue is not touched by the sends, so it is updated once at the end.\<close>

definition lte_send_queued :: "'h uart_driver \<Rightarrow> 'h lte_sys \<Rightarrow> 'h lte_sys" where
  "lte_send_queued drv = (\<lambda>(pm, s).
     case my_lte_process_queued_msgs (\<lambda>m sys. snd (my_lte_uart_send drv m sys)) (s_lte_msg_queue s) (pm, s) of
       (q, (pm', s')) \<Rightarrow> (pm', s'\<lparr>s_lte_msg_queue := q\<rparr>))"

section \<open>Power of the module\<close>

definition my_lte_pwr_on :: "'h uart_driver \<Rightarrow> bool \<Rightarrow> 'h lte \<Rightarrow> int \<times> 'h lte" where
  "my_lte_pwr_on drv on s =
     (if s_lte_power_state s = on then (0, s)
      else case gpio_pin_set drv on (lte_hw s) of (err, h) \<Rightarrow>
        if err = 0 then (0, s\<lparr>lte_hw := h, s_lte_power_state := on\<rparr>) else (err, s\<lparr>lte_hw := h\<rparr>))"

definition my_lte_pwroff_handle :: "'h uart_driver \<Rightarrow> bool \<Rightarrow> 'h lte_sys \<Rightarrow> 'h lte_sys" where
  "my_lte_pwroff_handle drv ota_busy = (\<lambda>(pm, s).
     if g_lte_ota_in_progress s \<or> ota_busy \<or> s_lte_factory s then (pm, s)
     else
       let s1 = s\<lparr>idle_timer := None, send_wakeup_expire_timestamp_ms := 0\<rparr>;
           s2 = (if tx_busy s1 then snd (sem_take drv s1) else s1);
           (pm3, s3) = (if uart_active s2 then snd (my_pm_device_suspend (lte_pm_env drv) MY_PM_DEV_LTE pm s2) else (pm, s2));
           s4 = sem_give (s3\<lparr>tx_busy := False, wakeup_pending := False\<rparr>);
           s5 = my_lte_uart_flush s4;
           s6 = s5\<lparr>s_lte_msg_queue := my_lte_msg_queue_clear (s_lte_msg_queue s5)\<rparr>
       in (pm3, (snd (my_lte_pwr_on drv False s6))\<lparr>g_bLteReady := False\<rparr>))"

section \<open>The LTE thread\<close>

text \<open>
  Read the ring in pieces of 128 bytes and hand each to the line assembly until the ring is empty. The
  command parser behind it is not part of this model: the lines it gets are collected.
\<close>

partial_function (option) lte_read_ring :: "'h lte \<Rightarrow> 'h lte option" where
  "lte_read_ring s =
     (case my_rb_read (s_lte_rb s) 128 of (bs, rb) \<Rightarrow>
        if bs = [] then Some (s\<lparr>s_lte_rb := rb\<rparr>)
        else case lte_recv_chunk bs (lte_command s) of
          None \<Rightarrow> None
        | Some l \<Rightarrow> lte_read_ring (s\<lparr>s_lte_rb := rb, lte_command := l\<rparr>))"

text \<open>
  The messages of the loop that move bytes or change the power of the line. The messages for the repetition of
  commands and for the periodic pulse are left out here: what they do to the line is to post further commands and
  power messages, which are handled as the ones below.
\<close>

definition my_lte_task :: "'h uart_driver \<Rightarrow> bool \<Rightarrow> lte_msg \<Rightarrow> 'h lte_sys \<Rightarrow> 'h lte_sys option" where
  "my_lte_task drv ota_busy m = (\<lambda>(pm, s).
     case m of
       MY_MSG_LTE_TX_DONE \<Rightarrow> Some (pm, s\<lparr>tx_busy := False\<rparr>)
     | MY_MSG_LTE_TX_ABORTED \<Rightarrow> Some (pm, s\<lparr>tx_busy := False\<rparr>)
     | MY_MSG_LTE_UART_IDLE \<Rightarrow>
         Some (if uart_active s \<and> lte_uart_can_suspend ota_busy s
               then snd (my_pm_device_suspend (lte_pm_env drv) MY_PM_DEV_LTE pm s) else (pm, s))
     | MY_MSG_LTE_PWRON \<Rightarrow> Some (pm, snd (my_lte_pwr_on drv True s))
     | MY_MSG_LTE_PWROFF \<Rightarrow>
         Some (case my_lte_pwroff_handle drv ota_busy (pm, s) of (pm1, s1) \<Rightarrow> (pm1, k_sleep_lte 2000 s1))
     | MY_MSG_LTE_REV \<Rightarrow>
         map_option (\<lambda>s'. (pm, s')) (lte_read_ring (lte_uart_send_wakeup_window_kick (lte_uart_activity_kick s)))
     | MY_MSG_LTE_BLE_DATA pData DataLen \<Rightarrow> Some (snd (my_lte_send_msg drv pData DataLen (pm, s)))
     | MY_MSG_LTE_WAKEUP \<Rightarrow>
         Some (case lte_uart_ensure_active drv (pm, s\<lparr>wakeup_pending := False\<rparr>) of (r, (pm1, s1)) \<Rightarrow>
                 if r = 0 then (pm1, lte_uart_send_wakeup_window_kick (lte_uart_activity_kick s1)) else (pm1, s1)))"

section \<open>What the power manager may change\<close>

definition lte_ops_ok :: "'h uart_driver \<Rightarrow> 'h lte pm \<Rightarrow> bool" where
  "lte_ops_ok drv pm \<longleftrightarrow> ctx_ops (pm MY_PM_DEV_LTE) = None \<or> ctx_ops (pm MY_PM_DEV_LTE) = Some (lte_pm_ops drv)"

text \<open>Only the activity flag, the buffer choice and the hardware differ.\<close>

definition uart_frame :: "'h lte \<Rightarrow> 'h lte \<Rightarrow> bool" where
  "uart_frame s s' \<longleftrightarrow> idle_timer s' = idle_timer s \<and> send_wakeup_expire_timestamp_ms s' = send_wakeup_expire_timestamp_ms s \<and> tx_busy s' = tx_busy s \<and>
     wakeup_pending s' = wakeup_pending s \<and> s_TxDoneSem s' = s_TxDoneSem s \<and> s_lte_power_state s' = s_lte_power_state s \<and>
     g_bLteReady s' = g_bLteReady s \<and> g_lte_ota_in_progress s' = g_lte_ota_in_progress s \<and> s_lte_factory s' = s_lte_factory s \<and>
     s_lte_msg_queue s' = s_lte_msg_queue s \<and> lte_command s' = lte_command s \<and> s_lte_rb s' = s_lte_rb s \<and>
     lte_msgq s' = lte_msgq s \<and> lte_now s' = lte_now s \<and> lte_arrivals s' = lte_arrivals s"

lemma uart_frame_refl [simp]: "uart_frame s s"
  by (simp add: uart_frame_def)

lemma uart_frame_trans: "uart_frame s s1 \<Longrightarrow> uart_frame s1 s2 \<Longrightarrow> uart_frame s s2"
  by (simp add: uart_frame_def)

lemma uart_frame_hw [simp]: "uart_frame s (s\<lparr>lte_hw := h\<rparr>)"
  by (simp add: uart_frame_def)

lemma bus_frame:
  "uart_frame s (snd (bus_resume (lte_pm_env drv) d s))" "uart_frame s (snd (bus_suspend (lte_pm_env drv) d s))"
  "uart_frame s (snd (bus_rollback (lte_pm_env drv) d s))"
  by (auto simp: bus_rollback_eq bus_resume_eq bus_suspend_eq bus_get_def bus_put_def lte_pm_env_def uart_frame_hw
      split: option.splits prod.splits)

lemma lte_pm_frame: "uart_frame s (snd (lte_pm_resume drv s))" "uart_frame s (snd (lte_pm_suspend drv s))"
  by (auto simp: lte_pm_resume_def lte_pm_suspend_def uart_frame_def split: prod.splits)

lemma lte_ops_ok_set_state [simp]: "lte_ops_ok drv (pm_set_state d st pm) = lte_ops_ok drv pm"
  by (simp add: lte_ops_ok_def pm_set_state_def)

lemma resume_frame:
  assumes ok: "lte_ops_ok drv pm" and r: "my_pm_device_resume (lte_pm_env drv) MY_PM_DEV_LTE pm s = (r, pm', s')"
  shows "lte_ops_ok drv pm' \<and> uart_frame s s'"
proof (cases "ctx_ops (pm MY_PM_DEV_LTE)")
  case None
  then show ?thesis using assms by (simp add: my_pm_device_resume_def)
next
  case (Some os)
  then have os: "ctx_ops (pm MY_PM_DEV_LTE) = Some (lte_pm_ops drv)" using ok by (simp add: lte_ops_ok_def)
  obtain r1 s1 r2 s2 r3 s3 where b: "bus_resume (lte_pm_env drv) MY_PM_DEV_LTE s = (r1, s1)" "lte_pm_resume drv s1 = (r2, s2)"
    "bus_rollback (lte_pm_env drv) MY_PM_DEV_LTE s2 = (r3, s3)" by (meson surj_pair)
  have f: "uart_frame s s1" "uart_frame s1 s2" "uart_frame s2 s3"
    using bus_frame(1) [of s drv MY_PM_DEV_LTE] lte_pm_frame(1) [of s1 drv] bus_frame(3) [of s2 drv MY_PM_DEV_LTE] b by simp_all
  have "s' \<in> {s, s1, s2, s3} \<and> (pm' = pm \<or> pm' = pm_set_state MY_PM_DEV_LTE MY_PM_STATE_RESUME pm)"
    using r b by (auto simp: my_pm_device_resume_def os lte_pm_ops_def split: if_splits)
  then show ?thesis using f ok uart_frame_trans by (metis empty_iff insert_iff lte_ops_ok_set_state uart_frame_refl)
qed

lemma suspend_frame:
  assumes ok: "lte_ops_ok drv pm" and r: "my_pm_device_suspend (lte_pm_env drv) MY_PM_DEV_LTE pm s = (r, pm', s')"
  shows "lte_ops_ok drv pm' \<and> uart_frame s s'"
proof (cases "ctx_ops (pm MY_PM_DEV_LTE)")
  case None
  then show ?thesis using assms by (simp add: my_pm_device_suspend_def)
next
  case (Some os)
  then have os: "ctx_ops (pm MY_PM_DEV_LTE) = Some (lte_pm_ops drv)" using ok by (simp add: lte_ops_ok_def)
  obtain r1 s1 r2 s2 r3 s3 where b: "lte_pm_suspend drv s = (r1, s1)" "bus_suspend (lte_pm_env drv) MY_PM_DEV_LTE s1 = (r2, s2)"
    "lte_pm_resume drv s2 = (r3, s3)" by (meson surj_pair)
  have f: "uart_frame s s1" "uart_frame s1 s2" "uart_frame s2 s3"
    using bus_frame(2) [of s1 drv MY_PM_DEV_LTE] lte_pm_frame(2) [of s drv] lte_pm_frame(1) [of s2 drv] b by simp_all
  have "s' \<in> {s, s1, s2, s3} \<and> (pm' = pm \<or> pm' = pm_set_state MY_PM_DEV_LTE MY_PM_STATE_SUSPENDED pm)"
    using r b by (auto simp: my_pm_device_suspend_def os lte_pm_ops_def split: if_splits)
  then show ?thesis using f ok uart_frame_trans by (metis empty_iff insert_iff lte_ops_ok_set_state uart_frame_refl)
qed

lemma ensure_active_frame:
  assumes "lte_ops_ok drv pm" "lte_uart_ensure_active drv (pm, s) = (r, (pm', s'))"
  shows "lte_ops_ok drv pm'" "uart_frame s s'" "uart_active s \<Longrightarrow> s' = s"
proof -
  obtain r1 pm1 s1 where b: "my_pm_device_resume (lte_pm_env drv) MY_PM_DEV_LTE pm s = (r1, pm1, s1)" using prod_cases3 by blast
  note rf = resume_frame [OF assms(1) b]
  show "lte_ops_ok drv pm'" "uart_frame s s'" "uart_active s \<Longrightarrow> s' = s"
    using assms rf b by (auto simp: lte_uart_ensure_active_def split: if_splits)
qed

text \<open>Taking the semaphore and transmitting change nothing of the receive side.\<close>

definition rx_frame :: "'h lte \<Rightarrow> 'h lte \<Rightarrow> bool" where
  "rx_frame s s' \<longleftrightarrow> s_lte_rb s' = s_lte_rb s \<and> lte_arrivals s' = lte_arrivals s \<and> s_lte_msg_queue s' = s_lte_msg_queue s \<and>
     lte_command s' = lte_command s"

lemma sem_take_spec:
  assumes "sem_take drv s = (r, s')" "s_TxDoneSem s \<le> 1"
  shows "rx_frame s s'" "uart_active s' = uart_active s" "r = 0 \<Longrightarrow> s_TxDoneSem s' = 0" "r \<noteq> 0 \<Longrightarrow> s_TxDoneSem s' = s_TxDoneSem s"
    "g_bLteReady s' = g_bLteReady s"
  using assms by (auto simp: sem_take_def rx_frame_def lte_uart_cb_def sem_give_def lte_post_def split: if_splits prod.splits)

lemma send_data_bytes_spec:
  assumes "send_data_bytes drv d s = (r, s')"
  shows "rx_frame s s'" "uart_active s' = uart_active s" "r = 0 \<Longrightarrow> s_TxDoneSem s' = s_TxDoneSem s \<and> tx_busy s' = tx_busy s"
    "r \<noteq> 0 \<Longrightarrow> s_TxDoneSem s' = 1 \<and> \<not> tx_busy s'" "send_wakeup_expire_timestamp_ms s' = lte_now s' + 2500"
  using assms
  by (auto simp: send_data_bytes_def lte_uart_tx_def rx_frame_def tx_failed_def sem_give_def lte_uart_send_wakeup_window_kick_def
      split: if_splits prod.splits)

text \<open>The outcome of a send: what it leaves of the semaphore, and that the receive side is untouched.\<close>

definition send_outcome :: "'h lte \<Rightarrow> int \<Rightarrow> 'h lte \<Rightarrow> bool" where
  "send_outcome s r s' \<longleftrightarrow> rx_frame s s' \<and> (uart_active s \<longrightarrow> uart_active s') \<and>
     (if r = 0 then s_TxDoneSem s' = 0 \<and> tx_busy s' \<and> send_wakeup_expire_timestamp_ms s' = lte_now s' + LTE_UART_SEND_WAKEUP_WINDOW_MS
      else s_TxDoneSem s' = s_TxDoneSem s \<or> s_TxDoneSem s' = 1)"

lemma rx_frame_refl [simp]: "rx_frame s s"
  by (simp add: rx_frame_def)

lemma rx_frame_trans: "rx_frame s s1 \<Longrightarrow> rx_frame s1 s2 \<Longrightarrow> rx_frame s s2"
  by (simp add: rx_frame_def)

lemma rx_frame_simps [simp]:
  "rx_frame s (s1\<lparr>tx_busy := b\<rparr>) = rx_frame s s1" "rx_frame (s\<lparr>tx_busy := b\<rparr>) s1 = rx_frame s s1"
  "rx_frame s (lte_uart_activity_kick s1) = rx_frame s s1" "rx_frame s (tx_failed s1) = rx_frame s s1"
  "rx_frame s (k_sleep_lte n s1) = rx_frame s s1"
  by (auto simp: rx_frame_def lte_uart_activity_kick_def tx_failed_def sem_give_def k_sleep_lte_def)

lemma kick_fields [simp]:
  "s_TxDoneSem (lte_uart_activity_kick s) = s_TxDoneSem s" "uart_active (lte_uart_activity_kick s) = uart_active s"
  by (simp_all add: lte_uart_activity_kick_def)

text \<open>Both send functions start alike: make the line active, restart the idle timer, take the semaphore.\<close>

lemma send_prefix:
  assumes "lte_ops_ok drv pm" "s_TxDoneSem s \<le> 1" "lte_uart_ensure_active drv (pm, s) = (r0, (pm1, s1))"
    "sem_take drv (lte_uart_activity_kick s1) = (r1, s2)"
  shows "lte_ops_ok drv pm1" "rx_frame s s1" "rx_frame s s2" "uart_active s \<Longrightarrow> uart_active s1 \<and> uart_active s2"
    "s_TxDoneSem s1 = s_TxDoneSem s" "r1 = 0 \<Longrightarrow> s_TxDoneSem s2 = 0" "r1 \<noteq> 0 \<Longrightarrow> s_TxDoneSem s2 = s_TxDoneSem s"
proof -
  note e = ensure_active_frame [OF assms(1,3)]
  have f: "rx_frame s s1" "s_TxDoneSem s1 = s_TxDoneSem s" using e(2) by (simp_all add: uart_frame_def rx_frame_def)
  have "s_TxDoneSem (lte_uart_activity_kick s1) \<le> 1" using f assms(2) by simp
  note t = sem_take_spec [OF assms(4) this]
  show "lte_ops_ok drv pm1" "rx_frame s s1" "s_TxDoneSem s1 = s_TxDoneSem s" using e f by simp_all
  have "rx_frame s (lte_uart_activity_kick s1)" using f(1) by simp
  then show "rx_frame s s2" using t(1) rx_frame_trans by blast
  show "uart_active s \<Longrightarrow> uart_active s1 \<and> uart_active s2" using e(3) t(2) by auto
  show "r1 = 0 \<Longrightarrow> s_TxDoneSem s2 = 0" "r1 \<noteq> 0 \<Longrightarrow> s_TxDoneSem s2 = s_TxDoneSem s" using t(3,4) f(2) by auto
qed

lemma send_ymodem_outcome:
  assumes "lte_ops_ok drv pm" "s_TxDoneSem s \<le> 1" "my_lte_uart_send_ymodem drv d n (pm, s) = (r, (pm', s'))"
  shows "lte_ops_ok drv pm' \<and> send_outcome s r s'"
proof -
  obtain r0 pm1 s1 where e: "lte_uart_ensure_active drv (pm, s) = (r0, (pm1, s1))" by (metis surj_pair)
  obtain r1 s2 where t: "sem_take drv (lte_uart_activity_kick s1) = (r1, s2)" by fastforce
  obtain r2 s3 where b: "send_data_bytes drv (take n (the d)) (s2\<lparr>tx_busy := True\<rparr>) = (r2, s3)" by fastforce
  note p = send_prefix [OF assms(1,2) e t] and q = send_data_bytes_spec [OF b]
  have "rx_frame s s3" using p(3) q(1) rx_frame_trans by simp
  then show ?thesis using assms e t b p q
    by (auto simp: my_lte_uart_send_ymodem_def send_outcome_def split: option.splits if_splits)
qed

lemma uart_send_outcome:
  assumes "lte_ops_ok drv pm" "s_TxDoneSem s \<le> 1" "my_lte_uart_send drv d (pm, s) = (r, (pm', s'))"
  shows "lte_ops_ok drv pm' \<and> send_outcome s r s'"
proof -
  obtain r0 pm1 s1 where e: "lte_uart_ensure_active drv (pm, s) = (r0, (pm1, s1))" by (metis surj_pair)
  obtain r1 s2 where t: "sem_take drv (lte_uart_activity_kick s1) = (r1, s2)" by fastforce
  note p = send_prefix [OF assms(1,2) e t]
  show ?thesis
  proof (cases "\<not> g_bLteReady s \<or> length d > UART_TX_BUFFER_SIZE \<or> r0 < 0 \<or> r1 \<noteq> 0")
    case True
    then show ?thesis using assms e t p by (auto simp: my_lte_uart_send_def send_outcome_def split: if_splits)
  next
    case False
    define s3 where "s3 = s2\<lparr>tx_busy := True\<rparr>"
    have s3: "rx_frame s s3" "uart_active s3 = uart_active s2" "s_TxDoneSem s3 = 0" "tx_busy s3" using p(3,6) False by (simp_all add: s3_def)
    show ?thesis
    proof (cases "lte_uart_need_send_wakeup s3")
      case no: False
      obtain r2 s4 where b: "send_data_bytes drv d s3 = (r2, s4)" by fastforce
      note q = send_data_bytes_spec [OF b]
      have "rx_frame s s4" using s3(1) q(1) rx_frame_trans by blast
      then show ?thesis using assms(3) e t b False no p q s3 by (auto simp: my_lte_uart_send_def Let_def s3_def [symmetric] send_outcome_def)
    next
      case yes: True
      obtain r2 s4 where w: "lte_uart_tx drv wake_byte s3 = (r2, s4)" by fastforce
      have s4: "rx_frame s s4" "uart_active s4 = uart_active s2" "s_TxDoneSem s4 = 0" "tx_busy s4"
        using w s3 by (auto simp: lte_uart_tx_def rx_frame_def split: prod.splits)
      obtain r3 s5 where u: "sem_take drv s4 = (r3, s5)" by fastforce
      have "s_TxDoneSem s4 \<le> 1" using s4(3) by simp
      note v = sem_take_spec [OF u this]
      have tb: "tx_busy s5" using u s4(3,4)
        by (auto simp: sem_take_def lte_uart_cb_def sem_give_def lte_post_def split: if_splits prod.splits)
      obtain r6 s6 where b: "send_data_bytes drv d (k_sleep_lte 10 s5) = (r6, s6)" by fastforce
      note q = send_data_bytes_spec [OF b]
      have f: "rx_frame s s5" "rx_frame s s6"
        using s4(1) v(1) q(1) rx_frame_trans by (metis rx_frame_simps(5))+
      have k: "uart_active (k_sleep_lte 10 s5) = uart_active s5" "s_TxDoneSem (k_sleep_lte 10 s5) = s_TxDoneSem s5"
        "tx_busy (k_sleep_lte 10 s5) = tx_busy s5" by (simp_all add: k_sleep_lte_def)
      have tf: "uart_active (tx_failed x) = uart_active x" "s_TxDoneSem (tx_failed x) = 1" for x :: "'a lte"
        by (simp_all add: tx_failed_def sem_give_def)
      have "my_lte_uart_send drv d (pm, s) =
          (if r2 \<noteq> 0 then (r2, (pm1, tx_failed s4)) else if r3 \<noteq> 0 then (r3, (pm1, tx_failed s5)) else (r6, (pm1, s6)))"
        using e t w u b False yes by (simp add: my_lte_uart_send_def Let_def s3_def [symmetric])
      then show ?thesis using assms(3) p s4 v q f k tb tf by (auto simp: send_outcome_def split: if_splits)
    qed
  qed
qed

section \<open>When the line is switched off\<close>

lemma lte_read_ring_active:
  assumes "lte_read_ring s = Some s'"
  shows "uart_active s' = uart_active s"
proof (rule lte_read_ring.raw_induct [OF _ assms, where P = "\<lambda>s s'. uart_active s' = uart_active s"])
  fix f :: "'a lte \<Rightarrow> 'a lte option" and s s'
  assume ih: "\<And>x y. f x = Some y \<Longrightarrow> uart_active y = uart_active x"
    and eq: "(case my_rb_read (s_lte_rb s) 128 of (bs, rb) \<Rightarrow>
        if bs = [] then Some (s\<lparr>s_lte_rb := rb\<rparr>)
        else case lte_recv_chunk bs (lte_command s) of
          None \<Rightarrow> None
        | Some l \<Rightarrow> f (s\<lparr>s_lte_rb := rb, lte_command := l\<rparr>)) = Some s'"
  obtain bs rb where r: "my_rb_read (s_lte_rb s) 128 = (bs, rb)" by fastforce
  show "uart_active s' = uart_active s"
  proof (cases "bs = []")
    case True
    then show ?thesis using eq r by auto
  next
    case False
    then obtain l where "f (s\<lparr>s_lte_rb := rb, lte_command := l\<rparr>) = Some s'" using eq r by (auto split: option.splits)
    from ih [OF this] show ?thesis by simp
  qed
qed

text \<open>
  C40: the serial line to the LTE module is never switched off while it is needed. Whatever
  message the LTE thread handles, if the line was active before and is not after, then either
  the idle timer expired and there is no unread byte, no queued message, no transmission
  under way and no firmware update; or the module is being powered off,
  and then there is no update and no factory test.
\<close>

theorem uart_suspend_safe:
  assumes "lte_ops_ok drv pm" "rb_inv (s_lte_rb s)" "unat (rb_size (s_lte_rb s)) = LTE_UART_RB_SIZE" "s_TxDoneSem s \<le> 1"
    and "my_lte_task drv ota_busy m (pm, s) = Some (pm', s')" "uart_active s" "\<not> uart_active s'"
  shows "\<not> ota_busy \<and> \<not> g_lte_ota_in_progress s \<and>
    (m = MY_MSG_LTE_UART_IDLE \<and> rb_content (s_lte_rb s) = [] \<and> mq_count (s_lte_msg_queue s) = 0 \<and> \<not> tx_busy s \<or>
     m = MY_MSG_LTE_PWROFF \<and> \<not> s_lte_factory s)"
proof (cases m)
  case MY_MSG_LTE_UART_IDLE
  then have cs: "lte_uart_can_suspend ota_busy s" using assms(5-7) by (auto split: if_splits)
      (auto simp: my_lte_task_def split: if_splits)
  then have "unat (my_rb_get_used_size (Some (s_lte_rb s))) = 0" by (simp add: lte_uart_can_suspend_def word_gt_0)
  then have "rb_used (s_lte_rb s) = 0" using rb_used_size [OF assms(2)] assms(3) by simp
  then have "rb_content (s_lte_rb s) = []" by (simp flip: length_0_conv)
  then show ?thesis using cs MY_MSG_LTE_UART_IDLE by (simp add: lte_uart_can_suspend_def)
next
  case MY_MSG_LTE_PWROFF
  then show ?thesis using assms(5-7) by (auto simp: my_lte_task_def my_lte_pwroff_handle_def k_sleep_lte_def split: if_splits)
next
  case MY_MSG_LTE_REV
  then have "uart_active s' = uart_active s" using assms(5) lte_read_ring_active
    by (fastforce simp: my_lte_task_def lte_uart_send_wakeup_window_kick_def)
  then show ?thesis using assms(6,7) by simp
next
  case (MY_MSG_LTE_BLE_DATA d n)
  obtain r pm1 s1 where u: "my_lte_uart_send drv (take n (the d)) (pm, s) = (r, (pm1, s1))" by (metis surj_pair)
  then have "uart_active s1" using uart_send_outcome [OF assms(1,4) u] assms(6) by (simp add: send_outcome_def)
  then have "uart_active s'" using MY_MSG_LTE_BLE_DATA assms(5,6) u
    by (auto simp: my_lte_task_def my_lte_send_msg_def split: option.splits if_splits prod.splits)
  then show ?thesis using assms(7) by simp
qed (use assms(5-7) in \<open>auto simp: my_lte_task_def my_lte_pwr_on_def lte_uart_ensure_active_def lte_uart_send_wakeup_window_kick_def
    split: if_splits prod.splits\<close>)

text \<open>A driver that does what it is asked and records what it sends, and a line in use.\<close>

definition ideal_uart :: "bytes uart_driver" where
  "ideal_uart = \<lparr>uart_rx_enable = (\<lambda>h. (0, h)), uart_rx_disable = (\<lambda>h. (0, h)), uart_tx = (\<lambda>d h. (0, h @ d)),
     tx_done_in_time = (\<lambda>h. (True, h)), gpio_pin_set = (\<lambda>b h. (0, h)), malloc_succeeds = (\<lambda>h. True),
     hw_bus_present = (\<lambda>b. True), hw_runtime_get = (\<lambda>b h. (0, h)), hw_runtime_put = (\<lambda>b h. (0, h))\<rparr>"

definition lte_rb0 :: ring_buffer where
  "lte_rb0 = \<lparr>rb_head = 0, rb_tail = 0, rb_buf = replicate LTE_UART_RB_SIZE 0, rb_size = 2048\<rparr>"

definition ideal_lte :: "bytes lte" where
  "ideal_lte = \<lparr>idle_timer = None, send_wakeup_expire_timestamp_ms = 0, uart_active = True, tx_busy = False, wakeup_pending = False,
     s_TxDoneSem = 1, s_lte_power_state = True, g_bLteReady = True, g_lte_ota_in_progress = False, s_lte_factory = False,
     s_lte_msg_queue = \<lparr>mq_queue = replicate LTE_MSG_QUEUE_SIZE None, mq_head = 0, mq_tail = 0, mq_count = 0\<rparr>,
     lte_command = \<lparr>line_command = [], line_out = []\<rparr>, next_buf_is_2 = True, s_lte_rb = lte_rb0, lte_msgq = [],
     lte_now = 100000, lte_arrivals = [], lte_hw = []\<rparr>"

definition ideal_pm :: "bytes lte pm" where
  "ideal_pm = (\<lambda>_. \<lparr>ctx_state = MY_PM_STATE_RESUME, ctx_ops = Some (lte_pm_ops ideal_uart)\<rparr>)"

lemma lte_rb0_inv: "rb_inv lte_rb0" "unat (rb_size lte_rb0) = 2048" "rb_content lte_rb0 = []"
  by (simp_all add: lte_rb0_def rb_inv_def rb_content_def rb_used_def)

lemma ideal_pm_ok: "lte_ops_ok ideal_uart ideal_pm"
  by (simp add: lte_ops_ok_def ideal_pm_def)

lemma uart_suspend_safe_witness:
  "\<exists>pm' s'. my_lte_task ideal_uart False MY_MSG_LTE_UART_IDLE (ideal_pm, ideal_lte) = Some (pm', s') \<and> \<not> uart_active s' \<and>
     rb_content (s_lte_rb ideal_lte) = []"
proof -
  obtain pm' s' where t: "my_lte_task ideal_uart False MY_MSG_LTE_UART_IDLE (ideal_pm, ideal_lte) = Some (pm', s')"
    by (simp add: my_lte_task_def) (metis surj_pair)
  have used: "my_rb_get_used_size (Some (s_lte_rb ideal_lte)) = 0"
    by (simp add: my_rb_get_used_size_def ideal_lte_def lte_rb0_def)
  then have "\<not> uart_active s'"
    using t by (auto simp: my_lte_task_def lte_uart_can_suspend_def my_pm_device_suspend_def ideal_pm_def lte_pm_ops_def lte_pm_suspend_def
        ideal_uart_def ideal_lte_def bus_suspend_eq dev_bus_def bus_put_def lte_pm_env_def)
  moreover have "uart_active ideal_lte" "s_TxDoneSem ideal_lte \<le> 1" by (simp_all add: ideal_lte_def)
  ultimately show ?thesis
    using uart_suspend_safe [OF ideal_pm_ok, of ideal_lte False MY_MSG_LTE_UART_IDLE pm' s'] t lte_rb0_inv by (auto simp: ideal_lte_def)
qed

text \<open>
  Sending to the LTE module never loses the transmit semaphore and never disturbs reception. After
  a successful send (of a message or of a YModem answer) the semaphore is taken, the line is marked busy and the window in which no
  wake-up bytes are needed is open for 2.5 seconds; after a failed send, at whatever step, the semaphore is as
  before or available, so that later sends are not blocked. In both cases the received bytes, the queued messages
  and the line being assembled are untouched, and an active line stays active.
\<close>

lemma lte_send_keeps_semaphore:
  assumes "lte_ops_ok drv pm" "s_TxDoneSem s \<le> 1"
    and "my_lte_uart_send drv d (pm, s) = (r, (pm', s')) \<or> my_lte_uart_send_ymodem drv (Some d) (length d) (pm, s) = (r, (pm', s'))"
  shows "rx_frame s s' \<and> (uart_active s \<longrightarrow> uart_active s') \<and>
    (if r = 0 then s_TxDoneSem s' = 0 \<and> tx_busy s' \<and> send_wakeup_expire_timestamp_ms s' = lte_now s' + 2500
     else s_TxDoneSem s' = s_TxDoneSem s \<or> s_TxDoneSem s' = 1)"
  using assms(3) uart_send_outcome [OF assms(1,2)] send_ymodem_outcome [OF assms(1,2)] unfolding send_outcome_def by blast

end
