(* ===== verification/Ymodem.thy ===== *)
theory Ymodem
  imports Crc
begin

text \<open>
  Model of \<^verbatim>\<open>src/my_ymodem.c\<close>: the YModem/XModem protocol stack that receives
  the firmware image from the LTE module. The callbacks of \<^verbatim>\<open>my_ymodem_io_t\<close> are a record of functions over a
  state \<open>'w\<close> of the outside world (the line and the storage target); the handle is a
  record that carries it. Strings are byte lists without the terminating zero. Loops that
  only end when the peer cooperates are partial functions: \<open>None\<close> is a
  call that does not return.

  The receive callback yields \<open>None\<close> for an error and the received bytes otherwise, none
  for a timeout; it never stores more than it was asked for.
\<close>

section \<open>Constants\<close>

abbreviation (input) MY_YMODEM_SOH :: u8 where "MY_YMODEM_SOH \<equiv> 1"
abbreviation (input) MY_YMODEM_STX :: u8 where "MY_YMODEM_STX \<equiv> 2"
abbreviation (input) MY_YMODEM_EOT :: u8 where "MY_YMODEM_EOT \<equiv> 4"
abbreviation (input) MY_YMODEM_ACK :: u8 where "MY_YMODEM_ACK \<equiv> 6"
abbreviation (input) MY_YMODEM_NAK :: u8 where "MY_YMODEM_NAK \<equiv> 0x15"
abbreviation (input) MY_YMODEM_CAN :: u8 where "MY_YMODEM_CAN \<equiv> 0x18"
abbreviation (input) MY_YMODEM_CRC16_C :: u8 where "MY_YMODEM_CRC16_C \<equiv> 0x43"
abbreviation (input) MY_YMODEM_SOH_SIZE :: nat where "MY_YMODEM_SOH_SIZE \<equiv> 128"
abbreviation (input) MY_YMODEM_STX_SIZE :: nat where "MY_YMODEM_STX_SIZE \<equiv> 1024"
abbreviation (input) FRAME_DATA_OFF :: nat where "FRAME_DATA_OFF \<equiv> 3"
abbreviation (input) FRAME_BUF_SIZE :: nat where "FRAME_BUF_SIZE \<equiv> 1032"
abbreviation (input) MAX_PATH_LEN :: nat where "MAX_PATH_LEN \<equiv> 256"
abbreviation (input) INFO_MAX_NAME_LEN :: nat where "INFO_MAX_NAME_LEN \<equiv> 100"
abbreviation (input) MY_YMODEM_OK :: int where "MY_YMODEM_OK \<equiv> 0"
abbreviation (input) MY_YMODEM_ERR_HEAD :: int where "MY_YMODEM_ERR_HEAD \<equiv> -10"
abbreviation (input) MY_YMODEM_ERR_SEQ :: int where "MY_YMODEM_ERR_SEQ \<equiv> -11"
abbreviation (input) MY_YMODEM_ERR_CRC :: int where "MY_YMODEM_ERR_CRC \<equiv> -12"
abbreviation (input) MY_YMODEM_ERR_CAN :: int where "MY_YMODEM_ERR_CAN \<equiv> -13"
abbreviation (input) MY_YMODEM_ERR_ACK :: int where "MY_YMODEM_ERR_ACK \<equiv> -14"
abbreviation (input) MY_YMODEM_ERR_SIZE :: int where "MY_YMODEM_ERR_SIZE \<equiv> -15"
abbreviation (input) MY_YMODEM_ERR_STATE :: int where "MY_YMODEM_ERR_STATE \<equiv> -16"
abbreviation (input) MY_YMODEM_ERR_IO :: int where "MY_YMODEM_ERR_IO \<equiv> -17"
abbreviation (input) MY_YMODEM_ERR_RETRY :: int where "MY_YMODEM_ERR_RETRY \<equiv> -18"
abbreviation (input) MY_YMODEM_ERR_FILE :: int where "MY_YMODEM_ERR_FILE \<equiv> -19"
abbreviation (input) MY_YMODEM_ERR_PARAM :: int where "MY_YMODEM_ERR_PARAM \<equiv> -20"

datatype ym_state = STATE_CONNECTING | STATE_CONNECTED | STATE_FILEXFER | STATE_ENDOFXFER | STATE_ENDING | STATE_ENDED

section \<open>Callbacks and handle\<close>

record 'w my_ymodem_io =
  io_send :: "bytes \<Rightarrow> 'w \<Rightarrow> int \<times> 'w"
  io_recv :: "nat \<Rightarrow> int \<Rightarrow> 'w \<Rightarrow> bytes option \<times> 'w"
  io_flush :: "('w \<Rightarrow> 'w) option"
  io_protocol :: int
  io_handshake_retry :: int
  io_send_retry :: int
  io_recv_timeout_ms :: int
  io_save_open :: "(bytes \<Rightarrow> int \<Rightarrow> 'w \<Rightarrow> int \<times> 'w) option"
  io_save_write :: "(bytes \<Rightarrow> 'w \<Rightarrow> int \<times> 'w) option"
  io_save_close :: "(bool \<Rightarrow> 'w \<Rightarrow> 'w) option"

record 'w my_ymodem =
  ym_state :: ym_state
  ym_crc_type :: nat
  ym_is_ymodem :: bool
  ym_xmodem_1k :: bool
  ym_file_name :: bytes
  ym_save_dir :: bytes
  ym_file_size :: int
  ym_data_src :: nat
  ym_data_dst :: nat
  ym_out_buf :: bytes
  ym_out_buf_size :: int
  ym_fp :: "bytes option"
  ym_mem_buf :: bytes
  ym_mem_offset :: int
  ym_written :: int
  ym_expected_seq :: u8
  ym_frame :: bytes
  ym_world :: 'w

definition get_handshake_retry :: "'w my_ymodem_io \<Rightarrow> int" where
  "get_handshake_retry io = (if io_handshake_retry io > 0 then io_handshake_retry io else 10)"

definition get_send_retry :: "'w my_ymodem_io \<Rightarrow> int" where
  "get_send_retry io = (if io_send_retry io > 0 then io_send_retry io else 10)"

definition get_recv_timeout :: "'w my_ymodem_io \<Rightarrow> int" where
  "get_recv_timeout io = (if io_recv_timeout_ms io > 0 then io_recv_timeout_ms io else 3000)"

section \<open>Line primitives\<close>

definition send_byte :: "'w my_ymodem_io \<Rightarrow> u8 \<Rightarrow> 'w my_ymodem \<Rightarrow> 'w my_ymodem" where
  "send_byte io c ym = ym\<lparr>ym_world := snd (io_send io [c] (ym_world ym))\<rparr>"

text \<open>Sends all bytes, in as many calls as it takes; stops at the first call that sends nothing.\<close>

function send_data :: "'w my_ymodem_io \<Rightarrow> bytes \<Rightarrow> 'w my_ymodem \<Rightarrow> int \<times> 'w my_ymodem" where
  "send_data io data ym =
     (if data = [] then (0, ym)
      else case io_send io data (ym_world ym) of (n, w) \<Rightarrow>
        if n \<le> 0 then (-1, ym\<lparr>ym_world := w\<rparr>)
        else case send_data io (drop (nat n) data) (ym\<lparr>ym_world := w\<rparr>) of (r, ym') \<Rightarrow>
          (if r < 0 then -1 else n + r, ym'))"
  by pat_completeness auto
termination
  by (relation "measure (\<lambda>(io, data, ym). length data)") auto

declare send_data.simps [simp del]

text \<open>The return value, the bytes stored in the buffer, and the world afterwards.\<close>

function recv_data_w :: "'w my_ymodem_io \<Rightarrow> nat \<Rightarrow> int \<Rightarrow> 'w \<Rightarrow> int \<times> bytes \<times> 'w" where
  "recv_data_w io max_len timeout_ms w =
     (if max_len = 0 then (0, [], w)
      else case io_recv io max_len timeout_ms w of
        (None, w') \<Rightarrow> (-1, [], w')
      | (Some bs, w') \<Rightarrow>
          let got = take max_len bs in
          if got = [] then (0, [], w')
          else case recv_data_w io (max_len - length got) timeout_ms w' of (r, rest, w'') \<Rightarrow>
            (if r < 0 then -1 else int (length got) + r, got @ rest, w''))"
  by pat_completeness auto
termination
  by (relation "measure (\<lambda>(io, n, t, w). n)") (auto simp: min_def)

declare recv_data_w.simps [simp del]

definition recv_data :: "'w my_ymodem_io \<Rightarrow> nat \<Rightarrow> nat \<Rightarrow> int \<Rightarrow> 'w my_ymodem \<Rightarrow> int \<times> 'w my_ymodem" where
  "recv_data io off max_len timeout_ms ym =
     (case recv_data_w io max_len timeout_ms (ym_world ym) of (r, bs, w) \<Rightarrow>
        (r, ym\<lparr>ym_frame := mem_put (ym_frame ym) off bs, ym_world := w\<rparr>))"

text \<open>One received byte, \<open>None\<close> for a timeout or an error.\<close>

definition recv_byte :: "'w my_ymodem_io \<Rightarrow> int \<Rightarrow> 'w my_ymodem \<Rightarrow> u8 option \<times> 'w my_ymodem" where
  "recv_byte io timeout_ms ym =
     (case io_recv io 1 timeout_ms (ym_world ym) of
        (Some (c # _), w) \<Rightarrow> (Some c, ym\<lparr>ym_world := w\<rparr>)
      | (_, w) \<Rightarrow> (None, ym\<lparr>ym_world := w\<rparr>))"

partial_function (option) drain :: "'w my_ymodem_io \<Rightarrow> 'w \<Rightarrow> 'w option" where
  "drain io w =
     (case io_recv io 64 0 w of
        (None, w') \<Rightarrow> Some w'
      | (Some bs, w') \<Rightarrow> if bs = [] then Some w' else drain io w')"

definition port_flush :: "'w my_ymodem_io \<Rightarrow> 'w my_ymodem \<Rightarrow> 'w my_ymodem option" where
  "port_flush io ym =
     (case io_flush io of
        Some f \<Rightarrow> Some (ym\<lparr>ym_world := f (ym_world ym)\<rparr>)
      | None \<Rightarrow> map_option (\<lambda>w. ym\<lparr>ym_world := w\<rparr>) (drain io (ym_world ym)))"

section \<open>Receiver\<close>

definition receiver_send_request :: "'w my_ymodem_io \<Rightarrow> 'w my_ymodem \<Rightarrow> nat \<times> 'w my_ymodem" where
  "receiver_send_request io ym =
     (if ym_crc_type ym = 1 then (1, send_byte io MY_YMODEM_NAK ym) else (2, send_byte io MY_YMODEM_CRC16_C ym))"

definition receiver_verify_frame :: "'w my_ymodem \<Rightarrow> nat \<Rightarrow> nat \<Rightarrow> int" where
  "receiver_verify_frame ym data_size crc_len =
     (let f = ym_frame ym; data = take data_size (drop FRAME_DATA_OFF f); crc_off = FRAME_DATA_OFF + data_size in
      if f ! 1 + f ! 2 \<noteq> 0xFF then MY_YMODEM_ERR_SEQ
      else if crc_len = 1 then (if f ! crc_off \<noteq> calc_checksum data then MY_YMODEM_ERR_CRC else MY_YMODEM_OK)
      else (if (push_bit 8 (ucast (f ! crc_off)) OR ucast (f ! (crc_off + 1)) :: u16) \<noteq> calc_crc16 data
            then MY_YMODEM_ERR_CRC else MY_YMODEM_OK))"

text \<open>\<open>strtol\<close> in base 10: white space, an optional sign, digits, clamped to 32 bits.\<close>

definition c_isspace :: "u8 \<Rightarrow> bool" where
  "c_isspace c \<longleftrightarrow> c = 32 \<or> 9 \<le> c \<and> c \<le> 13"

definition c_isdigit :: "u8 \<Rightarrow> bool" where
  "c_isdigit c \<longleftrightarrow> 48 \<le> c \<and> c \<le> 57"

definition digits_value :: "bytes \<Rightarrow> int" where
  "digits_value ds = foldl (\<lambda>n d. n * 10 + (int (unat d) - 48)) 0 ds"

definition strtol10 :: "bytes \<Rightarrow> int" where
  "strtol10 s =
     (let s1 = dropWhile c_isspace s;
          neg = (s1 \<noteq> [] \<and> hd s1 = 45);
          s2 = (if s1 \<noteq> [] \<and> (hd s1 = 45 \<or> hd s1 = 43) then tl s1 else s1);
          v = digits_value (takeWhile c_isdigit s2)
      in if neg then max (- (2 ^ 31)) (- v) else min (2 ^ 31 - 1) v)"

definition receiver_parse_file_info :: "'w my_ymodem \<Rightarrow> bytes \<Rightarrow> 'w my_ymodem" where
  "receiver_parse_file_info ym buf =
     (let name = takeWhile (\<lambda>b. b \<noteq> 0) (take (MY_YMODEM_SOH_SIZE - 1) buf);
          n = strtol10 (drop (length name + 1) buf)
      in ym\<lparr>ym_file_name := name, ym_file_size := (if n = 0 then -1 else n)\<rparr>)"

definition receiver_open_file :: "'w my_ymodem_io \<Rightarrow> 'w my_ymodem \<Rightarrow> int \<times> 'w my_ymodem" where
  "receiver_open_file io ym =
     (if ym_data_dst ym = 1 then (MY_YMODEM_OK, ym\<lparr>ym_written := 0\<rparr>)
      else case io_save_open io of
        Some f \<Rightarrow>
          (case f (ym_file_name ym) (ym_file_size ym) (ym_world ym) of (r, w) \<Rightarrow>
             if r \<noteq> 0 then (MY_YMODEM_ERR_FILE, ym\<lparr>ym_world := w\<rparr>)
             else (MY_YMODEM_OK, ym\<lparr>ym_world := w, ym_written := 0\<rparr>))
      | None \<Rightarrow> (MY_YMODEM_ERR_FILE, ym))"

definition receiver_close_file :: "'w my_ymodem_io \<Rightarrow> 'w my_ymodem \<Rightarrow> 'w my_ymodem" where
  "receiver_close_file io ym =
     (if ym_data_dst ym = 1 then ym
      else case io_save_close io of
        Some f \<Rightarrow> ym\<lparr>ym_world := f True (ym_world ym)\<rparr>
      | None \<Rightarrow> ym)"

definition receiver_save_data :: "'w my_ymodem_io \<Rightarrow> 'w my_ymodem \<Rightarrow> bytes \<Rightarrow> int \<times> 'w my_ymodem" where
  "receiver_save_data io ym data =
     (if ym_data_dst ym = 1
      then if ym_written ym + int (length data) > ym_out_buf_size ym
           then (MY_YMODEM_ERR_FILE, send_byte io MY_YMODEM_CAN ym)
           else (MY_YMODEM_OK, ym\<lparr>ym_out_buf := mem_put (ym_out_buf ym) (nat (ym_written ym)) data,
                                  ym_written := ym_written ym + int (length data)\<rparr>)
      else case io_save_write io of
        Some f \<Rightarrow>
          (case f data (ym_world ym) of (r, w) \<Rightarrow>
             if r \<noteq> 0 then (MY_YMODEM_ERR_FILE, send_byte io MY_YMODEM_CAN (ym\<lparr>ym_world := w\<rparr>))
             else (MY_YMODEM_OK, ym\<lparr>ym_world := w, ym_written := ym_written ym + int (length data)\<rparr>))
      | None \<Rightarrow> (MY_YMODEM_ERR_FILE, send_byte io MY_YMODEM_CAN ym))"

definition head_data_size :: "u8 \<Rightarrow> nat option" where
  "head_data_size head =
     (if head = MY_YMODEM_SOH then Some MY_YMODEM_SOH_SIZE
      else if head = MY_YMODEM_STX then Some MY_YMODEM_STX_SIZE else None)"

text \<open>The common error exit: drop what is on the line, send NAK, return the code.\<close>

definition nak_and_return :: "'w my_ymodem_io \<Rightarrow> int \<Rightarrow> 'w my_ymodem \<Rightarrow> (int \<times> 'w my_ymodem) option" where
  "nak_and_return io ret ym = map_option (\<lambda>ym'. (ret, send_byte io MY_YMODEM_NAK ym')) (port_flush io ym)"

definition receiver_process_first_frame :: "'w my_ymodem_io \<Rightarrow> 'w my_ymodem \<Rightarrow> nat \<Rightarrow> (int \<times> 'w my_ymodem) option" where
  "receiver_process_first_frame io ym0 crc_len =
     (case head_data_size (ym_frame ym0 ! 0) of
        None \<Rightarrow> Some (MY_YMODEM_ERR_HEAD, ym0)
      | Some data_size \<Rightarrow>
          let remain = FRAME_DATA_OFF + data_size + crc_len - 1;
              (recv_len, ym) = recv_data io 1 remain (get_recv_timeout io) ym0
          in if recv_len < int remain then nak_and_return io MY_YMODEM_ERR_SIZE ym
             else
               let ret = receiver_verify_frame ym data_size crc_len
               in if ret \<noteq> 0 then nak_and_return io ret ym
                  else
                    let is_info = (ym_frame ym ! 1 = 0 \<and> ym_frame ym ! 2 = 0xFF)
                    in if \<not> is_info \<and> ym_frame ym ! 1 \<noteq> 1
                       then Some (MY_YMODEM_ERR_SEQ, send_byte io MY_YMODEM_NAK (ym\<lparr>ym_is_ymodem := False\<rparr>))
                       else
                         let ym1 = (if is_info
                                    then snd (receiver_send_request io (send_byte io MY_YMODEM_ACK
                                           (receiver_parse_file_info (ym\<lparr>ym_is_ymodem := True, ym_expected_seq := 1\<rparr>)
                                              (drop FRAME_DATA_OFF (ym_frame ym)))))
                                    else ym\<lparr>ym_is_ymodem := False, ym_expected_seq := 2\<rparr>);
                             (r, ym2) = receiver_open_file io (ym1\<lparr>ym_state := STATE_CONNECTED\<rparr>)
                         in if r \<noteq> MY_YMODEM_OK then Some (MY_YMODEM_ERR_FILE, send_byte io MY_YMODEM_CAN ym2)
                            else if \<not> ym_is_ymodem ym2
                            then case receiver_save_data io ym2 (take data_size (drop FRAME_DATA_OFF (ym_frame ym2))) of
                                   (rs, ym3) \<Rightarrow>
                                     if rs \<noteq> 0 then Some (rs, ym3) else Some (MY_YMODEM_OK, send_byte io MY_YMODEM_ACK ym3)
                            else Some (MY_YMODEM_OK, ym2))"

definition receiver_eot :: "'w my_ymodem_io \<Rightarrow> 'w my_ymodem \<Rightarrow> int \<times> 'w my_ymodem" where
  "receiver_eot io ym =
     (if ym_is_ymodem ym
      then (case ym_state ym of
              STATE_FILEXFER \<Rightarrow> (MY_YMODEM_OK, send_byte io MY_YMODEM_NAK (ym\<lparr>ym_state := STATE_ENDOFXFER\<rparr>))
            | STATE_ENDOFXFER \<Rightarrow>
                (MY_YMODEM_OK, send_byte io (if ym_crc_type ym = 1 then MY_YMODEM_NAK else MY_YMODEM_CRC16_C)
                   (send_byte io MY_YMODEM_ACK (ym\<lparr>ym_state := STATE_ENDING\<rparr>)))
            | STATE_ENDING \<Rightarrow> (MY_YMODEM_OK, ym)
            | _ \<Rightarrow> (MY_YMODEM_ERR_STATE, ym))
      else (MY_YMODEM_OK, receiver_close_file io (send_byte io MY_YMODEM_ACK (ym\<lparr>ym_state := STATE_ENDED\<rparr>))))"

text \<open>How much of the data field belongs to the file: the last frame is padded.\<close>

definition save_size :: "'w my_ymodem \<Rightarrow> nat \<Rightarrow> int" where
  "save_size ym data_size =
     (if ym_is_ymodem ym \<and> ym_file_size ym > 0 \<and> ym_written ym + int data_size > ym_file_size ym
      then ym_file_size ym - ym_written ym else int data_size)"

text \<open>A verified frame: end of batch, next file, expected data, duplicate or out of order.\<close>

definition receiver_data_frame :: "'w my_ymodem_io \<Rightarrow> 'w my_ymodem \<Rightarrow> nat \<Rightarrow> int \<times> 'w my_ymodem" where
  "receiver_data_frame io ym data_size =
     (let seq = ym_frame ym ! 1; data = take data_size (drop FRAME_DATA_OFF (ym_frame ym)) in
      if ym_is_ymodem ym \<and> ym_state ym = STATE_ENDING \<and> seq = 0
      then if ym_frame ym ! 3 = 0
           then (MY_YMODEM_OK, receiver_close_file io (send_byte io MY_YMODEM_ACK (ym\<lparr>ym_state := STATE_ENDED\<rparr>)))
           else
             let ym1 = receiver_parse_file_info (receiver_close_file io ym) (drop FRAME_DATA_OFF (ym_frame ym));
                 ym2 = snd (receiver_send_request io (send_byte io MY_YMODEM_ACK ym1));
                 (r, ym3) = receiver_open_file io (ym2\<lparr>ym_expected_seq := 1\<rparr>)
             in if r \<noteq> MY_YMODEM_OK then (MY_YMODEM_ERR_FILE, send_byte io MY_YMODEM_CAN ym3)
                else (MY_YMODEM_OK, ym3\<lparr>ym_state := STATE_FILEXFER\<rparr>)
      else if seq = ym_expected_seq ym
      then
        let ym1 = ym\<lparr>ym_expected_seq := ym_expected_seq ym + 1\<rparr>;
            (r, ym2) = receiver_save_data io ym1 (take (nat (save_size ym1 data_size)) data)
        in if r \<noteq> 0 then (r, ym2)
           else
             let ym3 = send_byte io MY_YMODEM_ACK ym2
             in if ym_is_ymodem ym3 \<and> ym_file_size ym3 > 0 \<and> ym_written ym3 \<ge> ym_file_size ym3 \<and> ym_state ym3 = STATE_FILEXFER
                then (MY_YMODEM_OK, (send_byte io MY_YMODEM_NAK ym3)\<lparr>ym_state := STATE_ENDOFXFER\<rparr>)
                else (MY_YMODEM_OK, ym3)
      else if seq = ym_expected_seq ym - 1 then (MY_YMODEM_OK, send_byte io MY_YMODEM_ACK ym)
      else (MY_YMODEM_ERR_SEQ, send_byte io MY_YMODEM_NAK ym))"

definition receiver_process_frame :: "'w my_ymodem_io \<Rightarrow> 'w my_ymodem \<Rightarrow> nat \<Rightarrow> (int \<times> 'w my_ymodem) option" where
  "receiver_process_frame io ym0 crc_len =
     (case recv_data io 0 1 (get_recv_timeout io) ym0 of (ret, ym) \<Rightarrow>
        if ret \<le> 0 then nak_and_return io MY_YMODEM_ERR_CRC ym
        else
          let head = ym_frame ym ! 0
          in if head = MY_YMODEM_EOT then Some (receiver_eot io ym)
             else case head_data_size head of
               None \<Rightarrow> map_option (\<lambda>ym'. (MY_YMODEM_ERR_HEAD, ym')) (port_flush io (send_byte io MY_YMODEM_CAN ym))
             | Some data_size \<Rightarrow>
                 let remain = FRAME_DATA_OFF + data_size + crc_len - 1;
                     (recv_len, ym1) = recv_data io 1 remain (get_recv_timeout io) ym
                 in if recv_len < int remain then nak_and_return io MY_YMODEM_ERR_SIZE ym1
                    else if receiver_verify_frame ym1 data_size crc_len \<noteq> 0 then nak_and_return io MY_YMODEM_ERR_CRC ym1
                    else Some (receiver_data_frame io ym1 data_size))"

text \<open>The loop over the first frame: ready, failed for good, or back to the handshake.\<close>

datatype 'w first_result = First_Ready "'w my_ymodem" | First_Failed int "'w my_ymodem" | First_Timeout "'w my_ymodem"

partial_function (option) first_frame_loop ::
  "'w my_ymodem_io \<Rightarrow> nat \<Rightarrow> int \<Rightarrow> 'w my_ymodem \<Rightarrow> 'w first_result option" where
  "first_frame_loop io crc_len retry ym =
     (case receiver_process_first_frame io ym crc_len of
        None \<Rightarrow> None
      | Some (ret, ym1) \<Rightarrow>
          if ret = MY_YMODEM_ERR_HEAD
          then (case recv_data io 0 1 (get_recv_timeout io) ym1 of (r, ym2) \<Rightarrow>
                  if r \<le> 0 then Some (First_Timeout ym2) else first_frame_loop io crc_len retry ym2)
          else if ret \<noteq> MY_YMODEM_OK
          then if retry - 1 \<le> 0 then Some (First_Failed ret ym1) else first_frame_loop io crc_len (retry - 1) ym1
          else Some (First_Ready ym1))"

partial_function (option) frame_loop ::
  "'w my_ymodem_io \<Rightarrow> nat \<Rightarrow> int \<Rightarrow> 'w my_ymodem \<Rightarrow> (int \<times> 'w my_ymodem) option" where
  "frame_loop io crc_len frame_error ym =
     (case receiver_process_frame io ym crc_len of
        None \<Rightarrow> None
      | Some (ret, ym1) \<Rightarrow>
          if ret = MY_YMODEM_ERR_HEAD \<or> ret = MY_YMODEM_ERR_STATE \<or> ret = MY_YMODEM_ERR_IO then Some (ret, ym1)
          else if ret \<noteq> MY_YMODEM_OK
          then if frame_error + 1 \<ge> get_send_retry io then Some (MY_YMODEM_ERR_RETRY, send_byte io MY_YMODEM_CAN ym1)
               else frame_loop io crc_len (frame_error + 1) ym1
          else if ym_state ym1 = STATE_ENDED
          then map_option (\<lambda>ym2. (MY_YMODEM_OK, receiver_close_file io ym2)) (port_flush io ym1)
          else frame_loop io crc_len 0 ym1)"

function handshake_loop :: "'w my_ymodem_io \<Rightarrow> int \<Rightarrow> 'w my_ymodem \<Rightarrow> (int \<times> 'w my_ymodem) option" where
  "handshake_loop io i ym0 =
     (if i < get_handshake_retry io then
        let ym = (if ym_crc_type ym0 = 2 \<and> i \<ge> get_handshake_retry io div 2 then ym0\<lparr>ym_crc_type := 1\<rparr> else ym0);
            (crc_len, ym1) = receiver_send_request io ym;
            (ret, ym2) = recv_data io 0 1 (get_recv_timeout io) ym1
        in if ret \<le> 0 then handshake_loop io (i + 1) ym2
           else case first_frame_loop io crc_len (get_send_retry io) ym2 of
             None \<Rightarrow> None
           | Some (First_Timeout ym3) \<Rightarrow> handshake_loop io (i + 1) ym3
           | Some (First_Failed r ym3) \<Rightarrow> Some (r, ym3)
           | Some (First_Ready ym3) \<Rightarrow> frame_loop io crc_len 0 (ym3\<lparr>ym_state := STATE_FILEXFER\<rparr>)
      else map_option (\<lambda>ym. (MY_YMODEM_ERR_RETRY, ym)) (port_flush io ym0))"
  by pat_completeness auto
termination
  by (relation "measure (\<lambda>(io, i, ym). nat (get_handshake_retry io - i))") auto

declare handshake_loop.simps [simp del]

definition receiver_run :: "'w my_ymodem_io \<Rightarrow> 'w my_ymodem \<Rightarrow> (int \<times> 'w my_ymodem) option" where
  "receiver_run io ym = handshake_loop io 0 ym"

section \<open>Sender\<close>

text \<open>Compiled out in this product, but the counterpart that defines the frames.\<close>

definition sender_apply_protocol :: "'w my_ymodem_io \<Rightarrow> bool \<Rightarrow> bool \<Rightarrow> 'w my_ymodem \<Rightarrow> 'w my_ymodem" where
  "sender_apply_protocol io is_ymodem xmodem_1k ym =
     (if io_protocol io = 1 then ym\<lparr>ym_is_ymodem := True, ym_xmodem_1k := False\<rparr>
      else if io_protocol io = 2 then ym\<lparr>ym_is_ymodem := False, ym_xmodem_1k := False\<rparr>
      else if io_protocol io = 3 then ym\<lparr>ym_is_ymodem := False, ym_xmodem_1k := True\<rparr>
      else ym\<lparr>ym_is_ymodem := is_ymodem, ym_xmodem_1k := xmodem_1k\<rparr>)"

text \<open>The part of a path after the last separator, the whole path if that part is empty.\<close>

definition extract_file_name :: "bytes \<Rightarrow> nat \<Rightarrow> bytes" where
  "extract_file_name path max_len =
     (let last = rev (takeWhile (\<lambda>c. c \<noteq> 47 \<and> c \<noteq> 92) (rev path))
      in take (max_len - 1) (if last = [] then path else last))"

definition sender_read_chunk :: "'w my_ymodem \<Rightarrow> nat \<Rightarrow> bytes \<times> 'w my_ymodem" where
  "sender_read_chunk ym len =
     (if ym_data_src ym = 0
      then (case ym_fp ym of
              None \<Rightarrow> ([], ym)
            | Some content \<Rightarrow> (take len content, ym\<lparr>ym_fp := Some (drop len content)\<rparr>))
      else
        let avail = ym_file_size ym - ym_mem_offset ym
        in if avail \<le> 0 then ([], ym)
           else let n = (if int len < avail then int len else avail)
                in (take (nat n) (drop (nat (ym_mem_offset ym)) (ym_mem_buf ym)), ym\<lparr>ym_mem_offset := ym_mem_offset ym + n\<rparr>))"

text \<open>The check field of a frame: one byte checksum or two bytes CRC16, high byte first.\<close>

definition check_field :: "nat \<Rightarrow> bytes \<Rightarrow> bytes" where
  "check_field crc_type data =
     (if crc_type = 1 then [calc_checksum data]
      else [ucast (drop_bit 8 (calc_crc16 data)), ucast (calc_crc16 data)])"

text \<open>The file information frame: name, zero, size; the name is cut so that the size fits.\<close>

definition file_info_data :: "bytes \<Rightarrow> int \<Rightarrow> bytes" where
  "file_info_data name file_size =
     (let info = take (MY_YMODEM_SOH_SIZE - 1) (take (INFO_MAX_NAME_LEN - 1) name @ 0 # print_int file_size)
      in info @ replicate (MY_YMODEM_SOH_SIZE - length info) 0)"

definition sender_file_frame :: "nat \<Rightarrow> bytes \<Rightarrow> int \<Rightarrow> bytes" where
  "sender_file_frame crc_type name file_size =
     [MY_YMODEM_SOH, 0, 0xFF] @ file_info_data name file_size @ check_field crc_type (file_info_data name file_size)"

definition sender_end_frame :: "nat \<Rightarrow> bytes" where
  "sender_end_frame crc_type =
     [MY_YMODEM_SOH, 0, 0xFF] @ replicate MY_YMODEM_SOH_SIZE 0 @ check_field crc_type (replicate MY_YMODEM_SOH_SIZE 0)"

definition frame_is_soh :: "bool \<Rightarrow> bool \<Rightarrow> nat \<Rightarrow> bool" where
  "frame_is_soh is_ymodem xmodem_1k len = (if is_ymodem then len \<le> MY_YMODEM_SOH_SIZE else \<not> xmodem_1k)"

definition frame_size :: "bool \<Rightarrow> bool \<Rightarrow> nat \<Rightarrow> nat" where
  "frame_size is_ymodem xmodem_1k len = (if frame_is_soh is_ymodem xmodem_1k len then MY_YMODEM_SOH_SIZE else MY_YMODEM_STX_SIZE)"

definition sender_frame :: "nat \<Rightarrow> bool \<Rightarrow> bool \<Rightarrow> bytes \<Rightarrow> u8 \<Rightarrow> bytes" where
  "sender_frame crc_type is_ymodem xmodem_1k data seq =
     (let body = data @ replicate (frame_size is_ymodem xmodem_1k (length data) - length data) 0x1A
      in [if frame_is_soh is_ymodem xmodem_1k (length data) then MY_YMODEM_SOH else MY_YMODEM_STX, seq, NOT seq] @
         body @ check_field crc_type body)"

fun handshake_wait :: "'w my_ymodem_io \<Rightarrow> nat \<Rightarrow> 'w my_ymodem \<Rightarrow> (nat option \<times> 'w my_ymodem) option" where
  "handshake_wait io 0 ym = Some (None, ym)"
| "handshake_wait io (Suc k) ym =
     (case recv_byte io (get_recv_timeout io) ym of
        (None, ym1) \<Rightarrow> handshake_wait io k ym1
      | (Some c, ym1) \<Rightarrow>
          if c = MY_YMODEM_CRC16_C then Some (Some 2, ym1\<lparr>ym_crc_type := 2\<rparr>)
          else if c = MY_YMODEM_NAK then Some (Some 1, ym1\<lparr>ym_crc_type := 1\<rparr>)
          else case port_flush io ym1 of None \<Rightarrow> None | Some ym2 \<Rightarrow> handshake_wait io k ym2)"

definition sender_handshake :: "'w my_ymodem_io \<Rightarrow> 'w my_ymodem \<Rightarrow> (nat option \<times> 'w my_ymodem) option" where
  "sender_handshake io ym = handshake_wait io (nat (get_handshake_retry io)) ym"

text \<open>The byte that asks for the next frame.\<close>

definition request_byte :: "'w my_ymodem \<Rightarrow> u8" where
  "request_byte ym = (if ym_crc_type ym = 1 then MY_YMODEM_NAK else MY_YMODEM_CRC16_C)"

fun send_file_frame_loop :: "'w my_ymodem_io \<Rightarrow> bytes \<Rightarrow> nat \<Rightarrow> 'w my_ymodem \<Rightarrow> int \<times> 'w my_ymodem" where
  "send_file_frame_loop io f 0 ym = (MY_YMODEM_ERR_ACK, ym)"
| "send_file_frame_loop io f (Suc k) ym =
     (case recv_byte io (get_recv_timeout io) (snd (send_data io f ym)) of (c, ym1) \<Rightarrow>
        if c \<noteq> Some MY_YMODEM_ACK then send_file_frame_loop io f k ym1
        else case recv_byte io (get_recv_timeout io) ym1 of (c2, ym2) \<Rightarrow>
          if c2 \<noteq> Some (request_byte ym2) then send_file_frame_loop io f k ym2 else (MY_YMODEM_OK, ym2))"

text \<open>The frame buffer is filled with zeros first, so it keeps the frame and zeros after it.\<close>

definition load_frame :: "bytes \<Rightarrow> 'w my_ymodem \<Rightarrow> 'w my_ymodem" where
  "load_frame f ym = ym\<lparr>ym_frame := mem_put (replicate FRAME_BUF_SIZE 0) 0 f\<rparr>"

definition sender_send_file_frame :: "'w my_ymodem_io \<Rightarrow> 'w my_ymodem \<Rightarrow> int \<times> 'w my_ymodem" where
  "sender_send_file_frame io ym =
     (let f = sender_file_frame (ym_crc_type ym) (ym_file_name ym) (ym_file_size ym)
      in send_file_frame_loop io f (nat (get_send_retry io)) (load_frame f ym))"

fun send_frame_loop :: "'w my_ymodem_io \<Rightarrow> bytes \<Rightarrow> nat \<Rightarrow> 'w my_ymodem \<Rightarrow> int \<times> 'w my_ymodem" where
  "send_frame_loop io f 0 ym = (MY_YMODEM_ERR_CAN, send_byte io MY_YMODEM_CAN ym)"
| "send_frame_loop io f (Suc k) ym =
     (case recv_byte io (get_recv_timeout io) (snd (send_data io f ym)) of
        (None, ym1) \<Rightarrow> send_frame_loop io f k ym1
      | (Some c, ym1) \<Rightarrow>
          if c = MY_YMODEM_ACK then (MY_YMODEM_OK, ym1)
          else if c = MY_YMODEM_CAN then (MY_YMODEM_ERR_CAN, send_byte io MY_YMODEM_CAN ym1)
          else if c \<noteq> MY_YMODEM_NAK then (MY_YMODEM_ERR_ACK, ym1)
          else send_frame_loop io f k ym1)"

definition sender_send_frame :: "'w my_ymodem_io \<Rightarrow> bytes \<Rightarrow> int \<Rightarrow> 'w my_ymodem \<Rightarrow> int \<times> 'w my_ymodem" where
  "sender_send_frame io data seq ym =
     (let f = sender_frame (ym_crc_type ym) (ym_is_ymodem ym) (ym_xmodem_1k ym) data (of_int seq)
      in send_frame_loop io f (nat (get_send_retry io)) (load_frame f ym))"

text \<open>Sends a byte or frame until the answer is ACK.\<close>

fun send_until_ack :: "'w my_ymodem_io \<Rightarrow> bytes \<Rightarrow> nat \<Rightarrow> 'w my_ymodem \<Rightarrow> bool \<times> 'w my_ymodem" where
  "send_until_ack io f 0 ym = (False, ym)"
| "send_until_ack io f (Suc k) ym =
     (case recv_byte io (get_recv_timeout io) (snd (send_data io f ym)) of (c, ym1) \<Rightarrow>
        if c = Some MY_YMODEM_ACK then (True, ym1) else send_until_ack io f k ym1)"

text \<open>The first EOT of a YModem transfer: the answer that ended the loop, if any.\<close>

fun first_eot_loop :: "'w my_ymodem_io \<Rightarrow> nat \<Rightarrow> 'w my_ymodem \<Rightarrow> u8 option \<times> 'w my_ymodem" where
  "first_eot_loop io 0 ym = (None, ym)"
| "first_eot_loop io (Suc k) ym =
     (case recv_byte io (get_recv_timeout io) (send_byte io MY_YMODEM_EOT ym) of
        (Some c, ym1) \<Rightarrow>
          if c = MY_YMODEM_NAK \<or> c = MY_YMODEM_ACK \<or> c = MY_YMODEM_CRC16_C then (Some c, ym1) else first_eot_loop io k ym1
      | (None, ym1) \<Rightarrow> first_eot_loop io k ym1)"

fun wait_request :: "'w my_ymodem_io \<Rightarrow> nat \<Rightarrow> 'w my_ymodem \<Rightarrow> bool \<times> 'w my_ymodem" where
  "wait_request io 0 ym = (False, ym)"
| "wait_request io (Suc k) ym =
     (case recv_byte io (get_recv_timeout io) ym of (c, ym1) \<Rightarrow>
        if c = Some (request_byte ym1) then (True, ym1) else wait_request io k ym1)"

fun second_eot_loop :: "'w my_ymodem_io \<Rightarrow> nat \<Rightarrow> 'w my_ymodem \<Rightarrow> bool \<times> 'w my_ymodem" where
  "second_eot_loop io 0 ym = (False, ym)"
| "second_eot_loop io (Suc k) ym =
     (case recv_byte io (get_recv_timeout io) (send_byte io MY_YMODEM_EOT ym) of (c, ym1) \<Rightarrow>
        if c = Some MY_YMODEM_ACK then (True, ym1) else second_eot_loop io k ym1)"

definition sender_send_eot :: "'w my_ymodem_io \<Rightarrow> 'w my_ymodem \<Rightarrow> int \<times> 'w my_ymodem" where
  "sender_send_eot io ym =
     (let retry = nat (get_send_retry io) in
      if \<not> ym_is_ymodem ym
      then (case second_eot_loop io retry ym of (ok, ym1) \<Rightarrow> (if ok then MY_YMODEM_OK else MY_YMODEM_ERR_ACK, ym1))
      else case first_eot_loop io retry ym of
        (None, ym1) \<Rightarrow> (MY_YMODEM_ERR_ACK, ym1)
      | (Some c, ym1) \<Rightarrow>
          (case (if c = MY_YMODEM_ACK then wait_request io retry ym1
                 else if c = MY_YMODEM_NAK
                 then (case second_eot_loop io retry ym1 of (ok, ym2) \<Rightarrow> if ok then wait_request io retry ym2 else (False, ym2))
                 else (True, ym1)) of
             (ok, ym3) \<Rightarrow>
               if \<not> ok then (MY_YMODEM_ERR_ACK, ym3)
               else
                 let f = sender_end_frame (ym_crc_type ym3)
                 in case send_until_ack io f retry (load_frame f ym3) of (ok, ym4) \<Rightarrow>
                      (if ok then MY_YMODEM_OK else MY_YMODEM_ERR_ACK, ym4)))"

text \<open>The data loop, with at most as many rounds as the source has bytes left.\<close>

fun sender_data_loop :: "'w my_ymodem_io \<Rightarrow> nat \<Rightarrow> nat \<Rightarrow> int \<Rightarrow> 'w my_ymodem \<Rightarrow> int \<times> int \<times> 'w my_ymodem" where
  "sender_data_loop io 0 data_size seq ym = (MY_YMODEM_OK, seq, ym)"
| "sender_data_loop io (Suc fuel) data_size seq ym =
     (case sender_read_chunk ym data_size of (buf, ym1) \<Rightarrow>
        if buf = [] then (MY_YMODEM_OK, seq, ym1)
        else case sender_send_frame io buf seq ym1 of (ret, ym2) \<Rightarrow>
          if ret \<noteq> 0 then (ret, seq, ym2) else sender_data_loop io fuel data_size (seq + 1) ym2)"

definition source_length :: "'w my_ymodem \<Rightarrow> nat" where
  "source_length ym = (if ym_data_src ym = 0 then (case ym_fp ym of None \<Rightarrow> 0 | Some c \<Rightarrow> length c) else length (ym_mem_buf ym))"

definition sender_run :: "'w my_ymodem_io \<Rightarrow> 'w my_ymodem \<Rightarrow> (int \<times> 'w my_ymodem) option" where
  "sender_run io ym0 =
     (case sender_handshake io (ym0\<lparr>ym_state := STATE_CONNECTING, ym_mem_offset := 0\<rparr>) of
        None \<Rightarrow> None
      | Some (None, ym) \<Rightarrow> Some (MY_YMODEM_ERR_RETRY, ym)
      | Some (Some crc_len, ym) \<Rightarrow>
          (case (if ym_is_ymodem ym then sender_send_file_frame io (ym\<lparr>ym_state := STATE_CONNECTED\<rparr>)
                 else (MY_YMODEM_OK, ym\<lparr>ym_state := STATE_CONNECTED\<rparr>)) of
             (ret, ym1) \<Rightarrow>
               if ret \<noteq> 0 then Some (ret, ym1)
               else
                 let data_size = (if ym_is_ymodem ym1 \<or> ym_xmodem_1k ym1 then MY_YMODEM_STX_SIZE else MY_YMODEM_SOH_SIZE)
                 in case sender_data_loop io (source_length ym1 + 1) data_size 1 (ym1\<lparr>ym_state := STATE_FILEXFER\<rparr>) of
                      (ret2, seq, ym2) \<Rightarrow>
                        if ret2 \<noteq> 0 then Some (ret2, ym2)
                        else case (if ym_is_ymodem ym2 \<and> ym_file_size ym2 > 0 \<and> ym_file_size ym2 mod int data_size = 0
                                   then sender_send_frame io [] seq ym2 else (MY_YMODEM_OK, ym2)) of
                          (ret3, ym3) \<Rightarrow>
                            if ret3 \<noteq> 0 then Some (ret3, ym3)
                            else Some (sender_send_eot io (ym3\<lparr>ym_state := STATE_ENDOFXFER\<rparr>))))"

section \<open>Interface\<close>

text \<open>A handle with all fields zero, CRC16 selected, unless the allocation fails. The two callbacks that must not be null are always present here.\<close>

definition my_ymodem_init :: "bool \<Rightarrow> 'w my_ymodem_io option \<Rightarrow> 'w \<Rightarrow> 'w my_ymodem option" where
  "my_ymodem_init calloc_ok io w =
     (case io of
        None \<Rightarrow> None
      | Some _ \<Rightarrow> if \<not> calloc_ok then None else Some \<lparr>ym_state = STATE_CONNECTING, ym_crc_type = 2, ym_is_ymodem = False, ym_xmodem_1k = False,
          ym_file_name = [], ym_save_dir = [], ym_file_size = 0, ym_data_src = 0, ym_data_dst = 0, ym_out_buf = [],
          ym_out_buf_size = 0, ym_fp = None, ym_mem_buf = [], ym_mem_offset = 0, ym_written = 0, ym_expected_seq = 0,
          ym_frame = replicate FRAME_BUF_SIZE 0, ym_world = w\<rparr>)"

definition my_ymodem_receive :: "'w my_ymodem_io \<Rightarrow> 'w my_ymodem option \<Rightarrow> bytes option \<Rightarrow> (int \<times> 'w my_ymodem option) option" where
  "my_ymodem_receive io ym save_dir =
     (case ym of
        None \<Rightarrow> Some (MY_YMODEM_ERR_PARAM, None)
      | Some ym0 \<Rightarrow>
          map_option (\<lambda>(r, ym'). (r, Some ym'))
            (receiver_run io (ym0\<lparr>ym_save_dir := (case save_dir of None \<Rightarrow> [] | Some d \<Rightarrow> take (MAX_PATH_LEN - 1) d),
               ym_state := STATE_CONNECTING, ym_is_ymodem := False, ym_crc_type := 2, ym_written := 0,
               ym_fp := None, ym_data_dst := 0\<rparr>)))"

text \<open>Result code, the file name and size reported on success, and the handle.\<close>

definition my_ymodem_recv_mem ::
  "'w my_ymodem_io \<Rightarrow> 'w my_ymodem option \<Rightarrow> bytes option \<Rightarrow> int \<Rightarrow> (int \<times> (bytes \<times> int) option \<times> 'w my_ymodem option) option" where
  "my_ymodem_recv_mem io ym buf buf_size =
     (case (ym, buf) of
        (Some ym0, Some b) \<Rightarrow>
          if buf_size \<le> 0 then Some (MY_YMODEM_ERR_PARAM, None, ym)
          else map_option (\<lambda>(r, ym'). (r, if r = MY_YMODEM_OK then Some (take (MAX_PATH_LEN - 1) (ym_file_name ym'), ym_written ym') else None, Some ym'))
                 (receiver_run io (ym0\<lparr>ym_data_dst := 1, ym_out_buf := b, ym_out_buf_size := buf_size, ym_save_dir := [],
                    ym_fp := None, ym_state := STATE_CONNECTING, ym_is_ymodem := False, ym_crc_type := 2, ym_written := 0\<rparr>))
      | _ \<Rightarrow> Some (MY_YMODEM_ERR_PARAM, None, ym))"

definition my_ymodem_send_from_mem ::
  "'w my_ymodem_io \<Rightarrow> 'w my_ymodem option \<Rightarrow> bytes option \<Rightarrow> bytes option \<Rightarrow> int \<Rightarrow> bool \<Rightarrow> bool \<Rightarrow> (int \<times> 'w my_ymodem option) option" where
  "my_ymodem_send_from_mem io ym file_name data n is_ymodem xmodem_1k =
     (case (ym, file_name, data) of
        (Some ym0, Some nm, Some d) \<Rightarrow>
          if n \<le> 0 then Some (MY_YMODEM_ERR_PARAM, ym)
          else map_option (\<lambda>(r, ym'). (r, Some ym'))
                 (sender_run io (sender_apply_protocol io is_ymodem xmodem_1k
                    (ym0\<lparr>ym_file_name := take (MAX_PATH_LEN - 1) nm, ym_file_size := n, ym_data_src := 1, ym_data_dst := 0,
                         ym_mem_buf := d, ym_fp := None\<rparr>)))
      | _ \<Rightarrow> Some (MY_YMODEM_ERR_PARAM, ym))"

text \<open>\<open>fopen\<close> is a parameter: the contents of the file, if it can be opened.\<close>

definition my_ymodem_send ::
  "(bytes \<Rightarrow> bytes option) \<Rightarrow> 'w my_ymodem_io \<Rightarrow> 'w my_ymodem option \<Rightarrow> bytes option \<Rightarrow> bool \<Rightarrow> bool \<Rightarrow> (int \<times> 'w my_ymodem option) option" where
  "my_ymodem_send fopen io ym file_path is_ymodem xmodem_1k =
     (case (ym, file_path) of
        (Some ym0, Some path) \<Rightarrow>
          (case fopen path of
             None \<Rightarrow> Some (MY_YMODEM_ERR_FILE, Some (ym0\<lparr>ym_fp := None\<rparr>))
           | Some content \<Rightarrow>
               map_option (\<lambda>(r, ym'). (r, Some (ym'\<lparr>ym_fp := None\<rparr>)))
                 (sender_run io (sender_apply_protocol io is_ymodem xmodem_1k
                    (ym0\<lparr>ym_fp := Some content, ym_file_name := extract_file_name path MAX_PATH_LEN,
                         ym_file_size := int (length content), ym_data_src := 0, ym_data_dst := 0, ym_mem_buf := []\<rparr>))))
      | _ \<Rightarrow> Some (MY_YMODEM_ERR_PARAM, ym))"

end
