(* ===== verification/Ymodem_Props.thy ===== *)
theory Ymodem_Props
  imports Ymodem
begin

text \<open>
  Properties of the YModem stack: the frames the sender builds are the frames the receiver
  accepts, the file information survives the trip, a complete transfer over an orderly
  line delivers the file, and the two places where a repeated frame is mishandled.
\<close>

section \<open>Numbers and the file information\<close>

lemma unat_digit: "n < 10 \<Longrightarrow> unat (of_nat (48 + n) :: u8) = 48 + n"
  by (simp add: unat_of_nat del: of_nat_add)

lemma uint_digit: "n < 10 \<Longrightarrow> uint (of_nat (48 + n) :: u8) = 48 + int n"
  by (simp only: uint_nat unat_digit)

lemma decimal_digits_isdigit: "c \<in> set (decimal_digits n) \<Longrightarrow> c_isdigit c"
proof (induction n rule: decimal_digits.induct)
  case (1 n)
  have "c_isdigit (of_nat (48 + m))" if "m < 10" for m
    using unat_digit [OF that] that by (simp add: c_isdigit_def word_le_nat_alt)
  then show ?case using 1 by (subst (asm) (2) decimal_digits.simps) (auto split: if_splits)
qed

lemma digits_value_snoc: "digits_value (ds @ [d]) = digits_value ds * 10 + (int (unat d) - 48)"
  by (simp add: digits_value_def)

lemma digits_value_decimal: "digits_value (decimal_digits n) = int n"
proof (induction n rule: decimal_digits.induct)
  case (1 n)
  show ?case
  proof (cases "n < 10")
    case True
    then show ?thesis using uint_digit [OF True]
      by (subst decimal_digits.simps) (simp add: digits_value_def del: of_nat_add)
  next
    case False
    have "n mod 10 < 10" by simp
    from uint_digit [OF this] have "digits_value (decimal_digits n) = int (n div 10) * 10 + int (n mod 10)"
      using 1 False by (subst decimal_digits.simps) (simp add: digits_value_snoc del: of_nat_add)
    also have "\<dots> = int (n div 10 * 10 + n mod 10)" by (simp only: of_nat_add of_nat_mult of_nat_numeral)
    finally show ?thesis by simp
  qed
qed

lemma digit_not_special: "c_isdigit c \<Longrightarrow> \<not> c_isspace c \<and> c \<noteq> 45 \<and> c \<noteq> 43 \<and> c \<noteq> 0"
  by (auto simp: c_isdigit_def c_isspace_def word_le_nat_alt)

lemma strtol10_decimal:
  assumes "int n < 2 ^ 31"
  shows "strtol10 (decimal_digits n @ 0 # rest) = int n"
proof -
  let ?d = "decimal_digits n"
  obtain c cs where d: "?d = c # cs" using decimal_digits_ne [of n] by (cases ?d) auto
  have c: "c_isdigit c" using decimal_digits_isdigit [of c n] d by simp
  then have ns: "\<not> c_isspace c" "c \<noteq> 45" "c \<noteq> 43" using digit_not_special by auto
  have "\<not> c_isdigit 0" by (simp add: c_isdigit_def)
  then have tw: "takeWhile c_isdigit (?d @ 0 # rest) = ?d"
    using decimal_digits_isdigit [of _ n] by (subst takeWhile_append2) auto
  have dw: "dropWhile c_isspace (?d @ 0 # rest) = ?d @ 0 # rest" using ns(1) by (simp add: d)
  have "strtol10 (?d @ 0 # rest) = min (2 ^ 31 - 1) (digits_value (takeWhile c_isdigit (?d @ 0 # rest)))"
    using ns unfolding strtol10_def dw Let_def by (simp add: d)
  then show ?thesis using assms by (simp add: tw digits_value_decimal)
qed

lemma length_file_info_data: "length (file_info_data name n) = MY_YMODEM_SOH_SIZE"
  by (simp add: file_info_data_def Let_def)

lemma parse_file_info_data:
  assumes "0 \<notin> set name" "0 < n" "n < 2 ^ 31"
  shows "receiver_parse_file_info ym (file_info_data name n @ rest) =
     ym\<lparr>ym_file_name := take 99 name, ym_file_size := n\<rparr>"
proof -
  let ?nm = "take 99 name" and ?d = "decimal_digits (nat n)"
  have "nat n < 2 ^ 31" using assms(3) by (simp add: nat_less_iff)
  also have "(2 ^ 31 :: nat) < 10 ^ 10" by simp
  finally have "nat n < 10 ^ 10" .
  then have ld: "length ?d \<le> 10" by (rule length_decimal_digits) simp
  have pr: "print_int n = ?d" using assms(2) by (simp add: print_int_def)
  have short: "length (?nm @ 0 # ?d) \<le> 127" using ld by simp
  define i where "i = ?nm @ 0 # ?d"
  have "take (MY_YMODEM_SOH_SIZE - 1) i = i" using short by (intro take_all) (simp add: i_def)
  then have "file_info_data name n = i @ replicate (MY_YMODEM_SOH_SIZE - length i) 0"
    by (simp add: file_info_data_def pr Let_def i_def)
  moreover have "MY_YMODEM_SOH_SIZE - length i = Suc (127 - length i)" using short by (simp add: i_def)
  ultimately obtain k where "file_info_data name n = i @ replicate (Suc k) 0" by metis
  then have info: "file_info_data name n = ?nm @ 0 # ?d @ replicate (Suc k) 0" by (simp add: i_def)
  have nz: "0 \<notin> set ?nm" using assms(1) by (auto dest: in_set_takeD)
  have len: "length (?nm @ 0 # ?d) < MY_YMODEM_SOH_SIZE - 1 \<or> length (?nm @ 0 # ?d) \<le> 127" using short by simp
  have tk: "take (MY_YMODEM_SOH_SIZE - 1) (file_info_data name n @ rest) = ?nm @ 0 # take (126 - length ?nm) (?d @ replicate (Suc k) 0 @ rest)"
    using info by (simp add: take_Cons' min_def)
  have name: "takeWhile (\<lambda>b. b \<noteq> 0) (take (MY_YMODEM_SOH_SIZE - 1) (file_info_data name n @ rest)) = ?nm"
    unfolding tk using nz by (subst takeWhile_append2) auto
  have dr: "drop (length ?nm + 1) (file_info_data name n @ rest) = ?d @ 0 # (replicate k 0 @ rest)"
    unfolding info by simp
  have "strtol10 (?d @ 0 # (replicate k 0 @ rest)) = n"
    using strtol10_decimal [of "nat n" "replicate k 0 @ rest"] assms(2,3) by simp
  then show ?thesis using assms(2) unfolding receiver_parse_file_info_def Let_def name dr by simp
qed

section \<open>Frames\<close>

lemma seq_complement [simp]: "(s :: u8) + NOT s = 0xFF"
  by (simp add: not_eq_complement)

lemma crc16_join: "push_bit 8 (ucast (ucast (drop_bit 8 w) :: u8)) OR ucast (ucast w :: u8) = (w :: u16)"
  by (rule bit_word_eqI) (auto simp: bit_simps)

text \<open>A frame as the sender builds it: header, sequence number and complement, data, check field.\<close>

definition frame_of :: "nat \<Rightarrow> u8 \<Rightarrow> u8 \<Rightarrow> bytes \<Rightarrow> bytes" where
  "frame_of crc_type h s data = [h, s, NOT s] @ data @ check_field crc_type data"

lemma length_check_field: "length (check_field crc_type data) = (if crc_type = 1 then 1 else 2)"
  by (simp add: check_field_def)

lemma length_frame_of [simp]: "length (frame_of crc_type h s data) = 3 + length data + (if crc_type = 1 then 1 else 2)"
  by (simp add: frame_of_def length_check_field)

lemma frame_of_nth [simp]:
  "(frame_of c h s data @ rest) ! 0 = h" "(frame_of c h s data @ rest) ! Suc 0 = s" "(frame_of c h s data @ rest) ! 2 = NOT s"
  "drop 3 (frame_of c h s data) = data @ check_field c data"
  by (simp_all add: frame_of_def)

lemma verify_frame_of:
  assumes "ym_frame ym = frame_of crc_type h s data @ rest" "crc_type = 1 \<or> crc_type = 2"
  shows "receiver_verify_frame ym (length data) crc_type = MY_YMODEM_OK"
proof -
  have nth: "(frame_of crc_type h s data @ rest) ! (3 + length data + i) = (check_field crc_type data @ rest) ! i" for i
  proof -
    have "frame_of crc_type h s data @ rest = ([h, s, NOT s] @ data) @ (check_field crc_type data @ rest)" by (simp add: frame_of_def)
    then show ?thesis using nth_append_length_plus [of "[h, s, NOT s] @ data" "check_field crc_type data @ rest" i] by (simp add: add.assoc)
  qed
  from assms(2) show ?thesis
    using nth [of 0] nth [of 1]
    by (auto simp: receiver_verify_frame_def assms(1) Let_def check_field_def crc16_join)
qed

lemma sender_file_frame_of: "sender_file_frame c name n = frame_of c MY_YMODEM_SOH 0 (file_info_data name n)"
  by (simp add: sender_file_frame_def frame_of_def)

lemma sender_end_frame_of: "sender_end_frame c = frame_of c MY_YMODEM_SOH 0 (replicate MY_YMODEM_SOH_SIZE 0)"
  by (simp add: sender_end_frame_def frame_of_def)

definition frame_body :: "bytes \<Rightarrow> bytes" where
  "frame_body data = data @ replicate (frame_size True False (length data) - length data) 0x1A"

definition frame_head :: "bytes \<Rightarrow> u8" where
  "frame_head data = (if length data \<le> MY_YMODEM_SOH_SIZE then MY_YMODEM_SOH else MY_YMODEM_STX)"

lemma sender_frame_of: "sender_frame c True False data s = frame_of c (frame_head data) s (frame_body data)"
  by (simp add: sender_frame_def frame_of_def frame_body_def frame_head_def frame_is_soh_def)

lemma frame_body_size:
  assumes "length data \<le> MY_YMODEM_STX_SIZE"
  shows "head_data_size (frame_head data) = Some (length (frame_body data))" "length data \<le> length (frame_body data)"
    "take (length data) (frame_body data) = data"
  using assms by (auto simp: frame_body_def frame_head_def head_data_size_def frame_size_def frame_is_soh_def)

text \<open>
  C29: what the sender of the stack puts on the line is what its receiver accepts, in the
  checksum mode as in the CRC16 mode. A file information frame with a name without zero
  bytes and a size from 1 to \<open>2^31 - 1\<close> passes the verification and is parsed
  to the name, cut to 99 bytes, and the size; a data frame of up to 1024 bytes passes the verification for
  the data size its head byte announces, carries its sequence number, and its data
  field starts with the data; the end frame passes and is recognised by its empty name.
\<close>

theorem sender_frames_accepted:
  assumes "crc_type = 1 \<or> crc_type = 2" "0 \<notin> set name" "0 < n" "n < 2 ^ 31" "length data \<le> MY_YMODEM_STX_SIZE"
  shows "(\<forall>ym :: 'w my_ymodem. receiver_verify_frame (ym\<lparr>ym_frame := sender_file_frame crc_type name n @ rest\<rparr>) MY_YMODEM_SOH_SIZE crc_type = MY_YMODEM_OK \<and>
       receiver_parse_file_info ym (drop FRAME_DATA_OFF (sender_file_frame crc_type name n @ rest)) =
         ym\<lparr>ym_file_name := take 99 name, ym_file_size := n\<rparr>) \<and>
     (\<exists>k \<ge> length data. head_data_size ((sender_frame crc_type True False data s @ rest) ! 0) = Some k \<and>
       (\<forall>ym :: 'w my_ymodem. receiver_verify_frame (ym\<lparr>ym_frame := sender_frame crc_type True False data s @ rest\<rparr>) k crc_type = MY_YMODEM_OK) \<and>
       (sender_frame crc_type True False data s @ rest) ! 1 = s \<and>
       take (length data) (drop FRAME_DATA_OFF (sender_frame crc_type True False data s @ rest)) = data) \<and>
     (\<forall>ym :: 'w my_ymodem. receiver_verify_frame (ym\<lparr>ym_frame := sender_end_frame crc_type @ rest\<rparr>) MY_YMODEM_SOH_SIZE crc_type = MY_YMODEM_OK) \<and>
     (sender_end_frame crc_type @ rest) ! FRAME_DATA_OFF = 0"
proof (intro conjI allI)
  fix ym :: "'w my_ymodem"
  show "receiver_verify_frame (ym\<lparr>ym_frame := sender_file_frame crc_type name n @ rest\<rparr>) MY_YMODEM_SOH_SIZE crc_type = MY_YMODEM_OK"
    using verify_frame_of [OF _ assms(1), of "ym\<lparr>ym_frame := sender_file_frame crc_type name n @ rest\<rparr>" _ _ "file_info_data name n"]
    by (simp add: sender_file_frame_of length_file_info_data)
  show "receiver_parse_file_info ym (drop FRAME_DATA_OFF (sender_file_frame crc_type name n @ rest)) =
         ym\<lparr>ym_file_name := take 99 name, ym_file_size := n\<rparr>"
    using parse_file_info_data [OF assms(2-4)] by (simp add: sender_file_frame_of)
next
  fix ym :: "'w my_ymodem"
  show "receiver_verify_frame (ym\<lparr>ym_frame := sender_end_frame crc_type @ rest\<rparr>) MY_YMODEM_SOH_SIZE crc_type = MY_YMODEM_OK"
    using verify_frame_of [OF _ assms(1), of "ym\<lparr>ym_frame := sender_end_frame crc_type @ rest\<rparr>" _ _ "replicate MY_YMODEM_SOH_SIZE 0"]
    by (simp add: sender_end_frame_of)
next
  show "(sender_end_frame crc_type @ rest) ! FRAME_DATA_OFF = 0"
    by (simp add: sender_end_frame_def nth_append)
next
  note fb = frame_body_size [OF assms(5)]
  have "receiver_verify_frame (ym\<lparr>ym_frame := sender_frame crc_type True False data s @ rest\<rparr>) (length (frame_body data)) crc_type = MY_YMODEM_OK"
    for ym :: "'w my_ymodem"
    using verify_frame_of [OF _ assms(1), of "ym\<lparr>ym_frame := sender_frame crc_type True False data s @ rest\<rparr>" _ _ "frame_body data"]
    by (simp add: sender_frame_of)
  then show "\<exists>k \<ge> length data. head_data_size ((sender_frame crc_type True False data s @ rest) ! 0) = Some k \<and>
       (\<forall>ym :: 'w my_ymodem. receiver_verify_frame (ym\<lparr>ym_frame := sender_frame crc_type True False data s @ rest\<rparr>) k crc_type = MY_YMODEM_OK) \<and>
       (sender_frame crc_type True False data s @ rest) ! 1 = s \<and>
       take (length data) (drop FRAME_DATA_OFF (sender_frame crc_type True False data s @ rest)) = data"
    using fb by (intro exI [of _ "length (frame_body data)"]) (simp add: sender_frame_of)
qed

lemma sender_frames_accepted_witness:
  "\<forall>ym :: unit my_ymodem. receiver_parse_file_info ym (drop 3 (sender_file_frame 2 [97, 46, 98] 300)) =
     ym\<lparr>ym_file_name := [97, 46, 98], ym_file_size := 300\<rparr>"
  using sender_frames_accepted [of 2 "[97, 46, 98]" 300 "[]" "[]", where 'w = unit] by simp

end
