(* ===== verification/Ymodem_Session.thy ===== *)
theory Ymodem_Session
  imports Ymodem_Props
begin

text \<open>
  What the YModem receiver needs of its callbacks, and what it then does: the locale
  \<open>orderly_line\<close> states the laws of a line that delivers its bytes in order and of a
  storage target the protocol traffic does not disturb. In it, a complete session
  is followed frame by frame. The LTE update interprets the locale on its own callbacks.
\<close>

section \<open>The stream of a transfer\<close>

text \<open>The blocks of a file, and the frames the sender makes of them.\<close>

function file_blocks :: "bytes \<Rightarrow> bytes list" where
  "file_blocks xs = (if xs = [] then [] else take MY_YMODEM_STX_SIZE xs # file_blocks (drop MY_YMODEM_STX_SIZE xs))"
  by pat_completeness auto
termination
  by (relation "measure length") auto

declare file_blocks.simps [simp del]

fun data_frames :: "u8 \<Rightarrow> bytes list \<Rightarrow> bytes" where
  "data_frames s [] = []"
| "data_frames s (c # cs) = sender_frame 2 True False c s @ data_frames (s + 1) cs"

text \<open>
  The whole stream: file information, data, the end-of-transfer bytes, the end frame. With
  \<open>trailer\<close>, an empty block follows the data, as the sender of this stack does when the size is a
  multiple of 1024.
\<close>

definition ymodem_stream :: "bytes \<Rightarrow> bytes \<Rightarrow> bool \<Rightarrow> nat \<Rightarrow> bytes" where
  "ymodem_stream name img trailer eots =
     sender_file_frame 2 name (int (length img)) @ data_frames 1 (file_blocks img @ (if trailer then [[]] else [])) @
     replicate (Suc eots) MY_YMODEM_EOT @ sender_end_frame 2"

text \<open>Hand all blocks to the target; \<open>None\<close> if it refuses one.\<close>

fun save_all :: "(bytes \<Rightarrow> 's \<Rightarrow> int \<times> 's) \<Rightarrow> bytes list \<Rightarrow> 's \<Rightarrow> 's option" where
  "save_all wrt [] t = Some t"
| "save_all wrt (c # cs) t = (case wrt c t of (r, t') \<Rightarrow> if r \<noteq> 0 then None else save_all wrt cs t')"

text \<open>Blocks that end at byte \<open>n\<close> of the file when the first starts at byte \<open>k\<close>.\<close>

fun blocks_fit :: "nat \<Rightarrow> nat \<Rightarrow> bytes list \<Rightarrow> bool" where
  "blocks_fit n k [] \<longleftrightarrow> k = n"
| "blocks_fit n k (c # cs) \<longleftrightarrow> k \<le> n \<and> length c = min MY_YMODEM_STX_SIZE (n - k) \<and> blocks_fit n (k + length c) cs"

lemma blocks_fit_append_empty: "blocks_fit n k (cs @ [[]]) \<longleftrightarrow> blocks_fit n k cs"
  by (induction cs arbitrary: k) auto

lemma file_blocks_fit: "blocks_fit (k + length xs) k (file_blocks xs)"
proof (induction xs arbitrary: k rule: file_blocks.induct)
  case (1 xs)
  show ?case
  proof (cases "xs = []")
    case True
    then show ?thesis by (simp add: file_blocks.simps)
  next
    case False
    have "blocks_fit (k + length (take 1024 xs) + length (drop 1024 xs)) (k + length (take 1024 xs)) (file_blocks (drop 1024 xs))"
      using 1 [OF False] by simp
    moreover have "k + length (take 1024 xs) + length (drop 1024 xs) = k + length xs" by simp
    ultimately have "blocks_fit (k + length xs) (k + length (take 1024 xs)) (file_blocks (drop 1024 xs))" by (simp only:)
    then show ?thesis using False by (subst file_blocks.simps) (simp add: min.commute)
  qed
qed

lemma concat_file_blocks: "concat (file_blocks xs) = xs"
  by (induction xs rule: file_blocks.induct) (subst file_blocks.simps, simp)

text \<open>
  A receiver in state \<open>st\<close> that expects frame \<open>sq\<close>, has saved \<open>k\<close> of \<open>n\<close> bytes to the
  target, now in state \<open>t\<close>, and has the bytes \<open>input\<close> still to come.
\<close>

definition rcv :: "('w \<Rightarrow> bool) \<Rightarrow> ('w \<Rightarrow> bytes) \<Rightarrow> ('w \<Rightarrow> 's) \<Rightarrow> 'w my_ymodem \<Rightarrow> ym_state \<Rightarrow> u8 \<Rightarrow> nat \<Rightarrow> nat \<Rightarrow> 's \<Rightarrow> bytes \<Rightarrow> bool" where
  "rcv live rx tgt ym st sq k n t input \<longleftrightarrow> ym_is_ymodem ym \<and> ym_crc_type ym = 2 \<and> ym_data_dst ym = 0 \<and>
     length (ym_frame ym) = FRAME_BUF_SIZE \<and> ym_state ym = st \<and> ym_expected_seq ym = sq \<and> ym_written ym = int k \<and>
     ym_file_size ym = int n \<and> live (ym_world ym) \<and> tgt (ym_world ym) = t \<and> rx (ym_world ym) = input"

text \<open>The in-order branch of a verified frame.\<close>

lemma data_frame_expected:
  assumes "ym_frame ym ! 1 = ym_expected_seq ym" "ym_state ym \<noteq> STATE_ENDING"
    and "take (nat (save_size ym data_size)) (take data_size (drop FRAME_DATA_OFF (ym_frame ym))) = c"
    and "receiver_save_data io (ym\<lparr>ym_expected_seq := ym_expected_seq ym + 1\<rparr>) c = (r, ym2)"
  shows "receiver_data_frame io ym data_size =
     (if r \<noteq> 0 then (r, ym2)
      else let ym3 = send_byte io MY_YMODEM_ACK ym2
           in if ym_is_ymodem ym3 \<and> ym_file_size ym3 > 0 \<and> ym_written ym3 \<ge> ym_file_size ym3 \<and> ym_state ym3 = STATE_FILEXFER
              then (MY_YMODEM_OK, (send_byte io MY_YMODEM_NAK ym3)\<lparr>ym_state := STATE_ENDOFXFER\<rparr>)
              else (MY_YMODEM_OK, ym3))"
proof -
  have "save_size (ym\<lparr>ym_expected_seq := ym_expected_seq ym + 1\<rparr>) data_size = save_size ym data_size" by (simp add: save_size_def)
  then show ?thesis
    using assms(1,2) unfolding receiver_data_frame_def Let_def by (simp add: assms(3,4) del: take_take)
qed

section \<open>The contract of the callbacks\<close>

locale orderly_line =
  fixes io :: "'w my_ymodem_io"
    and live :: "'w \<Rightarrow> bool" and rx :: "'w \<Rightarrow> bytes" and tgt :: "'w \<Rightarrow> 's"
    and opn :: "bytes \<Rightarrow> int \<Rightarrow> 's \<Rightarrow> int \<times> 's" and wrt :: "bytes \<Rightarrow> 's \<Rightarrow> int \<times> 's" and cls :: "bool \<Rightarrow> 's \<Rightarrow> 's"
  assumes send_law: "live w \<Longrightarrow> io_send io d w = (r, w') \<Longrightarrow> live w' \<and> rx w' = rx w \<and> tgt w' = tgt w"
    and recv_law: "live w \<Longrightarrow> 0 < n \<Longrightarrow> n \<le> FRAME_BUF_SIZE \<Longrightarrow> n \<le> length (rx w) \<Longrightarrow>
      \<exists>k w'. io_recv io n (get_recv_timeout io) w = (Some (take k (rx w)), w') \<and> 0 < k \<and> k \<le> n \<and>
        live w' \<and> rx w' = drop k (rx w) \<and> tgt w' = tgt w"
    and flush_law: "\<exists>f. io_flush io = Some f \<and> (\<forall>w. live w \<longrightarrow> live (f w) \<and> tgt (f w) = tgt w)"
    and open_law: "\<exists>f. io_save_open io = Some f \<and> (\<forall>w nm n r w'. live w \<longrightarrow> f nm n w = (r, w') \<longrightarrow>
      live w' \<and> rx w' = rx w \<and> opn nm n (tgt w) = (r, tgt w'))"
    and write_law: "\<exists>f. io_save_write io = Some f \<and> (\<forall>w d r w'. live w \<longrightarrow> f d w = (r, w') \<longrightarrow>
      live w' \<and> rx w' = rx w \<and> wrt d (tgt w) = (r, tgt w'))"
    and close_law: "\<exists>f. io_save_close io = Some f \<and> (\<forall>w b. live w \<longrightarrow>
      live (f b w) \<and> rx (f b w) = rx w \<and> tgt (f b w) = cls b (tgt w))"
    and retries: "2 \<le> get_handshake_retry io" "1 \<le> get_send_retry io"
begin

lemma recv_all:
  assumes "live w" "n \<le> FRAME_BUF_SIZE" "n \<le> length (rx w)"
  shows "\<exists>w'. recv_data_w io n (get_recv_timeout io) w = (int n, take n (rx w), w') \<and>
     live w' \<and> rx w' = drop n (rx w) \<and> tgt w' = tgt w"
  using assms
proof (induction n arbitrary: w rule: less_induct)
  case (less n)
  show ?case
  proof (cases "n = 0")
    case True
    then show ?thesis using less.prems(1) by (subst recv_data_w.simps) simp
  next
    case False
    then obtain k w1 where r: "io_recv io n (get_recv_timeout io) w = (Some (take k (rx w)), w1)" "0 < k" "k \<le> n"
      "live w1" "rx w1 = drop k (rx w)" "tgt w1 = tgt w"
      using recv_law [OF less.prems(1) _ less.prems(2,3)] by blast
    have len: "length (take k (rx w)) = k" using r(3) less.prems(3) by simp
    then have got: "take n (take k (rx w)) = take k (rx w)" "take k (rx w) \<noteq> []" using r(2,3) by auto
    obtain w2 where ih: "recv_data_w io (n - k) (get_recv_timeout io) w1 = (int (n - k), take (n - k) (rx w1), w2)"
      "live w2" "rx w2 = drop (n - k) (rx w1)" "tgt w2 = tgt w1"
    proof -
      have "n - k < n" "n - k \<le> FRAME_BUF_SIZE" "n - k \<le> length (rx w1)" using r(2,3,5) less.prems(2,3) by auto
      then show thesis using less.IH [of "n - k" w1] r(4) that by blast
    qed
    have "take k (rx w) @ take (n - k) (drop k (rx w)) = take n (rx w)" using r(3) take_append_drop_add [of k "rx w" "n - k"] by simp
    then show ?thesis using r ih False len got by (subst recv_data_w.simps) (simp add: Let_def)
  qed
qed

lemma recv_data_all:
  assumes "live (ym_world ym)" "n \<le> FRAME_BUF_SIZE" "n \<le> length (rx (ym_world ym))"
  obtains w' where "recv_data io off n (get_recv_timeout io) ym =
      (int n, ym\<lparr>ym_frame := mem_put (ym_frame ym) off (take n (rx (ym_world ym))), ym_world := w'\<rparr>)"
    "live w'" "rx w' = drop n (rx (ym_world ym))" "tgt w' = tgt (ym_world ym)"
  using recv_all [OF assms] by (auto simp: recv_data_def)

lemma send_byte_world:
  assumes "live (ym_world ym)"
  shows "live (ym_world (send_byte io c ym))" "rx (ym_world (send_byte io c ym)) = rx (ym_world ym)"
    "tgt (ym_world (send_byte io c ym)) = tgt (ym_world ym)"
  using send_law [OF assms, of "[c]"] by (auto simp: send_byte_def prod_eq_iff)

text \<open>Reading a frame: the head byte, then the rest behind it.\<close>

lemma recv_head:
  assumes "live (ym_world ym)" "rx (ym_world ym) = h # after" "length (ym_frame ym) = FRAME_BUF_SIZE"
  obtains w' where "recv_data io 0 1 (get_recv_timeout io) ym = (1, ym\<lparr>ym_frame := h # drop 1 (ym_frame ym), ym_world := w'\<rparr>)"
    "live w'" "rx w' = after" "tgt w' = tgt (ym_world ym)"
proof -
  have "mem_put (ym_frame ym) 0 [h] = h # drop 1 (ym_frame ym)" using assms(3) by (subst mem_put_write) simp_all
  then show thesis using recv_data_all [of ym 1 0] assms that by (auto simp: take_Cons')
qed

lemma recv_tail:
  assumes "live (ym_world ym)" "rx (ym_world ym) = xs @ after" "length xs < FRAME_BUF_SIZE" "ym_frame ym = h # f" "length f = FRAME_BUF_SIZE - 1"
  obtains w' where "recv_data io 1 (length xs) (get_recv_timeout io) ym =
      (int (length xs), ym\<lparr>ym_frame := h # xs @ drop (length xs) f, ym_world := w'\<rparr>)"
    "live w'" "rx w' = after" "tgt w' = tgt (ym_world ym)"
proof -
  have "mem_put (ym_frame ym) 1 xs = h # xs @ drop (length xs) f" using assms(3-5) by (subst mem_put_write) simp_all
  then show thesis using recv_data_all [of ym "length xs" 1] assms that by auto
qed

lemma recv_frame_tail:
  assumes "live (ym_world ym)" "rx (ym_world ym) = [s, NOT s] @ data @ check_field 2 data @ after" "ym_frame ym = h # f"
    "length f = FRAME_BUF_SIZE - 1" "head_data_size h = Some (length data)"
  obtains w' tl' where "recv_data io 1 (4 + length data) (get_recv_timeout io) ym =
      (int (4 + length data), ym\<lparr>ym_frame := frame_of 2 h s data @ tl', ym_world := w'\<rparr>)"
    "length (frame_of 2 h s data @ tl') = FRAME_BUF_SIZE" "live w'" "rx w' = after" "tgt w' = tgt (ym_world ym)"
proof -
  let ?xs = "[s, NOT s] @ data @ check_field 2 data"
  have len: "length ?xs = 4 + length data" "length data \<le> 1024"
    using assms(5) by (auto simp: length_check_field head_data_size_def split: if_splits)
  obtain w' where r: "recv_data io 1 (length ?xs) (get_recv_timeout io) ym =
      (int (length ?xs), ym\<lparr>ym_frame := h # ?xs @ drop (length ?xs) f, ym_world := w'\<rparr>)"
    "live w'" "rx w' = after" "tgt w' = tgt (ym_world ym)"
    using recv_tail [of ym ?xs after h f] assms len by auto
  have fr: "h # ?xs @ drop (4 + length data) f = frame_of 2 h s data @ drop (4 + length data) f" by (simp add: frame_of_def)
  show thesis using r(1) [unfolded len(1) fr] r(2-) assms(4) len by (intro that [of w' "drop (4 + length data) f"]) simp_all
qed

lemma process_frame_of:
  assumes "live (ym_world ym)" "rx (ym_world ym) = frame_of 2 h s data @ after" "length (ym_frame ym) = FRAME_BUF_SIZE"
    "head_data_size h = Some (length data)"
  obtains w' tl' where "receiver_process_frame io ym 2 =
      Some (receiver_data_frame io (ym\<lparr>ym_frame := frame_of 2 h s data @ tl', ym_world := w'\<rparr>) (length data))"
    "length (frame_of 2 h s data @ tl') = FRAME_BUF_SIZE" "live w'" "rx w' = after" "tgt w' = tgt (ym_world ym)"
proof -
  have ne: "h \<noteq> MY_YMODEM_EOT" using assms(4) by (auto simp: head_data_size_def)
  obtain w1 where h: "recv_data io 0 1 (get_recv_timeout io) ym = (1, ym\<lparr>ym_frame := h # drop 1 (ym_frame ym), ym_world := w1\<rparr>)"
    "live w1" "rx w1 = [s, NOT s] @ data @ check_field 2 data @ after" "tgt w1 = tgt (ym_world ym)"
    using recv_head [OF assms(1), of h "[s, NOT s] @ data @ check_field 2 data @ after"] assms(2,3) by (auto simp: frame_of_def)
  define ym1 where "ym1 = ym\<lparr>ym_frame := h # drop 1 (ym_frame ym), ym_world := w1\<rparr>"
  obtain w2 tl' where t: "recv_data io 1 (4 + length data) (get_recv_timeout io) ym1 =
      (int (4 + length data), ym1\<lparr>ym_frame := frame_of 2 h s data @ tl', ym_world := w2\<rparr>)"
    "length (frame_of 2 h s data @ tl') = FRAME_BUF_SIZE" "live w2" "rx w2 = after" "tgt w2 = tgt (ym_world ym1)"
    using recv_frame_tail [of ym1 s data after h "drop 1 (ym_frame ym)"] h assms(3,4) by (auto simp: ym1_def)
  define ym2 where "ym2 = ym1\<lparr>ym_frame := frame_of 2 h s data @ tl', ym_world := w2\<rparr>"
  have v: "receiver_verify_frame ym2 (length data) 2 = 0" by (rule verify_frame_of) (auto simp: ym2_def)
  have rem: "FRAME_DATA_OFF + length data + 2 - 1 = 4 + length data" by simp
  have "receiver_process_frame io ym 2 = Some (receiver_data_frame io ym2 (length data))"
    using h(1) t(1) v ne assms(4) unfolding ym1_def [symmetric]
    unfolding receiver_process_frame_def by (simp add: ym1_def [symmetric] ym2_def [symmetric] Let_def) (simp add: ym1_def rem)
  then show thesis using t h(4) by (intro that [of w2 tl']) (simp_all add: ym1_def ym2_def)
qed

lemma send_byte_fields [simp]:
  "ym_is_ymodem (send_byte io c ym) = ym_is_ymodem ym" "ym_crc_type (send_byte io c ym) = ym_crc_type ym"
  "ym_data_dst (send_byte io c ym) = ym_data_dst ym" "ym_frame (send_byte io c ym) = ym_frame ym"
  "ym_state (send_byte io c ym) = ym_state ym" "ym_expected_seq (send_byte io c ym) = ym_expected_seq ym"
  "ym_written (send_byte io c ym) = ym_written ym" "ym_file_size (send_byte io c ym) = ym_file_size ym"
  "ym_file_name (send_byte io c ym) = ym_file_name ym"
  by (simp_all add: send_byte_def)

lemma rcv_send_byte: "rcv live rx tgt ym st sq k n t input \<Longrightarrow> rcv live rx tgt (send_byte io c ym) st sq k n t input"
  by (simp add: rcv_def send_byte_world)

lemma rcv_set_state: "rcv live rx tgt ym st sq k n t input \<Longrightarrow> rcv live rx tgt (ym\<lparr>ym_state := st'\<rparr>) st' sq k n t input"
  by (simp add: rcv_def)

lemma save_data_ok:
  assumes "rcv live rx tgt ym st sq k n t input" "wrt c t = (0, t')"
  shows "\<exists>ym'. receiver_save_data io ym c = (0, ym') \<and> rcv live rx tgt ym' st sq (k + length c) n t' input"
proof -
  obtain f where f: "io_save_write io = Some f" "\<And>w d r w'. live w \<Longrightarrow> f d w = (r, w') \<Longrightarrow>
      live w' \<and> rx w' = rx w \<and> wrt d (tgt w) = (r, tgt w')"
    using write_law by blast
  obtain r w' where w: "f c (ym_world ym) = (r, w')" by fastforce
  then show ?thesis using f(1) f(2) [of "ym_world ym" c r w'] assms by (auto simp: receiver_save_data_def rcv_def)
qed

lemma close_file_ok:
  assumes "rcv live rx tgt ym st sq k n t input"
  shows "rcv live rx tgt (receiver_close_file io ym) st sq k n (cls True t) input"
  using assms close_law by (auto simp: receiver_close_file_def rcv_def)

text \<open>The next block, sent in order, is saved; the last one ends the file.\<close>

lemma data_step:
  assumes r: "rcv live rx tgt ym st sq k n t (sender_frame 2 True False c sq @ input)" and st: "st \<noteq> STATE_ENDING"
    and k: "k \<le> n" "0 < n" "length c = min MY_YMODEM_STX_SIZE (n - k)" and w: "wrt c t = (0, t')"
  shows "\<exists>ym'. receiver_process_frame io ym 2 = Some (0, ym') \<and>
     rcv live rx tgt ym' (if n \<le> k + length c \<and> st = STATE_FILEXFER then STATE_ENDOFXFER else st) (sq + 1) (k + length c) n t' input"
proof -
  have lc: "length c \<le> MY_YMODEM_STX_SIZE" using k(3) by simp
  note fb = frame_body_size [OF lc]
  obtain w' tl' where p: "receiver_process_frame io ym 2 = Some (receiver_data_frame io
        (ym\<lparr>ym_frame := frame_of 2 (frame_head c) sq (frame_body c) @ tl', ym_world := w'\<rparr>) (length (frame_body c)))"
    "length (frame_of 2 (frame_head c) sq (frame_body c) @ tl') = FRAME_BUF_SIZE" "live w'" "rx w' = input" "tgt w' = tgt (ym_world ym)"
    using process_frame_of [of ym "frame_head c" sq "frame_body c" input] r fb(1) by (auto simp: rcv_def sender_frame_of)
  define ym1 where "ym1 = ym\<lparr>ym_frame := frame_of 2 (frame_head c) sq (frame_body c) @ tl', ym_world := w'\<rparr>"
  have r1: "rcv live rx tgt (ym1\<lparr>ym_expected_seq := sq + 1\<rparr>) st (sq + 1) k n t input"
    using r p by (simp add: rcv_def ym1_def)
  have fields: "ym_is_ymodem ym1" "ym_state ym1 = st" "ym_expected_seq ym1 = sq" "ym_file_size ym1 = int n" "ym_written ym1 = int k"
    using r by (simp_all add: rcv_def ym1_def)
  have "nat (save_size ym1 (length (frame_body c))) = length c"
    using k lc by (auto simp: save_size_def fields frame_body_def frame_size_def frame_is_soh_def split: if_splits)
  then have tk: "take (nat (save_size ym1 (length (frame_body c)))) (take (length (frame_body c)) (drop FRAME_DATA_OFF (ym_frame ym1))) = c"
    using fb(3) by (simp add: ym1_def)
  obtain ym2 where sv: "receiver_save_data io (ym1\<lparr>ym_expected_seq := sq + 1\<rparr>) c = (0, ym2)"
    "rcv live rx tgt ym2 st (sq + 1) (k + length c) n t' input"
    using save_data_ok [OF r1 w] by blast
  note ack = rcv_send_byte [OF sv(2), of MY_YMODEM_ACK]
  define ym3 where "ym3 = send_byte io MY_YMODEM_ACK ym2"
  have df: "receiver_data_frame io ym1 (length (frame_body c)) =
      (0, if int n \<le> int (k + length c) \<and> st = STATE_FILEXFER then (send_byte io MY_YMODEM_NAK ym3)\<lparr>ym_state := STATE_ENDOFXFER\<rparr> else ym3)"
    using data_frame_expected [of ym1, OF _ _ tk, of io 0 ym2] fields st k(2) sv
    by (simp add: ym1_def [symmetric] Let_def ym3_def rcv_def) (simp add: ym1_def)
  show ?thesis
  proof (intro exI conjI)
    show "receiver_process_frame io ym 2 = Some (0, snd (receiver_data_frame io ym1 (length (frame_body c))))"
      using p(1) df by (simp add: ym1_def)
    show "rcv live rx tgt (snd (receiver_data_frame io ym1 (length (frame_body c))))
      (if n \<le> k + length c \<and> st = STATE_FILEXFER then STATE_ENDOFXFER else st) (sq + 1) (k + length c) n t' input"
      using ack rcv_set_state [OF rcv_send_byte [OF ack]] unfolding df ym3_def by (simp flip: of_nat_add)
  qed
qed

lemma frame_loop_step:
  assumes "receiver_process_frame io ym 2 = Some (0, ym')" "ym_state ym' \<noteq> STATE_ENDED"
  shows "frame_loop io 2 e ym = frame_loop io 2 0 ym'"
  using assms by (subst frame_loop.simps) simp

text \<open>All blocks of the file.\<close>

lemma data_loop:
  assumes "rcv live rx tgt ym (if k < n then STATE_FILEXFER else STATE_ENDOFXFER) sq k n t (data_frames sq cs @ input)"
    "blocks_fit n k cs" "0 < n" "save_all wrt cs t = Some t'"
  shows "\<exists>ym' e' sq'. frame_loop io 2 e ym = frame_loop io 2 e' ym' \<and> rcv live rx tgt ym' STATE_ENDOFXFER sq' n n t' input"
  using assms
proof (induction cs arbitrary: ym k sq t e)
  case Nil
  then show ?case by auto
next
  case (Cons c cs)
  let ?st = "if k < n then STATE_FILEXFER else STATE_ENDOFXFER"
  obtain t1 where w: "wrt c t = (0, t1)" "save_all wrt cs t1 = Some t'"
    using Cons.prems(4) by (auto split: prod.splits if_splits)
  have k: "k \<le> n" "length c = min MY_YMODEM_STX_SIZE (n - k)" "blocks_fit n (k + length c) cs" using Cons.prems(2) by auto
  have r: "rcv live rx tgt ym ?st sq k n t (sender_frame 2 True False c sq @ (data_frames (sq + 1) cs @ input))"
    using Cons.prems(1) by simp
  have ne: "?st \<noteq> STATE_ENDING" by simp
  obtain ym1 where s: "receiver_process_frame io ym 2 = Some (0, ym1)"
    "rcv live rx tgt ym1 (if n \<le> k + length c \<and> ?st = STATE_FILEXFER then STATE_ENDOFXFER else ?st) (sq + 1) (k + length c) n t1
       (data_frames (sq + 1) cs @ input)"
    using data_step [OF r ne k(1) Cons.prems(3) k(2) w(1)] by blast
  have st: "(if n \<le> k + length c \<and> ?st = STATE_FILEXFER then STATE_ENDOFXFER else ?st) =
      (if k + length c < n then STATE_FILEXFER else STATE_ENDOFXFER)" by auto
  have "ym_state ym1 \<noteq> STATE_ENDED" using s(2) by (auto simp: rcv_def split: if_splits)
  then have "frame_loop io 2 e ym = frame_loop io 2 0 ym1" using frame_loop_step s(1) by blast
  then show ?case using Cons.IH [OF s(2) [unfolded st] k(3) Cons.prems(3) w(2), of 0] by metis
qed

lemma eot_step:
  assumes "rcv live rx tgt ym st sq k n t (MY_YMODEM_EOT # input)" "st = STATE_ENDOFXFER \<or> st = STATE_ENDING"
  shows "\<exists>ym'. receiver_process_frame io ym 2 = Some (0, ym') \<and> rcv live rx tgt ym' STATE_ENDING sq k n t input"
proof -
  obtain w1 where h: "recv_data io 0 1 (get_recv_timeout io) ym =
      (1, ym\<lparr>ym_frame := MY_YMODEM_EOT # drop 1 (ym_frame ym), ym_world := w1\<rparr>)"
    "live w1" "rx w1 = input" "tgt w1 = tgt (ym_world ym)"
    using recv_head [of ym MY_YMODEM_EOT input] assms(1) by (auto simp: rcv_def)
  define ym1 where "ym1 = ym\<lparr>ym_frame := MY_YMODEM_EOT # drop 1 (ym_frame ym), ym_world := w1\<rparr>"
  have r1: "rcv live rx tgt ym1 st sq k n t input" using assms(1) h by (simp add: rcv_def ym1_def)
  have p: "receiver_process_frame io ym 2 = Some (receiver_eot io ym1)"
    using h(1) by (simp add: receiver_process_frame_def ym1_def)
  have "\<exists>ym'. receiver_eot io ym1 = (0, ym') \<and> rcv live rx tgt ym' STATE_ENDING sq k n t input"
    using assms(2) r1 rcv_send_byte [OF rcv_send_byte [OF rcv_set_state [OF r1]]] by (auto simp: receiver_eot_def rcv_def)
  then show ?thesis using p by auto
qed

lemma eot_loop:
  assumes "rcv live rx tgt ym st sq k n t (replicate (Suc j) MY_YMODEM_EOT @ input)" "st = STATE_ENDOFXFER \<or> st = STATE_ENDING"
  shows "\<exists>ym'. frame_loop io 2 e ym = frame_loop io 2 0 ym' \<and> rcv live rx tgt ym' STATE_ENDING sq k n t input"
  using assms
proof (induction j arbitrary: ym st e)
  case 0
  then obtain ym' where "receiver_process_frame io ym 2 = Some (0, ym')" "rcv live rx tgt ym' STATE_ENDING sq k n t input"
    using eot_step by (metis append.left_neutral append_Cons replicate_0 replicate_Suc)
  then show ?case using frame_loop_step [of ym ym'] by (auto simp: rcv_def)
next
  case (Suc j)
  then obtain ym' where s: "receiver_process_frame io ym 2 = Some (0, ym')"
      "rcv live rx tgt ym' STATE_ENDING sq k n t (replicate (Suc j) MY_YMODEM_EOT @ input)"
    using eot_step [of ym st sq k n t "replicate (Suc j) MY_YMODEM_EOT @ input"] by auto
  then have "frame_loop io 2 e ym = frame_loop io 2 0 ym'" using frame_loop_step [of ym ym'] by (auto simp: rcv_def)
  then show ?case using Suc.IH [OF s(2), of 0] by simp
qed

lemma end_step:
  assumes "rcv live rx tgt ym STATE_ENDING sq k n t (sender_end_frame 2 @ input)"
  shows "\<exists>ym'. frame_loop io 2 e ym = Some (0, ym') \<and> tgt (ym_world ym') = cls True (cls True t) \<and> live (ym_world ym')"
proof -
  let ?d = "replicate MY_YMODEM_SOH_SIZE 0 :: bytes"
  have hd: "head_data_size MY_YMODEM_SOH = Some (length ?d)" by (simp add: head_data_size_def)
  obtain w' tl' where p: "receiver_process_frame io ym 2 =
      Some (receiver_data_frame io (ym\<lparr>ym_frame := frame_of 2 MY_YMODEM_SOH 0 ?d @ tl', ym_world := w'\<rparr>) (length ?d))"
    "length (frame_of 2 MY_YMODEM_SOH 0 ?d @ tl') = FRAME_BUF_SIZE" "live w'" "rx w' = input" "tgt w' = tgt (ym_world ym)"
    using process_frame_of [of ym MY_YMODEM_SOH 0 ?d input] assms hd by (auto simp: rcv_def sender_end_frame_of)
  define ym1 where "ym1 = ym\<lparr>ym_frame := frame_of 2 MY_YMODEM_SOH 0 ?d @ tl', ym_world := w'\<rparr>"
  have r1: "rcv live rx tgt ym1 STATE_ENDING sq k n t input" using assms p by (simp add: rcv_def ym1_def)
  have z: "ym_frame ym1 ! 1 = 0" "ym_frame ym1 ! 3 = 0" by (simp_all add: ym1_def) (simp add: frame_of_def nth_append)
  define ym2 where "ym2 = receiver_close_file io (send_byte io MY_YMODEM_ACK (ym1\<lparr>ym_state := STATE_ENDED\<rparr>))"
  have r2: "rcv live rx tgt ym2 STATE_ENDED sq k n (cls True t) input"
    unfolding ym2_def by (intro close_file_ok rcv_send_byte rcv_set_state [OF r1])
  have pf: "receiver_process_frame io ym 2 = Some (0, ym2)"
    using p(1) z r1 by (simp add: receiver_data_frame_def ym1_def [symmetric] ym2_def rcv_def)
  obtain f where f: "io_flush io = Some f" "\<And>w. live w \<Longrightarrow> live (f w) \<and> tgt (f w) = tgt w" using flush_law by blast
  define ym3 where "ym3 = ym2\<lparr>ym_world := f (ym_world ym2)\<rparr>"
  have r3: "rcv live rx tgt ym3 STATE_ENDED sq k n (cls True t) (rx (f (ym_world ym2)))"
    using r2 f(2) by (simp add: rcv_def ym3_def)
  have "frame_loop io 2 e ym = Some (0, receiver_close_file io ym3)"
    using pf r2 f(1) by (subst frame_loop.simps) (simp add: port_flush_def ym3_def rcv_def)
  then show ?thesis using close_file_ok [OF r3] by (auto simp: rcv_def)
qed

text \<open>The handshake and the file information frame.\<close>

lemma open_file_ok:
  assumes "live (ym_world ym)" "ym_data_dst ym = 0" "opn (ym_file_name ym) (ym_file_size ym) (tgt (ym_world ym)) = (0, t1)"
  obtains w' where "receiver_open_file io ym = (0, ym\<lparr>ym_world := w', ym_written := 0\<rparr>)" "live w'" "rx w' = rx (ym_world ym)" "tgt w' = t1"
proof -
  obtain f where f: "io_save_open io = Some f" "\<And>w nm n r w'. live w \<Longrightarrow> f nm n w = (r, w') \<Longrightarrow>
      live w' \<and> rx w' = rx w \<and> opn nm n (tgt w) = (r, tgt w')"
    using open_law by blast
  obtain r w' where w: "f (ym_file_name ym) (ym_file_size ym) (ym_world ym) = (r, w')" by fastforce
  have "r = 0" "live w'" "rx w' = rx (ym_world ym)" "tgt w' = t1" using f(2) [OF assms(1) w] assms(3) by auto
  then show thesis using w f(1) assms(2) by (intro that [of w']) (simp_all add: receiver_open_file_def)
qed

lemma first_frame_ok:
  assumes w: "live (ym_world ym)" "rx (ym_world ym) = drop 1 (sender_file_frame 2 name (int n)) @ input"
    and ym: "ym_frame ym = MY_YMODEM_SOH # f" "length f = FRAME_BUF_SIZE - 1" "ym_crc_type ym = 2" "ym_data_dst ym = 0"
    and info: "0 \<notin> set name" "0 < n" "int n < 2 ^ 31" and o: "opn (take 99 name) (int n) (tgt (ym_world ym)) = (0, t1)"
  shows "\<exists>ym'. receiver_process_first_frame io ym 2 = Some (0, ym') \<and> rcv live rx tgt ym' STATE_CONNECTED 1 0 n t1 input"
proof -
  let ?d = "file_info_data name (int n)"
  have hd: "head_data_size MY_YMODEM_SOH = Some (length ?d)" by (simp add: head_data_size_def length_file_info_data)
  have "rx (ym_world ym) = [0, NOT 0] @ ?d @ check_field 2 ?d @ input" using w(2) by (simp add: sender_file_frame_of frame_of_def)
  from recv_frame_tail [OF w(1) this ym(1,2) hd] obtain w1 tl' where
    t: "recv_data io 1 (4 + length ?d) (get_recv_timeout io) ym =
      (int (4 + length ?d), ym\<lparr>ym_frame := frame_of 2 MY_YMODEM_SOH 0 ?d @ tl', ym_world := w1\<rparr>)"
      "length (frame_of 2 MY_YMODEM_SOH 0 ?d @ tl') = FRAME_BUF_SIZE" "live w1" "rx w1 = input" "tgt w1 = tgt (ym_world ym)" .
  define ym1 where "ym1 = ym\<lparr>ym_frame := frame_of 2 MY_YMODEM_SOH 0 ?d @ tl', ym_world := w1\<rparr>"
  have v: "receiver_verify_frame ym1 (length ?d) 2 = 0" by (rule verify_frame_of) (auto simp: ym1_def)
  have seq: "ym_frame ym1 ! Suc 0 = 0" "ym_frame ym1 ! 2 = 0xFF" by (simp_all add: ym1_def)
  have parse: "receiver_parse_file_info (ym1\<lparr>ym_is_ymodem := True, ym_expected_seq := 1\<rparr>) (drop FRAME_DATA_OFF (ym_frame ym1)) =
      ym1\<lparr>ym_is_ymodem := True, ym_expected_seq := 1, ym_file_name := take 99 name, ym_file_size := int n\<rparr>"
    using parse_file_info_data [of name "int n"] info by (simp add: ym1_def)
  define ym2 where "ym2 = snd (receiver_send_request io (send_byte io MY_YMODEM_ACK
      (ym1\<lparr>ym_is_ymodem := True, ym_expected_seq := 1, ym_file_name := take 99 name, ym_file_size := int n\<rparr>)))"
  have y2: "ym2 = send_byte io MY_YMODEM_CRC16_C (send_byte io MY_YMODEM_ACK
      (ym1\<lparr>ym_is_ymodem := True, ym_expected_seq := 1, ym_file_name := take 99 name, ym_file_size := int n\<rparr>))"
    using ym(3) by (simp add: ym2_def receiver_send_request_def ym1_def)
  define ym3 where "ym3 = ym2\<lparr>ym_state := STATE_CONNECTED\<rparr>"
  have w3: "live (ym_world ym3)" "rx (ym_world ym3) = input" "tgt (ym_world ym3) = tgt (ym_world ym)"
    using t(3-5) by (simp_all add: ym3_def y2 send_byte_world ym1_def)
  have f3: "ym_data_dst ym3 = 0" "ym_file_name ym3 = take 99 name" "ym_file_size ym3 = int n" "ym_is_ymodem ym3" "ym_crc_type ym3 = 2"
      "length (ym_frame ym3) = FRAME_BUF_SIZE" "ym_expected_seq ym3 = 1" "ym_state ym3 = STATE_CONNECTED"
    using t(2) ym(3,4) by (simp_all add: ym3_def y2 ym1_def)
  obtain w4 where op: "receiver_open_file io ym3 = (0, ym3\<lparr>ym_world := w4, ym_written := 0\<rparr>)" "live w4" "rx w4 = input" "tgt w4 = t1"
    using open_file_ok [of ym3 t1] w3 f3 o by auto
  have rem: "FRAME_DATA_OFF + 128 + 2 - 1 = 4 + length ?d" by (simp add: length_file_info_data)
  have "receiver_process_first_frame io ym 2 = Some (0, ym3\<lparr>ym_world := w4, ym_written := 0\<rparr>)"
    using ym(1) hd t(1) v seq op(1) f3(4) unfolding receiver_process_first_frame_def
    by (simp add: length_file_info_data rem Let_def ym1_def [symmetric] parse ym2_def [symmetric] ym3_def [symmetric])
  then show ?thesis using op f3 by (auto simp: rcv_def)
qed

lemma handshake_ok:
  assumes w: "live (ym_world ym)" "rx (ym_world ym) = sender_file_frame 2 name (int n) @ input"
    and ym: "length (ym_frame ym) = FRAME_BUF_SIZE" "ym_crc_type ym = 2" "ym_data_dst ym = 0"
    and info: "0 \<notin> set name" "0 < n" "int n < 2 ^ 31" and o: "opn (take 99 name) (int n) (tgt (ym_world ym)) = (0, t1)"
  shows "\<exists>ym'. handshake_loop io 0 ym = frame_loop io 2 0 ym' \<and> rcv live rx tgt ym' STATE_FILEXFER 1 0 n t1 input"
proof -
  define ym1 where "ym1 = send_byte io MY_YMODEM_CRC16_C ym"
  have w1: "live (ym_world ym1)" "rx (ym_world ym1) = MY_YMODEM_SOH # (drop 1 (sender_file_frame 2 name (int n)) @ input)"
      "tgt (ym_world ym1) = tgt (ym_world ym)" "length (ym_frame ym1) = FRAME_BUF_SIZE" "ym_crc_type ym1 = 2" "ym_data_dst ym1 = 0"
    using w ym by (simp_all add: ym1_def send_byte_world sender_file_frame_def)
  obtain w2 where h: "recv_data io 0 1 (get_recv_timeout io) ym1 = (1, ym1\<lparr>ym_frame := MY_YMODEM_SOH # drop 1 (ym_frame ym1), ym_world := w2\<rparr>)"
    "live w2" "rx w2 = drop 1 (sender_file_frame 2 name (int n)) @ input" "tgt w2 = tgt (ym_world ym1)"
    using recv_head [OF w1(1,2,4)] by blast
  define ym2 where "ym2 = ym1\<lparr>ym_frame := MY_YMODEM_SOH # drop 1 (ym_frame ym1), ym_world := w2\<rparr>"
  obtain ym3 where p: "receiver_process_first_frame io ym2 2 = Some (0, ym3)" "rcv live rx tgt ym3 STATE_CONNECTED 1 0 n t1 input"
    using first_frame_ok [of ym2 name n input "drop 1 (ym_frame ym1)" t1] h w1 info o by (auto simp: ym2_def)
  have ff: "first_frame_loop io 2 (get_send_retry io) ym2 = Some (First_Ready ym3)"
    using p(1) by (subst first_frame_loop.simps) simp
  have "0 < get_handshake_retry io" "\<not> 0 \<ge> get_handshake_retry io div 2" using retries(1) by linarith+
  then have "handshake_loop io 0 ym = frame_loop io 2 0 (ym3\<lparr>ym_state := STATE_FILEXFER\<rparr>)"
    using h(1) [folded ym2_def] ym(2) ff by (subst handshake_loop.simps) (simp add: receiver_send_request_def ym1_def [symmetric] Let_def)
  then show ?thesis using rcv_set_state [OF p(2)] by blast
qed

text \<open>A complete session.\<close>

lemma receive_session:
  assumes w: "live w" "rx w = ymodem_stream name img trailer eots"
    and info: "0 \<notin> set name" "img \<noteq> []" "int (length img) < 2 ^ 31"
    and o: "opn (take 99 name) (int (length img)) (tgt w) = (0, t1)"
    and wr: "save_all wrt (file_blocks img @ (if trailer then [[]] else [])) t1 = Some t2"
  shows "\<exists>ym. my_ymodem_receive io (my_ymodem_init True (Some io) w) None = Some (0, Some ym) \<and>
     tgt (ym_world ym) = cls True (cls True t2) \<and> live (ym_world ym)"
proof -
  let ?n = "length img" and ?cs = "file_blocks img @ (if trailer then [[]] else [])"
  let ?in2 = "replicate (Suc eots) MY_YMODEM_EOT @ sender_end_frame 2" and ?in1 = "data_frames 1 ?cs @ replicate (Suc eots) MY_YMODEM_EOT @ sender_end_frame 2"
  obtain ym0 where ym0: "my_ymodem_init True (Some io) w = Some ym0" "ym_frame ym0 = replicate FRAME_BUF_SIZE 0" "ym_world ym0 = w"
    by (simp add: my_ymodem_init_def)
  define ym1 where "ym1 = ym0\<lparr>ym_save_dir := [], ym_state := STATE_CONNECTING, ym_is_ymodem := False, ym_crc_type := 2, ym_written := 0,
               ym_fp := None, ym_data_dst := 0\<rparr>"
  have n: "0 < ?n" using info(2) by simp
  obtain ym2 where h: "handshake_loop io 0 ym1 = frame_loop io 2 0 ym2" "rcv live rx tgt ym2 STATE_FILEXFER 1 0 ?n t1 ?in1"
    using handshake_ok [of ym1 name ?n ?in1 t1] w ym0 info n o by (auto simp: ym1_def ymodem_stream_def)
  have fit: "blocks_fit ?n 0 ?cs" using file_blocks_fit [of 0 img] by (simp add: blocks_fit_append_empty)
  obtain ym3 e3 sq3 where d: "frame_loop io 2 0 ym2 = frame_loop io 2 e3 ym3" "rcv live rx tgt ym3 STATE_ENDOFXFER sq3 ?n ?n t2 ?in2"
    using data_loop [of ym2 0 ?n 1 t1 ?cs ?in2 t2 0] h(2) fit n wr by auto
  obtain ym4 where e: "frame_loop io 2 e3 ym3 = frame_loop io 2 0 ym4" "rcv live rx tgt ym4 STATE_ENDING sq3 ?n ?n t2 (sender_end_frame 2 @ [])"
    using eot_loop [of ym3 STATE_ENDOFXFER sq3 ?n ?n t2 eots "sender_end_frame 2" e3] d(2) by auto
  obtain ym5 where f: "frame_loop io 2 0 ym4 = Some (0, ym5)" "tgt (ym_world ym5) = cls True (cls True t2)" "live (ym_world ym5)"
    using end_step [OF e(2), of 0] by blast
  have "receiver_run io ym1 = Some (0, ym5)" using h(1) d(1) e(1) f(1) by (simp add: receiver_run_def)
  then show ?thesis using ym0(1) f(2,3) by (simp add: my_ymodem_receive_def ym1_def)
qed

end

end
