(* ===== verification/Dfu_Lte.thy ===== *)
theory Dfu_Lte
  imports Lte_Uart Ymodem_Session Ota_Flash
begin

text \<open>
  Model of \<^verbatim>\<open>src/my_dfu_lte.c\<close>: the firmware update over the LTE serial line. The
  callbacks it gives to the YModem stack read and write the line (\<^verbatim>\<open>Lte_Uart\<close>) and hand the
  data to the image sink (\<^verbatim>\<open>Ota_Flash\<close>), keeping a running CRC32.

  The world of the YModem stack is the pair of the line (with the power manager) and the state of
  this module, which includes the sink. Two fields have no counterpart in the code: the bytes handed over so
  far, and a flag that would record an access outside a buffer.
\<close>

section \<open>State\<close>

datatype dfu_lte_fail_reason = DFU_LTE_OK | DFU_LTE_FAIL_BUSY | DFU_LTE_FAIL_PARAM | DFU_LTE_FAIL_SIZE
  | DFU_LTE_FAIL_YMODEM | DFU_LTE_FAIL_CRC | DFU_LTE_FAIL_FLASH

record 'd dfu_lte =
  s_dfu_total_size :: u32
  s_dfu_expect_crc :: u32
  s_dfu_crc :: u32
  s_dfu_size_mismatch :: bool
  dl_ota :: "'d ota"
  dl_boot_requested :: bool
  dl_delivered :: bytes
  dl_fault :: bool

type_synonym ('h, 'd) lte_world = "'h lte_sys \<times> 'd dfu_lte"

section \<open>Callbacks for the storage\<close>

definition dfu_lte_save_open :: "'d ota_env \<Rightarrow> bytes \<Rightarrow> int \<Rightarrow> 'd dfu_lte \<Rightarrow> int \<times> 'd dfu_lte" where
  "dfu_lte_save_open env file_name file_size t =
     (if file_size \<le> 0 then (-EINVAL, t)
      else if of_int file_size \<noteq> s_dfu_total_size t then (-EINVAL, t\<lparr>s_dfu_size_mismatch := True\<rparr>)
      else case my_ota_flash_open env (dl_ota t) (of_int file_size) of (ret, s') \<Rightarrow>
        if ret \<noteq> 0 then (ret, t\<lparr>dl_ota := s'\<rparr>) else (0, t\<lparr>dl_ota := s'\<rparr>))"

definition dfu_lte_save_write :: "'d ota_env \<Rightarrow> bytes \<Rightarrow> 'd dfu_lte \<Rightarrow> int \<times> 'd dfu_lte" where
  "dfu_lte_save_write env data t =
     (if data = [] then (0, t)
      else
        let t1 = t\<lparr>s_dfu_crc := my_crc32_update (s_dfu_crc t) data, dl_delivered := dl_delivered t @ data\<rparr>
        in case my_ota_flash_write_block env (dl_ota t1) (Some data) (of_nat (length data)) of
             None \<Rightarrow> (0, t1\<lparr>dl_fault := True\<rparr>)
           | Some (ret, _, s') \<Rightarrow> (ret, t1\<lparr>dl_ota := s'\<rparr>))"

definition dfu_lte_save_close :: "'d ota_env \<Rightarrow> bool \<Rightarrow> 'd dfu_lte \<Rightarrow> int \<times> 'd dfu_lte" where
  "dfu_lte_save_close env result_ok t =
     (case my_ota_flash_close env (dl_ota t) result_ok of (ret, s') \<Rightarrow> (ret, t\<lparr>dl_ota := s'\<rparr>))"

section \<open>Callbacks for the line\<close>

definition dfu_lte_uart_write :: "'h uart_driver \<Rightarrow> bytes \<Rightarrow> 'h lte_sys \<Rightarrow> int \<times> 'h lte_sys" where
  "dfu_lte_uart_write drv data sys =
     (case my_lte_uart_send_ymodem drv (Some data) (length data mod 65536) sys of (ret, sys') \<Rightarrow>
        if ret \<noteq> 0 then (ret, sys') else (int (length data), sys'))"

text \<open>One sleep of 10 ms: it takes at least that long, and what arrives meanwhile is in the ring.\<close>

definition lte_poll_sleep :: "'h uart_driver \<Rightarrow> 'h lte \<Rightarrow> 'h lte" where
  "lte_poll_sleep drv s =
     (case lte_arrivals s of
        [] \<Rightarrow> s\<lparr>lte_now := lte_now s + 10\<rparr>
      | (ms, bs) # as \<Rightarrow>
          let s1 = s\<lparr>lte_now := lte_now s + int (max 10 ms), lte_arrivals := as\<rparr>
          in if bs = [] then s1 else lte_uart_cb drv (UART_RX_RDY bs) s1)"

lemma lte_poll_sleep_now: "lte_now s + 10 \<le> lte_now (lte_poll_sleep drv s)"
  by (auto simp: lte_poll_sleep_def lte_uart_cb_def lte_post_def Let_def split: list.splits)

lemma my_lte_uart_read_now: "lte_now (snd (my_lte_uart_read n s)) = lte_now s"
  by (simp add: my_lte_uart_read_def split: prod.splits)

function uart_poll :: "'h uart_driver \<Rightarrow> nat \<Rightarrow> int \<Rightarrow> bytes \<Rightarrow> 'h lte \<Rightarrow> bytes option \<times> 'h lte" where
  "uart_poll drv max_len end_time got s =
     (if length got < max_len \<and> lte_now s < end_time
      then case my_lte_uart_read (of_nat (max_len - length got)) (lte_poll_sleep drv s) of
             (None, s') \<Rightarrow> (None, s')
           | (Some bs, s') \<Rightarrow> uart_poll drv max_len end_time (got @ bs) s'
      else (Some got, s))"
  by pat_completeness auto
termination
proof (relation "measure (\<lambda>(drv, n, e, got, s). nat (e - lte_now s))", goal_cases)
  case (2 drv max_len end_time got s x s' bs)
  then have "lte_now s' = lte_now (lte_poll_sleep drv s)" by (metis my_lte_uart_read_now snd_conv)
  then show ?case using lte_poll_sleep_now [of s drv] 2(1) by simp
qed simp

declare uart_poll.simps [simp del]

definition dfu_lte_uart_read :: "'h uart_driver \<Rightarrow> nat \<Rightarrow> int \<Rightarrow> 'h lte \<Rightarrow> bytes option \<times> 'h lte" where
  "dfu_lte_uart_read drv max_len timeout_ms s =
     (if max_len = 0 then (None, s)
      else case my_lte_uart_read (of_nat max_len) s of
        (None, s1) \<Rightarrow> (None, s1)
      | (Some bs, s1) \<Rightarrow>
          if length bs \<ge> max_len then (Some bs, s1)
          else uart_poll drv max_len (lte_now s1 + timeout_ms) bs s1)"

definition dfu_lte_uart_flush :: "'h lte \<Rightarrow> 'h lte" where
  "dfu_lte_uart_flush s = my_lte_uart_flush s"

section \<open>The session\<close>

definition my_dfu_lte_prepare :: "u32 \<Rightarrow> u32 \<Rightarrow> 'd dfu_lte \<Rightarrow> dfu_lte_fail_reason \<times> 'd dfu_lte" where
  "my_dfu_lte_prepare total_size expect_crc t =
     (if total_size = 0 then (DFU_LTE_FAIL_PARAM, t)
      else if total_size > PARTITION_SIZE then (DFU_LTE_FAIL_SIZE, t)
      else case my_ota_flash_occupy (dl_ota t) of (ok, s') \<Rightarrow>
        if \<not> ok then (DFU_LTE_FAIL_BUSY, t\<lparr>dl_ota := s'\<rparr>)
        else (DFU_LTE_OK, t\<lparr>dl_ota := s', s_dfu_total_size := total_size, s_dfu_expect_crc := expect_crc,
                           s_dfu_crc := my_crc32_init, s_dfu_size_mismatch := False, dl_delivered := []\<rparr>))"

text \<open>The callbacks as the YModem stack sees them; the other fields of \<open>io\<close> are zero.\<close>

definition dfu_lte_io :: "'h uart_driver \<Rightarrow> 'd ota_env \<Rightarrow> ('h, 'd) lte_world my_ymodem_io" where
  "dfu_lte_io drv env =
     \<lparr>io_send = (\<lambda>d (sys, t). case dfu_lte_uart_write drv d sys of (r, sys') \<Rightarrow> (r, (sys', t))),
      io_recv = (\<lambda>n ms ((pm, s), t). case dfu_lte_uart_read drv n ms s of (r, s') \<Rightarrow> (r, ((pm, s'), t))),
      io_flush = Some (\<lambda>((pm, s), t). ((pm, dfu_lte_uart_flush s), t)),
      io_protocol = 0, io_handshake_retry = 0, io_send_retry = 0, io_recv_timeout_ms = 0,
      io_save_open = Some (\<lambda>nm n (sys, t). case dfu_lte_save_open env nm n t of (r, t') \<Rightarrow> (r, (sys, t'))),
      io_save_write = Some (\<lambda>d (sys, t). case dfu_lte_save_write env d t of (r, t') \<Rightarrow> (r, (sys, t'))),
      io_save_close = Some (\<lambda>ok (sys, t). (sys, snd (dfu_lte_save_close env ok t)))\<rparr>"

definition dfu_abort :: "'d ota_env \<Rightarrow> 'd dfu_lte \<Rightarrow> 'd dfu_lte" where
  "dfu_abort env t = t\<lparr>dl_ota := snd (my_ota_flash_close env (dl_ota t) False)\<rparr>"

definition purge_world :: "('h, 'd) lte_world \<Rightarrow> ('h, 'd) lte_world" where
  "purge_world = (\<lambda>((pm, s), t). ((pm, my_lte_purge_dfu_queues s), t))"

text \<open>What follows the reception: check its result, the size and the CRC, then ask for the upgrade.\<close>

definition dfu_lte_finish :: "'d ota_env \<Rightarrow> int \<Rightarrow> 'd dfu_lte \<Rightarrow> dfu_lte_fail_reason \<times> 'd dfu_lte" where
  "dfu_lte_finish env ret t =
     (if ret \<noteq> MY_YMODEM_OK
      then (if s_dfu_size_mismatch t then DFU_LTE_FAIL_SIZE
            else if ret = MY_YMODEM_ERR_FILE then DFU_LTE_FAIL_FLASH else DFU_LTE_FAIL_YMODEM, dfu_abort env t)
      else if s_dfu_size_mismatch t then (DFU_LTE_FAIL_SIZE, dfu_abort env t)
      else if my_crc32_final (s_dfu_crc t) \<noteq> s_dfu_expect_crc t then (DFU_LTE_FAIL_CRC, dfu_abort env t)
      else (DFU_LTE_OK, t\<lparr>dl_boot_requested := True, dl_ota := my_ota_flash_schedule_reset (dl_ota t) 6500\<rparr>))"

definition my_dfu_lte_start ::
  "'h uart_driver \<Rightarrow> 'd ota_env \<Rightarrow> bool \<Rightarrow> ('h, 'd) lte_world \<Rightarrow> (dfu_lte_fail_reason \<times> ('h, 'd) lte_world) option" where
  "my_dfu_lte_start drv env calloc_ok w =
     (let w1 = purge_world w
      in case my_ymodem_init calloc_ok (Some (dfu_lte_io drv env)) w1 of
           None \<Rightarrow> Some (DFU_LTE_FAIL_YMODEM, (fst w1, dfu_abort env (snd w1)))
         | Some ym \<Rightarrow>
             (case my_ymodem_receive (dfu_lte_io drv env) (Some ym) None of
                Some (ret, Some ym') \<Rightarrow>
                  (case purge_world (ym_world ym') of (sys, t) \<Rightarrow>
                     case dfu_lte_finish env ret t of (reason, t') \<Rightarrow> Some (reason, (sys, t')))
              | _ \<Rightarrow> None))"

section \<open>The line is orderly\<close>

text \<open>
  The script of arrivals never leaves the reader without a byte for its whole timeout of
  3000 ms, and no entry is larger than the ring.
\<close>

fun timely :: "int \<Rightarrow> (nat \<times> bytes) list \<Rightarrow> bool" where
  "timely b [] = True"
| "timely b ((ms, bs) # as) \<longleftrightarrow> 0 < b \<and> timely (if bs = [] then b - int (max 10 ms) else 3000) as"

lemma timely_mono: "timely b as \<Longrightarrow> b \<le> b' \<Longrightarrow> timely b' as"
proof (induction as arbitrary: b b')
  case (Cons a as)
  obtain ms bs where a: "a = (ms, bs)" by fastforce
  show ?case using Cons.prems Cons.IH [of "b - int (max 10 ms)" "b' - int (max 10 ms)"] unfolding a by (auto split: if_splits)
qed simp

definition rx_ok :: "'h lte \<Rightarrow> bool" where
  "rx_ok s \<longleftrightarrow> rb_inv (s_lte_rb s) \<and> rb_capacity (s_lte_rb s) = 2047 \<and> (\<forall>e \<in> set (lte_arrivals s). length (snd e) \<le> 2047) \<and>
     timely 3000 (lte_arrivals s) \<and> s_TxDoneSem s \<le> 1"

definition rx_stream :: "'h lte \<Rightarrow> bytes" where
  "rx_stream s = rb_content (s_lte_rb s) @ concat (map snd (lte_arrivals s))"

lemma uart_read_spec:
  assumes "rx_ok s" "0 < n" "n \<le> 1032"
  obtains s' where "my_lte_uart_read (of_nat n) s = (Some (take n (rb_content (s_lte_rb s))), s')" "rx_ok s'"
    "rb_content (s_lte_rb s') = drop n (rb_content (s_lte_rb s))" "lte_arrivals s' = lte_arrivals s" "lte_now s' = lte_now s"
proof -
  obtain bs rb where r: "rb_read_loop (s_lte_rb s) n [] = (bs, rb)" by fastforce
  have u: "unat (of_nat n :: u32) = n" "(of_nat n :: u32) \<noteq> 0" using assms(2,3) by (auto simp: unat_of_nat simp flip: unat_eq_0)
  have "rb_inv (s_lte_rb s)" using assms(1) by (simp add: rx_ok_def)
  note sp = rb_read_loop_spec [OF this r]
  show thesis using r u sp assms(1) by (intro that [of "s\<lparr>s_lte_rb := rb\<rparr>"]) (auto simp: my_lte_uart_read_def my_rb_read_def rx_ok_def)
qed

lemma poll_sleep_spec:
  assumes "rx_ok s" "rb_content (s_lte_rb s) = []" and s': "s' = lte_poll_sleep drv s"
  shows "rx_ok s' \<and> rx_stream s' = rx_stream s \<and>
    (timely b (lte_arrivals s) \<longrightarrow> rb_content (s_lte_rb s') = [] \<longrightarrow> timely (b - (lte_now s' - lte_now s)) (lte_arrivals s'))"
proof (cases "lte_arrivals s")
  case Nil
  then show ?thesis using assms(1) by (simp add: s' lte_poll_sleep_def rx_ok_def rx_stream_def)
next
  case (Cons e as)
  obtain ms bs where e: "e = (ms, bs)" by fastforce
  obtain n rb where w: "my_rb_write (s_lte_rb s) bs = (n, rb)" by fastforce
  have inv: "rb_inv (s_lte_rb s)" "rb_capacity (s_lte_rb s) = 2047" "length bs \<le> 2047" using assms(1) Cons e by (auto simp: rx_ok_def)
  have used: "rb_used (s_lte_rb s) = 0" using assms(2) by (simp flip: length_rb_content)
  have sp: "rb_content rb = bs" "rb_inv rb" "rb_capacity rb = 2047"
    using rb_write_loop_spec [OF inv(1), of 0 bs n rb] w inv(2,3) used assms(2) by (auto simp: my_rb_write_def)
  have tm: "timely 3000 as" using assms(1) Cons e timely_mono [of "3000 - int (max 10 ms)" as 3000]
    by (auto simp: rx_ok_def split: if_splits)
  show ?thesis
  proof (cases "bs = []")
    case True
    then show ?thesis using assms(1) Cons e tm by (auto simp: s' lte_poll_sleep_def rx_ok_def rx_stream_def)
  next
    case False
    then show ?thesis using assms(1,2) Cons e tm w sp
      by (auto simp: s' lte_poll_sleep_def lte_uart_cb_def lte_post_def rx_ok_def rx_stream_def Let_def)
  qed
qed

lemma uart_poll_spec:
  assumes "rx_ok s" "length got < n \<longrightarrow> rb_content (s_lte_rb s) = []" "length got \<le> n" "n \<le> 1032"
  shows "\<exists>got' s'. uart_poll drv n e got s = (Some got', s') \<and> rx_ok s' \<and> got' @ rx_stream s' = got @ rx_stream s \<and> length got' \<le> n \<and>
     (got \<noteq> [] \<or> 0 < n \<and> timely (e - lte_now s) (lte_arrivals s) \<and> rx_stream s \<noteq> [] \<longrightarrow> got' \<noteq> [])"
  using assms
proof (induction drv n e got s rule: uart_poll.induct)
  case (1 drv n e got s)
  show ?case
  proof (cases "length got < n \<and> lte_now s < e")
    case False
    have "\<not> (got = [] \<and> 0 < n \<and> timely (e - lte_now s) (lte_arrivals s) \<and> rx_stream s \<noteq> [])"
    proof
      assume a: "got = [] \<and> 0 < n \<and> timely (e - lte_now s) (lte_arrivals s) \<and> rx_stream s \<noteq> []"
      then have "rb_content (s_lte_rb s) = []" "\<not> lte_now s < e" using "1.prems"(2) False by auto
      moreover from this a have "lte_arrivals s \<noteq> []" by (auto simp: rx_stream_def)
      ultimately show False using a by (cases "lte_arrivals s") auto
    qed
    then show ?thesis using "1.prems" False by (subst uart_poll.simps) auto
  next
    case True
    have ps: "rx_ok (lte_poll_sleep drv s)" "rx_stream (lte_poll_sleep drv s) = rx_stream s"
      "timely b (lte_arrivals s) \<Longrightarrow> rb_content (s_lte_rb (lte_poll_sleep drv s)) = [] \<Longrightarrow>
        timely (b - (lte_now (lte_poll_sleep drv s) - lte_now s)) (lte_arrivals (lte_poll_sleep drv s))" for b
      using poll_sleep_spec [OF "1.prems"(1) _ refl, of drv b] "1.prems"(2) True by blast+
    let ?s1 = "lte_poll_sleep drv s" and ?k = "n - length got"
    have k: "0 < ?k" "?k \<le> 1032" using True "1.prems"(4) by linarith+
    obtain s2 where r: "my_lte_uart_read (of_nat ?k) ?s1 = (Some (take ?k (rb_content (s_lte_rb ?s1))), s2)" "rx_ok s2"
      "rb_content (s_lte_rb s2) = drop ?k (rb_content (s_lte_rb ?s1))" "lte_arrivals s2 = lte_arrivals ?s1" "lte_now s2 = lte_now ?s1"
      by (rule uart_read_spec [OF ps(1) k])
    let ?got = "got @ take ?k (rb_content (s_lte_rb ?s1))"
    have emp: "length ?got < n \<longrightarrow> rb_content (s_lte_rb s2) = []" using r(3) by (auto simp: min_def split: if_splits)
    have le: "length ?got \<le> n" using "1.prems"(3) by auto
    have st: "?got @ rx_stream s2 = got @ rx_stream s" using r(3,4) ps(2) by (simp add: rx_stream_def) (metis append.assoc append_take_drop_id)
    obtain got' s' where ih: "uart_poll drv n e ?got s2 = (Some got', s')" "rx_ok s'" "got' @ rx_stream s' = ?got @ rx_stream s2" "length got' \<le> n"
      "?got \<noteq> [] \<or> 0 < n \<and> timely (e - lte_now s2) (lte_arrivals s2) \<and> rx_stream s2 \<noteq> [] \<Longrightarrow> got' \<noteq> []"
      using "1.IH" [OF True r(1) [symmetric] refl r(2) emp le "1.prems"(4)] by blast
    have "got' \<noteq> []" if a: "got \<noteq> [] \<or> 0 < n \<and> timely (e - lte_now s) (lte_arrivals s) \<and> rx_stream s \<noteq> []"
    proof (cases "?got = []")
      case True
      then have c: "got = []" "rb_content (s_lte_rb ?s1) = []" using \<open>length got < n \<and> lte_now s < e\<close> by auto
      have "timely (e - lte_now s - (lte_now ?s1 - lte_now s)) (lte_arrivals ?s1)" using ps(3) a c by blast
      then have "timely (e - lte_now s2) (lte_arrivals s2)" using r(4,5) by simp
      moreover have "rx_stream s2 \<noteq> []" using st True c(1) a by simp
      ultimately show ?thesis using ih(5) a c(1) by blast
    qed (use ih(5) in blast)
    moreover have "uart_poll drv n e got s = uart_poll drv n e ?got s2" using True r(1) by (subst uart_poll.simps) simp
    ultimately show ?thesis using ih st by auto
  qed
qed

lemma uart_read_orderly:
  assumes "rx_ok s" "0 < n" "n \<le> 1032" "n \<le> length (rx_stream s)"
  shows "\<exists>k s'. dfu_lte_uart_read drv n 3000 s = (Some (take k (rx_stream s)), s') \<and> 0 < k \<and> k \<le> n \<and> rx_ok s' \<and>
     rx_stream s' = drop k (rx_stream s)"
proof -
  obtain s1 where r: "my_lte_uart_read (of_nat n) s = (Some (take n (rb_content (s_lte_rb s))), s1)" "rx_ok s1"
    "rb_content (s_lte_rb s1) = drop n (rb_content (s_lte_rb s))" "lte_arrivals s1 = lte_arrivals s" "lte_now s1 = lte_now s"
    by (rule uart_read_spec [OF assms(1-3)])
  let ?got = "take n (rb_content (s_lte_rb s))"
  have st: "?got @ rx_stream s1 = rx_stream s" using r(3,4) by (simp add: rx_stream_def)
  have ex: "\<exists>k s'. (Some got', s2) = (Some (take k (rx_stream s)), s') \<and> 0 < k \<and> k \<le> n \<and> rx_ok s' \<and> rx_stream s' = drop k (rx_stream s)"
    if "got' @ rx_stream s2 = rx_stream s" "got' \<noteq> []" "length got' \<le> n" "rx_ok s2" for got' s2
    using that by (intro exI [of _ "length got'"] exI [of _ s2]) (auto simp flip: that(1))
  show ?thesis
  proof (cases "n \<le> length ?got")
    case True
    then have "dfu_lte_uart_read drv n 3000 s = (Some ?got, s1)" using r(1) assms(2) by (simp add: dfu_lte_uart_read_def)
    moreover have "?got \<noteq> []" using True assms(2) by (metis list.size(3) not_less)
    ultimately show ?thesis using ex [OF st _ _ r(2)] by simp
  next
    case False
    have "rb_content (s_lte_rb s1) = []" using r(3) False by auto
    moreover have "timely 3000 (lte_arrivals s1)" using r(2) by (simp add: rx_ok_def)
    moreover have "rx_stream s \<noteq> []" using assms(2,4) by auto
    ultimately obtain got' s2 where p: "uart_poll drv n (lte_now s1 + 3000) ?got s1 = (Some got', s2)" "rx_ok s2"
        "got' @ rx_stream s2 = ?got @ rx_stream s1" "length got' \<le> n" "got' \<noteq> []"
      using uart_poll_spec [OF r(2), of ?got n drv "lte_now s1 + 3000"] st assms(2,3) by fastforce
    then have "dfu_lte_uart_read drv n 3000 s = (Some got', s2)" using r(1) assms(2) False by (simp add: dfu_lte_uart_read_def)
    then show ?thesis using ex [of got' s2] p st by simp
  qed
qed

definition lte_live :: "'h uart_driver \<Rightarrow> ('h, 'd) lte_world \<Rightarrow> bool" where
  "lte_live drv = (\<lambda>((pm, s), t). lte_ops_ok drv pm \<and> rx_ok s)"

definition lte_rx :: "('h, 'd) lte_world \<Rightarrow> bytes" where
  "lte_rx = (\<lambda>((pm, s), t). rx_stream s)"

lemma rx_ok_frame: "rx_ok s \<Longrightarrow> send_outcome s r s' \<Longrightarrow> rx_ok s' \<and> rx_stream s' = rx_stream s"
  by (auto simp: rx_ok_def rx_stream_def send_outcome_def rx_frame_def split: if_splits)

lemma rx_ok_flush: "rx_ok s \<Longrightarrow> rx_ok (my_lte_uart_flush s)"
  by (auto simp: rx_ok_def my_lte_uart_flush_def my_rb_clear_def rb_inv_def rb_capacity_def)

interpretation lte: orderly_line "dfu_lte_io drv env" "lte_live drv" lte_rx snd "dfu_lte_save_open env" "dfu_lte_save_write env"
  "\<lambda>ok t. snd (dfu_lte_save_close env ok t)" for drv env
proof unfold_locales
  fix w d r w' assume l: "lte_live drv (w :: ('a, 'b) lte_world)" and s: "io_send (dfu_lte_io drv env) d w = (r, w')"
  obtain pm st t where w: "w = ((pm, st), t)" by (metis surj_pair)
  obtain r1 pm1 s1 where u: "my_lte_uart_send_ymodem drv (Some d) (length d mod 65536) (pm, st) = (r1, (pm1, s1))" by (metis surj_pair)
  have "rx_ok st" "lte_ops_ok drv pm" using l by (simp_all add: w lte_live_def)
  moreover from this have "lte_ops_ok drv pm1 \<and> send_outcome st r1 s1" using send_ymodem_outcome [OF _ _ u] by (simp add: rx_ok_def)
  ultimately have "lte_ops_ok drv pm1 \<and> rx_ok s1 \<and> rx_stream s1 = rx_stream st" using rx_ok_frame by blast
  moreover have "w' = ((pm1, s1), t)" using s u by (auto simp: w dfu_lte_io_def dfu_lte_uart_write_def split: if_splits)
  ultimately show "lte_live drv w' \<and> lte_rx w' = lte_rx w \<and> snd w' = snd w" by (simp add: lte_live_def lte_rx_def w)
next
  fix w n assume l: "lte_live drv (w :: ('a, 'b) lte_world)" "0 < n" "n \<le> FRAME_BUF_SIZE" "n \<le> length (lte_rx w)"
  obtain pm st t where w: "w = ((pm, st), t)" by (metis surj_pair)
  have "get_recv_timeout (dfu_lte_io drv env) = 3000" by (simp add: get_recv_timeout_def dfu_lte_io_def)
  moreover have "rx_ok st" "n \<le> length (rx_stream st)" using l by (simp_all add: w lte_live_def lte_rx_def)
  ultimately show "\<exists>k w'. io_recv (dfu_lte_io drv env) n (get_recv_timeout (dfu_lte_io drv env)) w = (Some (take k (lte_rx w)), w') \<and>
      0 < k \<and> k \<le> n \<and> lte_live drv w' \<and> lte_rx w' = drop k (lte_rx w) \<and> snd w' = snd w"
    using uart_read_orderly [of st n drv] l(1-3) by (auto simp: w dfu_lte_io_def lte_live_def lte_rx_def)
next
  show "\<exists>f. io_flush (dfu_lte_io drv env) = Some f \<and> (\<forall>w. lte_live drv w \<longrightarrow> lte_live drv (f w) \<and> snd (f w) = snd w)"
    by (auto simp: dfu_lte_io_def lte_live_def dfu_lte_uart_flush_def rx_ok_flush)
next
  show "\<exists>f. io_save_open (dfu_lte_io drv env) = Some f \<and> (\<forall>w nm n r w'. lte_live drv w \<longrightarrow> f nm n w = (r, w') \<longrightarrow>
      lte_live drv w' \<and> lte_rx w' = lte_rx w \<and> dfu_lte_save_open env nm n (snd w) = (r, snd w'))"
    by (auto simp: dfu_lte_io_def lte_live_def lte_rx_def split: prod.splits)
next
  show "\<exists>f. io_save_write (dfu_lte_io drv env) = Some f \<and> (\<forall>w d r w'. lte_live drv w \<longrightarrow> f d w = (r, w') \<longrightarrow>
      lte_live drv w' \<and> lte_rx w' = lte_rx w \<and> dfu_lte_save_write env d (snd w) = (r, snd w'))"
    by (auto simp: dfu_lte_io_def lte_live_def lte_rx_def split: prod.splits)
next
  show "\<exists>f. io_save_close (dfu_lte_io drv env) = Some f \<and> (\<forall>w b. lte_live drv w \<longrightarrow>
      lte_live drv (f b w) \<and> lte_rx (f b w) = lte_rx w \<and> snd (f b w) = snd (dfu_lte_save_close env b (snd w)))"
    by (auto simp: dfu_lte_io_def lte_live_def lte_rx_def)
next
  show "2 \<le> get_handshake_retry (dfu_lte_io drv env)" "1 \<le> get_send_retry (dfu_lte_io drv env)"
    by (simp_all add: get_handshake_retry_def get_send_retry_def dfu_lte_io_def)
qed

section \<open>A complete update\<close>

text \<open>The sink has taken \<open>data\<close> of an image of \<open>n\<close> bytes, and the CRC covers it.\<close>

definition dfu_progress :: "'d ota_env \<Rightarrow> ('d \<Rightarrow> nat \<Rightarrow> u8) \<Rightarrow> (nat \<Rightarrow> u8) \<Rightarrow> nat \<Rightarrow> bytes \<Rightarrow> 'd dfu_lte \<Rightarrow> bool" where
  "dfu_progress env mem m0 n data t \<longleftrightarrow>
     (if length data < n then sink_receiving m0 n data (env, mem, dl_ota t) \<and> length data mod MY_OTA_BUFFER_SIZE = 0
      else length data = n \<and> sink_stored m0 data (env, mem, dl_ota t)) \<and>
     s_dfu_crc t = my_crc32_update my_crc32_init data \<and> dl_delivered t = data"

text \<open>The fields the storage callbacks leave alone.\<close>

definition same_params :: "'d dfu_lte \<Rightarrow> 'd dfu_lte \<Rightarrow> bool" where
  "same_params t t' \<longleftrightarrow> s_dfu_total_size t' = s_dfu_total_size t \<and> s_dfu_expect_crc t' = s_dfu_expect_crc t \<and>
     s_dfu_size_mismatch t' = s_dfu_size_mismatch t \<and> dl_boot_requested t' = dl_boot_requested t \<and> dl_fault t' = dl_fault t"

lemma same_params_refl [simp]: "same_params t t"
  by (simp add: same_params_def)

lemma save_write_progress:
  assumes h: "flash_healthy env" and p: "dfu_progress env mem m0 n data t" and le: "length data \<le> n"
    and c: "length c = min MY_YMODEM_STX_SIZE (n - length data)"
  shows "\<exists>t'. dfu_lte_save_write env c t = (0, t') \<and> dfu_progress env mem m0 n (data @ c) t' \<and> same_params t t'"
proof (cases "length data < n")
  case False
  then have "c = []" using c le by simp
  then show ?thesis using p by (simp add: dfu_lte_save_write_def)
next
  case True
  have rc: "sink_receiving m0 n data (env, mem, dl_ota t)" "length data mod MY_OTA_BUFFER_SIZE = 0"
    and crc: "s_dfu_crc t = my_crc32_update my_crc32_init data" "dl_delivered t = data" using p True by (simp_all add: dfu_progress_def)
  have c0: "c \<noteq> []" "length data mod MY_OTA_BUFFER_SIZE + length c \<le> MY_OTA_BUFFER_SIZE" using c True rc(2) by auto
  obtain l s' where w: "sink_write c (env, mem, dl_ota t) = Some (0, l, (env, mem, s'))" using sink_write_healthy [OF h rc(1) c0] by blast
  then have wb: "my_ota_flash_write_block env (dl_ota t) (Some c) (of_nat (length c)) = Some (0, l, s')" by (auto simp: sink_write_def)
  define t' where "t' = t\<lparr>s_dfu_crc := my_crc32_update (s_dfu_crc t) c, dl_delivered := data @ c, dl_ota := s'\<rparr>"
  have sw: "dfu_lte_save_write env c t = (0, t')" using c0(1) wb crc(2) by (simp add: dfu_lte_save_write_def t'_def Let_def)
  have law: "if n \<le> length (data @ c) then sink_stored m0 (data @ c) (env, mem, s') else sink_receiving m0 n (data @ c) (env, mem, s')"
    using sink_write_law [OF rc(1) c0] w by auto
  have "length (data @ c) mod MY_OTA_BUFFER_SIZE = 0" if "length (data @ c) < n" using that c rc(2) by (auto simp: mod_add_eq [symmetric])
  moreover have "length (data @ c) \<le> n" using c True by auto
  ultimately have "dfu_progress env mem m0 n (data @ c) t'"
    using law crc by (auto simp: dfu_progress_def t'_def crc32.upd_append)
  then show ?thesis using sw by (auto simp: t'_def same_params_def)
qed

lemma save_all_progress:
  assumes "flash_healthy env" "dfu_progress env mem m0 n data t" "blocks_fit n (length data) cs"
  shows "\<exists>t'. save_all (dfu_lte_save_write env) cs t = Some t' \<and> dfu_progress env mem m0 n (data @ concat cs) t' \<and> same_params t t'"
  using assms(2,3)
proof (induction cs arbitrary: data t)
  case Nil
  then show ?case by simp
next
  case (Cons c cs)
  then obtain t1 where 1: "dfu_lte_save_write env c t = (0, t1)" "dfu_progress env mem m0 n (data @ c) t1" "same_params t t1"
    using save_write_progress [OF assms(1), of mem m0 n data t c] by auto
  then obtain t2 where "save_all (dfu_lte_save_write env) cs t1 = Some t2" "dfu_progress env mem m0 n ((data @ c) @ concat cs) t2" "same_params t1 t2"
    using Cons.IH [of "data @ c" t1] Cons.prems(2) by auto
  then show ?case using 1 by (auto simp: same_params_def)
qed

lemma save_open_progress:
  assumes "flash_ok env mem" "flash_healthy env" "s_ota_busy (dl_ota t)" "length (s_ota_buf (dl_ota t)) = MY_OTA_BUFFER_SIZE"
    "0 < n" "n \<le> 0x8e000" "s_dfu_total_size t = of_nat n" "s_dfu_crc t = my_crc32_init" "dl_delivered t = []"
  shows "\<exists>t'. dfu_lte_save_open env nm (int n) t = (0, t') \<and> dfu_progress env mem (mem (ota_dev (dl_ota t))) n [] t' \<and> same_params t t'"
proof -
  have u: "unat (of_nat n :: u32) = n" using assms(6) by (simp add: unat_of_nat)
  obtain s' where o: "my_ota_flash_open env (dl_ota t) (of_nat n) = (0, s')"
    using open_healthy [OF assms(2,3), of "of_nat n"] u assms(5,6) fst_eq_ex by metis
  have base: "sink_base (mem (ota_dev (dl_ota t))) (env, mem, dl_ota t)" using assms(1,3,4) by (simp add: sink_base_def outside_slot_def)
  have "sink_receiving (mem (ota_dev (dl_ota t))) n [] (env, mem, s')"
    using sink_open_law [OF base, of "of_nat n" 0 "(env, mem, s')"] o u by (simp add: sink_open_def)
  then show ?thesis using o assms(5,7-9) by (auto simp: dfu_lte_save_open_def dfu_progress_def same_params_def)
qed

lemma close_stored:
  assumes "sink_stored m0 data (env, mem, dl_ota t)"
  shows "snd (dfu_lte_save_close env True (snd (dfu_lte_save_close env True t))) =
     t\<lparr>dl_ota := (dl_ota t)\<lparr>s_ota_buf_offset := 0, s_ota_block_addr := 0, s_ota_total_written := 0, s_ota_busy := False\<rparr>\<rparr>"
  using assms by (simp add: dfu_lte_save_close_def my_ota_flash_close_def sink_stored_def sink_base_def)

lemma stored_range:
  assumes "sink_stored m0 data (env, mem, s)"
  shows "mem_range (mem (ota_dev s)) 0x9c000 (length data) = data" "outside_slot m0 (mem (ota_dev s))"
proof -
  obtain k where "mem_range (mem (ota_dev s)) 0x9c000 (length data + k) = data @ replicate k 0xFF"
    using assms by (auto simp: sink_stored_def)
  then show "mem_range (mem (ota_dev s)) 0x9c000 (length data) = data" by (simp add: mem_range_append)
  show "outside_slot m0 (mem (ota_dev s))" using assms by (simp add: sink_stored_def sink_base_def)
qed

lemma purge_spec:
  assumes "rx_ok s"
  shows "rx_ok (my_lte_purge_dfu_queues s)" "rx_stream (my_lte_purge_dfu_queues s) = concat (map snd (lte_arrivals s))"
  using assms by (auto simp: my_lte_purge_dfu_queues_def my_lte_uart_flush_def my_rb_clear_def rx_ok_def rb_inv_def rb_capacity_def
      rx_stream_def rb_content_def rb_used_def)

text \<open>
  C5: the firmware update over the LTE line completes. For every image of 1 byte up to the size of the slot and
  every file name, when the update session is free, the LTE module announces the size and the CRC32 of the image and then
  sends the frames of a YModem transfer, in whatever pieces they arrive and however the driver treats
  the answers, as long as no silence lasts the whole timeout and no burst exceeds the ring,
  and the flash works, then the update reports success; the slot holds the image byte for byte,
  nothing outside the slot is changed, the boot loader is asked to upgrade, the reset is scheduled,
  and the session is free again.
\<close>

theorem lte_update_completes:
  assumes "flash_ok env mem" "flash_healthy env" "length (s_ota_buf (dl_ota t)) = MY_OTA_BUFFER_SIZE" "\<not> s_ota_busy (dl_ota t)"
    and "img \<noteq> []" "length img \<le> 0x8e000" "0 \<notin> set name"
    and "my_dfu_lte_prepare (of_nat (length img)) (my_crc32_final (my_crc32_update my_crc32_init img)) t = (DFU_LTE_OK, t1)"
    and "lte_ops_ok drv pm" "rx_ok s" "concat (map snd (lte_arrivals s)) = ymodem_stream name img trailer eots"
  shows "\<exists>sys' t'. my_dfu_lte_start drv env True ((pm, s), t1) = Some (DFU_LTE_OK, (sys', t')) \<and>
     mem_range (mem (ota_dev (dl_ota t'))) 0x9c000 (length img) = img \<and> outside_slot (mem (ota_dev (dl_ota t))) (mem (ota_dev (dl_ota t'))) \<and>
     dl_boot_requested t' \<and> s_ota_reset_timer (dl_ota t') = Some 6500 \<and> \<not> s_ota_busy (dl_ota t') \<and> dl_fault t' = dl_fault t"
proof -
  let ?n = "length img" and ?cs = "file_blocks img @ (if trailer then [[]] else [])" and ?m0 = "mem (ota_dev (dl_ota t))"
  have prep: "t1 = t\<lparr>dl_ota := (dl_ota t)\<lparr>s_ota_busy := True\<rparr>, s_dfu_total_size := of_nat ?n,
      s_dfu_expect_crc := my_crc32_final (my_crc32_update my_crc32_init img), s_dfu_crc := my_crc32_init, s_dfu_size_mismatch := False, dl_delivered := []\<rparr>"
    using assms(4,8) by (auto simp: my_dfu_lte_prepare_def my_ota_flash_occupy_def split: if_splits)
  have n: "0 < ?n" "int ?n < 2 ^ 31" using assms(5,6) by simp_all
  have "s_ota_busy (dl_ota t1)" "length (s_ota_buf (dl_ota t1)) = MY_OTA_BUFFER_SIZE" "s_dfu_total_size t1 = of_nat ?n"
    "s_dfu_crc t1 = my_crc32_init" "dl_delivered t1 = []" "mem (ota_dev (dl_ota t1)) = ?m0" using assms(3) by (simp_all add: prep)
  then obtain t2 where o: "dfu_lte_save_open env (take 99 name) (int ?n) t1 = (0, t2)" "dfu_progress env mem ?m0 ?n [] t2" "same_params t1 t2"
    using save_open_progress [OF assms(1,2), of t1 ?n "take 99 name"] n(1) assms(6) by auto
  have fit: "blocks_fit ?n (length ([] :: bytes)) ?cs" using file_blocks_fit [of 0 img] by (simp add: blocks_fit_append_empty)
  obtain t3 where w: "save_all (dfu_lte_save_write env) ?cs t2 = Some t3" "dfu_progress env mem ?m0 ?n img t3" "same_params t2 t3"
    using save_all_progress [OF assms(2) o(2) fit] by (cases trailer) (auto simp: concat_file_blocks)
  have st: "sink_stored ?m0 img (env, mem, dl_ota t3)" and crc: "s_dfu_crc t3 = my_crc32_update my_crc32_init img"
    using w(2) by (simp_all add: dfu_progress_def)
  define w1 where "w1 = purge_world ((pm, s), t1)"
  have w1: "lte_live drv w1" "lte_rx w1 = ymodem_stream name img trailer eots" "snd w1 = t1"
    using purge_spec [OF assms(10)] assms(9,11) by (simp_all add: w1_def purge_world_def lte_live_def lte_rx_def)
  obtain ym where r: "my_ymodem_receive (dfu_lte_io drv env) (my_ymodem_init True (Some (dfu_lte_io drv env)) w1) None = Some (0, Some ym)"
    "snd (ym_world ym) = snd (dfu_lte_save_close env True (snd (dfu_lte_save_close env True t3)))"
    using lte.receive_session [OF w1(1,2) assms(7,5) n(2), of env t2 t3] o(1) w(1) w1(3) by auto
  obtain ym0 where i: "my_ymodem_init True (Some (dfu_lte_io drv env)) w1 = Some ym0" by (simp add: my_ymodem_init_def)
  obtain sys' where pw: "purge_world (ym_world ym) = (sys', snd (ym_world ym))" by (cases "ym_world ym") (auto simp: purge_world_def split: prod.splits)
  have params: "s_dfu_expect_crc t3 = my_crc32_final (my_crc32_update my_crc32_init img)" "\<not> s_dfu_size_mismatch t3" "dl_fault t3 = dl_fault t"
    using o(3) w(3) by (simp_all add: same_params_def prep)
  define t' where "t' = (snd (ym_world ym))\<lparr>dl_boot_requested := True, dl_ota := my_ota_flash_schedule_reset (dl_ota (snd (ym_world ym))) 6500\<rparr>"
  have fin: "dfu_lte_finish env 0 (snd (ym_world ym)) = (DFU_LTE_OK, t')"
    using r(2) close_stored [OF st] params crc by (simp add: dfu_lte_finish_def t'_def)
  have "my_dfu_lte_start drv env True ((pm, s), t1) = Some (DFU_LTE_OK, (sys', t'))"
    using r(1) i pw fin by (simp add: my_dfu_lte_start_def w1_def [symmetric] Let_def)
  moreover have "ota_dev (dl_ota t') = ota_dev (dl_ota t3)" "s_ota_reset_timer (dl_ota t') = Some 6500" "\<not> s_ota_busy (dl_ota t')"
      "dl_boot_requested t'" "dl_fault t' = dl_fault t"
    using r(2) close_stored [OF st] params by (simp_all add: t'_def my_ota_flash_schedule_reset_def)
  ultimately show ?thesis using stored_range [OF st] by auto
qed

text \<open>An idle update client over a RAM flash, and a line on which every byte arrives alone, 10 ms after the one before it.\<close>

definition ram_dfu_lte :: "(nat \<Rightarrow> u8) dfu_lte" where
  "ram_dfu_lte = \<lparr>s_dfu_total_size = 0, s_dfu_expect_crc = 0, s_dfu_crc = 0, s_dfu_size_mismatch = False,
     dl_ota = ram_ota\<lparr>s_ota_busy := False\<rparr>, dl_boot_requested = False, dl_delivered = [], dl_fault = False\<rparr>"

definition bytewise :: "bytes \<Rightarrow> (nat \<times> bytes) list" where
  "bytewise bs = map (\<lambda>b. (10, [b])) bs"

lemma bytewise_stream [simp]: "concat (map snd (bytewise bs)) = bs"
  by (induction bs) (simp_all add: bytewise_def)

lemma bytewise_timely: "0 < b \<Longrightarrow> timely b (bytewise bs)"
  by (induction bs arbitrary: b) (simp_all add: bytewise_def)

lemma bytewise_ok: "rx_ok (ideal_lte\<lparr>lte_arrivals := bytewise bs\<rparr>)"
  using lte_rb0_inv by (auto simp: rx_ok_def ideal_lte_def bytewise_timely rb_capacity_def) (auto simp: bytewise_def)

theorem lte_update_completes_witness:
  "\<exists>t1. my_dfu_lte_prepare 3 (my_crc32_final (my_crc32_update my_crc32_init [1, 2, 3])) ram_dfu_lte = (DFU_LTE_OK, t1) \<and>
     (\<exists>sys' t'. my_dfu_lte_start ideal_uart ram_ota_env True
          ((ideal_pm, ideal_lte\<lparr>lte_arrivals := bytewise (ymodem_stream [97] [1, 2, 3] True 1)\<rparr>), t1) = Some (DFU_LTE_OK, (sys', t')) \<and>
        mem_range (ota_dev (dl_ota t')) 0x9c000 3 = [1, 2, 3] \<and> dl_boot_requested t')"
proof -
  define img :: bytes where "img = [1, 2, 3]"
  define s where "s = ideal_lte\<lparr>lte_arrivals := bytewise (ymodem_stream [97] img True 1)\<rparr>"
  have img: "of_nat (length img) = (3 :: u32)" "img \<noteq> []" "length img \<le> 0x8e000" "length img = 3" "0 \<notin> set ([97] :: bytes)"
    by (simp_all add: img_def)
  have rx: "rx_ok s" "concat (map snd (lte_arrivals s)) = ymodem_stream [97] img True 1" by (simp_all add: s_def bytewise_ok)
  have free: "length (s_ota_buf (dl_ota ram_dfu_lte)) = MY_OTA_BUFFER_SIZE" "\<not> s_ota_busy (dl_ota ram_dfu_lte)"
    by (simp_all add: ram_dfu_lte_def ram_ota_def)
  have "fst (my_dfu_lte_prepare 3 c ram_dfu_lte) = DFU_LTE_OK" for c
    using free(2) by (simp add: my_dfu_lte_prepare_def my_ota_flash_occupy_def)
  then obtain t1 where p: "my_dfu_lte_prepare 3 (my_crc32_final (my_crc32_update my_crc32_init img)) ram_dfu_lte = (DFU_LTE_OK, t1)"
    by (metis prod.collapse)
  then show ?thesis
    using lte_update_completes [OF ram_ota_ok ram_ota_healthy free img(2,3,5) _ ideal_pm_ok rx, unfolded img(1), OF p]
    unfolding s_def img(4) unfolding img_def by blast
qed

end
