(* ===== verification/Ymodem_Safety.thy ===== *)
theory Ymodem_Safety
  imports Ymodem
begin

text \<open>
  What the YModem receiver keeps, whatever arrives on the line: an invariant of the world that each callback
  preserves holds when the receiver returns, and a receiver that reports success has just closed the file.
\<close>

definition rcv_inv :: "('w \<Rightarrow> bool) \<Rightarrow> 'w my_ymodem \<Rightarrow> bool" where
  "rcv_inv I ym \<longleftrightarrow> I (ym_world ym) \<and> ym_data_dst ym = 0"

lemma rcv_inv_update [simp]:
  "rcv_inv I (ym\<lparr>ym_state := a\<rparr>) = rcv_inv I ym" "rcv_inv I (ym\<lparr>ym_is_ymodem := b\<rparr>) = rcv_inv I ym"
  "rcv_inv I (ym\<lparr>ym_expected_seq := c\<rparr>) = rcv_inv I ym" "rcv_inv I (ym\<lparr>ym_crc_type := d\<rparr>) = rcv_inv I ym"
  "rcv_inv I (ym\<lparr>ym_written := e\<rparr>) = rcv_inv I ym" "rcv_inv I (ym\<lparr>ym_frame := g\<rparr>) = rcv_inv I ym"
  by (simp_all add: rcv_inv_def)

lemma head_data_size_le: "head_data_size h = Some n \<Longrightarrow> n \<le> MY_YMODEM_STX_SIZE"
  by (auto simp: head_data_size_def split: if_splits)

locale callback_inv =
  fixes io :: "'w my_ymodem_io" and I :: "'w \<Rightarrow> bool"
  assumes send_keeps: "I w \<Longrightarrow> I (snd (io_send io d w))"
    and recv_keeps: "I w \<Longrightarrow> I (snd (io_recv io n ms w))"
    and flush_keeps: "io_flush io = Some fl \<Longrightarrow> I w \<Longrightarrow> I (fl w)"
    and open_keeps: "io_save_open io = Some op \<Longrightarrow> I w \<Longrightarrow> I (snd (op nm sz w))"
    and write_keeps: "io_save_write io = Some wr \<Longrightarrow> I w \<Longrightarrow> length d \<le> MY_YMODEM_STX_SIZE \<Longrightarrow> I (snd (wr d w))"
    and close_keeps: "io_save_close io = Some cl \<Longrightarrow> I w \<Longrightarrow> I (cl b w)"
begin

lemma send_byte_inv [simp]: "rcv_inv I ym \<Longrightarrow> rcv_inv I (send_byte io c ym)"
  by (simp add: rcv_inv_def send_byte_def send_keeps)

lemma recv_data_w_inv: "I w \<Longrightarrow> I (snd (snd (recv_data_w io n ms w)))"
proof (induction n arbitrary: w rule: less_induct)
  case (less n)
  obtain ro w1 where r: "io_recv io n ms w = (ro, w1)" by fastforce
  have w1: "I w1" using recv_keeps [OF less.prems, of n ms] r by simp
  show ?case
  proof (cases "n = 0 \<or> ro = None \<or> take n (the ro) = []")
    case True
    then show ?thesis using less.prems w1 r by (subst recv_data_w.simps) (auto simp: Let_def split: option.splits)
  next
    case False
    then have "n - length (take n (the ro)) < n" by (cases "the ro") auto
    note ih = less.IH [OF this w1]
    show ?thesis using False r ih by (subst recv_data_w.simps) (auto simp: Let_def split: prod.splits)
  qed
qed

lemma recv_data_inv: "recv_data io off n ms ym = (r, ym') \<Longrightarrow> rcv_inv I ym \<Longrightarrow> rcv_inv I ym'"
  using recv_data_w_inv [of "ym_world ym" n ms] by (auto simp: recv_data_def rcv_inv_def split: prod.splits)

lemma drain_inv:
  assumes "drain io w = Some w'" "I w"
  shows "I w'"
proof -
  have "io = io \<longrightarrow> I w \<longrightarrow> I w'"
  proof (rule drain.raw_induct [OF _ assms(1), where P = "\<lambda>i w w'. i = io \<longrightarrow> I w \<longrightarrow> I w'"])
    fix f i w w'
    assume "\<And>i w w'. f i w = Some w' \<Longrightarrow> i = io \<longrightarrow> I w \<longrightarrow> I w'"
      "(case io_recv i 64 0 w of (None, w') \<Rightarrow> Some w' | (Some bs, w') \<Rightarrow> if bs = [] then Some w' else f i w') = Some w'"
    then show "i = io \<longrightarrow> I w \<longrightarrow> I w'" using recv_keeps [of w 64 0] by (auto split: prod.splits option.splits if_splits)
  qed
  then show ?thesis using assms(2) by simp
qed

lemma port_flush_inv: "port_flush io ym = Some ym' \<Longrightarrow> rcv_inv I ym \<Longrightarrow> rcv_inv I ym'"
  by (auto simp: port_flush_def rcv_inv_def flush_keeps drain_inv split: option.splits)

lemma nak_and_return_inv: "nak_and_return io ret ym = Some (r, ym') \<Longrightarrow> rcv_inv I ym \<Longrightarrow> rcv_inv I ym' \<and> r = ret"
  by (auto simp: nak_and_return_def port_flush_inv)

lemma send_request_inv [simp]: "rcv_inv I ym \<Longrightarrow> rcv_inv I (snd (receiver_send_request io ym))"
  by (simp add: receiver_send_request_def)

lemma parse_file_info_inv [simp]: "rcv_inv I (receiver_parse_file_info ym buf) = rcv_inv I ym"
  by (simp add: receiver_parse_file_info_def rcv_inv_def Let_def)

lemma open_file_inv: "receiver_open_file io ym = (r, ym') \<Longrightarrow> rcv_inv I ym \<Longrightarrow> rcv_inv I ym'"
  using open_keeps [of _ "ym_world ym" "ym_file_name ym" "ym_file_size ym"]
  by (auto simp: receiver_open_file_def rcv_inv_def split: option.splits prod.splits if_splits)

lemma close_file_inv [simp]: "rcv_inv I ym \<Longrightarrow> rcv_inv I (receiver_close_file io ym)"
  by (auto simp: receiver_close_file_def rcv_inv_def close_keeps split: option.splits)

lemma save_data_inv:
  assumes "receiver_save_data io ym d = (r, ym')" "rcv_inv I ym" "length d \<le> MY_YMODEM_STX_SIZE"
  shows "rcv_inv I ym'"
proof (cases "io_save_write io")
  case None
  then show ?thesis using assms(1,2) by (auto simp: receiver_save_data_def rcv_inv_def send_byte_def send_keeps)
next
  case (Some f)
  obtain q w1 where f: "f d (ym_world ym) = (q, w1)" by fastforce
  then have "rcv_inv I (ym\<lparr>ym_world := w1\<rparr>)" using assms(2,3) write_keeps [OF Some, of "ym_world ym" d] by (simp add: rcv_inv_def)
  then show ?thesis using assms(1,2) Some f by (auto simp: receiver_save_data_def rcv_inv_def send_byte_def send_keeps split: if_splits)
qed

lemma eot_inv: "receiver_eot io ym = (r, ym') \<Longrightarrow> rcv_inv I ym \<Longrightarrow> rcv_inv I ym'"
  by (auto simp: receiver_eot_def split: if_splits ym_state.splits)

lemma data_frame_inv:
  assumes "receiver_data_frame io ym n = (r, ym')" "rcv_inv I ym" "n \<le> MY_YMODEM_STX_SIZE"
  shows "rcv_inv I ym'"
proof (cases "ym_is_ymodem ym \<and> ym_state ym = STATE_ENDING \<and> ym_frame ym ! 1 = 0")
  case True
  let ?ym2 = "snd (receiver_send_request io (send_byte io MY_YMODEM_ACK
     (receiver_parse_file_info (receiver_close_file io ym) (drop FRAME_DATA_OFF (ym_frame ym)))))"
  obtain r3 ym3 where o: "receiver_open_file io (?ym2\<lparr>ym_expected_seq := 1\<rparr>) = (r3, ym3)" by fastforce
  have "rcv_inv I ym3" using open_file_inv [OF o] assms(2) by simp
  then show ?thesis using assms(1,2) True o by (auto simp: receiver_data_frame_def Let_def split: if_splits)
next
  case False
  let ?ym1 = "ym\<lparr>ym_expected_seq := ym_expected_seq ym + 1\<rparr>"
  let ?d = "take (nat (save_size ?ym1 n)) (take n (drop FRAME_DATA_OFF (ym_frame ym)))"
  obtain r2 ym2 where s: "receiver_save_data io ?ym1 ?d = (r2, ym2)" by fastforce
  have "rcv_inv I ym2" using save_data_inv [OF s] assms(2,3) by simp
  then show ?thesis using assms(1,2) False s unfolding receiver_data_frame_def Let_def
    by (auto simp del: take_take split: if_splits)
qed

lemma process_frame_inv:
  assumes "receiver_process_frame io ym crc_len = Some (r, ym')" "rcv_inv I ym"
  shows "rcv_inv I ym'"
proof -
  obtain r1 ym1 where h: "recv_data io 0 1 (get_recv_timeout io) ym = (r1, ym1)" by fastforce
  note i1 = recv_data_inv [OF h assms(2)]
  show ?thesis
  proof (cases "0 < r1 \<and> ym_frame ym1 ! 0 \<noteq> MY_YMODEM_EOT \<and> head_data_size (ym_frame ym1 ! 0) \<noteq> None")
    case False
    then show ?thesis using assms(1) h i1 port_flush_inv [of "send_byte io MY_YMODEM_CAN ym1"] eot_inv [of ym1] nak_and_return_inv
      by (auto simp: receiver_process_frame_def Let_def split: if_splits)
  next
    case True
    then obtain n where n: "head_data_size (ym_frame ym1 ! 0) = Some n" by blast
    obtain r2 ym2 where t: "recv_data io 1 (FRAME_DATA_OFF + n + crc_len - 1) (get_recv_timeout io) ym1 = (r2, ym2)" by fastforce
    note i2 = recv_data_inv [OF t i1]
    show ?thesis using assms(1) h True n t nak_and_return_inv [OF _ i2] data_frame_inv [OF _ i2 head_data_size_le [OF n]]
      by (auto simp: receiver_process_frame_def Let_def split: if_splits)
  qed
qed

lemma process_first_frame_inv:
  assumes "receiver_process_first_frame io ym crc_len = Some (r, ym')" "rcv_inv I ym"
  shows "rcv_inv I ym'"
proof (cases "head_data_size (ym_frame ym ! 0)")
  case None
  then show ?thesis using assms by (simp add: receiver_process_first_frame_def)
next
  case (Some n)
  obtain r1 ym1 where h: "recv_data io 1 (FRAME_DATA_OFF + n + crc_len - 1) (get_recv_timeout io) ym = (r1, ym1)" by fastforce
  note i1 = recv_data_inv [OF h assms(2)]
  define is_info where "is_info \<longleftrightarrow> ym_frame ym1 ! 1 = 0 \<and> ym_frame ym1 ! 2 = 0xFF"
  define ym2 where "ym2 = (if is_info
     then snd (receiver_send_request io (send_byte io MY_YMODEM_ACK
            (receiver_parse_file_info (ym1\<lparr>ym_is_ymodem := True, ym_expected_seq := 1\<rparr>) (drop FRAME_DATA_OFF (ym_frame ym1)))))
     else ym1\<lparr>ym_is_ymodem := False, ym_expected_seq := 2\<rparr>)"
  have i2: "rcv_inv I ym2" using i1 by (simp add: ym2_def)
  obtain r3 ym3 where o: "receiver_open_file io (ym2\<lparr>ym_state := STATE_CONNECTED\<rparr>) = (r3, ym3)" by fastforce
  have i3: "rcv_inv I ym3" using open_file_inv [OF o] i2 by simp
  obtain r4 ym4 where s: "receiver_save_data io ym3 (take n (drop FRAME_DATA_OFF (ym_frame ym3))) = (r4, ym4)" by fastforce
  have i4: "rcv_inv I ym4" using save_data_inv [OF s i3] head_data_size_le [OF Some] by simp
  have "receiver_process_first_frame io ym crc_len =
     (if r1 < int (FRAME_DATA_OFF + n + crc_len - 1) then nak_and_return io MY_YMODEM_ERR_SIZE ym1
      else if receiver_verify_frame ym1 n crc_len \<noteq> 0 then nak_and_return io (receiver_verify_frame ym1 n crc_len) ym1
      else if \<not> is_info \<and> ym_frame ym1 ! 1 \<noteq> 1 then Some (MY_YMODEM_ERR_SEQ, send_byte io MY_YMODEM_NAK (ym1\<lparr>ym_is_ymodem := False\<rparr>))
      else if r3 \<noteq> MY_YMODEM_OK then Some (MY_YMODEM_ERR_FILE, send_byte io MY_YMODEM_CAN ym3)
      else if \<not> ym_is_ymodem ym3 then (if r4 \<noteq> 0 then Some (r4, ym4) else Some (MY_YMODEM_OK, send_byte io MY_YMODEM_ACK ym4))
      else Some (MY_YMODEM_OK, ym3))"
    using o s unfolding receiver_process_first_frame_def ym2_def is_info_def by (simp only: Some h option.case Let_def case_prod_conv)
  note this [unfolded assms(1)]
  then show ?thesis using i1 i3 i4 nak_and_return_inv [OF sym i1] by (auto split: if_splits)
qed

lemma first_frame_loop_inv:
  assumes "first_frame_loop io crc_len retry ym = Some res" "rcv_inv I ym"
  shows "case res of First_Ready ym' \<Rightarrow> rcv_inv I ym' | First_Failed r ym' \<Rightarrow> rcv_inv I ym' \<and> r \<noteq> MY_YMODEM_OK | First_Timeout ym' \<Rightarrow> rcv_inv I ym'"
    (is "?Q res")
proof -
  have "io = io \<longrightarrow> rcv_inv I ym \<longrightarrow> ?Q res"
  proof (rule first_frame_loop.raw_induct [OF _ assms(1), where P = "\<lambda>i c e ym res. i = io \<longrightarrow> rcv_inv I ym \<longrightarrow> ?Q res"], intro impI)
    fix f i c retry ym res
    assume ih: "\<And>i c e ym res. f i c e ym = Some res \<Longrightarrow> i = io \<longrightarrow> rcv_inv I ym \<longrightarrow> ?Q res"
      and b: "(case receiver_process_first_frame i ym c of
        None \<Rightarrow> None
      | Some (ret, ym1) \<Rightarrow>
          if ret = MY_YMODEM_ERR_HEAD
          then (case recv_data i 0 1 (get_recv_timeout i) ym1 of (r, ym2) \<Rightarrow>
                  if r \<le> 0 then Some (First_Timeout ym2) else f i c retry ym2)
          else if ret \<noteq> MY_YMODEM_OK
          then if retry - 1 \<le> 0 then Some (First_Failed ret ym1) else f i c (retry - 1) ym1
          else Some (First_Ready ym1)) = Some res" and i: "i = io" "rcv_inv I ym"
    obtain ret ym1 where p: "receiver_process_first_frame io ym c = Some (ret, ym1)" using b i(1) by (auto split: option.splits)
    note i1 = process_first_frame_inv [OF p i(2)]
    obtain r ym2 where h: "recv_data io 0 1 (get_recv_timeout io) ym1 = (r, ym2)" by fastforce
    note i2 = recv_data_inv [OF h i1]
    show "?Q res" using b p h i i1 i2 ih [of io c retry ym2] ih [of io c "retry - 1" ym1] by (auto split: if_splits)
  qed
  then show ?thesis using assms(2) by simp
qed

lemma frame_loop_inv:
  assumes "frame_loop io crc_len e ym = Some (r, ym')" "rcv_inv I ym"
  shows "rcv_inv I ym' \<and> (r = MY_YMODEM_OK \<longrightarrow> (\<exists>ymc. rcv_inv I ymc \<and> ym' = receiver_close_file io ymc))" (is "?Q (r, ym')")
proof -
  let ?Q = "\<lambda>(r, ym'). rcv_inv I ym' \<and> (r = MY_YMODEM_OK \<longrightarrow> (\<exists>ymc. rcv_inv I ymc \<and> ym' = receiver_close_file io ymc))"
  have "io = io \<longrightarrow> rcv_inv I ym \<longrightarrow> ?Q (r, ym')"
  proof (rule frame_loop.raw_induct [OF _ assms(1), where P = "\<lambda>i c e ym res. i = io \<longrightarrow> rcv_inv I ym \<longrightarrow> ?Q res"], intro impI)
    fix f i c e ym res
    assume ih: "\<And>i c e ym res. f i c e ym = Some res \<Longrightarrow> i = io \<longrightarrow> rcv_inv I ym \<longrightarrow> ?Q res"
      and b: "(case receiver_process_frame i ym c of
        None \<Rightarrow> None
      | Some (ret, ym1) \<Rightarrow>
          if ret = MY_YMODEM_ERR_HEAD \<or> ret = MY_YMODEM_ERR_STATE \<or> ret = MY_YMODEM_ERR_IO then Some (ret, ym1)
          else if ret \<noteq> MY_YMODEM_OK
          then if e + 1 \<ge> get_send_retry i then Some (MY_YMODEM_ERR_RETRY, send_byte i MY_YMODEM_CAN ym1)
               else f i c (e + 1) ym1
          else if ym_state ym1 = STATE_ENDED
          then map_option (\<lambda>ym2. (MY_YMODEM_OK, receiver_close_file i ym2)) (port_flush i ym1)
          else f i c 0 ym1) = Some res" and i: "i = io" "rcv_inv I ym"
    obtain ret ym1 where p: "receiver_process_frame io ym c = Some (ret, ym1)" using b i(1) by (auto split: option.splits)
    note i1 = process_frame_inv [OF p i(2)]
    show "?Q res" using b p i i1 ih [of io c "e + 1" ym1] ih [of io c 0 ym1] port_flush_inv [OF _ i1] by (auto split: if_splits)
  qed
  then show ?thesis using assms(2) by simp
qed

lemma handshake_loop_inv:
  assumes "handshake_loop io k ym = Some (r, ym')" "rcv_inv I ym"
  shows "rcv_inv I ym' \<and> (r = MY_YMODEM_OK \<longrightarrow> (\<exists>ymc. rcv_inv I ymc \<and> ym' = receiver_close_file io ymc))"
  using assms
proof (induction "nat (get_handshake_retry io - k)" arbitrary: k ym rule: less_induct)
  case less
  show ?case
  proof (cases "k < get_handshake_retry io")
    case False
    then show ?thesis using less.prems port_flush_inv by (subst (asm) handshake_loop.simps) auto
  next
    case True
    define ym0 where "ym0 = (if ym_crc_type ym = 2 \<and> k \<ge> get_handshake_retry io div 2 then ym\<lparr>ym_crc_type := 1\<rparr> else ym)"
    obtain crc_len ym1 where q: "receiver_send_request io ym0 = (crc_len, ym1)" by fastforce
    obtain ret ym2 where h: "recv_data io 0 1 (get_recv_timeout io) ym1 = (ret, ym2)" by fastforce
    have "rcv_inv I ym0" using less.prems(2) by (simp add: ym0_def)
    then have "rcv_inv I ym1" using send_request_inv [of ym0] q by simp
    note i2 = recv_data_inv [OF h this]
    have ih: "handshake_loop io (k + 1) y = Some (r, ym') \<Longrightarrow> rcv_inv I y \<Longrightarrow> ?thesis" for y using less.hyps [of "k + 1" y] True by simp
    have b: "(if ret \<le> 0 then handshake_loop io (k + 1) ym2
           else case first_frame_loop io crc_len (get_send_retry io) ym2 of
             None \<Rightarrow> None
           | Some (First_Timeout ym3) \<Rightarrow> handshake_loop io (k + 1) ym3
           | Some (First_Failed r ym3) \<Rightarrow> Some (r, ym3)
           | Some (First_Ready ym3) \<Rightarrow> frame_loop io crc_len 0 (ym3\<lparr>ym_state := STATE_FILEXFER\<rparr>)) = Some (r, ym')"
      using less.prems(1) True q h by (subst (asm) handshake_loop.simps) (simp add: ym0_def [symmetric] Let_def)
    show ?thesis
    proof (cases "ret \<le> 0")
      case True
      then have "handshake_loop io (k + 1) ym2 = Some (r, ym')" using b by simp
      then show ?thesis using ih i2 by blast
    next
      case False
      then obtain res where f: "first_frame_loop io crc_len (get_send_retry io) ym2 = Some res" using b by (auto split: option.splits)
      note i3 = first_frame_loop_inv [OF f i2]
      show ?thesis
      proof (cases res)
        case (First_Ready ym3)
        then show ?thesis using b False f i3 frame_loop_inv [of crc_len 0 "ym3\<lparr>ym_state := STATE_FILEXFER\<rparr>"] by simp
      next
        case (First_Timeout ym3)
        then have "handshake_loop io (k + 1) ym3 = Some (r, ym')" "rcv_inv I ym3" using b False f i3 by simp_all
        then show ?thesis by (rule ih)
      qed (use b False f i3 in auto)
    qed
  qed
qed

text \<open>The whole reception, from the handle that \<open>my_ymodem_init\<close> returns.\<close>

lemma receive_inv:
  assumes "my_ymodem_receive io (Some ym) dir = Some (r, Some ym')" "I (ym_world ym)" "io_save_close io = Some cl"
  shows "I (ym_world ym') \<and> (r = MY_YMODEM_OK \<longrightarrow> (\<exists>w. I w \<and> ym_world ym' = cl True w))"
proof -
  let ?ym = "ym\<lparr>ym_save_dir := (case dir of None \<Rightarrow> [] | Some d \<Rightarrow> take (MAX_PATH_LEN - 1) d),
               ym_state := STATE_CONNECTING, ym_is_ymodem := False, ym_crc_type := 2, ym_written := 0,
               ym_fp := None, ym_data_dst := 0\<rparr>"
  have "handshake_loop io 0 ?ym = Some (r, ym')" using assms(1) by (auto simp: my_ymodem_receive_def receiver_run_def)
  then have "rcv_inv I ym' \<and> (r = MY_YMODEM_OK \<longrightarrow> (\<exists>ymc. rcv_inv I ymc \<and> ym' = receiver_close_file io ymc))"
    by (rule handshake_loop_inv) (use assms(2) in \<open>simp add: rcv_inv_def\<close>)
  then show ?thesis using assms(3) by (auto simp: rcv_inv_def receiver_close_file_def)
qed

end

end
