(* ===== verification/Dfu_Lte_Safety.thy ===== *)
theory Dfu_Lte_Safety
  imports Dfu_Lte Ymodem_Safety
begin

text \<open>
  The firmware update over the LTE line under every behaviour of the line, the driver and the flash:
  what holds whenever it returns, and two ways in which it goes wrong.
\<close>

section \<open>The image sink keeps its buffer\<close>

lemma flush_frame:
  "length (s_ota_buf s) = MY_OTA_BUFFER_SIZE \<Longrightarrow> length (s_ota_buf (snd (my_ota_flash_flush env s l))) = MY_OTA_BUFFER_SIZE"
  "s_ota_reset_timer (snd (my_ota_flash_flush env s l)) = s_ota_reset_timer s"
  by (simp_all add: my_ota_flash_flush_def Let_def case_prod_beta)

lemma open_frame:
  assumes "my_ota_flash_open env s n = (r, s')" "length (s_ota_buf s) = MY_OTA_BUFFER_SIZE"
  shows "length (s_ota_buf s') = MY_OTA_BUFFER_SIZE" "s_ota_reset_timer s' = s_ota_reset_timer s"
  using assms by (auto simp: my_ota_flash_open_def case_prod_beta split: if_splits)

lemma close_frame:
  assumes "my_ota_flash_close env s ok = (r, s')" "length (s_ota_buf s) = MY_OTA_BUFFER_SIZE"
  shows "length (s_ota_buf s') = MY_OTA_BUFFER_SIZE" "s_ota_reset_timer s' = s_ota_reset_timer s" "\<not> s_ota_busy s'"
  using assms by (auto simp: my_ota_flash_close_def flush_frame case_prod_beta split: if_splits)

lemma write_block_frame:
  assumes len: "length (s_ota_buf s) = MY_OTA_BUFFER_SIZE" and d: "length d \<le> MY_YMODEM_STX_SIZE"
  shows "case my_ota_flash_write_block env s (Some d) (of_nat (length d)) of None \<Rightarrow> False
    | Some (r, l, s') \<Rightarrow> length (s_ota_buf s') = MY_OTA_BUFFER_SIZE \<and> s_ota_reset_timer s' = s_ota_reset_timer s"
proof -
  let ?o = "unat (s_ota_buf_offset s)"
  have n: "unat (of_nat (length d) :: u32) = length d" using d by (simp add: unat_of_nat)
  have off: "?o < 65536" using unsigned_less [of "s_ota_buf_offset s"] by simp
  show ?thesis
  proof (cases "\<not> s_ota_busy s \<or> of_nat (length d) = (0 :: u32) \<or> ucast (s_ota_buf_offset s) + of_nat (length d) > (1024 :: u32)")
    case True
    then show ?thesis using len by (auto simp: my_ota_flash_write_block_def)
  next
    case False
    have "unat (ucast (s_ota_buf_offset s) + of_nat (length d) :: u32) = ?o + length d"
      using off d n by (subst unat_add_small) (simp_all add: unsigned_ucast_eq take_bit_nat_eq_self)
    then have le: "?o + length d \<le> 1024" using False by (simp add: word_le_nat_alt not_less)
    obtain buf where b: "mem_write (s_ota_buf s) ?o d = Some buf" "length buf = MY_OTA_BUFFER_SIZE"
      using le len by (auto simp: mem_write_def)
    have "mem_read d 0 (unat (of_nat (length d) :: u32)) = Some d" by (simp add: mem_read_def n)
    then show ?thesis using False b by (simp add: my_ota_flash_write_block_def Let_def case_prod_beta flush_frame)
  qed
qed

section \<open>The invariant of the session\<close>

definition dfu_inv :: "'d dfu_lte \<Rightarrow> ('h, 'd) lte_world \<Rightarrow> bool" where
  "dfu_inv t0 = (\<lambda>(sys, t). length (s_ota_buf (dl_ota t)) = MY_OTA_BUFFER_SIZE \<and>
     s_ota_reset_timer (dl_ota t) = s_ota_reset_timer (dl_ota t0) \<and> dl_fault t = dl_fault t0 \<and>
     s_dfu_expect_crc t = s_dfu_expect_crc t0 \<and> dl_boot_requested t = dl_boot_requested t0 \<and>
     s_dfu_crc t = my_crc32_update my_crc32_init (dl_delivered t))"

lemma dfu_inv_ota:
  "dfu_inv t0 (sys, t) \<Longrightarrow> length (s_ota_buf s) = MY_OTA_BUFFER_SIZE \<Longrightarrow> s_ota_reset_timer s = s_ota_reset_timer (dl_ota t) \<Longrightarrow>
     dfu_inv t0 (sys', t\<lparr>dl_ota := s\<rparr>)"
  by (simp add: dfu_inv_def)

lemma dfu_inv_save_open:
  assumes "dfu_inv t0 (sys, t)"
  shows "dfu_inv t0 (sys', snd (dfu_lte_save_open env nm n t))"
proof -
  obtain r s' where o: "my_ota_flash_open env (dl_ota t) (of_int n) = (r, s')" by fastforce
  have "length (s_ota_buf (dl_ota t)) = MY_OTA_BUFFER_SIZE" using assms by (simp add: dfu_inv_def)
  then have "dfu_inv t0 (sys', t\<lparr>dl_ota := s'\<rparr>)" using dfu_inv_ota [OF assms] open_frame [OF o] by blast
  moreover have "dfu_inv t0 (sys', t)" "dfu_inv t0 (sys', t\<lparr>s_dfu_size_mismatch := True\<rparr>)" using assms by (simp_all add: dfu_inv_def)
  ultimately show ?thesis using o by (cases "of_int n = s_dfu_total_size t") (simp_all add: dfu_lte_save_open_def)
qed

lemma dfu_inv_save_write:
  assumes "dfu_inv t0 (sys, t)" "length d \<le> MY_YMODEM_STX_SIZE"
  shows "dfu_inv t0 (sys', snd (dfu_lte_save_write env d t))"
proof -
  let ?t1 = "t\<lparr>s_dfu_crc := my_crc32_update (s_dfu_crc t) d, dl_delivered := dl_delivered t @ d\<rparr>"
  have "length (s_ota_buf (dl_ota t)) = MY_OTA_BUFFER_SIZE" using assms(1) by (simp add: dfu_inv_def)
  then obtain r l s' where w: "my_ota_flash_write_block env (dl_ota t) (Some d) (of_nat (length d)) = Some (r, l, s')"
    "length (s_ota_buf s') = MY_OTA_BUFFER_SIZE" "s_ota_reset_timer s' = s_ota_reset_timer (dl_ota t)"
    using write_block_frame [OF _ assms(2), of "dl_ota t" env] by (auto split: option.splits)
  have i: "dfu_inv t0 (sys, ?t1)" using assms(1) by (simp add: dfu_inv_def crc32.upd_append)
  show ?thesis using dfu_inv_ota [OF i w(2), of sys'] assms(1) w(1,3) by (simp add: dfu_lte_save_write_def Let_def) (simp add: dfu_inv_def)
qed

lemma dfu_inv_save_close:
  assumes "dfu_inv t0 (sys, t)"
  shows "dfu_inv t0 (sys', snd (dfu_lte_save_close env ok t))"
proof -
  obtain r s' where c: "my_ota_flash_close env (dl_ota t) ok = (r, s')" by fastforce
  have "length (s_ota_buf (dl_ota t)) = MY_OTA_BUFFER_SIZE" using assms by (simp add: dfu_inv_def)
  then show ?thesis using dfu_inv_ota [OF assms] close_frame [OF c] c by (simp add: dfu_lte_save_close_def)
qed

lemma dfu_inv_sys: "dfu_inv t0 (sys, t) \<Longrightarrow> dfu_inv t0 (sys', t)"
  by (simp add: dfu_inv_def)

interpretation dfu: callback_inv "dfu_lte_io drv env" "dfu_inv t0" for drv env t0
proof unfold_locales
  fix w :: "('a, 'b) lte_world" and d n ms fl op nm sz wr cl and b :: bool
  assume i: "dfu_inv t0 w"
  obtain pm s t where w: "w = ((pm, s), t)" by (metis surj_pair)
  show "dfu_inv t0 (snd (io_send (dfu_lte_io drv env) d w))" using i by (auto simp: w dfu_lte_io_def dfu_inv_sys split: prod.splits)
  show "dfu_inv t0 (snd (io_recv (dfu_lte_io drv env) n ms w))" using i by (auto simp: w dfu_lte_io_def dfu_inv_sys split: prod.splits)
  show "io_flush (dfu_lte_io drv env) = Some fl \<Longrightarrow> dfu_inv t0 (fl w)" using i by (auto simp: w dfu_lte_io_def dfu_inv_sys)
  show "io_save_open (dfu_lte_io drv env) = Some op \<Longrightarrow> dfu_inv t0 (snd (op nm sz w))"
    using i dfu_inv_save_open [of t0 "(pm, s)" t "(pm, s)" env nm sz] by (auto simp: w dfu_lte_io_def split: prod.splits)
  show "io_save_write (dfu_lte_io drv env) = Some wr \<Longrightarrow> length d \<le> MY_YMODEM_STX_SIZE \<Longrightarrow> dfu_inv t0 (snd (wr d w))"
    using i dfu_inv_save_write [of t0 "(pm, s)" t d "(pm, s)" env] by (auto simp: w dfu_lte_io_def split: prod.splits)
  show "io_save_close (dfu_lte_io drv env) = Some cl \<Longrightarrow> dfu_inv t0 (cl b w)"
    using i by (auto simp: w dfu_lte_io_def dfu_inv_save_close)
qed

section \<open>Whatever happens\<close>

lemma dfu_abort_released: "\<not> s_ota_busy (dl_ota (dfu_abort env t))"
  by (simp add: dfu_abort_def my_ota_flash_close_def)

lemma dfu_inv_abort: "dfu_inv t0 (sys, t) \<Longrightarrow> dfu_inv t0 (sys', dfu_abort env t)"
  using dfu_inv_save_close [of t0 sys t sys' env False] by (simp add: dfu_abort_def dfu_lte_save_close_def case_prod_beta)

lemma save_close_released: "\<not> s_ota_busy (dl_ota (snd (dfu_lte_save_close env ok t)))"
  by (simp add: dfu_lte_save_close_def my_ota_flash_close_def case_prod_beta)

lemma snd_purge_world [simp]: "snd (purge_world w) = snd w"
  by (simp add: purge_world_def case_prod_beta)

lemma finish_spec:
  assumes "dfu_inv t0 (sys, t)" "dfu_lte_finish env ret t = (reason, t')" "ret = MY_YMODEM_OK \<longrightarrow> \<not> s_ota_busy (dl_ota t)"
  shows "\<not> s_ota_busy (dl_ota t') \<and> dl_fault t' = dl_fault t0 \<and>
     (if reason = DFU_LTE_OK
      then my_crc32_final (my_crc32_update my_crc32_init (dl_delivered t')) = s_dfu_expect_crc t0 \<and> dl_boot_requested t' \<and>
        s_ota_reset_timer (dl_ota t') = Some 6500
      else dl_boot_requested t' = dl_boot_requested t0 \<and> s_ota_reset_timer (dl_ota t') = s_ota_reset_timer (dl_ota t0))"
proof -
  have ab: "dfu_inv t0 (sys, dfu_abort env t)" "\<not> s_ota_busy (dl_ota (dfu_abort env t))"
    using dfu_inv_abort [OF assms(1)] dfu_abort_released by blast+
  consider "reason \<noteq> DFU_LTE_OK" "t' = dfu_abort env t"
    | "reason = DFU_LTE_OK" "ret = MY_YMODEM_OK" "my_crc32_final (s_dfu_crc t) = s_dfu_expect_crc t"
      "t' = t\<lparr>dl_boot_requested := True, dl_ota := my_ota_flash_schedule_reset (dl_ota t) 6500\<rparr>"
    using assms(2) by (auto simp: dfu_lte_finish_def split: if_splits)
  then show ?thesis
  proof cases
    case 1
    then show ?thesis using ab by (simp add: dfu_inv_def)
  next
    case 2
    then show ?thesis using assms(1,3) by (simp add: dfu_inv_def my_ota_flash_schedule_reset_def)
  qed
qed

text \<open>
  C6: a firmware update over the LTE line is safe whatever the line, the serial driver, the flash and the
  allocator do. Once the update has been prepared, every run that returns has released the update session and has never
  accessed memory outside the image buffer; the boot loader is asked to upgrade and the reset is
  scheduled only when success is reported, and success is reported only when the CRC32 of all the
  data handed over equals the announced one.
\<close>

theorem lte_update_safe:
  assumes "my_dfu_lte_prepare n c t = (DFU_LTE_OK, t1)" "length (s_ota_buf (dl_ota t)) = MY_OTA_BUFFER_SIZE"
    and "my_dfu_lte_start drv env calloc_ok (sys, t1) = Some (reason, (sys', t'))"
  shows "\<not> s_ota_busy (dl_ota t') \<and> dl_fault t' = dl_fault t \<and>
     (if reason = DFU_LTE_OK
      then my_crc32_final (my_crc32_update my_crc32_init (dl_delivered t')) = c \<and> dl_boot_requested t' \<and>
        s_ota_reset_timer (dl_ota t') = Some 6500
      else dl_boot_requested t' = dl_boot_requested t \<and> s_ota_reset_timer (dl_ota t') = s_ota_reset_timer (dl_ota t))"
proof -
  obtain pm s where sys: "sys = (pm, s)" by fastforce
  define w1 where "w1 = purge_world (sys, t1)"
  have t1: "s_dfu_expect_crc t1 = c" "dl_fault t1 = dl_fault t" "dl_boot_requested t1 = dl_boot_requested t"
      "s_ota_reset_timer (dl_ota t1) = s_ota_reset_timer (dl_ota t)" and i1: "dfu_inv t1 w1"
    using assms(1,2) by (auto simp: my_dfu_lte_prepare_def my_ota_flash_occupy_def dfu_inv_def w1_def purge_world_def sys split: if_splits)
  show ?thesis
  proof (cases calloc_ok)
    case False
    then have "t' = dfu_abort env t1" "reason = DFU_LTE_FAIL_YMODEM"
      using assms(3) by (simp_all add: my_dfu_lte_start_def my_ymodem_init_def purge_world_def sys)
    then show ?thesis using dfu_inv_abort [of t1 "fst w1" t1 sys env] i1 dfu_abort_released [of env t1] t1
      by (simp add: dfu_inv_def w1_def purge_world_def sys)
  next
    case True
    obtain ym0 where ym0: "my_ymodem_init calloc_ok (Some (dfu_lte_io drv env)) w1 = Some ym0" "ym_world ym0 = w1"
      using True by (simp add: my_ymodem_init_def)
    obtain ret ym where r: "my_ymodem_receive (dfu_lte_io drv env) (Some ym0) None = Some (ret, Some ym)"
      and f: "dfu_lte_finish env ret (snd (purge_world (ym_world ym))) = (reason, t')"
      using assms(3) ym0(1) by (auto simp: my_dfu_lte_start_def w1_def [symmetric] Let_def case_prod_beta split: option.splits)
    have cl: "io_save_close (dfu_lte_io drv env) = Some (\<lambda>ok (sys, t). (sys, snd (dfu_lte_save_close env ok t)))"
      by (simp add: dfu_lte_io_def)
    have rc: "dfu_inv t1 (ym_world ym)" "ret = MY_YMODEM_OK \<longrightarrow>
        (\<exists>w. ym_world ym = (case w of (sys, t) \<Rightarrow> (sys, snd (dfu_lte_save_close env True t))))"
      using dfu.receive_inv [OF r _ cl, of t1] i1 ym0(2) by auto
    have "dfu_inv t1 (fst (ym_world ym), snd (ym_world ym))" using rc(1) by simp
    moreover have "ret = MY_YMODEM_OK \<longrightarrow> \<not> s_ota_busy (dl_ota (snd (ym_world ym)))"
      using rc(2) save_close_released [of env True] by (auto simp: case_prod_beta)
    ultimately show ?thesis using finish_spec [of t1 "fst (ym_world ym)" "snd (ym_world ym)" env ret reason t'] f t1 by simp
  qed
qed

lemma ram_dfu_lte_free: "\<not> s_ota_busy (dl_ota ram_dfu_lte)" "length (s_ota_buf (dl_ota ram_dfu_lte)) = MY_OTA_BUFFER_SIZE"
  by (simp_all add: ram_dfu_lte_def ram_ota_def)

theorem lte_update_safe_witness:
  "\<exists>t1 t'. my_dfu_lte_prepare 3 7 ram_dfu_lte = (DFU_LTE_OK, t1) \<and>
     my_dfu_lte_start ideal_uart ram_ota_env False ((ideal_pm, ideal_lte), t1) =
       Some (DFU_LTE_FAIL_YMODEM, ((ideal_pm, my_lte_purge_dfu_queues ideal_lte), t')) \<and> \<not> s_ota_busy (dl_ota t') \<and> \<not> dl_boot_requested t'"
proof -
  have "fst (my_dfu_lte_prepare 3 7 ram_dfu_lte) = DFU_LTE_OK"
    using ram_dfu_lte_free(1) by (simp add: my_dfu_lte_prepare_def my_ota_flash_occupy_def)
  then obtain t1 where p: "my_dfu_lte_prepare 3 7 ram_dfu_lte = (DFU_LTE_OK, t1)" by (metis prod.collapse)
  obtain t' where s: "my_dfu_lte_start ideal_uart ram_ota_env False ((ideal_pm, ideal_lte), t1) =
       Some (DFU_LTE_FAIL_YMODEM, ((ideal_pm, my_lte_purge_dfu_queues ideal_lte), t'))"
    by (simp add: my_dfu_lte_start_def my_ymodem_init_def purge_world_def)
  show ?thesis using p s lte_update_safe [OF p ram_dfu_lte_free(2) s] by (simp add: ram_dfu_lte_def)
qed

section \<open>A failed write is forgotten\<close>

text \<open>Every block sent twice: the sender repeats a block that is not acknowledged.\<close>

fun resent_frames :: "u8 \<Rightarrow> bytes list \<Rightarrow> bytes" where
  "resent_frames sq [] = []"
| "resent_frames sq (c # cs) = sender_frame 2 True False c sq @ sender_frame 2 True False c sq @ resent_frames (sq + 1) cs"

fun refuse_all :: "(bytes \<Rightarrow> 's \<Rightarrow> int \<times> 's) \<Rightarrow> bytes list \<Rightarrow> 's \<Rightarrow> 's option" where
  "refuse_all wrt [] t = Some t"
| "refuse_all wrt (c # cs) t = (case wrt c t of (r, t') \<Rightarrow> if r \<noteq> 0 then refuse_all wrt cs t' else None)"

context orderly_line
begin

lemma save_data_refused:
  assumes "rcv live rx tgt ym st sq k n t input" "wrt c t = (q, t')" "q \<noteq> 0"
  shows "\<exists>ym'. receiver_save_data io ym c = (MY_YMODEM_ERR_FILE, ym') \<and> rcv live rx tgt ym' st sq k n t' input"
proof -
  obtain f where f: "io_save_write io = Some f" "\<And>w d r w'. live w \<Longrightarrow> f d w = (r, w') \<Longrightarrow>
      live w' \<and> rx w' = rx w \<and> wrt d (tgt w) = (r, tgt w')"
    using write_law by blast
  obtain r w' where w: "f c (ym_world ym) = (r, w')" by fastforce
  have w': "r = q" "live w'" "rx w' = input" "tgt w' = t'" using f(2) [of "ym_world ym" c r w'] w assms by (auto simp: rcv_def)
  have "rcv live rx tgt (ym\<lparr>ym_world := w'\<rparr>) st sq k n t' input" using assms(1) w' by (simp add: rcv_def)
  then show ?thesis using f(1) w w'(1) assms rcv_send_byte by (auto simp: receiver_save_data_def rcv_def)
qed

text \<open>The refused block is counted as received: its repetition is acknowledged as a duplicate.\<close>

lemma refused_step:
  assumes r: "rcv live rx tgt ym STATE_FILEXFER sq 0 n t (sender_frame 2 True False c sq @ sender_frame 2 True False c sq @ input)"
    and c: "length c = MY_YMODEM_STX_SIZE" "MY_YMODEM_STX_SIZE \<le> n" and w: "wrt c t = (q, t')" "q \<noteq> 0" and retry: "2 \<le> get_send_retry io"
  shows "\<exists>ym'. frame_loop io 2 0 ym = frame_loop io 2 0 ym' \<and> rcv live rx tgt ym' STATE_FILEXFER (sq + 1) 0 n t' input"
proof -
  let ?h = "frame_head c" and ?b = "frame_body c"
  have fb: "head_data_size ?h = Some (length ?b)" "?b = c" using c(1) by (auto simp: frame_head_def frame_body_def head_data_size_def frame_size_def frame_is_soh_def)
  obtain w1 tl1 where p1: "receiver_process_frame io ym 2 = Some (receiver_data_frame io (ym\<lparr>ym_frame := frame_of 2 ?h sq ?b @ tl1, ym_world := w1\<rparr>) (length ?b))"
    "length (frame_of 2 ?h sq ?b @ tl1) = FRAME_BUF_SIZE" "live w1" "rx w1 = sender_frame 2 True False c sq @ input" "tgt w1 = tgt (ym_world ym)"
    using process_frame_of [of ym ?h sq ?b "sender_frame 2 True False c sq @ input"] r fb(1) by (auto simp: rcv_def sender_frame_of)
  define ym1 where "ym1 = ym\<lparr>ym_frame := frame_of 2 ?h sq ?b @ tl1, ym_world := w1\<rparr>"
  have r1: "rcv live rx tgt (ym1\<lparr>ym_expected_seq := sq + 1\<rparr>) STATE_FILEXFER (sq + 1) 0 n t (sender_frame 2 True False c sq @ input)"
    using r p1 by (simp add: rcv_def ym1_def)
  have f1: "ym_state ym1 = STATE_FILEXFER" "ym_expected_seq ym1 = sq" "ym_frame ym1 ! 1 = sq" "save_size ym1 (length ?b) = 1024"
    using r c fb(2) by (simp_all add: rcv_def ym1_def save_size_def)
  have tk: "take (nat (save_size ym1 (length ?b))) (take (length ?b) (drop FRAME_DATA_OFF (ym_frame ym1))) = c"
    using f1(4) fb(2) c(1) by (simp add: ym1_def)
  obtain ym2 where s: "receiver_save_data io (ym1\<lparr>ym_expected_seq := sq + 1\<rparr>) c = (MY_YMODEM_ERR_FILE, ym2)"
    "rcv live rx tgt ym2 STATE_FILEXFER (sq + 1) 0 n t' (sender_frame 2 True False c sq @ input)"
    using save_data_refused [OF r1 w] by blast
  have "receiver_process_frame io ym 2 = Some (MY_YMODEM_ERR_FILE, ym2)"
    using data_frame_expected [of ym1, OF _ _ tk, of io MY_YMODEM_ERR_FILE ym2] f1(1-3) s(1) p1(1) by (simp add: ym1_def [symmetric])
  then have l1: "frame_loop io 2 0 ym = frame_loop io 2 1 ym2" using retry by (subst frame_loop.simps) simp
  obtain w3 tl3 where p3: "receiver_process_frame io ym2 2 = Some (receiver_data_frame io (ym2\<lparr>ym_frame := frame_of 2 ?h sq ?b @ tl3, ym_world := w3\<rparr>) (length ?b))"
    "length (frame_of 2 ?h sq ?b @ tl3) = FRAME_BUF_SIZE" "live w3" "rx w3 = input" "tgt w3 = tgt (ym_world ym2)"
    using process_frame_of [of ym2 ?h sq ?b input] s(2) fb(1) by (auto simp: rcv_def sender_frame_of)
  define ym3 where "ym3 = ym2\<lparr>ym_frame := frame_of 2 ?h sq ?b @ tl3, ym_world := w3\<rparr>"
  have r3: "rcv live rx tgt ym3 STATE_FILEXFER (sq + 1) 0 n t' input" using s(2) p3 by (simp add: rcv_def ym3_def)
  have "receiver_data_frame io ym3 (length ?b) = (MY_YMODEM_OK, send_byte io MY_YMODEM_ACK ym3)"
    using r3 by (simp add: receiver_data_frame_def rcv_def Let_def) (simp add: ym3_def)
  then have "receiver_process_frame io ym2 2 = Some (0, send_byte io MY_YMODEM_ACK ym3)" using p3(1) by (simp add: ym3_def)
  then have "frame_loop io 2 1 ym2 = frame_loop io 2 0 (send_byte io MY_YMODEM_ACK ym3)"
    by (rule frame_loop_step) (use r3 in \<open>simp add: rcv_def\<close>)
  then show ?thesis using l1 rcv_send_byte [OF r3] by metis
qed

lemma refused_loop:
  assumes "rcv live rx tgt ym STATE_FILEXFER sq 0 n t (resent_frames sq cs @ input)" "\<forall>c \<in> set cs. length c = MY_YMODEM_STX_SIZE"
    and "MY_YMODEM_STX_SIZE \<le> n" "refuse_all wrt cs t = Some t'" "2 \<le> get_send_retry io"
  shows "\<exists>ym' sq'. frame_loop io 2 0 ym = frame_loop io 2 0 ym' \<and> rcv live rx tgt ym' STATE_FILEXFER sq' 0 n t' input"
  using assms
proof (induction cs arbitrary: ym sq t)
  case Nil
  then show ?case by auto
next
  case (Cons c cs)
  obtain q t1 where w: "wrt c t = (q, t1)" "q \<noteq> 0" "refuse_all wrt cs t1 = Some t'" using Cons.prems(4) by (auto split: prod.splits if_splits)
  obtain ym1 where "frame_loop io 2 0 ym = frame_loop io 2 0 ym1" "rcv live rx tgt ym1 STATE_FILEXFER (sq + 1) 0 n t1 (resent_frames (sq + 1) cs @ input)"
    using refused_step [of ym sq n t c "resent_frames (sq + 1) cs @ input" q t1] Cons.prems w by auto
  then show ?case using Cons.IH [of ym1 "sq + 1" t1] Cons.prems w(3) by auto
qed

lemma first_eot:
  assumes "rcv live rx tgt ym STATE_FILEXFER sq k n t (MY_YMODEM_EOT # input)"
  shows "\<exists>ym'. frame_loop io 2 e ym = frame_loop io 2 0 ym' \<and> rcv live rx tgt ym' STATE_ENDOFXFER sq k n t input"
proof -
  obtain w1 where h: "recv_data io 0 1 (get_recv_timeout io) ym =
      (1, ym\<lparr>ym_frame := MY_YMODEM_EOT # drop 1 (ym_frame ym), ym_world := w1\<rparr>)"
    "live w1" "rx w1 = input" "tgt w1 = tgt (ym_world ym)"
    using recv_head [of ym MY_YMODEM_EOT input] assms by (auto simp: rcv_def)
  define ym1 where "ym1 = ym\<lparr>ym_frame := MY_YMODEM_EOT # drop 1 (ym_frame ym), ym_world := w1\<rparr>"
  have r1: "rcv live rx tgt ym1 STATE_FILEXFER sq k n t input" using assms h by (simp add: rcv_def ym1_def)
  define ym2 where "ym2 = send_byte io MY_YMODEM_NAK (ym1\<lparr>ym_state := STATE_ENDOFXFER\<rparr>)"
  have r2: "rcv live rx tgt ym2 STATE_ENDOFXFER sq k n t input" unfolding ym2_def by (intro rcv_send_byte rcv_set_state [OF r1])
  have "receiver_process_frame io ym 2 = Some (0, ym2)"
    using h(1) r1 by (simp add: receiver_process_frame_def ym1_def [symmetric] receiver_eot_def rcv_def ym2_def) (simp add: ym1_def)
  then show ?thesis using frame_loop_step r2 by (fastforce simp: rcv_def)
qed

lemma refused_session:
  assumes w: "live w" "rx w = sender_file_frame 2 name (int n) @ resent_frames 1 cs @ [MY_YMODEM_EOT, MY_YMODEM_EOT] @ sender_end_frame 2"
    and info: "0 \<notin> set name" "MY_YMODEM_STX_SIZE \<le> n" "int n < 2 ^ 31" and o: "opn (take 99 name) (int n) (tgt w) = (0, t1)"
    and cs: "\<forall>c \<in> set cs. length c = MY_YMODEM_STX_SIZE" "refuse_all wrt cs t1 = Some t2" and retry: "2 \<le> get_send_retry io"
  shows "\<exists>ym. my_ymodem_receive io (my_ymodem_init True (Some io) w) None = Some (0, Some ym) \<and> tgt (ym_world ym) = cls True (cls True t2)"
proof -
  let ?in = "[MY_YMODEM_EOT, MY_YMODEM_EOT] @ sender_end_frame 2"
  obtain ym0 where ym0: "my_ymodem_init True (Some io) w = Some ym0" "ym_frame ym0 = replicate FRAME_BUF_SIZE 0" "ym_world ym0 = w"
    by (simp add: my_ymodem_init_def)
  define ym1 where "ym1 = ym0\<lparr>ym_save_dir := [], ym_state := STATE_CONNECTING, ym_is_ymodem := False, ym_crc_type := 2, ym_written := 0,
               ym_fp := None, ym_data_dst := 0\<rparr>"
  obtain ym2 where h: "handshake_loop io 0 ym1 = frame_loop io 2 0 ym2" "rcv live rx tgt ym2 STATE_FILEXFER 1 0 n t1 (resent_frames 1 cs @ ?in)"
    using handshake_ok [of ym1 name n "resent_frames 1 cs @ ?in" t1] w ym0 info o by (auto simp: ym1_def)
  obtain ym3 sq where d: "frame_loop io 2 0 ym2 = frame_loop io 2 0 ym3" "rcv live rx tgt ym3 STATE_FILEXFER sq 0 n t2 ?in"
    using refused_loop [OF h(2) cs(1) info(2) cs(2) retry] by blast
  obtain ym4 where e: "frame_loop io 2 0 ym3 = frame_loop io 2 0 ym4" "rcv live rx tgt ym4 STATE_ENDOFXFER sq 0 n t2 (replicate (Suc 0) MY_YMODEM_EOT @ sender_end_frame 2)"
    using first_eot [of ym3 sq 0 n t2 "MY_YMODEM_EOT # sender_end_frame 2" 0] d(2) by auto
  obtain ym5 where f: "frame_loop io 2 0 ym4 = frame_loop io 2 0 ym5" "rcv live rx tgt ym5 STATE_ENDING sq 0 n t2 (sender_end_frame 2 @ [])"
    using eot_loop [OF e(2), of 0] by auto
  obtain ym6 where g: "frame_loop io 2 0 ym5 = Some (0, ym6)" "tgt (ym_world ym6) = cls True (cls True t2)" using end_step [OF f(2), of 0] by blast
  have "receiver_run io ym1 = Some (0, ym6)" using h(1) d(1) e(1) f(1) g(1) by (simp add: receiver_run_def)
  then show ?thesis using ym0(1) g(2) by (simp add: my_ymodem_receive_def ym1_def)
qed

end

text \<open>The state of the update while every write to the flash fails.\<close>

definition dead_inv :: "'d dfu_lte \<Rightarrow> bytes \<Rightarrow> 'd dfu_lte \<Rightarrow> bool" where
  "dead_inv t0 data t \<longleftrightarrow> s_ota_busy (dl_ota t) \<and> length (s_ota_buf (dl_ota t)) = MY_OTA_BUFFER_SIZE \<and> ota_dev (dl_ota t) = ota_dev (dl_ota t0) \<and>
     (s_ota_buf_offset (dl_ota t) = 0 \<or> s_ota_buf_offset (dl_ota t) = 1024) \<and> s_dfu_crc t = my_crc32_update my_crc32_init data \<and> same_params t0 t"

lemma dead_flush:
  assumes "\<forall>d a bs. fl_write env d a bs = (-EIO, d)" "s_ota_buf_offset s = 1024 \<or> l"
  shows "fst (my_ota_flash_flush env s l) \<noteq> 0" "ota_dev (snd (my_ota_flash_flush env s l)) = ota_dev s"
    "s_ota_buf_offset (snd (my_ota_flash_flush env s l)) = s_ota_buf_offset s"
  using assms by (auto simp: my_ota_flash_flush_def my_ota_flash_write_def Let_def)

lemma dead_write:
  assumes dead: "\<forall>d a bs. fl_write env d a bs = (-EIO, d)" and i: "dead_inv t0 data t" and c: "length c = MY_YMODEM_STX_SIZE"
  shows "\<exists>q t'. dfu_lte_save_write env c t = (q, t') \<and> q \<noteq> 0 \<and> dead_inv t0 (data @ c) t'"
proof -
  let ?s = "dl_ota t" and ?t1 = "t\<lparr>s_dfu_crc := my_crc32_update (s_dfu_crc t) c, dl_delivered := dl_delivered t @ c\<rparr>"
  have n: "unat (1024 :: u32) = 1024" "of_nat (length c) = (1024 :: u32)" using c by simp_all
  have "\<exists>q l s'. my_ota_flash_write_block env ?s (Some c) 1024 = Some (q, l, s') \<and> q \<noteq> 0 \<and> s_ota_busy s' \<and>
      length (s_ota_buf s') = MY_OTA_BUFFER_SIZE \<and> ota_dev s' = ota_dev ?s \<and> s_ota_buf_offset s' = 1024"
  proof (cases "s_ota_buf_offset ?s = 1024")
    case True
    then show ?thesis using i by (simp add: dead_inv_def my_ota_flash_write_block_def)
  next
    case False
    then have z: "s_ota_buf_offset ?s = 0" using i by (simp add: dead_inv_def)
    define s1 where "s1 = ?s\<lparr>s_ota_buf := c, s_ota_buf_offset := 1024, s_ota_total_written := s_ota_total_written ?s + 1024\<rparr>"
    let ?l = "s_ota_file_size ?s \<le> s_ota_total_written ?s + 1024"
    have "my_ota_flash_write_block env ?s (Some c) 1024 = (case my_ota_flash_flush env s1 ?l of (r, s2) \<Rightarrow> Some (r, Some ?l, s2))"
      using i c z by (simp add: dead_inv_def my_ota_flash_write_block_def mem_read_def mem_write_def s1_def Let_def)
    then show ?thesis using dead_flush [OF dead, of s1 ?l] flush_frame(1) [of s1 env ?l] flush_busy [of env s1 ?l] i c
      by (auto simp: case_prod_beta s1_def dead_inv_def)
  qed
  then obtain q l s' where w: "my_ota_flash_write_block env ?s (Some c) 1024 = Some (q, l, s')" "q \<noteq> 0" "s_ota_busy s'"
      "length (s_ota_buf s') = MY_OTA_BUFFER_SIZE" "ota_dev s' = ota_dev ?s" "s_ota_buf_offset s' = 1024" by blast
  have "dfu_lte_save_write env c t = (q, ?t1\<lparr>dl_ota := s'\<rparr>)" using w(1) c by (auto simp: dfu_lte_save_write_def Let_def)
  moreover have "dead_inv t0 (data @ c) (?t1\<lparr>dl_ota := s'\<rparr>)"
    using i w by (simp add: dead_inv_def same_params_def crc32.upd_append)
  ultimately show ?thesis using w(2) by blast
qed

lemma dead_writes:
  assumes "\<forall>d a bs. fl_write env d a bs = (-EIO, d)" "dead_inv t0 data t" "\<forall>c \<in> set cs. length c = MY_YMODEM_STX_SIZE"
  shows "\<exists>t'. refuse_all (dfu_lte_save_write env) cs t = Some t' \<and> dead_inv t0 (data @ concat cs) t'"
  using assms(2,3)
proof (induction cs arbitrary: data t)
  case (Cons c cs)
  then obtain q t1 where "dfu_lte_save_write env c t = (q, t1)" "q \<noteq> 0" "dead_inv t0 (data @ c) t1"
    using dead_write [OF assms(1), of t0 data t c] by auto
  then show ?case using Cons.IH [of "data @ c" t1] Cons.prems(2) by auto
qed simp

lemma dead_close:
  assumes "\<forall>d a bs. fl_write env d a bs = (-EIO, d)" "dead_inv t0 data t"
    and t': "t' = snd (dfu_lte_save_close env True (snd (dfu_lte_save_close env True t)))"
  shows "ota_dev (dl_ota t') = ota_dev (dl_ota t0)" "same_params t0 t'" "s_dfu_crc t' = my_crc32_update my_crc32_init data"
  using assms(2) dead_flush [OF assms(1), of "dl_ota t" True]
  by (auto simp: t' dfu_lte_save_close_def my_ota_flash_close_def dead_inv_def same_params_def case_prod_beta)

lemma full_blocks: "length img mod MY_YMODEM_STX_SIZE = 0 \<Longrightarrow> \<forall>c \<in> set (file_blocks img). length c = MY_YMODEM_STX_SIZE"
proof (induction img rule: file_blocks.induct)
  case (1 xs)
  show ?case
  proof (cases "xs = []")
    case True
    then show ?thesis by (simp add: file_blocks.simps)
  next
    case False
    then have n: "1024 \<le> length xs" using "1.prems" by (cases "length xs < 1024") auto
    then have "length (drop 1024 xs) mod 1024 = 0" using "1.prems" le_mod_geq [of 1024 "length xs"] by simp
    note ih = "1.IH" [OF False this]
    have "file_blocks xs = take 1024 xs # file_blocks (drop 1024 xs)" using False by (subst file_blocks.simps) simp
    moreover have "length (take 1024 xs) = 1024" using n by simp
    ultimately show ?thesis using ih by (metis set_ConsD)
  qed
qed

text \<open>
  C28: an update can report success although nothing was stored. If no write to the flash succeeds, and the
  sender repeats each block it gets no acknowledgement for, then for every image of whole kilobytes that fits the
  slot the update reports success and asks the boot loader for the upgrade, while the slot is still erased: the
  receiver takes the repetition of a refused block for a duplicate, the running CRC32 already
  counts the refused block, and the error of the final flush is dropped.
\<close>

theorem dead_flash_reported_ok:
  assumes "flash_ok env mem" "\<forall>d a bs. fl_write env d a bs = (-EIO, d)"
    and "length (s_ota_buf (dl_ota t)) = MY_OTA_BUFFER_SIZE" "\<not> s_ota_busy (dl_ota t)"
    and "img \<noteq> []" "length img mod MY_YMODEM_STX_SIZE = 0" "length img \<le> 0x8e000" "0 \<notin> set name"
    and "my_dfu_lte_prepare (of_nat (length img)) (my_crc32_final (my_crc32_update my_crc32_init img)) t = (DFU_LTE_OK, t1)"
    and "fst (my_ota_flash_open env (dl_ota t1) (of_nat (length img))) = 0"
    and "lte_ops_ok drv pm" "rx_ok s"
    and "concat (map snd (lte_arrivals s)) = sender_file_frame 2 name (int (length img)) @ resent_frames 1 (file_blocks img) @
      [MY_YMODEM_EOT, MY_YMODEM_EOT] @ sender_end_frame 2"
  shows "\<exists>sys' t'. my_dfu_lte_start drv env True ((pm, s), t1) = Some (DFU_LTE_OK, (sys', t')) \<and> dl_boot_requested t' \<and>
     mem_range (mem (ota_dev (dl_ota t'))) 0x9c000 (length img) = replicate (length img) 0xFF"
proof -
  let ?n = "length img" and ?io = "dfu_lte_io drv env"
  have u: "unat (of_nat ?n :: u32) = ?n" "of_nat ?n \<noteq> (0 :: u32)" using assms(5,7) by (auto simp: unat_of_nat simp flip: unat_eq_0)
  have n: "1024 \<le> ?n" using assms(5,6) by (cases "?n < 1024") auto
  have prep: "t1 = t\<lparr>dl_ota := (dl_ota t)\<lparr>s_ota_busy := True\<rparr>, s_dfu_total_size := of_nat ?n,
      s_dfu_expect_crc := my_crc32_final (my_crc32_update my_crc32_init img), s_dfu_crc := my_crc32_init, s_dfu_size_mismatch := False, dl_delivered := []\<rparr>"
    using assms(4,9) by (auto simp: my_dfu_lte_prepare_def my_ota_flash_occupy_def split: if_splits)
  obtain s1 where o: "my_ota_flash_open env (dl_ota t1) (of_nat ?n) = (0, s1)" using fst_eq_ex [OF assms(10)] by blast
  define t2 where "t2 = t1\<lparr>dl_ota := s1\<rparr>"
  have so: "dfu_lte_save_open env (take 99 name) (int ?n) t1 = (0, t2)" using o assms(5) by (simp add: dfu_lte_save_open_def prep t2_def)
  obtain d' where s1: "s1 = (dl_ota t1)\<lparr>ota_dev := d', s_ota_buf_offset := 0, s_ota_block_addr := 0, s_ota_total_written := 0,
      s_ota_file_size := of_nat ?n, s_ota_buf := replicate MY_OTA_BUFFER_SIZE 0xFF\<rparr>"
    and er: "my_ota_flash_erase env (ota_dev (dl_ota t1)) 0 (of_nat ?n) = (0, d')"
    using o u assms(7) by (cases "my_ota_flash_erase env (ota_dev (dl_ota t1)) 0 (of_nat ?n)")
      (auto simp: my_ota_flash_open_def word_less_nat_alt prep split: if_splits)
  have d': "mem_range (mem d') 0x9c000 ?n = replicate ?n 0xFF"
    using my_ota_flash_erase_outside [OF assms(1) _ er] u assms(7) by simp
  have i2: "dead_inv t2 [] t2" using s1 by (simp add: dead_inv_def t2_def prep)
  obtain t3 where t3: "refuse_all (dfu_lte_save_write env) (file_blocks img) t2 = Some t3" "dead_inv t2 img t3"
    using dead_writes [OF assms(2) i2 full_blocks [OF assms(6)]] by (auto simp: concat_file_blocks)
  define w1 where "w1 = purge_world ((pm, s), t1)"
  have w1: "lte_live drv w1" "lte_rx w1 = concat (map snd (lte_arrivals s))" "snd w1 = t1"
    using purge_spec [OF assms(12)] assms(11) by (simp_all add: w1_def purge_world_def lte_live_def lte_rx_def)
  have n31: "int ?n < 2 ^ 31" "2 \<le> get_send_retry ?io" using assms(7) by (simp_all add: get_send_retry_def dfu_lte_io_def)
  obtain ym where r: "my_ymodem_receive ?io (my_ymodem_init True (Some ?io) w1) None = Some (0, Some ym)"
    "snd (ym_world ym) = snd (dfu_lte_save_close env True (snd (dfu_lte_save_close env True t3)))"
    using lte.refused_session [OF w1(1) w1(2) [unfolded assms(13)] assms(8) n n31(1) _ full_blocks [OF assms(6)] t3(1) n31(2)] so w1(3) by auto
  note cl = dead_close [OF assms(2) t3(2) r(2)]
  obtain ym0 where i: "my_ymodem_init True (Some ?io) w1 = Some ym0" by (simp add: my_ymodem_init_def)
  obtain sys' where pw: "purge_world (ym_world ym) = (sys', snd (ym_world ym))" by (metis prod.collapse snd_purge_world)
  define t' where "t' = (snd (ym_world ym))\<lparr>dl_boot_requested := True, dl_ota := my_ota_flash_schedule_reset (dl_ota (snd (ym_world ym))) 6500\<rparr>"
  have "dfu_lte_finish env 0 (snd (ym_world ym)) = (DFU_LTE_OK, t')"
    using cl(2,3) by (simp add: dfu_lte_finish_def t'_def same_params_def t2_def prep)
  then have "my_dfu_lte_start drv env True ((pm, s), t1) = Some (DFU_LTE_OK, (sys', t'))"
    using r(1) i pw by (simp add: my_dfu_lte_start_def w1_def [symmetric] Let_def)
  moreover have "ota_dev (dl_ota t') = d'" using cl(1) s1 by (simp add: t'_def my_ota_flash_schedule_reset_def t2_def)
  ultimately show ?thesis using d' by (auto simp: t'_def)
qed

text \<open>A RAM flash that can be erased and read but not written.\<close>

definition dead_ota_env :: "(nat \<Rightarrow> u8) ota_env" where
  "dead_ota_env = ram_ota_env\<lparr>fl_write := \<lambda>d a bs. (-EIO, d)\<rparr>"

lemma dead_ota_env_ok: "flash_ok dead_ota_env (\<lambda>d. d)" "\<forall>d a bs. fl_write dead_ota_env d a bs = (-EIO, d)"
  by (auto simp: flash_ok_def dead_ota_env_def ram_ota_env_def ram_flash_def flash_ops.defs)

theorem dead_flash_reported_ok_witness:
  "\<exists>t1. my_dfu_lte_prepare 1024 (my_crc32_final (my_crc32_update my_crc32_init (replicate 1024 7))) ram_dfu_lte = (DFU_LTE_OK, t1) \<and>
     (\<exists>sys' t'. my_dfu_lte_start ideal_uart dead_ota_env True
          ((ideal_pm, ideal_lte\<lparr>lte_arrivals := bytewise (sender_file_frame 2 [97] 1024 @ resent_frames 1 (file_blocks (replicate 1024 7)) @
             [MY_YMODEM_EOT, MY_YMODEM_EOT] @ sender_end_frame 2)\<rparr>), t1) = Some (DFU_LTE_OK, (sys', t')) \<and>
        dl_boot_requested t' \<and> mem_range (ota_dev (dl_ota t')) 0x9c000 1024 = replicate 1024 0xFF)"
proof -
  define img :: bytes where "img = replicate 1024 7"
  have l: "length img = 1024" by (simp add: img_def)
  define s where "s = ideal_lte\<lparr>lte_arrivals := bytewise (sender_file_frame 2 [97] (int (length img)) @ resent_frames 1 (file_blocks img) @
             [MY_YMODEM_EOT, MY_YMODEM_EOT] @ sender_end_frame 2)\<rparr>"
  have img: "img \<noteq> []" "length img mod MY_YMODEM_STX_SIZE = 0" "length img \<le> 0x8e000" "0 \<notin> set ([97] :: bytes)" using l by auto
  have n: "of_nat (length img) = (1024 :: u32)" "int (length img) = 1024" by (simp_all add: l)
  have rx: "rx_ok s" "concat (map snd (lte_arrivals s)) = sender_file_frame 2 [97] (int (length img)) @ resent_frames 1 (file_blocks img) @
             [MY_YMODEM_EOT, MY_YMODEM_EOT] @ sender_end_frame 2"
    by (simp_all add: s_def bytewise_ok del: append_Cons append_Nil)
  have "fst (my_dfu_lte_prepare 1024 c ram_dfu_lte) = DFU_LTE_OK" for c
    using ram_dfu_lte_free(1) by (simp add: my_dfu_lte_prepare_def my_ota_flash_occupy_def)
  then obtain t1 where p: "my_dfu_lte_prepare 1024 (my_crc32_final (my_crc32_update my_crc32_init img)) ram_dfu_lte = (DFU_LTE_OK, t1)"
    by (metis prod.collapse)
  have b: "s_ota_busy (dl_ota t1)" using p ram_dfu_lte_free(1) by (auto simp: my_dfu_lte_prepare_def my_ota_flash_occupy_def)
  have o: "fst (my_ota_flash_open dead_ota_env (dl_ota t1) 1024) = 0"
    using b by (simp add: my_ota_flash_open_def my_ota_flash_erase_def erase_loop.simps dead_ota_env_def ram_ota_env_def ram_flash_def flash_ops.defs)
  show ?thesis
    using p dead_flash_reported_ok [OF dead_ota_env_ok ram_dfu_lte_free(2,1) img _ _ ideal_pm_ok rx, unfolded n(1), OF p o]
    unfolding s_def l of_nat_numeral unfolding img_def by blast
qed

section \<open>The first frame cannot be repeated\<close>

context orderly_line
begin

lemma repeated_info_frame:
  assumes w: "live (ym_world ym)" "rx (ym_world ym) = sender_file_frame 2 name (int n) @ input"
    and ym: "ym_frame ym = MY_YMODEM_SOH # f" "length f = FRAME_BUF_SIZE - 1"
  shows "\<exists>ym'. receiver_process_first_frame io ym 2 = Some (MY_YMODEM_ERR_SEQ, ym') \<and> live (ym_world ym') \<and> tgt (ym_world ym') = tgt (ym_world ym)"
proof -
  let ?F = "sender_file_frame 2 name (int n)"
  have F: "length ?F = 133" "?F = MY_YMODEM_SOH # 0 # drop 2 ?F"
    by (simp_all add: sender_file_frame_of frame_of_def length_file_info_data length_check_field)
  let ?xs = "take 132 ?F"
  have xs: "length ?xs = 132" "?xs = MY_YMODEM_SOH # 0 # drop 2 ?xs" using F(1) by simp (subst F(2), simp add: drop_take)
  have "rx (ym_world ym) = ?xs @ (drop 132 ?F @ input)" using w(2) by (metis append.assoc append_take_drop_id)
  then obtain w1 where t: "recv_data io 1 132 (get_recv_timeout io) ym = (132, ym\<lparr>ym_frame := MY_YMODEM_SOH # ?xs @ drop 132 f, ym_world := w1\<rparr>)"
    "live w1" "tgt w1 = tgt (ym_world ym)"
    using recv_tail [OF w(1), of ?xs "drop 132 ?F @ input" MY_YMODEM_SOH f] ym xs(1) by auto
  define ym1 where "ym1 = ym\<lparr>ym_frame := MY_YMODEM_SOH # ?xs @ drop 132 f, ym_world := w1\<rparr>"
  have fr: "ym_frame ym1 = MY_YMODEM_SOH # (MY_YMODEM_SOH # 0 # drop 2 ?xs) @ drop 132 f" unfolding ym1_def xs(2) [symmetric] by simp
  have v: "receiver_verify_frame ym1 128 2 = MY_YMODEM_ERR_SEQ" unfolding receiver_verify_frame_def fr by simp
  obtain g where g: "io_flush io = Some g" "\<And>w. live w \<Longrightarrow> live (g w) \<and> tgt (g w) = tgt w" using flush_law by blast
  have "receiver_process_first_frame io ym 2 = nak_and_return io MY_YMODEM_ERR_SEQ ym1"
    using ym(1) t(1) v by (simp add: receiver_process_first_frame_def head_data_size_def Let_def ym1_def [symmetric])
  then show ?thesis using g t(2,3) by (auto simp: nak_and_return_def port_flush_def send_byte_world ym1_def)
qed

end

text \<open>
  A file information frame that arrives damaged cannot be repaired by sending it again. When the check of
  the first frame has failed, the receiver asks for a repetition and then reads the repeated frame as if its head byte
  were already there, so that even a correct repetition is refused as out of sequence; the file is not opened.
\<close>

lemma first_frame_retry_rejected:
  assumes "lte_ops_ok drv pm" "rx_ok s" "rx_stream s = sender_file_frame 2 name (int n) @ after"
    and "ym_world ym = ((pm, s), t)" "ym_frame ym = MY_YMODEM_SOH # f" "length f = FRAME_BUF_SIZE - 1"
  shows "\<exists>ym' sys'. receiver_process_first_frame (dfu_lte_io drv env) ym 2 = Some (MY_YMODEM_ERR_SEQ, ym') \<and> ym_world ym' = (sys', t)"
proof -
  have "lte_live drv (ym_world ym)" "lte_rx (ym_world ym) = sender_file_frame 2 name (int n) @ after"
    using assms(1-4) by (simp_all add: lte_live_def lte_rx_def)
  then obtain ym' where "receiver_process_first_frame (dfu_lte_io drv env) ym 2 = Some (MY_YMODEM_ERR_SEQ, ym')" "snd (ym_world ym') = t"
    using lte.repeated_info_frame [of drv ym name n after f env] assms(4-6) by auto
  then show ?thesis by (metis prod.collapse)
qed

end
