(* ===== verification/Sensor_Upload.thy ===== *)
theory Sensor_Upload
  imports Upload Lte_Uart
begin

text \<open>
  Model of the sensor part of \<^verbatim>\<open>src/my_ble_scan.c\<close>: samples of temperature, humidity and pressure are sent at
  once when the LTE module is ready and stored (\<^verbatim>\<open>Flash_Store\<close>) otherwise; stored records are sent later in
  a session of text packets, each acknowledged by the module. Also \<open>lte_send_command\<close> of \<^verbatim>\<open>src/my_cmd_setting.c\<close>,
  which hands a text command to the LTE thread. The build has \<^verbatim>\<open>RETRANSMIT_CHECK_ENABLED = 0\<close>.

  A record in the store is the memory image of the C structure. Whether the
  allocations succeed is a script of the state; an exhausted script means success.
\<close>

section \<open>State\<close>

datatype sensor_upload_state = SENSOR_UPLOAD_STATE_IDLE | SENSOR_UPLOAD_STATE_TH_WAIT_ACK | SENSOR_UPLOAD_STATE_BP_WAIT_ACK
  | SENSOR_UPLOAD_STATE_CDATA_WAIT_START_ACK | SENSOR_UPLOAD_STATE_CDATA_WAIT_DATA_ACK | SENSOR_UPLOAD_STATE_CDATA_WAIT_END_ACK

datatype upload_state = UPLOAD_STATE_IDLE | UPLOAD_STATE_TAG_START | UPLOAD_STATE_TAG_END | UPLOAD_STATE_MAC_START | UPLOAD_STATE_MAC_END

datatype scan_state = SCAN_STATE_IDLE | SCAN_STATE_SCANNING | SCAN_STATE_WAITING_UPLOAD

text \<open>The answers of the module this code distinguishes.\<close>

datatype ble_rsp = BLE_RSP_TH | BLE_RSP_BP | BLE_RSP_CDATA | BLE_RSP_other

text \<open>
  \<^verbatim>\<open>s_sensor_upload_ctx\<close>, the statics of the tag and MAC upload, the record store, and the
  shared LTE state; the messages posted to the LTE thread are collected.
\<close>

record 'd scan =
  su_state :: sensor_upload_state
  su_upload_type :: nat
  su_total_packets :: u16
  su_next_seq :: u16
  s_tag_macinfo_seq :: u16
  s_tag_macinfo_upload_state :: upload_state
  s_flash_consumed :: u16
  s_rt_count_snap :: u16
  scan_cfg_state :: scan_state
  s_result_table :: "bytes list"
  s_tran_mac_result_table :: "bytes list"
  sc_store :: "'d fs_store"
  sc_lte_ready :: bool
  sc_lte_power :: bool
  temp_wakeup_cell :: bool
  patm_wakeup_cell :: bool
  boot_reason_scan :: bool
  sc_alloc :: "bool list"
  sc_posted :: "lte_msg list"

abbreviation (input) SENSOR_CDATA_PARAM_MAX_LEN :: nat where "SENSOR_CDATA_PARAM_MAX_LEN \<equiv> 1012"
abbreviation (input) SENSOR_CDATA_PREFIX_RESERVED_LEN :: nat where "SENSOR_CDATA_PREFIX_RESERVED_LEN \<equiv> 24"

section \<open>Commands to the LTE module\<close>

text \<open>
  Messages to the LTE thread are taken to be posted: the queue of that thread has room for them. The code does not look at
  the result of the posting, so a message to a full queue would be dropped without a trace.
\<close>

definition sc_post :: "lte_msg \<Rightarrow> 'd scan \<Rightarrow> 'd scan" where
  "sc_post m s = s\<lparr>sc_posted := sc_posted s @ [m]\<rparr>"

definition lte_command_text :: "bytes \<Rightarrow> bytes \<Rightarrow> bytes" where
  "lte_command_text cmd_name param =
     take (length cmd_name + length param + 16 - 1)
       (if param \<noteq> [] then ascii ''BLE+'' @ cmd_name @ ascii ''='' @ param @ [13, 10]
        else ascii ''BLE+'' @ cmd_name @ [13, 10])"

definition lte_send_command :: "bytes \<Rightarrow> bytes \<Rightarrow> 'd scan \<Rightarrow> int \<times> 'd scan" where
  "lte_send_command cmd_name param s =
     (let s1 = (if sc_lte_power s then s else sc_post MY_MSG_LTE_PWRON s)
      in case sc_alloc s1 of
           False # as \<Rightarrow> (-1, s1\<lparr>sc_alloc := as\<rparr>)
         | as \<Rightarrow>
             let msg = lte_command_text cmd_name param
             in (0, sc_post (MY_MSG_LTE_BLE_DATA (Some msg) (length msg)) (s1\<lparr>sc_alloc := tl as\<rparr>)))"

section \<open>Packets of stored records\<close>

definition sensor_cdata_record_max_text_len_get :: "nat \<Rightarrow> nat" where
  "sensor_cdata_record_max_text_len_get type = (if type = FS_TYPE_TH then 25 else if type = FS_TYPE_BP then 22 else 0)"

definition sensor_cdata_max_records_per_packet :: "nat \<Rightarrow> nat" where
  "sensor_cdata_max_records_per_packet type =
     (if sensor_cdata_record_max_text_len_get type = 0 then 0
      else (SENSOR_CDATA_PARAM_MAX_LEN - SENSOR_CDATA_PREFIX_RESERVED_LEN - 1) div sensor_cdata_record_max_text_len_get type)"

definition sensor_cdata_type_get :: "nat \<Rightarrow> nat" where
  "sensor_cdata_type_get type = (if type = FS_TYPE_TH then 1 else if type = FS_TYPE_BP then 2 else 0)"

definition sensor_upload_busy :: "'d scan \<Rightarrow> bool" where
  "sensor_upload_busy s \<longleftrightarrow> su_state s \<noteq> SENSOR_UPLOAD_STATE_IDLE"

definition cdata_state :: "sensor_upload_state \<Rightarrow> bool" where
  "cdata_state st \<longleftrightarrow> st = SENSOR_UPLOAD_STATE_CDATA_WAIT_START_ACK \<or> st = SENSOR_UPLOAD_STATE_CDATA_WAIT_DATA_ACK \<or>
     st = SENSOR_UPLOAD_STATE_CDATA_WAIT_END_ACK"

definition sensor_upload_reset :: "bool \<Rightarrow> 'd scan \<Rightarrow> 'd scan" where
  "sensor_upload_reset rewind_flash s =
     (let s1 = (if rewind_flash \<and> (su_upload_type s = FS_TYPE_TH \<or> su_upload_type s = FS_TYPE_BP) \<and> cdata_state (su_state s)
                then s\<lparr>sc_store := my_flash_store_rewind (sc_store s) (su_upload_type s)\<rparr> else s)
      in s1\<lparr>su_state := SENSOR_UPLOAD_STATE_IDLE, su_upload_type := FS_TYPE_MAX, su_total_packets := 0, su_next_seq := 0\<rparr>)"

text \<open>The fields of the two records: timestamp, temperature and humidity; timestamp and pressure.\<close>

definition th_params :: "bytes \<Rightarrow> bytes" where
  "th_params r = decimal_digits (unat (of_le32 (r ! 0) (r ! 1) (r ! 2) (r ! 3))) @ ascii '','' @
     print_int (sint (of_le16 (r ! 4) (r ! 5))) @ ascii '','' @ decimal_digits (unat (of_le16 (r ! 6) (r ! 7)))"

definition bp_params :: "bytes \<Rightarrow> bytes" where
  "bp_params r = decimal_digits (unat (of_le32 (r ! 0) (r ! 1) (r ! 2) (r ! 3))) @ ascii '','' @
     decimal_digits (unat (of_le32 (r ! 4) (r ! 5) (r ! 6) (r ! 7)))"

definition record_text :: "nat \<Rightarrow> bytes \<Rightarrow> bytes" where
  "record_text type r = ascii '','' @ (if type = FS_TYPE_TH then th_params r else bp_params r)"

text \<open>Collect record texts until the packet is full or no record is left; \<open>None\<close> if a text does not fit.\<close>

function cdata_fill :: "'d store_env \<Rightarrow> nat \<Rightarrow> nat \<Rightarrow> bytes \<Rightarrow> 'd fs_store \<Rightarrow> (nat \<times> bytes) option \<times> 'd fs_store" where
  "cdata_fill env type data_sum text st =
     (if data_sum < sensor_cdata_max_records_per_packet type \<and>
         SENSOR_CDATA_PREFIX_RESERVED_LEN + length text + sensor_cdata_record_max_text_len_get type + 1 \<le> SENSOR_CDATA_PARAM_MAX_LEN
      then case my_flash_store_read_next env st (if type = FS_TYPE_TH then FS_TYPE_TH else FS_TYPE_BP) of (ret, r, st') \<Rightarrow>
        if ret \<le> 0 then (Some (data_sum, text), st')
        else if length (record_text type r) \<ge> SENSOR_CDATA_PARAM_MAX_LEN - (SENSOR_CDATA_PREFIX_RESERVED_LEN + length text) then (None, st')
        else cdata_fill env type (data_sum + 1) (text @ record_text type r) st'
      else (Some (data_sum, text), st))"
  by pat_completeness auto
termination
  by (relation "measure (\<lambda>(env, type, n, text, st). sensor_cdata_max_records_per_packet type - n)") auto

declare cdata_fill.simps [simp del]

definition cdata_prefix :: "u16 \<Rightarrow> nat \<Rightarrow> bytes" where
  "cdata_prefix seq data_sum = decimal_digits (unat seq) @ ascii '','' @ decimal_digits data_sum"

definition sensor_cdata_send_next_packet :: "'d store_env \<Rightarrow> 'd scan \<Rightarrow> int \<times> 'd scan" where
  "sensor_cdata_send_next_packet env s =
     (let type = su_upload_type s
      in if sensor_cdata_max_records_per_packet type = 0 \<or> sensor_cdata_record_max_text_len_get type = 0 then (-EINVAL, s)
         else case cdata_fill env type 0 [] (sc_store s) of
           (None, st') \<Rightarrow> (-ENOMEM, s\<lparr>sc_store := st'\<rparr>)
         | (Some (data_sum, text), st') \<Rightarrow>
             let s1 = s\<lparr>sc_store := st'\<rparr>; prefix = cdata_prefix (su_next_seq s) data_sum
             in if data_sum = 0 then (-EINVAL, s1)
                else if length prefix \<ge> SENSOR_CDATA_PREFIX_RESERVED_LEN then (-ENOMEM, s1)
                else if length prefix + length text + 1 > SENSOR_CDATA_PARAM_MAX_LEN then (-ENOMEM, s1)
                else case lte_send_command (ascii ''CDATA'') (prefix @ text) s1 of (ret, s2) \<Rightarrow>
                  (ret, if ret = 0 then s2\<lparr>su_state := SENSOR_UPLOAD_STATE_CDATA_WAIT_DATA_ACK\<rparr> else s2))"

definition sensor_cached_upload_try_start :: "'d scan \<Rightarrow> 'd scan" where
  "sensor_cached_upload_try_start s =
     (if sensor_upload_busy s \<or> s_tag_macinfo_upload_state s \<noteq> UPLOAD_STATE_IDLE then s
      else
        let upload_type = (if my_flash_store_pending_count (sc_store s) FS_TYPE_TH > 0 then FS_TYPE_TH
                           else if my_flash_store_pending_count (sc_store s) FS_TYPE_BP > 0 then FS_TYPE_BP else FS_TYPE_MAX)
        in if upload_type = FS_TYPE_MAX \<or> \<not> sc_lte_ready s then s
           else
             let pending = my_flash_store_pending_count (sc_store s) upload_type;
                 per_packet = sensor_cdata_max_records_per_packet upload_type
             in if pending = 0 \<or> per_packet = 0 then s
                else
                  let total = of_nat ((pending + per_packet - 1) div per_packet) :: u16;
                      s1 = s\<lparr>sc_store := my_flash_store_upload_begin (sc_store s) upload_type, su_upload_type := upload_type,
                             su_total_packets := total, su_next_seq := 1, su_state := SENSOR_UPLOAD_STATE_CDATA_WAIT_START_ACK\<rparr>
                  in case lte_send_command (ascii ''CDATA'')
                         (ascii ''START,'' @ decimal_digits (sensor_cdata_type_get upload_type) @ ascii '','' @ decimal_digits (unat total)) s1 of
                       (ret, s2) \<Rightarrow> if ret \<noteq> 0 then sensor_upload_reset True s2 else s2)"

section \<open>Samples\<close>

definition sensor_realtime_upload_start :: "bytes \<Rightarrow> nat \<Rightarrow> bytes \<Rightarrow> 'd scan \<Rightarrow> int \<times> 'd scan" where
  "sensor_realtime_upload_start cmd_name upload_type param s =
     (if \<not> sc_lte_ready s \<or> sensor_upload_busy s \<or> s_tag_macinfo_upload_state s \<noteq> UPLOAD_STATE_IDLE then (-EBUSY, s)
      else
        let s1 = s\<lparr>su_upload_type := upload_type,
                   su_state := (if upload_type = FS_TYPE_TH then SENSOR_UPLOAD_STATE_TH_WAIT_ACK else SENSOR_UPLOAD_STATE_BP_WAIT_ACK)\<rparr>
        in case lte_send_command cmd_name param s1 of (ret, s2) \<Rightarrow>
             (ret, if ret \<noteq> 0 then sensor_upload_reset False s2 else s2))"

definition store_and_wake :: "('d fs_store \<Rightarrow> (int \<times> 'd fs_store) option) \<Rightarrow> bool \<Rightarrow> 'd scan \<Rightarrow> 'd scan option" where
  "store_and_wake push wakeup_cell s =
     (case push (sc_store s) of
        None \<Rightarrow> None
      | Some (_, st') \<Rightarrow>
          let s1 = s\<lparr>sc_store := st'\<rparr>
          in Some (if \<not> sc_lte_ready s1 \<and> wakeup_cell then sc_post MY_MSG_LTE_PWRON (s1\<lparr>boot_reason_scan := True\<rparr>) else s1))"

definition sensor_process_temp_humi_sample :: "'d store_env \<Rightarrow> bytes option \<Rightarrow> 'd scan \<Rightarrow> 'd scan option" where
  "sensor_process_temp_humi_sample env rec s =
     (case rec of
        None \<Rightarrow> Some s
      | Some r \<Rightarrow>
          let (ret, s1) = (if sc_lte_ready s then sensor_realtime_upload_start (ascii ''TH'') FS_TYPE_TH (th_params r) s else (-1, s))
          in if ret = 0 then Some s1
             else store_and_wake (\<lambda>st. my_flash_store_push_th env st (Some r)) (temp_wakeup_cell s1) s1)"

definition sensor_process_barometer_sample :: "'d store_env \<Rightarrow> bytes option \<Rightarrow> 'd scan \<Rightarrow> 'd scan option" where
  "sensor_process_barometer_sample env rec s =
     (case rec of
        None \<Rightarrow> Some s
      | Some r \<Rightarrow>
          let (ret, s1) = (if sc_lte_ready s then sensor_realtime_upload_start (ascii ''BP'') FS_TYPE_BP (bp_params r) s else (-1, s))
          in if ret = 0 then Some s1
             else store_and_wake (\<lambda>st. my_flash_store_push_bp env st (Some r)) (patm_wakeup_cell s1) s1)"

section \<open>Acknowledgements\<close>

definition sensor_handle_lte_ack :: "'d store_env \<Rightarrow> ble_rsp option \<Rightarrow> 'd scan \<Rightarrow> 'd scan" where
  "sensor_handle_lte_ack env rsp s =
     (case rsp of
        Some BLE_RSP_CDATA \<Rightarrow>
          (case su_state s of
             SENSOR_UPLOAD_STATE_CDATA_WAIT_START_ACK \<Rightarrow>
               (case sensor_cdata_send_next_packet env s of (ret, s1) \<Rightarrow> if ret \<noteq> 0 then sensor_upload_reset True s1 else s1)
           | SENSOR_UPLOAD_STATE_CDATA_WAIT_DATA_ACK \<Rightarrow>
               if su_next_seq s < su_total_packets s
               then (case sensor_cdata_send_next_packet env (s\<lparr>su_next_seq := su_next_seq s + 1\<rparr>) of
                       (ret, s1) \<Rightarrow> if ret \<noteq> 0 then sensor_upload_reset True s1 else s1)
               else (case lte_send_command (ascii ''CDATA'') (ascii ''END'') s of (ret, s1) \<Rightarrow>
                       if ret \<noteq> 0 then sensor_upload_reset True s1
                       else s1\<lparr>su_state := SENSOR_UPLOAD_STATE_CDATA_WAIT_END_ACK\<rparr>)
           | SENSOR_UPLOAD_STATE_CDATA_WAIT_END_ACK \<Rightarrow>
               sensor_cached_upload_try_start (sensor_upload_reset False
                 (s\<lparr>sc_store := snd (my_flash_store_commit env (sc_store s) (su_upload_type s))\<rparr>))
           | _ \<Rightarrow> s)
      | Some BLE_RSP_TH \<Rightarrow>
          if su_state s = SENSOR_UPLOAD_STATE_TH_WAIT_ACK then sensor_cached_upload_try_start (sensor_upload_reset False s) else s
      | Some BLE_RSP_BP \<Rightarrow>
          if su_state s = SENSOR_UPLOAD_STATE_BP_WAIT_ACK then sensor_cached_upload_try_start (sensor_upload_reset False s) else s
      | _ \<Rightarrow> s)"

section \<open>One packet\<close>

definition sensor_type :: "nat \<Rightarrow> bool" where
  "sensor_type t \<longleftrightarrow> t = FS_TYPE_TH \<or> t = FS_TYPE_BP"

abbreviation (input) per_packet :: "nat \<Rightarrow> nat" where "per_packet \<equiv> sensor_cdata_max_records_per_packet"

lemma sensor_type_sizes:
  assumes "sensor_type t"
  shows "0 < per_packet t" "0 < sensor_cdata_record_max_text_len_get t"
    "per_packet t * sensor_cdata_record_max_text_len_get t \<le> 987" "per_packet t \<le> 99" "(if t = FS_TYPE_TH then FS_TYPE_TH else FS_TYPE_BP) = t"
  using assms by (auto simp: sensor_type_def sensor_cdata_max_records_per_packet_def sensor_cdata_record_max_text_len_get_def)

lemma length_record_text: "sensor_type t \<Longrightarrow> length (record_text t r) \<le> sensor_cdata_record_max_text_len_get t"
  using length_decimal_u32 [of "of_le32 (r ! 0) (r ! 1) (r ! 2) (r ! 3)"] length_decimal_u32 [of "of_le32 (r ! 4) (r ! 5) (r ! 6) (r ! 7)"]
    length_decimal_u16 [of "of_le16 (r ! 6) (r ! 7)"] length_print_i16 [of "of_le16 (r ! 4) (r ! 5)"]
  by (auto simp: sensor_type_def sensor_cdata_record_max_text_len_get_def record_text_def th_params_def bp_params_def)

lemma fs_scan_flash_ret: "fs_scan_flash env d rg n = (Some (r, data), rg') \<Longrightarrow> r \<le> 1"
proof (induction env d rg n rule: fs_scan_flash.induct)
  case (1 env d rg n)
  then show ?case by (subst (asm) (2) fs_scan_flash.simps) (auto simp: Let_def split: if_splits prod.splits)
qed

lemma read_next_ret: "my_flash_store_read_next env st t = (ret, data, st') \<Longrightarrow> ret \<le> 1"
  using fs_scan_flash_ret
  by (fastforce simp: my_flash_store_read_next_def fs_region_read_next_def Let_def split: option.splits if_splits prod.splits)

text \<open>Reading the next record, in the terms of the store's contract.\<close>

lemma read_next_step:
  assumes "us_active t (env, mem, st)" "my_flash_store_read_next env st t = (ret, r, st')"
  shows "us_active t (env, mem, st') \<and> us_pending t (env, mem, st') = us_pending t (env, mem, st) \<and>
    us_limit t (env, mem, st') = us_limit t (env, mem, st) \<and>
    (if us_position t (env, mem, st) < us_limit t (env, mem, st)
     then ret = 1 \<and> r = us_pending t (env, mem, st) ! us_position t (env, mem, st) \<and> us_position t (env, mem, st') = Suc (us_position t (env, mem, st))
     else ret \<le> 0 \<and> us_position t (env, mem, st') = us_position t (env, mem, st))"
proof -
  have "us_next t (env, mem, st) = (if ret = 1 then Some r else None, (env, mem, st'))" using assms(2) by (simp add: us_next_def)
  then show ?thesis using store.nxt_law [OF assms(1), of "if ret = 1 then Some r else None" "(env, mem, st')"] read_next_ret [OF assms(2)]
    by (auto split: if_splits)
qed

lemma cdata_fill_spec:
  assumes "sensor_type t" "us_active t (env, mem, st)" "n \<le> per_packet t" "length text \<le> n * sensor_cdata_record_max_text_len_get t"
  defines "k \<equiv> min (per_packet t - n) (us_limit t (env, mem, st) - us_position t (env, mem, st))"
  shows "\<exists>st'. cdata_fill env t n text st =
      (Some (n + k, text @ concat (map (record_text t) (take k (drop (us_position t (env, mem, st)) (us_pending t (env, mem, st)))))), st') \<and>
     us_active t (env, mem, st') \<and> us_pending t (env, mem, st') = us_pending t (env, mem, st) \<and>
     us_limit t (env, mem, st') = us_limit t (env, mem, st) \<and> us_position t (env, mem, st') = us_position t (env, mem, st) + k"
  using assms(2-4) unfolding k_def
proof (induction "per_packet t - n" arbitrary: n "text" st rule: less_induct)
  case less
  let ?rl = "sensor_cdata_record_max_text_len_get t" and ?p = "us_position t (env, mem, st)" and ?L = "us_limit t (env, mem, st)"
    and ?ps = "us_pending t (env, mem, st)"
  note sz = sensor_type_sizes [OF assms(1)]
  show ?case
  proof (cases "n < per_packet t")
    case False
    then show ?thesis using less.prems by (subst cdata_fill.simps) simp
  next
    case True
    have "n * ?rl + ?rl \<le> per_packet t * ?rl" using True by (metis Suc_leI add.commute mult_Suc mult_le_mono1)
    then have room: "24 + length text + ?rl + 1 \<le> 1012" using less.prems(3) sz(3) by linarith
    obtain ret r st1 where rd: "my_flash_store_read_next env st t = (ret, r, st1)" using prod_cases3 by blast
    note nx = read_next_step [OF less.prems(1) rd]
    show ?thesis
    proof (cases "?p < ?L")
      case False
      then show ?thesis using nx True room rd sz(5) by (subst cdata_fill.simps) simp
    next
      case pos: True
      let ?t = "text @ record_text t r" and ?k = "min (per_packet t - (n + 1)) (?L - Suc ?p)"
      have r: "ret = 1" "r = ?ps ! ?p" "us_active t (env, mem, st1)" "us_pending t (env, mem, st1) = ?ps" "us_limit t (env, mem, st1) = ?L"
        "us_position t (env, mem, st1) = Suc ?p" using nx pos by simp_all
      have lt: "length (record_text t r) \<le> ?rl" by (rule length_record_text [OF assms(1)])
      then have "\<not> 988 - length text \<le> length (record_text t r)" using room by linarith
      then have step: "cdata_fill env t n text st = cdata_fill env t (n + 1) ?t st1"
        using True room rd r(1) sz(5) by (subst cdata_fill.simps) simp
      have fit: "per_packet t - (n + 1) < per_packet t - n" "n + 1 \<le> per_packet t" "length ?t \<le> (n + 1) * ?rl"
        using True lt less.prems(3) by (simp_all add: add_mult_distrib)
      obtain st' where ih: "cdata_fill env t (n + 1) ?t st1 = (Some (n + 1 + ?k, ?t @ concat (map (record_text t) (take ?k (drop (Suc ?p) ?ps)))), st')"
        "us_active t (env, mem, st')" "us_pending t (env, mem, st') = ?ps" "us_limit t (env, mem, st') = ?L" "us_position t (env, mem, st') = Suc ?p + ?k"
        using less.hyps [OF fit(1) r(3) fit(2,3)] unfolding r(4-6) by blast
      have "min (per_packet t - n) (?L - ?p) = Suc ?k" using True pos by linarith
      moreover have "drop ?p ?ps = r # drop (Suc ?p) ?ps"
        using pos store.active_bound [OF less.prems(1)] r(2) by (simp add: Cons_nth_drop_Suc)
      ultimately show ?thesis using step ih by auto
    qed
  qed
qed

text \<open>The message of packet \<open>i\<close> with the records \<open>chunk\<close>.\<close>

definition cdata_msg :: "bytes \<Rightarrow> lte_msg" where
  "cdata_msg param = MY_MSG_LTE_BLE_DATA (Some (lte_command_text (ascii ''CDATA'') param)) (length (lte_command_text (ascii ''CDATA'') param))"

definition packet_param :: "nat \<Rightarrow> u16 \<Rightarrow> bytes list \<Rightarrow> bytes" where
  "packet_param t seq chunk = cdata_prefix seq (length chunk) @ concat (map (record_text t) chunk)"

lemma send_cdata:
  assumes "sc_lte_power s" "sc_alloc s = []"
  shows "lte_send_command (ascii ''CDATA'') param s = (0, s\<lparr>sc_posted := sc_posted s @ [cdata_msg param]\<rparr>)"
  using assms by (simp add: lte_send_command_def sc_post_def cdata_msg_def Let_def)

lemma length_packet_param:
  assumes "sensor_type t" "length chunk \<le> per_packet t"
  shows "length (cdata_prefix seq (length chunk)) \<le> 8" "length (packet_param t seq chunk) \<le> 995"
proof -
  have "length (decimal_digits (length chunk)) \<le> 2" using assms sensor_type_sizes(4) [OF assms(1)] by (intro length_decimal_digits) simp_all
  then show pr: "length (cdata_prefix seq (length chunk)) \<le> 8" using length_decimal_u16 [of seq] by (simp add: cdata_prefix_def)
  have "length (concat (map (record_text t) chunk)) \<le> length chunk * sensor_cdata_record_max_text_len_get t"
    using length_record_text [OF assms(1)] by (induction chunk) (simp_all add: add_mono)
  also have "\<dots> \<le> per_packet t * sensor_cdata_record_max_text_len_get t" using assms(2) by simp
  finally show "length (packet_param t seq chunk) \<le> 995" using pr sensor_type_sizes(3) [OF assms(1)] by (simp add: packet_param_def)
qed

lemma next_packet:
  assumes t: "sensor_type t" "su_upload_type s = t" and a: "us_active t (env, mem, sc_store s)"
    and rs: "us_limit t (env, mem, sc_store s) = length rs" "take (length rs) (us_pending t (env, mem, sc_store s)) = rs"
    and p: "us_position t (env, mem, sc_store s) = p" "p < length rs"
  defines "chunk \<equiv> take (per_packet t) (drop p rs)"
  obtains st' where "sensor_cdata_send_next_packet env s =
      (case lte_send_command (ascii ''CDATA'') (packet_param t (su_next_seq s) chunk) (s\<lparr>sc_store := st'\<rparr>) of (ret, s2) \<Rightarrow>
         (ret, if ret = 0 then s2\<lparr>su_state := SENSOR_UPLOAD_STATE_CDATA_WAIT_DATA_ACK\<rparr> else s2))"
    "us_active t (env, mem, st')" "us_pending t (env, mem, st') = us_pending t (env, mem, sc_store s)"
    "us_limit t (env, mem, st') = length rs" "us_position t (env, mem, st') = p + length chunk"
proof -
  let ?ps = "us_pending t (env, mem, sc_store s)"
  define k where "k = min (per_packet t) (length rs - p)"
  note sz = sensor_type_sizes [OF t(1)]
  have "drop p rs = take (length rs - p) (drop p ?ps)" using rs(2) by (metis drop_take)
  then have ch: "take k (drop p ?ps) = chunk" by (simp add: chunk_def k_def)
  have len: "length chunk = k" by (simp add: chunk_def k_def min.commute)
  obtain st' where f: "cdata_fill env t 0 [] (sc_store s) = (Some (k, concat (map (record_text t) chunk)), st')"
    "us_active t (env, mem, st')" "us_pending t (env, mem, st') = ?ps" "us_limit t (env, mem, st') = length rs" "us_position t (env, mem, st') = p + k"
    using cdata_fill_spec [OF t(1) a, of 0 "[]"] rs(1) p(1) ch by (auto simp: k_def)
  have "k \<le> per_packet t" by (simp add: k_def)
  then have le: "length (cdata_prefix (su_next_seq s) k) \<le> 8" "length (cdata_prefix (su_next_seq s) k) + length (concat (map (record_text t) chunk)) \<le> 995"
    using length_packet_param [OF t(1), of chunk "su_next_seq s"] len by (simp_all add: packet_param_def)
  have "k \<noteq> 0" using p(2) sz(1) by (simp add: k_def)
  then show thesis using f le sz(1,2) t(2) len
    by (intro that [of st']) (simp_all add: sensor_cdata_send_next_packet_def packet_param_def Let_def)
qed

lemma send_next_packet_spec:
  assumes t: "sensor_type t" "su_upload_type s = t" and a: "us_active t (env, mem, sc_store s)"
    and rs: "us_limit t (env, mem, sc_store s) = length rs" "take (length rs) (us_pending t (env, mem, sc_store s)) = rs"
    and p: "us_position t (env, mem, sc_store s) = p" "p < length rs" and out: "sc_lte_power s" "sc_alloc s = []"
  defines "chunk \<equiv> take (per_packet t) (drop p rs)"
  shows "\<exists>st'. sensor_cdata_send_next_packet env s = (0, s\<lparr>sc_store := st', su_state := SENSOR_UPLOAD_STATE_CDATA_WAIT_DATA_ACK,
        sc_posted := sc_posted s @ [cdata_msg (packet_param t (su_next_seq s) chunk)]\<rparr>) \<and>
     us_active t (env, mem, st') \<and> us_pending t (env, mem, st') = us_pending t (env, mem, sc_store s) \<and>
     us_limit t (env, mem, st') = length rs \<and> us_position t (env, mem, st') = p + length chunk"
proof (rule next_packet [OF t a rs p, folded chunk_def], goal_cases)
  case (1 st')
  then show ?case using out by (intro exI [of _ st']) (simp add: send_cdata)
qed

section \<open>A session\<close>

text \<open>What happens during a session: the module acknowledges, or a new sample comes in.\<close>

datatype sensor_event = Ack | Sample nat bytes

definition sensor_step :: "'d store_env \<Rightarrow> sensor_event \<Rightarrow> 'd scan \<Rightarrow> 'd scan option" where
  "sensor_step env e s =
     (case e of
        Ack \<Rightarrow> Some (sensor_handle_lte_ack env (Some BLE_RSP_CDATA) s)
      | Sample u r \<Rightarrow> if u = FS_TYPE_TH then sensor_process_temp_humi_sample env (Some r) s
                      else sensor_process_barometer_sample env (Some r) s)"

fun sensor_run :: "'d store_env \<Rightarrow> sensor_event list \<Rightarrow> 'd scan \<Rightarrow> 'd scan option" where
  "sensor_run env [] s = Some s"
| "sensor_run env (e # es) s = (case sensor_step env e s of None \<Rightarrow> None | Some s' \<Rightarrow> sensor_run env es s')"

fun event_ok :: "sensor_event \<Rightarrow> bool" where
  "event_ok Ack = True"
| "event_ok (Sample u r) \<longleftrightarrow> sensor_type u \<and> length r = 8"

definition start_param :: "nat \<Rightarrow> nat \<Rightarrow> bytes" where
  "start_param t n = ascii ''START,'' @ decimal_digits (sensor_cdata_type_get t) @ ascii '','' @ decimal_digits n"

definition nth_chunk :: "nat \<Rightarrow> bytes list \<Rightarrow> nat \<Rightarrow> bytes list" where
  "nth_chunk t rs i = take (per_packet t) (drop ((i - 1) * per_packet t) rs)"

definition packet_count :: "nat \<Rightarrow> bytes list \<Rightarrow> nat" where
  "packet_count t rs = (length rs + per_packet t - 1) div per_packet t"

text \<open>The session for the records \<open>rs\<close> of type \<open>t\<close> after \<open>k\<close> acknowledgements.\<close>

definition cdata_session :: "'d store_env \<Rightarrow> ('d \<Rightarrow> nat \<Rightarrow> u8) \<Rightarrow> nat \<Rightarrow> bytes list \<Rightarrow> lte_msg list \<Rightarrow> nat \<Rightarrow> 'd scan \<Rightarrow> bool" where
  "cdata_session env mem t rs base k s \<longleftrightarrow>
     su_upload_type s = t \<and> su_total_packets s = of_nat (packet_count t rs) \<and> sc_alloc s = [] \<and> sc_lte_power s \<and> sc_lte_ready s \<and>
     us_active t (env, mem, sc_store s) \<and> us_limit t (env, mem, sc_store s) = length rs \<and>
     us_position t (env, mem, sc_store s) = min (k * per_packet t) (length rs) \<and> take (length rs) (us_pending t (env, mem, sc_store s)) = rs \<and>
     su_state s = (if k = 0 then SENSOR_UPLOAD_STATE_CDATA_WAIT_START_ACK
       else if k \<le> packet_count t rs then SENSOR_UPLOAD_STATE_CDATA_WAIT_DATA_ACK else SENSOR_UPLOAD_STATE_CDATA_WAIT_END_ACK) \<and>
     su_next_seq s = of_nat (if k = 0 then 1 else min k (packet_count t rs)) \<and>
     sc_posted s = base @ cdata_msg (start_param t (packet_count t rs)) #
       map (\<lambda>i. cdata_msg (packet_param t (of_nat i) (nth_chunk t rs i))) [1..<Suc (min k (packet_count t rs))] @
       (if packet_count t rs < k then [cdata_msg (ascii ''END'')] else [])"

lemma packet_count_bounds:
  assumes "sensor_type t" "rs \<noteq> []"
  shows "0 < packet_count t rs" "length rs \<le> packet_count t rs * per_packet t" "k < packet_count t rs \<Longrightarrow> k * per_packet t < length rs"
proof -
  let ?M = "per_packet t" and ?n = "length rs"
  have M: "0 < ?M" using sensor_type_sizes(1) [OF assms(1)] .
  have n: "0 < ?n" using assms(2) by simp
  have c: "packet_count t rs = Suc ((?n - 1) div ?M)" using M n
    by (metis (no_types, lifting) Suc_eq_plus1 add.commute add_diff_assoc2 div_add_self1 less_iff_Suc_add less_not_refl Suc_leI One_nat_def packet_count_def)
  show "0 < packet_count t rs" using c by simp
  show "?n \<le> packet_count t rs * ?M" using c n M dividend_less_times_div [of ?M "?n - 1"] by (simp add: mult.commute)
  show "k * ?M < ?n" if "k < packet_count t rs"
  proof -
    have "k * ?M \<le> (?n - 1) div ?M * ?M" using that c by simp
    also have "\<dots> \<le> ?n - 1" by simp
    finally show ?thesis using n by linarith
  qed
qed

lemma ack_packet:
  assumes s: "cdata_session env mem t rs base k s" and t: "sensor_type t" "rs \<noteq> []" and k: "k < packet_count t rs" "packet_count t rs < 65536"
  shows "cdata_session env mem t rs base (Suc k) (sensor_handle_lte_ack env (Some BLE_RSP_CDATA) s)"
proof -
  let ?P = "packet_count t rs" and ?M = "per_packet t"
  note pc = packet_count_bounds [OF t]
  define s0 where "s0 = s\<lparr>su_next_seq := of_nat (Suc k)\<rparr>"
  have pos: "us_position t (env, mem, sc_store s0) = k * ?M" "k * ?M < length rs"
    using s pc(3) [OF k(1)] by (auto simp: cdata_session_def s0_def)
  have s0: "su_upload_type s0 = t" "us_active t (env, mem, sc_store s0)" "us_limit t (env, mem, sc_store s0) = length rs"
    "take (length rs) (us_pending t (env, mem, sc_store s0)) = rs" "sc_lte_power s0" "sc_alloc s0 = []" "su_next_seq s0 = of_nat (Suc k)"
    using s by (simp_all add: cdata_session_def s0_def)
  obtain st' where p: "sensor_cdata_send_next_packet env s0 = (0, s0\<lparr>sc_store := st', su_state := SENSOR_UPLOAD_STATE_CDATA_WAIT_DATA_ACK,
        sc_posted := sc_posted s0 @ [cdata_msg (packet_param t (of_nat (Suc k)) (nth_chunk t rs (Suc k)))]\<rparr>)"
     "us_active t (env, mem, st')" "us_pending t (env, mem, st') = us_pending t (env, mem, sc_store s0)"
     "us_limit t (env, mem, st') = length rs" "us_position t (env, mem, st') = k * ?M + length (nth_chunk t rs (Suc k))"
    using send_next_packet_spec [OF t(1) s0(1-4) pos s0(5,6)] s0(7) by (auto simp: nth_chunk_def)
  have pos': "k * ?M + length (nth_chunk t rs (Suc k)) = min (Suc k * ?M) (length rs)" using pos(2) by (auto simp: nth_chunk_def min_def)
  have "sensor_handle_lte_ack env (Some BLE_RSP_CDATA) s = snd (sensor_cdata_send_next_packet env s0)"
  proof (cases k)
    case 0
    then have "s0 = s" using s by (simp add: s0_def cdata_session_def)
    then show ?thesis using s 0 p(1) by (simp add: sensor_handle_lte_ack_def cdata_session_def)
  next
    case (Suc j)
    have "su_next_seq s = of_nat k" "su_total_packets s = of_nat ?P" "su_state s = SENSOR_UPLOAD_STATE_CDATA_WAIT_DATA_ACK"
      using s Suc k by (simp_all add: cdata_session_def)
    moreover have "(of_nat k :: u16) < of_nat ?P" using k by (simp add: word_less_nat_alt unat_of_nat)
    ultimately show ?thesis using p(1) by (simp add: sensor_handle_lte_ack_def s0_def add.commute)
  qed
  then show ?thesis using s s0 p k pos' unfolding cdata_session_def by (auto simp: s0_def)
qed

lemma ack_last:
  assumes s: "cdata_session env mem t rs base (packet_count t rs) s" and t: "sensor_type t" "rs \<noteq> []"
  shows "cdata_session env mem t rs base (Suc (packet_count t rs)) (sensor_handle_lte_ack env (Some BLE_RSP_CDATA) s)"
proof -
  let ?P = "packet_count t rs"
  note pc = packet_count_bounds [OF t]
  have f: "su_next_seq s = of_nat ?P" "su_total_packets s = of_nat ?P" "su_state s = SENSOR_UPLOAD_STATE_CDATA_WAIT_DATA_ACK"
    "sc_lte_power s" "sc_alloc s = []" using s pc(1) by (simp_all add: cdata_session_def)
  have "sensor_handle_lte_ack env (Some BLE_RSP_CDATA) s = s\<lparr>sc_posted := sc_posted s @ [cdata_msg (ascii ''END'')],
      su_state := SENSOR_UPLOAD_STATE_CDATA_WAIT_END_ACK\<rparr>"
    using f by (simp add: sensor_handle_lte_ack_def send_cdata)
  moreover have "min (?P * per_packet t) (length rs) = length rs" "min (Suc ?P * per_packet t) (length rs) = length rs" using pc(2) by simp_all
  ultimately show ?thesis using s pc(1) unfolding cdata_session_def by auto
qed

text \<open>A sample that comes in during any upload goes to the store.\<close>

lemma sample_pushed:
  assumes a: "us_active t (env, mem, sc_store s)" and busy: "sensor_upload_busy s \<or> s_tag_macinfo_upload_state s \<noteq> UPLOAD_STATE_IDLE" "sc_lte_ready s"
    and u: "sensor_type u" "length r = 8"
  shows "\<exists>ok st'. sensor_step env (Sample u r) s = Some (s\<lparr>sc_store := st'\<rparr>) \<and> us_active t (env, mem, st') \<and>
     us_position t (env, mem, st') = us_position t (env, mem, sc_store s) \<and> us_limit t (env, mem, st') = us_limit t (env, mem, sc_store s) \<and>
     us_pending t (env, mem, st') = us_pending t (env, mem, sc_store s) @ (if u = t \<and> ok then [r] else [])"
proof -
  have fits: "us_fits u r" using u by (auto simp: us_fits_def fs_data_len_def sensor_type_def)
  obtain ok s1 where p: "us_push u r (env, mem, sc_store s) = Some (ok, s1)" "us_active t s1" "us_position t s1 = us_position t (env, mem, sc_store s)"
    "us_limit t s1 = us_limit t (env, mem, sc_store s)" "us_pending t s1 = us_pending t (env, mem, sc_store s) @ (if u = t \<and> ok then [r] else [])"
    using store.psh_law [OF a fits] by blast
  obtain ret st' where q: "fs_push_type env u (sc_store s) (Some r) = Some (ret, st')" "s1 = (env, mem, st')"
    using p(1) by (auto simp: us_push_def)
  have "sensor_step env (Sample u r) s = Some (s\<lparr>sc_store := st'\<rparr>)"
    using u(1) q(1) busy by (auto simp: sensor_type_def sensor_step_def sensor_process_temp_humi_sample_def sensor_process_barometer_sample_def
        sensor_realtime_upload_start_def store_and_wake_def my_flash_store_push_th_def my_flash_store_push_bp_def)
  then show ?thesis using p(2-5) q(2) by blast
qed

lemma sample_step:
  assumes s: "cdata_session env mem t rs base k s" and u: "sensor_type u" "length r = 8"
  shows "\<exists>s'. sensor_step env (Sample u r) s = Some s' \<and> cdata_session env mem t rs base k s'"
proof -
  have a: "us_active t (env, mem, sc_store s)" "sensor_upload_busy s" "sc_lte_ready s"
    using s by (auto simp: cdata_session_def sensor_upload_busy_def)
  obtain ok st' where p: "sensor_step env (Sample u r) s = Some (s\<lparr>sc_store := st'\<rparr>)" "us_active t (env, mem, st')"
     "us_position t (env, mem, st') = us_position t (env, mem, sc_store s)" "us_limit t (env, mem, st') = us_limit t (env, mem, sc_store s)"
     "us_pending t (env, mem, st') = us_pending t (env, mem, sc_store s) @ (if u = t \<and> ok then [r] else [])"
    using sample_pushed [OF a(1) disjI1 [OF a(2)] a(3) u] by blast
  have "take (length rs) (us_pending t (env, mem, st')) = take (length rs) (us_pending t (env, mem, sc_store s))"
    using p(5) store.active_bound [OF a(1)] s by (simp add: cdata_session_def)
  then show ?thesis using s p(1-4) unfolding cdata_session_def by auto
qed

lemma session_events:
  assumes "cdata_session env mem t rs base k s" "sensor_type t" "rs \<noteq> []" "packet_count t rs < 65536"
    and "\<forall>e \<in> set es. event_ok e" "k + count_list es Ack = Suc (packet_count t rs)"
  shows "\<exists>s'. sensor_run env es s = Some s' \<and> cdata_session env mem t rs base (Suc (packet_count t rs)) s'"
  using assms(1,5,6)
proof (induction es arbitrary: k s)
  case (Cons e es)
  show ?case
  proof (cases e)
    case Ack
    then have k: "k \<le> packet_count t rs" "Suc k + count_list es Ack = Suc (packet_count t rs)" using Cons.prems(3) by simp_all
    have "cdata_session env mem t rs base (Suc k) (sensor_handle_lte_ack env (Some BLE_RSP_CDATA) s)"
      using ack_packet [OF Cons.prems(1) assms(2,3) _ assms(4)] ack_last [of env mem t rs base s] Cons.prems(1) assms(2,3) k(1) by (cases "k = packet_count t rs") auto
    then show ?thesis using Cons.IH [OF _ _ k(2)] Cons.prems(2) Ack by (simp add: sensor_step_def)
  next
    case (Sample u r)
    then obtain s1 where "sensor_step env e s = Some s1" "cdata_session env mem t rs base k s1"
      using sample_step [OF Cons.prems(1), of u r] Cons.prems(2) by auto
    then show ?thesis using Cons.IH [of k s1] Cons.prems(2,3) Sample by simp
  qed
qed simp

lemma session_start:
  assumes r: "us_ready t (env, mem, sc_store s)" and t: "t = FS_TYPE_TH \<or> t = FS_TYPE_BP \<and> my_flash_store_pending_count (sc_store s) FS_TYPE_TH = 0"
    and idle: "su_state s = SENSOR_UPLOAD_STATE_IDLE" "s_tag_macinfo_upload_state s = UPLOAD_STATE_IDLE"
    and out: "sc_lte_ready s" "sc_lte_power s" "sc_alloc s = []" and rs: "rs = store_records mem (sc_store s) t" "rs \<noteq> []" "packet_count t rs < 65536"
  shows "cdata_session env mem t rs (sc_posted s) 0 (sensor_cached_upload_try_start s)"
proof -
  have ty: "sensor_type t" using t by (auto simp: sensor_type_def)
  let ?st = "sc_store s" and ?M = "per_packet t"
  have n: "my_flash_store_pending_count ?st t = length rs" using pending_count_length us_readyD(1,3) [OF r] rs(1) by blast
  have ut: "(if my_flash_store_pending_count ?st FS_TYPE_TH > 0 then FS_TYPE_TH
      else if my_flash_store_pending_count ?st FS_TYPE_BP > 0 then FS_TYPE_BP else FS_TYPE_MAX) = t"
    using t n rs(2) by auto
  let ?s1 = "s\<lparr>sc_store := my_flash_store_upload_begin ?st t, su_upload_type := t,
     su_total_packets := of_nat (packet_count t rs), su_next_seq := 1, su_state := SENSOR_UPLOAD_STATE_CDATA_WAIT_START_ACK\<rparr>"
  have u: "unat (of_nat (packet_count t rs) :: u16) = packet_count t rs" using rs(3) by (simp add: unat_of_nat)
  have "t \<noteq> FS_TYPE_MAX" using t by auto
  then have "sensor_cached_upload_try_start s = snd (lte_send_command (ascii ''CDATA'') (start_param t (packet_count t rs)) ?s1)"
    using idle out rs(2) n sensor_type_sizes(1) [OF ty] u
    unfolding sensor_cached_upload_try_start_def ut Let_def by (simp add: sensor_upload_busy_def packet_count_def send_cdata start_param_def)
  then have st: "sensor_cached_upload_try_start s = ?s1\<lparr>sc_posted := sc_posted s @ [cdata_msg (start_param t (packet_count t rs))]\<rparr>"
    using out by (simp add: send_cdata)
  have "us_begin t (env, mem, ?st) = (env, mem, my_flash_store_upload_begin ?st t)" by (simp add: us_begin_def)
  then show ?thesis using store.start_law [OF r] out rs(1) packet_count_bounds(1) [OF ty rs(2)] unfolding st cdata_session_def by (simp add: us_pending_def)
qed

lemma concat_chunks: "concat (map (nth_chunk t rs) [1..<Suc k]) = take (k * per_packet t) rs"
proof (induction k)
  case (Suc k)
  have "take (k * per_packet t) rs @ take (per_packet t) (drop (k * per_packet t) rs) = take (Suc k * per_packet t) rs"
    using take_add [of "k * per_packet t" "per_packet t" rs] by (simp add: add.commute del: take_append)
  then show ?case using Suc by (simp add: nth_chunk_def)
qed simp

lemma cdata_text_fits:
  assumes "sensor_type t"
  shows "length (lte_command_text (ascii ''CDATA'') (packet_param t seq (nth_chunk t rs i))) \<le> UART_TX_BUFFER_SIZE"
proof -
  have "length (packet_param t seq (nth_chunk t rs i)) \<le> 995" by (rule length_packet_param [OF assms]) (simp add: nth_chunk_def)
  then show ?thesis by (simp add: lte_command_text_def)
qed

text \<open>A store with one temperature record, an idle scanner and a module that is ready.\<close>

definition one_sample :: bytes where
  "one_sample = [1, 0, 0, 0, 250, 0, 44, 1]"

definition idle_scan :: "ram_dev fs_store \<Rightarrow> ram_dev scan" where
  "idle_scan st = \<lparr>su_state = SENSOR_UPLOAD_STATE_IDLE, su_upload_type = FS_TYPE_MAX, su_total_packets = 0, su_next_seq = 0,
     s_tag_macinfo_seq = 0, s_tag_macinfo_upload_state = UPLOAD_STATE_IDLE, s_flash_consumed = 0, s_rt_count_snap = 0,
     scan_cfg_state = SCAN_STATE_IDLE, s_result_table = [], s_tran_mac_result_table = [], sc_store = st, sc_lte_ready = True,
     sc_lte_power = True, temp_wakeup_cell = False, patm_wakeup_cell = False, boot_reason_scan = False, sc_alloc = [], sc_posted = []\<rparr>"

lemma one_sample_store:
  obtains st where "us_ready FS_TYPE_TH (ram_store, fst, st)" "store_records fst st FS_TYPE_TH = [one_sample]"
proof -
  let ?rg = "s_region ram_start ! 2"
  note r = us_readyD [OF ram_start_ready [of 2], simplified]
  have e: "fs_records (fst (dev ram_start)) ?rg 8 = []" "staging_count ?rg = 0" "rec_per_sector ?rg = 340" "\<not> upload_active ?rg" "rec_size ?rg = 12"
    by (simp_all add: fs_records_def ram_start_def fs_initial_regions_def fs_region_consts_def fs_pending_def fs_flash_part_def fs_staged_def)
  have len: "length one_sample = 8" by (simp add: one_sample_def)
  have mk: "fs_marked (fst (dev ram_start)) ?rg" using r(5) by (simp add: store_marked_def)
  obtain rg' where p: "fs_region_push ram_store ?rg one_sample (dev ram_start) = Some (0, rg', dev ram_start)" "fs_wf rg'"
      "fs_records (fst (dev ram_start)) rg' 8 = [one_sample]" "fs_marked (fst (dev ram_start)) rg'"
    using fs_push_stage [of ?rg one_sample, where m = "fst (dev ram_start)" and env = ram_store and d = "dev ram_start"] r(8) e len mk by auto
  have "region_safe ?rg" using e by (simp add: region_safe_def)
  note fl = fs_push_fields [OF p(1) this]
  let ?st = "store_put ram_start 2 rg' (dev ram_start)"
  have "store_wf ?st" using r p(2) fl by (intro store_wf_put) auto
  moreover have "store_safe ?st" using r(4,9) fl by (auto simp: store_safe_def)
  moreover have "store_marked fst ?st 2" using p(4) r(9) by (simp add: store_marked_def)
  ultimately have "us_ready 2 (ram_store, fst, ?st)" using ram_store_ok by (simp add: us_ready_def)
  then show thesis using that p(3) r(9) by (simp add: store_records_def fs_data_len_def)
qed

text \<open>
  C2: stored sensor records reach the LTE module completely, in order and exactly once. When the upload of
  the stored records \<open>rs\<close> of a type starts and the module acknowledges each message, while
  any number of new samples come in at any time, the messages sent are the announcement with the number of packets, exactly that many
  packets, numbered from one, whose records put together are \<open>rs\<close>, and the end message. No message is
  longer than the transmit buffer of the serial line. The records confirmed by the last acknowledgement are exactly \<open>rs\<close>:
  what remains pending is what was accepted meanwhile.
\<close>

theorem sensor_backlog_delivered:
  assumes "us_ready t (env, mem, sc_store s)" "t = FS_TYPE_TH \<or> t = FS_TYPE_BP \<and> my_flash_store_pending_count (sc_store s) FS_TYPE_TH = 0"
    and "su_state s = SENSOR_UPLOAD_STATE_IDLE" "s_tag_macinfo_upload_state s = UPLOAD_STATE_IDLE"
    and "sc_lte_ready s" "sc_lte_power s" "sc_alloc s = []" "rs = store_records mem (sc_store s) t" "rs \<noteq> []"
    and "n = packet_count t rs" "n < 65536" "\<forall>e \<in> set es. event_ok e" "count_list es Ack = Suc n"
  shows "\<exists>s'. sensor_run env es (sensor_cached_upload_try_start s) = Some s' \<and> su_state s' = SENSOR_UPLOAD_STATE_CDATA_WAIT_END_ACK \<and>
     sc_posted s' = sc_posted s @ cdata_msg (start_param t n) #
       map (\<lambda>i. cdata_msg (packet_param t (of_nat i) (nth_chunk t rs i))) [1..<Suc n] @ [cdata_msg (ascii ''END'')] \<and>
     concat (map (nth_chunk t rs) [1..<Suc n]) = rs \<and>
     (\<forall>i. length (lte_command_text (ascii ''CDATA'') (packet_param t (of_nat i) (nth_chunk t rs i))) \<le> UART_TX_BUFFER_SIZE) \<and>
     rs @ store_records mem (snd (my_flash_store_commit env (sc_store s') t)) t = store_records mem (sc_store s') t"
proof -
  have ty: "sensor_type t" using assms(2) by (auto simp: sensor_type_def)
  note pc = packet_count_bounds [OF ty assms(9), folded assms(10)]
  have "cdata_session env mem t rs (sc_posted s) 0 (sensor_cached_upload_try_start s)"
    using session_start [OF assms(1-9)] assms(10,11) by simp
  then obtain s' where r: "sensor_run env es (sensor_cached_upload_try_start s) = Some s'" and c: "cdata_session env mem t rs (sc_posted s) (Suc n) s'"
    using session_events [OF _ ty assms(9)] assms(10-13) by fastforce
  have a: "us_active t (env, mem, sc_store s')" and p: "us_position t (env, mem, sc_store s') = length rs"
    and tk: "take (length rs) (store_records mem (sc_store s') t) = rs"
    using c pc(2) by (auto simp: cdata_session_def us_pending_def)
  have "store_records mem (snd (my_flash_store_commit env (sc_store s') t)) t = drop (length rs) (store_records mem (sc_store s') t)"
    using store.cmt_law [OF a] p by (simp add: us_pending_def us_commit_def)
  then have "rs @ store_records mem (snd (my_flash_store_commit env (sc_store s') t)) t = store_records mem (sc_store s') t"
    using tk by (metis append_take_drop_id)
  moreover have "concat (map (nth_chunk t rs) [1..<Suc n]) = rs" using pc(2) by (simp only: concat_chunks take_all)
  ultimately show ?thesis using r c cdata_text_fits [OF ty] assms(10) by (simp add: cdata_session_def)
qed

theorem sensor_backlog_delivered_witness:
  "\<exists>st s'. store_records fst st FS_TYPE_TH = [one_sample] \<and>
     sensor_run ram_store [Ack, Sample FS_TYPE_TH (replicate 8 7), Ack] (sensor_cached_upload_try_start (idle_scan st)) = Some s' \<and>
     sc_posted s' = [cdata_msg (start_param FS_TYPE_TH 1), cdata_msg (packet_param FS_TYPE_TH 1 [one_sample]), cdata_msg (ascii ''END'')] \<and>
     [one_sample] @ store_records fst (snd (my_flash_store_commit ram_store (sc_store s') FS_TYPE_TH)) FS_TYPE_TH =
       store_records fst (sc_store s') FS_TYPE_TH"
proof -
  obtain st where st: "us_ready FS_TYPE_TH (ram_store, fst, st)" "store_records fst st FS_TYPE_TH = [one_sample]" by (rule one_sample_store)
  have n: "(1 :: nat) = packet_count FS_TYPE_TH [one_sample]"
    by (simp add: packet_count_def sensor_cdata_max_records_per_packet_def sensor_cdata_record_max_text_len_get_def)
  have c: "nth_chunk FS_TYPE_TH [one_sample] (Suc 0) = [one_sample]"
    by (simp add: nth_chunk_def sensor_cdata_max_records_per_packet_def sensor_cdata_record_max_text_len_get_def)
  have s: "us_ready FS_TYPE_TH (ram_store, fst, sc_store (idle_scan st))" "[one_sample] = store_records fst (sc_store (idle_scan st)) FS_TYPE_TH"
      "su_state (idle_scan st) = SENSOR_UPLOAD_STATE_IDLE" "s_tag_macinfo_upload_state (idle_scan st) = UPLOAD_STATE_IDLE"
      "sc_lte_ready (idle_scan st)" "sc_lte_power (idle_scan st)" "sc_alloc (idle_scan st) = []" "sc_posted (idle_scan st) = []"
    using st by (simp_all add: idle_scan_def)
  have ev: "\<forall>e \<in> set [Ack, Sample FS_TYPE_TH (replicate 8 7), Ack]. event_ok e" "count_list [Ack, Sample FS_TYPE_TH (replicate 8 7), Ack] Ack = Suc 1"
    by (simp_all add: sensor_type_def)
  show ?thesis
    using sensor_backlog_delivered [OF s(1) disjI1 [OF refl] s(3-7,2) _ n _ ev] st(2) s(8) c by auto
qed

text \<open>
  A failed upload loses nothing. When a message of the session cannot be
  handed to the LTE thread, at whatever point, the session ends, and all records that were pending are still pending.
\<close>

lemma sensor_upload_failure_keeps:
  assumes "cdata_session env mem t rs base k s" "sensor_type t" "rs \<noteq> []" "k \<le> packet_count t rs" "packet_count t rs < 65536"
    and "s' = sensor_handle_lte_ack env (Some BLE_RSP_CDATA) (s\<lparr>sc_alloc := [False]\<rparr>)"
  shows "su_state s' = SENSOR_UPLOAD_STATE_IDLE \<and> store_records mem (sc_store s') t = store_records mem (sc_store s) t"
proof -
  let ?s = "s\<lparr>sc_alloc := [False]\<rparr>"
  note pc = packet_count_bounds [OF assms(2,3)]
  have f: "su_upload_type ?s = t" "us_active t (env, mem, sc_store ?s)" "us_limit t (env, mem, sc_store ?s) = length rs"
    "take (length rs) (us_pending t (env, mem, sc_store ?s)) = rs" "sc_lte_power ?s" "us_position t (env, mem, sc_store ?s) = min (k * per_packet t) (length rs)"
    using assms(1) by (simp_all add: cdata_session_def)
  have ty: "t = FS_TYPE_TH \<or> t = FS_TYPE_BP" using assms(2) by (simp add: sensor_type_def)
  have fail: "lte_send_command c prm (x :: 'a scan) = (-1, x\<lparr>sc_alloc := []\<rparr>)" if "sc_lte_power x" "sc_alloc x = [False]" for c prm x
    using that by (simp add: lte_send_command_def)
  have reset: "su_state (sensor_upload_reset True x) = SENSOR_UPLOAD_STATE_IDLE \<and>
      store_records mem (sc_store (sensor_upload_reset True x)) t = store_records mem (sc_store s) t"
    if "us_active t (env, mem, sc_store x)" "us_pending t (env, mem, sc_store x) = us_pending t (env, mem, sc_store s)" "su_upload_type x = t" "cdata_state (su_state x)" for x
    using store.rew_law [OF that(1)] that(2-4) ty by (auto simp: sensor_upload_reset_def us_rewind_def us_pending_def)
  have cd: "cdata_state (su_state s)" using assms(1,4) by (auto simp: cdata_session_def cdata_state_def)
  show ?thesis
  proof (cases "k < packet_count t rs")
    case True
    define s0 where "s0 = (if k = 0 then ?s else ?s\<lparr>su_next_seq := su_next_seq s + 1\<rparr>)"
    have s0: "su_upload_type s0 = t" "sc_store s0 = sc_store s" "sc_lte_power s0" "sc_alloc s0 = [False]" "su_state s0 = su_state s"
      using f by (simp_all add: s0_def)
    have pos: "us_position t (env, mem, sc_store s0) = k * per_packet t" "k * per_packet t < length rs"
      using f(6) pc(3) [OF True] s0(2) by simp_all
    have g: "us_active t (env, mem, sc_store s0)" "us_limit t (env, mem, sc_store s0) = length rs" "take (length rs) (us_pending t (env, mem, sc_store s0)) = rs"
      using f(2-4) s0(2) by simp_all
    obtain st' where n: "sensor_cdata_send_next_packet env s0 =
      (case lte_send_command (ascii ''CDATA'') (packet_param t (su_next_seq s0) (take (per_packet t) (drop (k * per_packet t) rs))) (s0\<lparr>sc_store := st'\<rparr>) of
         (ret, s2) \<Rightarrow> (ret, if ret = 0 then s2\<lparr>su_state := SENSOR_UPLOAD_STATE_CDATA_WAIT_DATA_ACK\<rparr> else s2))"
      "us_active t (env, mem, st')" "us_pending t (env, mem, st') = us_pending t (env, mem, sc_store s0)"
      by (rule next_packet [OF assms(2) s0(1) g pos])
    have np: "sensor_cdata_send_next_packet env s0 = (-1, s0\<lparr>sc_store := st', sc_alloc := []\<rparr>)"
      using n(1) fail [of "s0\<lparr>sc_store := st'\<rparr>"] s0(3,4) by simp
    have "s' = sensor_upload_reset True (s0\<lparr>sc_store := st', sc_alloc := []\<rparr>)"
    proof (cases "k = 0")
      case True
      then show ?thesis using assms(1,6) np by (simp add: sensor_handle_lte_ack_def cdata_session_def s0_def)
    next
      case False
      have "su_next_seq s < su_total_packets s" using assms(1,5) True False by (simp add: cdata_session_def word_less_nat_alt unat_of_nat)
      then show ?thesis using assms(1,6) np True False by (simp add: sensor_handle_lte_ack_def cdata_session_def s0_def)
    qed
    then show ?thesis using reset [of "s0\<lparr>sc_store := st', sc_alloc := []\<rparr>"] n(2,3) s0(1,2,5) cd by simp
  next
    case False
    then have "s' = sensor_upload_reset True (?s\<lparr>sc_alloc := []\<rparr>)"
      using assms(1,4,6) pc(1) fail [of ?s] by (simp add: sensor_handle_lte_ack_def cdata_session_def)
    then show ?thesis using reset [of "?s\<lparr>sc_alloc := []\<rparr>"] f cd by simp
  qed
qed

end
