(* ===== verification/Scan_Adv.thy ===== *)
theory Scan_Adv
  imports Prelude
begin

text \<open>
  Model of the advertisement parsers of \<^verbatim>\<open>src/my_ble_scan.c\<close>: the device name, the manufacturer data, and service identifiers and
  battery level, all read from the sequence of length-type-value structures of a received packet.

  The packet buffer belongs to the RTOS: its operations are the parameter \<open>net_buf_ops\<close>, with the contract \<open>net_buf_ok\<close>. To pull more
  bytes than the buffer holds is an error of the caller and the outcome \<open>None\<close>, as is a loop that does not end.
  Every packet comes from the air, so the theorems are about every sequence of bytes.
\<close>

section \<open>The packet buffer\<close>

record 'b net_buf_ops =
  nb_len :: "'b \<Rightarrow> nat"
  nb_pull_u8 :: "'b \<Rightarrow> u8 \<times> 'b"
  nb_pull_mem :: "'b \<Rightarrow> nat \<Rightarrow> bytes \<times> 'b"
  nb_data :: "'b \<Rightarrow> bytes"

definition pull_u8 :: "'b net_buf_ops \<Rightarrow> 'b \<Rightarrow> (u8 \<times> 'b) option" where
  "pull_u8 ops b = (if nb_len ops b < 1 then None else Some (nb_pull_u8 ops b))"

definition pull_mem :: "'b net_buf_ops \<Rightarrow> 'b \<Rightarrow> nat \<Rightarrow> (bytes \<times> 'b) option" where
  "pull_mem ops b n = (if nb_len ops b < n then None else Some (nb_pull_mem ops b n))"

text \<open>The buffer holds bytes, \<open>con b\<close>, and the operations take them from its front.\<close>

definition net_buf_ok :: "'b net_buf_ops \<Rightarrow> ('b \<Rightarrow> bytes) \<Rightarrow> bool" where
  "net_buf_ok ops con \<longleftrightarrow>
     (\<forall>b. nb_len ops b = length (con b) \<and> nb_data ops b = con b \<and>
       (con b \<noteq> [] \<longrightarrow> fst (nb_pull_u8 ops b) = hd (con b) \<and> con (snd (nb_pull_u8 ops b)) = tl (con b)) \<and>
       (\<forall>n. n \<le> length (con b) \<longrightarrow> fst (nb_pull_mem ops b n) = take n (con b) \<and> con (snd (nb_pull_mem ops b n)) = drop n (con b)))"

section \<open>Parsers\<close>

abbreviation (input) BT_DATA_UUID16_SOME :: u8 where "BT_DATA_UUID16_SOME \<equiv> 0x02"
abbreviation (input) BT_DATA_UUID32_SOME :: u8 where "BT_DATA_UUID32_SOME \<equiv> 0x04"
abbreviation (input) BT_DATA_NAME_SHORTENED :: u8 where "BT_DATA_NAME_SHORTENED \<equiv> 0x08"
abbreviation (input) BT_DATA_NAME_COMPLETE :: u8 where "BT_DATA_NAME_COMPLETE \<equiv> 0x09"
abbreviation (input) BT_DATA_MANUFACTURER_DATA :: u8 where "BT_DATA_MANUFACTURER_DATA \<equiv> 0xFF"
abbreviation (input) TAG_FF_DATA_MAX_LEN :: nat where "TAG_FF_DATA_MAX_LEN \<equiv> 29"
abbreviation (input) UUID_MAX_LEN :: nat where "UUID_MAX_LEN \<equiv> 16"

text \<open>
  The buffer for the name has at least one byte: the only caller passes one of 32 bytes. (In the code the
  length \<open>max_len - 1\<close> is an unsigned byte, which a buffer without any byte would turn into 255.)
\<close>

partial_function (option) parse_scan_rsp_name :: "'b net_buf_ops \<Rightarrow> 'b \<Rightarrow> nat \<Rightarrow> bytes option option" where
  "parse_scan_rsp_name ops b max_len =
     (if nb_len ops b > 1 then do {
        (len, b1) \<leftarrow> pull_u8 ops b;
        if len = 0 then Some None
        else if nb_len ops b1 < unat len then Some None
        else do {
          (type, b2) \<leftarrow> pull_u8 ops b1;
          let data_len = unat (len - 1);
          if type = BT_DATA_NAME_SHORTENED \<or> type = BT_DATA_NAME_COMPLETE then do {
            let copy_len = min data_len (max_len - 1);
            (name, b3) \<leftarrow> pull_mem ops b2 copy_len;
            if data_len > copy_len then do { _ \<leftarrow> pull_mem ops b3 (data_len - copy_len); Some (Some name) } else Some (Some name) }
          else do { (_, b3) \<leftarrow> pull_mem ops b2 data_len; parse_scan_rsp_name ops b3 max_len } } }
      else Some None)"

partial_function (option) parse_ff_data :: "'b net_buf_ops \<Rightarrow> 'b \<Rightarrow> nat \<Rightarrow> bytes option option" where
  "parse_ff_data ops b max_len =
     (if nb_len ops b > 1 then do {
        (len, b1) \<leftarrow> pull_u8 ops b;
        if len = 0 then Some None
        else if nb_len ops b1 < unat len then Some None
        else do {
          (type, b2) \<leftarrow> pull_u8 ops b1;
          let data_len = unat (len - 1);
          if type = BT_DATA_MANUFACTURER_DATA \<and> data_len = TAG_FF_DATA_MAX_LEN then do {
            let copy_len = min data_len max_len;
            (ff_data, b3) \<leftarrow> pull_mem ops b2 copy_len;
            if data_len > copy_len then do { _ \<leftarrow> pull_mem ops b3 (data_len - copy_len); Some (Some ff_data) } else Some (Some ff_data) }
          else do { (_, b3) \<leftarrow> pull_mem ops b2 data_len; parse_ff_data ops b3 max_len } } }
      else Some None)"

text \<open>The parser of the scan response updates the result: identifiers at offset 69, their length at 85, the battery level at 86.\<close>

partial_function (option) scan_rsp_loop :: "'b net_buf_ops \<Rightarrow> 'b \<Rightarrow> bool \<Rightarrow> bool \<Rightarrow> bytes \<Rightarrow> (bool \<times> bytes) option" where
  "scan_rsp_loop ops b uuid_found battery_found r =
     (if nb_len ops b > 1 then do {
        (len, b1) \<leftarrow> pull_u8 ops b;
        if len = 0 then Some (uuid_found \<or> battery_found, r)
        else if nb_len ops b1 < unat len then Some (uuid_found \<or> battery_found, r)
        else do {
          (type, b2) \<leftarrow> pull_u8 ops b1;
          let data_len = unat (len - 1);
          (data, b3) \<leftarrow> pull_mem ops b2 data_len;
          if type = BT_DATA_UUID16_SOME \<and> \<not> uuid_found then
            (let copy_len = min data_len UUID_MAX_LEN
             in scan_rsp_loop ops b3 True battery_found (mem_put (mem_put r 69 (take copy_len data)) 85 [of_nat copy_len]))
          else if type = BT_DATA_UUID32_SOME \<and> \<not> battery_found \<and> data_len \<ge> 8 \<and> data ! 6 = 0x02 then
            scan_rsp_loop ops b3 uuid_found True (mem_put r 86 [data ! 7])
          else scan_rsp_loop ops b3 uuid_found battery_found r } }
      else Some (uuid_found \<or> battery_found, r))"

definition parse_scan_rsp_payload :: "'b net_buf_ops \<Rightarrow> 'b \<Rightarrow> bytes \<Rightarrow> (bool \<times> bytes) option" where
  "parse_scan_rsp_payload ops b r = scan_rsp_loop ops b False False r"

section \<open>What the parsers compute\<close>

text \<open>The structures of a packet: all that are complete, up to one of length zero or one that is cut off.\<close>

function ad_structs :: "bytes \<Rightarrow> (u8 \<times> bytes) list" where
  "ad_structs bs =
     (if length bs > 1 \<and> bs ! 0 \<noteq> 0 \<and> unat (bs ! 0) \<le> length bs - 1
      then (bs ! 1, take (unat (bs ! 0) - 1) (drop 2 bs)) # ad_structs (drop (unat (bs ! 0) + 1) bs) else [])"
  by pat_completeness auto
termination
  by (relation "measure length") auto

declare ad_structs.simps [simp del]

definition is_name :: "u8 \<times> bytes \<Rightarrow> bool" where
  "is_name ad \<longleftrightarrow> fst ad = BT_DATA_NAME_SHORTENED \<or> fst ad = BT_DATA_NAME_COMPLETE"

definition is_ff :: "u8 \<times> bytes \<Rightarrow> bool" where
  "is_ff ad \<longleftrightarrow> fst ad = BT_DATA_MANUFACTURER_DATA \<and> length (snd ad) = TAG_FF_DATA_MAX_LEN"

definition is_uuid :: "u8 \<times> bytes \<Rightarrow> bool" where
  "is_uuid ad \<longleftrightarrow> fst ad = BT_DATA_UUID16_SOME"

definition is_battery :: "u8 \<times> bytes \<Rightarrow> bool" where
  "is_battery ad \<longleftrightarrow> fst ad = BT_DATA_UUID32_SOME \<and> length (snd ad) \<ge> 8 \<and> snd ad ! 6 = 0x02"

text \<open>The fields of the result, set from the first identifiers and the first battery level.\<close>

definition put_uuid :: "(u8 \<times> bytes) option \<Rightarrow> bytes \<Rightarrow> bytes" where
  "put_uuid ad r = (case ad of None \<Rightarrow> r
     | Some (_, d) \<Rightarrow> mem_put (mem_put r 69 (take UUID_MAX_LEN d)) 85 [of_nat (min (length d) UUID_MAX_LEN)])"

definition put_battery :: "(u8 \<times> bytes) option \<Rightarrow> bytes \<Rightarrow> bytes" where
  "put_battery ad r = (case ad of None \<Rightarrow> r | Some (_, d) \<Rightarrow> mem_put r 86 [d ! 7])"

text \<open>One round of the loops: the next structure is read, or there is none.\<close>

lemma ad_step:
  assumes ok: "net_buf_ok ops con" and s: "ad_structs (con b) = (t, d) # ads"
  obtains len b1 b2 where "nb_len ops b > 1" "pull_u8 ops b = Some (len, b1)" "len \<noteq> 0" "\<not> nb_len ops b1 < unat len" "pull_u8 ops b1 = Some (t, b2)"
    "unat (len - 1) = length d" "length d \<le> length (con b2)" "d = take (length d) (con b2)" "ads = ad_structs (drop (length d) (con b2))"
    "length (con b2) < length (con b)"
proof -
  have n: "nb_len ops x = length (con x)" "con x \<noteq> [] \<Longrightarrow> fst (nb_pull_u8 ops x) = hd (con x) \<and> con (snd (nb_pull_u8 ops x)) = tl (con x)" for x
    using ok by (auto simp: net_buf_ok_def)
  have c: "length (con b) > 1" "con b ! 0 \<noteq> 0" "unat (con b ! 0) \<le> length (con b) - 1" "t = con b ! 1"
    "d = take (unat (con b ! 0) - 1) (drop 2 (con b))" "ads = ad_structs (drop (unat (con b ! 0) + 1) (con b))"
    using s by (subst (asm) ad_structs.simps; auto split: if_splits)+
  then obtain l tt rest where cb: "con b = l # tt # rest" by (cases "con b" rule: remdups_adj.cases) auto
  have pos: "0 < unat l" using c(2) cb by (simp add: unat_gt_0)
  obtain b1 where p1: "nb_pull_u8 ops b = (l, b1)" "con b1 = tt # rest" using n(2) [of b] cb by (metis list.discI list.sel(1,3) prod.collapse)
  obtain b2 where p2: "nb_pull_u8 ops b1 = (tt, b2)" "con b2 = rest" using n(2) [of b1] p1(2) by (metis list.discI list.sel(1,3) prod.collapse)
  have u: "unat (l - 1) = unat l - 1" using c(2) cb by (simp add: unat_minus_one)
  have ld: "length d = unat l - 1" using c cb by simp
  have "drop (unat l + 1) (con b) = drop (length d) rest" using ld pos cb by (cases "unat l") auto
  then show thesis
    using that [of l b1 b2] c cb p1 p2 n(1) u ld pos by (simp add: pull_u8_def)
qed

lemma ad_stop:
  assumes ok: "net_buf_ok ops con" and s: "ad_structs (con b) = []"
  shows "nb_len ops b > 1 \<Longrightarrow> \<exists>len b1. pull_u8 ops b = Some (len, b1) \<and> (len = 0 \<or> nb_len ops b1 < unat len)"
proof -
  assume "nb_len ops b > 1"
  moreover have n: "nb_len ops x = length (con x)" "con x \<noteq> [] \<Longrightarrow> fst (nb_pull_u8 ops x) = hd (con x) \<and> con (snd (nb_pull_u8 ops x)) = tl (con x)" for x
    using ok by (auto simp: net_buf_ok_def)
  ultimately obtain l rest b1 where "con b = l # rest" "nb_pull_u8 ops b = (l, b1)" "con b1 = rest" "rest \<noteq> []"
    using n(2) [of b] by (cases "con b") (auto simp: prod_eq_iff)
  then show ?thesis using s n(1) by (subst (asm) ad_structs.simps) (auto simp: pull_u8_def split: if_splits)
qed

text \<open>The data of a structure, pulled from the buffer.\<close>

lemma pull_mem_ok:
  assumes "net_buf_ok ops con" "n \<le> length (con b)"
  obtains b' where "pull_mem ops b n = Some (take n (con b), b')" "con b' = drop n (con b)"
proof (rule that [of "snd (nb_pull_mem ops b n)"])
  have b: "nb_len ops b = length (con b)" "fst (nb_pull_mem ops b n) = take n (con b)" "con (snd (nb_pull_mem ops b n)) = drop n (con b)"
    using assms by (auto simp: net_buf_ok_def)
  show "pull_mem ops b n = Some (take n (con b), snd (nb_pull_mem ops b n))" using assms(2) b(1,2) by (simp add: pull_mem_def prod_eq_iff)
qed (use assms in \<open>auto simp: net_buf_ok_def\<close>)

text \<open>A structure is copied, up to \<open>k\<close> bytes, and skipped to its end.\<close>

lemma copy_struct:
  assumes ok: "net_buf_ok ops con" and d: "length d \<le> length (con b)" "d = take (length d) (con b)" and k: "k \<le> length d"
  obtains b3 b4 rest where "pull_mem ops b k = Some (take k d, b3)" "pull_mem ops b3 (length d - k) = Some (rest, b4)"
proof -
  obtain b3 where p: "pull_mem ops b k = Some (take k (con b), b3)" "con b3 = drop k (con b)"
    by (rule pull_mem_ok [OF ok, of k b]) (use d(1) k in simp)
  obtain b4 where "pull_mem ops b3 (length d - k) = Some (take (length d - k) (con b3), b4)"
    by (rule pull_mem_ok [OF ok, of "length d - k" b3]) (use p(2) d(1) in simp)
  moreover have "take k (con b) = take k d" using d(2) k by (metis min.absorb1 take_take)
  ultimately show thesis using that p(1) by metis
qed

lemma parse_name_eq:
  assumes ok: "net_buf_ok ops con"
  shows "parse_scan_rsp_name ops b m = Some (map_option (take (m - 1) \<circ> snd) (find is_name (ad_structs (con b))))"
proof (induction "length (con b)" arbitrary: b rule: less_induct)
  case less
  show ?case
  proof (cases "ad_structs (con b)")
    case Nil
    then show ?thesis using ad_stop [OF ok Nil] by (subst parse_scan_rsp_name.simps) auto
  next
    case (Cons ad ads)
    obtain t d where ad: "ad = (t, d)" by fastforce
    obtain len b1 b2 where s: "nb_len ops b > 1" "pull_u8 ops b = Some (len, b1)" "len \<noteq> 0" "\<not> nb_len ops b1 < unat len" "pull_u8 ops b1 = Some (t, b2)"
      "unat (len - 1) = length d" "length d \<le> length (con b2)" "d = take (length d) (con b2)" "ads = ad_structs (drop (length d) (con b2))"
      "length (con b2) < length (con b)"
      using ad_step [OF ok Cons [unfolded ad]] by blast
    show ?thesis
    proof (cases "is_name ad")
      case True
      define k where "k = min (length d) (m - 1)"
      then have k: "k \<le> length d" by simp
      obtain b3 b4 rest where p: "pull_mem ops b2 k = Some (take k d, b3)" "pull_mem ops b3 (length d - k) = Some (rest, b4)"
        by (rule copy_struct [OF ok s(7,8) k])
      have "parse_scan_rsp_name ops b m = Some (Some (take k d))"
        using True ad s(1-6) p k_def [symmetric, unfolded One_nat_def] by (subst parse_scan_rsp_name.simps) (simp add: is_name_def Let_def)
      moreover have "take k d = take (m - 1) d" by (simp add: k_def min_def)
      ultimately show ?thesis using True Cons ad by simp
    next
      case False
      obtain b3 where p: "pull_mem ops b2 (length d) = Some (d, b3)" "con b3 = drop (length d) (con b2)"
        using pull_mem_ok [OF ok s(7)] s(8) by metis
      then have "parse_scan_rsp_name ops b m = parse_scan_rsp_name ops b3 m"
        using False ad s(1-6) by (subst parse_scan_rsp_name.simps) (simp add: is_name_def Let_def)
      then show ?thesis using less [of b3] p(2) s(7,9,10) False Cons by simp
    qed
  qed
qed

lemma parse_ff_eq:
  assumes ok: "net_buf_ok ops con"
  shows "parse_ff_data ops b m = Some (map_option (take (m) \<circ> snd) (find is_ff (ad_structs (con b))))"
proof (induction "length (con b)" arbitrary: b rule: less_induct)
  case less
  show ?case
  proof (cases "ad_structs (con b)")
    case Nil
    then show ?thesis using ad_stop [OF ok Nil] by (subst parse_ff_data.simps) auto
  next
    case (Cons ad ads)
    obtain t d where ad: "ad = (t, d)" by fastforce
    obtain len b1 b2 where s: "nb_len ops b > 1" "pull_u8 ops b = Some (len, b1)" "len \<noteq> 0" "\<not> nb_len ops b1 < unat len" "pull_u8 ops b1 = Some (t, b2)"
      "unat (len - 1) = length d" "length d \<le> length (con b2)" "d = take (length d) (con b2)" "ads = ad_structs (drop (length d) (con b2))"
      "length (con b2) < length (con b)"
      using ad_step [OF ok Cons [unfolded ad]] by blast
    show ?thesis
    proof (cases "is_ff ad")
      case True
      define k where "k = min (length d) (m)"
      then have k: "k \<le> length d" by simp
      obtain b3 b4 rest where p: "pull_mem ops b2 k = Some (take k d, b3)" "pull_mem ops b3 (length d - k) = Some (rest, b4)"
        by (rule copy_struct [OF ok s(7,8) k])
      have "parse_ff_data ops b m = Some (Some (take k d))"
        using True ad s(1-6) p k_def [symmetric] by (subst parse_ff_data.simps) (simp add: is_ff_def Let_def)
      moreover have "take k d = take (m) d" by (simp add: k_def min_def)
      ultimately show ?thesis using True Cons ad by simp
    next
      case False
      obtain b3 where p: "pull_mem ops b2 (length d) = Some (d, b3)" "con b3 = drop (length d) (con b2)"
        using pull_mem_ok [OF ok s(7)] s(8) by metis
      then have "parse_ff_data ops b m = parse_ff_data ops b3 m"
        using False ad s(1-6) by (subst parse_ff_data.simps) (auto simp: is_ff_def Let_def)
      then show ?thesis using less [of b3] p(2) s(7,9,10) False Cons by simp
    qed
  qed
qed


text \<open>The loop of the scan response sets each field from the first structure that has it.\<close>

lemma put_uuid_battery: "length r = 92 \<Longrightarrow> put_uuid u (put_battery b r) = put_battery b (put_uuid u r)"
proof (cases u; cases b)
  fix x y assume r: "length r = 92" and u: "u = Some x" and b: "b = Some y"
  have "69 + length (take 16 (snd x)) \<le> 86" by (simp add: min_def)
  then show ?thesis using r by (simp add: u b put_uuid_def put_battery_def mem_put_comm [of 69 _ 86] mem_put_comm [of 85 _ 86] split: prod.split)
qed (auto simp: put_uuid_def put_battery_def)

lemma put_None [simp]: "put_uuid None r = r" "put_battery None r = r"
  by (simp_all add: put_uuid_def put_battery_def)

lemma length_put [simp]: "length (put_uuid u r) = length r" "length (put_battery b r) = length r"
  by (auto simp: put_uuid_def put_battery_def split: option.splits)

lemma scan_rsp_loop_eq:
  assumes ok: "net_buf_ok ops con" and r: "length r = 92"
  shows "scan_rsp_loop ops b uf bf r =
     (let u = (if uf then None else find is_uuid (ad_structs (con b))); y = (if bf then None else find is_battery (ad_structs (con b)))
      in Some (uf \<or> bf \<or> u \<noteq> None \<or> y \<noteq> None, put_battery y (put_uuid u r)))"
  using r
proof (induction "length (con b)" arbitrary: b uf bf r rule: less_induct)
  case less
  show ?case
  proof (cases "ad_structs (con b)")
    case Nil
    then show ?thesis using ad_stop [OF ok Nil] by (subst scan_rsp_loop.simps) (auto simp: put_uuid_def put_battery_def)
  next
    case (Cons ad ads)
    obtain t d where ad: "ad = (t, d)" by fastforce
    obtain len b1 b2 where s: "nb_len ops b > 1" "pull_u8 ops b = Some (len, b1)" "len \<noteq> 0" "\<not> nb_len ops b1 < unat len" "pull_u8 ops b1 = Some (t, b2)"
      "unat (len - 1) = length d" "length d \<le> length (con b2)" "d = take (length d) (con b2)" "ads = ad_structs (drop (length d) (con b2))"
      "length (con b2) < length (con b)"
      using ad_step [OF ok Cons [unfolded ad]] by blast
    obtain b3 where p: "pull_mem ops b2 (length d) = Some (d, b3)" "con b3 = drop (length d) (con b2)"
      using pull_mem_ok [OF ok s(7)] s(8) by metis
    let ?u = "is_uuid ad \<and> \<not> uf" and ?y = "is_battery ad \<and> \<not> bf"
    let ?r = "if ?u then put_uuid (Some ad) r else if ?y then put_battery (Some ad) r else r"
    have excl: "\<not> (is_uuid ad \<and> is_battery ad)" by (simp add: is_uuid_def is_battery_def)
    have step: "scan_rsp_loop ops b uf bf r = scan_rsp_loop ops b3 (uf \<or> ?u) (bf \<or> ?y) ?r"
      using s(1-6) p(1) ad by (subst scan_rsp_loop.simps)
        (auto simp: Let_def is_uuid_def is_battery_def put_uuid_def put_battery_def min_def)
    have lt: "length (con b3) < length (con b)" using s(10) p(2) by simp
    have "length ?r = 92" using less.prems by simp
    then show ?thesis unfolding step using less.hyps [OF lt, of ?r] Cons p(2) s(9) excl less.prems
      by (cases ?u; cases ?y) (auto simp: Let_def put_uuid_battery)
  qed
qed


text \<open>A packet buffer that is its own content.\<close>

definition list_buf :: "bytes net_buf_ops" where
  "list_buf = \<lparr>nb_len = length, nb_pull_u8 = (\<lambda>b. (hd b, tl b)), nb_pull_mem = (\<lambda>b n. (take n b, drop n b)), nb_data = (\<lambda>b. b)\<rparr>"

lemma list_buf_ok: "net_buf_ok list_buf (\<lambda>b. b)"
  by (simp add: net_buf_ok_def list_buf_def)

text \<open>
  C24: the advertisement parsers are safe and correct on every packet. Whatever bytes are received, each parser returns without reading past the
  end of the packet, and its result is that of the first structure with the wanted type: the name, cut to the given
  size; the manufacturer data, when it has exactly the length of a tag's data; the identifiers, cut to sixteen bytes, and the battery level.
\<close>

theorem adv_parsers_correct:
  assumes "net_buf_ok ops con" "length r = 92"
  shows "parse_scan_rsp_name ops b m = Some (map_option (take (m - 1) \<circ> snd) (find is_name (ad_structs (con b)))) \<and>
    parse_ff_data ops b m = Some (map_option (take m \<circ> snd) (find is_ff (ad_structs (con b)))) \<and>
    parse_scan_rsp_payload ops b r =
      Some (find is_uuid (ad_structs (con b)) \<noteq> None \<or> find is_battery (ad_structs (con b)) \<noteq> None,
        put_battery (find is_battery (ad_structs (con b))) (put_uuid (find is_uuid (ad_structs (con b))) r))"
  using assms parse_name_eq parse_ff_eq by (auto simp: parse_scan_rsp_payload_def scan_rsp_loop_eq Let_def)

theorem adv_parsers_correct_witness:
  "parse_scan_rsp_name list_buf [2, 1, 6, 4, 9, 76, 55, 56] 32 = Some (Some [76, 55, 56]) \<and>
   parse_ff_data list_buf [2, 1, 6, 4, 9, 76, 55, 56] 29 = Some None \<and>
   parse_scan_rsp_payload list_buf [3, 2, 10, 24] (replicate 92 0) = Some (True, put_uuid (Some (2, [10, 24])) (replicate 92 0))"
proof -
  have "ad_structs [2, 1, 6, 4, 9, 76, 55, 56] = [(1, [6]), (9, [76, 55, 56])]" "ad_structs [3, 2, 10, 24] = [(2, [10, 24])]"
    by (simp_all add: ad_structs.simps)
  then show ?thesis
    using adv_parsers_correct [OF list_buf_ok, of "replicate 92 0" "[2, 1, 6, 4, 9, 76, 55, 56]" 32]
      adv_parsers_correct [OF list_buf_ok, of "replicate 92 0" "[2, 1, 6, 4, 9, 76, 55, 56]" 29]
      adv_parsers_correct [OF list_buf_ok, of "replicate 92 0" "[3, 2, 10, 24]"]
    by (simp add: is_name_def is_ff_def is_uuid_def is_battery_def)
qed

end
