(* ===== verification/Tag_Upload.thy ===== *)
theory Tag_Upload
  imports Sensor_Upload Scan_Adv "HOL-Library.Multiset"
begin

text \<open>
  Model of the tables of scanned tags and forwarded MAC addresses in \<^verbatim>\<open>src/my_ble_scan.c\<close>: collecting results, moving a
  full or finished table to the record store in the order of time, and uploading store and
  table one record per acknowledgement. It shares the state of \<^verbatim>\<open>Sensor_Upload\<close>, and the two uploads exclude each other.

  A table entry is the memory image of the C structure: for a tag 7 bytes of address, 32 of name, 29 of
  data, its length, 16 of UUID, its length, battery, signal strength and a 32 bit timestamp; for a MAC entry 7 bytes
  of address, 31 of data, its length, a padding byte and the timestamp. The tables hold
  \<open>count\<close> entries; the entries behind are zero, because a table is only ever extended or cleared.
\<close>

abbreviation (input) TAG_RESULT_MAX_NUM :: nat where "TAG_RESULT_MAX_NUM \<equiv> 10"
abbreviation (input) TRAN_MAC_MAX_NUM :: nat where "TRAN_MAC_MAX_NUM \<equiv> 20"
abbreviation (input) ADV_NAME_MAX_LEN :: nat where "ADV_NAME_MAX_LEN \<equiv> 32"
abbreviation (input) TRAN_MAC_ADV_DATA_MAX_LEN :: nat where "TRAN_MAC_ADV_DATA_MAX_LEN \<equiv> 31"

datatype scan_kind = Tags | Macs

definition kind_type :: "scan_kind \<Rightarrow> nat" where
  "kind_type kd = (case kd of Tags \<Rightarrow> FS_TYPE_TAG | Macs \<Rightarrow> FS_TYPE_MAC)"

definition kind_size :: "scan_kind \<Rightarrow> nat" where
  "kind_size kd = (case kd of Tags \<Rightarrow> 92 | Macs \<Rightarrow> 44)"

definition kind_table :: "scan_kind \<Rightarrow> 'd scan \<Rightarrow> bytes list" where
  "kind_table kd s = (case kd of Tags \<Rightarrow> s_result_table s | Macs \<Rightarrow> s_tran_mac_result_table s)"

definition set_table :: "scan_kind \<Rightarrow> bytes list \<Rightarrow> 'd scan \<Rightarrow> 'd scan" where
  "set_table kd xs s = (case kd of Tags \<Rightarrow> s\<lparr>s_result_table := xs\<rparr> | Macs \<Rightarrow> s\<lparr>s_tran_mac_result_table := xs\<rparr>)"

definition table_item :: "scan_kind \<Rightarrow> 'd scan \<Rightarrow> nat \<Rightarrow> bytes" where
  "table_item kd s i = (if i < length (kind_table kd s) then kind_table kd s ! i else replicate (kind_size kd) 0)"

definition timestamp_of :: "scan_kind \<Rightarrow> bytes \<Rightarrow> u32" where
  "timestamp_of kd r = (let off = kind_size kd - 4 in of_le32 (r ! off) (r ! (off + 1)) (r ! (off + 2)) (r ! (off + 3)))"

section \<open>Moving a table to the store\<close>

text \<open>The inner loop of the selection sort: the index of the earliest entry.\<close>

function min_index :: "(bytes \<Rightarrow> u32) \<Rightarrow> bytes list \<Rightarrow> nat \<Rightarrow> nat \<Rightarrow> nat" where
  "min_index ts xs j min_idx =
     (if j < length xs then min_index ts xs (j + 1) (if ts (xs ! j) < ts (xs ! min_idx) then j else min_idx) else min_idx)"
  by pat_completeness auto
termination
  by (relation "measure (\<lambda>(ts, xs, j, m). length xs - j)") auto

declare min_index.simps [simp del]

definition swap_at :: "bytes list \<Rightarrow> nat \<Rightarrow> nat \<Rightarrow> bytes list" where
  "swap_at xs i m = (if m \<noteq> i then xs[i := xs ! m, m := xs ! i] else xs)"

function sort_loop :: "(bytes \<Rightarrow> u32) \<Rightarrow> nat \<Rightarrow> bytes list \<Rightarrow> bytes list" where
  "sort_loop ts i xs = (if i < length xs - 1 then sort_loop ts (i + 1) (swap_at xs i (min_index ts xs (i + 1) i)) else xs)"
  by pat_completeness auto
termination
  by (relation "measure (\<lambda>(ts, i, xs). length xs - i)") (auto simp: swap_at_def)

declare sort_loop.simps [simp del]

fun push_all :: "'d store_env \<Rightarrow> nat \<Rightarrow> bytes list \<Rightarrow> 'd fs_store \<Rightarrow> 'd fs_store option" where
  "push_all env t [] st = Some st"
| "push_all env t (x # xs) st = (case fs_push_type env t st (Some x) of None \<Rightarrow> None | Some (_, st') \<Rightarrow> push_all env t xs st')"

definition table_flush :: "'d store_env \<Rightarrow> scan_kind \<Rightarrow> 'd scan \<Rightarrow> 'd scan option" where
  "table_flush env kd s =
     (if kind_table kd s = [] then Some s
      else map_option (\<lambda>st. set_table kd [] (s\<lparr>sc_store := st\<rparr>))
             (push_all env (kind_type kd) (sort_loop (timestamp_of kd) 0 (kind_table kd s)) (sc_store s)))"

definition tag_table_flush_to_flash :: "'d store_env \<Rightarrow> 'd scan \<Rightarrow> 'd scan option" where
  "tag_table_flush_to_flash env = table_flush env Tags"

definition tran_mac_table_flush_to_flash :: "'d store_env \<Rightarrow> 'd scan \<Rightarrow> 'd scan option" where
  "tran_mac_table_flush_to_flash env = table_flush env Macs"

section \<open>Collecting results\<close>

fun find_addr :: "bytes \<Rightarrow> bytes list \<Rightarrow> nat option" where
  "find_addr a [] = None"
| "find_addr a (x # xs) = (if take 7 x = a then Some 0 else map_option Suc (find_addr a xs))"

text \<open>A copy of more bytes than an array of the entry holds is the outcome \<open>None\<close>. \<open>strncpy\<close>: the bytes before the first zero, filled up with zeros.\<close>

definition strncpy_bytes :: "bytes \<Rightarrow> nat \<Rightarrow> bytes" where
  "strncpy_bytes src n = (let cs = takeWhile (\<lambda>b. b \<noteq> 0) (take n src) in cs @ replicate (n - length cs) 0)"

definition put_timestamp :: "scan_kind \<Rightarrow> u32 \<Rightarrow> bytes \<Rightarrow> bytes" where
  "put_timestamp kd now r = mem_put r (kind_size kd - 4) (le32 now)"

definition tag_update :: "u32 \<Rightarrow> bytes \<Rightarrow> bytes \<Rightarrow> bytes" where
  "tag_update now r item =
     (let i1 = mem_put item 7 (strncpy_bytes (drop 7 r) (ADV_NAME_MAX_LEN - 1));
          i2 = mem_put i1 87 [r ! 87];
          ff = unat (r ! 68); uu = unat (r ! 85);
          i3 = (if ff > 0 then mem_put (mem_put i2 39 (take ff (drop 39 r))) 68 [r ! 68] else i2);
          i4 = (if uu > 0 then mem_put (mem_put i3 69 (take uu (drop 69 r))) 85 [r ! 85] else i3)
      in put_timestamp Tags now (mem_put i4 86 [r ! 86]))"

definition tag_scan_result_save :: "'d store_env \<Rightarrow> u32 \<Rightarrow> bytes \<Rightarrow> 'd scan \<Rightarrow> 'd scan option" where
  "tag_scan_result_save env now r s =
     (let tbl = s_result_table s; new = put_timestamp Tags now r
      in case find_addr (take 7 r) tbl of
           Some i \<Rightarrow>
             if unat (r ! 68) > TAG_FF_DATA_MAX_LEN \<or> unat (r ! 85) > UUID_MAX_LEN then None
             else Some (s\<lparr>s_result_table := tbl[i := tag_update now r (tbl ! i)]\<rparr>)
         | None \<Rightarrow>
             if length tbl < TAG_RESULT_MAX_NUM then Some (s\<lparr>s_result_table := tbl @ [new]\<rparr>)
             else map_option (\<lambda>s1. s1\<lparr>s_result_table := s_result_table s1 @ [new]\<rparr>) (tag_table_flush_to_flash env s))"

text \<open>The message holds the address and the advertising data.\<close>

definition tran_mac_data_handle :: "u32 \<Rightarrow> (bytes \<times> bytes) option \<Rightarrow> 'd scan \<Rightarrow> 'd scan option" where
  "tran_mac_data_handle now msg s =
     (case msg of
        None \<Rightarrow> Some s
      | Some (addr, adv) \<Rightarrow>
          if adv = [] then Some s
          else if length adv > TRAN_MAC_ADV_DATA_MAX_LEN then None
          else
            let tbl = s_tran_mac_result_table s;
                put = (\<lambda>item. put_timestamp Macs now (mem_put (mem_put item 7 adv) 38 [of_nat (length adv)]))
            in Some (case find_addr addr tbl of
                 Some i \<Rightarrow> s\<lparr>s_tran_mac_result_table := tbl[i := put (tbl ! i)]\<rparr>
               | None \<Rightarrow>
                   if length tbl < TRAN_MAC_MAX_NUM
                   then s\<lparr>s_tran_mac_result_table := tbl @ [put (mem_put (replicate 44 0) 0 addr)]\<rparr> else s))"

section \<open>Uploading\<close>

text \<open>\<open>"%02X"\<close>.\<close>

definition hex_digit :: "nat \<Rightarrow> u8" where
  "hex_digit n = (if n < 10 then of_nat (48 + n) else of_nat (55 + n))"

definition hex_byte :: "u8 \<Rightarrow> bytes" where
  "hex_byte b = [hex_digit (unat b div 16), hex_digit (unat b mod 16)]"

definition mac_text :: "bytes \<Rightarrow> bytes" where
  "mac_text r = concat (map (\<lambda>i. hex_byte (r ! i)) [6, 5, 4, 3, 2, 1])"

text \<open>Fields joined by commas.\<close>

fun csv :: "bytes list \<Rightarrow> bytes" where
  "csv [] = []"
| "csv [f] = f"
| "csv (f # g # fs) = f @ ascii '','' @ csv (g # fs)"

definition mac_param :: "bytes \<Rightarrow> u16 \<Rightarrow> bytes" where
  "mac_param r seq =
     csv [decimal_digits (unat seq), decimal_digits (unat (timestamp_of Macs r)), mac_text r, decimal_digits (unat (r ! 38)),
          concat (map hex_byte (take (unat (r ! 38)) (drop 7 r)))]"

text \<open>Reads past an array are the outcome \<open>None\<close>: a data length beyond the array, a name without end.\<close>

definition tran_mac_upload_one :: "bytes \<Rightarrow> u16 \<Rightarrow> 'd scan \<Rightarrow> 'd scan option" where
  "tran_mac_upload_one r seq s =
     (if unat (r ! 38) > TRAN_MAC_ADV_DATA_MAX_LEN then None
      else Some (snd (lte_send_command (ascii ''MACINFO'') (mac_param r seq) s)))"

definition tag_param :: "bytes \<Rightarrow> u16 \<Rightarrow> bytes" where
  "tag_param r seq =
     (let name = takeWhile (\<lambda>b. b \<noteq> 0) (drop 7 r); uu = unat (r ! 85); ff = unat (r ! 68);
          uuid = (if uu > 0 then concat (map hex_byte (take (min uu UUID_MAX_LEN) (drop 69 r))) else ascii ''N/A'');
          ffs = (if ff > 0 then [decimal_digits ff, concat (map hex_byte (take (min ff TAG_FF_DATA_MAX_LEN) (drop 39 r)))]
                 else [ascii ''0'', ascii ''N/A''])
      in take 255 (csv ([decimal_digits (unat seq), decimal_digits (unat (timestamp_of Tags r)), mac_text r, decimal_digits (unat (r ! 86)),
           hex_byte (r ! 87), decimal_digits (length name), name, decimal_digits uu, uuid] @ ffs)))"

definition tag_scan_upload_one :: "bytes \<Rightarrow> u16 \<Rightarrow> 'd scan \<Rightarrow> 'd scan option" where
  "tag_scan_upload_one r seq s =
     (if 0 \<notin> set (take ADV_NAME_MAX_LEN (drop 7 r)) then None
      else Some (snd (lte_send_command (ascii ''TAG'') (tag_param r seq) s)))"

definition kind_command :: "scan_kind \<Rightarrow> bytes" where
  "kind_command kd = (case kd of Tags \<Rightarrow> ascii ''TAG'' | Macs \<Rightarrow> ascii ''MACINFO'')"

definition upload_one :: "scan_kind \<Rightarrow> bytes \<Rightarrow> u16 \<Rightarrow> 'd scan \<Rightarrow> 'd scan option" where
  "upload_one kd r seq s = (case kd of Tags \<Rightarrow> tag_scan_upload_one r seq s | Macs \<Rightarrow> tran_mac_upload_one r seq s)"

definition upload_start :: "scan_kind \<Rightarrow> nat \<Rightarrow> 'd scan \<Rightarrow> 'd scan" where
  "upload_start kd n s =
     snd (lte_send_command (kind_command kd) (take 31 (ascii ''START,'' @ decimal_digits n))
       (s\<lparr>s_tag_macinfo_upload_state := (case kd of Tags \<Rightarrow> UPLOAD_STATE_TAG_START | Macs \<Rightarrow> UPLOAD_STATE_MAC_START),
          s_tag_macinfo_seq := 0, s_flash_consumed := 0, s_rt_count_snap := of_nat (length (kind_table kd s)),
          sc_store := my_flash_store_upload_begin (sc_store s) (kind_type kd)\<rparr>))"

text \<open>The data phase: records of the store first, then those of the table, then the end message.\<close>

definition upload_next :: "'d store_env \<Rightarrow> scan_kind \<Rightarrow> 'd scan \<Rightarrow> 'd scan option" where
  "upload_next env kd s =
     (case my_flash_store_read_next env (sc_store s) (kind_type kd) of (ret, r, st') \<Rightarrow>
        let s1 = s\<lparr>sc_store := st'\<rparr>
        in if ret = 1
           then upload_one kd r (s_tag_macinfo_seq s + 1)
                  (s1\<lparr>s_flash_consumed := s_flash_consumed s + 1, s_tag_macinfo_seq := s_tag_macinfo_seq s + 1\<rparr>)
           else
             let rt_idx = s_tag_macinfo_seq s - s_flash_consumed s
             in if rt_idx < s_rt_count_snap s
                then upload_one kd (table_item kd s1 (unat rt_idx)) (s_tag_macinfo_seq s + 1)
                       (s1\<lparr>s_tag_macinfo_seq := s_tag_macinfo_seq s + 1\<rparr>)
                else Some (snd (lte_send_command (kind_command kd) (ascii ''END'')
                  (set_table kd [] (s1\<lparr>sc_store := snd (my_flash_store_commit env st' (kind_type kd)), s_tag_macinfo_seq := 0,
                     s_flash_consumed := 0,
                     s_tag_macinfo_upload_state := (case kd of Tags \<Rightarrow> UPLOAD_STATE_TAG_END | Macs \<Rightarrow> UPLOAD_STATE_MAC_END)\<rparr>)))))"

definition upload_round_end :: "'d scan \<Rightarrow> 'd scan" where
  "upload_round_end s = sensor_cached_upload_try_start
     (s\<lparr>s_tag_macinfo_seq := 0, s_flash_consumed := 0, s_tag_macinfo_upload_state := UPLOAD_STATE_IDLE, scan_cfg_state := SCAN_STATE_IDLE\<rparr>)"

definition kind_total :: "scan_kind \<Rightarrow> 'd scan \<Rightarrow> nat" where
  "kind_total kd s = my_flash_store_pending_count (sc_store s) (kind_type kd) + length (kind_table kd s)"

definition tag_mac_scan_upload_data :: "'d store_env \<Rightarrow> 'd scan \<Rightarrow> 'd scan option" where
  "tag_mac_scan_upload_data env s =
     (if scan_cfg_state s = SCAN_STATE_SCANNING then Some s
      else case s_tag_macinfo_upload_state s of
        UPLOAD_STATE_IDLE \<Rightarrow>
          Some (if sensor_upload_busy s then s
                else if kind_total Tags s = 0
                then if kind_total Macs s = 0 then s
                     else (upload_start Macs (kind_total Macs s) s)\<lparr>scan_cfg_state := SCAN_STATE_WAITING_UPLOAD\<rparr>
                else (upload_start Tags (kind_total Tags s) s)\<lparr>scan_cfg_state := SCAN_STATE_WAITING_UPLOAD\<rparr>)
      | UPLOAD_STATE_TAG_START \<Rightarrow> upload_next env Tags s
      | UPLOAD_STATE_TAG_END \<Rightarrow>
          Some (if kind_total Macs s = 0 then upload_round_end s else upload_start Macs (kind_total Macs s) s)
      | UPLOAD_STATE_MAC_START \<Rightarrow> upload_next env Macs s
      | UPLOAD_STATE_MAC_END \<Rightarrow> Some (upload_round_end s))"

definition clear_tag_macinfo :: "'d scan \<Rightarrow> 'd scan" where
  "clear_tag_macinfo s =
     sensor_upload_reset True
       (s\<lparr>s_tag_macinfo_seq := 0, s_tag_macinfo_upload_state := UPLOAD_STATE_IDLE, s_flash_consumed := 0, s_rt_count_snap := 0,
          scan_cfg_state := SCAN_STATE_IDLE, s_result_table := [], s_tran_mac_result_table := [],
          sc_store := my_flash_store_rewind (my_flash_store_rewind (sc_store s) FS_TYPE_TAG) FS_TYPE_MAC\<rparr>)"

section \<open>The order of a flushed table\<close>

lemma min_index_spec:
  assumes "m < length xs" "a \<le> m" "a \<le> j" "\<forall>i. a \<le> i \<and> i < j \<longrightarrow> ts (xs ! m) \<le> ts (xs ! i)"
  shows "a \<le> min_index ts xs j m \<and> min_index ts xs j m < length xs \<and>
    (\<forall>i. a \<le> i \<and> i < length xs \<longrightarrow> ts (xs ! min_index ts xs j m) \<le> ts (xs ! i))"
  using assms
proof (induction ts xs j m rule: min_index.induct)
  case (1 ts xs j m)
  show ?case
  proof (cases "j < length xs")
    case True
    let ?m = "if ts (xs ! j) < ts (xs ! m) then j else m"
    have eq: "min_index ts xs j m = min_index ts xs (j + 1) ?m" using True by (subst min_index.simps) simp
    have "a \<le> ?m" "?m < length xs" using True 1(2-4) by auto
    moreover have "\<forall>i. a \<le> i \<and> i < j + 1 \<longrightarrow> ts (xs ! ?m) \<le> ts (xs ! i)"
      using 1(5) by (auto simp: less_Suc_eq)
    ultimately show ?thesis using 1(1) [OF True] 1(4) unfolding eq by simp
  next
    case False
    then have "min_index ts xs j m = m" by (subst min_index.simps) simp
    then show ?thesis using False 1(2-5) by simp
  qed
qed

text \<open>The first \<open>i\<close> entries are in place.\<close>

definition settled :: "(bytes \<Rightarrow> u32) \<Rightarrow> nat \<Rightarrow> bytes list \<Rightarrow> bool" where
  "settled ts i xs \<longleftrightarrow> (\<forall>a b. a < i \<and> a \<le> b \<and> b < length xs \<longrightarrow> ts (xs ! a) \<le> ts (xs ! b))"

lemma swap_settled:
  assumes "settled ts i xs" "i \<le> m" "m < length xs" "\<forall>b. i \<le> b \<and> b < length xs \<longrightarrow> ts (xs ! m) \<le> ts (xs ! b)"
  shows "settled ts (i + 1) (swap_at xs i m)" "mset (swap_at xs i m) = mset xs"
proof -
  have "ts (swap_at xs i m ! a) \<le> ts (swap_at xs i m ! b)" if "a < i + 1" "a \<le> b" "b < length xs" for a b
    using assms that by (cases "a = i") (auto simp: settled_def swap_at_def nth_list_update)
  then show "settled ts (i + 1) (swap_at xs i m)" by (auto simp: settled_def swap_at_def)
  show "mset (swap_at xs i m) = mset xs" using assms(2,3) mset_swap [of m xs i] by (simp add: swap_at_def list_update_swap)
qed

lemma sort_loop_settled:
  assumes "settled ts i xs"
  shows "mset (sort_loop ts i xs) = mset xs \<and> sorted (map ts (sort_loop ts i xs))"
  using assms
proof (induction ts i xs rule: sort_loop.induct)
  case (1 ts i xs)
  show ?case
  proof (cases "i < length xs - 1")
    case True
    let ?m = "min_index ts xs (i + 1) i"
    have "i \<le> ?m \<and> ?m < length xs \<and> (\<forall>b. i \<le> b \<and> b < length xs \<longrightarrow> ts (xs ! ?m) \<le> ts (xs ! b))"
      using True by (intro min_index_spec) (auto simp: less_Suc_eq_le dest!: le_antisym)
    then have "settled ts (i + 1) (swap_at xs i ?m)" "mset (swap_at xs i ?m) = mset xs" using swap_settled [OF 1(2)] by auto
    then show ?thesis using 1(1) [OF True] True by (subst (1 2) sort_loop.simps) simp
  next
    case False
    then have "sort_loop ts i xs = xs" by (subst sort_loop.simps) simp
    moreover have "sorted (map ts xs)" using 1(2) False by (auto simp: settled_def sorted_iff_nth_mono_less)
    ultimately show ?thesis by simp
  qed
qed

section \<open>An upload round\<close>

definition ble_msg :: "bytes \<Rightarrow> bytes \<Rightarrow> lte_msg" where
  "ble_msg cmd param = MY_MSG_LTE_BLE_DATA (Some (lte_command_text cmd param)) (length (lte_command_text cmd param))"

definition kind_param :: "scan_kind \<Rightarrow> bytes \<Rightarrow> u16 \<Rightarrow> bytes" where
  "kind_param kd = (case kd of Tags \<Rightarrow> tag_param | Macs \<Rightarrow> mac_param)"

text \<open>A record the upload can print: the name of a tag is terminated, the data length of a MAC entry is in range.\<close>

definition record_ok :: "scan_kind \<Rightarrow> bytes \<Rightarrow> bool" where
  "record_ok kd r = (case kd of Tags \<Rightarrow> 0 \<in> set (take ADV_NAME_MAX_LEN (drop 7 r)) | Macs \<Rightarrow> unat (r ! 38) \<le> TRAN_MAC_ADV_DATA_MAX_LEN)"

definition kind_start :: "scan_kind \<Rightarrow> upload_state" where
  "kind_start kd = (case kd of Tags \<Rightarrow> UPLOAD_STATE_TAG_START | Macs \<Rightarrow> UPLOAD_STATE_MAC_START)"

definition kind_end :: "scan_kind \<Rightarrow> upload_state" where
  "kind_end kd = (case kd of Tags \<Rightarrow> UPLOAD_STATE_TAG_END | Macs \<Rightarrow> UPLOAD_STATE_MAC_END)"

definition round_start :: "scan_kind \<Rightarrow> nat \<Rightarrow> lte_msg" where
  "round_start kd n = ble_msg (kind_command kd) (ascii ''START,'' @ decimal_digits n)"

definition round_record :: "scan_kind \<Rightarrow> bytes list \<Rightarrow> nat \<Rightarrow> lte_msg" where
  "round_record kd xs i = ble_msg (kind_command kd) (kind_param kd (xs ! (i - 1)) (of_nat i))"

definition round_end :: "scan_kind \<Rightarrow> lte_msg" where
  "round_end kd = ble_msg (kind_command kd) (ascii ''END'')"

lemma send_ble:
  assumes "sc_lte_power s" "sc_alloc s = []"
  shows "lte_send_command cmd param s = (0, s\<lparr>sc_posted := sc_posted s @ [ble_msg cmd param]\<rparr>)"
  using assms by (simp add: lte_send_command_def sc_post_def ble_msg_def Let_def)

lemma upload_one_ok:
  assumes "sc_lte_power s" "sc_alloc s = []" "record_ok kd r"
  shows "upload_one kd r seq s = Some (s\<lparr>sc_posted := sc_posted s @ [ble_msg (kind_command kd) (kind_param kd r seq)]\<rparr>)"
  using assms by (cases kd) (simp_all add: upload_one_def tag_scan_upload_one_def tran_mac_upload_one_def record_ok_def send_ble kind_command_def kind_param_def)

text \<open>
  The round for the stored records \<open>rs\<close> and the table entries \<open>tb\<close> after \<open>k\<close> of them were sent. The table may have grown
  since the round started.
\<close>

definition scan_session :: "'d store_env \<Rightarrow> ('d \<Rightarrow> nat \<Rightarrow> u8) \<Rightarrow> scan_kind \<Rightarrow> bytes list \<Rightarrow> bytes list \<Rightarrow> lte_msg list \<Rightarrow> nat \<Rightarrow> 'd scan \<Rightarrow> bool" where
  "scan_session env mem kd rs tb base k s \<longleftrightarrow>
     s_tag_macinfo_upload_state s = kind_start kd \<and> scan_cfg_state s \<noteq> SCAN_STATE_SCANNING \<and> sc_alloc s = [] \<and> sc_lte_power s \<and> sc_lte_ready s \<and>
     us_active (kind_type kd) (env, mem, sc_store s) \<and> us_limit (kind_type kd) (env, mem, sc_store s) = length rs \<and>
     us_position (kind_type kd) (env, mem, sc_store s) = min k (length rs) \<and> us_pending (kind_type kd) (env, mem, sc_store s) = rs \<and>
     take (length tb) (kind_table kd s) = tb \<and> s_tag_macinfo_seq s = of_nat k \<and> s_flash_consumed s = of_nat (min k (length rs)) \<and>
     s_rt_count_snap s = of_nat (length tb) \<and>
     sc_posted s = base @ round_start kd (length (rs @ tb)) # map (round_record kd (rs @ tb)) [1..<Suc k]"

lemma upload_data_next:
  assumes "scan_session env mem kd rs tb base k s"
  shows "tag_mac_scan_upload_data env s = upload_next env kd s"
  using assms by (cases kd) (simp_all add: tag_mac_scan_upload_data_def scan_session_def kind_start_def)

lemma kind_table_upd [simp]:
  "kind_table kd (s\<lparr>sc_store := st\<rparr>) = kind_table kd s" "kind_table kd (s\<lparr>s_flash_consumed := c\<rparr>) = kind_table kd s"
  "kind_table kd (s\<lparr>s_tag_macinfo_seq := q\<rparr>) = kind_table kd s" "kind_table kd (s\<lparr>sc_posted := ms\<rparr>) = kind_table kd s"
  "kind_table kd (s\<lparr>s_rt_count_snap := c\<rparr>) = kind_table kd s" "kind_table kd (s\<lparr>s_tag_macinfo_upload_state := u\<rparr>) = kind_table kd s"
  "kind_table kd (s\<lparr>scan_cfg_state := g\<rparr>) = kind_table kd s" "kind_table kd (set_table kd xs s) = xs"
  by (cases kd; simp add: kind_table_def set_table_def)+

lemma round_step:
  assumes s: "scan_session env mem kd rs tb base k s" and k: "k < length (rs @ tb)" "length (rs @ tb) < 65536"
    and ok: "\<forall>r \<in> set (rs @ tb). record_ok kd r"
  shows "\<exists>s'. tag_mac_scan_upload_data env s = Some s' \<and> scan_session env mem kd rs tb base (Suc k) s'"
proof -
  let ?t = "kind_type kd"
  obtain ret r st' where rd: "my_flash_store_read_next env (sc_store s) ?t = (ret, r, st')" using prod_cases3 by blast
  have a: "us_active ?t (env, mem, sc_store s)" and f: "us_limit ?t (env, mem, sc_store s) = length rs" "us_pending ?t (env, mem, sc_store s) = rs"
    "us_position ?t (env, mem, sc_store s) = min k (length rs)" "s_tag_macinfo_seq s = of_nat k" "s_flash_consumed s = of_nat (min k (length rs))"
    "s_rt_count_snap s = of_nat (length tb)" "take (length tb) (kind_table kd s) = tb" "sc_lte_power s" "sc_alloc s = []"
    using s by (simp_all add: scan_session_def)
  note nx = read_next_step [OF a rd]
  have okk: "record_ok kd ((rs @ tb) ! k)" using ok k(1) by (metis nth_mem)
  define q where "q = (of_nat (Suc k) :: u16)"
  have q: "s_tag_macinfo_seq s + 1 = q" using f(4) by (simp add: q_def add.commute)
  let ?msg = "ble_msg (kind_command kd) (kind_param kd ((rs @ tb) ! k) q)"
  show ?thesis
  proof (cases "k < length rs")
    case True
    then have r: "ret = 1" "r = (rs @ tb) ! k" "us_active ?t (env, mem, st')" "us_pending ?t (env, mem, st') = rs" "us_limit ?t (env, mem, st') = length rs"
      "us_position ?t (env, mem, st') = Suc k" using nx f(1-3) by (simp_all add: nth_append)
    let ?s = "s\<lparr>sc_store := st', s_flash_consumed := of_nat (Suc k), s_tag_macinfo_seq := q, sc_posted := sc_posted s @ [?msg]\<rparr>"
    have "tag_mac_scan_upload_data env s = Some ?s"
      unfolding upload_data_next [OF s] upload_next_def using rd r(1,2) q okk f(5,8,9) True by (simp add: upload_one_ok add.commute)
    moreover have "scan_session env mem kd rs tb base (Suc k) ?s"
      using s r True unfolding scan_session_def by (simp add: q_def round_record_def)
    ultimately show ?thesis by blast
  next
    case False
    then obtain i where i: "k = length rs + i" "i < length tb" using k(1) by (metis add_less_cancel_left length_append less_eqE not_less)
    have r: "ret \<le> 0" "us_active ?t (env, mem, st')" "us_pending ?t (env, mem, st') = rs" "us_limit ?t (env, mem, st') = length rs"
      "us_position ?t (env, mem, st') = length rs" using nx f(1-3) False by simp_all
    have idx: "s_tag_macinfo_seq s - s_flash_consumed s = of_nat i" using f(4,5) i by simp
    have lt: "(of_nat i :: u16) < of_nat (length tb)" "unat (of_nat i :: u16) = i"
      using k(2) i by (simp_all add: word_less_nat_alt unat_of_nat)
    have "length tb \<le> length (kind_table kd s)" using f(7) by (metis length_take min.cobounded1 min.commute)
    then have item: "table_item kd (s\<lparr>sc_store := st'\<rparr>) i = (rs @ tb) ! k"
      using i f(7) by (simp add: table_item_def) (metis nth_take)
    let ?s = "s\<lparr>sc_store := st', s_tag_macinfo_seq := q, sc_posted := sc_posted s @ [?msg]\<rparr>"
    have "tag_mac_scan_upload_data env s = Some ?s"
      unfolding upload_data_next [OF s] upload_next_def using rd r(1) q okk f(6,8,9) idx lt item by (simp add: upload_one_ok)
    moreover have "scan_session env mem kd rs tb base (Suc k) ?s"
      using s r False unfolding scan_session_def by (simp add: q_def round_record_def)
    ultimately show ?thesis by blast
  qed
qed

lemma round_last:
  assumes s: "scan_session env mem kd rs tb base (length (rs @ tb)) s" and n: "length (rs @ tb) < 65536"
  shows "\<exists>s'. tag_mac_scan_upload_data env s = Some s' \<and> s_tag_macinfo_upload_state s' = kind_end kd \<and> kind_table kd s' = [] \<and>
     sc_posted s' = sc_posted s @ [round_end kd] \<and> store_records mem (sc_store s') (kind_type kd) = []"
proof -
  let ?t = "kind_type kd"
  obtain ret r st' where rd: "my_flash_store_read_next env (sc_store s) ?t = (ret, r, st')" using prod_cases3 by blast
  have a: "us_active ?t (env, mem, sc_store s)" and f: "us_limit ?t (env, mem, sc_store s) = length rs" "us_pending ?t (env, mem, sc_store s) = rs"
    "us_position ?t (env, mem, sc_store s) = length rs" "s_tag_macinfo_seq s - s_flash_consumed s = of_nat (length tb)"
    "s_rt_count_snap s = of_nat (length tb)" "sc_lte_power s" "sc_alloc s = []"
    using s by (simp_all add: scan_session_def)
  have r: "ret \<le> 0" "us_active ?t (env, mem, st')" "us_pending ?t (env, mem, st') = rs" "us_position ?t (env, mem, st') = length rs"
    using read_next_step [OF a rd] f(1-3) by simp_all
  let ?st = "snd (my_flash_store_commit env st' ?t)"
  have "us_pending ?t (us_commit ?t (env, mem, st')) = []" using store.cmt_law [OF r(2)] r(3,4) by simp
  then have c: "store_records mem ?st ?t = []" by (simp add: us_pending_def us_commit_def)
  let ?s = "set_table kd [] (s\<lparr>sc_store := ?st, s_tag_macinfo_seq := 0, s_flash_consumed := 0, s_tag_macinfo_upload_state := kind_end kd\<rparr>)"
  have fl: "sc_lte_power ?s" "sc_alloc ?s = []" "sc_posted ?s = sc_posted s" "s_tag_macinfo_upload_state ?s = kind_end kd" "sc_store ?s = ?st"
    using f(6,7) by (simp_all add: set_table_def split: scan_kind.split)
  have "upload_next env kd s = Some (snd (lte_send_command (kind_command kd) (ascii ''END'') ?s))"
    using rd r(1) f(4,5) by (simp add: upload_next_def kind_end_def)
  then have "tag_mac_scan_upload_data env s = Some (?s\<lparr>sc_posted := sc_posted s @ [round_end kd]\<rparr>)"
    using upload_data_next [OF s] fl(1-3) by (simp add: send_ble round_end_def)
  then show ?thesis using fl c by simp
qed

text \<open>What happens in a round: an acknowledgement, which calls the upload again, or a new sensor sample.\<close>

definition scan_step :: "'d store_env \<Rightarrow> sensor_event \<Rightarrow> 'd scan \<Rightarrow> 'd scan option" where
  "scan_step env e s = (case e of Ack \<Rightarrow> tag_mac_scan_upload_data env s | Sample u r \<Rightarrow> sensor_step env (Sample u r) s)"

fun scan_run :: "'d store_env \<Rightarrow> sensor_event list \<Rightarrow> 'd scan \<Rightarrow> 'd scan option" where
  "scan_run env [] s = Some s"
| "scan_run env (e # es) s = (case scan_step env e s of None \<Rightarrow> None | Some s' \<Rightarrow> scan_run env es s')"

lemma kind_not_sensor: "sensor_type u \<Longrightarrow> u \<noteq> kind_type kd"
  by (cases kd) (auto simp: sensor_type_def kind_type_def)

lemma round_sample:
  assumes s: "scan_session env mem kd rs tb base k s" and u: "sensor_type u" "length r = 8"
  shows "\<exists>s'. scan_step env (Sample u r) s = Some s' \<and> scan_session env mem kd rs tb base k s'"
proof -
  have a: "us_active (kind_type kd) (env, mem, sc_store s)" "s_tag_macinfo_upload_state s \<noteq> UPLOAD_STATE_IDLE" "sc_lte_ready s"
    using s by (auto simp: scan_session_def kind_start_def split: scan_kind.splits)
  show ?thesis using sample_pushed [OF a(1) disjI2 [OF a(2)] a(3) u] kind_not_sensor [OF u(1)] s unfolding scan_session_def scan_step_def by auto
qed

lemma round_events:
  assumes "scan_session env mem kd rs tb base k s" "length (rs @ tb) < 65536" "\<forall>r \<in> set (rs @ tb). record_ok kd r"
    and "\<forall>e \<in> set es. event_ok e" "k + count_list es Ack = length (rs @ tb)"
  shows "\<exists>s'. scan_run env es s = Some s' \<and> scan_session env mem kd rs tb base (length (rs @ tb)) s'"
  using assms(1,4,5)
proof (induction es arbitrary: k s)
  case (Cons e es)
  show ?case
  proof (cases e)
    case Ack
    then have k: "k < length (rs @ tb)" "Suc k + count_list es Ack = length (rs @ tb)" using Cons.prems(3) by simp_all
    obtain s1 where "tag_mac_scan_upload_data env s = Some s1" "scan_session env mem kd rs tb base (Suc k) s1"
      using round_step [OF Cons.prems(1) k(1) assms(2,3)] by blast
    then show ?thesis using Cons.IH [OF _ _ k(2)] Cons.prems(2) Ack by (simp add: scan_step_def)
  next
    case (Sample u r)
    then obtain s1 where "scan_step env e s = Some s1" "scan_session env mem kd rs tb base k s1"
      using round_sample [OF Cons.prems(1), of u r] Cons.prems(2) by auto
    then show ?thesis using Cons.IH [of k s1] Cons.prems(2,3) Sample by simp
  qed
qed simp

text \<open>A round for tags or for MAC entries may start from the idle state, and one for MAC entries after one for tags.\<close>

definition scan_may_start :: "scan_kind \<Rightarrow> 'd scan \<Rightarrow> bool" where
  "scan_may_start kd s \<longleftrightarrow> scan_cfg_state s \<noteq> SCAN_STATE_SCANNING \<and>
     (s_tag_macinfo_upload_state s = UPLOAD_STATE_IDLE \<and> su_state s = SENSOR_UPLOAD_STATE_IDLE \<and> (kd = Tags \<or> kind_total Tags s = 0) \<or>
      s_tag_macinfo_upload_state s = UPLOAD_STATE_TAG_END \<and> kd = Macs)"

lemma round_begin:
  assumes r: "us_ready (kind_type kd) (env, mem, sc_store s)" and m: "scan_may_start kd s" and out: "sc_lte_ready s" "sc_lte_power s" "sc_alloc s = []"
    and rs: "rs = store_records mem (sc_store s) (kind_type kd)" "tb = kind_table kd s" "rs @ tb \<noteq> []" "length (rs @ tb) < 65536"
  shows "\<exists>s'. tag_mac_scan_upload_data env s = Some s' \<and> scan_session env mem kd rs tb (sc_posted s) 0 s'"
proof -
  let ?n = "length (rs @ tb)" and ?t = "kind_type kd"
  have tot: "kind_total kd s = ?n" using pending_count_length us_readyD(1,3) [OF r] rs(1,2) by (simp add: kind_total_def)
  have "length (decimal_digits ?n) \<le> 5" using rs(4) by (intro length_decimal_digits) simp_all
  then have tk: "take 31 (ascii ''START,'' @ decimal_digits ?n) = ascii ''START,'' @ decimal_digits ?n" by (simp add: ascii_def)
  let ?s1 = "s\<lparr>s_tag_macinfo_upload_state := kind_start kd, s_tag_macinfo_seq := 0, s_flash_consumed := 0, s_rt_count_snap := of_nat (length tb),
     sc_store := my_flash_store_upload_begin (sc_store s) ?t, sc_posted := sc_posted s @ [round_start kd ?n]\<rparr>"
  have st: "upload_start kd ?n s = ?s1"
    unfolding upload_start_def tk using out rs(2) by (simp add: send_ble round_start_def kind_start_def)
  have ne: "kind_total kd s \<noteq> 0" using tot rs(3) by simp
  obtain g where "tag_mac_scan_upload_data env s = Some (?s1\<lparr>scan_cfg_state := g\<rparr>)" "g \<noteq> SCAN_STATE_SCANNING"
  proof (cases "s_tag_macinfo_upload_state s = UPLOAD_STATE_IDLE")
    case True
    then have "tag_mac_scan_upload_data env s = Some ((upload_start kd ?n s)\<lparr>scan_cfg_state := SCAN_STATE_WAITING_UPLOAD\<rparr>)"
      using m ne tot by (cases kd) (auto simp: scan_may_start_def tag_mac_scan_upload_data_def sensor_upload_busy_def)
    then show thesis using that st by simp
  next
    case False
    then have "tag_mac_scan_upload_data env s = Some (upload_start kd ?n s)"
      using m ne tot by (auto simp: scan_may_start_def tag_mac_scan_upload_data_def)
    then have "tag_mac_scan_upload_data env s = Some (?s1\<lparr>scan_cfg_state := scan_cfg_state s\<rparr>)" using st by simp
    then show thesis using m by (intro that [of "scan_cfg_state s"]) (assumption | simp add: scan_may_start_def)+
  qed
  moreover have "us_begin ?t (env, mem, sc_store s) = (env, mem, my_flash_store_upload_begin (sc_store s) ?t)" by (simp add: us_begin_def)
  then have "scan_session env mem kd rs tb (sc_posted s) 0 (?s1\<lparr>scan_cfg_state := g\<rparr>)" if "g \<noteq> SCAN_STATE_SCANNING" for g
    using that store.start_law [OF r] out rs(1,2) unfolding scan_session_def by (simp add: us_pending_def)
  ultimately show ?thesis by blast
qed

text \<open>
  C3: an upload round of scanned tags or forwarded MAC entries is complete. From every state in which a round may start, with the records \<open>rs\<close>
  in the store and the entries \<open>tb\<close> in the table, when the module acknowledges each message and any number of sensor samples come in meanwhile,
  the messages sent are the announcement of the exact number of records, each record once, in order and numbered from one, and the end message.
  Then the store holds no record of the kind, the table is empty, and the state machine is at the end of the round.
\<close>

theorem scan_upload_complete:
  assumes "us_ready (kind_type kd) (env, mem, sc_store s)" "scan_may_start kd s" "sc_lte_ready s" "sc_lte_power s" "sc_alloc s = []"
    and "rs = store_records mem (sc_store s) (kind_type kd)" "tb = kind_table kd s" "rs @ tb \<noteq> []" "length (rs @ tb) < 65536"
    and "\<forall>r \<in> set (rs @ tb). record_ok kd r" "\<forall>e \<in> set es. event_ok e" "count_list es Ack = length (rs @ tb)"
  shows "\<exists>s0 s1 s2. tag_mac_scan_upload_data env s = Some s0 \<and> scan_run env es s0 = Some s1 \<and> tag_mac_scan_upload_data env s1 = Some s2 \<and>
     sc_posted s2 = sc_posted s @ round_start kd (length (rs @ tb)) # map (round_record kd (rs @ tb)) [1..<Suc (length (rs @ tb))] @ [round_end kd] \<and>
     store_records mem (sc_store s2) (kind_type kd) = [] \<and> kind_table kd s2 = [] \<and> s_tag_macinfo_upload_state s2 = kind_end kd"
proof -
  obtain s0 where s0: "tag_mac_scan_upload_data env s = Some s0" "scan_session env mem kd rs tb (sc_posted s) 0 s0"
    using round_begin [OF assms(1-9)] by blast
  obtain s1 where s1: "scan_run env es s0 = Some s1" "scan_session env mem kd rs tb (sc_posted s) (length (rs @ tb)) s1"
    using round_events [OF s0(2) assms(9-11)] assms(12) by auto
  have "sc_posted s1 = sc_posted s @ round_start kd (length (rs @ tb)) # map (round_record kd (rs @ tb)) [1..<Suc (length (rs @ tb))]"
    using s1(2) unfolding scan_session_def by blast
  then show ?thesis using round_last [OF s1(2) assms(9)] s0(1) s1(1) by auto
qed

text \<open>An idle scanner with an empty store and one tag in its table.\<close>

definition one_tag :: bytes where
  "one_tag = replicate 92 0"

definition tag_scan :: "ram_dev scan" where
  "tag_scan = (idle_scan ram_start)\<lparr>s_result_table := [one_tag]\<rparr>"

lemma tag_scan_facts:
  "us_ready (kind_type Tags) (ram_store, fst, sc_store tag_scan)" "scan_may_start Tags tag_scan" "sc_lte_ready tag_scan" "sc_lte_power tag_scan"
  "sc_alloc tag_scan = []" "[] = store_records fst (sc_store tag_scan) (kind_type Tags)" "[one_tag] = kind_table Tags tag_scan" "record_ok Tags one_tag"
  "sc_posted tag_scan = []"
proof -
  show "us_ready (kind_type Tags) (ram_store, fst, sc_store tag_scan)" using ram_start_ready [of 0] by (simp add: tag_scan_def idle_scan_def kind_type_def)
  show "[] = store_records fst (sc_store tag_scan) (kind_type Tags)"
    by (simp add: tag_scan_def idle_scan_def kind_type_def store_records_def fs_data_len_def fs_records_def ram_start_def fs_initial_regions_def
        fs_region_consts_def fs_pending_def fs_flash_part_def fs_staged_def)
  show "record_ok Tags one_tag" by (simp add: record_ok_def one_tag_def)
qed (simp_all add: tag_scan_def idle_scan_def scan_may_start_def kind_table_def)

theorem scan_upload_complete_witness:
  "\<exists>s0 s1 s2. tag_mac_scan_upload_data ram_store tag_scan = Some s0 \<and> scan_run ram_store [Sample FS_TYPE_BP (replicate 8 1), Ack] s0 = Some s1 \<and>
     tag_mac_scan_upload_data ram_store s1 = Some s2 \<and>
     sc_posted s2 = [round_start Tags 1, round_record Tags [one_tag] 1, round_end Tags] \<and> kind_table Tags s2 = []"
  using scan_upload_complete [OF tag_scan_facts(1-7), where es = "[Sample FS_TYPE_BP (replicate 8 1), Ack]"] tag_scan_facts(8,9)
  by (auto simp: sensor_type_def)

lemma count_list_acks: "count_list (replicate n x) x = n"
  by (induction n) simp_all

lemma new_tag_added:
  assumes "find_addr (take 7 r) (s_result_table s) = None" "length (s_result_table s) < TAG_RESULT_MAX_NUM"
  shows "tag_scan_result_save env now r s = Some (s\<lparr>s_result_table := s_result_table s @ [put_timestamp Tags now r]\<rparr>)"
  using assms by (simp add: tag_scan_result_save_def)

lemma new_tag_session:
  assumes "scan_session env mem Tags rs tb base k s"
  shows "scan_session env mem Tags rs tb base k (s\<lparr>s_result_table := s_result_table s @ xs\<rparr>)"
proof -
  have "take (length tb) (s_result_table s @ xs) = tb" using assms unfolding scan_session_def kind_table_def
    by simp (metis append_Nil2 diff_is_0_eq length_take min.cobounded1 take0 take_append)
  then show ?thesis using assms unfolding scan_session_def by (simp add: kind_table_def)
qed

text \<open>
  C27: a tag found during an upload round is lost. In whatever state of a round a device with a new address enters the table, when the module acknowledges the
  rest of the round the messages sent are those of the records the round started with; afterwards the table and the store are empty.
  (The comment at the counter \<^verbatim>\<open>s_rt_count_snap\<close> says that such entries are sent in the next round, but the whole table is erased.)
\<close>

theorem late_tag_lost:
  assumes "scan_session env mem Tags rs tb base k s" "k \<le> length (rs @ tb)" "length (rs @ tb) < 65536" "\<forall>r \<in> set (rs @ tb). record_ok Tags r"
    and "find_addr (take 7 r) (s_result_table s) = None" "length (s_result_table s) < TAG_RESULT_MAX_NUM"
  shows "\<exists>s0 s1 s2. tag_scan_result_save env now r s = Some s0 \<and> put_timestamp Tags now r \<in> set (s_result_table s0) \<and>
     scan_run env (replicate (length (rs @ tb) - k) Ack) s0 = Some s1 \<and> tag_mac_scan_upload_data env s1 = Some s2 \<and>
     sc_posted s2 = base @ round_start Tags (length (rs @ tb)) # map (round_record Tags (rs @ tb)) [1..<Suc (length (rs @ tb))] @ [round_end Tags] \<and>
     s_result_table s2 = [] \<and> store_records mem (sc_store s2) FS_TYPE_TAG = []"
proof -
  let ?s0 = "s\<lparr>s_result_table := s_result_table s @ [put_timestamp Tags now r]\<rparr>" and ?es = "replicate (length (rs @ tb) - k) Ack"
  have "\<forall>e \<in> set ?es. event_ok e" "k + count_list ?es Ack = length (rs @ tb)" using assms(2) by (simp_all add: count_list_acks)
  then obtain s1 where s1: "scan_run env ?es ?s0 = Some s1" "scan_session env mem Tags rs tb base (length (rs @ tb)) s1"
    using round_events [OF new_tag_session [OF assms(1)] assms(3,4)] by blast
  have "sc_posted s1 = base @ round_start Tags (length (rs @ tb)) # map (round_record Tags (rs @ tb)) [1..<Suc (length (rs @ tb))]"
    using s1(2) unfolding scan_session_def by blast
  then show ?thesis using round_last [OF s1(2) assms(3)] s1(1) new_tag_added [OF assms(5,6)] by (auto simp: kind_table_def kind_type_def)
qed

theorem late_tag_lost_witness:
  "\<exists>s s0 s1 s2. tag_mac_scan_upload_data ram_store tag_scan = Some s \<and> tag_scan_result_save ram_store 5 (replicate 92 1) s = Some s0 \<and>
     put_timestamp Tags 5 (replicate 92 1) \<in> set (s_result_table s0) \<and> scan_run ram_store [Ack] s0 = Some s1 \<and>
     tag_mac_scan_upload_data ram_store s1 = Some s2 \<and> sc_posted s2 = [round_start Tags 1, round_record Tags [one_tag] 1, round_end Tags] \<and>
     s_result_table s2 = [] \<and> store_records fst (sc_store s2) FS_TYPE_TAG = []"
proof -
  obtain s where s: "tag_mac_scan_upload_data ram_store tag_scan = Some s" "scan_session ram_store fst Tags [] [one_tag] [] 0 s"
    using round_begin [OF tag_scan_facts(1-7)] tag_scan_facts(9) by auto
  have "s_result_table s = [one_tag]"
    using s(1) by (auto simp: tag_mac_scan_upload_data_def tag_scan_def idle_scan_def kind_total_def kind_table_def sensor_upload_busy_def upload_start_def send_ble)
  then show ?thesis using late_tag_lost [OF s(2), of "replicate 92 1" 5] s(1) tag_scan_facts(8) by (auto simp: one_tag_def)
qed

text \<open>
  A table is moved to the store in the order of time. Whatever the order of the entries, the records handed to the store are the entries of the table,
  each as often as it occurs there, by increasing timestamp, and the table is empty afterwards.
\<close>

lemma table_flush_sorted:
  "\<exists>xs. mset xs = mset (kind_table kd s) \<and> sorted (map (timestamp_of kd) xs) \<and>
     table_flush env kd s = (if kind_table kd s = [] then Some s
       else map_option (\<lambda>st. set_table kd [] (s\<lparr>sc_store := st\<rparr>)) (push_all env (kind_type kd) xs (sc_store s)))"
  using sort_loop_settled [of "timestamp_of kd" 0 "kind_table kd s"]
  by (intro exI [of _ "sort_loop (timestamp_of kd) 0 (kind_table kd s)"]) (simp add: settled_def table_flush_def)

end
