(* ===== verification/Scan_Module.thy ===== *)
theory Scan_Module
  imports Tag_Upload
begin

text \<open>
  Model of the rest of \<^verbatim>\<open>src/my_ble_scan.c\<close>: the receive callback, the cache that joins an advertisement with the scan response of the same
  device, the table of name prefixes, the list of forwarded MAC addresses, the configuration, and the message handler of the BLE thread,
  which is the only code that changes the tables and the upload state.

  The Bluetooth stack and the message queues belong to the RTOS: the results of starting and stopping a scan and the outcomes of putting a
  message in a queue are scripts of the state (an exhausted script means success); a queue delivers its messages in order.
  Timers, messages to the own thread and the answers of the module are recorded or given as input. The clock is a function of the number of the call.
\<close>

section \<open>State\<close>

abbreviation (input) TAG_PREFIX_MAX_NUM :: nat where "TAG_PREFIX_MAX_NUM \<equiv> 10"
abbreviation (input) TAG_PREFIX_MAX_LEN :: nat where "TAG_PREFIX_MAX_LEN \<equiv> 16"
abbreviation (input) ADV_CACHE_MAX_NUM :: nat where "ADV_CACHE_MAX_NUM \<equiv> 10"
abbreviation (input) SCAN_MODE_OFF :: u8 where "SCAN_MODE_OFF \<equiv> 0"
abbreviation (input) SCAN_MODE_PERIOD_CACHE :: u8 where "SCAN_MODE_PERIOD_CACHE \<equiv> 1"
abbreviation (input) SCAN_MODE_PERIOD_UPLOAD :: u8 where "SCAN_MODE_PERIOD_UPLOAD \<equiv> 2"
abbreviation (input) EEXIST :: int where "EEXIST \<equiv> 17"
abbreviation (input) ENOENT :: int where "ENOENT \<equiv> 2"

datatype adv_type = BT_GAP_ADV_TYPE_ADV_IND | BT_GAP_ADV_TYPE_SCAN_RSP | BT_GAP_ADV_TYPE_other

datatype scan_msg = MY_MSG_TAG_SCAN_PROCESS | MY_MSG_TRAN_MAC_PROCESS | MY_MSG_SCAN_INTERVAL | MY_MSG_SCAN_LENGTH | MY_MSG_SCAN_UPLOAD
  | MY_MSG_UPLOAD_WAKEUP | MY_MSG_BLE_SENSOR_TH_SAMPLE | MY_MSG_BLE_SENSOR_BP_SAMPLE | MY_MSG_BLE_SENSOR_LTE_ACK | MY_MSG_other

datatype scan_timer = MY_TIMER_SCAN_INTERVAL | MY_TIMER_SCAN_LENGTH | MY_TIMER_UPLOAD_INTERVAL

datatype scan_out = Start_Timer scan_timer u32 bool | Stop_Timer scan_timer | Send_Msg scan_msg

record adv_cache_item =
  ac_addr :: bytes
  ac_ff_data :: bytes
  ac_ff_data_len :: u8
  ac_valid :: bool
  ac_seq_num :: u32

record 'd scanner =
  sn :: "'d scan"
  sn_mode :: u8
  sn_scan_interval :: u32
  sn_scan_length :: u32
  sn_upload_interval :: u32
  s_prefix_table :: "bytes list"
  s_adv_cache_table :: "adv_cache_item list"
  s_cache_seq_counter :: u32
  bt_parmac_macs :: "bytes list"
  s_tag_scan_process_msgq :: "(adv_type \<times> bytes) list"
  s_tran_mac_process_msgq :: "(bytes \<times> bytes) list"
  sn_put :: "bool list"
  sn_bt :: "int list"
  sn_out :: "scan_out list"

definition sn_do :: "scan_out \<Rightarrow> 'd scanner \<Rightarrow> 'd scanner" where
  "sn_do a s = s\<lparr>sn_out := sn_out s @ [a]\<rparr>"

section \<open>Prefixes and forwarded addresses\<close>

text \<open>The length of a prefix is kept in a byte. A valid entry holds its prefix without the terminator.\<close>

definition my_tag_prefix_add :: "bytes \<Rightarrow> 'd scanner \<Rightarrow> int \<times> 'd scanner" where
  "my_tag_prefix_add prefix s =
     (if length (s_prefix_table s) \<ge> TAG_PREFIX_MAX_NUM then (-ENOMEM, s)
      else
        let len = unat (of_nat (length prefix) :: u8)
        in if len = 0 \<or> len \<ge> TAG_PREFIX_MAX_LEN then (-EINVAL, s)
           else (0, s\<lparr>s_prefix_table := s_prefix_table s @ [take len prefix]\<rparr>))"

definition tag_prefix_table_init :: "'d scanner \<Rightarrow> 'd scanner" where
  "tag_prefix_table_init s =
     fold (\<lambda>p. snd \<circ> my_tag_prefix_add p) [ascii ''L780'', ascii ''PB7'', ascii ''LL311'', ascii ''PET''] (s\<lparr>s_prefix_table := []\<rparr>)"

definition tag_name_match :: "bytes \<Rightarrow> 'd scanner \<Rightarrow> bool" where
  "tag_name_match name s \<longleftrightarrow> name \<noteq> [] \<and> list_ex (\<lambda>p. length name \<ge> length p \<and> take (length p) name = p) (s_prefix_table s)"

definition my_tran_mac_check :: "bytes \<Rightarrow> 'd scanner \<Rightarrow> bool" where
  "my_tran_mac_check addr s \<longleftrightarrow> addr \<in> set (bt_parmac_macs s)"

definition my_tran_mac_add :: "bytes \<Rightarrow> 'd scanner \<Rightarrow> int \<times> 'd scanner" where
  "my_tran_mac_add addr s =
     (if length (bt_parmac_macs s) \<ge> TRAN_MAC_MAX_NUM then (-ENOMEM, s)
      else if my_tran_mac_check addr s then (-EEXIST, s)
      else (0, s\<lparr>bt_parmac_macs := bt_parmac_macs s @ [addr]\<rparr>))"

text \<open>The entries behind the deleted one move up.\<close>

fun mac_del :: "bytes \<Rightarrow> bytes list \<Rightarrow> bytes list option" where
  "mac_del addr [] = None"
| "mac_del addr (m # ms) = (if m = addr then Some ms else map_option ((#) m) (mac_del addr ms))"

definition my_tran_mac_del :: "bytes \<Rightarrow> 'd scanner \<Rightarrow> int \<times> 'd scanner" where
  "my_tran_mac_del addr s =
     (case mac_del addr (bt_parmac_macs s) of Some ms \<Rightarrow> (0, s\<lparr>bt_parmac_macs := ms\<rparr>) | None \<Rightarrow> (-ENOENT, s))"

definition my_tran_mac_del_all :: "'d scanner \<Rightarrow> 'd scanner" where
  "my_tran_mac_del_all s = s\<lparr>bt_parmac_macs := []\<rparr>"

section \<open>Receiving\<close>

text \<open>A message put in a queue without waiting: whether there was room.\<close>

definition put_result :: "'d scanner \<Rightarrow> bool \<times> 'd scanner" where
  "put_result s = (case sn_put s of [] \<Rightarrow> (True, s) | ok # oks \<Rightarrow> (ok, s\<lparr>sn_put := oks\<rparr>))"

definition put_tag_msg :: "adv_type \<times> bytes \<Rightarrow> 'd scanner \<Rightarrow> bool \<times> 'd scanner" where
  "put_tag_msg m s = (case put_result s of (ok, s1) \<Rightarrow>
     (ok, if ok then sn_do (Send_Msg MY_MSG_TAG_SCAN_PROCESS) (s1\<lparr>s_tag_scan_process_msgq := s_tag_scan_process_msgq s1 @ [m]\<rparr>) else s1))"

definition put_mac_msg :: "bytes \<times> bytes \<Rightarrow> 'd scanner \<Rightarrow> 'd scanner" where
  "put_mac_msg m s = (case put_result s of (ok, s1) \<Rightarrow>
     (if ok then sn_do (Send_Msg MY_MSG_TRAN_MAC_PROCESS) (s1\<lparr>s_tran_mac_process_msgq := s_tran_mac_process_msgq s1 @ [m]\<rparr>) else s1))"

text \<open>The empty result with address and signal strength.\<close>

definition new_result :: "bytes \<Rightarrow> u8 \<Rightarrow> bytes" where
  "new_result addr rssi = mem_put (mem_put (replicate 92 0) 0 addr) 87 [rssi]"

definition scan_recv_cb :: "'b net_buf_ops \<Rightarrow> adv_type \<Rightarrow> bytes \<Rightarrow> u8 \<Rightarrow> 'b \<Rightarrow> 'd scanner \<Rightarrow> 'd scanner option" where
  "scan_recv_cb ops at addr rssi buf s =
     (case at of
        BT_GAP_ADV_TYPE_other \<Rightarrow> Some s
      | BT_GAP_ADV_TYPE_ADV_IND \<Rightarrow>
          (case parse_ff_data ops buf TAG_FF_DATA_MAX_LEN of
             None \<Rightarrow> None
           | Some ff \<Rightarrow>
               let (go, s1) = (case ff of
                     Some d \<Rightarrow> put_tag_msg (at, mem_put (mem_put (new_result addr rssi) 39 d) 68 [of_nat (length d)]) s
                   | None \<Rightarrow> (True, s))
               in Some (if go \<and> my_tran_mac_check addr s1
                        then put_mac_msg (addr, take (min (nb_len ops buf) TRAN_MAC_ADV_DATA_MAX_LEN) (nb_data ops buf)) s1 else s1))
      | BT_GAP_ADV_TYPE_SCAN_RSP \<Rightarrow>
          (case parse_scan_rsp_name ops buf ADV_NAME_MAX_LEN of
             None \<Rightarrow> None
           | Some None \<Rightarrow> Some s
           | Some (Some name) \<Rightarrow>
               (case parse_scan_rsp_payload ops buf (mem_put (new_result addr rssi) 7 (strncpy_bytes name (ADV_NAME_MAX_LEN - 1))) of
                  None \<Rightarrow> None
                | Some (_, r) \<Rightarrow> Some (snd (put_tag_msg (at, r) s)))))"

section \<open>Joining advertisement and scan response\<close>

fun cache_find :: "bytes \<Rightarrow> adv_cache_item list \<Rightarrow> nat option" where
  "cache_find a [] = None"
| "cache_find a (x # xs) = (if ac_valid x \<and> ac_addr x = a then Some 0 else map_option Suc (cache_find a xs))"

fun cache_free :: "adv_cache_item list \<Rightarrow> nat option" where
  "cache_free [] = None"
| "cache_free (x # xs) = (if \<not> ac_valid x then Some 0 else map_option Suc (cache_free xs))"

function cache_oldest :: "adv_cache_item list \<Rightarrow> nat \<Rightarrow> u32 \<Rightarrow> nat \<Rightarrow> nat" where
  "cache_oldest xs j min_seq oldest_idx =
     (if j < length xs
      then if ac_seq_num (xs ! j) < min_seq then cache_oldest xs (j + 1) (ac_seq_num (xs ! j)) j
           else cache_oldest xs (j + 1) min_seq oldest_idx
      else oldest_idx)"
  by pat_completeness auto
termination
  by (relation "measure (\<lambda>(xs, j, m, i). length xs - j)") auto

declare cache_oldest.simps [simp del]

definition cache_slot :: "bytes \<Rightarrow> adv_cache_item list \<Rightarrow> nat" where
  "cache_slot a xs =
     (case cache_find a xs of Some i \<Rightarrow> i
      | None \<Rightarrow> (case cache_free xs of Some i \<Rightarrow> i | None \<Rightarrow> cache_oldest xs 1 (ac_seq_num (xs ! 0)) 0))"

text \<open>The advertisement data of the result \<open>r\<close> is copied to a slot; more than the array holds is the outcome \<open>None\<close>.\<close>

definition cache_put :: "bytes \<Rightarrow> 'd scanner \<Rightarrow> 'd scanner option" where
  "cache_put r s =
     (let xs = s_adv_cache_table s; a = take 7 r; i = cache_slot a xs; n = unat (r ! 68)
      in if n > TAG_FF_DATA_MAX_LEN then None
         else Some (s\<lparr>s_adv_cache_table := xs[i := \<lparr>ac_addr = a, ac_ff_data = mem_put (ac_ff_data (xs ! i)) 0 (take n (drop 39 r)),
                 ac_ff_data_len = r ! 68, ac_valid = True, ac_seq_num = s_cache_seq_counter s\<rparr>],
               s_cache_seq_counter := s_cache_seq_counter s + 1\<rparr>))"

definition cache_release :: "nat \<Rightarrow> 'd scanner \<Rightarrow> 'd scanner" where
  "cache_release i s = s\<lparr>s_adv_cache_table := (s_adv_cache_table s)[i := (s_adv_cache_table s ! i)\<lparr>ac_valid := False\<rparr>]\<rparr>"

definition result_name :: "bytes \<Rightarrow> bytes" where
  "result_name r = takeWhile (\<lambda>b. b \<noteq> 0) (drop 7 r)"

definition tag_scan_data_handle :: "'d store_env \<Rightarrow> u32 \<Rightarrow> (adv_type \<times> bytes) option \<Rightarrow> 'd scanner \<Rightarrow> 'd scanner option" where
  "tag_scan_data_handle env now msg s =
     (case msg of
        None \<Rightarrow> Some s
      | Some (at, r) \<Rightarrow>
          if at = BT_GAP_ADV_TYPE_ADV_IND then cache_put r s
          else if 0 \<notin> set (take ADV_NAME_MAX_LEN (drop 7 r)) then None
          else if \<not> tag_name_match (result_name r) s
          then Some (case cache_find (take 7 r) (s_adv_cache_table s) of Some i \<Rightarrow> cache_release i s | None \<Rightarrow> s)
          else
            (case cache_find (take 7 r) (s_adv_cache_table s) of
               None \<Rightarrow> map_option (\<lambda>x. s\<lparr>sn := x\<rparr>) (tag_scan_result_save env now r (sn s))
             | Some i \<Rightarrow>
                 let c = s_adv_cache_table s ! i; n = unat (ac_ff_data_len c);
                     r1 = mem_put (mem_put r 39 (take n (ac_ff_data c))) 68 [ac_ff_data_len c]; s1 = cache_release i s
                 in if n > TAG_FF_DATA_MAX_LEN then None
                    else map_option (\<lambda>x. s1\<lparr>sn := x\<rparr>) (tag_scan_result_save env now r1 (sn s1))))"

section \<open>Starting and stopping\<close>

definition bt_result :: "'d scanner \<Rightarrow> int \<times> 'd scanner" where
  "bt_result s = (case sn_bt s of [] \<Rightarrow> (0, s) | r # rs \<Rightarrow> (r, s\<lparr>sn_bt := rs\<rparr>))"

definition sn_upd :: "('d scan \<Rightarrow> 'd scan) \<Rightarrow> 'd scanner \<Rightarrow> 'd scanner" where
  "sn_upd f s = s\<lparr>sn := f (sn s)\<rparr>"

definition scan_start_internal :: "'d scanner \<Rightarrow> int \<times> 'd scanner" where
  "scan_start_internal s =
     (if sn_mode s = SCAN_MODE_OFF then (-EINVAL, s)
      else if scan_cfg_state (sn s) = SCAN_STATE_SCANNING then (0, s)
      else case bt_result s of (err, s1) \<Rightarrow>
        if err \<noteq> 0 then (err, s1)
        else
          let s2 = sn_upd (\<lambda>x. x\<lparr>scan_cfg_state := SCAN_STATE_SCANNING\<rparr>) s1
          in (0, if sn_scan_length s2 > 0 then sn_do (Start_Timer MY_TIMER_SCAN_LENGTH (sn_scan_length s2 * 1000) False) s2 else s2))"

definition empty_cache :: "adv_cache_item list" where
  "empty_cache = replicate ADV_CACHE_MAX_NUM
     \<lparr>ac_addr = replicate 7 0, ac_ff_data = replicate TAG_FF_DATA_MAX_LEN 0, ac_ff_data_len = 0, ac_valid = False, ac_seq_num = 0\<rparr>"

definition scan_stop_internal :: "'d scanner \<Rightarrow> int \<times> 'd scanner" where
  "scan_stop_internal s =
     (if scan_cfg_state (sn s) \<noteq> SCAN_STATE_SCANNING then (0, s)
      else case bt_result s of (err, s1) \<Rightarrow>
        if err \<noteq> 0 then (err, s1)
        else (0, sn_do (Stop_Timer MY_TIMER_SCAN_LENGTH)
               (sn_upd (\<lambda>x. x\<lparr>scan_cfg_state := SCAN_STATE_IDLE\<rparr>) (s1\<lparr>s_adv_cache_table := empty_cache, s_cache_seq_counter := 0\<rparr>))))"

definition flush_tables :: "'d store_env \<Rightarrow> 'd scanner \<Rightarrow> 'd scanner option" where
  "flush_tables env s = map_option (\<lambda>x. s\<lparr>sn := x\<rparr>) (Option.bind (tag_table_flush_to_flash env (sn s)) (tran_mac_table_flush_to_flash env))"

definition scan_data_reset :: "'d scan \<Rightarrow> 'd scan" where
  "scan_data_reset x =
     sensor_upload_reset True
       (x\<lparr>s_tag_macinfo_seq := 0, s_tag_macinfo_upload_state := UPLOAD_STATE_IDLE, s_flash_consumed := 0, s_rt_count_snap := 0,
          sc_store := my_flash_store_rewind (my_flash_store_rewind (sc_store x) FS_TYPE_TAG) FS_TYPE_MAC\<rparr>)"

definition scan_mode_start :: "'d scanner \<Rightarrow> 'd scanner" where
  "scan_mode_start s =
     (let interval = sn_do (Start_Timer MY_TIMER_SCAN_INTERVAL (sn_scan_interval s * 1000) True) s
      in if sn_mode s = SCAN_MODE_PERIOD_CACHE then snd (scan_start_internal interval)
         else if sn_mode s = SCAN_MODE_PERIOD_UPLOAD
         then snd (scan_start_internal (sn_do (Start_Timer MY_TIMER_UPLOAD_INTERVAL (sn_upload_interval s * 1000) True) interval))
         else s)"

definition my_scan_set_config :: "'d store_env \<Rightarrow> u8 \<Rightarrow> u32 \<Rightarrow> u32 \<Rightarrow> u32 \<Rightarrow> 'd scanner \<Rightarrow> 'd scanner option" where
  "my_scan_set_config env mode scan_interval scan_length upload_interval s =
     (let s1 = sn_do (Stop_Timer MY_TIMER_UPLOAD_INTERVAL) (sn_do (Stop_Timer MY_TIMER_SCAN_LENGTH) (sn_do (Stop_Timer MY_TIMER_SCAN_INTERVAL) s))
      in map_option (\<lambda>s2. scan_mode_start
             ((sn_upd (\<lambda>x. (scan_data_reset x)\<lparr>scan_cfg_state := SCAN_STATE_IDLE\<rparr>) s2)
                \<lparr>sn_mode := mode, sn_scan_interval := scan_interval, sn_scan_length := scan_length, sn_upload_interval := upload_interval\<rparr>))
           (flush_tables env (snd (scan_stop_internal s1))))"

definition my_scan_init :: "'d store_env \<Rightarrow> u8 \<Rightarrow> u32 \<Rightarrow> u32 \<Rightarrow> u32 \<Rightarrow> 'd scanner \<Rightarrow> (int \<times> 'd scanner) option" where
  "my_scan_init env mode scan_interval scan_length upload_interval s =
     (let s1 = sn_upd (\<lambda>x. x\<lparr>sc_store := snd (my_flash_store_init env (sc_store x))\<rparr>) s;
          s2 = sn_upd (\<lambda>x. x\<lparr>s_result_table := [], s_tran_mac_result_table := []\<rparr>) (tag_prefix_table_init s1);
          (err, s3) = bt_result (s2\<lparr>s_adv_cache_table := empty_cache, s_cache_seq_counter := 0\<rparr>)
      in if err \<noteq> 0 then Some (err, s3)
         else map_option (\<lambda>s4. (0, s4)) (my_scan_set_config env mode scan_interval scan_length upload_interval s3))"

definition my_scan_upload_on_lte_wakeup :: "'d scanner \<Rightarrow> 'd scanner" where
  "my_scan_upload_on_lte_wakeup s = sn_do (Send_Msg MY_MSG_UPLOAD_WAKEUP) s"

text \<open>The three timer callbacks.\<close>

definition scan_interval_timer_cb :: "'d scanner \<Rightarrow> 'd scanner" where
  "scan_interval_timer_cb s = sn_do (Send_Msg MY_MSG_SCAN_INTERVAL) s"

definition scan_length_timer_cb :: "'d scanner \<Rightarrow> 'd scanner" where
  "scan_length_timer_cb s = sn_do (Send_Msg MY_MSG_SCAN_LENGTH) s"

definition upload_interval_timer_cb :: "'d scanner \<Rightarrow> 'd scanner" where
  "upload_interval_timer_cb s = sn_do (Send_Msg MY_MSG_SCAN_UPLOAD) s"

section \<open>The message handler\<close>

definition sn_try :: "('d scan \<Rightarrow> 'd scan option) \<Rightarrow> 'd scanner \<Rightarrow> 'd scanner option" where
  "sn_try f s = map_option (\<lambda>x. s\<lparr>sn := x\<rparr>) (f (sn s))"

definition scan_nothing_pending :: "'d scan \<Rightarrow> bool" where
  "scan_nothing_pending x \<longleftrightarrow> s_result_table x = [] \<and> s_tran_mac_result_table x = [] \<and>
     my_flash_store_pending_count (sc_store x) FS_TYPE_TAG = 0 \<and> my_flash_store_pending_count (sc_store x) FS_TYPE_MAC = 0"

definition scan_trigger_upload :: "'d store_env \<Rightarrow> 'd scanner \<Rightarrow> 'd scanner option" where
  "scan_trigger_upload env s =
     (let s1 = (if scan_cfg_state (sn s) = SCAN_STATE_SCANNING then snd (scan_stop_internal s) else s)
      in if scan_nothing_pending (sn s1) then Some (sn_upd (\<lambda>x. x\<lparr>scan_cfg_state := SCAN_STATE_IDLE\<rparr>) s1)
         else sn_try (tag_mac_scan_upload_data env) (sn_upd (\<lambda>x. x\<lparr>boot_reason_scan := True\<rparr>) s1))"

fun tag_drain :: "'d store_env \<Rightarrow> (nat \<Rightarrow> u32) \<Rightarrow> nat \<Rightarrow> (adv_type \<times> bytes) list \<Rightarrow> 'd scanner \<Rightarrow> 'd scanner option" where
  "tag_drain env clock k [] s = Some s"
| "tag_drain env clock k (m # q) s =
     (case tag_scan_data_handle env (clock k) (Some m) (s\<lparr>s_tag_scan_process_msgq := q\<rparr>) of
        None \<Rightarrow> None
      | Some s' \<Rightarrow> tag_drain env clock (k + 1) q s')"

fun mac_drain :: "(nat \<Rightarrow> u32) \<Rightarrow> nat \<Rightarrow> (bytes \<times> bytes) list \<Rightarrow> 'd scanner \<Rightarrow> 'd scanner option" where
  "mac_drain clock k [] s = Some s"
| "mac_drain clock k (m # q) s =
     (case sn_try (tran_mac_data_handle (clock k) (Some m)) (s\<lparr>s_tran_mac_process_msgq := q\<rparr>) of
        None \<Rightarrow> None
      | Some s' \<Rightarrow> mac_drain clock (k + 1) q s')"

text \<open>What the handler reads: the clock, the last samples and the last answer of the module.\<close>

record scan_input =
  in_clock :: "nat \<Rightarrow> u32"
  in_th :: bytes
  in_bp :: bytes
  in_rsp :: ble_rsp

definition upload_wakeup :: "'d store_env \<Rightarrow> 'd scanner \<Rightarrow> 'd scanner option" where
  "upload_wakeup env s =
     (if (sn_mode s = SCAN_MODE_PERIOD_CACHE \<or> sn_mode s = SCAN_MODE_PERIOD_UPLOAD) \<and> \<not> scan_nothing_pending (sn s)
      then
        let s1 = (if scan_cfg_state (sn s) = SCAN_STATE_SCANNING then snd (scan_stop_internal s) else s)
        in if scan_cfg_state (sn s1) = SCAN_STATE_WAITING_UPLOAD then Some s1 else sn_try (tag_mac_scan_upload_data env) s1
      else Some s)"

definition my_scan_msg_handler :: "'d store_env \<Rightarrow> scan_input \<Rightarrow> scan_msg option \<Rightarrow> 'd scanner \<Rightarrow> 'd scanner option" where
  "my_scan_msg_handler env inp msg s =
     (case msg of
        None \<Rightarrow> Some s
      | Some m \<Rightarrow> (case m of
          MY_MSG_TAG_SCAN_PROCESS \<Rightarrow> tag_drain env (in_clock inp) 0 (s_tag_scan_process_msgq s) s
        | MY_MSG_TRAN_MAC_PROCESS \<Rightarrow> mac_drain (in_clock inp) 0 (s_tran_mac_process_msgq s) s
        | MY_MSG_SCAN_INTERVAL \<Rightarrow>
            Some (if (sn_mode s = SCAN_MODE_PERIOD_CACHE \<or> sn_mode s = SCAN_MODE_PERIOD_UPLOAD) \<and> scan_cfg_state (sn s) = SCAN_STATE_IDLE
                  then snd (scan_start_internal s) else s)
        | MY_MSG_SCAN_LENGTH \<Rightarrow> flush_tables env (snd (scan_stop_internal s))
        | MY_MSG_SCAN_UPLOAD \<Rightarrow>
            if sn_mode s = SCAN_MODE_PERIOD_UPLOAD \<and> \<not> scan_nothing_pending (sn s) \<and> scan_cfg_state (sn s) \<noteq> SCAN_STATE_WAITING_UPLOAD
            then scan_trigger_upload env s else Some s
        | MY_MSG_UPLOAD_WAKEUP \<Rightarrow> map_option (sn_upd sensor_cached_upload_try_start) (upload_wakeup env s)
        | MY_MSG_BLE_SENSOR_TH_SAMPLE \<Rightarrow> sn_try (sensor_process_temp_humi_sample env (Some (in_th inp))) s
        | MY_MSG_BLE_SENSOR_BP_SAMPLE \<Rightarrow> sn_try (sensor_process_barometer_sample env (Some (in_bp inp))) s
        | MY_MSG_BLE_SENSOR_LTE_ACK \<Rightarrow> Some (sn_upd (sensor_handle_lte_ack env (Some (in_rsp inp))) s)
        | MY_MSG_other \<Rightarrow> Some s))"

section \<open>The invariant\<close>

text \<open>
  Entries of the tables and queued messages are well-formed: the right size, a terminated name and lengths within the arrays. The
  tables are within their arrays, and the two uploads exclude each other.
\<close>

definition tag_entry_ok :: "bytes \<Rightarrow> bool" where
  "tag_entry_ok r \<longleftrightarrow> length r = 92 \<and> r ! 38 = 0 \<and> unat (r ! 68) \<le> TAG_FF_DATA_MAX_LEN \<and> unat (r ! 85) \<le> UUID_MAX_LEN"

definition mac_entry_ok :: "bytes \<Rightarrow> bool" where
  "mac_entry_ok r \<longleftrightarrow> length r = 44 \<and> unat (r ! 38) \<le> TRAN_MAC_ADV_DATA_MAX_LEN"

definition cache_item_ok :: "adv_cache_item \<Rightarrow> bool" where
  "cache_item_ok c \<longleftrightarrow> length (ac_ff_data c) = TAG_FF_DATA_MAX_LEN \<and> unat (ac_ff_data_len c) \<le> TAG_FF_DATA_MAX_LEN"

definition uploads_exclusive :: "'d scan \<Rightarrow> bool" where
  "uploads_exclusive x \<longleftrightarrow> \<not> (sensor_upload_busy x \<and> s_tag_macinfo_upload_state x \<noteq> UPLOAD_STATE_IDLE)"

definition scan_wf :: "'d scan \<Rightarrow> bool" where
  "scan_wf x \<longleftrightarrow> length (s_result_table x) \<le> TAG_RESULT_MAX_NUM \<and> list_all tag_entry_ok (s_result_table x) \<and>
     length (s_tran_mac_result_table x) \<le> TRAN_MAC_MAX_NUM \<and> list_all mac_entry_ok (s_tran_mac_result_table x) \<and> uploads_exclusive x"

definition scanner_wf :: "'d scanner \<Rightarrow> bool" where
  "scanner_wf s \<longleftrightarrow> scan_wf (sn s) \<and> length (s_adv_cache_table s) = ADV_CACHE_MAX_NUM \<and> list_all cache_item_ok (s_adv_cache_table s) \<and>
     list_all (\<lambda>m. tag_entry_ok (snd m)) (s_tag_scan_process_msgq s) \<and> list_all (\<lambda>(a, d). length a = 7 \<and> length d \<le> TRAN_MAC_ADV_DATA_MAX_LEN) (s_tran_mac_process_msgq s)"

lemma tag_entry_printable: "tag_entry_ok r \<Longrightarrow> record_ok Tags r"
proof -
  assume r: "tag_entry_ok r"
  then have "take 32 (drop 7 r) ! 31 = 0" "31 < length (take 32 (drop 7 r))" by (simp_all add: tag_entry_ok_def)
  then show ?thesis by (metis nth_mem record_ok_def scan_kind.simps(3))
qed

lemma mac_entry_printable: "mac_entry_ok r \<Longrightarrow> record_ok Macs r"
  by (simp add: mac_entry_ok_def record_ok_def)

subsection \<open>Entries\<close>

lemma length_strncpy [simp]: "length (strncpy_bytes src n) = n"
proof -
  have "length (takeWhile (\<lambda>b. b \<noteq> 0) (take n src)) \<le> n" by (metis length_take length_takeWhile_le min.boundedE order_trans)
  then show ?thesis by (simp add: strncpy_bytes_def Let_def)
qed

lemma put_timestamp_ok [simp]:
  "tag_entry_ok r \<Longrightarrow> tag_entry_ok (put_timestamp Tags now r)" "mac_entry_ok q \<Longrightarrow> mac_entry_ok (put_timestamp Macs now q)"
  by (simp_all add: tag_entry_ok_def mac_entry_ok_def put_timestamp_def kind_size_def nth_mem_put)

lemma mem_put_ok:
  assumes "tag_entry_ok r" "off + length bs \<le> 38 \<or> 39 \<le> off" "off + length bs \<le> 68 \<or> 69 \<le> off" "off + length bs \<le> 85 \<or> 86 \<le> off"
  shows "tag_entry_ok (mem_put r off bs)"
  using assms by (auto simp: tag_entry_ok_def nth_mem_put)

lemma tag_update_ok:
  assumes "tag_entry_ok r" "tag_entry_ok item"
  shows "tag_entry_ok (tag_update now r item)"
proof -
  let ?i2 = "mem_put (mem_put item 7 (strncpy_bytes (drop 7 r) 31)) 87 [r ! 87]" and ?ff = "unat (r ! 68)" and ?uu = "unat (r ! 85)"
  define i3 where "i3 = (if ?ff > 0 then mem_put (mem_put ?i2 39 (take ?ff (drop 39 r))) 68 [r ! 68] else ?i2)"
  define i4 where "i4 = (if ?uu > 0 then mem_put (mem_put i3 69 (take ?uu (drop 69 r))) 85 [r ! 85] else i3)"
  have i2: "tag_entry_ok ?i2" by (intro mem_put_ok assms(2)) simp_all
  have "?ff \<le> 29" "?uu \<le> 16" using assms(1) by (simp_all add: tag_entry_ok_def)
  then have "tag_entry_ok (mem_put ?i2 39 (take ?ff (drop 39 r)))" by (intro mem_put_ok i2) simp_all
  then have i3: "tag_entry_ok i3" using i2 assms(1) by (auto simp: i3_def tag_entry_ok_def nth_mem_put)
  have "tag_entry_ok (mem_put i3 69 (take ?uu (drop 69 r)))" using \<open>?uu \<le> 16\<close> by (intro mem_put_ok i3) simp_all
  then have "tag_entry_ok i4" using i3 assms(1) by (auto simp: i4_def tag_entry_ok_def nth_mem_put)
  then have "tag_entry_ok (mem_put i4 86 [r ! 86])" by (intro mem_put_ok) simp_all
  moreover have "tag_update now r item = put_timestamp Tags now (mem_put i4 86 [r ! 86])"
    by (simp add: tag_update_def Let_def i3_def i4_def)
  ultimately show ?thesis by simp
qed

lemma find_addr_less: "find_addr a xs = Some i \<Longrightarrow> i < length xs"
  by (induction a xs arbitrary: i rule: find_addr.induct) (auto split: if_splits)

lemma flush_wf:
  assumes "table_flush env kd x = Some x'" "scan_wf x"
  shows "scan_wf x' \<and> kind_table kd x' = [] \<and> s_tag_macinfo_upload_state x' = s_tag_macinfo_upload_state x \<and> su_state x' = su_state x"
  using assms by (cases kd) (auto simp: table_flush_def scan_wf_def set_table_def kind_table_def uploads_exclusive_def sensor_upload_busy_def split: if_splits)

lemma tag_save_wf:
  assumes "tag_scan_result_save env now r x = Some x'" "scan_wf x" "tag_entry_ok r"
  shows "scan_wf x'"
proof (cases "find_addr (take 7 r) (s_result_table x)")
  case None
  have new: "tag_entry_ok (put_timestamp Tags now r)" using assms(3) by simp
  show ?thesis
  proof (cases "length (s_result_table x) < 10")
    case True
    then show ?thesis using assms(1,2) None new by (auto simp: tag_scan_result_save_def Let_def scan_wf_def uploads_exclusive_def sensor_upload_busy_def)
  next
    case False
    then obtain x1 where x1: "table_flush env Tags x = Some x1" "x' = x1\<lparr>s_result_table := s_result_table x1 @ [put_timestamp Tags now r]\<rparr>"
      using assms(1) None by (auto simp: tag_scan_result_save_def tag_table_flush_to_flash_def Let_def)
    then show ?thesis using flush_wf [OF x1(1) assms(2)] new by (auto simp: scan_wf_def kind_table_def uploads_exclusive_def sensor_upload_busy_def)
  qed
next
  case (Some i)
  then have i: "i < length (s_result_table x)" by (rule find_addr_less)
  then have "tag_entry_ok (tag_update now r (s_result_table x ! i))" using assms(2,3) by (intro tag_update_ok) (auto simp: scan_wf_def list_all_length)
  then show ?thesis using assms(1,2) Some
    by (auto simp: tag_scan_result_save_def Let_def scan_wf_def uploads_exclusive_def sensor_upload_busy_def list_all_update split: if_splits)
qed

lemma mac_save_wf:
  assumes "tran_mac_data_handle now m x = Some x'" "scan_wf x"
  shows "scan_wf x'"
proof (cases m)
  case (Some ad)
  obtain a d where ad: "ad = (a, d)" by fastforce
  let ?put = "\<lambda>item. put_timestamp Macs now (mem_put (mem_put item 7 d) 38 [of_nat (length d)])"
  have put: "mac_entry_ok (?put item)" if "length item = 44" "length d \<le> 31" for item
    using that by (intro put_timestamp_ok) (simp add: mac_entry_ok_def nth_mem_put unat_of_nat)
  have "mac_entry_ok (?put (s_tran_mac_result_table x ! i))" if "find_addr a (s_tran_mac_result_table x) = Some i" "length d \<le> 31" for i
    using that find_addr_less [OF that(1)] assms(2) by (intro put) (auto simp: scan_wf_def list_all_length mac_entry_ok_def)
  then show ?thesis using assms put [of "mem_put (replicate 44 0) 0 a"]
    by (auto simp: Some ad tran_mac_data_handle_def Let_def scan_wf_def uploads_exclusive_def sensor_upload_busy_def list_all_update
        split: if_splits option.splits)
qed (use assms in \<open>simp add: tran_mac_data_handle_def\<close>)

subsection \<open>Uploads\<close>

text \<open>What an operation leaves alone: the tables and the state of the tag upload.\<close>

definition same_tables :: "'d scan \<Rightarrow> 'd scan \<Rightarrow> bool" where
  "same_tables x y \<longleftrightarrow> s_result_table y = s_result_table x \<and> s_tran_mac_result_table y = s_tran_mac_result_table x \<and>
     s_tag_macinfo_upload_state y = s_tag_macinfo_upload_state x"

lemma same_tables_wf:
  assumes "same_tables x y" "scan_wf x" "s_tag_macinfo_upload_state x \<noteq> UPLOAD_STATE_IDLE \<Longrightarrow> su_state x = SENSOR_UPLOAD_STATE_IDLE \<Longrightarrow> su_state y = SENSOR_UPLOAD_STATE_IDLE"
  shows "scan_wf y"
  using assms by (auto simp: same_tables_def scan_wf_def uploads_exclusive_def sensor_upload_busy_def)

lemma same_tables_trans: "same_tables x y \<Longrightarrow> same_tables y z \<Longrightarrow> same_tables x z"
  by (simp add: same_tables_def)

lemma send_same [simp]: "same_tables x (snd (lte_send_command c q x))" "su_state (snd (lte_send_command c q x)) = su_state x"
  by (auto simp: same_tables_def lte_send_command_def sc_post_def Let_def split: list.split bool.split)

lemma reset_same [simp]: "same_tables x (sensor_upload_reset b x)" "su_state (sensor_upload_reset b x) = SENSOR_UPLOAD_STATE_IDLE"
  by (simp_all add: same_tables_def sensor_upload_reset_def Let_def)

lemma same_tables_upd [simp]:
  "same_tables x (y\<lparr>su_state := a\<rparr>) = same_tables x y" "same_tables x (y\<lparr>sc_store := st\<rparr>) = same_tables x y"
  "same_tables x (y\<lparr>su_next_seq := q\<rparr>) = same_tables x y" "same_tables x (y\<lparr>su_upload_type := t\<rparr>) = same_tables x y"
  "same_tables x (y\<lparr>su_total_packets := n\<rparr>) = same_tables x y" "same_tables x (y\<lparr>sc_posted := ms\<rparr>) = same_tables x y"
  "same_tables x (y\<lparr>boot_reason_scan := w\<rparr>) = same_tables x y" "same_tables x x"
  by (simp_all add: same_tables_def)

lemma try_start_same [simp]: "same_tables x (sensor_cached_upload_try_start x)"
proof -
  have "same_tables x (snd (lte_send_command c q y))" "same_tables x (sensor_upload_reset True (snd (lte_send_command c q y)))" if "same_tables x y" for c q y
    using that same_tables_trans reset_same(1) send_same(1) by blast+
  then show ?thesis by (simp add: sensor_cached_upload_try_start_def Let_def case_prod_beta)
qed

lemma try_start_idle: "s_tag_macinfo_upload_state x \<noteq> UPLOAD_STATE_IDLE \<Longrightarrow> sensor_cached_upload_try_start x = x"
  by (simp add: sensor_cached_upload_try_start_def)

lemma try_start_wf: "scan_wf x \<Longrightarrow> scan_wf (sensor_cached_upload_try_start x)"
  by (rule same_tables_wf [of x]) (simp_all add: try_start_idle)

lemma next_packet_same [simp]: "same_tables x (snd (sensor_cdata_send_next_packet env x))"
proof -
  have "same_tables x (snd (lte_send_command c q y))" if "same_tables x y" for c q y using that same_tables_trans send_same(1) by blast
  then show ?thesis by (auto simp: sensor_cdata_send_next_packet_def Let_def case_prod_beta split: option.split prod.split)
qed

lemma ack_same: "same_tables x (sensor_handle_lte_ack env rsp x)"
proof -
  note tr = same_tables_trans [OF _ reset_same(1)] same_tables_trans [OF _ try_start_same] same_tables_trans [OF _ next_packet_same] same_tables_trans [OF _ send_same(1)]
  show ?thesis unfolding sensor_handle_lte_ack_def
    by (auto simp: Let_def case_prod_beta intro!: tr split: option.split ble_rsp.split sensor_upload_state.split)
qed

lemma ack_idle: "su_state x = SENSOR_UPLOAD_STATE_IDLE \<Longrightarrow> sensor_handle_lte_ack env rsp x = x"
  by (auto simp: sensor_handle_lte_ack_def split: option.split ble_rsp.split)

lemma ack_wf: "scan_wf x \<Longrightarrow> scan_wf (sensor_handle_lte_ack env rsp x)"
  by (rule same_tables_wf [OF ack_same]) (simp_all add: ack_idle)

lemma realtime_same: "same_tables x (snd (sensor_realtime_upload_start c t q x))"
proof -
  have "same_tables x (snd (lte_send_command c q y))" "same_tables x (sensor_upload_reset False (snd (lte_send_command c q y)))" if "same_tables x y" for c q y
    using that same_tables_trans reset_same(1) send_same(1) by blast+
  then show ?thesis by (simp add: sensor_realtime_upload_start_def Let_def case_prod_beta)
qed

lemma realtime_idle: "s_tag_macinfo_upload_state x \<noteq> UPLOAD_STATE_IDLE \<Longrightarrow> snd (sensor_realtime_upload_start c t q x) = x"
  by (simp add: sensor_realtime_upload_start_def)

lemma realtime_wf: "scan_wf x \<Longrightarrow> scan_wf (snd (sensor_realtime_upload_start c t q x))"
  by (rule same_tables_wf [OF realtime_same]) (simp_all add: realtime_idle)

lemma store_and_wake_same: "store_and_wake push w x = Some x' \<Longrightarrow> same_tables x x' \<and> su_state x' = su_state x"
  by (auto simp: store_and_wake_def Let_def sc_post_def split: option.splits)

lemma sample_wf:
  assumes "sensor_process_temp_humi_sample env r x = Some x' \<or> sensor_process_barometer_sample env r x = Some x'" "scan_wf x"
  shows "scan_wf x'"
proof -
  obtain y where y: "y = x \<or> (\<exists>c t q. y = snd (sensor_realtime_upload_start c t q x))" "x' = y \<or> (\<exists>push w. store_and_wake push w y = Some x')"
    using assms(1) by (auto simp: sensor_process_temp_humi_sample_def sensor_process_barometer_sample_def case_prod_beta split: option.splits if_splits)
  have "scan_wf y" using y(1) assms(2) realtime_wf by metis
  then show ?thesis using y(2) store_and_wake_same same_tables_wf by metis
qed

lemma upload_one_same: "upload_one kd r q x = Some x' \<Longrightarrow> same_tables x x' \<and> su_state x' = su_state x"
  by (cases kd) (auto simp: upload_one_def tag_scan_upload_one_def tran_mac_upload_one_def split: if_splits)

lemma upload_next_wf:
  assumes "upload_next env kd x = Some x'" "scan_wf x" "su_state x = SENSOR_UPLOAD_STATE_IDLE"
  shows "scan_wf x'"
proof -
  obtain y where y: "s_result_table y = s_result_table x \<or> s_result_table y = []" "s_tran_mac_result_table y = s_tran_mac_result_table x \<or> s_tran_mac_result_table y = []"
    "su_state y = SENSOR_UPLOAD_STATE_IDLE" "same_tables y x'" "su_state x' = su_state y"
  proof (cases "my_flash_store_read_next env (sc_store x) (kind_type kd)")
    case (fields ret r st')
    show ?thesis
    proof (cases "ret = 1 \<or> s_tag_macinfo_seq x - s_flash_consumed x < s_rt_count_snap x")
      case True
      then obtain r' q' y where "upload_one kd r' q' y = Some x'" "same_tables x y" "su_state y = su_state x"
        using assms(1) fields by (auto simp: upload_next_def Let_def same_tables_def split: if_splits)
      then show ?thesis using that [of y] upload_one_same [of kd r' q' y x'] assms(3) by (simp add: same_tables_def)
    next
      case False
      let ?y = "set_table kd [] (x\<lparr>sc_store := snd (my_flash_store_commit env st' (kind_type kd)), s_tag_macinfo_seq := 0,
                     s_flash_consumed := 0,
                     s_tag_macinfo_upload_state := (case kd of Tags \<Rightarrow> UPLOAD_STATE_TAG_END | Macs \<Rightarrow> UPLOAD_STATE_MAC_END)\<rparr>)"
      have "x' = snd (lte_send_command (kind_command kd) (ascii ''END'') ?y)"
        using False assms(1) fields by (simp add: upload_next_def Let_def)
      then show ?thesis using that [of ?y] assms(3) by (cases kd) (simp_all add: set_table_def)
    qed
  qed
  have "scan_wf y" using y(1-3) assms(2) by (auto simp: scan_wf_def uploads_exclusive_def sensor_upload_busy_def)
  then show ?thesis using y(3-5) same_tables_wf by metis
qed

lemma upload_start_wf: "scan_wf x \<Longrightarrow> su_state x = SENSOR_UPLOAD_STATE_IDLE \<Longrightarrow> scan_wf (upload_start kd n x)"
  unfolding upload_start_def by (rule same_tables_wf [OF send_same(1)]) (auto simp: scan_wf_def uploads_exclusive_def sensor_upload_busy_def)

lemma scan_wf_cfg [simp]: "scan_wf (x\<lparr>scan_cfg_state := g\<rparr>) = scan_wf x"
  by (simp add: scan_wf_def uploads_exclusive_def sensor_upload_busy_def)

lemma round_end_wf: "scan_wf x \<Longrightarrow> scan_wf (upload_round_end x)"
  unfolding upload_round_end_def by (rule try_start_wf) (simp add: scan_wf_def uploads_exclusive_def)

lemma upload_data_wf:
  assumes "tag_mac_scan_upload_data env x = Some x'" "scan_wf x"
  shows "scan_wf x'"
proof (cases "scan_cfg_state x = SCAN_STATE_SCANNING \<or> s_tag_macinfo_upload_state x = UPLOAD_STATE_IDLE \<and> sensor_upload_busy x")
  case True
  then show ?thesis using assms by (auto simp: tag_mac_scan_upload_data_def split: if_splits)
next
  case False
  then have "su_state x = SENSOR_UPLOAD_STATE_IDLE" using assms(2) by (auto simp: scan_wf_def uploads_exclusive_def sensor_upload_busy_def)
  then show ?thesis using assms False
    by (auto simp: tag_mac_scan_upload_data_def round_end_wf upload_start_wf upload_next_wf split: upload_state.splits if_splits)
qed

subsection \<open>The module\<close>

lemma scanner_wf_upd [simp]:
  "scanner_wf (sn_do a s) = scanner_wf s" "scanner_wf (s\<lparr>sn_put := oks\<rparr>) = scanner_wf s" "scanner_wf (s\<lparr>sn_bt := rs\<rparr>) = scanner_wf s"
  "scanner_wf (s\<lparr>sn_mode := m\<rparr>) = scanner_wf s" "scanner_wf (s\<lparr>sn_scan_interval := u\<rparr>) = scanner_wf s"
  "scanner_wf (s\<lparr>sn_scan_length := u\<rparr>) = scanner_wf s" "scanner_wf (s\<lparr>sn_upload_interval := u\<rparr>) = scanner_wf s"
  "scanner_wf (s\<lparr>s_prefix_table := ps\<rparr>) = scanner_wf s" "scanner_wf (s\<lparr>bt_parmac_macs := ms\<rparr>) = scanner_wf s"
  by (simp_all add: scanner_wf_def sn_do_def)

lemma sn_upd_wf: "scanner_wf s \<Longrightarrow> (scan_wf (sn s) \<Longrightarrow> scan_wf (f (sn s))) \<Longrightarrow> scanner_wf (sn_upd f s)"
  by (simp add: scanner_wf_def sn_upd_def)

lemma sn_try_wf: "sn_try f s = Some s' \<Longrightarrow> scanner_wf s \<Longrightarrow> (\<And>x. f (sn s) = Some x \<Longrightarrow> scan_wf (sn s) \<Longrightarrow> scan_wf x) \<Longrightarrow> scanner_wf s'"
  by (auto simp: scanner_wf_def sn_try_def)

lemma put_tag_wf: "scanner_wf s \<Longrightarrow> tag_entry_ok (snd m) \<Longrightarrow> scanner_wf (snd (put_tag_msg m s))"
  by (cases "sn_put s") (auto simp: put_tag_msg_def put_result_def scanner_wf_def sn_do_def)

lemma put_mac_wf: "scanner_wf s \<Longrightarrow> length a = 7 \<Longrightarrow> length d \<le> TRAN_MAC_ADV_DATA_MAX_LEN \<Longrightarrow> scanner_wf (put_mac_msg (a, d) s)"
  by (cases "sn_put s") (auto simp: put_mac_msg_def put_result_def scanner_wf_def sn_do_def)

lemma new_result_ok: "length addr = 7 \<Longrightarrow> tag_entry_ok (new_result addr rssi)"
  by (simp add: new_result_def tag_entry_ok_def nth_mem_put)

lemma payload_ok: "tag_entry_ok r \<Longrightarrow> tag_entry_ok (put_battery y (put_uuid u r))"
proof -
  assume r: "tag_entry_ok r"
  have "tag_entry_ok (put_uuid u r)"
  proof (cases u)
    case (Some ad)
    have "tag_entry_ok (mem_put r 69 (take 16 (snd ad)))" using r by (intro mem_put_ok) (auto simp: min_def)
    then show ?thesis by (auto simp: Some put_uuid_def tag_entry_ok_def nth_mem_put unat_of_nat split: prod.split)
  qed (simp add: r)
  then show ?thesis by (cases y) (auto simp: put_battery_def intro!: mem_put_ok split: prod.split)
qed

lemma recv_wf:
  assumes "scan_recv_cb ops at addr rssi buf s = Some s'" "net_buf_ok ops con" "length addr = 7" "scanner_wf s"
  shows "scanner_wf s'"
proof (cases at)
  case BT_GAP_ADV_TYPE_ADV_IND
  let ?m = "\<lambda>d. (BT_GAP_ADV_TYPE_ADV_IND, mem_put (mem_put (new_result addr rssi) 39 d) 68 [of_nat (length d)])"
  have "length d \<le> 29" if "map_option (take 29 \<circ> snd) z = Some d" for z :: "(u8 \<times> bytes) option" and d using that by auto
  then obtain ff where ff: "parse_ff_data ops buf 29 = Some ff" "\<And>d. ff = Some d \<Longrightarrow> length d \<le> 29"
    using parse_ff_eq [OF assms(2), of buf 29] by blast
  obtain go s1 where p: "(case ff of Some d \<Rightarrow> put_tag_msg (?m d) s | None \<Rightarrow> (True, s)) = (go, s1)" by fastforce
  have "tag_entry_ok (snd (?m d))" if "length d \<le> 29" for d
  proof -
    have "tag_entry_ok (mem_put (new_result addr rssi) 39 d)" using that by (intro mem_put_ok new_result_ok assms(3)) simp_all
    then show ?thesis using that by (auto simp: tag_entry_ok_def nth_mem_put unat_of_nat)
  qed
  then have s1: "scanner_wf s1" using p ff(2) assms(4) put_tag_wf [of s] by (cases ff) (auto simp: prod_eq_iff)
  have "s' = (if go \<and> my_tran_mac_check addr s1 then put_mac_msg (addr, take (min (nb_len ops buf) 31) (nb_data ops buf)) s1 else s1)"
    using assms(1) BT_GAP_ADV_TYPE_ADV_IND ff(1) p by (simp add: scan_recv_cb_def)
  then show ?thesis using s1 put_mac_wf [OF s1 assms(3)] by simp
next
  case BT_GAP_ADV_TYPE_SCAN_RSP
  let ?r0 = "\<lambda>n. mem_put (new_result addr rssi) 7 (strncpy_bytes n 31)"
  have r0: "tag_entry_ok (?r0 n)" for n by (intro mem_put_ok new_result_ok assms(3)) simp_all
  then have "scan_rsp_loop ops buf False False (?r0 n) =
      Some (find is_uuid (ad_structs (con buf)) \<noteq> None \<or> find is_battery (ad_structs (con buf)) \<noteq> None,
        put_battery (find is_battery (ad_structs (con buf))) (put_uuid (find is_uuid (ad_structs (con buf))) (?r0 n)))" for n
    using scan_rsp_loop_eq [OF assms(2), of "?r0 n" buf False False] by (simp add: tag_entry_ok_def Let_def)
  then show ?thesis using assms(1,4) BT_GAP_ADV_TYPE_SCAN_RSP parse_name_eq [OF assms(2), of buf 32]
    by (auto simp: scan_recv_cb_def parse_scan_rsp_payload_def intro!: put_tag_wf payload_ok r0 split: option.splits)
qed (use assms in \<open>simp add: scan_recv_cb_def\<close>)

lemma cache_find_less: "cache_find a xs = Some i \<Longrightarrow> i < length xs \<and> ac_valid (xs ! i) \<and> ac_addr (xs ! i) = a"
  by (induction a xs arbitrary: i rule: cache_find.induct) (auto split: if_splits)

lemma cache_free_less: "cache_free xs = Some i \<Longrightarrow> i < length xs"
  by (induction xs arbitrary: i rule: cache_free.induct) (auto split: if_splits)

lemma cache_oldest_less: "i < length xs \<Longrightarrow> cache_oldest xs j m i < length xs"
proof (induction xs j m i rule: cache_oldest.induct)
  case (1 xs j m i)
  then show ?case by (subst cache_oldest.simps) auto
qed

lemma cache_slot_less: "xs \<noteq> [] \<Longrightarrow> cache_slot a xs < length xs"
  by (auto simp: cache_slot_def cache_oldest_less dest: cache_find_less cache_free_less split: option.split)

lemma cache_put_wf:
  assumes "cache_put r s = Some s'" "scanner_wf s"
  shows "scanner_wf s'"
proof -
  let ?xs = "s_adv_cache_table s"
  have l: "length ?xs = 10" "list_all cache_item_ok ?xs" using assms(2) by (simp_all add: scanner_wf_def)
  have "cache_slot (take 7 r) ?xs < length ?xs" using l(1) by (intro cache_slot_less) auto
  then have "length (ac_ff_data (?xs ! cache_slot (take 7 r) ?xs)) = 29" using l(2) by (auto simp: list_all_length cache_item_ok_def)
  then show ?thesis using assms by (auto simp: cache_put_def Let_def scanner_wf_def cache_item_ok_def split: if_splits intro!: list_all_update)
qed

lemma cache_release_wf:
  assumes "scanner_wf s" "cache_item_ok (s_adv_cache_table s ! i)"
  shows "scanner_wf (cache_release i s)"
proof -
  have "cache_item_ok ((s_adv_cache_table s ! i)\<lparr>ac_valid := False\<rparr>)" using assms(2) by (simp add: cache_item_ok_def)
  then show ?thesis using assms(1) by (simp add: cache_release_def scanner_wf_def list_all_update)
qed

lemma tag_data_wf:
  assumes "tag_scan_data_handle env now (Some m) s = Some s'" "scanner_wf s" "tag_entry_ok (snd m)"
  shows "scanner_wf s'"
proof -
  obtain at r where m: "m = (at, r)" by fastforce
  let ?c = "cache_find (take 7 r) (s_adv_cache_table s)"
  have item: "cache_item_ok (s_adv_cache_table s ! i)" if "?c = Some i" for i
    using cache_find_less [OF that] assms(2) by (simp add: scanner_wf_def list_all_length)
  then have rel: "scanner_wf (cache_release i s)" if "?c = Some i" for i using that cache_release_wf [OF assms(2)] by blast
  have sv: "scanner_wf (y\<lparr>sn := x\<rparr>)" if "scanner_wf y" "tag_scan_result_save env now r' (sn y) = Some x" "tag_entry_ok r'" for y x r'
    using that tag_save_wf [OF that(2)] by (simp add: scanner_wf_def)
  have mg: "tag_entry_ok (mem_put (mem_put r 39 (take (unat (ac_ff_data_len c)) (ac_ff_data c))) 68 [ac_ff_data_len c])" if "cache_item_ok c" for c
  proof -
    have "tag_entry_ok (mem_put r 39 (take (unat (ac_ff_data_len c)) (ac_ff_data c)))" using assms(3) that m
      by (intro mem_put_ok) (auto simp: cache_item_ok_def)
    then show ?thesis using that by (auto simp: tag_entry_ok_def cache_item_ok_def nth_mem_put)
  qed
  show ?thesis using assms m item rel sv mg
    by (auto simp: tag_scan_data_handle_def Let_def cache_put_wf split: if_splits option.splits)
qed

lemma tag_drain_wf:
  assumes "tag_drain env clock k q s = Some s'" "scanner_wf s" "list_all (\<lambda>m. tag_entry_ok (snd m)) q"
  shows "scanner_wf s'"
  using assms
proof (induction q arbitrary: k s)
  case (Cons m q)
  have "scanner_wf (s\<lparr>s_tag_scan_process_msgq := q\<rparr>)" using Cons.prems by (simp add: scanner_wf_def)
  then show ?case using Cons tag_data_wf by (fastforce split: option.splits)
qed simp

lemma mac_drain_wf:
  assumes "mac_drain clock k q s = Some s'" "scanner_wf s" "list_all (\<lambda>(a, d). length a = 7 \<and> length d \<le> TRAN_MAC_ADV_DATA_MAX_LEN) q"
  shows "scanner_wf s'"
  using assms
proof (induction q arbitrary: k s)
  case (Cons m q)
  have "scanner_wf (s\<lparr>s_tran_mac_process_msgq := q\<rparr>)" using Cons.prems by (simp add: scanner_wf_def)
  then show ?case using Cons sn_try_wf mac_save_wf by (fastforce split: option.splits)
qed simp

lemma bt_result_wf: "scanner_wf s \<Longrightarrow> scanner_wf (snd (bt_result s))"
  by (simp add: bt_result_def split: list.split)

lemma start_wf: "scanner_wf s \<Longrightarrow> scanner_wf (snd (scan_start_internal s))"
  using bt_result_wf [of s] by (auto simp: scan_start_internal_def Let_def case_prod_beta intro!: sn_upd_wf)

lemma empty_cache_ok: "length empty_cache = ADV_CACHE_MAX_NUM" "list_all cache_item_ok empty_cache"
  by (simp_all add: empty_cache_def cache_item_ok_def list_all_length)

lemma stop_wf: "scanner_wf s \<Longrightarrow> scanner_wf (snd (scan_stop_internal s))"
proof -
  assume "scanner_wf s"
  then have "scanner_wf ((snd (bt_result s))\<lparr>s_adv_cache_table := empty_cache, s_cache_seq_counter := 0\<rparr>)"
    using bt_result_wf [of s] empty_cache_ok by (simp add: scanner_wf_def)
  then show ?thesis using \<open>scanner_wf s\<close> bt_result_wf [of s] by (auto simp: scan_stop_internal_def case_prod_beta intro!: sn_upd_wf)
qed

lemma flush_tables_wf:
  assumes "flush_tables env s = Some s'" "scanner_wf s"
  shows "scanner_wf s'"
proof -
  obtain x y where x: "table_flush env Tags (sn s) = Some x" "table_flush env Macs x = Some y" "s' = s\<lparr>sn := y\<rparr>"
    using assms(1) by (auto simp: flush_tables_def tag_table_flush_to_flash_def tran_mac_table_flush_to_flash_def bind_eq_Some_conv)
  then have "scan_wf y" using flush_wf [OF x(1)] flush_wf [OF x(2)] assms(2) by (simp add: scanner_wf_def)
  then show ?thesis using assms(2) x(3) by (simp add: scanner_wf_def)
qed

lemma data_reset_wf: "scan_wf x \<Longrightarrow> scan_wf (scan_data_reset x)"
  unfolding scan_data_reset_def by (rule same_tables_wf [OF reset_same(1)]) (simp_all add: scan_wf_def uploads_exclusive_def)

lemma mode_start_wf: "scanner_wf s \<Longrightarrow> scanner_wf (scan_mode_start s)"
  by (simp add: scan_mode_start_def Let_def start_wf)

lemma set_config_wf:
  assumes "my_scan_set_config env m a b c s = Some s'" "scanner_wf s"
  shows "scanner_wf s'"
proof -
  let ?s1 = "sn_do (Stop_Timer MY_TIMER_UPLOAD_INTERVAL) (sn_do (Stop_Timer MY_TIMER_SCAN_LENGTH) (sn_do (Stop_Timer MY_TIMER_SCAN_INTERVAL) s))"
  obtain s2 where s2: "flush_tables env (snd (scan_stop_internal ?s1)) = Some s2"
    "s' = scan_mode_start ((sn_upd (\<lambda>x. (scan_data_reset x)\<lparr>scan_cfg_state := SCAN_STATE_IDLE\<rparr>) s2)
       \<lparr>sn_mode := m, sn_scan_interval := a, sn_scan_length := b, sn_upload_interval := c\<rparr>)"
    using assms(1) by (auto simp: my_scan_set_config_def Let_def)
  have "scanner_wf s2" by (rule flush_tables_wf [OF s2(1)]) (simp add: stop_wf assms(2))
  then show ?thesis unfolding s2(2) by (intro mode_start_wf) (simp add: sn_upd_wf data_reset_wf)
qed

lemma prefix_add_wf: "scanner_wf s \<Longrightarrow> scanner_wf (snd (my_tag_prefix_add p s))"
  by (simp add: my_tag_prefix_add_def Let_def)

lemma prefix_init_wf: "scanner_wf s \<Longrightarrow> scanner_wf (tag_prefix_table_init s)"
  by (simp add: tag_prefix_table_init_def prefix_add_wf)

lemma init_wf:
  assumes "my_scan_init env m a b c s = Some (ret, s')" "scanner_wf s"
  shows "scanner_wf s'"
proof -
  let ?s1 = "sn_upd (\<lambda>x. x\<lparr>sc_store := snd (my_flash_store_init env (sc_store x))\<rparr>) s"
  let ?s2 = "sn_upd (\<lambda>x. x\<lparr>s_result_table := [], s_tran_mac_result_table := []\<rparr>) (tag_prefix_table_init ?s1)"
  have "scanner_wf ?s1" using assms(2) by (rule sn_upd_wf) (simp add: scan_wf_def uploads_exclusive_def sensor_upload_busy_def)
  then have "scanner_wf ?s2" by (intro sn_upd_wf [OF prefix_init_wf]) (simp_all add: scan_wf_def uploads_exclusive_def sensor_upload_busy_def)
  then have "scanner_wf (snd (bt_result (?s2\<lparr>s_adv_cache_table := empty_cache, s_cache_seq_counter := 0\<rparr>)))"
    using empty_cache_ok by (intro bt_result_wf) (simp add: scanner_wf_def)
  then show ?thesis using assms(1) by (auto simp: my_scan_init_def Let_def case_prod_beta set_config_wf split: if_splits)
qed

lemma trigger_wf:
  assumes "scan_trigger_upload env s = Some s'" "scanner_wf s"
  shows "scanner_wf s'"
proof -
  let ?s1 = "if scan_cfg_state (sn s) = SCAN_STATE_SCANNING then snd (scan_stop_internal s) else s"
  let ?s2 = "sn_upd (\<lambda>x. x\<lparr>boot_reason_scan := True\<rparr>) ?s1"
  have s1: "scanner_wf ?s1" using assms(2) by (simp add: stop_wf)
  have s2: "scanner_wf ?s2" using s1 by (rule sn_upd_wf) (simp add: scan_wf_def uploads_exclusive_def sensor_upload_busy_def)
  show ?thesis
  proof (cases "scan_nothing_pending (sn ?s1)")
    case True
    then have "s' = sn_upd (\<lambda>x. x\<lparr>scan_cfg_state := SCAN_STATE_IDLE\<rparr>) ?s1" using assms(1) unfolding scan_trigger_upload_def Let_def by simp
    then show ?thesis using sn_upd_wf [OF s1] by simp
  next
    case False
    then have "sn_try (tag_mac_scan_upload_data env) ?s2 = Some s'" using assms(1) unfolding scan_trigger_upload_def Let_def by simp
    then show ?thesis using sn_try_wf [OF _ s2] upload_data_wf by blast
  qed
qed

lemma wakeup_wf:
  assumes "upload_wakeup env s = Some s'" "scanner_wf s"
  shows "scanner_wf s'"
proof -
  have "s' \<in> {s, snd (scan_stop_internal s)} \<or> (\<exists>s1 \<in> {s, snd (scan_stop_internal s)}. sn_try (tag_mac_scan_upload_data env) s1 = Some s')"
    using assms(1) by (auto simp: upload_wakeup_def Let_def split: if_splits)
  then show ?thesis using assms(2) stop_wf sn_try_wf upload_data_wf by (metis empty_iff insert_iff)
qed

lemma handler_wf:
  assumes "my_scan_msg_handler env inp (Some m) s = Some s'" "scanner_wf s"
  shows "scanner_wf s'"
proof (cases m)
  case MY_MSG_BLE_SENSOR_TH_SAMPLE
  then have "sn_try (sensor_process_temp_humi_sample env (Some (in_th inp))) s = Some s'" using assms(1) by (simp add: my_scan_msg_handler_def)
  then show ?thesis using sn_try_wf [OF _ assms(2)] sample_wf by blast
next
  case MY_MSG_BLE_SENSOR_BP_SAMPLE
  then have "sn_try (sensor_process_barometer_sample env (Some (in_bp inp))) s = Some s'" using assms(1) by (simp add: my_scan_msg_handler_def)
  then show ?thesis using sn_try_wf [OF _ assms(2)] sample_wf by blast
next
  case MY_MSG_TAG_SCAN_PROCESS
  then show ?thesis using assms tag_drain_wf by (fastforce simp: my_scan_msg_handler_def scanner_wf_def)
next
  case MY_MSG_TRAN_MAC_PROCESS
  then show ?thesis using assms mac_drain_wf by (fastforce simp: my_scan_msg_handler_def scanner_wf_def)
next
  case MY_MSG_UPLOAD_WAKEUP
  then obtain s1 where "upload_wakeup env s = Some s1" "s' = sn_upd sensor_cached_upload_try_start s1" using assms(1) by (auto simp: my_scan_msg_handler_def)
  then show ?thesis using wakeup_wf assms(2) by (auto intro!: sn_upd_wf try_start_wf)
next
  case MY_MSG_SCAN_LENGTH
  then have "flush_tables env (snd (scan_stop_internal s)) = Some s'" using assms(1) by (simp add: my_scan_msg_handler_def)
  then show ?thesis by (rule flush_tables_wf) (rule stop_wf [OF assms(2)])
qed (use assms start_wf trigger_wf in \<open>auto simp: my_scan_msg_handler_def intro!: sn_upd_wf ack_wf split: if_splits\<close>)

lemma clear_wf: "scan_wf x \<Longrightarrow> scan_wf (clear_tag_macinfo x)"
  unfolding clear_tag_macinfo_def by (rule same_tables_wf [OF reset_same(1)]) (simp_all add: scan_wf_def uploads_exclusive_def)

subsection \<open>Reachable states\<close>

text \<open>The state before initialisation: static variables are zero; the store is whatever it is.\<close>

definition scanner_boot :: "'d fs_store \<Rightarrow> 'd scanner" where
  "scanner_boot st =
     \<lparr>sn = \<lparr>su_state = SENSOR_UPLOAD_STATE_IDLE, su_upload_type = FS_TYPE_TAG, su_total_packets = 0, su_next_seq = 0,
        s_tag_macinfo_seq = 0, s_tag_macinfo_upload_state = UPLOAD_STATE_IDLE, s_flash_consumed = 0, s_rt_count_snap = 0,
        scan_cfg_state = SCAN_STATE_IDLE, s_result_table = [], s_tran_mac_result_table = [], sc_store = st, sc_lte_ready = False,
        sc_lte_power = False, temp_wakeup_cell = False, patm_wakeup_cell = False, boot_reason_scan = False, sc_alloc = [], sc_posted = []\<rparr>,
      sn_mode = 0, sn_scan_interval = 0, sn_scan_length = 0, sn_upload_interval = 0, s_prefix_table = [], s_adv_cache_table = empty_cache,
      s_cache_seq_counter = 0, bt_parmac_macs = [], s_tag_scan_process_msgq = [], s_tran_mac_process_msgq = [], sn_put = [], sn_bt = [], sn_out = []\<rparr>"

text \<open>
  Everything that can happen to the module after its initialisation, in any order: packets, messages, the calls from the LTE thread and the
  commands, and changes of what it only reads (the state of the LTE module, the wake-up configuration, the outcomes of allocations and RTOS calls).
\<close>

inductive scan_reach :: "'d store_env \<Rightarrow> 'b net_buf_ops \<Rightarrow> 'd scanner \<Rightarrow> bool" for env ops where
  boot: "my_scan_init env m a b c (scanner_boot st) = Some (ret, s) \<Longrightarrow> scan_reach env ops s"
| recv: "scan_reach env ops s \<Longrightarrow> length addr = 7 \<Longrightarrow> scan_recv_cb ops at addr rssi buf s = Some s' \<Longrightarrow> scan_reach env ops s'"
| msg: "scan_reach env ops s \<Longrightarrow> my_scan_msg_handler env inp (Some e) s = Some s' \<Longrightarrow> scan_reach env ops s'"
| upload: "scan_reach env ops s \<Longrightarrow> sn_try (tag_mac_scan_upload_data env) s = Some s' \<Longrightarrow> scan_reach env ops s'"
| clear: "scan_reach env ops s \<Longrightarrow> scan_reach env ops (sn_upd clear_tag_macinfo s)"
| config: "scan_reach env ops s \<Longrightarrow> my_scan_set_config env m a b c s = Some s' \<Longrightarrow> scan_reach env ops s'"
| prefix: "scan_reach env ops s \<Longrightarrow> scan_reach env ops (snd (my_tag_prefix_add p s))"
| macs: "scan_reach env ops s \<Longrightarrow> s' \<in> {snd (my_tran_mac_add addr s), snd (my_tran_mac_del addr s), my_tran_mac_del_all s} \<Longrightarrow> scan_reach env ops s'"
| outside: "scan_reach env ops s \<Longrightarrow> scan_reach env ops
    (s\<lparr>sn := (sn s)\<lparr>sc_lte_ready := r, sc_lte_power := p, temp_wakeup_cell := w1, patm_wakeup_cell := w2, sc_alloc := al\<rparr>, sn_put := oks, sn_bt := rs\<rparr>)"

lemma boot_wf: "scanner_wf (scanner_boot st)"
  using empty_cache_ok by (simp add: scanner_wf_def scanner_boot_def scan_wf_def uploads_exclusive_def)

lemma scan_reach_wf:
  assumes "scan_reach env ops s" "net_buf_ok ops con"
  shows "scanner_wf s"
  using assms(1)
proof (induction rule: scan_reach.induct)
  case (boot m a b c st ret s)
  then show ?case using init_wf boot_wf by blast
next
  case (recv s addr at rssi buf s')
  then show ?case by (intro recv_wf [OF recv.hyps(3) assms(2)])
next
  case (msg s inp e s')
  then show ?case using handler_wf by blast
next
  case (upload s s')
  then show ?case using sn_try_wf upload_data_wf by blast
next
  case (clear s)
  then show ?case by (intro sn_upd_wf clear_wf)
next
  case (config s m a b c s')
  then show ?case using set_config_wf by blast
next
  case (prefix s p)
  show ?case by (rule prefix_add_wf [OF prefix.IH])
next
  case (macs s s' addr)
  then show ?case by (auto simp: my_tran_mac_add_def my_tran_mac_del_def my_tran_mac_del_all_def split: option.splits)
next
  case (outside s r p w1 w2 al oks rs)
  then show ?case by (simp add: scanner_wf_def scan_wf_def uploads_exclusive_def sensor_upload_busy_def)
qed

text \<open>
  C25: the scan module keeps its state consistent. In every state that can be reached, whatever packets are received and in whatever order messages,
  commands and acknowledgements come, the tables stay within their arrays, each of their entries can be printed by the upload without
  reading past an array, the cached and queued data fit their buffers, and the sensor upload and the tag upload are never active at the same time.
\<close>

theorem scan_module_invariant:
  assumes "scan_reach env ops s" "net_buf_ok ops con"
  shows "scanner_wf s \<and> (\<forall>kd r. r \<in> set (kind_table kd (sn s)) \<longrightarrow> record_ok kd r) \<and>
    (su_state (sn s) = SENSOR_UPLOAD_STATE_IDLE \<or> s_tag_macinfo_upload_state (sn s) = UPLOAD_STATE_IDLE)"
proof -
  have wf: "scanner_wf s" using assms by (rule scan_reach_wf)
  have "record_ok kd r" if "r \<in> set (kind_table kd (sn s))" for kd r
    using wf that tag_entry_printable mac_entry_printable by (cases kd) (auto simp: scanner_wf_def scan_wf_def kind_table_def list_all_iff)
  then show ?thesis using wf by (auto simp: scanner_wf_def scan_wf_def uploads_exclusive_def sensor_upload_busy_def)
qed

theorem scan_module_invariant_witness:
  "\<exists>s s'. my_scan_init ram_store 0 600 10 14400 (scanner_boot ram_start) = Some (0, s) \<and>
     scan_recv_cb list_buf BT_GAP_ADV_TYPE_ADV_IND (replicate 7 1) 200 (30 # 255 # replicate 29 7) s = Some s' \<and> scanner_wf s'"
proof -
  have "\<exists>s. my_scan_init ram_store 0 600 10 14400 (scanner_boot ram_start) = Some (0, s)"
    by (simp add: my_scan_init_def scanner_boot_def sn_upd_def tag_prefix_table_init_def my_tag_prefix_add_def bt_result_def my_scan_set_config_def
        scan_stop_internal_def sn_do_def flush_tables_def tag_table_flush_to_flash_def tran_mac_table_flush_to_flash_def table_flush_def kind_table_def
        ascii_def Let_def split: option.split)
  then obtain s where s: "my_scan_init ram_store 0 600 10 14400 (scanner_boot ram_start) = Some (0, s)" ..
  obtain s' where s': "scan_recv_cb list_buf BT_GAP_ADV_TYPE_ADV_IND (replicate 7 1) 200 (30 # 255 # replicate 29 7) s = Some s'"
    by (simp add: scan_recv_cb_def parse_ff_eq [OF list_buf_ok] case_prod_beta)
  have "scan_reach ram_store list_buf s'" by (rule scan_reach.recv [OF scan_reach.boot [OF s] _ s']) simp
  then show ?thesis using scan_module_invariant [OF _ list_buf_ok] s s' by blast
qed

section \<open>A tag is found\<close>

lemma cache_find_put:
  assumes "xs \<noteq> []" "ac_valid c" "ac_addr c = a"
  shows "cache_find a (xs[cache_slot a xs := c]) = Some (cache_slot a xs)"
proof -
  have first: "cache_find a ys = Some i" if "i < length ys" "ac_valid (ys ! i)" "ac_addr (ys ! i) = a" "\<forall>j < i. \<not> (ac_valid (ys ! j) \<and> ac_addr (ys ! j) = a)" for ys i
    using that
  proof (induction ys arbitrary: i)
    case (Cons y ys)
    show ?case
    proof (cases i)
      case (Suc k)
      have "\<not> (ac_valid y \<and> ac_addr y = a)" "\<forall>j < k. \<not> (ac_valid (ys ! j) \<and> ac_addr (ys ! j) = a)"
        using Cons.prems(4) Suc by (metis nth_Cons_0 zero_less_Suc) (metis Cons.prems(4) Suc Suc_less_eq nth_Cons_Suc)
      then have "cache_find a ys = Some k" "\<not> (ac_valid y \<and> ac_addr y = a)" using Cons.IH [of k] Cons.prems(1-3) Suc by simp_all
      then show ?thesis using Suc by simp
    qed (use Cons.prems in simp)
  qed simp
  have before: "\<forall>j < i. \<not> (ac_valid (ys ! j) \<and> ac_addr (ys ! j) = a)" if "cache_find a ys = Some i \<or> cache_find a ys = None \<and> i < length ys" for ys i
    using that by (induction ys arbitrary: i; auto split: if_splits simp: less_Suc_eq_0_disj nth_Cons'; blast)
  have l: "cache_slot a xs < length xs" using assms(1) by (rule cache_slot_less)
  have "cache_find a xs = Some (cache_slot a xs) \<or> cache_find a xs = None" by (auto simp: cache_slot_def split: option.split)
  then show ?thesis using l assms(2,3) before [of xs "cache_slot a xs"] by (intro first) auto
qed

text \<open>What a received packet does to the queue when it has room, and that it touches nothing else the joining uses.\<close>

definition same_module :: "'d scanner \<Rightarrow> 'd scanner \<Rightarrow> bool" where
  "same_module s t \<longleftrightarrow> sn t = sn s \<and> s_prefix_table t = s_prefix_table s \<and> s_adv_cache_table t = s_adv_cache_table s \<and> sn_put t = []"

lemma put_tag_room: "sn_put s = [] \<Longrightarrow> put_tag_msg m s = (True, sn_do (Send_Msg MY_MSG_TAG_SCAN_PROCESS) (s\<lparr>s_tag_scan_process_msgq := s_tag_scan_process_msgq s @ [m]\<rparr>))"
  by (simp add: put_tag_msg_def put_result_def)

lemma recv_adv:
  assumes "net_buf_ok ops con" "find is_ff (ad_structs (con b)) = Some (t, ff)" "sn_put s = []"
  shows "\<exists>s'. scan_recv_cb ops BT_GAP_ADV_TYPE_ADV_IND addr rssi b s = Some s' \<and> same_module s s' \<and>
    s_tag_scan_process_msgq s' = s_tag_scan_process_msgq s @ [(BT_GAP_ADV_TYPE_ADV_IND, mem_put (mem_put (new_result addr rssi) 39 ff) 68 [29])]"
proof -
  have "is_ff (t, ff)" using assms(2) by (metis find_Some_iff)
  then have l: "length ff = 29" by (simp add: is_ff_def)
  have "parse_ff_data ops b 29 = Some (Some ff)" using parse_ff_eq [OF assms(1), of b 29] assms(2) l by simp
  then show ?thesis using l assms(3)
    by (simp add: scan_recv_cb_def put_tag_room sn_do_def put_mac_msg_def put_result_def same_module_def)
qed

lemma recv_rsp:
  assumes "net_buf_ok ops con" "find is_name (ad_structs (con b)) = Some (t, nm)" "sn_put s = []" "length addr = 7"
    and r: "r = put_battery (find is_battery (ad_structs (con b))) (put_uuid (find is_uuid (ad_structs (con b)))
       (mem_put (new_result addr rssi) 7 (strncpy_bytes (take 31 nm) 31)))"
  shows "\<exists>s'. scan_recv_cb ops BT_GAP_ADV_TYPE_SCAN_RSP addr rssi b s = Some s' \<and> same_module s s' \<and>
    s_tag_scan_process_msgq s' = s_tag_scan_process_msgq s @ [(BT_GAP_ADV_TYPE_SCAN_RSP, r)]"
proof -
  let ?r0 = "mem_put (new_result addr rssi) 7 (strncpy_bytes (take 31 nm) 31)"
  have "length ?r0 = 92" by (simp add: new_result_def)
  then have "parse_scan_rsp_payload ops b ?r0 = Some (find is_uuid (ad_structs (con b)) \<noteq> None \<or> find is_battery (ad_structs (con b)) \<noteq> None, r)"
    using scan_rsp_loop_eq [OF assms(1), of ?r0 b False False] by (simp add: parse_scan_rsp_payload_def Let_def r)
  moreover have "parse_scan_rsp_name ops b 32 = Some (Some (take 31 nm))" using parse_name_eq [OF assms(1), of b 32] assms(2) by simp
  ultimately show ?thesis using assms(3) by (simp add: scan_recv_cb_def put_tag_room sn_do_def same_module_def)
qed

lemma new_result_addr: "length addr = 7 \<Longrightarrow> take 7 (new_result addr rssi) = addr"
  using mem_put_slice_same [of 0 addr "replicate 92 0"] by (simp add: new_result_def mem_put_take_other)

lemma takeWhile_padded: "\<forall>b \<in> set xs. P b \<Longrightarrow> \<not> P z \<Longrightarrow> takeWhile P (xs @ replicate k z @ z # rest) = xs"
  by (cases k) (simp_all add: takeWhile_append2)

text \<open>The fields of the result of a scan response.\<close>

lemma rsp_fields:
  assumes "length addr = 7" and r: "r = put_battery y (put_uuid u (mem_put (new_result addr rssi) 7 (strncpy_bytes nm 31)))"
  shows "tag_entry_ok r" "take 7 r = addr" "result_name r = takeWhile (\<lambda>b. b \<noteq> 0) (take 31 nm)" "r ! 87 = rssi"
    "take 16 (drop 69 r) = take 16 ((case u of Some (_, d) \<Rightarrow> take 16 d | None \<Rightarrow> []) @ replicate 16 0)"
    "r ! 85 = (case u of Some (_, d) \<Rightarrow> of_nat (min (length d) 16) | None \<Rightarrow> 0)" "r ! 86 = (case y of Some (_, d) \<Rightarrow> d ! 7 | None \<Rightarrow> 0)"
proof -
  let ?r0 = "mem_put (new_result addr rssi) 7 (strncpy_bytes nm 31)"
  have "tag_entry_ok ?r0" by (intro mem_put_ok new_result_ok assms(1)) simp_all
  then show ok: "tag_entry_ok r" unfolding r by (rule payload_ok)
  have l: "length ?r0 = 92" by (simp add: new_result_def)
  have sl: "take n (drop a r) = take n (drop a ?r0)" if "a + n \<le> 69" for a n
    using that by (auto simp: r put_battery_def put_uuid_def mem_put_slice_other split: option.split)
  show "take 7 r = addr" using sl [of 0 7] new_result_addr [OF assms(1)] by (simp add: mem_put_take_other)
  let ?n = "takeWhile (\<lambda>b. b \<noteq> 0) (take 31 nm)"
  have "take 31 (drop 7 r) = strncpy_bytes nm 31" using sl [of 7 31] mem_put_slice_same [of 7 "strncpy_bytes nm 31" "new_result addr rssi"] by (simp add: new_result_def)
  moreover have "take 31 (drop 7 r) @ drop 38 r = drop 7 r" using append_take_drop_id [of 31 "drop 7 r"] by (simp add: drop_drop)
  moreover have "drop 38 r = r ! 38 # drop (Suc 38) r" using ok by (intro Cons_nth_drop_Suc [symmetric]) (simp add: tag_entry_ok_def)
  moreover have "r ! 38 = 0" using ok by (simp add: tag_entry_ok_def)
  ultimately have "drop 7 r = strncpy_bytes nm 31 @ 0 # drop (Suc 38) r" by metis
  then have "drop 7 r = ?n @ replicate (31 - length ?n) 0 @ 0 # drop (Suc 38) r" by (simp add: strncpy_bytes_def Let_def)
  then obtain rest where "drop 7 r = ?n @ replicate (31 - length ?n) 0 @ 0 # rest" by blast
  moreover have "\<forall>b \<in> set ?n. b \<noteq> 0" by (auto dest: set_takeWhileD)
  ultimately show "result_name r = ?n" by (simp only: result_name_def) (rule takeWhile_padded, simp_all)
  show "r ! 87 = rssi" using l by (auto simp: r put_battery_def put_uuid_def nth_mem_put new_result_def split: option.split)
  show "r ! 85 = (case u of Some (_, d) \<Rightarrow> of_nat (min (length d) 16) | None \<Rightarrow> 0)" "r ! 86 = (case y of Some (_, d) \<Rightarrow> d ! 7 | None \<Rightarrow> 0)"
    using l assms(1) by (auto simp: r put_battery_def put_uuid_def nth_mem_put new_result_def split: option.split)
  show "take 16 (drop 69 r) = take 16 ((case u of Some (_, d) \<Rightarrow> take 16 d | None \<Rightarrow> []) @ replicate 16 0)"
    using l assms(1) by (intro nth_equalityI) (auto simp: r put_battery_def put_uuid_def nth_mem_put new_result_def nth_append split: option.split)
qed

lemma adv_fields:
  assumes "length addr = 7" "length ff = 29" and r: "r = mem_put (mem_put (new_result addr rssi) 39 ff) 68 [29]"
  shows "take 7 r = addr" "r ! 68 = 29" "take 29 (drop 39 r) = ff"
proof -
  have l: "length (new_result addr rssi) = 92" by (simp add: new_result_def)
  show "take 7 r = addr" using new_result_addr [OF assms(1)] by (simp add: r mem_put_take_other)
  show "r ! 68 = 29" using l by (simp add: r nth_mem_put)
  show "take 29 (drop 39 r) = ff" using mem_put_slice_same [of 39 ff "new_result addr rssi"] l assms(2) by (simp add: r mem_put_slice_other)
qed

text \<open>An advertisement followed by the scan response of the same device, both in the queue.\<close>

lemma join_packets:
  assumes wf: "scanner_wf s" and a: "length addr = 7" "take 7 r1 = addr" "r1 ! 68 = 29" "take 29 (drop 39 r1) = ff" "length ff = 29"
    and r2: "tag_entry_ok r2" "take 7 r2 = addr" "tag_name_match (result_name r2) s"
    and tbl: "find_addr addr (s_result_table (sn s)) = None" "length (s_result_table (sn s)) < TAG_RESULT_MAX_NUM"
    and e: "e = put_timestamp Tags (clock 1) (mem_put (mem_put r2 39 ff) 68 [29])"
  shows "\<exists>s'. tag_drain env clock 0 [(BT_GAP_ADV_TYPE_ADV_IND, r1), (BT_GAP_ADV_TYPE_SCAN_RSP, r2)] s = Some s' \<and>
     s_result_table (sn s') = s_result_table (sn s) @ [e] \<and> s_tag_scan_process_msgq s' = []"
proof -
  let ?xs = "s_adv_cache_table s" and ?i = "cache_slot addr (s_adv_cache_table s)"
  have "?xs \<noteq> []" using wf by (auto simp: scanner_wf_def)
  moreover have "length (ac_ff_data (?xs ! ?i)) = 29"
    using wf cache_slot_less [OF calculation, of addr] by (simp add: scanner_wf_def list_all_length cache_item_ok_def)
  ultimately have xs: "?xs \<noteq> []" "length (ac_ff_data (?xs ! ?i)) = 29" by blast+
  have "mem_put (ac_ff_data (?xs ! ?i)) 0 ff = ff" using xs(2) a(5) by (simp add: mem_put_def)
  moreover define c where "c = \<lparr>ac_addr = addr, ac_ff_data = ff, ac_ff_data_len = 29, ac_valid = True, ac_seq_num = s_cache_seq_counter s\<rparr>"
  moreover define s1 where "s1 = s\<lparr>s_tag_scan_process_msgq := [(BT_GAP_ADV_TYPE_SCAN_RSP, r2)], s_adv_cache_table := ?xs[?i := c], s_cache_seq_counter := s_cache_seq_counter s + 1\<rparr>"
  ultimately have 1: "tag_scan_data_handle env (clock 0) (Some (BT_GAP_ADV_TYPE_ADV_IND, r1)) (s\<lparr>s_tag_scan_process_msgq := [(BT_GAP_ADV_TYPE_SCAN_RSP, r2)]\<rparr>) = Some s1"
    using a by (simp add: tag_scan_data_handle_def cache_put_def Let_def)
  have f: "cache_find addr (?xs[?i := c]) = Some ?i" by (rule cache_find_put [OF xs(1)]) (simp_all add: c_def)
  have ci: "(?xs[?i := c]) ! ?i = c" using cache_slot_less [OF xs(1)] by simp
  have m: "tag_name_match (result_name r2) s1" using r2(3) by (simp add: tag_name_match_def s1_def)
  have z: "0 \<in> set (take 32 (drop 7 r2))" using tag_entry_printable [OF r2(1)] by (simp add: record_ok_def)
  let ?r = "mem_put (mem_put r2 39 ff) 68 [29]"
  have t: "take 7 ?r = addr" using r2(2) by (simp add: mem_put_take_other)
  let ?s2 = "s1\<lparr>s_tag_scan_process_msgq := []\<rparr>"
  have sv: "tag_scan_result_save env (clock 1) ?r (sn s) = Some ((sn s)\<lparr>s_result_table := s_result_table (sn s) @ [e]\<rparr>)"
    unfolding e using tbl t by (intro new_tag_added) simp_all
  have "tag_scan_data_handle env (clock 1) (Some (BT_GAP_ADV_TYPE_SCAN_RSP, r2)) ?s2 =
      map_option (\<lambda>x. (cache_release ?i ?s2)\<lparr>sn := x\<rparr>) (tag_scan_result_save env (clock 1) ?r (sn s))"
    using f ci m z r2(2) a(5) by (simp add: tag_scan_data_handle_def s1_def c_def cache_release_def tag_name_match_def Let_def)
  then show ?thesis using 1 sv by (simp add: cache_release_def s1_def)
qed

lemma result_name_cong:
  assumes "take 32 (drop 7 e) = take 32 (drop 7 r)" "tag_entry_ok r"
  shows "result_name e = result_name r"
proof -
  have "0 \<in> set (take 32 (drop 7 r))" using tag_entry_printable [OF assms(2)] by (simp add: record_ok_def)
  then have "takeWhile (\<lambda>b. b \<noteq> 0) (take 32 (drop 7 q) @ drop 32 (drop 7 q)) = takeWhile (\<lambda>b. b \<noteq> 0) (take 32 (drop 7 r))"
    if "take 32 (drop 7 q) = take 32 (drop 7 r)" for q using that by (subst takeWhile_append1) auto
  then show ?thesis using assms(1) unfolding result_name_def by (metis append_take_drop_id)
qed

lemma entry_fields:
  assumes "tag_entry_ok r" "length ff = 29" and e: "e = put_timestamp Tags now (mem_put (mem_put r 39 ff) 68 [29])"
  shows "take 7 e = take 7 r" "e ! 87 = r ! 87" "take 29 (drop 39 e) = ff" "e ! 68 = 29" "result_name e = result_name r"
    "take 16 (drop 69 e) = take 16 (drop 69 r)" "e ! 85 = r ! 85" "e ! 86 = r ! 86" "timestamp_of Tags e = now"
proof -
  have l: "length r = 92" using assms(1) by (simp add: tag_entry_ok_def)
  note sl = e put_timestamp_def kind_size_def mem_put_slice_other mem_put_take_other assms(2)
  show "take 7 e = take 7 r" "take 16 (drop 69 e) = take 16 (drop 69 r)" by (simp_all add: sl)
  show "take 29 (drop 39 e) = ff" using mem_put_slice_same [of 39 ff r] l by (simp add: sl)
  show "e ! 87 = r ! 87" "e ! 68 = 29" "e ! 85 = r ! 85" "e ! 86 = r ! 86" using l by (simp_all add: sl nth_mem_put)
  show "result_name e = result_name r" by (rule result_name_cong [OF _ assms(1)]) (simp add: sl)
  show "timestamp_of Tags e = now" using l by (simp add: e put_timestamp_def timestamp_of_def kind_size_def nth_mem_put le32_def)
qed

text \<open>
  C26: a tag in range is recorded. From every consistent state with nothing queued, when an advertisement with tag data and then the
  scan response of the same new device, with a name that has a known prefix, are received and the queue is processed, the table gets exactly one new
  entry: it holds the address, the signal strength, the data of the advertisement, and the name, identifiers and battery level of the scan response, with the time of processing.
\<close>

theorem tag_discovered:
  assumes "net_buf_ok ops con" "scanner_wf s" "length addr = 7" "s_tag_scan_process_msgq s = []" "sn_put s = []"
    and "find is_ff (ad_structs (con b1)) = Some (t1, ff)" "find is_name (ad_structs (con b2)) = Some (t2, nm)"
    and "name = takeWhile (\<lambda>b. b \<noteq> 0) (take 31 nm)" "tag_name_match name s"
    and "find_addr addr (s_result_table (sn s)) = None" "length (s_result_table (sn s)) < TAG_RESULT_MAX_NUM"
  shows "\<exists>s1 s2 s3 e. scan_recv_cb ops BT_GAP_ADV_TYPE_ADV_IND addr rssi1 b1 s = Some s1 \<and> scan_recv_cb ops BT_GAP_ADV_TYPE_SCAN_RSP addr rssi b2 s1 = Some s2 \<and>
     my_scan_msg_handler env inp (Some MY_MSG_TAG_SCAN_PROCESS) s2 = Some s3 \<and> s_result_table (sn s3) = s_result_table (sn s) @ [e] \<and>
     take 7 e = addr \<and> e ! 87 = rssi \<and> take 29 (drop 39 e) = ff \<and> e ! 68 = 29 \<and> result_name e = name \<and>
     take 16 (drop 69 e) = take 16 ((case find is_uuid (ad_structs (con b2)) of Some (_, d) \<Rightarrow> take 16 d | None \<Rightarrow> []) @ replicate 16 0) \<and>
     e ! 85 = (case find is_uuid (ad_structs (con b2)) of Some (_, d) \<Rightarrow> of_nat (min (length d) 16) | None \<Rightarrow> 0) \<and>
     e ! 86 = (case find is_battery (ad_structs (con b2)) of Some (_, d) \<Rightarrow> d ! 7 | None \<Rightarrow> 0) \<and> timestamp_of Tags e = in_clock inp 1"
proof -
  define r1 where "r1 = mem_put (mem_put (new_result addr rssi1) 39 ff) 68 [29]"
  define r2 where "r2 = put_battery (find is_battery (ad_structs (con b2))) (put_uuid (find is_uuid (ad_structs (con b2)))
       (mem_put (new_result addr rssi) 7 (strncpy_bytes (take 31 nm) 31)))"
  have "is_ff (t1, ff)" using assms(6) by (metis find_Some_iff)
  then have ff: "length ff = 29" by (simp add: is_ff_def)
  obtain s1 where s1: "scan_recv_cb ops BT_GAP_ADV_TYPE_ADV_IND addr rssi1 b1 s = Some s1" "same_module s s1" "s_tag_scan_process_msgq s1 = [(BT_GAP_ADV_TYPE_ADV_IND, r1)]"
    using recv_adv [OF assms(1,6,5)] assms(4) by (auto simp: r1_def)
  have p1: "sn_put s1 = []" using s1(2) by (simp add: same_module_def)
  obtain s2 where s2: "scan_recv_cb ops BT_GAP_ADV_TYPE_SCAN_RSP addr rssi b2 s1 = Some s2" "same_module s1 s2"
    "s_tag_scan_process_msgq s2 = [(BT_GAP_ADV_TYPE_ADV_IND, r1), (BT_GAP_ADV_TYPE_SCAN_RSP, r2)]"
    using recv_rsp [OF assms(1,7) p1 assms(3) r2_def] s1(3) by auto
  have wf: "scanner_wf s2" using recv_wf [OF s1(1) assms(1,3,2)] recv_wf [OF s2(1) assms(1,3)] by blast
  note a = adv_fields [OF assms(3) ff r1_def] and f = rsp_fields [OF assms(3) r2_def]
  have same: "sn s2 = sn s" "s_prefix_table s2 = s_prefix_table s" using s1(2) s2(2) by (simp_all add: same_module_def)
  have nm: "result_name r2 = name" using f(3) assms(8) by simp
  have m: "tag_name_match (result_name r2) s2" using assms(9) nm same(2) by (simp add: tag_name_match_def)
  define e where "e = put_timestamp Tags (in_clock inp 1) (mem_put (mem_put r2 39 ff) 68 [29])"
  obtain s3 where s3: "tag_drain env (in_clock inp) 0 [(BT_GAP_ADV_TYPE_ADV_IND, r1), (BT_GAP_ADV_TYPE_SCAN_RSP, r2)] s2 = Some s3"
    "s_result_table (sn s3) = s_result_table (sn s) @ [e]"
    using join_packets [OF wf assms(3) a ff f(1,2) m, where clock = "in_clock inp" and e = e and env = env] assms(10,11) e_def same(1) by auto
  note g = entry_fields [OF f(1) ff e_def]
  show ?thesis
    using s1(1) s2(1,3) s3 g f(2,4-7) nm by (intro exI conjI) (auto simp: my_scan_msg_handler_def)
qed

text \<open>A scanner that looks for one prefix, an advertisement and a scan response.\<close>

definition pet_scanner :: "ram_dev scanner" where
  "pet_scanner = (scanner_boot ram_start)\<lparr>s_prefix_table := [ascii ''PET'']\<rparr>"

lemma pet_packets:
  "ad_structs (30 # 255 # replicate 29 7) = [(255, replicate 29 7)]" "ad_structs [5, 9, 80, 69, 84, 49] = [(9, [80, 69, 84, 49])]"
  by (simp_all add: ad_structs.simps)

theorem tag_discovered_witness:
  "\<exists>s1 s2 s3 e. scan_recv_cb list_buf BT_GAP_ADV_TYPE_ADV_IND (replicate 7 3) 200 (30 # 255 # replicate 29 7) pet_scanner = Some s1 \<and>
     scan_recv_cb list_buf BT_GAP_ADV_TYPE_SCAN_RSP (replicate 7 3) 201 [5, 9, 80, 69, 84, 49] s1 = Some s2 \<and>
     my_scan_msg_handler ram_store \<lparr>in_clock = (\<lambda>_. 5), in_th = [], in_bp = [], in_rsp = BLE_RSP_other\<rparr> (Some MY_MSG_TAG_SCAN_PROCESS) s2 = Some s3 \<and>
     s_result_table (sn s3) = [e] \<and> take 7 e = replicate 7 3 \<and> e ! 87 = 201 \<and> take 29 (drop 39 e) = replicate 29 7 \<and>
     result_name e = [80, 69, 84, 49] \<and> timestamp_of Tags e = 5"
proof -
  let ?b1 = "30 # 255 # replicate 29 7 :: bytes" and ?b2 = "[5, 9, 80, 69, 84, 49] :: bytes"
  have wf: "scanner_wf pet_scanner" by (simp add: pet_scanner_def boot_wf)
  have f: "find is_ff (ad_structs ?b1) = Some (255, replicate 29 7)" "find is_name (ad_structs ?b2) = Some (9, [80, 69, 84, 49])"
    unfolding pet_packets by (simp_all add: is_ff_def is_name_def)
  have s: "s_tag_scan_process_msgq pet_scanner = []" "sn_put pet_scanner = []" "s_result_table (sn pet_scanner) = []" "tag_name_match [80, 69, 84, 49] pet_scanner"
    by (simp_all add: pet_scanner_def scanner_boot_def tag_name_match_def ascii_def)
  have n: "[80, 69, 84, 49] = takeWhile (\<lambda>b. b \<noteq> 0) (take 31 [80, 69, 84, 49 :: u8])" by simp
  show ?thesis
    using tag_discovered [OF list_buf_ok wf _ s(1,2) f n s(4), of "replicate 7 3" 200 201 ram_store
        "\<lparr>in_clock = (\<lambda>_. 5), in_th = [], in_bp = [], in_rsp = BLE_RSP_other\<rparr>"] s(3) by auto
qed

end
