(* ===== verification/Tool_Text.thy ===== *)
theory Tool_Text
  imports Prelude
begin

text \<open>
  Model of the text and time helpers of \<^verbatim>\<open>src/my_tool.c\<close> the command layer uses: fields of a command, hexadecimal text, MAC addresses,
  coordinates, dates and the time to the next report. A string is the list of its bytes without the terminator; \<open>None\<close> as an argument is a null pointer.
  As a result, \<open>None\<close> is an access outside a buffer or an overflow of a signed integer, both undefined in C.
\<close>

section \<open>Definitions\<close>

definition is_digit :: "u8 \<Rightarrow> bool" where
  "is_digit c \<longleftrightarrow> 48 \<le> c \<and> c \<le> 57"

text \<open>The result of an operation on signed 32 bit integers.\<close>

definition s32 :: "int \<Rightarrow> int option" where
  "s32 x = (if - (2 ^ 31) \<le> x \<and> x < 2 ^ 31 then Some x else None)"

abbreviation (input) DAY_SECONDS :: int where "DAY_SECONDS \<equiv> 86400"

definition dval :: "u8 \<Rightarrow> int" where
  "dval c = int (unat c) - 48"

text \<open>The seconds from \<open>current\<close> in the day to the next report, for a start at second \<open>base\<close>.\<close>

definition seconds_to_report :: "int \<Rightarrow> int \<Rightarrow> int \<Rightarrow> int option" where
  "seconds_to_report base interval_min current = do {
     interval \<leftarrow> s32 (interval_min * 60);
     if current < base then Some (base - current)
     else do {
       let n = (current - base) div interval;
       step \<leftarrow> s32 ((n + 1) * interval);
       next_point \<leftarrow> s32 (base + step);
       Some (if next_point < DAY_SECONDS then next_point - current else base + DAY_SECONDS - current) } }"

text \<open>
  Log output is left out. The code logs the next point also when the current time is before the start time, where the
  variable has not been set; the result does not depend on it.
\<close>

definition calculate_remaining_seconds :: "bytes option \<Rightarrow> int \<Rightarrow> int \<Rightarrow> int option" where
  "calculate_remaining_seconds start_time interval_min utc_timestamp =
     (case start_time of
        None \<Rightarrow> Some (-1)
      | Some t \<Rightarrow>
          if length t \<noteq> 4 \<or> \<not> list_all is_digit t \<or> interval_min \<le> 0 \<or> utc_timestamp < 0 then Some (-1)
          else
            let hour = dval (t ! 0) * 10 + dval (t ! 1); minute = dval (t ! 2) * 10 + dval (t ! 3)
            in if hour < 0 \<or> hour > 23 \<or> minute < 0 \<or> minute > 59 then Some (-1)
               else seconds_to_report (hour * 3600 + minute * 60) interval_min (utc_timestamp mod DAY_SECONDS))"

text \<open>The random bytes come from the cryptographic library; \<open>None\<close> is a failure.\<close>

definition my_generate_random :: "bytes option \<Rightarrow> u32 option" where
  "my_generate_random rnd = map_option (\<lambda>r. push_bit 24 (ucast (r ! 0)) OR push_bit 16 (ucast (r ! 1)) OR push_bit 8 (ucast (r ! 2)) OR ucast (r ! 3)) rnd"

definition rand_0_to_120_seconds :: "bytes option \<Rightarrow> u32 option" where
  "rand_0_to_120_seconds rnd = map_option (\<lambda>v. v mod 121) (my_generate_random rnd)"

text \<open>Copy the characters of field \<open>pos\<close>; the length of the buffer counts the terminator.\<close>

fun str_at_loop :: "u16 \<Rightarrow> u8 \<Rightarrow> int \<Rightarrow> u16 \<Rightarrow> bytes \<Rightarrow> bytes \<Rightarrow> bool \<times> bytes" where
  "str_at_loop pos sep len i out [] = (False, out)"
| "str_at_loop pos sep len i out (c # cs) =
     (if i = pos \<and> c \<noteq> sep
      then if int (length (out @ [c])) \<ge> len - 1 then (False, out @ [c]) else str_at_loop pos sep len i (out @ [c]) cs
      else if i > pos then (True, out)
      else str_at_loop pos sep len (if c = sep then i + 1 else i) out cs)"

definition my_get_str_at_pos :: "bytes option \<Rightarrow> u16 \<Rightarrow> u8 \<Rightarrow> nat \<Rightarrow> (bool \<times> bytes option) option" where
  "my_get_str_at_pos szInput iPos cSplit iBuffLen =
     (case szInput of
        None \<Rightarrow> Some (False, None)
      | Some s \<Rightarrow>
          (case str_at_loop iPos cSplit (int iBuffLen) 0 [] s of (more, out) \<Rightarrow>
             if length out < iBuffLen then Some (more, Some out) else None))"

definition is_hex_char :: "u8 \<Rightarrow> bool" where
  "is_hex_char c \<longleftrightarrow> is_digit c \<or> 97 \<le> c \<and> c \<le> 102 \<or> 65 \<le> c \<and> c \<le> 70"

definition string_check_is_hex_str :: "bytes option \<Rightarrow> u8" where
  "string_check_is_hex_str str =
     (case str of None \<Rightarrow> 0 | Some s \<Rightarrow> if list_all is_hex_char s then of_nat (length s) else 0)"

definition HexChar2HexData :: "u8 \<Rightarrow> u8" where
  "HexChar2HexData c =
     (if 48 \<le> c \<and> c \<le> 57 then c - 48 else if 65 \<le> c \<and> c \<le> 70 then c - 65 + 10
      else if 97 \<le> c \<and> c \<le> 102 then c - 97 + 10 else 0xFF)"

fun hexstr_loop :: "nat \<Rightarrow> u8 \<Rightarrow> u8 \<Rightarrow> bytes \<Rightarrow> bytes \<Rightarrow> u8 \<times> bytes" where
  "hexstr_loop dest_size offset hex_data out [] = (offset div 2 + offset mod 2, out)"
| "hexstr_loop dest_size offset hex_data out (c # cs) =
     (let temp = HexChar2HexData c
      in if temp = 0xFF then (0, out)
         else if offset mod 2 \<noteq> 0
         then
           let out' = out @ [hex_data OR (temp AND 0x0F)]
           in if length out' \<ge> dest_size then (offset div 2 + offset mod 2, out')
              else hexstr_loop dest_size (offset + 1) (hex_data OR (temp AND 0x0F)) out' cs
         else hexstr_loop dest_size (offset + 1) (push_bit 4 temp AND 0xF0) out cs)"

text \<open>The result and the bytes written to the destination.\<close>

definition hexstr_to_hex :: "nat \<Rightarrow> bytes option \<Rightarrow> u8 \<times> bytes" where
  "hexstr_to_hex dest_size src =
     (case src of None \<Rightarrow> (0, []) | Some s \<Rightarrow> if dest_size = 0 then (0, []) else hexstr_loop dest_size 0 0 [] s)"

definition hex2ascii :: "u8 \<Rightarrow> u8" where
  "hex2ascii digit = (if digit \<le> 9 then digit + 48 else digit - 10 + 65)"

definition hex_text :: "bytes \<Rightarrow> bytes" where
  "hex_text hex = concat (map (\<lambda>b. [hex2ascii (drop_bit 4 b AND 0x0F), hex2ascii (b AND 0x0F)]) hex)"

definition hex2hexstr :: "bytes \<Rightarrow> bytes \<Rightarrow> bytes option" where
  "hex2hexstr hex str = (if length str < 2 * length hex then Some str else mem_write str 0 (hex_text hex @ [0]))"

fun is_number_loop :: "u8 \<Rightarrow> u8 \<Rightarrow> bytes \<Rightarrow> u8" where
  "is_number_loop flag no_count [] = no_count"
| "is_number_loop flag no_count (c # cs) =
     (if flag AND 1 \<noteq> 0 \<and> no_count = 0 \<and> (c = 43 \<or> c = 45) then is_number_loop flag (no_count + 1) cs
      else if flag AND 2 \<noteq> 0 \<and> c = 46 then is_number_loop (flag AND NOT 2) (no_count + 1) cs
      else if is_digit c then is_number_loop flag (no_count + 1) cs
      else 0)"

definition string_check_is_number :: "u8 \<Rightarrow> bytes \<Rightarrow> u8" where
  "string_check_is_number flag str = is_number_loop flag 0 str"

text \<open>Parse from \<open>offset\<close>; behind the end of the string its copy holds zeros.\<close>

function macstr_loop :: "bytes \<Rightarrow> nat \<Rightarrow> bytes \<Rightarrow> bool \<times> bytes" where
  "macstr_loop s offset out =
     (if offset < length s
      then if s ! offset = 58
           then if offset \<in> {2, 5, 8, 11, 14} then macstr_loop s (offset + 1) out else (False, out)
           else
             let hex_H = HexChar2HexData (s ! offset); hex_L = HexChar2HexData (if offset + 1 < length s then s ! (offset + 1) else 0)
             in if hex_H = 0xFF \<or> hex_L = 0xFF \<or> length out + 1 > 6 then (False, out)
                else macstr_loop s (offset + 2) (out @ [(push_bit 4 hex_H AND 0xF0) + (hex_L AND 0x0F)])
      else (True, out))"
  by pat_completeness auto
termination
  by (relation "measure (\<lambda>(s, k, out). length s - k)") auto

declare macstr_loop.simps [simp del]

definition macstr_to_hex :: "bytes option \<Rightarrow> bool \<times> bytes" where
  "macstr_to_hex mac_str =
     (case mac_str of None \<Rightarrow> (False, []) | Some s \<Rightarrow> if length s = 12 \<or> length s = 17 then macstr_loop s 0 [] else (False, []))"

definition char_array_reverse :: "bytes option \<Rightarrow> bytes option \<Rightarrow> int \<times> bytes option" where
  "char_array_reverse src dest =
     (case (src, dest) of
        (Some s, Some d) \<Rightarrow> if s = [] \<or> d = [] then (-1, dest) else if length s \<noteq> length d then (-2, dest)
          else (0, Some (map (\<lambda>i. s ! (length s - 1 - i)) [0..<length s]))
      | _ \<Rightarrow> (-1, dest))"

definition is_integer_array :: "bytes option \<Rightarrow> bool" where
  "is_integer_array arr =
     (case arr of
        None \<Rightarrow> False
      | Some s \<Rightarrow>
          if s = [] then False
          else if s ! 0 = 43 \<or> s ! 0 = 45 then length s \<noteq> 1 \<and> list_all is_digit (drop 1 s) else list_all is_digit s)"

text \<open>The digits of a coordinate: their value and number, or a character that is no digit.\<close>

fun coord_digits :: "int \<Rightarrow> nat \<Rightarrow> bytes \<Rightarrow> (int \<times> nat) option option" where
  "coord_digits abs_value digit_count [] = Some (Some (abs_value, digit_count))"
| "coord_digits abs_value digit_count (c # cs) =
     (if is_digit c then do {
        ten \<leftarrow> s32 (abs_value * 10);
        v \<leftarrow> s32 (ten + dval c);
        coord_digits v (digit_count + 1) cs }
      else Some None)"

definition is_direction :: "u8 \<Rightarrow> bool" where
  "is_direction c \<longleftrightarrow> c = 78 \<or> c = 83 \<or> c = 69 \<or> c = 87"

definition parse_coordinate_value :: "bytes option \<Rightarrow> bool \<Rightarrow> int \<times> u8 \<Rightarrow> (int \<times> int \<times> u8) option" where
  "parse_coordinate_value coord_str is_latitude out =
     (case coord_str of
        None \<Rightarrow> Some (-1, out)
      | Some [] \<Rightarrow> Some (0, 0, 0)
      | Some (c # cs) \<Rightarrow>
          if is_direction c \<and> (if is_latitude then c \<noteq> 78 \<and> c \<noteq> 83 else c \<noteq> 69 \<and> c \<noteq> 87) then Some (-1, out)
          else if \<not> is_direction c \<and> c \<noteq> 43 \<and> c \<noteq> 45 \<and> \<not> is_digit c then Some (-1, out)
          else
            let sign = (if c = 83 \<or> c = 87 \<or> c = 45 then -1 else 1 :: int)
            in (case coord_digits 0 0 (if is_direction c \<or> c = 43 \<or> c = 45 then cs else c # cs) of
                  None \<Rightarrow> None
                | Some None \<Rightarrow> Some (-1, out)
                | Some (Some (abs_value, digit_count)) \<Rightarrow>
                    if digit_count = 0 then Some (-1, out)
                    else
                      let microdegrees = abs_value * sign; bound = (if is_latitude then 90000000 else 180000000)
                      in if microdegrees < - bound \<or> microdegrees > bound then Some (-1, out) else Some (0, microdegrees, 1)))"

definition validate_time_format :: "bytes option \<Rightarrow> u8 \<Rightarrow> int \<times> u8" where
  "validate_time_format time_str valid =
     (case time_str of
        None \<Rightarrow> (-1, valid)
      | Some s \<Rightarrow>
          if length s \<noteq> 10 then if length s = 0 then (0, 0) else (-1, valid)
          else if \<not> list_all is_digit s then (-1, valid)
          else
            let year = dval (s ! 0) * 10 + dval (s ! 1); month = dval (s ! 2) * 10 + dval (s ! 3);
                day = dval (s ! 4) * 10 + dval (s ! 5); hour = dval (s ! 6) * 10 + dval (s ! 7);
                minute = dval (s ! 8) * 10 + dval (s ! 9);
                is_leap_year = (year mod 4 = 0 \<and> year mod 100 \<noteq> 0 \<or> year mod 400 = 0);
                max_day = (if month = 4 \<or> month = 6 \<or> month = 9 \<or> month = 11 then 30
                           else if month = 2 then if is_leap_year then 29 else 28 else 31 :: int)
            in if month < 1 \<or> month > 12 then (-1, valid)
               else if day < 1 \<or> day > max_day then (-1, valid)
               else if hour < 0 \<or> hour > 23 then (-1, valid)
               else if minute < 0 \<or> minute > 59 then (-1, valid)
               else (0, 1))"

definition is_upper :: "u8 \<Rightarrow> bool" where
  "is_upper c \<longleftrightarrow> 65 \<le> c \<and> c \<le> 90"

definition is_lower :: "u8 \<Rightarrow> bool" where
  "is_lower c \<longleftrightarrow> 97 \<le> c \<and> c \<le> 122"

fun upper_lower_loop :: "bool \<Rightarrow> bool \<Rightarrow> bytes \<Rightarrow> bool" where
  "upper_lower_loop has_upper has_lower [] = True"
| "upper_lower_loop has_upper has_lower (c # cs) =
     (let u = (has_upper \<or> is_upper c); l = (has_lower \<or> is_lower c)
      in if (is_upper c \<or> is_lower c) \<and> u \<and> l then False else upper_lower_loop u l cs)"

definition is_all_upper_or_lower :: "bytes \<Rightarrow> bool" where
  "is_all_upper_or_lower s = upper_lower_loop False False s"

definition to_lower :: "u8 \<Rightarrow> u8" where
  "to_lower c = (if is_upper c then c + 32 else c)"

text \<open>\<open>strcasecmp\<close>: the difference of the first characters that differ without regard to case, the terminator included.\<close>

fun strcasecmp :: "bytes \<Rightarrow> bytes \<Rightarrow> int" where
  "strcasecmp [] [] = 0"
| "strcasecmp [] (b # bs) = - int (unat (to_lower b))"
| "strcasecmp (a # as) [] = int (unat (to_lower a))"
| "strcasecmp (a # as) (b # bs) =
     (if to_lower a = to_lower b then strcasecmp as bs else int (unat (to_lower a)) - int (unat (to_lower b)))"

definition my_strcasecmp :: "bytes \<Rightarrow> bytes \<Rightarrow> int" where
  "my_strcasecmp s1 s2 = (if \<not> is_all_upper_or_lower s1 \<or> \<not> is_all_upper_or_lower s2 then 0xFF else strcasecmp s1 s2)"

section \<open>The time to the next report\<close>

text \<open>Reports are due at the start time of each day and every interval after it until the end of the day.\<close>

definition report_due :: "int \<Rightarrow> int \<Rightarrow> int \<Rightarrow> bool" where
  "report_due base interval t \<longleftrightarrow> base \<le> t mod DAY_SECONDS \<and> interval dvd (t mod DAY_SECONDS - base)"

definition start_second :: "bytes \<Rightarrow> int" where
  "start_second t = (dval (t ! 0) * 10 + dval (t ! 1)) * 3600 + (dval (t ! 2) * 10 + dval (t ! 3)) * 60"

lemma dval_bounds: "is_digit c \<Longrightarrow> 0 \<le> dval c \<and> dval c \<le> 9"
  by (simp add: is_digit_def dval_def word_le_def)

lemma s32_id: "0 \<le> x \<Longrightarrow> x < 2147483648 \<Longrightarrow> s32 x = Some x"
  by (simp add: s32_def)

lemma day_mod:
  fixes t r :: int
  assumes "0 \<le> r" "t mod DAY_SECONDS + r < 2 * DAY_SECONDS"
  shows "(t + r) mod DAY_SECONDS = (if t mod DAY_SECONDS + r < DAY_SECONDS then t mod DAY_SECONDS + r else t mod DAY_SECONDS + r - DAY_SECONDS)"
proof -
  have x: "x mod DAY_SECONDS = (if x < DAY_SECONDS then x else x - DAY_SECONDS)" if "0 \<le> x" "x < 2 * DAY_SECONDS" for x :: int
  proof (cases "x < DAY_SECONDS")
    case False
    have "x mod DAY_SECONDS = (x - DAY_SECONDS) mod DAY_SECONDS" using mod_add_self2 [of "x - DAY_SECONDS" DAY_SECONDS] by simp
    also have "\<dots> = x - DAY_SECONDS" using False that by (intro mod_pos_pos_trivial) simp_all
    finally show ?thesis using False by simp
  qed (use that in \<open>simp add: mod_pos_pos_trivial\<close>)
  have "(t mod DAY_SECONDS + r) mod DAY_SECONDS = (if t mod DAY_SECONDS + r < DAY_SECONDS then t mod DAY_SECONDS + r else t mod DAY_SECONDS + r - DAY_SECONDS)"
    using assms by (intro x) simp_all
  then show ?thesis by (simp add: mod_add_left_eq)
qed

lemma between_multiples:
  fixes i n x :: int
  assumes "n * i < x" "x < (n + 1) * i" "0 < i"
  shows "\<not> i dvd x"
proof
  assume "i dvd x"
  then obtain k where k: "x = i * k" ..
  then have "n < k" "k < n + 1" using assms by (simp_all add: mult.commute)
  then show False by simp
qed

lemma div_bounds:
  fixes i x :: int
  assumes "0 < i"
  shows "x div i * i \<le> x" "x < (x div i + 1) * i"
proof -
  have "x = x div i * i + x mod i" "0 \<le> x mod i" "x mod i < i" using assms by simp_all
  then show "x div i * i \<le> x" "x < (x div i + 1) * i" unfolding distrib_right by linarith+
qed

text \<open>The two cases of the computation: before the start time, and after it.\<close>

lemma next_report:
  fixes now base i :: int
  assumes "0 \<le> base" "base < DAY_SECONDS" "0 < i"
  defines "cur \<equiv> now mod DAY_SECONDS"
  defines "np \<equiv> base + ((cur - base) div i + 1) * i"
  defines "r \<equiv> (if cur < base then base - cur else if np < DAY_SECONDS then np - cur else base + DAY_SECONDS - cur)"
  shows "0 < r \<and> r \<le> DAY_SECONDS \<and> report_due base i (now + r) \<and> (\<forall>q. 0 < q \<and> q < r \<longrightarrow> \<not> report_due base i (now + q))"
proof -
  have c: "0 \<le> cur" "cur < DAY_SECONDS" by (simp_all add: cur_def)
  have md: "(now + q) mod DAY_SECONDS = (if cur + q < DAY_SECONDS then cur + q else cur + q - DAY_SECONDS)" if "0 \<le> q" "cur + q < 2 * DAY_SECONDS" for q
    using day_mod [of q now] that by (simp add: cur_def)
  show ?thesis
  proof (cases "cur < base")
    case True
    then show ?thesis using c assms(1,2) md by (auto simp: r_def report_due_def)
  next
    case False
    define n where "n = (cur - base) div i"
    have np: "np = base + (n + 1) * i" by (simp add: np_def n_def)
    have b: "n * i \<le> cur - base" "cur - base < (n + 1) * i"
      using div_bounds [OF assms(3), of "cur - base"] by (simp_all add: n_def)
    have no: "\<not> report_due base i (now + q)" if "0 < q" "cur + q < DAY_SECONDS" "cur + q < np" for q
    proof -
      have "(now + q) mod DAY_SECONDS - base = cur + q - base" using md [of q] that by simp
      moreover have "\<not> i dvd (cur + q - base)" using between_multiples [of n i "cur + q - base"] b that np assms(3) by simp
      ultimately show ?thesis by (simp add: report_due_def)
    qed
    have late: "\<not> report_due base i (now + q)" if "DAY_SECONDS \<le> cur + q" "cur + q < base + DAY_SECONDS" "0 < q" for q
      using md [of q] that assms(2) by (simp add: report_due_def)
    show ?thesis
    proof (cases "np < DAY_SECONDS")
      case True
      then have r: "r = np - cur" using False by (simp add: r_def)
      have "0 \<le> (n + 1) * i" using b(2) False by linarith
      then have "report_due base i (now + r)" using md [of r] True b np assms(1,3) c by (simp add: r report_due_def)
      then show ?thesis using r no True b np c by auto
    next
      case npl: False
      then have r: "r = base + DAY_SECONDS - cur" using False by (simp add: r_def)
      have "report_due base i (now + r)" using md [of r] assms(1,2) c False by (simp add: r report_due_def)
      moreover have "\<not> report_due base i (now + q)" if "0 < q" "q < r" for q using no [of q] late [of q] that r npl by linarith
      ultimately show ?thesis using r False c assms(1) by auto
    qed
  qed
qed

text \<open>
  The time to the next report is right. For a valid start time and every interval of up to a million minutes, at every time, the result is between one second
  and one day, a report is due exactly then, and none is due before.
\<close>

lemma remaining_seconds_point:
  assumes "length t = 4" "list_all is_digit t" "dval (t ! 0) * 10 + dval (t ! 1) < 24" "dval (t ! 2) * 10 + dval (t ! 3) < 60"
    and "0 < interval" "interval \<le> 1000000" "0 \<le> now"
  shows "\<exists>r. calculate_remaining_seconds (Some t) interval now = Some r \<and> 0 < r \<and> r \<le> DAY_SECONDS \<and>
    report_due (start_second t) (interval * 60) (now + r) \<and> (\<forall>q. 0 < q \<and> q < r \<longrightarrow> \<not> report_due (start_second t) (interval * 60) (now + q))"
proof -
  let ?h = "dval (t ! 0) * 10 + dval (t ! 1)" and ?m = "dval (t ! 2) * 10 + dval (t ! 3)" and ?i = "interval * 60" and ?b = "start_second t" and ?c = "now mod DAY_SECONDS"
  have d: "0 \<le> dval (t ! k)" if "k < 4" for k using that assms(1,2) dval_bounds by (simp add: list_all_length)
  have h: "0 \<le> ?h" "0 \<le> ?m" using d [of 0] d [of 1] d [of 2] d [of 3] by simp_all
  have b: "?b = ?h * 3600 + ?m * 60" "0 \<le> ?b" "?b < DAY_SECONDS" using h assms(3,4) by (simp_all add: start_second_def)
  have i: "0 < ?i" "?i \<le> 60000000" using assms(5,6) by simp_all
  define n where "n = (?c - ?b) div ?i"
  have "(n + 1) * ?i \<le> DAY_SECONDS + ?i" if "\<not> ?c < ?b"
  proof -
    have "n * ?i \<le> ?c - ?b" using div_bounds(1) [OF i(1)] by (simp only: n_def)
    moreover have "?c < DAY_SECONDS" by simp
    ultimately show ?thesis using b(2) unfolding distrib_right by linarith
  qed
  moreover have "0 \<le> n" if "\<not> ?c < ?b" using that i(1) by (simp add: n_def pos_imp_zdiv_nonneg_iff)
  ultimately have k: "0 \<le> (n + 1) * ?i \<and> (n + 1) * ?i \<le> DAY_SECONDS + 60000000" if "\<not> ?c < ?b"
    using that i by (smt (verit) mult_nonneg_nonneg)
  have s: "s32 ?i = Some ?i" using i by (intro s32_id) linarith+
  have s2: "s32 ((n + 1) * ?i) = Some ((n + 1) * ?i)" "s32 (?b + (n + 1) * ?i) = Some (?b + (n + 1) * ?i)" if "\<not> ?c < ?b"
    using k [OF that] b(2,3) by (intro s32_id; linarith)+
  have "seconds_to_report ?b interval ?c =
      Some (if ?c < ?b then ?b - ?c else if ?b + (n + 1) * ?i < DAY_SECONDS then ?b + (n + 1) * ?i - ?c else ?b + DAY_SECONDS - ?c)"
    unfolding seconds_to_report_def s bind.bind_lunit Let_def n_def [symmetric] using s2 by simp
  moreover have "calculate_remaining_seconds (Some t) interval now = seconds_to_report ?b interval ?c"
    unfolding start_second_def using assms h by (simp add: calculate_remaining_seconds_def)
  ultimately show ?thesis using next_report [OF b(2,3) i(1), of now] unfolding n_def by metis
qed

section \<open>Coordinates\<close>

definition digits_value :: "int \<Rightarrow> bytes \<Rightarrow> int" where
  "digits_value v ds = foldl (\<lambda>v c. v * 10 + dval c) v ds"

text \<open>What a coordinate text means: an optional sign or direction, then digits; the value within the range.\<close>

definition coord_sign :: "bool \<Rightarrow> u8 \<Rightarrow> int option" where
  "coord_sign lat c = (if c = 43 \<or> c = (if lat then 78 else 69) then Some 1
     else if c = 45 \<or> c = (if lat then 83 else 87) then Some (-1) else None)"

definition coord_parts :: "bool \<Rightarrow> bytes \<Rightarrow> int \<times> bytes" where
  "coord_parts lat s = (case coord_sign lat (hd s) of Some sg \<Rightarrow> (sg, tl s) | None \<Rightarrow> (1, s))"

definition coord_ref :: "bool \<Rightarrow> bytes \<Rightarrow> int option" where
  "coord_ref lat s = (case coord_parts lat s of (sg, ds) \<Rightarrow>
     if ds \<noteq> [] \<and> list_all is_digit ds \<and> digits_value 0 ds \<le> (if lat then 90000000 else 180000000) then Some (sg * digits_value 0 ds) else None)"

definition coord_overflow :: "bool \<Rightarrow> bytes \<Rightarrow> bool" where
  "coord_overflow lat s \<longleftrightarrow> 2 ^ 31 \<le> digits_value 0 (takeWhile is_digit (snd (coord_parts lat s)))"

lemma digits_value_ge: "0 \<le> v \<Longrightarrow> list_all is_digit ds \<Longrightarrow> v \<le> digits_value v ds"
proof (induction ds arbitrary: v)
  case (Cons d ds)
  have "0 \<le> dval d" using dval_bounds [of d] Cons.prems(2) by simp
  then have "v \<le> v * 10 + dval d" "0 \<le> v * 10 + dval d" using Cons.prems(1) by simp_all
  then show ?case using Cons.IH [of "v * 10 + dval d"] Cons.prems(2) by (simp add: digits_value_def)
qed (simp add: digits_value_def)

lemma list_all_takeWhile: "list_all P (takeWhile P xs)"
  by (induction xs) simp_all

lemma coord_digits_eq:
  assumes "0 \<le> v" "v < 2 ^ 31"
  shows "coord_digits v k cs = (if 2 ^ 31 \<le> digits_value v (takeWhile is_digit cs) then None
    else Some (if list_all is_digit cs then Some (digits_value v cs, k + length cs) else None))"
  using assms
proof (induction cs arbitrary: v k)
  case (Cons c cs)
  show ?case
  proof (cases "is_digit c")
    case True
    have d: "0 \<le> dval c" "dval c \<le> 9" using dval_bounds [OF True] by simp_all
    define w where "w = v * 10 + dval c"
    have w: "0 \<le> w" using d Cons.prems(1) by (simp add: w_def)
    have val: "digits_value v (c # ds) = digits_value w ds" for ds by (simp add: digits_value_def w_def)
    show ?thesis
    proof (cases "w < 2 ^ 31")
      case lt: True
      then have "v * 10 < 2147483648" using d(1) by (simp add: w_def)
      then have "s32 (v * 10) = Some (v * 10)" "s32 (v * 10 + dval c) = Some w" using Cons.prems(1) w lt by (simp_all add: s32_id w_def)
      then show ?thesis using Cons.IH [OF w lt] True val by simp
    next
      case False
      then have "coord_digits v k (c # cs) = None" using True by (auto simp: s32_def w_def Let_def split: if_splits)
      moreover have "2 ^ 31 \<le> digits_value v (takeWhile is_digit (c # cs))"
        using False digits_value_ge [OF w list_all_takeWhile [of is_digit cs]] True val by simp
      ultimately show ?thesis by simp
    qed
  qed (use Cons.prems in \<open>simp add: digits_value_def\<close>)
qed (simp add: digits_value_def)

text \<open>
  C36: a coordinate is parsed exactly, or the program's behaviour is undefined. The empty text is accepted as no value. For every other text the
  result is the value it means, within 90 or 180 degrees, and everything else is refused with the output unchanged; only a number beyond the range of a 32 bit
  integer makes the accumulation overflow before the range is checked.
\<close>

theorem coordinate_parse_exact:
  "parse_coordinate_value (Some s) lat out =
     (if s = [] then Some (0, 0, 0) else if coord_overflow lat s then None
      else Some (case coord_ref lat s of Some v \<Rightarrow> (0, v, 1) | None \<Rightarrow> (-1, out)))"
proof (cases s)
  case (Cons c cs)
  obtain sg ds where p: "coord_parts lat s = (sg, ds)" by fastforce
  have ov: "coord_overflow lat s \<longleftrightarrow> 2 ^ 31 \<le> digits_value 0 (takeWhile is_digit ds)" by (simp add: coord_overflow_def p)
  have cd: "coord_digits 0 0 ds = (if coord_overflow lat s then None else Some (if list_all is_digit ds then Some (digits_value 0 ds, length ds) else None))"
    using coord_digits_eq [of 0 0 ds] ov by simp
  have nn: "list_all is_digit ds \<Longrightarrow> 0 \<le> digits_value 0 ds" using digits_value_ge [of 0 ds] by simp
  show ?thesis
  proof (cases "coord_sign lat c = None \<and> \<not> is_digit c")
    case True
    then have ds: "ds = c # cs" "sg = 1" using p Cons by (simp_all add: coord_parts_def)
    have "\<not> coord_overflow lat s" using True ds ov by (simp add: digits_value_def)
    moreover have "coord_ref lat s = None" using True ds p by (simp add: coord_ref_def)
    moreover have "parse_coordinate_value (Some s) lat out = Some (-1, out)"
      using True Cons by (auto simp: parse_coordinate_value_def coord_sign_def is_direction_def split: if_splits)
    ultimately show ?thesis using Cons by simp
  next
    case False
    let ?sg = "if c = 83 \<or> c = 87 \<or> c = 45 then -1 else 1 :: int"
    have dg: "is_digit c \<Longrightarrow> c \<noteq> 43 \<and> c \<noteq> 45 \<and> c \<noteq> 78 \<and> c \<noteq> 83 \<and> c \<noteq> 69 \<and> c \<noteq> 87" by (auto simp: is_digit_def)
    have ds: "ds = (if is_direction c \<or> c = 43 \<or> c = 45 then cs else c # cs)" "sg = ?sg"
      using p Cons False dg by (auto simp: coord_parts_def coord_sign_def is_direction_def split: if_splits)
    have "parse_coordinate_value (Some s) lat out = (case coord_digits 0 0 ds of
                  None \<Rightarrow> None
                | Some None \<Rightarrow> Some (-1, out)
                | Some (Some (abs_value, digit_count)) \<Rightarrow>
                    if digit_count = 0 then Some (-1, out)
                    else
                      let microdegrees = abs_value * sg; bound = (if lat then 90000000 else 180000000)
                      in if microdegrees < - bound \<or> microdegrees > bound then Some (-1, out) else Some (0, microdegrees, 1))"
      unfolding ds using False dg Cons by (auto simp: parse_coordinate_value_def coord_sign_def is_direction_def split: if_splits)
    moreover have "sg = 1 \<or> sg = -1" using ds(2) by auto
    ultimately show ?thesis using cd Cons p nn by (auto simp: coord_ref_def Let_def)
  qed
qed (simp add: parse_coordinate_value_def)

section \<open>Fields of a command\<close>

text \<open>The text behind the first \<open>k\<close> separators, if there are as many.\<close>

fun after_seps :: "u8 \<Rightarrow> nat \<Rightarrow> bytes \<Rightarrow> bytes option" where
  "after_seps sep 0 s = Some s"
| "after_seps sep (Suc k) s = (case dropWhile (\<lambda>c. c \<noteq> sep) s of [] \<Rightarrow> None | _ # r \<Rightarrow> after_seps sep k r)"

lemma str_at_skip:
  assumes "unat i + k = unat pos"
  shows "str_at_loop pos sep len i out s = (case after_seps sep k s of None \<Rightarrow> (False, out) | Some r \<Rightarrow> str_at_loop pos sep len pos out r)"
  using assms
proof (induction s arbitrary: i k)
  case Nil
  then show ?case by (cases k) auto
next
  case (Cons c cs)
  show ?case
  proof (cases k)
    case 0
    then have "i = pos" using Cons.prems by (simp add: word_unat_eq_iff)
    then show ?thesis by (simp add: 0)
  next
    case (Suc m)
    have lt: "unat i < unat pos" using Cons.prems Suc by simp
    have "unat pos < 2 ^ 16" using unsigned_less [of pos, where ?'a = nat] by simp
    then have u: "unat (i + 1) = unat i + 1" using lt by (simp add: unat_word_ariths)
    have ne: "i \<noteq> pos" "\<not> i > pos" using lt by (auto simp: word_less_nat_alt)
    show ?thesis
    proof (cases "c = sep")
      case True
      then show ?thesis using Cons.IH [of "i + 1" m] Cons.prems Suc u ne by simp
    next
      case False
      then show ?thesis using Cons.IH [OF Cons.prems] Suc ne by simp
    qed
  qed
qed

lemma str_at_copy:
  assumes "length out < n - 1" "pos < 65535"
  shows "str_at_loop pos sep (int n) pos out s =
    (let f = takeWhile (\<lambda>c. c \<noteq> sep) s
     in if n - 1 \<le> length out + length f then (False, out @ take (n - 1 - length out) f) else (Suc (length f) < length s, out @ f))"
  using assms(1)
proof (induction s arbitrary: out)
  case (Cons c cs)
  have gt: "pos < pos + 1" "pos \<noteq> pos + 1" using assms(2) by (simp_all add: word_less_nat_alt unat_word_ariths)
  show ?case
  proof (cases "c = sep")
    case True
    have "str_at_loop pos sep (int n) (pos + 1) out cs = (cs \<noteq> [], out)" using gt by (cases cs) auto
    then show ?thesis using True Cons.prems by (simp add: Let_def)
  next
    case False
    show ?thesis
    proof (cases "length (out @ [c]) < n - 1")
      case True
      then have "\<not> int n - 1 \<le> int (length (out @ [c]))" by linarith
      then have "str_at_loop pos sep (int n) pos out (c # cs) = str_at_loop pos sep (int n) pos (out @ [c]) cs" using False by simp
      moreover have "n - 1 - length out = Suc (n - 1 - length (out @ [c]))" using Cons.prems True by simp
      ultimately show ?thesis using Cons.IH [OF True] False by (simp add: Let_def)
    next
      case full: False
      then have eq: "n = Suc (Suc (length out))" using Cons.prems by simp
      then show ?thesis using False by (simp add: Let_def)
    qed
  qed
qed (simp add: Let_def)

text \<open>
  A field of a command is extracted correctly whatever the text. For every input and every position below 65535, the output is the text between the separators, cut to
  the buffer; the result tells whether text follows. The one error: with a buffer of a single byte a non-empty field makes the function write
  past its end, and a buffer of no bytes always does.
\<close>

lemma field_extracted:
  assumes "pos < 65535"
  shows "my_get_str_at_pos (Some s) pos sep n =
    (case after_seps sep (unat pos) s of
       None \<Rightarrow> if n = 0 then None else Some (False, Some [])
     | Some r \<Rightarrow>
         let f = takeWhile (\<lambda>c. c \<noteq> sep) r
         in if n = 0 \<or> n = 1 \<and> f \<noteq> [] then None
            else Some ((f = [] \<or> length f < n - 1) \<and> Suc (length f) < length r, Some (take (n - 1) f)))"
proof -
  have sk: "str_at_loop pos sep (int n) 0 [] s = (case after_seps sep (unat pos) s of None \<Rightarrow> (False, []) | Some r \<Rightarrow> str_at_loop pos sep (int n) pos [] r)"
    using str_at_skip [of 0 "unat pos" pos] by simp
  show ?thesis
  proof (cases "after_seps sep (unat pos) s")
    case None
    then show ?thesis using sk by (simp add: my_get_str_at_pos_def)
  next
    case (Some r)
    let ?f = "takeWhile (\<lambda>c. c \<noteq> sep) r"
    show ?thesis
    proof (cases "1 < n")
      case True
      then have "str_at_loop pos sep (int n) pos [] r = (if n - 1 \<le> length ?f then (False, take (n - 1) ?f) else (Suc (length ?f) < length r, ?f))"
        using str_at_copy [of "[]" n pos sep r] assms by (simp add: Let_def)
      then show ?thesis using sk Some True by (auto simp: my_get_str_at_pos_def Let_def)
    next
      case False
      have gt: "pos < pos + 1" "pos \<noteq> pos + 1" using assms by (simp_all add: word_less_nat_alt unat_word_ariths)
      have "str_at_loop pos sep (int n) pos [] r = (if ?f = [] then (Suc 0 < length r, []) else (False, [hd r]))"
      proof (cases r)
        case (Cons c cs)
        then show ?thesis using gt False by (cases cs) auto
      qed simp
      then show ?thesis using sk Some False by (auto simp: my_get_str_at_pos_def Let_def less_Suc_eq not_less)
    qed
  qed
qed

section \<open>Hexadecimal text\<close>

lemma all_words:
  fixes w :: u8
  assumes "\<forall>n < k. P (of_nat n :: u8)" "unat w < k"
  shows "P w"
proof -
  have "P (of_nat (unat w))" using assms by blast
  then show ?thesis by simp
qed

lemma nibble_text:
  assumes "d < 16"
  shows "HexChar2HexData (hex2ascii d) = d" "hex2ascii d \<noteq> 58" "hex2ascii d \<noteq> 0"
proof -
  have "\<forall>n < 16. HexChar2HexData (hex2ascii (of_nat n)) = of_nat n \<and> hex2ascii (of_nat n) \<noteq> 58 \<and> hex2ascii (of_nat n) \<noteq> 0"
    by code_simp
  moreover have "unat d < 16" using assms by (simp add: word_less_nat_alt)
  ultimately have "HexChar2HexData (hex2ascii d) = d \<and> hex2ascii d \<noteq> 58 \<and> hex2ascii d \<noteq> 0" by (rule all_words)
  then show "HexChar2HexData (hex2ascii d) = d" "hex2ascii d \<noteq> 58" "hex2ascii d \<noteq> 0" by blast+
qed

text \<open>The two digits of a byte.\<close>

lemma nibbles:
  fixes b :: u8
  shows "drop_bit 4 b AND 0x0F < 16" "b AND 0x0F < 16" "(push_bit 4 (drop_bit 4 b AND 0x0F) AND 0xF0) OR ((b AND 0x0F) AND 0x0F) = b"
    "(push_bit 4 (drop_bit 4 b AND 0x0F) AND 0xF0) + ((b AND 0x0F) AND 0x0F) = b"
proof -
  let ?h = "push_bit 4 (drop_bit 4 b AND 0x0F) AND 0xF0" and ?l = "(b AND 0x0F) AND 0x0F"
  have m: "(0x0F :: u8) = mask 4" "(0xF0 :: u8) = push_bit 4 (mask 4)" by (simp_all add: mask_eq_exp_minus_1)
  have "c AND mask 4 < (16 :: u8)" for c using and_mask_less' [of 4 c] by simp
  then show "drop_bit 4 b AND 0x0F < 16" "b AND 0x0F < 16" by (simp_all only: m)
  show l: "?h OR ?l = b" unfolding m by (rule bit_word_eqI) (auto simp: bit_simps)
  have "?h + ?l = ?h OR ?l" unfolding m by (rule disjunctive_add) (auto simp: bit_simps)
  then show "?h + ?l = b" using l by simp
qed

lemmas digit_hi = nibble_text [OF nibbles(1)] and digit_lo = nibble_text [OF nibbles(2)]

lemma digit_not_FF: "d < 16 \<Longrightarrow> d \<noteq> (0xFF :: u8)"
  by (auto simp: word_less_nat_alt)

lemma hex_text_Cons: "hex_text (b # bs) = hex2ascii (drop_bit 4 b AND 0x0F) # hex2ascii (b AND 0x0F) # hex_text bs"
  by (simp add: hex_text_def)

lemma length_hex_text: "length (hex_text bs) = 2 * length bs"
  by (induction bs) (simp_all add: hex_text_def)

lemma hex_text_no_zero: "0 \<notin> set (hex_text bs)"
  using digit_hi(3) digit_lo(3) by (induction bs) (auto simp: hex_text_Cons hex_text_def)

lemma hexstr_loop_text:
  assumes "length out + length bs \<le> cap" "length out + length bs < 128"
  shows "hexstr_loop cap (of_nat (2 * length out)) h out (hex_text bs) = (of_nat (length out + length bs), out @ bs)"
  using assms
proof (induction bs arbitrary: out h)
  case Nil
  have "(of_nat (2 * length out) :: u8) div 2 + of_nat (2 * length out) mod 2 = of_nat (length out)"
    using Nil.prems by (simp add: word_unat_eq_iff unat_div unat_mod unat_of_nat unat_word_ariths)
  then show ?case by (simp add: hex_text_def)
next
  case (Cons b bs)
  let ?k = "length out" and ?hi = "push_bit 4 (drop_bit 4 b AND 0x0F) AND 0xF0 :: u8"
  let ?o = "of_nat (2 * ?k) :: u8"
  have k: "2 * ?k + 1 < 256" using Cons.prems by simp
  have e: "?o mod 2 = 0" "(?o + 1) mod 2 \<noteq> 0" "(?o + 1) div 2 + (?o + 1) mod 2 = of_nat (?k + 1)" "?o + 1 + 1 = of_nat (2 * length (out @ [b]))"
    using k by (simp_all add: word_unat_eq_iff unat_div unat_mod unat_of_nat unat_word_ariths)
  have d: "HexChar2HexData (hex2ascii (drop_bit 4 b AND 0x0F)) = drop_bit 4 b AND 0x0F" "HexChar2HexData (hex2ascii (b AND 0x0F)) = b AND 0x0F"
    "drop_bit 4 b AND 0x0F \<noteq> 0xFF" "b AND 0x0F \<noteq> 0xFF"
    using digit_hi(1) digit_lo(1) digit_not_FF nibbles(1,2) by blast+
  have step: "hexstr_loop cap ?o h out (hex_text (b # bs)) =
      (if length (out @ [b]) \<ge> cap then (of_nat (?k + 1), out @ [b]) else hexstr_loop cap (of_nat (2 * length (out @ [b]))) b (out @ [b]) (hex_text bs))"
    unfolding hex_text_Cons hexstr_loop.simps Let_def d e(1) nibbles(3) using d(3,4) e by simp
  show ?case
  proof (cases "length (out @ [b]) \<ge> cap")
    case True
    then have "bs = []" using Cons.prems by (cases bs) simp_all
    then show ?thesis using step True by simp
  next
    case False
    then show ?thesis using step Cons.IH [of "out @ [b]"] Cons.prems by simp
  qed
qed

text \<open>
  Hexadecimal text round trip. Printing up to 127 bytes into a buffer with room for the digits and the terminator, and parsing the text read back, gives the bytes
  and their number.
\<close>

lemma hex_text_roundtrip:
  assumes "length bs < 128" "length bs \<le> dest_size" "0 < dest_size" "2 * length bs < length str"
  shows "\<exists>str'. hex2hexstr bs str = Some str' \<and> length str' = length str \<and>
    hexstr_to_hex dest_size (Some (takeWhile (\<lambda>c. c \<noteq> 0) str')) = (of_nat (length bs), bs)"
proof -
  let ?s = "hex_text bs @ 0 # drop (2 * length bs + 1) str"
  have "hex2hexstr bs str = Some ?s"
    using assms(4) by (simp add: hex2hexstr_def mem_write_def length_hex_text mem_put_def)
  moreover have "takeWhile (\<lambda>c. c \<noteq> 0) ?s = hex_text bs" using hex_text_no_zero [of bs] by (auto simp: takeWhile_append)
  moreover have "hexstr_to_hex dest_size (Some (hex_text bs)) = (of_nat (length bs), bs)"
    using hexstr_loop_text [of "[]" bs dest_size 0] assms by (simp add: hexstr_to_hex_def)
  ultimately show ?thesis using assms(4) by (auto simp: length_hex_text)
qed

text \<open>The printer checks for the digits only: a buffer of exactly their size is overrun by the terminator.\<close>

lemma hex2hexstr_overrun: "hex2hexstr hex str = None \<longleftrightarrow> length str = 2 * length hex"
  by (auto simp: hex2hexstr_def mem_write_def length_hex_text)

text \<open>A text of an odd number of digits: the last one is counted as a byte that is never written.\<close>

lemma hexstr_odd_digits: "hexstr_to_hex 6 (Some (ascii ''ABC'')) = (2, [0xAB])"
  by (simp add: hexstr_to_hex_def ascii_def HexChar2HexData_def)

section \<open>MAC addresses\<close>

fun mac_text :: "bytes \<Rightarrow> bytes" where
  "mac_text [] = []"
| "mac_text [b] = hex_text [b]"
| "mac_text (b # bs) = hex_text [b] @ 58 # mac_text bs"

lemma macstr_byte:
  assumes "s ! k = hex2ascii (drop_bit 4 b AND 0x0F)" "s ! (k + 1) = hex2ascii (b AND 0x0F)" "k + 1 < length s" "length out < 6"
  shows "macstr_loop s k out = macstr_loop s (k + 2) (out @ [b])"
proof -
  have "HexChar2HexData (s ! k) = drop_bit 4 b AND 0x0F" "HexChar2HexData (s ! (k + 1)) = b AND 0x0F" "s ! k \<noteq> 58"
    "drop_bit 4 b AND 0x0F \<noteq> 0xFF" "b AND 0x0F \<noteq> 0xFF"
    using digit_hi digit_lo digit_not_FF nibbles(1,2) assms(1,2) by metis+
  then show ?thesis unfolding macstr_loop.simps [of s k] using nibbles(4) [of b] assms(3,4) by (simp add: Let_def)
qed

lemma macstr_colon:
  assumes "s ! k = 58" "k \<in> {2, 5, 8, 11, 14}" "k < length s"
  shows "macstr_loop s k out = macstr_loop s (k + 1) out"
  unfolding macstr_loop.simps [of s k] using assms by simp

lemma macstr_end: "length s \<le> k \<Longrightarrow> macstr_loop s k out = (True, out)"
  unfolding macstr_loop.simps [of s k] by simp

lemma macstr_hex_text:
  "length out + length bs \<le> 6 \<Longrightarrow> macstr_loop (p @ hex_text bs) (length p) out = (True, out @ bs)"
proof (induction bs arbitrary: p out)
  case (Cons b bs)
  let ?b = "hex_text [b]"
  have "macstr_loop (p @ hex_text (b # bs)) (length p) out = macstr_loop (p @ hex_text (b # bs)) (length p + 2) (out @ [b])"
    using Cons.prems by (intro macstr_byte) (simp_all add: hex_text_Cons nth_append)
  also have "\<dots> = macstr_loop ((p @ ?b) @ hex_text bs) (length (p @ ?b)) (out @ [b])" by (simp add: hex_text_Cons hex_text_def [of "[]"])
  finally show ?case using Cons.IH [of "out @ [b]" "p @ ?b"] Cons.prems by simp
qed (simp add: hex_text_def macstr_end)

lemma macstr_mac_text:
  "length out + length bs \<le> 6 \<Longrightarrow> length p = 3 * length out \<Longrightarrow> macstr_loop (p @ mac_text bs) (length p) out = (True, out @ bs)"
proof (induction bs arbitrary: p out rule: mac_text.induct)
  case (2 b)
  then show ?case using macstr_hex_text [of out "[b]" p] by simp
next
  case (3 b c cs)
  let ?s = "p @ mac_text (b # c # cs)" and ?p = "p @ hex_text [b] @ [58]"
  have len: "length (hex_text [b]) = 2" by (simp add: length_hex_text)
  have "macstr_loop ?s (length p) out = macstr_loop ?s (length p + 2) (out @ [b])"
    using "3.prems" by (intro macstr_byte) (simp_all add: hex_text_Cons nth_append)
  also have "\<dots> = macstr_loop ?s (length p + 2 + 1) (out @ [b])"
  proof (rule macstr_colon)
    have "length out < 5" using "3.prems"(1) by simp
    then consider "length out = 0" | "length out = 1" | "length out = 2" | "length out = 3" | "length out = 4" by linarith
    then show "length p + 2 \<in> {2, 5, 8, 11, 14}" using "3.prems"(2) by cases simp_all
  qed (use len in \<open>simp_all add: nth_append\<close>)
  also have "\<dots> = macstr_loop (?p @ mac_text (c # cs)) (length ?p) (out @ [b])" using len by (simp add: numeral_eq_Suc)
  finally show ?case using "3.IH" [of "out @ [b]" ?p] "3.prems" len by simp
qed (simp add: macstr_end)

lemma length_mac_text: "length (mac_text bs) = 3 * length bs - 1"
  by (induction bs rule: mac_text.induct) (simp_all add: length_hex_text)

text \<open>Both spellings of an address are read: twelve digits, and six groups of two with colons.\<close>

lemma mac_text_parsed:
  assumes "length bs = 6"
  shows "macstr_to_hex (Some (hex_text bs)) = (True, bs)" "macstr_to_hex (Some (mac_text bs)) = (True, bs)"
  using macstr_hex_text [of "[]" bs "[]"] macstr_mac_text [of "[]" bs "[]"] assms
  by (simp_all add: macstr_to_hex_def length_hex_text length_mac_text)

text \<open>Twelve characters are also accepted with fewer than six bytes; the rest of the address is not written.\<close>

lemma mac_short_accepted: "macstr_to_hex (Some (ascii ''AA:BB:CC:DD:'')) = (True, [0xAA, 0xBB, 0xCC, 0xDD])"
  by (simp add: macstr_to_hex_def ascii_def HexChar2HexData_def macstr_loop.simps)

section \<open>Dates\<close>

text \<open>The Gregorian calendar of the years from 2000 on, and the two digit fields of a text.\<close>

definition month_days :: "int \<Rightarrow> int \<Rightarrow> int" where
  "month_days year month =
     (if month = 2 then if 4 dvd year \<and> (100 dvd year \<longrightarrow> 400 dvd year) then 29 else 28
      else if month \<in> {4, 6, 9, 11} then 30 else 31)"

definition field2 :: "bytes \<Rightarrow> nat \<Rightarrow> int" where
  "field2 s k = dval (s ! k) * 10 + dval (s ! (k + 1))"

definition date_ok :: "bytes \<Rightarrow> bool" where
  "date_ok s \<longleftrightarrow> field2 s 2 \<in> {1..12} \<and> field2 s 4 \<in> {1..month_days (2000 + field2 s 0) (field2 s 2)} \<and> field2 s 6 \<in> {0..23} \<and> field2 s 8 \<in> {0..59}"

text \<open>The leap year rule is applied to the two digits of the year, which is right for the years 2000 to 2099.\<close>

lemma leap_two_digits:
  fixes y :: int
  shows "4 dvd (2000 + y) \<and> (100 dvd (2000 + y) \<longrightarrow> 400 dvd (2000 + y)) \<longleftrightarrow> y mod 4 = 0 \<and> y mod 100 \<noteq> 0 \<or> y mod 400 = 0"
proof -
  have "(2000 + y) mod 4 = y mod 4" "(2000 + y) mod 100 = y mod 100" "(2000 + y) mod 400 = y mod 400"
    using mod_mult_self3 [of 500 4 y] mod_mult_self3 [of 20 100 y] mod_mult_self3 [of 5 400 y] by simp_all
  moreover have "4 dvd y" if "400 dvd y" using that dvd_trans [of 4 400 y] by simp
  moreover have "100 dvd y" if "400 dvd y" using that dvd_trans [of 100 400 y] by simp
  ultimately show ?thesis unfolding dvd_eq_mod_eq_0 by metis
qed

lemma time_format_calendar:
  assumes "length s = 10" "list_all is_digit s"
  shows "validate_time_format (Some s) v = (if date_ok s then (0, 1) else (-1, v))"
proof -
  let ?y = "field2 s 0" and ?m = "field2 s 2"
  have "month_days (2000 + ?y) ?m = (if ?m = 4 \<or> ?m = 6 \<or> ?m = 9 \<or> ?m = 11 then 30
      else if ?m = 2 then if ?y mod 4 = 0 \<and> ?y mod 100 \<noteq> 0 \<or> ?y mod 400 = 0 then 29 else 28 else 31)"
    unfolding month_days_def leap_two_digits by simp
  moreover have "dval (s ! 0) * 10 + dval (s ! 1) = ?y" "dval (s ! 2) * 10 + dval (s ! 3) = ?m" "dval (s ! 4) * 10 + dval (s ! 5) = field2 s 4"
    "dval (s ! 6) * 10 + dval (s ! 7) = field2 s 6" "dval (s ! 8) * 10 + dval (s ! 9) = field2 s 8"
    by (simp_all add: field2_def)
  ultimately show ?thesis
    using assms unfolding validate_time_format_def date_ok_def Let_def by (simp add: not_less)
qed

end
