(* ===== verification/Battery.thy ===== *)
theory Battery
  imports Pm "HOL-Library.Signed_Division"
begin

text \<open>
  Model of \<^verbatim>\<open>src/my_battery.c\<close> and of the indicator lamps and battery messages of \<^verbatim>\<open>src/my_ctrl.c\<close>: sampling of the
  voltage, the displayed percentage, charge detection and the modes of the lamps. Static variables are fields of the record \<open>battery\<close>; the messages to
  the control thread are its queue of ten entries, alarms and messages to other modules are an output trace.

  The converter, its conversion to millivolts and the level of the charger pin are parameters over a state \<open>'w\<close> of the outside world; the power manager is the one of
  the theory \<open>Pm\<close>. Samples are 16 bit values, so sums and products stay far within 32 bits and are modelled as integers.
\<close>

section \<open>Data\<close>

datatype my_batt_state = BATT_UNKNOWN | BATT_EMPTY | BATT_LOW | BATT_NORMAL | BATT_FAIR | BATT_HIGH | BATT_FULL

datatype my_chg_state = CHARG_UNKNOWN | NO_CHARGING | CHARGING | CHARG_FULL

datatype my_chg_batt_state = CHG_BATT_LOW | CHG_BATT_FAIR | CHG_BATT_HIGH | CHG_BATT_FULL

datatype led_mode = BATT_LED_MODE | CHG_LED_MODE | BT_RADIO_LED_MODE | BT_CONNECT_LED_MODE

primrec batt_code :: "my_batt_state \<Rightarrow> int" where
  "batt_code BATT_UNKNOWN = -1" | "batt_code BATT_EMPTY = 0" | "batt_code BATT_LOW = 1" | "batt_code BATT_NORMAL = 2"
| "batt_code BATT_FAIR = 3" | "batt_code BATT_HIGH = 4" | "batt_code BATT_FULL = 5"

primrec chg_code :: "my_chg_batt_state \<Rightarrow> nat" where
  "chg_code CHG_BATT_LOW = 0" | "chg_code CHG_BATT_FAIR = 1" | "chg_code CHG_BATT_HIGH = 2" | "chg_code CHG_BATT_FULL = 3"

primrec mode_code :: "led_mode \<Rightarrow> nat" where
  "mode_code BATT_LED_MODE = 0" | "mode_code CHG_LED_MODE = 1" | "mode_code BT_RADIO_LED_MODE = 2" | "mode_code BT_CONNECT_LED_MODE = 3"

text \<open>Messages to the control thread; all but the first five concern other parts of it.\<close>

datatype ctrl_msg = MY_MSG_SHOW_CHARG | MY_MSG_UPDATE_BATTERY | MY_MSG_LED_CTRL_MODE | MY_MSG_LED_ENABLE | MY_MSG_LED_DISABLE | MY_MSG_CTRL_OTHER

datatype batt_event = ALARM_CHARGE_IN | ALARM_CHARGE_OUT | ALARM_CHARGE_FULL | ALARM_BAT_SWITCH bytes
  | MY_MSG_BLE_OPEN_ADV | MY_MSG_LPSLEEP_BATTERY_CHECK

record batt_config =
  bluetooth_flag :: u8
  bluetooth_sw :: u8
  bluetooth_a :: u8
  lprunning_sw :: u8
  led_display :: u8

record 'w batt_env =
  be_pm :: "'w pm_env"
  adc_ready :: bool
  adc_read :: "'w \<Rightarrow> int \<times> int \<times> 'w"
  adc_raw_to_millivolts :: "int \<Rightarrow> int \<times> int"
  charge_det :: "'w \<Rightarrow> int"

record 'w battery =
  s_read_mv :: int
  s_show_percent :: int
  s_batt_state :: my_batt_state
  s_chg_batt_state :: my_chg_batt_state
  g_charg_state :: my_chg_state
  s_chg_det_level :: int
  s_last_chg_det_level :: int
  s_batt_disable_flag :: bool
  s_last_chg_state :: my_chg_state
  s_last_batt_state :: my_batt_state
  s_batt_first_update :: bool
  s_batt_update_count :: int
  s_jump_percent :: int
  led_status :: u8
  active_mode :: led_mode
  led_count :: u8
  s_led_enable_flag :: bool
  s_led_connect_timer :: u16
  s_chg_det_timer :: bool
  s_batt_update_timer :: "nat option"
  timer_led_blink :: "nat option"
  timer_led_enable :: "nat option"
  batt_pwr_en :: bool
  batt_leds :: "bool list"
  ctrl_msgq :: "ctrl_msg list"
  batt_sent :: "batt_event list"
  batt_pm :: "'w pm"
  batt_world :: 'w

abbreviation BATT_ADC_SAMPLE_NUM :: nat where "BATT_ADC_SAMPLE_NUM \<equiv> 3"
abbreviation BATT_UPDATE_COUNT :: int where "BATT_UPDATE_COUNT \<equiv> 3"
abbreviation CTRL_MSGQ_LEN :: nat where "CTRL_MSGQ_LEN \<equiv> 10"
abbreviation BATT_TIMER_MS :: nat where "BATT_TIMER_MS \<equiv> 100"
abbreviation CHG_CTRL_LED_MS :: nat where "CHG_CTRL_LED_MS \<equiv> 500"
abbreviation CHG_UPDATE_S :: nat where "CHG_UPDATE_S \<equiv> 10"
abbreviation BATT_UPDATE_S :: nat where "BATT_UPDATE_S \<equiv> 30"
abbreviation LED_BLINK_COUNT :: u8 where "LED_BLINK_COUNT \<equiv> 4"

text \<open>The values of the static variables at power-up.\<close>

definition battery_start :: "'w pm \<Rightarrow> 'w \<Rightarrow> 'w battery" where
  "battery_start pm w = \<lparr>s_read_mv = 0, s_show_percent = 0, s_batt_state = BATT_EMPTY, s_chg_batt_state = CHG_BATT_LOW, g_charg_state = NO_CHARGING,
     s_chg_det_level = 0, s_last_chg_det_level = -1, s_batt_disable_flag = False, s_last_chg_state = CHARG_UNKNOWN, s_last_batt_state = BATT_UNKNOWN,
     s_batt_first_update = True, s_batt_update_count = 0, s_jump_percent = -1, led_status = 0, active_mode = BATT_LED_MODE, led_count = 0,
     s_led_enable_flag = False, s_led_connect_timer = 100, s_chg_det_timer = False, s_batt_update_timer = None, timer_led_blink = None,
     timer_led_enable = None, batt_pwr_en = False, batt_leds = [False, False, False], ctrl_msgq = [], batt_sent = [], batt_pm = pm, batt_world = w\<rparr>"

section \<open>Messages and lamps\<close>

text \<open>A message is dropped when the queue is full.\<close>

definition send_ctrl :: "ctrl_msg \<Rightarrow> 'w battery \<Rightarrow> 'w battery" where
  "send_ctrl m s = (if length (ctrl_msgq s) < CTRL_MSGQ_LEN then s\<lparr>ctrl_msgq := ctrl_msgq s @ [m]\<rparr> else s)"

definition batt_emit :: "batt_event \<Rightarrow> 'w battery \<Rightarrow> 'w battery" where
  "batt_emit e s = s\<lparr>batt_sent := batt_sent s @ [e]\<rparr>"

definition my_ctrl_led_process :: "nat \<Rightarrow> bool \<Rightarrow> 'w battery \<Rightarrow> 'w battery" where
  "my_ctrl_led_process led_id cmd s = s\<lparr>batt_leds := (batt_leds s)[led_id := cmd]\<rparr>"

definition batt_led_set_level :: "nat \<Rightarrow> 'w battery \<Rightarrow> 'w battery" where
  "batt_led_set_level level s =
     (let level = (if level > 3 then 3 else level) in fold (\<lambda>i. my_ctrl_led_process i (i < level)) [0..<3] s)"

definition led_enable :: "bool \<Rightarrow> 'w battery \<Rightarrow> 'w battery" where
  "led_enable on s = s\<lparr>s_led_enable_flag := on\<rparr>"

definition batt_enable :: "bool \<Rightarrow> 'w battery \<Rightarrow> 'w battery" where
  "batt_enable on s = s\<lparr>batt_pwr_en := on\<rparr>"

definition led_status_set :: "led_mode \<Rightarrow> bool \<Rightarrow> 'w battery \<Rightarrow> 'w battery" where
  "led_status_set mode on s =
     s\<lparr>led_status := (if on then led_status s OR push_bit (mode_code mode) 1 else led_status s AND NOT (push_bit (mode_code mode) 1))\<rparr>"

definition led_status_get :: "led_mode \<Rightarrow> 'w battery \<Rightarrow> bool" where
  "led_status_get mode s \<longleftrightarrow> led_status s AND push_bit (mode_code mode) 1 \<noteq> 0"

definition led_set_mode :: "batt_config \<Rightarrow> led_mode \<Rightarrow> bool \<Rightarrow> 'w battery \<Rightarrow> 'w battery" where
  "led_set_mode cfg mode on s = send_ctrl MY_MSG_LED_CTRL_MODE
     (case mode of
        CHG_LED_MODE \<Rightarrow>
          let s1 = led_status_set mode on s
          in if on then led_enable True s1 else if led_display cfg \<noteq> 2 then led_enable False s1 else s1
      | BT_RADIO_LED_MODE \<Rightarrow>
          let s1 = led_status_set mode on s in if on then led_status_set BT_CONNECT_LED_MODE False s1 else s1
      | BT_CONNECT_LED_MODE \<Rightarrow>
          let s1 = led_status_set mode on s in if on then led_status_set BT_RADIO_LED_MODE False s1 else s1
      | BATT_LED_MODE \<Rightarrow> s)"

definition led_ctrl_callback :: "batt_config \<Rightarrow> 'w battery \<Rightarrow> 'w battery" where
  "led_ctrl_callback cfg s =
     (if \<not> s_led_enable_flag s then s
      else
        let n = led_count s;
            s1 = (case active_mode s of
               CHG_LED_MODE \<Rightarrow>
                 if n mod 3 = 0 then (batt_led_set_level (chg_code (s_chg_batt_state s) + 1) s)\<lparr>led_count := 0\<rparr>
                 else if n mod 3 = 2 then batt_led_set_level (chg_code (s_chg_batt_state s)) s
                 else s
             | BATT_LED_MODE \<Rightarrow>
                 let mode = batt_code (s_batt_state s) mod 2; level = nat (batt_code (s_batt_state s) div 2)
                 in if mode = 0
                    then if n mod 10 = 0 then (batt_led_set_level (level + 1) s)\<lparr>led_count := 0\<rparr>
                         else if n mod 10 = 3 then batt_led_set_level level s
                         else s
                    else batt_led_set_level (level + 1) s
             | BT_RADIO_LED_MODE \<Rightarrow>
                 if n mod 5 = 0 then (batt_led_set_level 3 s)\<lparr>led_count := 0\<rparr>
                 else if n mod 5 = 1 then batt_led_set_level 0 s
                 else s
             | BT_CONNECT_LED_MODE \<Rightarrow>
                 if n = LED_BLINK_COUNT * 2 * 5 then led_set_mode cfg BT_CONNECT_LED_MODE False s
                 else if n mod 2 = 0 then batt_led_set_level 3 s
                 else batt_led_set_level 0 s)
        in s1\<lparr>led_count := led_count s1 + 1\<rparr>)"

definition led_sw_callback :: "batt_config \<Rightarrow> 'w battery \<Rightarrow> 'w battery" where
  "led_sw_callback cfg s =
     (if led_display cfg = 1 \<and> \<not> led_status_get CHG_LED_MODE s then send_ctrl MY_MSG_LED_DISABLE s else s)"

definition open_led_timer :: "batt_config \<Rightarrow> nat \<Rightarrow> 'w battery \<Rightarrow> 'w battery" where
  "open_led_timer cfg timer_ms s =
     (if led_display cfg = 1 \<and> \<not> led_status_get CHG_LED_MODE s
      then send_ctrl MY_MSG_LED_ENABLE (s\<lparr>timer_led_enable := Some timer_ms\<rparr>) else s)"

definition bt_led_connect_quick_flick :: "u8 \<Rightarrow> 'w battery \<Rightarrow> 'w battery" where
  "bt_led_connect_quick_flick count s = s\<lparr>s_led_connect_timer := 500 div ucast count\<rparr>"

definition led_mode_start :: "led_mode \<Rightarrow> nat \<Rightarrow> 'w battery \<Rightarrow> 'w battery" where
  "led_mode_start mode ms s = s\<lparr>active_mode := mode, timer_led_blink := Some ms\<rparr>"

definition my_led_ctrl_mode :: "batt_config \<Rightarrow> 'w battery \<Rightarrow> 'w battery" where
  "my_led_ctrl_mode cfg s =
     (let s1 = (batt_led_set_level 0 (s\<lparr>timer_led_blink := None\<rparr>))\<lparr>led_count := 0\<rparr>
      in if \<not> led_status_get CHG_LED_MODE s1 \<and> led_display cfg = 1 then led_mode_start BATT_LED_MODE BATT_TIMER_MS s1
         else if led_status_get BT_RADIO_LED_MODE s1 then led_mode_start BT_RADIO_LED_MODE 200 s1
         else if led_status_get BT_CONNECT_LED_MODE s1
         then let s2 = bt_led_connect_quick_flick LED_BLINK_COUNT s1 in led_mode_start BT_CONNECT_LED_MODE (unat (s_led_connect_timer s2)) s2
         else if led_status_get CHG_LED_MODE s1 then led_mode_start CHG_LED_MODE CHG_CTRL_LED_MS s1
         else led_mode_start BATT_LED_MODE BATT_TIMER_MS s1)"

section \<open>Voltage and percentage\<close>

definition batt_read_mv :: "'w batt_env \<Rightarrow> 'w \<Rightarrow> int \<times> int \<times> 'w" where
  "batt_read_mv env w =
     (case adc_read env w of (err, raw, w1) \<Rightarrow>
        if err < 0 then (err, 0, w1)
        else case adc_raw_to_millivolts env raw of (err, val_mv) \<Rightarrow> if err < 0 then (err, 0, w1) else (0, val_mv, w1))"

text \<open>The sampling loop: the largest, the smallest and the sum of the samples, as far as the comparisons with \<open>mv\<close> keep them.\<close>

fun batt_sample_loop :: "'w batt_env \<Rightarrow> int \<Rightarrow> nat \<Rightarrow> int \<Rightarrow> int \<Rightarrow> int \<Rightarrow> 'w \<Rightarrow> int \<times> int \<times> int \<times> int \<times> 'w" where
  "batt_sample_loop env mv 0 max_mv min_mv sum_mv w = (0, max_mv, min_mv, sum_mv, w)"
| "batt_sample_loop env mv (Suc n) max_mv min_mv sum_mv w =
     (case batt_read_mv env w of (err, read_mv, w1) \<Rightarrow>
        if err \<noteq> 0 then (err, max_mv, min_mv, sum_mv, w1)
        else batt_sample_loop env mv n (if mv > max_mv then read_mv else max_mv) (if mv < min_mv then read_mv else min_mv) (sum_mv + read_mv) w1)"

definition CALC_ACTUAL_MV :: "int \<Rightarrow> int" where
  "CALC_ACTUAL_MV avg_mv = avg_mv * (2000 + 680) sdiv 680"

text \<open>The result and the new value of \<open>*mv\<close>.\<close>

definition my_battery_read_mv :: "'w batt_env \<Rightarrow> int \<Rightarrow> 'w \<Rightarrow> int \<times> int \<times> 'w" where
  "my_battery_read_mv env mv w =
     (case batt_sample_loop env mv BATT_ADC_SAMPLE_NUM 0 10000 0 w of (err, max_mv, min_mv, sum_mv, w1) \<Rightarrow>
        if err \<noteq> 0 then (err, mv, w1)
        else (0, CALC_ACTUAL_MV ((sum_mv - max_mv - min_mv) sdiv (int BATT_ADC_SAMPLE_NUM - 2)), w1))"

definition BATT_VOLT_PERCENT_MAP :: "(int \<times> int) list" where
  "BATT_VOLT_PERCENT_MAP = [(3000, 0), (3300, 10), (3500, 20), (3600, 30), (3700, 40), (3800, 50), (3900, 60), (4000, 70), (4100, 80), (4150, 90), (4200, 100)]"

text \<open>The index at which the search for the interval stops.\<close>

fun batt_map_find :: "int \<Rightarrow> nat \<Rightarrow> (int \<times> int) list \<Rightarrow> nat" where
  "batt_map_find mv i ((v, p) # (v', p') # es) = (if v \<le> mv \<and> mv \<le> v' then i else batt_map_find mv (i + 1) ((v', p') # es))"
| "batt_map_find mv i es = i"

definition batt_mv_percent :: "int \<Rightarrow> int" where
  "batt_mv_percent mv =
     (if mv < fst (hd BATT_VOLT_PERCENT_MAP) then 0
      else if mv > fst (last BATT_VOLT_PERCENT_MAP) then 100
      else
        let i = batt_map_find mv 0 BATT_VOLT_PERCENT_MAP
        in (case (BATT_VOLT_PERCENT_MAP ! i, BATT_VOLT_PERCENT_MAP ! (i + 1)) of
              ((v, p), (v', p')) \<Rightarrow> p + (mv - v) * (p' - p) sdiv (v' - v)))"

definition my_battery_read_percent :: "'w batt_env \<Rightarrow> 'w battery \<Rightarrow> int \<times> 'w battery" where
  "my_battery_read_percent env s =
     (case my_battery_read_mv env (s_read_mv s) (batt_world s) of (err, mv, w) \<Rightarrow>
        (batt_mv_percent mv, s\<lparr>s_read_mv := mv, batt_world := w\<rparr>))"

section \<open>The displayed percentage\<close>

definition my_battery_event_reporting :: "'w battery \<Rightarrow> 'w battery" where
  "my_battery_event_reporting s =
     (if s_batt_state s \<noteq> s_last_batt_state s
      then (batt_emit (ALARM_BAT_SWITCH (take 1 (print_int (batt_code (s_batt_state s)))) ) s)\<lparr>s_last_batt_state := s_batt_state s\<rparr>
      else s)"

definition batt_class :: "int \<Rightarrow> my_batt_state" where
  "batt_class p = (if p \<le> 5 then BATT_EMPTY else if p \<le> 30 then BATT_LOW else if p \<le> 45 then BATT_NORMAL
     else if p \<le> 65 then BATT_FAIR else if p \<le> 85 then BATT_HIGH else BATT_FULL)"

definition chg_class :: "int \<Rightarrow> my_chg_batt_state" where
  "chg_class p = (if p \<le> 30 then CHG_BATT_LOW else if p \<le> 60 then CHG_BATT_FAIR else if p \<le> 85 then CHG_BATT_HIGH else CHG_BATT_FULL)"

text \<open>The restart of the timer; the first component tells whether the update goes on.\<close>

definition batt_restart_timer :: "'w battery \<Rightarrow> bool \<times> 'w battery" where
  "batt_restart_timer s =
     (if g_charg_state s = NO_CHARGING then (True, s\<lparr>s_batt_disable_flag := False, s_batt_update_timer := Some (BATT_UPDATE_S * 1000)\<rparr>)
      else if s_batt_disable_flag s then (False, s\<lparr>s_batt_disable_flag := False, s_batt_update_timer := Some 1000\<rparr>)
      else (True, s\<lparr>s_batt_disable_flag := True, s_batt_update_timer := Some ((CHG_UPDATE_S - 1) * 1000)\<rparr>))"

definition batt_first_reading :: "int \<Rightarrow> 'w battery \<Rightarrow> 'w battery" where
  "batt_first_reading percent s =
     (if s_batt_first_update s
      then send_ctrl MY_MSG_SHOW_CHARG (s\<lparr>s_batt_first_update := False, s_batt_update_count := 0, s_show_percent := percent\<rparr>)
      else s)"

definition batt_smooth :: "int \<Rightarrow> 'w battery \<Rightarrow> 'w battery" where
  "batt_smooth percent s =
     (if (if g_charg_state s = NO_CHARGING then percent < s_show_percent s else percent > s_show_percent s)
      then if s_batt_update_count s + 1 \<ge> BATT_UPDATE_COUNT
           then s\<lparr>s_batt_update_count := 0, s_show_percent := s_show_percent s + (if g_charg_state s = NO_CHARGING then -1 else 1)\<rparr>
           else s\<lparr>s_batt_update_count := s_batt_update_count s + 1\<rparr>
      else s\<lparr>s_batt_update_count := 0\<rparr>)"

definition batt_jump :: "int \<Rightarrow> 'w battery \<Rightarrow> 'w battery" where
  "batt_jump percent s =
     (if \<bar>percent - s_show_percent s\<bar> \<ge> 5
      then if s_jump_percent s < 0 then s\<lparr>s_jump_percent := percent\<rparr>
           else if \<bar>percent - s_jump_percent s\<bar> \<le> 1 then s\<lparr>s_show_percent := percent, s_jump_percent := -1\<rparr>
           else s\<lparr>s_jump_percent := percent\<rparr>
      else s\<lparr>s_jump_percent := -1\<rparr>)"

definition batt_charging_update :: "'w battery \<Rightarrow> 'w battery" where
  "batt_charging_update s =
     (if g_charg_state s = NO_CHARGING then s
      else
        let s1 = batt_enable True (s\<lparr>s_chg_batt_state := chg_class (s_show_percent s)\<rparr>)
        in if s_show_percent s1 \<ge> 100 \<and> g_charg_state s1 \<noteq> CHARG_FULL
           then send_ctrl MY_MSG_SHOW_CHARG (s1\<lparr>g_charg_state := CHARG_FULL\<rparr>) else s1)"

text \<open>What follows a reading.\<close>

definition batt_take_reading :: "batt_config \<Rightarrow> int \<Rightarrow> 'w battery \<Rightarrow> 'w battery" where
  "batt_take_reading cfg percent s =
     (let s1 = batt_jump percent (batt_smooth percent (batt_first_reading percent s));
          s2 = batt_charging_update (my_battery_event_reporting (s1\<lparr>s_batt_state := batt_class (s_show_percent s1)\<rparr>))
      in if lprunning_sw cfg = 1 then batt_emit MY_MSG_LPSLEEP_BATTERY_CHECK s2 else s2)"

definition my_battery_update_state :: "batt_config \<Rightarrow> 'w batt_env \<Rightarrow> 'w battery \<Rightarrow> 'w battery" where
  "my_battery_update_state cfg env s =
     (case batt_restart_timer s of (go, s1) \<Rightarrow>
        if \<not> go then s1
        else case my_pm_device_resume (be_pm env) MY_PM_DEV_BATTERY (batt_pm s1) (batt_world s1) of (ret, pm, w) \<Rightarrow>
          let s2 = s1\<lparr>batt_pm := pm, batt_world := w\<rparr>
          in if ret < 0 then s2
             else case my_battery_read_percent env s2 of (percent, s3) \<Rightarrow>
               let s4 = batt_take_reading cfg percent s3
               in (case my_pm_device_suspend (be_pm env) MY_PM_DEV_BATTERY (batt_pm s4) (batt_world s4) of (ret, pm, w) \<Rightarrow>
                     s4\<lparr>batt_pm := pm, batt_world := w\<rparr>))"

section \<open>Charge detection\<close>

definition my_chg_event_reporting :: "'w battery \<Rightarrow> 'w battery" where
  "my_chg_event_reporting s =
     (if s_last_chg_state s \<noteq> g_charg_state s
      then (case g_charg_state s of
              CHARG_UNKNOWN \<Rightarrow> s
            | NO_CHARGING \<Rightarrow> batt_emit ALARM_CHARGE_OUT s
            | CHARGING \<Rightarrow> batt_emit ALARM_CHARGE_IN s
            | CHARG_FULL \<Rightarrow> batt_emit ALARM_CHARGE_FULL s)\<lparr>s_last_chg_state := g_charg_state s\<rparr>
      else s)"

definition my_battery_show_chgled :: "batt_config \<Rightarrow> 'w batt_env \<Rightarrow> 'w battery \<Rightarrow> 'w battery" where
  "my_battery_show_chgled cfg env s = my_chg_event_reporting
     (if charge_det env (batt_world s) = 1
      then
        let s1 = my_battery_update_state cfg env (s\<lparr>g_charg_state := CHARGING\<rparr>);
            s2 = (if s_show_percent s1 \<ge> 100 then s1\<lparr>g_charg_state := CHARG_FULL\<rparr> else s1);
            s3 = (if bluetooth_flag cfg = 1 \<and> bluetooth_sw cfg = 1 \<and> bluetooth_a cfg = 5 then batt_emit MY_MSG_BLE_OPEN_ADV s2 else s2)
        in led_set_mode cfg CHG_LED_MODE True s3
      else led_set_mode cfg CHG_LED_MODE False (batt_enable True (s\<lparr>g_charg_state := NO_CHARGING\<rparr>)))"

definition batt_chg_det_handle :: "'w batt_env \<Rightarrow> 'w battery \<Rightarrow> 'w battery" where
  "batt_chg_det_handle env s =
     (if s_chg_det_level s = s_last_chg_det_level s then s
      else if s_chg_det_level s = charge_det env (batt_world s)
      then send_ctrl MY_MSG_SHOW_CHARG (s\<lparr>s_last_chg_det_level := s_chg_det_level s\<rparr>)
      else s)"

definition batt_gpio_isr :: "'w batt_env \<Rightarrow> 'w battery \<Rightarrow> 'w battery" where
  "batt_gpio_isr env s = s\<lparr>s_chg_det_level := charge_det env (batt_world s), s_chg_det_timer := True\<rparr>"

definition batt_update_timer_handler :: "'w battery \<Rightarrow> 'w battery" where
  "batt_update_timer_handler s = send_ctrl MY_MSG_UPDATE_BATTERY
     (if s_batt_disable_flag s \<and> s_chg_batt_state s \<in> {CHG_BATT_HIGH, CHG_BATT_FULL} then batt_enable False s else s)"

section \<open>Set-up and the control thread\<close>

text \<open>The results of the readiness test and of the three calls that configure the pins are parameters.\<close>

definition batt_gpio_init :: "bool \<Rightarrow> int \<Rightarrow> int \<Rightarrow> int \<Rightarrow> 'w battery \<Rightarrow> int \<times> 'w battery" where
  "batt_gpio_init ready out_ret in_ret int_ret s =
     (if \<not> ready then (-ENODEV, s)
      else if out_ret \<noteq> 0 then (out_ret, s)
      else
        let s1 = s\<lparr>batt_pwr_en := False\<rparr>
        in if in_ret \<noteq> 0 then (in_ret, s1) else if int_ret \<noteq> 0 then (int_ret, s1)
           else (0, s1\<lparr>s_chg_det_timer := False, s_batt_update_timer := Some 0\<rparr>))"

definition battery_pm_init :: "'w batt_env \<Rightarrow> 'w \<Rightarrow> int \<times> 'w" where
  "battery_pm_init env w = (if adc_ready env then 0 else -ENODEV, w)"

definition battery_pm_ops :: "'w batt_env \<Rightarrow> 'w pm_device_ops" where
  "battery_pm_ops env = \<lparr>op_suspend = None, op_resume = None, op_init = Some (battery_pm_init env)\<rparr>"

definition my_battery_pm_register :: "'w batt_env \<Rightarrow> 'w battery \<Rightarrow> int \<times> 'w battery" where
  "my_battery_pm_register env s =
     (case my_pm_device_register (be_pm env) MY_PM_DEV_BATTERY (Some (battery_pm_ops env)) (batt_pm s) (batt_world s) of (ret, pm, w) \<Rightarrow>
        (ret, s\<lparr>batt_pm := pm, batt_world := w\<rparr>))"

text \<open>The cases of the control thread that concern the battery and the lamps.\<close>

definition ctrl_dispatch :: "batt_config \<Rightarrow> 'w batt_env \<Rightarrow> ctrl_msg \<Rightarrow> 'w battery \<Rightarrow> 'w battery" where
  "ctrl_dispatch cfg env m s =
     (case m of
        MY_MSG_SHOW_CHARG \<Rightarrow> my_battery_show_chgled cfg env s
      | MY_MSG_UPDATE_BATTERY \<Rightarrow> my_battery_update_state cfg env s
      | MY_MSG_LED_CTRL_MODE \<Rightarrow> my_led_ctrl_mode cfg s
      | MY_MSG_LED_ENABLE \<Rightarrow>
          let s1 = (if led_display cfg = 2 then s\<lparr>timer_led_enable := None\<rparr> else s)
          in send_ctrl MY_MSG_LED_CTRL_MODE (batt_led_set_level 0 (led_enable True s1))
      | MY_MSG_LED_DISABLE \<Rightarrow> batt_led_set_level 0 (led_enable False (s\<lparr>timer_led_blink := None\<rparr>))
      | MY_MSG_CTRL_OTHER \<Rightarrow> s)"

section \<open>Readings\<close>

lemma sdiv_pos: "0 \<le> x \<Longrightarrow> 0 < k \<Longrightarrow> x sdiv k = x div k" for x k :: int
  by (cases "x = 0") (simp_all add: signed_divide_int_def)

text \<open>Interpolation between the points of a table.\<close>

fun interpolate :: "(int \<times> int) list \<Rightarrow> int \<Rightarrow> int" where
  "interpolate ((v, p) # (v', p') # es) mv = (if mv \<le> v' then p + (mv - v) * (p' - p) div (v' - v) else interpolate ((v', p') # es) mv)"
| "interpolate [(v, p)] mv = p"
| "interpolate [] mv = 0"

fun rising :: "(int \<times> int) list \<Rightarrow> bool" where
  "rising ((v, p) # (v', p') # es) \<longleftrightarrow> v < v' \<and> p \<le> p' \<and> rising ((v', p') # es)"
| "rising es \<longleftrightarrow> True"

lemma batt_map_find_interpolate:
  assumes "rising es" "es \<noteq> []" "fst (hd es) \<le> mv" "mv \<le> fst (last es)" "1 < length es"
  shows "\<exists>j. batt_map_find mv i es = i + j \<and> Suc j < length es \<and>
    interpolate es mv = snd (es ! j) + (mv - fst (es ! j)) * (snd (es ! Suc j) - snd (es ! j)) sdiv (fst (es ! Suc j) - fst (es ! j))"
  using assms
proof (induction mv i es rule: batt_map_find.induct)
  case (1 mv i v p v' p' es)
  show ?case
  proof (cases "mv \<le> v'")
    case True
    then show ?thesis using 1(2-) by (intro exI [of _ 0]) (simp add: sdiv_pos)
  next
    case False
    then have "1 < length ((v', p') # es)" using 1(5) by (cases es) auto
    then obtain j where "batt_map_find mv (i + 1) ((v', p') # es) = i + 1 + j" "Suc j < length ((v', p') # es)"
      "interpolate ((v', p') # es) mv = snd (((v', p') # es) ! j) + (mv - fst (((v', p') # es) ! j)) * (snd (((v', p') # es) ! Suc j) - snd (((v', p') # es) ! j))
         sdiv (fst (((v', p') # es) ! Suc j) - fst (((v', p') # es) ! j))"
      using 1 False by (auto split: if_splits)
    then show ?thesis using False by (intro exI [of _ "Suc j"]) simp
  qed
qed auto

lemma interpolate_ge: "rising ((v, p) # es) \<Longrightarrow> v \<le> mv \<Longrightarrow> p \<le> interpolate ((v, p) # es) mv"
proof (induction es arbitrary: v p)
  case (Cons e es)
  obtain v' p' where e: "e = (v', p')" by fastforce
  have "0 \<le> (mv - v) * (p' - p) div (v' - v)" using Cons.prems e by (simp add: pos_imp_zdiv_nonneg_iff)
  then show ?case using Cons.IH [of v' p'] Cons.prems e by auto
qed simp

lemma interpolate_mono: "rising es \<Longrightarrow> fst (hd es) \<le> x \<Longrightarrow> x \<le> y \<Longrightarrow> interpolate es x \<le> interpolate es y"
proof (induction es x rule: interpolate.induct)
  case (1 v p v' p' es x)
  have d: "0 < v' - v" "0 \<le> p' - p" "rising ((v', p') # es)" using 1(2) by simp_all
  have *: "(z - v) * (p' - p) div (v' - v) \<le> p' - p" if "z \<le> v'" for z
  proof -
    have "(z - v) * (p' - p) \<le> (v' - v) * (p' - p)" using that d by (intro mult_right_mono) simp_all
    then have "(z - v) * (p' - p) div (v' - v) \<le> (v' - v) * (p' - p) div (v' - v)" using d by (intro zdiv_mono1) simp_all
    then show ?thesis using d by simp
  qed
  consider "y \<le> v'" | "x \<le> v'" "\<not> y \<le> v'" | "\<not> x \<le> v'" by linarith
  then show ?case
  proof cases
    case a: 1
    have "(x - v) * (p' - p) \<le> (y - v) * (p' - p)" using d 1(4) by (intro mult_right_mono) simp_all
    then have "(x - v) * (p' - p) div (v' - v) \<le> (y - v) * (p' - p) div (v' - v)" using d by (intro zdiv_mono1) simp_all
    then show ?thesis using a 1(4) by simp
  next
    case 2
    then show ?thesis using * [of x] interpolate_ge [OF d(3), of y] by simp
  next
    case 3
    then show ?thesis using 1 d by simp
  qed
qed simp_all

lemma interpolate_point: "rising es \<Longrightarrow> (v, p) \<in> set es \<Longrightarrow> 1 < length es \<Longrightarrow> interpolate es v = p"
proof -
  have lt: "a < v" if "rising ((a, q) # es)" "(v, p) \<in> set es" for a q v p es
    using that by (induction es arbitrary: a q) force+
  show "rising es \<Longrightarrow> (v, p) \<in> set es \<Longrightarrow> 1 < length es \<Longrightarrow> interpolate es v = p"
  proof (induction es v rule: interpolate.induct)
    case (1 a q a' q' es v)
    consider "v = a" "p = q" | "v = a'" "p = q'" | "(v, p) \<in> set es" using 1(3) by auto
    then show ?case
    proof cases
      case 3
      then have "a' < v" using lt [of a' q' es] 1(2) by simp
      then show ?thesis using 1 3 by (cases es) auto
    qed (use 1(2) in auto)
  qed auto
qed

lemma rising_map: "rising BATT_VOLT_PERCENT_MAP"
  by (simp add: BATT_VOLT_PERCENT_MAP_def)

lemma batt_mv_percent_interpolate:
  "batt_mv_percent mv = (if mv < 3000 then 0 else if mv > 4200 then 100 else interpolate BATT_VOLT_PERCENT_MAP mv)"
proof -
  have e: "fst (hd BATT_VOLT_PERCENT_MAP) = 3000" "fst (last BATT_VOLT_PERCENT_MAP) = 4200" "1 < length BATT_VOLT_PERCENT_MAP" "BATT_VOLT_PERCENT_MAP \<noteq> []"
    by (simp_all add: BATT_VOLT_PERCENT_MAP_def)
  show ?thesis
  proof (cases "3000 \<le> mv \<and> mv \<le> 4200")
    case True
    then obtain j where "batt_map_find mv 0 BATT_VOLT_PERCENT_MAP = 0 + j" "interpolate BATT_VOLT_PERCENT_MAP mv = snd (BATT_VOLT_PERCENT_MAP ! j) +
        (mv - fst (BATT_VOLT_PERCENT_MAP ! j)) * (snd (BATT_VOLT_PERCENT_MAP ! Suc j) - snd (BATT_VOLT_PERCENT_MAP ! j)) sdiv
        (fst (BATT_VOLT_PERCENT_MAP ! Suc j) - fst (BATT_VOLT_PERCENT_MAP ! j))"
      using batt_map_find_interpolate [OF rising_map e(4), of mv 0] e by auto
    then show ?thesis using True e by (simp add: batt_mv_percent_def case_prod_beta)
  qed (auto simp: batt_mv_percent_def e)
qed

lemma map_ends: "BATT_VOLT_PERCENT_MAP = (3000, 0) # tl BATT_VOLT_PERCENT_MAP" "1 < length BATT_VOLT_PERCENT_MAP" "BATT_VOLT_PERCENT_MAP \<noteq> []"
  "fst (hd BATT_VOLT_PERCENT_MAP) = 3000" "fst (last BATT_VOLT_PERCENT_MAP) = 4200"
  by (simp_all add: BATT_VOLT_PERCENT_MAP_def)

lemma map_mono: "3000 \<le> x \<Longrightarrow> x \<le> y \<Longrightarrow> interpolate BATT_VOLT_PERCENT_MAP x \<le> interpolate BATT_VOLT_PERCENT_MAP y"
  using interpolate_mono [OF rising_map, of x y] map_ends(4) by simp

lemma batt_mv_percent_range: "0 \<le> batt_mv_percent mv" "batt_mv_percent mv \<le> 100"
proof -
  have top: "interpolate BATT_VOLT_PERCENT_MAP 4200 = 100"
    by (rule interpolate_point [OF rising_map]) (simp_all add: BATT_VOLT_PERCENT_MAP_def)
  have lo: "0 \<le> interpolate BATT_VOLT_PERCENT_MAP x" if "3000 \<le> x" for x
    using interpolate_ge [of 3000 0 "tl BATT_VOLT_PERCENT_MAP" x] that rising_map map_ends(1) by simp
  have hi: "interpolate BATT_VOLT_PERCENT_MAP x \<le> 100" if "3000 \<le> x" "x \<le> 4200" for x using map_mono [OF that] top by simp
  show "0 \<le> batt_mv_percent mv" "batt_mv_percent mv \<le> 100" using lo hi by (simp_all add: batt_mv_percent_interpolate)
qed

text \<open>
  The percentage is right for every voltage. It lies between 0 and 100, is exact at every point of the table, never falls when the voltage rises, and between the points is the
  interpolation; the search never leaves the table.
\<close>

lemma batt_percent_correct:
  shows "0 \<le> batt_mv_percent mv \<and> batt_mv_percent mv \<le> 100 \<and> (mv \<le> mv' \<longrightarrow> batt_mv_percent mv \<le> batt_mv_percent mv') \<and>
    (\<forall>(v, p) \<in> set BATT_VOLT_PERCENT_MAP. batt_mv_percent v = p) \<and>
    (3000 \<le> mv \<and> mv \<le> 4200 \<longrightarrow> batt_map_find mv 0 BATT_VOLT_PERCENT_MAP + 1 < length BATT_VOLT_PERCENT_MAP)"
proof -
  have "batt_mv_percent mv \<le> batt_mv_percent mv'" if "mv \<le> mv'"
    using that batt_mv_percent_range(2) [of mv] batt_mv_percent_range(1) [of mv'] map_mono [of mv mv']
    by (auto simp: batt_mv_percent_interpolate split: if_splits)
  moreover have "batt_mv_percent v = p" if "(v, p) \<in> set BATT_VOLT_PERCENT_MAP" for v p
  proof -
    have "3000 \<le> v \<and> v \<le> 4200" using that by (auto simp: BATT_VOLT_PERCENT_MAP_def)
    then show ?thesis using interpolate_point [OF rising_map that map_ends(2)] by (simp add: batt_mv_percent_interpolate)
  qed
  moreover have "batt_map_find mv 0 BATT_VOLT_PERCENT_MAP + 1 < length BATT_VOLT_PERCENT_MAP" if "3000 \<le> mv" "mv \<le> 4200"
    using batt_map_find_interpolate [OF rising_map map_ends(3), of mv 0] that map_ends by auto
  ultimately show ?thesis using batt_mv_percent_range [of mv] by blast
qed

text \<open>Three samples that succeed.\<close>

definition three_samples :: "'w batt_env \<Rightarrow> 'w \<Rightarrow> int \<Rightarrow> int \<Rightarrow> int \<Rightarrow> 'w \<Rightarrow> bool" where
  "three_samples env w r1 r2 r3 w' \<longleftrightarrow>
     (\<exists>w1 w2. batt_read_mv env w = (0, r1, w1) \<and> batt_read_mv env w1 = (0, r2, w2) \<and> batt_read_mv env w2 = (0, r3, w'))"

text \<open>The samples are not compared with each other but with the value from the last reading: at the first reading, when that is zero, the sum of two of them is taken for one,
  and later the one in the middle of time, not of size, is used.\<close>

lemma battery_reading:
  assumes "three_samples env w r1 r2 r3 w'" "0 < r1" "0 < r2"
  shows "my_battery_read_mv env 0 w = (0, CALC_ACTUAL_MV (r1 + r2), w')"
    and "r1 < mv \<Longrightarrow> r2 < mv \<Longrightarrow> mv < 10000 \<Longrightarrow> my_battery_read_mv env mv w = (0, CALC_ACTUAL_MV r2, w')"
  using assms by (auto simp: three_samples_def my_battery_read_mv_def numeral_3_eq_3 signed_divide_int_def)

text \<open>What an update does when the device resumes.\<close>

lemma update_state_eq:
  assumes "batt_restart_timer s = (True, s1)" "my_pm_device_resume (be_pm env) MY_PM_DEV_BATTERY (batt_pm s1) (batt_world s1) = (ret, pm, w)" "\<not> ret < 0"
    and "my_battery_read_mv env (s_read_mv s1) w = (err, mv, w')"
  shows "\<exists>pm' w''. my_battery_update_state cfg env s =
    (batt_take_reading cfg (batt_mv_percent mv) (s1\<lparr>batt_pm := pm, s_read_mv := mv, batt_world := w'\<rparr>))\<lparr>batt_pm := pm', batt_world := w''\<rparr>"
  using assms by (auto simp: my_battery_update_state_def my_battery_read_percent_def Let_def split: prod.splits)

lemma first_update_full:
  assumes "my_pm_device_resume (be_pm env) MY_PM_DEV_BATTERY pm w = (ret, pm', w0)" "\<not> ret < 0"
    and "three_samples env w0 r1 r2 r3 w'" "533 \<le> r1" "533 \<le> r2"
  shows "s_show_percent (my_battery_update_state cfg env (battery_start pm w)) = 100 \<and>
    ALARM_BAT_SWITCH (ascii ''5'') \<in> set (batt_sent (my_battery_update_state cfg env (battery_start pm w)))"
proof -
  let ?s = "battery_start pm w"
  have "1066 * 2680 div 680 \<le> (r1 + r2) * 2680 div (680 :: int)" using assms(4,5) by (intro zdiv_mono1) simp_all
  then have "4200 < CALC_ACTUAL_MV (r1 + r2)" using assms(4,5) by (simp add: CALC_ACTUAL_MV_def sdiv_pos)
  then have p: "batt_mv_percent (CALC_ACTUAL_MV (r1 + r2)) = 100" by (simp add: batt_mv_percent_interpolate)
  have rd: "my_battery_read_mv env 0 w0 = (0, CALC_ACTUAL_MV (r1 + r2), w')" using battery_reading(1) [OF assms(3)] assms(4,5) by simp
  let ?s1 = "?s\<lparr>s_batt_update_timer := Some 30000\<rparr>"
  have "batt_restart_timer ?s = (True, ?s1)" by (simp add: batt_restart_timer_def battery_start_def)
  then obtain pm2 w2 where "my_battery_update_state cfg env ?s =
    (batt_take_reading cfg 100 (?s1\<lparr>batt_pm := pm', s_read_mv := CALC_ACTUAL_MV (r1 + r2), batt_world := w'\<rparr>))\<lparr>batt_pm := pm2, batt_world := w2\<rparr>"
    using update_state_eq [of ?s ?s1 env ret pm' w0 0 "CALC_ACTUAL_MV (r1 + r2)" w' cfg] assms(1,2) rd p by (auto simp: battery_start_def)
  then show ?thesis
    by (simp add: batt_take_reading_def batt_first_reading_def batt_smooth_def batt_jump_def batt_class_def my_battery_event_reporting_def
        batt_charging_update_def batt_emit_def send_ctrl_def battery_start_def Let_def print_int_def decimal_digits.simps ascii_def)
qed

text \<open>
  At power-up the battery is shown as full. The first reading takes the sum of two samples for the voltage, so that every battery above 2.1 volts, even one that is
  empty, is displayed with 100 percent and reported as full.
\<close>

lemma first_update_shows_full:
  assumes "my_pm_device_resume (be_pm env) MY_PM_DEV_BATTERY pm w = (ret, pm', w0)" "\<not> ret < 0"
    and "three_samples env w0 r1 r2 r3 w'" "533 \<le> r1" "533 \<le> r2"
  shows "s_show_percent (my_battery_update_state cfg env (battery_start pm w)) = 100 \<and>
    ALARM_BAT_SWITCH (ascii ''5'') \<in> set (batt_sent (my_battery_update_state cfg env (battery_start pm w)))"
  by (rule first_update_full [OF assms])

text \<open>A battery of 2.95 volts: less than empty.\<close>

definition demo_env :: "int \<Rightarrow> (pm_bus \<Rightarrow> int) batt_env" where
  "demo_env r = \<lparr>be_pm = counting_pm, adc_ready = True, adc_read = (\<lambda>w. (0, r, w)), adc_raw_to_millivolts = (\<lambda>raw. (0, raw)), charge_det = (\<lambda>w. 0)\<rparr>"

definition demo_pm :: "(pm_bus \<Rightarrow> int) pm" where
  "demo_pm = my_pm_init(MY_PM_DEV_BATTERY := \<lparr>ctx_state = MY_PM_STATE_SUSPENDED, ctx_ops = Some (battery_pm_ops (demo_env 750))\<rparr>)"

definition demo_cfg :: batt_config where
  "demo_cfg = \<lparr>bluetooth_flag = 0, bluetooth_sw = 0, bluetooth_a = 0, lprunning_sw = 0, led_display = 2\<rparr>"

lemma demo_resume:
  "my_pm_device_resume (be_pm (demo_env r)) MY_PM_DEV_BATTERY demo_pm (\<lambda>_. 0) =
     (0, pm_set_state MY_PM_DEV_BATTERY MY_PM_STATE_RESUME demo_pm, (\<lambda>_. 0)(BATTERY_ADC_NODE := 1))"
  by (simp add: my_pm_device_resume_def demo_env_def demo_pm_def battery_pm_ops_def bus_resume_eq dev_bus_def bus_get_def counting_pm_def)

lemma demo_samples: "three_samples (demo_env r) w r r r w"
  by (simp add: three_samples_def batt_read_mv_def demo_env_def)

section \<open>The display follows the battery\<close>

text \<open>The power manager can resume the battery device: its bus works, and a failed suspend leaves it resumed.\<close>

definition batt_bus_works :: "'w batt_env \<Rightarrow> bool" where
  "batt_bus_works env \<longleftrightarrow> bus_present (be_pm env) BATTERY_ADC_NODE \<and> (\<forall>w. 0 \<le> fst (pm_device_runtime_get (be_pm env) BATTERY_ADC_NODE w))"

definition batt_registered :: "'w batt_env \<Rightarrow> 'w pm \<Rightarrow> bool" where
  "batt_registered env pm \<longleftrightarrow> ctx_ops (pm MY_PM_DEV_BATTERY) = Some (battery_pm_ops env) \<and> ctx_state (pm MY_PM_DEV_BATTERY) \<noteq> MY_PM_STATE_NOT_INIT"

lemma batt_resume_ok:
  assumes "batt_bus_works env" "batt_registered env pm"
  shows "\<exists>pm' w'. my_pm_device_resume (be_pm env) MY_PM_DEV_BATTERY pm w = (0, pm', w') \<and> batt_registered env pm'"
proof -
  obtain r w1 where g: "pm_device_runtime_get (be_pm env) BATTERY_ADC_NODE w = (r, w1)" by fastforce
  then have "0 \<le> r" using assms(1) by (metis batt_bus_works_def fst_conv)
  then show ?thesis using assms g
    by (cases "ctx_state (pm MY_PM_DEV_BATTERY)")
      (auto simp: my_pm_device_resume_def batt_registered_def batt_bus_works_def battery_pm_ops_def bus_resume_eq dev_bus_def bus_get_def pm_set_state_def)
qed

lemma batt_suspend_registered:
  assumes "batt_registered env pm"
  shows "batt_registered env (fst (snd (my_pm_device_suspend pe MY_PM_DEV_BATTERY pm w)))"
  using assms by (auto simp: my_pm_device_suspend_def batt_registered_def battery_pm_ops_def pm_set_state_def split: prod.splits)

text \<open>A battery with a steady voltage \<open>mv\<close> whose samples are all \<open>r\<close>.\<close>

definition steady :: "'w batt_env \<Rightarrow> int \<Rightarrow> 'w battery \<Rightarrow> bool" where
  "steady env r s \<longleftrightarrow> (\<forall>w. \<exists>w'. batt_read_mv env w = (0, r, w')) \<and> batt_bus_works env \<and> batt_registered env (batt_pm s) \<and>
     s_read_mv s = CALC_ACTUAL_MV r \<and> 0 < r \<and> r < CALC_ACTUAL_MV r \<and> CALC_ACTUAL_MV r < 10000 \<and> g_charg_state s = NO_CHARGING"

text \<open>The variables of the displayed percentage: an update with the reading \<open>p\<close>, not charging.\<close>

definition show_step :: "int \<Rightarrow> int \<times> int \<times> int \<Rightarrow> int \<times> int \<times> int" where
  "show_step p = (\<lambda>(sh, cnt, jmp).
     let sh1 = (if p < sh \<and> cnt + 1 \<ge> 3 then sh - 1 else sh); cnt1 = (if p < sh \<and> cnt + 1 < 3 then cnt + 1 else 0)
     in if \<bar>p - sh1\<bar> \<ge> 5 then if jmp < 0 then (sh1, cnt1, p) else if \<bar>p - jmp\<bar> \<le> 1 then (p, cnt1, -1) else (sh1, cnt1, p)
        else (sh1, cnt1, -1))"

definition show_vars :: "'w battery \<Rightarrow> int \<times> int \<times> int" where
  "show_vars s = (s_show_percent s, s_batt_update_count s, s_jump_percent s)"

lemma sent_fields [simp]:
  "show_vars (my_battery_event_reporting s) = show_vars s" "batt_pm (my_battery_event_reporting s) = batt_pm s" "s_read_mv (my_battery_event_reporting s) = s_read_mv s"
  "g_charg_state (my_battery_event_reporting s) = g_charg_state s" "s_batt_first_update (my_battery_event_reporting s) = s_batt_first_update s"
  by (simp_all add: my_battery_event_reporting_def batt_emit_def show_vars_def)

lemma take_reading_vars:
  assumes "g_charg_state s = NO_CHARGING" "\<not> s_batt_first_update s" and s'_def: "s' = batt_take_reading cfg p s"
  shows "show_vars s' = show_step p (show_vars s)" "batt_pm s' = batt_pm s" "s_read_mv s' = s_read_mv s" "g_charg_state s' = NO_CHARGING" "\<not> s_batt_first_update s'"
proof -
  let ?s1 = "batt_jump p (batt_smooth p s)"
  have f: "batt_pm ?s1 = batt_pm s" "s_read_mv ?s1 = s_read_mv s" "g_charg_state ?s1 = NO_CHARGING" "\<not> s_batt_first_update ?s1"
    using assms by (simp_all add: batt_jump_def batt_smooth_def)
  have v: "show_vars ?s1 = show_step p (show_vars s)"
    using assms(1) by (simp add: batt_jump_def batt_smooth_def show_vars_def show_step_def Let_def)
  let ?s2 = "my_battery_event_reporting (?s1\<lparr>s_batt_state := batt_class (s_show_percent ?s1)\<rparr>)"
  have "g_charg_state ?s2 = NO_CHARGING" using f(3) by simp
  then have e: "s' = (if lprunning_sw cfg = 1 then batt_emit MY_MSG_LPSLEEP_BATTERY_CHECK ?s2 else ?s2)"
    using assms(2) by (simp add: s'_def batt_take_reading_def batt_first_reading_def batt_charging_update_def Let_def)
  have w: "show_vars (?s1\<lparr>s_batt_state := c\<rparr>) = show_vars ?s1" for c by (simp add: show_vars_def)
  show "batt_pm s' = batt_pm s" "s_read_mv s' = s_read_mv s" "g_charg_state s' = NO_CHARGING" "\<not> s_batt_first_update s'"
    using f by (simp_all add: e batt_emit_def)
  have "show_vars s' = show_vars ?s2" by (simp add: e batt_emit_def show_vars_def)
  then show "show_vars s' = show_step p (show_vars s)" using v w by simp
qed

lemma steady_update:
  assumes "steady env r s" "\<not> s_batt_first_update s" and s'_def: "s' = my_battery_update_state cfg env s"
  shows "show_vars s' = show_step (batt_mv_percent (CALC_ACTUAL_MV r)) (show_vars s) \<and> steady env r s' \<and> \<not> s_batt_first_update s'"
proof -
  let ?s1 = "s\<lparr>s_batt_disable_flag := False, s_batt_update_timer := Some 30000\<rparr>" and ?mv = "CALC_ACTUAL_MV r"
  have g: "g_charg_state s = NO_CHARGING" using assms(1) by (simp add: steady_def)
  have rt: "batt_restart_timer s = (True, ?s1)" using g by (simp add: batt_restart_timer_def)
  obtain pm' w0 where res: "my_pm_device_resume (be_pm env) MY_PM_DEV_BATTERY (batt_pm s) (batt_world s) = (0, pm', w0)" "batt_registered env pm'"
    using batt_resume_ok [of env "batt_pm s" "batt_world s"] assms(1) by (auto simp: steady_def)
  have "\<exists>w'. three_samples env w0 r r r w'"
    using assms(1) unfolding steady_def three_samples_def by metis
  then obtain w' where "three_samples env w0 r r r w'" ..
  then have rd: "my_battery_read_mv env (s_read_mv s) w0 = (0, ?mv, w')"
    using battery_reading(2) [of env w0 r r r w' ?mv] assms(1) by (simp add: steady_def)
  let ?s3 = "?s1\<lparr>batt_pm := pm', s_read_mv := ?mv, batt_world := w'\<rparr>"
  let ?s4 = "batt_take_reading cfg (batt_mv_percent ?mv) ?s3"
  have up: "s' = ?s4\<lparr>batt_pm := fst (snd (my_pm_device_suspend (be_pm env) MY_PM_DEV_BATTERY (batt_pm ?s4) (batt_world ?s4))),
      batt_world := snd (snd (my_pm_device_suspend (be_pm env) MY_PM_DEV_BATTERY (batt_pm ?s4) (batt_world ?s4)))\<rparr>"
    using rt res(1) rd by (simp add: s'_def my_battery_update_state_def my_battery_read_percent_def Let_def case_prod_beta)
  have g3: "g_charg_state ?s3 = NO_CHARGING" "\<not> s_batt_first_update ?s3" using g assms(2) by simp_all
  note tv = take_reading_vars [OF g3 refl, of cfg "batt_mv_percent ?mv"]
  have "batt_registered env (batt_pm s')" unfolding up using batt_suspend_registered res(2) tv(2) by simp
  moreover have "show_vars s' = show_vars ?s4" "s_read_mv s' = ?mv" "g_charg_state s' = NO_CHARGING" "\<not> s_batt_first_update s'"
    using tv(3-5) by (simp_all add: up show_vars_def)
  moreover have "show_vars ?s3 = show_vars s" by (simp add: show_vars_def)
  ultimately show ?thesis using tv(1) assms(1) by (simp add: steady_def)
qed

text \<open>
  Where the display ends up: it stays where it is if the reading is above it by less than five percent, which the smoothing
  ignores while the device does not charge; otherwise at the reading. How far it is from there, in updates.
\<close>

definition show_goal :: "int \<Rightarrow> int \<times> int \<times> int \<Rightarrow> int" where
  "show_goal p = (\<lambda>(sh, cnt, jmp). if sh < p \<and> p - sh < 5 then sh else p)"

definition show_dist :: "int \<Rightarrow> int \<times> int \<times> int \<Rightarrow> nat" where
  "show_dist p = (\<lambda>(sh, cnt, jmp). if sh = p \<or> sh < p \<and> p - sh < 5 then 0 else if p < sh \<and> sh - p < 5 then nat (3 * (sh - p) - cnt)
     else if 0 \<le> jmp \<and> \<bar>p - jmp\<bar> \<le> 1 then 13 else 14)"

definition show_ok :: "int \<times> int \<times> int \<Rightarrow> bool" where
  "show_ok = (\<lambda>(sh, cnt, jmp). 0 \<le> cnt \<and> cnt < 3)"

lemma show_step_dist:
  assumes "show_ok v" "0 \<le> p"
  shows "show_ok (show_step p v)" "show_dist p (show_step p v) \<le> show_dist p v - 1" "show_goal p (show_step p v) = show_goal p v"
  using assms by (cases v; force simp: show_ok_def show_step_def show_dist_def show_goal_def Let_def)+

lemma show_dist_bound: "show_ok v \<Longrightarrow> show_dist p v \<le> 14"
  by (cases v) (auto simp: show_ok_def show_dist_def)

lemma show_dist_0: "show_ok v \<Longrightarrow> show_dist p v = 0 \<Longrightarrow> fst v = show_goal p v"
  by (cases v) (auto simp: show_ok_def show_dist_def show_goal_def split: if_splits)

lemma steady_updates:
  assumes "steady env r s" "\<not> s_batt_first_update s" "p = batt_mv_percent (CALC_ACTUAL_MV r)" "show_ok (show_vars s)"
    and s': "s' = (my_battery_update_state cfg env ^^ n) s"
  shows "steady env r s' \<and> \<not> s_batt_first_update s' \<and> show_ok (show_vars s') \<and> show_dist p (show_vars s') \<le> show_dist p (show_vars s) - n \<and>
    show_goal p (show_vars s') = show_goal p (show_vars s)"
  unfolding s'
proof (induction n)
  case (Suc n)
  let ?t = "(my_battery_update_state cfg env ^^ n) s"
  have "show_vars (my_battery_update_state cfg env ?t) = show_step p (show_vars ?t)" "steady env r (my_battery_update_state cfg env ?t)"
    "\<not> s_batt_first_update (my_battery_update_state cfg env ?t)"
    using steady_update [OF _ _ refl, of env r ?t cfg] Suc assms(3) by simp_all
  moreover have "0 \<le> p" using batt_mv_percent_range(1) assms(3) by simp
  moreover have "show_dist p (show_step p (show_vars ?t)) \<le> show_dist p (show_vars s) - Suc n"
    using show_step_dist(2) [of "show_vars ?t" p] Suc \<open>0 \<le> p\<close> by linarith
  ultimately show ?case using show_step_dist(1,3) [of "show_vars ?t" p] Suc by simp
qed (use assms in simp)

text \<open>
  C33: where the display settles. The device does not charge, the battery device is registered and its bus works, the first update after
  the start has been made, and the voltage is steady: every sample is the same and the last measurement already gave it. Then, whatever the state of the
  smoothing, after at most fourteen updates the displayed percentage is settled for good. It is the percentage of the voltage, if
  that is at or below the displayed one or at least five percent above it. If it is one to four percent above, the display never
  follows and keeps its value.
\<close>

theorem display_converges:
  assumes "steady env r s" "\<not> s_batt_first_update s" "0 \<le> s_batt_update_count s" "s_batt_update_count s < 3" "14 \<le> n"
  shows "s_show_percent ((my_battery_update_state cfg env ^^ n) s) =
    (let p = batt_mv_percent (CALC_ACTUAL_MV r) in
     if s_show_percent s < p \<and> p - s_show_percent s < 5 then s_show_percent s else p)"
proof -
  let ?p = "batt_mv_percent (CALC_ACTUAL_MV r)" and ?t = "(my_battery_update_state cfg env ^^ n) s"
  have ok: "show_ok (show_vars s)" using assms(3,4) by (simp add: show_ok_def show_vars_def)
  note su = steady_updates [OF assms(1,2) refl ok refl, of n cfg]
  then have "show_dist ?p (show_vars ?t) = 0" using show_dist_bound [OF ok, of ?p] assms(5) by linarith
  then show ?thesis using show_dist_0 [of "show_vars ?t" ?p] su by (simp add: show_vars_def show_goal_def Let_def)
qed

lemma display_converges_witness:
  "s_show_percent ((my_battery_update_state demo_cfg (demo_env 940) ^^ 20)
     ((battery_start demo_pm (\<lambda>_. 0))\<lparr>s_show_percent := 100, s_batt_first_update := False, s_read_mv := 3704\<rparr>)) = 40"
proof -
  let ?s = "(battery_start demo_pm (\<lambda>_. 0))\<lparr>s_show_percent := 100, s_batt_first_update := False, s_read_mv := 3704\<rparr>"
  have mv: "CALC_ACTUAL_MV 940 = 3704" by (simp add: CALC_ACTUAL_MV_def signed_divide_int_def)
  have p: "batt_mv_percent 3704 = 40" by (simp add: batt_mv_percent_interpolate BATT_VOLT_PERCENT_MAP_def)
  have "battery_pm_init (demo_env 750) = battery_pm_init (demo_env 940)" by (rule ext) (simp add: battery_pm_init_def demo_env_def)
  then have "batt_registered (demo_env 940) demo_pm" by (simp add: batt_registered_def demo_pm_def battery_pm_ops_def)
  moreover have "batt_bus_works (demo_env 940)" by (simp add: batt_bus_works_def demo_env_def counting_pm_def)
  moreover have "\<forall>w. \<exists>w'. batt_read_mv (demo_env 940) w = (0, 940, w')" by (simp add: batt_read_mv_def demo_env_def)
  ultimately have "steady (demo_env 940) 940 ?s" by (simp add: steady_def mv battery_start_def)
  then show ?thesis using display_converges [of "demo_env 940" 940 ?s 20 demo_cfg] mv p by (simp add: battery_start_def)
qed

section \<open>The module as a whole\<close>

text \<open>What happens to the module: its timers, its messages, the interrupt of the charger pin, calls from other modules, and the outside world with the other devices of the
  power manager, which do not touch the battery device and its converter. A handler runs without interruption.\<close>

datatype batt_label = Timer | Msg | Isr | Debounce | Lamp | Call | World

inductive batt_step :: "batt_config \<Rightarrow> 'w batt_env \<Rightarrow> (pm_bus \<Rightarrow> 'w \<Rightarrow> int) \<Rightarrow> batt_label \<Rightarrow> 'w battery \<Rightarrow> 'w battery \<Rightarrow> bool"
  for cfg env users where
  timer: "s_batt_update_timer s = Some ms \<Longrightarrow> batt_step cfg env users Timer s (batt_update_timer_handler (s\<lparr>s_batt_update_timer := None\<rparr>))"
| msg: "ctrl_msgq s = m # q \<Longrightarrow> batt_step cfg env users Msg s (ctrl_dispatch cfg env m (s\<lparr>ctrl_msgq := q\<rparr>))"
| isr: "batt_step cfg env users Isr s (batt_gpio_isr env s)"
| debounce: "s_chg_det_timer s \<Longrightarrow> batt_step cfg env users Debounce s (batt_chg_det_handle env (s\<lparr>s_chg_det_timer := False\<rparr>))"
| blink: "timer_led_blink s = Some ms \<Longrightarrow> batt_step cfg env users Lamp s (led_ctrl_callback cfg s)"
| lamp_off: "timer_led_enable s = Some ms \<Longrightarrow> batt_step cfg env users Lamp s (led_sw_callback cfg (s\<lparr>timer_led_enable := None\<rparr>))"
| radio: "mode \<in> {BT_RADIO_LED_MODE, BT_CONNECT_LED_MODE} \<Longrightarrow> batt_step cfg env users Call s (led_set_mode cfg mode on s)"
| show_lamps: "batt_step cfg env users Call s (open_led_timer cfg ms s)"
| charge_path: "batt_step cfg env users Call s (batt_enable on s)"
| other: "batt_step cfg env users Call s (send_ctrl MY_MSG_CTRL_OTHER s)"
| world: "pm MY_PM_DEV_BATTERY = batt_pm s MY_PM_DEV_BATTERY \<Longrightarrow> users BATTERY_ADC_NODE w = users BATTERY_ADC_NODE (batt_world s) \<Longrightarrow> batt_step cfg env users World s (s\<lparr>batt_pm := pm, batt_world := w\<rparr>)"

inductive batt_reach :: "batt_config \<Rightarrow> 'w batt_env \<Rightarrow> (pm_bus \<Rightarrow> 'w \<Rightarrow> int) \<Rightarrow> 'w battery \<Rightarrow> bool"
  for cfg env users where
  start: "users BATTERY_ADC_NODE w = 0 \<Longrightarrow> ctx_state (pm MY_PM_DEV_BATTERY) = MY_PM_STATE_NOT_INIT \<Longrightarrow> batt_gpio_init ready a b c (battery_start pm w) = (r1, s1) \<Longrightarrow>
    my_battery_pm_register env s1 = (r2, s2) \<Longrightarrow> batt_reach cfg env users s2"
| step: "batt_reach cfg env users s \<Longrightarrow> batt_step cfg env users l s s' \<Longrightarrow> batt_reach cfg env users s'"

text \<open>The reported classes.\<close>

definition batt_alarms :: "batt_event list \<Rightarrow> bytes list" where
  "batt_alarms evs = concat (map (\<lambda>e. case e of ALARM_BAT_SWITCH t \<Rightarrow> [t] | _ \<Rightarrow> []) evs)"

definition class_text :: "my_batt_state \<Rightarrow> bytes" where
  "class_text c = take 1 (print_int (batt_code c))"

definition report_inv :: "my_batt_state \<Rightarrow> batt_event list \<Rightarrow> bool" where
  "report_inv c evs \<longleftrightarrow> distinct_adj (batt_alarms evs) \<and> (if c = BATT_UNKNOWN then batt_alarms evs = [] else batt_alarms evs \<noteq> [] \<and> last (batt_alarms evs) = class_text c)"

definition display_inv :: "'w battery \<Rightarrow> bool" where
  "display_inv s \<longleftrightarrow> 0 \<le> s_show_percent s \<and> s_show_percent s \<le> 100 \<and> 0 \<le> s_batt_update_count s \<and> s_batt_update_count s < 3 \<and>
     -1 \<le> s_jump_percent s \<and> s_jump_percent s \<le> 100"

definition batt_inv :: "('w pm \<Rightarrow> 'w \<Rightarrow> bool) \<Rightarrow> 'w battery \<Rightarrow> bool" where
  "batt_inv P s \<longleftrightarrow> display_inv s \<and> s_batt_state s = batt_class (s_show_percent s) \<and> s_last_batt_state s \<in> {BATT_UNKNOWN, batt_class (s_show_percent s)} \<and>
     report_inv (s_last_batt_state s) (batt_sent s) \<and> \<not> (led_status_get BT_RADIO_LED_MODE s \<and> led_status_get BT_CONNECT_LED_MODE s) \<and>
     length (batt_leds s) = 3 \<and> length (ctrl_msgq s) \<le> CTRL_MSGQ_LEN \<and>
     P (batt_pm s) (batt_world s)"

text \<open>
  The converter between the handlers. Its bus has at most one user, whatever fails: the user of the resumed device, or
  the one that a failed registration could not release, after which the device is not registered. If the system never fails to release the
  converter while it is in use, it is off.
\<close>

definition adc_releases :: "'w batt_env \<Rightarrow> (pm_bus \<Rightarrow> 'w \<Rightarrow> int) \<Rightarrow> bool" where
  "adc_releases env users \<longleftrightarrow> (\<forall>w. 0 < users BATTERY_ADC_NODE w \<longrightarrow> 0 \<le> fst (pm_device_runtime_put (be_pm env) BATTERY_ADC_NODE w))"

definition batt_idle :: "'w batt_env \<Rightarrow> (pm_bus \<Rightarrow> 'w \<Rightarrow> int) \<Rightarrow> 'w pm \<Rightarrow> 'w \<Rightarrow> bool" where
  "batt_idle env users pm w \<longleftrightarrow>
     (case ctx_ops (pm MY_PM_DEV_BATTERY) of
        None \<Rightarrow> users BATTERY_ADC_NODE w \<in> {0, 1} \<and> ctx_state (pm MY_PM_DEV_BATTERY) \<noteq> MY_PM_STATE_RESUME
      | Some os \<Rightarrow> os = battery_pm_ops env \<and> ctx_state (pm MY_PM_DEV_BATTERY) \<noteq> MY_PM_STATE_NOT_INIT \<and>
          users BATTERY_ADC_NODE w = (if ctx_state (pm MY_PM_DEV_BATTERY) = MY_PM_STATE_RESUME then 1 else 0)) \<and>
     (adc_releases env users \<longrightarrow> users BATTERY_ADC_NODE w = 0)"

text \<open>During an update.\<close>

definition batt_running :: "'w batt_env \<Rightarrow> (pm_bus \<Rightarrow> 'w \<Rightarrow> int) \<Rightarrow> 'w pm \<Rightarrow> 'w \<Rightarrow> bool" where
  "batt_running env users pm w \<longleftrightarrow> ctx_ops (pm MY_PM_DEV_BATTERY) = Some (battery_pm_ops env) \<and>
     ctx_state (pm MY_PM_DEV_BATTERY) = MY_PM_STATE_RESUME \<and> users BATTERY_ADC_NODE w = 1 \<and>
     (adc_releases env users \<longrightarrow> bus_present (be_pm env) BATTERY_ADC_NODE)"

lemma led_status_get_bit: "led_status_get m s = bit (led_status s) (mode_code m)"
  by (simp add: led_status_get_def and_exp_eq_0_iff_not_bit)

lemma led_status_get_set: "led_status_get m (led_status_set m' on s) = (if m = m' then on else led_status_get m s)"
proof -
  have b: "mode_code m = mode_code m' \<longleftrightarrow> m = m'" by (cases m; cases m') simp_all
  have "mode_code m < 8" by (cases m) simp_all
  then show ?thesis by (auto simp: led_status_get_bit led_status_set_def bit_simps b)
qed

lemma batt_led_set_level_eq: "batt_led_set_level n s = s\<lparr>batt_leds := fold (\<lambda>i l. l[i := i < n]) [0..<3] (batt_leds s)\<rparr>"
  by (simp add: batt_led_set_level_def my_ctrl_led_process_def Let_def numeral_3_eq_3)

lemma class_text_inj: "c \<noteq> BATT_UNKNOWN \<Longrightarrow> d \<noteq> BATT_UNKNOWN \<Longrightarrow> class_text c = class_text d \<Longrightarrow> c = d"
  by (cases c; cases d) (simp_all add: class_text_def print_int_def decimal_digits.simps)

lemmas batt_inv_defs = batt_inv_def display_inv_def led_status_get_bit

lemma batt_inv_simple:
  assumes "batt_inv P s"
  shows "batt_inv P (send_ctrl m s)" "batt_inv P (batt_led_set_level n s)" "batt_inv P (led_enable on s)" "batt_inv P (batt_enable on s)"
    "(\<And>t. e \<noteq> ALARM_BAT_SWITCH t) \<Longrightarrow> batt_inv P (batt_emit e s)"
proof -
  show "batt_inv P (send_ctrl m s)" "batt_inv P (led_enable on s)" "batt_inv P (batt_enable on s)"
    using assms by (simp_all add: batt_inv_defs send_ctrl_def led_enable_def batt_enable_def)
  have "length (fold (\<lambda>i l. l[i := i < n]) js l) = length l" for js and l :: "bool list" by (induction js arbitrary: l) simp_all
  then show "batt_inv P (batt_led_set_level n s)" using assms by (simp add: batt_inv_defs batt_led_set_level_eq del: upt_Suc)
  assume "\<And>t. e \<noteq> ALARM_BAT_SWITCH t"
  then have "batt_alarms (batt_sent s @ [e]) = batt_alarms (batt_sent s)" by (cases e; force simp: batt_alarms_def)
  then show "batt_inv P (batt_emit e s)" using assms by (simp add: batt_inv_defs batt_emit_def report_inv_def)
qed

text \<open>Fields the invariant does not mention.\<close>

lemma batt_inv_fields:
  assumes "batt_inv P s"
  shows "batt_inv P (s\<lparr>s_read_mv := a\<rparr>)" "batt_inv P (s\<lparr>s_chg_batt_state := b\<rparr>)" "batt_inv P (s\<lparr>g_charg_state := c\<rparr>)"
    "batt_inv P (s\<lparr>s_chg_det_level := x\<rparr>)" "batt_inv P (s\<lparr>s_last_chg_det_level := x\<rparr>)" "batt_inv P (s\<lparr>s_last_chg_state := c\<rparr>)"
    "batt_inv P (s\<lparr>led_count := n\<rparr>)" "batt_inv P (s\<lparr>s_led_connect_timer := t\<rparr>)" "batt_inv P (s\<lparr>s_chg_det_timer := y\<rparr>)"
    "batt_inv P (s\<lparr>s_batt_update_timer := u\<rparr>)" "batt_inv P (s\<lparr>timer_led_blink := u\<rparr>)" "batt_inv P (s\<lparr>timer_led_enable := u\<rparr>)"
    "batt_inv P (s\<lparr>s_batt_disable_flag := y\<rparr>)" "batt_inv P (s\<lparr>active_mode := md\<rparr>)"
  using assms by (simp_all add: batt_inv_defs)

lemma led_set_mode_inv: "batt_inv P s \<Longrightarrow> batt_inv P (led_set_mode cfg mode on s)"
proof -
  assume inv: "batt_inv P s"
  have st: "batt_inv P (led_status_set m x t)" if "batt_inv P t" "x \<longrightarrow> m = CHG_LED_MODE" for m x and t :: "'a battery"
  proof -
    have "batt_inv P (t\<lparr>led_status := w\<rparr>) \<longleftrightarrow> \<not> (led_status_get BT_RADIO_LED_MODE (t\<lparr>led_status := w\<rparr>) \<and> led_status_get BT_CONNECT_LED_MODE (t\<lparr>led_status := w\<rparr>))" for w
      using that(1) by (simp add: batt_inv_defs)
    moreover have "\<not> (led_status_get BT_RADIO_LED_MODE (led_status_set m x t) \<and> led_status_get BT_CONNECT_LED_MODE (led_status_set m x t))"
      using that by (auto simp: led_status_get_set batt_inv_def)
    ultimately show ?thesis unfolding led_status_set_def by blast
  qed
  have sw: "batt_inv P (led_status_set m False (led_status_set m' True s))"
    if "{m, m'} = {BT_RADIO_LED_MODE, BT_CONNECT_LED_MODE}" for m m'
  proof -
    have "batt_inv P (s\<lparr>led_status := w\<rparr>) \<longleftrightarrow> \<not> (led_status_get BT_RADIO_LED_MODE (s\<lparr>led_status := w\<rparr>) \<and> led_status_get BT_CONNECT_LED_MODE (s\<lparr>led_status := w\<rparr>))" for w
      using inv by (simp add: batt_inv_defs)
    moreover have "\<not> (led_status_get BT_RADIO_LED_MODE (led_status_set m False (led_status_set m' True s)) \<and>
        led_status_get BT_CONNECT_LED_MODE (led_status_set m False (led_status_set m' True s)))"
      using that by (auto simp: led_status_get_set doubleton_eq_iff)
    moreover have "\<exists>w. led_status_set m False (led_status_set m' True s) = s\<lparr>led_status := w\<rparr>" by (simp add: led_status_set_def) blast
    ultimately show ?thesis by metis
  qed
  show ?thesis using st [OF inv] sw inv by (auto simp: led_set_mode_def Let_def insert_commute intro!: batt_inv_simple split: led_mode.split)
qed

lemma led_ctrl_callback_inv: "batt_inv P s \<Longrightarrow> batt_inv P (led_ctrl_callback cfg s)"
  by (auto simp: led_ctrl_callback_def Let_def intro!: batt_inv_simple batt_inv_fields led_set_mode_inv split: led_mode.split)

lemma my_led_ctrl_mode_inv: "batt_inv P s \<Longrightarrow> batt_inv P (my_led_ctrl_mode cfg s)"
  by (auto simp: my_led_ctrl_mode_def Let_def led_mode_start_def bt_led_connect_quick_flick_def intro!: batt_inv_simple batt_inv_fields)

lemma report_inv_send:
  assumes "report_inv c evs" "d \<noteq> BATT_UNKNOWN" "c \<noteq> d"
  shows "report_inv d (evs @ [ALARM_BAT_SWITCH (class_text d)])"
proof -
  have "batt_alarms (evs @ [ALARM_BAT_SWITCH (class_text d)]) = batt_alarms evs @ [class_text d]" by (simp add: batt_alarms_def)
  then show ?thesis using assms class_text_inj [of c d] by (auto simp: report_inv_def distinct_adj_append_iff split: if_splits)
qed

lemma batt_class_known: "batt_class p \<noteq> BATT_UNKNOWN"
  by (simp add: batt_class_def)

lemma display_updates:
  assumes "display_inv s" "0 \<le> p" "p \<le> 100"
  shows "display_inv (batt_jump p (batt_smooth p (batt_first_reading p s)))"
proof -
  have "display_inv (batt_first_reading p s)" using assms by (simp add: batt_first_reading_def send_ctrl_def display_inv_def)
  then have "display_inv (batt_smooth p (batt_first_reading p s))" using assms(2,3) by (auto simp: batt_smooth_def display_inv_def)
  then show ?thesis using assms(2,3) by (auto simp: batt_jump_def display_inv_def)
qed

lemma take_reading_inv:
  assumes "batt_inv P s" "0 \<le> p" "p \<le> 100"
  shows "batt_inv P (batt_take_reading cfg p s)"
proof -
  let ?s1 = "batt_jump p (batt_smooth p (batt_first_reading p s))"
  have d: "display_inv ?s1" using display_updates assms by (auto simp: batt_inv_def)
  have f: "s_last_batt_state ?s1 = s_last_batt_state s" "batt_sent ?s1 = batt_sent s" "led_status ?s1 = led_status s" "batt_leds ?s1 = batt_leds s"
    "batt_pm ?s1 = batt_pm s" "batt_world ?s1 = batt_world s" "length (ctrl_msgq s) \<le> 10 \<longrightarrow> length (ctrl_msgq ?s1) \<le> 10"
    by (simp_all add: batt_jump_def batt_smooth_def batt_first_reading_def send_ctrl_def)
  let ?c = "batt_class (s_show_percent ?s1)"
  let ?s2 = "my_battery_event_reporting (?s1\<lparr>s_batt_state := ?c\<rparr>)"
  have rep: "report_inv (s_last_batt_state ?s2) (batt_sent ?s2)" "s_last_batt_state ?s2 = ?c"
    using report_inv_send [of "s_last_batt_state s" "batt_sent s" ?c] batt_class_known assms(1) f(1,2)
    by (auto simp: my_battery_event_reporting_def batt_emit_def batt_inv_def class_text_def)
  have g: "display_inv ?s2" "s_batt_state ?s2 = ?c" "s_show_percent ?s2 = s_show_percent ?s1" "led_status ?s2 = led_status s" "batt_leds ?s2 = batt_leds s"
    "ctrl_msgq ?s2 = ctrl_msgq ?s1" "batt_pm ?s2 = batt_pm s" "batt_world ?s2 = batt_world s"
    using d f by (simp_all add: my_battery_event_reporting_def batt_emit_def display_inv_def)
  have "batt_inv P ?s2" using rep g f(7) assms(1) unfolding batt_inv_def led_status_get_bit by simp
  then have "batt_inv P (batt_charging_update ?s2)" by (auto simp: batt_charging_update_def Let_def intro!: batt_inv_simple batt_inv_fields)
  then show ?thesis by (auto simp: batt_take_reading_def Let_def intro!: batt_inv_simple)
qed

text \<open>The converter leaves the buses alone.\<close>

definition adc_neutral :: "'w batt_env \<Rightarrow> (pm_bus \<Rightarrow> 'w \<Rightarrow> int) \<Rightarrow> bool" where
  "adc_neutral env users \<longleftrightarrow> (\<forall>w b. users b (snd (snd (adc_read env w))) = users b w)"

lemma batt_read_users: "adc_neutral env users \<Longrightarrow> batt_read_mv env w = (e, r, w') \<Longrightarrow> users b w' = users b w"
  unfolding adc_neutral_def batt_read_mv_def by (auto split: prod.splits if_splits) (metis snd_conv)+

lemma sample_loop_users:
  "adc_neutral env users \<Longrightarrow> batt_sample_loop env mv n mx mn sm w = (e, mx', mn', sm', w') \<Longrightarrow> users b w' = users b w"
proof (induction n arbitrary: mx mn sm w)
  case (Suc n)
  obtain e1 r w1 where r: "batt_read_mv env w = (e1, r, w1)" using prod_cases3 by blast
  then show ?case using Suc batt_read_users [OF Suc.prems(1) r] by (auto split: if_splits)
qed simp

lemma read_mv_users: "adc_neutral env users \<Longrightarrow> my_battery_read_mv env mv w = (e, mv', w') \<Longrightarrow> users b w' = users b w"
  by (auto simp: my_battery_read_mv_def split: prod.splits if_splits dest: sample_loop_users)

text \<open>A successful resume of the battery device, then a suspend; either may fail.\<close>

lemma batt_resume_inv:
  assumes "runtime_pm (be_pm env) users" "batt_idle env users pm w" "my_pm_device_resume (be_pm env) MY_PM_DEV_BATTERY pm w = (ret, pm', w1)"
  shows "if ret < 0 then batt_idle env users pm' w1 else batt_running env users pm' w1"
proof (cases "ctx_ops (pm MY_PM_DEV_BATTERY)")
  case None
  then show ?thesis using assms(2,3) by (auto simp: my_pm_device_resume_def)
next
  case (Some os)
  obtain b1 wb where b: "bus_resume (be_pm env) MY_PM_DEV_BATTERY w = (b1, wb)" by fastforce
  have u: "users BATTERY_ADC_NODE wb = users BATTERY_ADC_NODE w + (if 0 \<le> b1 then 1 else 0)"
    using bus_resume_count(1) [OF assms(1) b, of BATTERY_ADC_NODE] by (simp add: dev_bus_def)
  have pr: "bus_present (be_pm env) BATTERY_ADC_NODE" if "0 \<le> b1" using bus_resume_count(2) [OF assms(1) b that] by (simp add: dev_bus_def)
  have st: "os = battery_pm_ops env" "ctx_state (pm MY_PM_DEV_BATTERY) \<noteq> MY_PM_STATE_NOT_INIT" using assms(2) Some by (simp_all add: batt_idle_def)
  show ?thesis
  proof (cases "ctx_state (pm MY_PM_DEV_BATTERY) = MY_PM_STATE_RESUME")
    case True
    then have "ret = 0 \<and> pm' = pm \<and> w1 = w" using assms(3) Some by (simp add: my_pm_device_resume_def)
    then show ?thesis using True assms(2) Some by (auto simp: batt_idle_def batt_running_def)
  next
    case False
    then have s: "ctx_state (pm MY_PM_DEV_BATTERY) = MY_PM_STATE_SUSPENDED" using st(2) by (cases "ctx_state (pm MY_PM_DEV_BATTERY)") simp_all
    then have "(ret, pm', w1) = (if b1 < 0 then (b1, pm, wb) else (0, pm_set_state MY_PM_DEV_BATTERY MY_PM_STATE_RESUME pm, wb))"
      using assms(3) Some b st(1) by (auto simp: my_pm_device_resume_def battery_pm_ops_def split: if_splits)
    then show ?thesis using assms(2) Some st s u pr by (auto simp: batt_idle_def batt_running_def pm_set_state_def split: if_splits)
  qed
qed

lemma batt_suspend_inv:
  assumes "runtime_pm (be_pm env) users" "batt_running env users pm w" "my_pm_device_suspend (be_pm env) MY_PM_DEV_BATTERY pm w = (ret, pm', w1)"
  shows "batt_idle env users pm' w1"
proof -
  obtain b1 wb where b: "bus_suspend (be_pm env) MY_PM_DEV_BATTERY w = (b1, wb)" by fastforce
  have u: "users BATTERY_ADC_NODE wb = users BATTERY_ADC_NODE w - (if 0 \<le> b1 then 1 else 0)"
    using bus_suspend_count(1) [OF assms(1) b, of BATTERY_ADC_NODE] by (simp add: dev_bus_def)
  have rel: "0 \<le> b1" if "adc_releases env users"
  proof (rule ccontr)
    assume "\<not> 0 \<le> b1"
    then have "loss_cause (be_pm env) users MY_PM_DEV_BATTERY Release_Failed"
      using bus_suspend_failed [OF b, of BATTERY_ADC_NODE users] assms(2) that by (simp add: batt_running_def dev_bus_def)
    then show False using that by (auto simp: loss_cause_def adc_releases_def dev_bus_def)
  qed
  have "(ret, pm', w1) = (if b1 < 0 then (b1, pm, wb) else (0, pm_set_state MY_PM_DEV_BATTERY MY_PM_STATE_SUSPENDED pm, wb))"
    using assms(2,3) b by (auto simp: my_pm_device_suspend_def batt_running_def battery_pm_ops_def split: if_splits)
  then show ?thesis using assms(2) u rel by (auto simp: batt_idle_def batt_running_def pm_set_state_def split: if_splits)
qed

lemma batt_register_inv:
  assumes "runtime_pm (be_pm env) users" "users BATTERY_ADC_NODE w = 0"
    and "my_pm_device_register (be_pm env) MY_PM_DEV_BATTERY (Some (battery_pm_ops env)) pm w = (ret, pm', w')"
  shows "batt_idle env users pm' w'"
proof (cases "adc_ready env")
  case False
  then show ?thesis using assms(2,3) by (auto simp: my_pm_device_register_def battery_pm_ops_def battery_pm_init_def pm_drop_ops_def batt_idle_def Let_def)
next
  case True
  obtain b1 w1 b2 w2 where b: "bus_resume (be_pm env) MY_PM_DEV_BATTERY w = (b1, w1)" "bus_suspend (be_pm env) MY_PM_DEV_BATTERY w1 = (b2, w2)" by fastforce
  have u1: "users BATTERY_ADC_NODE w1 = (if 0 \<le> b1 then 1 else 0)" using bus_resume_count(1) [OF assms(1) b(1), of BATTERY_ADC_NODE] assms(2) by (simp add: dev_bus_def)
  have u2: "users BATTERY_ADC_NODE w2 = users BATTERY_ADC_NODE w1 - (if 0 \<le> b2 then 1 else 0)"
    using bus_suspend_count(1) [OF assms(1) b(2), of BATTERY_ADC_NODE] by (simp add: dev_bus_def)
  have rel: "0 \<le> b2" if "adc_releases env users" "0 \<le> b1"
  proof (rule ccontr)
    assume "\<not> 0 \<le> b2"
    then have "loss_cause (be_pm env) users MY_PM_DEV_BATTERY Release_Failed"
      using bus_suspend_failed [OF b(2), of BATTERY_ADC_NODE users] bus_resume_count(2) [OF assms(1) b(1) that(2)] u1 that(2) by (simp add: dev_bus_def)
    then show False using that(1) by (auto simp: loss_cause_def adc_releases_def dev_bus_def)
  qed
  show ?thesis using assms(3) b True u1 u2 rel
    by (auto simp: my_pm_device_register_def battery_pm_ops_def battery_pm_init_def pm_drop_ops_def pm_set_state_def batt_idle_def Let_def split: if_splits)
qed

lemma restart_timer_inv: "batt_restart_timer s = (go, s1) \<Longrightarrow> batt_inv P s \<Longrightarrow> batt_inv P s1 \<and> batt_pm s1 = batt_pm s \<and> batt_world s1 = batt_world s"
  by (auto simp: batt_restart_timer_def batt_inv_defs split: if_splits)

lemma batt_inv_pm: "batt_inv P s \<Longrightarrow> Q pm w \<Longrightarrow> batt_inv Q (s\<lparr>batt_pm := pm, batt_world := w\<rparr>)"
  by (simp add: batt_inv_defs)

lemma batt_inv_P: "batt_inv P s \<Longrightarrow> P (batt_pm s) (batt_world s)"
  by (simp add: batt_inv_def)

lemma update_state_inv:
  assumes "runtime_pm (be_pm env) users" "adc_neutral env users" "batt_inv (batt_idle env users) s"
  shows "batt_inv (batt_idle env users) (my_battery_update_state cfg env s)"
proof -
  obtain go s1 where rt: "batt_restart_timer s = (go, s1)" by fastforce
  have s1: "batt_inv (batt_idle env users) s1" using restart_timer_inv [OF rt assms(3)] by blast
  note idle = batt_inv_P [OF s1]
  obtain ret pm w where res: "my_pm_device_resume (be_pm env) MY_PM_DEV_BATTERY (batt_pm s1) (batt_world s1) = (ret, pm, w)" using prod_cases3 by blast
  note rs = batt_resume_inv [OF assms(1) idle res]
  show ?thesis
  proof (cases "go \<and> \<not> ret < 0")
    case False
    then show ?thesis using rt res s1 rs by (auto simp: my_battery_update_state_def Let_def intro: batt_inv_pm)
  next
    case True
    obtain err mv w' where rd: "my_battery_read_mv env (s_read_mv s1) w = (err, mv, w')" using prod_cases3 by blast
    let ?P = "batt_running env users"
    let ?s3 = "s1\<lparr>batt_pm := pm, s_read_mv := mv, batt_world := w'\<rparr>"
    let ?s4 = "batt_take_reading cfg (batt_mv_percent mv) ?s3"
    have "batt_running env users pm w'" using rs True read_mv_users [OF assms(2) rd, of BATTERY_ADC_NODE] by (simp add: batt_running_def)
    then have "batt_inv ?P ?s3" using s1 by (simp add: batt_inv_defs)
    then have s4: "batt_inv ?P ?s4" by (rule take_reading_inv) (rule batt_mv_percent_range)+
    obtain r pm3 w3 where sus: "my_pm_device_suspend (be_pm env) MY_PM_DEV_BATTERY (batt_pm ?s4) (batt_world ?s4) = (r, pm3, w3)" using prod_cases3 by blast
    have "my_battery_update_state cfg env s = ?s4\<lparr>batt_pm := pm3, batt_world := w3\<rparr>"
      using rt True res rd sus by (simp add: my_battery_update_state_def my_battery_read_percent_def Let_def)
    moreover have "batt_idle env users pm3 w3" by (rule batt_suspend_inv [OF assms(1) batt_inv_P [OF s4] sus])
    ultimately show ?thesis using batt_inv_pm [OF s4] by simp
  qed
qed

lemma chg_event_inv: "batt_inv P s \<Longrightarrow> batt_inv P (my_chg_event_reporting s)"
  by (auto simp: my_chg_event_reporting_def intro!: batt_inv_simple batt_inv_fields split: my_chg_state.split)

lemma show_chgled_inv:
  assumes "runtime_pm (be_pm env) users" "adc_neutral env users" "batt_inv (batt_idle env users) s"
  shows "batt_inv (batt_idle env users) (my_battery_show_chgled cfg env s)"
  using assms unfolding my_battery_show_chgled_def Let_def
  by (auto intro!: chg_event_inv led_set_mode_inv batt_inv_simple batt_inv_fields update_state_inv)

lemma ctrl_dispatch_inv:
  assumes "runtime_pm (be_pm env) users" "adc_neutral env users" "batt_inv (batt_idle env users) s"
  shows "batt_inv (batt_idle env users) (ctrl_dispatch cfg env m s)"
  using assms by (auto simp: ctrl_dispatch_def Let_def
      intro!: show_chgled_inv update_state_inv my_led_ctrl_mode_inv batt_inv_simple batt_inv_fields split: ctrl_msg.split)

lemma batt_step_inv:
  assumes "batt_step cfg env users l s s'" "runtime_pm (be_pm env) users" "adc_neutral env users" "batt_inv (batt_idle env users) s"
  shows "batt_inv (batt_idle env users) s'"
  using assms
proof (induction rule: batt_step.induct)
  case (msg s m q)
  then have "batt_inv (batt_idle env users) (s\<lparr>ctrl_msgq := q\<rparr>)" by (simp add: batt_inv_defs)
  then show ?case using msg(2,3) by (intro ctrl_dispatch_inv)
next
  case (world pm s w)
  have "batt_idle env users pm w" using batt_inv_P [OF world(5)] world(1,2) by (simp add: batt_idle_def split: option.splits)
  then show ?case using batt_inv_pm [OF world(5)] by blast
qed (auto simp: batt_update_timer_handler_def batt_gpio_isr_def batt_chg_det_handle_def led_sw_callback_def open_led_timer_def
    intro!: batt_inv_simple batt_inv_fields led_ctrl_callback_inv led_set_mode_inv)

lemma battery_start_inv:
  assumes "runtime_pm (be_pm env) users" "users BATTERY_ADC_NODE w = 0"
    and "batt_gpio_init ready a b c (battery_start pm w) = (r1, s1)" "my_battery_pm_register env s1 = (r2, s2)"
  shows "batt_inv (batt_idle env users) s2"
proof -
  have "batt_inv (\<lambda>pm' w'. pm' = pm \<and> w' = w) (battery_start pm w)"
    by (simp add: batt_inv_defs battery_start_def report_inv_def batt_alarms_def batt_class_def)
  then have s1: "batt_inv (\<lambda>pm' w'. pm' = pm \<and> w' = w) s1"
    using assms(3) by (auto simp: batt_gpio_init_def Let_def batt_inv_defs split: if_splits)
  then have pw: "batt_pm s1 = pm" "batt_world s1 = w" by (simp_all add: batt_inv_def)
  obtain r pm' w' where reg: "my_pm_device_register (be_pm env) MY_PM_DEV_BATTERY (Some (battery_pm_ops env)) pm w = (r, pm', w')" using prod_cases3 by blast
  have "batt_idle env users pm' w'" by (rule batt_register_inv [OF assms(1,2) reg])
  then show ?thesis using assms(4) reg pw batt_inv_pm [OF s1] by (auto simp: my_battery_pm_register_def)
qed

lemma batt_reach_inv: "batt_reach cfg env users s \<Longrightarrow> runtime_pm (be_pm env) users \<Longrightarrow> adc_neutral env users \<Longrightarrow> batt_inv (batt_idle env users) s"
  by (induction rule: batt_reach.induct) (blast intro: battery_start_inv batt_step_inv)+

text \<open>
  C32: the invariant of the battery module. In every state that timers, messages, the charger, the other modules and failing devices can lead to: the displayed percentage
  is between 0 and 100, the battery class is the one of that percentage, reports are sent only when the class changes and the last report is
  the present class, the two Bluetooth lamp modes exclude each other, the queue is within its size. Between the handlers the converter
  has at most one user, however often the system fails to switch it on or off, so that no failure accumulates; the resumed device has
  exactly one; and the converter is switched off, provided that the system does not fail to release it while it is in use.
\<close>

theorem battery_invariant:
  assumes "batt_reach cfg env users s" "runtime_pm (be_pm env) users" "adc_neutral env users"
  shows "0 \<le> s_show_percent s \<and> s_show_percent s \<le> 100 \<and> s_batt_state s = batt_class (s_show_percent s) \<and>
    distinct_adj (batt_alarms (batt_sent s)) \<and> (batt_alarms (batt_sent s) \<noteq> [] \<longrightarrow> last (batt_alarms (batt_sent s)) = class_text (s_batt_state s)) \<and>
    \<not> (led_status_get BT_RADIO_LED_MODE s \<and> led_status_get BT_CONNECT_LED_MODE s) \<and> length (ctrl_msgq s) \<le> CTRL_MSGQ_LEN \<and>
    users BATTERY_ADC_NODE (batt_world s) \<in> {0, 1} \<and>
    (my_pm_device_get_state MY_PM_DEV_BATTERY (batt_pm s) = MY_PM_STATE_RESUME \<longrightarrow> users BATTERY_ADC_NODE (batt_world s) = 1) \<and>
    (adc_releases env users \<longrightarrow> users BATTERY_ADC_NODE (batt_world s) = 0)"
proof -
  note inv = batt_reach_inv [OF assms]
  have "users BATTERY_ADC_NODE (batt_world s) \<in> {0, 1}" "adc_releases env users \<longrightarrow> users BATTERY_ADC_NODE (batt_world s) = 0"
    "my_pm_device_get_state MY_PM_DEV_BATTERY (batt_pm s) = MY_PM_STATE_RESUME \<longrightarrow> users BATTERY_ADC_NODE (batt_world s) = 1"
    using batt_inv_P [OF inv] by (auto simp: batt_idle_def my_pm_device_get_state_def split: option.splits)
  then show ?thesis using inv by (auto simp: batt_inv_def display_inv_def report_inv_def split: if_splits)
qed

lemma demo_neutral: "adc_neutral (demo_env r) users"
  by (simp add: adc_neutral_def demo_env_def)

lemma battery_invariant_witness:
  "\<exists>s :: (pm_bus \<Rightarrow> int) battery. s_show_percent s = 100 \<and> batt_alarms (batt_sent s) \<noteq> [] \<and> batt_world s BATTERY_ADC_NODE = 0 \<and> last (batt_alarms (batt_sent s)) = class_text BATT_FULL"
proof -
  let ?e = "demo_env 750" and ?u = "\<lambda>b (w :: pm_bus \<Rightarrow> int). w b"
  let ?s0 = "(battery_start my_pm_init (\<lambda>_. 0))\<lparr>s_batt_update_timer := Some 0\<rparr>"
  have rt: "runtime_pm (be_pm ?e) ?u" using counting_pm_ok(1) by (simp add: demo_env_def)
  have rel: "adc_releases ?e ?u" by (simp add: adc_releases_def demo_env_def counting_pm_def)
  have g: "batt_gpio_init True 0 0 0 (battery_start my_pm_init (\<lambda>_. 0)) = (0, ?s0)" by (simp add: batt_gpio_init_def battery_start_def)
  obtain r s2 where s2: "my_battery_pm_register ?e ?s0 = (r, s2)" by fastforce
  then have s2': "s2 = ?s0\<lparr>batt_pm := demo_pm, batt_world := \<lambda>_. 0\<rparr>"
    by (auto simp add: fun_upd_idem my_battery_pm_register_def battery_start_def my_pm_device_register_def battery_pm_ops_def battery_pm_init_def demo_env_def demo_pm_def
        bus_resume_eq bus_suspend_eq dev_bus_def bus_get_def bus_put_def counting_pm_def pm_set_state_def my_pm_init_def Let_def)
  have "batt_reach demo_cfg ?e ?u s2" by (rule batt_reach.start [OF _ _ g s2]) (simp_all add: my_pm_init_def)
  moreover have "batt_step demo_cfg ?e ?u Timer s2 (batt_update_timer_handler (s2\<lparr>s_batt_update_timer := None\<rparr>))"
    by (rule batt_step.timer [of _ 0]) (simp add: s2')
  moreover have h: "batt_update_timer_handler (s2\<lparr>s_batt_update_timer := None\<rparr>) = (battery_start demo_pm (\<lambda>_. 0))\<lparr>ctrl_msgq := [MY_MSG_UPDATE_BATTERY]\<rparr>"
    by (simp add: s2' batt_update_timer_handler_def send_ctrl_def battery_start_def)
  moreover have "batt_step demo_cfg ?e ?u Msg ((battery_start demo_pm (\<lambda>_. 0))\<lparr>ctrl_msgq := [MY_MSG_UPDATE_BATTERY]\<rparr>)
      (ctrl_dispatch demo_cfg ?e MY_MSG_UPDATE_BATTERY (((battery_start demo_pm (\<lambda>_. 0))\<lparr>ctrl_msgq := [MY_MSG_UPDATE_BATTERY]\<rparr>)\<lparr>ctrl_msgq := []\<rparr>))"
    by (rule batt_step.msg) simp
  moreover have "((battery_start demo_pm (\<lambda>_. 0))\<lparr>ctrl_msgq := [MY_MSG_UPDATE_BATTERY]\<rparr>)\<lparr>ctrl_msgq := []\<rparr> = battery_start demo_pm (\<lambda>_. 0)"
    by (simp add: battery_start_def)
  ultimately have re: "batt_reach demo_cfg ?e ?u (my_battery_update_state demo_cfg ?e (battery_start demo_pm (\<lambda>_. 0)))"
    by (metis batt_reach.step ctrl_dispatch_def ctrl_msg.simps(32))
  let ?t = "my_battery_update_state demo_cfg ?e (battery_start demo_pm (\<lambda>_. 0))"
  have f: "s_show_percent ?t = 100" "ALARM_BAT_SWITCH (ascii ''5'') \<in> set (batt_sent ?t)"
    using first_update_full [OF demo_resume _ demo_samples, of 750 demo_cfg] by simp_all
  then have "batt_alarms (batt_sent ?t) \<noteq> []" by (force simp: batt_alarms_def)
  moreover have "batt_class 100 = BATT_FULL" by (simp add: batt_class_def)
  ultimately show ?thesis using battery_invariant [OF re rt demo_neutral] f(1) rel by (intro exI [of _ ?t]) simp
qed

text \<open>What the update of the battery depends on: its timer, and the messages that restart it.\<close>

definition monitor :: "'w battery \<Rightarrow> nat option \<times> ctrl_msg list \<times> int" where
  "monitor s = (s_batt_update_timer s, filter (\<lambda>m. m = MY_MSG_UPDATE_BATTERY \<or> m = MY_MSG_SHOW_CHARG) (ctrl_msgq s), s_show_percent s)"

lemma monitor_simple [simp]:
  "monitor (batt_led_set_level n s) = monitor s" "monitor (led_enable on s) = monitor s" "monitor (batt_enable on s) = monitor s"
  "monitor (led_status_set m on s) = monitor s" "monitor (led_mode_start m ms s) = monitor s" "monitor (bt_led_connect_quick_flick c s) = monitor s"
  by (simp_all add: monitor_def batt_led_set_level_eq led_enable_def batt_enable_def led_status_set_def led_mode_start_def bt_led_connect_quick_flick_def)

lemma monitor_fields [simp]:
  "monitor (s\<lparr>led_count := k\<rparr>) = monitor s" "monitor (s\<lparr>timer_led_blink := u\<rparr>) = monitor s" "monitor (s\<lparr>timer_led_enable := u\<rparr>) = monitor s"
  by (simp_all add: monitor_def)

lemma monitor_send: "m \<noteq> MY_MSG_UPDATE_BATTERY \<Longrightarrow> m \<noteq> MY_MSG_SHOW_CHARG \<Longrightarrow> monitor (send_ctrl m s) = monitor s"
  by (simp add: monitor_def send_ctrl_def)

lemma monitor_led:
  "monitor (led_set_mode cfg mode on s) = monitor s" "monitor (led_ctrl_callback cfg s) = monitor s" "monitor (my_led_ctrl_mode cfg s) = monitor s"
proof -
  show m: "monitor (led_set_mode cfg mode on s) = monitor s" for mode on by (cases mode) (simp_all add: led_set_mode_def monitor_send Let_def)
  show "monitor (led_ctrl_callback cfg s) = monitor s" by (cases "active_mode s") (simp_all add: led_ctrl_callback_def Let_def m)
  show "monitor (my_led_ctrl_mode cfg s) = monitor s" by (simp add: my_led_ctrl_mode_def Let_def)
qed

lemma stopped_step:
  assumes "batt_step cfg env users l s s'" "l \<noteq> Debounce" "monitor s = (None, [], p)"
  shows "monitor s' = (None, [], p)"
  using assms
proof (induction rule: batt_step.induct)
  case (msg s m q)
  then have "monitor (s\<lparr>ctrl_msgq := q\<rparr>) = (None, [], p)" "m \<noteq> MY_MSG_UPDATE_BATTERY" "m \<noteq> MY_MSG_SHOW_CHARG" by (auto simp: monitor_def split: if_splits)
  then show ?case by (cases m) (simp_all add: ctrl_dispatch_def Let_def monitor_led monitor_send)
qed (auto simp: monitor_led monitor_send led_sw_callback_def open_led_timer_def, auto simp: monitor_def batt_gpio_isr_def)

text \<open>
  One lost message ends the monitoring of the battery. When the update timer expires while the queue of the control thread is full of other messages, its message is dropped;
  the timer runs only once and is restarted only by the handler of that message. After that the percentage never changes again, whatever
  happens, until a charger is plugged in or out.
\<close>

lemma battery_monitor_stops:
  assumes "length (ctrl_msgq s) = CTRL_MSGQ_LEN" "MY_MSG_UPDATE_BATTERY \<notin> set (ctrl_msgq s)" "MY_MSG_SHOW_CHARG \<notin> set (ctrl_msgq s)"
    and "batt_step cfg env users Timer s t" "(\<lambda>x y. \<exists>l. l \<noteq> Debounce \<and> batt_step cfg env users l x y)\<^sup>*\<^sup>* t u"
  shows "s_batt_update_timer u = None \<and> MY_MSG_UPDATE_BATTERY \<notin> set (ctrl_msgq u) \<and> s_show_percent u = s_show_percent s"
proof -
  have f: "filter (\<lambda>m. m = MY_MSG_UPDATE_BATTERY \<or> m = MY_MSG_SHOW_CHARG) (ctrl_msgq s) = []" using assms(2,3) by (auto simp: filter_empty_conv)
  have t: "monitor t = (None, [], s_show_percent s)"
    using assms(4)
  proof cases
    case (timer ms)
    then show ?thesis using assms(1) f by (simp add: batt_update_timer_handler_def send_ctrl_def batt_enable_def monitor_def)
  qed
  from assms(5) have "monitor u = (None, [], s_show_percent s)"
    by (induction rule: rtranclp_induct) (use t stopped_step in blast)+
  then show ?thesis by (auto simp: monitor_def filter_empty_conv)
qed

end
