(* ===== verification/Ctrl.thy ===== *)
theory Ctrl
  imports Battery
begin

text \<open>
  Model of the control module \<^verbatim>\<open>src/my_ctrl.c\<close> beside lamps and battery: alarm messages, the range alarms of the sensors, sampling, the key,
  the light sensors and the buzzer. A handler takes the state of its part and returns it with the list of what it sends. The drivers of the sensors and the
  clock are parameters: their results are arguments.
\<close>

section \<open>Alarm messages\<close>

datatype alarm_type = ALARM_CHARGE_IN | ALARM_CHARGE_OUT | ALARM_CHARGE_FULL | ALARM_BAT_SWITCH | ALARM_REMOVE | ALARM_CASE_OPEN | ALARM_MOVE_START
  | ALARM_MOVE_STOP | ALARM_BLE_CONNECTED | ALARM_BLE_CONNECT_ERR | ALARM_HIGH_PATM | ALARM_LOW_PATM | ALARM_HIGH_TEMP | ALARM_LOW_TEMP
  | ALARM_HIGH_HUMI | ALARM_LOW_HUMI | ALARM_FILP | ALARM_FILP_BACK | ALARM_LOW_BAT | ALARM_OTHER

primrec alarm_code :: "alarm_type \<Rightarrow> int" where
  "alarm_code ALARM_CHARGE_IN = 1" | "alarm_code ALARM_CHARGE_OUT = 2" | "alarm_code ALARM_CHARGE_FULL = 3" | "alarm_code ALARM_BAT_SWITCH = 4"
| "alarm_code ALARM_REMOVE = 5" | "alarm_code ALARM_CASE_OPEN = 6" | "alarm_code ALARM_MOVE_START = 7" | "alarm_code ALARM_MOVE_STOP = 8"
| "alarm_code ALARM_BLE_CONNECTED = 9" | "alarm_code ALARM_BLE_CONNECT_ERR = 10" | "alarm_code ALARM_HIGH_PATM = 11" | "alarm_code ALARM_LOW_PATM = 12"
| "alarm_code ALARM_HIGH_TEMP = 13" | "alarm_code ALARM_LOW_TEMP = 14" | "alarm_code ALARM_HIGH_HUMI = 15" | "alarm_code ALARM_LOW_HUMI = 16"
| "alarm_code ALARM_FILP = 17" | "alarm_code ALARM_FILP_BACK = 18" | "alarm_code ALARM_LOW_BAT = 19" | "alarm_code ALARM_OTHER = 20"

text \<open>The fields of the configuration the module uses.\<close>

record ctrl_config =
  chargesta_report :: u8
  batlevel_empty_rpt :: u8
  batlevel_low_rpt :: u8
  batlevel_normal_rpt :: u8
  batlevel_fair_rpt :: u8
  batlevel_high_rpt :: u8
  batlevel_full_rpt :: u8
  pullalm_sw :: u8
  pullalm_mode :: u8
  remalm_sw :: u8
  remalm_mode :: u8
  motdetalm_report_type :: u8
  btconnect_report :: u8
  patalm_sw :: u8
  patalm_low_threshold :: u8
  patalm_high_threshold :: u8
  patalm_report_type :: u8
  patalm_report_interval :: u8
  tempalm_sw :: u8
  temp_low_threshold :: int
  temp_high_threshold :: int
  humi_low_threshold :: u8
  humi_high_threshold :: u8
  tempalm_report_type :: u8
  tempalm_report_interval :: u8
  imu_alm_report :: u8
  current_mode :: u8
  ltint_T1 :: u16
  ltint_T2 :: u16

text \<open>What the module sends: the boot reason, a command to the LTE module, the upload of scan data, a message to another thread.\<close>

datatype ctrl_out = LTE_BOOT_REASON_ALARM | LTE_COMMAND bytes bytes | SCAN_UPLOAD_ON_WAKEUP
  | KEY_SHORT_PRESS | KEY_LONG_PRESS
  | LIGHT_TAMPER bool | LIGHT_PULL bool
  | BLE_SENSOR_TH_SAMPLE u32 u16 u16 | BLE_SENSOR_BP_SAMPLE u32 u32

text \<open>\<open>atoi\<close>: blanks, an optional sign, digits.\<close>

definition is_space :: "u8 \<Rightarrow> bool" where
  "is_space c \<longleftrightarrow> c = 32 \<or> 9 \<le> c \<and> c \<le> 13"

definition atoi_digits :: "bytes \<Rightarrow> int" where
  "atoi_digits cs = foldl (\<lambda>v c. v * 10 + (int (unat c) - 48)) 0 (takeWhile (\<lambda>c. 48 \<le> c \<and> c \<le> 57) cs)"

definition atoi :: "bytes \<Rightarrow> int" where
  "atoi s = (case dropWhile is_space s of
     [] \<Rightarrow> 0
   | c # cs \<Rightarrow> if c = 45 then - atoi_digits cs else if c = 43 then atoi_digits cs else atoi_digits (c # cs))"

text \<open>The way of reporting; \<open>None\<close> is a type without one, for which nothing is sent.\<close>

definition alarm_rpt :: "ctrl_config \<Rightarrow> alarm_type \<Rightarrow> bytes \<Rightarrow> u8 option" where
  "alarm_rpt cfg alarm_type additional_info =
     (case alarm_type of
        ALARM_LOW_BAT \<Rightarrow> Some 0
      | ALARM_CHARGE_IN \<Rightarrow> Some (chargesta_report cfg)
      | ALARM_CHARGE_OUT \<Rightarrow> Some (chargesta_report cfg)
      | ALARM_CHARGE_FULL \<Rightarrow> Some (chargesta_report cfg)
      | ALARM_BAT_SWITCH \<Rightarrow>
          (let n = atoi additional_info
           in Some (if n = batt_code BATT_EMPTY then batlevel_empty_rpt cfg
                    else if n = batt_code BATT_LOW then batlevel_low_rpt cfg
                    else if n = batt_code BATT_NORMAL then batlevel_normal_rpt cfg
                    else if n = batt_code BATT_FAIR then batlevel_fair_rpt cfg
                    else if n = batt_code BATT_HIGH then batlevel_high_rpt cfg
                    else if n = batt_code BATT_FULL then batlevel_full_rpt cfg
                    else 0))
      | ALARM_REMOVE \<Rightarrow> Some (pullalm_mode cfg)
      | ALARM_CASE_OPEN \<Rightarrow> Some (remalm_mode cfg)
      | ALARM_MOVE_START \<Rightarrow> Some (motdetalm_report_type cfg)
      | ALARM_MOVE_STOP \<Rightarrow> Some (motdetalm_report_type cfg)
      | ALARM_BLE_CONNECTED \<Rightarrow> Some (btconnect_report cfg)
      | ALARM_BLE_CONNECT_ERR \<Rightarrow> Some (btconnect_report cfg)
      | ALARM_HIGH_PATM \<Rightarrow> Some (patalm_report_type cfg)
      | ALARM_LOW_PATM \<Rightarrow> Some (patalm_report_type cfg)
      | ALARM_HIGH_TEMP \<Rightarrow> Some (tempalm_report_type cfg)
      | ALARM_LOW_TEMP \<Rightarrow> Some (tempalm_report_type cfg)
      | ALARM_HIGH_HUMI \<Rightarrow> Some (tempalm_report_type cfg)
      | ALARM_LOW_HUMI \<Rightarrow> Some (tempalm_report_type cfg)
      | ALARM_FILP \<Rightarrow> Some (imu_alm_report cfg)
      | ALARM_FILP_BACK \<Rightarrow> Some (imu_alm_report cfg)
      | ALARM_OTHER \<Rightarrow> None)"

definition alarm_text :: "alarm_type \<Rightarrow> int \<Rightarrow> u8 \<Rightarrow> bytes option \<Rightarrow> bytes" where
  "alarm_text alarm_type time_sec rpt additional_info =
     take 63 (print_int (alarm_code alarm_type) @ [44] @ print_int time_sec @ [44] @ print_int (int (unat rpt)) @
       (case additional_info of Some (c # cs) \<Rightarrow> [44] @ c # cs | _ \<Rightarrow> []))"

text \<open>A null pointer as the class of the battery is read: \<open>None\<close>.\<close>

definition send_alarm_message_to_lte :: "ctrl_config \<Rightarrow> int \<Rightarrow> alarm_type \<Rightarrow> bytes option \<Rightarrow> ctrl_out list option" where
  "send_alarm_message_to_lte cfg time_sec alarm_type additional_info =
     (if alarm_type = ALARM_BAT_SWITCH \<and> additional_info = None then None
      else Some (LTE_BOOT_REASON_ALARM #
        (case alarm_rpt cfg alarm_type (case additional_info of Some t \<Rightarrow> t | None \<Rightarrow> []) of
           Some rpt \<Rightarrow> if rpt > 0 then [LTE_COMMAND (ascii ''ALARM'') (alarm_text alarm_type time_sec rpt additional_info), SCAN_UPLOAD_ON_WAKEUP] else []
         | None \<Rightarrow> [])))"

section \<open>Range alarms\<close>

datatype my_alarm_type = LOW_PATM_TEMP_ALARM | NORMAL_PATM_TEMP_ALARM | HIGH_PATM_TEMP_ALARM

text \<open>The part the checks of pressure, temperature and humidity have in common: state and time of the last alarm, and the alarms raised.\<close>

definition range_alarm :: "bool \<Rightarrow> u8 \<Rightarrow> bool \<Rightarrow> bool \<Rightarrow> alarm_type \<Rightarrow> alarm_type \<Rightarrow> u32 \<Rightarrow> my_alarm_type \<times> u32 \<Rightarrow> (my_alarm_type \<times> u32) \<times> alarm_type list" where
  "range_alarm online interval low high low_alarm high_alarm timestamp = (\<lambda>(st, last_ts).
     let timestamp_diff = timestamp - last_ts;
         st1 = (if online \<and> timestamp_diff \<ge> ucast interval * 60 \<and> interval \<noteq> 0 then NORMAL_PATM_TEMP_ALARM else st)
     in if low then if st1 \<noteq> LOW_PATM_TEMP_ALARM then ((LOW_PATM_TEMP_ALARM, timestamp), [low_alarm]) else ((st1, last_ts), [])
        else if high then if st1 \<noteq> HIGH_PATM_TEMP_ALARM then ((HIGH_PATM_TEMP_ALARM, timestamp), [high_alarm]) else ((st1, last_ts), [])
        else ((NORMAL_PATM_TEMP_ALARM, last_ts), []))"

definition mode_online :: "ctrl_config \<Rightarrow> bool" where
  "mode_online cfg \<longleftrightarrow> current_mode cfg = 0 \<or> current_mode cfg = 3"

definition sensor_barometer_alarm_check :: "ctrl_config \<Rightarrow> int \<Rightarrow> u32 \<Rightarrow> my_alarm_type \<times> u32 \<Rightarrow> (my_alarm_type \<times> u32) \<times> alarm_type list" where
  "sensor_barometer_alarm_check cfg pressure_pa timestamp a =
     (if patalm_sw cfg = 1
      then range_alarm (mode_online cfg) (patalm_report_interval cfg)
        (patalm_low_threshold cfg \<noteq> 255 \<and> pressure_pa < int (unat (patalm_low_threshold cfg)) * 1000)
        (patalm_high_threshold cfg \<noteq> 255 \<and> pressure_pa > int (unat (patalm_high_threshold cfg)) * 1000)
        ALARM_LOW_PATM ALARM_HIGH_PATM timestamp a
      else ((NORMAL_PATM_TEMP_ALARM, snd a), []))"

text \<open>The two halves of the word: temperature and humidity in tenths.\<close>

definition temp_of :: "u32 \<Rightarrow> int" where
  "temp_of temp_humi = sint (ucast temp_humi :: u16)"

definition humi_of :: "u32 \<Rightarrow> int" where
  "humi_of temp_humi = sint (ucast (drop_bit 16 temp_humi) :: u16)"

definition sensor_temp_humi_alarm_check ::
  "ctrl_config \<Rightarrow> u32 \<Rightarrow> u32 \<Rightarrow> (my_alarm_type \<times> u32) \<times> (my_alarm_type \<times> u32) \<Rightarrow> ((my_alarm_type \<times> u32) \<times> (my_alarm_type \<times> u32)) \<times> alarm_type list" where
  "sensor_temp_humi_alarm_check cfg temp_humi timestamp = (\<lambda>(a, b).
     if tempalm_sw cfg = 1
     then (case range_alarm (mode_online cfg) (tempalm_report_interval cfg)
              (temp_low_threshold cfg \<noteq> 255 \<and> temp_of temp_humi < temp_low_threshold cfg * 10)
              (temp_high_threshold cfg \<noteq> 255 \<and> temp_of temp_humi > temp_high_threshold cfg * 10)
              ALARM_LOW_TEMP ALARM_HIGH_TEMP timestamp a of (a', out1) \<Rightarrow>
           (case range_alarm (mode_online cfg) (tempalm_report_interval cfg)
              (humi_low_threshold cfg \<noteq> 255 \<and> humi_of temp_humi < int (unat (humi_low_threshold cfg)) * 10)
              (humi_high_threshold cfg \<noteq> 255 \<and> humi_of temp_humi > int (unat (humi_high_threshold cfg)) * 10)
              ALARM_LOW_HUMI ALARM_HIGH_HUMI timestamp b of (b', out2) \<Rightarrow> ((a', b'), out1 @ out2)))
     else (((NORMAL_PATM_TEMP_ALARM, snd a), (NORMAL_PATM_TEMP_ALARM, snd b)), []))"

section \<open>Sampling\<close>

record sensors =
  g_barometer_sample :: "u32 \<times> u32"
  g_temp_humi_sample :: "u32 \<times> u16 \<times> u16"
  a_barometer :: "my_alarm_type \<times> u32"
  a_temp_humi :: "(my_alarm_type \<times> u32) \<times> (my_alarm_type \<times> u32)"

definition raise_alarms :: "ctrl_config \<Rightarrow> int \<Rightarrow> alarm_type list \<Rightarrow> ctrl_out list" where
  "raise_alarms cfg time_sec als = concat (map (\<lambda>a. case send_alarm_message_to_lte cfg time_sec a None of Some out \<Rightarrow> out | None \<Rightarrow> []) als)"

text \<open>The results of setting the mode and of the reading; \<open>time_sec\<close> is the clock.\<close>

definition sensor_collect_barometer :: "ctrl_config \<Rightarrow> bool \<Rightarrow> int option \<Rightarrow> int \<Rightarrow> sensors \<Rightarrow> int \<times> sensors \<times> ctrl_out list" where
  "sensor_collect_barometer cfg mode_ok reading time_sec s =
     (if \<not> mode_ok then (-1, s, [])
      else case reading of
        None \<Rightarrow> (-1, s, [])
      | Some p \<Rightarrow>
          let ts = word_of_int time_sec; pa = word_of_int p :: u32;
              s1 = s\<lparr>g_barometer_sample := (ts, pa)\<rparr>
          in (case sensor_barometer_alarm_check cfg (sint pa) ts (a_barometer s1) of (a, als) \<Rightarrow>
                (sint pa, s1\<lparr>a_barometer := a\<rparr>, BLE_SENSOR_BP_SAMPLE ts pa # raise_alarms cfg time_sec als)))"

definition pack_temp_humi :: "u16 \<Rightarrow> u16 \<Rightarrow> u32" where
  "pack_temp_humi humi temp = push_bit 16 (ucast humi) OR ucast temp"

text \<open>The reading: temperature and humidity in hundredths.\<close>

definition sensor_collect_temp_humi :: "ctrl_config \<Rightarrow> (int \<times> int) option \<Rightarrow> int \<Rightarrow> sensors \<Rightarrow> int \<times> sensors \<times> ctrl_out list" where
  "sensor_collect_temp_humi cfg reading time_sec s =
     (case reading of
        None \<Rightarrow> (-1, s, [])
      | Some (temperature, humidity) \<Rightarrow>
          let ts = word_of_int time_sec; t = word_of_int (temperature sdiv 10) :: u16; h = word_of_int (humidity sdiv 10) :: u16;
              s1 = s\<lparr>g_temp_humi_sample := (ts, t, h)\<rparr>
          in (case sensor_temp_humi_alarm_check cfg (pack_temp_humi h t) ts (a_temp_humi s1) of (a, als) \<Rightarrow>
                (sint (pack_temp_humi h t), s1\<lparr>a_temp_humi := a\<rparr>, BLE_SENSOR_TH_SAMPLE ts t h # raise_alarms cfg time_sec als)))"

text \<open>The answer to a request: to the factory test, to the LTE module or over Bluetooth; the numbers, in pascal and in tenths, are what the text is formatted from.
  The second component is the new value of the flag that the LTE module asked.\<close>

datatype patm_reply = FACTORY_NO_PATM | LTE_NO_PATM | BLE_NO_PATM | FACTORY_PATM int | LTE_PATM int | BLE_PATM int

definition patm_read_reply :: "bool \<Rightarrow> bool \<Rightarrow> int \<Rightarrow> patm_reply \<times> bool" where
  "patm_read_reply lte_factory lte_cmdSource pressure_pa =
     (if pressure_pa < 0
      then if \<not> lte_factory then (FACTORY_NO_PATM, lte_cmdSource) else if lte_cmdSource then (LTE_NO_PATM, False) else (BLE_NO_PATM, lte_cmdSource)
      else if lte_factory then (FACTORY_PATM pressure_pa, lte_cmdSource)
      else if lte_cmdSource then (LTE_PATM pressure_pa, False)
      else (BLE_PATM pressure_pa, lte_cmdSource))"

definition sensor_patm_read ::
  "ctrl_config \<Rightarrow> bool \<Rightarrow> bool \<Rightarrow> bool \<Rightarrow> int option \<Rightarrow> int \<Rightarrow> sensors \<Rightarrow> (patm_reply \<times> bool) \<times> sensors \<times> ctrl_out list" where
  "sensor_patm_read cfg lte_factory lte_cmdSource mode_ok reading time_sec s =
     (case sensor_collect_barometer cfg mode_ok reading time_sec s of (r, s1, out) \<Rightarrow> (patm_read_reply lte_factory lte_cmdSource r, s1, out))"

datatype temp_reply = FACTORY_NO_DATA | LTE_NO_DATA | BLE_NO_DATA | FACTORY_TEMP int int | LTE_TEMP int int | BLE_TEMP int int

definition temp_read_reply :: "bool \<Rightarrow> bool \<Rightarrow> int \<Rightarrow> temp_reply \<times> bool" where
  "temp_read_reply lte_factory lte_cmdSource temp_humi =
     (if temp_humi < 0
      then if \<not> lte_factory then (FACTORY_NO_DATA, lte_cmdSource) else if lte_cmdSource then (LTE_NO_DATA, False) else (BLE_NO_DATA, lte_cmdSource)
      else
        let temp = temp_humi AND 0xFFFF; humi = drop_bit 16 temp_humi
        in if lte_factory then (FACTORY_TEMP temp humi, lte_cmdSource)
           else if lte_cmdSource then (LTE_TEMP temp humi, False)
           else (BLE_TEMP temp humi, lte_cmdSource))"

definition sensor_temp_read ::
  "ctrl_config \<Rightarrow> bool \<Rightarrow> bool \<Rightarrow> (int \<times> int) option \<Rightarrow> int \<Rightarrow> sensors \<Rightarrow> (temp_reply \<times> bool) \<times> sensors \<times> ctrl_out list" where
  "sensor_temp_read cfg lte_factory lte_cmdSource reading time_sec s =
     (case sensor_collect_temp_humi cfg reading time_sec s of (r, s1, out) \<Rightarrow> (temp_read_reply lte_factory lte_cmdSource r, s1, out))"

text \<open>The period of the sampling timer in milliseconds; an interval of zero stops it.\<close>

definition sensor_timer_reload :: "u16 \<Rightarrow> u32 option" where
  "sensor_timer_reload interval_min = (if interval_min = 0 then None else Some (ucast interval_min * 60 * 1000))"

section \<open>Key\<close>

record key_ctrl =
  key_timer :: bool
  press_count :: u32
  pressed :: bool

abbreviation (input) KEY_LONG_PRESS_COUNT :: u32 where "KEY_LONG_PRESS_COUNT \<equiv> 60"

definition key_timer_init :: key_ctrl where
  "key_timer_init = \<lparr>key_timer = False, press_count = 0, pressed = False\<rparr>"

definition key_timer_handler :: "int \<Rightarrow> key_ctrl \<Rightarrow> key_ctrl \<times> ctrl_out list" where
  "key_timer_handler level k =
     (if level = 1
      then let k1 = (if pressed k then k else k\<lparr>pressed := True, press_count := 0\<rparr>) in (k1\<lparr>press_count := press_count k1 + 1\<rparr>, [])
      else if pressed k
      then (k\<lparr>pressed := False, key_timer := False, press_count := 0\<rparr>,
            if press_count k < KEY_LONG_PRESS_COUNT \<and> press_count k \<ge> 2 then [KEY_SHORT_PRESS]
            else if press_count k \<ge> KEY_LONG_PRESS_COUNT then [KEY_LONG_PRESS] else [])
      else (k, []))"

text \<open>The key's part of the interrupt handler.\<close>

definition key_isr :: "key_ctrl \<Rightarrow> key_ctrl" where
  "key_isr k = (if \<not> key_timer k then k\<lparr>key_timer := True\<rparr> else k)"

section \<open>Light sensors\<close>

record light_sensor =
  light_timer :: "u16 option"
  light_state :: bool

definition light_tamper_sensor_timer_handler :: "int \<Rightarrow> light_sensor \<Rightarrow> light_sensor \<times> ctrl_out list" where
  "light_tamper_sensor_timer_handler level l =
     (let new_state = (level = 1)
      in if new_state \<noteq> light_state l then (l\<lparr>light_state := new_state\<rparr>, [LIGHT_TAMPER new_state]) else (l, []))"

definition light_pull_sensor_timer_handler :: "int \<Rightarrow> light_sensor \<Rightarrow> light_sensor \<times> ctrl_out list" where
  "light_pull_sensor_timer_handler level l =
     (let new_state = (level = 1)
      in if new_state \<noteq> light_state l then (l\<lparr>light_state := new_state\<rparr>, [LIGHT_PULL new_state]) else (l, []))"

definition light_tamper_sensor_edge_handler :: "ctrl_config \<Rightarrow> int \<Rightarrow> light_sensor \<Rightarrow> light_sensor" where
  "light_tamper_sensor_edge_handler cfg level l =
     (let new_state = (level = 1)
      in if new_state \<noteq> light_state l then l\<lparr>light_timer := Some (if \<not> light_state l then ltint_T1 cfg else ltint_T2 cfg)\<rparr>
         else l\<lparr>light_timer := None\<rparr>)"

definition light_pull_sensor_edge_handler :: "ctrl_config \<Rightarrow> int \<Rightarrow> light_sensor \<Rightarrow> light_sensor" where
  "light_pull_sensor_edge_handler cfg level l =
     (let new_state = (level = 1)
      in if new_state \<noteq> light_state l then l\<lparr>light_timer := Some (if \<not> light_state l then ltint_T1 cfg else ltint_T2 cfg)\<rparr>
         else l\<lparr>light_timer := None\<rparr>)"

text \<open>The alarms the control thread raises on the messages of the light sensors.\<close>

definition ctrl_light_alarm :: "ctrl_config \<Rightarrow> int \<Rightarrow> ctrl_out \<Rightarrow> ctrl_out list" where
  "ctrl_light_alarm cfg time_sec m =
     (case m of
        LIGHT_TAMPER True \<Rightarrow> if remalm_sw cfg \<noteq> 0 then raise_alarms cfg time_sec [ALARM_CASE_OPEN] else []
      | LIGHT_PULL True \<Rightarrow> if pullalm_sw cfg \<noteq> 0 then raise_alarms cfg time_sec [ALARM_REMOVE] else []
      | _ \<Rightarrow> [])"

section \<open>Buzzer\<close>

datatype my_buzzer_mode = BUZZER_STOP | BUZZER_CONTINUOUS_ALARM | BUZZER_FAIL_TONE | BUZZER_ERROR_TONE | BUZZER_GENERAL_ALARM

datatype buzzer_msg = CTRL_BUZZER_ON | CTRL_BUZZER_OFF

record buzzer_ctrl =
  bz_tick :: int
  bz_on_time :: int
  bz_off_time :: int
  bz_repeat :: int
  bz_state :: bool
  bz_timer :: bool

definition g_buzzer_ctrl_config :: "int \<Rightarrow> int \<Rightarrow> int \<Rightarrow> buzzer_ctrl \<Rightarrow> buzzer_ctrl" where
  "g_buzzer_ctrl_config on_time off_time rep b = b\<lparr>bz_on_time := on_time, bz_off_time := off_time, bz_repeat := rep, bz_state := True, bz_tick := 0\<rparr>"

definition my_buzzer_play :: "my_buzzer_mode \<Rightarrow> buzzer_ctrl \<Rightarrow> buzzer_ctrl \<times> buzzer_msg list" where
  "my_buzzer_play buzzer_mode b =
     (case buzzer_mode of
        BUZZER_STOP \<Rightarrow> (b\<lparr>bz_timer := False\<rparr>, [CTRL_BUZZER_OFF])
      | BUZZER_CONTINUOUS_ALARM \<Rightarrow> ((g_buzzer_ctrl_config 2 5 0 b)\<lparr>bz_timer := True\<rparr>, [CTRL_BUZZER_ON])
      | BUZZER_FAIL_TONE \<Rightarrow> ((g_buzzer_ctrl_config 2 2 3 b)\<lparr>bz_timer := True\<rparr>, [CTRL_BUZZER_ON])
      | BUZZER_ERROR_TONE \<Rightarrow> ((g_buzzer_ctrl_config 1 1 5 b)\<lparr>bz_timer := True\<rparr>, [CTRL_BUZZER_ON])
      | BUZZER_GENERAL_ALARM \<Rightarrow> ((g_buzzer_ctrl_config 2 3 60 b)\<lparr>bz_timer := True\<rparr>, [CTRL_BUZZER_ON]))"

definition buzzer_timer_handler :: "buzzer_ctrl \<Rightarrow> buzzer_ctrl \<times> buzzer_msg list" where
  "buzzer_timer_handler b0 =
     (let b = b0\<lparr>bz_tick := bz_tick b0 + 1\<rparr>
      in if bz_state b
         then if bz_tick b \<ge> bz_on_time b
              then let b1 = b\<lparr>bz_state := False, bz_tick := 0\<rparr>
                   in (if bz_repeat b1 > 0
                       then let b2 = b1\<lparr>bz_repeat := bz_repeat b1 - 1\<rparr> in if bz_repeat b2 = 0 then b2\<lparr>bz_timer := False\<rparr> else b2
                       else b1, [CTRL_BUZZER_OFF])
              else (b, [])
         else if bz_tick b \<ge> bz_off_time b then (b\<lparr>bz_state := True, bz_tick := 0\<rparr>, [CTRL_BUZZER_ON])
         else (b, []))"

section \<open>Messages and timers\<close>

text \<open>The report of a battery class is sent in the way configured for that class.\<close>

lemma battery_report_mode:
  "c \<noteq> BATT_UNKNOWN \<Longrightarrow> alarm_rpt cfg ALARM_BAT_SWITCH (class_text c) =
     Some (case c of BATT_UNKNOWN \<Rightarrow> 0 | BATT_EMPTY \<Rightarrow> batlevel_empty_rpt cfg | BATT_LOW \<Rightarrow> batlevel_low_rpt cfg | BATT_NORMAL \<Rightarrow> batlevel_normal_rpt cfg
       | BATT_FAIR \<Rightarrow> batlevel_fair_rpt cfg | BATT_HIGH \<Rightarrow> batlevel_high_rpt cfg | BATT_FULL \<Rightarrow> batlevel_full_rpt cfg)"
  by (cases c) (simp_all add: alarm_rpt_def class_text_def print_int_def decimal_digits.simps atoi_def is_space_def atoi_digits_def Let_def)

lemma sensor_timer_no_overflow: "sensor_timer_reload m = Some ms \<Longrightarrow> unat ms = unat m * 60000"
proof -
  have "unat m < 65536" using unsigned_less [of m, where ?'a = nat] by simp
  moreover assume "sensor_timer_reload m = Some ms"
  ultimately show ?thesis by (auto simp: sensor_timer_reload_def unat_word_ariths unsigned_ucast_eq take_bit_nat_eq_self split: if_splits)
qed

section \<open>Range alarms\<close>

text \<open>A run of samples that are all too low, by their times.\<close>

fun low_run :: "bool \<Rightarrow> u8 \<Rightarrow> alarm_type \<Rightarrow> u32 list \<Rightarrow> my_alarm_type \<times> u32 \<Rightarrow> (u32 \<times> alarm_type) list" where
  "low_run online interval al [] a = []"
| "low_run online interval al (t # ts) a =
     (case range_alarm online interval True False al al t a of (a', out) \<Rightarrow> map (Pair t) out @ low_run online interval al ts a')"

lemma unat_diff_ge:
  fixes t l :: u32 and i :: u8
  assumes "unat l \<le> unat t"
  shows "ucast i * 60 \<le> t - l \<longleftrightarrow> unat l + 60 * unat i \<le> unat t"
proof -
  have "unat i < 256" using unsigned_less [of i, where ?'a = nat] by simp
  then have "unat (ucast i * 60 :: u32) = 60 * unat i"
    by (simp add: unat_word_ariths unsigned_ucast_eq take_bit_nat_eq_self)
  moreover have "unat (t - l) = unat t - unat l" using assms by (simp add: unat_sub word_le_nat_alt)
  ultimately show ?thesis using assms by (auto simp: word_le_nat_alt)
qed

lemma low_run_step:
  assumes "unat l \<le> unat t"
  shows "low_run online i al (t # ts) (LOW_PATM_TEMP_ALARM, l) =
      (if online \<and> i \<noteq> 0 \<and> unat l + 60 * unat i \<le> unat t then (t, al) # low_run online i al ts (LOW_PATM_TEMP_ALARM, t)
       else low_run online i al ts (LOW_PATM_TEMP_ALARM, l))"
  using unat_diff_ge [OF assms, of i] by (auto simp: range_alarm_def Let_def)

declare low_run.simps(2) [simp del]

lemma low_run_types:
  "sorted (map unat (l # ts)) \<Longrightarrow> \<forall>(t, b) \<in> set (low_run online i al ts (LOW_PATM_TEMP_ALARM, l)). b = al"
proof (induction ts arbitrary: l)
  case (Cons t ts)
  then have "unat l \<le> unat t" "sorted (map unat (t # ts))" "sorted (map unat (l # ts))" by auto
  then show ?case using Cons.IH [of t] Cons.IH [of l] by (auto simp: low_run_step)
qed simp

lemma low_run_once:
  "sorted (map unat (l # ts)) \<Longrightarrow> \<not> (online \<and> i \<noteq> 0) \<Longrightarrow> low_run online i al ts (LOW_PATM_TEMP_ALARM, l) = []"
proof (induction ts arbitrary: l)
  case (Cons t ts)
  then have "unat l \<le> unat t" "sorted (map unat (l # ts))" by auto
  then show ?case using Cons.IH [of l] Cons.prems(2) by (auto simp: low_run_step)
qed simp

lemma low_run_spaced:
  assumes "online" "i \<noteq> 0"
  shows "sorted (map unat (l # ts)) \<Longrightarrow> successively (\<lambda>t t'. unat t + 60 * unat i \<le> unat t') (l # map fst (low_run online i al ts (LOW_PATM_TEMP_ALARM, l)))"
proof (induction ts arbitrary: l)
  case (Cons t ts)
  then have "unat l \<le> unat t" "sorted (map unat (t # ts))" "sorted (map unat (l # ts))" by auto
  then show ?case using Cons.IH [of t] Cons.IH [of l] by (auto simp: low_run_step)
qed simp

lemma low_run_prompt:
  assumes "online" "i \<noteq> 0"
  shows "sorted (map unat (l # ts)) \<Longrightarrow> t \<in> set ts \<Longrightarrow>
    \<exists>t' \<in> set (l # map fst (low_run online i al ts (LOW_PATM_TEMP_ALARM, l))). unat t' \<le> unat t \<and> unat t < unat t' + 60 * unat i"
proof (induction ts arbitrary: l)
  case (Cons u ts)
  then have le: "unat l \<le> unat u" and s: "sorted (map unat (u # ts))" "sorted (map unat (l # ts))" by auto
  have i: "0 < unat i" using assms(2) by (simp add: unat_gt_0)
  show ?case
  proof (cases "t = u")
    case True
    then show ?thesis using le i assms by (auto simp: low_run_step not_le)
  next
    case False
    then have "t \<in> set ts" using Cons.prems(2) by simp
    then show ?thesis using Cons.IH [OF s(1)] Cons.IH [OF s(2)] le assms by (auto simp: low_run_step)
  qed
qed simp

text \<open>A series of pressure samples: value and time.\<close>

fun barometer_run :: "ctrl_config \<Rightarrow> (int \<times> u32) list \<Rightarrow> my_alarm_type \<times> u32 \<Rightarrow> (u32 \<times> alarm_type) list" where
  "barometer_run cfg [] a = []"
| "barometer_run cfg ((p, t) # xs) a =
     (case sensor_barometer_alarm_check cfg p t a of (a', out) \<Rightarrow> map (Pair t) out @ barometer_run cfg xs a')"

lemma barometer_run_low:
  assumes "patalm_sw cfg = 1" "patalm_low_threshold cfg \<noteq> 255" "\<forall>(p, t) \<in> set xs. p < int (unat (patalm_low_threshold cfg)) * 1000"
  shows "barometer_run cfg xs a = low_run (mode_online cfg) (patalm_report_interval cfg) ALARM_LOW_PATM (map snd xs) a"
  using assms(3)
proof (induction xs arbitrary: a)
  case (Cons x xs)
  obtain p t where x: "x = (p, t)" by fastforce
  have "sensor_barometer_alarm_check cfg p t a = range_alarm (mode_online cfg) (patalm_report_interval cfg) True False ALARM_LOW_PATM ALARM_LOW_PATM t a"
    using Cons.prems assms(1,2) x by (auto simp: sensor_barometer_alarm_check_def range_alarm_def Let_def split: prod.splits)
  then show ?case using Cons x by (auto simp: low_run.simps(2) split: prod.splits)
qed simp

text \<open>
  C34: low pressure is reported at once and then at the configured rate. While the pressure stays below the threshold, the first sample raises the alarm. Without repetition
  no other alarm follows, however long it lasts. With repetition, in the modes that are online, alarms are at least the interval apart, and no
  sample is further than the interval behind an alarm.
\<close>

theorem low_pressure_alarms:
  assumes "patalm_sw cfg = 1" "patalm_low_threshold cfg \<noteq> 255" "\<forall>(p, t) \<in> set ((p0, t0) # xs). p < int (unat (patalm_low_threshold cfg)) * 1000"
    and "sorted (map unat (t0 # map snd xs))" "st \<noteq> LOW_PATM_TEMP_ALARM"
  shows "\<exists>als. barometer_run cfg ((p0, t0) # xs) (st, l) = (t0, ALARM_LOW_PATM) # als \<and> (\<forall>(t, b) \<in> set als. b = ALARM_LOW_PATM) \<and>
    (if mode_online cfg \<and> patalm_report_interval cfg \<noteq> 0
     then successively (\<lambda>t t'. unat t + 60 * unat (patalm_report_interval cfg) \<le> unat t') (t0 # map fst als) \<and>
       (\<forall>t \<in> set (map snd xs). \<exists>t' \<in> set (t0 # map fst als). unat t' \<le> unat t \<and> unat t < unat t' + 60 * unat (patalm_report_interval cfg))
     else als = [])"
proof -
  let ?o = "mode_online cfg" and ?i = "patalm_report_interval cfg"
  have "barometer_run cfg ((p0, t0) # xs) (st, l) = low_run ?o ?i ALARM_LOW_PATM (t0 # map snd xs) (st, l)"
    using barometer_run_low [OF assms(1-3)] by simp
  also have "\<dots> = (t0, ALARM_LOW_PATM) # low_run ?o ?i ALARM_LOW_PATM (map snd xs) (LOW_PATM_TEMP_ALARM, t0)"
    using assms(5) by (auto simp: low_run.simps(2) range_alarm_def Let_def)
  finally show ?thesis
    using low_run_types [OF assms(4)] low_run_once [OF assms(4)] low_run_spaced [OF _ _ assms(4)] low_run_prompt [OF _ _ assms(4)] by auto
qed

definition demo_ctrl :: ctrl_config where
  "demo_ctrl = \<lparr>chargesta_report = 1, batlevel_empty_rpt = 1, batlevel_low_rpt = 1, batlevel_normal_rpt = 0, batlevel_fair_rpt = 0, batlevel_high_rpt = 0,
     batlevel_full_rpt = 1, pullalm_sw = 1, pullalm_mode = 1, remalm_sw = 1, remalm_mode = 2, motdetalm_report_type = 1, btconnect_report = 1, patalm_sw = 1,
     patalm_low_threshold = 30, patalm_high_threshold = 110, patalm_report_type = 1, patalm_report_interval = 1, tempalm_sw = 1, temp_low_threshold = -10,
     temp_high_threshold = 40, humi_low_threshold = 255, humi_high_threshold = 90, tempalm_report_type = 1, tempalm_report_interval = 0, imu_alm_report = 1,
     current_mode = 0, ltint_T1 = 100, ltint_T2 = 200\<rparr>"

lemma low_pressure_alarms_witness:
  "\<exists>als. barometer_run demo_ctrl [(29000, 1000), (29000, 1030), (28000, 1061)] (NORMAL_PATM_TEMP_ALARM, 0) = (1000, ALARM_LOW_PATM) # als \<and>
     (\<forall>t \<in> {1030, 1061 :: u32}. \<exists>t' \<in> set (1000 # map fst als). unat t' \<le> unat t \<and> unat t < unat t' + 60)"
  using low_pressure_alarms [of demo_ctrl 29000 1000 "[(29000, 1030), (28000, 1061)]" NORMAL_PATM_TEMP_ALARM 0]
  by (simp add: demo_ctrl_def mode_online_def) blast

section \<open>Key presses\<close>

text \<open>The levels of the key at the polls of its timer, as long as it runs.\<close>

fun key_polls :: "int list \<Rightarrow> key_ctrl \<Rightarrow> key_ctrl \<times> ctrl_out list" where
  "key_polls [] k = (k, [])"
| "key_polls (x # xs) k =
     (if key_timer k then case key_timer_handler x k of (k1, out) \<Rightarrow> (case key_polls xs k1 of (k2, out2) \<Rightarrow> (k2, out @ out2)) else (k, []))"

lemma key_held:
  assumes "unat (press_count k) + n < 2 ^ 32" "pressed k" "key_timer k"
  shows "key_polls (replicate n 1 @ xs) k = key_polls xs (k\<lparr>press_count := press_count k + of_nat n\<rparr>)"
  using assms
proof (induction n arbitrary: k)
  case (Suc n)
  let ?k = "k\<lparr>press_count := press_count k + 1\<rparr>"
  have "unat (press_count ?k) = Suc (unat (press_count k))" using Suc.prems(1) by (simp add: unat_word_ariths)
  then have "key_polls (replicate n 1 @ xs) ?k = key_polls xs (?k\<lparr>press_count := press_count ?k + of_nat n\<rparr>)"
    using Suc.prems by (intro Suc.IH) simp_all
  then show ?case using Suc.prems by (simp add: key_timer_handler_def Let_def add.assoc split: prod.split)
qed simp

text \<open>
  A key press is recognised by its length. A press that is seen at \<open>n\<close> polls gives no event for one poll, a short press for fewer than sixty, that is three seconds, and a
  long press from there on, at its release, and stops the timer. But a press that is over before the first poll leaves the polling timer running.
\<close>

lemma key_press_events:
  assumes "n < 2 ^ 32"
  shows "key_polls (replicate n 1 @ [0]) (key_isr key_timer_init) =
    (if n = 0 then (key_timer_init\<lparr>key_timer := True\<rparr>, [])
     else (key_timer_init, if n = 1 then [] else if n < 60 then [KEY_SHORT_PRESS] else [KEY_LONG_PRESS]))"
proof (cases n)
  case (Suc m)
  let ?k = "\<lparr>key_timer = True, press_count = 1, pressed = True\<rparr>"
  have "key_polls (replicate n 1 @ [0]) (key_isr key_timer_init) = key_polls (replicate m 1 @ [0]) ?k"
    by (simp add: Suc key_isr_def key_timer_init_def key_timer_handler_def Let_def split: prod.split)
  also have "\<dots> = key_polls [0] (?k\<lparr>press_count := 1 + of_nat m\<rparr>)" using key_held [of ?k m "[0]"] assms Suc by simp
  also have "1 + of_nat m = (of_nat n :: u32)" by (simp add: Suc)
  finally have e: "key_polls (replicate n 1 @ [0]) (key_isr key_timer_init) = key_polls [0] (?k\<lparr>press_count := of_nat n\<rparr>)" .
  have "unat (of_nat n :: u32) = n" using assms by (simp add: unat_of_nat)
  then show ?thesis unfolding e using Suc by (auto simp: key_timer_handler_def key_timer_init_def word_less_nat_alt word_le_nat_alt)
qed (simp add: key_isr_def key_timer_init_def key_timer_handler_def)

section \<open>Temperature replies\<close>

lemma unpack_temp_humi:
  assumes "uint h < 32768"
  shows "sint (pack_temp_humi h t) = uint h * 65536 + uint t"
proof -
  have t: "uint t < 65536" "0 \<le> uint t" "0 \<le> uint h" using unsigned_less [of t, where ?'a = int] by simp_all
  have "pack_temp_humi h t = push_bit 16 (ucast h) + ucast t"
    unfolding pack_temp_humi_def by (rule disjunctive_add [symmetric]) (auto simp: bit_simps dest: bit_imp_le_length)
  moreover have "uint (push_bit 16 (ucast h) :: u32) = uint h * 65536" "uint (ucast t :: u32) = uint t"
    using assms t by (simp_all add: push_bit_eq_mult uint_word_ariths unsigned_ucast_eq take_bit_int_eq_self)
  ultimately have u: "uint (pack_temp_humi h t) = uint h * 65536 + uint t"
    using assms t by (simp add: uint_word_ariths)
  have "uint h * 65536 + uint t < 2147483648" using assms t by linarith
  then have "signed_take_bit 31 (uint h * 65536 + uint t) = uint h * 65536 + uint t"
    using t by (intro signed_take_bit_int_eq_self) (simp_all add: order_trans [of _ 0])
  then show ?thesis using u by (simp add: sint_uint)
qed

lemma uint_u16:
  assumes "- 32768 \<le> x" "x < 32768"
  shows "uint (word_of_int x :: u16) = (if 0 \<le> x then x else x + 65536)"
proof (cases "0 \<le> x")
  case False
  have "x mod 65536 = (x + 65536) mod 65536" by simp
  also have "\<dots> = x + 65536" using False assms by (intro mod_pos_pos_trivial) simp_all
  finally show ?thesis using False by (simp add: uint_word_of_int take_bit_eq_mod)
qed (use assms in \<open>simp add: uint_word_of_int take_bit_eq_mod\<close>)

lemma sdiv_10_range:
  assumes "- 32768 \<le> t" "t < 32768"
  shows "- 32768 \<le> t sdiv 10" "t sdiv 10 < (32768 :: int)"
proof -
  have "\<bar>t\<bar> div 10 \<le> 32768 div 10" using assms by (intro zdiv_mono1) simp_all
  moreover have "0 \<le> \<bar>t\<bar> div 10" by (simp add: pos_imp_zdiv_nonneg_iff)
  ultimately show "- 32768 \<le> t sdiv 10" "t sdiv 10 < 32768"
    by (cases t "0 :: int" rule: linorder_cases; simp add: signed_divide_int_def)+
qed

text \<open>
  A temperature below zero is answered with a wrong number, and a missing one in the wrong place. For a reading in the range of the sensor the answer goes to whoever asked; its number
  is the temperature in tenths if that is not negative, and 65536 tenths too large otherwise. Without a reading, outside the factory
  test, the answer of the factory test is sent to the LTE module, whoever asked; the two cases of the test are exchanged.
\<close>

lemma temp_read_replies:
  assumes "- 32768 \<le> t" "t < 32768" "0 \<le> h" "h < 65536"
  shows "fst (sensor_temp_read cfg factory lte (Some (t, h)) time s) =
      (let shown = (if 0 \<le> t sdiv 10 then t sdiv 10 else 65536 + t sdiv 10)
       in if factory then (FACTORY_TEMP shown (h div 10), lte) else if lte then (LTE_TEMP shown (h div 10), False) else (BLE_TEMP shown (h div 10), lte)) \<and>
    fst (sensor_temp_read cfg False lte None time s) = (FACTORY_NO_DATA, lte)"
proof -
  let ?t = "word_of_int (t sdiv 10) :: u16" and ?h = "word_of_int (h sdiv 10) :: u16"
  let ?sh = "if 0 \<le> t sdiv 10 then t sdiv 10 else 65536 + t sdiv 10"
  have hd: "h sdiv 10 = h div 10" "0 \<le> h div 10" "h div 10 < 32768" using assms(3,4) by (simp_all add: sdiv_pos)
  have td: "- 32768 \<le> t sdiv 10" "t sdiv 10 < 32768" using sdiv_10_range [OF assms(1,2)] by simp_all
  have uh: "uint ?h = h div 10" unfolding hd(1) using uint_u16 [of "h div 10"] hd by simp
  have ut: "uint ?t = ?sh" using uint_u16 [OF td] by simp
  have sh: "0 \<le> ?sh" "?sh < 65536" using td by auto
  have v: "sint (pack_temp_humi ?h ?t) = h div 10 * 65536 + ?sh" using unpack_temp_humi [of ?h ?t] uh ut hd by simp
  have n: "0 \<le> h div 10 * 65536 + ?sh" using hd sh by linarith
  have a: "(h div 10 * 65536 + ?sh) AND 0xFFFF = ?sh"
  proof -
    have "(h div 10 * 65536 + ?sh) AND mask 16 = (h div 10 * 65536 + ?sh) mod 65536" by (simp add: take_bit_eq_mask [symmetric] take_bit_eq_mod)
    also have "\<dots> = ?sh" using sh by (simp add: mod_pos_pos_trivial)
    finally show ?thesis by (simp add: mask_eq_exp_minus_1)
  qed
  have d: "drop_bit 16 (h div 10 * 65536 + ?sh) = h div 10" using sh by (simp add: drop_bit_eq_div)
  have "fst (sensor_temp_read cfg factory lte (Some (t, h)) time s) = temp_read_reply factory lte (h div 10 * 65536 + ?sh)"
    by (simp add: sensor_temp_read_def sensor_collect_temp_humi_def Let_def v split: prod.split)
  then have "fst (sensor_temp_read cfg factory lte (Some (t, h)) time s) =
      (if factory then (FACTORY_TEMP ?sh (h div 10), lte) else if lte then (LTE_TEMP ?sh (h div 10), False) else (BLE_TEMP ?sh (h div 10), lte))"
    unfolding temp_read_reply_def Let_def a d using n by simp
  then show ?thesis by (simp add: Let_def sensor_temp_read_def sensor_collect_temp_humi_def temp_read_reply_def)
qed

definition demo_sensors :: sensors where
  "demo_sensors = \<lparr>g_barometer_sample = (0, 0), g_temp_humi_sample = (0, 0, 0), a_barometer = (NORMAL_PATM_TEMP_ALARM, 0),
     a_temp_humi = ((NORMAL_PATM_TEMP_ALARM, 0), (NORMAL_PATM_TEMP_ALARM, 0))\<rparr>"

text \<open>Five degrees below zero are shown as 6548.6 degrees.\<close>

section \<open>Buzzer patterns\<close>

text \<open>The ticks of the timer, as long as it runs.\<close>

fun buzzer_ticks :: "nat \<Rightarrow> buzzer_ctrl \<Rightarrow> buzzer_ctrl \<times> buzzer_msg list" where
  "buzzer_ticks 0 b = (b, [])"
| "buzzer_ticks (Suc n) b =
     (if bz_timer b then case buzzer_timer_handler b of (b1, out) \<Rightarrow> (case buzzer_ticks n b1 of (b2, out2) \<Rightarrow> (b2, out @ out2)) else (b, []))"

lemma buzzer_ticks_add:
  "buzzer_ticks (m + n) b = (case buzzer_ticks m b of (b1, out) \<Rightarrow> (case buzzer_ticks n b1 of (b2, out2) \<Rightarrow> (b2, out @ out2)))"
proof (induction m arbitrary: b)
  case (Suc m)
  show ?case
  proof (cases "bz_timer b")
    case False
    then show ?thesis by (cases n) auto
  qed (simp add: Suc split: prod.splits)
qed simp

lemma buzzer_ticks_off: "\<not> bz_timer b \<Longrightarrow> buzzer_ticks n b = (b, [])"
  by (cases n) auto

lemma buzzer_wait:
  assumes "bz_timer b" "bz_tick b + int n < (if bz_state b then bz_on_time b else bz_off_time b)"
  shows "buzzer_ticks n b = (b\<lparr>bz_tick := bz_tick b + int n\<rparr>, [])"
  using assms
proof (induction n arbitrary: b)
  case (Suc n)
  let ?b = "b\<lparr>bz_tick := bz_tick b + 1\<rparr>"
  have "buzzer_timer_handler b = (?b, [])" using Suc.prems by (auto simp: buzzer_timer_handler_def Let_def split: if_splits)
  moreover have "buzzer_ticks n ?b = (?b\<lparr>bz_tick := bz_tick ?b + int n\<rparr>, [])" using Suc.prems by (intro Suc.IH) (simp_all split: if_splits)
  ultimately show ?case using Suc.prems(1) by (simp add: add.assoc)
qed simp

text \<open>A phase of sound: off and on again, or the end.\<close>

lemma buzzer_phase:
  assumes "bz_timer b" "bz_tick b = 0" "0 < k" "int k = (if bz_state b then bz_on_time b else bz_off_time b)"
  shows "buzzer_ticks k b =
    (if bz_state b
     then (b\<lparr>bz_state := False, bz_repeat := (if bz_repeat b > 0 then bz_repeat b - 1 else bz_repeat b), bz_timer := (bz_repeat b \<noteq> 1)\<rparr>, [CTRL_BUZZER_OFF])
     else (b\<lparr>bz_state := True\<rparr>, [CTRL_BUZZER_ON]))"
proof -
  obtain j where k: "k = j + 1" using assms(3) by (metis Suc_eq_plus1 Suc_pred)
  have "buzzer_ticks j b = (b\<lparr>bz_tick := int j\<rparr>, [])" using buzzer_wait [of b j] assms k by simp
  then show ?thesis using assms k unfolding k buzzer_ticks_add by (auto simp: buzzer_timer_handler_def Let_def split: if_splits)
qed

lemma buzzer_beeps:
  assumes "bz_timer b" "bz_tick b = 0" "bz_state b" "bz_on_time b = int p" "bz_off_time b = int q" "0 < p" "0 < q" "bz_repeat b = int (Suc k)"
  shows "buzzer_ticks (k * (p + q) + p) b =
    (b\<lparr>bz_state := False, bz_repeat := 0, bz_timer := False\<rparr>, concat (replicate k [CTRL_BUZZER_OFF, CTRL_BUZZER_ON]) @ [CTRL_BUZZER_OFF])"
  using assms(1-5,8)
proof (induction k arbitrary: b)
  case 0
  then show ?case using buzzer_phase [of b p] assms(6) by simp
next
  case (Suc k)
  let ?b1 = "b\<lparr>bz_state := False, bz_repeat := int (Suc k)\<rparr>" and ?b2 = "b\<lparr>bz_repeat := int (Suc k)\<rparr>"
  have 1: "buzzer_ticks p b = (?b1, [CTRL_BUZZER_OFF])" using buzzer_phase [of b p] Suc.prems assms(6) by simp
  have 2: "buzzer_ticks q ?b1 = (?b2, [CTRL_BUZZER_ON])" using buzzer_phase [of ?b1 q] Suc.prems assms(7) by simp
  have 3: "buzzer_ticks (k * (p + q) + p) ?b2 =
      (?b2\<lparr>bz_state := False, bz_repeat := 0, bz_timer := False\<rparr>, concat (replicate k [CTRL_BUZZER_OFF, CTRL_BUZZER_ON]) @ [CTRL_BUZZER_OFF])"
    using Suc.prems by (intro Suc.IH) simp_all
  define n where "n = k * (p + q) + p"
  have e: "Suc k * (p + q) + p = p + (q + n)" by (simp add: n_def)
  have "buzzer_ticks (p + (q + n)) b =
      (?b2\<lparr>bz_state := False, bz_repeat := 0, bz_timer := False\<rparr>, [CTRL_BUZZER_OFF] @ [CTRL_BUZZER_ON] @ concat (replicate k [CTRL_BUZZER_OFF, CTRL_BUZZER_ON]) @ [CTRL_BUZZER_OFF])"
    unfolding buzzer_ticks_add 1 prod.case 2 3 [folded n_def] ..
  then show ?case unfolding e by simp
qed

lemma buzzer_endless: "bz_timer b \<Longrightarrow> bz_repeat b = 0 \<Longrightarrow> bz_timer (fst (buzzer_ticks n b))"
proof (induction n arbitrary: b)
  case (Suc n)
  obtain b1 out where h: "buzzer_timer_handler b = (b1, out)" by fastforce
  then have "bz_timer b1" "bz_repeat b1 = 0" using Suc.prems by (auto simp: buzzer_timer_handler_def Let_def split: if_splits)
  then show ?case using Suc.IH [of b1] Suc.prems(1) h by (auto split: prod.split)
qed simp

text \<open>The times of sound and pause and the number of tones of the modes that end.\<close>

definition buzzer_times :: "my_buzzer_mode \<Rightarrow> nat \<times> nat \<times> nat" where
  "buzzer_times m = (case m of BUZZER_FAIL_TONE \<Rightarrow> (2, 2, 3) | BUZZER_ERROR_TONE \<Rightarrow> (1, 1, 5) | BUZZER_GENERAL_ALARM \<Rightarrow> (2, 3, 60) | _ \<Rightarrow> (0, 0, 0))"

lemma concat_shift: "[a] @ concat (replicate k [b, a]) @ [b] = concat (replicate (Suc k) [a, b])"
  by (induction k) simp_all

text \<open>
  C35: the buzzer plays its pattern and ends. In the modes with a number of tones, after that many periods the buzzer has been switched on and off exactly that often, in turn, and
  its timer has stopped; whatever it played before. The continuous alarm goes on until it is stopped.
\<close>

theorem buzzer_pattern:
  assumes "buzzer_times m = (p, q, Suc k)" "k * (p + q) + p \<le> n"
  shows "\<not> bz_timer (fst (buzzer_ticks n (fst (my_buzzer_play m b)))) \<and>
    snd (my_buzzer_play m b) @ snd (buzzer_ticks n (fst (my_buzzer_play m b))) = concat (replicate (Suc k) [CTRL_BUZZER_ON, CTRL_BUZZER_OFF]) \<and>
    (\<forall>j. bz_timer (fst (buzzer_ticks j (fst (my_buzzer_play BUZZER_CONTINUOUS_ALARM b)))))"
proof -
  let ?b = "fst (my_buzzer_play m b)"
  have b: "bz_timer ?b" "bz_tick ?b = 0" "bz_state ?b" "bz_on_time ?b = int p" "bz_off_time ?b = int q" "0 < p" "0 < q" "bz_repeat ?b = int (Suc k)"
    "snd (my_buzzer_play m b) = [CTRL_BUZZER_ON]"
    using assms(1) by (cases m; auto simp: buzzer_times_def my_buzzer_play_def g_buzzer_ctrl_config_def)+
  obtain r where n: "n = k * (p + q) + p + r" using assms(2) le_Suc_ex by blast
  let ?e = "?b\<lparr>bz_state := False, bz_repeat := 0, bz_timer := False\<rparr>"
  have "buzzer_ticks n ?b = (?e, concat (replicate k [CTRL_BUZZER_OFF, CTRL_BUZZER_ON]) @ [CTRL_BUZZER_OFF])"
    unfolding n buzzer_ticks_add [of "k * (p + q) + p"] buzzer_beeps [OF b(1-8)] using buzzer_ticks_off [of ?e r] by simp
  moreover have "bz_timer (fst (buzzer_ticks j (fst (my_buzzer_play BUZZER_CONTINUOUS_ALARM b))))" for j
    by (rule buzzer_endless) (simp_all add: my_buzzer_play_def g_buzzer_ctrl_config_def)
  ultimately show ?thesis using b(9) concat_shift [of CTRL_BUZZER_ON k CTRL_BUZZER_OFF] by simp
qed

lemma buzzer_pattern_witness:
  "snd (buzzer_ticks 12 (fst (my_buzzer_play BUZZER_FAIL_TONE \<lparr>bz_tick = 7, bz_on_time = 0, bz_off_time = 0, bz_repeat = 0, bz_state = False, bz_timer = False\<rparr>))) =
     [CTRL_BUZZER_OFF, CTRL_BUZZER_ON, CTRL_BUZZER_OFF, CTRL_BUZZER_ON, CTRL_BUZZER_OFF]"
  using buzzer_pattern [of BUZZER_FAIL_TONE 2 2 2 12 "\<lparr>bz_tick = 7, bz_on_time = 0, bz_off_time = 0, bz_repeat = 0, bz_state = False, bz_timer = False\<rparr>"]
  by (simp add: buzzer_times_def my_buzzer_play_def numeral_eq_Suc)

section \<open>Light reports\<close>

text \<open>The reports of a sensor at a series of expiries of its timer: they alternate, and the last one is the state.\<close>

fun tamper_run :: "int list \<Rightarrow> light_sensor \<Rightarrow> light_sensor \<times> ctrl_out list" where
  "tamper_run [] l = (l, [])"
| "tamper_run (x # xs) l = (case light_tamper_sensor_timer_handler x l of (l1, out) \<Rightarrow> (case tamper_run xs l1 of (l2, out2) \<Rightarrow> (l2, out @ out2)))"

lemma tamper_reports_alternate:
  assumes "tamper_run xs l = (l', out)"
  shows "distinct_adj (LIGHT_TAMPER (light_state l) # out) \<and> last (LIGHT_TAMPER (light_state l) # out) = LIGHT_TAMPER (light_state l')"
  using assms
proof (induction xs arbitrary: l out)
  case (Cons x xs)
  obtain l1 o1 where h: "light_tamper_sensor_timer_handler x l = (l1, o1)" by fastforce
  obtain o2 where r: "tamper_run xs l1 = (l', o2)" "out = o1 @ o2" using Cons.prems h by (auto split: prod.splits)
  then show ?case using Cons.IH [OF r(1)] h by (auto simp: light_tamper_sensor_timer_handler_def Let_def split: if_splits)
qed simp

end
