(* ===== verification/Cmd_Parse.thy ===== *)
theory Cmd_Parse
  imports Tool_Text
begin

text \<open>
  The command line parser of \<open>my_cmd_setting.c\<close>, \<open>at_cmd_str_analyse\<close>: it cuts a
  text in place into parameters. A parameter is a pointer into the text (\<open>At i\<close>) or the
  shared empty string (\<open>Blank\<close>), and the separators are overwritten by terminators.
\<close>

datatype parm_ptr = Blank | At nat

text \<open>\<open>strchr\<close> also finds the terminator of the set.\<close>

definition strchr_in :: "bytes \<Rightarrow> u8 \<Rightarrow> bool" where
  "strchr_in cs c \<longleftrightarrow> c = 0 \<or> c \<in> set cs"

definition next_char :: "bytes \<Rightarrow> u8" where
  "next_char cs = (case cs of [] \<Rightarrow> 0 | c # _ \<Rightarrow> c)"

text \<open>
  The loop: \<open>pre\<close> holds the characters already passed, as they are left in the buffer. A
  return is the code, the buffer and the parameters found.
\<close>

fun analyse_loop :: "nat \<Rightarrow> u8 \<Rightarrow> bytes \<Rightarrow> u8 \<Rightarrow> bool \<Rightarrow> bool \<Rightarrow> parm_ptr list \<Rightarrow> bytes \<Rightarrow> bytes \<Rightarrow> int \<times> bytes \<times> parm_ptr list" where
  "analyse_loop limit startChar endChars splitChar status in_quote tar pre [] = (-4, pre, tar)"
| "analyse_loop limit startChar endChars splitChar status in_quote tar pre (c # cs) =
     (if c = 34
      then analyse_loop limit startChar endChars splitChar status (\<not> in_quote)
             (if \<not> in_quote \<and> status \<and> tar \<noteq> [] then butlast tar @ [At (length pre + 1)] else tar)
             (pre @ [if in_quote then 0 else c]) cs
      else if \<not> status \<and> (c = startChar \<or> startChar = 0) \<and> limit \<le> length tar then (-2, pre @ c # cs, tar)
      else
        let begins = (\<not> status \<and> (c = startChar \<or> startChar = 0));
            status' = (status \<or> begins);
            tar' = (if begins
                    then tar @ [if startChar = 0 then At (length pre) else if next_char cs = splitChar then Blank else At (length pre + 1)]
                    else tar)
        in if \<not> status' then analyse_loop limit startChar endChars splitChar status' in_quote tar' (pre @ [c]) cs
           else if \<not> in_quote \<and> strchr_in endChars c then (int (length tar'), pre @ 0 # cs, tar' @ replicate (limit - length tar') Blank)
           else if \<not> in_quote \<and> c = splitChar
           then if limit \<le> length tar' then (-3, pre @ 0 # cs, tar')
                else analyse_loop limit startChar endChars splitChar status' in_quote
                       (tar' @ [if strchr_in endChars (next_char cs) \<or> next_char cs = splitChar then Blank else At (length pre + 1)])
                       (pre @ [0]) cs
           else analyse_loop limit startChar endChars splitChar status' in_quote tar' (pre @ [c]) cs)"

definition at_cmd_str_analyse :: "bytes option \<Rightarrow> nat \<Rightarrow> u8 \<Rightarrow> bytes \<Rightarrow> u8 \<Rightarrow> int \<times> bytes \<times> parm_ptr list" where
  "at_cmd_str_analyse str_data limit startChar endChars splitChar =
     (case str_data of
        None \<Rightarrow> (-1, [], [])
      | Some s \<Rightarrow> analyse_loop limit startChar endChars splitChar False False [] [] s)"

text \<open>The string a parameter points to: up to the terminator, and the end of the text is one.\<close>

definition parm_str :: "bytes \<Rightarrow> parm_ptr \<Rightarrow> bytes" where
  "parm_str buf p = (case p of Blank \<Rightarrow> [] | At i \<Rightarrow> takeWhile (\<lambda>c. c \<noteq> 0) (drop i buf))"

abbreviation (input) PARM_MAX :: nat where "PARM_MAX \<equiv> 20"

text \<open>The call of \<open>at_recv_cmd_handler\<close>: no start character, end at a hash, split at commas.\<close>

definition cmd_analyse :: "bytes \<Rightarrow> int \<times> bytes list" where
  "cmd_analyse s = (case at_cmd_str_analyse (Some s) PARM_MAX 0 [35] 44 of (n, buf, tar) \<Rightarrow> (n, map (parm_str buf) tar))"

section \<open>What a command line means\<close>

text \<open>The fields of a text that ends at the first hash, for a text without quotation marks.\<close>

fun split_at :: "u8 \<Rightarrow> bytes \<Rightarrow> bytes list" where
  "split_at sep [] = [[]]"
| "split_at sep (c # cs) = (if c = sep then [] # split_at sep cs else (case split_at sep cs of [] \<Rightarrow> [[c]] | f # fs \<Rightarrow> (c # f) # fs))"

lemma split_at_ne [simp]: "split_at sep s \<noteq> []"
  by (cases s) (auto split: list.splits)

lemma split_at_sep [simp]: "split_at sep (sep # cs) = [] # split_at sep cs"
  by simp

lemma split_at_Cons: "c \<noteq> sep \<Longrightarrow> split_at sep (c # cs) = (c # hd (split_at sep cs)) # tl (split_at sep cs)"
  by (cases "split_at sep cs") auto

declare split_at.simps(2) [simp del]

lemma length_split_at_Cons: "c \<noteq> sep \<Longrightarrow> length (split_at sep (c # cs)) = length (split_at sep cs)"
  by (simp add: split_at_Cons)

definition plain_char :: "u8 \<Rightarrow> bool" where
  "plain_char c \<longleftrightarrow> c \<noteq> 0 \<and> c \<noteq> 34"

text \<open>Once started, outside quotation marks, with the last parameter beginning at or before the current character.\<close>

abbreviation (input) running :: "nat \<Rightarrow> parm_ptr list \<Rightarrow> bytes \<Rightarrow> bytes \<Rightarrow> int \<times> bytes \<times> parm_ptr list" where
  "running limit tar pre cs \<equiv> analyse_loop limit 0 [35] 44 True False tar pre cs"

lemma running_none:
  "list_all plain_char cs \<Longrightarrow> 35 \<notin> set cs \<Longrightarrow> fst (running limit tar pre cs) = -4 \<or> fst (running limit tar pre cs) = -3"
  by (induction cs arbitrary: tar pre) (auto simp: plain_char_def strchr_in_def Let_def)

text \<open>
  The parameters read at the end are those already found, with the open one completed, and the
  later fields: \<open>buf\<close> is the buffer and \<open>new\<close> the pointers added.
\<close>

definition cuts :: "nat \<Rightarrow> parm_ptr list \<Rightarrow> bytes \<Rightarrow> bytes \<Rightarrow> bytes \<Rightarrow> bytes \<Rightarrow> parm_ptr list \<Rightarrow> bool" where
  "cuts limit tar pre f rest buf new \<longleftrightarrow>
     running limit tar pre (f @ 35 # rest) =
       (int (length tar + length new), buf, tar @ new @ replicate (limit - (length tar + length new)) Blank) \<and>
     take (length pre) buf = pre \<and> length pre \<le> length buf \<and>
     takeWhile (\<lambda>c. c \<noteq> 0) (drop (length pre) buf) # map (parm_str buf) new = split_at 44 f"

lemma take_snoc_drop:
  assumes "take (length (pre @ [c])) buf = pre @ [c]"
  shows "take (length pre) buf = pre" "drop (length pre) buf = c # drop (length (pre @ [c])) buf"
proof -
  have b: "buf = pre @ c # drop (length (pre @ [c])) buf" using assms by (metis append.assoc append_Cons append_Nil append_take_drop_id)
  then show "take (length pre) buf = pre" by (metis append_eq_conv_conj)
  show "drop (length pre) buf = c # drop (length (pre @ [c])) buf" using b by (metis append_eq_conv_conj)
qed

lemma cuts_parts:
  assumes "cuts limit tar pre f rest buf new"
  shows "takeWhile (\<lambda>c. c \<noteq> 0) (drop (length pre) buf) = hd (split_at 44 f)" "map (parm_str buf) new = tl (split_at 44 f)"
proof -
  have e: "takeWhile (\<lambda>c. c \<noteq> 0) (drop (length pre) buf) # map (parm_str buf) new = split_at 44 f" using assms by (simp add: cuts_def)
  show "takeWhile (\<lambda>c. c \<noteq> 0) (drop (length pre) buf) = hd (split_at 44 f)" "map (parm_str buf) new = tl (split_at 44 f)"
    by (simp_all flip: e)
qed

lemma running_fields:
  assumes "list_all plain_char f" "35 \<notin> set f" "tar \<noteq> []" "length tar + length (split_at 44 f) \<le> Suc limit"
  shows "\<exists>buf new. cuts limit tar pre f rest buf new"
  using assms
proof (induction f arbitrary: tar pre)
  case Nil
  then show ?case by (intro exI [of _ "pre @ 0 # rest"] exI [of _ "[]"]) (simp add: cuts_def strchr_in_def)
next
  case (Cons c f)
  have c: "c \<noteq> 0" "c \<noteq> 34" "c \<noteq> 35" using Cons.prems by (auto simp: plain_char_def)
  show ?case
  proof (cases "c = 44")
    case False
    obtain buf new where ih: "cuts limit tar (pre @ [c]) f rest buf new"
      using Cons.IH [of tar "pre @ [c]"] Cons.prems False by (auto simp: length_split_at_Cons)
    have tk: "take (length pre) buf = pre" "drop (length pre) buf = c # drop (length (pre @ [c])) buf"
      using ih take_snoc_drop [of pre c buf] by (auto simp: cuts_def)
    have "running limit tar pre ((c # f) @ 35 # rest) = running limit tar (pre @ [c]) (f @ 35 # rest)"
      using c False by (simp add: strchr_in_def Let_def)
    moreover have "takeWhile (\<lambda>c. c \<noteq> 0) (drop (length pre) buf) # map (parm_str buf) new = split_at 44 (c # f)"
      unfolding tk(2) split_at_Cons [OF False] using c(1) cuts_parts [OF ih] by simp
    ultimately show ?thesis using ih tk(1) unfolding cuts_def by auto
  next
    case True
    let ?p = "if strchr_in [35] (next_char (f @ 35 # rest)) \<or> next_char (f @ 35 # rest) = 44 then Blank else At (length pre + 1)"
    obtain buf new where ih: "cuts limit (tar @ [?p]) (pre @ [0]) f rest buf new"
      using Cons.IH [of "tar @ [?p]" "pre @ [0]"] Cons.prems True by auto
    have tk: "take (length pre) buf = pre" "drop (length pre) buf = 0 # drop (length (pre @ [0])) buf"
      using ih take_snoc_drop [of pre 0 buf] by (auto simp: cuts_def)
    have hd: "takeWhile (\<lambda>c. c \<noteq> 0) (drop (length (pre @ [0])) buf) = hd (split_at 44 f)" "map (parm_str buf) new = tl (split_at 44 f)"
      using cuts_parts [OF ih] by simp_all
    have p: "parm_str buf ?p = hd (split_at 44 f)"
    proof (cases "strchr_in [35] (next_char (f @ 35 # rest)) \<or> next_char (f @ 35 # rest) = 44")
      case True
      then have "f = [] \<or> (\<exists>g. f = 44 # g)" using Cons.prems(1,2) by (cases f) (auto simp: next_char_def strchr_in_def plain_char_def)
      then have "hd (split_at 44 f) = []" by auto
      with True show ?thesis by (simp add: parm_str_def)
    qed (use hd(1) in \<open>simp add: parm_str_def\<close>)
    have lim: "\<not> limit \<le> length tar" using Cons.prems(4) True by (cases "split_at 44 f") auto
    have "running limit tar pre ((c # f) @ 35 # rest) = running limit (tar @ [?p]) (pre @ [0]) (f @ 35 # rest)"
      using True lim by (simp add: strchr_in_def Let_def)
    moreover have "takeWhile (\<lambda>c. c \<noteq> 0) (drop (length pre) buf) # map (parm_str buf) (?p # new) = split_at 44 (c # f)"
      unfolding tk(2) using True p hd(2) by simp
    moreover have "length pre \<le> length buf" using ih by (simp add: cuts_def)
    ultimately have "cuts limit tar pre (c # f) rest buf (?p # new)" using ih tk(1) unfolding cuts_def by simp
    then show ?thesis by blast
  qed
qed

lemma running_many:
  assumes "list_all plain_char f" "35 \<notin> set f" "length tar \<le> limit" "Suc limit < length tar + length (split_at 44 f)"
  shows "fst (running limit tar pre (f @ 35 # rest)) = -3"
  using assms
proof (induction f arbitrary: tar pre)
  case (Cons c f)
  have c: "c \<noteq> 0" "c \<noteq> 34" "c \<noteq> 35" using Cons.prems by (auto simp: plain_char_def)
  show ?case
  proof (cases "c = 44")
    case False
    then show ?thesis using Cons.IH [of tar "pre @ [c]"] Cons.prems c by (simp add: length_split_at_Cons strchr_in_def Let_def)
  next
    case True
    then show ?thesis using Cons.IH Cons.prems c by (cases "length tar = limit") (simp_all add: strchr_in_def Let_def)
  qed
qed simp

lemma analyse_start_at:
  "c \<noteq> 34 \<Longrightarrow> 0 < limit \<Longrightarrow> analyse_loop limit 0 e sp False q [] pre (c # cs) = analyse_loop limit 0 e sp True q [At (length pre)] pre (c # cs)"
  by (simp add: Let_def)

lemma analyse_start: "c \<noteq> 34 \<Longrightarrow> 0 < limit \<Longrightarrow> analyse_loop limit 0 e sp False False [] [] (c # cs) = analyse_loop limit 0 e sp True False [At 0] [] (c # cs)"
  using analyse_start_at [of c limit e sp False "[]"] by simp

text \<open>The fields before the first hash.\<close>

definition cmd_fields :: "bytes \<Rightarrow> bytes list" where
  "cmd_fields s = split_at 44 (takeWhile (\<lambda>c. c \<noteq> 35) s)"

lemma cmd_analyse_plain:
  assumes p: "list_all plain_char s" and h: "35 \<in> set s"
  shows "length (cmd_fields s) \<le> PARM_MAX \<Longrightarrow>
      cmd_analyse s = (int (length (cmd_fields s)), cmd_fields s @ replicate (PARM_MAX - length (cmd_fields s)) [])"
    "PARM_MAX < length (cmd_fields s) \<Longrightarrow> fst (cmd_analyse s) = -3"
proof -
  let ?f = "takeWhile (\<lambda>c. c \<noteq> 35) s"
  obtain rest where rest: "s = ?f @ 35 # rest"
    using split_list_first [OF h] by (metis (mono_tags, lifting) append_Nil2 takeWhile.simps(2) takeWhile_append2)
  have f: "list_all plain_char ?f" "35 \<notin> set ?f" using p by (auto simp: list_all_iff dest: set_takeWhileD)
  have start: "analyse_loop PARM_MAX 0 [35] 44 False False [] [] s = running PARM_MAX [At 0] [] s"
    using p h by (cases s) (simp_all add: analyse_start plain_char_def del: analyse_loop.simps)
  show "cmd_analyse s = (int (length (cmd_fields s)), cmd_fields s @ replicate (PARM_MAX - length (cmd_fields s)) [])"
    if len: "length (cmd_fields s) \<le> PARM_MAX"
  proof -
    obtain buf new where c: "cuts PARM_MAX [At 0] [] ?f rest buf new"
      using running_fields [OF f, of "[At 0]" PARM_MAX "[]" rest] len by (auto simp: cmd_fields_def)
    note parts = cuts_parts [OF c]
    have fs: "parm_str buf (At 0) # map (parm_str buf) new = cmd_fields s"
      using parts by (simp add: parm_str_def cmd_fields_def)
    have "running PARM_MAX [At 0] [] s = (int (1 + length new), buf, At 0 # new @ replicate (PARM_MAX - (1 + length new)) Blank)"
      using c rest by (simp add: cuts_def)
    moreover have "length (cmd_fields s) = 1 + length new" using arg_cong [OF fs, of length] by simp
    ultimately show ?thesis unfolding cmd_analyse_def at_cmd_str_analyse_def using start fs
      by (simp add: parm_str_def flip: fs)
  qed
  show "fst (cmd_analyse s) = -3" if "PARM_MAX < length (cmd_fields s)"
  proof -
    have "fst (running PARM_MAX [At 0] [] (?f @ 35 # rest)) = -3"
      using running_many [OF f, of "[At 0]" PARM_MAX "[]" rest] that by (simp add: cmd_fields_def)
    then show ?thesis unfolding cmd_analyse_def at_cmd_str_analyse_def using start
      by (simp only: option.case flip: rest) (auto split: prod.splits)
  qed
qed

lemma cmd_analyse_no_end: "list_all plain_char s \<Longrightarrow> 35 \<notin> set s \<Longrightarrow> fst (cmd_analyse s) < 0"
proof (cases s)
  case (Cons c cs)
  assume p: "list_all plain_char s" "35 \<notin> set s"
  then have "c \<noteq> 34" using Cons by (simp add: plain_char_def)
  then have "analyse_loop PARM_MAX 0 [35] 44 False False [] [] s = running PARM_MAX [At 0] [] s"
    unfolding Cons by (rule analyse_start) simp
  then show ?thesis using running_none [OF p, of PARM_MAX "[At 0]" "[]"]
    by (auto simp: cmd_analyse_def at_cmd_str_analyse_def split: prod.splits)
qed (simp add: cmd_analyse_def at_cmd_str_analyse_def)

text \<open>
  C30: the command parser equals splitting: on every text without quotation marks the
  parameters are exactly the fields between the commas before the first hash, empty fields
  included, padded to twenty with empty strings; a text without a hash and one with more than
  twenty fields are refused.
\<close>

theorem command_line_split:
  assumes "list_all plain_char s"
  shows "if 35 \<in> set s \<and> length (cmd_fields s) \<le> PARM_MAX
    then cmd_analyse s = (int (length (cmd_fields s)), cmd_fields s @ replicate (PARM_MAX - length (cmd_fields s)) [])
    else fst (cmd_analyse s) < 0"
proof (cases "35 \<in> set s")
  case True
  then show ?thesis using cmd_analyse_plain [OF assms True] by (cases "length (cmd_fields s) \<le> PARM_MAX") simp_all
next
  case False
  then show ?thesis using cmd_analyse_no_end [OF assms] by simp
qed

theorem command_line_split_witness:
  "cmd_analyse (ascii ''REMALM,ON,,2#x'') = (4, [ascii ''REMALM'', ascii ''ON'', [], ascii ''2''] @ replicate 16 [])"
proof -
  let ?s = "ascii ''REMALM,ON,,2#x''"
  have "list_all plain_char ?s" "35 \<in> set ?s" by (simp_all add: ascii_def plain_char_def)
  moreover have "cmd_fields ?s = [ascii ''REMALM'', ascii ''ON'', [], ascii ''2'']"
    by (simp add: cmd_fields_def ascii_def split_at.simps)
  ultimately show ?thesis using command_line_split [of ?s] by simp
qed

text \<open>A quotation mark starts its parameter anew and protects commas and hashes.\<close>

lemma quoted_parameter: "cmd_analyse (ascii ''APN,x\"a,b#c\"#'') = (2, [ascii ''APN'', ascii ''a,b#c''] @ replicate 18 [])"
  by (simp add: cmd_analyse_def at_cmd_str_analyse_def ascii_def strchr_in_def next_char_def parm_str_def Let_def)

section \<open>The parameters are no longer than the text\<close>

text \<open>A parameter that ends within the characters already passed keeps its text.\<close>

definition settled :: "bytes \<Rightarrow> parm_ptr \<Rightarrow> bool" where
  "settled pre p \<longleftrightarrow> (case p of Blank \<Rightarrow> True | At i \<Rightarrow> i \<le> length pre \<and> 0 \<in> set (drop i pre))"

definition parms_length :: "bytes \<Rightarrow> parm_ptr list \<Rightarrow> nat" where
  "parms_length buf tar = sum_list (map (\<lambda>p. length (parm_str buf p)) tar)"

lemma settled_append: "settled pre p \<Longrightarrow> settled (pre @ x) p \<and> parm_str (pre @ x) p = parm_str pre p"
  by (auto simp: settled_def parm_str_def takeWhile_append1 split: parm_ptr.splits)

lemma parms_length_append: "list_all (settled pre) tar \<Longrightarrow> list_all (settled (pre @ x)) tar \<and> parms_length (pre @ x) tar = parms_length pre tar"
  by (induction tar) (auto simp: parms_length_def settled_append)

lemma parms_length_snoc [simp]: "parms_length buf (tar @ [p]) = parms_length buf tar + length (parm_str buf p)"
  by (simp add: parms_length_def)

text \<open>The open parameter starts behind the last separator, at \<open>start\<close> or later.\<close>

definition open_ok :: "bytes \<Rightarrow> nat \<Rightarrow> parm_ptr list \<Rightarrow> parm_ptr \<Rightarrow> bool" where
  "open_ok pre start old p \<longleftrightarrow> list_all (settled pre) old \<and> parms_length pre old + length old \<le> start \<and> start \<le> length pre \<and>
     (case p of Blank \<Rightarrow> True | At i \<Rightarrow> start \<le> i \<and> i \<le> length pre)"

lemma open_ok_step: "open_ok pre start old p \<Longrightarrow> open_ok (pre @ [c]) start old p"
  unfolding open_ok_def using parms_length_append [of pre old "[c]"] by (auto split: parm_ptr.splits)

lemma open_closed:
  assumes "open_ok pre start old p"
  shows "settled (pre @ 0 # x) p" "length (parm_str (pre @ 0 # x) p) \<le> length pre - start"
    "parms_length (pre @ 0 # x) (old @ [p]) + length (old @ [p]) \<le> length pre + 1"
proof -
  have cl: "settled (pre @ 0 # x) p \<and> length (parm_str (pre @ 0 # x) p) \<le> length pre - start"
  proof (cases p)
    case (At i)
    then have i: "start \<le> i" "i \<le> length pre" using assms by (simp_all add: open_ok_def)
    have "length (takeWhile (\<lambda>c. c \<noteq> 0) (ys @ 0 # x)) \<le> length ys" for ys :: bytes
      by (induction ys) simp_all
    from this [of "drop i pre"] have "length (takeWhile (\<lambda>c. c \<noteq> 0) (drop i pre @ 0 # x)) \<le> length (drop i pre)" .
    then show ?thesis using At i by (simp add: settled_def parm_str_def)
  qed (simp add: settled_def parm_str_def)
  then show "settled (pre @ 0 # x) p" "length (parm_str (pre @ 0 # x) p) \<le> length pre - start" by auto
  then show "parms_length (pre @ 0 # x) (old @ [p]) + length (old @ [p]) \<le> length pre + 1"
    using assms parms_length_append [of pre old "0 # x"] by (auto simp: open_ok_def)
qed

lemma open_split:
  assumes "open_ok pre start old p" "q = Blank \<or> q = At (length pre + 1)"
  shows "open_ok (pre @ [0]) (length pre + 1) (old @ [p]) q"
proof -
  have "list_all (settled (pre @ [0])) old" using assms(1) parms_length_append [of pre old "[0]"] by (simp add: open_ok_def)
  then show ?thesis using open_closed [OF assms(1), of "[]"] assms(2) by (auto simp: open_ok_def)
qed

lemma running_length:
  assumes "open_ok pre start old p" "analyse_loop limit 0 [35] 44 True q (old @ [p]) pre cs = (n, buf, tar)" "0 < n"
  shows "parms_length buf (take (nat n) tar) + nat n \<le> length pre + length cs"
  using assms
proof (induction cs arbitrary: pre start old p q)
  case (Cons c cs)
  show ?case
  proof (cases "c = 34")
    case True
    define p' where "p' = (if q then p else At (length pre + 1))"
    have "open_ok (pre @ [if q then 0 else c]) start old p'"
      using open_ok_step [OF Cons.prems(1), of "if q then 0 else c"] by (auto simp: p'_def open_ok_def)
    moreover have "analyse_loop limit 0 [35] 44 True (\<not> q) (old @ [p']) (pre @ [if q then 0 else c]) cs = (n, buf, tar)"
      using Cons.prems(2) True by (auto simp: p'_def split: if_splits)
    ultimately show ?thesis using Cons.IH [of "pre @ [if q then 0 else c]" start old p' "\<not> q"] Cons.prems(3) by simp
  next
    case nq: False
    show ?thesis
    proof (cases "\<not> q \<and> strchr_in [35] c")
      case True
      then have r: "n = int (length old + 1)" "buf = pre @ 0 # cs" "tar = (old @ [p]) @ replicate (limit - Suc (length old)) Blank"
        using Cons.prems(2) nq by (auto simp: Let_def)
      have "nat n = length (old @ [p])" unfolding r by simp
      then show ?thesis using open_closed(3) [OF Cons.prems(1), of cs] unfolding r(2,3) by simp
    next
      case ne: False
      show ?thesis
      proof (cases "\<not> q \<and> c = 44")
        case True
        define p' where "p' = (if strchr_in [35] (next_char cs) \<or> next_char cs = 44 then Blank else At (length pre + 1))"
        have lim: "\<not> limit \<le> length (old @ [p])" using Cons.prems(2,3) nq ne True by (auto simp: Let_def split: if_splits)
        have "analyse_loop limit 0 [35] 44 True q ((old @ [p]) @ [p']) (pre @ [0]) cs = (n, buf, tar)"
          using Cons.prems(2) nq ne True lim by (simp add: Let_def p'_def)
        moreover have "open_ok (pre @ [0]) (length pre + 1) (old @ [p]) p'"
          by (rule open_split [OF Cons.prems(1)]) (simp add: p'_def)
        ultimately show ?thesis using Cons.IH [of "pre @ [0]" "length pre + 1" "old @ [p]" p' q] Cons.prems(3) by simp
      next
        case False
        then have "analyse_loop limit 0 [35] 44 True q (old @ [p]) (pre @ [c]) cs = (n, buf, tar)"
          using Cons.prems(2) nq ne by (cases q) (simp_all add: Let_def)
        then show ?thesis using Cons.IH [OF open_ok_step [OF Cons.prems(1)]] Cons.prems(3) by simp
      qed
    qed
  qed
qed simp

lemma analyse_length:
  assumes "analyse_loop limit 0 [35] 44 False q [] pre cs = (n, buf, tar)" "0 < n" "0 < limit"
  shows "parms_length buf (take (nat n) tar) + nat n \<le> length pre + length cs"
  using assms
proof (induction cs arbitrary: pre q)
  case (Cons c cs)
  show ?case
  proof (cases "c = 34")
    case True
    then show ?thesis using Cons.IH [of "\<not> q" "pre @ [if q then 0 else 34]"] Cons.prems by simp
  next
    case False
    then have "analyse_loop limit 0 [35] 44 True q ([] @ [At (length pre)]) pre (c # cs) = (n, buf, tar)"
      using Cons.prems analyse_start_at [of c limit "[35]" 44 q pre cs] by simp
    then show ?thesis using running_length [of pre "length pre" "[]" "At (length pre)"] Cons.prems(2)
      by (fastforce simp: open_ok_def parms_length_def)
  qed
qed simp

lemma analyse_count:
  "analyse_loop limit sc ec sp st q tar0 pre cs = (n, buf, tar) \<Longrightarrow> 0 < n \<Longrightarrow> length tar0 \<le> limit \<Longrightarrow>
     length tar = limit \<and> nat n \<le> limit"
  by (induction limit sc ec sp st q tar0 pre cs rule: analyse_loop.induct) (auto simp: Let_def split: if_splits)

lemma cmd_analyse_length:
  assumes "cmd_analyse s = (n, ps)" "0 < n"
  shows "sum_list (map length (take (nat n) ps)) + nat n \<le> length s" "length ps = PARM_MAX" "nat n \<le> PARM_MAX"
proof -
  obtain buf tar where a: "analyse_loop PARM_MAX 0 [35] 44 False False [] [] s = (n, buf, tar)" "ps = map (parm_str buf) tar"
    using assms(1) by (auto simp: cmd_analyse_def at_cmd_str_analyse_def split: prod.splits)
  show "sum_list (map length (take (nat n) ps)) + nat n \<le> length s"
    using analyse_length [OF a(1) assms(2)] a(2) by (simp add: parms_length_def take_map o_def)
  show "length ps = PARM_MAX" "nat n \<le> PARM_MAX" using analyse_count [OF a(1) assms(2)] a(2) by simp_all
qed

end
