(* ===== verification/Param.thy ===== *)
theory Param
  imports Tool_Text Flash_Store Ctrl
begin

text \<open>
  The parameter storage, \<open>my_zms_param.c\<close>: the configuration \<open>gConfigParam\<close> in
  memory, its defaults, loading it from the key-value storage at start, the setters that
  write one group back, and the reset to factory values.

  Each group of the configuration is a C structure that is read and written as a whole, so
  the model keeps its object image: the bytes of the structure, fields at their aligned
  offsets, integers little-endian, gaps zero as in the constant defaults. The storage itself
  (\<open>zms_mount\<close>, \<open>zms_write\<close>, \<open>zms_read\<close>, \<open>zms_clear\<close>) and the flash area
  are parameters of the model; what their documentation promises is the predicate
  \<open>zms_contract\<close>. A call of \<open>start_adv\<close> is recorded.
\<close>

abbreviation (input) FLAG_VALID :: u8 where "FLAG_VALID \<equiv> 0xAA"
abbreviation (input) LICENSE_FF_STR_LEN :: u8 where "LICENSE_FF_STR_LEN \<equiv> 58"
abbreviation (input) LICENSE_GG_STR_LEN :: u8 where "LICENSE_GG_STR_LEN \<equiv> 48"
abbreviation (input) GSM_SN_LENGTH :: u8 where "GSM_SN_LENGTH \<equiv> 12"
abbreviation (input) BLE_LOG_MOD_MAX :: u8 where "BLE_LOG_MOD_MAX \<equiv> 15"

text \<open>The identifiers \<open>my_zms_id_t\<close>.\<close>

abbreviation (input) ZMS_ID_FF :: u32 where "ZMS_ID_FF \<equiv> 0"
abbreviation (input) ZMS_ID_GG :: u32 where "ZMS_ID_GG \<equiv> 1"
abbreviation (input) ZMS_ID_ADV_VALID :: u32 where "ZMS_ID_ADV_VALID \<equiv> 2"
abbreviation (input) ZMS_ID_ECDH_G :: u32 where "ZMS_ID_ECDH_G \<equiv> 3"
abbreviation (input) ZMS_ID_SN :: u32 where "ZMS_ID_SN \<equiv> 4"
abbreviation (input) ZMS_ID_MAC :: u32 where "ZMS_ID_MAC \<equiv> 5"
abbreviation (input) ZMS_ID_BLE_TX_POWER :: u32 where "ZMS_ID_BLE_TX_POWER \<equiv> 6"
abbreviation (input) ZMS_ID_BLE_LOG_CONFIG :: u32 where "ZMS_ID_BLE_LOG_CONFIG \<equiv> 7"
abbreviation (input) ZMS_ID_WORK_MODE_CONFIG :: u32 where "ZMS_ID_WORK_MODE_CONFIG \<equiv> 8"
abbreviation (input) ZMS_ID_REM_ALM_CONFIG :: u32 where "ZMS_ID_REM_ALM_CONFIG \<equiv> 9"
abbreviation (input) ZMS_ID_PULL_ALM_CONFIG :: u32 where "ZMS_ID_PULL_ALM_CONFIG \<equiv> 10"
abbreviation (input) ZMS_ID_PATMALM_CONFIG :: u32 where "ZMS_ID_PATMALM_CONFIG \<equiv> 11"
abbreviation (input) ZMS_ID_TEMPALM_CONFIG :: u32 where "ZMS_ID_TEMPALM_CONFIG \<equiv> 12"
abbreviation (input) ZMS_ID_MOT_DET_CONFIG :: u32 where "ZMS_ID_MOT_DET_CONFIG \<equiv> 13"
abbreviation (input) ZMS_ID_MOTDETALM_CONFIG :: u32 where "ZMS_ID_MOTDETALM_CONFIG \<equiv> 14"
abbreviation (input) ZMS_ID_BAT_LEVEL_CONFIG :: u32 where "ZMS_ID_BAT_LEVEL_CONFIG \<equiv> 15"
abbreviation (input) ZMS_ID_STARTR_CONFIG :: u32 where "ZMS_ID_STARTR_CONFIG \<equiv> 16"
abbreviation (input) ZMS_ID_PWRLIMIT_CONFIG :: u32 where "ZMS_ID_PWRLIMIT_CONFIG \<equiv> 17"
abbreviation (input) ZMS_ID_BT_UPDATA_CONFIG :: u32 where "ZMS_ID_BT_UPDATA_CONFIG \<equiv> 18"
abbreviation (input) ZMS_ID_BLUETOOTH_CONFIG :: u32 where "ZMS_ID_BLUETOOTH_CONFIG \<equiv> 19"
abbreviation (input) ZMS_ID_BTCONNECT_CONFIG :: u32 where "ZMS_ID_BTCONNECT_CONFIG \<equiv> 20"
abbreviation (input) ZMS_ID_TAG_CONFIG :: u32 where "ZMS_ID_TAG_CONFIG \<equiv> 21"
abbreviation (input) ZMS_ID_LED_CONFIG :: u32 where "ZMS_ID_LED_CONFIG \<equiv> 22"
abbreviation (input) ZMS_ID_LTINT_CONFIG :: u32 where "ZMS_ID_LTINT_CONFIG \<equiv> 23"
abbreviation (input) ZMS_ID_BUZZER_CONFIG :: u32 where "ZMS_ID_BUZZER_CONFIG \<equiv> 24"
abbreviation (input) ZMS_ID_BT_PARMAC_CONFIG :: u32 where "ZMS_ID_BT_PARMAC_CONFIG \<equiv> 25"
abbreviation (input) ZMS_ID_LPSLEEP_CONFIG :: u32 where "ZMS_ID_LPSLEEP_CONFIG \<equiv> 26"
abbreviation (input) ZMS_ID_PATM_TIMER_CONFIG :: u32 where "ZMS_ID_PATM_TIMER_CONFIG \<equiv> 29"
abbreviation (input) ZMS_ID_TEMP_TIMER_CONFIG :: u32 where "ZMS_ID_TEMP_TIMER_CONFIG \<equiv> 30"
abbreviation (input) ZMS_ID_IMU_ALM_CONFIG :: u32 where "ZMS_ID_IMU_ALM_CONFIG \<equiv> 31"
abbreviation (input) ZMS_ID_IMU_ZERO_BIAS_CONFIG :: u32 where "ZMS_ID_IMU_ZERO_BIAS_CONFIG \<equiv> 32"
abbreviation (input) ZMS_ID_SHUTDOWN_CONFIG :: u32 where "ZMS_ID_SHUTDOWN_CONFIG \<equiv> 35"

section \<open>State\<close>

datatype my_adv = APPLE_ADV_TYPE | GOOGLE_ADV_TYPE

type_synonym config = "u32 \<Rightarrow> bytes"

record 'd param_env =
  kv :: "'d store_env"
  settings_open :: "'d \<Rightarrow> int"
  settings_ready :: "'d \<Rightarrow> bool"
  settings_size :: nat
  zms_mount :: "nat \<Rightarrow> nat \<Rightarrow> 'd \<Rightarrow> int \<times> 'd"
  zms_clear :: "'d \<Rightarrow> int \<times> 'd"

record 'd params =
  inited :: bool
  gConfigParam :: config
  adv_valid :: "my_adv \<Rightarrow> bool"
  adv_calls :: "(my_adv \<times> bool) list"
  pdev :: 'd

section \<open>Defaults\<close>

definition gDefaultAdvValidValue :: bytes where "gDefaultAdvValidValue = [FLAG_VALID, 1, 0]"

definition gDefaultEcdhGValue :: bytes where "gDefaultEcdhGValue = [FLAG_VALID, 0] @ le16 0x83A5"

definition gDefaultSnValue :: bytes where "gDefaultSnValue = 0 # replicate 12 48"

definition gDefaultMacAddr :: bytes where "gDefaultMacAddr = [0, 0x66, 0x55, 0x44, 0x33, 0x22, 0x11]"

definition gDefaultBleTxPower :: bytes where "gDefaultBleTxPower = [FLAG_VALID, 0]"

text \<open>Bits 0, 3, 4, 5, 7, 9, 10, 11 and 13 are on; the levels are \<open>LOG_LEVEL_INF\<close> (3) and \<open>LOG_LEVEL_NONE\<close> (0).\<close>

definition gDefaultBleLogConfig :: bytes where
  "gDefaultBleLogConfig = [FLAG_VALID, 0, 0, 0] @ le32 0x2EB9 @ [3, 0, 0, 3, 3, 3, 3, 3, 0, 3, 3, 3, 0, 3, 0] @ [0]"

definition gDefaultWorkModeConfig :: bytes where
  "gDefaultWorkModeConfig =
     [FLAG_VALID, 0, 0, 0] @ le32 2 @ le32 30 @ le32 100 @ le32 240 @ [48, 48, 48, 49, 0] @ [1, 0, 0] @
     [5, 0, 0, 0] @ concat (map le32 [300, 300, 300, 300, 300, 10]) @ concat (map le32 [300, 300, 10, 300, 10, 10])"

definition gDefaultRemAlmConfig :: bytes where "gDefaultRemAlmConfig = [FLAG_VALID, 0, 1]"

definition gDefaultPullAlmConfig :: bytes where "gDefaultPullAlmConfig = [FLAG_VALID, 0, 1]"

definition gDefaultPatAlmConfig :: bytes where "gDefaultPatAlmConfig = [FLAG_VALID, 0, 255, 255, 1, 0]"

definition gDefaultTempAlmConfig :: bytes where
  "gDefaultTempAlmConfig = [FLAG_VALID, 0, 0, 0] @ le32 255 @ le32 255 @ [255, 255, 1, 0]"

definition gDefaultMotDetConfig :: bytes where "gDefaultMotDetConfig = [FLAG_VALID, 0] @ le16 5 @ le16 10"

definition gDefaultMotDetAlmConfig :: bytes where "gDefaultMotDetAlmConfig = [FLAG_VALID, 1, 1]"

definition gDefaultBatlevelConfig :: bytes where "gDefaultBatlevelConfig = [FLAG_VALID, 1, 1, 1, 1, 1, 1, 1]"

definition gDefaultStartrConfig :: bytes where "gDefaultStartrConfig = [FLAG_VALID, 0]"

definition gDefaultPWRlimitConfig :: bytes where "gDefaultPWRlimitConfig = [FLAG_VALID, 0]"

definition gDefaultlprunningConfig :: bytes where "gDefaultlprunningConfig = [FLAG_VALID, 0, 20, 24]"

definition gDefaultBtUpdataConfig :: bytes where
  "gDefaultBtUpdataConfig = [FLAG_VALID, 0, 0, 0] @ le32 600 @ le32 10 @ le32 14400"

definition gDefaultBluetoothConfig :: bytes where "gDefaultBluetoothConfig = [FLAG_VALID, 0, 5, 2, 0]"

definition gDefaultBtconnectConfig :: bytes where "gDefaultBtconnectConfig = [FLAG_VALID, 1] @ le16 1800 @ [1, 0]"

definition gDefaultTagConfig :: bytes where "gDefaultTagConfig = [FLAG_VALID, 0] @ le16 2000"

definition gDefaultLedConfig :: bytes where "gDefaultLedConfig = [FLAG_VALID, 1]"

definition gDefaultLtintConfig :: bytes where "gDefaultLtintConfig = [FLAG_VALID, 0] @ le16 1000 @ le16 1000"

definition gDefaultBuzzerConfig :: bytes where "gDefaultBuzzerConfig = [FLAG_VALID, 0]"

text \<open>Twenty addresses of seven bytes (a type and six bytes of address), then their number.\<close>

definition gDefaultBparmacConfig :: bytes where "gDefaultBparmacConfig = FLAG_VALID # replicate 140 0 @ [0]"

definition gDefaultPatmTimerConfig :: bytes where "gDefaultPatmTimerConfig = [FLAG_VALID, 0] @ le16 20 @ [0, 0]"

definition gDefaultTempTimerConfig :: bytes where "gDefaultTempTimerConfig = [FLAG_VALID, 0] @ le16 20 @ [0, 0]"

definition gDefaultImuAlmConfig :: bytes where "gDefaultImuAlmConfig = [FLAG_VALID, 1, 1, 30, 25, 255, 3, 3, 10]"

definition gDefaultImuZeroBiasConfig :: bytes where "gDefaultImuZeroBiasConfig = FLAG_VALID # replicate 15 0"

definition gDefaultShutdownConfig :: bytes where "gDefaultShutdownConfig = [FLAG_VALID, 0]"

text \<open>What each group is set to when the storage has no valid image of it; the licences are cleared.\<close>

definition param_defaults :: "(u32 \<times> bytes) list" where
  "param_defaults =
     [(ZMS_ID_FF, replicate 30 0), (ZMS_ID_GG, replicate 25 0), (ZMS_ID_ADV_VALID, gDefaultAdvValidValue),
      (ZMS_ID_ECDH_G, gDefaultEcdhGValue), (ZMS_ID_SN, gDefaultSnValue), (ZMS_ID_MAC, gDefaultMacAddr),
      (ZMS_ID_BLE_TX_POWER, gDefaultBleTxPower), (ZMS_ID_BLE_LOG_CONFIG, gDefaultBleLogConfig),
      (ZMS_ID_WORK_MODE_CONFIG, gDefaultWorkModeConfig), (ZMS_ID_REM_ALM_CONFIG, gDefaultRemAlmConfig),
      (ZMS_ID_PULL_ALM_CONFIG, gDefaultPullAlmConfig), (ZMS_ID_PATMALM_CONFIG, gDefaultPatAlmConfig),
      (ZMS_ID_TEMPALM_CONFIG, gDefaultTempAlmConfig), (ZMS_ID_MOT_DET_CONFIG, gDefaultMotDetConfig),
      (ZMS_ID_MOTDETALM_CONFIG, gDefaultMotDetAlmConfig), (ZMS_ID_BAT_LEVEL_CONFIG, gDefaultBatlevelConfig),
      (ZMS_ID_STARTR_CONFIG, gDefaultStartrConfig), (ZMS_ID_PWRLIMIT_CONFIG, gDefaultPWRlimitConfig),
      (ZMS_ID_LPSLEEP_CONFIG, gDefaultlprunningConfig), (ZMS_ID_BT_UPDATA_CONFIG, gDefaultBtUpdataConfig),
      (ZMS_ID_BLUETOOTH_CONFIG, gDefaultBluetoothConfig), (ZMS_ID_BTCONNECT_CONFIG, gDefaultBtconnectConfig),
      (ZMS_ID_TAG_CONFIG, gDefaultTagConfig), (ZMS_ID_LED_CONFIG, gDefaultLedConfig),
      (ZMS_ID_LTINT_CONFIG, gDefaultLtintConfig), (ZMS_ID_BUZZER_CONFIG, gDefaultBuzzerConfig),
      (ZMS_ID_BT_PARMAC_CONFIG, gDefaultBparmacConfig), (ZMS_ID_PATM_TIMER_CONFIG, gDefaultPatmTimerConfig),
      (ZMS_ID_TEMP_TIMER_CONFIG, gDefaultTempTimerConfig), (ZMS_ID_IMU_ALM_CONFIG, gDefaultImuAlmConfig),
      (ZMS_ID_IMU_ZERO_BIAS_CONFIG, gDefaultImuZeroBiasConfig), (ZMS_ID_SHUTDOWN_CONFIG, gDefaultShutdownConfig)]"

definition default_of :: "u32 \<Rightarrow> bytes" where
  "default_of k = (case map_of param_defaults k of Some b \<Rightarrow> b | None \<Rightarrow> [])"

definition param_size :: "u32 \<Rightarrow> nat" where
  "param_size k = length (default_of k)"

text \<open>The state at power on: the static configuration is zero, the storage keeps its contents.\<close>

definition param_boot :: "'d \<Rightarrow> 'd params" where
  "param_boot d = \<lparr>inited = False, gConfigParam = (\<lambda>k. replicate (param_size k) 0),
     adv_valid = (\<lambda>_. True), adv_calls = [], pdev = d\<rparr>"

section \<open>Operations\<close>

definition my_user_data_storage_init :: "'d param_env \<Rightarrow> 'd params \<Rightarrow> int \<times> 'd params" where
  "my_user_data_storage_init env s =
     (if inited s then (0, s)
      else if settings_open env (pdev s) \<noteq> 0 then (settings_open env (pdev s), s)
      else if \<not> settings_ready env (pdev s) then (-ENODEV, s)
      else (case zms_mount env 4096 (settings_size env div 4096) (pdev s) of (err, d) \<Rightarrow>
              if err \<noteq> 0 then (err, s\<lparr>pdev := d\<rparr>) else (0, s\<lparr>pdev := d, inited := True\<rparr>)))"

text \<open>A store into the structure of a group, and writing the group to the storage.\<close>

definition cfg_put :: "u32 \<Rightarrow> nat \<Rightarrow> bytes \<Rightarrow> 'd params \<Rightarrow> 'd params" where
  "cfg_put k off bs s = s\<lparr>gConfigParam := (gConfigParam s)(k := mem_put (gConfigParam s k) off bs)\<rparr>"

definition cfg_save :: "'d param_env \<Rightarrow> u32 \<Rightarrow> 'd params \<Rightarrow> int \<times> 'd params" where
  "cfg_save env k s =
     (case my_user_data_write (kv env) (pdev s) k (gConfigParam s k) of (ret, d) \<Rightarrow> (ret, s\<lparr>pdev := d\<rparr>))"

definition set_adv_valid_status :: "my_adv \<Rightarrow> u8 \<Rightarrow> 'd params \<Rightarrow> 'd params" where
  "set_adv_valid_status index status s =
     (let s1 = (if status = 0 then s\<lparr>adv_calls := adv_calls s @ [(index, False)]\<rparr> else s)
      in s1\<lparr>adv_valid := (adv_valid s1)(index := status \<noteq> 0)\<rparr>)"

text \<open>One group: read it over the old contents; a wrong flag or length gives the default.\<close>

definition load_group :: "'d param_env \<Rightarrow> 'd \<Rightarrow> bytes \<Rightarrow> u32 \<Rightarrow> bytes \<Rightarrow> bytes" where
  "load_group env d old k def =
     (case my_user_data_read (kv env) d k (length def) of (ret, b) \<Rightarrow>
        let buf = mem_put old 0 b
        in if buf ! 0 \<noteq> FLAG_VALID \<or> ret \<noteq> int (length def) then def else buf)"

definition my_param_load_config :: "'d param_env \<Rightarrow> 'd params \<Rightarrow> 'd params" where
  "my_param_load_config env s =
     (case my_user_data_storage_init env s of (ret, s0) \<Rightarrow>
        if ret \<noteq> 0 then s0
        else
          let s1 = fold (\<lambda>(k, def) x. x\<lparr>gConfigParam := (gConfigParam x)(k := load_group env (pdev x) (gConfigParam x k) k def)\<rparr>)
                     (take 3 param_defaults) s0;
              s2 = set_adv_valid_status GOOGLE_ADV_TYPE (gConfigParam s1 ZMS_ID_ADV_VALID ! 2)
                     (set_adv_valid_status APPLE_ADV_TYPE (gConfigParam s1 ZMS_ID_ADV_VALID ! 1) s1)
          in fold (\<lambda>(k, def) x. x\<lparr>gConfigParam := (gConfigParam x)(k := load_group env (pdev x) (gConfigParam x k) k def)\<rparr>)
               (drop 3 param_defaults) s2)"

definition my_param_factory_reset :: "'d param_env \<Rightarrow> 'd params \<Rightarrow> int \<times> 'd params" where
  "my_param_factory_reset env s =
     (case my_user_data_storage_init env s of (ret, s0) \<Rightarrow>
        if ret \<noteq> 0 then (ret, s0)
        else (case zms_clear env (pdev s0) of (r, d) \<Rightarrow> (if r < 0 then r else 0, s0\<lparr>pdev := d\<rparr>)))"

definition my_param_check_license :: "bytes option \<Rightarrow> u8 \<Rightarrow> u32 \<Rightarrow> bool" where
  "my_param_check_license param len k =
     (if k = ZMS_ID_FF then len = LICENSE_FF_STR_LEN \<and> string_check_is_hex_str param = LICENSE_FF_STR_LEN
      else if k = ZMS_ID_GG then len = LICENSE_GG_STR_LEN \<and> string_check_is_hex_str param = LICENSE_GG_STR_LEN
      else if k = ZMS_ID_SN then len = GSM_SN_LENGTH \<and> string_check_is_hex_str param = GSM_SN_LENGTH
      else False)"

definition my_param_set_ff :: "'d param_env \<Rightarrow> bytes option \<Rightarrow> u8 \<Rightarrow> 'd params \<Rightarrow> bool \<times> 'd params" where
  "my_param_set_ff env param len s =
     (if \<not> my_param_check_license param len ZMS_ID_FF then (False, s)
      else (case cfg_save env ZMS_ID_FF (cfg_put ZMS_ID_FF 1 (snd (hexstr_to_hex 29 param)) (cfg_put ZMS_ID_FF 0 [FLAG_VALID] s)) of
              (ret, s') \<Rightarrow> (ret = 30, s')))"

definition my_param_set_gg :: "'d param_env \<Rightarrow> bytes option \<Rightarrow> u8 \<Rightarrow> 'd params \<Rightarrow> bool \<times> 'd params" where
  "my_param_set_gg env param len s =
     (if \<not> my_param_check_license param len ZMS_ID_GG then (False, s)
      else (case cfg_save env ZMS_ID_GG (cfg_put ZMS_ID_GG 1 (snd (hexstr_to_hex 24 param)) (cfg_put ZMS_ID_GG 0 [FLAG_VALID] s)) of
              (ret, s') \<Rightarrow> (ret = 25, s')))"

definition CMD_MATCHED :: "bytes \<Rightarrow> bytes \<Rightarrow> bool" where
  "CMD_MATCHED data header \<longleftrightarrow> take (length header) data = header"

text \<open>Switch one advertisement and store the switches; it may go off only while the other one is on.\<close>

definition adv_switch :: "'d param_env \<Rightarrow> my_adv \<Rightarrow> u8 \<Rightarrow> 'd params \<Rightarrow> int \<times> 'd params" where
  "adv_switch env index v s =
     (case cfg_save env ZMS_ID_ADV_VALID
             (cfg_put ZMS_ID_ADV_VALID (if index = APPLE_ADV_TYPE then 1 else 2) [v] (set_adv_valid_status index v s)) of
        (ret, s') \<Rightarrow> (if ret \<noteq> 3 then -1 else 0, s'))"

definition my_param_set_jatag_or_jgtag :: "'d param_env \<Rightarrow> bytes option \<Rightarrow> bytes option \<Rightarrow> 'd params \<Rightarrow> int \<times> 'd params" where
  "my_param_set_jatag_or_jgtag env cmd param s =
     (case (cmd, param) of
        (Some c, Some p) \<Rightarrow>
          if CMD_MATCHED c (ascii ''JATAG'') then
            if CMD_MATCHED p (ascii ''ON'') then adv_switch env APPLE_ADV_TYPE 1 s
            else if CMD_MATCHED p (ascii ''OFF'')
            then if gConfigParam s ZMS_ID_ADV_VALID ! 2 = 1 then adv_switch env APPLE_ADV_TYPE 0 s else (-1, s)
            else (-1, s)
          else if CMD_MATCHED c (ascii ''JGTAG'') then
            if CMD_MATCHED p (ascii ''ON'') then adv_switch env GOOGLE_ADV_TYPE 1 s
            else if CMD_MATCHED p (ascii ''OFF'')
            then if gConfigParam s ZMS_ID_ADV_VALID ! 1 = 1 then adv_switch env GOOGLE_ADV_TYPE 0 s else (-1, s)
            else (-1, s)
          else (0, s)
      | _ \<Rightarrow> (-1, s))"

text \<open>\<open>None\<close> is a number \<open>atoi\<close> has no defined result for.\<close>

definition my_param_set_Gvalue :: "'d param_env \<Rightarrow> bytes \<Rightarrow> 'd params \<Rightarrow> (int \<times> 'd params) option" where
  "my_param_set_Gvalue env param s =
     (if string_check_is_number 0 param = 0 then Some (-1, s)
      else do {
        n \<leftarrow> s32 (atoi param);
        let Gvalue = (of_int n :: u16);
        if Gvalue < 10000 \<or> Gvalue > 60000 then Some (-1, s)
        else (case cfg_save env ZMS_ID_ECDH_G (cfg_put ZMS_ID_ECDH_G 2 (le16 Gvalue) (cfg_put ZMS_ID_ECDH_G 0 [FLAG_VALID] s)) of
                (ret, s') \<Rightarrow> Some (if ret \<noteq> 4 then -1 else 0, s')) })"

definition my_param_get_Gvalue :: "'d params \<Rightarrow> u16" where
  "my_param_get_Gvalue s = of_le16 (gConfigParam s ZMS_ID_ECDH_G ! 2) (gConfigParam s ZMS_ID_ECDH_G ! 3)"

definition my_param_set_sn :: "'d param_env \<Rightarrow> bytes option \<Rightarrow> u8 \<Rightarrow> 'd params \<Rightarrow> int \<times> 'd params" where
  "my_param_set_sn env param len s =
     (if \<not> my_param_check_license param len ZMS_ID_SN then (-1, s)
      else (case cfg_save env ZMS_ID_SN (cfg_put ZMS_ID_SN 1 (take (unat len) (the param)) (cfg_put ZMS_ID_SN 0 [FLAG_VALID] s)) of
              (ret, s') \<Rightarrow> (if ret \<noteq> 13 then -2 else 0, s')))"

text \<open>The parsed bytes fill a zeroed array of six, which is stored in reverse.\<close>

definition my_param_set_mac :: "'d param_env \<Rightarrow> bytes option \<Rightarrow> u8 \<Rightarrow> 'd params \<Rightarrow> int \<times> 'd params" where
  "my_param_set_mac env param len s =
     (case macstr_to_hex param of (ok, out) \<Rightarrow>
        if \<not> ok then (-1, s)
        else
          let my_macaddr = mem_put (replicate 6 0) 0 out;
              my_macaddr_reorder = the (snd (char_array_reverse (Some my_macaddr) (Some (replicate 6 0))))
          in (case cfg_save env ZMS_ID_MAC (cfg_put ZMS_ID_MAC 1 my_macaddr_reorder (cfg_put ZMS_ID_MAC 0 [FLAG_VALID] s)) of
                (ret, s') \<Rightarrow> (if ret \<noteq> 7 then -1 else 0, s')))"

definition my_param_get_ble_tx_power :: "'d params \<Rightarrow> u8" where
  "my_param_get_ble_tx_power s = gConfigParam s ZMS_ID_BLE_TX_POWER ! 1"

definition my_param_set_ble_log_config :: "'d param_env \<Rightarrow> bytes option \<Rightarrow> 'd params \<Rightarrow> int \<times> 'd params" where
  "my_param_set_ble_log_config env config s =
     (case config of
        None \<Rightarrow> (-EINVAL, s)
      | Some c \<Rightarrow>
          (case cfg_save env ZMS_ID_BLE_LOG_CONFIG (cfg_put ZMS_ID_BLE_LOG_CONFIG 0 [FLAG_VALID] (cfg_put ZMS_ID_BLE_LOG_CONFIG 0 c s)) of
             (ret, s') \<Rightarrow> (if ret \<noteq> 24 then -1 else 0, s')))"

text \<open>The following three write through the pointer to the configuration itself, then store it.\<close>

definition my_param_set_ble_log_global :: "'d param_env \<Rightarrow> u8 \<Rightarrow> 'd params \<Rightarrow> int \<times> 'd params" where
  "my_param_set_ble_log_global env en s =
     (let s1 = cfg_put ZMS_ID_BLE_LOG_CONFIG 1 [if en \<noteq> 0 then 1 else 0] s
      in my_param_set_ble_log_config env (Some (gConfigParam s1 ZMS_ID_BLE_LOG_CONFIG)) s1)"

definition ble_log_mod_en :: "'d params \<Rightarrow> u32" where
  "ble_log_mod_en s = (let b = gConfigParam s ZMS_ID_BLE_LOG_CONFIG in of_le32 (b ! 4) (b ! 5) (b ! 6) (b ! 7))"

definition my_param_set_ble_log_mod :: "'d param_env \<Rightarrow> u8 \<Rightarrow> u8 \<Rightarrow> 'd params \<Rightarrow> int \<times> 'd params" where
  "my_param_set_ble_log_mod env mod_id en s =
     (if mod_id \<ge> BLE_LOG_MOD_MAX \<or> mod_id \<ge> 32 then (-EINVAL, s)
      else
        let m = push_bit (unat mod_id) (1 :: u32);
            s1 = cfg_put ZMS_ID_BLE_LOG_CONFIG 4 (le32 (if en \<noteq> 0 then ble_log_mod_en s OR m else ble_log_mod_en s AND NOT m)) s
        in my_param_set_ble_log_config env (Some (gConfigParam s1 ZMS_ID_BLE_LOG_CONFIG)) s1)"

definition my_param_set_ble_log_level :: "'d param_env \<Rightarrow> u8 \<Rightarrow> u8 \<Rightarrow> 'd params \<Rightarrow> int \<times> 'd params" where
  "my_param_set_ble_log_level env mod_id level s =
     (if mod_id \<ge> BLE_LOG_MOD_MAX then (-EINVAL, s)
      else
        let s1 = cfg_put ZMS_ID_BLE_LOG_CONFIG (8 + unat mod_id) [level] s
        in my_param_set_ble_log_config env (Some (gConfigParam s1 ZMS_ID_BLE_LOG_CONFIG)) s1)"

section \<open>What the storage promises\<close>

text \<open>
  \<open>K\<close> is what the storage holds, \<open>R\<close> whether it is mounted. A write of new data returns the
  number of bytes written, a write of data that is already stored writes nothing and returns
  zero, a failed write leaves the old value. A read returns the stored bytes, at most as many
  as asked for. Clearing removes every value, and the storage has to be mounted again.
\<close>

definition zms_contract :: "'d param_env \<Rightarrow> ('d \<Rightarrow> u32 \<Rightarrow> bytes option) \<Rightarrow> ('d \<Rightarrow> bool) \<Rightarrow> bool" where
  "zms_contract env K R \<longleftrightarrow>
     (\<forall>d k b r d'. b \<noteq> [] \<longrightarrow> zms_write (kv env) d k b = (r, d') \<longrightarrow>
        R d' = R d \<and>
        (if K d k = Some b then r \<le> 0 \<and> K d' = K d
         else if r < 0 then K d' = K d else r = int (length b) \<and> K d' = (K d)(k \<mapsto> b))) \<and>
     (\<forall>d k n. R d \<longrightarrow> zms_read (kv env) d k n =
        (case K d k of None \<Rightarrow> (-2, []) | Some b \<Rightarrow> (int (min n (length b)), take n b))) \<and>
     (\<forall>d a c r d'. zms_mount env a c d = (r, d') \<longrightarrow> K d' = K d \<and> (r = 0 \<longrightarrow> R d')) \<and>
     (\<forall>d r d'. zms_clear env d = (r, d') \<longrightarrow> 0 \<le> r \<longrightarrow> K d' = Map.empty \<and> \<not> R d')"

lemma zms_writeD:
  "zms_contract env K R \<Longrightarrow> b \<noteq> [] \<Longrightarrow> zms_write (kv env) d k b = (r, d') \<Longrightarrow>
     R d' = R d \<and> (if K d k = Some b then r \<le> 0 \<and> K d' = K d
       else if r < 0 then K d' = K d else r = int (length b) \<and> K d' = (K d)(k \<mapsto> b))"
  unfolding zms_contract_def by blast

lemma zms_readD:
  "zms_contract env K R \<Longrightarrow> R d \<Longrightarrow> zms_read (kv env) d k n =
     (case K d k of None \<Rightarrow> (-2, []) | Some b \<Rightarrow> (int (min n (length b)), take n b))"
  unfolding zms_contract_def by blast

lemma zms_mountD: "zms_contract env K R \<Longrightarrow> zms_mount env a c d = (r, d') \<Longrightarrow> K d' = K d \<and> (r = 0 \<longrightarrow> R d')"
  unfolding zms_contract_def by blast

lemma zms_clearD: "zms_contract env K R \<Longrightarrow> zms_clear env d = (r, d') \<Longrightarrow> 0 \<le> r \<Longrightarrow> K d' = Map.empty \<and> \<not> R d'"
  unfolding zms_contract_def by blast

section \<open>Shape of the configuration\<close>

text \<open>Every group has the size of its structure.\<close>

definition param_wf :: "'d params \<Rightarrow> bool" where
  "param_wf s \<longleftrightarrow> (\<forall>k. length (gConfigParam s k) = param_size k)"

lemmas default_defs = gDefaultAdvValidValue_def gDefaultEcdhGValue_def gDefaultSnValue_def gDefaultMacAddr_def
  gDefaultBleTxPower_def gDefaultBleLogConfig_def gDefaultWorkModeConfig_def gDefaultRemAlmConfig_def
  gDefaultPullAlmConfig_def gDefaultPatAlmConfig_def gDefaultTempAlmConfig_def gDefaultMotDetConfig_def
  gDefaultMotDetAlmConfig_def gDefaultBatlevelConfig_def gDefaultStartrConfig_def gDefaultPWRlimitConfig_def
  gDefaultlprunningConfig_def gDefaultBtUpdataConfig_def gDefaultBluetoothConfig_def gDefaultBtconnectConfig_def
  gDefaultTagConfig_def gDefaultLedConfig_def gDefaultLtintConfig_def gDefaultBuzzerConfig_def
  gDefaultBparmacConfig_def gDefaultPatmTimerConfig_def gDefaultTempTimerConfig_def gDefaultImuAlmConfig_def
  gDefaultImuZeroBiasConfig_def gDefaultShutdownConfig_def

lemmas default_of_simps = default_of_def param_defaults_def

lemma param_wfD: "param_wf s \<Longrightarrow> length (gConfigParam s k) = param_size k"
  by (simp add: param_wf_def)

lemma distinct_param_defaults: "distinct (map fst param_defaults)"
  by (simp add: param_defaults_def)

lemma default_of_entry: "(k, def) \<in> set param_defaults \<Longrightarrow> default_of k = def"
  using distinct_param_defaults by (simp add: default_of_def)

lemma mem_put_Nil_iff [simp]: "mem_put b off bs = [] \<longleftrightarrow> b = []"
  by (metis length_0_conv length_mem_put)

lemma cfg_put_simps [simp]:
  "pdev (cfg_put k off bs s) = pdev s" "inited (cfg_put k off bs s) = inited s"
  "adv_valid (cfg_put k off bs s) = adv_valid s" "adv_calls (cfg_put k off bs s) = adv_calls s"
  "gConfigParam (cfg_put k off bs s) k = mem_put (gConfigParam s k) off bs"
  "k' \<noteq> k \<Longrightarrow> gConfigParam (cfg_put k off bs s) k' = gConfigParam s k'"
  by (simp_all add: cfg_put_def)

lemma cfg_put_wf [intro]: "param_wf s \<Longrightarrow> param_wf (cfg_put k off bs s)"
  by (auto simp: param_wf_def cfg_put_def)

lemma cfg_save_frame: "cfg_save env k s = (r, s') \<Longrightarrow>
    gConfigParam s' = gConfigParam s \<and> inited s' = inited s \<and> adv_valid s' = adv_valid s \<and> adv_calls s' = adv_calls s"
  by (auto simp: cfg_save_def split: prod.splits)

lemma set_adv_valid_frame [simp]:
  "gConfigParam (set_adv_valid_status i v s) = gConfigParam s" "pdev (set_adv_valid_status i v s) = pdev s"
  "inited (set_adv_valid_status i v s) = inited s"
  "adv_valid (set_adv_valid_status i v s) = (adv_valid s)(i := v \<noteq> 0)"
  by (simp_all add: set_adv_valid_status_def Let_def)

lemma length_load_group: "length old = length def \<Longrightarrow> length (load_group env d old k def) = length def"
  by (simp add: load_group_def Let_def split: prod.splits)

text \<open>Saving a group: the storage holds the image in memory exactly when the call is not a failure.\<close>

lemma cfg_save_store:
  assumes "zms_contract env K R" "cfg_save env k s = (r, s')" "gConfigParam s k \<noteq> []"
  shows "R (pdev s') = R (pdev s)"
    "K (pdev s) k = Some (gConfigParam s k) \<Longrightarrow> r \<le> 0 \<and> K (pdev s') = K (pdev s)"
    "r < 0 \<Longrightarrow> K (pdev s') = K (pdev s)"
    "K (pdev s) k \<noteq> Some (gConfigParam s k) \<Longrightarrow> 0 \<le> r \<Longrightarrow> r = int (length (gConfigParam s k)) \<and> K (pdev s') = (K (pdev s))(k \<mapsto> gConfigParam s k)"
proof -
  obtain d where w: "zms_write (kv env) (pdev s) k (gConfigParam s k) = (r, d)" "s' = s\<lparr>pdev := d\<rparr>"
    using assms by (auto simp: cfg_save_def my_user_data_write_def split: prod.splits)
  note z = zms_writeD [OF assms(1,3) w(1)]
  show "R (pdev s') = R (pdev s)"
    "K (pdev s) k = Some (gConfigParam s k) \<Longrightarrow> r \<le> 0 \<and> K (pdev s') = K (pdev s)"
    "r < 0 \<Longrightarrow> K (pdev s') = K (pdev s)"
    "K (pdev s) k \<noteq> Some (gConfigParam s k) \<Longrightarrow> 0 \<le> r \<Longrightarrow> r = int (length (gConfigParam s k)) \<and> K (pdev s') = (K (pdev s))(k \<mapsto> gConfigParam s k)"
    using z w(2) by (auto split: if_splits)
qed

section \<open>Loading\<close>

definition load_step :: "'d param_env \<Rightarrow> u32 \<times> bytes \<Rightarrow> 'd params \<Rightarrow> 'd params" where
  "load_step env e x = x\<lparr>gConfigParam := (gConfigParam x)(fst e := load_group env (pdev x) (gConfigParam x (fst e)) (fst e) (snd e))\<rparr>"

lemma load_step_eq:
  "(\<lambda>(k, def) x. x\<lparr>gConfigParam := (gConfigParam x)(k := load_group env (pdev x) (gConfigParam x k) k def)\<rparr>) = load_step env"
  by (auto simp: load_step_def fun_eq_iff)

lemma fold_load_frame:
  "pdev (fold (load_step env) xs s) = pdev s \<and> inited (fold (load_step env) xs s) = inited s \<and>
   adv_valid (fold (load_step env) xs s) = adv_valid s \<and> adv_calls (fold (load_step env) xs s) = adv_calls s"
  by (induction xs arbitrary: s) (simp_all add: load_step_def)

lemma fold_load_config:
  "distinct (map fst xs) \<Longrightarrow>
   gConfigParam (fold (load_step env) xs s) k =
     (case map_of xs k of Some def \<Rightarrow> load_group env (pdev s) (gConfigParam s k) k def | None \<Rightarrow> gConfigParam s k)"
proof (induction xs arbitrary: s)
  case (Cons e xs)
  then have "map_of xs (fst e) = None" by (simp add: map_of_eq_None_iff)
  with Cons.IH [of "load_step env e s"] Cons.prems show ?case
    by (cases e) (auto simp: load_step_def split: option.splits)
qed simp

lemma fold_load_cong:
  "gConfigParam s = gConfigParam t \<Longrightarrow> pdev s = pdev t \<Longrightarrow>
   gConfigParam (fold (load_step env) xs s) = gConfigParam (fold (load_step env) xs t)"
proof (induction xs arbitrary: s t)
  case (Cons e xs)
  show ?case unfolding fold_simps comp_apply by (rule Cons.IH) (simp_all add: load_step_def Cons.prems)
qed simp

text \<open>What a start finds: the stored image if it is long enough and valid, the default otherwise.\<close>

definition stored_or_default :: "(u32 \<Rightarrow> bytes option) \<Rightarrow> u32 \<Rightarrow> bytes" where
  "stored_or_default m k =
     (case m k of
        Some b \<Rightarrow> if param_size k \<le> length b \<and> take 1 b = [FLAG_VALID] then take (param_size k) b else default_of k
      | None \<Rightarrow> default_of k)"

lemma load_group_stored:
  assumes c: "zms_contract env K R" "R d" and k: "(k, def) \<in> set param_defaults" and l: "length old = param_size k"
  shows "load_group env d old k def = stored_or_default (K d) k"
proof -
  have n: "default_of k = def" "param_size k = length def" by (simp_all add: default_of_entry [OF k] param_size_def)
  have pos: "0 < length def" using k by (auto simp: param_defaults_def default_defs)
  note rd = zms_readD [OF c, of k "length def"]
  show ?thesis
  proof (cases "K d k")
    case None
    with rd pos n show ?thesis by (auto simp: load_group_def my_user_data_read_def stored_or_default_def Let_def)
  next
    case (Some b)
    have *: "(if mem_put old 0 (take (length def) b) ! 0 \<noteq> FLAG_VALID \<or> min (length def) (length b) \<noteq> length def then def
       else mem_put old 0 (take (length def) b)) =
      (if length def \<le> length b \<and> take 1 b = [FLAG_VALID] then take (length def) b else def)"
    proof (cases "length def \<le> length b")
      case True
      then have "mem_put old 0 (take (length def) b) = take (length def) b" using l n by (simp add: mem_put_def)
      moreover have "take 1 b = [b ! 0]" using True pos by (cases b) auto
      ultimately show ?thesis using True pos by auto
    qed (simp add: min_def)
    with rd pos n Some show ?thesis
      by (simp add: load_group_def my_user_data_read_def stored_or_default_def Let_def of_nat_eq_iff del: of_nat_min)
  qed
qed

lemma load_entry:
  assumes c: "zms_contract env K R" "R (pdev s)" and wf: "param_wf s"
  shows "(case map_of param_defaults k of Some def \<Rightarrow> load_group env (pdev s) (gConfigParam s k) k def | None \<Rightarrow> gConfigParam s k)
    = stored_or_default (K (pdev s)) k"
proof (cases "map_of param_defaults k")
  case None
  then have "param_size k = 0" "default_of k = []" by (simp_all add: param_size_def default_of_def)
  then show ?thesis using None param_wfD [OF wf, of k] by (simp add: stored_or_default_def split: option.splits)
next
  case (Some def)
  then show ?thesis using load_group_stored [OF c map_of_SomeD [OF Some]] param_wfD [OF wf] by simp
qed

definition load_groups :: "'d param_env \<Rightarrow> 'd params \<Rightarrow> 'd params" where
  "load_groups env s0 =
     (let s1 = fold (load_step env) (take 3 param_defaults) s0;
          s2 = set_adv_valid_status GOOGLE_ADV_TYPE (gConfigParam s1 ZMS_ID_ADV_VALID ! 2)
                 (set_adv_valid_status APPLE_ADV_TYPE (gConfigParam s1 ZMS_ID_ADV_VALID ! 1) s1)
      in fold (load_step env) (drop 3 param_defaults) s2)"

lemma my_param_load_eq:
  "my_param_load_config env s = (case my_user_data_storage_init env s of (ret, s0) \<Rightarrow> if ret \<noteq> 0 then s0 else load_groups env s0)"
  unfolding my_param_load_config_def load_step_eq load_groups_def by (rule refl)

lemma load_groups_config:
  assumes c: "zms_contract env K R" "R (pdev s)" and wf: "param_wf s"
  shows "gConfigParam (load_groups env s) = stored_or_default (K (pdev s))"
    "adv_valid (load_groups env s) APPLE_ADV_TYPE = (stored_or_default (K (pdev s)) ZMS_ID_ADV_VALID ! 1 \<noteq> 0)"
    "adv_valid (load_groups env s) GOOGLE_ADV_TYPE = (stored_or_default (K (pdev s)) ZMS_ID_ADV_VALID ! 2 \<noteq> 0)"
    "pdev (load_groups env s) = pdev s" "inited (load_groups env s) = inited s"
proof -
  let ?s1 = "fold (load_step env) (take 3 param_defaults) s"
  let ?s2 = "set_adv_valid_status GOOGLE_ADV_TYPE (gConfigParam ?s1 ZMS_ID_ADV_VALID ! 2)
    (set_adv_valid_status APPLE_ADV_TYPE (gConfigParam ?s1 ZMS_ID_ADV_VALID ! 1) ?s1)"
  have "gConfigParam (fold (load_step env) (drop 3 param_defaults) ?s2) = gConfigParam (fold (load_step env) (drop 3 param_defaults) ?s1)"
    by (rule fold_load_cong) simp_all
  also have "\<dots> = gConfigParam (fold (load_step env) (take 3 param_defaults @ drop 3 param_defaults) s)"
    unfolding fold_append by simp
  finally have all: "gConfigParam (load_groups env s) = gConfigParam (fold (load_step env) param_defaults s)"
    by (simp only: append_take_drop_id load_groups_def Let_def)
  show cfg: "gConfigParam (load_groups env s) = stored_or_default (K (pdev s))"
  proof
    fix k
    show "gConfigParam (load_groups env s) k = stored_or_default (K (pdev s)) k"
      unfolding all fold_load_config [OF distinct_param_defaults] by (rule load_entry [OF c wf])
  qed
  have "map_of (take 3 param_defaults) ZMS_ID_ADV_VALID = map_of param_defaults ZMS_ID_ADV_VALID"
    by (simp add: param_defaults_def)
  moreover have "distinct (map fst (take 3 param_defaults))" using distinct_param_defaults by (simp add: take_map [symmetric])
  ultimately have adv: "gConfigParam ?s1 ZMS_ID_ADV_VALID = stored_or_default (K (pdev s)) ZMS_ID_ADV_VALID"
    using load_entry [OF c wf, of ZMS_ID_ADV_VALID] by (simp add: fold_load_config)
  show "adv_valid (load_groups env s) APPLE_ADV_TYPE = (stored_or_default (K (pdev s)) ZMS_ID_ADV_VALID ! 1 \<noteq> 0)"
    "adv_valid (load_groups env s) GOOGLE_ADV_TYPE = (stored_or_default (K (pdev s)) ZMS_ID_ADV_VALID ! 2 \<noteq> 0)"
    "pdev (load_groups env s) = pdev s" "inited (load_groups env s) = inited s"
    by (simp_all add: load_groups_def Let_def fold_load_frame adv)
qed

section \<open>Setters\<close>

definition has_flag :: "bytes \<Rightarrow> bool" where
  "has_flag b \<longleftrightarrow> take 1 b = [FLAG_VALID]"

text \<open>The group \<open>k\<close> gets a new valid image, which is written; the rest stays.\<close>

definition saves :: "'d param_env \<Rightarrow> u32 \<Rightarrow> 'd params \<Rightarrow> int \<Rightarrow> 'd params \<Rightarrow> bool" where
  "saves env k s r s' \<longleftrightarrow>
     (\<exists>s1. param_wf s1 \<and> has_flag (gConfigParam s1 k) \<and> (\<forall>k'. k' \<noteq> k \<longrightarrow> gConfigParam s1 k' = gConfigParam s k') \<and>
        pdev s1 = pdev s \<and> inited s1 = inited s \<and> cfg_save env k s1 = (r, s'))"

lemma has_flag_ne: "has_flag b \<Longrightarrow> b \<noteq> []"
  by (auto simp: has_flag_def)

lemma has_flag_put [simp]: "b \<noteq> [] \<Longrightarrow> has_flag (mem_put b 0 [FLAG_VALID])"
  by (cases b) (simp_all add: has_flag_def mem_put_def)

lemma has_flag_put_other [simp]: "0 < off \<Longrightarrow> has_flag (mem_put b off bs) = has_flag b"
  using mem_put_take_other [of 1 off b bs] by (simp add: has_flag_def)

text \<open>
  What the setters have in common: a call is refused without an effect, or it changes the
  structure of its own group, marks it valid and writes it; it reports success when the
  write returned the size of the structure. \<open>pre\<close> is what a setter relies on.
\<close>

locale param_setter =
  fixes env :: "'d param_env" and k :: u32 and pre :: "'d params \<Rightarrow> bool" and opn :: "'d params \<Rightarrow> bool \<times> 'd params"
  assumes refuse_or_save:
    "param_wf s \<Longrightarrow> pre s \<Longrightarrow> opn s = (ok, s') \<Longrightarrow>
       (\<not> ok \<and> s' = s) \<or>
       (\<exists>r. saves env k s r s' \<and> ok = (r = int (param_size k)))"
begin

lemma keeps_shape:
  assumes "param_wf s" "pre s" "opn s = (ok, s')"
  shows "param_wf s'" "inited s' = inited s" "\<And>k'. k' \<noteq> k \<Longrightarrow> gConfigParam s' k' = gConfigParam s k'"
  using refuse_or_save [OF assms] cfg_save_frame [of env k] assms(1) by (auto simp: param_wf_def saves_def)

lemma ok_stored:
  assumes c: "zms_contract env K R" and p: "param_wf s" "pre s" "opn s = (True, s')"
  shows "K (pdev s') = (K (pdev s))(k \<mapsto> gConfigParam s' k)" "R (pdev s') = R (pdev s)"
    "stored_or_default (K (pdev s')) k = gConfigParam s' k" "K (pdev s) k \<noteq> Some (gConfigParam s' k)"
proof -
  obtain s1 where s1: "param_wf s1" "has_flag (gConfigParam s1 k)" "pdev s1 = pdev s"
      "cfg_save env k s1 = (int (param_size k), s')"
    using refuse_or_save [OF p] by (auto simp: saves_def)
  have g: "gConfigParam s' = gConfigParam s1" using cfg_save_frame [OF s1(4)] by simp
  have ne: "gConfigParam s1 k \<noteq> []" using s1(2) by (rule has_flag_ne)
  have l: "length (gConfigParam s1 k) = param_size k" using param_wfD [OF s1(1)] .
  note sv = cfg_save_store [OF c s1(4) ne]
  have new: "K (pdev s1) k \<noteq> Some (gConfigParam s1 k)" using sv(2) ne l by auto
  then show K: "K (pdev s') = (K (pdev s))(k \<mapsto> gConfigParam s' k)" "K (pdev s) k \<noteq> Some (gConfigParam s' k)"
    using sv(4) s1(3) g by simp_all
  show "R (pdev s') = R (pdev s)" using sv(1) s1(3) by simp
  show "stored_or_default (K (pdev s')) k = gConfigParam s' k"
    unfolding stored_or_default_def K(1) using s1(2) l g by (simp add: has_flag_def)
qed

lemma failed_keeps_store:
  assumes c: "zms_contract env K R" and p: "param_wf s" "pre s" "opn s = (False, s')"
  shows "K (pdev s') = K (pdev s)" "R (pdev s') = R (pdev s)"
proof -
  have "K (pdev s') = K (pdev s) \<and> R (pdev s') = R (pdev s)"
    using refuse_or_save [OF p] unfolding saves_def
  proof (elim disjE conjE exE)
    fix s1 r
    assume s1: "param_wf s1" "has_flag (gConfigParam s1 k)" "pdev s1 = pdev s"
      "cfg_save env k s1 = (r, s')" "False = (r = int (param_size k))"
    have ne: "gConfigParam s1 k \<noteq> []" using s1(2) by (rule has_flag_ne)
    note sv = cfg_save_store [OF c s1(4) ne]
    show ?thesis using sv s1(3,5) param_wfD [OF s1(1)] by (cases "K (pdev s1) k = Some (gConfigParam s1 k)"; cases "r < 0") auto
  qed simp
  then show "K (pdev s') = K (pdev s)" "R (pdev s') = R (pdev s)" by auto
qed

end

lemma param_size_simps [simp]:
  "param_size ZMS_ID_FF = 30" "param_size ZMS_ID_GG = 25" "param_size ZMS_ID_ADV_VALID = 3" "param_size ZMS_ID_ECDH_G = 4"
  "param_size ZMS_ID_SN = 13" "param_size ZMS_ID_MAC = 7" "param_size ZMS_ID_BLE_TX_POWER = 2"
  "param_size ZMS_ID_BLE_LOG_CONFIG = 24" "param_size ZMS_ID_WORK_MODE_CONFIG = 80"
  "param_size ZMS_ID_REM_ALM_CONFIG = 3" "param_size ZMS_ID_PULL_ALM_CONFIG = 3" "param_size ZMS_ID_PATMALM_CONFIG = 6"
  "param_size ZMS_ID_TEMPALM_CONFIG = 16" "param_size ZMS_ID_MOT_DET_CONFIG = 6" "param_size ZMS_ID_MOTDETALM_CONFIG = 3"
  "param_size ZMS_ID_BAT_LEVEL_CONFIG = 8" "param_size ZMS_ID_STARTR_CONFIG = 2" "param_size ZMS_ID_PWRLIMIT_CONFIG = 2"
  "param_size ZMS_ID_BT_UPDATA_CONFIG = 16" "param_size ZMS_ID_BLUETOOTH_CONFIG = 5" "param_size ZMS_ID_BTCONNECT_CONFIG = 6"
  "param_size ZMS_ID_TAG_CONFIG = 4" "param_size ZMS_ID_LED_CONFIG = 2" "param_size ZMS_ID_LTINT_CONFIG = 6"
  "param_size ZMS_ID_BUZZER_CONFIG = 2" "param_size ZMS_ID_BT_PARMAC_CONFIG = 142" "param_size ZMS_ID_LPSLEEP_CONFIG = 4"
  "param_size ZMS_ID_PATM_TIMER_CONFIG = 6" "param_size ZMS_ID_TEMP_TIMER_CONFIG = 6" "param_size ZMS_ID_IMU_ALM_CONFIG = 9"
  "param_size ZMS_ID_IMU_ZERO_BIAS_CONFIG = 16" "param_size ZMS_ID_SHUTDOWN_CONFIG = 2"
  by (simp_all add: param_size_def default_of_simps default_defs)

text \<open>A setter that stores bytes behind the flag, sets the flag and writes the group.\<close>

lemma setter_saves:
  assumes "cfg_save env k (cfg_put k off bs (cfg_put k 0 [FLAG_VALID] s)) = (r, s')" "param_wf s" "0 < param_size k" "0 < off"
  shows "saves env k s r s'"
proof -
  have "gConfigParam s k \<noteq> []" using param_wfD [OF assms(2), of k] assms(3) by auto
  then show ?thesis unfolding saves_def
    using assms by (intro exI [of _ "cfg_put k off bs (cfg_put k 0 [FLAG_VALID] s)"]) auto
qed

definition ret_ok :: "int \<times> 'd params \<Rightarrow> bool \<times> 'd params" where
  "ret_ok x = (fst x = 0, snd x)"

interpretation ff: param_setter env ZMS_ID_FF "\<lambda>_. True" "my_param_set_ff env p l" for env p l
  by unfold_locales (auto simp: my_param_set_ff_def split: prod.splits if_splits dest!: setter_saves)

interpretation gg: param_setter env ZMS_ID_GG "\<lambda>_. True" "my_param_set_gg env p l" for env p l
  by unfold_locales (auto simp: my_param_set_gg_def split: prod.splits if_splits dest!: setter_saves)

interpretation sno: param_setter env ZMS_ID_SN "\<lambda>_. True" "\<lambda>s. ret_ok (my_param_set_sn env p l s)" for env p l
  by unfold_locales (auto simp: my_param_set_sn_def ret_ok_def split: prod.splits if_splits dest!: setter_saves)

interpretation macp: param_setter env ZMS_ID_MAC "\<lambda>_. True" "\<lambda>s. ret_ok (my_param_set_mac env p l s)" for env p l
  by unfold_locales (auto simp: my_param_set_mac_def ret_ok_def Let_def split: prod.splits if_splits dest!: setter_saves)

lemma saves_put: "saves env k (cfg_put k off bs s) r s' \<Longrightarrow> saves env k s r s'"
  unfolding saves_def by auto

lemma log_config_saves:
  assumes "my_param_set_ble_log_config env (Some c) s = (x, s')" "param_wf s"
  shows "\<exists>r. saves env ZMS_ID_BLE_LOG_CONFIG s r s' \<and> (x = 0) = (r = 24)"
proof -
  let ?s1 = "cfg_put ZMS_ID_BLE_LOG_CONFIG 0 [FLAG_VALID] (cfg_put ZMS_ID_BLE_LOG_CONFIG 0 c s)"
  obtain r where r: "cfg_save env ZMS_ID_BLE_LOG_CONFIG ?s1 = (r, s')" "(x = 0) = (r = 24)"
    using assms(1) by (auto simp: my_param_set_ble_log_config_def split: prod.splits if_splits)
  have "length (gConfigParam s ZMS_ID_BLE_LOG_CONFIG) = 24" using param_wfD [OF assms(2)] by simp
  then have "mem_put (gConfigParam s ZMS_ID_BLE_LOG_CONFIG) 0 c \<noteq> []" by (metis length_mem_put list.size(3) zero_neq_numeral)
  then have "saves env ZMS_ID_BLE_LOG_CONFIG s r s'"
    unfolding saves_def using r(1) assms(2) by (intro exI [of _ ?s1]) auto
  with r(2) show ?thesis by blast
qed

lemma log_put_saves:
  assumes "ret_ok (my_param_set_ble_log_config env (Some c) (cfg_put ZMS_ID_BLE_LOG_CONFIG off bs s)) = (ok, s')" "param_wf s"
  shows "\<exists>r. saves env ZMS_ID_BLE_LOG_CONFIG s r s' \<and> ok = (r = 24)"
proof -
  obtain x where x: "my_param_set_ble_log_config env (Some c) (cfg_put ZMS_ID_BLE_LOG_CONFIG off bs s) = (x, s')" "ok = (x = 0)"
    using assms(1) by (cases "my_param_set_ble_log_config env (Some c) (cfg_put ZMS_ID_BLE_LOG_CONFIG off bs s)") (simp add: ret_ok_def)
  with log_config_saves [OF x(1) cfg_put_wf [OF assms(2)]] show ?thesis by (auto dest: saves_put)
qed

lemma Gvalue_cases:
  obtains (refused) "my_param_set_Gvalue env p s \<in> {None, Some (-1, s)}"
  | (saved) w r s' where "10000 \<le> w" "w \<le> 60000" "w = of_int (atoi p)"
      "cfg_save env ZMS_ID_ECDH_G (cfg_put ZMS_ID_ECDH_G 2 (le16 w) (cfg_put ZMS_ID_ECDH_G 0 [FLAG_VALID] s)) = (r, s')"
      "my_param_set_Gvalue env p s = Some (if r \<noteq> 4 then -1 else 0, s')"
proof (cases "string_check_is_number 0 p = 0 \<or> s32 (atoi p) = None \<or> (of_int (atoi p) :: u16) < 10000 \<or> (of_int (atoi p) :: u16) > 60000")
  case True
  then have "my_param_set_Gvalue env p s \<in> {None, Some (-1, s)}"
    by (auto simp: my_param_set_Gvalue_def s32_def Let_def)
  then show thesis by (rule refused)
next
  case False
  let ?w = "of_int (atoi p) :: u16"
  obtain r s' where "cfg_save env ZMS_ID_ECDH_G (cfg_put ZMS_ID_ECDH_G 2 (le16 ?w) (cfg_put ZMS_ID_ECDH_G 0 [FLAG_VALID] s)) = (r, s')"
    by fastforce
  moreover have "s32 (atoi p) = Some (atoi p)" using False by (auto simp: s32_def split: if_splits)
  ultimately show thesis using False by (intro saved [of ?w r s']) (auto simp: my_param_set_Gvalue_def Let_def)
qed

interpretation gval: param_setter env ZMS_ID_ECDH_G "\<lambda>_. True"
    "\<lambda>s. case my_param_set_Gvalue env p s of Some x \<Rightarrow> ret_ok x | None \<Rightarrow> (False, s)" for env p
proof unfold_locales
  fix s s' ok
  assume wf: "param_wf s" and run: "(case my_param_set_Gvalue env p s of Some x \<Rightarrow> ret_ok x | None \<Rightarrow> (False, s)) = (ok, s')"
  show "\<not> ok \<and> s' = s \<or> (\<exists>r. saves env ZMS_ID_ECDH_G s r s' \<and> ok = (r = int (param_size ZMS_ID_ECDH_G)))"
    using run by (cases rule: Gvalue_cases [of env p s]) (auto simp: ret_ok_def wf split: if_splits dest!: setter_saves)
qed

interpretation logg: param_setter env ZMS_ID_BLE_LOG_CONFIG "\<lambda>_. True" "\<lambda>s. ret_ok (my_param_set_ble_log_global env en s)" for env en
  by unfold_locales (auto simp: my_param_set_ble_log_global_def Let_def dest!: log_put_saves)

interpretation logm: param_setter env ZMS_ID_BLE_LOG_CONFIG "\<lambda>_. True" "\<lambda>s. ret_ok (my_param_set_ble_log_mod env m en s)" for env m en
proof unfold_locales
  fix s s' ok
  assume a: "param_wf s" "ret_ok (my_param_set_ble_log_mod env m en s) = (ok, s')"
  show "\<not> ok \<and> s' = s \<or> (\<exists>r. saves env ZMS_ID_BLE_LOG_CONFIG s r s' \<and> ok = (r = int (param_size ZMS_ID_BLE_LOG_CONFIG)))"
  proof (cases "m \<ge> BLE_LOG_MOD_MAX \<or> m \<ge> 32")
    case True
    with a(2) show ?thesis by (auto simp: my_param_set_ble_log_mod_def ret_ok_def)
  next
    case False
    with a(2) show ?thesis using log_put_saves [OF _ a(1)] by (simp add: my_param_set_ble_log_mod_def Let_def)
  qed
qed

interpretation logl: param_setter env ZMS_ID_BLE_LOG_CONFIG "\<lambda>_. True" "\<lambda>s. ret_ok (my_param_set_ble_log_level env m l s)" for env m l
proof unfold_locales
  fix s s' ok
  assume a: "param_wf s" "ret_ok (my_param_set_ble_log_level env m l s) = (ok, s')"
  show "\<not> ok \<and> s' = s \<or> (\<exists>r. saves env ZMS_ID_BLE_LOG_CONFIG s r s' \<and> ok = (r = int (param_size ZMS_ID_BLE_LOG_CONFIG)))"
  proof (cases "m \<ge> BLE_LOG_MOD_MAX")
    case True
    with a(2) show ?thesis by (auto simp: my_param_set_ble_log_level_def ret_ok_def)
  next
    case False
    with a(2) show ?thesis using log_put_saves [OF _ a(1)] by (simp add: my_param_set_ble_log_level_def Let_def)
  qed
qed

lemma adv_switch_saves:
  assumes "adv_switch env i v s = (x, s')" "param_wf s" "has_flag (gConfigParam s ZMS_ID_ADV_VALID)"
  shows "\<exists>r. saves env ZMS_ID_ADV_VALID s r s' \<and> (x = 0) = (r = 3)"
proof -
  let ?s1 = "cfg_put ZMS_ID_ADV_VALID (if i = APPLE_ADV_TYPE then 1 else 2) [v] (set_adv_valid_status i v s)"
  obtain r where r: "cfg_save env ZMS_ID_ADV_VALID ?s1 = (r, s')" "(x = 0) = (r = 3)"
    using assms(1) by (auto simp: adv_switch_def split: prod.splits if_splits)
  have "param_wf (set_adv_valid_status i v s)" using assms(2) by (simp add: param_wf_def)
  then have "saves env ZMS_ID_ADV_VALID s r s'"
    unfolding saves_def using r(1) assms(3) by (intro exI [of _ ?s1]) auto
  with r(2) show ?thesis by blast
qed

definition jtag_known :: "bytes option \<Rightarrow> bool" where
  "jtag_known cmd \<longleftrightarrow> (case cmd of None \<Rightarrow> True | Some c \<Rightarrow> CMD_MATCHED c (ascii ''JATAG'') \<or> CMD_MATCHED c (ascii ''JGTAG''))"

interpretation jtag: param_setter env ZMS_ID_ADV_VALID "\<lambda>s. has_flag (gConfigParam s ZMS_ID_ADV_VALID) \<and> jtag_known cmd"
    "\<lambda>s. ret_ok (my_param_set_jatag_or_jgtag env cmd p s)" for env cmd p
proof unfold_locales
  fix s s' ok
  assume wf: "param_wf s" and pre: "has_flag (gConfigParam s ZMS_ID_ADV_VALID) \<and> jtag_known cmd"
    and run: "ret_ok (my_param_set_jatag_or_jgtag env cmd p s) = (ok, s')"
  have "(\<exists>i v. my_param_set_jatag_or_jgtag env cmd p s = adv_switch env i v s) \<or> my_param_set_jatag_or_jgtag env cmd p s = (-1, s)"
    using pre by (auto simp: my_param_set_jatag_or_jgtag_def jtag_known_def split: option.splits)
  then show "\<not> ok \<and> s' = s \<or> (\<exists>r. saves env ZMS_ID_ADV_VALID s r s' \<and> ok = (r = int (param_size ZMS_ID_ADV_VALID)))"
  proof
    assume "\<exists>i v. my_param_set_jatag_or_jgtag env cmd p s = adv_switch env i v s"
    then obtain i v x where "my_param_set_jatag_or_jgtag env cmd p s = adv_switch env i v s" "adv_switch env i v s = (x, s')" "ok = (x = 0)"
      using run by (cases "my_param_set_jatag_or_jgtag env cmd p s") (auto simp: ret_ok_def)
    then show ?thesis using adv_switch_saves [OF _ wf] pre by fastforce
  next
    assume "my_param_set_jatag_or_jgtag env cmd p s = (-1, s)"
    with run show ?thesis by (auto simp: ret_ok_def)
  qed
qed

section \<open>Requests and restarts\<close>

text \<open>The requests that change a parameter through this module, and the group each writes.\<close>

datatype param_req =
    Set_FF "bytes option" u8
  | Set_GG "bytes option" u8
  | Set_JTag "bytes option" "bytes option"
  | Set_Gvalue bytes
  | Set_SN "bytes option" u8
  | Set_MAC "bytes option" u8
  | Log_Global u8
  | Log_Mod u8 u8
  | Log_Level u8 u8

fun req_key :: "param_req \<Rightarrow> u32" where
  "req_key (Set_FF p l) = ZMS_ID_FF"
| "req_key (Set_GG p l) = ZMS_ID_GG"
| "req_key (Set_JTag c p) = ZMS_ID_ADV_VALID"
| "req_key (Set_Gvalue p) = ZMS_ID_ECDH_G"
| "req_key (Set_SN p l) = ZMS_ID_SN"
| "req_key (Set_MAC p l) = ZMS_ID_MAC"
| "req_key (Log_Global e) = ZMS_ID_BLE_LOG_CONFIG"
| "req_key (Log_Mod m e) = ZMS_ID_BLE_LOG_CONFIG"
| "req_key (Log_Level m l) = ZMS_ID_BLE_LOG_CONFIG"

fun param_exec :: "'d param_env \<Rightarrow> param_req \<Rightarrow> 'd params \<Rightarrow> bool \<times> 'd params" where
  "param_exec env (Set_FF p l) s = my_param_set_ff env p l s"
| "param_exec env (Set_GG p l) s = my_param_set_gg env p l s"
| "param_exec env (Set_JTag c p) s = ret_ok (my_param_set_jatag_or_jgtag env c p s)"
| "param_exec env (Set_Gvalue p) s = (case my_param_set_Gvalue env p s of Some x \<Rightarrow> ret_ok x | None \<Rightarrow> (False, s))"
| "param_exec env (Set_SN p l) s = ret_ok (my_param_set_sn env p l s)"
| "param_exec env (Set_MAC p l) s = ret_ok (my_param_set_mac env p l s)"
| "param_exec env (Log_Global e) s = ret_ok (my_param_set_ble_log_global env e s)"
| "param_exec env (Log_Mod m e) s = ret_ok (my_param_set_ble_log_mod env m e s)"
| "param_exec env (Log_Level m l) s = ret_ok (my_param_set_ble_log_level env m l s)"

definition req_pre :: "param_req \<Rightarrow> 'd params \<Rightarrow> bool" where
  "req_pre q s \<longleftrightarrow> (case q of Set_JTag c p \<Rightarrow> has_flag (gConfigParam s ZMS_ID_ADV_VALID) \<and> jtag_known c | _ \<Rightarrow> True)"

lemma param_exec_fun:
  "param_exec env (Set_FF p l) = my_param_set_ff env p l"
  "param_exec env (Set_GG p l) = my_param_set_gg env p l"
  "param_exec env (Set_JTag c p') = (\<lambda>s. ret_ok (my_param_set_jatag_or_jgtag env c p' s))"
  "param_exec env (Set_Gvalue v) = (\<lambda>s. case my_param_set_Gvalue env v s of Some x \<Rightarrow> ret_ok x | None \<Rightarrow> (False, s))"
  "param_exec env (Set_SN p l) = (\<lambda>s. ret_ok (my_param_set_sn env p l s))"
  "param_exec env (Set_MAC p l) = (\<lambda>s. ret_ok (my_param_set_mac env p l s))"
  "param_exec env (Log_Global e) = (\<lambda>s. ret_ok (my_param_set_ble_log_global env e s))"
  "param_exec env (Log_Mod m e) = (\<lambda>s. ret_ok (my_param_set_ble_log_mod env m e s))"
  "param_exec env (Log_Level m e) = (\<lambda>s. ret_ok (my_param_set_ble_log_level env m e s))"
  by (simp_all add: fun_eq_iff)

interpretation req: param_setter env "req_key q" "req_pre q" "param_exec env q" for env q
  by (cases q) (simp_all add: req_pre_def [abs_def] param_exec_fun del: param_exec.simps,
    (rule ff.param_setter_axioms gg.param_setter_axioms jtag.param_setter_axioms gval.param_setter_axioms sno.param_setter_axioms
      macp.param_setter_axioms logg.param_setter_axioms logm.param_setter_axioms logl.param_setter_axioms)+)

text \<open>A restart: the memory is lost, the configuration is loaded again.\<close>

definition param_restart :: "'d param_env \<Rightarrow> 'd params \<Rightarrow> 'd params" where
  "param_restart env s = my_param_load_config env (param_boot (pdev s))"

lemma param_boot_wf: "param_wf (param_boot d)"
  by (simp add: param_wf_def param_boot_def)

lemma storage_init_wf: "my_user_data_storage_init env s = (r, s') \<Longrightarrow> param_wf s \<Longrightarrow> param_wf s'"
  by (auto simp: my_user_data_storage_init_def param_wf_def split: prod.splits if_splits)

lemma storage_init_boot:
  assumes "zms_contract env K R" "my_user_data_storage_init env (param_boot d) = (0, s)"
  shows "K (pdev s) = K d" "R (pdev s)" "inited s" "param_wf s"
  using assms(2) zms_mountD [OF assms(1)] storage_init_wf [OF assms(2) param_boot_wf]
  by (auto simp: my_user_data_storage_init_def param_boot_def split: prod.splits if_splits)

definition can_start :: "'d param_env \<Rightarrow> 'd \<Rightarrow> bool" where
  "can_start env d \<longleftrightarrow> fst (my_user_data_storage_init env (param_boot d)) = 0"

lemma restart_config:
  assumes c: "zms_contract env K R" and st: "can_start env (pdev s)"
  shows "gConfigParam (param_restart env s) = stored_or_default (K (pdev s))" "inited (param_restart env s)"
    "K (pdev (param_restart env s)) = K (pdev s)" "R (pdev (param_restart env s))"
    "adv_valid (param_restart env s) APPLE_ADV_TYPE = (gConfigParam (param_restart env s) ZMS_ID_ADV_VALID ! 1 \<noteq> 0)"
    "adv_valid (param_restart env s) GOOGLE_ADV_TYPE = (gConfigParam (param_restart env s) ZMS_ID_ADV_VALID ! 2 \<noteq> 0)"
proof -
  obtain s0 where i: "my_user_data_storage_init env (param_boot (pdev s)) = (0, s0)"
    using st unfolding can_start_def by (cases "my_user_data_storage_init env (param_boot (pdev s))") auto
  have e: "param_restart env s = load_groups env s0" using i by (simp add: param_restart_def my_param_load_eq)
  note b = storage_init_boot [OF c i]
  note g = load_groups_config [OF c b(2,4)]
  show "gConfigParam (param_restart env s) = stored_or_default (K (pdev s))" "inited (param_restart env s)"
    "K (pdev (param_restart env s)) = K (pdev s)" "R (pdev (param_restart env s))"
    "adv_valid (param_restart env s) APPLE_ADV_TYPE = (gConfigParam (param_restart env s) ZMS_ID_ADV_VALID ! 1 \<noteq> 0)"
    "adv_valid (param_restart env s) GOOGLE_ADV_TYPE = (gConfigParam (param_restart env s) ZMS_ID_ADV_VALID ! 2 \<noteq> 0)"
    using b g by (simp_all add: e)
qed

text \<open>
  C9: a parameter set with success survives a restart: the restarted device has the group as
  it was set, and every other group as a restart before the call would have had it. A call
  that reports a failure leaves the stored parameters alone, so a restart has the old values.
\<close>

theorem set_survives_restart:
  assumes "zms_contract env K R" "param_wf s" "req_pre q s" "param_exec env q s = (ok, s')"
    "can_start env (pdev s)" "can_start env (pdev s')"
  shows "gConfigParam (param_restart env s') =
    (gConfigParam (param_restart env s))(req_key q := if ok then gConfigParam s' (req_key q) else gConfigParam (param_restart env s) (req_key q))"
proof (cases ok)
  case True
  note st = req.ok_stored [OF assms(1-3), of s'] restart_config(1) [OF assms(1)]
  have "K (pdev s') = (K (pdev s))(req_key q \<mapsto> gConfigParam s' (req_key q))" "stored_or_default (K (pdev s')) (req_key q) = gConfigParam s' (req_key q)"
    using st(1,3) assms(4) True by simp_all
  then show ?thesis using st(5) assms(5,6) True by (auto simp: stored_or_default_def fun_eq_iff)
next
  case False
  then have "K (pdev s') = K (pdev s)" using req.failed_keeps_store(1) [OF assms(1-3)] assms(4) by simp
  then show ?thesis using False restart_config(1) [OF assms(1)] assms(5,6) by simp
qed

text \<open>A storage in memory that keeps the contract: its values, and whether it is mounted.\<close>

definition map_env :: "((u32 \<Rightarrow> bytes option) \<times> bool) param_env" where
  "map_env = \<lparr>
     kv = \<lparr>fl_erase = (\<lambda>d a n. (-EIO, d)), fl_write = (\<lambda>d a b. (-EIO, d)), fl_read = (\<lambda>d a n. (-EIO, [])),
           fa_open = (\<lambda>d. 0), fa_ready = (\<lambda>d. True),
           zms_write = (\<lambda>(m, r) k b. if \<not> r then (-13, (m, r)) else if m k = Some b then (0, (m, r)) else (int (length b), (m(k \<mapsto> b), r))),
           zms_read = (\<lambda>(m, r) k n. if \<not> r then (-13, []) else case m k of None \<Rightarrow> (-2, []) | Some b \<Rightarrow> (int (min n (length b)), take n b)),
           crc32_ieee = (\<lambda>b. 0)\<rparr>,
     settings_open = (\<lambda>d. 0), settings_ready = (\<lambda>d. True), settings_size = 65536,
     zms_mount = (\<lambda>a c (m, r). (0, (m, True))),
     zms_clear = (\<lambda>(m, r). if r then (0, (Map.empty, False)) else (-13, (m, r)))\<rparr>"

lemma map_env_contract: "zms_contract map_env fst snd"
  unfolding zms_contract_def by (auto simp: map_env_def split: if_splits)

lemma map_env_start: "can_start map_env d"
  by (cases d) (simp add: can_start_def my_user_data_storage_init_def map_env_def param_boot_def)

lemma map_env_write:
  "zms_write (kv map_env) (m, True) k b = (if m k = Some b then (0, (m, True)) else (int (length b), (m(k \<mapsto> b), True)))"
  by (simp add: map_env_def)

lemma map_env_first:
  "gConfigParam (param_restart map_env (param_boot (Map.empty, False))) = default_of"
  "pdev (param_restart map_env (param_boot (Map.empty, False))) = (Map.empty, True)"
  "param_wf (param_restart map_env (param_boot (Map.empty, False)))"
proof -
  note r = restart_config [OF map_env_contract map_env_start, of "param_boot (Map.empty, False)"]
  show "gConfigParam (param_restart map_env (param_boot (Map.empty, False))) = default_of"
    using r(1) by (simp add: param_boot_def stored_or_default_def fun_eq_iff)
  then show "param_wf (param_restart map_env (param_boot (Map.empty, False)))" by (simp add: param_wf_def param_size_def)
  show "pdev (param_restart map_env (param_boot (Map.empty, False))) = (Map.empty, True)"
    using r(3,4) by (simp add: param_boot_def prod_eq_iff)
qed

theorem set_survives_restart_witness:
  "gConfigParam (param_restart map_env (snd (my_param_set_ff map_env (Some (replicate 58 65)) 58 (param_restart map_env (param_boot (Map.empty, False)))))) ZMS_ID_FF
     = gConfigParam (snd (my_param_set_ff map_env (Some (replicate 58 65)) 58 (param_restart map_env (param_boot (Map.empty, False))))) ZMS_ID_FF
   \<and> fst (my_param_set_ff map_env (Some (replicate 58 65)) 58 (param_restart map_env (param_boot (Map.empty, False))))"
proof -
  let ?s = "param_restart map_env (param_boot (Map.empty, False))"
  let ?q = "Set_FF (Some (replicate 58 65)) 58"
  obtain ok s' where x: "param_exec map_env ?q ?s = (ok, s')" by fastforce
  have "my_param_check_license (Some (replicate 58 65)) 58 ZMS_ID_FF"
    by (simp add: my_param_check_license_def string_check_is_hex_str_def is_hex_char_def list_all_iff)
  then have ok: "ok" using x param_wfD [OF map_env_first(3), of ZMS_ID_FF]
    by (auto simp: my_param_set_ff_def cfg_save_def my_user_data_write_def map_env_write map_env_first split: prod.splits if_splits)
  have "gConfigParam (param_restart map_env s') ZMS_ID_FF = gConfigParam s' ZMS_ID_FF"
    using set_survives_restart [OF map_env_contract map_env_first(3) _ x map_env_start map_env_start] ok by (simp add: req_pre_def)
  with x ok show ?thesis by simp
qed

section \<open>Setting a value again\<close>

text \<open>The requests whose bytes do not depend on the old configuration.\<close>

definition plain_req :: "param_req \<Rightarrow> bool" where
  "plain_req q \<longleftrightarrow> (case q of Set_JTag c p \<Rightarrow> False | Log_Global e \<Rightarrow> False | Log_Mod m e \<Rightarrow> False | Log_Level m l \<Rightarrow> False | _ \<Rightarrow> True)"

lemma mem_put_again: "off + length bs \<le> length b \<Longrightarrow> mem_put (mem_put b off bs) off bs = mem_put b off bs"
  by (rule nth_equalityI) (auto simp: nth_mem_put)

lemma mem_put_put_again: "mem_put (mem_put (mem_put (mem_put b i xs) j ys) i xs) j ys = mem_put (mem_put b i xs) j ys"
  by (rule nth_equalityI) (auto simp: nth_mem_put)

lemma put_save_again:
  assumes c: "zms_contract env K R" and wf: "param_wf s" "0 < n" "n = int (param_size k)"
    and one: "cfg_save env k (cfg_put k off bs (cfg_put k 0 [FLAG_VALID] s)) = (n, s')"
    and two: "cfg_save env k (cfg_put k off bs (cfg_put k 0 [FLAG_VALID] s')) = (r, s'')"
  shows "r \<noteq> n"
proof -
  let ?s1 = "cfg_put k off bs (cfg_put k 0 [FLAG_VALID] s)"
  have g: "gConfigParam s' = gConfigParam ?s1" using cfg_save_frame [OF one] by simp
  have ne: "gConfigParam ?s1 k \<noteq> []" using param_wfD [OF wf(1), of k] wf(2,3) by auto
  note sv = cfg_save_store [OF c one ne]
  have "K (pdev s') k = Some (gConfigParam ?s1 k)" using sv(2,4) wf(2) by (cases "K (pdev ?s1) k = Some (gConfigParam ?s1 k)") auto
  moreover have "gConfigParam (cfg_put k off bs (cfg_put k 0 [FLAG_VALID] s')) k = gConfigParam ?s1 k"
    using g by (simp add: mem_put_put_again)
  ultimately show ?thesis using cfg_save_store(2) [OF c two] ne wf(2) by auto
qed

lemma plain_form:
  assumes "plain_req q"
  shows "(\<forall>s. param_exec env q s = (False, s)) \<or>
    (\<exists>off bs. \<forall>s. param_exec env q s =
       (case cfg_save env (req_key q) (cfg_put (req_key q) off bs (cfg_put (req_key q) 0 [FLAG_VALID] s)) of (r, s') \<Rightarrow>
          (r = int (param_size (req_key q)), s')))"
proof (cases q)
  case (Set_FF p l)
  then show ?thesis by (cases "my_param_check_license p l ZMS_ID_FF") (auto simp: my_param_set_ff_def)
next
  case (Set_GG p l)
  then show ?thesis by (cases "my_param_check_license p l ZMS_ID_GG") (auto simp: my_param_set_gg_def)
next
  case (Set_SN p l)
  then show ?thesis
    by (cases "my_param_check_license p l ZMS_ID_SN")
      (auto simp: my_param_set_sn_def ret_ok_def split: prod.splits intro!: exI [of _ 1] exI [of _ "take (unat l) (the p)"])
next
  case (Set_MAC p l)
  obtain ok out where m: "macstr_to_hex p = (ok, out)" by fastforce
  with Set_MAC show ?thesis
    by (cases ok) (auto simp: my_param_set_mac_def ret_ok_def Let_def split: prod.splits
      intro!: exI [of _ 1] exI [of _ "the (snd (char_array_reverse (Some (mem_put (replicate 6 0) 0 out)) (Some (replicate 6 0))))"])
next
  case (Set_Gvalue p)
  let ?w = "of_int (atoi p) :: u16"
  show ?thesis
  proof (cases "string_check_is_number 0 p = 0 \<or> s32 (atoi p) = None \<or> ?w < 10000 \<or> ?w > 60000")
    case True
    then show ?thesis using Set_Gvalue by (auto simp: my_param_set_Gvalue_def ret_ok_def s32_def Let_def)
  next
    case False
    then have "s32 (atoi p) = Some (atoi p)" by (auto simp: s32_def split: if_splits)
    with False Set_Gvalue show ?thesis
      by (intro disjI2 exI [of _ 2] exI [of _ "le16 ?w"]) (auto simp: my_param_set_Gvalue_def ret_ok_def Let_def split: prod.splits)
  qed
qed (use assms in \<open>simp_all add: plain_req_def\<close>)

text \<open>
  Setting a licence, the serial number, the address or the key value to what it already
  is fails: the storage writes nothing for unchanged data and returns zero, which the setters
  take for an error. The second call reports a failure although the value is stored.
\<close>

lemma set_again_fails:
  assumes "zms_contract env K R" "param_wf s" "plain_req q" "param_exec env q s = (True, s')"
  shows "fst (param_exec env q s') = False"
  using plain_form [OF assms(3), of env]
proof (elim disjE exE)
  fix off bs
  let ?k = "req_key q"
  assume f: "\<forall>s. param_exec env q s = (case cfg_save env ?k (cfg_put ?k off bs (cfg_put ?k 0 [FLAG_VALID] s)) of (r, s') \<Rightarrow>
    (r = int (param_size ?k), s'))"
  have one: "cfg_save env ?k (cfg_put ?k off bs (cfg_put ?k 0 [FLAG_VALID] s)) = (int (param_size ?k), s')"
    using f [rule_format, of s] assms(4) by (auto split: prod.splits)
  moreover have "0 < param_size ?k" by (cases q) simp_all
  ultimately show ?thesis using put_save_again [OF assms(1,2) _ refl one] f by (auto split: prod.splits)
qed (use assms(4) in simp)

section \<open>Factory values\<close>

lemma storage_init_frame:
  "my_user_data_storage_init env s = (r, s') \<Longrightarrow> gConfigParam s' = gConfigParam s \<and> adv_valid s' = adv_valid s \<and> adv_calls s' = adv_calls s"
  by (auto simp: my_user_data_storage_init_def split: prod.splits if_splits)

text \<open>
  A successful reset to factory values clears the storage: the running device keeps its
  configuration until it is restarted, and then every parameter has its default.
\<close>

lemma factory_reset_defaults:
  assumes "zms_contract env K R" "my_param_factory_reset env s = (0, s')" "can_start env (pdev s')"
  shows "gConfigParam s' = gConfigParam s \<and> gConfigParam (param_restart env s') = default_of"
proof -
  obtain s0 r d where s0: "my_user_data_storage_init env s = (0, s0)" "zms_clear env (pdev s0) = (r, d)" "0 \<le> r" "s' = s0\<lparr>pdev := d\<rparr>"
    using assms(2) by (auto simp: my_param_factory_reset_def split: prod.splits if_splits)
  then have "K (pdev s') = Map.empty" using zms_clearD [OF assms(1) s0(2,3)] by simp
  then have "gConfigParam (param_restart env s') = default_of"
    using restart_config(1) [OF assms(1,3)] by (simp add: stored_or_default_def fun_eq_iff)
  then show ?thesis using s0(4) storage_init_frame [OF s0(1)] by simp
qed

section \<open>Ranges\<close>

definition u16_at :: "bytes \<Rightarrow> nat \<Rightarrow> nat" where
  "u16_at b i = unat (of_le16 (b ! i) (b ! (i + 1)))"

definition u32_at :: "bytes \<Rightarrow> nat \<Rightarrow> nat" where
  "u32_at b i = unat (of_le32 (b ! i) (b ! (i + 1)) (b ! (i + 2)) (b ! (i + 3)))"

definition s32_at :: "bytes \<Rightarrow> nat \<Rightarrow> int" where
  "s32_at b i = sint (of_le32 (b ! i) (b ! (i + 1)) (b ! (i + 2)) (b ! (i + 3)))"

text \<open>An alarm limit in its range, or the value 255 that switches it off; a pair is ordered unless the lower one is off.\<close>

definition limit_ok :: "int \<Rightarrow> int \<Rightarrow> int \<Rightarrow> bool" where
  "limit_ok lo hi v \<longleftrightarrow> lo \<le> v \<and> v \<le> hi \<or> v = 255"

definition limits_ordered :: "int \<Rightarrow> int \<Rightarrow> bool" where
  "limits_ordered low high \<longleftrightarrow> low \<le> high \<or> low = 255"

definition smart_interval_ok :: "bytes \<Rightarrow> nat \<Rightarrow> bool" where
  "smart_interval_ok b i \<longleftrightarrow>
     (let st = u32_at b (32 + 4 * i); mv = u32_at b (56 + 4 * i)
      in (st = 0 \<or> (if i \<le> 4 then 180 \<le> st \<and> st \<le> 3600 else 10 \<le> st \<and> st \<le> 86400)) \<and>
         (if i \<in> {0, 1, 3} then 180 \<le> mv \<and> mv \<le> 3600 else 10 \<le> mv \<and> mv \<le> 86400))"

text \<open>A time of the day as four digits, from 0000 to 2400.\<close>

abbreviation start_hour :: "bytes \<Rightarrow> int" where "start_hour t \<equiv> dval (t ! 0) * 10 + dval (t ! 1)"
abbreviation start_minute :: "bytes \<Rightarrow> int" where "start_minute t \<equiv> dval (t ! 2) * 10 + dval (t ! 3)"

definition hhmm_ok :: "bytes \<Rightarrow> bool" where
  "hhmm_ok t \<longleftrightarrow> length t = 4 \<and> list_all is_digit t \<and> start_hour t \<le> 24 \<and> start_minute t \<le> 59 \<and> (start_hour t = 24 \<longrightarrow> start_minute t = 0)"

definition work_mode_ok :: "bytes \<Rightarrow> bool" where
  "work_mode_ok b \<longleftrightarrow>
     u32_at b 4 \<le> 3 \<and>
     5 \<le> u32_at b 8 \<and> u32_at b 8 \<le> 86400 \<and> (u32_at b 12 = 0 \<or> 5 \<le> u32_at b 12 \<and> u32_at b 12 \<le> 1000) \<and>
     5 \<le> u32_at b 16 \<and> u32_at b 16 \<le> 1440 \<and> hhmm_ok (take 4 (drop 20 b)) \<and> b ! 24 = 0 \<and> b ! 25 \<le> 1 \<and>
     b ! 28 \<le> 5 \<and> smart_interval_ok b 0 \<and> smart_interval_ok b 1 \<and> smart_interval_ok b 2 \<and> smart_interval_ok b 3 \<and>
     smart_interval_ok b 4 \<and> smart_interval_ok b 5"

text \<open>
  The documented range of every parameter (\<open>my_zms_param.h\<close>, \<open>my_main.h\<close> and the checks of the commands), by group. The
  groups without a condition, licences, serial number, address, bias and shutdown flag, hold free bytes, as do the bitmap and the thresholds of the log.
\<close>

definition img_ok :: "u32 \<Rightarrow> bytes \<Rightarrow> bool" where
  "img_ok k b \<longleftrightarrow> length b = param_size k \<and>
     (if k = ZMS_ID_ADV_VALID then b ! 0 = FLAG_VALID \<and> b ! 1 \<le> 1 \<and> b ! 2 \<le> 1 \<and> (b ! 1 = 1 \<or> b ! 2 = 1)
      else if k = ZMS_ID_ECDH_G then 10000 \<le> u16_at b 2 \<and> u16_at b 2 \<le> 60000
      else if k = ZMS_ID_BLE_TX_POWER then sint (b ! 1) \<in> {-8, -4, 0, 3, 5, 7}
      else if k = ZMS_ID_WORK_MODE_CONFIG then work_mode_ok b
      else if k = ZMS_ID_REM_ALM_CONFIG \<or> k = ZMS_ID_PULL_ALM_CONFIG \<or> k = ZMS_ID_MOTDETALM_CONFIG then b ! 1 \<le> 1 \<and> b ! 2 \<le> 3
      else if k = ZMS_ID_PATMALM_CONFIG
      then b ! 1 \<le> 1 \<and> limit_ok 30 250 (uint (b ! 2)) \<and> limit_ok 30 250 (uint (b ! 3)) \<and>
           limits_ordered (uint (b ! 2)) (uint (b ! 3)) \<and> b ! 4 \<le> 3 \<and> b ! 5 \<le> 60
      else if k = ZMS_ID_TEMPALM_CONFIG
      then b ! 1 \<le> 1 \<and> limit_ok (-30) 100 (s32_at b 4) \<and> limit_ok (-30) 100 (s32_at b 8) \<and> limits_ordered (s32_at b 4) (s32_at b 8) \<and>
           limit_ok 0 100 (uint (b ! 12)) \<and> limit_ok 0 100 (uint (b ! 13)) \<and> limits_ordered (uint (b ! 12)) (uint (b ! 13)) \<and>
           b ! 14 \<le> 3 \<and> b ! 15 \<le> 60
      else if k = ZMS_ID_MOT_DET_CONFIG then 1 \<le> u16_at b 2 \<and> u16_at b 2 \<le> 500 \<and> 1 \<le> u16_at b 4 \<and> u16_at b 4 \<le> 3600
      else if k = ZMS_ID_BAT_LEVEL_CONFIG then list_all (\<lambda>v. v \<le> 3) (drop 1 b)
      else if k = ZMS_ID_STARTR_CONFIG \<or> k = ZMS_ID_PWRLIMIT_CONFIG then b ! 1 \<le> 1
      else if k = ZMS_ID_LPSLEEP_CONFIG then b ! 1 \<le> 1 \<and> 10 \<le> b ! 2 \<and> b ! 2 \<le> 50 \<and> 1 \<le> b ! 3 \<and> b ! 3 \<le> 48
      else if k = ZMS_ID_BT_UPDATA_CONFIG
      then b ! 1 \<le> 2 \<and> 5 \<le> u32_at b 4 \<and> u32_at b 4 \<le> 86400 \<and> 5 \<le> u32_at b 8 \<and> u32_at b 8 \<le> 86400 \<and> u32_at b 8 < u32_at b 4 \<and>
           120 \<le> u32_at b 12 \<and> u32_at b 12 \<le> 86400
      else if k = ZMS_ID_BLUETOOTH_CONFIG then b ! 1 \<le> 1 \<and> b ! 2 = 5 \<and> b ! 3 \<le> 30 \<and> b ! 4 \<le> 1
      else if k = ZMS_ID_BTCONNECT_CONFIG then b ! 1 \<le> 1 \<and> 300 \<le> u16_at b 2 \<and> u16_at b 2 \<le> 43200 \<and> b ! 4 \<le> 3
      else if k = ZMS_ID_TAG_CONFIG then b ! 1 \<le> 1 \<and> 100 \<le> u16_at b 2 \<and> u16_at b 2 \<le> 60000
      else if k = ZMS_ID_LED_CONFIG then b ! 1 \<le> 2
      else if k = ZMS_ID_LTINT_CONFIG then 100 \<le> u16_at b 2 \<and> u16_at b 2 \<le> 5000 \<and> 100 \<le> u16_at b 4 \<and> u16_at b 4 \<le> 5000
      else if k = ZMS_ID_BUZZER_CONFIG then b ! 1 \<le> 5
      else if k = ZMS_ID_BT_PARMAC_CONFIG then b ! 141 \<le> 20
      else if k = ZMS_ID_PATM_TIMER_CONFIG \<or> k = ZMS_ID_TEMP_TIMER_CONFIG
      then (u16_at b 2 = 0 \<or> 10 \<le> u16_at b 2 \<and> u16_at b 2 \<le> 1440) \<and> b ! 4 \<le> 1
      else if k = ZMS_ID_IMU_ALM_CONFIG
      then b ! 1 \<le> 1 \<and> b ! 2 \<le> 3 \<and> limit_ok 5 60 (uint (b ! 3)) \<and> limit_ok 5 60 (uint (b ! 4)) \<and> limit_ok 5 60 (uint (b ! 5)) \<and>
           1 \<le> b ! 6 \<and> b ! 6 \<le> 180 \<and> 1 \<le> b ! 7 \<and> b ! 7 \<le> 10 \<and> 1 \<le> b ! 8 \<and> b ! 8 \<le> 30
      else if k = ZMS_ID_BLE_LOG_CONFIG then b ! 1 \<le> 1
      else True)"

lemmas range_defs = img_ok_def u16_at_def u32_at_def s32_at_def limit_ok_def limits_ordered_def

lemma param_size_other: "k \<notin> fst ` set param_defaults \<Longrightarrow> param_size k = 0"
  by (metis default_of_def list.size(3) map_of_eq_None_iff option.simps(4) param_size_def)

lemma unat_of_le16: "unat (of_le16 a b) = unat a + 256 * unat b"
proof -
  have "(ucast a :: u16) AND push_bit 8 (ucast b) = 0"
    by (rule bit_word_eqI) (auto simp: bit_simps dest: bit_imp_le_length)
  then have "of_le16 a b = ucast a + 256 * ucast b"
    by (simp add: of_le16_def disjunctive_add_eq_or [symmetric] push_bit_eq_mult ac_simps)
  moreover have "unat a < 256" "unat b < 256" by (rule unat_u8_lt)+
  ultimately show ?thesis by (simp add: unat_word_ariths unsigned_ucast_eq take_bit_nat_eq_self)
qed

lemma unat_of_le32: "unat (of_le32 a b c d) = unat a + 256 * unat b + 65536 * unat c + 16777216 * unat d"
proof -
  let ?a = "ucast a :: u32" and ?b = "push_bit 8 (ucast b) :: u32" and ?c = "push_bit 16 (ucast c) :: u32" and ?d = "push_bit 24 (ucast d) :: u32"
  have z: "?a AND (?b OR ?c OR ?d) = 0" "?b AND (?c OR ?d) = 0" "?c AND ?d = 0"
    by (rule bit_word_eqI, force simp: bit_simps dest: bit_imp_le_length)+
  have "of_le32 a b c d = ?a OR ?b OR ?c OR ?d" by (simp add: of_le32_def)
  also have "\<dots> = ?a + (?b + (?c + ?d))"
    unfolding disjunctive_add_eq_or [OF z(3)] disjunctive_add_eq_or [OF z(2)] disjunctive_add_eq_or [OF z(1)] ..
  finally have "of_le32 a b c d = ucast a + 256 * ucast b + 65536 * ucast c + 16777216 * ucast d"
    by (simp add: push_bit_eq_mult ac_simps)
  moreover have "unat a < 256" "unat b < 256" "unat c < 256" "unat d < 256" by (rule unat_u8_lt)+
  ultimately show ?thesis by (simp add: unat_word_ariths unsigned_ucast_eq take_bit_nat_eq_self)
qed

lemma work_mode_default: "work_mode_ok gDefaultWorkModeConfig"
  by (simp add: work_mode_ok_def smart_interval_ok_def gDefaultWorkModeConfig_def u32_at_def le32_def Let_def is_digit_def unat_of_le32 hhmm_ok_def dval_def)

lemma temp_default: "s32_at gDefaultTempAlmConfig 4 = 255" "s32_at gDefaultTempAlmConfig 8 = 255"
  by (simp_all add: s32_at_def gDefaultTempAlmConfig_def le32_def of_le32_def)

lemma defaults_ok: "list_all (\<lambda>(k, b). img_ok k b) param_defaults"
  by (simp add: param_defaults_def img_ok_def work_mode_default temp_default,
    simp add: default_defs u16_at_def u32_at_def limit_ok_def limits_ordered_def le16_def le32_def unat_of_le16 unat_of_le32 param_size_def default_of_def nth_append)

lemma default_img_ok: "img_ok k (default_of k)"
proof (cases "map_of param_defaults k")
  case None
  then have "k \<notin> fst ` set param_defaults" by (simp add: map_of_eq_None_iff)
  with None show ?thesis by (auto simp: img_ok_def default_of_def param_size_def param_defaults_def)
next
  case (Some b)
  then show ?thesis using defaults_ok map_of_SomeD [OF Some] by (auto simp: list_all_iff default_of_def)
qed

definition cfg_ok :: "config \<Rightarrow> bool" where
  "cfg_ok c \<longleftrightarrow> (\<forall>k. img_ok k (c k))"

definition store_ok :: "(u32 \<Rightarrow> bytes option) \<Rightarrow> bool" where
  "store_ok m \<longleftrightarrow> (\<forall>k b. param_size k \<noteq> 0 \<longrightarrow> m k = Some b \<longrightarrow> img_ok k b)"

text \<open>All parameters are in range, in memory and in the storage, and the advertisements run as configured.\<close>

definition param_inv :: "('d \<Rightarrow> u32 \<Rightarrow> bytes option) \<Rightarrow> 'd params \<Rightarrow> bool" where
  "param_inv K s \<longleftrightarrow> cfg_ok (gConfigParam s) \<and> store_ok (K (pdev s)) \<and>
     (adv_valid s APPLE_ADV_TYPE \<longleftrightarrow> gConfigParam s ZMS_ID_ADV_VALID ! 1 \<noteq> 0) \<and>
     (adv_valid s GOOGLE_ADV_TYPE \<longleftrightarrow> gConfigParam s ZMS_ID_ADV_VALID ! 2 \<noteq> 0)"

lemma img_ok_length: "img_ok k b \<Longrightarrow> length b = param_size k"
  by (simp add: img_ok_def)

lemma cfg_ok_wf: "cfg_ok (gConfigParam s) \<Longrightarrow> param_wf s"
  by (simp add: cfg_ok_def param_wf_def img_ok_def)

lemma cfg_ok_upd: "cfg_ok c \<Longrightarrow> img_ok k b \<Longrightarrow> cfg_ok (c(k := b))"
  by (simp add: cfg_ok_def)

lemma stored_or_default_ok:
  assumes "store_ok m"
  shows "cfg_ok (stored_or_default m)"
  unfolding cfg_ok_def
proof
  fix k
  show "img_ok k (stored_or_default m k)"
  proof (cases "param_size k = 0")
    case True
    then have "stored_or_default m k = default_of k" by (simp add: stored_or_default_def param_size_def split: option.splits)
    then show ?thesis by (simp add: default_img_ok)
  next
    case False
    then have "m k = Some b \<Longrightarrow> img_ok k b \<and> take (param_size k) b = b" for b
      using assms img_ok_length [of k b] by (auto simp: store_ok_def)
    then show ?thesis using default_img_ok [of k] by (auto simp: stored_or_default_def split: option.splits)
  qed
qed

lemma restart_inv:
  assumes "zms_contract env K R" "can_start env (pdev s)" "store_ok (K (pdev s))"
  shows "param_inv K (param_restart env s)"
  using restart_config [OF assms(1,2)] assms(3) stored_or_default_ok [OF assms(3)] by (simp add: param_inv_def)

lemma save_inv:
  assumes c: "zms_contract env K R" and s: "cfg_save env k s = (r, s')" "param_size k \<noteq> 0" and i: "param_inv K s"
  shows "param_inv K s'"
proof -
  have ok: "img_ok k (gConfigParam s k)" "param_wf s" using i by (auto simp: param_inv_def cfg_ok_def intro: cfg_ok_wf)
  then have ne: "gConfigParam s k \<noteq> []" using param_wfD [OF ok(2), of k] s(2) by auto
  note sv = cfg_save_store [OF c s(1) ne]
  have "K (pdev s') = K (pdev s) \<or> K (pdev s') = (K (pdev s))(k \<mapsto> gConfigParam s k)"
    using sv(2-4) by (cases "K (pdev s) k = Some (gConfigParam s k)"; cases "r < 0") auto
  moreover have "store_ok (K (pdev s))" using i by (simp add: param_inv_def)
  ultimately have "store_ok (K (pdev s'))" using ok(1) by (auto simp: store_ok_def split: if_splits)
  then show ?thesis using i cfg_save_frame [OF s(1)] by (simp add: param_inv_def)
qed

text \<open>Changing a group other than the advertisement switches.\<close>

lemma put_inv:
  assumes "param_inv K s" "k \<noteq> ZMS_ID_ADV_VALID" "img_ok k (mem_put (gConfigParam s k) off bs)"
  shows "param_inv K (cfg_put k off bs s)"
  using assms by (simp add: param_inv_def cfg_ok_def cfg_put_def)

definition free_group :: "u32 \<Rightarrow> bool" where
  "free_group k \<longleftrightarrow> k \<in> {ZMS_ID_FF, ZMS_ID_GG, ZMS_ID_SN, ZMS_ID_MAC, ZMS_ID_SHUTDOWN_CONFIG, ZMS_ID_IMU_ZERO_BIAS_CONFIG}"

lemma img_ok_free: "free_group k \<Longrightarrow> img_ok k b \<longleftrightarrow> length b = param_size k"
  unfolding free_group_def by (elim insertE emptyE; simp add: img_ok_def)

lemma img_ok_adv:
  "img_ok ZMS_ID_ADV_VALID b \<longleftrightarrow> length b = 3 \<and> b ! 0 = FLAG_VALID \<and> b ! 1 \<le> 1 \<and> b ! 2 \<le> 1 \<and> (b ! 1 = 1 \<or> b ! 2 = 1)"
  by (simp add: img_ok_def)

lemma img_ok_log: "img_ok ZMS_ID_BLE_LOG_CONFIG b \<longleftrightarrow> length b = 24 \<and> b ! 1 \<le> 1"
  by (simp add: img_ok_def)

lemma param_invD: "param_inv K s \<Longrightarrow> img_ok k (gConfigParam s k)"
  by (simp add: param_inv_def cfg_ok_def)

lemma put_free_inv: "param_inv K s \<Longrightarrow> free_group k \<Longrightarrow> param_inv K (cfg_put k off bs s)"
  by (rule put_inv) (auto simp: img_ok_free dest: param_invD [of _ _ k], auto simp: free_group_def)

lemma adv_switch_inv:
  assumes c: "zms_contract env K R" and i: "param_inv K s" and x: "adv_switch env a v s = (x, s')"
    and v: "v = 1 \<or> v = 0 \<and> gConfigParam s ZMS_ID_ADV_VALID ! (if a = APPLE_ADV_TYPE then 2 else 1) = 1"
  shows "param_inv K s'"
proof -
  let ?s1 = "cfg_put ZMS_ID_ADV_VALID (if a = APPLE_ADV_TYPE then 1 else 2) [v] (set_adv_valid_status a v s)"
  have ok: "img_ok ZMS_ID_ADV_VALID (gConfigParam s ZMS_ID_ADV_VALID)" by (rule param_invD [OF i])
  have l: "length (gConfigParam s ZMS_ID_ADV_VALID) = 3" using img_ok_length [OF ok] by simp
  have img: "img_ok ZMS_ID_ADV_VALID (gConfigParam ?s1 ZMS_ID_ADV_VALID)"
    using ok v l by (cases a) (auto simp: img_ok_adv nth_mem_put)
  have "param_inv K ?s1"
    unfolding param_inv_def
  proof (intro conjI)
    show "cfg_ok (gConfigParam ?s1)" using i img by (simp add: param_inv_def cfg_put_def cfg_ok_upd)
    show "store_ok (K (pdev ?s1))" using i by (simp add: param_inv_def)
    show "adv_valid ?s1 APPLE_ADV_TYPE \<longleftrightarrow> gConfigParam ?s1 ZMS_ID_ADV_VALID ! 1 \<noteq> 0"
      "adv_valid ?s1 GOOGLE_ADV_TYPE \<longleftrightarrow> gConfigParam ?s1 ZMS_ID_ADV_VALID ! 2 \<noteq> 0"
      using i l by (cases a; simp add: param_inv_def nth_mem_put)+
  qed
  moreover obtain r where "cfg_save env ZMS_ID_ADV_VALID ?s1 = (r, s')" using x by (auto simp: adv_switch_def split: prod.splits)
  ultimately show ?thesis using save_inv [OF c] by fastforce
qed

lemma Gvalue_img_ok:
  "img_ok ZMS_ID_ECDH_G b \<Longrightarrow> 10000 \<le> w \<Longrightarrow> w \<le> 60000 \<Longrightarrow> img_ok ZMS_ID_ECDH_G (mem_put (mem_put b 0 [f]) 2 (le16 w))"
  by (auto simp: img_ok_def u16_at_def nth_mem_put le16_def word_le_nat_alt)

text \<open>The log configuration is stored from its own place in memory.\<close>

lemma log_put_inv:
  assumes "param_inv K s" "bs \<noteq> [] \<longrightarrow> off \<noteq> 1 \<longrightarrow> off + length bs \<le> 1 \<or> 2 \<le> off" "off = 1 \<longrightarrow> (\<exists>v. bs = [v] \<and> v \<le> 1)"
  shows "param_inv K (cfg_put ZMS_ID_BLE_LOG_CONFIG off bs s)"
proof -
  have "img_ok ZMS_ID_BLE_LOG_CONFIG (gConfigParam s ZMS_ID_BLE_LOG_CONFIG)" by (rule param_invD [OF assms(1)])
  then have "img_ok ZMS_ID_BLE_LOG_CONFIG (mem_put (gConfigParam s ZMS_ID_BLE_LOG_CONFIG) off bs)"
    using assms(2,3) by (cases "off = 1") (auto simp: img_ok_log nth_mem_put)
  then show ?thesis by (intro put_inv [OF assms(1)]) simp_all
qed

lemma mem_put_self: "mem_put b 0 b = b"
  by (rule nth_equalityI) (simp_all add: nth_mem_put)

lemma log_config_inv:
  assumes "zms_contract env K R" "param_inv K s" "my_param_set_ble_log_config env (Some (gConfigParam s ZMS_ID_BLE_LOG_CONFIG)) s = (x, s')"
  shows "param_inv K s'"
proof -
  have "cfg_put ZMS_ID_BLE_LOG_CONFIG 0 (gConfigParam s ZMS_ID_BLE_LOG_CONFIG) s = s" by (simp add: cfg_put_def mem_put_self)
  then obtain r where "cfg_save env ZMS_ID_BLE_LOG_CONFIG (cfg_put ZMS_ID_BLE_LOG_CONFIG 0 [FLAG_VALID] s) = (r, s')"
    using assms(3) by (auto simp: my_param_set_ble_log_config_def split: prod.splits)
  moreover have "param_inv K (cfg_put ZMS_ID_BLE_LOG_CONFIG 0 [FLAG_VALID] s)" by (rule log_put_inv [OF assms(2)]) simp_all
  ultimately show ?thesis using save_inv [OF assms(1)] by fastforce
qed

lemma ret_ok_eq: "ret_ok x = (ok, s') \<longleftrightarrow> (\<exists>r. x = (r, s') \<and> ok = (r = 0))"
  by (cases x) (auto simp: ret_ok_def)

text \<open>Every request keeps the parameters in range.\<close>

lemma req_inv:
  assumes c: "zms_contract env K R" and i: "param_inv K s" and x: "param_exec env q s = (ok, s')"
  shows "param_inv K s'"
proof -
  note put2 = put_free_inv [OF put_free_inv [OF i]]
  note sv = save_inv [OF c]
  have put_log: "param_inv K (cfg_put ZMS_ID_BLE_LOG_CONFIG (4 + n) bs s)" "param_inv K (cfg_put ZMS_ID_BLE_LOG_CONFIG 1 [if e \<noteq> (0 :: u8) then 1 else 0] s)" for n bs e
    by (auto intro!: log_put_inv [OF i])
  show ?thesis
  proof (cases q)
    case (Set_FF p l)
    with x sv put2 i show ?thesis by (fastforce simp: my_param_set_ff_def free_group_def split: prod.splits if_splits)
  next
    case (Set_GG p l)
    with x sv put2 i show ?thesis by (fastforce simp: my_param_set_gg_def free_group_def split: prod.splits if_splits)
  next
    case (Set_SN p l)
    with x sv put2 i show ?thesis by (fastforce simp: my_param_set_sn_def ret_ok_eq free_group_def split: prod.splits if_splits)
  next
    case (Set_MAC p l)
    with x sv put2 i show ?thesis by (fastforce simp: my_param_set_mac_def ret_ok_eq Let_def free_group_def split: prod.splits if_splits)
  next
    case (Set_Gvalue p)
    show ?thesis
    proof (cases rule: Gvalue_cases [of env p s])
      case refused
      with x i Set_Gvalue show ?thesis by (auto simp: ret_ok_eq)
    next
      case (saved w r t)
      then have "s' = t" using x Set_Gvalue by (auto simp: ret_ok_eq)
      moreover have "param_inv K (cfg_put ZMS_ID_ECDH_G 2 (le16 w) (cfg_put ZMS_ID_ECDH_G 0 [FLAG_VALID] s))"
        using i Gvalue_img_ok [OF param_invD [OF i] saved(1,2)] by (simp add: param_inv_def cfg_ok_def cfg_put_def)
      ultimately show ?thesis using sv [OF saved(4)] by simp
    qed
  next
    case (Set_JTag cm p)
    with x i show ?thesis
      by (auto simp: ret_ok_eq my_param_set_jatag_or_jgtag_def split: option.splits if_splits
        intro: adv_switch_inv [OF c i])
  next
    case (Log_Global e)
    with x show ?thesis using log_config_inv [OF c put_log(2)] by (auto simp: ret_ok_eq my_param_set_ble_log_global_def Let_def)
  next
    case (Log_Mod m e)
    with x i show ?thesis using log_config_inv [OF c put_log(1) [of 0]] by (auto simp: ret_ok_eq my_param_set_ble_log_mod_def Let_def split: if_splits)
  next
    case (Log_Level m l)
    with x i show ?thesis using log_config_inv [OF c put_log(1) [of "4 + unat m"]] by (auto simp: ret_ok_eq my_param_set_ble_log_level_def Let_def add.assoc [symmetric] split: if_splits)
  qed
qed

lemma factory_reset_inv:
  assumes c: "zms_contract env K R" and i: "param_inv K s" and x: "my_param_factory_reset env s = (0, s')" "inited s"
  shows "param_inv K s'"
proof -
  obtain r d where "zms_clear env (pdev s) = (r, d)" "0 \<le> r" "s' = s\<lparr>pdev := d\<rparr>"
    using x by (auto simp: my_param_factory_reset_def my_user_data_storage_init_def split: prod.splits if_splits)
  then show ?thesis using zms_clearD [OF c] i by (auto simp: param_inv_def store_ok_def)
qed

end
