(* ===== verification/Cmd_Setting.thy ===== *)
theory Cmd_Setting
  imports Cmd_Parse Param
begin

text \<open>
  The command handlers of \<open>my_cmd_setting.c\<close>: the texts that reach the device over
  Bluetooth or from the LTE module, the table of commands, and for every command what it
  checks, which parameters it changes and stores, what it answers and which other modules it
  calls. The parameters are those of \<open>Param\<close>; calls of other modules and messages to
  their threads are recorded in order, and what the handlers ask the other modules for is an
  input. A handler returns \<open>None\<close> where the C code has no defined behaviour.
\<close>

section \<open>State\<close>

datatype cmd_post =
    Lte_Pwron | Lte_Ble_Data bytes | Lpsleep_Exit | Lpsleep_Clear_Hold_Off | Ble_Open_Adv | Ble_Close_Adv
  | Led_Enable | Led_Disable | Reset_Lte_Timer | Patm_Reload | Patm_Read | Temp_Reload | Temp_Read | Status_Read

datatype cmd_call =
    Post cmd_post
  | Go_To_Shutdown
  | Ble_Set_Tx_Power u8
  | Scan_Set_Config u8 u32 u32 u32
  | Updata_Adv_Param u16
  | No_Con_Start_Adv u8
  | Send_Led_Command
  | Set_Buzzer_Mode int
  | Switch_Work_Mode int
  | Send_Work_Mode_Command int
  | Smart_Apply_Lte_Policy
  | Start_Cmdsource_Timer

text \<open>What the handlers are told: states of other modules, allocation results, the contents of an uninitialised array, the size of an enumeration.\<close>

record cmd_in =
  get_lprunning_active :: bool
  get_last_work_mode :: int
  g_bLteReady :: bool
  get_lte_power_state :: bool
  shutdown_result :: int
  get_batt_mv :: u16
  charging :: bool
  g_lte4GVersion :: bytes
  software_version :: bytes
  alloc_cmd :: bool
  alloc_msg :: bool
  stack_junk :: bytes
  short_enums :: bool

record at_cmd =
  parm :: "bytes list"
  parm_count :: u8
  resp_msg :: bytes
  resp_length :: u16

record 'd cmds =
  cparams :: "'d params"
  g_factory_mode :: bool
  g_lte_cmdSource :: u8
  cmd_calls :: "cmd_call list"

abbreviation (input) BLE_DATA_TYPE_PACKET_MULTIPLE :: int where "BLE_DATA_TYPE_PACKET_MULTIPLE \<equiv> 0xFF02"
abbreviation (input) RESP_STRING_LENGTH_MAX :: nat where "RESP_STRING_LENGTH_MAX \<equiv> 1024"
abbreviation (input) CMD_STRING_LENGTH_MAX :: nat where "CMD_STRING_LENGTH_MAX \<equiv> 128"

type_synonym 'd cmd_result = "(int \<times> at_cmd \<times> 'd cmds) option"

section \<open>Answers, parameters and storing\<close>

definition reply :: "bytes \<Rightarrow> at_cmd \<Rightarrow> at_cmd" where
  "reply txt m = m\<lparr>resp_msg := take (RESP_STRING_LENGTH_MAX - 1) txt, resp_length := of_nat (length txt)\<rparr>"

definition answer :: "string \<Rightarrow> at_cmd \<Rightarrow> 'd cmds \<Rightarrow> 'd cmd_result" where
  "answer txt m st = Some (BLE_DATA_TYPE_PACKET_MULTIPLE, reply (ascii txt) m, st)"

definition param_invalid :: "at_cmd \<Rightarrow> 'd cmds \<Rightarrow> 'd cmd_result" where
  "param_invalid m st = answer ''Set Fail! InvalidParam'' m st"

fun commas :: "bytes list \<Rightarrow> bytes" where
  "commas [] = []"
| "commas [x] = x"
| "commas (x # y # ys) = x @ 44 # commas (y # ys)"

definition show_values :: "bytes \<Rightarrow> bytes list \<Rightarrow> at_cmd \<Rightarrow> 'd cmds \<Rightarrow> 'd cmd_result" where
  "show_values name vs m st = Some (BLE_DATA_TYPE_PACKET_MULTIPLE, reply (name @ 58 # commas vs) m, st)"

definition on_off :: "u8 \<Rightarrow> bytes" where
  "on_off v = (if v \<noteq> 0 then ascii ''ON'' else ascii ''OFF'')"

definition print_u8 :: "u8 \<Rightarrow> bytes" where
  "print_u8 v = print_int (uint v)"

definition print_nat :: "nat \<Rightarrow> bytes" where
  "print_nat v = print_int (int v)"

definition is_word :: "bytes \<Rightarrow> string \<Rightarrow> bool" where
  "is_word s w \<longleftrightarrow> my_strcasecmp s (ascii w) = 0"

definition sw_arg :: "bytes \<Rightarrow> u8 option" where
  "sw_arg s = (if is_word s ''ON'' then Some 1 else if is_word s ''OFF'' then Some 0 else None)"

definition num_arg :: "u8 \<Rightarrow> bytes \<Rightarrow> int option" where
  "num_arg flag s = (let no_count = string_check_is_number flag s in if no_count = 0 \<or> no_count > 9 then None else Some (atoi s))"

text \<open>A number with a condition on it.\<close>

definition num_if :: "u8 \<Rightarrow> (int \<Rightarrow> bool) \<Rightarrow> bytes \<Rightarrow> int option" where
  "num_if flag ok s = Option.bind (num_arg flag s) (\<lambda>v. if ok v then Some v else None)"

definition in_range :: "int \<Rightarrow> int \<Rightarrow> int \<Rightarrow> bool" where
  "in_range lo hi v \<longleftrightarrow> \<not> (v < lo \<or> v > hi)"

definition cf :: "'d cmds \<Rightarrow> u32 \<Rightarrow> bytes" where
  "cf st k = gConfigParam (cparams st) k"

definition call :: "cmd_call \<Rightarrow> 'd cmds \<Rightarrow> 'd cmds" where
  "call c st = st\<lparr>cmd_calls := cmd_calls st @ [c]\<rparr>"

definition put_fields :: "u32 \<Rightarrow> (nat \<times> bytes) list \<Rightarrow> 'd cmds \<Rightarrow> 'd cmds" where
  "put_fields k fs st = st\<lparr>cparams := fold (\<lambda>(off, bs). cfg_put k off bs) fs (cparams st)\<rparr>"

text \<open>The handlers write a group without looking at the result.\<close>

definition save_group :: "'d param_env \<Rightarrow> u32 \<Rightarrow> 'd cmds \<Rightarrow> 'd cmds" where
  "save_group env k st = st\<lparr>cparams := snd (cfg_save env k (cparams st))\<rparr>"

definition set_group :: "'d param_env \<Rightarrow> u32 \<Rightarrow> (nat \<times> bytes) list \<Rightarrow> 'd cmds \<Rightarrow> 'd cmds" where
  "set_group env k fs st = save_group env k (put_fields k ((0, [FLAG_VALID]) # fs) st)"

section \<open>Alarms and detection\<close>

text \<open>\<open>REMALM\<close>, \<open>PULLALM\<close> and \<open>MOTDETALM\<close> differ in the group only.\<close>

definition switch_mode_handler :: "u32 \<Rightarrow> 'd param_env \<Rightarrow> at_cmd \<Rightarrow> 'd cmds \<Rightarrow> 'd cmd_result" where
  "switch_mode_handler k env m st =
     (if parm_count m = 0 then show_values (parm m ! 0) [on_off (cf st k ! 1), print_u8 (cf st k ! 2)] m st
      else if parm_count m \<noteq> 2 then param_invalid m st
      else case (sw_arg (parm m ! 1), num_if 0 (in_range 0 3) (parm m ! 2)) of
        (Some sw, Some v) \<Rightarrow> answer ''Set OK'' m (set_group env k [(1, [sw]), (2, [of_int v])] st)
      | _ \<Rightarrow> param_invalid m st)"

definition remalm_cmd_handler :: "'d param_env \<Rightarrow> at_cmd \<Rightarrow> 'd cmds \<Rightarrow> 'd cmd_result" where
  "remalm_cmd_handler = switch_mode_handler ZMS_ID_REM_ALM_CONFIG"

definition pullalm_cmd_handler :: "'d param_env \<Rightarrow> at_cmd \<Rightarrow> 'd cmds \<Rightarrow> 'd cmd_result" where
  "pullalm_cmd_handler = switch_mode_handler ZMS_ID_PULL_ALM_CONFIG"

definition motdetalm_cmd_handler :: "'d param_env \<Rightarrow> at_cmd \<Rightarrow> 'd cmds \<Rightarrow> 'd cmd_result" where
  "motdetalm_cmd_handler = switch_mode_handler ZMS_ID_MOTDETALM_CONFIG"

text \<open>A limit within its bounds or 255; \<open>high\<close> below \<open>low\<close> is refused unless \<open>low\<close> is off.\<close>

definition threshold :: "int \<Rightarrow> int \<Rightarrow> int \<Rightarrow> bool" where
  "threshold lo hi v \<longleftrightarrow> \<not> ((v < lo \<or> v > hi) \<and> v \<noteq> 255)"

definition crossed :: "int \<Rightarrow> int \<Rightarrow> bool" where
  "crossed low high \<longleftrightarrow> high < low \<and> low \<noteq> 255"

text \<open>The query prints the name, the switch and five numbers from four of them, which is undefined.\<close>

definition patalm_cmd_handler :: "'d param_env \<Rightarrow> at_cmd \<Rightarrow> 'd cmds \<Rightarrow> 'd cmd_result" where
  "patalm_cmd_handler env m st =
     (if parm_count m = 0 then None
      else if parm_count m \<noteq> 5 then param_invalid m st
      else case (sw_arg (parm m ! 1), num_if 0 (threshold 30 250) (parm m ! 2), num_if 0 (threshold 30 250) (parm m ! 3)) of
        (Some sw, Some low, Some high) \<Rightarrow>
          if crossed low high
          then answer ''The low pressure alarm threshold must be less than the high pressure alarm threshold, except 255.'' m st
          else (case (num_if 0 (in_range 0 3) (parm m ! 4), num_if 0 (in_range 0 60) (parm m ! 5)) of
            (Some rt, Some ri) \<Rightarrow>
              answer ''Set OK'' m (set_group env ZMS_ID_PATMALM_CONFIG
                [(1, [sw]), (2, [of_int low]), (3, [of_int high]), (4, [of_int rt]), (5, [of_int ri])] st)
          | _ \<Rightarrow> param_invalid m st)
      | _ \<Rightarrow> param_invalid m st)"

definition tempalm_cmd_handler :: "'d param_env \<Rightarrow> at_cmd \<Rightarrow> 'd cmds \<Rightarrow> 'd cmd_result" where
  "tempalm_cmd_handler env m st =
     (let b = cf st ZMS_ID_TEMPALM_CONFIG in
      if parm_count m = 0
      then show_values (parm m ! 0) [on_off (b ! 1), print_int (s32_at b 4), print_int (s32_at b 8), print_u8 (b ! 12), print_u8 (b ! 13),
             print_u8 (b ! 14), print_u8 (b ! 15)] m st
      else if parm_count m \<noteq> 7 then param_invalid m st
      else case (sw_arg (parm m ! 1), num_if 1 (threshold (-30) 100) (parm m ! 2), num_if 1 (threshold 30 100) (parm m ! 3)) of
        (Some sw, Some tlow, Some thigh) \<Rightarrow>
          if crossed tlow thigh
          then answer ''The low temperature alarm threshold must be less than the high temperature alarm threshold, except 255.'' m st
          else (case (num_if 0 (threshold 0 100) (parm m ! 4), num_if 0 (threshold 0 100) (parm m ! 5)) of
            (Some hlow, Some hhigh) \<Rightarrow>
              if crossed hlow hhigh
              then answer ''The low humidity alarm threshold must be less than the high humidity alarm threshold, except 255.'' m st
              else (case (num_if 0 (in_range 0 3) (parm m ! 6), num_if 0 (in_range 0 60) (parm m ! 7)) of
                (Some rt, Some ri) \<Rightarrow>
                  answer ''Set OK'' m (set_group env ZMS_ID_TEMPALM_CONFIG
                    [(1, [sw]), (4, le32 (of_int tlow)), (8, le32 (of_int thigh)), (12, [of_int hlow]), (13, [of_int hhigh]),
                     (14, [of_int rt]), (15, [of_int ri])] st)
              | _ \<Rightarrow> param_invalid m st)
          | _ \<Rightarrow> param_invalid m st)
      | _ \<Rightarrow> param_invalid m st)"

text \<open>The query prints three numbers from two arguments, which is undefined.\<close>

definition motdet_cmd_handler :: "'d param_env \<Rightarrow> at_cmd \<Rightarrow> 'd cmds \<Rightarrow> 'd cmd_result" where
  "motdet_cmd_handler env m st =
     (if parm_count m = 0 then None
      else if parm_count m \<noteq> 2 then param_invalid m st
      else case (num_if 0 (in_range 1 500) (parm m ! 1), num_if 0 (in_range 1 3600) (parm m ! 2)) of
        (Some v, Some d) \<Rightarrow> answer ''Set OK'' m (set_group env ZMS_ID_MOT_DET_CONFIG [(2, le16 (of_int v)), (4, le16 (of_int d))] st)
      | _ \<Rightarrow> param_invalid m st)"

text \<open>Six report modes, parsed in order.\<close>

fun rpt_args :: "bytes list \<Rightarrow> int list option" where
  "rpt_args [] = Some []"
| "rpt_args (p # ps) = do { v \<leftarrow> num_if 0 (in_range 0 3) p; vs \<leftarrow> rpt_args ps; Some (v # vs) }"

definition batlevel_cmd_handler :: "'d param_env \<Rightarrow> at_cmd \<Rightarrow> 'd cmds \<Rightarrow> 'd cmd_result" where
  "batlevel_cmd_handler env m st =
     (if parm_count m = 0 then show_values (parm m ! 0) (map print_u8 (take 6 (drop 1 (cf st ZMS_ID_BAT_LEVEL_CONFIG)))) m st
      else if parm_count m \<noteq> 6 then param_invalid m st
      else case rpt_args (take 6 (drop 1 (parm m))) of
        Some vs \<Rightarrow> answer ''Set OK'' m (set_group env ZMS_ID_BAT_LEVEL_CONFIG [(1, map of_int vs)] st)
      | None \<Rightarrow> param_invalid m st)"

definition chargesta_cmd_handler :: "'d param_env \<Rightarrow> at_cmd \<Rightarrow> 'd cmds \<Rightarrow> 'd cmd_result" where
  "chargesta_cmd_handler env m st =
     (if parm_count m = 0 then show_values (parm m ! 0) [print_u8 (cf st ZMS_ID_BAT_LEVEL_CONFIG ! 7)] m st
      else if parm_count m \<noteq> 1 then param_invalid m st
      else case num_if 0 (in_range 0 3) (parm m ! 1) of
        Some v \<Rightarrow> answer ''Set OK'' m (set_group env ZMS_ID_BAT_LEVEL_CONFIG [(7, [of_int v])] st)
      | None \<Rightarrow> param_invalid m st)"

definition imu_alm_cmd_handler :: "'d param_env \<Rightarrow> at_cmd \<Rightarrow> 'd cmds \<Rightarrow> 'd cmd_result" where
  "imu_alm_cmd_handler env m st =
     (let b = cf st ZMS_ID_IMU_ALM_CONFIG in
      if parm_count m = 0
      then show_values (parm m ! 0) [on_off (b ! 1), print_u8 (b ! 2), print_u8 (b ! 3), print_u8 (b ! 4), print_u8 (b ! 5), print_u8 (b ! 6), print_u8 (b ! 8)] m st
      else if parm_count m \<noteq> 7 then param_invalid m st
      else case (sw_arg (parm m ! 1), num_if 0 (in_range 0 3) (parm m ! 2), num_if 0 (threshold 5 60) (parm m ! 3), num_if 0 (threshold 5 60) (parm m ! 4),
                 num_if 0 (threshold 5 60) (parm m ! 5), num_if 0 (in_range 1 180) (parm m ! 6), num_if 0 (in_range 1 30) (parm m ! 7)) of
        (Some sw, Some rp, Some ro, Some pt, Some yw, Some du, Some re) \<Rightarrow>
          answer ''Set OK'' m (set_group env ZMS_ID_IMU_ALM_CONFIG
            [(1, [sw]), (2, [of_int rp]), (3, [of_int ro]), (4, [of_int pt]), (5, [of_int yw]), (6, [of_int du]), (8, [of_int re])] st)
      | _ \<Rightarrow> param_invalid m st)"

section \<open>Power, recording and queries\<close>

definition pwsave_cmd_handler :: "cmd_in \<Rightarrow> at_cmd \<Rightarrow> 'd cmds \<Rightarrow> 'd cmd_result" where
  "pwsave_cmd_handler inp m st =
     (if parm_count m = 1
      then if is_word (parm m ! 1) ''ON''
           then let st' = call Go_To_Shutdown st
                in if shutdown_result inp = 0 then answer ''Poweroff OK'' m st' else answer ''Poweroff error! Device is charging.'' m st'
           else param_invalid m st
      else param_invalid m st)"

text \<open>\<open>PWRLIMIT\<close> and \<open>STARTR\<close> are a switch each.\<close>

definition pwrlimit_cmd_handler :: "'d param_env \<Rightarrow> at_cmd \<Rightarrow> 'd cmds \<Rightarrow> 'd cmd_result" where
  "pwrlimit_cmd_handler env m st =
     (if parm_count m = 0 then show_values (parm m ! 0) [on_off (cf st ZMS_ID_PWRLIMIT_CONFIG ! 1)] m st
      else if parm_count m \<noteq> 1 then param_invalid m st
      else case sw_arg (parm m ! 1) of
        Some sw \<Rightarrow> answer ''set OK'' m (save_group env ZMS_ID_PWRLIMIT_CONFIG (put_fields ZMS_ID_PWRLIMIT_CONFIG [(1, [sw]), (0, [FLAG_VALID])] st))
      | None \<Rightarrow> param_invalid m st)"

definition startr_cmd_handler :: "'d param_env \<Rightarrow> at_cmd \<Rightarrow> 'd cmds \<Rightarrow> 'd cmd_result" where
  "startr_cmd_handler env m st =
     (if parm_count m = 0 then answer (if cf st ZMS_ID_STARTR_CONFIG ! 1 = 1 then ''STARTR:ON'' else ''STARTR:OFF'') m st
      else if parm_count m \<noteq> 1 then param_invalid m st
      else case sw_arg (parm m ! 1) of
        Some sw \<Rightarrow> answer ''Set OK'' m (save_group env ZMS_ID_STARTR_CONFIG (put_fields ZMS_ID_STARTR_CONFIG [(1, [sw]), (0, [FLAG_VALID])] st))
      | None \<Rightarrow> param_invalid m st)"

text \<open>The numbers of \<open>LPSLEEP\<close> are cut to eight bits before they are checked.\<close>

definition cut8 :: "int \<Rightarrow> int" where
  "cut8 v = uint (of_int v :: u8)"

definition lprunning_cmd_handler :: "'d param_env \<Rightarrow> at_cmd \<Rightarrow> 'd cmds \<Rightarrow> 'd cmd_result" where
  "lprunning_cmd_handler env m st =
     (let k = ZMS_ID_LPSLEEP_CONFIG; b = cf st k in
      if parm_count m = 0 then show_values (ascii ''LPSLEEP'') [on_off (b ! 1), print_u8 (b ! 2), print_u8 (b ! 3)] m st
      else if parm_count m = 1 \<and> is_word (parm m ! 1) ''OFF''
      then answer ''Set OK'' m (call (Post Lpsleep_Exit) (save_group env k (put_fields k [(1, [0]), (0, [FLAG_VALID])] st)))
      else if parm_count m = 1 \<and> is_word (parm m ! 1) ''ON''
      then answer ''Set OK'' m (call (Post Lpsleep_Clear_Hold_Off) (save_group env k (put_fields k [(1, [1]), (0, [FLAG_VALID])] st)))
      else if parm_count m = 3 \<and> is_word (parm m ! 1) ''ON''
      then case (num_arg 0 (parm m ! 2), num_arg 0 (parm m ! 3)) of
             (Some a, Some c) \<Rightarrow>
               if in_range 10 50 (cut8 a) \<and> in_range 1 48 (cut8 c)
               then answer ''Set OK'' m (call (Post Lpsleep_Clear_Hold_Off)
                      (save_group env k (put_fields k [(1, [1]), (2, [of_int (cut8 a)]), (3, [of_int (cut8 c)]), (0, [FLAG_VALID])] st)))
               else param_invalid m st
           | _ \<Rightarrow> param_invalid m st
      else param_invalid m st)"

definition cbmt_cmd_handler :: "cmd_in \<Rightarrow> at_cmd \<Rightarrow> 'd cmds \<Rightarrow> 'd cmd_result" where
  "cbmt_cmd_handler inp m st =
     (if parm_count m = 0
      then Some (BLE_DATA_TYPE_PACKET_MULTIPLE,
             reply (ascii ''RETURN_CBMT:CHARGNIG='' @ ascii (if charging inp then ''CHARGE_IN'' else ''CHARGE_OUT'') @ ascii '',VBAT='' @
               print_int (uint (get_batt_mv inp))) m, st)
      else param_invalid m st)"

text \<open>Two lower-case digits; \<open>hex2ascii\<close> gives the upper-case ones of \<open>CHECK\<close>.\<close>

definition hex_lower :: "u8 \<Rightarrow> u8" where
  "hex_lower d = (if d \<le> 9 then d + 48 else d - 10 + 97)"

definition print_02x :: "u8 \<Rightarrow> bytes" where
  "print_02x v = [hex_lower (drop_bit 4 v AND 0x0F), hex_lower (v AND 0x0F)]"

text \<open>Where the text does not fit, the answer is the refusal.\<close>

definition answer_checked :: "bytes \<Rightarrow> at_cmd \<Rightarrow> 'd cmds \<Rightarrow> 'd cmd_result" where
  "answer_checked txt m st =
     (if 0 < length txt \<and> length txt < RESP_STRING_LENGTH_MAX then Some (BLE_DATA_TYPE_PACKET_MULTIPLE, reply txt m, st)
      else param_invalid m st)"

definition bt_mac_cmd_handler :: "at_cmd \<Rightarrow> 'd cmds \<Rightarrow> 'd cmd_result" where
  "bt_mac_cmd_handler m st =
     (if parm_count m = 0
      then let b = cf st ZMS_ID_MAC
           in answer_checked (parm m ! 0 @ concat (map (\<lambda>i. 58 # print_02x (b ! i)) [6, 5, 4, 3, 2, 1])) m st
      else param_invalid m st)"

definition version_cmd_handler :: "cmd_in \<Rightarrow> at_cmd \<Rightarrow> 'd cmds \<Rightarrow> 'd cmd_result" where
  "version_cmd_handler inp m st =
     (if parm_count m = 0
      then answer_checked (ascii ''[Cell VERSION]'' @ g_lte4GVersion inp @ [59, 10] @ ascii ''[BT VERSION]'' @ software_version inp) m st
      else param_invalid m st)"

text \<open>The three queries that another thread answers.\<close>

definition async_query :: "cmd_post \<Rightarrow> at_cmd \<Rightarrow> 'd cmds \<Rightarrow> 'd cmd_result" where
  "async_query p m st = (if parm_count m = 0 then Some (1, m, call (Post p) st) else param_invalid m st)"

definition patm_cmd_handler :: "at_cmd \<Rightarrow> 'd cmds \<Rightarrow> 'd cmd_result" where
  "patm_cmd_handler = async_query Patm_Read"

definition temp_cmd_handler :: "at_cmd \<Rightarrow> 'd cmds \<Rightarrow> 'd cmd_result" where
  "temp_cmd_handler = async_query Temp_Read"

definition status_cmd_handler :: "at_cmd \<Rightarrow> 'd cmds \<Rightarrow> 'd cmd_result" where
  "status_cmd_handler = async_query Status_Read"

section \<open>Bluetooth\<close>

definition bt_crfpwr_cmd_handler :: "'d param_env \<Rightarrow> at_cmd \<Rightarrow> 'd cmds \<Rightarrow> 'd cmd_result" where
  "bt_crfpwr_cmd_handler env m st =
     (let k = ZMS_ID_BLE_TX_POWER in
      if parm_count m = 0 then show_values (parm m ! 0) [print_int (sint (cf st k ! 1))] m st
      else if parm_count m \<noteq> 1 then param_invalid m st
      else case num_if 1 (\<lambda>v. v = -8 \<or> v = -4 \<or> v = 0 \<or> v = 3 \<or> v = 5 \<or> v = 7) (parm m ! 1) of
        Some v \<Rightarrow> answer ''Set OK!'' m (save_group env k (call (Ble_Set_Tx_Power (of_int v)) (put_fields k [(0, [FLAG_VALID]), (1, [of_int v])] st)))
      | None \<Rightarrow> param_invalid m st)"

text \<open>The condition for mode 3 can not hold: the mode is at most 2.\<close>

definition bt_updata_cmd_handler :: "'d param_env \<Rightarrow> cmd_in \<Rightarrow> at_cmd \<Rightarrow> 'd cmds \<Rightarrow> 'd cmd_result" where
  "bt_updata_cmd_handler env inp m st =
     (let k = ZMS_ID_BT_UPDATA_CONFIG; b = cf st k in
      if parm_count m = 0
      then show_values (parm m ! 0) [print_u8 (b ! 1), print_int (s32_at b 4), print_int (s32_at b 8), print_int (s32_at b 12)] m st
      else if get_lprunning_active inp then answer ''Set Fail! Unauthorized'' m st
      else if parm_count m \<noteq> 4 then param_invalid m st
      else case (num_if 0 (in_range 0 2) (parm m ! 1), num_if 0 (in_range 5 86400) (parm m ! 2),
                 num_if 0 (in_range 5 86400) (parm m ! 3), num_if 0 (in_range 120 86400) (parm m ! 4)) of
        (Some md, Some si, Some sl, Some ui) \<Rightarrow>
          if si \<le> sl \<or> md = 3 \<and> ui \<le> si then param_invalid m st
          else answer ''Set OK!'' m (call (Scan_Set_Config (of_int md) (of_int si) (of_int sl) (of_int ui))
                 (set_group env k [(1, [of_int md]), (4, le32 (of_int si)), (8, le32 (of_int sl)), (12, le32 (of_int ui))] st))
      | _ \<Rightarrow> param_invalid m st)"

definition bluetooth_cmd_handler :: "'d param_env \<Rightarrow> at_cmd \<Rightarrow> 'd cmds \<Rightarrow> 'd cmd_result" where
  "bluetooth_cmd_handler env m st =
     (let k = ZMS_ID_BLUETOOTH_CONFIG; b = cf st k in
      if parm_count m = 0
      then show_values (parm m ! 0) (on_off (b ! 1) # (if b ! 4 \<noteq> 0 then [print_u8 (b ! 2), print_u8 (b ! 3)] else [])) m st
      else if parm_count m = 1
      then case sw_arg (parm m ! 1) of
             Some sw \<Rightarrow> answer ''Set OK!'' m (save_group env k (call (Post (if sw \<noteq> 0 then Ble_Open_Adv else Ble_Close_Adv))
                          (put_fields k [(1, [sw]), (0, [FLAG_VALID]), (4, [0])] st)))
           | None \<Rightarrow> param_invalid m st
      else if parm_count m = 3
      then if is_word (parm m ! 1) ''ON''
           then case (num_if 0 (\<lambda>v. v = 5) (parm m ! 2), num_if 0 (\<lambda>v. \<not> v > 30) (parm m ! 3)) of
                  (Some a, Some c) \<Rightarrow> answer ''Set OK!'' m (save_group env k (call (Post Ble_Close_Adv)
                    (put_fields k [(0, [FLAG_VALID]), (1, [1]), (2, [of_int a]), (3, [of_int c]), (4, [1])] st)))
                | _ \<Rightarrow> param_invalid m st
           else param_invalid m st
      else param_invalid m st)"

definition btconnect_cmd_handler :: "'d param_env \<Rightarrow> at_cmd \<Rightarrow> 'd cmds \<Rightarrow> 'd cmd_result" where
  "btconnect_cmd_handler env m st =
     (let k = ZMS_ID_BTCONNECT_CONFIG; b = cf st k in
      if parm_count m = 0 then show_values (parm m ! 0) [on_off (b ! 1), print_nat (u16_at b 2), print_u8 (b ! 4)] m st
      else if parm_count m \<noteq> 3 then param_invalid m st
      else case (sw_arg (parm m ! 1), num_if 0 (in_range 300 43200) (parm m ! 2), num_if 0 (in_range 0 3) (parm m ! 3)) of
        (Some sw, Some iv, Some rp) \<Rightarrow> answer ''Set OK'' m (set_group env k [(1, [sw]), (2, le16 (of_int iv)), (4, [of_int rp])] st)
      | _ \<Rightarrow> param_invalid m st)"

definition tag_cmd_handler :: "'d param_env \<Rightarrow> at_cmd \<Rightarrow> 'd cmds \<Rightarrow> 'd cmd_result" where
  "tag_cmd_handler env m st =
     (let k = ZMS_ID_TAG_CONFIG; b = cf st k;
          finish = (\<lambda>fs. let st' = set_group env k fs st
                         in answer ''Set OK!'' m (call (Updata_Adv_Param (of_nat (u16_at (cf st' k) 2))) st')) in
      if parm_count m = 0 then show_values (parm m ! 0) [on_off (b ! 1), print_nat (u16_at b 2)] m st
      else if parm_count m \<noteq> 1 \<and> parm_count m \<noteq> 2 then param_invalid m st
      else case sw_arg (parm m ! 1) of
        None \<Rightarrow> param_invalid m st
      | Some sw \<Rightarrow>
          if parm_count m = 2
          then case num_if 0 (in_range 100 60000) (parm m ! 2) of
                 Some iv \<Rightarrow> finish [(1, [sw]), (2, le16 (of_int iv))]
               | None \<Rightarrow> param_invalid m st
          else finish [(1, [sw])])"

text \<open>\<open>JATAG\<close> and \<open>JGTAG\<close>: one advertisement may be switched only while the other one is on.\<close>

definition adv_tag_handler :: "my_adv \<Rightarrow> 'd param_env \<Rightarrow> at_cmd \<Rightarrow> 'd cmds \<Rightarrow> 'd cmd_result" where
  "adv_tag_handler a env m st =
     (let k = ZMS_ID_ADV_VALID; own = (if a = APPLE_ADV_TYPE then 1 else 2); other = (if a = APPLE_ADV_TYPE then 2 else 1) in
      if parm_count m = 0 then show_values (parm m ! 0) [on_off (cf st k ! own)] m st
      else if parm_count m \<noteq> 1 then param_invalid m st
      else case sw_arg (parm m ! 1) of
        None \<Rightarrow> param_invalid m st
      | Some sw \<Rightarrow>
          if cf st k ! other = 0 then param_invalid m st
          else
            let st1 = put_fields k [(0, [FLAG_VALID]), (own, [sw])] st;
                st2 = st1\<lparr>cparams := set_adv_valid_status a sw (cparams st1)\<rparr>;
                st3 = call (No_Con_Start_Adv (cf st2 ZMS_ID_TAG_CONFIG ! 1)) st2
            in answer ''Set OK!'' m (save_group env k st3))"

definition jatag_cmd_handler :: "'d param_env \<Rightarrow> at_cmd \<Rightarrow> 'd cmds \<Rightarrow> 'd cmd_result" where
  "jatag_cmd_handler = adv_tag_handler APPLE_ADV_TYPE"

definition jgtag_cmd_handler :: "'d param_env \<Rightarrow> at_cmd \<Rightarrow> 'd cmds \<Rightarrow> 'd cmd_result" where
  "jgtag_cmd_handler = adv_tag_handler GOOGLE_ADV_TYPE"

text \<open>The length passed to the check is the one byte of \<open>strlen\<close>.\<close>

definition taginit_param_cmd_handler :: "'d param_env \<Rightarrow> at_cmd \<Rightarrow> 'd cmds \<Rightarrow> 'd cmd_result" where
  "taginit_param_cmd_handler env m st =
     (if parm_count m = 0
      then Some (BLE_DATA_TYPE_PACKET_MULTIPLE,
             reply (ascii ''TAG:FF:'' @ hex_text (drop 1 (cf st ZMS_ID_FF)) @ ascii '';SN:'' @ takeWhile (\<lambda>c. c \<noteq> 0) (drop 1 (cf st ZMS_ID_SN))) m, st)
      else if parm_count m \<noteq> 2 then param_invalid m st
      else if \<not> my_param_check_license (Some (parm m ! 1)) (of_nat (length (parm m ! 1))) ZMS_ID_FF then param_invalid m st
      else if \<not> my_param_check_license (Some (parm m ! 2)) (of_nat (length (parm m ! 2))) ZMS_ID_SN then param_invalid m st
      else
        let st1 = set_group env ZMS_ID_FF [(1, snd (hexstr_to_hex 29 (Some (parm m ! 1))))] st
        in answer ''Set OK!'' m (set_group env ZMS_ID_SN [(1, take 12 (parm m ! 2))] st1))"

definition btlog_cmd_handler :: "'d param_env \<Rightarrow> at_cmd \<Rightarrow> 'd cmds \<Rightarrow> 'd cmd_result" where
  "btlog_cmd_handler env m st =
     (let k = ZMS_ID_BLE_LOG_CONFIG in
      if parm_count m = 0 then show_values (ascii ''BTLOG'') [on_off (cf st k ! 1)] m st
      else if parm_count m = 1
      then case sw_arg (parm m ! 1) of
             Some sw \<Rightarrow>
               (let st1 = put_fields k [(1, [sw])] st
                in case my_param_set_ble_log_config env (Some (cf st1 k)) (cparams st1) of (r, p) \<Rightarrow>
                     answer (if r = 0 then ''Set OK!'' else ''Set Fail! Unauthorized'') m (st1\<lparr>cparams := p\<rparr>))
           | None \<Rightarrow> param_invalid m st
      else param_invalid m st)"

section \<open>Lamps, light sensor, buzzer and timers\<close>

definition led_cmd_handler :: "'d param_env \<Rightarrow> cmd_in \<Rightarrow> at_cmd \<Rightarrow> 'd cmds \<Rightarrow> 'd cmd_result" where
  "led_cmd_handler env inp m st =
     (let k = ZMS_ID_LED_CONFIG in
      if parm_count m = 0 then show_values (parm m ! 0) [print_u8 (cf st k ! 1)] m st
      else if parm_count m \<noteq> 1 then param_invalid m st
      else case num_if 0 (\<lambda>v. \<not> v > 2) (parm m ! 1) of
        Some v \<Rightarrow>
          let st1 = put_fields k [(0, [FLAG_VALID]), (1, [of_int v])] st;
              st2 = call (Post (if cf st1 k ! 1 = 2 then Led_Enable else Led_Disable)) st1;
              st3 = (if g_bLteReady inp then call Send_Led_Command st2 else st2)
          in answer ''Set OK!'' m (save_group env k st3)
      | None \<Rightarrow> param_invalid m st)"

definition ltint_cmd_handler :: "'d param_env \<Rightarrow> at_cmd \<Rightarrow> 'd cmds \<Rightarrow> 'd cmd_result" where
  "ltint_cmd_handler env m st =
     (let k = ZMS_ID_LTINT_CONFIG; b = cf st k in
      if parm_count m = 0 then show_values (parm m ! 0) [print_nat (u16_at b 2), print_nat (u16_at b 4)] m st
      else if parm_count m \<noteq> 2 then param_invalid m st
      else case (num_if 0 (in_range 100 5000) (parm m ! 1), num_if 0 (in_range 100 5000) (parm m ! 2)) of
        (Some t1, Some t2) \<Rightarrow> answer ''Set OK!'' m (set_group env k [(2, le16 (of_int t1)), (4, le16 (of_int t2))] st)
      | _ \<Rightarrow> param_invalid m st)"

definition buzzer_cmd_handler :: "'d param_env \<Rightarrow> at_cmd \<Rightarrow> 'd cmds \<Rightarrow> 'd cmd_result" where
  "buzzer_cmd_handler env m st =
     (let k = ZMS_ID_BUZZER_CONFIG in
      if parm_count m = 0 then show_values (parm m ! 0) [print_u8 (cf st k ! 1)] m st
      else if parm_count m \<noteq> 1 then param_invalid m st
      else case num_if 0 (in_range 0 5) (parm m ! 1) of
        Some v \<Rightarrow> answer ''Set OK!'' m (call (Set_Buzzer_Mode v) (set_group env k [(1, [of_int v])] st))
      | None \<Rightarrow> param_invalid m st)"

text \<open>The interval of the sensor timers is cut to sixteen bits before it is checked.\<close>

definition cut16 :: "int \<Rightarrow> int" where
  "cut16 v = uint (of_int v :: u16)"

definition timer_cmd_handler :: "u32 \<Rightarrow> string \<Rightarrow> cmd_post \<Rightarrow> 'd param_env \<Rightarrow> at_cmd \<Rightarrow> 'd cmds \<Rightarrow> 'd cmd_result" where
  "timer_cmd_handler k name reload env m st =
     (let b = cf st k in
      if parm_count m = 0 then show_values (ascii name) [print_nat (u16_at b 2), on_off (b ! 4)] m st
      else if parm_count m \<noteq> 2 then param_invalid m st
      else case (num_arg 0 (parm m ! 1), sw_arg (parm m ! 2)) of
        (Some v, Some sw) \<Rightarrow>
          if cut16 v = 0 \<or> 10 \<le> cut16 v \<and> cut16 v \<le> 1440
          then answer ''Set OK!'' m (call (Post reload) (set_group env k [(2, le16 (of_int (cut16 v))), (4, [sw])] st))
          else param_invalid m st
      | _ \<Rightarrow> param_invalid m st)"

definition patmtimer_cmd_handler :: "'d param_env \<Rightarrow> at_cmd \<Rightarrow> 'd cmds \<Rightarrow> 'd cmd_result" where
  "patmtimer_cmd_handler = timer_cmd_handler ZMS_ID_PATM_TIMER_CONFIG ''PATMTIMER'' Patm_Reload"

definition temptimer_cmd_handler :: "'d param_env \<Rightarrow> at_cmd \<Rightarrow> 'd cmds \<Rightarrow> 'd cmd_result" where
  "temptimer_cmd_handler = timer_cmd_handler ZMS_ID_TEMP_TIMER_CONFIG ''TEMPTIMER'' Temp_Reload"

section \<open>Work modes\<close>

abbreviation (input) MY_MODE_CONTINUOUS :: int where "MY_MODE_CONTINUOUS \<equiv> 0"
abbreviation (input) MY_MODE_LONG_LIFE :: int where "MY_MODE_LONG_LIFE \<equiv> 1"
abbreviation (input) MY_MODE_SMART :: int where "MY_MODE_SMART \<equiv> 2"
abbreviation (input) MY_MODE_ALWAYS_ONLINE :: int where "MY_MODE_ALWAYS_ONLINE \<equiv> 3"
abbreviation (input) MY_MODE_MAX :: int where "MY_MODE_MAX \<equiv> 4"

text \<open>A number as the mode enumeration holds it, and the bytes of the mode in the structure.\<close>

definition mode_of :: "cmd_in \<Rightarrow> int \<Rightarrow> int" where
  "mode_of inp v = (if short_enums inp then cut8 v else uint (of_int v :: u32))"

definition mode_bytes :: "cmd_in \<Rightarrow> int \<Rightarrow> bytes" where
  "mode_bytes inp v = (if short_enums inp then [of_int v] else le32 (of_int v))"

definition current_mode :: "cmd_in \<Rightarrow> bytes \<Rightarrow> int" where
  "current_mode inp b = (if short_enums inp then uint (b ! 4) else int (u32_at b 4))"

text \<open>The checked values of the long battery mode: the fields to store, or nothing.\<close>

definition set_long_battery_params :: "u16 \<Rightarrow> bytes \<Rightarrow> u8 \<Rightarrow> (nat \<times> bytes) list option" where
  "set_long_battery_params reporting_interval start_time_str gnss_sw =
     (if reporting_interval < 5 \<or> reporting_interval > 1440 then None
      else if length start_time_str \<noteq> 4 then None
      else if \<not> list_all is_digit start_time_str then None
      else
        let start_time = (of_int (atoi start_time_str) :: u16);
            hh = start_time div 100; mm = start_time mod 100
        in if \<not> (hh \<le> 24 \<and> mm \<le> 59 \<and> \<not> (hh = 24 \<and> mm \<noteq> 0)) then None
           else if gnss_sw > 1 then None
           else Some [(16, le32 (ucast reporting_interval)), (20, start_time_str @ [0]), (25, [gnss_sw])])"

definition set_intelligent_params :: "u8 \<Rightarrow> u32 \<Rightarrow> u32 \<Rightarrow> (nat \<times> bytes) list option" where
  "set_intelligent_params sub_mode static_int moving_int =
     (if sub_mode > 5 then None
      else if static_int \<noteq> 0 \<and> (if sub_mode \<le> 4 then static_int < 180 \<or> static_int > 3600 else static_int < 10 \<or> static_int > 86400) then None
      else if (if sub_mode = 0 \<or> sub_mode = 1 \<or> sub_mode = 3 then moving_int < 180 \<or> moving_int > 3600 else moving_int < 10 \<or> moving_int > 86400) then None
      else Some [(28, [sub_mode]), (32 + 4 * unat sub_mode, le32 static_int), (56 + 4 * unat sub_mode, le32 moving_int)])"

definition modeset_finish :: "'d param_env \<Rightarrow> cmd_in \<Rightarrow> int \<Rightarrow> (nat \<times> bytes) list \<Rightarrow> cmd_call list \<Rightarrow> at_cmd \<Rightarrow> 'd cmds \<Rightarrow> 'd cmd_result" where
  "modeset_finish env inp mode fs calls m st =
     (let k = ZMS_ID_WORK_MODE_CONFIG; st1 = save_group env k (put_fields k (fs @ [(0, [FLAG_VALID])]) st)
      in answer ''Set OK!'' m (if current_mode inp (cf st1 k) = mode then fold call (Send_Work_Mode_Command mode # calls) st1 else st1))"

definition modeset_cmd_handler :: "'d param_env \<Rightarrow> cmd_in \<Rightarrow> at_cmd \<Rightarrow> 'd cmds \<Rightarrow> 'd cmd_result" where
  "modeset_cmd_handler env inp m st =
     (let k = ZMS_ID_WORK_MODE_CONFIG in
      if parm_count m = 0 then param_invalid m st
      else case num_arg 0 (parm m ! 1) of
        None \<Rightarrow> param_invalid m st
      | Some n \<Rightarrow>
          let mode = mode_of inp n in
          if mode \<ge> MY_MODE_MAX then param_invalid m st
          else if parm_count m = 1
          then let st1 = (if get_last_work_mode inp \<noteq> mode
                          then save_group env k (put_fields k [(0, [FLAG_VALID]), (4, mode_bytes inp mode)] st) else st)
               in answer ''Set OK!'' m (call (Switch_Work_Mode mode) st1)
          else if mode = MY_MODE_CONTINUOUS
          then if parm_count m \<noteq> 3 then param_invalid m st
               else case (num_if 0 (in_range 5 86400) (parm m ! 2), num_if 0 (\<lambda>v. v = 0 \<or> in_range 5 1000 v) (parm m ! 3)) of
                 (Some sec, Some dis) \<Rightarrow> modeset_finish env inp mode [(8, le32 (of_int sec)), (12, le32 (of_int dis))] [] m st
               | _ \<Rightarrow> param_invalid m st
          else if mode = MY_MODE_LONG_LIFE
          then if parm_count m \<noteq> 4 then param_invalid m st
               else case (num_arg 0 (parm m ! 2), sw_arg (parm m ! 4)) of
                 (Some iv, Some gnss) \<Rightarrow>
                   (case set_long_battery_params (of_int iv) (parm m ! 3) gnss of
                      Some fs \<Rightarrow> modeset_finish env inp mode fs [Post Reset_Lte_Timer] m st
                    | None \<Rightarrow> param_invalid m st)
               | _ \<Rightarrow> param_invalid m st
          else if mode = MY_MODE_SMART
          then if parm_count m = 4
               then case (num_arg 0 (parm m ! 2), num_arg 0 (parm m ! 3), num_arg 0 (parm m ! 4)) of
                      (Some sub, Some si, Some mi) \<Rightarrow>
                        (case set_intelligent_params (of_int sub) (of_int si) (of_int mi) of
                           Some fs \<Rightarrow> modeset_finish env inp mode fs [Smart_Apply_Lte_Policy] m st
                         | None \<Rightarrow> param_invalid m st)
                    | _ \<Rightarrow> param_invalid m st
               else if parm_count m = 2
               then case num_if 0 (\<lambda>v. \<not> v > 5) (parm m ! 2) of
                      Some sub \<Rightarrow> modeset_finish env inp mode [(28, [of_int sub])] [Smart_Apply_Lte_Policy] m st
                    | None \<Rightarrow> param_invalid m st
               else param_invalid m st
          else param_invalid m st)"

text \<open>The values of the modes. The index of the smart intervals is the stored sub mode; beyond the arrays the read is undefined.\<close>

definition mode_values :: "bytes \<Rightarrow> int \<Rightarrow> bytes list option" where
  "mode_values b mode =
     (if mode = MY_MODE_CONTINUOUS then Some [print_int mode, print_int (s32_at b 8), print_int (s32_at b 12)]
      else if mode = MY_MODE_LONG_LIFE
      then Some [print_int mode, print_int (s32_at b 16), takeWhile (\<lambda>c. c \<noteq> 0) (drop 20 b), on_off (b ! 25)]
      else if mode = MY_MODE_SMART
      then if unat (b ! 28) < 6
           then Some [print_int mode, print_u8 (b ! 28), print_int (s32_at b (32 + 4 * unat (b ! 28))), print_int (s32_at b (56 + 4 * unat (b ! 28)))]
           else None
      else Some [print_int mode])"

definition mode_line :: "bytes list \<Rightarrow> bytes" where
  "mode_line vs = ascii ''MODE:'' @ commas vs"

definition modeget_cmd_handler :: "cmd_in \<Rightarrow> at_cmd \<Rightarrow> 'd cmds \<Rightarrow> 'd cmd_result" where
  "modeget_cmd_handler inp m st =
     (let b = cf st ZMS_ID_WORK_MODE_CONFIG; mode = current_mode inp b in
      if parm_count m \<noteq> 0 then param_invalid m st
      else if mode > MY_MODE_ALWAYS_ONLINE then param_invalid m st
      else Option.bind (mode_values b mode) (\<lambda>vs. answer_checked (mode_line vs) m st))"

definition modeparam_cmd_handler :: "at_cmd \<Rightarrow> 'd cmds \<Rightarrow> 'd cmd_result" where
  "modeparam_cmd_handler m st =
     (let b = cf st ZMS_ID_WORK_MODE_CONFIG in
      if parm_count m \<noteq> 0 then param_invalid m st
      else do {
        v0 \<leftarrow> mode_values b 0; v1 \<leftarrow> mode_values b 1; v2 \<leftarrow> mode_values b 2; v3 \<leftarrow> mode_values b 3;
        answer_checked (mode_line v0 @ 10 # mode_line v1 @ 10 # mode_line v2 @ 10 # mode_line v3) m st })"

section \<open>Addresses that are passed through\<close>

abbreviation (input) PARMAC_COUNT :: nat where "PARMAC_COUNT \<equiv> 141"

text \<open>The \<open>i\<close>-th address of the list, seven bytes.\<close>

definition parmac_at :: "bytes \<Rightarrow> nat \<Rightarrow> bytes" where
  "parmac_at b i = take 7 (drop (1 + 7 * i) b)"

definition parmac_list :: "bytes \<Rightarrow> bytes list" where
  "parmac_list b = map (parmac_at b) [0..<unat (b ! PARMAC_COUNT)]"

text \<open>The list operations of \<open>my_ble_scan.c\<close> on the stored structure.\<close>

definition parmac_add :: "bytes \<Rightarrow> bytes \<Rightarrow> int \<times> bytes" where
  "parmac_add addr b =
     (if b ! PARMAC_COUNT \<ge> 20 then (-12, b)
      else if addr \<in> set (parmac_list b) then (-17, b)
      else (0, mem_put (mem_put b (1 + 7 * unat (b ! PARMAC_COUNT)) addr) PARMAC_COUNT [b ! PARMAC_COUNT + 1]))"

text \<open>Moving up from \<open>j\<close> the entries below the last one.\<close>

function parmac_shift :: "nat \<Rightarrow> nat \<Rightarrow> bytes \<Rightarrow> bytes" where
  "parmac_shift j n b = (if j + 1 < n then parmac_shift (j + 1) n (mem_put b (1 + 7 * j) (parmac_at b (j + 1))) else b)"
  by pat_completeness auto
termination by (relation "measure (\<lambda>(j, n, b). n - j)") auto

declare parmac_shift.simps [simp del]

definition parmac_del :: "bytes \<Rightarrow> bytes \<Rightarrow> int \<times> bytes" where
  "parmac_del addr b =
     (let n = unat (b ! PARMAC_COUNT) in
      case filter (\<lambda>i. parmac_at b i = addr) [0..<n] of
        [] \<Rightarrow> (-2, b)
      | i # _ \<Rightarrow> (0, mem_put (mem_put (parmac_shift i n b) (1 + 7 * (n - 1)) (replicate 7 0)) PARMAC_COUNT [b ! PARMAC_COUNT - 1]))"

definition parmac_del_all :: "bytes \<Rightarrow> bytes" where
  "parmac_del_all b = mem_put (mem_put b 1 (replicate 140 0)) PARMAC_COUNT [0]"

text \<open>An address as the list holds it: type public, the parsed bytes in reverse; bytes the parser did not write keep what the array held.\<close>

definition parmac_addr :: "cmd_in \<Rightarrow> bytes \<Rightarrow> bytes option" where
  "parmac_addr inp s =
     (case macstr_to_hex (Some s) of (ok, out) \<Rightarrow>
        if ok then Some (0 # rev (mem_put (stack_junk inp) 0 out)) else None)"

definition cf_put :: "u32 \<Rightarrow> bytes \<Rightarrow> 'd cmds \<Rightarrow> 'd cmds" where
  "cf_put k b st = put_fields k [(0, b)] st"

text \<open>The addresses are added one by one; the first one that is not an address ends the loop.\<close>

fun parmac_add_all :: "cmd_in \<Rightarrow> bytes list \<Rightarrow> bytes \<Rightarrow> bool \<times> bytes" where
  "parmac_add_all inp [] b = (True, b)"
| "parmac_add_all inp (p # ps) b =
     (case parmac_addr inp p of
        None \<Rightarrow> (False, b)
      | Some addr \<Rightarrow> parmac_add_all inp ps (snd (parmac_add addr b)))"

definition append_reply :: "bytes \<Rightarrow> at_cmd \<Rightarrow> at_cmd" where
  "append_reply txt m = m\<lparr>resp_msg := take (RESP_STRING_LENGTH_MAX - 1) (take (unat (resp_length m)) (resp_msg m) @ txt),
     resp_length := resp_length m + of_nat (length txt)\<rparr>"

definition bt_parmac_cmd_handler :: "'d param_env \<Rightarrow> cmd_in \<Rightarrow> at_cmd \<Rightarrow> 'd cmds \<Rightarrow> 'd cmd_result" where
  "bt_parmac_cmd_handler env inp m st =
     (let k = ZMS_ID_BT_PARMAC_CONFIG; b = cf st k in
      if parm_count m < 1 then param_invalid m st
      else if is_word (parm m ! 1) ''ADD''
      then let add_count = unat (parm_count m) - 1 in
           if add_count < 1 \<or> add_count > 6 then param_invalid m st
           else if unat (b ! PARMAC_COUNT) + add_count > 20 then param_invalid m st
           else (case parmac_add_all inp (take add_count (drop 2 (parm m))) b of (ok, b') \<Rightarrow>
                   if ok then answer ''Set OK!'' m (set_group env k [] (cf_put k b' st)) else param_invalid m (cf_put k b' st))
      else if is_word (parm m ! 1) ''DEL''
      then if parm_count m \<noteq> 2 then param_invalid m st
           else if is_word (parm m ! 2) ''ALL'' then answer ''Set OK!'' m (set_group env k [] (cf_put k (parmac_del_all b) st))
           else (case parmac_addr inp (parm m ! 2) of
                   None \<Rightarrow> param_invalid m st
                 | Some addr \<Rightarrow> (case parmac_del addr b of (r, b') \<Rightarrow>
                     if r = 0 then answer ''Set OK!'' m (cf_put k b' st) else param_invalid m st))
      else if is_word (parm m ! 1) ''CHECK''
      then if parm_count m \<noteq> 1 then param_invalid m st
           else if parmac_list b = [] then answer ''Set Fail! Unauthorized.'' m st
           else let txts = map (\<lambda>a. hex_text (rev (drop 1 a))) (parmac_list b)
                in Some (BLE_DATA_TYPE_PACKET_MULTIPLE,
                     fold append_reply (map (\<lambda>t. t @ [59]) (butlast txts) @ [last txts]) m, st)
      else param_invalid m st)"

section \<open>Commands for the LTE module\<close>

text \<open>
  The messages are recorded as posted. The code ignores the result of the posting, so it behaves in the same way when the
  queue of the LTE thread is full and the message is dropped.
\<close>

definition lte_send_command :: "cmd_in \<Rightarrow> bytes \<Rightarrow> bytes option \<Rightarrow> 'd cmds \<Rightarrow> int \<times> 'd cmds" where
  "lte_send_command inp cmd_name param st =
     (let st1 = (if get_lte_power_state inp then st else call (Post Lte_Pwron) st)
      in if \<not> alloc_msg inp then (-1, st1)
         else (0, call (Post (Lte_Ble_Data (ascii ''BLE+'' @ cmd_name @
                (case param of Some p \<Rightarrow> if p \<noteq> [] then 61 # p else [] | None \<Rightarrow> []) @ [13, 10]))) st1))"

text \<open>
  The text of a command is put together again in a buffer of 128 bytes. Every piece is
  printed with the size of the whole buffer as the limit, at the end of the previous one.
\<close>

definition piece_fits :: "nat \<Rightarrow> bytes \<Rightarrow> bool" where
  "piece_fits offset txt \<longleftrightarrow> offset + min (length txt) (CMD_STRING_LENGTH_MAX - 1) + 1 \<le> CMD_STRING_LENGTH_MAX"

fun lte_cmd_text :: "bytes \<Rightarrow> bytes list \<Rightarrow> bytes option" where
  "lte_cmd_text acc [] = (if piece_fits (length acc) [35] then Some (acc @ [35]) else None)"
| "lte_cmd_text acc (p # ps) = (if piece_fits (length acc) (44 # p) then lte_cmd_text (acc @ 44 # p) ps else None)"

definition lte_cmd_handler :: "cmd_in \<Rightarrow> at_cmd \<Rightarrow> 'd cmds \<Rightarrow> 'd cmd_result" where
  "lte_cmd_handler inp m st =
     (if \<not> alloc_cmd inp then Some (-1, m, st)
      else if \<not> piece_fits 0 (parm m ! 0) then None
      else do {
        txt \<leftarrow> lte_cmd_text (parm m ! 0) (take (unat (parm_count m)) (drop 1 (parm m)));
        let (ret, st1) = lte_send_command inp (ascii ''CMD'') (Some txt) st;
        if ret < 0
        then Some (BLE_DATA_TYPE_PACKET_MULTIPLE, m\<lparr>resp_msg := take (RESP_STRING_LENGTH_MAX - 1) (ascii ''RETURN_'' @ parm m ! 0 @ ascii ''_FAIL'')\<rparr>, st1)
        else Some (BLE_DATA_TYPE_PACKET_MULTIPLE, reply (ascii ''RETURN_'' @ parm m ! 0 @ ascii ''_OK'') m, st1) })"

definition factory_reset_handler :: "string \<Rightarrow> 'd param_env \<Rightarrow> cmd_in \<Rightarrow> at_cmd \<Rightarrow> 'd cmds \<Rightarrow> 'd cmd_result" where
  "factory_reset_handler arg env inp m st =
     (if parm_count m = 0
      then let st1 = st\<lparr>cparams := snd (my_param_factory_reset env (cparams st))\<rparr>;
               st2 = snd (lte_send_command inp (ascii ''FACTORY'') (Some (ascii arg)) st1)
           in answer ''Set OK'' m (st2\<lparr>g_factory_mode := True\<rparr>)
      else param_invalid m st)"

definition factory_cmd_handler :: "'d param_env \<Rightarrow> cmd_in \<Rightarrow> at_cmd \<Rightarrow> 'd cmds \<Rightarrow> 'd cmd_result" where
  "factory_cmd_handler = factory_reset_handler ''0''"

definition factoryall_cmd_handler :: "'d param_env \<Rightarrow> cmd_in \<Rightarrow> at_cmd \<Rightarrow> 'd cmds \<Rightarrow> 'd cmd_result" where
  "factoryall_cmd_handler = factory_reset_handler ''1''"

section \<open>Dispatch\<close>

definition at_cmd_attr_table :: "'d param_env \<Rightarrow> cmd_in \<Rightarrow> (string \<times> (at_cmd \<Rightarrow> 'd cmds \<Rightarrow> 'd cmd_result)) list" where
  "at_cmd_attr_table env inp =
     [(''REMALM'', remalm_cmd_handler env), (''PULLALM'', pullalm_cmd_handler env), (''PATMALM'', patalm_cmd_handler env),
      (''TEMPALM'', tempalm_cmd_handler env), (''MOTDET'', motdet_cmd_handler env), (''MOTDETALM'', motdetalm_cmd_handler env),
      (''BATLEVEL'', batlevel_cmd_handler env), (''CHARGESTA'', chargesta_cmd_handler env), (''PWRSAVE'', pwsave_cmd_handler inp),
      (''PWRLIMIT'', pwrlimit_cmd_handler env), (''LPSLEEP'', lprunning_cmd_handler env), (''STARTR'', startr_cmd_handler env),
      (''CBMT'', cbmt_cmd_handler inp), (''BT_MAC'', bt_mac_cmd_handler), (''BT_CRFPWR'', bt_crfpwr_cmd_handler env),
      (''BT_UPDATA'', bt_updata_cmd_handler env inp), (''BLUETOOTH'', bluetooth_cmd_handler env), (''BTCONNECT'', btconnect_cmd_handler env),
      (''TAG'', tag_cmd_handler env), (''JATAG'', jatag_cmd_handler env), (''JGTAG'', jgtag_cmd_handler env),
      (''TAGINIT_PARAM'', taginit_param_cmd_handler env), (''LED'', led_cmd_handler env inp), (''LTINT'', ltint_cmd_handler env),
      (''BUZZER'', buzzer_cmd_handler env), (''BTLOG'', btlog_cmd_handler env), (''VERSION'', version_cmd_handler inp),
      (''MODESET'', modeset_cmd_handler env inp), (''MODEGET'', modeget_cmd_handler inp), (''MODEPARAM'', modeparam_cmd_handler),
      (''BT_PARMAC'', bt_parmac_cmd_handler env inp), (''STATUS'', status_cmd_handler), (''PATMTIMER'', patmtimer_cmd_handler env),
      (''PATM'', patm_cmd_handler), (''TEMPTIMER'', temptimer_cmd_handler env), (''TEMP'', temp_cmd_handler),
      (''IMUALM'', imu_alm_cmd_handler env), (''FACTORY'', factory_cmd_handler env inp), (''FACTORYALL'', factoryall_cmd_handler env inp)]"

definition lte_cmd_attr_table :: "string list" where
  "lte_cmd_attr_table =
     [''MILEAGE'', ''TRIP'', ''BOOTLOC'', ''SF'', ''GFENCE'', ''APN'', ''HBT'', ''SERVER'', ''SIMPRI'', ''DEEPSLEEPDT'', ''CENTER'',
      ''SECOND_SERVER'', ''CHECK'', ''GPSDMODE'', ''POSITIONIMMED'', ''BATCH'', ''ANGLEREP'', ''GPSCOLD'', ''NETSET'', ''ICCID'', ''IMSI'',
      ''ASETGMT'', ''GMT'', ''AMSSERVER'', ''NETLOG'']"

definition dispatch :: "'d param_env \<Rightarrow> cmd_in \<Rightarrow> at_cmd \<Rightarrow> 'd cmds \<Rightarrow> 'd cmd_result" where
  "dispatch env inp m st =
     (case find (\<lambda>(name, h). my_strcasecmp (ascii name) (parm m ! 0) = 0) (at_cmd_attr_table env inp) of
        Some (name, h) \<Rightarrow> h m st
      | None \<Rightarrow>
          if list_ex (\<lambda>name. my_strcasecmp (ascii name) (parm m ! 0) = 0) lte_cmd_attr_table then lte_cmd_handler inp m st
          else Some (0, reply (ascii ''Set Fail! UnknownCmd'') m, st))"

definition at_recv_cmd_handler :: "'d param_env \<Rightarrow> cmd_in \<Rightarrow> bytes \<Rightarrow> at_cmd \<Rightarrow> 'd cmds \<Rightarrow> (u16 \<times> at_cmd \<times> 'd cmds) option" where
  "at_recv_cmd_handler env inp rcv_msg m st =
     (case cmd_analyse rcv_msg of (par_len, ps) \<Rightarrow>
        if par_len > int PARM_MAX \<or> par_len \<le> 0 then Some (0, m\<lparr>parm := ps\<rparr>, st)
        else map_option (\<lambda>(t, m', st'). (of_int t, m', st')) (dispatch env inp (m\<lparr>parm := ps, parm_count := of_int (par_len - 1)\<rparr>) st))"

definition lte_cmd_source_clear_callback :: "'d cmds \<Rightarrow> 'd cmds" where
  "lte_cmd_source_clear_callback st = st\<lparr>g_lte_cmdSource := 0\<rparr>"

definition run_lte_cmd :: "'d param_env \<Rightarrow> cmd_in \<Rightarrow> bytes \<Rightarrow> at_cmd \<Rightarrow> 'd cmds \<Rightarrow> (u16 \<times> at_cmd \<times> 'd cmds) option" where
  "run_lte_cmd env inp rcv_msg m st =
     map_option (\<lambda>(t, m', st'). (t, m', call Start_Cmdsource_Timer st'))
       (at_recv_cmd_handler env inp rcv_msg m (st\<lparr>g_lte_cmdSource := 1\<rparr>))"

text \<open>The command structure as its users set it up: all zero.\<close>

definition empty_cmd :: at_cmd where
  "empty_cmd = \<lparr>parm = [], parm_count = 0, resp_msg = [], resp_length = 0\<rparr>"

text \<open>
  A command from the phone: the decrypted frame is copied into the receive buffer of 128
  bytes whatever its length, and read as a string; the answer is the text to send, if any.
\<close>

definition ble_comu_at_cmd_handle :: "'d param_env \<Rightarrow> cmd_in \<Rightarrow> bytes \<Rightarrow> 'd cmds \<Rightarrow> (bytes option \<times> 'd cmds) option" where
  "ble_comu_at_cmd_handle env inp data st =
     (if length data > CMD_STRING_LENGTH_MAX \<or> length data = CMD_STRING_LENGTH_MAX \<and> 0 \<notin> set data then None
      else do {
        (t, m, st') \<leftarrow> at_recv_cmd_handler env inp (takeWhile (\<lambda>c. c \<noteq> 0) data) empty_cmd st;
        Some (if resp_length m > 0 then Some (resp_msg m) else None, st') })"

text \<open>
  A command from the LTE module, \<open>my_lte_handle_cmd\<close>: an identifier, a comma and the command.
  The result is the line sent back; for a command another thread answers it is empty.
\<close>

definition my_lte_handle_cmd :: "'d param_env \<Rightarrow> cmd_in \<Rightarrow> bytes \<Rightarrow> 'd cmds \<Rightarrow> (bytes \<times> 'd cmds) option" where
  "my_lte_handle_cmd env inp data st = do {
     (more, gid) \<leftarrow> my_get_str_at_pos (Some data) 0 44 16;
     g \<leftarrow> gid;
     if more
     then if length (drop (length g + 1) data) \<ge> CMD_STRING_LENGTH_MAX then None
          else do {
            (ret, m, st') \<leftarrow> run_lte_cmd env inp (drop (length g + 1) data) empty_cmd st;
            if ret = 0
            then if parm m = [] then None
                 else Some (take 1023 (ascii ''LTE+CMD=FAIL,'' @ g @ 44 # parm m ! 0 @ [13, 10]), st')
            else if ret = 0xFF02 then Some (take 1023 (ascii ''LTE+CMD=OK,'' @ g @ 44 # resp_msg m @ [13, 10]), st')
            else Some ([], st') }
     else Some (ascii ''LTE+CMD='' @ g @ ascii '',Missing command parameter'' @ [13, 10], st) }"

end
