(* ===== verification/Cmd_Props.thy ===== *)
theory Cmd_Props
  imports Cmd_Setting
begin

text \<open>
  What the commands guarantee: whatever text arrives, every parameter stays in its documented
  range, in memory and in the storage, over restarts and failed writes; and no command but one
  query runs into undefined behaviour.
\<close>

section \<open>Numbers from texts\<close>

lemma is_number_digits:
  "is_number_loop 0 n s \<noteq> 0 \<Longrightarrow> list_all is_digit s"
  by (induction "0 :: u8" n s rule: is_number_loop.induct) (auto split: if_splits)

lemma atoi_digits_nonneg: "0 \<le> atoi_digits cs"
proof -
  have "0 \<le> v \<Longrightarrow> list_all is_digit ds \<Longrightarrow> 0 \<le> foldl (\<lambda>v c. v * 10 + (int (unat c) - 48)) v ds" for v ds
  proof (induction ds arbitrary: v)
    case (Cons d ds)
    then have "48 \<le> uint d" by (simp add: is_digit_def word_le_def)
    with Cons show ?case by simp
  qed simp
  moreover have "list_all is_digit (takeWhile (\<lambda>c. 48 \<le> c \<and> c \<le> 57) cs)"
    by (auto simp: list_all_iff is_digit_def dest: set_takeWhileD)
  ultimately show ?thesis by (simp add: atoi_digits_def)
qed

lemma atoi_nonneg: "list_all is_digit s \<Longrightarrow> 0 \<le> atoi s"
proof (cases s)
  case (Cons c cs)
  assume "list_all is_digit s"
  then have "48 \<le> c \<and> c \<le> 57" using Cons by (simp add: is_digit_def)
  then have "c \<noteq> 45" "c \<noteq> 43" "\<not> is_space c" by (auto simp: is_space_def word_le_nat_alt)
  then show ?thesis using Cons by (simp add: atoi_def atoi_digits_nonneg)
qed (simp add: atoi_def)

lemma num_arg_nonneg: "num_arg 0 s = Some v \<Longrightarrow> 0 \<le> v"
  using is_number_digits [of 0 s] atoi_nonneg [of s]
  by (auto simp: num_arg_def string_check_is_number_def Let_def split: if_splits)

lemma num_if_Some: "num_if f ok s = Some v \<Longrightarrow> ok v"
  by (auto simp: num_if_def bind_eq_Some_conv split: if_splits)

lemma num_if_nonneg: "num_if 0 ok s = Some v \<Longrightarrow> 0 \<le> v"
  by (auto simp: num_if_def bind_eq_Some_conv split: if_splits dest: num_arg_nonneg)

lemma num_if_0: "num_if 0 ok s = Some v \<Longrightarrow> ok v \<and> 0 \<le> v"
  using num_if_Some num_if_nonneg by blast

lemma sw_arg_le: "sw_arg s = Some v \<Longrightarrow> v \<le> 1"
  by (auto simp: sw_arg_def split: if_splits)

lemma uint_u8 [simp]: "0 \<le> v \<Longrightarrow> v < 256 \<Longrightarrow> uint (word_of_int v :: u8) = v"
  by (simp add: unsigned_of_int take_bit_int_eq_self)

lemma unat_u16_of [simp]: "0 \<le> v \<Longrightarrow> v < 65536 \<Longrightarrow> unat (word_of_int v :: u16) = nat v"
  by (simp add: unat_eq_nat_uint unsigned_of_int take_bit_int_eq_self)

lemma unat_u32_of [simp]: "0 \<le> v \<Longrightarrow> v < 4294967296 \<Longrightarrow> unat (word_of_int v :: u32) = nat v"
  by (simp add: unat_eq_nat_uint unsigned_of_int take_bit_int_eq_self)

lemma sint_u32_of [simp]: "- 2147483648 \<le> v \<Longrightarrow> v < 2147483648 \<Longrightarrow> sint (word_of_int v :: u32) = v"
  by (simp add: signed_of_int signed_take_bit_int_eq_self)

section \<open>Fields of an image\<close>

definition put_all :: "(nat \<times> bytes) list \<Rightarrow> bytes \<Rightarrow> bytes" where
  "put_all fs b = fold (\<lambda>(off, bs) x. mem_put x off bs) fs b"

lemma put_all_simps: "put_all [] b = b" "put_all ((off, bs) # fs) b = put_all fs (mem_put b off bs)"
  by (simp_all add: put_all_def)

lemma length_put_all [simp]: "length (put_all fs b) = length b"
  by (induction fs arbitrary: b) (auto simp: put_all_def)

lemma put_fields_eq: "cparams (put_fields k fs st) = (cparams st)\<lparr>gConfigParam := (gConfigParam (cparams st))(k := put_all fs (cf st k))\<rparr>"
proof -
  have "fold (\<lambda>(off, bs). cfg_put k off bs) fs s = s\<lparr>gConfigParam := (gConfigParam s)(k := put_all fs (gConfigParam s k))\<rparr>" for s :: "'a params"
    by (induction fs arbitrary: s) (auto simp: cfg_put_def put_all_def)
  then show ?thesis by (simp add: put_fields_def cf_def)
qed

lemma u16_at_put [simp]: "off + 2 \<le> length b \<Longrightarrow> u16_at (mem_put b off (le16 w)) off = unat w"
  by (simp add: u16_at_def nth_mem_put le16_def)

lemma u32_at_put [simp]: "off + 4 \<le> length b \<Longrightarrow> u32_at (mem_put b off (le32 w)) off = unat w"
  by (simp add: u32_at_def nth_mem_put le32_def)

lemma s32_at_put [simp]: "off + 4 \<le> length b \<Longrightarrow> s32_at (mem_put b off (le32 w)) off = sint w"
  by (simp add: s32_at_def nth_mem_put le32_def)

lemma u16_at_other: "i + 2 \<le> length b \<Longrightarrow> i + 2 \<le> off \<or> off + length bs \<le> i \<Longrightarrow> u16_at (mem_put b off bs) i = u16_at b i"
  by (auto simp: u16_at_def nth_mem_put)

lemma u32_at_other: "i + 4 \<le> length b \<Longrightarrow> i + 4 \<le> off \<or> off + length bs \<le> i \<Longrightarrow> u32_at (mem_put b off bs) i = u32_at b i"
  by (auto simp: u32_at_def nth_mem_put)

lemma s32_at_other: "i + 4 \<le> length b \<Longrightarrow> i + 4 \<le> off \<or> off + length bs \<le> i \<Longrightarrow> s32_at (mem_put b off bs) i = s32_at b i"
  by (auto simp: s32_at_def nth_mem_put)

lemmas at_other = u16_at_other u32_at_other s32_at_other

section \<open>Storing keeps the ranges\<close>

definition cmd_inv :: "('d \<Rightarrow> u32 \<Rightarrow> bytes option) \<Rightarrow> 'd cmds \<Rightarrow> bool" where
  "cmd_inv K st \<longleftrightarrow> param_inv K (cparams st)"

lemma cmd_inv_img: "cmd_inv K st \<Longrightarrow> img_ok k (cf st k)"
  unfolding cmd_inv_def cf_def by (rule param_invD)

lemma call_simps [simp]: "cparams (call c st) = cparams st" "cf (call c st) = cf st" "cmd_inv K (call c st) = cmd_inv K st"
  by (simp_all add: call_def cf_def cmd_inv_def fun_eq_iff)

lemma fold_call [simp]: "cmd_inv K (fold call cs st) = cmd_inv K st"
  by (induction cs arbitrary: st) simp_all

lemma put_fields_inv:
  assumes "cmd_inv K st" "k \<noteq> ZMS_ID_ADV_VALID" "img_ok k (put_all fs (cf st k))"
  shows "cmd_inv K (put_fields k fs st)"
  using assms by (simp add: cmd_inv_def put_fields_eq param_inv_def cfg_ok_def)

lemma save_group_inv:
  assumes "zms_contract env K R" "cmd_inv K st" "param_size k \<noteq> 0"
  shows "cmd_inv K (save_group env k st)"
  using save_inv [OF assms(1), of k "cparams st"] assms(2,3) unfolding cmd_inv_def save_group_def
  by (cases "cfg_save env k (cparams st)") auto

lemma set_group_inv:
  assumes "zms_contract env K R" "cmd_inv K st" "param_size k \<noteq> 0" "k \<noteq> ZMS_ID_ADV_VALID"
    "img_ok k (put_all ((0, [FLAG_VALID]) # fs) (cf st k))"
  shows "cmd_inv K (set_group env k fs st)"
  unfolding set_group_def by (rule save_group_inv [OF assms(1) put_fields_inv [OF assms(2,4,5)] assms(3)])

text \<open>A handler keeps the invariant.\<close>

definition keeps :: "('d \<Rightarrow> u32 \<Rightarrow> bytes option) \<Rightarrow> 'd cmd_result \<Rightarrow> bool" where
  "keeps K r \<longleftrightarrow> (case r of None \<Rightarrow> True | Some (t, m, st) \<Rightarrow> cmd_inv K st)"

lemma keeps_simps [simp]:
  "keeps K None" "keeps K (Some (t, m, st)) = cmd_inv K st" "keeps K (answer txt m st) = cmd_inv K st"
  "keeps K (param_invalid m st) = cmd_inv K st" "keeps K (show_values n vs m st) = cmd_inv K st"
  "keeps K (answer_checked bs m st) = cmd_inv K st"
  by (simp_all add: keeps_def answer_def param_invalid_def show_values_def answer_checked_def)

lemma keeps_ifI: "(c \<Longrightarrow> keeps K x) \<Longrightarrow> (\<not> c \<Longrightarrow> keeps K y) \<Longrightarrow> keeps K (if c then x else y)"
  by simp

lemma keeps_optI: "(x = None \<Longrightarrow> keeps K y) \<Longrightarrow> (\<And>v. x = Some v \<Longrightarrow> keeps K (f v)) \<Longrightarrow> keeps K (case x of None \<Rightarrow> y | Some v \<Rightarrow> f v)"
  by (cases x) auto

lemma keeps_bindI: "(\<And>v. x = Some v \<Longrightarrow> keeps K (f v)) \<Longrightarrow> keeps K (Option.bind x f)"
  by (cases x) auto

lemma keeps_pairI: "(\<And>a b. p = (a, b) \<Longrightarrow> keeps K (f a b)) \<Longrightarrow> keeps K (case p of (a, b) \<Rightarrow> f a b)"
  by (cases p) auto

section \<open>Handlers that store one group\<close>

lemma in_rangeD: "in_range lo hi v \<Longrightarrow> lo \<le> v \<and> v \<le> hi"
  by (auto simp: in_range_def)

lemma thresholdD: "threshold lo hi v \<Longrightarrow> limit_ok lo hi v"
  by (auto simp: threshold_def limit_ok_def)

lemma crossedD: "\<not> crossed low high \<Longrightarrow> limits_ordered low high"
  by (auto simp: crossed_def limits_ordered_def)

lemmas checked = sw_arg_le num_if_Some in_rangeD thresholdD crossedD

lemmas img_simps = put_all_simps img_ok_def nth_mem_put at_other word_le_def

lemma img_switch:
  assumes "img_ok k b" "k = ZMS_ID_REM_ALM_CONFIG \<or> k = ZMS_ID_PULL_ALM_CONFIG \<or> k = ZMS_ID_MOTDETALM_CONFIG" "sw \<le> 1" "0 \<le> v" "v \<le> 3"
  shows "img_ok k (put_all [(0, [f]), (1, [sw]), (2, [of_int v])] b)"
  using assms by (elim disjE) (simp_all add: img_simps)

lemma switch_mode_keeps:
  assumes "zms_contract env K R" "cmd_inv K st" "k = ZMS_ID_REM_ALM_CONFIG \<or> k = ZMS_ID_PULL_ALM_CONFIG \<or> k = ZMS_ID_MOTDETALM_CONFIG"
  shows "keeps K (switch_mode_handler k env m st)"
proof -
  have "param_size k \<noteq> 0" "k \<noteq> ZMS_ID_ADV_VALID" using assms(3) by auto
  with assms(2,3) show ?thesis
    by (auto simp: switch_mode_handler_def simp del: One_nat_def split: option.splits dest!: checked
      intro!: set_group_inv [OF assms(1,2)] img_switch [OF cmd_inv_img [OF assms(2)]])
qed

lemma img_patalm:
  assumes "img_ok ZMS_ID_PATMALM_CONFIG b" "sw \<le> 1" "limit_ok 30 250 low" "limit_ok 30 250 high" "limits_ordered low high"
    "0 \<le> rt" "rt \<le> 3" "0 \<le> ri" "ri \<le> 60"
  shows "img_ok ZMS_ID_PATMALM_CONFIG (put_all [(0, [f]), (1, [sw]), (2, [of_int low]), (3, [of_int high]), (4, [of_int rt]), (5, [of_int ri])] b)"
proof -
  have "uint (word_of_int low :: u8) = low" "uint (word_of_int high :: u8) = high" using assms(3,4) by (auto simp: limit_ok_def)
  with assms show ?thesis by (simp add: img_simps)
qed

lemma patalm_keeps:
  assumes "zms_contract env K R" "cmd_inv K st"
  shows "keeps K (patalm_cmd_handler env m st)"
  using assms(2)
  by (auto simp: patalm_cmd_handler_def simp del: One_nat_def split: option.splits dest!: checked
    intro!: set_group_inv [OF assms] img_patalm [OF cmd_inv_img [OF assms(2)]])

lemma img_tempalm:
  assumes "img_ok ZMS_ID_TEMPALM_CONFIG b" "sw \<le> 1" "limit_ok (-30) 100 tlow" "limit_ok 30 100 thigh" "limits_ordered tlow thigh"
    "limit_ok 0 100 hlow" "limit_ok 0 100 hhigh" "limits_ordered hlow hhigh" "0 \<le> rt" "rt \<le> 3" "0 \<le> ri" "ri \<le> 60"
  shows "img_ok ZMS_ID_TEMPALM_CONFIG (put_all [(0, [f]), (1, [sw]), (4, le32 (of_int tlow)), (8, le32 (of_int thigh)),
    (12, [of_int hlow]), (13, [of_int hhigh]), (14, [of_int rt]), (15, [of_int ri])] b)"
proof -
  have "uint (word_of_int hlow :: u8) = hlow" "uint (word_of_int hhigh :: u8) = hhigh"
    "sint (word_of_int tlow :: u32) = tlow" "sint (word_of_int thigh :: u32) = thigh"
    using assms(3,4,6,7) by (auto simp: limit_ok_def)
  moreover have "limit_ok (-30) 100 thigh" using assms(4) by (auto simp: limit_ok_def)
  moreover have "length b = 16" using img_ok_length [OF assms(1)] by simp
  ultimately show ?thesis using assms by (simp add: img_simps)
qed

lemma tempalm_keeps:
  assumes "zms_contract env K R" "cmd_inv K st"
  shows "keeps K (tempalm_cmd_handler env m st)"
  using assms(2)
  by (auto simp: tempalm_cmd_handler_def Let_def simp del: One_nat_def split: option.splits dest!: checked
    intro!: set_group_inv [OF assms] img_tempalm [OF cmd_inv_img [OF assms(2)]])

lemma img_u16_pair:
  assumes "img_ok k b" "0 \<le> v" "0 \<le> w"
    "k = ZMS_ID_MOT_DET_CONFIG \<and> 1 \<le> v \<and> v \<le> 500 \<and> 1 \<le> w \<and> w \<le> 3600 \<or> k = ZMS_ID_LTINT_CONFIG \<and> 100 \<le> v \<and> v \<le> 5000 \<and> 100 \<le> w \<and> w \<le> 5000"
  shows "img_ok k (put_all [(0, [f]), (2, le16 (of_int v)), (4, le16 (of_int w))] b)"
proof -
  have "length b = 6" using img_ok_length [OF assms(1)] assms(4) by auto
  with assms show ?thesis by (auto simp: img_simps)
qed

lemma motdet_keeps:
  assumes "zms_contract env K R" "cmd_inv K st"
  shows "keeps K (motdet_cmd_handler env m st)"
  using assms(2)
  by (auto simp: motdet_cmd_handler_def split: option.splits dest!: checked
    intro!: set_group_inv [OF assms] img_u16_pair [OF cmd_inv_img [OF assms(2)]])

lemma ltint_keeps:
  assumes "zms_contract env K R" "cmd_inv K st"
  shows "keeps K (ltint_cmd_handler env m st)"
  using assms(2)
  by (auto simp: ltint_cmd_handler_def Let_def split: option.splits dest!: checked
    intro!: set_group_inv [OF assms] img_u16_pair [OF cmd_inv_img [OF assms(2)]])

lemma rpt_args_bound: "rpt_args ps = Some vs \<Longrightarrow> list_all (\<lambda>v. 0 \<le> v \<and> v \<le> 3) vs \<and> length vs = length ps"
  by (induction ps arbitrary: vs) (auto simp: bind_eq_Some_conv dest!: num_if_Some in_rangeD)

lemma uint_u8_le: "0 \<le> v \<Longrightarrow> v \<le> n \<Longrightarrow> n < 256 \<Longrightarrow> uint (word_of_int v :: u8) \<le> n"
  by simp

lemma img_bat:
  assumes "img_ok ZMS_ID_BAT_LEVEL_CONFIG b" "list_all (\<lambda>v. v \<le> 3) bs" "0 < off"
  shows "img_ok ZMS_ID_BAT_LEVEL_CONFIG (put_all [(0, [f]), (off, bs)] b)"
proof -
  have l: "length b = 8" using img_ok_length [OF assms(1)] by simp
  have "drop 1 b ! i \<le> 3" if "i < 7" for i
    using assms(1) that l by (simp add: img_ok_def list_all_length)
  from this [of "i - 1" for i] have "b ! i \<le> 3" if "0 < i" "i < 8" for i
    using that l by (cases i) (auto dest: meta_spec [of _ i])
  moreover have "bs ! j \<le> 3" if "j < length bs" for j using assms(2) that by (simp add: list_all_length)
  ultimately show ?thesis using l assms(3) by (auto simp: put_all_simps img_ok_def list_all_length nth_mem_put)
qed

lemma batlevel_keeps:
  assumes "zms_contract env K R" "cmd_inv K st"
  shows "keeps K (batlevel_cmd_handler env m st)"
  using assms(2)
  by (auto simp: batlevel_cmd_handler_def list_all_iff word_le_def uint_u8_le simp del: One_nat_def split: option.splits dest!: rpt_args_bound
    intro!: set_group_inv [OF assms] img_bat [OF cmd_inv_img [OF assms(2)]])

lemma chargesta_keeps:
  assumes "zms_contract env K R" "cmd_inv K st"
  shows "keeps K (chargesta_cmd_handler env m st)"
  using assms(2)
  by (auto simp: chargesta_cmd_handler_def word_le_def split: option.splits dest!: checked
    intro!: set_group_inv [OF assms] img_bat [OF cmd_inv_img [OF assms(2)]])

lemma img_imu:
  assumes "img_ok ZMS_ID_IMU_ALM_CONFIG b" "sw \<le> 1" "0 \<le> rp" "rp \<le> 3" "limit_ok 5 60 ro" "limit_ok 5 60 pt" "limit_ok 5 60 yw"
    "1 \<le> du" "du \<le> 180" "1 \<le> re" "re \<le> 30"
  shows "img_ok ZMS_ID_IMU_ALM_CONFIG (put_all [(0, [f]), (1, [sw]), (2, [of_int rp]), (3, [of_int ro]), (4, [of_int pt]), (5, [of_int yw]),
    (6, [of_int du]), (8, [of_int re])] b)"
proof -
  have "uint (word_of_int ro :: u8) = ro" "uint (word_of_int pt :: u8) = pt" "uint (word_of_int yw :: u8) = yw"
    using assms(5-7) by (auto simp: limit_ok_def)
  moreover have "length b = 9" using img_ok_length [OF assms(1)] by simp
  ultimately show ?thesis using assms by (simp add: img_simps)
qed

lemma imu_keeps:
  assumes "zms_contract env K R" "cmd_inv K st"
  shows "keeps K (imu_alm_cmd_handler env m st)"
  using assms(2)
  by (auto simp: imu_alm_cmd_handler_def Let_def simp del: One_nat_def split: option.splits dest!: checked
    intro!: set_group_inv [OF assms] img_imu [OF cmd_inv_img [OF assms(2)]])

text \<open>The groups with one switch.\<close>

lemma img_sw:
  assumes "img_ok k b" "k = ZMS_ID_STARTR_CONFIG \<or> k = ZMS_ID_PWRLIMIT_CONFIG" "sw \<le> 1"
  shows "img_ok k (put_all [(1, [sw]), (0, [f])] b)"
  using assms by (elim disjE) (simp_all add: img_simps)

lemmas save_put_inv = save_group_inv [OF _ put_fields_inv]

lemma pwrlimit_keeps:
  assumes "zms_contract env K R" "cmd_inv K st"
  shows "keeps K (pwrlimit_cmd_handler env m st)"
  using assms(2)
  by (auto simp: pwrlimit_cmd_handler_def simp del: One_nat_def split: option.splits dest!: checked
    intro!: save_put_inv [OF assms] img_sw [OF cmd_inv_img [OF assms(2)]])

lemma startr_keeps:
  assumes "zms_contract env K R" "cmd_inv K st"
  shows "keeps K (startr_cmd_handler env m st)"
  using assms(2)
  by (auto simp: startr_cmd_handler_def simp del: One_nat_def split: option.splits dest!: checked
    intro!: save_put_inv [OF assms] img_sw [OF cmd_inv_img [OF assms(2)]])

lemma img_lpsleep:
  assumes "img_ok ZMS_ID_LPSLEEP_CONFIG b"
  shows "sw \<le> 1 \<Longrightarrow> img_ok ZMS_ID_LPSLEEP_CONFIG (put_all [(1, [sw]), (0, [f])] b)"
    "sw \<le> 1 \<Longrightarrow> 10 \<le> v \<Longrightarrow> v \<le> 50 \<Longrightarrow> 1 \<le> w \<Longrightarrow> w \<le> 48 \<Longrightarrow>
       img_ok ZMS_ID_LPSLEEP_CONFIG (put_all [(1, [sw]), (2, [of_int v]), (3, [of_int w]), (0, [f])] b)"
  using assms by (simp_all add: img_simps)

lemma lprunning_keeps:
  assumes "zms_contract env K R" "cmd_inv K st"
  shows "keeps K (lprunning_cmd_handler env m st)"
  using assms(2)
  by (auto simp: lprunning_cmd_handler_def Let_def simp del: One_nat_def split: option.splits dest!: checked
    intro!: save_put_inv [OF assms] img_lpsleep [OF cmd_inv_img [OF assms(2)]])

lemma img_tx:
  assumes "img_ok ZMS_ID_BLE_TX_POWER b" "v = -8 \<or> v = -4 \<or> v = 0 \<or> v = 3 \<or> v = 5 \<or> v = 7"
  shows "img_ok ZMS_ID_BLE_TX_POWER (put_all [(0, [f]), (1, [of_int v])] b)"
  using assms by (elim disjE) (simp_all add: img_simps)

lemma crfpwr_keeps:
  assumes "zms_contract env K R" "cmd_inv K st"
  shows "keeps K (bt_crfpwr_cmd_handler env m st)"
proof -
  note img = img_tx [OF cmd_inv_img [OF assms(2)]]
  have "cmd_inv K (save_group env ZMS_ID_BLE_TX_POWER (call c (put_fields ZMS_ID_BLE_TX_POWER [(0, [FLAG_VALID]), (1, [of_int v])] st)))"
    if "v = -8 \<or> v = -4 \<or> v = 0 \<or> v = 3 \<or> v = 5 \<or> v = 7" for c v
    using save_group_inv [OF assms(1)] put_fields_inv [OF assms(2)] img [OF that] by simp
  then show ?thesis using assms(2)
    by (auto simp: bt_crfpwr_cmd_handler_def Let_def simp del: One_nat_def of_int_minus split: option.splits dest!: num_if_Some)
qed

lemma img_updata:
  assumes "img_ok ZMS_ID_BT_UPDATA_CONFIG b" "0 \<le> md" "md \<le> 2" "5 \<le> si" "si \<le> 86400" "5 \<le> sl" "sl \<le> 86400" "sl < si" "120 \<le> ui" "ui \<le> 86400"
  shows "img_ok ZMS_ID_BT_UPDATA_CONFIG (put_all [(0, [f]), (1, [of_int md]), (4, le32 (of_int si)), (8, le32 (of_int sl)), (12, le32 (of_int ui))] b)"
proof -
  have "length b = 16" using img_ok_length [OF assms(1)] by simp
  with assms show ?thesis by (auto simp: img_simps)
qed

lemma updata_keeps:
  assumes "zms_contract env K R" "cmd_inv K st"
  shows "keeps K (bt_updata_cmd_handler env inp m st)"
  using assms(2)
  by (auto simp: bt_updata_cmd_handler_def Let_def simp del: One_nat_def split: option.splits dest!: checked
    intro!: set_group_inv [OF assms] img_updata [OF cmd_inv_img [OF assms(2)]])

lemma img_bluetooth:
  assumes "img_ok ZMS_ID_BLUETOOTH_CONFIG b"
  shows "sw \<le> 1 \<Longrightarrow> img_ok ZMS_ID_BLUETOOTH_CONFIG (put_all [(1, [sw]), (0, [f]), (4, [0])] b)"
    "0 \<le> v \<Longrightarrow> v \<le> 30 \<Longrightarrow> img_ok ZMS_ID_BLUETOOTH_CONFIG (put_all [(0, [f]), (1, [1]), (2, [of_int 5]), (3, [of_int v]), (4, [1])] b)"
  using assms by (simp_all add: img_simps)

lemma bluetooth_keeps:
  assumes "zms_contract env K R" "cmd_inv K st"
  shows "keeps K (bluetooth_cmd_handler env m st)"
proof -
  let ?k = ZMS_ID_BLUETOOTH_CONFIG
  note img = img_bluetooth [OF cmd_inv_img [OF assms(2)]] and sv = save_group_inv [OF assms(1)] put_fields_inv [OF assms(2)]
  have "cmd_inv K (save_group env ?k (call c (put_fields ?k [(1, [sw]), (0, [FLAG_VALID]), (4, [0])] st)))" if "sw \<le> 1" for c sw
    using sv img(1) [OF that] by simp
  moreover have "cmd_inv K (save_group env ?k (call c (put_fields ?k [(0, [FLAG_VALID]), (1, [1]), (2, [of_int 5]), (3, [of_int v]), (4, [1])] st)))"
    if "0 \<le> v" "v \<le> 30" for c v
    using sv img(2) [OF that] by simp
  ultimately show ?thesis using assms(2) unfolding bluetooth_cmd_handler_def Let_def
    by (auto simp del: One_nat_def split: option.splits dest!: sw_arg_le num_if_0)
qed

lemma img_btconnect:
  assumes "img_ok ZMS_ID_BTCONNECT_CONFIG b" "sw \<le> 1" "300 \<le> iv" "iv \<le> 43200" "0 \<le> rp" "rp \<le> 3"
  shows "img_ok ZMS_ID_BTCONNECT_CONFIG (put_all [(0, [f]), (1, [sw]), (2, le16 (of_int iv)), (4, [of_int rp])] b)"
proof -
  have "length b = 6" using img_ok_length [OF assms(1)] by simp
  with assms show ?thesis by (auto simp: img_simps)
qed

lemma btconnect_keeps:
  assumes "zms_contract env K R" "cmd_inv K st"
  shows "keeps K (btconnect_cmd_handler env m st)"
  using assms(2)
  by (auto simp: btconnect_cmd_handler_def Let_def simp del: One_nat_def split: option.splits dest!: checked
    intro!: set_group_inv [OF assms] img_btconnect [OF cmd_inv_img [OF assms(2)]])

lemma img_tag:
  assumes "img_ok ZMS_ID_TAG_CONFIG b" "sw \<le> 1"
  shows "img_ok ZMS_ID_TAG_CONFIG (put_all [(0, [f]), (1, [sw])] b)"
    "100 \<le> iv \<Longrightarrow> iv \<le> 60000 \<Longrightarrow> img_ok ZMS_ID_TAG_CONFIG (put_all [(0, [f]), (1, [sw]), (2, le16 (of_int iv))] b)"
proof -
  have "length b = 4" using img_ok_length [OF assms(1)] by simp
  with assms show "img_ok ZMS_ID_TAG_CONFIG (put_all [(0, [f]), (1, [sw])] b)"
    "100 \<le> iv \<Longrightarrow> iv \<le> 60000 \<Longrightarrow> img_ok ZMS_ID_TAG_CONFIG (put_all [(0, [f]), (1, [sw]), (2, le16 (of_int iv))] b)"
    by (auto simp: img_simps)
qed

lemma tag_keeps:
  assumes "zms_contract env K R" "cmd_inv K st"
  shows "keeps K (tag_cmd_handler env m st)"
  using assms(2)
  by (auto simp: tag_cmd_handler_def Let_def simp del: One_nat_def split: option.splits dest!: checked
    intro!: set_group_inv [OF assms] img_tag [OF cmd_inv_img [OF assms(2)]])

lemma img_led:
  assumes "img_ok ZMS_ID_LED_CONFIG b" "0 \<le> v" "v \<le> 2"
  shows "img_ok ZMS_ID_LED_CONFIG (put_all [(0, [f]), (1, [of_int v])] b)"
  using assms by (simp add: img_simps)

lemma led_keeps:
  assumes "zms_contract env K R" "cmd_inv K st"
  shows "keeps K (led_cmd_handler env inp m st)"
proof -
  let ?k = ZMS_ID_LED_CONFIG
  have "cmd_inv K (put_fields ?k [(0, [FLAG_VALID]), (1, [of_int v])] st)" if "0 \<le> v" "v \<le> 2" for v
    using put_fields_inv [OF assms(2)] img_led [OF cmd_inv_img [OF assms(2)] that] by simp
  then show ?thesis using assms(2)
    by (auto simp: led_cmd_handler_def Let_def simp del: One_nat_def split: option.splits dest!: num_if_0
      intro!: save_group_inv [OF assms(1)])
qed

lemma img_buzzer:
  assumes "img_ok ZMS_ID_BUZZER_CONFIG b" "0 \<le> v" "v \<le> 5"
  shows "img_ok ZMS_ID_BUZZER_CONFIG (put_all [(0, [f]), (1, [of_int v])] b)"
  using assms by (simp add: img_simps)

lemma buzzer_keeps:
  assumes "zms_contract env K R" "cmd_inv K st"
  shows "keeps K (buzzer_cmd_handler env m st)"
  using assms(2)
  by (auto simp: buzzer_cmd_handler_def Let_def simp del: One_nat_def split: option.splits dest!: checked
    intro!: set_group_inv [OF assms] img_buzzer [OF cmd_inv_img [OF assms(2)]])

lemma img_ok_timer:
  assumes "k = ZMS_ID_PATM_TIMER_CONFIG \<or> k = ZMS_ID_TEMP_TIMER_CONFIG"
  shows "img_ok k b \<longleftrightarrow> length b = 6 \<and> (u16_at b 2 = 0 \<or> 10 \<le> u16_at b 2 \<and> u16_at b 2 \<le> 1440) \<and> b ! 4 \<le> 1"
  using assms by (elim disjE) (simp_all add: img_ok_def)

lemma img_timer:
  assumes "img_ok k b" "k = ZMS_ID_PATM_TIMER_CONFIG \<or> k = ZMS_ID_TEMP_TIMER_CONFIG" "sw \<le> 1" "v = 0 \<or> 10 \<le> v \<and> v \<le> 1440"
  shows "img_ok k (put_all [(0, [f]), (2, le16 (of_int v)), (4, [sw])] b)"
proof -
  have "length b = 6" using assms(1) by (simp add: img_ok_timer [OF assms(2)])
  moreover have "unat (word_of_int v :: u16) = nat v" using assms(4) by auto
  ultimately show ?thesis using assms(3,4)
    by (auto simp: img_ok_timer [OF assms(2)] put_all_simps nth_mem_put at_other)
qed

lemma timer_keeps:
  assumes "zms_contract env K R" "cmd_inv K st" "k = ZMS_ID_PATM_TIMER_CONFIG \<or> k = ZMS_ID_TEMP_TIMER_CONFIG"
  shows "keeps K (timer_cmd_handler k name reload env m st)"
proof -
  have "param_size k \<noteq> 0" "k \<noteq> ZMS_ID_ADV_VALID" using assms(3) by auto
  then have "cmd_inv K (set_group env k [(2, le16 (of_int v)), (4, [sw])] st)" if "sw \<le> 1" "v = 0 \<or> 10 \<le> v \<and> v \<le> 1440" for sw v
    by (intro set_group_inv [OF assms(1,2)] img_timer [OF cmd_inv_img [OF assms(2)] assms(3) that])
  from this this [of _ 0] assms(2) show ?thesis
    by (auto simp: timer_cmd_handler_def Let_def split: option.splits dest!: checked)
qed

lemma free_keeps:
  assumes "zms_contract env K R" "cmd_inv K st" "free_group k"
  shows "cmd_inv K (put_fields k fs st)" "cmd_inv K (set_group env k fs st)"
proof -
  have k: "param_size k \<noteq> 0" "k \<noteq> ZMS_ID_ADV_VALID" using assms(3) by (auto simp: free_group_def)
  have img: "img_ok k (put_all fs' (cf st k))" for fs'
    using cmd_inv_img [OF assms(2), of k] by (simp add: img_ok_free [OF assms(3)])
  show "cmd_inv K (put_fields k fs st)" by (rule put_fields_inv [OF assms(2) k(2) img])
  show "cmd_inv K (set_group env k fs st)" by (rule set_group_inv [OF assms(1,2) k img])
qed

lemma taginit_keeps:
  assumes "zms_contract env K R" "cmd_inv K st"
  shows "keeps K (taginit_param_cmd_handler env m st)"
  using assms(2)
  by (auto simp: taginit_param_cmd_handler_def Let_def free_group_def intro!: free_keeps(2) [OF assms(1)])

lemma btlog_keeps:
  assumes "zms_contract env K R" "cmd_inv K st"
  shows "keeps K (btlog_cmd_handler env m st)"
proof -
  have img: "img_ok ZMS_ID_BLE_LOG_CONFIG (put_all [(1, [sw])] (cf st ZMS_ID_BLE_LOG_CONFIG))" if "sw \<le> 1" for sw
    using cmd_inv_img [OF assms(2), of ZMS_ID_BLE_LOG_CONFIG] that by (simp add: img_ok_log put_all_simps nth_mem_put)
  have "cmd_inv K (put_fields ZMS_ID_BLE_LOG_CONFIG [(1, [sw])] st)" if "sw \<le> 1" for sw
    by (rule put_fields_inv [OF assms(2) _ img [OF that]]) simp
  then have "param_inv K p" if "my_param_set_ble_log_config env (Some (cf (put_fields ZMS_ID_BLE_LOG_CONFIG [(1, [sw])] st) ZMS_ID_BLE_LOG_CONFIG))
      (cparams (put_fields ZMS_ID_BLE_LOG_CONFIG [(1, [sw])] st)) = (r, p)" "sw \<le> 1" for sw r p
    using log_config_inv [OF assms(1) _ that(1) [unfolded cf_def]] that(2) by (simp add: cmd_inv_def)
  with assms(2) show ?thesis
    by (auto simp: btlog_cmd_handler_def Let_def cmd_inv_def split: option.splits prod.splits dest!: sw_arg_le)
qed

lemma adv_tag_keeps:
  assumes "zms_contract env K R" "cmd_inv K st"
  shows "keeps K (adv_tag_handler a env m st)"
proof -
  let ?k = ZMS_ID_ADV_VALID
  let ?own = "if a = APPLE_ADV_TYPE then 1 else 2 :: nat" and ?other = "if a = APPLE_ADV_TYPE then 2 else 1 :: nat"
  have ok: "img_ok ?k (cf st ?k)" by (rule cmd_inv_img [OF assms(2)])
  have l: "length (cf st ?k) = 3" using img_ok_length [OF ok] by simp
  { fix sw :: u8 assume sw: "sw \<le> 1" "cf st ?k ! ?other \<noteq> 0"
    let ?st1 = "put_fields ?k [(0, [FLAG_VALID]), (?own, [sw])] st"
    have img: "img_ok ?k (put_all [(0, [FLAG_VALID]), (?own, [sw])] (cf st ?k))"
      using ok l sw by (cases a) (auto simp: img_ok_adv put_all_simps nth_mem_put word_le_nat_alt word_unat_eq_iff)
    have "param_inv K (set_adv_valid_status a sw (cparams ?st1))"
      using assms(2) img l unfolding cmd_inv_def param_inv_def
      by (cases a) (auto simp: put_fields_eq cfg_ok_def put_all_simps nth_mem_put cf_def set_adv_valid_status_def)
  }
  then show ?thesis using assms(2)
    by (auto simp: adv_tag_handler_def Let_def cmd_inv_def simp del: One_nat_def split: option.splits dest!: sw_arg_le
      intro!: save_group_inv [OF assms(1), unfolded cmd_inv_def])
qed

section \<open>Work modes keep the ranges\<close>

lemma img_ok_mode: "img_ok ZMS_ID_WORK_MODE_CONFIG b \<longleftrightarrow> length b = 80 \<and> work_mode_ok b"
  by (simp add: img_ok_def)

lemma smart_below:
  "length b = 80 \<Longrightarrow> off + length bs \<le> 32 \<Longrightarrow> i < 6 \<Longrightarrow> smart_interval_ok (mem_put b off bs) i = smart_interval_ok b i"
  by (simp add: smart_interval_ok_def u32_at_other)

lemma start_other: "length b = 80 \<Longrightarrow> off + length bs \<le> 20 \<or> 24 \<le> off \<Longrightarrow> take 4 (drop 20 (mem_put b off bs)) = take 4 (drop 20 b)"
  by (rule nth_equalityI) (auto simp: nth_mem_put)

lemmas mode_simps = work_mode_ok_def smart_below start_other at_other nth_mem_put

lemma mode_flag: "length b = 80 \<Longrightarrow> work_mode_ok b \<Longrightarrow> work_mode_ok (mem_put b 0 [f])"
  by (simp add: mode_simps)

lemma low_byte: "a + 256 * b + 65536 * c + 16777216 * d \<le> 3 \<Longrightarrow> b = 0 \<and> c = 0 \<and> d = (0 :: nat)"
  by (cases b; cases c; cases d) auto

lemma mode_cur:
  assumes "length b = 80" "work_mode_ok b" "0 \<le> v" "v \<le> 3"
  shows "work_mode_ok (mem_put b 4 (mode_bytes inp v))"
proof -
  have "u32_at b 4 \<le> 3" using assms(2) by (simp add: work_mode_ok_def)
  moreover have "unat (word_of_int v :: u8) \<le> 3" using assms(3,4) by (simp add: unat_eq_nat_uint)
  ultimately have "u32_at (mem_put b 4 [word_of_int v]) 4 \<le> 3"
    using assms(1) by (auto simp: u32_at_def nth_mem_put unat_of_le32 dest!: low_byte)
  then show ?thesis using assms nat_mono [OF assms(4)] by (simp add: mode_bytes_def mode_simps)
qed

lemma mode_continuous:
  assumes "length b = 80" "work_mode_ok b" "5 \<le> v" "v \<le> 86400" "w = 0 \<or> 5 \<le> w \<and> w \<le> 1000"
  shows "work_mode_ok (mem_put (mem_put b 8 (le32 (of_int v))) 12 (le32 (of_int w)))"
  using assms by (auto simp: mode_simps)

lemma atoi_four:
  assumes "list_all is_digit [a, b, c, d]"
  shows "atoi [a, b, c, d] = 1000 * dval a + 100 * dval b + 10 * dval c + dval d"
proof -
  have w: "48 \<le> x \<and> x \<le> 57" if "x \<in> {a, b, c, d}" for x using assms that by (auto simp: is_digit_def)
  have "48 \<le> a \<and> a \<le> 57" using w [of a] by simp
  then have "a \<noteq> 45" "a \<noteq> 43" "\<not> is_space a" by (auto simp: is_space_def word_le_nat_alt)
  then have "atoi [a, b, c, d] = atoi_digits [a, b, c, d]" by (simp add: atoi_def)
  also have "takeWhile (\<lambda>c. 48 \<le> c \<and> c \<le> 57) [a, b, c, d] = [a, b, c, d]" using w by simp
  then have "atoi_digits [a, b, c, d] = 1000 * dval a + 100 * dval b + 10 * dval c + dval d" by (simp add: atoi_digits_def dval_def)
  finally show ?thesis .
qed

lemma long_battery_values:
  assumes "set_long_battery_params ri t g = Some fs"
  shows "fs = [(16, le32 (ucast ri)), (20, t @ [0]), (25, [g])]" "5 \<le> ri" "ri \<le> 1440" "hhmm_ok t" "g \<le> 1"
proof -
  let ?w = "of_int (atoi t) :: u16"
  have r: "length t = 4" "list_all is_digit t"
    using assms by (auto simp: set_long_battery_params_def Let_def split: if_splits)
  show "fs = [(16, le32 (ucast ri)), (20, t @ [0]), (25, [g])]" "5 \<le> ri" "ri \<le> 1440" "g \<le> 1"
    using assms by (auto simp: set_long_battery_params_def Let_def split: if_splits)
  have h: "?w div 100 \<le> 24" "?w mod 100 \<le> 59" "?w div 100 = 24 \<longrightarrow> ?w mod 100 = 0"
    using assms by (auto simp: set_long_battery_params_def Let_def split: if_splits)
  obtain a b c d where t: "t = [a, b, c, d]" using r(1) by (auto simp: length_Suc_conv numeral_eq_Suc)
  have v: "0 \<le> dval x \<and> dval x \<le> 9" if "x \<in> {a, b, c, d}" for x using r(2) dval_bounds that unfolding t by auto
  define H where "H = start_hour t"
  define M where "M = start_minute t"
  have HM: "atoi t = 100 * H + M" "0 \<le> H" "H \<le> 99" "0 \<le> M" "M \<le> 99"
    using atoi_four [of a b c d] r(2) v [of a] v [of b] v [of c] v [of d] by (simp_all add: t H_def M_def)
  have "uint ?w = (100 * H + M) mod 2 ^ LENGTH(16)" unfolding HM(1) by (rule uint_word_of_int)
  then have u: "uint ?w = 100 * H + M" using HM(2-5) by simp
  have "uint (?w div 100) = H" "uint (?w mod 100) = M" using HM(2-5) by (simp_all add: uint_div uint_mod u)
  then have "H \<le> 24" "M \<le> 59" "H = 24 \<longrightarrow> M = 0" using h by (auto simp: word_le_def word_uint_eq_iff)
  then show "hhmm_ok t" unfolding hhmm_ok_def H_def M_def using r by blast
qed

lemma mode_long:
  assumes "length b = 80" "work_mode_ok b" "set_long_battery_params ri s g = Some fs"
  shows "work_mode_ok (put_all fs b)"
proof -
  note fs = long_battery_values [OF assms(3)]
  have l: "length s = 4" using fs(4) by (simp add: hhmm_ok_def)
  have "take 4 (drop 20 (mem_put (mem_put b 16 (le32 (ucast ri))) 20 (s @ [0]))) = s"
    using assms(1) l by (intro nth_equalityI) (auto simp: nth_mem_put nth_append)
  then show ?thesis using assms(1,2) fs l
    by (simp add: put_all_simps mode_simps nth_append word_le_nat_alt unsigned_ucast_eq take_bit_nat_eq_self)
qed

lemma mode_sub: "length b = 80 \<Longrightarrow> work_mode_ok b \<Longrightarrow> v \<le> 5 \<Longrightarrow> work_mode_ok (mem_put b 28 [v])"
  by (simp add: mode_simps)

definition smart_ok :: "nat \<Rightarrow> nat \<Rightarrow> nat \<Rightarrow> bool" where
  "smart_ok i st mv \<longleftrightarrow> (st = 0 \<or> (if i \<le> 4 then 180 \<le> st \<and> st \<le> 3600 else 10 \<le> st \<and> st \<le> 86400)) \<and>
     (if i \<in> {0, 1, 3} then 180 \<le> mv \<and> mv \<le> 3600 else 10 \<le> mv \<and> mv \<le> 86400)"

lemma smart_interval: "smart_interval_ok b i = smart_ok i (u32_at b (32 + 4 * i)) (u32_at b (56 + 4 * i))"
  by (simp add: smart_interval_ok_def smart_ok_def Let_def)

lemma smart_put:
  assumes "length b = 80" "i < 6" "j < 6" "smart_ok i (unat st) (unat mv)" "smart_interval_ok b j"
  shows "smart_interval_ok (mem_put (mem_put b (32 + 4 * i) (le32 st)) (56 + 4 * i) (le32 mv)) j"
proof (cases "i = j")
  case False
  then have d: "4 + 4 * j \<le> 4 * i \<or> 4 + 4 * i \<le> 4 * j" by linarith
  let ?a = "mem_put b (32 + 4 * i) (le32 st)"
  have "u32_at (mem_put ?a (56 + 4 * i) (le32 mv)) (32 + 4 * j) = u32_at ?a (32 + 4 * j)"
    "u32_at ?a (32 + 4 * j) = u32_at b (32 + 4 * j)"
    "u32_at (mem_put ?a (56 + 4 * i) (le32 mv)) (56 + 4 * j) = u32_at ?a (56 + 4 * j)"
    "u32_at ?a (56 + 4 * j) = u32_at b (56 + 4 * j)"
    using assms(1-3) d by (auto intro!: u32_at_other)
  then show ?thesis using assms(5) by (simp add: smart_interval)
qed (use assms in \<open>simp add: smart_interval u32_at_other\<close>)

lemma intelligent_values:
  assumes "set_intelligent_params sm si mi = Some fs"
  shows "fs = [(28, [sm]), (32 + 4 * unat sm, le32 si), (56 + 4 * unat sm, le32 mi)]" "sm \<le> 5" "smart_ok (unat sm) (unat si) (unat mi)"
proof -
  have n: "unat sm = 0 \<longleftrightarrow> sm = 0" "unat sm = 1 \<longleftrightarrow> sm = 1" "unat sm = 3 \<longleftrightarrow> sm = 3" "unat sm \<le> 4 \<longleftrightarrow> sm \<le> 4"
    "si = 0 \<longleftrightarrow> unat si = 0"
    by (auto simp: word_unat_eq_iff word_le_nat_alt)
  show "fs = [(28, [sm]), (32 + 4 * unat sm, le32 si), (56 + 4 * unat sm, le32 mi)]" "sm \<le> 5"
    using assms by (auto simp: set_intelligent_params_def split: if_splits)
  show "smart_ok (unat sm) (unat si) (unat mi)"
    using assms unfolding set_intelligent_params_def smart_ok_def insert_iff empty_iff n
    by (auto simp: word_less_nat_alt n split: if_splits)
qed

lemma mode_smart:
  assumes "length b = 80" "work_mode_ok b" "set_intelligent_params sm si mi = Some fs"
  shows "work_mode_ok (put_all fs b)"
proof -
  note v = intelligent_values [OF assms(3)]
  let ?c = "mem_put b 28 [sm]"
  have c: "work_mode_ok ?c" "length ?c = 80" using mode_sub [OF assms(1,2) v(2)] assms(1) by simp_all
  have i: "unat sm < 6" using v(2) by (simp add: word_le_nat_alt)
  have "smart_interval_ok (put_all fs b) j" if "j < 6" "smart_interval_ok ?c j" for j
    using smart_put [OF c(2) i that(1) v(3) that(2)] by (simp add: v(1) put_all_simps)
  then show ?thesis using c i unfolding work_mode_ok_def
    by (simp add: v(1) put_all_simps start_other at_other nth_mem_put)
qed

lemma put_all_append: "put_all (fs @ gs) b = put_all gs (put_all fs b)"
  by (simp add: put_all_def)

lemma mode_group_inv:
  assumes "zms_contract env K R" "cmd_inv K st" "work_mode_ok (put_all fs (cf st ZMS_ID_WORK_MODE_CONFIG))"
  shows "cmd_inv K (save_group env ZMS_ID_WORK_MODE_CONFIG (put_fields ZMS_ID_WORK_MODE_CONFIG fs st))"
  using save_put_inv [OF assms(1,2), of ZMS_ID_WORK_MODE_CONFIG fs] cmd_inv_img [OF assms(2), of ZMS_ID_WORK_MODE_CONFIG] assms(3)
  by (simp add: img_ok_mode)

lemma modeset_finish_keeps:
  assumes "zms_contract env K R" "cmd_inv K st" "work_mode_ok (put_all fs (cf st ZMS_ID_WORK_MODE_CONFIG))"
  shows "keeps K (modeset_finish env inp mode fs cs m st)"
proof -
  have "length (cf st ZMS_ID_WORK_MODE_CONFIG) = 80" using cmd_inv_img [OF assms(2), of ZMS_ID_WORK_MODE_CONFIG] by (simp add: img_ok_mode)
  then have "work_mode_ok (put_all (fs @ [(0, [FLAG_VALID])]) (cf st ZMS_ID_WORK_MODE_CONFIG))"
    using mode_flag [OF _ assms(3)] by (simp add: put_all_append put_all_simps)
  from mode_group_inv [OF assms(1,2) this] show ?thesis by (simp add: modeset_finish_def Let_def)
qed

lemma mode_of_nonneg: "0 \<le> mode_of inp v"
  by (simp add: mode_of_def cut8_def)

lemma modeset_keeps:
  assumes "zms_contract env K R" "cmd_inv K st"
  shows "keeps K (modeset_cmd_handler env inp m st)"
proof -
  let ?k = ZMS_ID_WORK_MODE_CONFIG
  have b: "length (cf st ?k) = 80" "work_mode_ok (cf st ?k)" using cmd_inv_img [OF assms(2), of ?k] by (simp_all add: img_ok_mode)
  note fin = modeset_finish_keeps [OF assms]
  have sw: "cmd_inv K (save_group env ?k (put_fields ?k [(0, [FLAG_VALID]), (4, mode_bytes inp v)] st))" if "0 \<le> v" "v < 4" for v
    using mode_group_inv [OF assms] mode_cur [OF _ mode_flag [OF b] that(1)] b(1) that(2) by (simp add: put_all_simps)
  have cont: "keeps K (modeset_finish env inp md [(8, le32 (of_int v)), (12, le32 (of_int w))] cs m st)"
    if "in_range 5 86400 v" "w = 0 \<or> in_range 5 1000 w" for md v w cs
    using that mode_continuous [OF b, of v w] by (intro fin) (auto simp: put_all_simps in_range_def)
  have long: "keeps K (modeset_finish env inp md fs cs m st)" if "set_long_battery_params ri s g = Some fs" for md ri s g fs cs
    by (rule fin) (rule mode_long [OF b that])
  have smart: "keeps K (modeset_finish env inp md fs cs m st)" if "set_intelligent_params ri s g = Some fs" for md ri s g fs cs
    by (rule fin) (rule mode_smart [OF b that])
  have sub: "keeps K (modeset_finish env inp md [(28, [of_int v])] cs m st)" if "0 \<le> v" "v \<le> 5" for md v cs
    using that mode_sub [OF b] by (intro fin) (simp add: put_all_simps word_le_def)
  have inv: "keeps K (param_invalid m st)" using assms(2) by simp
  show ?thesis
    unfolding modeset_cmd_handler_def Let_def prod.case
    by (intro keeps_ifI keeps_optI inv; (rule long smart, assumption | rule cont sub | use assms(2) sw [OF mode_of_nonneg] in simp | simp)?;
      (use num_if_Some num_if_0 in fastforce)?)
qed

section \<open>The address list keeps its bound\<close>

lemma img_ok_parmac: "img_ok ZMS_ID_BT_PARMAC_CONFIG b \<longleftrightarrow> length b = 142 \<and> b ! PARMAC_COUNT \<le> 20"
  by (simp add: img_ok_def)

lemma length_parmac_addr: "length (stack_junk inp) = 6 \<Longrightarrow> parmac_addr inp s = Some a \<Longrightarrow> length a = 7"
  by (auto simp: parmac_addr_def split: prod.splits if_splits)

lemma parmac_add_ok:
  assumes "length b = 142" "b ! PARMAC_COUNT \<le> 20" "length a = 7"
  shows "length (snd (parmac_add a b)) = 142 \<and> snd (parmac_add a b) ! PARMAC_COUNT \<le> 20"
  using assms by (auto simp: parmac_add_def nth_mem_put word_le_nat_alt unat_word_ariths)

lemma parmac_add_all_ok:
  "length b = 142 \<Longrightarrow> b ! PARMAC_COUNT \<le> 20 \<Longrightarrow> length (stack_junk inp) = 6 \<Longrightarrow> parmac_add_all inp ps b = (ok, b') \<Longrightarrow>
     length b' = 142 \<and> b' ! PARMAC_COUNT \<le> 20"
  by (induction inp ps b rule: parmac_add_all.induct)
    (auto split: option.splits dest: length_parmac_addr parmac_add_ok)

lemma parmac_shift_frame:
  "length b = 142 \<Longrightarrow> n \<le> 20 \<Longrightarrow> length (parmac_shift j n b) = 142 \<and> parmac_shift j n b ! PARMAC_COUNT = b ! PARMAC_COUNT"
proof (induction j n b rule: parmac_shift.induct)
  case (1 j n b)
  show ?case
  proof (cases "j + 1 < n")
    case True
    have "length (parmac_at b (j + 1)) = 7" using 1 True by (simp add: parmac_at_def)
    with 1 True show ?thesis by (simp add: parmac_shift.simps [of j n b] nth_mem_put)
  qed (use 1 in \<open>simp add: parmac_shift.simps\<close>)
qed

lemma parmac_del_ok:
  assumes "length b = 142" "b ! PARMAC_COUNT \<le> 20" "parmac_del a b = (0, b')"
  shows "length b' = 142 \<and> b' ! PARMAC_COUNT \<le> 20"
proof -
  let ?n = "unat (b ! PARMAC_COUNT)"
  obtain i js where f: "filter (\<lambda>i. parmac_at b i = a) [0..<?n] = i # js" using assms(3) by (auto simp: parmac_del_def Let_def split: list.splits)
  then have "i \<in> set [0..<?n]" by (metis filter_is_subset list.set_intros(1) subsetD)
  then have "0 < ?n" by simp
  then have "b ! PARMAC_COUNT - 1 \<le> 20" using assms(2) by (simp add: word_le_nat_alt unat_sub_if_size word_size)
  then show ?thesis using assms f parmac_shift_frame [OF assms(1), of ?n i]
    by (auto simp: parmac_del_def Let_def nth_mem_put word_le_nat_alt)
qed

lemma parmac_put_inv:
  assumes "cmd_inv K st" "length b = 142" "b ! PARMAC_COUNT \<le> 20"
  shows "cmd_inv K (cf_put ZMS_ID_BT_PARMAC_CONFIG b st)"
proof -
  have "length (cf st ZMS_ID_BT_PARMAC_CONFIG) = 142" using cmd_inv_img [OF assms(1), of ZMS_ID_BT_PARMAC_CONFIG] by (simp add: img_ok_parmac)
  then show ?thesis using assms unfolding cf_put_def
    by (intro put_fields_inv) (simp_all add: put_all_simps img_ok_parmac nth_mem_put)
qed

lemma parmac_set_inv:
  assumes "zms_contract env K R" "cmd_inv K st" "length b = 142" "b ! PARMAC_COUNT \<le> 20"
  shows "cmd_inv K (set_group env ZMS_ID_BT_PARMAC_CONFIG [] (cf_put ZMS_ID_BT_PARMAC_CONFIG b st))"
proof -
  note i = parmac_put_inv [OF assms(2-4)]
  show ?thesis
    using cmd_inv_img [OF i, of ZMS_ID_BT_PARMAC_CONFIG]
    by (intro set_group_inv [OF assms(1) i]) (simp_all add: put_all_simps img_ok_parmac nth_mem_put)
qed

lemma parmac_keeps:
  assumes "zms_contract env K R" "cmd_inv K st" "length (stack_junk inp) = 6"
  shows "keeps K (bt_parmac_cmd_handler env inp m st)"
proof -
  let ?b = "cf st ZMS_ID_BT_PARMAC_CONFIG"
  have b: "length ?b = 142" "?b ! PARMAC_COUNT \<le> 20" using cmd_inv_img [OF assms(2), of ZMS_ID_BT_PARMAC_CONFIG] by (simp_all add: img_ok_parmac)
  note set = parmac_set_inv [OF assms(1,2)] and put = parmac_put_inv [OF assms(2)]
  have all: "cmd_inv K (set_group env ZMS_ID_BT_PARMAC_CONFIG [] (cf_put ZMS_ID_BT_PARMAC_CONFIG (parmac_del_all ?b) st))"
    using b by (intro set) (simp_all add: parmac_del_all_def nth_mem_put)
  show ?thesis
    using assms(2) all
    by (auto simp: bt_parmac_cmd_handler_def Let_def split: prod.splits option.splits if_splits
      dest: parmac_add_all_ok [OF b assms(3)] parmac_del_ok [OF b] intro!: set put)
qed

section \<open>Other handlers\<close>

lemma lte_send_inv: "lte_send_command inp n p st = (r, st') \<Longrightarrow> cmd_inv K st' = cmd_inv K st"
  by (auto simp: lte_send_command_def Let_def split: if_splits)

lemma lte_cmd_keeps: "cmd_inv K st \<Longrightarrow> keeps K (lte_cmd_handler inp m st)"
  unfolding lte_cmd_handler_def Let_def
  by (intro keeps_ifI keeps_bindI keeps_pairI) (auto dest: lte_send_inv)

text \<open>A failing erase takes images away at most.\<close>

definition clear_safe :: "'d param_env \<Rightarrow> ('d \<Rightarrow> u32 \<Rightarrow> bytes option) \<Rightarrow> bool" where
  "clear_safe env K \<longleftrightarrow> (\<forall>d. fst (zms_clear env d) < 0 \<longrightarrow> K (snd (zms_clear env d)) \<subseteq>\<^sub>m K d)"

lemma store_ok_sub: "store_ok m \<Longrightarrow> m' \<subseteq>\<^sub>m m \<Longrightarrow> store_ok m'"
  by (fastforce simp: store_ok_def map_le_def dom_def)

lemma clear_store:
  assumes "zms_contract env K R" "clear_safe env K" "zms_clear env d = (r, d')" "store_ok (K d)"
  shows "store_ok (K d')"
proof (cases "r < 0")
  case True
  then have "K d' \<subseteq>\<^sub>m K d" using assms(2,3) unfolding clear_safe_def by (metis fst_conv snd_conv)
  then show ?thesis by (rule store_ok_sub [OF assms(4)])
next
  case False
  then show ?thesis using zms_clearD [OF assms(1,3)] by (simp add: store_ok_def)
qed

lemma storage_init_inv:
  assumes "zms_contract env K R" "my_user_data_storage_init env s = (r, s')" "param_inv K s"
  shows "param_inv K s'"
  using assms(2,3) zms_mountD [OF assms(1)]
  by (fastforce simp: my_user_data_storage_init_def param_inv_def split: if_splits prod.splits)

lemma reset_inv:
  assumes "zms_contract env K R" "clear_safe env K" "param_inv K s"
  shows "param_inv K (snd (my_param_factory_reset env s))"
proof -
  obtain r s0 where i: "my_user_data_storage_init env s = (r, s0)" by fastforce
  have "param_inv K s0" by (rule storage_init_inv [OF assms(1) i assms(3)])
  then show ?thesis using clear_store [OF assms(1,2)] i
    by (auto simp: my_param_factory_reset_def param_inv_def split: prod.splits)
qed

lemma factory_keeps:
  assumes "zms_contract env K R" "clear_safe env K" "cmd_inv K st"
  shows "keeps K (factory_reset_handler arg env inp m st)"
proof -
  let ?st1 = "st\<lparr>cparams := snd (my_param_factory_reset env (cparams st))\<rparr>"
  have "cmd_inv K ?st1" using reset_inv [OF assms(1,2)] assms(3) by (simp add: cmd_inv_def)
  then have "cmd_inv K (snd (lte_send_command inp n p ?st1))" for n p
    by (metis lte_send_inv prod.collapse)
  then show ?thesis using assms(3) by (simp add: factory_reset_handler_def Let_def cmd_inv_def)
qed

lemma query_keeps:
  assumes "cmd_inv K st"
  shows "keeps K (pwsave_cmd_handler inp m st)" "keeps K (cbmt_cmd_handler inp m st)" "keeps K (bt_mac_cmd_handler m st)"
    "keeps K (version_cmd_handler inp m st)" "keeps K (async_query p m st)" "keeps K (modeget_cmd_handler inp m st)"
    "keeps K (modeparam_cmd_handler m st)"
  using assms
  by (auto simp: pwsave_cmd_handler_def cbmt_cmd_handler_def bt_mac_cmd_handler_def version_cmd_handler_def async_query_def
    modeget_cmd_handler_def modeparam_cmd_handler_def Let_def answer_checked_def mode_values_def)

section \<open>Every command keeps the ranges\<close>

lemma table_keeps:
  assumes "zms_contract env K R" "clear_safe env K" "cmd_inv K st" "length (stack_junk inp) = 6"
  shows "\<forall>(name, h) \<in> set (at_cmd_attr_table env inp). keeps K (h m st)"
  unfolding at_cmd_attr_table_def remalm_cmd_handler_def pullalm_cmd_handler_def motdetalm_cmd_handler_def
    patmtimer_cmd_handler_def temptimer_cmd_handler_def jatag_cmd_handler_def jgtag_cmd_handler_def factory_cmd_handler_def
    factoryall_cmd_handler_def patm_cmd_handler_def temp_cmd_handler_def status_cmd_handler_def
  by (simp add: query_keeps [OF assms(3)] switch_mode_keeps [OF assms(1,3)] patalm_keeps [OF assms(1,3)] tempalm_keeps [OF assms(1,3)]
    motdet_keeps [OF assms(1,3)] batlevel_keeps [OF assms(1,3)] chargesta_keeps [OF assms(1,3)] pwrlimit_keeps [OF assms(1,3)]
    lprunning_keeps [OF assms(1,3)] startr_keeps [OF assms(1,3)] crfpwr_keeps [OF assms(1,3)] updata_keeps [OF assms(1,3)]
    bluetooth_keeps [OF assms(1,3)] btconnect_keeps [OF assms(1,3)] tag_keeps [OF assms(1,3)] adv_tag_keeps [OF assms(1,3)]
    taginit_keeps [OF assms(1,3)] led_keeps [OF assms(1,3)] ltint_keeps [OF assms(1,3)] buzzer_keeps [OF assms(1,3)]
    btlog_keeps [OF assms(1,3)] modeset_keeps [OF assms(1,3)] parmac_keeps [OF assms(1,3,4)] timer_keeps [OF assms(1,3)]
    imu_keeps [OF assms(1,3)] factory_keeps [OF assms(1-3)])

lemma dispatch_keeps:
  assumes "zms_contract env K R" "clear_safe env K" "cmd_inv K st" "length (stack_junk inp) = 6"
  shows "keeps K (dispatch env inp m st)"
proof (cases "find (\<lambda>(name, h). my_strcasecmp (ascii name) (parm m ! 0) = 0) (at_cmd_attr_table env inp)")
  case None
  then show ?thesis using assms(3) lte_cmd_keeps [OF assms(3)] unfolding dispatch_def by simp
next
  case (Some e)
  then have "e \<in> set (at_cmd_attr_table env inp)" by (metis find_Some_iff nth_mem)
  then have "keeps K (snd e m st)" using table_keeps [OF assms, of m] by auto
  then show ?thesis using Some by (cases e) (simp add: dispatch_def)
qed

lemma at_recv_inv:
  assumes "zms_contract env K R" "clear_safe env K" "cmd_inv K st" "length (stack_junk inp) = 6"
    "at_recv_cmd_handler env inp s m st = Some (t, m', st')"
  shows "cmd_inv K st'"
  using dispatch_keeps [OF assms(1-4)] assms(3,5)
  by (fastforce simp: at_recv_cmd_handler_def keeps_def split: prod.splits if_splits option.splits)

lemma phone_inv:
  assumes "zms_contract env K R" "clear_safe env K" "cmd_inv K st" "length (stack_junk inp) = 6"
    "ble_comu_at_cmd_handle env inp data st = Some (r, st')"
  shows "cmd_inv K st'"
  using assms(5) at_recv_inv [OF assms(1-4)]
  by (auto simp: ble_comu_at_cmd_handle_def bind_eq_Some_conv split: if_splits)

lemma modem_inv:
  assumes "zms_contract env K R" "clear_safe env K" "cmd_inv K st" "length (stack_junk inp) = 6"
    "my_lte_handle_cmd env inp data st = Some (r, st')"
  shows "cmd_inv K st'"
proof -
  have "cmd_inv K (st\<lparr>g_lte_cmdSource := 1\<rparr>)" using assms(3) by (simp add: cmd_inv_def)
  from at_recv_inv [OF assms(1,2) this assms(4)] show ?thesis using assms(3,5)
    by (auto simp: my_lte_handle_cmd_def run_lte_cmd_def bind_eq_Some_conv split: if_splits)
qed

section \<open>The device over time\<close>

text \<open>When the storage can not be initialised, loading the parameters ends before the defaults are set.\<close>

lemma failed_start:
  assumes "\<not> can_start env (pdev p)"
  shows "gConfigParam (param_restart env p) = (\<lambda>k. replicate (param_size k) 0)" "\<not> cfg_ok (gConfigParam (param_restart env p))"
proof -
  obtain r s where s: "my_user_data_storage_init env (param_boot (pdev p)) = (r, s)" by fastforce
  then have "r \<noteq> 0" using assms by (simp add: can_start_def)
  then have "param_restart env p = s" using s by (simp add: param_restart_def my_param_load_config_def)
  moreover have "gConfigParam s = gConfigParam (param_boot (pdev p))"
    using s by (auto simp: my_user_data_storage_init_def split: if_splits prod.splits)
  ultimately show z: "gConfigParam (param_restart env p) = (\<lambda>k. replicate (param_size k) 0)" by (simp add: param_boot_def)
  have "\<not> img_ok ZMS_ID_ADV_VALID (replicate (param_size ZMS_ID_ADV_VALID) 0)" by (simp add: img_ok_adv)
  then show "\<not> cfg_ok (gConfigParam (param_restart env p))" unfolding z cfg_ok_def by blast
qed

definition cmd_boot :: "'d params \<Rightarrow> 'd cmds" where
  "cmd_boot p = \<lparr>cparams = p, g_factory_mode = False, g_lte_cmdSource = 0, cmd_calls = []\<rparr>"

text \<open>
  Commands from both sides, the setters of the shell, the timer that ends a command of the LTE module, and what other modules do to
  the parameters: the main thread changes the work mode in memory (\<open>main.c\<close>), the Bluetooth core a byte of the licence (\<open>my_ble_core.c\<close>), and
  the shutdown flag (\<open>my_ctrl.c\<close>, \<open>my_lte.c\<close>) and the bias of the gyroscope (\<open>my_gsensor.c\<close>) are changed and stored. All in any order, and restarts at which the
  storage can be initialised. A command whose handling is undefined (\<open>None\<close>) is no step.
\<close>

inductive device_step :: "'d param_env \<Rightarrow> 'd cmds \<Rightarrow> 'd cmds \<Rightarrow> bool" for env where
  phone: "length (stack_junk inp) = 6 \<Longrightarrow> ble_comu_at_cmd_handle env inp data st = Some (r, st') \<Longrightarrow> device_step env st st'"
| modem: "length (stack_junk inp) = 6 \<Longrightarrow> my_lte_handle_cmd env inp data st = Some (r, st') \<Longrightarrow> device_step env st st'"
| setter: "device_step env st (st\<lparr>cparams := snd (param_exec env q (cparams st))\<rparr>)"
| timer: "device_step env st (lte_cmd_source_clear_callback st)"
| mode: "0 \<le> v \<Longrightarrow> v < MY_MODE_MAX \<Longrightarrow> device_step env st (put_fields ZMS_ID_WORK_MODE_CONFIG [(4, mode_bytes inp v)] st)"
| change: "k \<in> {ZMS_ID_FF, ZMS_ID_SHUTDOWN_CONFIG, ZMS_ID_IMU_ZERO_BIAS_CONFIG} \<Longrightarrow> device_step env st (put_fields k fs st)"
| store: "k \<in> {ZMS_ID_SHUTDOWN_CONFIG, ZMS_ID_IMU_ZERO_BIAS_CONFIG} \<Longrightarrow> device_step env st (save_group env k st)"
| restart: "can_start env (pdev (cparams st)) \<Longrightarrow> device_step env st (cmd_boot (param_restart env (cparams st)))"

inductive device_run :: "'d param_env \<Rightarrow> 'd \<Rightarrow> 'd cmds \<Rightarrow> bool" for env d where
  start: "can_start env d \<Longrightarrow> device_run env d (cmd_boot (param_restart env (param_boot d)))"
| more: "device_run env d st \<Longrightarrow> device_step env st st' \<Longrightarrow> device_run env d st'"

lemma mode_switch_inv:
  assumes "cmd_inv K st" "0 \<le> v" "v < MY_MODE_MAX"
  shows "cmd_inv K (put_fields ZMS_ID_WORK_MODE_CONFIG [(4, mode_bytes inp v)] st)"
proof -
  have "length (cf st ZMS_ID_WORK_MODE_CONFIG) = 80" "work_mode_ok (cf st ZMS_ID_WORK_MODE_CONFIG)"
    using cmd_inv_img [OF assms(1), of ZMS_ID_WORK_MODE_CONFIG] by (simp_all add: img_ok_mode)
  then show ?thesis using mode_cur [of "cf st ZMS_ID_WORK_MODE_CONFIG" v inp] assms
    by (intro put_fields_inv) (simp_all add: put_all_simps img_ok_mode)
qed

lemma step_inv:
  assumes "zms_contract env K R" "clear_safe env K" "cmd_inv K st" "device_step env st st'"
  shows "cmd_inv K st'"
  using assms(4,3)
proof cases
  case (setter q)
  then show ?thesis using req_inv [OF assms(1), of "cparams st" q] assms(3) by (cases "param_exec env q (cparams st)") (simp add: cmd_inv_def)
next
  case (mode v inp)
  then show ?thesis using mode_switch_inv [OF assms(3)] by blast
next
  case (change k fs)
  then have "free_group k" by (auto simp: free_group_def)
  then show ?thesis using free_keeps(1) [OF assms(1,3)] change by blast
next
  case (store k)
  then show ?thesis using save_group_inv [OF assms(1,3), of k] by auto
next
  case restart
  then show ?thesis using restart_inv [OF assms(1)] assms(3) by (simp add: cmd_inv_def cmd_boot_def param_inv_def)
qed (auto simp: lte_cmd_source_clear_callback_def cmd_inv_def intro: phone_inv [OF assms(1-3), unfolded cmd_inv_def] modem_inv [OF assms(1-3), unfolded cmd_inv_def])

lemma run_inv:
  assumes "zms_contract env K R" "clear_safe env K" "store_ok (K d)" "device_run env d st"
  shows "cmd_inv K st"
  using assms(4)
proof induction
  case start
  then show ?case using restart_inv [OF assms(1), of "param_boot d"] assms(3) by (simp add: cmd_inv_def cmd_boot_def param_boot_def)
next
  case (more st st')
  then show ?case using step_inv [OF assms(1,2)] by blast
qed

text \<open>
  C8: Whatever commands arrive from the phone and the LTE module, with whatever texts, whatever the
  setters are called with and whichever writes fail: every parameter has the size and the documented range of its
  group, in memory and in the storage, and stays so over any number of restarts at which the storage can be initialised.
  The last condition is needed: at a start at which the storage can not be initialised (\<open>can_start\<close> fails) the defaults are not
  loaded either and every parameter is zero, which is out of range; such a start is not a step of \<open>device_run\<close>. Nor is a
  command whose handling is undefined. The other hypotheses are the contract of the key-value storage,
  that a failing erase does not invent images, and a storage that holds no image out of range at
  the start, such as an empty one.
\<close>

theorem parameters_in_range:
  assumes "zms_contract env K R" "clear_safe env K" "store_ok (K d)" "device_run env d st"
  shows "cfg_ok (gConfigParam (cparams st)) \<and> store_ok (K (pdev (cparams st))) \<and>
    (\<not> can_start env (pdev p) \<longrightarrow>
       gConfigParam (param_restart env p) = (\<lambda>k. replicate (param_size k) 0) \<and> \<not> cfg_ok (gConfigParam (param_restart env p)))"
  using run_inv [OF assms] failed_start [of env p] by (simp add: cmd_inv_def param_inv_def)

definition test_in :: cmd_in where
  "test_in = \<lparr>get_lprunning_active = False, get_last_work_mode = 2, g_bLteReady = True, get_lte_power_state = True, shutdown_result = 0,
     get_batt_mv = 3900, charging = False, g_lte4GVersion = [], software_version = [], alloc_cmd = True, alloc_msg = True,
     stack_junk = replicate 6 0, short_enums = True\<rparr>"

lemma map_env_clear: "clear_safe map_env fst"
  by (auto simp: clear_safe_def map_env_def split: if_splits)

abbreviation (input) first_boot :: "((u32 \<Rightarrow> bytes option) \<times> bool) cmds" where
  "first_boot \<equiv> cmd_boot (param_restart map_env (param_boot (Map.empty, False)))"

lemma analyse_remalm: "cmd_analyse (ascii ''REMALM,ON,2#'') = (3, [ascii ''REMALM'', ascii ''ON'', ascii ''2''] @ replicate 17 [])"
  by code_simp

lemma word_remalm:
  "my_strcasecmp (ascii ''REMALM'') (ascii ''REMALM'') = 0" "sw_arg (ascii ''ON'') = Some 1" "num_if 0 (in_range 0 3) (ascii ''2'') = Some 2"
  by code_simp+

lemma save_group_cf [simp]: "cf (save_group env k st) = cf st"
  by (cases "cfg_save env k (cparams st)") (auto simp: save_group_def cf_def fun_eq_iff dest: cfg_save_frame)

lemma put_fields_cf: "cf (put_fields k fs st) = (cf st)(k := put_all fs (cf st k))"
  by (rule ext) (simp add: cf_def [of "put_fields k fs st"] put_fields_eq, simp add: cf_def)

lemma set_group_cf: "cf (set_group env k fs st) = (cf st)(k := put_all ((0, [FLAG_VALID]) # fs) (cf st k))"
  by (simp add: set_group_def put_fields_cf)

lemma dispatch_remalm:
  assumes "parm m = [ascii ''REMALM'', ascii ''ON'', ascii ''2''] @ replicate 17 []" "parm_count m = 2"
  shows "dispatch env inp m st =
    Some (BLE_DATA_TYPE_PACKET_MULTIPLE, reply (ascii ''Set OK'') m, set_group env ZMS_ID_REM_ALM_CONFIG [(1, [1]), (2, [2])] st)"
  using assms word_remalm
  by (simp add: dispatch_def at_cmd_attr_table_def remalm_cmd_handler_def switch_mode_handler_def answer_def)

lemma phone_remalm:
  "ble_comu_at_cmd_handle env inp (ascii ''REMALM,ON,2#'') st =
     Some (Some (ascii ''Set OK''), set_group env ZMS_ID_REM_ALM_CONFIG [(1, [1]), (2, [2])] st)"
proof -
  have tw: "takeWhile (\<lambda>c. c \<noteq> 0) (ascii ''REMALM,ON,2#'') = ascii ''REMALM,ON,2#''" by code_simp
  have l: "length (ascii ''REMALM,ON,2#'') = 12" "length (ascii ''Set OK'') = 6" by (simp_all add: ascii_def)
  show ?thesis
    unfolding ble_comu_at_cmd_handle_def tw at_recv_cmd_handler_def analyse_remalm
    by (simp add: l dispatch_remalm reply_def)
qed

theorem parameters_in_range_witness:
  "let st = set_group map_env ZMS_ID_REM_ALM_CONFIG [(1, [1]), (2, [2])] first_boot
   in cfg_ok (gConfigParam (cparams st)) \<and> store_ok (fst (pdev (cparams st)))"
proof -
  let ?st = "set_group map_env ZMS_ID_REM_ALM_CONFIG [(1, [1]), (2, [2])] first_boot"
  have "device_run map_env (Map.empty, False) first_boot" by (rule device_run.start) (rule map_env_start)
  moreover have "device_step map_env first_boot ?st"
    by (rule device_step.phone [OF _ phone_remalm, of test_in]) (simp add: test_in_def)
  ultimately have run: "device_run map_env (Map.empty, False) ?st" by (rule device_run.more)
  have "store_ok (fst (Map.empty, False))" by (simp add: store_ok_def)
  from parameters_in_range [OF map_env_contract map_env_clear this run] show ?thesis by (auto simp only: Let_def)
qed

section \<open>Commands with defined behaviour\<close>

lemma defined_ifI: "(c \<Longrightarrow> x \<noteq> None) \<Longrightarrow> (\<not> c \<Longrightarrow> y \<noteq> None) \<Longrightarrow> (if c then x else y) \<noteq> None"
  by simp

lemma defined_optI: "(x = None \<Longrightarrow> y \<noteq> None) \<Longrightarrow> (\<And>v. x = Some v \<Longrightarrow> f v \<noteq> None) \<Longrightarrow> (case x of None \<Rightarrow> y | Some v \<Rightarrow> f v) \<noteq> None"
  by (cases x) auto

lemma defined_pairI: "(\<And>a b. p = (a, b) \<Longrightarrow> f a b \<noteq> None) \<Longrightarrow> (case p of (a, b) \<Rightarrow> f a b) \<noteq> None"
  by (cases p) auto

lemmas definedI = defined_ifI defined_optI defined_pairI

lemma defined_answers:
  "answer txt m st \<noteq> None" "param_invalid m st \<noteq> None" "show_values n vs m st \<noteq> None" "answer_checked bs m st \<noteq> None"
  by (simp_all add: answer_def param_invalid_def show_values_def answer_checked_def)

lemma alarm_defined:
  "switch_mode_handler k env m st \<noteq> None" "parm_count m \<noteq> 0 \<Longrightarrow> patalm_cmd_handler env m st \<noteq> None" "tempalm_cmd_handler env m st \<noteq> None"
  "batlevel_cmd_handler env m st \<noteq> None" "chargesta_cmd_handler env m st \<noteq> None" "imu_alm_cmd_handler env m st \<noteq> None"
  unfolding switch_mode_handler_def patalm_cmd_handler_def tempalm_cmd_handler_def batlevel_cmd_handler_def chargesta_cmd_handler_def
    imu_alm_cmd_handler_def Let_def prod.case
  by (simp del: not_None_eq, (intro definedI defined_answers | assumption)+ | intro definedI defined_answers)+

lemma power_defined:
  "pwsave_cmd_handler inp m st \<noteq> None" "pwrlimit_cmd_handler env m st \<noteq> None" "startr_cmd_handler env m st \<noteq> None"
  "lprunning_cmd_handler env m st \<noteq> None" "cbmt_cmd_handler inp m st \<noteq> None" "bt_mac_cmd_handler m st \<noteq> None"
  "version_cmd_handler inp m st \<noteq> None" "async_query p m st \<noteq> None"
  unfolding pwsave_cmd_handler_def pwrlimit_cmd_handler_def startr_cmd_handler_def lprunning_cmd_handler_def cbmt_cmd_handler_def
    bt_mac_cmd_handler_def version_cmd_handler_def async_query_def Let_def prod.case
  by (intro definedI defined_answers option.simps)+

lemma bluetooth_defined:
  "bt_crfpwr_cmd_handler env m st \<noteq> None" "bt_updata_cmd_handler env inp m st \<noteq> None" "bluetooth_cmd_handler env m st \<noteq> None"
  "btconnect_cmd_handler env m st \<noteq> None" "tag_cmd_handler env m st \<noteq> None" "adv_tag_handler a env m st \<noteq> None"
  "taginit_param_cmd_handler env m st \<noteq> None" "btlog_cmd_handler env m st \<noteq> None"
  unfolding bt_crfpwr_cmd_handler_def bt_updata_cmd_handler_def bluetooth_cmd_handler_def btconnect_cmd_handler_def tag_cmd_handler_def
    adv_tag_handler_def taginit_param_cmd_handler_def btlog_cmd_handler_def Let_def prod.case
  by (intro definedI defined_answers option.simps)+

lemma other_defined:
  "led_cmd_handler env inp m st \<noteq> None" "ltint_cmd_handler env m st \<noteq> None" "buzzer_cmd_handler env m st \<noteq> None"
  "timer_cmd_handler k n p env m st \<noteq> None" "modeset_cmd_handler env inp m st \<noteq> None" "bt_parmac_cmd_handler env inp m st \<noteq> None"
  "factory_reset_handler arg env inp m st \<noteq> None"
  unfolding led_cmd_handler_def ltint_cmd_handler_def buzzer_cmd_handler_def timer_cmd_handler_def modeset_cmd_handler_def
    modeset_finish_def bt_parmac_cmd_handler_def factory_reset_handler_def Let_def prod.case
  by (intro definedI defined_answers option.simps)+

text \<open>The stored sub mode is an index of the intervals, so the mode queries read inside the arrays.\<close>

lemma mode_values_defined:
  assumes "cmd_inv K st"
  shows "mode_values (cf st ZMS_ID_WORK_MODE_CONFIG) mode \<noteq> None"
proof -
  have "cf st ZMS_ID_WORK_MODE_CONFIG ! 28 \<le> 5"
    using cmd_inv_img [OF assms, of ZMS_ID_WORK_MODE_CONFIG] by (simp add: img_ok_mode work_mode_ok_def)
  then show ?thesis by (simp add: mode_values_def word_le_nat_alt)
qed

lemma mode_queries_defined:
  assumes "cmd_inv K st"
  shows "modeget_cmd_handler inp m st \<noteq> None" "modeparam_cmd_handler m st \<noteq> None"
proof -
  have ex: "\<exists>vs. mode_values (cf st ZMS_ID_WORK_MODE_CONFIG) i = Some vs" for i
    using mode_values_defined [OF assms, of i] by auto
  show "modeget_cmd_handler inp m st \<noteq> None"
    using ex [of "current_mode inp (cf st ZMS_ID_WORK_MODE_CONFIG)"]
    by (auto simp: modeget_cmd_handler_def Let_def defined_answers [simplified])
  show "modeparam_cmd_handler m st \<noteq> None"
    using ex [of 0] ex [of 1] ex [of 2] ex [of 3]
    by (auto simp: modeparam_cmd_handler_def Let_def defined_answers [simplified])
qed

lemma lte_text_fits: "length acc + sum_list (map length ps) + length ps \<le> 126 \<Longrightarrow> \<exists>txt. lte_cmd_text acc ps = Some txt"
  by (induction acc ps rule: lte_cmd_text.induct) (auto simp: piece_fits_def)

lemma lte_defined:
  assumes "cmd_analyse s = (n, ps)" "0 < n" "length s < CMD_STRING_LENGTH_MAX" "parm m = ps" "parm_count m = of_int (n - 1)"
  shows "lte_cmd_handler inp m st \<noteq> None"
proof -
  note a = cmd_analyse_length [OF assms(1,2)]
  have c: "unat (parm_count m) = nat n - 1" using a(3) assms(2,5) by (simp add: unat_eq_nat_uint nat_diff_distrib del: of_int_diff)
  obtain p qs where ps: "ps = p # qs" using a(2) by (cases ps) auto
  have t: "take (nat n) ps = p # take (nat n - 1) qs" using assms(2) ps by (cases "nat n") auto
  have len: "length (take (nat n - 1) qs) = nat n - 1" using a(2,3) ps by simp
  have "length p + sum_list (map length (take (nat n - 1) qs)) + length (take (nat n - 1) qs) \<le> 126"
    using a(1) assms(2,3) len unfolding t by simp linarith
  then obtain w where "lte_cmd_text p (take (nat n - 1) qs) = Some w" using lte_text_fits by blast
  moreover have "piece_fits 0 p" using a(1) assms(2,3) unfolding t piece_fits_def by simp
  ultimately show ?thesis using assms(4) ps c by (simp add: lte_cmd_handler_def split: prod.splits)
qed

text \<open>The two queries whose answer is printed with an argument that is missing.\<close>

definition broken_query :: "bytes \<Rightarrow> bool" where
  "broken_query s \<longleftrightarrow> (case cmd_analyse s of (n, ps) \<Rightarrow>
     n = 1 \<and> (my_strcasecmp (ascii ''MOTDET'') (ps ! 0) = 0 \<or> my_strcasecmp (ascii ''PATMALM'') (ps ! 0) = 0))"

lemma table_defined:
  assumes "cmd_inv K st" "(name, h) \<in> set (at_cmd_attr_table env inp)" "h m st = None"
  shows "(name = ''MOTDET'' \<or> name = ''PATMALM'') \<and> parm_count m = 0"
proof -
  have q: "parm_count m = 0" if "motdet_cmd_handler env m st = None"
    using that by (auto simp: motdet_cmd_handler_def defined_answers split: option.splits if_splits)
  have p: "parm_count m = 0" if "patalm_cmd_handler env m st = None" using that alarm_defined(2) by blast
  have "list_all (\<lambda>(name, h). h m st = None \<longrightarrow> name \<in> {''MOTDET'', ''PATMALM''} \<and> parm_count m = 0) (at_cmd_attr_table env inp)"
    unfolding at_cmd_attr_table_def remalm_cmd_handler_def pullalm_cmd_handler_def motdetalm_cmd_handler_def
      patmtimer_cmd_handler_def temptimer_cmd_handler_def jatag_cmd_handler_def jgtag_cmd_handler_def factory_cmd_handler_def
      factoryall_cmd_handler_def patm_cmd_handler_def temp_cmd_handler_def status_cmd_handler_def
    by (simp add: alarm_defined(1,3-) power_defined bluetooth_defined other_defined mode_queries_defined [OF assms(1)] q p del: not_None_eq)
  then show ?thesis using assms(2,3) by (auto simp: list_all_iff)
qed

lemma dispatch_defined:
  assumes "cmd_inv K st" "cmd_analyse s = (n, ps)" "0 < n" "length s < CMD_STRING_LENGTH_MAX" "parm m = ps" "parm_count m = of_int (n - 1)"
    "dispatch env inp m st = None"
  shows "(my_strcasecmp (ascii ''MOTDET'') (ps ! 0) = 0 \<or> my_strcasecmp (ascii ''PATMALM'') (ps ! 0) = 0) \<and> parm_count m = 0"
proof (cases "find (\<lambda>(name, h). my_strcasecmp (ascii name) (parm m ! 0) = 0) (at_cmd_attr_table env inp)")
  case None
  then show ?thesis using assms(7) by (simp add: dispatch_def lte_defined [OF assms(2-6)] split: if_splits)
next
  case (Some e)
  obtain name h where e: "e = (name, h)" by fastforce
  have "(name, h) \<in> set (at_cmd_attr_table env inp)" "my_strcasecmp (ascii name) (parm m ! 0) = 0"
    using Some e by (auto simp: find_Some_iff in_set_conv_nth)
  moreover have "h m st = None" using assms(7) Some e by (simp add: dispatch_def)
  ultimately show ?thesis using table_defined [OF assms(1)] assms(5) by blast
qed

lemma at_recv_defined:
  assumes "cmd_inv K st" "length s < CMD_STRING_LENGTH_MAX" "at_recv_cmd_handler env inp s m st = None"
  shows "broken_query s"
proof -
  obtain n ps where a: "cmd_analyse s = (n, ps)" by fastforce
  then have n: "0 < n" "n \<le> 20" "dispatch env inp (m\<lparr>parm := ps, parm_count := of_int (n - 1)\<rparr>) st = None"
    using assms(3) by (auto simp: at_recv_cmd_handler_def split: if_splits)
  note d = dispatch_defined [OF assms(1) a n(1) assms(2) _ _ n(3)]
  have "uint (word_of_int (n - 1) :: u8) = n - 1" using n by (intro uint_u8) auto
  then show ?thesis using d a by (simp add: broken_query_def)
qed

lemma motdet_undefined: "ble_comu_at_cmd_handle env inp (ascii ''MOTDET#'') st = None"
proof -
  have a: "takeWhile (\<lambda>c. c \<noteq> 0) (ascii ''MOTDET#'') = ascii ''MOTDET#''" "cmd_analyse (ascii ''MOTDET#'') = (1, ascii ''MOTDET'' # replicate 19 [])"
    by code_simp+
  have w: "my_strcasecmp (ascii ''REMALM'') (ascii ''MOTDET'') \<noteq> 0" "my_strcasecmp (ascii ''PULLALM'') (ascii ''MOTDET'') \<noteq> 0"
    "my_strcasecmp (ascii ''PATMALM'') (ascii ''MOTDET'') \<noteq> 0" "my_strcasecmp (ascii ''TEMPALM'') (ascii ''MOTDET'') \<noteq> 0"
    "my_strcasecmp (ascii ''MOTDET'') (ascii ''MOTDET'') = 0"
    by code_simp+
  show ?thesis
    unfolding ble_comu_at_cmd_handle_def a at_recv_cmd_handler_def
    by (simp add: dispatch_def at_cmd_attr_table_def w motdet_cmd_handler_def)
qed

lemma patmalm_undefined: "ble_comu_at_cmd_handle env inp (ascii ''PATMALM#'') st = None"
proof -
  have a: "takeWhile (\<lambda>c. c \<noteq> 0) (ascii ''PATMALM#'') = ascii ''PATMALM#''" "cmd_analyse (ascii ''PATMALM#'') = (1, ascii ''PATMALM'' # replicate 19 [])"
    by code_simp+
  have w: "my_strcasecmp (ascii ''REMALM'') (ascii ''PATMALM'') \<noteq> 0" "my_strcasecmp (ascii ''PULLALM'') (ascii ''PATMALM'') \<noteq> 0"
    "my_strcasecmp (ascii ''PATMALM'') (ascii ''PATMALM'') = 0"
    by code_simp+
  show ?thesis
    unfolding ble_comu_at_cmd_handle_def a at_recv_cmd_handler_def
    by (simp add: dispatch_def at_cmd_attr_table_def w patalm_cmd_handler_def)
qed

text \<open>
  C10: On a device that has run any commands since a start at which its storage could be initialised, a command text from the phone that fits
  the receive buffer is handled without undefined behaviour unless it is the query of the motion
  thresholds or of the pressure alarm: the text rebuilt for the LTE module stays inside its buffer and the mode queries
  inside their arrays. These two queries, \<open>MOTDET#\<close> and \<open>PATMALM#\<close>, print an argument that is not there.
\<close>

theorem commands_defined:
  assumes "zms_contract env K R" "clear_safe env K" "store_ok (K d)" "device_run env d st"
    "length data < CMD_STRING_LENGTH_MAX" "\<not> broken_query (takeWhile (\<lambda>c. c \<noteq> 0) data)"
  shows "(\<exists>r st'. ble_comu_at_cmd_handle env inp data st = Some (r, st')) \<and>
    ble_comu_at_cmd_handle env inp (ascii ''MOTDET#'') st = None \<and> ble_comu_at_cmd_handle env inp (ascii ''PATMALM#'') st = None"
proof -
  let ?s = "takeWhile (\<lambda>c. c \<noteq> 0) data"
  have "length ?s < CMD_STRING_LENGTH_MAX" using assms(5) length_takeWhile_le [of _ data] by (rule le_less_trans [rotated])
  then have "at_recv_cmd_handler env inp ?s empty_cmd st \<noteq> None"
    using at_recv_defined [OF run_inv [OF assms(1-4)]] assms(6) by blast
  then show ?thesis using assms(5) motdet_undefined patmalm_undefined by (auto simp: ble_comu_at_cmd_handle_def)
qed

theorem commands_defined_witness:
  "(\<exists>r st'. ble_comu_at_cmd_handle map_env test_in (ascii ''GFENCE,1#'') first_boot = Some (r, st'))"
proof -
  have run: "device_run map_env (Map.empty, False) first_boot" by (rule device_run.start) (rule map_env_start)
  have "\<not> broken_query (takeWhile (\<lambda>c. c \<noteq> 0) (ascii ''GFENCE,1#''))" by code_simp
  moreover have "store_ok (fst (Map.empty, False))" by (simp add: store_ok_def)
  moreover have "length (ascii ''GFENCE,1#'') < CMD_STRING_LENGTH_MAX" by (simp add: ascii_def)
  ultimately show ?thesis using commands_defined [OF map_env_contract map_env_clear _ run] by blast
qed

end
