(* ===== verification/Parmac.thy ===== *)
theory Parmac
  imports Cmd_Props
begin

text \<open>
  The list of addresses whose advertisements are passed through: the stored structure as a list,
  and what happens to a deletion when the device restarts.
\<close>

section \<open>The list of addresses\<close>

lemma parmac_at_put [simp]:
  assumes "length b = 142" "length x = 7" "i < 20" "j < 20"
  shows "parmac_at (mem_put b (1 + 7 * j) x) i = (if i = j then x else parmac_at b i)"
proof (cases "i = j")
  case False
  then have d: "7 + 7 * i \<le> 7 * j \<or> 7 + 7 * j \<le> 7 * i" by linarith
  show ?thesis using assms d False unfolding parmac_at_def by (intro nth_equalityI) (auto simp: nth_mem_put)
qed (use assms in \<open>auto simp: parmac_at_def nth_mem_put intro!: nth_equalityI\<close>)

lemma parmac_at_count [simp]: "length b = 142 \<Longrightarrow> i < 20 \<Longrightarrow> parmac_at (mem_put b PARMAC_COUNT [c]) i = parmac_at b i"
  unfolding parmac_at_def by (intro nth_equalityI) (auto simp: nth_mem_put)

lemma length_parmac_at: "length b = 142 \<Longrightarrow> i < 20 \<Longrightarrow> length (parmac_at b i) = 7"
  by (simp add: parmac_at_def)

lemma parmac_shift_at:
  "length b = 142 \<Longrightarrow> n \<le> 20 \<Longrightarrow> i < n \<Longrightarrow>
     parmac_at (parmac_shift j n b) i = (if j \<le> i \<and> i + 1 < n then parmac_at b (i + 1) else parmac_at b i)"
proof (induction j n b rule: parmac_shift.induct)
  case (1 j n b)
  show ?case
  proof (cases "j + 1 < n")
    case True
    let ?c = "mem_put b (1 + 7 * j) (parmac_at b (j + 1))"
    have l: "length (parmac_at b (j + 1)) = 7" using 1 True by (simp add: length_parmac_at)
    have "parmac_at ?c i' = (if i' = j then parmac_at b (j + 1) else parmac_at b i')" if "i' < 20" for i'
      using parmac_at_put [OF 1(2) l that, of j] 1(3) True by simp
    moreover have "parmac_at (parmac_shift (j + 1) n ?c) i = (if j + 1 \<le> i \<and> i + 1 < n then parmac_at ?c (i + 1) else parmac_at ?c i)"
      using 1 True by simp
    ultimately show ?thesis using 1(3,4) True parmac_shift.simps [of j n b] by auto
  qed (use 1 in \<open>auto simp: parmac_shift.simps [of j n b]\<close>)
qed

lemma remove1_nth:
  assumes "i < length xs" "xs ! i = a" "\<forall>j<i. xs ! j \<noteq> a"
  shows "remove1 a xs = take i xs @ drop (Suc i) xs"
proof -
  have "a \<notin> set (take i xs)" using assms(1,3) by (auto simp: in_set_conv_nth)
  then have "remove1 a (take i xs @ a # drop (Suc i) xs) = take i xs @ drop (Suc i) xs" by (simp add: remove1_append)
  then show ?thesis using id_take_nth_drop [OF assms(1)] assms(2) by simp
qed

lemma filter_upt_first:
  assumes "filter P [0..<n] = i # js"
  shows "i < n" "P i" "\<forall>j<i. \<not> P j"
proof -
  have "i \<in> set (filter P [0..<n])" using assms by simp
  then show i: "i < n" "P i" by simp_all
  show "\<forall>j<i. \<not> P j"
  proof (intro allI impI notI)
    fix j assume "j < i" "P j"
    moreover have "sorted (filter P [0..<n])" by (rule sorted_wrt_filter) simp
    moreover have "j \<in> set (filter P [0..<n])" using calculation(1,2) i by simp
    ultimately show False unfolding assms by auto
  qed
qed

lemma parmac_add_list:
  assumes "length b = 142" "b ! PARMAC_COUNT < 20" "length a = 7" "a \<notin> set (parmac_list b)"
  shows "fst (parmac_add a b) = 0" "parmac_list (snd (parmac_add a b)) = parmac_list b @ [a]"
proof -
  let ?n = "unat (b ! PARMAC_COUNT)"
  have n: "?n < 20" "unat (b ! PARMAC_COUNT + 1) = Suc ?n"
    using assms(2) by (simp_all add: word_less_nat_alt unat_word_ariths)
  have add: "parmac_add a b = (0, mem_put (mem_put b (1 + 7 * ?n) a) PARMAC_COUNT [b ! PARMAC_COUNT + 1])"
    using assms(2,4) by (simp add: parmac_add_def)
  have "parmac_at (mem_put (mem_put b (1 + 7 * ?n) a) PARMAC_COUNT [b ! PARMAC_COUNT + 1]) i = (if i = ?n then a else parmac_at b i)" if "i < 20" for i
    using that n(1) assms(1,3) parmac_at_put [OF assms(1,3) that n(1)] by simp
  then have "map (parmac_at (mem_put (mem_put b (1 + 7 * ?n) a) PARMAC_COUNT [b ! PARMAC_COUNT + 1])) [0..<Suc ?n] = map (parmac_at b) [0..<?n] @ [a]"
    using n(1) by auto
  moreover have "parmac_list (mem_put (mem_put b (1 + 7 * ?n) a) PARMAC_COUNT [b ! PARMAC_COUNT + 1]) =
      map (parmac_at (mem_put (mem_put b (1 + 7 * ?n) a) PARMAC_COUNT [b ! PARMAC_COUNT + 1])) [0..<Suc ?n]"
    using assms(1) n(2) by (simp add: parmac_list_def nth_mem_put)
  ultimately show "fst (parmac_add a b) = 0" "parmac_list (snd (parmac_add a b)) = parmac_list b @ [a]"
    by (simp_all add: add parmac_list_def)
qed

lemma parmac_del_list:
  assumes "length b = 142" "b ! PARMAC_COUNT \<le> 20" "a \<in> set (parmac_list b)"
  shows "fst (parmac_del a b) = 0" "parmac_list (snd (parmac_del a b)) = remove1 a (parmac_list b)"
proof -
  let ?n = "unat (b ! PARMAC_COUNT)"
  have n: "?n \<le> 20" using assms(2) by (simp add: word_le_nat_alt)
  obtain i js where f: "filter (\<lambda>i. parmac_at b i = a) [0..<?n] = i # js"
    using assms(3) by (cases "filter (\<lambda>i. parmac_at b i = a) [0..<?n]") (auto simp: parmac_list_def filter_empty_conv)
  note i = filter_upt_first [OF f]
  let ?s = "parmac_shift i ?n b"
  let ?c = "mem_put (mem_put ?s (1 + 7 * (?n - 1)) (replicate 7 0)) PARMAC_COUNT [b ! PARMAC_COUNT - 1]"
  have sl: "length ?s = 142" using parmac_shift_frame [OF assms(1) n] by simp
  have del: "parmac_del a b = (0, ?c)" using f by (simp add: parmac_del_def Let_def)
  have "unat (b ! PARMAC_COUNT - 1) = ?n - 1" using i(1) by (simp add: unat_sub_if_size word_size)
  then have "parmac_list ?c = map (parmac_at ?c) [0..<?n - 1]" using sl by (simp add: parmac_list_def nth_mem_put)
  also have "\<dots> = map (\<lambda>k. if i \<le> k then parmac_at b (k + 1) else parmac_at b k) [0..<?n - 1]"
  proof (rule map_cong [OF refl])
    fix k assume "k \<in> set [0..<?n - 1]"
    then have k: "k < ?n - 1" "Suc k < ?n" by simp_all
    then have "parmac_at ?c k = parmac_at ?s k" using n sl parmac_at_put [OF sl, of "replicate 7 0" k "?n - 1"] by simp
    then show "parmac_at ?c k = (if i \<le> k then parmac_at b (k + 1) else parmac_at b k)"
      using parmac_shift_at [OF assms(1) n, of k i] k by simp
  qed
  also have "\<dots> = take i (parmac_list b) @ drop (Suc i) (parmac_list b)"
    using i(1) by (intro nth_equalityI) (auto simp: parmac_list_def nth_append)
  also have "\<dots> = remove1 a (parmac_list b)"
    using i by (intro remove1_nth [symmetric]) (auto simp: parmac_list_def)
  finally show "fst (parmac_del a b) = 0" "parmac_list (snd (parmac_del a b)) = remove1 a (parmac_list b)" by (simp_all add: del)
qed

text \<open>
  C31: On a well-formed structure the operations on the stored addresses are those of a list with
  room for twenty: adding appends, or is refused when the list is full or has the address;
  deleting removes the address and closes the gap, or is refused when it is not there.
\<close>

theorem parmac_refines_list:
  assumes "length b = 142" "b ! PARMAC_COUNT \<le> 20" "length a = 7"
  shows "(case parmac_add a b of (r, b') \<Rightarrow>
      if length (parmac_list b) = 20 then r = -12 \<and> b' = b
      else if a \<in> set (parmac_list b) then r = -17 \<and> b' = b
      else r = 0 \<and> parmac_list b' = parmac_list b @ [a]) \<and>
    (case parmac_del a b of (r, b') \<Rightarrow>
      if a \<in> set (parmac_list b) then r = 0 \<and> parmac_list b' = remove1 a (parmac_list b) else r = -2 \<and> b' = b)"
proof
  have len: "length (parmac_list b) = 20 \<longleftrightarrow> \<not> b ! PARMAC_COUNT < 20" "b ! PARMAC_COUNT \<ge> 20 \<longleftrightarrow> \<not> b ! PARMAC_COUNT < 20"
    using assms(2) by (auto simp: parmac_list_def word_less_nat_alt word_le_nat_alt)
  show "case parmac_add a b of (r, b') \<Rightarrow>
      if length (parmac_list b) = 20 then r = -12 \<and> b' = b
      else if a \<in> set (parmac_list b) then r = -17 \<and> b' = b
      else r = 0 \<and> parmac_list b' = parmac_list b @ [a]"
    using parmac_add_list [OF assms(1) _ assms(3)] unfolding len
    by (auto simp: parmac_add_def len(2) split: prod.splits)
  have "filter (\<lambda>i. parmac_at b i = a) [0..<unat (b ! PARMAC_COUNT)] = []" if "a \<notin> set (parmac_list b)"
    using that by (auto simp: parmac_list_def filter_empty_conv)
  then show "case parmac_del a b of (r, b') \<Rightarrow>
      if a \<in> set (parmac_list b) then r = 0 \<and> parmac_list b' = remove1 a (parmac_list b) else r = -2 \<and> b' = b"
    using parmac_del_list [OF assms(1,2), of a] by (cases "a \<in> set (parmac_list b)") (auto simp: parmac_del_def Let_def split: prod.splits)
qed

theorem parmac_refines_list_witness:
  "parmac_list (snd (parmac_add [0, 1, 2, 3, 4, 5, 6] gDefaultBparmacConfig)) = [[0, 1, 2, 3, 4, 5, 6]]"
proof -
  let ?b = gDefaultBparmacConfig
  have "length ?b = 142" "?b ! PARMAC_COUNT = 0" by (simp_all add: gDefaultBparmacConfig_def nth_append)
  moreover from this have "parmac_list ?b = []" by (simp add: parmac_list_def)
  ultimately show ?thesis using parmac_refines_list [of ?b "[0, 1, 2, 3, 4, 5, 6]"] by (auto split: prod.splits)
qed

section \<open>A deletion does not last\<close>

lemma cf_put_cf: "length b = length (cf st k) \<Longrightarrow> cf (cf_put k b st) = (cf st)(k := b)"
  by (simp add: cf_put_def put_fields_cf put_all_simps mem_put_def)

lemma cf_put_pdev [simp]: "pdev (cparams (cf_put k b st)) = pdev (cparams st)"
  by (simp add: cf_put_def put_fields_eq)

text \<open>
  C26: \<open>BT_PARMAC,DEL\<close> with an address that is in the list answers \<open>Set OK!\<close> and removes it from the
  list in memory, but the structure is not stored: after a restart the list is the one from
  before the command.
\<close>

lemma parmac_delete_lost:
  assumes "zms_contract env K R" "can_start env (pdev (cparams st))" "cmd_inv K st"
    "K (pdev (cparams st)) ZMS_ID_BT_PARMAC_CONFIG = Some (cf st ZMS_ID_BT_PARMAC_CONFIG)" "cf st ZMS_ID_BT_PARMAC_CONFIG ! 0 = FLAG_VALID"
    "parm_count m = 2" "parm m ! 1 = ascii ''DEL''" "\<not> is_word (parm m ! 2) ''ALL''"
    "parmac_addr inp (parm m ! 2) = Some a" "a \<in> set (parmac_list (cf st ZMS_ID_BT_PARMAC_CONFIG))"
  shows "\<exists>st'. bt_parmac_cmd_handler env inp m st = answer ''Set OK!'' m st' \<and>
    parmac_list (cf st' ZMS_ID_BT_PARMAC_CONFIG) = remove1 a (parmac_list (cf st ZMS_ID_BT_PARMAC_CONFIG)) \<and>
    gConfigParam (param_restart env (cparams st')) ZMS_ID_BT_PARMAC_CONFIG = cf st ZMS_ID_BT_PARMAC_CONFIG"
proof -
  let ?k = ZMS_ID_BT_PARMAC_CONFIG
  let ?b = "cf st ?k"
  have b: "length ?b = 142" "?b ! PARMAC_COUNT \<le> 20" using cmd_inv_img [OF assms(3), of ?k] by (simp_all add: img_ok_parmac)
  obtain r b' where d: "parmac_del a ?b = (r, b')" by fastforce
  have l: "r = 0" "parmac_list b' = remove1 a (parmac_list ?b)" using parmac_del_list [OF b assms(10)] d by simp_all
  then have b': "length b' = 142" using parmac_del_ok [OF b] d by blast
  have v: "take 1 ?b = [FLAG_VALID]" using assms(5) b(1) by (cases ?b) auto
  have w: "\<not> is_word (ascii ''DEL'') ''ADD''" "is_word (ascii ''DEL'') ''DEL''" by code_simp+
  have "bt_parmac_cmd_handler env inp m st = answer ''Set OK!'' m (cf_put ?k b' st)"
    using assms(6-9) w d l(1) by (simp add: bt_parmac_cmd_handler_def Let_def)
  moreover have "parmac_list (cf (cf_put ?k b' st) ?k) = remove1 a (parmac_list ?b)" using cf_put_cf [of b' st ?k] b b' l(2) by simp
  moreover have "gConfigParam (param_restart env (cparams (cf_put ?k b' st))) ?k = ?b"
    using restart_config(1) [OF assms(1), of "cparams (cf_put ?k b' st)"] assms(2,4) v b(1) by (simp add: stored_or_default_def)
  ultimately show ?thesis by blast
qed

end
