(* ===== verification/Lte_Retrans.thy ===== *)
theory Lte_Retrans
  imports Tool_Text "HOL-Library.Multiset"
begin

text \<open>
  The repetition of commands to the LTE module, \<open>my_lte.c\<close>: the queue of commands that wait for
  an answer, the check that repeats them or restarts the module, the removal of an
  answered command, and the queue that pairs late answers with their requesters. The shipped
  configuration does not use the repetition (\<open>RETRANSMIT_CHECK_ENABLED\<close> is 0), but the code is part
  of the build and every answer of the module passes through \<open>check_ack\<close>. Commands sent and messages
  posted are recorded.
\<close>

section \<open>State\<close>

abbreviation (input) MAX_RETRIES :: int where "MAX_RETRIES \<equiv> 3"
abbreviation (input) ACK_TIMEOUT_S :: int where "ACK_TIMEOUT_S \<equiv> 2"
abbreviation (input) RETRANSMISSION_QUEUE_SIZE :: nat where "RETRANSMISSION_QUEUE_SIZE \<equiv> 10"
abbreviation (input) ASYNC_QUEUE_SIZE :: nat where "ASYNC_QUEUE_SIZE \<equiv> 6"

datatype msg_state = MSG_STATE_IDLE | MSG_STATE_PENDING | MSG_STATE_TIMEOUT

record retransmission_item =
  ri_cmd_name :: bytes
  ri_param :: "bytes option"
  ri_retry_count :: int
  ri_send_time :: int
  ri_state :: msg_state

datatype retrans_out = Send_Command bytes "bytes option" | Clear_Tag_Macinfo | Restart_Off | Restart_On

record retrans =
  s_retrans_queue :: "retransmission_item list"
  s_retrans_check_timer :: bool
  retrans_outs :: "retrans_out list"

definition idle_item :: retransmission_item where
  "idle_item = \<lparr>ri_cmd_name = [], ri_param = None, ri_retry_count = 0, ri_send_time = 0, ri_state = MSG_STATE_IDLE\<rparr>"

definition s_special_cmd_prefixes :: "bytes list" where
  "s_special_cmd_prefixes = [ascii ''MACINFO'', ascii ''TAG'']"

abbreviation (input) is_pending :: "retransmission_item \<Rightarrow> bool" where
  "is_pending x \<equiv> ri_state x = MSG_STATE_PENDING"

section \<open>Operations\<close>

definition init_retransmission_queue :: "retrans \<Rightarrow> retrans" where
  "init_retransmission_queue s = s\<lparr>s_retrans_queue := replicate RETRANSMISSION_QUEUE_SIZE idle_item, s_retrans_check_timer := False\<rparr>"

definition retrans_queue_is_empty :: "retrans \<Rightarrow> bool" where
  "retrans_queue_is_empty s \<longleftrightarrow> \<not> list_ex is_pending (s_retrans_queue s)"

text \<open>From the answered entry on, pending entries move up one place; the last place is cleared.\<close>

fun shift_items :: "retransmission_item list \<Rightarrow> retransmission_item list" where
  "shift_items [] = []"
| "shift_items [x] = [idle_item]"
| "shift_items (x # y # ys) = (if is_pending y then y # shift_items (y\<lparr>ri_param := None\<rparr> # ys) else idle_item # y # ys)"

fun ack_items :: "bytes \<Rightarrow> retransmission_item list \<Rightarrow> retransmission_item list" where
  "ack_items cmd_name [] = []"
| "ack_items cmd_name (x # xs) =
     (if is_pending x \<and> ri_cmd_name x = cmd_name then shift_items (x\<lparr>ri_param := None\<rparr> # xs) else x # ack_items cmd_name xs)"

definition stop_if_empty :: "retrans \<Rightarrow> retrans" where
  "stop_if_empty s = (if retrans_queue_is_empty s then s\<lparr>s_retrans_check_timer := False\<rparr> else s)"

definition check_ack :: "bytes \<Rightarrow> retrans \<Rightarrow> retrans" where
  "check_ack cmd_name s = stop_if_empty (s\<lparr>s_retrans_queue := ack_items cmd_name (s_retrans_queue s)\<rparr>)"

text \<open>\<open>MACINFO_001\<close> is the command \<open>MACINFO\<close>.\<close>

definition has_prefix :: "bytes \<Rightarrow> bytes \<Rightarrow> bool" where
  "has_prefix cmd_name p \<longleftrightarrow> take (length p) cmd_name = p \<and> length p < length cmd_name \<and> cmd_name ! length p = 95"

definition original_name :: "bytes \<Rightarrow> bytes" where
  "original_name cmd_name = (case find (has_prefix cmd_name) s_special_cmd_prefixes of Some p \<Rightarrow> p | None \<Rightarrow> cmd_name)"

fun check_items :: "int \<Rightarrow> retransmission_item list \<Rightarrow> retransmission_item list \<times> retrans_out list" where
  "check_items current_time [] = ([], [])"
| "check_items current_time (x # xs) =
     (if is_pending x \<and> current_time - ri_send_time x \<ge> ACK_TIMEOUT_S
      then if ri_retry_count x < MAX_RETRIES
           then (case check_items current_time xs of (ys, outs) \<Rightarrow>
                   (x\<lparr>ri_retry_count := ri_retry_count x + 1, ri_send_time := current_time\<rparr> # ys,
                    Send_Command (original_name (ri_cmd_name x)) (ri_param x) # outs))
           else (x\<lparr>ri_state := MSG_STATE_TIMEOUT, ri_param := None\<rparr> # xs, [Clear_Tag_Macinfo, Restart_Off, Restart_On])
      else (case check_items current_time xs of (ys, outs) \<Rightarrow> (x # ys, outs)))"

definition retransmission_check :: "int \<Rightarrow> retrans \<Rightarrow> retrans" where
  "retransmission_check now s =
     (case check_items now (s_retrans_queue s) of (ys, outs) \<Rightarrow> s\<lparr>s_retrans_queue := ys, retrans_outs := retrans_outs s @ outs\<rparr>)"

definition retransmission_poll :: "int \<Rightarrow> retrans \<Rightarrow> retrans" where
  "retransmission_poll now s = stop_if_empty (retransmission_check now s)"

text \<open>
  Sending with repetition: the result of \<open>lte_send_command\<close> and of the allocation are inputs; the
  result is the text that is posted to the LTE thread, if any.
\<close>

definition lte_send_cmd_with_retry :: "int \<Rightarrow> bool \<Rightarrow> bytes \<Rightarrow> bytes option \<Rightarrow> retrans \<Rightarrow> bytes option \<times> retrans" where
  "lte_send_cmd_with_retry ret alloc cmd_name param s =
     (let s1 = s\<lparr>retrans_outs := retrans_outs s @ [Send_Command cmd_name param]\<rparr>
      in if ret = -1 \<or> \<not> alloc then (None, s1)
         else (Some (case param of Some p \<Rightarrow> if p \<noteq> [] then cmd_name @ 44 # p else cmd_name | None \<Rightarrow> cmd_name), s1))"

text \<open>The name under which a command waits for its answer: for tags and addresses the first parameter belongs to it.\<close>

definition retrans_name :: "bytes \<Rightarrow> bytes option \<Rightarrow> bytes option" where
  "retrans_name cmd_name param =
     (if cmd_name \<in> set s_special_cmd_prefixes
      then case param of
             Some (c # cs) \<Rightarrow> Option.bind (my_get_str_at_pos (Some (c # cs)) 0 44 16) (\<lambda>(more, f). map_option (\<lambda>f. cmd_name @ 95 # f) f)
           | _ \<Rightarrow> Some cmd_name
      else Some cmd_name)"

fun put_item :: "retransmission_item \<Rightarrow> retransmission_item list \<Rightarrow> retransmission_item list" where
  "put_item n [] = []"
| "put_item n (x # xs) = (if \<not> is_pending x then n # xs else x # put_item n xs)"

fun free_slot :: "retransmission_item list \<Rightarrow> retransmission_item list" where
  "free_slot [] = []"
| "free_slot (x # xs) = (if \<not> is_pending x then x\<lparr>ri_param := None\<rparr> # xs else x # free_slot xs)"

definition add_to_retrans_queue :: "int \<Rightarrow> bool \<Rightarrow> bytes \<Rightarrow> retrans \<Rightarrow> retrans option" where
  "add_to_retrans_queue now alloc command s = do {
     (more, nm) \<leftarrow> my_get_str_at_pos (Some command) 0 44 32;
     cmd_name \<leftarrow> nm;
     let param = (if more then Some (drop (length cmd_name + 1) command) else None);
     full \<leftarrow> retrans_name cmd_name param;
     if param \<noteq> None \<and> \<not> alloc \<and> \<not> list_all is_pending (s_retrans_queue s)
     then Some (s\<lparr>s_retrans_queue := free_slot (s_retrans_queue s)\<rparr>)
     else Some (s\<lparr>s_retrans_queue := put_item \<lparr>ri_cmd_name = take 31 full, ri_param = param, ri_retry_count = 0,
                     ri_send_time = now, ri_state = MSG_STATE_PENDING\<rparr> (s_retrans_queue s),
                  s_retrans_check_timer := True\<rparr>) }"

section \<open>Late answers\<close>

record async_item =
  as_cmd_name :: bytes
  as_id :: bytes
  as_used :: bool

definition free_async :: async_item where
  "free_async = \<lparr>as_cmd_name = [], as_id = [], as_used = False\<rparr>"

definition init_async_queue :: "async_item list" where
  "init_async_queue = replicate ASYNC_QUEUE_SIZE free_async"

fun async_put :: "async_item \<Rightarrow> async_item list \<Rightarrow> int \<times> async_item list" where
  "async_put n [] = (-1, [])"
| "async_put n (x # xs) = (if \<not> as_used x then (0, n # xs) else (case async_put n xs of (r, ys) \<Rightarrow> (r, x # ys)))"

text \<open>Both texts are copied into arrays of sixteen bytes.\<close>

definition async_add_item :: "bytes \<Rightarrow> bytes \<Rightarrow> async_item list \<Rightarrow> (int \<times> async_item list) option" where
  "async_add_item cmd_name i q =
     (if list_ex (\<lambda>x. \<not> as_used x) q \<and> (length cmd_name \<ge> 16 \<or> length i \<ge> 16) then None
      else Some (async_put \<lparr>as_cmd_name = cmd_name, as_id = i, as_used = True\<rparr> q))"

fun async_shift :: "async_item list \<Rightarrow> async_item list" where
  "async_shift [] = []"
| "async_shift [x] = [free_async]"
| "async_shift (x # y # ys) = (if as_used y then y # async_shift (y # ys) else free_async # y # ys)"

fun async_take :: "bytes \<Rightarrow> async_item list \<Rightarrow> bytes option \<times> async_item list" where
  "async_take cmd_name [] = (None, [])"
| "async_take cmd_name (x # xs) =
     (if as_used x \<and> as_cmd_name x = cmd_name then (Some (as_id x), async_shift (x # xs))
      else (case async_take cmd_name xs of (r, ys) \<Rightarrow> (r, x # ys)))"

text \<open>The result, the message to the LTE thread if any, and the queue.\<close>

definition async_match_and_resp :: "bool \<Rightarrow> bytes \<Rightarrow> async_item list \<Rightarrow> (int \<times> bytes option \<times> async_item list) option" where
  "async_match_and_resp alloc data q = do {
     (more, nm) \<leftarrow> my_get_str_at_pos (Some data) 0 44 16;
     cmd_name \<leftarrow> nm;
     Some (case async_take cmd_name q of
        (None, q') \<Rightarrow> (-1, None, q')
      | (Some i, q') \<Rightarrow> (0, if alloc then Some (ascii ''LTE+CMD='' @ i @ 44 # data) else None, q')) }"

section \<open>The waiting commands\<close>

definition pending :: "retrans \<Rightarrow> retransmission_item list" where
  "pending s = filter is_pending (s_retrans_queue s)"

fun remove_first :: "('a \<Rightarrow> bool) \<Rightarrow> 'a list \<Rightarrow> 'a list" where
  "remove_first P [] = []"
| "remove_first P (x # xs) = (if P x then xs else x # remove_first P xs)"

lemma idle_item_state [simp]: "ri_state idle_item = MSG_STATE_IDLE"
  by (simp add: idle_item_def)

lemma shift_pending: "filter is_pending (shift_items (x # xs)) = filter is_pending xs"
  by (induction "x # xs" arbitrary: x xs rule: shift_items.induct) auto

lemma ack_pending: "filter is_pending (ack_items n q) = remove_first (\<lambda>x. ri_cmd_name x = n) (filter is_pending q)"
  by (induction q) (auto simp: shift_pending)

lemma length_shift [simp]: "length (shift_items q) = length q"
  by (induction q rule: shift_items.induct) auto

lemma length_ack [simp]: "length (ack_items n q) = length q"
  by (induction q) auto

lemma length_put_item [simp]: "length (put_item n q) = length q"
  by (induction q) auto

lemma length_free_slot [simp]: "length (free_slot q) = length q"
  by (induction q) auto

lemma length_check: "length (fst (check_items now q)) = length q"
  by (induction q) (auto split: prod.splits)

lemma stop_if_empty_simps [simp]:
  "s_retrans_queue (stop_if_empty s) = s_retrans_queue s" "retrans_outs (stop_if_empty s) = retrans_outs s"
  by (simp_all add: stop_if_empty_def)

lemma put_pending:
  "is_pending n \<Longrightarrow> \<not> list_all is_pending q \<Longrightarrow> mset (filter is_pending (put_item n q)) = add_mset n (mset (filter is_pending q))"
  "list_all is_pending q \<Longrightarrow> put_item n q = q"
  by (induction q) auto

lemma free_slot_pending [simp]: "filter is_pending (free_slot q) = filter is_pending q"
  by (induction q) auto

text \<open>The fields of a waiting command after a check: as before, or with one more repetition.\<close>

lemma check_pending:
  "y \<in> set (filter is_pending (fst (check_items now q))) \<Longrightarrow>
     \<exists>x \<in> set (filter is_pending q). ri_cmd_name y = ri_cmd_name x \<and> ri_param y = ri_param x \<and>
       (y = x \<or> ri_retry_count x < MAX_RETRIES \<and> ri_retry_count y = ri_retry_count x + 1 \<and> ri_send_time y = now)"
  by (induction q) (auto split: prod.splits if_splits)

section \<open>Reachable states\<close>

text \<open>Commands are added and answered and the timer expires, in any order and at any times.\<close>

inductive retrans_step :: "retrans \<Rightarrow> retrans \<Rightarrow> bool" where
  add: "add_to_retrans_queue now alloc command s = Some s' \<Longrightarrow> retrans_step s s'"
| ack: "retrans_step s (check_ack cmd_name s)"
| poll: "s_retrans_check_timer s \<Longrightarrow> retrans_step s (retransmission_poll now s)"
| reset: "retrans_step s (init_retransmission_queue s)"
| send: "retrans_step s (snd (lte_send_cmd_with_retry ret alloc cmd_name param s))"

definition item_ok :: "retransmission_item \<Rightarrow> bool" where
  "item_ok x \<longleftrightarrow> length (ri_cmd_name x) < 32 \<and> 0 \<le> ri_retry_count x \<and> ri_retry_count x \<le> MAX_RETRIES"

definition retrans_ok :: "retrans \<Rightarrow> bool" where
  "retrans_ok s \<longleftrightarrow> length (s_retrans_queue s) = RETRANSMISSION_QUEUE_SIZE \<and> list_all item_ok (s_retrans_queue s) \<and>
     (\<not> retrans_queue_is_empty s \<longrightarrow> s_retrans_check_timer s)"

lemma item_ok_idle [simp]: "item_ok idle_item"
  by (simp add: item_ok_def idle_item_def)

lemma shift_ok: "list_all item_ok q \<Longrightarrow> list_all item_ok (shift_items q)"
  by (induction q rule: shift_items.induct) (auto simp: item_ok_def idle_item_def)

lemma ack_ok: "list_all item_ok q \<Longrightarrow> list_all item_ok (ack_items n q)"
  by (induction q) (auto simp: item_ok_def intro!: shift_ok)

lemma put_ok: "item_ok n \<Longrightarrow> list_all item_ok q \<Longrightarrow> list_all item_ok (put_item n q)"
  by (induction q) auto

lemma free_ok: "list_all item_ok q \<Longrightarrow> list_all item_ok (free_slot q)"
  by (induction q) (auto simp: item_ok_def)

lemma check_ok: "list_all item_ok q \<Longrightarrow> list_all item_ok (fst (check_items now q))"
  by (induction q) (auto simp: item_ok_def split: prod.splits)

lemma is_empty_pending: "retrans_queue_is_empty s \<longleftrightarrow> pending s = []"
  by (simp add: retrans_queue_is_empty_def pending_def list_ex_iff filter_empty_conv)

lemma stop_timer: "\<not> retrans_queue_is_empty (stop_if_empty s) \<Longrightarrow> s_retrans_check_timer (stop_if_empty s) = s_retrans_check_timer s \<and> \<not> retrans_queue_is_empty s"
  by (simp add: stop_if_empty_def retrans_queue_is_empty_def split: if_splits)

lemma add_cases:
  assumes "add_to_retrans_queue now alloc command s = Some s'"
  obtains (freed) "s' = s\<lparr>s_retrans_queue := free_slot (s_retrans_queue s)\<rparr>"
  | (put) n p where "length n < 32" "s' = s\<lparr>s_retrans_queue := put_item \<lparr>ri_cmd_name = n, ri_param = p, ri_retry_count = 0,
      ri_send_time = now, ri_state = MSG_STATE_PENDING\<rparr> (s_retrans_queue s), s_retrans_check_timer := True\<rparr>"
  using assms by (force simp: add_to_retrans_queue_def bind_eq_Some_conv Let_def split: if_splits)

lemma retrans_step_ok:
  assumes "retrans_ok s" "retrans_step s s'"
  shows "retrans_ok s'"
  using assms(2,1)
proof cases
  case (add now alloc command)
  then show ?thesis
  proof (cases rule: add_cases)
    case freed
    then show ?thesis using assms(1) free_ok by (simp add: retrans_ok_def is_empty_pending pending_def)
  next
    case (put n p)
    then show ?thesis using assms(1) by (auto simp: retrans_ok_def item_ok_def intro!: put_ok)
  qed
next
  case (ack n)
  then have "\<not> retrans_queue_is_empty s' \<Longrightarrow> pending s \<noteq> []"
    using ack_pending [of n "s_retrans_queue s"] by (auto simp: is_empty_pending pending_def check_ack_def stop_if_empty_def)
  then show ?thesis using ack assms(1) stop_timer [of "s\<lparr>s_retrans_queue := ack_items n (s_retrans_queue s)\<rparr>"]
    by (auto simp: retrans_ok_def check_ack_def is_empty_pending intro!: ack_ok)
next
  case (poll now)
  then show ?thesis using assms(1) stop_timer [of "retransmission_check now s"] check_ok [of "s_retrans_queue s" now] length_check [of now "s_retrans_queue s"]
    by (auto simp: retrans_ok_def retransmission_poll_def retransmission_check_def split: prod.splits)
next
  case reset
  then show ?thesis by (simp add: retrans_ok_def init_retransmission_queue_def is_empty_pending pending_def list_all_iff)
next
  case (send ret alloc n p)
  then show ?thesis using assms(1) by (simp add: retrans_ok_def lte_send_cmd_with_retry_def Let_def is_empty_pending pending_def)
qed

lemma retrans_reachable_ok:
  assumes "retrans_step\<^sup>*\<^sup>* (init_retransmission_queue s) s'"
  shows "retrans_ok s'"
  using assms
proof induction
  case base
  show ?case by (simp add: retrans_ok_def init_retransmission_queue_def is_empty_pending pending_def list_all_iff)
qed (rule retrans_step_ok)

section \<open>A command that is not answered\<close>

lemma check_none: "\<not> list_ex is_pending q \<Longrightarrow> check_items now q = (q, [])"
  by (induction q) auto

lemma check_one:
  assumes "\<not> list_ex is_pending pre" "\<not> list_ex is_pending post"
  shows "check_items now (pre @ x # post) =
    (if is_pending x \<and> now - ri_send_time x \<ge> ACK_TIMEOUT_S
     then if ri_retry_count x < MAX_RETRIES
          then (pre @ x\<lparr>ri_retry_count := ri_retry_count x + 1, ri_send_time := now\<rparr> # post, [Send_Command (original_name (ri_cmd_name x)) (ri_param x)])
          else (pre @ x\<lparr>ri_state := MSG_STATE_TIMEOUT, ri_param := None\<rparr> # post, [Clear_Tag_Macinfo, Restart_Off, Restart_On])
     else (pre @ x # post, []))"
  using assms by (induction pre) (auto simp: check_none)

lemma filter_oneE:
  assumes "filter P xs = [x]"
  obtains pre post where "xs = pre @ x # post" "\<not> list_ex P pre" "\<not> list_ex P post" "P x"
proof -
  obtain us vs where u: "xs = us @ x # vs" "\<forall>u\<in>set us. \<not> P u" "P x" "[] = filter P vs" using assms unfolding filter_eq_Cons_iff by blast
  show thesis
  proof (rule that [OF u(1) _ _ u(3)])
    show "\<not> list_ex P us" "\<not> list_ex P vs" using u(2) u(4) [symmetric] by (auto simp: list_ex_iff filter_empty_conv)
  qed
qed

text \<open>Polling at the times of a list, as long as the timer runs.\<close>

definition poll_at :: "int \<Rightarrow> retrans \<Rightarrow> retrans" where
  "poll_at now s = (if s_retrans_check_timer s then retransmission_poll now s else s)"

lemma poll_one:
  assumes "\<not> list_ex is_pending pre" "\<not> list_ex is_pending post" "s_retrans_queue s = pre @ x # post" "is_pending x" "s_retrans_check_timer s"
  shows "poll_at now s =
    (if now - ri_send_time x \<ge> ACK_TIMEOUT_S
     then if ri_retry_count x < MAX_RETRIES
          then s\<lparr>s_retrans_queue := pre @ x\<lparr>ri_retry_count := ri_retry_count x + 1, ri_send_time := now\<rparr> # post,
                 retrans_outs := retrans_outs s @ [Send_Command (original_name (ri_cmd_name x)) (ri_param x)]\<rparr>
          else s\<lparr>s_retrans_queue := pre @ x\<lparr>ri_state := MSG_STATE_TIMEOUT, ri_param := None\<rparr> # post,
                 retrans_outs := retrans_outs s @ [Clear_Tag_Macinfo, Restart_Off, Restart_On], s_retrans_check_timer := False\<rparr>
     else s)"
  using assms(1,2,4,5)
  by (auto simp: poll_at_def retransmission_poll_def retransmission_check_def assms(3) check_one [OF assms(1,2)] stop_if_empty_def
    retrans_queue_is_empty_def)

text \<open>
  C17: A command that waits alone and is never answered is sent again two, four and six seconds
  after it was sent, and after eight seconds the module is switched off and on and the timer
  stops, when the timer is served once a second; whatever else the queue holds that does not wait. In every
  reachable state the timer runs as long as a command waits, no command has been repeated more
  than three times, and an answer removes exactly the first waiting command of its name.
\<close>

theorem unanswered_command_restarts:
  assumes "retrans_step\<^sup>*\<^sup>* (init_retransmission_queue s0) s"
  shows "retrans_ok s \<and> pending (check_ack n s) = remove_first (\<lambda>x. ri_cmd_name x = n) (pending s) \<and>
    (\<forall>x t. pending s = [x\<lparr>ri_retry_count := 0, ri_send_time := t\<rparr>] \<longrightarrow>
       (let again = Send_Command (original_name (ri_cmd_name x)) (ri_param x);
            s' = fold poll_at [t + 1, t + 2, t + 3, t + 4, t + 5, t + 6, t + 7, t + 8] s
        in retrans_outs s' = retrans_outs s @ [again, again, again, Clear_Tag_Macinfo, Restart_Off, Restart_On] \<and>
           pending s' = [] \<and> \<not> s_retrans_check_timer s'))"
proof (intro conjI allI impI)
  show ok: "retrans_ok s" by (rule retrans_reachable_ok [OF assms])
  show "pending (check_ack n s) = remove_first (\<lambda>x. ri_cmd_name x = n) (pending s)"
    by (simp add: check_ack_def pending_def ack_pending)
  fix x :: retransmission_item and t
  let ?x = "x\<lparr>ri_retry_count := 0, ri_send_time := t\<rparr>"
  assume p: "pending s = [?x]"
  obtain pre post where q: "s_retrans_queue s = pre @ ?x # post" "\<not> list_ex is_pending pre" "\<not> list_ex is_pending post" "is_pending ?x"
    by (rule filter_oneE [OF p [unfolded pending_def]])
  have "\<not> retrans_queue_is_empty s" using p by (simp add: is_empty_pending)
  then have tm: "s_retrans_check_timer s" using ok by (simp add: retrans_ok_def)
  have np: "filter is_pending pre = []" "filter is_pending post = []" using q(2,3) by (auto simp: filter_empty_conv list_ex_iff)
  note one = poll_one [OF q(2,3)]
  let ?x1 = "?x\<lparr>ri_retry_count := 1, ri_send_time := t + 2\<rparr>" and ?x2 = "?x\<lparr>ri_retry_count := 2, ri_send_time := t + 4\<rparr>"
    and ?x3 = "?x\<lparr>ri_retry_count := 3, ri_send_time := t + 6\<rparr>"
  show "let again = Send_Command (original_name (ri_cmd_name x)) (ri_param x);
            s' = fold poll_at [t + 1, t + 2, t + 3, t + 4, t + 5, t + 6, t + 7, t + 8] s
        in retrans_outs s' = retrans_outs s @ [again, again, again, Clear_Tag_Macinfo, Restart_Off, Restart_On] \<and>
           pending s' = [] \<and> \<not> s_retrans_check_timer s'"
    using q(1,4) tm np by (simp add: one [of _ ?x] one [of _ ?x1] one [of _ ?x2] one [of _ ?x3] pending_def Let_def)
qed

theorem unanswered_command_restarts_witness:
  "\<exists>s. add_to_retrans_queue 100 True (ascii ''LED,1'') (init_retransmission_queue \<lparr>s_retrans_queue = [], s_retrans_check_timer = False, retrans_outs = []\<rparr>) = Some s \<and>
     retrans_outs (fold poll_at [101, 102, 103, 104, 105, 106, 107, 108] s) =
       replicate 3 (Send_Command (ascii ''LED'') (Some (ascii ''1''))) @ [Clear_Tag_Macinfo, Restart_Off, Restart_On]"
proof -
  let ?z = "\<lparr>s_retrans_queue = [], s_retrans_check_timer = False, retrans_outs = []\<rparr>"
  let ?i = "\<lparr>ri_cmd_name = ascii ''LED'', ri_param = Some (ascii ''1''), ri_retry_count = 0, ri_send_time = 100, ri_state = MSG_STATE_PENDING\<rparr>"
  let ?s = "init_retransmission_queue ?z\<lparr>s_retrans_queue := ?i # replicate 9 idle_item, s_retrans_check_timer := True\<rparr>"
  have f: "my_get_str_at_pos (Some (ascii ''LED,1'')) 0 44 32 = Some (True, Some (ascii ''LED''))" "ascii ''LED'' \<notin> set s_special_cmd_prefixes"
    "drop (length (ascii ''LED'') + 1) (ascii ''LED,1'') = ascii ''1''" "length (ascii ''LED'') = 3" "original_name (ascii ''LED'') = ascii ''LED''"
    by code_simp+
  have a: "add_to_retrans_queue 100 True (ascii ''LED,1'') (init_retransmission_queue ?z) = Some ?s"
    using f by (simp add: add_to_retrans_queue_def retrans_name_def init_retransmission_queue_def numeral_eq_Suc)
  then have r: "retrans_step\<^sup>*\<^sup>* (init_retransmission_queue ?z) ?s" by (intro r_into_rtranclp retrans_step.add)
  have "pending ?s = [?i\<lparr>ri_retry_count := 0, ri_send_time := 100\<rparr>]" by (simp add: pending_def)
  then have "retrans_outs (fold poll_at [100 + 1, 100 + 2, 100 + 3, 100 + 4, 100 + 5, 100 + 6, 100 + 7, 100 + 8] ?s) =
      retrans_outs ?s @ [Send_Command (original_name (ri_cmd_name ?i)) (ri_param ?i), Send_Command (original_name (ri_cmd_name ?i)) (ri_param ?i),
        Send_Command (original_name (ri_cmd_name ?i)) (ri_param ?i), Clear_Tag_Macinfo, Restart_Off, Restart_On]"
    using unanswered_command_restarts [OF r] unfolding Let_def by blast
  then show ?thesis using a f(5) by (simp add: init_retransmission_queue_def numeral_eq_Suc)
qed

end
