(* ===== verification/Work_Mode.thy ===== *)
theory Work_Mode
  imports Cmd_Props Tool_Text
begin

text \<open>
  The main thread, \<open>main.c\<close>: the timers and messages of the application, the work modes and
  their switching, the wake-up timer of the long battery mode, shutting down, and the low-power
  running state that is entered and left with the battery level. Messages to the own queue are in
  the state; what is put into the queues of other threads and the calls of other modules
  are recorded in order. The answers of other modules, the clock and allocations are inputs of a step.
\<close>

section \<open>State\<close>

datatype module_type = MOD_MAIN | MOD_BLE | MOD_CTRL | MOD_LTE | MOD_MAGNETIC_UART | MOD_GSENSOR | MOD_FOTA

datatype lte_boot_reason =
    LTE_BOOT_REASON_BOOT_COLD | LTE_BOOT_REASON_INTERVAL | LTE_BOOT_REASON_ALARM | LTE_BOOT_REASON_SCAN | LTE_BOOT_REASON_RESERVED

text \<open>The messages the main thread handles, with their data, and the ones it sends to other threads.\<close>

datatype main_msg =
    MY_MSG_BLE_DATA_EVENT | MY_MSG_CTRL_KEY_SHORT_PRESS | MY_MSG_CTRL_KEY_LONG_PRESS | MY_MSG_CTRL_SHUTDOWN_REQUEST
  | MY_MSG_WORK_MODE_SWITCH "int option" | MY_MSG_RESET_LTE_TIMER
  | MY_MSG_DFU_START | MY_MSG_DFU_TIMEOUT | MY_MSG_DFU_COMPLETE | MY_MSG_DFU_FAIL
  | MY_MSG_LPSLEEP_ENTER | MY_MSG_LPSLEEP_EXIT | MY_MSG_LPSLEEP_BATTERY_CHECK | MY_MSG_LPSLEEP_LTE_SYNC | MY_MSG_LPSLEEP_CLEAR_HOLD_OFF
  | MY_MSG_LTE_PWRON | MY_MSG_LTE_BLE_DATA bytes
  | MY_MSG_GSENSOR_LOW_POWER | MY_MSG_GSENSOR_HIGH_POWER
  | MY_MSG_SCAN_LPSLEEP_ENTER | MY_MSG_SCAN_LPSLEEP_EXIT

datatype main_effect =
    Put module_type main_msg
  | Go_To_System_Off
  | My_Scan_Upload_On_Lte_Wakeup
  | Open_Led_Timer nat
  | My_Bluetooth_Key_Process

datatype timer_fun = Awaken_Lte_Timer_Callback | Lprunning_Wakeup_Timer_Callback | Other_Timer_Callback nat

text \<open>A timer slot: initialised or not, and if running the period, whether it repeats, and the callback.\<close>

record my_timer =
  tm_init :: bool
  tm_run :: "(u32 \<times> bool \<times> timer_fun) option"

abbreviation (input) MY_TIMER_LTE_POWER :: int where "MY_TIMER_LTE_POWER \<equiv> 3"
abbreviation (input) MY_TIMER_LPSLEEP :: int where "MY_TIMER_LPSLEEP \<equiv> 17"
abbreviation (input) MY_TIMER_MAX_ID :: int where "MY_TIMER_MAX_ID \<equiv> 19"
abbreviation (input) MY_MODE_SHUTDOWN :: int where "MY_MODE_SHUTDOWN \<equiv> 0xFF"
abbreviation (input) MAIN_MSGQ_SIZE :: nat where "MAIN_MSGQ_SIZE \<equiv> 10"

record main_st =
  wcfg :: config
  s_my_timer_info :: "int \<Rightarrow> my_timer"
  s_my_msg_info :: "module_type \<Rightarrow> bool"
  my_main_msgq :: "main_msg list"
  s_lprunning_active :: bool
  s_lprunning_saved_mode :: int
  s_last_work_mode :: int
  s_lprunning_hold_off :: bool
  g_shutdown_request :: bool
  s_lteBootReason :: lte_boot_reason
  main_calls :: "main_effect list"

text \<open>What a step is told: the states of other modules as for the commands, the displayed battery level, the charger pin, the time, random bytes.\<close>

record main_in =
  cin :: cmd_in
  get_show_percent :: u8
  get_charge_state_level :: int
  my_get_system_time_sec :: int
  random_bytes :: "bytes option"

abbreviation work_cfg :: "main_st \<Rightarrow> bytes" where "work_cfg s \<equiv> wcfg s ZMS_ID_WORK_MODE_CONFIG"
abbreviation lp_cfg :: "main_st \<Rightarrow> bytes" where "lp_cfg s \<equiv> wcfg s ZMS_ID_LPSLEEP_CONFIG"

definition main_call :: "main_effect \<Rightarrow> main_st \<Rightarrow> main_st" where
  "main_call c s = s\<lparr>main_calls := main_calls s @ [c]\<rparr>"

section \<open>Messages and timers\<close>

definition my_init_msg_handler :: "module_type \<Rightarrow> bool \<Rightarrow> main_st \<Rightarrow> main_st" where
  "my_init_msg_handler md msgq s = (if msgq then s\<lparr>s_my_msg_info := (s_my_msg_info s)(md := True)\<rparr> else s)"

text \<open>The own queue has ten places, and a message that finds it full is dropped.\<close>

definition my_send_msg :: "module_type \<Rightarrow> main_msg \<Rightarrow> main_st \<Rightarrow> main_st" where
  "my_send_msg dest m s =
     (if \<not> s_my_msg_info s dest then s
      else if dest = MOD_MAIN
      then if length (my_main_msgq s) < MAIN_MSGQ_SIZE then s\<lparr>my_main_msgq := my_main_msgq s @ [m]\<rparr> else s
      else main_call (Put dest m) s)"

definition my_stop_timer :: "int \<Rightarrow> main_st \<Rightarrow> main_st" where
  "my_stop_timer timerId s =
     (if timerId < 0 \<or> timerId \<ge> MY_TIMER_MAX_ID then s
      else if tm_init (s_my_timer_info s timerId)
      then s\<lparr>s_my_timer_info := (s_my_timer_info s)(timerId := (s_my_timer_info s timerId)\<lparr>tm_run := None\<rparr>)\<rparr>
      else s)"

definition my_start_timer :: "int \<Rightarrow> u32 \<Rightarrow> bool \<Rightarrow> timer_fun \<Rightarrow> main_st \<Rightarrow> int \<times> main_st" where
  "my_start_timer timerId ms isPeriod timer_fun s =
     (if timerId < 0 \<or> timerId \<ge> MY_TIMER_MAX_ID then (-22, s)
      else (0, s\<lparr>s_my_timer_info := (s_my_timer_info s)(timerId := \<lparr>tm_init = True, tm_run = Some (ms, isPeriod, timer_fun)\<rparr>)\<rparr>))"

text \<open>The remaining time of a timer is known to the kernel.\<close>

definition my_time_is_run :: "(int \<Rightarrow> u32) \<Rightarrow> int \<Rightarrow> main_st \<Rightarrow> u32" where
  "my_time_is_run remaining timerId s =
     (if timerId < 0 \<or> timerId \<ge> MY_TIMER_MAX_ID then 0 else if \<not> tm_init (s_my_timer_info s timerId) then 0 else remaining timerId)"

text \<open>A command to the LTE module, which is switched on first if necessary.\<close>

definition send_lte_command :: "main_in \<Rightarrow> string \<Rightarrow> bytes \<Rightarrow> main_st \<Rightarrow> main_st" where
  "send_lte_command i cmd_name param s =
     (let s1 = (if get_lte_power_state (cin i) then s else my_send_msg MOD_LTE MY_MSG_LTE_PWRON s)
      in if \<not> alloc_msg (cin i) then s1
         else my_send_msg MOD_LTE (MY_MSG_LTE_BLE_DATA (ascii ''BLE+'' @ ascii cmd_name @ (if param \<noteq> [] then 61 # param else []) @ [13, 10])) s1)"

section \<open>Work modes\<close>

text \<open>The values of a mode are printed into 40 bytes. A mode without values is not sent.\<close>

definition send_work_mode_command :: "main_in \<Rightarrow> int \<Rightarrow> main_st \<Rightarrow> main_st option" where
  "send_work_mode_command i mode s =
     (if mode \<in> {MY_MODE_CONTINUOUS, MY_MODE_LONG_LIFE, MY_MODE_SMART, MY_MODE_ALWAYS_ONLINE}
      then map_option (\<lambda>vs. send_lte_command i ''WMODE'' (take 39 (commas vs)) s) (mode_values (work_cfg s) mode)
      else Some s)"

definition switch_work_mode :: "main_in \<Rightarrow> int \<Rightarrow> main_st \<Rightarrow> main_st" where
  "switch_work_mode i mode s = (if alloc_cmd (cin i) then my_send_msg MOD_MAIN (MY_MSG_WORK_MODE_SWITCH (Some mode)) s else s)"

definition handle_long_life_mode :: "main_st \<Rightarrow> main_st" where
  "handle_long_life_mode s =
     my_send_msg MOD_MAIN MY_MSG_RESET_LTE_TIMER (my_send_msg MOD_LTE MY_MSG_LTE_PWRON (my_send_msg MOD_GSENSOR MY_MSG_GSENSOR_LOW_POWER s))"

definition handle_smart_mode :: "main_st \<Rightarrow> main_st" where
  "handle_smart_mode s = my_send_msg MOD_GSENSOR MY_MSG_GSENSOR_HIGH_POWER s"

definition handle_continuous_mode :: "main_st \<Rightarrow> main_st" where
  "handle_continuous_mode s =
     my_send_msg MOD_LTE MY_MSG_LTE_PWRON (my_send_msg MOD_GSENSOR MY_MSG_GSENSOR_HIGH_POWER (my_stop_timer MY_TIMER_LTE_POWER s))"

definition handle_always_online_mode :: "main_st \<Rightarrow> main_st" where
  "handle_always_online_mode s =
     my_send_msg MOD_LTE MY_MSG_LTE_PWRON (my_send_msg MOD_GSENSOR MY_MSG_GSENSOR_HIGH_POWER (my_stop_timer MY_TIMER_LTE_POWER s))"

definition handle_mode :: "int \<Rightarrow> main_st \<Rightarrow> main_st" where
  "handle_mode mode s =
     (if mode = MY_MODE_LONG_LIFE then handle_long_life_mode s
      else if mode = MY_MODE_SMART then handle_smart_mode s
      else if mode = MY_MODE_CONTINUOUS then handle_continuous_mode s
      else if mode = MY_MODE_ALWAYS_ONLINE then handle_always_online_mode s
      else s)"

text \<open>A switch during low-power running ends it, without the scan message of its regular end.\<close>

definition leave_lprunning :: "main_st \<Rightarrow> main_st" where
  "leave_lprunning s =
     (if s_lprunning_active s
      then (my_stop_timer MY_TIMER_LPSLEEP s)\<lparr>s_lprunning_active := False, s_lprunning_hold_off := True, s_last_work_mode := MY_MODE_MAX\<rparr>
      else s)"

definition switch_work_mode_internal :: "main_in \<Rightarrow> int \<Rightarrow> main_st \<Rightarrow> main_st option" where
  "switch_work_mode_internal i mode s =
     (let s1 = leave_lprunning s in
      if s_last_work_mode s1 = mode then Some s1
      else
        let s2 = s1\<lparr>s_last_work_mode := mode\<rparr> in
        if mode = MY_MODE_SHUTDOWN then Some (main_call Go_To_System_Off s2)
        else
          let boot_reason = (if mode \<in> {MY_MODE_CONTINUOUS, MY_MODE_LONG_LIFE, MY_MODE_SMART, MY_MODE_ALWAYS_ONLINE}
                             then LTE_BOOT_REASON_INTERVAL else LTE_BOOT_REASON_RESERVED);
              s3 = s2\<lparr>s_lteBootReason := boot_reason,
                      wcfg := (wcfg s2)(ZMS_ID_WORK_MODE_CONFIG := mem_put (work_cfg s2) 4 (mode_bytes (cin i) mode))\<rparr>
          in do {
            s4 \<leftarrow> (if g_bLteReady (cin i) then send_work_mode_command i mode s3 else Some (my_send_msg MOD_LTE MY_MSG_LTE_PWRON s3));
            Some (handle_mode mode (main_call My_Scan_Upload_On_Lte_Wakeup s4)) })"

definition awaken_lte_timer_callback :: "main_in \<Rightarrow> main_st \<Rightarrow> main_st" where
  "awaken_lte_timer_callback i s =
     (let s1 = (if current_mode (cin i) (work_cfg s) = MY_MODE_LONG_LIFE then my_send_msg MOD_MAIN MY_MSG_RESET_LTE_TIMER s else s)
      in my_send_msg MOD_LTE MY_MSG_LTE_PWRON (s1\<lparr>s_lteBootReason := LTE_BOOT_REASON_INTERVAL\<rparr>))"

text \<open>The stored start time up to its terminator; the product of the interval and 1000 is computed in an \<open>int\<close>.\<close>

definition set_reset_lte_timer :: "main_in \<Rightarrow> main_st \<Rightarrow> main_st option" where
  "set_reset_lte_timer i s = do {
     timer_interval \<leftarrow> calculate_remaining_seconds (Some (takeWhile (\<lambda>c. c \<noteq> 0) (drop 20 (work_cfg s)))) (s32_at (work_cfg s) 16) (my_get_system_time_sec i);
     if timer_interval = -1 then Some s
     else do {
       let offset = (case rand_0_to_120_seconds (random_bytes i) of Some v \<Rightarrow> uint v | None \<Rightarrow> 0);
       ms \<leftarrow> s32 ((timer_interval + offset) * 1000);
       Some (snd (my_start_timer MY_TIMER_LTE_POWER (of_int ms) False Awaken_Lte_Timer_Callback s)) } }"

section \<open>Shutting down\<close>

definition go_to_shutdown :: "main_in \<Rightarrow> main_st \<Rightarrow> int \<times> main_st" where
  "go_to_shutdown i s =
     (if get_charge_state_level i = 0
      then (0, if g_bLteReady (cin i) then send_lte_command i ''PWROFF'' (ascii ''1'') (s\<lparr>g_shutdown_request := True\<rparr>)
               else my_send_msg MOD_MAIN MY_MSG_CTRL_SHUTDOWN_REQUEST s)
      else (-1, s))"

section \<open>Low-power running\<close>

definition handle_lprunning_lte_sync :: "main_in \<Rightarrow> main_st \<Rightarrow> main_st" where
  "handle_lprunning_lte_sync i s = (if s_lprunning_active s then send_lte_command i ''LPSLEEP'' (ascii ''1'') s else s)"

definition lprunning_wakeup_timer_callback :: "main_in \<Rightarrow> main_st \<Rightarrow> main_st" where
  "lprunning_wakeup_timer_callback i s =
     (if get_lte_power_state (cin i) then s else my_send_msg MOD_LTE MY_MSG_LTE_PWRON (s\<lparr>s_lteBootReason := LTE_BOOT_REASON_INTERVAL\<rparr>))"

definition handle_lprunning_enter :: "main_in \<Rightarrow> main_st \<Rightarrow> main_st" where
  "handle_lprunning_enter i s =
     (if s_lprunning_active s then s
      else
        let s1 = s\<lparr>s_lprunning_saved_mode := current_mode (cin i) (work_cfg s), s_lprunning_active := True\<rparr>;
            s2 = my_stop_timer MY_TIMER_LTE_POWER (my_send_msg MOD_BLE MY_MSG_SCAN_LPSLEEP_ENTER s1);
            s3 = handle_lprunning_lte_sync i (my_send_msg MOD_GSENSOR MY_MSG_GSENSOR_LOW_POWER s2);
            interval_ms = (ucast (lp_cfg s3 ! 3) :: u32) * 3600 * 1000
        in snd (my_start_timer MY_TIMER_LPSLEEP interval_ms True Lprunning_Wakeup_Timer_Callback s3))"

definition handle_lprunning_exit :: "main_in \<Rightarrow> main_st \<Rightarrow> main_st option" where
  "handle_lprunning_exit i s =
     (if \<not> s_lprunning_active s then Some s
      else do {
        s1 \<leftarrow> switch_work_mode_internal i (s_lprunning_saved_mode s)
                ((my_stop_timer MY_TIMER_LPSLEEP s)\<lparr>s_lprunning_active := False, s_last_work_mode := MY_MODE_MAX\<rparr>);
        Some (my_send_msg MOD_BLE MY_MSG_SCAN_LPSLEEP_EXIT s1) })"

text \<open>The level is a signed byte; the comparison with the threshold is one of \<open>int\<close>, the one with the threshold plus five one of unsigned numbers.\<close>

definition handle_lprunning_battery_check :: "main_in \<Rightarrow> main_st \<Rightarrow> main_st option" where
  "handle_lprunning_battery_check i s =
     (let show_percent = get_show_percent i; threshold = lp_cfg s ! 2 in
      if lp_cfg s ! 1 \<noteq> 1 then Some s
      else if \<not> s_lprunning_active s \<and> sint show_percent < uint threshold
      then Some (if \<not> s_lprunning_hold_off s then handle_lprunning_enter i s else s)
      else if \<not> s_lprunning_active s \<and> sint show_percent \<ge> uint threshold
      then Some (if s_lprunning_hold_off s then s\<lparr>s_lprunning_hold_off := False\<rparr> else s)
      else if s_lprunning_active s \<and> (scast show_percent :: u32) \<ge> ucast threshold + 5
      then handle_lprunning_exit i s
      else Some s)"

section \<open>The main thread\<close>

fun main_dispatch :: "main_in \<Rightarrow> main_msg \<Rightarrow> main_st \<Rightarrow> main_st option" where
  "main_dispatch i MY_MSG_CTRL_KEY_SHORT_PRESS s =
     Some (send_lte_command i ''KEY'' (ascii ''SHORT'') (main_call My_Bluetooth_Key_Process (main_call (Open_Led_Timer 5000) s)))"
| "main_dispatch i MY_MSG_CTRL_KEY_LONG_PRESS s =
     (let s1 = send_lte_command i ''KEY'' (ascii ''LONG'') s
      in Some (if wcfg s1 ZMS_ID_PWRLIMIT_CONFIG ! 1 = 0 then snd (go_to_shutdown i s1) else s1))"
| "main_dispatch i MY_MSG_CTRL_SHUTDOWN_REQUEST s = Some (switch_work_mode i MY_MODE_SHUTDOWN (s\<lparr>g_shutdown_request := False\<rparr>))"
| "main_dispatch i (MY_MSG_WORK_MODE_SWITCH (Some mode)) s = switch_work_mode_internal i mode s"
| "main_dispatch i MY_MSG_RESET_LTE_TIMER s = set_reset_lte_timer i s"
| "main_dispatch i MY_MSG_DFU_START s = Some (send_lte_command i ''OTA'' (ascii ''ENTER'') s)"
| "main_dispatch i MY_MSG_DFU_TIMEOUT s = Some (send_lte_command i ''OTA'' (ascii ''FAIL'') s)"
| "main_dispatch i MY_MSG_DFU_COMPLETE s = Some (send_lte_command i ''OTA'' (ascii ''SUCCESS'') s)"
| "main_dispatch i MY_MSG_DFU_FAIL s = Some (send_lte_command i ''OTA'' (ascii ''FAIL'') s)"
| "main_dispatch i MY_MSG_LPSLEEP_ENTER s = Some (handle_lprunning_enter i s)"
| "main_dispatch i MY_MSG_LPSLEEP_EXIT s = handle_lprunning_exit i s"
| "main_dispatch i MY_MSG_LPSLEEP_BATTERY_CHECK s = handle_lprunning_battery_check i s"
| "main_dispatch i MY_MSG_LPSLEEP_LTE_SYNC s = Some (handle_lprunning_lte_sync i s)"
| "main_dispatch i MY_MSG_LPSLEEP_CLEAR_HOLD_OFF s = Some (s\<lparr>s_lprunning_hold_off := False\<rparr>)"
| "main_dispatch i _ s = Some s"

text \<open>The variables at power-up, with the threads that have come up, and the end of the start: the queue is registered and the stored mode requested.\<close>

definition main_boot :: "module_type set \<Rightarrow> config \<Rightarrow> main_st" where
  "main_boot mods c = \<lparr>wcfg = c, s_my_timer_info = (\<lambda>_. \<lparr>tm_init = False, tm_run = None\<rparr>), s_my_msg_info = (\<lambda>d. d \<in> mods),
     my_main_msgq = [], s_lprunning_active = False, s_lprunning_saved_mode = MY_MODE_SMART, s_last_work_mode = MY_MODE_SHUTDOWN,
     s_lprunning_hold_off = False, g_shutdown_request = False, s_lteBootReason = LTE_BOOT_REASON_RESERVED, main_calls = []\<rparr>"

definition main_start :: "main_in \<Rightarrow> module_type set \<Rightarrow> config \<Rightarrow> main_st" where
  "main_start i mods c = (let s = my_init_msg_handler MOD_MAIN True (main_boot mods c) in switch_work_mode i (current_mode (cin i) (work_cfg s)) s)"

text \<open>One turn of the loop: the next message, if there is one, is taken and handled.\<close>

definition main_loop_step :: "main_in \<Rightarrow> main_st \<Rightarrow> main_st option" where
  "main_loop_step i s =
     (case my_main_msgq s of [] \<Rightarrow> Some s | m # ms \<Rightarrow> main_dispatch i m (s\<lparr>my_main_msgq := ms\<rparr>))"

section \<open>What the helpers change\<close>

lemma main_call_simps [simp]:
  "wcfg (main_call c s) = wcfg s" "s_my_timer_info (main_call c s) = s_my_timer_info s" "s_my_msg_info (main_call c s) = s_my_msg_info s"
  "my_main_msgq (main_call c s) = my_main_msgq s" "s_lprunning_active (main_call c s) = s_lprunning_active s"
  "s_lprunning_saved_mode (main_call c s) = s_lprunning_saved_mode s" "s_last_work_mode (main_call c s) = s_last_work_mode s"
  "s_lprunning_hold_off (main_call c s) = s_lprunning_hold_off s" "main_calls (main_call c s) = main_calls s @ [c]"
  by (simp_all add: main_call_def)

lemma send_simps [simp]:
  "wcfg (my_send_msg d m s) = wcfg s" "s_my_timer_info (my_send_msg d m s) = s_my_timer_info s" "s_my_msg_info (my_send_msg d m s) = s_my_msg_info s"
  "s_lprunning_active (my_send_msg d m s) = s_lprunning_active s"
  "s_lprunning_saved_mode (my_send_msg d m s) = s_lprunning_saved_mode s" "s_last_work_mode (my_send_msg d m s) = s_last_work_mode s"
  "s_lprunning_hold_off (my_send_msg d m s) = s_lprunning_hold_off s"
  by (simp_all add: my_send_msg_def)

lemma send_other [simp]: "d \<noteq> MOD_MAIN \<Longrightarrow> my_main_msgq (my_send_msg d m s) = my_main_msgq s"
  by (simp add: my_send_msg_def)

lemma send_calls: "main_calls (my_send_msg d m s) = main_calls s @ (if s_my_msg_info s d \<and> d \<noteq> MOD_MAIN then [Put d m] else [])"
  by (simp add: my_send_msg_def)

lemma lte_simps [simp]:
  "wcfg (send_lte_command i n p s) = wcfg s" "s_my_timer_info (send_lte_command i n p s) = s_my_timer_info s"
  "s_my_msg_info (send_lte_command i n p s) = s_my_msg_info s" "my_main_msgq (send_lte_command i n p s) = my_main_msgq s"
  "s_lprunning_active (send_lte_command i n p s) = s_lprunning_active s"
  "s_lprunning_saved_mode (send_lte_command i n p s) = s_lprunning_saved_mode s" "s_last_work_mode (send_lte_command i n p s) = s_last_work_mode s"
  "s_lprunning_hold_off (send_lte_command i n p s) = s_lprunning_hold_off s"
  by (simp_all add: send_lte_command_def Let_def)

lemma stop_simps [simp]:
  "wcfg (my_stop_timer k s) = wcfg s" "s_my_msg_info (my_stop_timer k s) = s_my_msg_info s" "my_main_msgq (my_stop_timer k s) = my_main_msgq s"
  "s_lprunning_active (my_stop_timer k s) = s_lprunning_active s"
  "s_lprunning_saved_mode (my_stop_timer k s) = s_lprunning_saved_mode s" "s_last_work_mode (my_stop_timer k s) = s_last_work_mode s"
  "s_lprunning_hold_off (my_stop_timer k s) = s_lprunning_hold_off s" "main_calls (my_stop_timer k s) = main_calls s"
  by (simp_all add: my_stop_timer_def)

lemma start_simps [simp]:
  "wcfg (snd (my_start_timer k ms p f s)) = wcfg s" "s_my_msg_info (snd (my_start_timer k ms p f s)) = s_my_msg_info s"
  "my_main_msgq (snd (my_start_timer k ms p f s)) = my_main_msgq s" "s_lprunning_active (snd (my_start_timer k ms p f s)) = s_lprunning_active s"
  "s_lprunning_saved_mode (snd (my_start_timer k ms p f s)) = s_lprunning_saved_mode s" "s_last_work_mode (snd (my_start_timer k ms p f s)) = s_last_work_mode s"
  "s_lprunning_hold_off (snd (my_start_timer k ms p f s)) = s_lprunning_hold_off s" "main_calls (snd (my_start_timer k ms p f s)) = main_calls s"
  by (simp_all add: my_start_timer_def)

text \<open>A running timer is an initialised one; so stopping it stops it.\<close>

definition timers_ok :: "main_st \<Rightarrow> bool" where
  "timers_ok s \<longleftrightarrow> (\<forall>k. tm_run (s_my_timer_info s k) \<noteq> None \<longrightarrow> tm_init (s_my_timer_info s k))"

abbreviation running :: "int \<Rightarrow> main_st \<Rightarrow> (u32 \<times> bool \<times> timer_fun) option" where
  "running k s \<equiv> tm_run (s_my_timer_info s k)"

lemma running_stop: "timers_ok s \<Longrightarrow> running j (my_stop_timer k s) = (if j = k \<and> 0 \<le> k \<and> k < MY_TIMER_MAX_ID then None else running j s)"
  by (cases "running k s") (auto simp: my_stop_timer_def timers_ok_def)

lemma running_start: "0 \<le> k \<Longrightarrow> k < MY_TIMER_MAX_ID \<Longrightarrow> running j (snd (my_start_timer k ms p f s)) = (if j = k then Some (ms, p, f) else running j s)"
  by (simp add: my_start_timer_def)

lemma timers_ok_simps [simp]:
  "timers_ok s \<Longrightarrow> timers_ok (my_stop_timer k s)" "timers_ok s \<Longrightarrow> timers_ok (snd (my_start_timer k ms p f s))"
  "timers_ok (my_send_msg d m s) = timers_ok s" "timers_ok (send_lte_command i n q s) = timers_ok s" "timers_ok (main_call c s) = timers_ok s"
  by (auto simp: timers_ok_def my_stop_timer_def my_start_timer_def)

section \<open>The modes of a valid configuration\<close>

definition work_mode :: "int \<Rightarrow> bool" where
  "work_mode m \<longleftrightarrow> 0 \<le> m \<and> m < MY_MODE_MAX"

lemma work_mode_iff: "work_mode m \<longleftrightarrow> m \<in> {MY_MODE_CONTINUOUS, MY_MODE_LONG_LIFE, MY_MODE_SMART, MY_MODE_ALWAYS_ONLINE}"
  by (auto simp: work_mode_def)

lemma cfg_work: "cfg_ok c \<Longrightarrow> length (c ZMS_ID_WORK_MODE_CONFIG) = 80 \<and> work_mode_ok (c ZMS_ID_WORK_MODE_CONFIG)"
  unfolding cfg_ok_def by (drule spec [of _ ZMS_ID_WORK_MODE_CONFIG]) (simp add: img_ok_mode)

lemma cfg_lp: "cfg_ok c \<Longrightarrow> (let b = c ZMS_ID_LPSLEEP_CONFIG in length b = 4 \<and> 10 \<le> b ! 2 \<and> b ! 2 \<le> 50 \<and> 1 \<le> b ! 3 \<and> b ! 3 \<le> 48)"
  unfolding cfg_ok_def
  by (drule spec [of _ ZMS_ID_LPSLEEP_CONFIG]) (simp add: img_ok_def param_size_def default_of_def param_defaults_def gDefaultlprunningConfig_def)

lemma cfg_put_mode:
  assumes "cfg_ok c" "work_mode m"
  shows "cfg_ok (c(ZMS_ID_WORK_MODE_CONFIG := mem_put (c ZMS_ID_WORK_MODE_CONFIG) 4 (mode_bytes inp m)))"
  unfolding cfg_ok_def
proof
  fix k
  have "img_ok ZMS_ID_WORK_MODE_CONFIG (mem_put (c ZMS_ID_WORK_MODE_CONFIG) 4 (mode_bytes inp m))"
    using mode_cur [of "c ZMS_ID_WORK_MODE_CONFIG" m inp] cfg_work [OF assms(1)] assms(2) by (simp add: img_ok_mode work_mode_def)
  then show "img_ok k ((c(ZMS_ID_WORK_MODE_CONFIG := mem_put (c ZMS_ID_WORK_MODE_CONFIG) 4 (mode_bytes inp m))) k)"
    using assms(1) by (simp add: cfg_ok_def)
qed

lemma current_mode_ok:
  assumes "cfg_ok c"
  shows "work_mode (current_mode inp (c ZMS_ID_WORK_MODE_CONFIG))"
proof -
  have u: "u32_at (c ZMS_ID_WORK_MODE_CONFIG) 4 \<le> 3" using cfg_work [OF assms] by (simp add: work_mode_ok_def)
  then have "unat (c ZMS_ID_WORK_MODE_CONFIG ! 4) \<le> 3" by (simp add: u32_at_def unat_of_le32)
  then have "uint (c ZMS_ID_WORK_MODE_CONFIG ! 4) \<le> 3" by (simp only: unat_eq_nat_uint nat_le_iff)
  then show ?thesis using u by (simp add: current_mode_def work_mode_def)
qed

lemma current_mode_put:
  assumes "length b = 80" "work_mode m" "short_enums inp = short_enums inp'"
  shows "current_mode inp (mem_put b 4 (mode_bytes inp' m)) = m"
proof (cases "short_enums inp")
  case True
  then show ?thesis using assms by (simp add: current_mode_def mode_bytes_def nth_mem_put work_mode_def unsigned_of_int take_bit_int_eq_self)
next
  case False
  have "uint (word_of_int m :: u32) = m" using assms(2) by (simp add: work_mode_def take_bit_int_eq_self unsigned_of_int)
  then show ?thesis using assms False
    by (simp add: current_mode_def mode_bytes_def u32_at_def nth_mem_put le32_def unat_eq_nat_uint work_mode_def)
qed

lemma mode_values_Some: "cfg_ok c \<Longrightarrow> \<exists>vs. mode_values (c ZMS_ID_WORK_MODE_CONFIG) m = Some vs"
  using cfg_work [of c] by (auto simp: mode_values_def work_mode_ok_def word_le_nat_alt)

section \<open>The switch between the modes\<close>

lemma running_simps [simp]:
  "timers_ok s \<Longrightarrow> running MY_TIMER_LPSLEEP (my_stop_timer MY_TIMER_LTE_POWER s) = running MY_TIMER_LPSLEEP s"
  "timers_ok s \<Longrightarrow> running MY_TIMER_LPSLEEP (my_stop_timer MY_TIMER_LPSLEEP s) = None"
  "running MY_TIMER_LPSLEEP (snd (my_start_timer MY_TIMER_LTE_POWER ms p f s)) = running MY_TIMER_LPSLEEP s"
  "running MY_TIMER_LPSLEEP (snd (my_start_timer MY_TIMER_LPSLEEP ms p f s)) = Some (ms, p, f)"
  by (simp_all add: running_stop running_start)

text \<open>The part of the state that the low-power running depends on.\<close>

definition lp_view :: "main_st \<Rightarrow> bool \<times> int \<times> config \<times> (u32 \<times> bool \<times> timer_fun) option \<times> (module_type \<Rightarrow> bool)" where
  "lp_view s = (s_lprunning_active s, s_lprunning_saved_mode s, wcfg s, running MY_TIMER_LPSLEEP s, s_my_msg_info s)"

lemma lp_view_simps [simp]:
  "lp_view (main_call c s) = lp_view s" "lp_view (my_send_msg d m s) = lp_view s" "lp_view (send_lte_command i n p s) = lp_view s"
  "timers_ok s \<Longrightarrow> lp_view (my_stop_timer MY_TIMER_LTE_POWER s) = lp_view s"
  "lp_view (snd (my_start_timer MY_TIMER_LTE_POWER ms q f s)) = lp_view s"
  by (simp_all add: lp_view_def)

lemma lp_view_cong [simp]:
  "lp_view (s\<lparr>s_lprunning_hold_off := h\<rparr>) = lp_view s" "lp_view (s\<lparr>g_shutdown_request := g\<rparr>) = lp_view s"
  "lp_view (s\<lparr>s_lteBootReason := r\<rparr>) = lp_view s" "lp_view (s\<lparr>s_last_work_mode := l\<rparr>) = lp_view s" "lp_view (s\<lparr>my_main_msgq := q\<rparr>) = lp_view s"
  by (simp_all add: lp_view_def)

lemma handle_mode_simps [simp]:
  "timers_ok s \<Longrightarrow> lp_view (handle_mode m s) = lp_view s" "timers_ok s \<Longrightarrow> timers_ok (handle_mode m s)"
  "s_lprunning_hold_off (handle_mode m s) = s_lprunning_hold_off s" "s_last_work_mode (handle_mode m s) = s_last_work_mode s"
  by (simp_all add: handle_mode_def handle_long_life_mode_def handle_smart_mode_def handle_continuous_mode_def handle_always_online_mode_def)

text \<open>Calls that concern the scan.\<close>

definition scan_calls :: "main_st \<Rightarrow> main_effect list" where
  "scan_calls s = filter (\<lambda>c. c \<in> {Put MOD_BLE MY_MSG_SCAN_LPSLEEP_ENTER, Put MOD_BLE MY_MSG_SCAN_LPSLEEP_EXIT}) (main_calls s)"

lemma scan_calls_simps [simp]:
  "d \<noteq> MOD_BLE \<Longrightarrow> scan_calls (my_send_msg d m s) = scan_calls s" "scan_calls (send_lte_command i n p s) = scan_calls s"
  "scan_calls (my_stop_timer k s) = scan_calls s" "scan_calls (snd (my_start_timer k ms q f s)) = scan_calls s"
  "c \<notin> {Put MOD_BLE MY_MSG_SCAN_LPSLEEP_ENTER, Put MOD_BLE MY_MSG_SCAN_LPSLEEP_EXIT} \<Longrightarrow> scan_calls (main_call c s) = scan_calls s"
  "scan_calls (handle_mode md s) = scan_calls s"
  by (simp_all add: scan_calls_def send_calls send_lte_command_def Let_def handle_mode_def handle_long_life_mode_def handle_smart_mode_def
    handle_continuous_mode_def handle_always_online_mode_def)

lemma scan_calls_cong [simp]:
  "scan_calls (s\<lparr>s_lprunning_active := a\<rparr>) = scan_calls s" "scan_calls (s\<lparr>s_lprunning_hold_off := h\<rparr>) = scan_calls s"
  "scan_calls (s\<lparr>s_last_work_mode := l\<rparr>) = scan_calls s" "scan_calls (s\<lparr>s_lteBootReason := r\<rparr>) = scan_calls s" "scan_calls (s\<lparr>wcfg := c\<rparr>) = scan_calls s"
  "scan_calls (s\<lparr>s_lprunning_saved_mode := v\<rparr>) = scan_calls s" "scan_calls (s\<lparr>my_main_msgq := q\<rparr>) = scan_calls s"
  "scan_calls (s\<lparr>g_shutdown_request := g\<rparr>) = scan_calls s"
  by (simp_all add: scan_calls_def)

lemma timers_ok_cong [simp]:
  "timers_ok (s\<lparr>s_lprunning_active := a\<rparr>) = timers_ok s" "timers_ok (s\<lparr>s_lprunning_hold_off := h\<rparr>) = timers_ok s"
  "timers_ok (s\<lparr>s_last_work_mode := l\<rparr>) = timers_ok s" "timers_ok (s\<lparr>s_lteBootReason := r\<rparr>) = timers_ok s" "timers_ok (s\<lparr>wcfg := c\<rparr>) = timers_ok s"
  "timers_ok (s\<lparr>s_lprunning_saved_mode := v\<rparr>) = timers_ok s" "timers_ok (s\<lparr>my_main_msgq := q\<rparr>) = timers_ok s"
  "timers_ok (s\<lparr>g_shutdown_request := g\<rparr>) = timers_ok s"
  by (simp_all add: timers_ok_def)

text \<open>
  A switch to a work mode in a valid configuration always succeeds. It leaves the low-power
  running, and the mode in the configuration is the requested one unless it was the last one already.
\<close>

lemma switch_internal:
  assumes "cfg_ok (wcfg s)" "timers_ok s" "work_mode m"
  obtains s' where "switch_work_mode_internal i m s = Some s'" "timers_ok s'" "\<not> s_lprunning_active s'" "s_last_work_mode s' = m"
    "s_lprunning_saved_mode s' = s_lprunning_saved_mode s" "s_my_msg_info s' = s_my_msg_info s" "scan_calls s' = scan_calls s"
    "running MY_TIMER_LPSLEEP s' = (if s_lprunning_active s then None else running MY_TIMER_LPSLEEP s)"
    "s_lprunning_hold_off s' = (s_lprunning_active s \<or> s_lprunning_hold_off s)"
    "wcfg s' = (if \<not> s_lprunning_active s \<and> s_last_work_mode s = m then wcfg s
      else (wcfg s)(ZMS_ID_WORK_MODE_CONFIG := mem_put (work_cfg s) 4 (mode_bytes (cin i) m)))"
proof -
  let ?s1 = "leave_lprunning s"
  let ?s3 = "?s1\<lparr>s_last_work_mode := m, s_lteBootReason := LTE_BOOT_REASON_INTERVAL,
    wcfg := (wcfg ?s1)(ZMS_ID_WORK_MODE_CONFIG := mem_put (work_cfg ?s1) 4 (mode_bytes (cin i) m))\<rparr>"
  have m: "m \<noteq> MY_MODE_SHUTDOWN" "m \<noteq> MY_MODE_MAX" using assms(3) by (auto simp: work_mode_def)
  have s1: "timers_ok ?s1" "\<not> s_lprunning_active ?s1" "wcfg ?s1 = wcfg s" "s_lprunning_saved_mode ?s1 = s_lprunning_saved_mode s"
    "s_my_msg_info ?s1 = s_my_msg_info s" "scan_calls ?s1 = scan_calls s"
    "running MY_TIMER_LPSLEEP ?s1 = (if s_lprunning_active s then None else running MY_TIMER_LPSLEEP s)"
    "s_lprunning_hold_off ?s1 = (s_lprunning_active s \<or> s_lprunning_hold_off s)"
    "s_last_work_mode ?s1 = (if s_lprunning_active s then MY_MODE_MAX else s_last_work_mode s)"
    using assms(2) by (simp_all add: leave_lprunning_def)
  show thesis
  proof (cases "s_last_work_mode ?s1 = m")
    case True
    then show ?thesis using that [of ?s1] s1 m by (simp add: switch_work_mode_internal_def split: if_splits)
  next
    case False
    have "cfg_ok (wcfg ?s3)" using cfg_put_mode [OF assms(1,3)] s1(3) by simp
    then obtain vs where vs: "mode_values (work_cfg ?s3) m = Some vs" using mode_values_Some by blast
    define s4 where "s4 = (if g_bLteReady (cin i) then send_lte_command i ''WMODE'' (take 39 (commas vs)) ?s3 else my_send_msg MOD_LTE MY_MSG_LTE_PWRON ?s3)"
    have s4: "lp_view s4 = lp_view ?s3" "timers_ok s4" "scan_calls s4 = scan_calls ?s3" "s_last_work_mode s4 = m" "s_lprunning_hold_off s4 = s_lprunning_hold_off ?s1"
      using s1(1) by (simp_all add: s4_def)
    let ?r = "handle_mode m (main_call My_Scan_Upload_On_Lte_Wakeup s4)"
    have "switch_work_mode_internal i m s = Some ?r"
      using False m assms(3) vs by (simp add: switch_work_mode_internal_def Let_def s4_def send_work_mode_command_def work_mode_iff)
    moreover have "lp_view ?r = lp_view ?s3" using s4 by simp
    moreover have "\<not> (\<not> s_lprunning_active s \<and> s_last_work_mode s = m)" using False s1(9) by auto
    ultimately show ?thesis using s1 s4 by (intro that [of ?r]) (simp_all add: lp_view_def, blast)
  qed
qed

section \<open>The wake-up timer of the long battery mode\<close>

lemma s32_at_small:
  assumes "u32_at b i \<le> 0x7FFFFFFF"
  shows "s32_at b i = int (u32_at b i)"
proof -
  let ?w = "of_le32 (b ! i) (b ! (i + 1)) (b ! (i + 2)) (b ! (i + 3))"
  have "uint ?w \<le> int 0x7FFFFFFF" using assms by (simp only: u32_at_def unat_eq_nat_uint nat_le_iff)
  then have "uint ?w < 2 ^ 31" by simp
  moreover have "- (2 ^ 31) \<le> uint ?w" by (rule order_trans [OF _ unsigned_greater_eq]) simp
  ultimately have "sint ?w = uint ?w" by (simp add: sint_uint signed_take_bit_int_eq_self)
  then show ?thesis by (simp add: s32_at_def u32_at_def)
qed

lemma start_time_text:
  assumes "length b = 80" "list_all is_digit (take 4 (drop 20 b))" "b ! 24 = 0"
  shows "takeWhile (\<lambda>c. c \<noteq> 0) (drop 20 b) = take 4 (drop 20 b)"
proof -
  have "drop 20 b = take 4 (drop 20 b) @ 0 # drop 5 (drop 20 b)"
    using id_take_nth_drop [of 4 "drop 20 b"] assms(1,3) by simp
  moreover have "takeWhile (\<lambda>c. c \<noteq> 0) (take 4 (drop 20 b) @ 0 # drop 5 (drop 20 b)) = take 4 (drop 20 b)"
    using assms(2) by (subst takeWhile_append2) (auto simp: list_all_iff is_digit_def)
  ultimately show ?thesis by simp
qed

lemma random_offset:
  obtains v where "(case rand_0_to_120_seconds r of Some v \<Rightarrow> uint v | None \<Rightarrow> 0) = v" "0 \<le> v" "v \<le> 120"
proof (cases "rand_0_to_120_seconds r")
  case None
  then show ?thesis using that [of 0] by simp
next
  case (Some w)
  then obtain x :: u32 where "w = x mod 121" by (auto simp: rand_0_to_120_seconds_def)
  then have "uint w \<le> 120" by (simp add: uint_mod)
  then show ?thesis using that [of "uint w"] Some by simp
qed

text \<open>
  The timer of the long battery mode. With a valid start time it is started for at most a day and two
  minutes, at most two minutes after the next report is due; otherwise it is left alone.
\<close>

lemma reset_lte_timer_cases:
  assumes "cfg_ok (wcfg s)"
  defines "t \<equiv> take 4 (drop 20 (work_cfg s))"
  shows "if start_hour t < 24 \<and> start_minute t < 60 \<and> 0 \<le> my_get_system_time_sec i
    then \<exists>r q. 0 < r \<and> r \<le> 86520 \<and> q \<le> r \<and> r \<le> q + 120 \<and> report_due (start_second t) (int (u32_at (work_cfg s) 16) * 60) (my_get_system_time_sec i + q) \<and>
      set_reset_lte_timer i s = Some (snd (my_start_timer MY_TIMER_LTE_POWER (of_int (r * 1000)) False Awaken_Lte_Timer_Callback s))
    else set_reset_lte_timer i s = Some s"
proof -
  let ?b = "work_cfg s" and ?n = "my_get_system_time_sec i"
  have b: "length ?b = 80" "work_mode_ok ?b" using cfg_work [OF assms(1)] by simp_all
  have t: "takeWhile (\<lambda>c. c \<noteq> 0) (drop 20 ?b) = t" "length t = 4" "list_all is_digit t"
    using start_time_text [of ?b] b by (simp_all add: work_mode_ok_def hhmm_ok_def t_def)
  have iv: "s32_at ?b 16 = int (u32_at ?b 16)" "0 < s32_at ?b 16" "s32_at ?b 16 \<le> 1000000"
    using b(2) by (simp_all add: work_mode_ok_def s32_at_small)
  show ?thesis
  proof (cases "start_hour t < 24 \<and> start_minute t < 60 \<and> 0 \<le> ?n")
    case True
    then obtain r where r: "calculate_remaining_seconds (Some t) (s32_at ?b 16) ?n = Some r" "0 < r" "r \<le> 86400"
        "report_due (start_second t) (s32_at ?b 16 * 60) (?n + r)"
      using remaining_seconds_point [OF t(2,3) _ _ iv(2,3), of ?n] by blast
    obtain v where v: "(case rand_0_to_120_seconds (random_bytes i) of Some v \<Rightarrow> uint v | None \<Rightarrow> 0) = v" "0 \<le> v" "v \<le> 120"
      by (rule random_offset)
    have "set_reset_lte_timer i s = Some (snd (my_start_timer MY_TIMER_LTE_POWER (of_int ((r + v) * 1000)) False Awaken_Lte_Timer_Callback s))"
      using v r by (simp add: set_reset_lte_timer_def t(1) s32_def)
    moreover have "report_due (start_second t) (int (u32_at ?b 16) * 60) (?n + r)" using r(4) by (simp only: iv(1))
    moreover have "0 < r + v" "r + v \<le> 86520" "r \<le> r + v" "r + v \<le> r + 120" using r v by simp_all
    ultimately show ?thesis using True by (simp only: simp_thms if_True) blast
  next
    case False
    then have "calculate_remaining_seconds (Some t) (s32_at ?b 16) ?n = Some (-1)"
      using t(2,3) iv(2) by (auto simp: calculate_remaining_seconds_def)
    then show ?thesis using False by (simp only: if_False set_reset_lte_timer_def t(1)) simp
  qed
qed

lemma reset_lte_timer:
  assumes "cfg_ok (wcfg s)"
  obtains "set_reset_lte_timer i s = Some s"
  | ms where "set_reset_lte_timer i s = Some (snd (my_start_timer MY_TIMER_LTE_POWER ms False Awaken_Lte_Timer_Callback s))"
  using reset_lte_timer_cases [OF assms, of i] by (auto split: if_splits)

section \<open>Reachable states\<close>

text \<open>
  The threads together: a turn of the main loop, messages of other threads to the main thread, valid
  changes of the configuration by commands, other users of the wake-up timer, and the two
  timers when they expire. A switch is only requested for a work mode or for shutting down.
\<close>

definition main_msg_ok :: "main_msg \<Rightarrow> bool" where
  "main_msg_ok msg = (case msg of MY_MSG_WORK_MODE_SWITCH (Some m) \<Rightarrow> work_mode m \<or> m = MY_MODE_SHUTDOWN | _ \<Rightarrow> True)"

inductive main_step :: "main_st \<Rightarrow> main_st \<Rightarrow> bool" where
  turn: "main_loop_step i s = Some s' \<Longrightarrow> main_step s s'"
| post: "main_msg_ok m \<Longrightarrow> main_step s (my_send_msg MOD_MAIN m s)"
| config: "cfg_ok c \<Longrightarrow> main_step s (s\<lparr>wcfg := c\<rparr>)"
| motion_start: "main_step s (snd (my_start_timer MY_TIMER_LTE_POWER ms p Awaken_Lte_Timer_Callback s))"
| motion_stop: "main_step s (my_stop_timer MY_TIMER_LTE_POWER s)"
| lte_timer: "running MY_TIMER_LTE_POWER s = Some (ms, p, Awaken_Lte_Timer_Callback) \<Longrightarrow>
    main_step s (awaken_lte_timer_callback i (if p then s else my_stop_timer MY_TIMER_LTE_POWER s))"
| lp_timer: "running MY_TIMER_LPSLEEP s = Some (ms, True, Lprunning_Wakeup_Timer_Callback) \<Longrightarrow> main_step s (lprunning_wakeup_timer_callback i s)"

definition lp_timer_ok :: "main_st \<Rightarrow> bool" where
  "lp_timer_ok s \<longleftrightarrow> (if s_lprunning_active s
     then \<exists>h. 1 \<le> h \<and> h \<le> 48 \<and> running MY_TIMER_LPSLEEP s = Some (of_nat (h * 3600000), True, Lprunning_Wakeup_Timer_Callback)
     else running MY_TIMER_LPSLEEP s = None)"

definition queue_ok :: "main_msg list \<Rightarrow> bool" where
  "queue_ok q \<longleftrightarrow> length q \<le> MAIN_MSGQ_SIZE \<and> list_all main_msg_ok q"

definition main_ok :: "main_st \<Rightarrow> bool" where
  "main_ok s \<longleftrightarrow> cfg_ok (wcfg s) \<and> timers_ok s \<and> lp_timer_ok s \<and> work_mode (s_lprunning_saved_mode s) \<and>
     queue_ok (my_main_msgq s)"

lemma main_okI:
  assumes "main_ok s" "lp_view s' = lp_view s" "timers_ok s'" "queue_ok (my_main_msgq s')"
  shows "main_ok s'"
proof -
  have "lp_timer_ok s' = lp_timer_ok s" using assms(2) by (simp only: lp_view_def lp_timer_ok_def prod.inject)
  then show ?thesis using assms by (simp add: main_ok_def lp_view_def)
qed

lemma queue_ok_send: "main_msg_ok m \<Longrightarrow> queue_ok (my_main_msgq s) \<Longrightarrow> queue_ok (my_main_msgq (my_send_msg d m s))"
  by (simp add: queue_ok_def my_send_msg_def)

lemma queue_ok_mode:
  "queue_ok (my_main_msgq s) \<Longrightarrow> queue_ok (my_main_msgq (handle_mode m s))"
  by (auto simp: handle_mode_def handle_long_life_mode_def handle_smart_mode_def handle_continuous_mode_def handle_always_online_mode_def
    main_msg_ok_def intro!: queue_ok_send)

lemma switch_queue:
  assumes "switch_work_mode_internal i m s = Some s'" "queue_ok (my_main_msgq s)"
  shows "queue_ok (my_main_msgq s')"
  using assms
  by (auto simp: switch_work_mode_internal_def Let_def leave_lprunning_def send_work_mode_command_def bind_eq_Some_conv split: if_splits
    intro!: queue_ok_mode)

lemma lp_interval: "(ucast (h :: u8) :: u32) * 3600 * 1000 = of_nat (unat h * 3600000)"
  by simp

text \<open>Entering low-power running.\<close>

lemma enter_result:
  fixes i :: main_in and s :: main_st
  assumes "\<not> s_lprunning_active s" "timers_ok s"
  defines "s' \<equiv> handle_lprunning_enter i s"
  shows "s_lprunning_active s'" "timers_ok s'" "wcfg s' = wcfg s" "s_lprunning_saved_mode s' = current_mode (cin i) (work_cfg s)"
    "s_lprunning_hold_off s' = s_lprunning_hold_off s" "s_my_msg_info s' = s_my_msg_info s" "my_main_msgq s' = my_main_msgq s"
    "running MY_TIMER_LPSLEEP s' = Some (of_nat (unat (lp_cfg s ! 3) * 3600000), True, Lprunning_Wakeup_Timer_Callback)"
    "scan_calls s' = scan_calls s @ (if s_my_msg_info s MOD_BLE then [Put MOD_BLE MY_MSG_SCAN_LPSLEEP_ENTER] else [])"
proof -
  have sc: "scan_calls (my_send_msg MOD_BLE MY_MSG_SCAN_LPSLEEP_ENTER s'') =
      scan_calls s'' @ (if s_my_msg_info s'' MOD_BLE then [Put MOD_BLE MY_MSG_SCAN_LPSLEEP_ENTER] else [])" for s''
    by (simp add: scan_calls_def send_calls)
  have ti: "timers_ok (handle_lprunning_lte_sync i s'') = timers_ok s''" "scan_calls (handle_lprunning_lte_sync i s'') = scan_calls s''"
    "lp_view (handle_lprunning_lte_sync i s'') = lp_view s''" "s_lprunning_hold_off (handle_lprunning_lte_sync i s'') = s_lprunning_hold_off s''"
    "my_main_msgq (handle_lprunning_lte_sync i s'') = my_main_msgq s''" for s''
    by (simp_all add: handle_lprunning_lte_sync_def)
  have v: "wcfg (handle_lprunning_lte_sync i s'') = wcfg s''" "s_lprunning_active (handle_lprunning_lte_sync i s'') = s_lprunning_active s''"
    "s_lprunning_saved_mode (handle_lprunning_lte_sync i s'') = s_lprunning_saved_mode s''"
    "s_my_msg_info (handle_lprunning_lte_sync i s'') = s_my_msg_info s''" for s''
    using ti(3) [of s''] by (simp_all add: lp_view_def)
  show "s_lprunning_active s'" "timers_ok s'" "wcfg s' = wcfg s" "s_lprunning_saved_mode s' = current_mode (cin i) (work_cfg s)"
    "s_lprunning_hold_off s' = s_lprunning_hold_off s" "s_my_msg_info s' = s_my_msg_info s" "my_main_msgq s' = my_main_msgq s"
    "running MY_TIMER_LPSLEEP s' = Some (of_nat (unat (lp_cfg s ! 3) * 3600000), True, Lprunning_Wakeup_Timer_Callback)"
    "scan_calls s' = scan_calls s @ (if s_my_msg_info s MOD_BLE then [Put MOD_BLE MY_MSG_SCAN_LPSLEEP_ENTER] else [])"
    using assms(1,2) unfolding s'_def handle_lprunning_enter_def Let_def lp_interval by (simp_all add: ti v sc)
qed

text \<open>Leaving it because the battery has recovered.\<close>

lemma exit_result:
  assumes "cfg_ok (wcfg s)" "timers_ok s" "work_mode (s_lprunning_saved_mode s)" "s_lprunning_active s"
  obtains s' where "handle_lprunning_exit i s = Some s'" "\<not> s_lprunning_active s'" "timers_ok s'" "s_lprunning_hold_off s' = s_lprunning_hold_off s"
    "s_lprunning_saved_mode s' = s_lprunning_saved_mode s" "s_my_msg_info s' = s_my_msg_info s" "running MY_TIMER_LPSLEEP s' = None"
    "wcfg s' = (wcfg s)(ZMS_ID_WORK_MODE_CONFIG := mem_put (work_cfg s) 4 (mode_bytes (cin i) (s_lprunning_saved_mode s)))"
    "scan_calls s' = scan_calls s @ (if s_my_msg_info s MOD_BLE then [Put MOD_BLE MY_MSG_SCAN_LPSLEEP_EXIT] else [])"
    "queue_ok (my_main_msgq s) \<Longrightarrow> queue_ok (my_main_msgq s')"
proof -
  let ?m = "s_lprunning_saved_mode s"
  let ?s1 = "(my_stop_timer MY_TIMER_LPSLEEP s)\<lparr>s_lprunning_active := False, s_last_work_mode := MY_MODE_MAX\<rparr>"
  have "?m \<noteq> MY_MODE_MAX" using assms(3) by (auto simp: work_mode_def)
  moreover obtain s2 where s2: "switch_work_mode_internal i ?m ?s1 = Some s2" "timers_ok s2" "\<not> s_lprunning_active s2"
    "s_lprunning_saved_mode s2 = ?m" "s_my_msg_info s2 = s_my_msg_info s" "scan_calls s2 = scan_calls s"
    "running MY_TIMER_LPSLEEP s2 = running MY_TIMER_LPSLEEP ?s1" "s_lprunning_hold_off s2 = s_lprunning_hold_off s"
    "wcfg s2 = (if MY_MODE_MAX = ?m then wcfg s else (wcfg s)(ZMS_ID_WORK_MODE_CONFIG := mem_put (work_cfg s) 4 (mode_bytes (cin i) ?m)))"
    by (rule switch_internal [of ?s1 ?m i]) (use assms in simp_all)
  moreover have "queue_ok (my_main_msgq s) \<Longrightarrow> queue_ok (my_main_msgq s2)" using switch_queue [OF s2(1)] by simp
  ultimately show ?thesis using assms(2,4)
    by (intro that [of "my_send_msg MOD_BLE MY_MSG_SCAN_LPSLEEP_EXIT s2"]) (simp_all add: handle_lprunning_exit_def scan_calls_def send_calls)
qed

lemma enter_ok:
  assumes "main_ok s"
  shows "main_ok (handle_lprunning_enter i s)"
proof (cases "s_lprunning_active s")
  case True
  then show ?thesis using assms by (simp add: handle_lprunning_enter_def)
next
  case False
  let ?s' = "handle_lprunning_enter i s" and ?h = "unat (lp_cfg s ! 3)"
  have c: "cfg_ok (wcfg s)" and t: "timers_ok s" using assms by (simp_all add: main_ok_def)
  note r = enter_result [OF False t, of i]
  have "1 \<le> ?h" "?h \<le> 48" using cfg_lp [OF c] by (simp_all add: Let_def word_le_nat_alt)
  then have "lp_timer_ok ?s'" using r(1,8) unfolding lp_timer_ok_def by auto
  then show ?thesis using r current_mode_ok [OF c] assms by (simp add: main_ok_def)
qed

lemma exit_ok:
  assumes "main_ok s"
  shows "\<exists>s'. handle_lprunning_exit i s = Some s' \<and> main_ok s'"
proof (cases "s_lprunning_active s")
  case True
  have c: "cfg_ok (wcfg s)" and m: "work_mode (s_lprunning_saved_mode s)" and t: "timers_ok s" using assms by (simp_all add: main_ok_def)
  show ?thesis
  proof (rule exit_result [OF c t m True, of i])
    fix s'
    assume r: "handle_lprunning_exit i s = Some s'" "\<not> s_lprunning_active s'" "timers_ok s'"
      "s_lprunning_saved_mode s' = s_lprunning_saved_mode s" "running MY_TIMER_LPSLEEP s' = None"
      "wcfg s' = (wcfg s)(ZMS_ID_WORK_MODE_CONFIG := mem_put (work_cfg s) 4 (mode_bytes (cin i) (s_lprunning_saved_mode s)))"
      "queue_ok (my_main_msgq s) \<Longrightarrow> queue_ok (my_main_msgq s')"
    then show ?thesis using cfg_put_mode [OF c m] m assms by (simp add: main_ok_def lp_timer_ok_def)
  qed
next
  case False
  then show ?thesis using assms by (simp add: handle_lprunning_exit_def)
qed

lemma switch_ok:
  assumes "main_ok s" "work_mode m \<or> m = MY_MODE_SHUTDOWN"
  shows "\<exists>s'. switch_work_mode_internal i m s = Some s' \<and> main_ok s'"
proof -
  have c: "cfg_ok (wcfg s)" and t: "timers_ok s" using assms(1) by (simp_all add: main_ok_def)
  from assms(2) show ?thesis
  proof
    assume m: "work_mode m"
    show ?thesis
    proof (rule switch_internal [OF c t m, of i])
      fix s'
      assume r: "switch_work_mode_internal i m s = Some s'" "timers_ok s'" "\<not> s_lprunning_active s'" "s_lprunning_saved_mode s' = s_lprunning_saved_mode s"
        "running MY_TIMER_LPSLEEP s' = (if s_lprunning_active s then None else running MY_TIMER_LPSLEEP s)"
        "wcfg s' = (if \<not> s_lprunning_active s \<and> s_last_work_mode s = m then wcfg s
          else (wcfg s)(ZMS_ID_WORK_MODE_CONFIG := mem_put (work_cfg s) 4 (mode_bytes (cin i) m)))"
      have "cfg_ok (wcfg s')" using c cfg_put_mode [OF c m] r(6) by presburger
      moreover have "running MY_TIMER_LPSLEEP s' = None" using r(5) assms(1) by (simp add: main_ok_def lp_timer_ok_def split: if_splits)
      ultimately show ?thesis using r switch_queue [OF r(1)] assms(1) by (simp add: main_ok_def lp_timer_ok_def)
    qed
  next
    assume "m = MY_MODE_SHUTDOWN"
    then show ?thesis using assms(1) by (auto simp: switch_work_mode_internal_def leave_lprunning_def main_ok_def lp_timer_ok_def)
  qed
qed

lemma reset_ok:
  assumes "main_ok s"
  shows "\<exists>s'. set_reset_lte_timer i s = Some s' \<and> main_ok s'"
proof -
  have c: "cfg_ok (wcfg s)" and t: "timers_ok s" "queue_ok (my_main_msgq s)" using assms by (simp_all add: main_ok_def)
  have "main_ok (snd (my_start_timer MY_TIMER_LTE_POWER ms False Awaken_Lte_Timer_Callback s))" for ms
    by (rule main_okI [OF assms]) (use t in simp_all)
  then show ?thesis using assms by (rule_tac reset_lte_timer [OF c, of i]) blast+
qed

lemma battery_check_ok:
  assumes "main_ok s"
  shows "\<exists>s'. handle_lprunning_battery_check i s = Some s' \<and> main_ok s'"
  using enter_ok [OF assms, of i] exit_ok [OF assms, of i] assms main_okI [OF assms, of "s\<lparr>s_lprunning_hold_off := False\<rparr>"]
  by (auto simp: handle_lprunning_battery_check_def Let_def lp_view_def main_ok_def)

lemma lte_ok:
  assumes "main_ok s"
  shows "main_ok (send_lte_command i n p s)" "main_ok (main_call c s)" "main_ok (s\<lparr>g_shutdown_request := g\<rparr>)" "main_ok (s\<lparr>s_lteBootReason := r\<rparr>)"
    "main_ok (s\<lparr>s_lprunning_hold_off := h\<rparr>)" "main_msg_ok m \<Longrightarrow> main_ok (my_send_msg d m s)" "main_ok (handle_lprunning_lte_sync i s)"
proof -
  have t: "timers_ok s" "queue_ok (my_main_msgq s)" using assms by (simp_all add: main_ok_def)
  show l: "main_ok (send_lte_command i n p s)" for n p by (rule main_okI [OF assms]) (use t in simp_all)
  show "main_ok (main_call c s)" "main_ok (s\<lparr>g_shutdown_request := g\<rparr>)" "main_ok (s\<lparr>s_lteBootReason := r\<rparr>)" "main_ok (s\<lparr>s_lprunning_hold_off := h\<rparr>)"
    by (rule main_okI [OF assms]; use t in \<open>simp add: lp_view_def\<close>)+
  show "main_msg_ok m \<Longrightarrow> main_ok (my_send_msg d m s)" by (rule main_okI [OF assms]) (use t queue_ok_send in simp_all)
  show "main_ok (handle_lprunning_lte_sync i s)" using l assms by (simp add: handle_lprunning_lte_sync_def)
qed

lemma dispatch_ok:
  assumes "main_ok s" "main_msg_ok m"
  shows "\<exists>s'. main_dispatch i m s = Some s' \<and> main_ok s'"
proof -
  have k: "main_ok (snd (go_to_shutdown j s'))" if "main_ok s'" for j s'
    using that by (simp add: go_to_shutdown_def lte_ok main_msg_ok_def)
  have w: "main_ok (switch_work_mode j MY_MODE_SHUTDOWN s')" if "main_ok s'" for j s'
    using that by (simp add: switch_work_mode_def lte_ok main_msg_ok_def)
  show ?thesis
    using assms switch_ok [OF assms(1), of _ i] exit_ok [OF assms(1), of i] reset_ok [OF assms(1), of i] battery_check_ok [OF assms(1), of i]
    by (induction i m s rule: main_dispatch.induct) (simp_all add: lte_ok enter_ok k w main_msg_ok_def Let_def)
qed

lemma loop_ok:
  assumes "main_ok s"
  shows "\<exists>s'. main_loop_step i s = Some s' \<and> main_ok s'"
proof (cases "my_main_msgq s")
  case (Cons m ms)
  have "main_ok (s\<lparr>my_main_msgq := ms\<rparr>)"
    using assms Cons by (intro main_okI [OF assms]) (auto simp: lp_view_def main_ok_def queue_ok_def)
  moreover have "main_msg_ok m" using assms Cons by (simp add: main_ok_def queue_ok_def)
  ultimately show ?thesis using dispatch_ok Cons by (simp add: main_loop_step_def)
qed (use assms in \<open>simp add: main_loop_step_def\<close>)

lemma timer_ok:
  assumes "main_ok s"
  shows "main_ok (my_stop_timer MY_TIMER_LTE_POWER s)" "main_ok (snd (my_start_timer MY_TIMER_LTE_POWER ms p f s))"
    "main_ok (awaken_lte_timer_callback i s)" "main_ok (lprunning_wakeup_timer_callback i s)"
proof -
  have t: "timers_ok s" "queue_ok (my_main_msgq s)" using assms by (simp_all add: main_ok_def)
  show "main_ok (my_stop_timer MY_TIMER_LTE_POWER s)" "main_ok (snd (my_start_timer MY_TIMER_LTE_POWER ms p f s))"
    by (rule main_okI [OF assms]; use t in simp)+
  show "main_ok (awaken_lte_timer_callback i s)" "main_ok (lprunning_wakeup_timer_callback i s)"
    using assms by (simp_all add: awaken_lte_timer_callback_def lprunning_wakeup_timer_callback_def Let_def lte_ok main_msg_ok_def)
qed

lemma main_step_ok: "main_step s s' \<Longrightarrow> main_ok s \<Longrightarrow> main_ok s'"
proof (induction rule: main_step.induct)
  case (turn i s s')
  then show ?case using loop_ok [of s i] by auto
next
  case (config c s)
  have "lp_timer_ok (s\<lparr>wcfg := c\<rparr>) = lp_timer_ok s" by (simp add: lp_timer_ok_def)
  then show ?case using config by (simp add: main_ok_def)
qed (simp_all add: lte_ok timer_ok)

lemma main_start_ok: "cfg_ok c \<Longrightarrow> main_ok (main_start i mods c)"
  using current_mode_ok [of c "cin i"]
  by (simp add: main_start_def Let_def main_boot_def my_init_msg_handler_def switch_work_mode_def my_send_msg_def main_ok_def timers_ok_def lp_timer_ok_def
    queue_ok_def main_msg_ok_def work_mode_def)

text \<open>A configuration with the low-power running switched on, and the input of a step with a battery level, for the examples.\<close>

definition lp_config :: config where
  "lp_config = default_of(ZMS_ID_LPSLEEP_CONFIG := [FLAG_VALID, 1, 20, 24])"

definition level_in :: "u8 \<Rightarrow> main_in" where
  "level_in p = \<lparr>cin = test_in, get_show_percent = p, get_charge_state_level = 0, my_get_system_time_sec = 0, random_bytes = None\<rparr>"

lemma lp_config_ok: "cfg_ok lp_config"
  unfolding cfg_ok_def
proof
  fix k
  have "img_ok ZMS_ID_LPSLEEP_CONFIG [FLAG_VALID, 1, 20, 24]"
    by (simp add: img_ok_def param_size_def default_of_def param_defaults_def gDefaultlprunningConfig_def)
  then show "img_ok k (lp_config k)" using default_img_ok [of k] by (simp add: lp_config_def)
qed

text \<open>
  C11: The main thread never gets stuck and keeps its state. From the start with a valid configuration, whatever messages arrive, however
  commands change the configuration within its ranges, and whenever timers expire: the next message is always handled with defined behaviour,
  the configuration (with the mode the thread writes into it) stays valid, the queue has at most ten messages, and the timer that wakes the LTE module
  during low-power running runs exactly while that state is active, repeating after 1 to 48 hours.
\<close>

theorem main_thread_invariant:
  assumes "cfg_ok c" "main_step\<^sup>*\<^sup>* (main_start i mods c) s"
  shows "main_loop_step j s \<noteq> None \<and> cfg_ok (wcfg s) \<and> length (my_main_msgq s) \<le> MAIN_MSGQ_SIZE \<and>
    (if s_lprunning_active s
     then \<exists>h. 1 \<le> h \<and> h \<le> 48 \<and> running MY_TIMER_LPSLEEP s = Some (of_nat (h * 3600000), True, Lprunning_Wakeup_Timer_Callback)
     else running MY_TIMER_LPSLEEP s = None)"
proof -
  have ok: "main_ok s" using assms(2)
  proof induction
    case base
    show ?case by (rule main_start_ok [OF assms(1)])
  qed (rule main_step_ok)
  moreover obtain s' where "main_loop_step j s = Some s'" using loop_ok [OF ok] by blast
  ultimately show ?thesis unfolding main_ok_def queue_ok_def lp_timer_ok_def by blast
qed

theorem main_thread_invariant_witness:
  "\<exists>s'. main_loop_step (level_in 10) (my_send_msg MOD_MAIN MY_MSG_LPSLEEP_BATTERY_CHECK (main_start (level_in 50) {MOD_BLE, MOD_LTE, MOD_GSENSOR} lp_config)) = Some s'"
proof -
  let ?s = "main_start (level_in 50) {MOD_BLE, MOD_LTE, MOD_GSENSOR} lp_config"
  have "main_step ?s (my_send_msg MOD_MAIN MY_MSG_LPSLEEP_BATTERY_CHECK ?s)" by (rule main_step.post) (simp add: main_msg_ok_def)
  then have "main_step\<^sup>*\<^sup>* ?s (my_send_msg MOD_MAIN MY_MSG_LPSLEEP_BATTERY_CHECK ?s)" by (rule r_into_rtranclp)
  from main_thread_invariant [OF lp_config_ok this, of "level_in 10"] show ?thesis by blast
qed

section \<open>Low-power running follows the battery\<close>

fun main_events :: "(main_in \<times> main_msg) list \<Rightarrow> main_st \<Rightarrow> main_st option" where
  "main_events [] s = Some s"
| "main_events ((i, m) # es) s = Option.bind (main_dispatch i m s) (main_events es)"

lemma main_events_snoc: "main_events (es @ [(i, m)]) s = Option.bind (main_events es s) (main_dispatch i m)"
  by (induction es s rule: main_events.induct) (auto split: Option.bind_splits)

definition quiet :: "main_msg \<Rightarrow> bool" where
  "quiet m \<longleftrightarrow> m \<notin> range MY_MSG_WORK_MODE_SWITCH \<union> {MY_MSG_LPSLEEP_ENTER, MY_MSG_LPSLEEP_EXIT}"

lemma quiet_dispatch:
  assumes "quiet m" "m \<noteq> MY_MSG_LPSLEEP_BATTERY_CHECK" "cfg_ok (wcfg s)" "timers_ok s"
  shows "\<exists>s'. main_dispatch i m s = Some s' \<and> lp_view s' = lp_view s \<and> timers_ok s' \<and> scan_calls s' = scan_calls s \<and>
    s_lprunning_hold_off s' = (s_lprunning_hold_off s \<and> m \<noteq> MY_MSG_LPSLEEP_CLEAR_HOLD_OFF)"
proof -
  have k: "lp_view (snd (go_to_shutdown j s')) = lp_view s' \<and> timers_ok (snd (go_to_shutdown j s')) = timers_ok s' \<and>
      scan_calls (snd (go_to_shutdown j s')) = scan_calls s' \<and> s_lprunning_hold_off (snd (go_to_shutdown j s')) = s_lprunning_hold_off s'" for j s'
    by (simp add: go_to_shutdown_def)
  have r: "\<exists>s'. set_reset_lte_timer i s = Some s' \<and> lp_view s' = lp_view s \<and> timers_ok s' \<and> scan_calls s' = scan_calls s \<and>
      s_lprunning_hold_off s' = s_lprunning_hold_off s"
    using assms(4) by (rule_tac reset_lte_timer [OF assms(3), of i]) auto
  show ?thesis using assms r
    by (induction i m s rule: main_dispatch.induct)
      (simp_all add: k quiet_def switch_work_mode_def handle_lprunning_lte_sync_def Let_def)
qed

text \<open>Asleep: some reading was below the threshold, and all since then below the threshold plus five.\<close>

definition asleep :: "int \<Rightarrow> int list \<Rightarrow> bool" where
  "asleep th levels \<longleftrightarrow> (\<exists>us p vs. levels = us @ p # vs \<and> p < th \<and> (\<forall>q\<in>set vs. q < th + 5))"

lemma asleep_Nil [simp]: "\<not> asleep th []"
  by (simp add: asleep_def)

lemma asleep_snoc: "asleep th (levels @ [p]) \<longleftrightarrow> p < th \<or> asleep th levels \<and> p < th + 5"
proof
  assume "asleep th (levels @ [p])"
  then obtain us q vs where e: "levels @ [p] = us @ q # vs" "q < th" "\<forall>q\<in>set vs. q < th + 5" unfolding asleep_def by blast
  show "p < th \<or> asleep th levels \<and> p < th + 5"
  proof (cases vs rule: rev_cases)
    case (snoc ws r)
    then show ?thesis using e unfolding asleep_def by auto
  qed (use e in simp)
next
  assume "p < th \<or> asleep th levels \<and> p < th + 5"
  then show "asleep th (levels @ [p])"
  proof
    assume "p < th"
    then show ?thesis unfolding asleep_def by (intro exI [of _ levels] exI [of _ p] exI [of _ "[]"]) simp
  next
    assume "asleep th levels \<and> p < th + 5"
    then obtain us q vs where "levels = us @ q # vs" "q < th" "\<forall>q\<in>set vs. q < th + 5" "p < th + 5" unfolding asleep_def by blast
    then show ?thesis unfolding asleep_def by (intro exI [of _ us] exI [of _ q] exI [of _ "vs @ [p]"]) auto
  qed
qed

definition battery_levels :: "(main_in \<times> main_msg) list \<Rightarrow> int list" where
  "battery_levels es = map (\<lambda>(i, m). sint (get_show_percent i)) (filter (\<lambda>(i, m). m = MY_MSG_LPSLEEP_BATTERY_CHECK) es)"

lemma current_mode_cong: "short_enums i = short_enums j \<Longrightarrow> current_mode i b = current_mode j b"
  by (simp add: current_mode_def)

text \<open>On levels of a percentage the unsigned comparison is the one of the numbers.\<close>

lemma level_compare:
  assumes "0 \<le> sint (p :: u8)" "th \<le> 50"
  shows "(scast p :: u32) \<ge> ucast (th :: u8) + 5 \<longleftrightarrow> uint th + 5 \<le> sint p"
proof -
  have "uint (word_of_int (sint p) :: u32) = sint p mod 2 ^ LENGTH(32)" by (rule uint_word_of_int)
  then have "uint (scast p :: u32) = sint p" using assms(1) sint_lt [of p] by simp
  moreover have "uint (ucast th + 5 :: u32) = uint th + 5"
    using assms(2) by (simp add: uint_word_ariths unsigned_ucast_eq take_bit_int_eq_self word_le_def)
  ultimately show ?thesis by (simp add: word_le_def)
qed

text \<open>What a run of quiet messages keeps, from an awake state \<open>s0\<close> in mode \<open>m\<close>, with the readings so far.\<close>

definition lp_follows :: "cmd_in \<Rightarrow> main_st \<Rightarrow> int \<Rightarrow> int list \<Rightarrow> main_st \<Rightarrow> bool" where
  "lp_follows c s0 m levels s \<longleftrightarrow>
     cfg_ok (wcfg s) \<and> timers_ok s \<and> lp_cfg s = lp_cfg s0 \<and> \<not> s_lprunning_hold_off s \<and> s_my_msg_info s MOD_BLE \<and>
     s_lprunning_active s = asleep (uint (lp_cfg s0 ! 2)) levels \<and> current_mode c (work_cfg s) = m \<and>
     (if s_lprunning_active s
      then s_lprunning_saved_mode s = m \<and> scan_calls s \<noteq> [] \<and> last (scan_calls s) = Put MOD_BLE MY_MSG_SCAN_LPSLEEP_ENTER \<and>
        running MY_TIMER_LPSLEEP s = Some (of_nat (unat (lp_cfg s0 ! 3) * 3600000), True, Lprunning_Wakeup_Timer_Callback)
      else (scan_calls s = scan_calls s0 \<or> last (scan_calls s) = Put MOD_BLE MY_MSG_SCAN_LPSLEEP_EXIT) \<and> running MY_TIMER_LPSLEEP s = None)"

lemma lp_follows_quiet:
  assumes "lp_follows c s0 m levels s" "lp_view s' = lp_view s" "timers_ok s'" "scan_calls s' = scan_calls s" "\<not> s_lprunning_hold_off s'"
  shows "lp_follows c s0 m levels s'"
  using assms unfolding lp_follows_def lp_view_def prod.inject by presburger

lemma lp_follows_check:
  assumes "lp_follows (cin i) s0 m levels s" "lp_cfg s0 ! 1 = 1" "0 \<le> sint (get_show_percent i)"
  shows "\<exists>s'. handle_lprunning_battery_check i s = Some s' \<and> lp_follows (cin i) s0 m (levels @ [sint (get_show_percent i)]) s'"
proof -
  let ?p = "get_show_percent i" and ?th = "lp_cfg s0 ! 2"
  have c: "cfg_ok (wcfg s)" "timers_ok s" "lp_cfg s = lp_cfg s0" "\<not> s_lprunning_hold_off s" "s_my_msg_info s MOD_BLE"
    "s_lprunning_active s = asleep (uint ?th) levels" "current_mode (cin i) (work_cfg s) = m"
    using assms(1) by (simp_all add: lp_follows_def)
  have th: "?th \<le> 50" using cfg_lp [OF c(1)] c(3) by (simp add: Let_def)
  note cmp = level_compare [OF assms(3) th]
  have wm: "work_mode m" using current_mode_ok [OF c(1), of "cin i"] c(7) by simp
  show ?thesis
  proof (cases "s_lprunning_active s")
    case False
    let ?s' = "handle_lprunning_enter i s"
    have "lp_follows (cin i) s0 m (levels @ [sint ?p]) ?s'" if "sint ?p < uint ?th"
      using enter_result [OF False c(2), of i] c that by (simp add: lp_follows_def asleep_snoc)
    moreover have "lp_follows (cin i) s0 m (levels @ [sint ?p]) s" if "\<not> sint ?p < uint ?th"
      using assms(1) False that c(6) by (simp add: lp_follows_def asleep_snoc)
    ultimately show ?thesis using False c assms(2) by (simp add: handle_lprunning_battery_check_def Let_def not_less)
  next
    case True
    have sm: "s_lprunning_saved_mode s = m" using assms(1) True by (simp add: lp_follows_def)
    show ?thesis
    proof (cases "uint ?th + 5 \<le> sint ?p")
      case False
      then have "lp_follows (cin i) s0 m (levels @ [sint ?p]) s" using assms(1) True c(6) by (auto simp: lp_follows_def asleep_snoc)
      then show ?thesis using False True c cmp assms(2) by (simp add: handle_lprunning_battery_check_def Let_def)
    next
      case up: True
      show ?thesis
      proof (rule exit_result [OF c(1,2) _ True, of i])
        show "work_mode (s_lprunning_saved_mode s)" using wm sm by simp
        fix s'
        assume r: "handle_lprunning_exit i s = Some s'" "\<not> s_lprunning_active s'" "timers_ok s'" "s_lprunning_hold_off s' = s_lprunning_hold_off s"
          "s_my_msg_info s' = s_my_msg_info s" "running MY_TIMER_LPSLEEP s' = None"
          "wcfg s' = (wcfg s)(ZMS_ID_WORK_MODE_CONFIG := mem_put (work_cfg s) 4 (mode_bytes (cin i) (s_lprunning_saved_mode s)))"
          "scan_calls s' = scan_calls s @ (if s_my_msg_info s MOD_BLE then [Put MOD_BLE MY_MSG_SCAN_LPSLEEP_EXIT] else [])"
        have "current_mode (cin i) (work_cfg s') = m" using r(7) sm current_mode_put [of "work_cfg s" m "cin i" "cin i"] cfg_work [OF c(1)] wm by simp
        moreover have "cfg_ok (wcfg s')" using r(7) cfg_put_mode [OF c(1) wm] sm by simp
        moreover have "\<not> asleep (uint ?th) (levels @ [sint ?p])" using up by (simp add: asleep_snoc)
        ultimately have "lp_follows (cin i) s0 m (levels @ [sint ?p]) s'" using r c by (simp add: lp_follows_def)
        then show ?thesis using r(1) up True c cmp assms(2) by (simp add: handle_lprunning_battery_check_def Let_def)
      qed
    qed
  qed
qed

lemma lp_follows_cong: "short_enums c = short_enums d \<Longrightarrow> lp_follows c s0 m levels s = lp_follows d s0 m levels s"
  using current_mode_cong [of c d "work_cfg s"] by (simp add: lp_follows_def)

text \<open>
  C12: Low-power running follows the battery. Over any sequence of messages without a manual mode switch, started awake with the function switched on, the
  device is in low-power running exactly if some reading was below the threshold and all later ones stayed below the threshold plus five; the
  work mode at the end is the one at the beginning; while asleep the wake-up timer runs with the configured number of hours; and the last word to the scanner is
  to stop when asleep and to go on when awake again.
\<close>

theorem lprunning_follows_battery:
  assumes "cfg_ok (wcfg s)" "timers_ok s" "lp_cfg s ! 1 = 1" "\<not> s_lprunning_active s" "\<not> s_lprunning_hold_off s" "running MY_TIMER_LPSLEEP s = None"
    "s_my_msg_info s MOD_BLE" "\<forall>(i, m)\<in>set es. quiet m \<and> short_enums (cin i) = short_enums c \<and> 0 \<le> sint (get_show_percent i)"
  shows "\<exists>s'. main_events es s = Some s' \<and> (s_lprunning_active s' \<longleftrightarrow> asleep (uint (lp_cfg s ! 2)) (battery_levels es)) \<and>
    current_mode c (work_cfg s') = current_mode c (work_cfg s) \<and>
    (if s_lprunning_active s'
     then last (scan_calls s') = Put MOD_BLE MY_MSG_SCAN_LPSLEEP_ENTER \<and>
       running MY_TIMER_LPSLEEP s' = Some (of_nat (unat (lp_cfg s ! 3) * 3600000), True, Lprunning_Wakeup_Timer_Callback)
     else (scan_calls s' = scan_calls s \<or> last (scan_calls s') = Put MOD_BLE MY_MSG_SCAN_LPSLEEP_EXIT) \<and> running MY_TIMER_LPSLEEP s' = None)"
proof -
  let ?m = "current_mode c (work_cfg s)"
  have "\<exists>s'. main_events es s = Some s' \<and> lp_follows c s ?m (battery_levels es) s'" using assms(8)
  proof (induction es rule: rev_induct)
    case Nil
    then show ?case using assms by (simp add: lp_follows_def battery_levels_def)
  next
    case (snoc e es)
    obtain i m where e: "e = (i, m)" by (cases e)
    obtain s1 where s1: "main_events es s = Some s1" "lp_follows c s ?m (battery_levels es) s1" using snoc by auto
    have q: "quiet m" "short_enums (cin i) = short_enums c" "0 \<le> sint (get_show_percent i)" using snoc.prems e by auto
    have f: "lp_follows (cin i) s ?m (battery_levels es) s1" using s1(2) lp_follows_cong [OF q(2)] by simp
    show ?case
    proof (cases "m = MY_MSG_LPSLEEP_BATTERY_CHECK")
      case True
      then show ?thesis using lp_follows_check [OF f assms(3) q(3)] s1(1) e lp_follows_cong [OF q(2)] by (simp add: main_events_snoc battery_levels_def)
    next
      case False
      have "cfg_ok (wcfg s1)" "timers_ok s1" "\<not> s_lprunning_hold_off s1" using f by (simp_all add: lp_follows_def)
      then obtain s2 where "main_dispatch i m s1 = Some s2" "lp_view s2 = lp_view s1" "timers_ok s2" "scan_calls s2 = scan_calls s1" "\<not> s_lprunning_hold_off s2"
        using quiet_dispatch [OF q(1) False, of s1 i] by auto
      moreover from this have "lp_follows c s ?m (battery_levels es) s2" using lp_follows_quiet [OF s1(2)] by blast
      ultimately show ?thesis using s1(1) e False by (simp add: main_events_snoc battery_levels_def)
    qed
  qed
  then obtain s' where s': "main_events es s = Some s'" "lp_follows c s ?m (battery_levels es) s'" by blast
  then show ?thesis by (intro exI [of _ s']) (simp add: lp_follows_def)
qed

theorem lprunning_follows_battery_witness:
  "\<exists>s. main_events [(level_in 19, MY_MSG_LPSLEEP_BATTERY_CHECK), (level_in 24, MY_MSG_LPSLEEP_BATTERY_CHECK)] (main_boot {MOD_BLE} lp_config) = Some s \<and>
     s_lprunning_active s \<and> last (scan_calls s) = Put MOD_BLE MY_MSG_SCAN_LPSLEEP_ENTER"
proof -
  let ?es = "[(level_in 19, MY_MSG_LPSLEEP_BATTERY_CHECK), (level_in 24, MY_MSG_LPSLEEP_BATTERY_CHECK)]" and ?s = "main_boot {MOD_BLE} lp_config"
  have st: "cfg_ok (wcfg ?s)" "timers_ok ?s" "lp_cfg ?s ! 1 = 1" "\<not> s_lprunning_active ?s" "\<not> s_lprunning_hold_off ?s" "running MY_TIMER_LPSLEEP ?s = None"
    "s_my_msg_info ?s MOD_BLE" "lp_cfg ?s ! 2 = 20"
    by (simp_all add: main_boot_def lp_config_ok timers_ok_def) (simp_all add: lp_config_def)
  have es: "\<forall>(i, m)\<in>set ?es. quiet m \<and> short_enums (cin i) = short_enums test_in \<and> 0 \<le> sint (get_show_percent i)" "battery_levels ?es = [19, 24]"
    by (auto simp: quiet_def level_in_def battery_levels_def)
  have "asleep 20 [19, 24]" unfolding asleep_def by (intro exI [of _ "[]"] exI [of _ 19] exI [of _ "[24]"]) simp
  then show ?thesis using lprunning_follows_battery [OF st(1-7) es(1)] by (auto simp: st(8) es(2))
qed

section \<open>A manual switch during low-power running\<close>

text \<open>Messages that do not start low-power running: the battery is not below the threshold, and nobody asks for it.\<close>

definition stays_awake :: "u8 \<Rightarrow> main_in \<times> main_msg \<Rightarrow> bool" where
  "stays_awake th e \<longleftrightarrow> (case e of (i, m) \<Rightarrow> main_msg_ok m \<and> m \<noteq> MY_MSG_WORK_MODE_SWITCH (Some MY_MODE_SHUTDOWN) \<and> m \<noteq> MY_MSG_LPSLEEP_ENTER \<and>
     (m = MY_MSG_LPSLEEP_BATTERY_CHECK \<longrightarrow> uint th \<le> sint (get_show_percent i)))"

definition awake_view :: "main_st \<Rightarrow> bool \<times> bytes \<times> main_effect list \<times> bool \<times> bool" where
  "awake_view s = (s_lprunning_active s, lp_cfg s, scan_calls s, cfg_ok (wcfg s), timers_ok s)"

lemma awake_dispatch:
  assumes "stays_awake (lp_cfg s ! 2) (i, m)" "\<not> s_lprunning_active s" "cfg_ok (wcfg s)" "timers_ok s"
  shows "\<exists>s'. main_dispatch i m s = Some s' \<and> awake_view s' = awake_view s"
proof (cases "quiet m \<and> m \<noteq> MY_MSG_LPSLEEP_BATTERY_CHECK")
  case True
  then show ?thesis using quiet_dispatch [of m s i] assms(3,4) by (auto simp: lp_view_def awake_view_def)
next
  case False
  then consider (check) "m = MY_MSG_LPSLEEP_BATTERY_CHECK" | (leave) "m = MY_MSG_LPSLEEP_EXIT" | (null) "m = MY_MSG_WORK_MODE_SWITCH None"
    | (mode) md where "m = MY_MSG_WORK_MODE_SWITCH (Some md)" "work_mode md"
    using assms(1) by (auto simp: quiet_def stays_awake_def main_msg_ok_def split: option.splits)
  then show ?thesis
  proof cases
    case check
    then show ?thesis using assms by (simp add: stays_awake_def handle_lprunning_battery_check_def Let_def awake_view_def)
  next
    case (mode md)
    show ?thesis
    proof (rule switch_internal [OF assms(3,4) mode(2), of i])
      fix s'
      assume r: "switch_work_mode_internal i md s = Some s'" "timers_ok s'" "\<not> s_lprunning_active s'" "scan_calls s' = scan_calls s"
        "wcfg s' = (if \<not> s_lprunning_active s \<and> s_last_work_mode s = md then wcfg s
          else (wcfg s)(ZMS_ID_WORK_MODE_CONFIG := mem_put (work_cfg s) 4 (mode_bytes (cin i) md)))"
      have "cfg_ok (wcfg s')" using assms(3) cfg_put_mode [OF assms(3) mode(2)] r(5) by presburger
      then show ?thesis using r mode(1) assms by (simp add: awake_view_def)
    qed
  qed (use assms(2) in \<open>simp_all add: handle_lprunning_exit_def\<close>)
qed

lemma awake_events:
  assumes "\<forall>e\<in>set es. stays_awake (lp_cfg s ! 2) e" "\<not> s_lprunning_active s" "cfg_ok (wcfg s)" "timers_ok s"
  shows "\<exists>s'. main_events es s = Some s' \<and> awake_view s' = awake_view s"
  using assms
proof (induction es arbitrary: s)
  case (Cons e es)
  obtain i m where e: "e = (i, m)" by (cases e)
  obtain s1 where s1: "main_dispatch i m s = Some s1" "awake_view s1 = awake_view s" using awake_dispatch [of s i m] Cons.prems e by auto
  moreover have "\<exists>s'. main_events es s1 = Some s' \<and> awake_view s' = awake_view s1"
    using Cons.prems s1(2) by (intro Cons.IH) (simp_all add: awake_view_def)
  ultimately show ?case using e by auto
qed simp

text \<open>
  C15: A manual switch of the work mode during low-power running ends it but leaves the scanner stopped. However the device fell asleep and whatever mode is
  requested, and whatever messages follow while the battery stays above the threshold: the device is awake, and the last message to the scanner is
  still the one that stopped it. When the battery ends the low-power running, the scanner is told to go on.
\<close>

theorem manual_switch_leaves_scan_off:
  fixes i j :: main_in and s :: main_st
  assumes "main_ok s" "\<not> s_lprunning_active s" "s_my_msg_info s MOD_BLE" "work_mode md" "\<forall>e\<in>set es. stays_awake (lp_cfg s ! 2) e"
  defines "s1 \<equiv> handle_lprunning_enter i s"
  shows "(\<exists>s2. main_events ((j, MY_MSG_WORK_MODE_SWITCH (Some md)) # es) s1 = Some s2 \<and> \<not> s_lprunning_active s2 \<and>
      scan_calls s2 = scan_calls s @ [Put MOD_BLE MY_MSG_SCAN_LPSLEEP_ENTER]) \<and>
    (\<exists>s2. handle_lprunning_exit j s1 = Some s2 \<and> \<not> s_lprunning_active s2 \<and>
      scan_calls s2 = scan_calls s @ [Put MOD_BLE MY_MSG_SCAN_LPSLEEP_ENTER, Put MOD_BLE MY_MSG_SCAN_LPSLEEP_EXIT])"
proof (intro conjI)
  have c: "cfg_ok (wcfg s)" and t: "timers_ok s" using assms(1) by (simp_all add: main_ok_def)
  note e = enter_result [OF assms(2) t, of i, folded s1_def]
  have c1: "cfg_ok (wcfg s1)" using c e(3) by simp
  have m1: "work_mode (s_lprunning_saved_mode s1)" using current_mode_ok [OF c] e(4) by simp
  show "\<exists>s2. handle_lprunning_exit j s1 = Some s2 \<and> \<not> s_lprunning_active s2 \<and>
      scan_calls s2 = scan_calls s @ [Put MOD_BLE MY_MSG_SCAN_LPSLEEP_ENTER, Put MOD_BLE MY_MSG_SCAN_LPSLEEP_EXIT]"
    by (rule exit_result [OF c1 e(2) m1 e(1), of j]) (use e(6,9) assms(3) in auto)
  show "\<exists>s2. main_events ((j, MY_MSG_WORK_MODE_SWITCH (Some md)) # es) s1 = Some s2 \<and> \<not> s_lprunning_active s2 \<and>
      scan_calls s2 = scan_calls s @ [Put MOD_BLE MY_MSG_SCAN_LPSLEEP_ENTER]"
  proof (rule switch_internal [OF c1 e(2) assms(4), of j])
    fix s'
    assume r: "switch_work_mode_internal j md s1 = Some s'" "timers_ok s'" "\<not> s_lprunning_active s'" "scan_calls s' = scan_calls s1"
      "wcfg s' = (if \<not> s_lprunning_active s1 \<and> s_last_work_mode s1 = md then wcfg s1
        else (wcfg s1)(ZMS_ID_WORK_MODE_CONFIG := mem_put (work_cfg s1) 4 (mode_bytes (cin j) md)))"
    have "cfg_ok (wcfg s')" using c1 cfg_put_mode [OF c1 assms(4)] r(5) by presburger
    moreover have "lp_cfg s' = lp_cfg s" using r(5) e(3) by simp
    ultimately show ?thesis using awake_events [of es s'] assms(3,5) r e(9) by (auto simp: awake_view_def)
  qed
qed

theorem manual_switch_leaves_scan_off_witness:
  "\<exists>s. main_events [(level_in 60, MY_MSG_WORK_MODE_SWITCH (Some MY_MODE_CONTINUOUS)), (level_in 60, MY_MSG_LPSLEEP_BATTERY_CHECK), (level_in 90, MY_MSG_LPSLEEP_EXIT)]
       (handle_lprunning_enter (level_in 10) (main_start (level_in 50) {MOD_BLE} lp_config)) = Some s \<and>
     scan_calls s = [Put MOD_BLE MY_MSG_SCAN_LPSLEEP_ENTER]"
proof -
  let ?s = "main_start (level_in 50) {MOD_BLE} lp_config" and ?es = "[(level_in 60, MY_MSG_LPSLEEP_BATTERY_CHECK), (level_in 90, MY_MSG_LPSLEEP_EXIT)]"
  have ok: "main_ok ?s" by (rule main_start_ok [OF lp_config_ok])
  have s: "\<not> s_lprunning_active ?s" "s_my_msg_info ?s MOD_BLE" "lp_cfg ?s ! 2 = 20" "scan_calls ?s = []"
    by (simp_all add: main_start_def main_boot_def my_init_msg_handler_def switch_work_mode_def my_send_msg_def scan_calls_def level_in_def test_in_def Let_def)
      (simp add: lp_config_def)
  have "\<forall>e\<in>set ?es. stays_awake (lp_cfg ?s ! 2) e" unfolding s(3) by (simp add: stays_awake_def level_in_def main_msg_ok_def)
  from manual_switch_leaves_scan_off [OF ok s(1,2) _ this, of MY_MODE_CONTINUOUS "level_in 60" "level_in 10"] show ?thesis
    by (simp add: work_mode_def s(4)) blast
qed

section \<open>Start times that the command accepts\<close>

lemma dval_inj: "dval c = dval d \<Longrightarrow> c = d"
  by (simp add: dval_def word_uint_eq_iff)

text \<open>Of the start times that are accepted all but one have an hour and a minute of the day.\<close>

lemma accepted_start_time:
  assumes "set_long_battery_params ri t g = Some fs"
  shows "fs = [(16, le32 (ucast ri)), (20, t @ [0]), (25, [g])]" "length t = 4"
    "start_hour t < 24 \<and> start_minute t < 60 \<longleftrightarrow> t \<noteq> ascii ''2400''"
proof -
  note r = long_battery_values [OF assms]
  show "fs = [(16, le32 (ucast ri)), (20, t @ [0]), (25, [g])]" "length t = 4" using r(1,4) by (simp_all add: hhmm_ok_def)
  then obtain a b c d where t: "t = [a, b, c, d]" by (auto simp: length_Suc_conv numeral_eq_Suc)
  have v: "0 \<le> dval x \<and> dval x \<le> 9" if "x \<in> {a, b, c, d}" for x using r(4) dval_bounds that unfolding t by (auto simp: hhmm_ok_def)
  have "start_hour t = 24 \<and> start_minute t = 0 \<longleftrightarrow> t = ascii ''2400''"
  proof
    assume "start_hour t = 24 \<and> start_minute t = 0"
    then have e: "dval a * 10 + dval b = 24" "dval c * 10 + dval d = 0" by (simp_all add: t)
    have r: "0 \<le> dval b \<and> dval b \<le> 9" "0 \<le> dval c" "0 \<le> dval d" using v [of b] v [of c] v [of d] by simp_all
    have "dval a = 2" "dval b = 4" "dval c = 0" "dval d = 0" using e r by presburger+
    moreover have "dval 50 = 2" "dval 52 = 4" "dval 48 = 0" by (simp_all add: dval_def)
    ultimately have "dval a = dval 50" "dval b = dval 52" "dval c = dval 48" "dval d = dval 48" by simp_all
    then show "t = ascii ''2400''" unfolding t by (auto dest!: dval_inj simp: ascii_def)
  qed (simp add: ascii_def dval_def)
  then show "start_hour t < 24 \<and> start_minute t < 60 \<longleftrightarrow> t \<noteq> ascii ''2400''" using r(4) unfolding hhmm_ok_def by linarith
qed

text \<open>
  C14: Every start time of the long battery mode that the command accepts makes the device report at its times, except 24:00. For the others the timer that wakes
  the LTE module is started for at most a day and two minutes, and expires at most two minutes after a report is due. With 2400, which the command accepts, the timer is
  never started, and the device does not wake up to report.
\<close>

theorem long_battery_start_times:
  fixes i :: main_in and s :: main_st
  assumes "cfg_ok (wcfg s)" "set_long_battery_params ri t g = Some fs" "0 \<le> my_get_system_time_sec i"
  defines "s1 \<equiv> s\<lparr>wcfg := (wcfg s)(ZMS_ID_WORK_MODE_CONFIG := put_all fs (work_cfg s))\<rparr>"
  shows "if t = ascii ''2400'' then set_reset_lte_timer i s1 = Some s1
    else \<exists>r q. 0 < r \<and> r \<le> 86520 \<and> q \<le> r \<and> r \<le> q + 120 \<and> report_due (start_second t) (uint ri * 60) (my_get_system_time_sec i + q) \<and>
      set_reset_lte_timer i s1 = Some (snd (my_start_timer MY_TIMER_LTE_POWER (of_int (r * 1000)) False Awaken_Lte_Timer_Callback s1))"
proof -
  let ?b = "work_cfg s"
  have b: "length ?b = 80" "work_mode_ok ?b" using cfg_work [OF assms(1)] by simp_all
  note f = accepted_start_time [OF assms(2)]
  have "img_ok ZMS_ID_WORK_MODE_CONFIG (put_all fs ?b)" using mode_long [OF b assms(2)] b(1) by (simp add: img_ok_mode)
  then have c: "cfg_ok (wcfg s1)" using assms(1) by (simp add: cfg_ok_def s1_def)
  have t: "take 4 (drop 20 (work_cfg s1)) = t"
    using b(1) f(2) by (intro nth_equalityI) (auto simp: s1_def f(1) put_all_simps nth_mem_put nth_append)
  have "u32_at (work_cfg s1) 16 = unat (ucast ri :: u32)"
    using b(1) f(2) by (simp add: s1_def f(1) put_all_simps u32_at_def nth_mem_put le32_def)
  then have u: "int (u32_at (work_cfg s1) 16) = uint ri" by (simp add: unsigned_ucast_eq)
  show ?thesis using reset_lte_timer_cases [OF c, of i] assms(3) f(3) unfolding t u by (auto split: if_splits)
qed

theorem long_battery_start_times_witness:
  "set_long_battery_params 60 (ascii ''2400'') 1 = Some [(16, le32 60), (20, ascii ''2400'' @ [0]), (25, [1])] \<and>
   (let s = (main_boot {MOD_LTE} lp_config)\<lparr>wcfg := lp_config(ZMS_ID_WORK_MODE_CONFIG :=
      put_all [(16, le32 60), (20, ascii ''2400'' @ [0]), (25, [1])] (lp_config ZMS_ID_WORK_MODE_CONFIG))\<rparr>
    in set_reset_lte_timer (level_in 50) s = Some s)"
proof -
  let ?fs = "[(16, le32 60), (20, ascii ''2400'' @ [0]), (25, [1])]"
  have p: "set_long_battery_params 60 (ascii ''2400'') 1 = Some ?fs" by code_simp
  have w: "wcfg (main_boot {MOD_LTE} lp_config) = lp_config" "my_get_system_time_sec (level_in 50) = 0" by (simp_all add: main_boot_def level_in_def)
  show ?thesis using p long_battery_start_times [of "main_boot {MOD_LTE} lp_config", OF _ p, of "level_in 50"] by (simp add: w lp_config_ok Let_def)
qed

end
