(* ===== verification/Motion.thy ===== *)
theory Motion
  imports Work_Mode Complex_Main
begin

text \<open>
  The motion sensor, \<open>my_gsensor.c\<close>: the sliding window of motion interrupts, the judgement of motion, its
  alarms and the power policy of the LTE module in the smart mode, the overturn check, and the power of the sensor.
  The sensor driver is outside the repository: its results are inputs. The angles of the overturn check are inputs too,
  the floating-point computation of the attitude is not modelled; alarms are recorded.
\<close>

section \<open>State\<close>

abbreviation (input) TIMESTAMP_QUEUE_SIZE :: nat where "TIMESTAMP_QUEUE_SIZE \<equiv> 500"
abbreviation (input) MY_IMU_HZ :: int where "MY_IMU_HZ \<equiv> 100"

datatype gsensor_state = STATE_UNKNOWN | STATE_STATIC | STATE_MOTION

record sliding_window =
  timestamps :: "u32 list"
  sw_head :: nat
  sw_tail :: nat

record gsensor =
  g_int_window :: sliding_window
  sensor_ready :: bool
  last_gsensor_state :: gsensor_state
  current_gsensor_state :: gsensor_state
  time_count :: int
  s_is_over_turn :: bool
  s_gsensor_power_state :: bool
  gs_main :: main_st
  gs_alarms :: "alarm_type list"

section \<open>The sliding window\<close>

definition sliding_window_add_int :: "u32 \<Rightarrow> sliding_window \<Rightarrow> sliding_window" where
  "sliding_window_add_int current_time w =
     (let next_head = (sw_head w + 1) mod TIMESTAMP_QUEUE_SIZE;
          w1 = (if next_head = sw_tail w then w\<lparr>sw_tail := (sw_tail w + 1) mod TIMESTAMP_QUEUE_SIZE\<rparr> else w)
      in w1\<lparr>timestamps := (timestamps w1)[sw_head w1 := current_time], sw_head := (sw_head w1 + 1) mod TIMESTAMP_QUEUE_SIZE\<rparr>)"

text \<open>Expired interrupts are dropped from the tail; the loop ends at the first one that counts.\<close>

partial_function (option) sliding_window_update_tail :: "u32 \<Rightarrow> u32 \<Rightarrow> sliding_window \<Rightarrow> sliding_window option" where
  "sliding_window_update_tail current_time window_size_ms w =
     (if sw_tail w = sw_head w then Some w
      else if current_time - timestamps w ! sw_tail w \<le> window_size_ms then Some w
      else sliding_window_update_tail current_time window_size_ms (w\<lparr>sw_tail := (sw_tail w + 1) mod TIMESTAMP_QUEUE_SIZE\<rparr>))"

function count_loop :: "nat \<Rightarrow> nat \<Rightarrow> nat \<Rightarrow> nat" where
  "count_loop head i count =
     (if i = head then count
      else if count + 1 \<ge> TIMESTAMP_QUEUE_SIZE then count + 1
      else count_loop head ((i + 1) mod TIMESTAMP_QUEUE_SIZE) (count + 1))"
  by auto
termination by (relation "measure (\<lambda>(head, i, count). TIMESTAMP_QUEUE_SIZE - count)") auto

declare count_loop.simps [simp del]

definition sliding_window_get_count :: "u32 \<Rightarrow> u32 \<Rightarrow> sliding_window \<Rightarrow> (nat \<times> sliding_window) option" where
  "sliding_window_get_count current_time window_size_ms w = do {
     w1 \<leftarrow> sliding_window_update_tail current_time window_size_ms w;
     Some (if sw_tail w1 = sw_head w1 then 0 else count_loop (sw_head w1) (sw_tail w1) 0, w1) }"

definition motdet_vibration :: "config \<Rightarrow> nat" where
  "motdet_vibration c = u16_at (c ZMS_ID_MOT_DET_CONFIG) 2"

definition motdet_window :: "config \<Rightarrow> u32" where
  "motdet_window c = of_nat (u16_at (c ZMS_ID_MOT_DET_CONFIG) 4 * 1000)"

definition sliding_window_judge_state :: "config \<Rightarrow> u32 \<Rightarrow> sliding_window \<Rightarrow> (gsensor_state \<times> sliding_window) option" where
  "sliding_window_judge_state c current_time w =
     map_option (\<lambda>(int_count, w1). (if int_count \<ge> motdet_vibration c then STATE_MOTION else STATE_STATIC, w1))
       (sliding_window_get_count current_time (motdet_window c) w)"

section \<open>Motion and the LTE module\<close>

text \<open>By sub mode: the LTE module stays on at rest, in motion.\<close>

definition s_smart_sub_mode_table :: "(bool \<times> bool) list" where
  "s_smart_sub_mode_table = [(False, False), (False, True), (False, True), (True, True), (True, True), (True, True)]"

definition smart_mode_apply_lte_policy :: "gsensor_state \<Rightarrow> main_st \<Rightarrow> main_st option" where
  "smart_mode_apply_lte_policy state s =
     (let b = work_cfg s; sub_mode = unat (b ! 28); is_moving = (state \<noteq> STATE_STATIC);
          raw_interval = (of_nat (u32_at b (if is_moving then 56 + 4 * sub_mode else 32 + 4 * sub_mode)) :: u32)
      in if sub_mode \<ge> 6 then None
         else if \<not> is_moving \<and> raw_interval = 0 then Some (my_stop_timer MY_TIMER_LTE_POWER s)
         else
           let cell_always_on = (if is_moving then snd else fst) (s_smart_sub_mode_table ! sub_mode);
               s1 = my_send_msg MOD_LTE MY_MSG_LTE_PWRON s
           in Some (if cell_always_on then my_stop_timer MY_TIMER_LTE_POWER s1
                    else snd (my_start_timer MY_TIMER_LTE_POWER (raw_interval * 1000) True Awaken_Lte_Timer_Callback s1)))"

definition send_alarm :: "alarm_type \<Rightarrow> gsensor \<Rightarrow> gsensor" where
  "send_alarm a g = g\<lparr>gs_alarms := gs_alarms g @ [a]\<rparr>"

definition get_motion_status :: "gsensor \<Rightarrow> gsensor option" where
  "get_motion_status g =
     (let state = current_gsensor_state g;
          g1 = (if wcfg (gs_main g) ZMS_ID_MOTDETALM_CONFIG ! 1 \<noteq> 0
                then send_alarm (if state = STATE_STATIC then alarm_type.ALARM_MOVE_START else alarm_type.ALARM_MOVE_STOP) g else g)
      in map_option (\<lambda>m. g1\<lparr>gs_main := m\<rparr>) (smart_mode_apply_lte_policy state (gs_main g1)))"

text \<open>The interrupts are counted twice, the clock is read each time.\<close>

definition my_gsensor_motion_state_check :: "u32 \<Rightarrow> u32 \<Rightarrow> gsensor \<Rightarrow> gsensor option" where
  "my_gsensor_motion_state_check now1 now2 g =
     (if \<not> sensor_ready g then Some g
      else do {
        let c = wcfg (gs_main g);
        (int_count, w1) \<leftarrow> sliding_window_get_count now1 (motdet_window c) (g_int_window g);
        (state, w2) \<leftarrow> sliding_window_judge_state c now2 w1;
        let g1 = g\<lparr>g_int_window := w2, current_gsensor_state := state\<rparr>;
        if last_gsensor_state g1 \<noteq> state then get_motion_status (g1\<lparr>last_gsensor_state := state\<rparr>) else Some g1 })"

definition gsensor_int_handler :: "bool \<Rightarrow> u32 \<Rightarrow> gsensor \<Rightarrow> gsensor" where
  "gsensor_int_handler any_motion now g = (if any_motion then g\<lparr>g_int_window := sliding_window_add_int now (g_int_window g)\<rparr> else g)"

section \<open>Overturning\<close>

text \<open>The angles are finite; a threshold of 255 is switched off.\<close>

definition over_limit :: "u8 \<Rightarrow> rat \<Rightarrow> bool" where
  "over_limit th angle \<longleftrightarrow> \<bar>angle\<bar> > of_int (uint th) \<and> th \<noteq> 255"

definition under_limit :: "u8 \<Rightarrow> rat \<Rightarrow> bool" where
  "under_limit th angle \<longleftrightarrow> \<bar>angle\<bar> < of_int (uint th) \<or> th = 255"

definition my_gsensor_overturn_check :: "rat \<times> rat \<times> rat \<Rightarrow> gsensor \<Rightarrow> gsensor" where
  "my_gsensor_overturn_check = (\<lambda>(roll, pitch, yaw) g.
     let b = wcfg (gs_main g) ZMS_ID_IMU_ALM_CONFIG in
     if b ! 1 = 0 then g\<lparr>s_is_over_turn := False, time_count := 0\<rparr>
     else if \<not> s_is_over_turn g \<and> (over_limit (b ! 3) roll \<or> over_limit (b ! 4) pitch \<or> over_limit (b ! 5) yaw)
     then if time_count g + 1 > uint (b ! 6) * MY_IMU_HZ
          then send_alarm alarm_type.ALARM_FILP (g\<lparr>s_is_over_turn := True, time_count := 0\<rparr>)
          else g\<lparr>time_count := time_count g + 1\<rparr>
     else if s_is_over_turn g \<and> under_limit (b ! 3) roll \<and> under_limit (b ! 4) pitch \<and> under_limit (b ! 5) yaw
     then if time_count g + 1 > uint (b ! 8) * MY_IMU_HZ
          then send_alarm alarm_type.ALARM_FILP_BACK (g\<lparr>s_is_over_turn := False, time_count := 0\<rparr>)
          else g\<lparr>time_count := time_count g + 1\<rparr>
     else g\<lparr>time_count := 0\<rparr>)"

text \<open>A failed reading of the sensor changes nothing.\<close>

definition my_gsensor_read_data :: "(rat \<times> rat \<times> rat) option \<Rightarrow> gsensor \<Rightarrow> gsensor" where
  "my_gsensor_read_data angles g = (case angles of None \<Rightarrow> g | Some e \<Rightarrow> my_gsensor_overturn_check e g)"

section \<open>The power of the sensor\<close>

definition gsensor_is_required_mode :: "cmd_in \<Rightarrow> gsensor \<Rightarrow> bool" where
  "gsensor_is_required_mode i g \<longleftrightarrow> current_mode i (work_cfg (gs_main g)) \<in> {MY_MODE_SMART, MY_MODE_CONTINUOUS, MY_MODE_ALWAYS_ONLINE}"

text \<open>The pin is only set when the state changes; its result decides whether the state is noted.\<close>

definition my_gsensor_pwr_on :: "int \<Rightarrow> bool \<Rightarrow> gsensor \<Rightarrow> int \<times> gsensor" where
  "my_gsensor_pwr_on err on g =
     (if s_gsensor_power_state g = on then (0, g)
      else if err = 0 then (err, g\<lparr>s_gsensor_power_state := on\<rparr>) else (err, g))"

abbreviation (input) MY_TIMER_GSENSOR_STATE_CHECK :: int where "MY_TIMER_GSENSOR_STATE_CHECK \<equiv> 15"
abbreviation (input) MY_TIMER_GSENSOR_ALGORITHM :: int where "MY_TIMER_GSENSOR_ALGORITHM \<equiv> 16"

text \<open>The set-up of the motion interrupt: a list of results of the driver, the first failure is returned; then the timers are started.\<close>

fun first_error :: "int list \<Rightarrow> int" where
  "first_error [] = 0"
| "first_error (r # rs) = (if r \<noteq> 0 then r else first_error rs)"

definition gsensor_motion_int_config :: "int list \<Rightarrow> gsensor \<Rightarrow> int \<times> gsensor" where
  "gsensor_motion_int_config driver g =
     (if first_error driver \<noteq> 0 then (first_error driver, g)
      else (0, g\<lparr>gs_main := snd (my_start_timer MY_TIMER_GSENSOR_ALGORITHM 10 True (Other_Timer_Callback 1)
        (snd (my_start_timer MY_TIMER_GSENSOR_STATE_CHECK 2000 True (Other_Timer_Callback 0) (gs_main g))))\<rparr>))"

record imu_in =
  imu_init_ok :: bool
  chip_found :: bool
  imu_config :: "int list"

definition my_bmi325_init :: "cmd_in \<Rightarrow> imu_in \<Rightarrow> gsensor \<Rightarrow> int \<times> gsensor" where
  "my_bmi325_init i d g =
     (if \<not> imu_init_ok d then (-19, g)
      else if \<not> chip_found d then (-19, g)
      else
        let (ret, g1) = (if gsensor_is_required_mode i g then gsensor_motion_int_config (imu_config d) g else (0, g))
        in if ret \<noteq> 0 then (-19, g1) else (0, g1\<lparr>sensor_ready := True\<rparr>))"

definition gsensor_pm_init :: "int \<Rightarrow> gsensor \<Rightarrow> int \<times> gsensor" where
  "gsensor_pm_init err g = (case my_gsensor_pwr_on err False g of (e, g1) \<Rightarrow> if e \<noteq> 0 then (e, g1) else (0, g1\<lparr>sensor_ready := False\<rparr>))"

definition gsensor_pm_suspend :: "int \<Rightarrow> gsensor \<Rightarrow> int \<times> gsensor" where
  "gsensor_pm_suspend err g =
     (0, snd (my_gsensor_pwr_on err False (g\<lparr>sensor_ready := False,
       gs_main := my_stop_timer MY_TIMER_GSENSOR_ALGORITHM (my_stop_timer MY_TIMER_GSENSOR_STATE_CHECK (gs_main g))\<rparr>)))"

text \<open>Up to three attempts; each has its own results of the driver.\<close>

fun init_attempts :: "cmd_in \<Rightarrow> imu_in list \<Rightarrow> gsensor \<Rightarrow> int \<times> gsensor" where
  "init_attempts i [] g = (-19, g)"
| "init_attempts i (d # ds) g = (case my_bmi325_init i d g of (ret, g1) \<Rightarrow> if ret = 0 then (0, g1) else init_attempts i ds g1)"

definition gsensor_pm_resume :: "cmd_in \<Rightarrow> int \<Rightarrow> int \<Rightarrow> imu_in \<times> imu_in \<times> imu_in \<Rightarrow> gsensor \<Rightarrow> int \<times> gsensor" where
  "gsensor_pm_resume i on_err off_err = (\<lambda>(d1, d2, d3) g.
     let (result, g1) = init_attempts i [d1, d2, d3] (snd (my_gsensor_pwr_on on_err True g))
     in if result \<noteq> 0 then (-5, (snd (my_gsensor_pwr_on off_err False g1))\<lparr>sensor_ready := False\<rparr>) else (0, g1))"

section \<open>The window as a queue of times\<close>

text \<open>The ring holds the times \<open>q\<close>, the oldest at the tail.\<close>

definition window_of :: "sliding_window \<Rightarrow> u32 list \<Rightarrow> bool" where
  "window_of w q \<longleftrightarrow> length (timestamps w) = TIMESTAMP_QUEUE_SIZE \<and> sw_tail w < TIMESTAMP_QUEUE_SIZE \<and> length q < TIMESTAMP_QUEUE_SIZE \<and>
     sw_head w = (sw_tail w + length q) mod TIMESTAMP_QUEUE_SIZE \<and>
     (\<forall>k < length q. timestamps w ! ((sw_tail w + k) mod TIMESTAMP_QUEUE_SIZE) = q ! k)"

lemma window_empty: "window_of w q \<Longrightarrow> sw_tail w = sw_head w \<longleftrightarrow> q = []"
  using ring_index_eq_iff [of "sw_tail w" 500 0 "length q"] by (auto simp: window_of_def)

lemma window_drop:
  assumes "window_of w (x # q)"
  shows "window_of (w\<lparr>sw_tail := (sw_tail w + 1) mod TIMESTAMP_QUEUE_SIZE\<rparr>) q" "timestamps w ! sw_tail w = x"
proof -
  have k: "timestamps w ! ((sw_tail w + k) mod 500) = (x # q) ! k" if "k < Suc (length q)" for k using assms that by (simp add: window_of_def)
  have "timestamps w ! (((sw_tail w + 1) mod 500 + k) mod 500) = q ! k" if "k < length q" for k
    using k [of "Suc k"] that by (simp add: mod_add_left_eq)
  then show "window_of (w\<lparr>sw_tail := (sw_tail w + 1) mod TIMESTAMP_QUEUE_SIZE\<rparr>) q" using assms by (simp add: window_of_def mod_add_left_eq)
  show "timestamps w ! sw_tail w = x" using k [of 0] assms by (simp add: window_of_def)
qed

text \<open>The loops end: the one that drops expired times, and the one that counts.\<close>

lemma update_tail_window:
  "window_of w q \<Longrightarrow> \<exists>w'. sliding_window_update_tail now sz w = Some w' \<and> window_of w' (dropWhile (\<lambda>t. \<not> now - t \<le> sz) q)"
proof (induction q arbitrary: w)
  case Nil
  then show ?case using window_empty [OF Nil] by (subst sliding_window_update_tail.simps) simp
next
  case (Cons x q)
  have ne: "sw_tail w \<noteq> sw_head w" using window_empty [OF Cons.prems] by simp
  note d = window_drop [OF Cons.prems]
  show ?case using Cons.IH [OF d(1)] Cons.prems ne d(2) by (subst sliding_window_update_tail.simps) simp
qed

lemma count_loop_window:
  assumes "h = (i + n) mod TIMESTAMP_QUEUE_SIZE" "i < TIMESTAMP_QUEUE_SIZE" "n + c < TIMESTAMP_QUEUE_SIZE"
  shows "count_loop h i c = n + c"
  using assms
proof (induction n arbitrary: i c)
  case 0
  then show ?case by (subst count_loop.simps) simp
next
  case (Suc n)
  have "i \<noteq> h" using ring_index_eq_iff [of i 500 0 "Suc n"] Suc.prems by simp
  moreover have "count_loop h ((i + 1) mod 500) (c + 1) = n + (c + 1)" using Suc.prems by (intro Suc.IH) (simp_all add: mod_add_left_eq)
  ultimately show ?case using Suc.prems by (subst count_loop.simps) simp
qed

lemma get_count_window:
  assumes "window_of w q"
  shows "\<exists>w'. let q' = dropWhile (\<lambda>t. \<not> now - t \<le> sz) q in
    sliding_window_get_count now sz w = Some (length q', w') \<and> window_of w' q'"
proof -
  let ?q = "dropWhile (\<lambda>t. \<not> now - t \<le> sz) q"
  obtain w' where w: "sliding_window_update_tail now sz w = Some w'" "window_of w' ?q" using update_tail_window [OF assms] by blast
  have "count_loop (sw_head w') (sw_tail w') 0 = length ?q + 0" using w(2) by (intro count_loop_window) (simp_all add: window_of_def)
  then show ?thesis using w window_empty [OF w(2)] by (auto simp: sliding_window_get_count_def Let_def)
qed

text \<open>A new time; when the ring holds 499 the oldest goes.\<close>

lemma add_int_window:
  assumes "window_of w q"
  shows "window_of (sliding_window_add_int t w) ((if length q = 499 then drop 1 q else q) @ [t])"
proof -
  have put: "window_of (v\<lparr>timestamps := (timestamps v)[sw_head v := t], sw_head := (sw_head v + 1) mod TIMESTAMP_QUEUE_SIZE\<rparr>) (p @ [t])"
    if "window_of v p" "length p < 499" for v p
  proof -
    have "(timestamps v)[sw_head v := t] ! ((sw_tail v + k) mod 500) = (p @ [t]) ! k" if "k < Suc (length p)" for k
      using that \<open>window_of v p\<close> \<open>length p < 499\<close> ring_index_eq_iff [of "sw_tail v" 500 k "length p"]
      by (cases "k = length p") (auto simp: window_of_def nth_append)
    then show ?thesis using that by (simp add: window_of_def mod_Suc_eq)
  qed
  have full: "(sw_head w + 1) mod 500 = sw_tail w \<longleftrightarrow> length q = 499"
  proof (cases "length q = 499")
    case False
    then show ?thesis using assms ring_index_eq_iff [of "sw_tail w" 500 0 "Suc (length q)"] by (auto simp: window_of_def mod_Suc_eq)
  qed (use assms in \<open>simp add: window_of_def mod_Suc_eq\<close>)
  show ?thesis
  proof (cases q)
    case (Cons x p)
    show ?thesis
    proof (cases "length q = 499")
      case True
      then show ?thesis using put [OF window_drop(1) [OF assms [unfolded Cons]]] full Cons by (simp add: sliding_window_add_int_def)
    next
      case False
      then show ?thesis using put [OF assms] full assms by (simp add: sliding_window_add_int_def window_of_def)
    qed
  qed (use put [OF assms] full in \<open>simp add: sliding_window_add_int_def\<close>)
qed

section \<open>What the window counts\<close>

text \<open>
  The abstract view: all interrupts so far in the order of their times, of which the ring holds a suffix \<open>q\<close>. What it does not hold any more has
  expired, or 499 later ones are there.
\<close>

definition alive :: "int \<Rightarrow> int \<Rightarrow> int \<Rightarrow> bool" where
  "alive win now t \<longleftrightarrow> now - t \<le> win"

definition holds_recent :: "int \<Rightarrow> int \<Rightarrow> int list \<Rightarrow> int list \<Rightarrow> bool" where
  "holds_recent win now ints q \<longleftrightarrow> sorted ints \<and> (\<forall>t\<in>set ints. t \<le> now) \<and> length q \<le> 499 \<and>
     (\<exists>ds. ints = ds @ q \<and> (length q = 499 \<or> (\<forall>t\<in>set ds. \<not> alive win now t)))"

lemma dropWhile_sorted: "sorted q \<Longrightarrow> dropWhile (\<lambda>t. \<not> alive win now t) q = filter (alive win now) q"
proof (induction q)
  case (Cons x q)
  then show ?case by (cases "alive win now x") (auto simp: alive_def intro!: filter_True [symmetric])
qed simp

lemma recent_later: "holds_recent win now ints q \<Longrightarrow> now \<le> now' \<Longrightarrow> holds_recent win now' ints q"
  by (fastforce simp: holds_recent_def alive_def)

lemma recent_add:
  assumes "holds_recent win now ints q"
  shows "holds_recent win now (ints @ [now]) ((if length q = 499 then drop 1 q else q) @ [now])"
proof -
  obtain ds where d: "ints = ds @ q" "length q = 499 \<or> (\<forall>t\<in>set ds. \<not> alive win now t)" using assms by (auto simp: holds_recent_def)
  have s: "sorted (ints @ [now])" "\<forall>t\<in>set (ints @ [now]). t \<le> now" "length q \<le> 499" using assms by (auto simp: holds_recent_def sorted_append)
  show ?thesis
  proof (cases "length q = 499")
    case True
    then have "ints @ [now] = (ds @ take 1 q) @ (drop 1 q @ [now])" using d(1) by (metis append.assoc append_take_drop_id)
    then show ?thesis using s True by (simp only: holds_recent_def if_True) (intro conjI exI [of _ "ds @ take 1 q"], simp_all)
  next
    case False
    then show ?thesis using s d by (auto simp: holds_recent_def)
  qed
qed

lemma recent_check:
  assumes "holds_recent win now ints q"
  shows "holds_recent win now ints (filter (alive win now) q)" "length (filter (alive win now) q) = min 499 (length (filter (alive win now) ints))"
proof -
  obtain ds where d: "ints = ds @ q" "length q = 499 \<or> (\<forall>t\<in>set ds. \<not> alive win now t)" using assms by (auto simp: holds_recent_def)
  have s: "sorted ints" "\<forall>t\<in>set ints. t \<le> now" "length q \<le> 499" "sorted q" using assms d by (auto simp: holds_recent_def sorted_append)
  have le: "x \<le> y" if "x \<in> set ds" "y \<in> set q" for x y using s(1) d(1) that by (simp add: sorted_append)
  let ?q = "filter (alive win now) q"
  have split: "q = takeWhile (\<lambda>t. \<not> alive win now t) q @ ?q" using takeWhile_dropWhile_id [of "\<lambda>t. \<not> alive win now t" q] dropWhile_sorted [OF s(4)] by simp
  have lq: "length ?q \<le> 499" by (rule order_trans [OF length_filter_le s(3)])
  have all: "\<forall>t\<in>set q. alive win now t" if "x \<in> set ds" "alive win now x" for x using le [OF that(1)] that(2) by (force simp: alive_def)
  have dead: "(length ?q = 499 \<and> ?q = q) \<or> (\<forall>t\<in>set ds. \<not> alive win now t)"
  proof (cases "\<forall>t\<in>set ds. \<not> alive win now t")
    case False
    then obtain x where "x \<in> set ds" "alive win now x" by blast
    then have "?q = q" using all by (intro filter_True) blast
    then show ?thesis using False d(2) by simp
  qed simp
  show "length ?q = min 499 (length (filter (alive win now) ints))"
    using dead lq d(1) by (auto simp: filter_empty_conv)
  have "\<forall>t\<in>set (ds @ takeWhile (\<lambda>t. \<not> alive win now t) q). \<not> alive win now t" if "\<forall>t\<in>set ds. \<not> alive win now t"
    using that by (auto dest: set_takeWhileD)
  then show "holds_recent win now ints ?q" using dead s lq d(1) split unfolding holds_recent_def by (metis append.assoc)
qed

text \<open>The times of the clock, 32 bits of milliseconds, over less than its period.\<close>

lemma age_word:
  assumes "t \<le> now" "now - t < 2 ^ 32"
  shows "(of_int now - of_int t :: u32) \<le> w \<longleftrightarrow> alive (uint w) now t"
proof -
  have "uint (word_of_int (now - t) :: u32) = (now - t) mod 2 ^ LENGTH(32)" by (rule uint_word_of_int)
  then have "uint (of_int now - of_int t :: u32) = now - t" using assms by simp
  then show ?thesis by (simp add: word_le_def alive_def)
qed

definition window_recent :: "int \<Rightarrow> u32 \<Rightarrow> int \<Rightarrow> int list \<Rightarrow> sliding_window \<Rightarrow> bool" where
  "window_recent t0 win now ints w \<longleftrightarrow> (\<exists>q. window_of w (map of_int q) \<and> holds_recent (uint win) now ints q) \<and> (\<forall>t\<in>set ints. t0 \<le> t) \<and> now < t0 + 2 ^ 32"

lemma window_recent_check:
  assumes "window_recent t0 win now ints w"
  shows "\<exists>w'. sliding_window_get_count (of_int now) win w = Some (min 499 (length (filter (alive (uint win) now) ints)), w') \<and> window_recent t0 win now ints w'"
proof -
  obtain q where q: "window_of w (map of_int q)" "holds_recent (uint win) now ints q" using assms by (auto simp: window_recent_def)
  have l: "now < t0 + 2 ^ 32" "\<forall>t\<in>set ints. t0 \<le> t" using assms by (simp_all add: window_recent_def)
  have i: "\<forall>t\<in>set ints. t \<le> now" "set q \<subseteq> set ints" using q(2) by (auto simp: holds_recent_def)
  have b: "t \<le> now \<and> now - t < 2 ^ 32" if "t \<in> set q" for t
  proof -
    have "t0 \<le> t" "t \<le> now" using that i l(2) by auto
    then show ?thesis using l(1) by linarith
  qed
  have "sorted q" using q(2) by (auto simp: holds_recent_def sorted_append)
  moreover have "dropWhile ((\<lambda>t. \<not> of_int now - t \<le> win) \<circ> of_int) q = dropWhile (\<lambda>t. \<not> alive (uint win) now t) q"
    using b by (intro dropWhile_cong refl) (simp add: age_word)
  ultimately have "dropWhile (\<lambda>t. \<not> of_int now - t \<le> win) (map of_int q) = map of_int (filter (alive (uint win) now) q)"
    by (simp only: dropWhile_map dropWhile_sorted)
  then show ?thesis using get_count_window [OF q(1), of "of_int now" win] recent_check [OF q(2)] assms
    unfolding window_recent_def Let_def by (metis (no_types, lifting) length_map)
qed

section \<open>Motion is detected\<close>

lemma window_recent_later: "window_recent t0 win now ints w \<Longrightarrow> now \<le> now' \<Longrightarrow> now' < t0 + 2 ^ 32 \<Longrightarrow> window_recent t0 win now' ints w"
  unfolding window_recent_def using recent_later by blast

lemma window_recent_add:
  assumes "window_recent t0 win now ints w" "t0 \<le> now"
  shows "window_recent t0 win now (ints @ [now]) (sliding_window_add_int (of_int now) w)"
proof -
  obtain q where q: "window_of w (map of_int q)" "holds_recent (uint win) now ints q" using assms by (auto simp: window_recent_def)
  let ?q = "(if length q = 499 then drop 1 q else q) @ [now]"
  have "map of_int ?q = (if length (map of_int q :: u32 list) = 499 then drop 1 (map of_int q) else map of_int q) @ [of_int now :: u32]" by (simp add: drop_map)
  then have "window_of (sliding_window_add_int (of_int now) w) (map of_int ?q)" using add_int_window [OF q(1), of "of_int now"] by simp
  then have "\<exists>q. window_of (sliding_window_add_int (of_int now) w) (map of_int q) \<and> holds_recent (uint win) now (ints @ [now]) q" using recent_add [OF q(2)] by blast
  then show ?thesis using assms by (simp add: window_recent_def)
qed

text \<open>The judgement changes the LTE timers and sends messages, but keeps the configuration.\<close>

lemma policy_keeps:
  assumes "cfg_ok (wcfg s)"
  shows "\<exists>s'. smart_mode_apply_lte_policy st s = Some s' \<and> wcfg s' = wcfg s"
proof -
  have "unat (work_cfg s ! 28) < 6" using cfg_work [OF assms] by (simp add: work_mode_ok_def word_le_nat_alt)
  then show ?thesis by (simp add: smart_mode_apply_lte_policy_def Let_def)
qed

lemma motion_status_keeps:
  assumes "cfg_ok (wcfg (gs_main g))"
  shows "\<exists>g'. get_motion_status g = Some g' \<and> wcfg (gs_main g') = wcfg (gs_main g) \<and> g_int_window g' = g_int_window g \<and> sensor_ready g' = sensor_ready g \<and>
    current_gsensor_state g' = current_gsensor_state g \<and> last_gsensor_state g' = last_gsensor_state g \<and>
    gs_alarms g' = gs_alarms g @ (if wcfg (gs_main g) ZMS_ID_MOTDETALM_CONFIG ! 1 \<noteq> 0
      then [if current_gsensor_state g = STATE_STATIC then alarm_type.ALARM_MOVE_START else alarm_type.ALARM_MOVE_STOP] else [])"
  using policy_keeps [OF assms, of "current_gsensor_state g"] by (auto simp: get_motion_status_def Let_def send_alarm_def simp del: One_nat_def)

text \<open>One check: the judgement, and an alarm if it has changed.\<close>

lemma motion_check:
  assumes "cfg_ok (wcfg (gs_main g))" "sensor_ready g" "window_recent t0 (motdet_window c) now ints (g_int_window g)" "c = wcfg (gs_main g)"
    "now \<le> t1" "t1 \<le> t2" "t2 < t0 + 2 ^ 32"
  shows "\<exists>g'. my_gsensor_motion_state_check (of_int t1) (of_int t2) g = Some g' \<and> wcfg (gs_main g') = c \<and> sensor_ready g' \<and>
    window_recent t0 (motdet_window c) t2 ints (g_int_window g') \<and> last_gsensor_state g' = current_gsensor_state g' \<and>
    current_gsensor_state g' = (if motdet_vibration c \<le> min 499 (length (filter (alive (uint (motdet_window c)) t2) ints)) then STATE_MOTION else STATE_STATIC) \<and>
    gs_alarms g' = gs_alarms g @ (if last_gsensor_state g \<noteq> current_gsensor_state g' \<and> c ZMS_ID_MOTDETALM_CONFIG ! 1 \<noteq> 0
      then [if current_gsensor_state g' = STATE_STATIC then alarm_type.ALARM_MOVE_START else alarm_type.ALARM_MOVE_STOP] else [])"
proof -
  have r1: "window_recent t0 (motdet_window c) t1 ints (g_int_window g)" using window_recent_later [OF assms(3,5)] assms(6,7) by simp
  then obtain n1 w1 where w1: "sliding_window_get_count (of_int t1) (motdet_window c) (g_int_window g) = Some (n1, w1)" "window_recent t0 (motdet_window c) t1 ints w1"
    using window_recent_check [OF r1] by blast
  have r2: "window_recent t0 (motdet_window c) t2 ints w1" by (rule window_recent_later [OF w1(2) assms(6,7)])
  define n where "n = min 499 (length (filter (alive (uint (motdet_window c)) t2) ints))"
  define st where "st = (if motdet_vibration c \<le> n then STATE_MOTION else STATE_STATIC)"
  obtain w2 where w2: "sliding_window_get_count (of_int t2) (motdet_window c) w1 = Some (n, w2)" "window_recent t0 (motdet_window c) t2 ints w2"
    using window_recent_check [OF r2] unfolding n_def by blast
  let ?g1 = "g\<lparr>g_int_window := w2, current_gsensor_state := st\<rparr>"
  have j: "sliding_window_judge_state c (of_int t2) w1 = Some (st, w2)" using w2(1) by (simp add: sliding_window_judge_state_def st_def)
  have e: "my_gsensor_motion_state_check (of_int t1) (of_int t2) g =
      (if last_gsensor_state g \<noteq> st then get_motion_status (?g1\<lparr>last_gsensor_state := st\<rparr>) else Some ?g1)"
    using assms(2,4) w1(1) j by (simp add: my_gsensor_motion_state_check_def)
  show ?thesis
  proof (cases "last_gsensor_state g = st")
    case True
    then show ?thesis using e assms(2,4) w2(2) unfolding n_def [symmetric] st_def [symmetric] by simp
  next
    case False
    then show ?thesis using e assms(1,2,4) w2(2) motion_status_keeps [of "?g1\<lparr>last_gsensor_state := st\<rparr>"]
      unfolding n_def [symmetric] st_def [symmetric] by (auto simp del: One_nat_def)
  qed
qed

datatype motion_event = Interrupt int | Check int int

fun motion_do :: "motion_event \<Rightarrow> gsensor \<Rightarrow> gsensor option" where
  "motion_do (Interrupt t) g = Some (gsensor_int_handler True (of_int t) g)"
| "motion_do (Check t1 t2) g = my_gsensor_motion_state_check (of_int t1) (of_int t2) g"

fun motion_run :: "motion_event list \<Rightarrow> gsensor \<Rightarrow> gsensor option" where
  "motion_run [] g = Some g"
| "motion_run (e # es) g = Option.bind (motion_do e g) (motion_run es)"

lemma motion_run_snoc: "motion_run (es @ [e]) g = Option.bind (motion_run es g) (motion_do e)"
  by (induction es g rule: motion_run.induct) (auto split: Option.bind_splits)

fun event_times :: "motion_event list \<Rightarrow> int list" where
  "event_times [] = []"
| "event_times (Interrupt t # es) = t # event_times es"
| "event_times (Check t1 t2 # es) = t1 # t2 # event_times es"

fun interrupts :: "motion_event list \<Rightarrow> int list" where
  "interrupts [] = []"
| "interrupts (Interrupt t # es) = t # interrupts es"
| "interrupts (Check t1 t2 # es) = interrupts es"

lemma events_append [simp]:
  "event_times (es @ fs) = event_times es @ event_times fs" "interrupts (es @ fs) = interrupts es @ interrupts fs"
  by (induction es rule: event_times.induct) auto

lemma motion_run_recent:
  assumes "cfg_ok (wcfg (gs_main g))" "sensor_ready g" "window_of (g_int_window g) []" "sorted (t0 # event_times es)" "last (t0 # event_times es) < t0 + 2 ^ 32"
  shows "\<exists>g'. motion_run es g = Some g' \<and> wcfg (gs_main g') = wcfg (gs_main g) \<and> sensor_ready g' \<and>
    window_recent t0 (motdet_window (wcfg (gs_main g))) (last (t0 # event_times es)) (interrupts es) (g_int_window g')"
  using assms(4,5)
proof (induction es rule: rev_induct)
  case Nil
  then show ?case using assms by (simp add: window_recent_def holds_recent_def)
next
  case (snoc e es)
  let ?c = "wcfg (gs_main g)" and ?now = "last (t0 # event_times es)"
  have s: "sorted (t0 # event_times es)" using snoc.prems(1) by (auto simp: sorted_append)
  have t0: "t0 \<le> ?now" using s last_in_set [of "t0 # event_times es"] by auto
  have le: "?now \<le> t" if "t \<in> set (event_times [e])" for t
    using snoc.prems(1) that last_in_set [of "t0 # event_times es"] by (auto simp: sorted_append)
  have lt: "?now < t0 + 2 ^ 32"
    using snoc.prems(2) le [of "last (event_times [e])"] by (cases e) (auto split: if_splits)
  obtain g1 where g1: "motion_run es g = Some g1" "wcfg (gs_main g1) = ?c" "sensor_ready g1"
      "window_recent t0 (motdet_window ?c) ?now (interrupts es) (g_int_window g1)"
    using snoc.IH [OF s lt] by blast
  show ?case
  proof (cases e)
    case (Interrupt t)
    have "window_recent t0 (motdet_window ?c) t (interrupts es) (g_int_window g1)"
      using window_recent_later [OF g1(4), of t] le [of t] snoc.prems(2) Interrupt by simp
    then show ?thesis using window_recent_add [of t0 _ t] g1 Interrupt t0 le [of t] by (simp add: motion_run_snoc gsensor_int_handler_def)
  next
    case (Check t1 t2)
    have tm: "?now \<le> t1" "t1 \<le> t2" "t2 < t0 + 2 ^ 32" using le [of t1] snoc.prems Check by (simp_all add: sorted_append)
    have c1: "cfg_ok (wcfg (gs_main g1))" using assms(1) g1(2) by simp
    obtain g2 where "my_gsensor_motion_state_check (of_int t1) (of_int t2) g1 = Some g2" "wcfg (gs_main g2) = ?c" "sensor_ready g2"
        "window_recent t0 (motdet_window ?c) t2 (interrupts es) (g_int_window g2)"
      using motion_check [OF c1 g1(3,4) g1(2) [symmetric] tm] by blast
    then show ?thesis using g1(1) Check by (simp add: motion_run_snoc)
  qed
qed

text \<open>
  C13: Motion is detected exactly by the number of recent interrupts. For any sequence of motion interrupts and checks over less than the period of the clock, a check finds the device
  in motion exactly if the number of interrupts within the configured time, of which the ring holds at most 499, reaches the configured number; every loop over the ring ends. With the
  configured number 500, which the command accepts, the device is never found in motion.
\<close>

theorem motion_detected_iff:
  assumes "cfg_ok (wcfg (gs_main g))" "sensor_ready g" "window_of (g_int_window g) []" "sorted (t0 # event_times es @ [t1, t2])" "t2 < t0 + 2 ^ 32"
  defines "c \<equiv> wcfg (gs_main g)"
  shows "\<exists>g'. motion_run (es @ [Check t1 t2]) g = Some g' \<and>
    (current_gsensor_state g' = STATE_MOTION \<longleftrightarrow> motdet_vibration c \<le> min 499 (length (filter (\<lambda>t. t2 - t \<le> 1000 * int (u16_at (c ZMS_ID_MOT_DET_CONFIG) 4)) (interrupts es))))"
proof -
  have s: "sorted (t0 # event_times es)" using assms(4) by (auto simp: sorted_append)
  have l: "last (t0 # event_times es) \<le> t1" "t1 \<le> t2" using assms(4) last_in_set [of "t0 # event_times es"] by (auto simp: sorted_append)
  then have "last (t0 # event_times es) < t0 + 2 ^ 32" using assms(5) by linarith
  from motion_run_recent [OF assms(1-3) s this] obtain g1 where g1: "motion_run es g = Some g1" "wcfg (gs_main g1) = c" "sensor_ready g1"
      "window_recent t0 (motdet_window c) (last (t0 # event_times es)) (interrupts es) (g_int_window g1)"
    unfolding c_def by blast
  have c1: "cfg_ok (wcfg (gs_main g1))" using assms(1) g1(2) by (simp add: c_def)
  obtain g2 where g2: "my_gsensor_motion_state_check (of_int t1) (of_int t2) g1 = Some g2"
      "current_gsensor_state g2 = (if motdet_vibration c \<le> min 499 (length (filter (alive (uint (motdet_window c)) t2) (interrupts es))) then STATE_MOTION else STATE_STATIC)"
    using motion_check [OF c1 g1(3,4) g1(2) [symmetric] l assms(5)] by blast
  have "uint (motdet_window c) = 1000 * int (u16_at (c ZMS_ID_MOT_DET_CONFIG) 4)"
  proof -
    have "u16_at (c ZMS_ID_MOT_DET_CONFIG) 4 < 65536" unfolding u16_at_def by (rule unat_u16_lt)
    moreover have "uint (of_nat n :: u32) = int n" if "n < 2 ^ 32" for n using that by (simp add: unsigned_of_nat take_bit_nat_eq_self)
    ultimately show ?thesis unfolding motdet_window_def by (simp del: of_nat_mult)
  qed
  then have "alive (uint (motdet_window c)) t2 = (\<lambda>t. t2 - t \<le> 1000 * int (u16_at (c ZMS_ID_MOT_DET_CONFIG) 4))" by (simp add: alive_def fun_eq_iff)
  then show ?thesis using g1(1) g2 by (simp add: motion_run_snoc)
qed

text \<open>The variables at power-up, with a sensor that has come up.\<close>

definition gsensor_boot :: "main_st \<Rightarrow> gsensor" where
  "gsensor_boot m = \<lparr>g_int_window = \<lparr>timestamps = replicate TIMESTAMP_QUEUE_SIZE 0, sw_head = 0, sw_tail = 0\<rparr>, sensor_ready = False,
     last_gsensor_state = STATE_STATIC, current_gsensor_state = STATE_STATIC, time_count = 0, s_is_over_turn = False, s_gsensor_power_state = False,
     gs_main = m, gs_alarms = []\<rparr>"

definition moving_test :: gsensor where
  "moving_test = (gsensor_boot (main_start (level_in 50) {MOD_LTE} lp_config))\<lparr>sensor_ready := True\<rparr>"

lemma moving_test_facts:
  "wcfg (gs_main moving_test) = lp_config" "sensor_ready moving_test" "window_of (g_int_window moving_test) []" "last_gsensor_state moving_test = STATE_STATIC"
  "gs_alarms moving_test = []"
  by (simp_all add: moving_test_def gsensor_boot_def main_start_def main_boot_def my_init_msg_handler_def switch_work_mode_def Let_def window_of_def)

lemma moving_test_config:
  "motdet_vibration lp_config = 5" "u16_at (lp_config ZMS_ID_MOT_DET_CONFIG) 4 = 10" "lp_config ZMS_ID_MOTDETALM_CONFIG ! 1 = 1"
  by (simp_all add: motdet_vibration_def lp_config_def default_of_def param_defaults_def gDefaultMotDetConfig_def gDefaultMotDetAlmConfig_def u16_at_def unat_of_le16 le16_def)

theorem motion_detected_iff_witness:
  "\<exists>g. motion_run [Interrupt 1000, Interrupt 1200, Interrupt 1400, Interrupt 1600, Interrupt 1800, Check 3000 3001] moving_test = Some g \<and>
     current_gsensor_state g = STATE_MOTION"
  using motion_detected_iff [of moving_test 0 "[Interrupt 1000, Interrupt 1200, Interrupt 1400, Interrupt 1600, Interrupt 1800]" 3000 3001]
  by (simp add: moving_test_facts moving_test_config lp_config_ok)

text \<open>
  C16: The alarms for the start and the end of a motion are interchanged. Whatever happened before, a check that changes the judgement sends exactly one alarm when alarms are switched on; it is
  the one for the end of a motion when the device has begun to move, and the one for the start when it has come to rest.
\<close>

theorem motion_alarms_interchanged:
  assumes "cfg_ok (wcfg (gs_main g))" "sensor_ready g" "window_of (g_int_window g) []" "sorted (t0 # event_times es @ [t1, t2])" "t2 < t0 + 2 ^ 32"
    "wcfg (gs_main g) ZMS_ID_MOTDETALM_CONFIG ! 1 = 1"
  shows "\<exists>g1 g2. motion_run es g = Some g1 \<and> motion_run (es @ [Check t1 t2]) g = Some g2 \<and>
    gs_alarms g2 = gs_alarms g1 @ (if last_gsensor_state g1 = current_gsensor_state g2 then []
      else if current_gsensor_state g2 = STATE_MOTION then [alarm_type.ALARM_MOVE_STOP] else [alarm_type.ALARM_MOVE_START])"
proof -
  let ?c = "wcfg (gs_main g)"
  have s: "sorted (t0 # event_times es)" using assms(4) by (auto simp: sorted_append)
  have l: "last (t0 # event_times es) \<le> t1" "t1 \<le> t2" using assms(4) last_in_set [of "t0 # event_times es"] by (auto simp: sorted_append)
  then have "last (t0 # event_times es) < t0 + 2 ^ 32" using assms(5) by linarith
  from motion_run_recent [OF assms(1-3) s this] obtain g1 where g1: "motion_run es g = Some g1" "wcfg (gs_main g1) = ?c" "sensor_ready g1"
      "window_recent t0 (motdet_window ?c) (last (t0 # event_times es)) (interrupts es) (g_int_window g1)"
    by blast
  have c1: "cfg_ok (wcfg (gs_main g1))" using assms(1) g1(2) by simp
  obtain g2 where g2: "my_gsensor_motion_state_check (of_int t1) (of_int t2) g1 = Some g2" "current_gsensor_state g2 \<in> {STATE_MOTION, STATE_STATIC}"
      "gs_alarms g2 = gs_alarms g1 @ (if last_gsensor_state g1 \<noteq> current_gsensor_state g2 \<and> ?c ZMS_ID_MOTDETALM_CONFIG ! 1 \<noteq> 0
        then [if current_gsensor_state g2 = STATE_STATIC then alarm_type.ALARM_MOVE_START else alarm_type.ALARM_MOVE_STOP] else [])"
    using motion_check [OF c1 g1(3,4) g1(2) [symmetric] l assms(5)] by force
  have "motion_run (es @ [Check t1 t2]) g = Some g2" using g1(1) g2(1) by (simp add: motion_run_snoc)
  moreover have "gs_alarms g2 = gs_alarms g1 @ (if last_gsensor_state g1 = current_gsensor_state g2 then []
      else if current_gsensor_state g2 = STATE_MOTION then [alarm_type.ALARM_MOVE_STOP] else [alarm_type.ALARM_MOVE_START])"
    using g2(2,3) assms(6) by auto
  ultimately show ?thesis using g1(1) by blast
qed

theorem motion_alarms_interchanged_witness:
  "\<exists>g. motion_run [Interrupt 1000, Interrupt 1200, Interrupt 1400, Interrupt 1600, Interrupt 1800, Check 3000 3001] moving_test = Some g \<and>
     gs_alarms g = (if current_gsensor_state g = STATE_MOTION then [alarm_type.ALARM_MOVE_STOP] else
       if current_gsensor_state g = STATE_STATIC then [] else [alarm_type.ALARM_MOVE_START])"
  using motion_alarms_interchanged [of moving_test 0 "[Interrupt 1000, Interrupt 1200, Interrupt 1400, Interrupt 1600, Interrupt 1800]" 3000 3001]
  by (auto simp: moving_test_facts moving_test_config lp_config_ok gsensor_int_handler_def simp del: One_nat_def split: if_splits)

section \<open>Overturning\<close>

text \<open>
  The device lies over: the alarm comes with the first sample after the configured number of seconds, at a hundred samples per second, and not before.
\<close>

lemma overturn_alarm:
  fixes g :: gsensor
  defines "b \<equiv> wcfg (gs_main g) ZMS_ID_IMU_ALM_CONFIG"
  assumes "b ! 1 \<noteq> 0" "\<not> s_is_over_turn g" "time_count g = 0" "\<forall>(r, p, y)\<in>set es. over_limit (b ! 3) r \<or> over_limit (b ! 4) p \<or> over_limit (b ! 5) y"
    "int (length es) \<le> uint (b ! 6) * MY_IMU_HZ + 1"
  shows "fold my_gsensor_overturn_check es g = (if int (length es) \<le> uint (b ! 6) * MY_IMU_HZ then g\<lparr>time_count := int (length es)\<rparr>
    else send_alarm alarm_type.ALARM_FILP (g\<lparr>s_is_over_turn := True, time_count := 0\<rparr>))"
  using assms(5,6)
proof (induction es rule: rev_induct)
  case Nil
  then show ?case using assms(4) by simp
next
  case (snoc e es)
  obtain r p y where e: "e = (r, p, y)" by (cases e)
  have "fold my_gsensor_overturn_check es g = g\<lparr>time_count := int (length es)\<rparr>" using snoc by simp
  then show ?case using snoc.prems assms(2-4) e by (auto simp: my_gsensor_overturn_check_def Let_def b_def [symmetric] simp del: One_nat_def)
qed

end
