(* ===== verification/Spec2Isabelle.thy ===== *)
theory Spec2Isabelle
  imports Ring_Buf Crc Upload Ota_Flash Dfu_Jimi Dfu_Lte_Safety Scan_Module Tool_Text Ctrl Parmac Lte_Retrans Motion
begin

text \<open>
  \<^bold>\<open>Verification of the LL320D tracker firmware\<close>

  The program is the application firmware in \<^verbatim>\<open>src/nrf/applications/LL320D_EM01_BLE\<close>: a tracker with a Bluetooth part
  (an nRF54L15 that runs this code on an RTOS) and an LTE module on a serial line. File names below are relative to that
  directory. The device scans for tags and samples sensors, keeps the results in a ring of flash sectors while the LTE module is asleep, and
  sends them later as text commands; it is updated over Bluetooth or over the LTE line.

  \<^bold>\<open>Parts and theories\<close>

  \<^item> \<^verbatim>\<open>Prelude\<close>: words, memory blocks with checked bounds, little-endian fields, decimal text, shared lemmas.
  \<^item> \<^verbatim>\<open>Ring_Buf\<close> (\<^verbatim>\<open>src/my_ring_buf.c\<close>): the byte ring between interrupt and thread. A locale states the queue contract, which
    whole calls of write and read refine. The bodies of both are also given as small steps with one access to the shared ring each, which compute the
    calls when nothing interrupts them and lose nothing when one producer and one consumer interleave.
  \<^item> \<^verbatim>\<open>Crc\<close> (\<^verbatim>\<open>src/my_tool.c\<close>, \<^verbatim>\<open>src/my_ymodem.c\<close>): CRC16, CRC32 and checksums; table-driven and bitwise forms agree, a
    corrupted byte is detected.
  \<^item> \<^verbatim>\<open>Flash_Device\<close>, \<^verbatim>\<open>Flash_Store\<close>, \<^verbatim>\<open>Upload\<close> (\<^verbatim>\<open>src/my_flash_store.c\<close>, two functions of \<^verbatim>\<open>src/my_zms_param.c\<close>):
    the record store, its region invariant, and its contract as a source of uploads (locale \<open>upload_source\<close>): a session delivers
    the oldest records in order and commit or rewind lose nothing. Also what a restart keeps, and an overrun of the staging buffer.
  \<^item> \<^verbatim>\<open>Ota_Flash\<close> (\<^verbatim>\<open>src/my_ota_flash.c\<close>): the image sink with block buffer, read-back check and exclusive session.
  \<^item> \<^verbatim>\<open>Dfu_Jimi\<close> (\<^verbatim>\<open>src/my_dfu_jimi.c\<close>): the update over Bluetooth: request sizes, completion, timeouts, errors.
  \<^item> \<^verbatim>\<open>Ymodem\<close>, \<^verbatim>\<open>Ymodem_Props\<close>, \<^verbatim>\<open>Ymodem_Session\<close>, \<^verbatim>\<open>Ymodem_Safety\<close> (\<^verbatim>\<open>src/my_ymodem.c\<close>): sender and receiver
    over the callbacks of the io structure; round trip of frames, a receiver session against an orderly sender (locale \<open>orderly_line\<close>), and what
    the receiver keeps of any invariant of its callbacks against an arbitrary line (locale \<open>callback_inv\<close>).
  \<^item> \<^verbatim>\<open>Pm\<close> (\<^verbatim>\<open>src/my_pm.c\<close>): device power states and the use counts of the buses, with an account of every user that a failed release
    or a failed resume leaves behind.
  \<^item> \<^verbatim>\<open>Lte_Queue\<close>, \<^verbatim>\<open>Lte_Uart\<close> (\<^verbatim>\<open>src/my_lte.c\<close>): the queue of waiting messages, the assembly of lines, the serial line
    with its power management, and the loop of the LTE thread.
  \<^item> \<^verbatim>\<open>Lte_Retrans\<close> (\<^verbatim>\<open>src/my_lte.c\<close>): the repetition of commands that are not answered, and the pairing of late answers with
    their requesters.
  \<^item> \<^verbatim>\<open>Dfu_Lte\<close>, \<^verbatim>\<open>Dfu_Lte_Safety\<close> (\<^verbatim>\<open>src/my_dfu_lte.c\<close>): the update over the LTE line, composed of line, YModem receiver and
    image sink: an orderly transfer completes with the image stored, and no transfer whatever reports a damaged image as long as writes succeed.
  \<^item> \<^verbatim>\<open>Sensor_Upload\<close>, \<^verbatim>\<open>Scan_Adv\<close>, \<^verbatim>\<open>Tag_Upload\<close>, \<^verbatim>\<open>Scan_Module\<close> (\<^verbatim>\<open>src/my_ble_scan.c\<close>): sensor samples and their
    upload in packets; the advertisement parsers; the tables of tags and MAC entries and their upload; the module as a whole, with its message handler and
    the invariant of all reachable states. They use the record store through its contract.
  \<^item> \<^verbatim>\<open>Battery\<close> (\<^verbatim>\<open>src/my_battery.c\<close>, lamps and battery messages of \<^verbatim>\<open>src/my_ctrl.c\<close>): sampling, percentage, the displayed
    value and its reports, charge detection and lamp modes, over the power manager; the invariant of all reachable states, and
    where the display settles when the battery is steady.
  \<^item> \<^verbatim>\<open>Ctrl\<close> (\<^verbatim>\<open>src/my_ctrl.c\<close>): alarm messages, range alarms and their rate, sampling and its answers, key presses, light sensors and the patterns of
    the buzzer.
  \<^item> \<^verbatim>\<open>Tool_Text\<close> (\<^verbatim>\<open>src/my_tool.c\<close>): the text and time helpers of the command layer: fields, hexadecimal text, MAC addresses,
    coordinates, dates and the time to the next report, each against a reference definition or as a round trip.
  \<^item> \<^verbatim>\<open>Param\<close> (\<^verbatim>\<open>src/my_zms_param.c\<close>): the parameters, each group as the bytes of its structure: defaults, loading, setters, factory
    reset. The locale \<open>param_setter\<close> states what a setter does to its group and the storage, and every setter of the code interprets it; the documented
    ranges are the predicate \<open>img_ok\<close>.
  \<^item> \<^verbatim>\<open>Cmd_Parse\<close>, \<^verbatim>\<open>Cmd_Setting\<close>, \<^verbatim>\<open>Cmd_Props\<close>, \<^verbatim>\<open>Parmac\<close> (\<^verbatim>\<open>src/my_cmd_setting.c\<close>, its entries in \<^verbatim>\<open>src/my_ble_app.c\<close> and
    \<^verbatim>\<open>src/my_lte.c\<close>, the address list of \<^verbatim>\<open>src/my_ble_scan.c\<close>): the splitting of command texts, every command with its checks, stores,
    answers and calls; the device as a step relation of commands, setters and restarts that find their storage, whose reachable states have all
    parameters in range; that all commands but two queries have no undefined behaviour; the address list as a list.
  \<^item> \<^verbatim>\<open>Work_Mode\<close> (\<^verbatim>\<open>src/main.c\<close>): the main thread with messages and timers, the work modes, the wake-up timer of the long battery mode, shutting down and
    the low-power running that follows the battery; an invariant of all interleavings of its loop with other threads, commands and timers.
  \<^item> \<^verbatim>\<open>Motion\<close> (\<^verbatim>\<open>src/my_gsensor.c\<close>): the window of motion interrupts as a queue of times, the judgement of motion with its alarms and the power policy of
    the smart mode, the overturn check and the power of the sensor.

  \<^bold>\<open>How the code is modelled\<close>

  Structures are records, enumerations datatypes, integers words of their width where they can wrap and naturals where a bound is proved.
  A C function is a function that takes the state and returns the result and the new state. Accesses outside an array are the result \<open>None\<close> of an
  option type; return codes are integers. A loop with a bound is a function with a termination proof. A loop that ends only if its environment
  lets it end is a \<^theory_text>\<open>partial_function\<close> with result \<open>None\<close> if it does not, and the theorems show that it does return. No fuel is used.

  Code outside the repository is a parameter: flash and key-value drivers, runtime power management, UART driver and packet buffers are records of
  functions with their contracts as hypotheses (\<open>store_env_ok\<close>, \<open>zms_contract\<close>, \<open>net_buf_ok\<close> and similar), each with a concrete instance in the witnesses.
  Semaphores, allocations and Bluetooth calls succeed or fail by scripts of the state, so that every outcome is covered; so does the message queue of the main
  thread, which is modelled itself. The scan module and the commands record what they post to the LTE thread, whose queue is taken to have room.
  Log output is left out.

  \<^bold>\<open>Properties\<close>

  Each property stands after a text block that starts with its number. The main ones: uploads deliver every record once and in order (record store, sensor
  packets, tag rounds); updates complete with the image in flash and, in the other direction, what is reported as updated has been written; protocols
  time out and release what they hold; parsers and buffers stay within their arrays on every input; invariants of bus use, transmit semaphore,
  the scan module, the main thread and all stored parameters; what is stored is what a restart loads; the device sleeps and wakes with its battery.
  Some theorems prove defects: the overrun of the staging buffer, tags lost during an upload, an update over a dead flash that is reported as successful, a lost
  first YModem frame, a masked power error, bus users lost by failing releases, a display that stays below a slightly higher battery, queries that print a missing argument, reads past a frame or a line buffer, a first battery reading of twice the voltage, a battery monitor that one lost message stops,
  temperatures below zero shown as thousands of degrees,
  a repeated setting that is reported as a failure, a deleted address that comes back, a scanner that stays off after a switch of the mode, a start time that stops all
  reports, interchanged alarms of a motion.

  \<^bold>\<open>Not modelled\<close>

  Motion processing (\<^verbatim>\<open>src/my_gsensor_algorithm.c\<close>) is floating-point signal processing. Drivers and connection handling
  (\<^verbatim>\<open>src/my_ble_core.c\<close>, \<^verbatim>\<open>src/my_ble_app.c\<close>, \<^verbatim>\<open>src/my_wdt.c\<close>), the start-up calls, shell and log are glue around the RTOS.
  The second serial line (\<^verbatim>\<open>src/my_magnetic_uart.c\<close>) is built like the one of the LTE module. The handlers of
  \<^verbatim>\<open>src/my_lte.c\<close> other than the one that runs a command compose messages for the LTE module and are left out.
  Of \<^verbatim>\<open>src/my_tool.c\<close> the clock and the floating-point distance, and of \<^verbatim>\<open>src/my_ctrl.c\<close> the status text and the set-up of the pins, are left out.
\<close>

end
